(* ===== verification/Prelude.thy ===== *)
theory Prelude
  imports Main "HOL-Library.Word" "HOL-Library.Signed_Division"
begin

text \<open>
  Shared vocabulary of the development: machine integers, the error strings of
  \<^verbatim>\<open>include/wasm3.h\<close> as a datatype, results as sums (the \<^verbatim>\<open>_try\<close>/\<^verbatim>\<open>_throw\<close>
  macros of \<^verbatim>\<open>include/m3_exception.h\<close>), C strings, and the generic lemmas on words
  and lists that the component theories use.
\<close>

unbundle bit_operations_syntax

section \<open>Machine integers\<close>

type_synonym u8 = "8 word"
type_synonym u16 = "16 word"
type_synonym u32 = "32 word"
type_synonym u64 = "64 word"

named_theorems reader_bounds \<open>a reader stays between its cursor and its end\<close>
named_theorems m3_result \<open>inversion of results of the sequencing combinators\<close>

section \<open>Errors\<close>

text \<open>
  One constructor per \<^verbatim>\<open>m3Err_*\<close> constant that the modelled code returns;
  \<open>M3Msg\<close> carries the ad-hoc message strings, and \<open>C_undefined\<close> marks the points
  where the C code has undefined behaviour (a null dereference, an access outside an
  array, a shift by the operand's width): the model stops there with that value.
\<close>

datatype m3_error =
    m3Err_mallocFailed | m3Err_incompatibleWasmVersion | m3Err_wasmMalformed
  | m3Err_misorderedWasmSection | m3Err_wasmUnderrun | m3Err_wasmMissingInitExpr
  | m3Err_lebOverflow | m3Err_missingUTF8 | m3Err_wasmSectionUnderrun
  | m3Err_wasmSectionOverrun | m3Err_invalidTypeId | m3Err_tooManyMemorySections
  | m3Err_tooManyArgsRets | m3Err_moduleNotLinked | m3Err_moduleAlreadyLinked
  | m3Err_functionLookupFailed | m3Err_functionImportMissing
  | m3Err_malformedFunctionSignature | m3Err_noCompiler | m3Err_unknownOpcode
  | m3Err_restrictedOpcode | m3Err_functionStackOverflow | m3Err_functionStackUnderrun
  | m3Err_mallocFailedCodePage | m3Err_settingImmutableGlobal | m3Err_typeMismatch
  | m3Err_typeCountMismatch | m3Err_missingCompiledCode | m3Err_wasmMemoryOverflow
  | m3Err_globalMemoryNotAllocated | m3Err_globaIndexOutOfBounds
  | m3Err_argumentCountMismatch | m3Err_argumentTypeMismatch | m3Err_globalLookupFailed
  | m3Err_globalTypeMismatch | m3Err_globalNotMutable
  | m3Err_trapOutOfBoundsMemoryAccess | m3Err_trapDivisionByZero
  | m3Err_trapIntegerOverflow | m3Err_trapIntegerConversion
  | m3Err_trapIndirectCallTypeMismatch | m3Err_trapTableIndexOutOfRange
  | m3Err_trapTableElementIsNull | m3Err_trapExit | m3Err_trapAbort
  | m3Err_trapUnreachable | m3Err_trapStackOverflow
  | M3Msg string
  | C_undefined

type_synonym 'a result = "m3_error + 'a"

text \<open>\<^verbatim>\<open>_ (call)\<close>: go on with the call's values, or leave with its error (which
  in the compiler carries the state at that point along).\<close>

fun tryR :: "'e + 'a \<Rightarrow> ('a \<Rightarrow> 'e + 'b) \<Rightarrow> 'e + 'b" where
  "tryR (Inl e) f = Inl e"
| "tryR (Inr x) f = f x"

text \<open>\<^verbatim>\<open>_throwif (ERROR, COND)\<close>, followed by the rest of the function.\<close>

definition throwif :: "'e \<Rightarrow> bool \<Rightarrow> 'e + 'a \<Rightarrow> 'e + 'a" where
  "throwif e c k = (if c then Inl e else k)"

lemma tryR_Inr_iff [m3_result]: "tryR m f = Inr y \<longleftrightarrow> (\<exists>x. m = Inr x \<and> f x = Inr y)"
  by (cases m) auto

lemma tryR_Inl_iff: "tryR m f = Inl e \<longleftrightarrow> m = Inl e \<or> (\<exists>x. m = Inr x \<and> f x = Inl e)"
  by (cases m) auto

lemma throwif_Inr_iff [m3_result]: "throwif e c k = Inr y \<longleftrightarrow> \<not> c \<and> k = Inr y"
  by (simp add: throwif_def)

lemma throwif_False [simp]: "throwif e False k = k"
  and throwif_True [simp]: "throwif e True k = Inl e"
  by (simp_all add: throwif_def)

lemma tryR_cong [fundef_cong]:
  "m = m' \<Longrightarrow> (\<And>x. m' = Inr x \<Longrightarrow> f x = g x) \<Longrightarrow> tryR m f = tryR m' g"
  by (cases m') auto

lemma throwif_cong [fundef_cong]:
  "e = e' \<Longrightarrow> c = c' \<Longrightarrow> (\<not> c' \<Longrightarrow> k = k') \<Longrightarrow> throwif e c k = throwif e' c' k'"
  by (auto simp: throwif_def)

lemma tryR_assoc: "tryR (tryR m f) g = tryR m (\<lambda>x. tryR (f x) g)"
  by (cases m) auto

section \<open>C strings\<close>

text \<open>A byte buffer read as a C string ends at its first NUL; \<^verbatim>\<open>strcmp\<close> compares those.\<close>

definition cstr :: "u8 list \<Rightarrow> u8 list" where
  "cstr bs = takeWhile (\<lambda>b. b \<noteq> 0) bs"

definition strcmp_eq :: "u8 list \<Rightarrow> u8 list \<Rightarrow> bool" where
  "strcmp_eq a b \<longleftrightarrow> cstr a = cstr b"

definition ascii :: "string \<Rightarrow> u8 list" where
  "ascii s = map (\<lambda>c. of_nat (of_char c)) s"

lemma cstr_no_nul: "0 \<notin> set bs \<Longrightarrow> cstr bs = bs"
  by (auto simp: cstr_def intro!: takeWhile_eq_all_conv [THEN iffD2])

lemma cstr_append_nul: "0 \<notin> set bs \<Longrightarrow> cstr (bs @ 0 # rest) = bs"
  by (induction bs) (auto simp: cstr_def)

section \<open>Words\<close>

text \<open>\<^verbatim>\<open>OR\<close> of a value below \<open>2 ^ s\<close> with a value shifted by \<open>s\<close> is their sum.\<close>

lemma bit_word_below: "unat (v :: 'a::len word) < 2 ^ s \<Longrightarrow> bit v n \<Longrightarrow> n < s"
proof (rule ccontr)
  assume "unat v < 2 ^ s" "bit v n" "\<not> n < s"
  then have "2 ^ s \<le> (2::nat) ^ n" by simp
  with \<open>unat v < 2 ^ s\<close> have "unat v < 2 ^ n" by linarith
  then have "\<not> bit (unat v) n" by (simp add: bit_iff_odd)
  moreover have "bit (unat v) n" using \<open>bit v n\<close> by (simp add: bit_unsigned_iff)
  ultimately show False by simp
qed

lemma or_push_bit_add:
  fixes v b :: "'a::len word"
  assumes "unat v < 2 ^ s"
  shows "v OR push_bit s b = v + push_bit s b"
proof -
  have "v + push_bit s b = v OR push_bit s b"
    by (rule disjunctive_add) (auto simp: bit_push_bit_iff dest: bit_word_below [OF assms])
  then show ?thesis by simp
qed

lemma push_bit_of_int: "push_bit s (word_of_int k :: 'a::len word) = word_of_int (2 ^ s * k)"
  by (simp add: push_bit_eq_mult mult.commute)

lemma and_7f: "(word_of_int k :: u64) AND 0x7F = word_of_int (k mod 128)"
  using and_mask_wi [of k 7, where 'a = 64] by (simp add: mask_eq_exp_minus_1 take_bit_eq_mod)

text \<open>Counters of 32 bits that stay below another one do not wrap.\<close>

lemma unat_lt32: "unat (x :: u32) < 4294967296"
  using unsigned_less [where ?'a = nat, of x] by simp

lemma unat_inc_below: "(x :: u32) < y \<Longrightarrow> unat (x + 1) = unat x + 1"
  using unat_lt32 [of y] by (subst unat_add_lem [THEN iffD1]) (auto simp: word_less_nat_alt)

lemma unat_dec_above: "0 < (x :: u32) \<Longrightarrow> unat (x - 1) = unat x - 1"
  by (subst unat_sub) (auto simp: word_le_nat_alt word_less_nat_alt)

lemma unat_eq_of_nat: "unat (x :: 'a::len word) = k \<Longrightarrow> x = of_nat k"
  by (metis of_nat_unat ucast_id)

lemma unat_of_nat32: "k < 2 ^ 32 \<Longrightarrow> unat (of_nat k :: u32) = k"
  by (simp add: unsigned_of_nat take_bit_nat_eq_self)

text \<open>Signed readings.\<close>

lemma sint_of_int_eq: "- (2 ^ (LENGTH('a) - 1)) \<le> k \<Longrightarrow> k < 2 ^ (LENGTH('a) - 1)
    \<Longrightarrow> sint (word_of_int k :: 'a::len word) = k"
  by (simp add: sint_sbintrunc' signed_take_bit_int_eq_self)

lemma sint_range: "- (2 ^ (LENGTH('a) - 1)) \<le> sint (a :: 'a::len word) \<and> sint a < 2 ^ (LENGTH('a) - 1)"
  using sint_lt [of a] sint_ge [of a] by simp

section \<open>Lists\<close>

lemma nth_append_mid: "pos = length pre \<Longrightarrow> (pre @ x # post) ! pos = x"
  by simp

end
