(* ===== verification/M3_Core.thy ===== *)
theory M3_Core
  imports Prelude
begin

text \<open>
  \<^verbatim>\<open>src/m3_core.c\<close>: value types and the readers of the Wasm binary format.
  A \<^verbatim>\<open>bytes_t\<close> cursor into the module is an index into the list of the module's
  bytes and \<^verbatim>\<open>i_end\<close> is an index too; a reader returns what the C function stores
  through its output pointers (the value and the new cursor) together with its
  \<^verbatim>\<open>M3Result\<close> (\<open>None\<close> for \<^verbatim>\<open>m3Err_none\<close>), because the C readers store them on
  the error paths as well. \<open>checked\<close> is the \<^verbatim>\<open>_ (...)\<close> macro around such a call.
\<close>

section \<open>Value types\<close>

abbreviation (input) c_m3Type_none :: u8 where "c_m3Type_none \<equiv> 0"
abbreviation (input) c_m3Type_i32 :: u8 where "c_m3Type_i32 \<equiv> 1"
abbreviation (input) c_m3Type_i64 :: u8 where "c_m3Type_i64 \<equiv> 2"
abbreviation (input) c_m3Type_f32 :: u8 where "c_m3Type_f32 \<equiv> 3"
abbreviation (input) c_m3Type_f64 :: u8 where "c_m3Type_f64 \<equiv> 4"
abbreviation (input) c_m3Type_unknown :: u8 where "c_m3Type_unknown \<equiv> 5"

text \<open>The argument is the \<^verbatim>\<open>i8\<close> of the binary format; the negation is done on its bits.\<close>

definition NormalizeType :: "u8 \<Rightarrow> m3_error option \<times> u8" where
  "NormalizeType i_convolutedWasmType =
     (let type = - i_convolutedWasmType in
      if type = 0x40 then (None, c_m3Type_none)
      else if type < c_m3Type_i32 \<or> type > c_m3Type_f64 then (Some m3Err_invalidTypeId, type)
      else (None, type))"

definition IsFpType :: "u8 \<Rightarrow> bool" where
  "IsFpType i_m3Type \<longleftrightarrow> i_m3Type = c_m3Type_f32 \<or> i_m3Type = c_m3Type_f64"

definition IsIntType :: "u8 \<Rightarrow> bool" where
  "IsIntType i_m3Type \<longleftrightarrow> i_m3Type = c_m3Type_i32 \<or> i_m3Type = c_m3Type_i64"

text \<open>The last case is \<^verbatim>\<open>sizeof (voidptr_t) == 8\<close>: the model is of a 64-bit host.\<close>

definition Is64BitType :: "u8 \<Rightarrow> bool" where
  "Is64BitType i_m3Type =
     (if i_m3Type = c_m3Type_i64 \<or> i_m3Type = c_m3Type_f64 then True
      else if i_m3Type = c_m3Type_i32 \<or> i_m3Type = c_m3Type_f32 \<or> i_m3Type = c_m3Type_none then False
      else True)"

definition SizeOfType :: "u8 \<Rightarrow> u32" where
  "SizeOfType i_m3Type =
     (if i_m3Type = c_m3Type_i32 \<or> i_m3Type = c_m3Type_f32 then 4 else 8)"

section \<open>Readers\<close>

text \<open>\<^verbatim>\<open>memcpy\<close> into an integer on a little-endian host.\<close>

definition le_u32 :: "u8 list \<Rightarrow> nat \<Rightarrow> u32" where
  "le_u32 w p = ucast (w ! p) OR push_bit 8 (ucast (w ! (p + 1)))
     OR push_bit 16 (ucast (w ! (p + 2))) OR push_bit 24 (ucast (w ! (p + 3)))"

definition le_u64 :: "u8 list \<Rightarrow> nat \<Rightarrow> u64" where
  "le_u64 w p = ucast (le_u32 w p) OR push_bit 32 (ucast (le_u32 w (p + 4)))"

definition Read_u64 :: "u8 list \<Rightarrow> nat \<Rightarrow> nat \<Rightarrow> (u64 \<times> nat) result" where
  "Read_u64 w io_bytes i_end =
     (let ptr = io_bytes + 8 in
      if ptr \<le> i_end then Inr (le_u64 w io_bytes, ptr) else Inl m3Err_wasmUnderrun)"

definition Read_u32 :: "u8 list \<Rightarrow> nat \<Rightarrow> nat \<Rightarrow> (u32 \<times> nat) result" where
  "Read_u32 w io_bytes i_end =
     (let ptr = io_bytes + 4 in
      if ptr \<le> i_end then Inr (le_u32 w io_bytes, ptr) else Inl m3Err_wasmUnderrun)"

text \<open>Floats are kept as their bit patterns.\<close>

definition Read_f64 :: "u8 list \<Rightarrow> nat \<Rightarrow> nat \<Rightarrow> (u64 \<times> nat) result" where
  "Read_f64 w io_bytes i_end =
     (let ptr = io_bytes + 8 in
      if ptr \<le> i_end then Inr (le_u64 w io_bytes, ptr) else Inl m3Err_wasmUnderrun)"

definition Read_f32 :: "u8 list \<Rightarrow> nat \<Rightarrow> nat \<Rightarrow> (u32 \<times> nat) result" where
  "Read_f32 w io_bytes i_end =
     (let ptr = io_bytes + 4 in
      if ptr \<le> i_end then Inr (le_u32 w io_bytes, ptr) else Inl m3Err_wasmUnderrun)"

definition Read_u8 :: "u8 list \<Rightarrow> nat \<Rightarrow> nat \<Rightarrow> (u8 \<times> nat) result" where
  "Read_u8 w io_bytes i_end =
     (if io_bytes < i_end then Inr (w ! io_bytes, io_bytes + 1) else Inl m3Err_wasmUnderrun)"

text \<open>With \<^verbatim>\<open>d_m3CascadedOpcodes\<close> (the default) an opcode is one byte here.\<close>

definition Read_opcode :: "u8 list \<Rightarrow> nat \<Rightarrow> nat \<Rightarrow> (u16 \<times> nat) result" where
  "Read_opcode w io_bytes i_end =
     (if io_bytes < i_end then Inr (ucast (w ! io_bytes), io_bytes + 1)
      else Inl m3Err_wasmUnderrun)"

type_synonym 'a raw_read = "m3_error option \<times> 'a \<times> nat"

definition checked :: "'a raw_read \<Rightarrow> ('a \<times> nat) result" where
  "checked r = (case r of (None, v, p) \<Rightarrow> Inr (v, p) | (Some e, _, _) \<Rightarrow> Inl e)"

text \<open>
  The loop of \<^verbatim>\<open>ReadLebUnsigned\<close>: \<open>value\<close>, \<open>shift\<close> and the cursor are the loop's
  variables. The shift is at most 63 where it is used, so \<^verbatim>\<open><<\<close> is defined.
\<close>

function ReadLebUnsigned_loop ::
  "u8 list \<Rightarrow> nat \<Rightarrow> nat \<Rightarrow> u64 \<Rightarrow> nat \<Rightarrow> nat \<Rightarrow> u64 raw_read" where
  "ReadLebUnsigned_loop w i_end i_maxNumBits value shift ptr =
     (if ptr < i_end then
        let byte = ucast (w ! ptr) :: u64;
            value' = value OR push_bit shift (byte AND 0x7F);
            shift' = shift + 7
        in if byte AND 0x80 = 0 then (None, value', ptr + 1)
           else if shift' \<ge> i_maxNumBits then (Some m3Err_lebOverflow, value', ptr + 1)
           else ReadLebUnsigned_loop w i_end i_maxNumBits value' shift' (ptr + 1)
      else (Some m3Err_wasmUnderrun, value, ptr))"
  by pat_completeness auto
termination
  by (relation "measure (\<lambda>(w, e, m, v, s, p). e - p)") auto

declare ReadLebUnsigned_loop.simps [simp del]

definition ReadLebUnsigned :: "nat \<Rightarrow> u8 list \<Rightarrow> nat \<Rightarrow> nat \<Rightarrow> u64 raw_read" where
  "ReadLebUnsigned i_maxNumBits w io_bytes i_end =
     ReadLebUnsigned_loop w i_end i_maxNumBits 0 0 io_bytes"

text \<open>\<^verbatim>\<open>i64 value\<close> is kept as its 64 bits; \<open>push_bit shift (- 1)\<close> is \<^verbatim>\<open>~extend << shift\<close>.\<close>

function ReadLebSigned_loop ::
  "u8 list \<Rightarrow> nat \<Rightarrow> nat \<Rightarrow> u64 \<Rightarrow> nat \<Rightarrow> nat \<Rightarrow> u64 raw_read" where
  "ReadLebSigned_loop w i_end i_maxNumBits value shift ptr =
     (if ptr < i_end then
        let byte = ucast (w ! ptr) :: u64;
            value' = value OR push_bit shift (byte AND 0x7F);
            shift' = shift + 7
        in if byte AND 0x80 = 0 then
             (None,
              (if byte AND 0x40 \<noteq> 0 \<and> shift' < 64
               then value' OR push_bit shift' (- 1) else value'),
              ptr + 1)
           else if shift' \<ge> i_maxNumBits then (Some m3Err_lebOverflow, value', ptr + 1)
           else ReadLebSigned_loop w i_end i_maxNumBits value' shift' (ptr + 1)
      else (Some m3Err_wasmUnderrun, value, ptr))"
  by pat_completeness auto
termination
  by (relation "measure (\<lambda>(w, e, m, v, s, p). e - p)") auto

declare ReadLebSigned_loop.simps [simp del]

definition ReadLebSigned :: "nat \<Rightarrow> u8 list \<Rightarrow> nat \<Rightarrow> nat \<Rightarrow> u64 raw_read" where
  "ReadLebSigned i_maxNumBits w io_bytes i_end =
     ReadLebSigned_loop w i_end i_maxNumBits 0 0 io_bytes"

definition ReadLEB_u32 :: "u8 list \<Rightarrow> nat \<Rightarrow> nat \<Rightarrow> u32 raw_read" where
  "ReadLEB_u32 w io_bytes i_end =
     (case ReadLebUnsigned 32 w io_bytes i_end of (r, value, p) \<Rightarrow> (r, ucast value, p))"

definition ReadLEB_u7 :: "u8 list \<Rightarrow> nat \<Rightarrow> nat \<Rightarrow> u8 raw_read" where
  "ReadLEB_u7 w io_bytes i_end =
     (case ReadLebUnsigned 7 w io_bytes i_end of (r, value, p) \<Rightarrow> (r, ucast value, p))"

definition ReadLEB_i7 :: "u8 list \<Rightarrow> nat \<Rightarrow> nat \<Rightarrow> u8 raw_read" where
  "ReadLEB_i7 w io_bytes i_end =
     (case ReadLebSigned 7 w io_bytes i_end of (r, value, p) \<Rightarrow> (r, ucast value, p))"

definition ReadLEB_i32 :: "u8 list \<Rightarrow> nat \<Rightarrow> nat \<Rightarrow> u32 raw_read" where
  "ReadLEB_i32 w io_bytes i_end =
     (case ReadLebSigned 32 w io_bytes i_end of (r, value, p) \<Rightarrow> (r, ucast value, p))"

definition ReadLEB_i64 :: "u8 list \<Rightarrow> nat \<Rightarrow> nat \<Rightarrow> u64 raw_read" where
  "ReadLEB_i64 w io_bytes i_end = ReadLebSigned 64 w io_bytes i_end"

abbreviation (input) d_m3MaxSaneUtf8Length :: nat where "d_m3MaxSaneUtf8Length \<equiv> 10000"

text \<open>
  \<open>calloc_ok n\<close> says whether \<^verbatim>\<open>calloc\<close> (behind \<^verbatim>\<open>m3_Malloc\<close>) gives memory for \<open>n\<close>
  bytes. When it does not, \<^verbatim>\<open>Read_utf8\<close> leaves \<^verbatim>\<open>*o_utf8\<close> null, moves the cursor all the
  same and reports no error. The string is the copied bytes; its final NUL is implicit.
\<close>

definition Read_utf8 ::
  "(nat \<Rightarrow> bool) \<Rightarrow> u8 list \<Rightarrow> nat \<Rightarrow> nat \<Rightarrow> (u8 list option \<times> nat) result" where
  "Read_utf8 calloc_ok w io_bytes i_end =
     tryR (checked (ReadLEB_u32 w io_bytes i_end)) (\<lambda>(utf8Length, ptr).
       if unat utf8Length \<le> d_m3MaxSaneUtf8Length then
         let str_end = ptr + unat utf8Length in
         if str_end \<le> i_end then
           Inr (if calloc_ok (unat utf8Length + 1)
                then Some (take (unat utf8Length) (drop ptr w)) else None, str_end)
         else Inl m3Err_wasmUnderrun
       else Inl m3Err_missingUTF8)"

section \<open>Bounds of the readers\<close>

text \<open>The cursor never passes the end and a LEB read takes at most \<open>\<lceil>maxNumBits / 7\<rceil>\<close> bytes.\<close>

lemma ReadLebUnsigned_loop_bounds:
  assumes "ReadLebUnsigned_loop w e m v s p = (r, v', p')"
  shows "p \<le> p' \<and> (p \<le> e \<longrightarrow> p' \<le> e) \<and> (r = None \<longrightarrow> p < p') \<and> (s < m \<longrightarrow> p' \<le> p + (m - s + 6) div 7)"
  using assms
proof (induction w e m v s p arbitrary: r v' p' rule: ReadLebUnsigned_loop.induct)
  case (1 w e m v s p)
  show ?case
  proof (cases "p < e \<and> \<not> (ucast (w ! p) :: u64) AND 0x80 = 0 \<and> \<not> s + 7 \<ge> m")
    case True
    with 1(2) have rec: "ReadLebUnsigned_loop w e m (v OR push_bit s (ucast (w ! p) AND 0x7F)) (s + 7) (p + 1) = (r, v', p')"
      by (simp add: ReadLebUnsigned_loop.simps [of w e m v s p] Let_def)
    have "p + 1 \<le> p' \<and> (p + 1 \<le> e \<longrightarrow> p' \<le> e) \<and> (r = None \<longrightarrow> p + 1 < p')
        \<and> (s + 7 < m \<longrightarrow> p' \<le> p + 1 + (m - (s + 7) + 6) div 7)"
      using True by (intro 1(1) [OF _ refl refl refl _ _ rec]) auto
    with True show ?thesis by (auto, linarith?)
  next
    case False
    with 1(2) show ?thesis
      by (auto simp: ReadLebUnsigned_loop.simps [of w e m v s p] Let_def split: if_splits)
  qed
qed

lemma ReadLebSigned_loop_bounds:
  assumes "ReadLebSigned_loop w e m v s p = (r, v', p')"
  shows "p \<le> p' \<and> (p \<le> e \<longrightarrow> p' \<le> e) \<and> (r = None \<longrightarrow> p < p') \<and> (s < m \<longrightarrow> p' \<le> p + (m - s + 6) div 7)"
  using assms
proof (induction w e m v s p arbitrary: r v' p' rule: ReadLebSigned_loop.induct)
  case (1 w e m v s p)
  show ?case
  proof (cases "p < e \<and> \<not> (ucast (w ! p) :: u64) AND 0x80 = 0 \<and> \<not> s + 7 \<ge> m")
    case True
    with 1(2) have rec: "ReadLebSigned_loop w e m (v OR push_bit s (ucast (w ! p) AND 0x7F)) (s + 7) (p + 1) = (r, v', p')"
      by (simp add: ReadLebSigned_loop.simps [of w e m v s p] Let_def)
    have "p + 1 \<le> p' \<and> (p + 1 \<le> e \<longrightarrow> p' \<le> e) \<and> (r = None \<longrightarrow> p + 1 < p')
        \<and> (s + 7 < m \<longrightarrow> p' \<le> p + 1 + (m - (s + 7) + 6) div 7)"
      using True by (intro 1(1) [OF _ refl refl refl _ _ rec]) auto
    with True show ?thesis by (auto, linarith?)
  next
    case False
    with 1(2) show ?thesis
      by (auto simp: ReadLebSigned_loop.simps [of w e m v s p] Let_def split: if_splits)
  qed
qed

section \<open>Correctness of the LEB128 readers\<close>

text \<open>
  The reference encodings: \<open>uleb\<close> and \<open>sleb\<close> write an integer as its shortest LEB128
  form. The loops are analysed one byte at a time with the word values read as naturals,
  then by induction on the encoding.
\<close>

fun uleb :: "nat \<Rightarrow> u8 list" where
  "uleb n = (if n < 128 then [of_nat n] else of_nat (n mod 128 + 128) # uleb (n div 128))"

declare uleb.simps [simp del]

function sleb :: "int \<Rightarrow> u8 list" where
  "sleb z = (if -64 \<le> z \<and> z < 64 then [word_of_int (z mod 128)]
             else word_of_int (z mod 128 + 128) # sleb (z div 128))"
  by pat_completeness auto
termination
  by (relation "measure (\<lambda>z. nat \<bar>z\<bar>)") (auto simp: abs_if)

declare sleb.simps [simp del]

lemma ucast_byte: "k < 256 \<Longrightarrow> (ucast (of_nat k :: u8) :: u64) = of_nat k"
  by (simp add: unsigned_of_nat take_bit_nat_eq_self)

lemma byte_bit: "(of_nat k :: u64) AND 2 ^ m = 0 \<longleftrightarrow> m \<ge> 64 \<or> even (k div 2 ^ m)"
proof -
  have "(of_nat k :: u64) = word_of_int (int k)" by simp
  then show ?thesis
    by (simp only: and_exp_eq_0_iff_not_bit bit_word_of_int_iff bit_of_nat_iff_bit
        bit_iff_odd [of k]) auto
qed

lemma even_div_below: "k < 2 * m \<Longrightarrow> 0 < m \<Longrightarrow> even (k div m) \<longleftrightarrow> k < (m::nat)"
proof -
  assume "k < 2 * m" "0 < m"
  then have "k div m = (if k < m then 0 else 1)"
    by (auto intro: div_nat_eqI)
  then show ?thesis by simp
qed

lemma byte_and_80: "k < 256 \<Longrightarrow> (of_nat k :: u64) AND 0x80 = 0 \<longleftrightarrow> k < 128"
  using byte_bit [of k 7] even_div_below [of k 128] by simp

lemma byte_and_40: "k < 128 \<Longrightarrow> (of_nat k :: u64) AND 0x40 = 0 \<longleftrightarrow> k < 64"
  using byte_bit [of k 6] even_div_below [of k 64] by simp

lemma and_7f_nat: "(of_nat k :: u64) AND 0x7F = of_nat (k mod 128)"
  using and_7f [of "int k"] by (metis of_int_of_nat_eq of_nat_mod of_nat_numeral)

lemma or_push_bit_of_nat:
  assumes "v < 2 ^ s" "s < 64"
  shows "(of_nat v :: u64) OR push_bit s (of_nat k) = of_nat (v + k * 2 ^ s)"
proof -
  have "v < 2 ^ 64" using assms by (rule less_trans [OF _ power_strict_increasing]) simp
  with assms have "unat (of_nat v :: u64) < 2 ^ s" by (simp add: unat_of_nat)
  then have "(of_nat v :: u64) OR push_bit s (of_nat k) = of_nat v + push_bit s (of_nat k)"
    by (rule or_push_bit_add)
  then show ?thesis by (simp add: push_bit_eq_mult)
qed

text \<open>One iteration of the loops, with the word values read as naturals.\<close>

lemma ReadLebUnsigned_step:
  assumes "p < e" "w ! p = of_nat k" "k < 256" "v < 2 ^ s" "s < 64"
  shows "ReadLebUnsigned_loop w e m (of_nat v) s p =
    (let v' = of_nat (v + k mod 128 * 2 ^ s) in
     if k < 128 then (None, v', p + 1)
     else if s + 7 \<ge> m then (Some m3Err_lebOverflow, v', p + 1)
     else ReadLebUnsigned_loop w e m v' (s + 7) (p + 1))"
proof -
  have b: "(ucast (w ! p) :: u64) = of_nat k" using assms by (simp add: ucast_byte)
  show ?thesis
    unfolding ReadLebUnsigned_loop.simps [of w e m _ s p] Let_def b and_7f_nat
      or_push_bit_of_nat [OF assms(4,5)] byte_and_80 [OF assms(3)]
    using assms(1) by simp
qed

lemma ReadLebSigned_step:
  assumes "p < e" "w ! p = of_nat k" "k < 256" "v < 2 ^ s" "s < 64"
  shows "ReadLebSigned_loop w e m (of_nat v) s p =
    (let v' = of_nat (v + k mod 128 * 2 ^ s) in
     if k < 128 then
       (None, (if 64 \<le> k \<and> s + 7 < 64 then v' OR push_bit (s + 7) (- 1) else v'), p + 1)
     else if s + 7 \<ge> m then (Some m3Err_lebOverflow, v', p + 1)
     else ReadLebSigned_loop w e m v' (s + 7) (p + 1))"
proof -
  have b: "(ucast (w ! p) :: u64) = of_nat k" using assms by (simp add: ucast_byte)
  have c: "k < 128 \<Longrightarrow> (of_nat k :: u64) AND 0x40 \<noteq> 0 \<longleftrightarrow> 64 \<le> k"
    by (simp add: byte_and_40 not_less)
  show ?thesis
    unfolding ReadLebSigned_loop.simps [of w e m _ s p] Let_def b and_7f_nat
      or_push_bit_of_nat [OF assms(4,5)] byte_and_80 [OF assms(3)]
    using assms(1) by (simp add: c)
qed

lemma add_below_shift: "v < 2 ^ s \<Longrightarrow> r < 128 \<Longrightarrow> v + r * 2 ^ s < (2::nat) ^ (s + 7)"
proof -
  assume "v < 2 ^ s" "r < 128"
  then have "r * 2 ^ s \<le> 127 * 2 ^ s" by (intro mult_right_mono) auto
  moreover have "(2::nat) ^ (s + 7) = 128 * 2 ^ s" by (simp add: power_add)
  ultimately show ?thesis using \<open>v < 2 ^ s\<close> by linarith
qed

lemma uleb_nonempty [simp]: "uleb n \<noteq> []"
  by (subst uleb.simps) simp

lemma uleb_decode:
  assumes "n * 2 ^ s < 2 ^ m" "m \<le> 64" "v < 2 ^ s" "p + length (uleb n) \<le> e"
    "\<And>i. i < length (uleb n) \<Longrightarrow> w ! (p + i) = uleb n ! i" "s < m"
  shows "ReadLebUnsigned_loop w e m (of_nat v) s p = (None, of_nat (v + n * 2 ^ s), p + length (uleb n))"
  using assms
proof (induction n arbitrary: v s p rule: uleb.induct)
  case (1 n)
  have b0: "w ! p = uleb n ! 0" using 1(6) [of 0] by simp
  have pe: "p < e" using 1(5) by (simp add: uleb.simps [of n] split: if_splits)
  have s64: "s < 64" using 1(3,7) by simp
  show ?case
  proof (cases "n < 128")
    case True
    then have "w ! p = of_nat n" using b0 by (simp add: uleb.simps [of n])
    from ReadLebUnsigned_step [OF pe this _ 1(4) s64, of m] True show ?thesis
      by (simp add: uleb.simps [of n])
  next
    case False
    let ?k = "n mod 128 + 128"
    have wp: "w ! p = of_nat ?k" using b0 False by (simp add: uleb.simps [of n])
    have sm: "s + 7 < m"
    proof -
      have "128 * 2 ^ s \<le> n * 2 ^ s" using False by simp
      with 1(2) have "128 * 2 ^ s < (2::nat) ^ m" by (rule le_less_trans [rotated])
      then have "(2::nat) ^ (s + 7) < 2 ^ m" by (simp add: power_add)
      then show ?thesis by simp
    qed
    have eq: "n * 2 ^ s = n mod 128 * 2 ^ s + n div 128 * 2 ^ (s + 7)"
    proof -
      have "n * 2 ^ s = (n mod 128 + n div 128 * 128) * 2 ^ s" by simp
      then show ?thesis by (simp only: distrib_right power_add) simp
    qed
    have lt: "v + n mod 128 * 2 ^ s < 2 ^ (s + 7)" using 1(4) by (intro add_below_shift) auto
    have "ReadLebUnsigned_loop w e m (of_nat v) s p
       = ReadLebUnsigned_loop w e m (of_nat (v + n mod 128 * 2 ^ s)) (s + 7) (p + 1)"
      using ReadLebUnsigned_step [OF pe wp _ 1(4) s64, of m] sm by simp
    also have "\<dots> = (None, of_nat (v + n mod 128 * 2 ^ s + n div 128 * 2 ^ (s + 7)),
        p + 1 + length (uleb (n div 128)))"
    proof (rule 1(1) [OF False])
      fix i assume "i < length (uleb (n div 128))"
      then show "w ! (p + 1 + i) = uleb (n div 128) ! i"
        using 1(6) [of "Suc i"] False by (simp add: uleb.simps [of n])
    next
      show "n div 128 * 2 ^ (s + 7) < 2 ^ m" using 1(2) eq by linarith
    next
      show "p + 1 + length (uleb (n div 128)) \<le> e"
        using 1(5) False by (simp add: uleb.simps [of n])
    qed (use 1(3) lt sm in auto)
    finally show ?thesis using False eq by (simp add: uleb.simps [of n])
  qed
qed


lemma sleb_nonempty [simp]: "sleb z \<noteq> []"
  by (subst sleb.simps) simp

lemma word_of_nat_mod: "(of_nat (nat z) :: u8) = word_of_int z" if "0 \<le> z"
  using that by simp

lemma minus_or:
  assumes "v < 2 ^ s" "s < 64"
  shows "(of_nat v :: u64) OR push_bit s (- 1) = word_of_int (int v - 2 ^ s)"
proof -
  have "v < 2 ^ 64" using assms by (rule less_trans [OF _ power_strict_increasing]) simp
  with assms have "unat (of_nat v :: u64) < 2 ^ s" by (simp add: unat_of_nat)
  then have "(of_nat v :: u64) OR push_bit s (- 1) = of_nat v + push_bit s (- 1)"
    by (rule or_push_bit_add)
  then show ?thesis by (simp add: push_bit_eq_mult)
qed

lemma sleb_last:
  assumes pe: "p < e" and wp: "w ! p = of_nat (nat (z mod 128))" and z: "-64 \<le> z" "z < 64"
    and v: "v < 2 ^ s" and s64: "s < 64"
  shows "ReadLebSigned_loop w e m (of_nat v) s p = (None, word_of_int (int v + z * 2 ^ s), p + 1)"
proof -
  let ?r = "nat (z mod 128)"
  have r: "?r < 128" "int ?r = z mod 128" by auto
  have lt: "v + ?r * 2 ^ s < 2 ^ (s + 7)" using v r(1) by (rule add_below_shift)
  note step = ReadLebSigned_step [OF pe wp _ v s64, of m]
  have zr: "z mod 128 = (if z < 0 then z + 128 else z)" using z by presburger
  then have neg: "64 \<le> ?r \<longleftrightarrow> z < 0" using z by auto
  show ?thesis
  proof (cases "z < 0")
    case False
    then have "\<not> 64 \<le> ?r" "z mod 128 = z" using neg zr by auto
    then show ?thesis using step r False by simp
  next
    case neg': True
    have val: "int (v + ?r * 2 ^ s) - 2 ^ (s + 7) = int v + z * 2 ^ s"
      using r(2) zr neg' by (simp add: power_add distrib_right)
    have "?r < 256" "?r < 128" "64 \<le> ?r" using r neg neg' by linarith+
    show ?thesis
    proof (cases "s + 7 < 64")
      case True
      have "ReadLebSigned_loop w e m (of_nat v) s p
          = (None, of_nat (v + ?r * 2 ^ s) OR push_bit (s + 7) (- 1), p + 1)"
        using ReadLebSigned_step [OF pe wp _ v s64, of m] True \<open>?r < 256\<close> \<open>?r < 128\<close> \<open>64 \<le> ?r\<close>
        unfolding Let_def by (simp only: if_True simp_thms mod_less)
      then show ?thesis by (simp only: minus_or [OF lt True] val)
    next
      case False
      then have "(2::u64) ^ (s + 7) = 0" by (simp only: exp_eq_zero_iff) simp
      then have "(word_of_int (int (v + ?r * 2 ^ s) - 2 ^ (s + 7)) :: u64) = of_nat (v + ?r * 2 ^ s)"
        by simp
      then have "(of_nat (v + ?r * 2 ^ s) :: u64) = word_of_int (int v + z * 2 ^ s)"
        by (simp only: val)
      with ReadLebSigned_step [OF pe wp _ v s64, of m] r neg neg' False show ?thesis by simp
    qed
  qed
qed

lemma sleb_continue_shift:
  assumes "- (2 ^ (m - 1)) \<le> z * 2 ^ s" "z * 2 ^ s < (2::int) ^ (m - 1)" "\<not> (-64 \<le> z \<and> z < 64)"
  shows "s + 7 < m"
proof -
  have "64 * 2 ^ s < (2::int) ^ (m - 1)"
  proof (cases "64 \<le> z")
    case True
    then have "64 * 2 ^ s \<le> z * 2 ^ s" by (intro mult_right_mono) auto
    with assms(2) show ?thesis by linarith
  next
    case False
    then have "65 * 2 ^ s \<le> - z * 2 ^ s" using assms(3) by (intro mult_right_mono) auto
    moreover have "- z * 2 ^ s = - (z * 2 ^ s)" by simp
    moreover have "0 < (2::int) ^ s" by simp
    ultimately show ?thesis using assms(1) by linarith
  qed
  then have "(2::int) ^ (s + 6) < 2 ^ (m - 1)" by (simp add: power_add)
  then have "s + 6 < m - 1" by simp
  then show ?thesis by simp
qed

lemma sleb_digit: "z * 2 ^ s = z mod 128 * 2 ^ s + z div 128 * (2::int) ^ (s + 7)"
proof -
  have "z * 2 ^ s = (z mod 128 + z div 128 * 128) * 2 ^ s" by simp
  then show ?thesis by (simp only: distrib_right power_add) simp
qed

lemma sleb_continue_lower:
  assumes lo: "- (2 ^ (m - 1)) \<le> z * 2 ^ s" and sm: "s + 7 < m"
  shows "- (2 ^ (m - 1)) \<le> z div 128 * (2::int) ^ (s + 7)"
proof -
  define K where "K = (2::int) ^ (m - 1 - (s + 7))"
  have K: "(2::int) ^ (m - 1) = K * 128 * 2 ^ s"
  proof -
    have "m - 1 = m - 1 - (s + 7) + 7 + s" using sm by simp
    then have "(2::int) ^ (m - 1) = 2 ^ (m - 1 - (s + 7) + 7 + s)" by (rule arg_cong)
    then show ?thesis by (simp only: power_add K_def) simp
  qed
  with lo have "(- K * 128) * 2 ^ s \<le> z * 2 ^ s" by simp
  then have "- K * 128 \<le> z" by (rule mult_right_le_imp_le) simp
  then have "- K \<le> z div 128" by linarith
  then have "- K * 2 ^ (s + 7) \<le> z div 128 * 2 ^ (s + 7)" by (intro mult_right_mono) auto
  moreover have "- K * 2 ^ (s + 7) = - (K * 128 * 2 ^ s)" by (simp add: power_add)
  ultimately show ?thesis unfolding K by linarith
qed

lemma sleb_decode:
  assumes "- (2 ^ (m - 1)) \<le> z * 2 ^ s" "z * 2 ^ s < 2 ^ (m - 1)" "m \<le> 64" "v < 2 ^ s"
    "p + length (sleb z) \<le> e" "\<And>i. i < length (sleb z) \<Longrightarrow> w ! (p + i) = sleb z ! i" "s < m"
  shows "ReadLebSigned_loop w e m (of_nat v) s p
    = (None, word_of_int (int v + z * 2 ^ s), p + length (sleb z))"
  using assms
proof (induction z arbitrary: v s p rule: sleb.induct)
  case (1 z)
  let ?r = "nat (z mod 128)"
  have b0: "w ! p = sleb z ! 0" using 1(7) [of 0] by simp
  have pe: "p < e" using 1(6) by (simp add: sleb.simps [of z] split: if_splits)
  have s64: "s < 64" using 1(4,8) by simp
  show ?case
  proof (cases "-64 \<le> z \<and> z < 64")
    case True
    then have "w ! p = of_nat ?r" using b0 by (simp add: sleb.simps [of z])
    with sleb_last [OF pe this _ _ 1(5) s64] True show ?thesis by (simp add: sleb.simps [of z])
  next
    case False
    have wp: "w ! p = of_nat (?r + 128)" using b0 False by (simp add: sleb.simps [of z])
    note sm = sleb_continue_shift [OF 1(2,3) False]
    have r: "?r < 128" "int ?r = z mod 128" by auto
    have lt: "v + ?r * 2 ^ s < 2 ^ (s + 7)" using 1(5) r(1) by (rule add_below_shift)
    have "0 \<le> z mod 128 * 2 ^ s" by simp
    then have hi: "z div 128 * 2 ^ (s + 7) < 2 ^ (m - 1)" using 1(3) sleb_digit [of z s] by linarith
    have "ReadLebSigned_loop w e m (of_nat v) s p
       = ReadLebSigned_loop w e m (of_nat (v + ?r * 2 ^ s)) (s + 7) (p + 1)"
      using ReadLebSigned_step [OF pe wp _ 1(5) s64, of m] sm r by simp
    also have "\<dots> = (None, word_of_int (int (v + ?r * 2 ^ s) + z div 128 * 2 ^ (s + 7)),
        p + 1 + length (sleb (z div 128)))"
    proof (rule 1(1) [OF False sleb_continue_lower [OF 1(2) sm] hi])
      fix i assume "i < length (sleb (z div 128))"
      then show "w ! (p + 1 + i) = sleb (z div 128) ! i"
        using 1(7) [of "Suc i"] False by (simp add: sleb.simps [of z])
    next
      show "p + 1 + length (sleb (z div 128)) \<le> e"
        using 1(6) False by (simp add: sleb.simps [of z])
    qed (use 1(4) lt sm in auto)
    finally show ?thesis using False sleb_digit [of z s] r by (simp add: sleb.simps [of z])
  qed
qed

section \<open>Readers as an interface\<close>

text \<open>
  What the parser relies on: a reader that succeeds leaves its cursor between where it was
  and the end, and it looks at no byte outside \<open>[cursor, end)\<close> (its result is the same on
  any two byte lists that agree there), which is memory safety of the C reads.
\<close>

definition agree_on :: "nat \<Rightarrow> nat \<Rightarrow> u8 list \<Rightarrow> u8 list \<Rightarrow> bool" where
  "agree_on p e w w' \<longleftrightarrow> e \<le> length w \<and> e \<le> length w' \<and> (\<forall>i. p \<le> i \<and> i < e \<longrightarrow> w ! i = w' ! i)"

lemma agree_on_later: "agree_on p e w w' \<Longrightarrow> p \<le> q \<Longrightarrow> agree_on q e w w'"
  by (auto simp: agree_on_def)

text \<open>Reading \<open>n\<close> items in a row, as the counted loops of the parser do.\<close>

fun read_many ::
  "(u8 list \<Rightarrow> nat \<Rightarrow> nat \<Rightarrow> ('a \<times> nat) result) \<Rightarrow> nat \<Rightarrow> u8 list \<Rightarrow> nat \<Rightarrow> nat \<Rightarrow> ('a list \<times> nat) result" where
  "read_many rd 0 w p e = Inr ([], p)"
| "read_many rd (Suc n) w p e =
     tryR (rd w p e) (\<lambda>(x, p). tryR (read_many rd n w p e) (\<lambda>(xs, p). Inr (x # xs, p)))"

locale byte_reader =
  fixes rd :: "u8 list \<Rightarrow> nat \<Rightarrow> nat \<Rightarrow> ('a \<times> nat) result"
  assumes rd_bounds: "rd w p e = Inr (v, q) \<Longrightarrow> p \<le> e \<Longrightarrow> p \<le> q \<and> q \<le> e"
    and rd_local: "agree_on p e w w' \<Longrightarrow> p \<le> e \<Longrightarrow> rd w p e = rd w' p e"
begin

lemma many_bounds: "read_many rd n w p e = Inr (vs, q) \<Longrightarrow> p \<le> e \<Longrightarrow> p \<le> q \<and> q \<le> e \<and> length vs = n"
proof (induction n arbitrary: p vs)
  case (Suc n)
  then obtain v p1 vs' where "rd w p e = Inr (v, p1)" "read_many rd n w p1 e = Inr (vs', q)" "vs = v # vs'"
    by (auto simp: m3_result split: prod.splits)
  with Suc rd_bounds show ?case by fastforce
qed simp

lemma many_local: "agree_on p e w w' \<Longrightarrow> p \<le> e \<Longrightarrow> read_many rd n w p e = read_many rd n w' p e"
proof (induction n arbitrary: p)
  case (Suc n)
  have "tryR (rd w p e) f = tryR (rd w' p e) f" for f :: "'a \<times> nat \<Rightarrow> ('a list \<times> nat) result"
    using rd_local [OF Suc.prems] by simp
  moreover have "read_many rd n w p1 e = read_many rd n w' p1 e" if "rd w' p e = Inr (v, p1)" for v p1
    using Suc.IH that rd_bounds [OF that Suc.prems(2)] agree_on_later [OF Suc.prems(1)] by blast
  ultimately show ?case by (auto intro!: tryR_cong)
qed simp

end

locale progress_reader = byte_reader +
  assumes rd_progress: "rd w p e = Inr (v, q) \<Longrightarrow> p < q"
begin

text \<open>A counted loop over such a reader cannot succeed with more items than bytes.\<close>

lemma many_progress: "read_many rd n w p e = Inr (vs, q) \<Longrightarrow> p + n \<le> q"
proof (induction n arbitrary: p vs)
  case (Suc n)
  then obtain v p1 vs' where "rd w p e = Inr (v, p1)" "read_many rd n w p1 e = Inr (vs', q)" "vs = v # vs'"
    by (auto simp: m3_result split: prod.splits)
  with Suc.IH [of p1 vs'] rd_progress show ?case by fastforce
qed simp

end

section \<open>The readers of this file meet the interface\<close>

lemma ReadLebUnsigned_loop_local:
  "agree_on p e w w' \<Longrightarrow> ReadLebUnsigned_loop w e m v s p = ReadLebUnsigned_loop w' e m v s p"
proof (induction w e m v s p rule: ReadLebUnsigned_loop.induct)
  case (1 w e m v s p)
  have later: "agree_on (p + 1) e w w'" using 1(2) by (rule agree_on_later) simp
  show ?case
  proof (cases "p < e")
    case True
    then have "w ! p = w' ! p" using 1(2) by (auto simp: agree_on_def)
    then show ?thesis
      unfolding ReadLebUnsigned_loop.simps [of w e m v s p] ReadLebUnsigned_loop.simps [of w' e m v s p]
      using 1(1) [OF True refl refl refl _ _ later] by (simp add: Let_def)
  next
    case False
    then show ?thesis
      by (simp add: ReadLebUnsigned_loop.simps [of w e m v s p] ReadLebUnsigned_loop.simps [of w' e m v s p])
  qed
qed

lemma ReadLebSigned_loop_local:
  "agree_on p e w w' \<Longrightarrow> ReadLebSigned_loop w e m v s p = ReadLebSigned_loop w' e m v s p"
proof (induction w e m v s p rule: ReadLebSigned_loop.induct)
  case (1 w e m v s p)
  have later: "agree_on (p + 1) e w w'" using 1(2) by (rule agree_on_later) simp
  show ?case
  proof (cases "p < e")
    case True
    then have "w ! p = w' ! p" using 1(2) by (auto simp: agree_on_def)
    then show ?thesis
      unfolding ReadLebSigned_loop.simps [of w e m v s p] ReadLebSigned_loop.simps [of w' e m v s p]
      using 1(1) [OF True refl refl refl _ _ later] by (simp add: Let_def)
  next
    case False
    then show ?thesis
      by (simp add: ReadLebSigned_loop.simps [of w e m v s p] ReadLebSigned_loop.simps [of w' e m v s p])
  qed
qed

lemmas ReadLEB_defs = ReadLEB_u32_def ReadLEB_u7_def ReadLEB_i7_def ReadLEB_i32_def ReadLEB_i64_def
  ReadLebUnsigned_def ReadLebSigned_def

lemma checked_Inr_iff [m3_result]: "checked r = Inr (v, p) \<longleftrightarrow> r = (None, v, p)"
  by (cases r) (auto simp: checked_def split: option.splits)

text \<open>\<^verbatim>\<open>_ (ReadLEB_u32 (...))\<close> and its kin, as the parser calls them.\<close>

abbreviation "LEB_u32 w p e \<equiv> checked (ReadLEB_u32 w p e)"
abbreviation "LEB_u7 w p e \<equiv> checked (ReadLEB_u7 w p e)"
abbreviation "LEB_i7 w p e \<equiv> checked (ReadLEB_i7 w p e)"
abbreviation "LEB_i32 w p e \<equiv> checked (ReadLEB_i32 w p e)"
abbreviation "LEB_i64 w p e \<equiv> checked (ReadLEB_i64 w p e)"

lemma LEB_progress [reader_bounds]:
  "LEB_u32 w p e = Inr (a, q) \<Longrightarrow> p < q" "LEB_u7 w p e = Inr (b, q) \<Longrightarrow> p < q"
  "LEB_i7 w p e = Inr (b, q) \<Longrightarrow> p < q" "LEB_i32 w p e = Inr (a, q) \<Longrightarrow> p < q"
  "LEB_i64 w p e = Inr (c, q) \<Longrightarrow> p < q"
  by (auto simp: m3_result ReadLEB_defs split: prod.splits
      dest!: ReadLebUnsigned_loop_bounds ReadLebSigned_loop_bounds)

lemma LEB_end [reader_bounds]:
  "LEB_u32 w p e = Inr (a, q) \<Longrightarrow> p \<le> e \<Longrightarrow> q \<le> e" "LEB_u7 w p e = Inr (b, q) \<Longrightarrow> p \<le> e \<Longrightarrow> q \<le> e"
  "LEB_i7 w p e = Inr (b, q) \<Longrightarrow> p \<le> e \<Longrightarrow> q \<le> e" "LEB_i32 w p e = Inr (a, q) \<Longrightarrow> p \<le> e \<Longrightarrow> q \<le> e"
  "LEB_i64 w p e = Inr (c, q) \<Longrightarrow> p \<le> e \<Longrightarrow> q \<le> e"
  by (auto simp: m3_result ReadLEB_defs split: prod.splits
      dest!: ReadLebUnsigned_loop_bounds ReadLebSigned_loop_bounds)

lemma LEB_local:
  assumes "agree_on p e w w'"
  shows "LEB_u32 w p e = LEB_u32 w' p e" "LEB_u7 w p e = LEB_u7 w' p e"
    "LEB_i7 w p e = LEB_i7 w' p e" "LEB_i32 w p e = LEB_i32 w' p e" "LEB_i64 w p e = LEB_i64 w' p e"
  by (simp_all add: ReadLEB_defs ReadLebUnsigned_loop_local [OF assms] ReadLebSigned_loop_local [OF assms])

interpretation LEB_u32: progress_reader "\<lambda>w p e. LEB_u32 w p e"
  by unfold_locales (auto intro: less_imp_le LEB_progress LEB_end LEB_local)

interpretation LEB_u7: progress_reader "\<lambda>w p e. LEB_u7 w p e"
  by unfold_locales (auto intro: less_imp_le LEB_progress LEB_end LEB_local)

interpretation LEB_i7: progress_reader "\<lambda>w p e. LEB_i7 w p e"
  by unfold_locales (auto intro: less_imp_le LEB_progress LEB_end LEB_local)

interpretation LEB_i32: progress_reader "\<lambda>w p e. LEB_i32 w p e"
  by unfold_locales (auto intro: less_imp_le LEB_progress LEB_end LEB_local)

interpretation LEB_i64: progress_reader "\<lambda>w p e. LEB_i64 w p e"
  by unfold_locales (auto intro: less_imp_le LEB_progress LEB_end LEB_local)

interpretation Read_u8: progress_reader Read_u8
  by unfold_locales (auto simp: Read_u8_def agree_on_def split: if_splits)

lemma le_u32_local: "agree_on p e w w' \<Longrightarrow> p \<le> q \<Longrightarrow> q + 4 \<le> e \<Longrightarrow> le_u32 w q = le_u32 w' q"
  by (simp add: le_u32_def agree_on_def)

lemma le_u64_local: "agree_on p e w w' \<Longrightarrow> p \<le> q \<Longrightarrow> q + 8 \<le> e \<Longrightarrow> le_u64 w q = le_u64 w' q"
  by (simp add: le_u64_def le_u32_local)

interpretation Read_u32: progress_reader Read_u32
  by unfold_locales (auto simp: Read_u32_def Let_def le_u32_local split: if_splits)

interpretation Read_u64: progress_reader Read_u64
  by unfold_locales (auto simp: Read_u64_def Let_def le_u64_local split: if_splits)

interpretation Read_f32: progress_reader Read_f32
  by unfold_locales (auto simp: Read_f32_def Let_def le_u32_local split: if_splits)

interpretation Read_f64: progress_reader Read_f64
  by unfold_locales (auto simp: Read_f64_def Let_def le_u64_local split: if_splits)

interpretation Read_opcode: progress_reader Read_opcode
  by unfold_locales (auto simp: Read_opcode_def agree_on_def split: if_splits)

lemma take_drop_local:
  "agree_on p e w w' \<Longrightarrow> p \<le> q \<Longrightarrow> q + n \<le> e \<Longrightarrow> take n (drop q w) = take n (drop q w')"
  by (rule nth_equalityI) (auto simp: agree_on_def)

interpretation Read_utf8: progress_reader "Read_utf8 calloc_ok" for calloc_ok
proof
  fix w p e v q assume "Read_utf8 calloc_ok w p e = Inr (v, q)" "p \<le> e"
  then show "p \<le> q \<and> q \<le> e"
    by (auto simp: Read_utf8_def Let_def tryR_Inr_iff split: if_splits dest!: LEB_progress(1))
next
  fix w p e v q assume "Read_utf8 calloc_ok w p e = Inr (v, q)"
  then show "p < q"
    by (auto simp: Read_utf8_def Let_def tryR_Inr_iff split: if_splits dest!: LEB_progress(1))
next
  fix w w' :: "u8 list" and p e :: nat assume a: "agree_on p e w w'" and pe: "p \<le> e"
  show "Read_utf8 calloc_ok w p e = Read_utf8 calloc_ok w' p e"
    unfolding Read_utf8_def LEB_u32.rd_local [OF a pe]
    by (rule tryR_cong) (auto simp: Let_def take_drop_local [OF a] dest!: LEB_progress(1))
qed

section \<open>Properties\<close>

lemma ucast_of_int_down: "(ucast (word_of_int z :: u64) :: u32) = word_of_int z"
  by (rule bit_word_eqI) (simp add: bit_unsigned_iff bit_word_of_int_iff)

lemma ucast_of_nat_down: "(ucast (of_nat n :: u64) :: u32) = of_nat n"
  using ucast_of_int_down [of "int n"] by simp

lemma ReadLEB_u32_decode:
  assumes "n < 2 ^ 32" and "length pre + length (uleb n) \<le> e"
  shows "ReadLEB_u32 (pre @ uleb n @ post) (length pre) e
    = (None, of_nat n, length pre + length (uleb n))"
proof -
  have "ReadLebUnsigned_loop (pre @ uleb n @ post) e 32 (of_nat 0) 0 (length pre)
      = (None, of_nat (0 + n * 2 ^ 0), length pre + length (uleb n))"
    by (rule uleb_decode) (use assms in \<open>auto simp: nth_append\<close>)
  then show ?thesis
    by (simp add: ReadLEB_u32_def ReadLebUnsigned_def ucast_of_nat_down)
qed

text \<open>\<^verbatim>\<open>ReadLEB_u32\<close> reads back every 32-bit value from its LEB128 encoding, wherever the
  encoding stands in the module, and leaves the cursor right behind it.\<close>

theorem ReadLEB_u32_roundtrip:
  assumes "n < 2 ^ 32" and "length pre + length (uleb n) \<le> e"
  shows "ReadLEB_u32 (pre @ uleb n @ post) (length pre) e
    = (None, of_nat n, length pre + length (uleb n))"
  using ReadLEB_u32_decode [OF assms] .

theorem ReadLEB_u32_roundtrip_witness:
  "ReadLEB_u32 ([9] @ uleb 624485 @ [7]) 1 5 = (None, 624485, 4)"
  using ReadLEB_u32_roundtrip [of 624485 "[9]" 5 "[7]"] by (simp add: uleb.simps)

lemma ReadLEB_i32_decode:
  assumes "- (2 ^ 31) \<le> z" and "z < 2 ^ 31" and "length pre + length (sleb z) \<le> e"
  shows "ReadLEB_i32 (pre @ sleb z @ post) (length pre) e
    = (None, word_of_int z, length pre + length (sleb z))"
proof -
  have "ReadLebSigned_loop (pre @ sleb z @ post) e 32 (of_nat 0) 0 (length pre)
      = (None, word_of_int (int 0 + z * 2 ^ 0), length pre + length (sleb z))"
    by (rule sleb_decode) (use assms in \<open>auto simp: nth_append\<close>)
  then show ?thesis 
    by (simp add: ReadLEB_i32_def ReadLebSigned_def ucast_of_int_down)
qed

text \<open>\<^verbatim>\<open>ReadLEB_i32\<close> reads back every signed 32-bit value from its signed LEB128
  encoding (sign extension included).\<close>

theorem ReadLEB_i32_roundtrip:
  assumes "- (2 ^ 31) \<le> z" and "z < 2 ^ 31" and "length pre + length (sleb z) \<le> e"
  shows "ReadLEB_i32 (pre @ sleb z @ post) (length pre) e
    = (None, word_of_int z, length pre + length (sleb z))"
  using ReadLEB_i32_decode [OF assms] .

theorem ReadLEB_i32_roundtrip_witness:
  "ReadLEB_i32 ([] @ sleb (-123456) @ [0]) 0 3 = (None, word_of_int (-123456), 3)"
  using ReadLEB_i32_roundtrip [of "-123456" "[]" 3 "[0]"] by (simp add: sleb.simps)

lemma ReadLEB_i64_decode:
  assumes "- (2 ^ 63) \<le> z" and "z < 2 ^ 63" and "length pre + length (sleb z) \<le> e"
  shows "ReadLEB_i64 (pre @ sleb z @ post) (length pre) e
    = (None, word_of_int z, length pre + length (sleb z))"
proof -
  have "ReadLebSigned_loop (pre @ sleb z @ post) e 64 (of_nat 0) 0 (length pre)
      = (None, word_of_int (int 0 + z * 2 ^ 0), length pre + length (sleb z))"
    by (rule sleb_decode) (use assms in \<open>auto simp: nth_append\<close>)
  then show ?thesis by (simp add: ReadLEB_i64_def ReadLebSigned_def)
qed

text \<open>\<^verbatim>\<open>ReadLEB_i64\<close> reads back every signed 64-bit value, the ten-byte encodings
  included, where the last shift is 63 and no sign extension is left to do.\<close>

theorem ReadLEB_i64_roundtrip:
  assumes "- (2 ^ 63) \<le> z" and "z < 2 ^ 63" and "length pre + length (sleb z) \<le> e"
  shows "ReadLEB_i64 (pre @ sleb z @ post) (length pre) e
    = (None, word_of_int z, length pre + length (sleb z))"
  using ReadLEB_i64_decode [OF assms] .

theorem ReadLEB_i64_roundtrip_witness:
  "ReadLEB_i64 ([] @ sleb (- (2 ^ 63)) @ [0]) 0 10 = (None, word_of_int (- (2 ^ 63)), 10)"
  using ReadLEB_i64_roundtrip [of "- (2 ^ 63)" "[]" 10 "[0]"] by (simp add: sleb.simps)

text \<open>On any input, well formed or not, \<^verbatim>\<open>ReadLEB_u32\<close> stops within five bytes and
  before the end of the section, and it moves the cursor whenever it reports success.\<close>

theorem ReadLEB_u32_bounded:
  assumes "ReadLEB_u32 w p e = (r, v, q)" and "p \<le> e"
  shows "p \<le> q \<and> q \<le> e \<and> q \<le> p + 5 \<and> (r = None \<longrightarrow> p < q)"
  using assms ReadLebUnsigned_loop_bounds [of w e 32 0 0 p]
  by (auto simp: ReadLEB_u32_def ReadLebUnsigned_def split: prod.splits)

theorem ReadLEB_u32_bounded_witness:
  "ReadLEB_u32 [0x80, 0x80, 0x80, 0x80, 0x80, 0x80] 0 6 = (Some m3Err_lebOverflow, 0, 5)
   \<and> (5::nat) \<le> 0 + 5"
proof -
  have r: "ReadLEB_u32 [0x80, 0x80, 0x80, 0x80, 0x80, 0x80] 0 6 = (Some m3Err_lebOverflow, 0, 5)"
    by code_simp
  from ReadLEB_u32_bounded [OF r] show ?thesis by (simp add: r)
qed

text \<open>\<^verbatim>\<open>NormalizeType\<close> accepts exactly the four numeric value types and the empty
  block type of the binary format, and maps them to the codes of \<^verbatim>\<open>M3ValueType\<close>.\<close>

theorem NormalizeType_accepts:
  "NormalizeType b =
     (if sint b = -1 then (None, c_m3Type_i32) else if sint b = -2 then (None, c_m3Type_i64)
      else if sint b = -3 then (None, c_m3Type_f32) else if sint b = -4 then (None, c_m3Type_f64)
      else if sint b = -64 then (None, c_m3Type_none)
      else (Some m3Err_invalidTypeId, - b))"
proof -
  have eqs: "- b = c \<longleftrightarrow> sint b = sint (- c)" for c
    by (metis minus_minus signed_word_eqI)
  have range: "1 \<le> - b \<and> - b \<le> 4 \<longleftrightarrow> - b = 1 \<or> - b = 2 \<or> - b = 3 \<or> - b = 4"
    by (simp add: word_le_nat_alt word_unat_eq_iff) arith
  show ?thesis
  proof (cases "- b = 1 \<or> - b = 2 \<or> - b = 3 \<or> - b = 4 \<or> - b = 0x40")
    case True
    then have "b = -1 \<or> b = -2 \<or> b = -3 \<or> b = -4 \<or> b = -64" by (metis minus_minus)
    then show ?thesis by (elim disjE) (simp_all add: NormalizeType_def)
  next
    case False
    then have "- b < 1 \<or> - b > 4" using range by (auto simp only: not_le)
    with False have "NormalizeType b = (Some m3Err_invalidTypeId, - b)"
      unfolding NormalizeType_def Let_def by (simp only: if_True if_False simp_thms de_Morgan_disj)
    with False show ?thesis
      using eqs [of "0x40"] eqs [of 1] eqs [of 2] eqs [of 3] eqs [of 4] by simp
  qed
qed

end
