(* ===== verification/M3_Math.thy ===== *)
theory M3_Math
  imports M3_Core
begin

text \<open>
  \<^verbatim>\<open>include/m3_math_utils.h\<close> and the arithmetic macros of \<^verbatim>\<open>include/m3_exec.h\<close>: the
  integer operators of WebAssembly as wasm3 computes them. An operator that can trap returns
  a \<open>result\<close>. Signed operands are read with \<open>sint\<close>; \<^verbatim>\<open>/\<close> and \<^verbatim>\<open>%\<close> of C truncate
  towards zero (\<open>sdiv\<close>, \<open>smod\<close>). A C operation whose result would be undefined is
  \<open>C_undefined\<close>, so that the lemmas can show it never happens.
\<close>

unbundle bit_operations_syntax

section \<open>Rotations\<close>

definition rotl32 :: "u32 \<Rightarrow> u32 \<Rightarrow> u32" where
  "rotl32 n c = (let mask = 31; c = c AND (mask AND 31) in
     push_bit (unat c) n OR drop_bit (unat ((- c) AND mask)) n)"

definition rotr32 :: "u32 \<Rightarrow> u32 \<Rightarrow> u32" where
  "rotr32 n c = (let mask = 31; c = c AND (mask AND 31) in
     drop_bit (unat c) n OR push_bit (unat ((- c) AND mask)) n)"

definition rotl64 :: "u64 \<Rightarrow> u32 \<Rightarrow> u64" where
  "rotl64 n c = (let mask = 63; c = c AND (mask AND 63) in
     push_bit (unat c) n OR drop_bit (unat ((- c) AND mask)) n)"

definition rotr64 :: "u64 \<Rightarrow> u32 \<Rightarrow> u64" where
  "rotr64 n c = (let mask = 63; c = c AND (mask AND 63) in
     drop_bit (unat c) n OR push_bit (unat ((- c) AND mask)) n)"

section \<open>Division and remainder\<close>

text \<open>C's signed \<^verbatim>\<open>/\<close> and \<^verbatim>\<open>%\<close> on a width: undefined for divisor 0 and for \<open>MIN / -1\<close>.\<close>

definition c_sdiv :: "'a::len word \<Rightarrow> 'a word \<Rightarrow> 'a word result" where
  "c_sdiv a b = (if b = 0 \<or> (sint b = -1 \<and> sint a = - (2 ^ (LENGTH('a) - 1))) then Inl C_undefined
     else Inr (word_of_int (sint a sdiv sint b)))"

definition c_srem :: "'a::len word \<Rightarrow> 'a word \<Rightarrow> 'a word result" where
  "c_srem a b = (if b = 0 \<or> (sint b = -1 \<and> sint a = - (2 ^ (LENGTH('a) - 1))) then Inl C_undefined
     else Inr (word_of_int (sint a smod sint b)))"

definition OP_DIV_U :: "'a::len word \<Rightarrow> 'a word \<Rightarrow> 'a word result" where
  "OP_DIV_U a b = (if b = 0 then Inl m3Err_trapDivisionByZero else Inr (a div b))"

definition OP_REM_U :: "'a::len word \<Rightarrow> 'a word \<Rightarrow> 'a word result" where
  "OP_REM_U a b = (if b = 0 then Inl m3Err_trapDivisionByZero else Inr (a mod b))"

text \<open>\<open>type_min\<close> is the macro's argument (\<^verbatim>\<open>INT32_MIN\<close>, \<^verbatim>\<open>INT64_MIN\<close>).\<close>

definition OP_DIV_S :: "'a::len word \<Rightarrow> 'a word \<Rightarrow> 'a word \<Rightarrow> 'a word result" where
  "OP_DIV_S a b type_min =
     (if b = 0 then Inl m3Err_trapDivisionByZero
      else if b = - 1 \<and> a = type_min then Inl m3Err_trapIntegerOverflow
      else c_sdiv a b)"

definition OP_REM_S :: "'a::len word \<Rightarrow> 'a word \<Rightarrow> 'a word \<Rightarrow> 'a word result" where
  "OP_REM_S a b type_min =
     (if b = 0 then Inl m3Err_trapDivisionByZero
      else if b = - 1 \<and> a = type_min then Inr 0
      else c_srem a b)"

abbreviation INT32_MIN :: u32 where "INT32_MIN \<equiv> 0x80000000"
abbreviation INT64_MIN :: u64 where "INT64_MIN \<equiv> 0x8000000000000000"

section \<open>Shifts, counts and extensions\<close>

definition OP_SHL_32 :: "u32 \<Rightarrow> u32 \<Rightarrow> u32" where
  "OP_SHL_32 x n = push_bit (unat (n mod 32)) x"

definition OP_SHL_64 :: "u64 \<Rightarrow> u64 \<Rightarrow> u64" where
  "OP_SHL_64 x n = push_bit (unat (n mod 64)) x"

text \<open>\<^verbatim>\<open>>>\<close> on the unsigned and on the signed instance of the macro.\<close>

definition OP_SHR_32_u :: "u32 \<Rightarrow> u32 \<Rightarrow> u32" where
  "OP_SHR_32_u x n = drop_bit (unat (n mod 32)) x"

definition OP_SHR_32_s :: "u32 \<Rightarrow> u32 \<Rightarrow> u32" where
  "OP_SHR_32_s x n = signed_drop_bit (unat (n mod 32)) x"

definition OP_SHR_64_u :: "u64 \<Rightarrow> u64 \<Rightarrow> u64" where
  "OP_SHR_64_u x n = drop_bit (unat (n mod 64)) x"

definition OP_SHR_64_s :: "u64 \<Rightarrow> u64 \<Rightarrow> u64" where
  "OP_SHR_64_s x n = signed_drop_bit (unat (n mod 64)) x"

text \<open>The compiler builtins, undefined at 0 for \<^verbatim>\<open>clz\<close> and \<^verbatim>\<open>ctz\<close>.\<close>

definition bits_of :: "'a::len word \<Rightarrow> bool list" where
  "bits_of x = map (bit x) [0..<LENGTH('a)]"

definition builtin_clz :: "'a::len word \<Rightarrow> nat result" where
  "builtin_clz x = (if x = 0 then Inl C_undefined else Inr (length (takeWhile Not (rev (bits_of x)))))"

definition builtin_ctz :: "'a::len word \<Rightarrow> nat result" where
  "builtin_ctz x = (if x = 0 then Inl C_undefined else Inr (length (takeWhile Not (bits_of x))))"

definition builtin_popcount :: "'a::len word \<Rightarrow> nat" where
  "builtin_popcount x = length (filter id (bits_of x))"

definition OP_EQZ :: "'a::len word \<Rightarrow> nat" where
  "OP_EQZ x = (if x = 0 then 1 else 0)"

definition OP_CLZ_32 :: "u32 \<Rightarrow> nat result" where
  "OP_CLZ_32 x = (if x = 0 then Inr 32 else builtin_clz x)"

definition OP_CTZ_32 :: "u32 \<Rightarrow> nat result" where
  "OP_CTZ_32 x = (if x = 0 then Inr 32 else builtin_ctz x)"

text \<open>The branchless 64-bit forms of the x86-64 build.\<close>

definition OP_CLZ_64 :: "u64 \<Rightarrow> nat result" where
  "OP_CLZ_64 x = tryR (builtin_clz (x OR push_bit 0 1)) (\<lambda>n. Inr (n + OP_EQZ x))"

definition OP_CTZ_64 :: "u64 \<Rightarrow> nat result" where
  "OP_CTZ_64 x = tryR (builtin_ctz (x OR push_bit 63 1)) (\<lambda>n. Inr (n + OP_EQZ x))"

definition OP_WRAP_I64 :: "u64 \<Rightarrow> u64" where
  "OP_WRAP_I64 x = x AND 0x00000000ffffffff"

definition OP_EXTEND8_S_I32 :: "u32 \<Rightarrow> u32" where
  "OP_EXTEND8_S_I32 x = scast (ucast x :: 8 word)"

definition OP_EXTEND16_S_I32 :: "u32 \<Rightarrow> u32" where
  "OP_EXTEND16_S_I32 x = scast (ucast x :: 16 word)"

definition OP_EXTEND8_S_I64 :: "u64 \<Rightarrow> u64" where
  "OP_EXTEND8_S_I64 x = scast (ucast x :: 8 word)"

definition OP_EXTEND16_S_I64 :: "u64 \<Rightarrow> u64" where
  "OP_EXTEND16_S_I64 x = scast (ucast x :: 16 word)"

definition OP_EXTEND32_S_I64 :: "u64 \<Rightarrow> u64" where
  "OP_EXTEND32_S_I64 x = scast (ucast x :: 32 word)"

section \<open>Rotations are the library's rotations\<close>

lemma rot_index: "n < L \<Longrightarrow> c < L \<Longrightarrow> (n + L - c) mod L = (if c \<le> n then n - c else n + L - (c::nat))"
proof -
  assume "n < L" "c < L"
  show ?thesis
  proof (cases "c \<le> n")
    case True
    then have "(n + L - c) mod L = (L + (n - c)) mod L" by (intro arg_cong [where f = "\<lambda>x. x mod L"]) simp
    also have "\<dots> = n - c" using \<open>n < L\<close> by (simp only: mod_add_self1) simp
    finally show ?thesis using True by simp
  next
    case False
    then show ?thesis using \<open>n < L\<close> \<open>c < L\<close> by simp
  qed
qed

lemma rotl_word:
  fixes n :: "'a::len word"
  assumes "c < LENGTH('a)"
  shows "push_bit c n OR drop_bit ((LENGTH('a) - c) mod LENGTH('a)) n = word_rotl c n"
proof (cases "c = 0")
  case False
  show ?thesis
  proof (rule bit_word_eqI)
    fix k assume k: "k < LENGTH('a)"
    have "bit (word_rotl c n) k = bit n ((k + LENGTH('a) - c) mod LENGTH('a))"
      using k assms by (simp add: bit_word_rotl_iff)
    then show "bit (push_bit c n OR drop_bit ((LENGTH('a) - c) mod LENGTH('a)) n) k = bit (word_rotl c n) k"
      using False assms k rot_index [OF k assms]
      by (auto simp: bit_or_iff bit_push_bit_iff bit_drop_bit_eq add.commute
          dest: bit_imp_le_length)
  qed
qed (auto intro!: bit_word_eqI simp: bit_word_rotl_iff)

lemma rotr_word:
  fixes n :: "'a::len word"
  assumes "c < LENGTH('a)"
  shows "drop_bit c n OR push_bit ((LENGTH('a) - c) mod LENGTH('a)) n = word_rotr c n"
proof (cases "c = 0")
  case False
  show ?thesis
  proof (rule bit_word_eqI)
    fix k assume k: "k < LENGTH('a)"
    have "(k + c) mod LENGTH('a) = (if k + c < LENGTH('a) then k + c else k + c - LENGTH('a))"
      using k assms by (simp add: mod_if)
    then show "bit (drop_bit c n OR push_bit ((LENGTH('a) - c) mod LENGTH('a)) n) k = bit (word_rotr c n) k"
      using False assms k
      by (auto simp: bit_or_iff bit_push_bit_iff bit_drop_bit_eq bit_word_rotr_iff add.commute
          dest: bit_imp_le_length)
  qed
qed (auto intro!: bit_word_eqI simp: bit_word_rotr_iff)

lemma unat_and_mask: "unat ((c::u32) AND mask k) = unat c mod 2 ^ k"
proof -
  have "c AND mask k = take_bit k c" by (simp add: take_bit_eq_mask)
  then show ?thesis by (simp only: unsigned_take_bit_eq) (simp add: take_bit_eq_mod)
qed

lemma neg_and_mask:
  assumes "unat (c::u32) < 2 ^ k" "k < 32"
  shows "unat ((- c) AND mask k) = (2 ^ k - unat c) mod 2 ^ k"
proof (cases "c = 0")
  case False
  have "unat (- c) = 2 ^ 32 - unat c" using False unat_sub_if' [of 0 c] by (simp add: unat_eq_0)
  moreover have "(2::nat) ^ 32 = 2 ^ k * 2 ^ (32 - k)" using assms(2) by (simp flip: power_add)
  then have "2 ^ 32 - unat c = (2 ^ k - unat c) + 2 ^ k * (2 ^ (32 - k) - 1)"
  proof -
    have "(2::nat) ^ k \<le> 2 ^ 32" using assms(2) by (intro power_increasing) auto
    moreover have "(2::nat) ^ k * (2 ^ (32 - k) - 1) = 2 ^ 32 - 2 ^ k"
      using \<open>(2::nat) ^ 32 = 2 ^ k * 2 ^ (32 - k)\<close> by (simp add: right_diff_distrib')
    ultimately show ?thesis using assms(1) by linarith
  qed
  ultimately show ?thesis using assms(2) by (simp add: unat_and_mask)
qed (simp add: unat_and_mask)


section \<open>Counts\<close>

lemma bits_of_nth [simp]: "k < LENGTH('a) \<Longrightarrow> bits_of (x :: 'a::len word) ! k = bit x k"
  and length_bits_of [simp]: "length (bits_of (x :: 'a::len word)) = LENGTH('a)"
  by (simp_all add: bits_of_def)

lemma length_takeWhile_eq:
  assumes "k < length xs" "P (xs ! k) = False" "\<And>i. i < k \<Longrightarrow> P (xs ! i)"
  shows "length (takeWhile P xs) = k"
  using assms
proof (induction xs arbitrary: k)
  case (Cons x xs)
  show ?case
  proof (cases k)
    case 0
    with Cons.prems show ?thesis by simp
  next
    case (Suc j)
    have "P x" using Cons.prems(3) [of 0] Suc by simp
    moreover have "length (takeWhile P xs) = j"
    proof (rule Cons.IH)
      fix i assume "i < j"
      then show "P (xs ! i)" using Cons.prems(3) [of "Suc i"] Suc by simp
    qed (use Cons.prems Suc in auto)
    ultimately show ?thesis using Suc by simp
  qed
qed simp

text \<open>The value of the builtins: the position of the lowest and of the highest set bit.\<close>

lemma builtin_ctz_eq:
  fixes x :: "'a::len word"
  assumes "bit x k" "\<And>i. i < k \<Longrightarrow> \<not> bit x i"
  shows "builtin_ctz x = Inr k"
proof -
  have k: "k < LENGTH('a)" using assms(1) by (rule bit_imp_le_length)
  have "x \<noteq> 0" using assms(1) by auto
  moreover have "length (takeWhile Not (bits_of x)) = k"
    by (rule length_takeWhile_eq) (use k assms in auto)
  ultimately show ?thesis by (simp add: builtin_ctz_def)
qed

lemma builtin_clz_eq:
  fixes x :: "'a::len word"
  assumes "bit x k" "\<And>i. k < i \<Longrightarrow> \<not> bit x i"
  shows "builtin_clz x = Inr (LENGTH('a) - 1 - k)"
proof -
  have k: "k < LENGTH('a)" using assms(1) by (rule bit_imp_le_length)
  have "x \<noteq> 0" using assms(1) by auto
  moreover have "length (takeWhile Not (rev (bits_of x))) = LENGTH('a) - 1 - k"
  proof (rule length_takeWhile_eq)
    fix i assume "i < LENGTH('a) - 1 - k"
    then show "\<not> rev (bits_of x) ! i"
      using assms(2) [of "LENGTH('a) - Suc i"] by (simp add: rev_nth)
  qed (use k assms(1) in \<open>auto simp: rev_nth Suc_diff_Suc\<close>)
  ultimately show ?thesis by (simp add: builtin_clz_def)
qed

lemma word_lowest_bit: "(x :: 'a::len word) \<noteq> 0 \<Longrightarrow> \<exists>k. bit x k \<and> (\<forall>i<k. \<not> bit x i)"
  using exists_least_iff [of "bit x"] by (metis bit_word_eqI bit_0_eq bot_apply bot_bool_def)

lemma word_highest_bit:
  assumes "(x :: 'a::len word) \<noteq> 0"
  shows "\<exists>k. bit x k \<and> (\<forall>i>k. \<not> bit x i)"
proof -
  let ?S = "{k. bit x k}"
  have fin: "finite ?S" using bit_imp_le_length by (auto intro: finite_subset [of _ "{..<LENGTH('a)}"])
  moreover have "?S \<noteq> {}" using word_lowest_bit [OF assms] by auto
  ultimately have "bit x (Max ?S)" "\<forall>i>Max ?S. \<not> bit x i"
    using Max_in [OF fin] Max_ge [OF fin] by (auto simp: not_less [symmetric])
  then show ?thesis by blast
qed

text \<open>The branchless forms agree with the guarded ones of the other platforms.\<close>

lemma OP_CLZ_64_eq: "OP_CLZ_64 x = (if x = 0 then Inr 64 else builtin_clz x)"
proof (cases "x = 0")
  case True
  have "builtin_clz (1 :: u64) = Inr (64 - 1 - 0)"
    using builtin_clz_eq [of "1 :: u64" 0] by (simp add: bit_1_iff)
  then show ?thesis using True by (simp add: OP_CLZ_64_def OP_EQZ_def)
next
  case False
  then obtain k where k: "bit x k" "\<forall>i>k. \<not> bit x i" using word_highest_bit by blast
  have "builtin_clz (x OR push_bit 0 1) = Inr (LENGTH(64) - 1 - k)"
    by (rule builtin_clz_eq) (use k in \<open>auto simp: bit_or_iff bit_1_iff\<close>)
  moreover have "builtin_clz x = Inr (LENGTH(64) - 1 - k)"
    by (rule builtin_clz_eq) (use k in auto)
  ultimately show ?thesis using False by (simp add: OP_CLZ_64_def OP_EQZ_def)
qed

lemma bit_63: "bit (push_bit 63 1 :: u64) i \<longleftrightarrow> i = 63"
  by (simp only: bit_push_bit_iff bit_1_iff) auto

lemma OP_CTZ_64_eq: "OP_CTZ_64 x = (if x = 0 then Inr 64 else builtin_ctz x)"
proof (cases "x = 0")
  case True
  have "builtin_ctz (push_bit 63 1 :: u64) = Inr 63"
    by (rule builtin_ctz_eq) (simp_all only: bit_63)
  then show ?thesis using True by (simp add: OP_CTZ_64_def OP_EQZ_def)
next
  case False
  then obtain k where k: "bit x k" "\<forall>i<k. \<not> bit x i" using word_lowest_bit by blast
  have "k < 64" using bit_imp_le_length [OF k(1)] by simp
  have "builtin_ctz (x OR push_bit 63 1) = Inr k"
    by (rule builtin_ctz_eq) (use k \<open>k < 64\<close> in \<open>simp_all only: bit_or_iff bit_63, auto\<close>)
  moreover have "builtin_ctz x = Inr k"
    by (rule builtin_ctz_eq) (use k in auto)
  ultimately show ?thesis using False by (simp add: OP_CTZ_64_def OP_EQZ_def)
qed


section \<open>Properties\<close>

text \<open>The branch-free rotations are the mathematical ones for every count, the counts
  \<open>0\<close> and those above the width included (where the naive shift by the width would be
  undefined in C).\<close>

theorem rotations_correct:
  "rotl32 n c = word_rotl (unat c) n \<and> rotr32 n c = word_rotr (unat c) n
   \<and> rotl64 m c = word_rotl (unat c) m \<and> rotr64 m c = word_rotr (unat c) m"
proof -
  have m31: "(31 :: u32) = mask 5" and m63: "(63 :: u32) = mask 6"
    by (simp_all add: mask_eq_exp_minus_1)
  have c5: "unat (c AND mask 5) = unat c mod 32" and c6: "unat (c AND mask 6) = unat c mod 64"
    by (simp_all only: unat_and_mask) simp_all
  have n5: "unat ((- (c AND mask 5)) AND mask 5) = (32 - unat c mod 32) mod 32"
    using neg_and_mask [of "c AND mask 5" 5] by (simp add: c5)
  have n6: "unat ((- (c AND mask 6)) AND mask 6) = (64 - unat c mod 64) mod 64"
    using neg_and_mask [of "c AND mask 6" 6] by (simp add: c6)
  note c5' = c5 [folded m31] and n5' = n5 [folded m31] and c6' = c6 [folded m63] and n6' = n6 [folded m63]
  have "word_rotl (unat c mod 32) n = word_rotl (unat c) n" "word_rotr (unat c mod 32) n = word_rotr (unat c) n"
    "word_rotl (unat c mod 64) m = word_rotl (unat c) m" "word_rotr (unat c mod 64) m = word_rotr (unat c) m"
    by (auto intro!: bit_word_eqI simp: bit_word_rotl_iff bit_word_rotr_iff mod_simps)
  then show ?thesis
    using rotl_word [of "unat c mod 32" n] rotr_word [of "unat c mod 32" n]
      rotl_word [of "unat c mod 64" m] rotr_word [of "unat c mod 64" m]
    by (simp add: rotl32_def rotr32_def rotl64_def rotr64_def Let_def c5' c6' n5' n6')
qed

lemma sdiv_range:
  assumes "\<bar>x\<bar> \<le> M" "b \<noteq> 0" "\<not> (b = -1 \<and> x = - M)" "x < M"
  shows "- M \<le> x sdiv b \<and> x sdiv b < (M::int)"
proof -
  have le: "\<bar>x\<bar> div \<bar>b\<bar> \<le> \<bar>x\<bar>" 
    using zdiv_mono2 [of "\<bar>x\<bar>" 1 "\<bar>b\<bar>"] assms(2) by simp
  have abs: "\<bar>x sdiv b\<bar> \<le> \<bar>x\<bar> div \<bar>b\<bar>"
  proof -
    have "0 \<le> \<bar>x\<bar> div \<bar>b\<bar>" using assms(2) by (simp add: pos_imp_zdiv_nonneg_iff)
    then show ?thesis by (auto simp: signed_divide_int_def abs_mult abs_sgn_eq)
  qed
  moreover have "x sdiv b \<noteq> M"
  proof
    assume eq: "x sdiv b = M"
    with abs le assms(1) have m: "\<bar>x\<bar> = M" "\<bar>x\<bar> div \<bar>b\<bar> = \<bar>x\<bar>" by linarith+
    then have x: "x = - M" using assms(4) by linarith
    show False
    proof (cases "M = 0")
      case True then show ?thesis using assms x by simp
    next
      case False
      then have "\<bar>b\<bar> = 1" using m assms(1,2) by (metis abs_ge_zero abs_of_nonneg int_div_less_self leI
            less_irrefl linorder_neqE order_less_le zero_less_abs_iff int_one_le_iff_zero_less)
      moreover have "b \<noteq> -1" using assms(3) x by blast
      ultimately have "b = 1" by arith
      then show ?thesis using x eq False by simp
    qed
  qed
  ultimately show ?thesis using le assms(1) by linarith
qed

lemma c_division:
  fixes a b type_min :: "'a::len word"
  assumes "sint type_min = - (2 ^ (LENGTH('a) - 1))" and "b \<noteq> 0" and "\<not> (b = -1 \<and> a = type_min)"
  shows "\<exists>q r. c_sdiv a b = Inr q \<and> c_srem a b = Inr r
    \<and> sint a = sint b * sint q + sint r \<and> \<bar>sint r\<bar> < \<bar>sint b\<bar> \<and> (sint r = 0 \<or> sgn (sint r) = sgn (sint a))"
proof -
  let ?M = "(2::int) ^ (LENGTH('a) - 1)"
  have b0: "sint b \<noteq> 0" using assms(2) by (metis signed_0 signed_word_eqI)
  have mone: "b = -1 \<longleftrightarrow> sint b = -1" by (metis signed_minus_1 signed_word_eqI)
  have amin: "a = type_min \<longleftrightarrow> sint a = - ?M" using assms(1) by (metis signed_word_eqI)
  have ne: "\<not> (sint b = -1 \<and> sint a = - ?M)" using assms(3) mone amin by blast
  note ra = sint_range [of a] and rb = sint_range [of b]
  let ?q = "sint a sdiv sint b" and ?r = "sint a smod sint b"
  have q: "sint (word_of_int ?q :: 'a word) = ?q"
    using sdiv_range [OF _ b0 ne] ra by (intro sint_of_int_eq) (auto simp: abs_le_iff)
  have absr: "\<bar>?r\<bar> < \<bar>sint b\<bar>"
    using b0 by (auto simp: signed_modulo_int_def abs_mult sgn_if)
  then have r: "sint (word_of_int ?r :: 'a word) = ?r"
    using rb by (intro sint_of_int_eq) linarith+
  have "c_sdiv a b = Inr (word_of_int ?q)" "c_srem a b = Inr (word_of_int ?r)"
    using assms(2,3) ne by (auto simp: c_sdiv_def c_srem_def)
  moreover have "sint a = sint b * ?q + ?r" by (simp add: mult_sdiv_smod_eq)
  moreover have "?r = 0 \<or> sgn ?r = sgn (sint a)"
  proof -
    have "0 \<le> \<bar>sint a\<bar> mod \<bar>sint b\<bar>" using b0 by simp
    then show ?thesis by (cases "\<bar>sint a\<bar> mod \<bar>sint b\<bar> = 0") (auto simp: signed_modulo_int_def sgn_mult)
  qed
  ultimately show ?thesis using q r absr by metis
qed

text \<open>C34: Signed division does what WebAssembly asks on every pair of operands, at every width.
  A zero divisor traps in both operators; \<open>MIN / -1\<close> traps with an integer overflow and
  \<open>MIN % -1\<close> is 0; on all other operands quotient and remainder are those of truncated division:
  \<open>a = b * q + r\<close>, the remainder is smaller than the divisor and has the sign of the dividend.
  The guards of \<^verbatim>\<open>OP_DIV_S\<close> and \<^verbatim>\<open>OP_REM_S\<close> cover exactly the operands on which C's
  \<^verbatim>\<open>/\<close> and \<^verbatim>\<open>%\<close> are undefined.\<close>

theorem signed_division_correct:
  fixes a b type_min :: "'a::len word"
  assumes "sint type_min = - (2 ^ (LENGTH('a) - 1))"
  shows "if b = 0 then
      c_sdiv a b = Inl C_undefined \<and> c_srem a b = Inl C_undefined
      \<and> OP_DIV_S a b type_min = Inl m3Err_trapDivisionByZero \<and> OP_REM_S a b type_min = Inl m3Err_trapDivisionByZero
    else if b = -1 \<and> a = type_min then
      c_sdiv a b = Inl C_undefined \<and> c_srem a b = Inl C_undefined
      \<and> OP_DIV_S a b type_min = Inl m3Err_trapIntegerOverflow \<and> OP_REM_S a b type_min = Inr 0
    else \<exists>q r. OP_DIV_S a b type_min = Inr q \<and> OP_REM_S a b type_min = Inr r
      \<and> c_sdiv a b = Inr q \<and> c_srem a b = Inr r
      \<and> sint a = sint b * sint q + sint r \<and> \<bar>sint r\<bar> < \<bar>sint b\<bar> \<and> (sint r = 0 \<or> sgn (sint r) = sgn (sint a))"
proof (cases "b = 0 \<or> b = -1 \<and> a = type_min")
  case True
  then show ?thesis using assms by (auto simp: OP_DIV_S_def OP_REM_S_def c_sdiv_def c_srem_def)
next
  case False
  obtain q r where "c_sdiv a b = Inr q" "c_srem a b = Inr r" "sint a = sint b * sint q + sint r"
    "\<bar>sint r\<bar> < \<bar>sint b\<bar>" "sint r = 0 \<or> sgn (sint r) = sgn (sint a)"
    using c_division [of type_min b a] assms False by metis
  moreover from this have "OP_DIV_S a b type_min = Inr q" "OP_REM_S a b type_min = Inr r"
    using False by (auto simp: OP_DIV_S_def OP_REM_S_def)
  ultimately show ?thesis using False by auto
qed

theorem signed_division_correct_witness:
  "\<exists>q r. OP_DIV_S (word_of_int (-7) :: u32) 2 INT32_MIN = Inr q \<and> OP_REM_S (word_of_int (-7)) 2 INT32_MIN = Inr r
    \<and> c_sdiv (word_of_int (-7) :: u32) 2 = Inr q \<and> c_srem (word_of_int (-7) :: u32) 2 = Inr r
    \<and> sint (word_of_int (-7) :: u32) = sint (2::u32) * sint q + sint r \<and> \<bar>sint r\<bar> < \<bar>sint (2::u32)\<bar>
    \<and> (sint r = 0 \<or> sgn (sint r) = sgn (sint (word_of_int (-7) :: u32)))"
  using signed_division_correct [of INT32_MIN 2 "word_of_int (-7) :: u32"] by simp

text \<open>The traps of signed division: a zero divisor always traps, \<open>MIN / -1\<close> traps with
  integer overflow, and \<open>MIN % -1\<close> is 0 as WebAssembly requires.\<close>

theorem signed_division_traps:
  "OP_DIV_S a (0 :: u32) INT32_MIN = Inl m3Err_trapDivisionByZero
   \<and> OP_REM_S a (0 :: u32) INT32_MIN = Inl m3Err_trapDivisionByZero
   \<and> OP_DIV_S INT32_MIN (-1) INT32_MIN = Inl m3Err_trapIntegerOverflow
   \<and> OP_REM_S INT32_MIN (-1) INT32_MIN = Inr 0
   \<and> OP_DIV_S INT64_MIN (-1) INT64_MIN = Inl m3Err_trapIntegerOverflow
   \<and> OP_REM_S INT64_MIN (-1) INT64_MIN = Inr 0"
  by (simp add: OP_DIV_S_def OP_REM_S_def)

text \<open>The branchless count operators of the x86-64 build return 64 at 0 without calling
  the builtin on 0, and elsewhere the position of the highest (lowest) set bit.\<close>

theorem clz_ctz_64_correct:
  "(OP_CLZ_64 x = Inr n \<longleftrightarrow> (if x = 0 then n = 64 else n < 64 \<and> bit x (63 - n) \<and> (\<forall>i. 63 - n < i \<longrightarrow> \<not> bit x i)))
   \<and> (OP_CTZ_64 x = Inr n \<longleftrightarrow> (if x = 0 then n = 64 else bit x n \<and> (\<forall>i. i < n \<longrightarrow> \<not> bit x i)))"
proof (cases "x = 0")
  case False
  then obtain h where h: "bit x h" "\<forall>i>h. \<not> bit x i" using word_highest_bit by blast
  obtain l where l: "bit x l" "\<forall>i<l. \<not> bit x i" using word_lowest_bit False by blast
  have h64: "h < 64" using bit_imp_le_length [OF h(1)] by simp
  have "OP_CLZ_64 x = Inr (63 - h)" using False builtin_clz_eq [of x h] h by (simp add: OP_CLZ_64_eq)
  moreover have "OP_CTZ_64 x = Inr l" using False builtin_ctz_eq [of x l] l by (simp add: OP_CTZ_64_eq)
  moreover have "63 - h = n \<longleftrightarrow> n < 64 \<and> bit x (63 - n) \<and> (\<forall>i. 63 - n < i \<longrightarrow> \<not> bit x i)"
  proof
    assume "63 - h = n"
    then have "63 - n = h" "n < 64" using h64 by auto
    then show "n < 64 \<and> bit x (63 - n) \<and> (\<forall>i. 63 - n < i \<longrightarrow> \<not> bit x i)" using h by simp
  next
    assume a: "n < 64 \<and> bit x (63 - n) \<and> (\<forall>i. 63 - n < i \<longrightarrow> \<not> bit x i)"
    then have "63 - n = h" using h by (metis linorder_neqE_nat)
    then show "63 - h = n" using a by auto
  qed
  moreover have "l = n \<longleftrightarrow> bit x n \<and> (\<forall>i. i < n \<longrightarrow> \<not> bit x i)"
    using l by (metis linorder_neqE_nat)
  ultimately show ?thesis using False by auto
qed (auto simp: OP_CLZ_64_eq OP_CTZ_64_eq)

end
