(* ===== verification/M3_Code.thy ===== *)
theory M3_Code
  imports M3_Core "HOL-Library.Multiset"
begin

text \<open>
  Code pages: \<^verbatim>\<open>src/m3_code.c\<close> and the page lists of the runtime and the environment in
  \<^verbatim>\<open>src/m3_env.c\<close>. A page is its header and its \<^verbatim>\<open>code\<close> array; a linked list of pages
  is a list of them, so \<^verbatim>\<open>page->info.next\<close> is the rest of the list and \<^verbatim>\<open>NULL\<close> is
  \<open>[]\<close>. A program counter into a page is the index of its line. The configuration has
  \<^verbatim>\<open>d_m3RecordBacktraces = 0\<close>, so a page has no mapping; the mapping pages of the other
  configuration are modelled on their own at the end.
\<close>

unbundle bit_operations_syntax

section \<open>Pages\<close>

text \<open>\<^verbatim>\<open>M3CodePageHeader\<close> (24 bytes on a 64-bit host) and \<^verbatim>\<open>M3CodePage\<close>.\<close>

record code_page =
  pg_lineIndex :: u32
  pg_numLines :: u32
  pg_sequence :: u32
  pg_code :: "u64 list"

abbreviation (input) sizeof_code_t :: u32 where "sizeof_code_t \<equiv> 8"
abbreviation (input) sizeof_M3CodePageHeader :: u32 where "sizeof_M3CodePageHeader \<equiv> 24"
abbreviation (input) d_m3CodePageAlignSize :: u32 where "d_m3CodePageAlignSize \<equiv> 0x8000"
abbreviation (input) d_m3CodePageFreeLinesThreshold :: u32 where "d_m3CodePageFreeLinesThreshold \<equiv> 4 + 2"

text \<open>\<open>calloc_ok n\<close> says whether \<^verbatim>\<open>calloc\<close> returns memory for \<open>n\<close> bytes.
  The second component is \<^verbatim>\<open>i_runtime->newCodePageSequence\<close>.\<close>

definition NewCodePage :: "(nat \<Rightarrow> bool) \<Rightarrow> u32 \<Rightarrow> u32 \<Rightarrow> code_page option \<times> u32" where
  "NewCodePage calloc_ok newCodePageSequence minNumLines =
    (if minNumLines > 0xFFFFFFFF div sizeof_code_t then (None, newCodePageSequence)
     else let pageSize = sizeof_M3CodePageHeader + sizeof_code_t * minNumLines in
       if pageSize < sizeof_M3CodePageHeader then (None, newCodePageSequence)
       else let pageSize = (pageSize + (d_m3CodePageAlignSize - 1)) AND NOT (d_m3CodePageAlignSize - 1) in
         if pageSize = 0 then (None, newCodePageSequence)
         else if calloc_ok (unat pageSize) then
           let seq = newCodePageSequence + 1;
               n = (pageSize - sizeof_M3CodePageHeader) div sizeof_code_t in
             (Some \<lparr>pg_lineIndex = 0, pg_numLines = n, pg_sequence = seq, pg_code = replicate (unat n) 0\<rparr>, seq)
         else (None, newCodePageSequence))"

text \<open>The pages freed, in order, and the emptied list.\<close>

fun FreeCodePages :: "code_page list \<Rightarrow> code_page list \<times> code_page list" where
  "FreeCodePages [] = ([], [])"
| "FreeCodePages (page # next') = (let (freed, io_list) = FreeCodePages next' in (page # freed, io_list))"

definition NumFreeLines :: "code_page \<Rightarrow> u32" where
  "NumFreeLines page = pg_numLines page - pg_lineIndex page"

definition EmitWord_impl :: "code_page \<Rightarrow> u64 \<Rightarrow> code_page result" where
  "EmitWord_impl page w =
    (let i = unat (pg_lineIndex page) in
     if i < length (pg_code page)
     then Inr (page\<lparr>pg_code := (pg_code page)[i := w], pg_lineIndex := pg_lineIndex page + 1\<rparr>)
     else Inl C_undefined)"

text \<open>\<^verbatim>\<open>memcpy\<close> of four bytes into an eight byte line keeps the line's other half.\<close>

definition EmitWord32 :: "code_page \<Rightarrow> u32 \<Rightarrow> code_page result" where
  "EmitWord32 page w =
    (let i = unat (pg_lineIndex page) in
     if i < length (pg_code page)
     then Inr (page\<lparr>pg_code := (pg_code page)[i := (pg_code page ! i AND 0xFFFFFFFF00000000) OR ucast w],
                    pg_lineIndex := pg_lineIndex page + 1\<rparr>)
     else Inl C_undefined)"

definition EmitWord64 :: "code_page \<Rightarrow> u64 \<Rightarrow> code_page result" where
  "EmitWord64 page w =
    (let i = unat (pg_lineIndex page) in
     if i < length (pg_code page)
     then Inr (page\<lparr>pg_code := (pg_code page)[i := w], pg_lineIndex := pg_lineIndex page + 1\<rparr>)
     else Inl C_undefined)"

definition GetPageStartPC :: "code_page \<Rightarrow> nat" where
  "GetPageStartPC page = 0"

definition GetPagePC :: "code_page option \<Rightarrow> nat option" where
  "GetPagePC i_page = (case i_page of Some page \<Rightarrow> Some (unat (pg_lineIndex page)) | None \<Rightarrow> None)"

section \<open>Lists of pages\<close>

definition PushCodePage :: "code_page list \<Rightarrow> code_page \<Rightarrow> code_page list" where
  "PushCodePage i_list page = page # i_list"

fun PopCodePage :: "code_page list \<Rightarrow> (code_page \<times> code_page list) result" where
  "PopCodePage [] = Inl C_undefined"
| "PopCodePage (page # next') = Inr (page, next')"

fun FindCodePageEnd_loop :: "code_page list \<Rightarrow> u32 \<Rightarrow> code_page option \<Rightarrow> u32 \<times> code_page option" where
  "FindCodePageEnd_loop [] numPages o_end = (numPages, o_end)"
| "FindCodePageEnd_loop (p # ps) numPages o_end = FindCodePageEnd_loop ps (numPages + 1) (Some p)"

definition FindCodePageEnd :: "code_page list \<Rightarrow> u32 \<times> code_page option" where
  "FindCodePageEnd i_list = FindCodePageEnd_loop i_list 0 None"

definition CountCodePages :: "code_page list \<Rightarrow> u32" where
  "CountCodePages i_list = fst (FindCodePageEnd i_list)"

definition GetEndCodePage :: "code_page list \<Rightarrow> code_page option" where
  "GetEndCodePage i_list = snd (FindCodePageEnd i_list)"

text \<open>The first page with enough free lines, unlinked from its list.\<close>

fun RemoveCodePageOfCapacity :: "code_page list \<Rightarrow> u32 \<Rightarrow> code_page option \<times> code_page list" where
  "RemoveCodePageOfCapacity [] n = (None, [])"
| "RemoveCodePageOfCapacity (page # next') n =
    (if NumFreeLines page \<ge> n then (Some page, next')
     else let (r, l) = RemoveCodePageOfCapacity next' n in (r, page # l))"

section \<open>The page lists of a runtime and its environment\<close>

text \<open>The page fields of \<^verbatim>\<open>M3Environment\<close> (\<open>pagesReleased\<close>) and \<^verbatim>\<open>M3Runtime\<close>.\<close>

record page_store =
  pagesReleased :: "code_page list"
  pagesOpen :: "code_page list"
  pagesFull :: "code_page list"
  numCodePages :: u32
  numActiveCodePages :: u32
  newCodePageSequence :: u32

text \<open>The zeroed fields of a new runtime (\<^verbatim>\<open>m3_NewRuntime\<close> allocates with \<^verbatim>\<open>calloc\<close>).\<close>

definition empty_page_store :: page_store where
  "empty_page_store = \<lparr>pagesReleased = [], pagesOpen = [], pagesFull = [], numCodePages = 0,
     numActiveCodePages = 0, newCodePageSequence = 0\<rparr>"

definition Environment_AcquireCodePage :: "page_store \<Rightarrow> u32 \<Rightarrow> code_page option \<times> page_store" where
  "Environment_AcquireCodePage rt n =
    (let (page, l) = RemoveCodePageOfCapacity (pagesReleased rt) n in (page, rt\<lparr>pagesReleased := l\<rparr>))"

definition reset_page :: "code_page \<Rightarrow> code_page" where
  "reset_page p = p\<lparr>pg_lineIndex := 0\<rparr>"

text \<open>Every page of the list is reset and the list is put in front of the released ones.\<close>

definition Environment_ReleaseCodePages :: "page_store \<Rightarrow> code_page list \<Rightarrow> page_store" where
  "Environment_ReleaseCodePages rt l = rt\<lparr>pagesReleased := map reset_page l @ pagesReleased rt\<rparr>"

definition ReleaseCodePageNoTrack :: "page_store \<Rightarrow> code_page option \<Rightarrow> page_store" where
  "ReleaseCodePageNoTrack rt i_codePage =
    (case i_codePage of None \<Rightarrow> rt
     | Some p \<Rightarrow> (if NumFreeLines p < d_m3CodePageFreeLinesThreshold
                 then rt\<lparr>pagesFull := PushCodePage (pagesFull rt) p\<rparr>
                 else rt\<lparr>pagesOpen := PushCodePage (pagesOpen rt) p\<rparr>))"

definition AcquireCodePageWithCapacity ::
    "(nat \<Rightarrow> bool) \<Rightarrow> page_store \<Rightarrow> u32 \<Rightarrow> code_page option \<times> page_store" where
  "AcquireCodePageWithCapacity calloc_ok rt n =
    (let (page, l) = RemoveCodePageOfCapacity (pagesOpen rt) n;
         rt = rt\<lparr>pagesOpen := l\<rparr>;
         (page, rt) =
           (case page of Some p \<Rightarrow> (page, rt)
            | None \<Rightarrow>
               let (page, rt) = Environment_AcquireCodePage rt n;
                   (page, rt) =
                     (case page of Some p \<Rightarrow> (page, rt)
                      | None \<Rightarrow> let (page, seq) = NewCodePage calloc_ok (newCodePageSequence rt) n
                                in (page, rt\<lparr>newCodePageSequence := seq\<rparr>))
               in case page of Some p \<Rightarrow> (page, rt\<lparr>numCodePages := numCodePages rt + 1\<rparr>)
                  | None \<Rightarrow> (page, rt))
     in case page of Some p \<Rightarrow> (page, rt\<lparr>numActiveCodePages := numActiveCodePages rt + 1\<rparr>)
        | None \<Rightarrow> (page, rt))"

definition AcquireCodePage :: "(nat \<Rightarrow> bool) \<Rightarrow> page_store \<Rightarrow> code_page option \<times> page_store" where
  "AcquireCodePage calloc_ok rt = AcquireCodePageWithCapacity calloc_ok rt d_m3CodePageFreeLinesThreshold"

definition ReleaseCodePage :: "page_store \<Rightarrow> code_page option \<Rightarrow> page_store" where
  "ReleaseCodePage rt i_codePage =
    (case i_codePage of None \<Rightarrow> rt
     | Some p \<Rightarrow> let rt = ReleaseCodePageNoTrack rt i_codePage
                in rt\<lparr>numActiveCodePages := numActiveCodePages rt - 1\<rparr>)"

text \<open>The page part of \<^verbatim>\<open>Runtime_Release\<close>: both lists go back to the environment.\<close>

definition Runtime_Release_pages :: "page_store \<Rightarrow> page_store" where
  "Runtime_Release_pages rt =
    Environment_ReleaseCodePages (Environment_ReleaseCodePages rt (pagesOpen rt)) (pagesFull rt)"

section \<open>Mapping pages\<close>

text \<open>\<^verbatim>\<open>M3CodeMappingPage\<close>: \<open>entries\<close> are \<^verbatim>\<open>(pcOffset, moduleOffset)\<close> pairs; the array has
  \<open>capacity\<close> elements, of which the first \<open>size\<close> are in use.\<close>

record mapping_page =
  basePC :: u64
  mp_size :: u32
  capacity :: u32
  entries :: "(u32 \<times> u32) list"

text \<open>\<open>pc\<close> is the address of the page's next line, in lines.\<close>

definition EmitMappingEntry :: "mapping_page \<Rightarrow> u64 \<Rightarrow> u32 \<Rightarrow> mapping_page result" where
  "EmitMappingEntry page pc moduleOffset =
    (if unat (mp_size page) < length (entries page)
     then Inr (page\<lparr>entries := (entries page)[unat (mp_size page) := (ucast (pc - basePC page), moduleOffset)],
                    mp_size := mp_size page + 1\<rparr>)
     else Inl C_undefined)"

definition ContainsPC :: "u64 \<Rightarrow> u64 \<Rightarrow> u64 \<Rightarrow> bool" where
  "ContainsPC startPC endPC pc \<longleftrightarrow> startPC \<le> pc \<and> pc < endPC"

lemma mid_bounds:
  assumes "left < (right::u32)"
  shows "unat (left + (right - left) div 2) = unat left + (unat right - unat left) div 2"
    and "left \<le> left + (right - left) div 2" and "left + (right - left) div 2 < right"
proof -
  have lt: "unat left < unat right" using assms by (simp add: word_less_nat_alt)
  have u: "unat ((right - left) div 2) = (unat right - unat left) div 2"
    using lt by (simp add: unat_div unat_sub word_le_nat_alt)
  have r: "unat right < 2 ^ 32" using unat_lt32 [of right] by simp
  show *: "unat (left + (right - left) div 2) = unat left + (unat right - unat left) div 2"
    using lt r by (subst unat_add_lem [THEN iffD1]) (simp_all add: u)
  show "left \<le> left + (right - left) div 2" "left + (right - left) div 2 < right"
    using lt by (simp_all add: word_le_nat_alt word_less_nat_alt *)
qed

function (sequential) MapPCToOffset_loop :: "(u32 \<times> u32) list \<Rightarrow> u32 \<Rightarrow> u32 \<Rightarrow> u32 \<Rightarrow> u32 option result" where
  "MapPCToOffset_loop es pcOffset left right =
    (if left < right then
       let mid = left + (right - left) div 2 in
       if unat mid < length es then
         if fst (es ! unat mid) < pcOffset then MapPCToOffset_loop es pcOffset (mid + 1) right
         else if fst (es ! unat mid) > pcOffset then MapPCToOffset_loop es pcOffset left mid
         else Inr (Some (snd (es ! unat mid)))
       else Inl C_undefined
     else if left > 0 then
       if unat (left - 1) < length es then Inr (Some (snd (es ! unat (left - 1)))) else Inl C_undefined
     else Inr None)"
  by pat_completeness auto

termination
proof (relation "measure (\<lambda>(es, pc, left, right). unat right - unat left)", goal_cases)
  case (2 es pcOffset left right mid)
  then have "mid < right" "left \<le> mid" using mid_bounds by auto
  then have "unat (mid + 1) = unat mid + 1"
    by (intro unat_inc_below)
  with \<open>mid < right\<close> \<open>left \<le> mid\<close> show ?case by (auto simp: word_less_nat_alt word_le_nat_alt)
next
  case (3 es pcOffset left right mid)
  then have "mid < right" "left \<le> mid" using mid_bounds by auto
  then show ?case by (auto simp: word_less_nat_alt word_le_nat_alt)
qed simp

declare MapPCToOffset_loop.simps [simp del]

definition MapPCToOffset :: "mapping_page \<Rightarrow> u64 \<Rightarrow> u32 option result" where
  "MapPCToOffset mapping pc = MapPCToOffset_loop (entries mapping) (ucast (pc - basePC mapping)) 0 (mp_size mapping)"


section \<open>New pages\<close>

lemma align_up:
  fixes x :: u32
  assumes "x + 0x7FFF \<ge> x"
  shows "unat ((x + 0x7FFF) AND NOT 0x7FFF) = (unat x + 0x7FFF) div 0x8000 * 0x8000"
proof -
  have "(x + 0x7FFF) AND NOT 0x7FFF = (x + 0x7FFF) AND NOT (mask 15)" by (simp add: mask_eq_exp_minus_1)
  also have "\<dots> = push_bit 15 (drop_bit 15 (x + 0x7FFF))"
    by (rule bit_word_eqI) (auto simp: bit_and_iff bit_not_iff bit_mask_iff bit_push_bit_iff bit_drop_bit_eq)
  finally have e: "(x + 0x7FFF) AND NOT 0x7FFF = push_bit 15 (drop_bit 15 (x + 0x7FFF))" .
  have u: "unat (x + 0x7FFF) = unat x + 0x7FFF" using assms by (simp add: unat_plus_simple [of x "0x7FFF"])
  have "unat (drop_bit 15 (x + 0x7FFF)) = (unat x + 0x7FFF) div 0x8000"
    by (simp add: drop_bit_eq_div unat_div flip: u)
  moreover have "(unat x + 0x7FFF) div 0x8000 * 0x8000 < 2 ^ 32"
    using unat_lt32 [of "x + 0x7FFF"] div_times_less_eq_dividend [of "unat x + 0x7FFF" "0x8000"]
    unfolding u by simp
  ultimately show ?thesis
    unfolding e by (simp add: push_bit_eq_mult unat_word_ariths)
qed

lemma and_not_mask_below: "unat (y :: 'a::len word) < 2 ^ k \<Longrightarrow> y AND NOT (mask k) = 0"
  by (intro bit_word_eqI) (auto simp: bit_and_iff bit_not_iff bit_mask_iff dest: bit_word_below)

lemma align_wrap:
  fixes x :: u32
  assumes "x + 0x7FFF < x"
  shows "(x + 0x7FFF) AND NOT 0x7FFF = 0"
proof -
  have "unat (x + 0x7FFF) < 0x7FFF"
    using assms unat_lt32 [of x] by (simp add: word_less_nat_alt unat_word_ariths mod_if split: if_splits) arith
  then have "unat (x + 0x7FFF) < 2 ^ 15" by simp
  then have "(x + 0x7FFF) AND NOT (mask 15) = 0" by (rule and_not_mask_below)
  then show ?thesis by (simp add: mask_eq_exp_minus_1)
qed

text \<open>Bytes of a page with room for \<open>n\<close> lines, without the machine's wrap-around.\<close>

definition page_bytes :: "nat \<Rightarrow> nat" where
  "page_bytes n = (24 + 8 * n + 32767) div 32768 * 32768"

lemma page_bytes_bounds: "24 + 8 * n \<le> page_bytes n" "page_bytes n \<le> 24 + 8 * n + 32767"
  by (simp_all add: page_bytes_def)

lemma NewCodePage_eq:
  "NewCodePage ok seq n =
    (if page_bytes (unat n) < 2 ^ 32 \<and> ok (page_bytes (unat n))
     then let lines = (page_bytes (unat n) - 24) div 8 in
       (Some \<lparr>pg_lineIndex = 0, pg_numLines = of_nat lines, pg_sequence = seq + 1, pg_code = replicate lines 0\<rparr>, seq + 1)
     else (None, seq))"
proof -
  let ?b = "page_bytes (unat n)" and ?m = "0xFFFFFFFF div 8 :: u32"
  have m: "n > ?m \<longleftrightarrow> 0x1FFFFFFF < unat n" by (simp add: word_less_nat_alt)
  show "NewCodePage ok seq n = (if ?b < 2 ^ 32 \<and> ok ?b
     then let lines = (?b - 24) div 8 in
       (Some \<lparr>pg_lineIndex = 0, pg_numLines = of_nat lines, pg_sequence = seq + 1, pg_code = replicate lines 0\<rparr>, seq + 1)
     else (None, seq))"
  proof (cases "24 + 8 * unat n < 2 ^ 32")
    case False
    then have "\<not> ?b < 2 ^ 32" using page_bytes_bounds(1) [of "unat n"] by linarith
    moreover have "n > ?m \<or> 24 + 8 * n < 24"
    proof (cases "unat n \<le> 0x1FFFFFFF")
      case True
      then have "unat (24 + 8 * n) = 24 + 8 * unat n - 2 ^ 32"
        using False by (simp add: unat_word_ariths mod_if)
      then show ?thesis using True by (simp add: word_less_nat_alt)
    qed (simp add: word_less_nat_alt)
    ultimately show ?thesis by (auto simp: NewCodePage_def Let_def)
  next
    case True
    then have x: "unat (24 + 8 * n) = 24 + 8 * unat n" "\<not> n > ?m" "\<not> 24 + 8 * n < 24"
      unfolding m by (auto simp: word_less_nat_alt unat_word_ariths)
    show ?thesis
    proof (cases "24 + 8 * n + 0x7FFF < 24 + 8 * n")
      case wrap: True
      have "2 ^ 32 \<le> 24 + 8 * unat n + 32767"
        using wrap True by (simp add: word_less_nat_alt unat_word_ariths mod_if split: if_splits)
      then have "\<not> ?b < 2 ^ 32" by (simp add: page_bytes_def)
      then show ?thesis using x align_wrap [OF wrap] by (simp add: NewCodePage_def Let_def)
    next
      case False
      then have le: "24 + 8 * n + 0x7FFF \<ge> 24 + 8 * n" by simp
      define z where "z = (24 + 8 * n + 0x7FFF) AND NOT (0x7FFF :: u32)"
      have b: "unat z = ?b" unfolding z_def by (subst align_up [OF le]) (simp add: x page_bytes_def)
      then have "?b < 2 ^ 32" using unat_lt32 [of z] by simp
      moreover have "z \<noteq> 0" using b page_bytes_bounds(1) [of "unat n"] by auto
      moreover have "unat ((z - 24) div 8) = (?b - 24) div 8"
        using b page_bytes_bounds(1) [of "unat n"] by (simp add: unat_div unat_sub word_le_nat_alt)
      moreover from this have "(z - 24) div 8 = of_nat ((?b - 24) div 8)"
        by (rule unat_eq_of_nat)
      moreover have "NewCodePage ok seq n = (if z = 0 then (None, seq) else if ok (unat z)
          then (Some \<lparr>pg_lineIndex = 0, pg_numLines = (z - 24) div 8, pg_sequence = seq + 1,
                  pg_code = replicate (unat ((z - 24) div 8)) 0\<rparr>, seq + 1) else (None, seq))"
        using x by (simp add: NewCodePage_def Let_def z_def)
      ultimately show ?thesis by (simp add: b Let_def)
    qed
  qed
qed

text \<open>A new page has at least the requested number of lines, all of them zero, and the
  whole page is a multiple of the alignment; a page is refused exactly when its rounded size
  does not fit 32 bits (the three overflow checks together miss nothing) or the allocator has
  no memory. The sequence number advances only with a page.\<close>

theorem NewCodePage_correct:
  "NewCodePage ok seq n =
    (if page_bytes (unat n) < 2 ^ 32 \<and> ok (page_bytes (unat n))
     then let lines = (page_bytes (unat n) - 24) div 8 in
       (Some \<lparr>pg_lineIndex = 0, pg_numLines = of_nat lines, pg_sequence = seq + 1, pg_code = replicate lines 0\<rparr>, seq + 1)
     else (None, seq))
   \<and> unat n \<le> (page_bytes (unat n) - 24) div 8 \<and> 32768 dvd page_bytes (unat n)"
proof (intro conjI)
  show "unat n \<le> (page_bytes (unat n) - 24) div 8" using page_bytes_bounds(1) [of "unat n"] by linarith
qed (simp_all only: NewCodePage_eq, simp add: page_bytes_def)

section \<open>Searching a mapping page\<close>

lemma filter_prefix:
  assumes "k \<le> length xs" "\<And>i. i < k \<Longrightarrow> P (xs ! i)" "\<And>i. k \<le> i \<Longrightarrow> i < length xs \<Longrightarrow> \<not> P (xs ! i)"
  shows "filter P xs = take k xs"
proof -
  have "filter P (take k xs) = take k xs" using assms by (auto simp: filter_id_conv in_set_conv_nth)
  moreover have "filter P (drop k xs) = []" using assms by (auto simp: filter_empty_conv in_set_conv_nth)
  ultimately show ?thesis by (metis append_Nil2 append_take_drop_id filter_append)
qed

text \<open>The last entry at or below an offset.\<close>

definition last_at_or_below :: "(u32 \<times> u32) list \<Rightarrow> u32 \<Rightarrow> u32 option" where
  "last_at_or_below es pcOffset =
    (let below = filter (\<lambda>e. fst e \<le> pcOffset) es in if below = [] then None else Some (snd (last below)))"

lemma last_at_or_below_prefix:
  assumes "k \<le> length es" "\<And>i. i < k \<Longrightarrow> fst (es ! i) \<le> pc" "\<And>i. k \<le> i \<Longrightarrow> i < length es \<Longrightarrow> pc < fst (es ! i)"
  shows "last_at_or_below es pc = (if k = 0 then None else Some (snd (es ! (k - 1))))"
proof -
  have "filter (\<lambda>e. fst e \<le> pc) es = take k es" by (rule filter_prefix) (use assms in \<open>auto simp: not_le\<close>)
  then show ?thesis using assms(1) by (auto simp: last_at_or_below_def Let_def last_conv_nth)
qed

lemma MapPCToOffset_loop_correct:
  assumes "sorted_wrt (<) (map fst (take n es))" "n \<le> length es" "left \<le> right" "unat right \<le> n"
    "\<And>i. i < unat left \<Longrightarrow> fst (es ! i) < pc" "\<And>i. unat right \<le> i \<Longrightarrow> i < n \<Longrightarrow> pc < fst (es ! i)"
  shows "MapPCToOffset_loop es pc left right = Inr (last_at_or_below (take n es) pc)"
  using assms
proof (induction es pc left right rule: MapPCToOffset_loop.induct)
  case (1 es pc left right)
  note bounds = \<open>left \<le> right\<close> \<open>unat right \<le> n\<close>
    and below = \<open>\<And>i. i < unat left \<Longrightarrow> fst (es ! i) < pc\<close>
    and above = \<open>\<And>i. unat right \<le> i \<Longrightarrow> i < n \<Longrightarrow> pc < fst (es ! i)\<close>
    and sorted = \<open>sorted_wrt (<) (map fst (take n es))\<close> and len = \<open>n \<le> length es\<close>
  show ?case
  proof (cases "left < right")
    case True
    let ?mid = "left + (right - left) div 2"
    note mid = mid_bounds [OF True]
    have mid_n: "unat ?mid < n" using mid(3) bounds by (simp add: word_less_nat_alt)
    have inc: "unat (?mid + 1) = unat ?mid + 1" using mid(3) by (rule unat_inc_below)
    have ord: "i < j \<Longrightarrow> j < n \<Longrightarrow> fst (es ! i) < fst (es ! j)" for i j
      using sorted_wrt_nth_less [OF sorted, of i j] len by simp
    consider "fst (es ! unat ?mid) < pc" | "pc < fst (es ! unat ?mid)" | "fst (es ! unat ?mid) = pc"
      by fastforce
    then show ?thesis
    proof cases
      case 1
      have "MapPCToOffset_loop es pc (?mid + 1) right = Inr (last_at_or_below (take n es) pc)"
      proof (rule "1.IH" (1))
        show "?mid + 1 \<le> right" using mid(3) inc by (simp add: word_le_nat_alt word_less_nat_alt)
        fix i assume "i < unat (?mid + 1)"
        then have "i = unat ?mid \<or> i < unat ?mid" using inc by auto
        then show "fst (es ! i) < pc" using ord [of i "unat ?mid"] mid_n 1 by auto
      qed (use True mid_n len 1 sorted bounds above in auto)
      then show ?thesis
        using True mid_n len 1 by (subst MapPCToOffset_loop.simps) (simp add: Let_def)
    next
      case 2
      have "MapPCToOffset_loop es pc left ?mid = Inr (last_at_or_below (take n es) pc)"
      proof (rule "1.IH" (2))
        fix i assume "unat ?mid \<le> i" "i < n"
        then show "pc < fst (es ! i)"
          using ord [of "unat ?mid" i] 2 by (cases "i = unat ?mid") (auto intro: less_trans)
      qed (use True mid_n len 2 sorted below mid in \<open>auto simp: word_le_nat_alt\<close>)
      then show ?thesis
        using True mid_n len 2 by (subst MapPCToOffset_loop.simps) (auto simp: Let_def dest: less_asym)
    next
      case 3
      have "last_at_or_below (take n es) pc = Some (snd (es ! unat ?mid))"
        using last_at_or_below_prefix [of "unat ?mid + 1" "take n es" pc] mid_n len 3
          ord [of _ "unat ?mid"] ord [of "unat ?mid"] by (force simp: less_Suc_eq le_less)
      then show ?thesis
        using True mid_n len 3 by (subst MapPCToOffset_loop.simps) (simp add: Let_def)
    qed
  next
    case False
    then have eq: "left = right" using bounds by simp
    have "last_at_or_below (take n es) pc = (if unat left = 0 then None else Some (snd (take n es ! (unat left - 1))))"
      by (rule last_at_or_below_prefix) (use bounds len eq below above in \<open>auto intro: less_imp_le\<close>)
    moreover have "unat (left - 1) = unat left - 1" if "left > 0" using that by (rule unat_dec_above)
    moreover have "unat left - 1 < length es" if "left > 0"
      using that bounds len eq by (simp add: word_less_nat_alt)
    ultimately show ?thesis using False bounds len eq
      by (subst MapPCToOffset_loop.simps) (auto simp: word_less_nat_alt unat_eq_0)
  qed
qed

text \<open>The binary search over a mapping page gives the module offset of the last entry at or
  below the program counter, and nothing when every entry lies above it, whenever the entries in
  use are in emission order (strictly ascending offsets).\<close>

theorem MapPCToOffset_correct:
  assumes "unat (mp_size m) \<le> length (entries m)"
    and "sorted_wrt (<) (map fst (take (unat (mp_size m)) (entries m)))"
  shows "MapPCToOffset m pc =
    Inr (last_at_or_below (take (unat (mp_size m)) (entries m)) (ucast (pc - basePC m)))"
  unfolding MapPCToOffset_def by (rule MapPCToOffset_loop_correct) (use assms in auto)

theorem MapPCToOffset_correct_witness:
  "MapPCToOffset \<lparr>basePC = 1000, mp_size = 3, capacity = 4, entries = [(0, 10), (4, 20), (9, 30), (0, 0)]\<rparr> 1005
    = Inr (Some 20)"
  using MapPCToOffset_correct
    [of "\<lparr>basePC = 1000, mp_size = 3, capacity = 4, entries = [(0, 10), (4, 20), (9, 30), (0, 0)]\<rparr>" 1005]
  by (simp add: last_at_or_below_def)

section \<open>The page lists lose no page\<close>

lemma FindCodePageEnd_loop_eq:
  "FindCodePageEnd_loop ps n e = (n + of_nat (length ps), if ps = [] then e else Some (last ps))"
  by (induction ps arbitrary: n e) auto

lemma CountCodePages_eq [simp]: "CountCodePages ps = of_nat (length ps)"
  and GetEndCodePage_eq: "GetEndCodePage ps = (if ps = [] then None else Some (last ps))"
  by (simp_all add: CountCodePages_def GetEndCodePage_def FindCodePageEnd_def FindCodePageEnd_loop_eq)

lemma FreeCodePages_eq: "FreeCodePages ps = (ps, [])"
  by (induction ps) auto

definition page_wf :: "code_page \<Rightarrow> bool" where
  "page_wf p \<longleftrightarrow> pg_lineIndex p \<le> pg_numLines p \<and> length (pg_code p) = unat (pg_numLines p)"

text \<open>\<open>active\<close> is the multiset of pages handed out and not yet released. The last two
  conjuncts are the counters the debug build asserts in \<^verbatim>\<open>ReleaseCodePage\<close>.\<close>

definition store_ok :: "page_store \<Rightarrow> code_page multiset \<Rightarrow> bool" where
  "store_ok rt active \<longleftrightarrow>
    (\<forall>p \<in> set (pagesReleased rt) \<union> set (pagesOpen rt) \<union> set (pagesFull rt) \<union> set_mset active. page_wf p)
    \<and> (\<forall>p \<in> set (pagesOpen rt). NumFreeLines p \<ge> d_m3CodePageFreeLinesThreshold)
    \<and> (\<forall>p \<in> set (pagesFull rt). NumFreeLines p < d_m3CodePageFreeLinesThreshold)
    \<and> numActiveCodePages rt = of_nat (size active)
    \<and> numCodePages rt = CountCodePages (pagesOpen rt) + CountCodePages (pagesFull rt) + numActiveCodePages rt"

lemma RemoveCodePageOfCapacity_Some:
  "RemoveCodePageOfCapacity ps n = (Some p, qs) \<Longrightarrow>
    n \<le> NumFreeLines p \<and> (\<exists>us vs. ps = us @ p # vs \<and> qs = us @ vs \<and> (\<forall>u\<in>set us. NumFreeLines u < n))"
proof (induction ps arbitrary: qs)
  case (Cons x xs)
  show ?case
  proof (cases "n \<le> NumFreeLines x")
    case True
    with Cons.prems show ?thesis by (auto intro: exI [of _ "[]"])
  next
    case False
    then obtain l where l: "RemoveCodePageOfCapacity xs n = (Some p, l)" "qs = x # l"
      using Cons.prems by (auto split: prod.splits)
    from Cons.IH [OF this(1)] obtain us vs where
      "n \<le> NumFreeLines p" "xs = us @ p # vs" "l = us @ vs" "\<forall>u\<in>set us. NumFreeLines u < n" by blast
    with l False have "x # xs = (x # us) @ p # vs \<and> qs = (x # us) @ vs \<and> (\<forall>u\<in>set (x # us). NumFreeLines u < n)"
      by auto
    with \<open>n \<le> NumFreeLines p\<close> show ?thesis by blast
  qed
qed simp

lemma RemoveCodePageOfCapacity_None:
  "RemoveCodePageOfCapacity ps n = (None, qs) \<Longrightarrow> qs = ps \<and> (\<forall>p\<in>set ps. NumFreeLines p < n)"
  by (induction ps arbitrary: qs) (auto split: if_splits prod.splits)

lemma NewCodePage_wf:
  assumes "NewCodePage ok seq n = (Some p, seq')"
  shows "page_wf p \<and> n \<le> NumFreeLines p \<and> seq' = seq + 1"
proof -
  let ?k = "(page_bytes (unat n) - 24) div 8"
  have "page_bytes (unat n) < 2 ^ 32" "seq' = seq + 1"
    "p = \<lparr>pg_lineIndex = 0, pg_numLines = of_nat ?k, pg_sequence = seq + 1, pg_code = replicate ?k 0\<rparr>"
    using assms NewCodePage_eq [of ok seq n] by (auto simp: Let_def split: if_splits)
  moreover from this(1) have "unat (of_nat ?k :: u32) = ?k" by (intro unat_of_nat32) simp
  ultimately show ?thesis using page_bytes_bounds(1) [of "unat n"]
    by (auto simp: page_wf_def NumFreeLines_def word_le_nat_alt simp del: of_nat_div)
qed

lemma AcquireCodePageWithCapacity_ok:
  assumes "store_ok rt active" "AcquireCodePageWithCapacity ok rt n = (Some p, rt')"
  shows "store_ok rt' (add_mset p active) \<and> n \<le> NumFreeLines p"
proof (cases "RemoveCodePageOfCapacity (pagesOpen rt) n")
  case (Pair r l)
  show ?thesis
  proof (cases r)
    case (Some q)
    then have "q = p" "rt' = rt\<lparr>pagesOpen := l, numActiveCodePages := numActiveCodePages rt + 1\<rparr>"
      using assms(2) Pair by (simp_all add: AcquireCodePageWithCapacity_def)
    moreover obtain us vs where "n \<le> NumFreeLines q" "pagesOpen rt = us @ q # vs" "l = us @ vs"
      using RemoveCodePageOfCapacity_Some [of "pagesOpen rt" n q l] Pair Some by blast
    ultimately show ?thesis using assms(1) by (auto simp: store_ok_def)
  next
    case None
    then have l: "l = pagesOpen rt" using RemoveCodePageOfCapacity_None Pair by blast
    show ?thesis
    proof (cases "RemoveCodePageOfCapacity (pagesReleased rt) n")
      case (Pair r' l')
      show ?thesis
      proof (cases r')
        case (Some q)
        then have "q = p" "rt' = rt\<lparr>pagesReleased := l', numCodePages := numCodePages rt + 1,
            numActiveCodePages := numActiveCodePages rt + 1\<rparr>"
          using assms(2) Pair None \<open>RemoveCodePageOfCapacity (pagesOpen rt) n = (r, l)\<close> l
          by (simp_all add: AcquireCodePageWithCapacity_def Environment_AcquireCodePage_def)
        moreover obtain us vs where "n \<le> NumFreeLines q" "pagesReleased rt = us @ q # vs" "l' = us @ vs"
          using RemoveCodePageOfCapacity_Some [of "pagesReleased rt" n q l'] Pair Some by blast
        ultimately show ?thesis using assms(1) by (auto simp: store_ok_def)
      next
        case none': None
        then have l': "l' = pagesReleased rt" using RemoveCodePageOfCapacity_None Pair by blast
        obtain seq where "NewCodePage ok (newCodePageSequence rt) n = (Some p, seq)"
          "rt' = rt\<lparr>newCodePageSequence := seq, numCodePages := numCodePages rt + 1,
            numActiveCodePages := numActiveCodePages rt + 1\<rparr>"
          using assms(2) Pair None none' \<open>RemoveCodePageOfCapacity (pagesOpen rt) n = (r, l)\<close> l l'
          by (auto simp: AcquireCodePageWithCapacity_def Environment_AcquireCodePage_def
              split: prod.splits option.splits)
        with NewCodePage_wf [of ok "newCodePageSequence rt" n p seq] assms(1)
        show ?thesis by (auto simp: store_ok_def)
      qed
    qed
  qed
qed

lemma AcquireCodePageWithCapacity_None:
  assumes "store_ok rt active" "AcquireCodePageWithCapacity ok rt n = (None, rt')"
  shows "rt' = rt"
proof -
  obtain r l where rl: "RemoveCodePageOfCapacity (pagesOpen rt) n = (r, l)" by fastforce
  obtain r' l' where rl': "RemoveCodePageOfCapacity (pagesReleased rt) n = (r', l')" by fastforce
  obtain q seq where nw: "NewCodePage ok (newCodePageSequence rt) n = (q, seq)" by fastforce
  note defs = AcquireCodePageWithCapacity_def Environment_AcquireCodePage_def
  have r: "r = None" using assms(2) rl by (cases r) (simp_all add: defs)
  have r': "r' = None" using assms(2) rl rl' r by (cases r') (simp_all add: defs)
  have q: "q = None" using assms(2) rl rl' r r' nw by (cases q) (simp_all add: defs)
  note none = r r' q
  have "l = pagesOpen rt" "l' = pagesReleased rt" using rl rl' none RemoveCodePageOfCapacity_None by blast+
  then have "rt' = rt\<lparr>newCodePageSequence := seq\<rparr>"
    using assms(2) rl rl' nw none by (simp add: defs)
  moreover have "seq = newCodePageSequence rt"
    using nw none NewCodePage_eq [of ok "newCodePageSequence rt" n] by (auto simp: Let_def split: if_splits)
  ultimately show ?thesis by simp
qed

lemma ReleaseCodePage_ok:
  assumes "store_ok rt (add_mset p active)"
  shows "store_ok (ReleaseCodePage rt (Some p)) active"
  using assms
  by (auto simp: store_ok_def ReleaseCodePage_def ReleaseCodePageNoTrack_def PushCodePage_def Let_def not_less
      split: if_splits)

lemma EmitWord64_ok:
  assumes "store_ok rt (add_mset p active)" "0 < NumFreeLines p"
  shows "\<exists>p'. EmitWord64 p w = Inr p' \<and> store_ok rt (add_mset p' active) \<and> NumFreeLines p' = NumFreeLines p - 1"
proof -
  have wf: "page_wf p" using assms(1) by (simp add: store_ok_def)
  then have lt: "pg_lineIndex p < pg_numLines p"
    using assms(2) by (auto simp: page_wf_def NumFreeLines_def less_le)
  let ?p = "p\<lparr>pg_code := (pg_code p)[unat (pg_lineIndex p) := w], pg_lineIndex := pg_lineIndex p + 1\<rparr>"
  have "EmitWord64 p w = Inr ?p"
    using lt wf by (simp add: EmitWord64_def page_wf_def word_less_nat_alt Let_def)
  moreover have "page_wf ?p"
    using lt wf unat_inc_below [OF lt] by (simp add: page_wf_def word_le_nat_alt word_less_nat_alt)
  ultimately show ?thesis using assms(1) by (auto simp: store_ok_def NumFreeLines_def)
qed

primrec emit_all :: "('p \<Rightarrow> u64 \<Rightarrow> 'p result) \<Rightarrow> 'p \<Rightarrow> u64 list \<Rightarrow> 'p result" where
  "emit_all emit p [] = Inr p"
| "emit_all emit p (w # ws) = tryR (emit p w) (\<lambda>p'. emit_all emit p' ws)"

text \<open>An interface for the compiler, the only client of the page store: it takes a page, writes
  words on it and gives it back. \<open>inv s A\<close> is the store's invariant with the pages of \<open>A\<close>
  handed out.\<close>

locale page_pool =
  fixes acquire :: "'s \<Rightarrow> u32 \<Rightarrow> 'p option \<times> 's"
    and release :: "'s \<Rightarrow> 'p option \<Rightarrow> 's"
    and emit :: "'p \<Rightarrow> u64 \<Rightarrow> 'p result"
    and free_lines :: "'p \<Rightarrow> u32"
    and inv :: "'s \<Rightarrow> 'p multiset \<Rightarrow> bool"
  assumes acquire_page: "inv s A \<Longrightarrow> acquire s n = (Some p, s') \<Longrightarrow> inv s' (add_mset p A) \<and> n \<le> free_lines p"
    and acquire_nothing: "inv s A \<Longrightarrow> acquire s n = (None, s') \<Longrightarrow> s' = s"
    and release_page: "inv s (add_mset p A) \<Longrightarrow> inv (release s (Some p)) A"
    and emit_word: "inv s (add_mset p A) \<Longrightarrow> 0 < free_lines p \<Longrightarrow>
      \<exists>p'. emit p w = Inr p' \<and> inv s (add_mset p' A) \<and> free_lines p' = free_lines p - 1"
begin

lemma emit_all_ok:
  "inv s (add_mset p A) \<Longrightarrow> length ws \<le> unat (free_lines p) \<Longrightarrow>
    \<exists>p'. emit_all emit p ws = Inr p' \<and> inv s (add_mset p' A)"
proof (induction ws arbitrary: p)
  case (Cons w ws)
  then have "0 < free_lines p" by (auto simp: word_less_nat_alt)
  from emit_word [OF Cons.prems(1) this, of w] obtain p' where
    p': "emit p w = Inr p'" "inv s (add_mset p' A)" "free_lines p' = free_lines p - 1" by blast
  have "length ws \<le> unat (free_lines p')"
    using Cons.prems(2) unat_dec_above [OF \<open>0 < free_lines p\<close>] p'(3) by simp
  from Cons.IH [OF p'(2) this] p'(1) show ?case by simp
qed auto

text \<open>A whole session: a page with room for the words takes them all and goes back.\<close>

lemma session_ok:
  assumes "inv s A" "acquire s n = (Some p, s')" "length ws \<le> unat n"
  shows "\<exists>p'. emit_all emit p ws = Inr p' \<and> inv (release s' (Some p')) A"
proof -
  from acquire_page [OF assms(1,2)] have "inv s' (add_mset p A)" "n \<le> free_lines p" by auto
  with emit_all_ok [of s' p A ws] assms(3) obtain p' where "emit_all emit p ws = Inr p'" "inv s' (add_mset p' A)"
    by (auto simp: word_le_nat_alt)
  with release_page show ?thesis by blast
qed

end

interpretation pages: page_pool "AcquireCodePageWithCapacity ok" ReleaseCodePage EmitWord64 NumFreeLines store_ok
proof unfold_locales
  fix s A n p s'
  assume "store_ok s A" "AcquireCodePageWithCapacity ok s n = (Some p, s')"
  then show "store_ok s' (add_mset p A) \<and> n \<le> NumFreeLines p" by (rule AcquireCodePageWithCapacity_ok)
next
  fix s A n s'
  assume "store_ok s A" "AcquireCodePageWithCapacity ok s n = (None, s')"
  then show "s' = s" by (rule AcquireCodePageWithCapacity_None)
next
  fix s p A
  assume "store_ok s (add_mset p A)"
  then show "store_ok (ReleaseCodePage s (Some p)) A" by (rule ReleaseCodePage_ok)
next
  fix s p A w
  assume "store_ok s (add_mset p A)" "0 < NumFreeLines p"
  then show "\<exists>p'. EmitWord64 p w = Inr p' \<and> store_ok s (add_mset p' A) \<and> NumFreeLines p' = NumFreeLines p - 1"
    by (rule EmitWord64_ok)
qed

text \<open>C29: A compilation session never writes outside its page: after acquiring a page with
  room for \<open>n\<close> lines, any \<open>n\<close> words can be emitted on it, and releasing it restores the
  store's invariant with the same pages handed out as before.\<close>

theorem code_page_session:
  assumes "store_ok rt active" "AcquireCodePageWithCapacity ok rt n = (Some p, rt')" "length ws \<le> unat n"
  shows "\<exists>p'. emit_all EmitWord64 p ws = Inr p' \<and> store_ok (ReleaseCodePage rt' (Some p')) active"
  using pages.session_ok assms by blast

theorem code_page_session_witness:
  "\<exists>p'. emit_all EmitWord64 (the (fst (AcquireCodePageWithCapacity (\<lambda>_. True) empty_page_store 6))) [7, 8] = Inr p'
     \<and> store_ok (ReleaseCodePage (snd (AcquireCodePageWithCapacity (\<lambda>_. True) empty_page_store 6)) (Some p')) {#}"
  by (rule code_page_session [where rt = empty_page_store and n = 6 and ok = "\<lambda>_. True"])
    (simp_all add: store_ok_def empty_page_store_def AcquireCodePageWithCapacity_def Environment_AcquireCodePage_def
      NewCodePage_eq page_bytes_def)

section \<open>The life of a page store\<close>

inductive page_step :: "(nat \<Rightarrow> bool) \<Rightarrow> page_store \<times> code_page multiset \<Rightarrow> page_store \<times> code_page multiset \<Rightarrow> bool"
  for ok where
  acquire: "AcquireCodePageWithCapacity ok rt n = (Some p, rt') \<Longrightarrow> page_step ok (rt, A) (rt', add_mset p A)"
| emit: "EmitWord64 p w = Inr p' \<Longrightarrow> page_step ok (rt, add_mset p A) (rt, add_mset p' A)"
| release: "page_step ok (rt, add_mset p A) (ReleaseCodePage rt (Some p), A)"

lemma EmitWord64_Inr_free:
  assumes "EmitWord64 p w = Inr p'" "page_wf p"
  shows "0 < NumFreeLines p"
proof -
  have "unat (pg_lineIndex p) < unat (pg_numLines p)"
    using assms by (simp add: EmitWord64_def page_wf_def Let_def split: if_splits)
  then show ?thesis by (auto simp: NumFreeLines_def word_neq_0_conv [symmetric])
qed

lemma page_step_ok:
  assumes "page_step ok (rt, A) (rt', A')" "store_ok rt A"
  shows "store_ok rt' A'"
  using assms(1)
proof cases
  case (emit p w p' B)
  then have "page_wf p" using assms(2) by (simp add: store_ok_def)
  with emit EmitWord64_Inr_free have "0 < NumFreeLines p" by blast
  with pages.emit_word [of rt p B w] emit assms(2) show ?thesis by auto
qed (use assms(2) pages.acquire_page pages.release_page in blast)+

text \<open>Whatever the order of acquisitions, emissions and releases, starting from a fresh
  runtime the page lists stay consistent: the counters balance as the debug build asserts in
  \<^verbatim>\<open>ReleaseCodePage\<close>, every open page has room for an instruction, every full one has not.\<close>

theorem page_store_invariant:
  assumes "(page_step ok)\<^sup>*\<^sup>* (empty_page_store, {#}) (rt, active)"
  shows "store_ok rt active
    \<and> CountCodePages (pagesOpen rt) + CountCodePages (pagesFull rt) + numActiveCodePages rt = numCodePages rt"
proof -
  have "case (rt, active) of (rt, A) \<Rightarrow> store_ok rt A"
    using assms
  proof (induction rule: rtranclp_induct)
    case base
    then show ?case by (simp add: store_ok_def empty_page_store_def)
  next
    case (step y z)
    then show ?case using page_step_ok by (cases y, cases z) blast
  qed
  then show ?thesis by (simp add: store_ok_def)
qed

theorem page_store_invariant_witness:
  "\<exists>rt p. (page_step (\<lambda>_. True))\<^sup>*\<^sup>* (empty_page_store, {#}) (rt, {#p#}) \<and> store_ok rt {#p#} \<and> numActiveCodePages rt = 1"
proof -
  obtain p rt where a: "AcquireCodePageWithCapacity (\<lambda>_. True) empty_page_store 6 = (Some p, rt)"
    by (simp add: empty_page_store_def AcquireCodePageWithCapacity_def Environment_AcquireCodePage_def
      NewCodePage_eq page_bytes_def)
  then have "(page_step (\<lambda>_. True))\<^sup>*\<^sup>* (empty_page_store, {#}) (rt, {#p#})"
    by (intro r_into_rtranclp page_step.acquire)
  with page_store_invariant [OF this] show ?thesis by (auto simp: store_ok_def)
qed

end
