(* ===== verification/M3_Emit.thy ===== *)
theory M3_Emit
  imports M3_Code
begin

text \<open>
  The emitter of \<^verbatim>\<open>src/m3_compile.c\<close>: words of compiled code are appended to the current
  page, and when the page runs low a branch to a new page is emitted (a bridge). An
  \<^verbatim>\<open>IM3Operation\<close> is the address of its C function, so it is a parameter; so is the address
  of a page's next line.
\<close>

text \<open>The part of \<^verbatim>\<open>M3Compilation\<close> and its runtime that emission uses.\<close>

record emitter =
  em_page :: "code_page option"
  em_store :: page_store

definition EmitPageWord :: "emitter \<Rightarrow> u64 \<Rightarrow> emitter result" where
  "EmitPageWord o' w =
    (case em_page o' of None \<Rightarrow> Inr o'
     | Some p \<Rightarrow> tryR (EmitWord64 p w) (\<lambda>p'. Inr (o'\<lparr>em_page := Some p'\<rparr>)))"

text \<open>\<^verbatim>\<open>o->page\<close> is never null here: the only callers test it first.\<close>

definition EnsureCodePageNumLines ::
    "(nat \<Rightarrow> bool) \<Rightarrow> u64 \<Rightarrow> (code_page \<Rightarrow> u64) \<Rightarrow> emitter \<Rightarrow> u32 \<Rightarrow> emitter result" where
  "EnsureCodePageNumLines calloc_ok op_Branch pc_addr o' i_numLines =
    (let i_numLines = i_numLines + 2 in
     case em_page o' of None \<Rightarrow> Inl C_undefined
     | Some old \<Rightarrow>
       if NumFreeLines old < i_numLines then
         (case AcquireCodePageWithCapacity calloc_ok (em_store o') i_numLines of
            (None, rt) \<Rightarrow> Inl m3Err_mallocFailedCodePage
          | (Some page, rt) \<Rightarrow>
              tryR (EmitWord_impl old op_Branch) (\<lambda>old.
              tryR (EmitWord_impl old (pc_addr page)) (\<lambda>old.
                Inr (o'\<lparr>em_store := ReleaseCodePage rt (Some old), em_page := Some page\<rparr>))))
       else Inr o')"

definition EmitOp ::
    "(nat \<Rightarrow> bool) \<Rightarrow> u64 \<Rightarrow> (code_page \<Rightarrow> u64) \<Rightarrow> emitter \<Rightarrow> u64 \<Rightarrow> emitter result" where
  "EmitOp calloc_ok op_Branch pc_addr o' i_operation =
    (case em_page o' of None \<Rightarrow> Inr o'
     | Some _ \<Rightarrow>
         tryR (EnsureCodePageNumLines calloc_ok op_Branch pc_addr o' d_m3CodePageFreeLinesThreshold) (\<lambda>o'.
           (case em_page o' of None \<Rightarrow> Inl C_undefined
            | Some p \<Rightarrow> tryR (EmitWord_impl p i_operation) (\<lambda>p'. Inr (o'\<lparr>em_page := Some p'\<rparr>)))))"

definition EmitConstant32 :: "emitter \<Rightarrow> u32 \<Rightarrow> emitter result" where
  "EmitConstant32 o' i_immediate =
    (case em_page o' of None \<Rightarrow> Inr o'
     | Some p \<Rightarrow> tryR (EmitWord32 p i_immediate) (\<lambda>p'. Inr (o'\<lparr>em_page := Some p'\<rparr>)))"

definition EmitSlotOffset :: "emitter \<Rightarrow> u32 \<Rightarrow> emitter result" where
  "EmitSlotOffset o' i_offset =
    (case em_page o' of None \<Rightarrow> Inr o'
     | Some p \<Rightarrow> tryR (EmitWord32 p i_offset) (\<lambda>p'. Inr (o'\<lparr>em_page := Some p'\<rparr>)))"

text \<open>With the line the pointer was written to.\<close>

definition EmitPointer :: "emitter \<Rightarrow> u64 \<Rightarrow> (nat option \<times> emitter) result" where
  "EmitPointer o' i_pointer =
    (let ptr = GetPagePC (em_page o') in
     case em_page o' of None \<Rightarrow> Inr (ptr, o')
     | Some p \<Rightarrow> tryR (EmitWord_impl p i_pointer) (\<lambda>p'. Inr (ptr, o'\<lparr>em_page := Some p'\<rparr>)))"

definition ReservePointer :: "emitter \<Rightarrow> (nat option \<times> emitter) result" where
  "ReservePointer o' =
    (let ptr = GetPagePC (em_page o') in tryR (EmitPointer o' 0) (\<lambda>(_, o'). Inr (ptr, o')))"

definition AcquireCompilationCodePage :: "(nat \<Rightarrow> bool) \<Rightarrow> emitter \<Rightarrow> emitter result" where
  "AcquireCompilationCodePage calloc_ok o' =
    (case AcquireCodePage calloc_ok (em_store o') of
       (Some p, rt) \<Rightarrow> Inr (o'\<lparr>em_page := Some p, em_store := rt\<rparr>)
     | (None, rt) \<Rightarrow> Inl m3Err_mallocFailedCodePage)"

definition ReleaseCompilationCodePage :: "emitter \<Rightarrow> page_store" where
  "ReleaseCompilationCodePage o' = ReleaseCodePage (em_store o') (em_page o')"

section \<open>Emission stays inside its pages\<close>

text \<open>The immediates of an operation: words of 32 bits (slot offsets, constants) or 64 bits.\<close>

datatype immediate = Imm32 u32 | Imm64 u64

fun emit_immediate :: "emitter \<Rightarrow> immediate \<Rightarrow> emitter result" where
  "emit_immediate o' (Imm32 w) = EmitConstant32 o' w"
| "emit_immediate o' (Imm64 w) = tryR (EmitPointer o' w) (\<lambda>(_, o'). Inr o')"

primrec emit_immediates :: "emitter \<Rightarrow> immediate list \<Rightarrow> emitter result" where
  "emit_immediates o' [] = Inr o'"
| "emit_immediates o' (i # is) = tryR (emit_immediate o' i) (\<lambda>o'. emit_immediates o' is)"

text \<open>A run of instructions, each an operation with its immediates.\<close>

primrec emit_code ::
    "(nat \<Rightarrow> bool) \<Rightarrow> u64 \<Rightarrow> (code_page \<Rightarrow> u64) \<Rightarrow> emitter \<Rightarrow> (u64 \<times> immediate list) list \<Rightarrow> emitter result" where
  "emit_code calloc_ok op_Branch pc_addr o' [] = Inr o'"
| "emit_code calloc_ok op_Branch pc_addr o' (instr # code) =
    tryR (EmitOp calloc_ok op_Branch pc_addr o' (fst instr)) (\<lambda>o'.
    tryR (emit_immediates o' (snd instr)) (\<lambda>o'.
      emit_code calloc_ok op_Branch pc_addr o' code))"

text \<open>A bridge always fits: the current page is handed out and has two free lines.\<close>

definition emitter_ok :: "emitter \<Rightarrow> nat \<Rightarrow> bool" where
  "emitter_ok o' n \<longleftrightarrow> (\<exists>p. em_page o' = Some p \<and> store_ok (em_store o') {#p#} \<and> n \<le> unat (NumFreeLines p))"

lemma EmitWord_impl_eq: "EmitWord_impl = EmitWord64"
  by (intro ext) (simp add: EmitWord_impl_def EmitWord64_def)

lemma emit_word_ok:
  assumes "store_ok rt {#p#}" "0 < unat (NumFreeLines p)"
  shows "\<exists>p'. EmitWord64 p w = Inr p' \<and> store_ok rt {#p'#} \<and> unat (NumFreeLines p') = unat (NumFreeLines p) - 1"
proof -
  have "0 < NumFreeLines p" using assms(2) by (simp add: word_less_nat_alt)
  from pages.emit_word [OF assms(1) this, of w] unat_dec_above [OF this] show ?thesis by auto
qed

lemma EmitWord32_ok:
  assumes "store_ok rt {#p#}" "0 < unat (NumFreeLines p)"
  shows "\<exists>p'. EmitWord32 p w = Inr p' \<and> store_ok rt {#p'#} \<and> unat (NumFreeLines p') = unat (NumFreeLines p) - 1"
proof -
  let ?v = "(pg_code p ! unat (pg_lineIndex p) AND 0xFFFFFFFF00000000) OR ucast w"
  have "EmitWord32 p w = EmitWord64 p ?v"
    by (simp add: EmitWord32_def EmitWord64_def)
  with emit_word_ok [OF assms, of ?v] show ?thesis by simp
qed

lemma emit_immediate_ok:
  assumes "emitter_ok o' (Suc n)"
  shows "\<exists>o''. emit_immediate o' i = Inr o'' \<and> emitter_ok o'' n"
proof -
  obtain p where p: "em_page o' = Some p" "store_ok (em_store o') {#p#}" "Suc n \<le> unat (NumFreeLines p)"
    using assms by (auto simp: emitter_ok_def)
  then have pos: "0 < unat (NumFreeLines p)" by simp
  show ?thesis
  proof (cases i)
    case (Imm32 w)
    with EmitWord32_ok [OF p(2) pos, of w] p show ?thesis by (auto simp: EmitConstant32_def emitter_ok_def)
  next
    case (Imm64 w)
    with emit_word_ok [OF p(2) pos, of w] p show ?thesis
      by (auto simp: EmitPointer_def EmitWord_impl_eq emitter_ok_def Let_def)
  qed
qed

lemma emit_immediates_ok:
  "emitter_ok o' (length is + n) \<Longrightarrow> \<exists>o''. emit_immediates o' is = Inr o'' \<and> emitter_ok o'' n"
proof (induction "is" arbitrary: o')
  case (Cons i "is")
  then have "emitter_ok o' (Suc (length is + n))" by simp
  from emit_immediate_ok [OF this, of i] Cons.IH show ?case by fastforce
qed auto

lemma EnsureCodePageNumLines_ok:
  assumes "emitter_ok o' 2"
  shows "EnsureCodePageNumLines ok br pc o' 6 = Inl m3Err_mallocFailedCodePage
    \<or> (\<exists>o''. EnsureCodePageNumLines ok br pc o' 6 = Inr o'' \<and> emitter_ok o'' 8)"
proof -
  obtain p where p: "em_page o' = Some p" "store_ok (em_store o') {#p#}" "2 \<le> unat (NumFreeLines p)"
    using assms by (auto simp: emitter_ok_def)
  show ?thesis
  proof (cases "NumFreeLines p < 8")
    case True
    show ?thesis
    proof (cases "AcquireCodePageWithCapacity ok (em_store o') 8")
      case (Pair r rt)
      show ?thesis
      proof (cases r)
        case (Some q)
        then have "store_ok rt (add_mset q {#p#})" "8 \<le> NumFreeLines q"
          using pages.acquire_page [OF p(2)] Pair by auto
        then have q: "store_ok rt {#p, q#}" "8 \<le> NumFreeLines q" by (simp_all only: add_mset_commute)
        have "0 < NumFreeLines p" using p(3) by (simp add: word_less_nat_alt)
        from pages.emit_word [OF q(1) this, of br] unat_dec_above [OF this] p(3) obtain p1 where
          p1: "EmitWord64 p br = Inr p1" "store_ok rt {#p1, q#}" "0 < NumFreeLines p1"
          by (auto simp: word_less_nat_alt)
        from pages.emit_word [OF p1(2,3), of "pc q"] obtain p2 where
          p2: "EmitWord64 p1 (pc q) = Inr p2" "store_ok rt {#p2, q#}" by blast
        have "store_ok (ReleaseCodePage rt (Some p2)) {#q#}" using pages.release_page [OF p2(2)] .
        then show ?thesis using True p Pair Some p1(1) p2(1) q(2)
          by (auto simp: EnsureCodePageNumLines_def EmitWord_impl_eq emitter_ok_def word_le_nat_alt)
      qed (use True p Pair in \<open>simp add: EnsureCodePageNumLines_def\<close>)
    qed
  next
    case False
    then show ?thesis using p
      by (auto simp: EnsureCodePageNumLines_def emitter_ok_def word_less_nat_alt)
  qed
qed

lemma EmitOp_ok:
  assumes "emitter_ok o' 2"
  shows "EmitOp ok br pc o' w = Inl m3Err_mallocFailedCodePage
    \<or> (\<exists>o''. EmitOp ok br pc o' w = Inr o'' \<and> emitter_ok o'' 7)"
proof -
  obtain p where p: "em_page o' = Some p" using assms by (auto simp: emitter_ok_def)
  from EnsureCodePageNumLines_ok [OF assms, of ok br pc] show ?thesis
  proof
    assume "\<exists>o''. EnsureCodePageNumLines ok br pc o' 6 = Inr o'' \<and> emitter_ok o'' 8"
    then obtain o1 q where o1: "EnsureCodePageNumLines ok br pc o' 6 = Inr o1" "em_page o1 = Some q"
      "store_ok (em_store o1) {#q#}" "8 \<le> unat (NumFreeLines q)" by (auto simp: emitter_ok_def)
    then have "0 < unat (NumFreeLines q)" by simp
    from emit_word_ok [OF o1(3) this, of w] o1 p show ?thesis
      by (auto simp: EmitOp_def EmitWord_impl_eq emitter_ok_def)
  qed (use p in \<open>simp add: EmitOp_def\<close>)
qed

text \<open>C30: Emitted code never leaves its pages. Starting from a page with room for a bridge, any
  run of operations with at most five immediates each is emitted completely, every bridge fits in
  the two lines kept free for it and the page store stays consistent, unless a page cannot be
  allocated, which is reported as \<^verbatim>\<open>m3Err_mallocFailedCodePage\<close>.\<close>

theorem emit_code_in_bounds:
  assumes "emitter_ok o' 2" "\<forall>(op, imms) \<in> set code. length imms \<le> 5"
  shows "case emit_code ok br pc o' code of
      Inr o'' \<Rightarrow> emitter_ok o'' 2
    | Inl e \<Rightarrow> e = m3Err_mallocFailedCodePage"
  using assms
proof (induction code arbitrary: o')
  case (Cons i code)
  obtain w imms where i: "i = (w, imms)" by (cases i)
  from EmitOp_ok [OF Cons.prems(1), of ok br pc w] show ?case
  proof
    assume "\<exists>o''. EmitOp ok br pc o' w = Inr o'' \<and> emitter_ok o'' 7"
    then obtain o1 where o1: "EmitOp ok br pc o' w = Inr o1" "emitter_ok o1 7" by blast
    have "emitter_ok o1 (length imms + 2)" using o1(2) Cons.prems(2) i by (auto simp: emitter_ok_def)
    from emit_immediates_ok [OF this] obtain o2 where "emit_immediates o1 imms = Inr o2" "emitter_ok o2 2" by blast
    then show ?thesis using o1 Cons i by simp
  qed (simp add: i)
qed simp

theorem emit_code_in_bounds_witness:
  "\<exists>o'. AcquireCompilationCodePage (\<lambda>_. True) \<lparr>em_page = None, em_store = empty_page_store\<rparr> = Inr o' \<and>
    (case emit_code (\<lambda>_. True) 1 (\<lambda>_. 2) o' [(10, [Imm32 1, Imm64 2]), (11, [])] of
       Inr o'' \<Rightarrow> emitter_ok o'' 2 | Inl e \<Rightarrow> e = m3Err_mallocFailedCodePage)"
proof -
  obtain p rt where p: "AcquireCodePage (\<lambda>_. True) empty_page_store = (Some p, rt)"
    by (simp add: AcquireCodePage_def empty_page_store_def AcquireCodePageWithCapacity_def
        Environment_AcquireCodePage_def NewCodePage_eq page_bytes_def)
  then have "store_ok rt {#p#} \<and> 6 \<le> NumFreeLines p"
    using pages.acquire_page [of empty_page_store "{#}"]
    by (simp add: AcquireCodePage_def store_ok_def empty_page_store_def)
  then have "emitter_ok \<lparr>em_page = Some p, em_store = rt\<rparr> 2" by (auto simp: emitter_ok_def word_le_nat_alt)
  from emit_code_in_bounds [OF this, of "[(10, [Imm32 1, Imm64 2]), (11, [])]" "\<lambda>_. True" 1 "\<lambda>_. 2"] p
  show ?thesis by (simp add: AcquireCompilationCodePage_def)
qed

end
