(* ===== verification/M3_Function.thy ===== *)
theory M3_Function
  imports M3_Core
begin

text \<open>
  Function types and functions: \<^verbatim>\<open>src/m3_function.c\<close>, the signatures of \<^verbatim>\<open>src/m3_bind.c\<close>
  and the pool of function types of the environment (\<^verbatim>\<open>Environment_AddFuncType\<close>,
  \<^verbatim>\<open>m3_NewEnvironment\<close> in \<^verbatim>\<open>src/m3_env.c\<close>). \<^verbatim>\<open>M3FuncType\<close> is a record whose
  \<open>ft_types\<close> is the whole allocated array. The pool is a linked list that only grows at
  its head, so a pointer to one of its elements is the number of elements behind it.
\<close>

section \<open>Function types\<close>

record M3FuncType =
  ft_numRets :: u16
  ft_numArgs :: u16
  ft_types :: "u8 list"

text \<open>\<^verbatim>\<open>sizeof (M3FuncType)\<close> is 16 on a 64-bit host.\<close>

definition AllocFuncType :: "(nat \<Rightarrow> bool) \<Rightarrow> u32 \<Rightarrow> M3FuncType result" where
  "AllocFuncType calloc_ok i_numTypes =
    (if calloc_ok (16 + unat i_numTypes)
     then Inr \<lparr>ft_numRets = 0, ft_numArgs = 0, ft_types = replicate (unat i_numTypes) 0\<rparr>
     else Inl m3Err_mallocFailed)"

text \<open>\<^verbatim>\<open>memcmp\<close> of the returns and arguments in use.\<close>

definition AreFuncTypesEqual :: "M3FuncType \<Rightarrow> M3FuncType \<Rightarrow> bool" where
  "AreFuncTypesEqual a b =
    (if ft_numRets a = ft_numRets b \<and> ft_numArgs a = ft_numArgs b
     then take (unat (ft_numRets a) + unat (ft_numArgs a)) (ft_types a)
        = take (unat (ft_numRets a) + unat (ft_numArgs a)) (ft_types b)
     else False)"

definition GetFuncTypeNumParams :: "M3FuncType option \<Rightarrow> u16" where
  "GetFuncTypeNumParams i_funcType = (case i_funcType of Some t \<Rightarrow> ft_numArgs t | None \<Rightarrow> 0)"

definition GetFuncTypeParamType :: "M3FuncType option \<Rightarrow> u16 \<Rightarrow> u8" where
  "GetFuncTypeParamType i_funcType i_index =
    (case i_funcType of None \<Rightarrow> c_m3Type_unknown
     | Some t \<Rightarrow> if i_index < ft_numArgs t then ft_types t ! (unat (ft_numRets t) + unat i_index)
                else c_m3Type_unknown)"

definition GetFuncTypeNumResults :: "M3FuncType option \<Rightarrow> u16" where
  "GetFuncTypeNumResults i_funcType = (case i_funcType of Some t \<Rightarrow> ft_numRets t | None \<Rightarrow> 0)"

definition GetFuncTypeResultType :: "M3FuncType option \<Rightarrow> u16 \<Rightarrow> u8" where
  "GetFuncTypeResultType i_funcType i_index =
    (case i_funcType of None \<Rightarrow> c_m3Type_unknown
     | Some t \<Rightarrow> if i_index < ft_numRets t then ft_types t ! unat i_index else c_m3Type_unknown)"

section \<open>Functions\<close>

text \<open>\<^verbatim>\<open>M3ImportInfo\<close>; a null string is \<open>None\<close>.\<close>

record M3ImportInfo =
  moduleUtf8 :: "u8 list option"
  fieldUtf8 :: "u8 list option"

text \<open>
  \<^verbatim>\<open>M3Function\<close>: \<open>fn_wasm\<close> and \<open>fn_wasmEnd\<close> are positions in the module's bytes, \<open>names\<close>
  the array of \<^verbatim>\<open>d_m3MaxDuplicateFunctionImpl\<close> = 3 names, \<open>fn_funcType\<close> a pointer into
  the environment's pool, \<open>compiled\<close> whether the code pointer is set.
\<close>

record M3Function =
  fn_import :: M3ImportInfo
  fn_wasm :: "nat option"
  fn_wasmEnd :: "nat option"
  names :: "u8 list option list"
  export_name :: "u8 list option"
  numNames :: u16
  fn_funcType :: "nat option"
  compiled :: bool
  numRetSlots :: u16
  numRetAndArgSlots :: u16
  numLocals :: u16
  numLocalBytes :: u16

abbreviation (input) d_m3MaxDuplicateFunctionImpl :: nat where "d_m3MaxDuplicateFunctionImpl \<equiv> 3"

text \<open>The zeroed element of a fresh array of functions.\<close>

definition zero_function :: M3Function where
  "zero_function = \<lparr>fn_import = \<lparr>moduleUtf8 = None, fieldUtf8 = None\<rparr>, fn_wasm = None, fn_wasmEnd = None,
     names = replicate d_m3MaxDuplicateFunctionImpl None, export_name = None, numNames = 0, fn_funcType = None,
     compiled = False, numRetSlots = 0, numRetAndArgSlots = 0, numLocals = 0, numLocalBytes = 0\<rparr>"

text \<open>The array of names and its length; the null function has none.\<close>

definition GetFunctionNames :: "M3Function option \<Rightarrow> (u8 list option list \<times> u16) option" where
  "GetFunctionNames i_function =
    (case i_function of None \<Rightarrow> None
     | Some f \<Rightarrow> (case fieldUtf8 (fn_import f) of
         Some s \<Rightarrow> Some ([Some s], 1)
       | None \<Rightarrow> Some (names f, numNames f)))"

definition m3_GetFunctionName :: "M3Function option \<Rightarrow> u8 list option" where
  "m3_GetFunctionName i_function =
    (let (ns, numNames) = (case GetFunctionNames i_function of Some r \<Rightarrow> r | None \<Rightarrow> ([], 0)) in
     if numNames > 0 then ns ! 0 else Some (ascii ''<unnamed>''))"

definition GetFunctionImportModuleName :: "M3Function \<Rightarrow> u8 list" where
  "GetFunctionImportModuleName f = (case moduleUtf8 (fn_import f) of Some s \<Rightarrow> s | None \<Rightarrow> [])"

text \<open>\<open>ft\<close> is the type that the function's \<^verbatim>\<open>funcType\<close> points to.\<close>

definition GetFunctionNumArgs :: "M3FuncType option \<Rightarrow> u16" where
  "GetFunctionNumArgs ft = (case ft of Some t \<Rightarrow> ft_numArgs t | None \<Rightarrow> 0)"

definition GetFunctionArgType :: "M3FuncType option \<Rightarrow> u32 \<Rightarrow> u8" where
  "GetFunctionArgType ft i_index =
    (if i_index < ucast (GetFunctionNumArgs ft)
     then (case ft of Some t \<Rightarrow> ft_types t ! (unat (ft_numRets t) + unat i_index) | None \<Rightarrow> c_m3Type_none)
     else c_m3Type_none)"

definition GetFunctionNumReturns :: "M3FuncType option \<Rightarrow> u16" where
  "GetFunctionNumReturns ft = (case ft of Some t \<Rightarrow> ft_numRets t | None \<Rightarrow> 0)"

definition GetFunctionReturnType :: "M3FuncType option \<Rightarrow> u16 \<Rightarrow> u8" where
  "GetFunctionReturnType ft i_index = GetFuncTypeResultType ft i_index"

definition GetFunctionNumArgsAndLocals :: "M3Function option \<Rightarrow> M3FuncType option \<Rightarrow> u32" where
  "GetFunctionNumArgsAndLocals i_function ft =
    (case i_function of Some f \<Rightarrow> ucast (numLocals f) + ucast (GetFunctionNumArgs ft) | None \<Rightarrow> 0)"

section \<open>The environment's pool of types\<close>

type_synonym type_pool = "M3FuncType list"

definition pool_get :: "type_pool \<Rightarrow> nat \<Rightarrow> M3FuncType option" where
  "pool_get pool p = (if p < length pool then Some (rev pool ! p) else None)"

text \<open>The \<^verbatim>\<open>while\<close> loop: the first element equal to \<open>addType\<close>, as a pointer.\<close>

fun AddFuncType_loop :: "type_pool \<Rightarrow> M3FuncType \<Rightarrow> nat option" where
  "AddFuncType_loop [] addType = None"
| "AddFuncType_loop (newType # next') addType =
    (if AreFuncTypesEqual newType addType then Some (length next') else AddFuncType_loop next' addType)"

definition Environment_AddFuncType :: "type_pool \<Rightarrow> M3FuncType \<Rightarrow> type_pool \<times> nat" where
  "Environment_AddFuncType funcTypes addType =
    (case AddFuncType_loop funcTypes addType of
       Some p \<Rightarrow> (funcTypes, p)
     | None \<Rightarrow> (addType # funcTypes, length funcTypes))"

text \<open>The environment: the pool and \<^verbatim>\<open>retFuncTypes\<close>, the types of simple blocks by value type.\<close>

record M3Environment =
  funcTypes :: type_pool
  retFuncTypes :: "nat list"

definition NewEnvironment_step :: "(nat \<Rightarrow> bool) \<Rightarrow> M3Environment \<Rightarrow> u8 \<Rightarrow> M3Environment result" where
  "NewEnvironment_step calloc_ok env t =
    tryR (AllocFuncType calloc_ok 1) (\<lambda>ftype.
      let ftype = ftype\<lparr>ft_numArgs := 0, ft_numRets := (if t = c_m3Type_none then 0 else 1),
                        ft_types := (ft_types ftype)[0 := t]\<rparr>;
          (pool, p) = Environment_AddFuncType (funcTypes env) ftype
      in Inr (env\<lparr>funcTypes := pool, retFuncTypes := retFuncTypes env @ [p]\<rparr>))"

text \<open>\<open>struct_ok\<close>: the allocation of the environment itself. \<open>None\<close> is the null pointer.\<close>

definition m3_NewEnvironment :: "(nat \<Rightarrow> bool) \<Rightarrow> bool \<Rightarrow> M3Environment option" where
  "m3_NewEnvironment calloc_ok struct_ok =
    (if struct_ok then
       (case foldl (\<lambda>r t. tryR r (\<lambda>env. NewEnvironment_step calloc_ok env t))
           (Inr \<lparr>funcTypes = [], retFuncTypes = []\<rparr>)
           [c_m3Type_none, c_m3Type_i32, c_m3Type_i64, c_m3Type_f32, c_m3Type_f64] of
          Inr env \<Rightarrow> Some env
        | Inl e \<Rightarrow> None)
     else None)"

section \<open>Signatures\<close>

definition ConvertTypeCharToTypeId :: "char \<Rightarrow> u8" where
  "ConvertTypeCharToTypeId i_code =
    (if i_code = CHR ''v'' then c_m3Type_none
     else if i_code = CHR ''i'' then c_m3Type_i32
     else if i_code = CHR ''I'' then c_m3Type_i64
     else if i_code = CHR ''f'' then c_m3Type_f32
     else if i_code = CHR ''F'' then c_m3Type_f64
     else if i_code = CHR ''*'' then c_m3Type_i32
     else c_m3Type_unknown)"

abbreviation (input) d_m3MaxSaneFunctionArgRetCount :: nat where "d_m3MaxSaneFunctionArgRetCount \<equiv> 1000"

text \<open>
  The loop's variables: \<open>parsingRets\<close>, \<open>n\<close> (\<^verbatim>\<open>typelist - funcType->types\<close>) and the type under
  construction. One iteration, on the character just read, says whether the loop goes on; a store
  outside the array is undefined.
\<close>

type_synonym sig_state = "bool \<times> nat \<times> M3FuncType"

fun SignatureToFuncType_step :: "nat \<Rightarrow> char \<Rightarrow> sig_state \<Rightarrow> (bool \<times> sig_state) result" where
  "SignatureToFuncType_step maxNumTypes typeChar (parsingRets, n, ft) =
    (if typeChar = CHR ''('' then Inr (True, (False, n, ft))
     else if typeChar = CHR '' '' then Inr (True, (parsingRets, n, ft))
     else if typeChar = CHR '')'' then Inr (False, (parsingRets, n, ft))
     else
       let type = ConvertTypeCharToTypeId typeChar in
       throwif (M3Msg ''unknown argument type char'') (c_m3Type_unknown = type)
         (if type = c_m3Type_none then Inr (True, (parsingRets, n, ft))
          else if parsingRets then
            throwif (M3Msg ''malformed signature; return count overflow'') (unat (ft_numRets ft) \<ge> maxNumTypes)
              (throwif C_undefined (\<not> n < length (ft_types ft))
                (Inr (True, (parsingRets, n + 1,
                  ft\<lparr>ft_numRets := ft_numRets ft + 1, ft_types := (ft_types ft)[n := type]\<rparr>))))
          else
            throwif (M3Msg ''malformed signature; arg count overflow'')
              (unat (ft_numRets ft) + unat (ft_numArgs ft) \<ge> maxNumTypes)
              (throwif C_undefined (\<not> n < length (ft_types ft))
                (Inr (True, (parsingRets, n + 1,
                  ft\<lparr>ft_numArgs := ft_numArgs ft + 1, ft_types := (ft_types ft)[n := type]\<rparr>))))))"

fun SignatureToFuncType_loop :: "nat \<Rightarrow> string \<Rightarrow> sig_state \<Rightarrow> M3FuncType result" where
  "SignatureToFuncType_loop maxNumTypes [] (parsingRets, n, ft) = Inr ft"
| "SignatureToFuncType_loop maxNumTypes (typeChar # sig) st =
    tryR (SignatureToFuncType_step maxNumTypes typeChar st) (\<lambda>(go, st').
      if go then SignatureToFuncType_loop maxNumTypes sig st' else Inr (snd (snd st')))"

text \<open>A null signature is \<open>None\<close>; \<^verbatim>\<open>o_functionType\<close> is never null in the callers.\<close>

definition SignatureToFuncType :: "(nat \<Rightarrow> bool) \<Rightarrow> string option \<Rightarrow> M3FuncType result" where
  "SignatureToFuncType calloc_ok i_signature =
    (case i_signature of
       None \<Rightarrow> Inl (M3Msg ''null function signature'')
     | Some sig \<Rightarrow>
         let maxNumTypes = length sig in
         throwif m3Err_malformedFunctionSignature (maxNumTypes < 2)
           (let maxNumTypes = maxNumTypes - 2 in
            throwif m3Err_tooManyArgsRets (maxNumTypes > d_m3MaxSaneFunctionArgRetCount)
              (tryR (AllocFuncType calloc_ok (of_nat maxNumTypes)) (\<lambda>funcType.
                 SignatureToFuncType_loop maxNumTypes sig (True, 0, funcType)))))"

text \<open>\<open>ft\<close> is the linked function's type.\<close>

definition ValidateSignature :: "(nat \<Rightarrow> bool) \<Rightarrow> M3FuncType \<Rightarrow> string option \<Rightarrow> unit result" where
  "ValidateSignature calloc_ok ft i_linkingSignature =
    tryR (SignatureToFuncType calloc_ok i_linkingSignature) (\<lambda>ftype.
      throwif (M3Msg ''function signature mismatch'') (\<not> AreFuncTypesEqual ftype ft) (Inr ()))"

section \<open>Signatures are exact\<close>

definition ft_wf :: "M3FuncType \<Rightarrow> bool" where
  "ft_wf t \<longleftrightarrow> unat (ft_numRets t) + unat (ft_numArgs t) \<le> length (ft_types t)"

text \<open>The return and the argument types a function type stands for.\<close>

definition ft_sig :: "M3FuncType \<Rightarrow> u8 list \<times> u8 list" where
  "ft_sig t = (take (unat (ft_numRets t)) (ft_types t),
               take (unat (ft_numArgs t)) (drop (unat (ft_numRets t)) (ft_types t)))"

lemma take_add_eqD:
  assumes "take (m + n) xs = take (m + n) ys"
  shows "take m xs = take m ys" "take n (drop m xs) = take n (drop m ys)"
proof -
  have "take m zs = take m (take (m + n) zs)" "take n (drop m zs) = drop m (take (m + n) zs)" for zs :: "'a list"
    by (simp_all add: drop_take)
  with assms show "take m xs = take m ys" "take n (drop m xs) = take n (drop m ys)" by metis+
qed

lemma AreFuncTypesEqual_iff:
  assumes "ft_wf a" "ft_wf b"
  shows "AreFuncTypesEqual a b \<longleftrightarrow> ft_sig a = ft_sig b"
proof
  assume "AreFuncTypesEqual a b"
  then have n: "ft_numRets a = ft_numRets b" "ft_numArgs a = ft_numArgs b"
    and t: "take (unat (ft_numRets a) + unat (ft_numArgs a)) (ft_types a)
          = take (unat (ft_numRets a) + unat (ft_numArgs a)) (ft_types b)"
    by (auto simp: AreFuncTypesEqual_def split: if_splits)
  with n take_add_eqD [OF t] show "ft_sig a = ft_sig b" by (simp add: ft_sig_def)
next
  assume s: "ft_sig a = ft_sig b"
  then have "length (fst (ft_sig a)) = length (fst (ft_sig b))" "length (snd (ft_sig a)) = length (snd (ft_sig b))"
    by simp_all
  then have "ft_numRets a = ft_numRets b" "ft_numArgs a = ft_numArgs b"
    using assms by (auto simp: ft_sig_def ft_wf_def min_def word_unat_eq_iff split: if_splits)
  with s show "AreFuncTypesEqual a b"
    by (simp add: AreFuncTypesEqual_def ft_sig_def take_add)
qed

text \<open>The loop's invariant: \<open>n\<close> types have been stored, so the counts never exceed the array.\<close>

definition sig_inv :: "nat \<Rightarrow> sig_state \<Rightarrow> bool" where
  "sig_inv m st \<longleftrightarrow> (case st of (parsingRets, n, ft) \<Rightarrow>
     n = unat (ft_numRets ft) + unat (ft_numArgs ft) \<and> n \<le> m \<and> length (ft_types ft) = m
     \<and> (parsingRets \<longrightarrow> ft_numArgs ft = 0))"

lemma unat16_inc: "unat (x :: u16) < 1000 \<Longrightarrow> unat (x + 1) = unat x + 1"
  by (subst unat_add_lem [THEN iffD1]) simp_all

lemma SignatureToFuncType_step_safe:
  assumes "sig_inv m st" "m \<le> 1000"
  shows "SignatureToFuncType_step m c st \<noteq> Inl C_undefined
    \<and> (\<forall>go st'. SignatureToFuncType_step m c st = Inr (go, st') \<longrightarrow> sig_inv m st')"
proof -
  obtain p n ft where st: "st = (p, n, ft)" by (cases st)
  then show ?thesis
    using assms unat16_inc [of "ft_numRets ft"] unat16_inc [of "ft_numArgs ft"]
    by (simp add: st Let_def throwif_def sig_inv_def del: One_nat_def) linarith?
qed

lemma SignatureToFuncType_loop_safe:
  assumes "sig_inv m st" "m \<le> 1000"
  shows "SignatureToFuncType_loop m sig st \<noteq> Inl C_undefined
    \<and> (\<forall>ft'. SignatureToFuncType_loop m sig st = Inr ft' \<longrightarrow> ft_wf ft')"
  using assms
proof (induction sig arbitrary: st)
  case Nil
  then show ?case by (cases st) (simp add: sig_inv_def ft_wf_def)
next
  case (Cons c sig)
  note step = SignatureToFuncType_step_safe [OF Cons.prems, of c]
  show ?case
  proof (cases "SignatureToFuncType_step m c st")
    case (Inr r)
    obtain go st' where r: "r = (go, st')" by (cases r)
    then have inv: "sig_inv m st'" using step Inr by blast
    then have "ft_wf (snd (snd st'))" by (cases st') (simp add: sig_inv_def ft_wf_def)
    then show ?thesis using Cons.IH [OF inv Cons.prems(2)] Inr r by simp
  qed (use step in auto)
qed

lemma unat_of_nat_1000: "m \<le> 1000 \<Longrightarrow> unat (of_nat m :: u32) = m"
  by (simp add: unsigned_of_nat take_bit_nat_eq_self)

lemma SignatureToFuncType_eq:
  assumes "length sig = m + 2" "m \<le> 1000" "ok (16 + m)"
  shows "SignatureToFuncType ok (Some sig) =
    SignatureToFuncType_loop m sig (True, 0, \<lparr>ft_numRets = 0, ft_numArgs = 0, ft_types = replicate m 0\<rparr>)"
  using assms by (simp add: SignatureToFuncType_def AllocFuncType_def unat_of_nat_1000)

lemma SignatureToFuncType_safe:
  "SignatureToFuncType ok s \<noteq> Inl C_undefined \<and> (\<forall>ft. SignatureToFuncType ok s = Inr ft \<longrightarrow> ft_wf ft)"
proof (cases s)
  case (Some sig)
  show ?thesis
  proof (cases "\<exists>m. length sig = m + 2 \<and> m \<le> 1000 \<and> ok (16 + m)")
    case True
    then obtain m where m: "length sig = m + 2" "m \<le> 1000" "ok (16 + m)" by blast
    show ?thesis
      unfolding Some SignatureToFuncType_eq [of sig m ok, OF m]
      by (rule SignatureToFuncType_loop_safe) (use m in \<open>auto simp: sig_inv_def\<close>)
  next
    case False
    show ?thesis
    proof (cases "length sig < 2")
      case le: False
      then obtain m where "length sig = m + 2" by (metis add.commute le_Suc_ex not_less)
      then show ?thesis using False Some
        by (auto simp: SignatureToFuncType_def AllocFuncType_def throwif_def unat_of_nat_1000)
    qed (use Some in \<open>simp add: SignatureToFuncType_def\<close>)
  qed
qed (simp add: SignatureToFuncType_def)

text \<open>The printer of signatures: the inverse of the type letters.\<close>

definition type_char :: "u8 \<Rightarrow> char" where
  "type_char t = (if t = 1 then CHR ''i'' else if t = 2 then CHR ''I'' else if t = 3 then CHR ''f'' else CHR ''F'')"

definition print_signature :: "u8 list \<Rightarrow> u8 list \<Rightarrow> string" where
  "print_signature rets args = map type_char rets @ ''('' @ map type_char args @ '')''"

lemma type_char_cases:
  assumes "t \<in> {1, 2, 3, 4}"
  shows "type_char t \<notin> {CHR ''('', CHR '' '', CHR '')''}" "ConvertTypeCharToTypeId (type_char t) = t"
  using assms by (auto simp: type_char_def ConvertTypeCharToTypeId_def)

lemma loop_map_rets:
  assumes "set ts \<subseteq> {1, 2, 3, 4}" "length acc + length ts \<le> m" "m \<le> 1000"
  shows "SignatureToFuncType_loop m (map type_char ts @ rest) (True, length acc,
      \<lparr>ft_numRets = of_nat (length acc), ft_numArgs = 0, ft_types = acc @ replicate (m - length acc) 0\<rparr>)
    = SignatureToFuncType_loop m rest (True, length (acc @ ts),
      \<lparr>ft_numRets = of_nat (length (acc @ ts)), ft_numArgs = 0,
       ft_types = acc @ ts @ replicate (m - length (acc @ ts)) 0\<rparr>)"
  using assms
proof (induction ts arbitrary: acc)
  case (Cons t ts)
  have t: "type_char t \<noteq> CHR ''(''" "type_char t \<noteq> CHR '' ''" "type_char t \<noteq> CHR '')''"
    "ConvertTypeCharToTypeId (type_char t) = t" "t \<noteq> 5" "t \<noteq> 0"
    using type_char_cases [of t] Cons.prems(1) by auto
  have u: "unat (of_nat (length acc) :: u16) = length acc"
    using Cons.prems by (simp add: unsigned_of_nat take_bit_nat_eq_self)
  have upd: "(acc @ replicate (m - length acc) 0)[length acc := t] = (acc @ [t]) @ replicate (m - length (acc @ [t])) 0"
    using Cons.prems by (cases "m - length acc") (auto simp: list_update_append)
  have "SignatureToFuncType_step m (type_char t) (True, length acc,
      \<lparr>ft_numRets = of_nat (length acc), ft_numArgs = 0, ft_types = acc @ replicate (m - length acc) 0\<rparr>)
    = Inr (True, (True, length (acc @ [t]), \<lparr>ft_numRets = of_nat (length (acc @ [t])), ft_numArgs = 0,
        ft_types = (acc @ [t]) @ replicate (m - length (acc @ [t])) 0\<rparr>))"
    using t Cons.prems by (simp add: Let_def u upd add.commute throwif_def)
  then show ?case using Cons.IH [of "acc @ [t]"] Cons.prems by simp
qed simp

lemma loop_map_args:
  assumes "set ts \<subseteq> {1, 2, 3, 4}" "length rets + length acc + length ts \<le> m" "m \<le> 1000"
  shows "SignatureToFuncType_loop m (map type_char ts @ rest) (False, length (rets @ acc),
      \<lparr>ft_numRets = of_nat (length rets), ft_numArgs = of_nat (length acc),
       ft_types = (rets @ acc) @ replicate (m - length (rets @ acc)) 0\<rparr>)
    = SignatureToFuncType_loop m rest (False, length (rets @ acc @ ts),
      \<lparr>ft_numRets = of_nat (length rets), ft_numArgs = of_nat (length (acc @ ts)),
       ft_types = (rets @ acc @ ts) @ replicate (m - length (rets @ acc @ ts)) 0\<rparr>)"
  using assms
proof (induction ts arbitrary: acc)
  case (Cons t ts)
  have t: "type_char t \<noteq> CHR ''(''" "type_char t \<noteq> CHR '' ''" "type_char t \<noteq> CHR '')''"
    "ConvertTypeCharToTypeId (type_char t) = t" "t \<noteq> 5" "t \<noteq> 0"
    using type_char_cases [of t] Cons.prems(1) by auto
  have u: "unat (of_nat (length acc) :: u16) = length acc" "unat (of_nat (length rets) :: u16) = length rets"
    using Cons.prems by (simp_all add: unsigned_of_nat take_bit_nat_eq_self)
  have upd: "((rets @ acc) @ replicate (m - length (rets @ acc)) 0)[length rets + length acc := t]
      = (rets @ acc @ [t]) @ replicate (m - length (rets @ acc @ [t])) 0"
    using Cons.prems by (cases "m - length (rets @ acc)") (auto simp: list_update_append)
  have "SignatureToFuncType_step m (type_char t) (False, length (rets @ acc),
      \<lparr>ft_numRets = of_nat (length rets), ft_numArgs = of_nat (length acc),
       ft_types = (rets @ acc) @ replicate (m - length (rets @ acc)) 0\<rparr>)
    = Inr (True, (False, length (rets @ acc @ [t]), \<lparr>ft_numRets = of_nat (length rets),
        ft_numArgs = of_nat (length (acc @ [t])),
        ft_types = (rets @ acc @ [t]) @ replicate (m - length (rets @ acc @ [t])) 0\<rparr>))"
    using t Cons.prems upd by (simp add: Let_def u add.commute throwif_def)
  then show ?case using Cons.IH [of "acc @ [t]"] Cons.prems by simp
qed simp

lemma SignatureToFuncType_print:
  assumes "set rets \<union> set args \<subseteq> {1, 2, 3, 4}" "length rets + length args \<le> 1000"
    "ok (16 + (length rets + length args))"
  shows "SignatureToFuncType ok (Some (print_signature rets args)) =
    Inr \<lparr>ft_numRets = of_nat (length rets), ft_numArgs = of_nat (length args), ft_types = rets @ args\<rparr>"
proof -
  let ?m = "length rets + length args"
  have "SignatureToFuncType ok (Some (print_signature rets args)) =
    SignatureToFuncType_loop ?m (print_signature rets args)
      (True, 0, \<lparr>ft_numRets = 0, ft_numArgs = 0, ft_types = replicate ?m 0\<rparr>)"
    by (rule SignatureToFuncType_eq) (use assms in \<open>auto simp: print_signature_def\<close>)
  also have "\<dots> = SignatureToFuncType_loop ?m (map type_char args @ '')'') (False, length rets,
      \<lparr>ft_numRets = of_nat (length rets), ft_numArgs = 0, ft_types = rets @ replicate (length args) 0\<rparr>)"
    using loop_map_rets [of rets "[]" ?m "''('' @ map type_char args @ '')''"] assms
    by (simp add: print_signature_def)
  also have "\<dots> = Inr \<lparr>ft_numRets = of_nat (length rets), ft_numArgs = of_nat (length args), ft_types = rets @ args\<rparr>"
    using loop_map_args [of args rets "[]" ?m "'')''"] assms by simp
  finally show ?thesis .
qed

section \<open>Types compare by pointer\<close>

definition pool_ok :: "type_pool \<Rightarrow> bool" where
  "pool_ok pool \<longleftrightarrow> (\<forall>t \<in> set pool. ft_wf t) \<and> distinct (map ft_sig pool)"

lemma pool_get_Cons: "pool_get (t # pool) p = (if p = length pool then Some t else pool_get pool p)"
  by (auto simp: pool_get_def nth_append)

lemma pool_get_iff: "(\<exists>p. pool_get pool p = Some t) \<longleftrightarrow> t \<in> set pool"
  using in_set_conv_nth [of t "rev pool"] by (auto simp: pool_get_def split: if_splits)

lemma pool_get_length [simp]: "pool_get pool (length pool) = None"
  by (simp add: pool_get_def)

lemma AddFuncType_loop_Some:
  "AddFuncType_loop pool a = Some p \<Longrightarrow> \<exists>t. pool_get pool p = Some t \<and> AreFuncTypesEqual t a"
  by (induction pool) (auto simp: pool_get_Cons split: if_splits)

lemma AddFuncType_loop_None:
  "AddFuncType_loop pool a = None \<Longrightarrow> t \<in> set pool \<Longrightarrow> \<not> AreFuncTypesEqual t a"
  by (induction pool) (auto split: if_splits)

text \<open>A run of additions: the pointers in order.\<close>

fun add_all :: "('e \<Rightarrow> 't \<Rightarrow> 'e \<times> 'p) \<Rightarrow> 'e \<Rightarrow> 't list \<Rightarrow> 'e \<times> 'p list" where
  "add_all add e [] = (e, [])"
| "add_all add e (t # ts) = (let (e1, p) = add e t; (e2, ps) = add_all add e1 ts in (e2, p # ps))"

text \<open>The contract of a pool of interned values: \<open>add\<close> gives a pointer to an equal value, never
  moves or changes what is there, and two pointers to equal values are the same pointer.\<close>

locale intern_pool =
  fixes add :: "'e \<Rightarrow> 't \<Rightarrow> 'e \<times> 'p"
    and get :: "'e \<Rightarrow> 'p \<Rightarrow> 't option"
    and shape :: "'t \<Rightarrow> 's"
    and valid :: "'t \<Rightarrow> bool"
    and inv :: "'e \<Rightarrow> bool"
  assumes add_inv: "inv e \<Longrightarrow> valid t \<Longrightarrow> add e t = (e', p) \<Longrightarrow> inv e'"
    and add_get: "inv e \<Longrightarrow> valid t \<Longrightarrow> add e t = (e', p) \<Longrightarrow> \<exists>u. get e' p = Some u \<and> shape u = shape t"
    and add_keeps: "add e t = (e', p) \<Longrightarrow> get e q = Some u \<Longrightarrow> get e' q = Some u"
    and unique: "inv e \<Longrightarrow> get e p = Some t \<Longrightarrow> get e q = Some u \<Longrightarrow> shape t = shape u \<Longrightarrow> p = q"
begin

lemma add_all_keeps: "add_all add e ts = (e', ps) \<Longrightarrow> get e q = Some u \<Longrightarrow> get e' q = Some u"
  by (induction ts arbitrary: e ps) (auto split: prod.splits dest: add_keeps)

lemma add_all_get:
  "inv e \<Longrightarrow> \<forall>t \<in> set ts. valid t \<Longrightarrow> add_all add e ts = (e', ps) \<Longrightarrow>
    inv e' \<and> length ps = length ts \<and> (\<forall>i < length ts. \<exists>u. get e' (ps ! i) = Some u \<and> shape u = shape (ts ! i))"
proof (induction ts arbitrary: e ps)
  case (Cons t ts)
  obtain e1 p where 1: "add e t = (e1, p)" by fastforce
  obtain e2 qs where 2: "add_all add e1 ts = (e2, qs)" by fastforce
  have e': "e2 = e'" "ps = p # qs" using Cons.prems(3) 1 2 by simp_all
  have "inv e1" using add_inv Cons.prems 1 by auto
  have 3: "add_all add e1 ts = (e', qs)" using 2 e' by simp
  have "\<forall>t \<in> set ts. valid t" using Cons.prems(2) by simp
  note IH = Cons.IH [OF \<open>inv e1\<close> this 3]
  obtain u where "get e1 p = Some u" "shape u = shape t" using add_get Cons.prems 1 by (metis list.set_intros(1))
  then have "get e' p = Some u" using add_all_keeps [OF 3] by simp
  with IH e' Cons.prems(2) \<open>shape u = shape t\<close> show ?case by (auto simp: nth_Cons split: nat.splits)
qed auto

lemma pointer_equality:
  assumes "inv e" "\<forall>t \<in> set ts. valid t" "add_all add e ts = (e', ps)" "i < length ts" "j < length ts"
  shows "ps ! i = ps ! j \<longleftrightarrow> shape (ts ! i) = shape (ts ! j)"
  using add_all_get [OF assms(1-3)] assms(4,5) unique by (metis option.inject)

end

interpretation types: intern_pool Environment_AddFuncType pool_get ft_sig ft_wf pool_ok
proof unfold_locales
  fix e t e' p
  assume a: "pool_ok e" "ft_wf t" "Environment_AddFuncType e t = (e', p)"
  have ne: "ft_sig u \<noteq> ft_sig t" if "AddFuncType_loop e t = None" "u \<in> set e" for u
    using AddFuncType_loop_None [OF that] AreFuncTypesEqual_iff [of u t] a(1,2) that(2)
    by (auto simp: pool_ok_def)
  show "pool_ok e'"
    using a ne by (fastforce simp: Environment_AddFuncType_def pool_ok_def split: option.splits)
  show "\<exists>u. pool_get e' p = Some u \<and> ft_sig u = ft_sig t"
  proof (cases "AddFuncType_loop e t")
    case None
    then show ?thesis using a(3) by (auto simp: Environment_AddFuncType_def pool_get_Cons)
  next
    case (Some q)
    then obtain u where u: "pool_get e q = Some u" "AreFuncTypesEqual u t" using AddFuncType_loop_Some by blast
    then have "u \<in> set e" using pool_get_iff by metis
    then have "ft_sig u = ft_sig t" using a(1,2) u(2) AreFuncTypesEqual_iff [of u t] by (simp add: pool_ok_def)
    then show ?thesis using a(3) Some u(1) by (simp add: Environment_AddFuncType_def)
  qed
next
  fix e t e' p q u
  assume "Environment_AddFuncType e t = (e', p)" "pool_get e q = Some u"
  then show "pool_get e' q = Some u"
    by (auto simp: Environment_AddFuncType_def pool_get_Cons split: option.splits)
next
  fix e p t q u
  assume a: "pool_ok e" "pool_get e p = Some t" "pool_get e q = Some u" "ft_sig t = ft_sig u"
  then have "p < length e" "q < length e" "map ft_sig (rev e) ! p = map ft_sig (rev e) ! q"
    by (auto simp: pool_get_def split: if_splits)
  moreover have "distinct (map ft_sig (rev e))" using a(1) by (simp add: pool_ok_def flip: rev_map)
  ultimately show "p = q" by (metis length_map length_rev nth_eq_iff_index_eq)
qed

section \<open>Properties\<close>

text \<open>Parsing a linking signature inverts printing it: every list of return and argument
  types within the limit of 1000 comes back exactly, returns first.\<close>

theorem signature_roundtrip:
  assumes "set rets \<union> set args \<subseteq> {1, 2, 3, 4}" "length rets + length args \<le> 1000"
    and "ok (16 + (length rets + length args))"
  shows "\<exists>ft. SignatureToFuncType ok (Some (print_signature rets args)) = Inr ft
    \<and> ft_sig ft = (rets, args) \<and> ft_wf ft"
proof -
  have "unat (of_nat (length rets) :: u16) = length rets" "unat (of_nat (length args) :: u16) = length args"
    using assms(2) by (simp_all add: unsigned_of_nat take_bit_nat_eq_self)
  then show ?thesis using SignatureToFuncType_print [of rets args ok, OF assms] by (simp add: ft_sig_def ft_wf_def)
qed

theorem signature_roundtrip_witness:
  "\<exists>ft. SignatureToFuncType (\<lambda>n. n < 100) (Some (print_signature [1, 4] [2, 3, 1])) = Inr ft
     \<and> ft_sig ft = ([1, 4], [2, 3, 1]) \<and> ft_wf ft"
  by (rule signature_roundtrip) simp_all

text \<open>No signature, however malformed, makes the parser store outside the array of types it
  allocated from the signature's length, and what it accepts is a well-formed function type.\<close>

theorem signature_in_bounds:
  "SignatureToFuncType ok s \<noteq> Inl C_undefined
   \<and> (case SignatureToFuncType ok s of Inr ft \<Rightarrow> ft_wf ft | Inl e \<Rightarrow> True)"
  using SignatureToFuncType_safe [of ok s] by (auto split: sum.splits)

text \<open>C32: Interning makes pointer comparison of function types exact: after any run of
  registrations two pointers are the same exactly when the types registered have the same
  return types and the same argument types, in number and in order. The type check of indirect
  calls rests on it.\<close>

theorem type_pointer_equality:
  assumes "pool_ok pool" "\<forall>t \<in> set ts. ft_wf t" "add_all Environment_AddFuncType pool ts = (pool', ps)"
    and "i < length ts" "j < length ts"
  shows "ps ! i = ps ! j \<longleftrightarrow> ft_sig (ts ! i) = ft_sig (ts ! j)"
  using types.pointer_equality [OF assms] .

theorem type_pointer_equality_witness:
  "let t = \<lparr>ft_numRets = 1, ft_numArgs = 1, ft_types = [1, 2]\<rparr>;
       u = \<lparr>ft_numRets = 1, ft_numArgs = 1, ft_types = [1, 2, 0]\<rparr>;
       v = \<lparr>ft_numRets = 1, ft_numArgs = 1, ft_types = [1, 3]\<rparr>;
       ps = snd (add_all Environment_AddFuncType [] [t, u, v])
   in ps ! 0 = ps ! 1 \<and> ps ! 0 \<noteq> ps ! 2"
  using type_pointer_equality [of "[]" "[\<lparr>ft_numRets = 1, ft_numArgs = 1, ft_types = [1, 2]\<rparr>,
      \<lparr>ft_numRets = 1, ft_numArgs = 1, ft_types = [1, 2, 0]\<rparr>, \<lparr>ft_numRets = 1, ft_numArgs = 1, ft_types = [1, 3]\<rparr>]",
      OF _ _ prod.collapse [symmetric], of 0 1]
    type_pointer_equality [of "[]" "[\<lparr>ft_numRets = 1, ft_numArgs = 1, ft_types = [1, 2]\<rparr>,
      \<lparr>ft_numRets = 1, ft_numArgs = 1, ft_types = [1, 2, 0]\<rparr>, \<lparr>ft_numRets = 1, ft_numArgs = 1, ft_types = [1, 3]\<rparr>]",
      OF _ _ prod.collapse [symmetric], of 0 2]
  unfolding Let_def by (simp add: pool_ok_def ft_wf_def ft_sig_def del: add_all.simps)

text \<open>A new environment holds one type for each kind of block result, at distinct pointers
  that \<^verbatim>\<open>retFuncTypes\<close> lists in the order of the value types.\<close>

theorem NewEnvironment_types:
  "case m3_NewEnvironment ok struct_ok of
     None \<Rightarrow> \<not> struct_ok \<or> \<not> ok 17
   | Some env \<Rightarrow> pool_ok (funcTypes env) \<and> distinct (retFuncTypes env) \<and>
       map (\<lambda>p. map_option ft_sig (pool_get (funcTypes env) p)) (retFuncTypes env)
         = [Some ([], []), Some ([1], []), Some ([2], []), Some ([3], []), Some ([4], [])]"
proof (cases "struct_ok \<and> ok 17")
  case True
  have "m3_NewEnvironment ok struct_ok = Some
    \<lparr>funcTypes = map (\<lambda>t. \<lparr>ft_numRets = (if t = 0 then 0 else 1), ft_numArgs = 0, ft_types = [t]\<rparr>) [4, 3, 2, 1, 0],
     retFuncTypes = [0, 1, 2, 3, 4]\<rparr>"
    using True by (simp add: m3_NewEnvironment_def NewEnvironment_step_def AllocFuncType_def
        Environment_AddFuncType_def AreFuncTypesEqual_def Let_def)
  then show ?thesis by (simp add: pool_ok_def ft_wf_def ft_sig_def pool_get_def)
next
  case False
  then have "m3_NewEnvironment ok struct_ok = None"
    by (auto simp: m3_NewEnvironment_def NewEnvironment_step_def AllocFuncType_def)
  with False show ?thesis by simp
qed

end
