(* ===== verification/M3_Module.thy ===== *)
theory M3_Module
  imports M3_Function
begin

text \<open>
  Modules: the structs of \<^verbatim>\<open>include/m3_env.h\<close>, the operations of \<^verbatim>\<open>src/m3_module.c\<close> and
  the linking of imports of \<^verbatim>\<open>src/m3_bind.c\<close>. An array pointer with its element count is a
  list; a null array is \<open>[]\<close>, and an access outside the list is undefined behaviour (also
  where the C array is null because an allocation failed). Byte pointers are positions in the
  module's bytes.
\<close>

section \<open>Structs\<close>

record M3MemoryInfo =
  initPages :: u32
  mi_maxPages :: u32
  mi_pageSize :: u32

record M3DataSegment =
  ds_initExpr :: nat
  ds_data :: nat
  ds_initExprSize :: u32
  ds_memoryRegion :: u32
  ds_size :: u32

text \<open>The union of values is its 64 bits.\<close>

record M3Global =
  gl_import :: M3ImportInfo
  gl_value :: u64
  gl_name :: "u8 list option"
  gl_initExpr :: "nat option"
  gl_initExprSize :: u32
  gl_type :: u8
  gl_imported :: bool
  gl_isMutable :: bool

text \<open>\<open>startFunction\<close> is the \<^verbatim>\<open>i32\<close>, \<open>table0\<close> holds indices of \<open>functions\<close>, \<open>runtime\<close> says
  whether the module has been given to one.\<close>

record M3Module =
  has_runtime :: bool
  wasmStart :: nat
  wasmEnd :: nat
  m_name :: "u8 list option"
  numFuncTypes :: u32
  m_funcTypes :: "nat option list"
  numFuncImports :: u32
  numFunctions :: u32
  allFunctions :: u32
  m_functions :: "M3Function list"
  startFunction :: int
  numDataSegments :: u32
  dataSegments :: "M3DataSegment list"
  numGlobals :: u32
  globals :: "M3Global list"
  numElementSegments :: u32
  elementSection :: nat
  elementSectionEnd :: nat
  table0 :: "nat option list"
  table0Size :: u32
  table0ExportName :: "u8 list option"
  memoryInfo :: M3MemoryInfo
  memoryImport :: M3ImportInfo
  memoryImported :: bool
  memoryExportName :: "u8 list option"

abbreviation no_import :: M3ImportInfo where
  "no_import \<equiv> \<lparr>moduleUtf8 = None, fieldUtf8 = None\<rparr>"

definition zero_global :: M3Global where
  "zero_global = \<lparr>gl_import = no_import, gl_value = 0, gl_name = None, gl_initExpr = None, gl_initExprSize = 0,
     gl_type = 0, gl_imported = False, gl_isMutable = False\<rparr>"

text \<open>The zeroed struct of \<^verbatim>\<open>m3_AllocStruct (M3Module)\<close>.\<close>

definition zero_module :: M3Module where
  "zero_module = \<lparr>has_runtime = False, wasmStart = 0, wasmEnd = 0, m_name = None, numFuncTypes = 0,
     m_funcTypes = [], numFuncImports = 0, numFunctions = 0, allFunctions = 0, m_functions = [], startFunction = 0,
     numDataSegments = 0, dataSegments = [], numGlobals = 0, globals = [], numElementSegments = 0,
     elementSection = 0, elementSectionEnd = 0, table0 = [], table0Size = 0, table0ExportName = None,
     memoryInfo = \<lparr>initPages = 0, mi_maxPages = 0, mi_pageSize = 0\<rparr>, memoryImport = no_import,
     memoryImported = False, memoryExportName = None\<rparr>"

section \<open>Operations\<close>

text \<open>
  An operation that may fail half-way returns its error (\<open>None\<close> for success) with the module it
  leaves behind, which \<^verbatim>\<open>m3_FreeModule\<close> then reads. \<^verbatim>\<open>m3_ReallocArray\<close> zeroes what it adds;
  when \<^verbatim>\<open>realloc\<close> fails the array pointer is null. The sizes are those of a 64-bit host:
  64 bytes for a global and 144 for a function.
\<close>

definition m3_ReallocArray :: "(nat \<Rightarrow> bool) \<Rightarrow> nat \<Rightarrow> 'a \<Rightarrow> 'a list \<Rightarrow> nat \<Rightarrow> nat \<Rightarrow> 'a list option" where
  "m3_ReallocArray calloc_ok elem_size zero xs new old =
    (if new = old then Some xs
     else if calloc_ok (elem_size * new) then Some (take new xs @ replicate (new - length xs) zero)
     else None)"

text \<open>The third component is the index of the new global (\<^verbatim>\<open>*o_global\<close>).\<close>

definition Module_AddGlobal ::
    "(nat \<Rightarrow> bool) \<Rightarrow> M3Module \<Rightarrow> u8 \<Rightarrow> bool \<Rightarrow> bool \<Rightarrow> m3_error option \<times> M3Module \<times> nat" where
  "Module_AddGlobal calloc_ok m i_type i_mutable i_isImported =
    (let index = numGlobals m;
         m = m\<lparr>numGlobals := index + 1\<rparr> in
     case m3_ReallocArray calloc_ok 64 zero_global (globals m) (unat (numGlobals m)) (unat index) of
       None \<Rightarrow> (Some m3Err_mallocFailed, m\<lparr>globals := []\<rparr>, unat index)
     | Some gs \<Rightarrow>
         if unat index < length gs then
           (None, m\<lparr>globals := gs[unat index := (gs ! unat index)
              \<lparr>gl_type := i_type, gl_imported := i_isImported, gl_isMutable := i_mutable\<rparr>]\<rparr>, unat index)
         else (Some C_undefined, m, unat index))"

definition Module_PreallocFunctions ::
    "(nat \<Rightarrow> bool) \<Rightarrow> M3Module \<Rightarrow> u32 \<Rightarrow> m3_error option \<times> M3Module" where
  "Module_PreallocFunctions calloc_ok m i_totalFunctions =
    (if i_totalFunctions > allFunctions m then
       (case m3_ReallocArray calloc_ok 144 zero_function (m_functions m) (unat i_totalFunctions) (unat (allFunctions m)) of
          None \<Rightarrow> (Some m3Err_mallocFailed, m\<lparr>m_functions := [], allFunctions := i_totalFunctions\<rparr>)
        | Some fs \<Rightarrow> (None, m\<lparr>m_functions := fs, allFunctions := i_totalFunctions\<rparr>))
     else (None, m))"

text \<open>The index of the function, \<open>None\<close> for the null pointer.\<close>

definition Module_GetFunction :: "M3Module \<Rightarrow> u32 \<Rightarrow> nat option" where
  "Module_GetFunction m i_functionIndex =
    (if i_functionIndex < numFunctions m then Some (unat i_functionIndex) else None)"

definition Module_AddFunction ::
    "(nat \<Rightarrow> bool) \<Rightarrow> M3Module \<Rightarrow> u32 \<Rightarrow> M3ImportInfo option \<Rightarrow> m3_error option \<times> M3Module" where
  "Module_AddFunction calloc_ok m i_typeIndex i_importInfo =
    (let index = numFunctions m;
         m = m\<lparr>numFunctions := index + 1\<rparr>;
         (r, m) = Module_PreallocFunctions calloc_ok m (numFunctions m) in
     if r \<noteq> None then (r, m)
     else if i_typeIndex \<ge> numFuncTypes m then (Some (M3Msg ''type sig index out of bounds''), m)
     else if \<not> unat i_typeIndex < length (m_funcTypes m) then (Some C_undefined, m)
     else let ft = m_funcTypes m ! unat i_typeIndex in
       case Module_GetFunction m index of
         None \<Rightarrow> (Some C_undefined, m)
       | Some i \<Rightarrow>
           if i < length (m_functions m) then
             let func = (m_functions m ! i)\<lparr>fn_funcType := ft\<rparr>;
                 func = (case i_importInfo of
                           Some info \<Rightarrow> if numNames func = 0
                             then func\<lparr>fn_import := info, names := (names func)[0 := fieldUtf8 info], numNames := 1\<rparr>
                             else func
                         | None \<Rightarrow> func)
             in (None, m\<lparr>m_functions := (m_functions m)[i := func]\<rparr>)
           else (Some C_undefined, m))"

text \<open>The accesses of \<^verbatim>\<open>Module_FreeFunctions\<close> and \<^verbatim>\<open>m3_FreeModule\<close> to the arrays they free,
  by the counts kept beside them; the memory itself is not modelled.\<close>

definition m3_FreeModule :: "M3Module option \<Rightarrow> unit result" where
  "m3_FreeModule i_module =
    (case i_module of
       None \<Rightarrow> Inr ()
     | Some m \<Rightarrow>
         throwif C_undefined (unat (numFunctions m) > length (m_functions m))
           (throwif C_undefined (unat (numGlobals m) > length (globals m)) (Inr ())))"

definition m3_GetModuleName :: "M3Module option \<Rightarrow> u8 list" where
  "m3_GetModuleName i_module =
    (case i_module of None \<Rightarrow> ascii ''.unnamed''
     | Some m \<Rightarrow> (case m_name m of None \<Rightarrow> ascii ''.unnamed'' | Some n \<Rightarrow> n))"

definition m3_SetModuleName :: "M3Module option \<Rightarrow> u8 list option \<Rightarrow> M3Module option" where
  "m3_SetModuleName i_module name = map_option (\<lambda>m. m\<lparr>m_name := name\<rparr>) i_module"

section \<open>Linking imports\<close>

text \<open>
  \<^verbatim>\<open>FindAndLinkFunction\<close>: every import with a matching name is linked. \<open>pool\<close> is the
  environment's type pool; \<open>compile_raw\<close> stands for \<^verbatim>\<open>CompileRawFunction\<close>, which emits a
  call to the host function on a code page and sets \<^verbatim>\<open>compiled\<close>. A wasm string that
  could not be allocated is null and does not match.
\<close>

definition link_matches :: "u8 list \<Rightarrow> u8 list \<Rightarrow> M3Function \<Rightarrow> bool" where
  "link_matches i_moduleName i_functionName f =
    (case (moduleUtf8 (fn_import f), fieldUtf8 (fn_import f)) of
       (Some mo, Some fi) \<Rightarrow> strcmp_eq fi i_functionName
          \<and> (strcmp_eq i_moduleName (ascii ''*'') \<or> strcmp_eq mo i_moduleName)
     | _ \<Rightarrow> False)"

fun FindAndLink_loop :: "(nat \<Rightarrow> bool) \<Rightarrow> (M3Function \<Rightarrow> M3Function result) \<Rightarrow> type_pool \<Rightarrow> (M3Function \<Rightarrow> bool)
    \<Rightarrow> string option \<Rightarrow> M3Function list \<Rightarrow> m3_error option \<Rightarrow> m3_error option \<times> M3Function list" where
  "FindAndLink_loop calloc_ok compile_raw pool P i_signature [] result = (result, [])"
| "FindAndLink_loop calloc_ok compile_raw pool P i_signature (f # fs) result =
    (if P f then
       case (case i_signature of
               None \<Rightarrow> Inr ()
             | Some sig \<Rightarrow> (case fn_funcType f of
                 None \<Rightarrow> Inl C_undefined
               | Some p \<Rightarrow> (case pool_get pool p of
                   None \<Rightarrow> Inl C_undefined
                 | Some ft \<Rightarrow> ValidateSignature calloc_ok ft (Some sig)))) of
         Inl e \<Rightarrow> (Some e, f # fs)
       | Inr _ \<Rightarrow> (case compile_raw f of
           Inl e \<Rightarrow> (Some e, f # fs)
         | Inr f' \<Rightarrow>
             let (r, fs') = FindAndLink_loop calloc_ok compile_raw pool P i_signature fs None in (r, f' # fs'))
     else let (r, fs') = FindAndLink_loop calloc_ok compile_raw pool P i_signature fs result in (r, f # fs'))"

definition FindAndLinkFunction :: "(nat \<Rightarrow> bool) \<Rightarrow> (M3Function \<Rightarrow> M3Function result) \<Rightarrow> type_pool \<Rightarrow> M3Module
    \<Rightarrow> u8 list \<Rightarrow> u8 list \<Rightarrow> string option \<Rightarrow> m3_error option \<times> M3Module" where
  "FindAndLinkFunction calloc_ok compile_raw pool m i_moduleName i_functionName i_signature =
    (if \<not> has_runtime m then (Some m3Err_moduleNotLinked, m)
     else if unat (numFunctions m) > length (m_functions m) then (Some C_undefined, m)
     else let n = unat (numFunctions m);
              (r, fs) = FindAndLink_loop calloc_ok compile_raw pool (link_matches i_moduleName i_functionName)
                          i_signature (take n (m_functions m)) (Some m3Err_functionLookupFailed)
          in (r, m\<lparr>m_functions := fs @ drop n (m_functions m)\<rparr>))"

section \<open>The arrays and their counts\<close>

text \<open>The invariant between the counts and the arrays of a module.\<close>

definition module_ok :: "M3Module \<Rightarrow> bool" where
  "module_ok m \<longleftrightarrow> length (globals m) = unat (numGlobals m) \<and> length (m_functions m) = unat (allFunctions m)
     \<and> numFunctions m \<le> allFunctions m \<and> length (m_funcTypes m) = unat (numFuncTypes m)
     \<and> length (dataSegments m) = unat (numDataSegments m)
     \<and> (\<forall>f \<in> set (m_functions m). length (names f) = d_m3MaxDuplicateFunctionImpl)"

lemma module_ok_zero [simp]: "module_ok zero_module"
  by (simp add: module_ok_def zero_module_def)

lemma m3_ReallocArray_grow:
  "m3_ReallocArray ok sz z xs new old = Some ys \<Longrightarrow> length xs = old \<Longrightarrow> old \<le> new \<Longrightarrow> ys = xs @ replicate (new - old) z"
  by (auto simp: m3_ReallocArray_def split: if_splits)

lemma unat_inc_ne: "(x :: u32) + 1 \<noteq> 0 \<Longrightarrow> unat (x + 1) = unat x + 1"
  using unatSuc [of x] by (simp add: add.commute)

lemma Module_AddGlobal_ok:
  assumes "module_ok m" "numGlobals m + 1 \<noteq> 0" "Module_AddGlobal ok m t mu imp = (None, m', i)"
  shows "m' = m\<lparr>numGlobals := numGlobals m + 1,
      globals := globals m @ [zero_global\<lparr>gl_type := t, gl_imported := imp, gl_isMutable := mu\<rparr>]\<rparr>
    \<and> i = unat (numGlobals m) \<and> module_ok m'"
proof -
  let ?n = "unat (numGlobals m)"
  have len: "length (globals m) = ?n" using assms(1) by (simp add: module_ok_def)
  note inc = unat_inc_ne [OF assms(2)]
  obtain gs where gs: "m3_ReallocArray ok 64 zero_global (globals m) (?n + 1) ?n = Some gs"
    using assms(3) inc by (auto simp: Module_AddGlobal_def Let_def split: option.splits)
  then have "gs = globals m @ [zero_global]" using m3_ReallocArray_grow [OF gs len] by simp
  then show ?thesis using assms(1,3) gs inc len
    by (auto simp: Module_AddGlobal_def Let_def module_ok_def nth_append list_update_append)
qed

lemma Module_PreallocFunctions_ok:
  assumes "module_ok m" "Module_PreallocFunctions ok m n = (None, m')"
  shows "module_ok m' \<and> n \<le> allFunctions m' \<and> m' = m\<lparr>allFunctions := allFunctions m', m_functions := m_functions m'\<rparr>
    \<and> take (length (m_functions m)) (m_functions m') = m_functions m
    \<and> (\<forall>i < length (m_functions m'). length (m_functions m) \<le> i \<longrightarrow> m_functions m' ! i = zero_function)"
proof (cases "n > allFunctions m")
  case True
  have len: "length (m_functions m) = unat (allFunctions m)" using assms(1) by (simp add: module_ok_def)
  obtain fs where fs: "m3_ReallocArray ok 144 zero_function (m_functions m) (unat n) (unat (allFunctions m)) = Some fs"
    using assms(2) True by (auto simp: Module_PreallocFunctions_def split: option.splits)
  have le: "unat (allFunctions m) \<le> unat n" using True by (simp add: word_less_nat_alt)
  have "fs = m_functions m @ replicate (unat n - unat (allFunctions m)) zero_function"
    by (rule m3_ReallocArray_grow [OF fs len le])
  moreover have "m' = m\<lparr>m_functions := fs, allFunctions := n\<rparr>"
    using assms(2) True fs by (simp add: Module_PreallocFunctions_def)
  ultimately show ?thesis using assms(1) True len le
    by (auto simp: module_ok_def nth_append zero_function_def)
qed (use assms in \<open>auto simp: Module_PreallocFunctions_def\<close>)


lemma Module_AddFunction_ok:
  assumes "module_ok m" "numFunctions m + 1 \<noteq> 0" "Module_AddFunction ok m ti info = (None, m')"
  shows "module_ok m' \<and> numFunctions m' = numFunctions m + 1 \<and> ti < numFuncTypes m
    \<and> fn_funcType (m_functions m' ! unat (numFunctions m)) = m_funcTypes m ! unat ti
    \<and> (\<forall>i < unat (numFunctions m). m_functions m' ! i = m_functions m ! i)"
proof -
  let ?i = "unat (numFunctions m)" and ?m = "m\<lparr>numFunctions := numFunctions m + 1\<rparr>"
  note inc = unat_inc_ne [OF assms(2)]
  obtain m1 where m1: "Module_PreallocFunctions ok ?m (numFunctions m + 1) = (None, m1)"
    using assms(3) by (auto simp: Module_AddFunction_def Let_def split: prod.splits if_splits)
  define mm where "mm = m\<lparr>numFunctions := numFunctions m\<rparr>"
  have pre: "Module_PreallocFunctions ok m (numFunctions m + 1) = (None, m1\<lparr>numFunctions := numFunctions m\<rparr>)"
    using m1 by (auto simp: Module_PreallocFunctions_def split: if_splits option.splits)
  note P = Module_PreallocFunctions_ok [OF assms(1) pre, simplified]
  have le: "?i + 1 \<le> length (m_functions m1)"
    using P inc by (auto simp: module_ok_def word_le_nat_alt)
  have same: "m_funcTypes m1 = m_funcTypes m" "numFuncTypes m1 = numFuncTypes m" "numFunctions m1 = numFunctions m + 1"
    using m1 by (auto simp: Module_PreallocFunctions_def split: if_splits option.splits)
  have get: "Module_GetFunction m1 (numFunctions m) = Some ?i"
    using same inc by (simp add: Module_GetFunction_def word_less_nat_alt)
  obtain f where f: "m' = m1\<lparr>m_functions := (m_functions m1)[?i := f]\<rparr>" "fn_funcType f = m_funcTypes m ! unat ti"
      "length (names f) = length (names (m_functions m1 ! ?i))" "ti < numFuncTypes m"
    using assms(3) m1 get le same
    by (auto simp: Module_AddFunction_def Let_def split: if_splits option.splits)
  have "i < ?i \<Longrightarrow> m_functions m1 ! i = m_functions m ! i" for i
    using P le assms(1) by (metis less_le_trans module_ok_def nth_take word_le_nat_alt)
  moreover have "length (names (m_functions m1 ! ?i)) = 3" using P le by (auto simp: module_ok_def)
  ultimately show ?thesis
    using f same P inc le by (auto simp: module_ok_def word_le_nat_alt set_update_subset_insert [THEN subsetD]
        dest!: set_update_subset_insert [THEN subsetD])
qed

section \<open>Linking changes exactly the matching imports\<close>

lemma FindAndLink_loop_length:
  "FindAndLink_loop ok cr pool P sig fs r = (r', fs') \<Longrightarrow> length fs' = length fs"
  by (induction fs arbitrary: r fs') (auto split: if_splits sum.splits option.splits prod.splits)

lemma FindAndLink_loop_others:
  "FindAndLink_loop ok cr pool P sig fs r = (r', fs') \<Longrightarrow> i < length fs \<Longrightarrow> \<not> P (fs ! i) \<Longrightarrow> fs' ! i = fs ! i"
proof (induction fs arbitrary: r fs' i)
  case (Cons f fs)
  then show ?case by (cases i) (auto split: if_splits sum.splits option.splits prod.splits)
qed simp

lemma FindAndLink_loop_none:
  "\<forall>f \<in> set fs. \<not> P f \<Longrightarrow> FindAndLink_loop ok cr pool P sig fs r = (r, fs)"
  by (induction fs) auto

lemma FindAndLink_loop_success:
  "FindAndLink_loop ok cr pool P sig fs r = (None, fs') \<Longrightarrow> i < length fs \<Longrightarrow> P (fs ! i) \<Longrightarrow> cr (fs ! i) = Inr (fs' ! i)"
proof (induction fs arbitrary: r fs' i)
  case (Cons f fs)
  then show ?case by (cases i) (auto split: if_splits sum.splits option.splits prod.splits)
qed simp

lemma FindAndLink_loop_found:
  "FindAndLink_loop ok cr pool P sig fs (Some e) = (None, fs') \<Longrightarrow> \<exists>f \<in> set fs. P f"
  using FindAndLink_loop_none [of fs P ok cr pool sig "Some e"] by force

section \<open>Properties\<close>

text \<open>Adding a function to a module keeps the arrays and their counts consistent, gives the
  new function the type its index names and leaves every earlier function as it was; the type
  index is always checked against the module's types.\<close>

theorem add_function_correct:
  assumes "module_ok m" "numFunctions m + 1 \<noteq> 0" "Module_AddFunction ok m ti info = (None, m')"
  shows "module_ok m' \<and> numFunctions m' = numFunctions m + 1 \<and> ti < numFuncTypes m
    \<and> fn_funcType (m_functions m' ! unat (numFunctions m)) = m_funcTypes m ! unat ti
    \<and> (\<forall>i < unat (numFunctions m). m_functions m' ! i = m_functions m ! i)"
  using Module_AddFunction_ok [OF assms] .

definition example_module :: M3Module where
  "example_module = zero_module\<lparr>numFuncTypes := 1, m_funcTypes := [Some 5]\<rparr>"

theorem add_function_correct_witness:
  "module_ok (snd (Module_AddFunction (\<lambda>_. True) example_module 0 None))
   \<and> fn_funcType (m_functions (snd (Module_AddFunction (\<lambda>_. True) example_module 0 None)) ! 0) = Some 5"
  using add_function_correct [of example_module "\<lambda>_. True" 0 None
      "snd (Module_AddFunction (\<lambda>_. True) example_module 0 None)"]
  by (simp add: example_module_def zero_module_def module_ok_def Module_AddFunction_def Module_PreallocFunctions_def
      m3_ReallocArray_def Module_GetFunction_def zero_function_def Let_def)

text \<open>When the array of globals cannot be grown, \<^verbatim>\<open>Module_AddGlobal\<close> leaves a module whose
  count is ahead of its (null) array, and freeing that module, which \<^verbatim>\<open>m3_ParseModule\<close> does on
  every error, dereferences it. A failed allocation thus never ends in a clean error.\<close>

theorem add_global_failure_unsafe:
  "fst (Module_AddGlobal ok m t mu imp) = Some m3Err_mallocFailed \<Longrightarrow> numGlobals m + 1 \<noteq> 0 \<Longrightarrow>
    m3_FreeModule (Some (fst (snd (Module_AddGlobal ok m t mu imp)))) = Inl C_undefined"
  by (auto simp: Module_AddGlobal_def m3_FreeModule_def Let_def throwif_def unat_eq_0 word_neq_0_conv
      split: option.splits if_splits)

theorem add_global_failure_unsafe_witness:
  "m3_FreeModule (Some (fst (snd (Module_AddGlobal (\<lambda>_. False) zero_module 1 True False)))) = Inl C_undefined"
  by (rule add_global_failure_unsafe) (simp_all add: Module_AddGlobal_def m3_ReallocArray_def zero_module_def)

text \<open>Linking a host function succeeds only if some import bears its names, it compiles every
  import that does, and touches nothing else of the module.\<close>

theorem link_exact:
  assumes "FindAndLinkFunction ok compile_raw pool m mod_name fun_name sig = (r, m')"
  shows "(\<forall>i < unat (numFunctions m). \<not> link_matches mod_name fun_name (m_functions m ! i)
            \<longrightarrow> m_functions m' ! i = m_functions m ! i)
    \<and> m' = m\<lparr>m_functions := m_functions m'\<rparr> \<and> length (m_functions m') = length (m_functions m)
    \<and> (r = None \<longrightarrow>
        (\<exists>i < unat (numFunctions m). link_matches mod_name fun_name (m_functions m ! i))
        \<and> (\<forall>i < unat (numFunctions m). link_matches mod_name fun_name (m_functions m ! i)
            \<longrightarrow> compile_raw (m_functions m ! i) = Inr (m_functions m' ! i)))"
proof (cases "has_runtime m \<and> unat (numFunctions m) \<le> length (m_functions m)")
  case True
  let ?n = "unat (numFunctions m)" and ?P = "link_matches mod_name fun_name"
  obtain fs where fs: "FindAndLink_loop ok compile_raw pool ?P sig (take ?n (m_functions m))
      (Some m3Err_functionLookupFailed) = (r, fs)" and m': "m' = m\<lparr>m_functions := fs @ drop ?n (m_functions m)\<rparr>"
    using assms True by (auto simp: FindAndLinkFunction_def Let_def split: prod.splits)
  have len: "length fs = ?n" using FindAndLink_loop_length [OF fs] True by simp
  have nth: "i < ?n \<Longrightarrow> m_functions m' ! i = fs ! i" "i < ?n \<Longrightarrow> take ?n (m_functions m) ! i = m_functions m ! i" for i
    using len m' by (simp_all add: nth_append)
  have found: "\<exists>i < ?n. ?P (m_functions m ! i)" if "r = None"
    using FindAndLink_loop_found fs that True
    by (metis (no_types, lifting) in_set_conv_nth length_take min.absorb2 nth_take)
  show ?thesis
    using FindAndLink_loop_others [OF fs] FindAndLink_loop_success [of ok compile_raw pool ?P sig "take ?n (m_functions m)"]
      fs found nth len m' True by auto
next
  case False
  then have "m' = m" "r \<noteq> None" using assms by (auto simp: FindAndLinkFunction_def split: if_splits)
  then show ?thesis by auto
qed

definition importing_module :: M3Module where
  "importing_module = zero_module\<lparr>has_runtime := True, numFunctions := 1, allFunctions := 1, m_functions :=
     [zero_function\<lparr>fn_import := \<lparr>moduleUtf8 = Some (ascii ''env''), fieldUtf8 = Some (ascii ''f'')\<rparr>\<rparr>]\<rparr>"

definition mark_compiled :: "M3Function \<Rightarrow> M3Function result" where
  "mark_compiled f = Inr (f\<lparr>compiled := True\<rparr>)"

theorem link_exact_witness:
  "\<exists>m'. FindAndLinkFunction (\<lambda>_. True) mark_compiled [] importing_module (ascii ''*'') (ascii ''f'') None = (None, m')
     \<and> mark_compiled (m_functions importing_module ! 0) = Inr (m_functions m' ! 0)"
proof -
  have m: "link_matches (ascii ''*'') (ascii ''f'') (m_functions importing_module ! 0)"
    by (simp add: importing_module_def link_matches_def strcmp_eq_def cstr_def ascii_def)
  have n: "numFunctions importing_module = 1" "has_runtime importing_module" "length (m_functions importing_module) = 1"
    by (simp_all add: importing_module_def)
  obtain f where f: "m_functions importing_module = [f]" using n(3) by (auto simp: length_Suc_conv)
  obtain m' where m': "FindAndLinkFunction (\<lambda>_. True) mark_compiled [] importing_module (ascii ''*'') (ascii ''f'') None = (None, m')"
    using m n f by (simp add: FindAndLinkFunction_def Let_def mark_compiled_def)
  show ?thesis using link_exact [OF m'] m m' n by auto
qed

end
