(* ===== verification/M3_Compile.thy ===== *)
theory M3_Compile
  imports M3_Module
begin

text \<open>
  The compiler's view of the operand stack: \<^verbatim>\<open>src/m3_compile.c\<close>, from the slot allocator to
  constants. Every Wasm stack entry has a slot of the execution stack, or sits in one of the
  two registers (a slot alias); \<^verbatim>\<open>m3Slots\<close> counts the uses of each slot. Arrays of the struct
  are functions of the index with the bounds of the C arrays checked at every store. Emission
  goes to the list \<open>code\<close>, the words in the order they are emitted (across the page bridges
  of \<^verbatim>\<open>EnsureCodePageNumLines\<close>, which theory \<open>M3_Emit\<close> models); \<open>page_ok n\<close> says whether the
  \<open>n\<close>-th request for room in a page is granted.
\<close>

section \<open>The compilation state\<close>

text \<open>
  The operations whose address the compiler emits; \<open>o_X\<close> is \<^verbatim>\<open>op_X\<close> where the interpreter's theories
  use that name. \<open>o_Table\<close> is an operation of the table \<^verbatim>\<open>c_operations\<close>, named by its type, name and
  operand form; \<open>o_Select\<close> is named by its type and form.
\<close>

datatype m3_op =
    op_NULL | op_SetSlot u8 | op_SetRegister u8 | op_SetGlobal u8 | op_PreserveSetSlot u8
  | op_CopySlot_32 | op_CopySlot_64 | op_PreserveCopySlot_32 | op_PreserveCopySlot_64
  | op_Const32 | op_Const64 | op_GetGlobal_s32 | op_GetGlobal_s64 | op_SetGlobal_s32 | op_SetGlobal_s64
  | op_Entry | op_Return
  | o_Branch | o_BranchIf_r | o_BranchIf_s | o_BranchIfPrologue_r | o_BranchIfPrologue_s | o_BranchTable
  | o_ContinueLoop | o_ContinueLoopIf | o_Loop | o_If_r | o_If_s | o_Call | o_Compile | o_CallIndirect
  | o_MemSize | o_MemGrow | o_MemCopy | o_MemFill | o_Unreachable
  | o_Select u8 string | o_Table string string string

text \<open>
  A code position is a page with a line of it; a page here is the chain of code pages that bridges
  join. A pointer is the position, or the index of the global, function or function type (in the
  environment's pool) it points to.
\<close>

type_synonym pc_t = "nat \<times> nat"

datatype code_word = W_op m3_op | W_32 u32 | W_64 u64 | W_global nat
  | W_pc "pc_t option" | W_function nat | W_compiled nat | W_module | W_type "nat option"

record M3CompilationScope =
  sc_pc :: "pc_t option"
  patches :: "pc_t option"
  depth :: int
  exitStackIndex :: u16
  blockStackIndex :: u16
  sc_type :: "M3FuncType option"
  sc_opcode :: u16
  isPolymorphic :: bool

text \<open>
  \<open>outer\<close> has the enclosing scopes, the innermost first. \<open>code\<close> has the words of the current page
  \<open>cur_page\<close>, \<open>shelf\<close> those of the pages that are not current, \<open>numPages\<close> counts the pages used so far,
  and \<open>requests\<close> the requests for room in a page.
\<close>

record M3Compilation =
  co_wasm :: nat
  co_wasmEnd :: nat
  has_page :: bool
  code :: "code_word list"
  cur_page :: nat
  shelf :: "nat \<Rightarrow> code_word list"
  numPages :: nat
  requests :: nat
  block :: M3CompilationScope
  outer :: "M3CompilationScope list"
  co_function :: "M3Function option"
  stackFirstDynamicIndex :: u16
  stackIndex :: u16
  slotFirstConstIndex :: u16
  slotMaxConstIndex :: u16
  slotFirstLocalIndex :: u16
  slotFirstDynamicIndex :: u16
  maxStackSlots :: u16
  constants :: "nat \<Rightarrow> u32"
  wasmStack :: "nat \<Rightarrow> u16"
  typeStack :: "nat \<Rightarrow> u8"
  m3Slots :: "nat \<Rightarrow> u8"
  slotMaxAllocatedIndexPlusOne :: u16
  regStackIndexPlusOne :: "nat \<Rightarrow> u16"
  previousOpcode :: u16

abbreviation (input) d_m3MaxFunctionStackHeight :: nat where "d_m3MaxFunctionStackHeight \<equiv> 2000"
abbreviation (input) d_m3MaxFunctionSlots :: nat where "d_m3MaxFunctionSlots \<equiv> 4000"
abbreviation (input) d_m3MaxConstantTableSize :: nat where "d_m3MaxConstantTableSize \<equiv> 120"
abbreviation (input) d_m3Reg0SlotAlias :: u16 where "d_m3Reg0SlotAlias \<equiv> 60000"
abbreviation (input) d_m3Fp0SlotAlias :: u16 where "d_m3Fp0SlotAlias \<equiv> 60002"
abbreviation (input) c_slotUnused :: u16 where "c_slotUnused \<equiv> 0xFFFF"

text \<open>The state after \<^verbatim>\<open>memset\<close>, with a code range.\<close>

definition zero_compilation :: "nat \<Rightarrow> nat \<Rightarrow> M3Compilation" where
  "zero_compilation wasm wasm_end = \<lparr>co_wasm = wasm, co_wasmEnd = wasm_end, has_page = False, code = [],
     cur_page = 0, shelf = (\<lambda>_. []), numPages = 0, requests = 0,
     block = \<lparr>sc_pc = None, patches = None, depth = 0, exitStackIndex = 0, blockStackIndex = 0, sc_type = None,
              sc_opcode = 0, isPolymorphic = False\<rparr>,
     outer = [], co_function = None,
     stackFirstDynamicIndex = 0, stackIndex = 0, slotFirstConstIndex = 0, slotMaxConstIndex = 0,
     slotFirstLocalIndex = 0, slotFirstDynamicIndex = 0, maxStackSlots = 0, constants = (\<lambda>_. 0),
     wasmStack = (\<lambda>_. 0), typeStack = (\<lambda>_. 0), m3Slots = (\<lambda>_. 0), slotMaxAllocatedIndexPlusOne = 0,
     regStackIndexPlusOne = (\<lambda>_. 0), previousOpcode = 0\<rparr>"

section \<open>Emission\<close>

definition emit_word :: "M3Compilation \<Rightarrow> code_word \<Rightarrow> M3Compilation" where
  "emit_word o' w = (if has_page o' then o'\<lparr>code := code o' @ [w]\<rparr> else o')"

definition emit_op :: "(nat \<Rightarrow> bool) \<Rightarrow> M3Compilation \<Rightarrow> m3_op \<Rightarrow> M3Compilation result" where
  "emit_op page_ok o' op =
    (if has_page o' then
       if page_ok (requests o') then Inr (emit_word (o'\<lparr>requests := requests o' + 1\<rparr>) (W_op op)) else Inl m3Err_mallocFailedCodePage
     else Inr o')"

definition emit_slot :: "M3Compilation \<Rightarrow> u16 \<Rightarrow> M3Compilation" where
  "emit_slot o' slot = emit_word o' (W_32 (ucast slot))"

text \<open>A table of operations indexed by value type: five entries, the first one null.\<close>

definition typed_op :: "(u8 \<Rightarrow> m3_op) \<Rightarrow> u8 \<Rightarrow> m3_op result" where
  "typed_op ops type = (if type = 0 then Inr op_NULL else if type \<le> 4 then Inr (ops type) else Inl C_undefined)"

section \<open>Slots\<close>

definition GetTypeNumSlots :: "u8 \<Rightarrow> u16" where
  "GetTypeNumSlots i_type = (if Is64BitType i_type then 2 else 1)"

definition AlignSlotToType :: "u16 \<Rightarrow> u8 \<Rightarrow> u16" where
  "AlignSlotToType slot i_type = (let mask = GetTypeNumSlots i_type - 1 in (slot + mask) AND NOT mask)"

definition GetStackTopIndex :: "M3Compilation \<Rightarrow> int" where
  "GetStackTopIndex o' = sint (ucast (stackIndex o' - 1) :: 16 word)"

definition GetStackTypeFromTop :: "M3Compilation \<Rightarrow> u16 \<Rightarrow> u8" where
  "GetStackTypeFromTop o' i_offset =
    (let i_offset = i_offset + 1 in
     if stackIndex o' \<ge> i_offset then
       let index = stackIndex o' - i_offset in
       if index \<ge> stackFirstDynamicIndex o' then typeStack o' (unat index) else c_m3Type_none
     else c_m3Type_none)"

definition GetStackTopType :: "M3Compilation \<Rightarrow> u8" where
  "GetStackTopType o' = GetStackTypeFromTop o' 0"

definition GetStackTypeFromBottom :: "M3Compilation \<Rightarrow> u16 \<Rightarrow> u8" where
  "GetStackTypeFromBottom o' i_offset =
    (if i_offset < stackIndex o' then typeStack o' (unat i_offset) else c_m3Type_none)"

definition IsConstantSlot :: "M3Compilation \<Rightarrow> u16 \<Rightarrow> bool" where
  "IsConstantSlot o' i_slot \<longleftrightarrow> i_slot \<ge> slotFirstConstIndex o' \<and> i_slot < slotMaxConstIndex o'"

definition IsSlotAllocated :: "M3Compilation \<Rightarrow> nat \<Rightarrow> bool" where
  "IsSlotAllocated o' i_slot \<longleftrightarrow> m3Slots o' i_slot \<noteq> 0"

definition IsStackIndexInRegister :: "M3Compilation \<Rightarrow> int \<Rightarrow> bool" where
  "IsStackIndexInRegister o' i_stackIndex =
    (if i_stackIndex \<ge> 0 \<and> i_stackIndex < uint (stackIndex o')
     then wasmStack o' (nat i_stackIndex) \<ge> d_m3Reg0SlotAlias else False)"

definition GetNumBlockValuesOnStack :: "M3Compilation \<Rightarrow> u16" where
  "GetNumBlockValuesOnStack o' = stackIndex o' - blockStackIndex (block o')"

definition IsStackTopInRegister :: "M3Compilation \<Rightarrow> bool" where
  "IsStackTopInRegister o' = IsStackIndexInRegister o' (GetStackTopIndex o')"

definition IsStackTopInSlot :: "M3Compilation \<Rightarrow> bool" where
  "IsStackTopInSlot o' \<longleftrightarrow> \<not> IsStackTopInRegister o'"

definition GetStackTopSlotNumber :: "M3Compilation \<Rightarrow> u16" where
  "GetStackTopSlotNumber o' =
    (let i = GetStackTopIndex o' in if i \<ge> 0 then wasmStack o' (nat i) else c_slotUnused)"

definition GetSlotForStackIndex :: "M3Compilation \<Rightarrow> u16 \<Rightarrow> u16" where
  "GetSlotForStackIndex o' i_stackIndex =
    (if i_stackIndex < stackIndex o' then wasmStack o' (unat i_stackIndex) else c_slotUnused)"

definition GetExtraSlotForStackIndex :: "M3Compilation \<Rightarrow> u16 \<Rightarrow> u16" where
  "GetExtraSlotForStackIndex o' i_stackIndex =
    (let baseSlot = GetSlotForStackIndex o' i_stackIndex in
     if baseSlot \<noteq> c_slotUnused
     then baseSlot + (GetTypeNumSlots (GetStackTypeFromBottom o' i_stackIndex) - 1)
     else baseSlot)"

definition TouchSlot :: "M3Compilation \<Rightarrow> u16 \<Rightarrow> M3Compilation" where
  "TouchSlot o' i_slot = o'\<lparr>maxStackSlots := max (maxStackSlots o') (i_slot + 1)\<rparr>"

definition MarkSlotAllocated :: "M3Compilation \<Rightarrow> u16 \<Rightarrow> M3Compilation result" where
  "MarkSlotAllocated o' i_slot =
    (if unat i_slot < d_m3MaxFunctionSlots then
       Inr (TouchSlot (o'\<lparr>m3Slots := (m3Slots o')(unat i_slot := 1),
              slotMaxAllocatedIndexPlusOne := max (slotMaxAllocatedIndexPlusOne o') (i_slot + 1)\<rparr>) i_slot)
     else Inl C_undefined)"

primrec MarkSlotsAllocated :: "M3Compilation \<Rightarrow> u16 \<Rightarrow> nat \<Rightarrow> M3Compilation result" where
  "MarkSlotsAllocated o' i_slot 0 = Inr o'"
| "MarkSlotsAllocated o' i_slot (Suc n) =
    tryR (MarkSlotAllocated o' i_slot) (\<lambda>o'. MarkSlotsAllocated o' (i_slot + 1) n)"

definition MarkSlotsAllocatedByType :: "M3Compilation \<Rightarrow> u16 \<Rightarrow> u8 \<Rightarrow> M3Compilation result" where
  "MarkSlotsAllocatedByType o' i_slot i_type = MarkSlotsAllocated o' i_slot (unat (GetTypeNumSlots i_type))"

lemma unat_lt16: "unat (x :: u16) < 65536"
  using unsigned_less [where ?'a = nat, of x] by simp

lemma next_slot:
  assumes "unat (i :: u16) + unat (n - 1) < unat (e :: u16)"
  shows "unat (i + n) = unat i + unat n" "unat (i + n) \<le> unat e" "0 < unat n"
proof -
  have "unat (- 1 :: u16) = 65535" by (simp add: unsigned_minus_1_eq_mask mask_eq_exp_minus_1)
  then have "n \<noteq> 0" using assms unat_lt16 [of e] by auto
  then have n: "unat (n - 1) = unat n - 1" "0 < unat n"
    by (auto simp: unat_minus_one word_neq_0_conv word_less_nat_alt)
  then have "unat i + unat n < 2 ^ LENGTH(16)" using assms unat_lt16 [of e] by simp
  then show "unat (i + n) = unat i + unat n" by (simp add: unat_add_lem [THEN iffD1])
  with assms n show "unat (i + n) \<le> unat e" "0 < unat n" by auto
qed

text \<open>The search loop of \<^verbatim>\<open>AllocateSlotsWithinRange\<close>: the comparison is done in \<^verbatim>\<open>int\<close>.\<close>

function FindFreeSlots :: "M3Compilation \<Rightarrow> u16 \<Rightarrow> u16 \<Rightarrow> u16 \<Rightarrow> u16 option" where
  "FindFreeSlots o' numSlots i i_endSlot =
    (let searchOffset = numSlots - 1 in
     if unat i + unat searchOffset < unat i_endSlot then
       if m3Slots o' (unat i) = 0 \<and> m3Slots o' (unat i + unat searchOffset) = 0 then Some i
       else FindFreeSlots o' numSlots (i + numSlots) i_endSlot
     else None)"
  by pat_completeness auto

termination
proof (relation "measure (\<lambda>(o', n, i, e). unat e - unat i)", goal_cases)
  case (2 o' n i e off)
  then show ?case using next_slot [of i n e] by auto
qed simp

declare FindFreeSlots.simps [simp del]

definition AllocateSlotsWithinRange ::
    "M3Compilation \<Rightarrow> u8 \<Rightarrow> u16 \<Rightarrow> u16 \<Rightarrow> (u16 \<times> M3Compilation) result" where
  "AllocateSlotsWithinRange o' i_type i_startSlot i_endSlot =
    (let numSlots = GetTypeNumSlots i_type in
     case FindFreeSlots o' numSlots (AlignSlotToType i_startSlot i_type) i_endSlot of
       Some i \<Rightarrow> tryR (MarkSlotsAllocated o' i (unat numSlots)) (\<lambda>o'. Inr (i, o'))
     | None \<Rightarrow> Inl m3Err_functionStackOverflow)"

definition AllocateSlots :: "M3Compilation \<Rightarrow> u8 \<Rightarrow> (u16 \<times> M3Compilation) result" where
  "AllocateSlots o' i_type =
    AllocateSlotsWithinRange o' i_type (slotFirstDynamicIndex o') (of_nat d_m3MaxFunctionSlots)"

definition AllocateConstantSlots :: "M3Compilation \<Rightarrow> u8 \<Rightarrow> (u16 \<times> M3Compilation) result" where
  "AllocateConstantSlots o' i_type =
    (let maxTableIndex = slotFirstConstIndex o' + of_nat d_m3MaxConstantTableSize in
     AllocateSlotsWithinRange o' i_type (slotFirstConstIndex o') (min (slotFirstDynamicIndex o') maxTableIndex))"

definition IncrementSlotUsageCount :: "M3Compilation \<Rightarrow> u16 \<Rightarrow> M3Compilation result" where
  "IncrementSlotUsageCount o' i_slot =
    (if m3Slots o' (unat i_slot) < 0xFF
     then Inr (o'\<lparr>m3Slots := (m3Slots o')(unat i_slot := m3Slots o' (unat i_slot) + 1)\<rparr>)
     else Inl (M3Msg ''slot usage count overflow''))"

primrec DeallocateSlots :: "M3Compilation \<Rightarrow> nat \<Rightarrow> nat \<Rightarrow> M3Compilation" where
  "DeallocateSlots o' i_slot 0 = o'"
| "DeallocateSlots o' i_slot (Suc n) =
    DeallocateSlots (o'\<lparr>m3Slots := (m3Slots o')(i_slot := m3Slots o' i_slot - 1)\<rparr>) (i_slot + 1) n"

definition DeallocateSlot :: "M3Compilation \<Rightarrow> u16 \<Rightarrow> u8 \<Rightarrow> M3Compilation result" where
  "DeallocateSlot o' i_slot i_type =
    (if unat i_slot + unat (GetTypeNumSlots i_type) \<le> d_m3MaxFunctionSlots
     then Inr (DeallocateSlots o' (unat i_slot) (unat (GetTypeNumSlots i_type)))
     else Inl C_undefined)"

section \<open>Registers\<close>

text \<open>Register 0 holds integers, register 1 floats.\<close>

definition IsRegisterAllocated :: "M3Compilation \<Rightarrow> nat \<Rightarrow> bool" where
  "IsRegisterAllocated o' i_register \<longleftrightarrow> regStackIndexPlusOne o' i_register \<noteq> 0"

definition IsRegisterSlotAlias :: "u16 \<Rightarrow> bool" where
  "IsRegisterSlotAlias i_slot \<longleftrightarrow> i_slot \<ge> d_m3Reg0SlotAlias \<and> i_slot \<noteq> c_slotUnused"

definition IsFpRegisterSlotAlias :: "u16 \<Rightarrow> bool" where
  "IsFpRegisterSlotAlias i_slot \<longleftrightarrow> i_slot = d_m3Fp0SlotAlias"

definition reg_select :: "bool \<Rightarrow> nat" where
  "reg_select fp = (if fp then 1 else 0)"

definition IsRegisterTypeAllocated :: "M3Compilation \<Rightarrow> u8 \<Rightarrow> bool" where
  "IsRegisterTypeAllocated o' i_type = IsRegisterAllocated o' (reg_select (IsFpType i_type))"

definition AllocateRegister :: "M3Compilation \<Rightarrow> nat \<Rightarrow> u16 \<Rightarrow> M3Compilation" where
  "AllocateRegister o' i_register i_stackIndex =
    o'\<lparr>regStackIndexPlusOne := (regStackIndexPlusOne o')(i_register := i_stackIndex + 1)\<rparr>"

definition DeallocateRegister :: "M3Compilation \<Rightarrow> nat \<Rightarrow> M3Compilation" where
  "DeallocateRegister o' i_register =
    o'\<lparr>regStackIndexPlusOne := (regStackIndexPlusOne o')(i_register := 0)\<rparr>"

definition GetRegisterStackIndex :: "M3Compilation \<Rightarrow> nat \<Rightarrow> u16" where
  "GetRegisterStackIndex o' i_register = regStackIndexPlusOne o' i_register - 1"

text \<open>The loop lowers \<^verbatim>\<open>slotMaxAllocatedIndexPlusOne\<close> to just above the highest slot in use.\<close>

function GetMaxUsedSlotPlusOne :: "M3Compilation \<Rightarrow> u16 \<times> M3Compilation" where
  "GetMaxUsedSlotPlusOne o' =
    (if slotMaxAllocatedIndexPlusOne o' > slotFirstDynamicIndex o'
        \<and> \<not> IsSlotAllocated o' (unat (slotMaxAllocatedIndexPlusOne o' - 1))
     then GetMaxUsedSlotPlusOne (o'\<lparr>slotMaxAllocatedIndexPlusOne := slotMaxAllocatedIndexPlusOne o' - 1\<rparr>)
     else (slotMaxAllocatedIndexPlusOne o', o'))"
  by pat_completeness auto
termination
  by (relation "measure (\<lambda>o'. unat (slotMaxAllocatedIndexPlusOne o'))")
    (auto simp: unat_minus_one word_less_nat_alt word_neq_0_conv)

declare GetMaxUsedSlotPlusOne.simps [simp del]

definition PreserveRegisterIfOccupied :: "(nat \<Rightarrow> bool) \<Rightarrow> M3Compilation \<Rightarrow> u8 \<Rightarrow> M3Compilation result" where
  "PreserveRegisterIfOccupied page_ok o' i_registerType =
    (let regSelect = reg_select (IsFpType i_registerType) in
     if IsRegisterAllocated o' regSelect then
       let stackIndex = GetRegisterStackIndex o' regSelect;
           o' = DeallocateRegister o' regSelect;
           type = GetStackTypeFromBottom o' stackIndex in
       tryR (AllocateSlots o' type) (\<lambda>(slot, o').
         if unat stackIndex < d_m3MaxFunctionStackHeight then
           let o' = o'\<lparr>wasmStack := (wasmStack o')(unat stackIndex := slot)\<rparr> in
           tryR (typed_op op_SetSlot type) (\<lambda>op.
           tryR (emit_op page_ok o' op) (\<lambda>o'.
             Inr (emit_slot o' slot)))
         else Inl C_undefined)
     else Inr o')"

definition PreserveRegisters :: "(nat \<Rightarrow> bool) \<Rightarrow> M3Compilation \<Rightarrow> M3Compilation result" where
  "PreserveRegisters page_ok o' =
    tryR (PreserveRegisterIfOccupied page_ok o' c_m3Type_f64) (\<lambda>o'.
      PreserveRegisterIfOccupied page_ok o' c_m3Type_i64)"

definition PreserveNonTopRegisters :: "(nat \<Rightarrow> bool) \<Rightarrow> M3Compilation \<Rightarrow> M3Compilation result" where
  "PreserveNonTopRegisters page_ok o' =
    (let stackTop = GetStackTopIndex o' in
     if stackTop \<ge> 0 then
       tryR (if IsRegisterAllocated o' 0 \<and> uint (GetRegisterStackIndex o' 0) \<noteq> stackTop
             then PreserveRegisterIfOccupied page_ok o' c_m3Type_i64 else Inr o') (\<lambda>o'.
         if IsRegisterAllocated o' 1 \<and> uint (GetRegisterStackIndex o' 1) \<noteq> stackTop
         then PreserveRegisterIfOccupied page_ok o' c_m3Type_f64 else Inr o')
     else Inr o')"

section \<open>Push and pop\<close>

definition Push :: "M3Compilation \<Rightarrow> u8 \<Rightarrow> u16 \<Rightarrow> M3Compilation result" where
  "Push o' i_type i_slot =
    (let si = stackIndex o';
         o' = o'\<lparr>stackIndex := si + 1\<rparr> in
     if unat si < d_m3MaxFunctionStackHeight then
       let o' = o'\<lparr>wasmStack := (wasmStack o')(unat si := i_slot),
                   typeStack := (typeStack o')(unat si := i_type)\<rparr> in
       Inr (if IsRegisterSlotAlias i_slot
            then AllocateRegister o' (reg_select (IsFpRegisterSlotAlias i_slot)) si
            else o')
     else Inl m3Err_functionStackOverflow)"

definition PushRegister :: "M3Compilation \<Rightarrow> u8 \<Rightarrow> M3Compilation result" where
  "PushRegister o' i_type =
    Push o' i_type (if IsFpType i_type then d_m3Fp0SlotAlias else d_m3Reg0SlotAlias)"

definition Pop :: "M3Compilation \<Rightarrow> M3Compilation result" where
  "Pop o' =
    (if stackIndex o' > blockStackIndex (block o') then
       let o' = o'\<lparr>stackIndex := stackIndex o' - 1\<rparr>;
           slot = wasmStack o' (unat (stackIndex o'));
           type = typeStack o' (unat (stackIndex o')) in
       if IsRegisterSlotAlias slot then Inr (DeallocateRegister o' (reg_select (IsFpRegisterSlotAlias slot)))
       else if slot \<ge> slotFirstDynamicIndex o' then DeallocateSlot o' slot type
       else Inr o'
     else if \<not> isPolymorphic (block o') then Inl m3Err_functionStackUnderrun
     else Inr o')"

definition PopType :: "M3Compilation \<Rightarrow> u8 \<Rightarrow> M3Compilation result" where
  "PopType o' i_type =
    (if i_type = GetStackTopType o' \<or> isPolymorphic (block o') then Pop o' else Inl m3Err_typeMismatch)"

definition PushAllocatedSlotAndEmit_impl :: "M3Compilation \<Rightarrow> u8 \<Rightarrow> bool \<Rightarrow> M3Compilation result" where
  "PushAllocatedSlotAndEmit_impl o' i_type i_doEmit =
    tryR (AllocateSlots o' i_type) (\<lambda>(slot, o').
    tryR (Push o' i_type slot) (\<lambda>o'.
      Inr (if i_doEmit then emit_slot o' slot else o')))"

definition PushAllocatedSlotAndEmit :: "M3Compilation \<Rightarrow> u8 \<Rightarrow> M3Compilation result" where
  "PushAllocatedSlotAndEmit o' i_type = PushAllocatedSlotAndEmit_impl o' i_type True"

definition PushAllocatedSlot :: "M3Compilation \<Rightarrow> u8 \<Rightarrow> M3Compilation result" where
  "PushAllocatedSlot o' i_type = PushAllocatedSlotAndEmit_impl o' i_type False"

section \<open>The invariant of the slot allocator\<close>

abbreviation num_slots :: "u8 \<Rightarrow> nat" where
  "num_slots ty \<equiv> unat (GetTypeNumSlots ty)"

lemma num_slots: "num_slots ty = (if Is64BitType ty then 2 else 1)"
  by (simp add: GetTypeNumSlots_def)

lemma num_slots_bounds: "0 < num_slots ty" "num_slots ty \<le> 2"
  by (simp_all add: num_slots)

text \<open>The slots a stack entry occupies: none when it sits in a register.\<close>

definition occupies :: "M3Compilation \<Rightarrow> nat \<Rightarrow> nat set" where
  "occupies o' k = (if wasmStack o' k \<ge> d_m3Reg0SlotAlias then {}
     else {unat (wasmStack o' k) ..< unat (wasmStack o' k) + num_slots (typeStack o' k)})"

text \<open>The entries that use a slot; \<open>D\<close> are dead records (see \<^verbatim>\<open>CompileBlock\<close>).\<close>

definition users :: "nat set \<Rightarrow> M3Compilation \<Rightarrow> nat \<Rightarrow> nat set" where
  "users D o' s = {k. k < unat (stackIndex o') \<and> k \<notin> D \<and> s \<in> occupies o' k}"

text \<open>An entry is in a register, or its slots are all dynamic or all below the dynamic ones.\<close>

definition entry_ok :: "M3Compilation \<Rightarrow> nat \<Rightarrow> bool" where
  "entry_ok o' k \<longleftrightarrow> wasmStack o' k = d_m3Reg0SlotAlias \<or> wasmStack o' k = d_m3Fp0SlotAlias
     \<or> unat (wasmStack o' k) + num_slots (typeStack o' k) \<le> d_m3MaxFunctionSlots
       \<and> (unat (slotFirstDynamicIndex o') \<le> unat (wasmStack o' k)
          \<or> unat (wasmStack o' k) + num_slots (typeStack o' k) \<le> unat (slotFirstDynamicIndex o'))"

definition reg_alias :: "nat \<Rightarrow> u16" where
  "reg_alias r = (if r = 0 then d_m3Reg0SlotAlias else d_m3Fp0SlotAlias)"

definition reg_ok :: "nat set \<Rightarrow> M3Compilation \<Rightarrow> nat \<Rightarrow> bool" where
  "reg_ok D o' r \<longleftrightarrow>
    (\<forall>k < unat (stackIndex o'). k \<notin> D \<longrightarrow> (wasmStack o' k = reg_alias r \<longleftrightarrow> unat (regStackIndexPlusOne o' r) = k + 1))
    \<and> (regStackIndexPlusOne o' r \<noteq> 0 \<longrightarrow>
        (\<exists>k < unat (stackIndex o'). k \<notin> D \<and> unat (regStackIndexPlusOne o' r) = k + 1))"

text \<open>\<open>P s\<close> is the number of uses of a slot that have been allocated and not pushed yet.\<close>

definition stack_ok :: "nat set \<Rightarrow> (nat \<Rightarrow> nat) \<Rightarrow> M3Compilation \<Rightarrow> bool" where
  "stack_ok D P o' \<longleftrightarrow>
     unat (stackIndex o') \<le> d_m3MaxFunctionStackHeight
   \<and> unat (slotFirstDynamicIndex o') \<le> d_m3MaxFunctionSlots
   \<and> blockStackIndex (block o') \<le> stackIndex o'
   \<and> D \<subseteq> {..< unat (blockStackIndex (block o'))}
   \<and> (\<forall>k < unat (stackIndex o'). k \<notin> D \<longrightarrow> entry_ok o' k)
   \<and> (\<forall>s. unat (slotFirstDynamicIndex o') \<le> s \<longrightarrow> unat (m3Slots o' s) = card (users D o' s) + P s)
   \<and> reg_ok D o' 0 \<and> reg_ok D o' 1"

definition pend :: "nat \<Rightarrow> nat \<Rightarrow> nat \<Rightarrow> nat" where
  "pend s n i = (if s \<le> i \<and> i < s + n then 1 else 0)"

lemma finite_users [simp]: "finite (users D o' s)"
  by (rule finite_subset [of _ "{..< unat (stackIndex o')}"]) (auto simp: users_def)

lemma stack_ok_init: "stack_ok {} (\<lambda>_. 0) (zero_compilation w e)"
  by (simp add: stack_ok_def zero_compilation_def users_def reg_ok_def)

subsection \<open>Allocation\<close>

lemma FindFreeSlots_Some:
  assumes "FindFreeSlots o' n i e = Some j"
  shows "unat i \<le> unat j \<and> unat j + unat (n - 1) < unat e
    \<and> m3Slots o' (unat j) = 0 \<and> m3Slots o' (unat j + unat (n - 1)) = 0 \<and> (unat j - unat i) mod unat n = 0"
  using assms
proof (induction o' n i e rule: FindFreeSlots.induct)
  case (1 o' n i e)
  show ?case
  proof (cases "unat i + unat (n - 1) < unat e")
    case True
    note step = next_slot [OF True]
    show ?thesis
    proof (cases "m3Slots o' (unat i) = 0 \<and> m3Slots o' (unat i + unat (n - 1)) = 0")
      case free: True
      with 1(2) True have "j = i" by (simp add: FindFreeSlots.simps [of o' n i e] Let_def)
      with True free show ?thesis by simp
    next
      case False
      with 1(2) True have "FindFreeSlots o' n (i + n) e = Some j"
        by (simp add: FindFreeSlots.simps [of o' n i e] Let_def split: if_splits)
      from 1(1) [OF refl True False this] step
      have *: "unat i + unat n \<le> unat j" "(unat j - (unat i + unat n)) mod unat n = 0"
        "unat j + unat (n - 1) < unat e" "m3Slots o' (unat j) = 0" "m3Slots o' (unat j + unat (n - 1)) = 0" by auto
      then have "unat j - unat i = (unat j - (unat i + unat n)) + unat n" by simp
      then have "(unat j - unat i) mod unat n = 0" using *(2) by (metis mod_add_self2)
      with * show ?thesis by auto
    qed
  next
    case False
    with 1(2) show ?thesis by (simp add: FindFreeSlots.simps [of o' n i e] Let_def)
  qed
qed

lemma FindFreeSlots_None:
  assumes "FindFreeSlots o' n i e = None" "n \<noteq> 0" "k = unat i + t * unat n" "k + unat (n - 1) < unat e"
  shows "m3Slots o' k \<noteq> 0 \<or> m3Slots o' (k + unat (n - 1)) \<noteq> 0"
  using assms
proof (induction o' n i e arbitrary: t rule: FindFreeSlots.induct)
  case (1 o' n i e)
  have lt: "unat i + unat (n - 1) < unat e" using 1(4,5) by simp
  note step = next_slot [OF lt]
  have busy: "\<not> (m3Slots o' (unat i) = 0 \<and> m3Slots o' (unat i + unat (n - 1)) = 0)"
    and rec: "FindFreeSlots o' n (i + n) e = None"
    using 1(2) lt by (auto simp: FindFreeSlots.simps [of o' n i e] Let_def split: if_splits)
  show ?case
  proof (cases t)
    case 0
    with busy 1(4) show ?thesis by auto
  next
    case (Suc u)
    with 1(4) step have "k = unat (i + n) + u * unat n" by simp
    from 1(1) [OF refl lt busy rec 1(3) this 1(5)] show ?thesis .
  qed
qed

lemma even_and_not_1: "unat ((x :: u16) AND NOT 1) = unat x div 2 * 2"
proof -
  have "x AND NOT 1 = push_bit 1 (drop_bit 1 x)"
    by (rule bit_word_eqI) (simp only: bit_and_iff bit_not_iff bit_1_iff bit_push_bit_iff bit_drop_bit_eq, auto)
  moreover have "unat (drop_bit 1 x) = unat x div 2" by (simp add: drop_bit_eq_div unat_div)
  moreover have "unat x div 2 * 2 < 65536" using unat_lt16 [of x] by simp
  ultimately show ?thesis by (simp add: push_bit_eq_mult unat_word_ariths)
qed

lemma AlignSlotToType_eq:
  assumes "unat s < 65535"
  shows "unat (AlignSlotToType s ty) = (unat s + (num_slots ty - 1)) div num_slots ty * num_slots ty"
proof (cases "Is64BitType ty")
  case True
  have "unat (s + 1) = unat s + 1" using assms by (subst unat_add_lem [THEN iffD1]) auto
  then show ?thesis using True even_and_not_1 [of "s + 1"]
    by (simp add: AlignSlotToType_def num_slots GetTypeNumSlots_def)
qed (simp add: AlignSlotToType_def num_slots GetTypeNumSlots_def)

lemma AlignSlotToType_bounds:
  assumes "unat s < 65535"
  shows "unat s \<le> unat (AlignSlotToType s ty)" "unat (AlignSlotToType s ty) mod num_slots ty = 0"
  using AlignSlotToType_eq [OF assms, of ty] by (auto simp: num_slots)

lemma MarkSlotsAllocated_aux:
  assumes "unat j + n \<le> 4000"
  shows "\<exists>f a b. MarkSlotsAllocated o' j n = Inr (o'\<lparr>m3Slots := f, slotMaxAllocatedIndexPlusOne := a, maxStackSlots := b\<rparr>)
    \<and> (\<forall>s. f s = (if unat j \<le> s \<and> s < unat j + n then 1 else m3Slots o' s))"
  using assms
proof (induction n arbitrary: o' j)
  case 0
  show ?case
    by (rule exI [of _ "m3Slots o'"], rule exI [of _ "slotMaxAllocatedIndexPlusOne o'"],
        rule exI [of _ "maxStackSlots o'"]) auto
next
  case (Suc n)
  obtain a b where 1: "MarkSlotAllocated o' j = Inr (o'\<lparr>m3Slots := (m3Slots o')(unat j := 1),
      slotMaxAllocatedIndexPlusOne := a, maxStackSlots := b\<rparr>)"
    using Suc.prems by (simp add: MarkSlotAllocated_def TouchSlot_def)
  have j: "unat (j + 1) = unat j + 1" using Suc.prems by (subst unat_add_lem [THEN iffD1]) auto
  let ?x = "o'\<lparr>m3Slots := (m3Slots o')(unat j := 1), slotMaxAllocatedIndexPlusOne := a, maxStackSlots := b\<rparr>"
  have "unat (j + 1) + n \<le> 4000" using Suc.prems j by simp
  from Suc.IH [OF this, of ?x] obtain f c d where
    f: "MarkSlotsAllocated ?x (j + 1) n = Inr (?x\<lparr>m3Slots := f, slotMaxAllocatedIndexPlusOne := c, maxStackSlots := d\<rparr>)"
      "\<And>s. f s = (if unat (j + 1) \<le> s \<and> s < unat (j + 1) + n then 1 else m3Slots ?x s)" by blast
  have "f s = (if unat j \<le> s \<and> s < unat j + Suc n then 1 else m3Slots o' s)" for s
    using f(2) [of s] unfolding j by (cases "s = unat j") auto
  moreover have "MarkSlotsAllocated o' j (Suc n) = Inr (o'\<lparr>m3Slots := f, slotMaxAllocatedIndexPlusOne := c, maxStackSlots := d\<rparr>)"
    using f(1) by (simp add: 1)
  ultimately show ?case by blast
qed

lemma MarkSlotsAllocated_ok:
  assumes "unat j + n \<le> 4000"
  shows "\<exists>a b. MarkSlotsAllocated o' j n = Inr (o'\<lparr>m3Slots := (\<lambda>s. if unat j \<le> s \<and> s < unat j + n then 1 else m3Slots o' s),
    slotMaxAllocatedIndexPlusOne := a, maxStackSlots := b\<rparr>)"
proof -
  obtain f a b where "MarkSlotsAllocated o' j n = Inr (o'\<lparr>m3Slots := f, slotMaxAllocatedIndexPlusOne := a, maxStackSlots := b\<rparr>)"
    "\<And>s. f s = (if unat j \<le> s \<and> s < unat j + n then 1 else m3Slots o' s)" using MarkSlotsAllocated_aux [OF assms] by blast
  moreover from this(2) have "f = (\<lambda>s. if unat j \<le> s \<and> s < unat j + n then 1 else m3Slots o' s)" by (rule ext)
  ultimately show ?thesis by blast
qed

text \<open>The fields the invariant reads, for states that differ in the others only.\<close>

lemma stack_ok_cong:
  assumes "stackIndex p = stackIndex o'" "slotFirstDynamicIndex p = slotFirstDynamicIndex o'"
    "blockStackIndex (block p) = blockStackIndex (block o')" "wasmStack p = wasmStack o'" "typeStack p = typeStack o'"
    "m3Slots p = m3Slots o'" "regStackIndexPlusOne p = regStackIndexPlusOne o'"
  shows "stack_ok D P p = stack_ok D P o'"
  using assms by (simp add: stack_ok_def users_def occupies_def entry_ok_def reg_ok_def)

lemma AllocateSlots_core:
  assumes fd: "unat (slotFirstDynamicIndex o') \<le> 4000"
    and cnt: "\<And>s. unat (slotFirstDynamicIndex o') \<le> s \<Longrightarrow> unat (m3Slots o' s) = card (users D o' s) + P s"
    and "AllocateSlots o' ty = Inr (j, o'')"
  shows "unat (slotFirstDynamicIndex o') \<le> unat j" "unat j + num_slots ty \<le> 4000" "unat j mod num_slots ty = 0"
    and "\<forall>s \<in> {unat j ..< unat j + num_slots ty}. users D o' s = {} \<and> P s = 0"
    and "\<exists>a b. o'' = o'\<lparr>m3Slots := (\<lambda>s. if unat j \<le> s \<and> s < unat j + num_slots ty then 1 else m3Slots o' s),
            slotMaxAllocatedIndexPlusOne := a, maxStackSlots := b\<rparr>"
proof -
  let ?n = "GetTypeNumSlots ty" and ?a = "AlignSlotToType (slotFirstDynamicIndex o') ty"
  have al: "unat (slotFirstDynamicIndex o') \<le> unat ?a" "unat ?a mod num_slots ty = 0"
    using fd AlignSlotToType_bounds [of "slotFirstDynamicIndex o'" ty] by auto
  obtain m where find: "FindFreeSlots o' ?n ?a 4000 = Some j"
    and mark: "MarkSlotsAllocated o' j (num_slots ty) = Inr o''"
    using assms(3) by (auto simp: AllocateSlots_def AllocateSlotsWithinRange_def Let_def tryR_Inr_iff split: option.splits)
  have n1: "unat (?n - 1) = num_slots ty - 1" by (simp add: GetTypeNumSlots_def)
  note F = FindFreeSlots_Some [OF find, unfolded n1]
  have "unat j + (num_slots ty - 1) < 4000" using F by simp
  then have j: "unat j + num_slots ty \<le> 4000" using num_slots_bounds(1) [of ty] by linarith
  show "unat (slotFirstDynamicIndex o') \<le> unat j" "unat j + num_slots ty \<le> 4000" using F al j by auto
  show "unat j mod num_slots ty = 0" using F al by (auto simp: num_slots split: if_splits)
  show "\<exists>a b. o'' = o'\<lparr>m3Slots := (\<lambda>s. if unat j \<le> s \<and> s < unat j + num_slots ty then 1 else m3Slots o' s),
            slotMaxAllocatedIndexPlusOne := a, maxStackSlots := b\<rparr>"
    using MarkSlotsAllocated_ok [OF j, of o'] mark by auto
  have zero: "m3Slots o' s = 0" if "s \<in> {unat j ..< unat j + num_slots ty}" for s
  proof -
    have "s = unat j \<or> s = unat j + (num_slots ty - 1)" using that num_slots_bounds [of ty] by auto
    with F show ?thesis by auto
  qed
  show "\<forall>s \<in> {unat j ..< unat j + num_slots ty}. users D o' s = {} \<and> P s = 0"
  proof
    fix s assume s: "s \<in> {unat j ..< unat j + num_slots ty}"
    then have "unat (slotFirstDynamicIndex o') \<le> s" using F al by auto
    from cnt [OF this] zero [OF s] show "users D o' s = {} \<and> P s = 0" by simp
  qed
qed

lemma AllocateSlots_Inr:
  assumes "stack_ok D P o'" "AllocateSlots o' ty = Inr (j, o'')"
  shows "stack_ok D (\<lambda>s. P s + pend (unat j) (num_slots ty) s) o''"
    and "unat (slotFirstDynamicIndex o') \<le> unat j" "unat j + num_slots ty \<le> 4000" "unat j mod num_slots ty = 0"
    and "\<forall>s \<in> {unat j ..< unat j + num_slots ty}. users D o' s = {} \<and> P s = 0"
    and "slotFirstDynamicIndex o'' = slotFirstDynamicIndex o'"
proof -
  have fd: "unat (slotFirstDynamicIndex o') \<le> 4000"
    and cnt: "\<And>s. unat (slotFirstDynamicIndex o') \<le> s \<Longrightarrow> unat (m3Slots o' s) = card (users D o' s) + P s"
    using assms(1) by (simp_all add: stack_ok_def)
  note core = AllocateSlots_core [OF fd cnt assms(2)]
  show "unat (slotFirstDynamicIndex o') \<le> unat j" "unat j + num_slots ty \<le> 4000" "unat j mod num_slots ty = 0"
    and free: "\<forall>s \<in> {unat j ..< unat j + num_slots ty}. users D o' s = {} \<and> P s = 0"
    using core by auto
  obtain a b where o'': "o'' = o'\<lparr>m3Slots := (\<lambda>s. if unat j \<le> s \<and> s < unat j + num_slots ty then 1 else m3Slots o' s),
            slotMaxAllocatedIndexPlusOne := a, maxStackSlots := b\<rparr>" using core by blast
  then show "slotFirstDynamicIndex o'' = slotFirstDynamicIndex o'" by simp
  have u: "users D o'' s = users D o' s" for s by (simp add: o'' users_def occupies_def)
  have "unat (m3Slots o'' s) = card (users D o'' s) + (P s + pend (unat j) (num_slots ty) s)"
    if "unat (slotFirstDynamicIndex o') \<le> s" for s
    using cnt [OF that] free u [of s] by (auto simp: o'' pend_def)
  with assms(1) show "stack_ok D (\<lambda>s. P s + pend (unat j) (num_slots ty) s) o''"
    by (simp add: stack_ok_def o'' entry_ok_def reg_ok_def)
qed

lemma AllocateSlots_Inl:
  assumes "unat (slotFirstDynamicIndex o') \<le> 4000" "AllocateSlots o' ty = Inl e"
  shows "e = m3Err_functionStackOverflow"
    and "\<And>k. unat (slotFirstDynamicIndex o') \<le> k \<Longrightarrow> k mod num_slots ty = 0 \<Longrightarrow> k + num_slots ty \<le> 4000 \<Longrightarrow>
      m3Slots o' k \<noteq> 0 \<or> m3Slots o' (k + num_slots ty - 1) \<noteq> 0"
proof -
  let ?n = "GetTypeNumSlots ty" and ?a = "AlignSlotToType (slotFirstDynamicIndex o') ty"
  have n1: "unat (?n - 1) = num_slots ty - 1" by (simp add: GetTypeNumSlots_def)
  have none: "FindFreeSlots o' ?n ?a 4000 = None \<and> e = m3Err_functionStackOverflow"
  proof (cases "FindFreeSlots o' ?n ?a 4000")
    case (Some j)
    from FindFreeSlots_Some [OF this, unfolded n1] have "unat j + (num_slots ty - 1) < 4000" by simp
    then have "unat j + num_slots ty \<le> 4000" using num_slots_bounds(1) [of ty] by linarith
    with MarkSlotsAllocated_ok [OF this, of o'] assms(2) Some show ?thesis
      by (auto simp: AllocateSlots_def AllocateSlotsWithinRange_def Let_def)
  qed (use assms(2) in \<open>simp add: AllocateSlots_def AllocateSlotsWithinRange_def Let_def\<close>)
  then show "e = m3Err_functionStackOverflow" by simp
  fix k assume k: "unat (slotFirstDynamicIndex o') \<le> k" "k mod num_slots ty = 0" "k + num_slots ty \<le> 4000"
  have a: "unat ?a = (unat (slotFirstDynamicIndex o') + (num_slots ty - 1)) div num_slots ty * num_slots ty"
    using assms(1) by (intro AlignSlotToType_eq) simp
  have "\<exists>t. k = unat ?a + t * num_slots ty"
  proof -
    have q: "k = (k div num_slots ty) * num_slots ty" using k(2) by (metis add.right_neutral div_mult_mod_eq)
    let ?p = "(unat (slotFirstDynamicIndex o') + (num_slots ty - 1)) div num_slots ty"
    have "?p \<le> k div num_slots ty" using k(1,2) by (auto simp: num_slots split: if_splits)
    then have "k div num_slots ty * num_slots ty = unat ?a + (k div num_slots ty - ?p) * num_slots ty"
      unfolding a by (metis add_mult_distrib le_add_diff_inverse)
    then have "k = unat ?a + (k div num_slots ty - ?p) * num_slots ty" using q by simp
    then show ?thesis by blast
  qed
  then obtain t where "k = unat ?a + t * unat ?n" by blast
  moreover have "?n \<noteq> 0" using num_slots_bounds(1) [of ty] by auto
  moreover have "k + unat (?n - 1) < unat (4000 :: u16)" using k(3) num_slots_bounds(1) [of ty] unfolding n1 by simp
  ultimately have "m3Slots o' k \<noteq> 0 \<or> m3Slots o' (k + unat (?n - 1)) \<noteq> 0" using FindFreeSlots_None none by blast
  then show "m3Slots o' k \<noteq> 0 \<or> m3Slots o' (k + num_slots ty - 1) \<noteq> 0"
    unfolding n1 using num_slots_bounds(1) [of ty] by (simp add: Nat.add_diff_assoc Suc_leI)
qed

subsection \<open>Push and pop\<close>

lemma unat_inc16: "unat (x :: u16) < 65535 \<Longrightarrow> unat (x + 1) = unat x + 1"
  by (subst unat_add_lem [THEN iffD1]) auto

lemma unat_dec16: "y < (x :: u16) \<Longrightarrow> unat (x - 1) = unat x - 1"
  by (auto simp: unat_minus_one word_neq_0_conv word_less_nat_alt)

text \<open>The state a push leads to, for a slot that is not a register.\<close>

definition pushed :: "M3Compilation \<Rightarrow> u8 \<Rightarrow> u16 \<Rightarrow> M3Compilation" where
  "pushed o' ty j = o'\<lparr>stackIndex := stackIndex o' + 1, wasmStack := (wasmStack o')(unat (stackIndex o') := j),
     typeStack := (typeStack o')(unat (stackIndex o') := ty)\<rparr>"

lemma Push_eq:
  "Push o' ty j = (if unat (stackIndex o') < 2000
    then Inr (if IsRegisterSlotAlias j
              then AllocateRegister (pushed o' ty j) (reg_select (IsFpRegisterSlotAlias j)) (stackIndex o')
              else pushed o' ty j)
    else Inl m3Err_functionStackOverflow)"
  by (simp add: Push_def pushed_def Let_def)

lemma users_pushed:
  assumes "unat (stackIndex o') < 2000" "unat (stackIndex o') \<notin> D"
  shows "users D (pushed o' ty j) s = users D o' s
    \<union> (if j < 60000 \<and> s \<in> {unat j ..< unat j + num_slots ty} then {unat (stackIndex o')} else {})"
  using assms by (auto simp: users_def occupies_def pushed_def unat_inc16 less_Suc_eq split: if_splits)

lemma stack_ok_not_dead:
  assumes "stack_ok D P o'"
  shows "unat (stackIndex o') \<notin> D" "unat (stackIndex o') < 2000 \<Longrightarrow> blockStackIndex (block o') \<le> stackIndex o' + 1"
  using assms unat_inc16 [of "stackIndex o'"] by (auto simp: stack_ok_def word_le_nat_alt)

lemma card_users_pushed:
  assumes "unat (stackIndex o') < 2000" "unat (stackIndex o') \<notin> D" "j < 60000"
  shows "card (users D (pushed o' ty j) s) = card (users D o' s) + pend (unat j) (num_slots ty) s"
proof -
  have "unat (stackIndex o') \<notin> users D o' s" by (simp add: users_def)
  then show ?thesis unfolding users_pushed [OF assms(1,2)] using assms(3) by (simp add: pend_def)
qed

text \<open>An allocated slot: the pending use becomes a stack entry.\<close>

lemma Push_slot_ok:
  assumes "stack_ok D (\<lambda>s. P s + pend (unat j) (num_slots ty) s) o'" "Push o' ty j = Inr o''"
    "unat (slotFirstDynamicIndex o') \<le> unat j" "unat j + num_slots ty \<le> 4000"
  shows "stack_ok D P o'' \<and> o'' = pushed o' ty j"
proof -
  have j: "j < 60000" using assms(4) num_slots_bounds(1) [of ty] by (simp add: word_less_nat_alt)
  have lt: "unat (stackIndex o') < 2000" using assms(2) by (auto simp: Push_eq split: if_splits)
  have o'': "o'' = pushed o' ty j"
    using assms(2) lt j by (auto simp: Push_eq IsRegisterSlotAlias_def)
  have nd: "unat (stackIndex o') \<notin> D" using stack_ok_not_dead(1) [OF assms(1)] .
  have cnt: "unat (m3Slots o'' s) = card (users D o'' s) + P s" if "unat (slotFirstDynamicIndex o'') \<le> s" for s
    using assms(1) that card_users_pushed [OF lt nd j, of ty s] by (simp add: stack_ok_def o'') (simp add: pushed_def)
  have ent: "entry_ok o'' k" if "k < unat (stackIndex o'')" "k \<notin> D" for k
    using assms(1,3,4) that lt
    by (auto simp: stack_ok_def o'' pushed_def entry_ok_def unat_inc16 less_Suc_eq)
  have reg: "reg_ok D o'' r" if "reg_ok D o' r" for r
    using that j lt
    by (auto simp: reg_ok_def o'' pushed_def reg_alias_def unat_inc16 less_Suc_eq)
  show ?thesis
    using assms(1) cnt ent reg lt stack_ok_not_dead(2) [OF assms(1) lt] o''
    by (simp add: stack_ok_def) (simp add: pushed_def unat_inc16)
qed

text \<open>A slot below the dynamic ones (an argument, a local or a constant) is not counted.\<close>

lemma Push_static_ok:
  assumes "stack_ok D P o'" "Push o' ty j = Inr o''" "unat j + num_slots ty \<le> unat (slotFirstDynamicIndex o')"
  shows "stack_ok D P o''"
proof -
  have fd: "unat (slotFirstDynamicIndex o') \<le> 4000" using assms(1) by (simp add: stack_ok_def)
  have j: "j < 60000" using assms(3) fd num_slots_bounds(1) [of ty] by (simp add: word_less_nat_alt)
  have lt: "unat (stackIndex o') < 2000" using assms(2) by (auto simp: Push_eq split: if_splits)
  have o'': "o'' = pushed o' ty j"
    using assms(2) lt j by (auto simp: Push_eq IsRegisterSlotAlias_def)
  have nd: "unat (stackIndex o') \<notin> D" using stack_ok_not_dead(1) [OF assms(1)] .
  have cnt: "unat (m3Slots o'' s) = card (users D o'' s) + P s" if "unat (slotFirstDynamicIndex o'') \<le> s" for s
  proof -
    have "pend (unat j) (num_slots ty) s = 0" using that assms(3) by (simp add: o'' pushed_def pend_def)
    then show ?thesis
      using assms(1) that card_users_pushed [OF lt nd j, of ty s] by (simp add: stack_ok_def o'') (simp add: pushed_def)
  qed
  have ent: "entry_ok o'' k" if "k < unat (stackIndex o'')" "k \<notin> D" for k
    using assms(1,3) fd that lt
    by (auto simp: stack_ok_def o'' pushed_def entry_ok_def unat_inc16 less_Suc_eq)
  have reg: "reg_ok D o'' r" if "reg_ok D o' r" for r
    using that j lt
    by (auto simp: reg_ok_def o'' pushed_def reg_alias_def unat_inc16 less_Suc_eq)
  show ?thesis
    using assms(1) cnt ent reg lt stack_ok_not_dead(2) [OF assms(1) lt] o''
    by (simp add: stack_ok_def) (simp add: pushed_def unat_inc16)
qed

lemma PushRegister_ok:
  assumes "stack_ok D P o'" "PushRegister o' ty = Inr o''" "\<not> IsRegisterTypeAllocated o' ty"
  shows "stack_ok D P o''"
proof -
  let ?r = "reg_select (IsFpType ty)"
  have lt: "unat (stackIndex o') < 2000" using assms(2) by (auto simp: PushRegister_def Push_eq split: if_splits)
  have al: "(if IsFpType ty then 60002 else 60000 :: u16) = reg_alias ?r" by (simp add: reg_alias_def reg_select_def)
  have o'': "o'' = AllocateRegister (pushed o' ty (reg_alias ?r)) ?r (stackIndex o')"
    using assms(2) lt by (auto simp: PushRegister_def Push_eq IsRegisterSlotAlias_def IsFpRegisterSlotAlias_def
        reg_alias_def reg_select_def split: if_splits)
  have nd: "unat (stackIndex o') \<notin> D" using stack_ok_not_dead(1) [OF assms(1)] .
  have si: "unat (stackIndex o' + 1) = unat (stackIndex o') + 1" using lt by (simp add: unat_inc16)
  have fields: "stackIndex o'' = stackIndex o' + 1" "wasmStack o'' = (wasmStack o')(unat (stackIndex o') := reg_alias ?r)"
    "typeStack o'' = (typeStack o')(unat (stackIndex o') := ty)" "m3Slots o'' = m3Slots o'" "block o'' = block o'"
    "slotFirstDynamicIndex o'' = slotFirstDynamicIndex o'"
    "regStackIndexPlusOne o'' = (regStackIndexPlusOne o')(?r := stackIndex o' + 1)"
    by (simp_all add: o'' pushed_def AllocateRegister_def)
  have "users D o'' s = users D o' s" for s
  proof -
    have "users D o'' s = users D (pushed o' ty (reg_alias ?r)) s"
      by (simp add: o'' AllocateRegister_def users_def occupies_def)
    moreover have "\<not> reg_alias ?r < 60000" by (simp add: reg_alias_def)
    ultimately show ?thesis using users_pushed [OF lt nd, of ty "reg_alias ?r" s] by simp
  qed
  then have cnt: "\<forall>s. unat (slotFirstDynamicIndex o'') \<le> s \<longrightarrow> unat (m3Slots o'' s) = card (users D o'' s) + P s"
    using assms(1) by (simp add: stack_ok_def fields)
  have ent: "\<forall>k < unat (stackIndex o''). k \<notin> D \<longrightarrow> entry_ok o'' k"
    using assms(1) by (auto simp: stack_ok_def fields entry_ok_def si less_Suc_eq reg_alias_def)
  have free: "regStackIndexPlusOne o' ?r = 0"
    using assms(3) by (simp add: IsRegisterTypeAllocated_def IsRegisterAllocated_def)
  have regs: "reg_ok D o'' r" if "r = 0 \<or> r = 1" for r
  proof (cases "r = ?r")
    case True
    have "reg_ok D o' r" using assms(1) that by (auto simp: stack_ok_def)
    with free True have "wasmStack o' k \<noteq> reg_alias r" if "k < unat (stackIndex o')" "k \<notin> D" for k
      using that by (auto simp: reg_ok_def)
    then show ?thesis using True si nd by (auto simp: reg_ok_def fields less_Suc_eq)
  next
    case False
    have "reg_ok D o' r" using assms(1) that by (auto simp: stack_ok_def)
    moreover have "reg_alias ?r \<noteq> reg_alias r" using False that by (auto simp: reg_alias_def reg_select_def split: if_splits)
    ultimately show ?thesis using False si lt by (auto simp: reg_ok_def fields less_Suc_eq)
  qed
  show ?thesis
    using assms(1) cnt ent regs [of 0] regs [of 1] lt si stack_ok_not_dead(2) [OF assms(1) lt]
    by (simp add: stack_ok_def fields)
qed

lemma DeallocateSlots_eq:
  "DeallocateSlots o' j n = o'\<lparr>m3Slots := (\<lambda>s. if j \<le> s \<and> s < j + n then m3Slots o' s - 1 else m3Slots o' s)\<rparr>"
proof (induction n arbitrary: o' j)
  case 0
  have "(\<lambda>s. if j \<le> s \<and> s < j + 0 then m3Slots o' s - 1 else m3Slots o' s) = m3Slots o'" by (rule ext) auto
  then show ?case by simp
next
  case (Suc n)
  show ?case
    by (simp add: Suc.IH, rule arg_cong [where f = "\<lambda>f. o'\<lparr>m3Slots := f\<rparr>"], rule ext, auto)
qed

text \<open>The stack without its top entry.\<close>

lemma users_popped:
  assumes "k = unat (stackIndex o')" "stackIndex p = stackIndex o' + 1" "unat (stackIndex o') < 2000"
    "wasmStack p = wasmStack o'" "typeStack p = typeStack o'"
  shows "users D p s = users D o' s \<union> (if k \<notin> D \<and> s \<in> occupies p k then {k} else {})"
  using assms by (auto simp: users_def occupies_def unat_inc16 less_Suc_eq)

lemma Pop_ok:
  assumes "stack_ok D P o'" "Pop o' = Inr o''"
  shows "stack_ok D P o''"
proof (cases "stackIndex o' > blockStackIndex (block o')")
  case False
  then have "o'' = o'" using assms(2) by (auto simp: Pop_def split: if_splits)
  with assms(1) show ?thesis by simp
next
  case True
  let ?q = "o'\<lparr>stackIndex := stackIndex o' - 1\<rparr>" and ?k = "unat (stackIndex o' - 1)"
  have k: "unat (stackIndex o') = ?k + 1" using unat_dec16 [OF True] True by (simp add: word_less_nat_alt)
  then have lt: "?k < 2000" using assms(1) by (simp add: stack_ok_def)
  have bk: "unat (blockStackIndex (block o')) \<le> ?k" using True k by (simp add: word_less_nat_alt)
  then have nd: "?k \<notin> D" using assms(1) by (auto simp: stack_ok_def)
  have ent: "entry_ok o' ?k" using assms(1) nd k by (simp add: stack_ok_def)
  have us: "users D o' s = users D ?q s \<union> (if s \<in> occupies o' ?k then {?k} else {})" for s
    using users_popped [of ?k ?q o' D s] lt nd by simp
  have notin: "?k \<notin> users D ?q s" for s by (simp add: users_def)
  show ?thesis
  proof (cases "IsRegisterSlotAlias (wasmStack o' ?k)")
    case reg: True
    let ?r = "reg_select (IsFpRegisterSlotAlias (wasmStack o' ?k))"
    have o'': "o'' = DeallocateRegister ?q ?r" using assms(2) True reg by (simp add: Pop_def Let_def)
    have al: "wasmStack o' ?k = reg_alias ?r"
      using ent reg num_slots_bounds(1) [of "typeStack o' ?k"]
      by (auto simp: entry_ok_def IsRegisterSlotAlias_def IsFpRegisterSlotAlias_def reg_alias_def reg_select_def
          word_le_nat_alt)
    have "occupies o' ?k = {}" using reg by (simp add: occupies_def IsRegisterSlotAlias_def)
    then have "users D o'' s = users D o' s" for s
      using us [of s] by (simp add: o'' DeallocateRegister_def users_def occupies_def)
    moreover have "reg_ok D o'' r" if "r = 0 \<or> r = 1" for r
    proof -
      have ro: "reg_ok D o' r" using assms(1) that by (auto simp: stack_ok_def)
      show ?thesis
      proof (cases "r = ?r")
        case eq: True
        have "unat (regStackIndexPlusOne o' r) = ?k + 1" using ro al eq nd k by (auto simp: reg_ok_def)
        then have "\<And>i. i < ?k \<Longrightarrow> i \<notin> D \<Longrightarrow> wasmStack o' i \<noteq> reg_alias r" using ro k by (auto simp: reg_ok_def)
        then show ?thesis using eq by (auto simp: reg_ok_def o'' DeallocateRegister_def)
      next
        case ne: False
        then have "wasmStack o' ?k \<noteq> reg_alias r"
          using al that by (auto simp: reg_alias_def reg_select_def split: if_splits)
        then have "unat (regStackIndexPlusOne o' r) \<noteq> ?k + 1" using ro nd k by (auto simp: reg_ok_def)
        then show ?thesis using ro ne k by (auto simp: reg_ok_def o'' DeallocateRegister_def less_Suc_eq)
      qed
    qed
    ultimately show ?thesis using assms(1) lt bk k
      by (simp add: stack_ok_def) (simp add: o'' DeallocateRegister_def entry_ok_def word_le_nat_alt)
  next
    case slot: False
    let ?s = "wasmStack o' ?k" and ?n = "num_slots (typeStack o' ?k)"
    have fits: "unat ?s + ?n \<le> 4000" and sep: "unat (slotFirstDynamicIndex o') \<le> unat ?s \<or> unat ?s + ?n \<le> unat (slotFirstDynamicIndex o')"
      using ent slot by (auto simp: entry_ok_def IsRegisterSlotAlias_def)
    then have low: "?s < 60000" using num_slots_bounds(1) [of "typeStack o' ?k"] by (simp add: word_less_nat_alt)
    then have occ: "occupies o' ?k = {unat ?s ..< unat ?s + ?n}" by (auto simp: occupies_def)
    have regs: "reg_ok D p r" if "r = 0 \<or> r = 1" "stackIndex p = stackIndex o' - 1" "wasmStack p = wasmStack o'"
      "regStackIndexPlusOne p = regStackIndexPlusOne o'" for p r
    proof -
      have ro: "reg_ok D o' r" using assms(1) that(1) by (auto simp: stack_ok_def)
      have "?s \<noteq> reg_alias r" using low by (auto simp: reg_alias_def)
      then have "unat (regStackIndexPlusOne o' r) \<noteq> ?k + 1" using ro nd k by (auto simp: reg_ok_def)
      then show ?thesis using ro k that(2-) by (auto simp: reg_ok_def less_Suc_eq)
    qed
    show ?thesis
    proof (cases "?s \<ge> slotFirstDynamicIndex o'")
      case dyn: True
      have o'': "o'' = ?q\<lparr>m3Slots := (\<lambda>i. if unat ?s \<le> i \<and> i < unat ?s + ?n then m3Slots ?q i - 1 else m3Slots ?q i)\<rparr>"
        using assms(2) True slot dyn fits by (simp add: Pop_def Let_def DeallocateSlot_def DeallocateSlots_eq)
      have u: "users D o'' i = users D ?q i" for i by (simp add: o'' users_def occupies_def)
      have "unat (m3Slots o'' i) = card (users D o'' i) + P i" if i: "unat (slotFirstDynamicIndex o') \<le> i" for i
      proof -
        have c: "unat (m3Slots o' i) = card (users D o' i) + P i" using assms(1) i by (simp add: stack_ok_def)
        show ?thesis
        proof (cases "unat ?s \<le> i \<and> i < unat ?s + ?n")
          case in_range: True
          then have "card (users D o' i) = Suc (card (users D ?q i))" using us [of i] occ notin [of i] by simp
          moreover from this c have "m3Slots o' i \<noteq> 0" by auto
          ultimately show ?thesis using c in_range u [of i] by (simp add: o'' unat_minus_one)
        next
          case False
          then have "i \<notin> occupies o' ?k" unfolding occ by auto
          then have "users D o' i = users D o'' i" using us [of i] u [of i] by simp
          moreover have "m3Slots o'' i = m3Slots o' i" using False by (auto simp: o'')
          ultimately show ?thesis using c by simp
        qed
      qed
      then show ?thesis using assms(1) lt bk k regs [of 0 o''] regs [of 1 o'']
        by (simp add: stack_ok_def) (simp add: o'' entry_ok_def word_le_nat_alt)
    next
      case static: False
      then have o'': "o'' = ?q" using assms(2) True slot by (simp add: Pop_def Let_def)
      have "i \<notin> occupies o' ?k" if "unat (slotFirstDynamicIndex o') \<le> i" for i
        using that sep static occ by (auto simp: word_le_nat_alt)
      then have "users D o'' i = users D o' i" if "unat (slotFirstDynamicIndex o') \<le> i" for i
        using us [of i] that by (simp add: o'')
      then show ?thesis using assms(1) lt bk k regs [of 0 o''] regs [of 1 o'']
        by (simp add: stack_ok_def) (simp add: o'' entry_ok_def word_le_nat_alt)
    qed
  qed
qed

lemma PushAllocatedSlotAndEmit_impl_ok:
  assumes "stack_ok D P o'" "PushAllocatedSlotAndEmit_impl o' ty em = Inr o''"
  shows "stack_ok D P o''"
proof -
  obtain j o1 o2 where 1: "AllocateSlots o' ty = Inr (j, o1)" "Push o1 ty j = Inr o2"
    "o'' = (if em then emit_slot o2 j else o2)"
    using assms(2) by (auto simp: PushAllocatedSlotAndEmit_impl_def tryR_Inr_iff)
  note A = AllocateSlots_Inr [OF assms(1) 1(1)]
  have "stack_ok D P o2" using Push_slot_ok [OF A(1) 1(2)] A(2,3,6) by metis
  moreover have "stack_ok D P (emit_slot o2 j) = stack_ok D P o2"
    by (rule stack_ok_cong) (simp_all add: emit_slot_def emit_word_def)
  ultimately show ?thesis using 1(3) by simp
qed

lemma emit_op_cong: "emit_op pg o' op = Inr o'' \<Longrightarrow> stack_ok D P o'' = stack_ok D P o'"
  by (rule stack_ok_cong) (auto simp: emit_op_def emit_word_def split: if_splits)

lemma emit_slot_cong: "stack_ok D P (emit_slot o' j) = stack_ok D P o'"
  by (rule stack_ok_cong) (simp_all add: emit_slot_def emit_word_def)

text \<open>Moving a register to a slot: its stack entry keeps its place and type.\<close>

lemma PreserveRegisterIfOccupied_ok:
  assumes "stack_ok D P o'" "PreserveRegisterIfOccupied pg o' ty = Inr o''"
  shows "stack_ok D P o'' \<and> \<not> IsRegisterTypeAllocated o'' ty"
proof (cases "IsRegisterAllocated o' (reg_select (IsFpType ty))")
  case False
  then show ?thesis using assms by (simp add: PreserveRegisterIfOccupied_def IsRegisterTypeAllocated_def)
next
  case True
  let ?r = "reg_select (IsFpType ty)"
  let ?q = "DeallocateRegister o' ?r"
  have r01: "?r = 0 \<or> ?r = 1" by (simp add: reg_select_def)
  have ro: "reg_ok D o' r" if "r = 0 \<or> r = 1" for r using assms(1) that by (auto simp: stack_ok_def)
  obtain k where k: "k < unat (stackIndex o')" "k \<notin> D" "unat (regStackIndexPlusOne o' ?r) = k + 1"
    using ro [OF r01] True by (auto simp: reg_ok_def IsRegisterAllocated_def)
  then have al: "wasmStack o' k = reg_alias ?r" using ro [OF r01] by (auto simp: reg_ok_def)
  have ki: "unat (GetRegisterStackIndex o' ?r) = k"
  proof -
    have "regStackIndexPlusOne o' ?r \<noteq> 0" using k(3) by auto
    then show ?thesis using k(3) by (simp add: GetRegisterStackIndex_def unat_minus_one)
  qed
  let ?t = "typeStack o' k"
  have ty: "GetStackTypeFromBottom ?q (GetRegisterStackIndex o' ?r) = ?t"
    using k(1) ki by (simp add: GetStackTypeFromBottom_def DeallocateRegister_def word_less_nat_alt)
  obtain j o1 op o2 where 1: "AllocateSlots ?q ?t = Inr (j, o1)" "typed_op op_SetSlot ?t = Inr op"
    "emit_op pg (o1\<lparr>wasmStack := (wasmStack o1)(k := j)\<rparr>) op = Inr o2" "o'' = emit_slot o2 j"
    using assms(2) True ty ki
    by (auto simp: PreserveRegisterIfOccupied_def Let_def m3_result split: if_splits)
  have fd: "unat (slotFirstDynamicIndex ?q) \<le> 4000"
    and cnt: "\<And>s. unat (slotFirstDynamicIndex ?q) \<le> s \<Longrightarrow> unat (m3Slots ?q s) = card (users D ?q s) + P s"
    using assms(1) by (simp_all add: stack_ok_def DeallocateRegister_def users_def occupies_def)
  note core = AllocateSlots_core [OF fd cnt 1(1)]
  obtain a b where o1: "o1 = ?q\<lparr>m3Slots := (\<lambda>s. if unat j \<le> s \<and> s < unat j + num_slots ?t then 1 else m3Slots ?q s),
            slotMaxAllocatedIndexPlusOne := a, maxStackSlots := b\<rparr>" using core(5) by blast
  let ?m = "o1\<lparr>wasmStack := (wasmStack o1)(k := j)\<rparr>"
  have j: "j < 60000" using core(2) num_slots_bounds(1) [of ?t] by (simp add: word_less_nat_alt)
  have u: "users D ?m s = users D o' s \<union> (if s \<in> {unat j ..< unat j + num_slots ?t} then {k} else {})" for s
    using k(1,2) al j by (auto simp: users_def occupies_def o1 DeallocateRegister_def reg_alias_def split: if_splits)
  have kn: "k \<notin> users D o' s" for s using al by (simp add: users_def occupies_def reg_alias_def)
  have uq: "users D ?q s = users D o' s" for s by (simp add: users_def occupies_def DeallocateRegister_def)
  have "unat (m3Slots ?m s) = card (users D ?m s) + P s" if "unat (slotFirstDynamicIndex ?m) \<le> s" for s
    using cnt [of s] that core(4) uq [of s] u [of s] kn [of s] by (auto simp: o1 DeallocateRegister_def)
  moreover have "entry_ok ?m i" if "i < unat (stackIndex ?m)" "i \<notin> D" for i
    using assms(1) that core(1,2) by (auto simp: stack_ok_def entry_ok_def o1 DeallocateRegister_def)
  moreover have "reg_ok D ?m r" if r: "r = 0 \<or> r = 1" for r
  proof (cases "r = ?r")
    case eq: True
    then have "\<And>i. i < unat (stackIndex o') \<Longrightarrow> i \<notin> D \<Longrightarrow> i \<noteq> k \<Longrightarrow> wasmStack o' i \<noteq> reg_alias r"
      using ro [OF r] k by (auto simp: reg_ok_def)
    then show ?thesis using eq j by (auto simp: reg_ok_def o1 DeallocateRegister_def reg_alias_def split: if_splits)
  next
    case ne: False
    then have "reg_alias ?r \<noteq> reg_alias r" using r by (auto simp: reg_alias_def reg_select_def split: if_splits)
    then have "unat (regStackIndexPlusOne o' r) \<noteq> k + 1" "j \<noteq> reg_alias r"
      using ro [OF r] k al j by (auto simp: reg_ok_def reg_alias_def)
    then show ?thesis using ro [OF r] ne by (auto simp: reg_ok_def o1 DeallocateRegister_def)
  qed
  ultimately have "stack_ok D P ?m"
    using assms(1) by (simp add: stack_ok_def) (simp add: o1 DeallocateRegister_def)
  then have "stack_ok D P o''" using emit_op_cong [OF 1(3), of D P] emit_slot_cong [of D P o2 j] 1(4) by simp
  moreover have "regStackIndexPlusOne o'' ?r = 0"
    using 1(3,4) by (auto simp: emit_op_def emit_word_def emit_slot_def o1 DeallocateRegister_def split: if_splits)
  ultimately show ?thesis by (simp add: IsRegisterTypeAllocated_def IsRegisterAllocated_def)
qed

section \<open>Properties\<close>

text \<open>The operations on the operand stack that the opcode compilers are made of.\<close>

inductive stack_step :: "(nat \<Rightarrow> bool) \<Rightarrow> M3Compilation \<Rightarrow> M3Compilation \<Rightarrow> bool" for page_ok where
  push_slot: "PushAllocatedSlotAndEmit o' ty = Inr o'' \<Longrightarrow> stack_step page_ok o' o''"
| push_static: "unat j + num_slots ty \<le> unat (slotFirstDynamicIndex o') \<Longrightarrow> Push o' ty j = Inr o'' \<Longrightarrow> stack_step page_ok o' o''"
| push_register: "PreserveRegisterIfOccupied page_ok o' ty = Inr o1 \<Longrightarrow> PushRegister o1 ty = Inr o'' \<Longrightarrow> stack_step page_ok o' o''"
| pop: "PopType o' ty = Inr o'' \<Longrightarrow> stack_step page_ok o' o''"
| preserve: "PreserveRegisters page_ok o' = Inr o'' \<Longrightarrow> stack_step page_ok o' o''"

lemma stack_step_ok: "stack_step pg o' o'' \<Longrightarrow> stack_ok D P o' \<Longrightarrow> stack_ok D P o''"
proof (induction rule: stack_step.induct)
  case (push_slot o' ty o'')
  then show ?case unfolding PushAllocatedSlotAndEmit_def by (rule PushAllocatedSlotAndEmit_impl_ok [rotated])
next
  case (push_static j ty o' o'')
  then show ?case using Push_static_ok by blast
next
  case (push_register o' ty o1 o'')
  then show ?case using PreserveRegisterIfOccupied_ok PushRegister_ok by blast
next
  case (pop o' ty o'')
  then show ?case using Pop_ok by (auto simp: PopType_def split: if_splits)
next
  case (preserve o' o'')
  then obtain o1 where "PreserveRegisterIfOccupied pg o' 4 = Inr o1" "PreserveRegisterIfOccupied pg o1 2 = Inr o''"
    by (auto simp: PreserveRegisters_def tryR_Inr_iff)
  with PreserveRegisterIfOccupied_ok preserve.prems show ?case by blast
qed

text \<open>What the prologue of a function leaves: static entries, no dynamic slot and no register in use.\<close>

definition body_start :: "M3Compilation \<Rightarrow> bool" where
  "body_start o' \<longleftrightarrow> unat (stackIndex o') \<le> d_m3MaxFunctionStackHeight \<and> unat (slotFirstDynamicIndex o') \<le> d_m3MaxFunctionSlots
   \<and> blockStackIndex (block o') = stackIndex o'
   \<and> (\<forall>k < unat (stackIndex o'). unat (wasmStack o' k) + num_slots (typeStack o' k) \<le> unat (slotFirstDynamicIndex o'))
   \<and> (\<forall>s. unat (slotFirstDynamicIndex o') \<le> s \<longrightarrow> m3Slots o' s = 0)
   \<and> regStackIndexPlusOne o' 0 = 0 \<and> regStackIndexPlusOne o' 1 = 0"

lemma body_start_static:
  assumes "body_start o'" "k < unat (stackIndex o')"
  shows "wasmStack o' k < d_m3Reg0SlotAlias" "wasmStack o' k \<noteq> reg_alias r"
    "occupies o' k = {unat (wasmStack o' k) ..< unat (wasmStack o' k) + num_slots (typeStack o' k)}"
proof -
  have "unat (wasmStack o' k) \<le> 4000" using assms by (auto simp: body_start_def)
  then show a: "wasmStack o' k < d_m3Reg0SlotAlias" by (simp add: word_less_nat_alt)
  then show "wasmStack o' k \<noteq> reg_alias r" by (auto simp: reg_alias_def)
  show "occupies o' k = {unat (wasmStack o' k) ..< unat (wasmStack o' k) + num_slots (typeStack o' k)}"
    using a by (auto simp: occupies_def not_le [symmetric])
qed

lemma body_start_ok:
  assumes "body_start o'"
  shows "stack_ok {} (\<lambda>_. 0) o'"
proof -
  have "users {} o' s = {}" if "unat (slotFirstDynamicIndex o') \<le> s" for s
    using assms that by (auto simp: users_def body_start_static body_start_def)
  moreover have "entry_ok o' k" if "k < unat (stackIndex o')" for k
    using assms that by (auto simp: body_start_def entry_ok_def)
  moreover have "reg_ok {} o' 0" "reg_ok {} o' 1"
    using assms body_start_static(2) [OF assms] by (simp_all add: reg_ok_def body_start_def)
  ultimately show ?thesis using assms by (simp add: stack_ok_def body_start_def)
qed

text \<open>What the statements of a body never change.\<close>

definition statics_kept :: "M3Compilation \<Rightarrow> M3Compilation \<Rightarrow> bool" where
  "statics_kept o0 o' \<longleftrightarrow> slotFirstDynamicIndex o' = slotFirstDynamicIndex o0 \<and> block o' = block o0
   \<and> stackIndex o0 \<le> stackIndex o'
   \<and> (\<forall>k < unat (stackIndex o0). wasmStack o' k = wasmStack o0 k \<and> typeStack o' k = typeStack o0 k)
   \<and> (\<forall>s < unat (slotFirstDynamicIndex o0). m3Slots o' s = m3Slots o0 s)"

lemma statics_kept_Push:
  assumes "statics_kept o0 o'" "Push o' ty j = Inr o''"
  shows "statics_kept o0 o''"
  using assms
  by (auto simp: statics_kept_def Push_eq pushed_def AllocateRegister_def word_le_nat_alt unat_inc16 Let_def split: if_splits)

lemma statics_kept_allocate:
  assumes "statics_kept o0 o'" "unat (slotFirstDynamicIndex o') \<le> 4000"
    "\<And>s. unat (slotFirstDynamicIndex o') \<le> s \<Longrightarrow> unat (m3Slots o' s) = card (users D o' s) + P s"
    "AllocateSlots o' ty = Inr (j, o'')"
  shows "statics_kept o0 o''"
  using AllocateSlots_core [OF assms(2-4)] assms(1) by (auto simp: statics_kept_def)

lemma statics_kept_cong:
  assumes "stackIndex p = stackIndex o'" "slotFirstDynamicIndex p = slotFirstDynamicIndex o'" "block p = block o'"
    "wasmStack p = wasmStack o'" "typeStack p = typeStack o'" "m3Slots p = m3Slots o'"
  shows "statics_kept o0 p = statics_kept o0 o'"
  using assms by (simp add: statics_kept_def)

lemma statics_kept_push_slot:
  assumes "statics_kept o0 o'" "stack_ok D P o'" "PushAllocatedSlotAndEmit_impl o' ty em = Inr o''"
  shows "statics_kept o0 o''"
proof -
  obtain j o1 o2 where 1: "AllocateSlots o' ty = Inr (j, o1)" "Push o1 ty j = Inr o2"
    "o'' = (if em then emit_slot o2 j else o2)"
    using assms(3) by (auto simp: PushAllocatedSlotAndEmit_impl_def tryR_Inr_iff)
  have "statics_kept o0 o2"
    using statics_kept_allocate [OF assms(1) _ _ 1(1)] statics_kept_Push [OF _ 1(2)] assms(2) by (simp add: stack_ok_def)
  moreover have "statics_kept o0 (emit_slot o2 j) = statics_kept o0 o2"
    by (rule statics_kept_cong) (simp_all add: emit_slot_def emit_word_def)
  ultimately show ?thesis using 1(3) by simp
qed

lemma statics_kept_Pop:
  assumes "statics_kept o0 o'" "body_start o0" "Pop o' = Inr o''"
  shows "statics_kept o0 o''"
proof (cases "stackIndex o' > blockStackIndex (block o')")
  case True
  have "stackIndex o0 \<le> stackIndex o' - 1"
    using True assms(1,2) unat_dec16 [OF True] by (simp add: statics_kept_def body_start_def word_le_nat_alt word_less_nat_alt)
  with True assms(1,3) show ?thesis
    by (auto simp: statics_kept_def Pop_def Let_def DeallocateRegister_def DeallocateSlot_def DeallocateSlots_eq word_le_nat_alt split: if_splits)
next
  case False
  with assms show ?thesis by (auto simp: Pop_def split: if_splits)
qed

lemma statics_kept_emit_op: "emit_op pg o' op = Inr o'' \<Longrightarrow> statics_kept o0 o'' = statics_kept o0 o'"
  by (auto simp: emit_op_def emit_word_def statics_kept_def split: if_splits)

lemma statics_kept_preserve:
  assumes "statics_kept o0 o'" "body_start o0" "stack_ok {} P o'" "PreserveRegisterIfOccupied pg o' ty = Inr o''"
  shows "statics_kept o0 o''"
proof (cases "IsRegisterAllocated o' (reg_select (IsFpType ty))")
  case False
  then show ?thesis using assms by (simp add: PreserveRegisterIfOccupied_def)
next
  case True
  let ?r = "reg_select (IsFpType ty)"
  let ?q = "DeallocateRegister o' ?r"
  define k where "k = unat (regStackIndexPlusOne o' ?r) - 1"
  have "reg_ok {} o' ?r" using assms(3) by (simp add: stack_ok_def reg_select_def)
  then have al: "wasmStack o' k = reg_alias ?r" and k: "unat (regStackIndexPlusOne o' ?r) = k + 1"
    using True by (auto simp: reg_ok_def IsRegisterAllocated_def k_def)
  have new: "\<not> k < unat (stackIndex o0)"
    using assms(1) body_start_static(2) [OF assms(2)] al by (auto simp: statics_kept_def)
  have si: "unat (GetRegisterStackIndex o' ?r) = k"
  proof -
    have "regStackIndexPlusOne o' ?r \<noteq> 0" using k by auto
    then show ?thesis using k by (simp add: GetRegisterStackIndex_def unat_minus_one)
  qed
  obtain t j o1 op o2 where 1: "AllocateSlots ?q t = Inr (j, o1)"
    "emit_op pg (o1\<lparr>wasmStack := (wasmStack o1)(k := j)\<rparr>) op = Inr o2" "o'' = emit_slot o2 j"
    using assms(4) True si by (auto simp: PreserveRegisterIfOccupied_def Let_def m3_result split: if_splits)
  have fd: "unat (slotFirstDynamicIndex ?q) \<le> 4000"
    and cnt: "\<And>s. unat (slotFirstDynamicIndex ?q) \<le> s \<Longrightarrow> unat (m3Slots ?q s) = card (users {} ?q s) + P s"
    using assms(3) by (simp_all add: stack_ok_def DeallocateRegister_def users_def occupies_def)
  have "statics_kept o0 ?q" using assms(1) by (simp add: statics_kept_def DeallocateRegister_def)
  then have "statics_kept o0 o1" by (rule statics_kept_allocate [OF _ fd cnt 1(1)])
  then have "statics_kept o0 (o1\<lparr>wasmStack := (wasmStack o1)(k := j)\<rparr>)" using new by (auto simp: statics_kept_def)
  then have "statics_kept o0 o2" using statics_kept_emit_op [OF 1(2)] by simp
  moreover have "statics_kept o0 (emit_slot o2 j) = statics_kept o0 o2"
    by (rule statics_kept_cong) (simp_all add: emit_slot_def emit_word_def)
  ultimately show ?thesis using 1(3) by simp
qed

lemma stack_step_statics:
  assumes "stack_step pg o' o''" "stack_ok {} P o'" "statics_kept o0 o'" "body_start o0"
  shows "statics_kept o0 o''"
  using assms
proof (induction rule: stack_step.induct)
  case (push_slot o' ty o'')
  then show ?case using statics_kept_push_slot by (auto simp: PushAllocatedSlotAndEmit_def)
next
  case (push_static j ty o' o'')
  then show ?case using statics_kept_Push by blast
next
  case (push_register o' ty o1 o'')
  have "statics_kept o0 o1" using statics_kept_preserve push_register by blast
  then show ?case using push_register.hyps(2) statics_kept_Push
    by (auto simp: PushRegister_def Let_def m3_result split: if_splits)
next
  case (pop o' ty o'')
  then show ?case using statics_kept_Pop by (auto simp: PopType_def split: if_splits)
next
  case (preserve o' o'')
  then obtain o1 where "PreserveRegisterIfOccupied pg o' 4 = Inr o1" "PreserveRegisterIfOccupied pg o1 2 = Inr o''"
    by (auto simp: PreserveRegisters_def tryR_Inr_iff)
  note 1 = this
  have "stack_ok {} P o1" using PreserveRegisterIfOccupied_ok [OF preserve.prems(1) 1(1)] by simp
  moreover have "statics_kept o0 o1" by (rule statics_kept_preserve [OF preserve.prems(2,3,1) 1(1)])
  ultimately show ?case using statics_kept_preserve [OF _ preserve.prems(3) _ 1(2)] by blast
qed

lemma GetTypeNumSlots_1 [simp]: "GetTypeNumSlots 1 = 1"
  by (simp add: GetTypeNumSlots_def Is64BitType_def)

text \<open>C19: Whatever sequence of pushes (to slots, static slots and registers), pops and register
  preservations the opcode compilers run in a function body, from the state that the arguments,
  the locals and the reserved constants leave (\<open>body_start\<close>: static entries, no dynamic slot and
  no register in use), their books stay balanced. Every entry of the operand stack is in a
  register or in slots inside the frame; the usage count of every dynamic slot is exactly the
  number of stack entries that hold it; each register is marked as occupied exactly by the
  stack entry whose slot is its alias. The border of the dynamic slots does not move, the
  counts of the static slots never change, and no argument or local is popped or moved.\<close>

theorem operand_stack_invariant:
  assumes "body_start o0" "(stack_step page_ok)\<^sup>*\<^sup>* o0 o'"
  shows "unat (stackIndex o') \<le> d_m3MaxFunctionStackHeight
    \<and> (\<forall>k < unat (stackIndex o'). entry_ok o' k)
    \<and> (\<forall>s \<ge> unat (slotFirstDynamicIndex o'). unat (m3Slots o' s) = card {k. k < unat (stackIndex o') \<and> s \<in> occupies o' k})
    \<and> (\<forall>k < unat (stackIndex o'). \<forall>r \<in> {0, 1}.
         wasmStack o' k = reg_alias r \<longleftrightarrow> unat (regStackIndexPlusOne o' r) = k + 1)
    \<and> slotFirstDynamicIndex o' = slotFirstDynamicIndex o0
    \<and> (\<forall>s < unat (slotFirstDynamicIndex o0). m3Slots o' s = m3Slots o0 s)
    \<and> stackIndex o0 \<le> stackIndex o'
    \<and> (\<forall>k < unat (stackIndex o0). wasmStack o' k = wasmStack o0 k \<and> typeStack o' k = typeStack o0 k)"
proof -
  have "stack_ok {} (\<lambda>_. 0) o' \<and> statics_kept o0 o'"
    using assms(2)
  proof (induction rule: rtranclp_induct)
    case base
    then show ?case using body_start_ok [OF assms(1)] by (simp add: statics_kept_def)
  next
    case (step o' o'')
    then show ?case using stack_step_ok stack_step_statics assms(1) by blast
  qed
  then show ?thesis by (auto simp: stack_ok_def users_def reg_ok_def statics_kept_def)
qed

text \<open>A body with one argument, in the slots 0 and 1: it is pushed a second time, then popped.\<close>

theorem operand_stack_invariant_witness:
  "\<exists>o0 o'. body_start o0 \<and> (stack_step (\<lambda>_. True))\<^sup>*\<^sup>* o0 o' \<and> stackIndex o0 = 1 \<and> stackIndex o' = 1
     \<and> m3Slots o' 0 = 1 \<and> wasmStack o' 0 = 0"
proof -
  let ?z = "zero_compilation 0 0"
  let ?b = "?z\<lparr>stackIndex := 1, slotFirstDynamicIndex := 2, typeStack := (typeStack ?z)(0 := 1),
      m3Slots := (m3Slots ?z)(0 := 1), block := (block ?z)\<lparr>blockStackIndex := 1\<rparr>\<rparr>"
  have b: "body_start ?b" by (simp add: body_start_def zero_compilation_def)
  let ?p = "pushed ?b 1 0"
  have p: "Push ?b 1 0 = Inr ?p" by (simp add: Push_eq zero_compilation_def IsRegisterSlotAlias_def)
  have "\<exists>o'. PopType ?p 1 = Inr o' \<and> stackIndex o' = 1"
    by (simp add: PopType_def Pop_def pushed_def zero_compilation_def IsRegisterSlotAlias_def GetStackTopType_def
        GetStackTypeFromBottom_def GetStackTypeFromTop_def Let_def)
  then obtain o' where o': "PopType ?p 1 = Inr o'" "stackIndex o' = 1" by blast
  have "stack_step (\<lambda>_. True) ?b ?p" by (rule stack_step.push_static [OF _ p]) (simp add: zero_compilation_def)
  moreover have "stack_step (\<lambda>_. True) ?p o'" by (rule stack_step.pop [OF o'(1)])
  ultimately have r: "(stack_step (\<lambda>_. True))\<^sup>*\<^sup>* ?b o'" by (simp add: converse_rtranclp_into_rtranclp)
  have "m3Slots o' 0 = 1 \<and> wasmStack o' 0 = 0"
    using operand_stack_invariant [OF b r] by (simp add: zero_compilation_def)
  then show ?thesis using b r o'(2) by (intro exI [of _ ?b] exI [of _ o']) (simp add: zero_compilation_def)
qed

text \<open>C28: Slot allocation is exact. A slot it gives is dynamic, inside the frame, even-aligned for
  a 64-bit type and used by no live stack entry; it fails only when every aligned run of the
  type's width has a slot in use, and then with \<^verbatim>\<open>m3Err_functionStackOverflow\<close>.\<close>

theorem slot_allocation_exact:
  assumes "stack_ok D (\<lambda>_. 0) o'"
  shows "case AllocateSlots o' ty of
      Inr (j, o'') \<Rightarrow> slotFirstDynamicIndex o' \<le> j \<and> unat j + num_slots ty \<le> d_m3MaxFunctionSlots
        \<and> unat j mod num_slots ty = 0 \<and> (\<forall>s \<in> {unat j ..< unat j + num_slots ty}. users D o' s = {})
    | Inl e \<Rightarrow> e = m3Err_functionStackOverflow \<and> (\<forall>k \<ge> unat (slotFirstDynamicIndex o').
        k mod num_slots ty = 0 \<and> k + num_slots ty \<le> d_m3MaxFunctionSlots \<longrightarrow>
        (\<exists>s \<in> {k ..< k + num_slots ty}. users D o' s \<noteq> {}))"
proof (cases "AllocateSlots o' ty")
  case (Inr r)
  then show ?thesis using AllocateSlots_Inr [OF assms] by (cases r) (auto simp: word_le_nat_alt)
next
  case (Inl e)
  have fd: "unat (slotFirstDynamicIndex o') \<le> 4000"
    and cnt: "\<And>s. unat (slotFirstDynamicIndex o') \<le> s \<Longrightarrow> unat (m3Slots o' s) = card (users D o' s)"
    using assms by (simp_all add: stack_ok_def)
  have used: "users D o' s \<noteq> {}" if "m3Slots o' s \<noteq> 0" "unat (slotFirstDynamicIndex o') \<le> s" for s
    using cnt [OF that(2)] that(1) by (auto simp: unat_eq_0)
  have "\<exists>s \<in> {k ..< k + num_slots ty}. users D o' s \<noteq> {}"
    if "unat (slotFirstDynamicIndex o') \<le> k" "k mod num_slots ty = 0" "k + num_slots ty \<le> 4000" for k
  proof -
    have "m3Slots o' k \<noteq> 0 \<or> m3Slots o' (k + num_slots ty - 1) \<noteq> 0" using AllocateSlots_Inl(2) [OF fd Inl that] .
    then have "users D o' k \<noteq> {} \<or> users D o' (k + num_slots ty - 1) \<noteq> {}"
      using used that(1) num_slots_bounds(1) [of ty] by fastforce
    then show ?thesis
    proof
      assume "users D o' (k + num_slots ty - 1) \<noteq> {}"
      then show ?thesis using num_slots_bounds(1) [of ty] by (intro bexI [of _ "k + num_slots ty - 1"]) auto
    qed (use num_slots_bounds(1) [of ty] in auto)
  qed
  then show ?thesis using Inl AllocateSlots_Inl(1) [OF fd Inl] by simp
qed

theorem slot_allocation_exact_witness:
  "case AllocateSlots (zero_compilation 0 0) 2 of
      Inr (j, o'') \<Rightarrow> unat j mod 2 = 0 \<and> unat j + 2 \<le> d_m3MaxFunctionSlots
    | Inl e \<Rightarrow> e = m3Err_functionStackOverflow"
  using slot_allocation_exact [OF stack_ok_init, of 0 0 2]
  by (auto simp: num_slots Is64BitType_def split: sum.splits prod.splits)

text \<open>A pop undoes a push: pushing a value into a newly allocated slot and popping it gives
  back the operand stack height, the usage counts and the registers.\<close>

theorem push_pop_restores:
  assumes "stack_ok D P o'" "PushAllocatedSlotAndEmit o' ty = Inr o1"
  shows "\<exists>o2. Pop o1 = Inr o2 \<and> stackIndex o2 = stackIndex o' \<and> m3Slots o2 = m3Slots o'
    \<and> regStackIndexPlusOne o2 = regStackIndexPlusOne o'"
proof -
  obtain j p where 1: "AllocateSlots o' ty = Inr (j, p)" "Push p ty j = Inr (pushed p ty j)"
    "o1 = emit_slot (pushed p ty j) j"
  proof -
    obtain j p q where a: "AllocateSlots o' ty = Inr (j, p)" "Push p ty j = Inr q" "o1 = emit_slot q j"
      using assms(2) by (auto simp: PushAllocatedSlotAndEmit_def PushAllocatedSlotAndEmit_impl_def tryR_Inr_iff)
    note A = AllocateSlots_Inr [OF assms(1) a(1)]
    have "q = pushed p ty j" using Push_slot_ok [OF A(1) a(2)] A(2,3,6) by metis
    with a that show thesis by blast
  qed
  note A = AllocateSlots_Inr [OF assms(1) 1(1)]
  have fd: "unat (slotFirstDynamicIndex o') \<le> 4000"
    and cnt: "\<And>s. unat (slotFirstDynamicIndex o') \<le> s \<Longrightarrow> unat (m3Slots o' s) = card (users D o' s) + P s"
    and blk: "blockStackIndex (block o') \<le> stackIndex o'"
    using assms(1) by (simp_all add: stack_ok_def)
  note C = AllocateSlots_core [OF fd cnt 1(1)]
  obtain a b where p: "p = o'\<lparr>m3Slots := (\<lambda>s. if unat j \<le> s \<and> s < unat j + num_slots ty then 1 else m3Slots o' s),
            slotMaxAllocatedIndexPlusOne := a, maxStackSlots := b\<rparr>" using C(5) by blast
  have lt: "unat (stackIndex p) < 2000" using 1(2) by (auto simp: Push_eq split: if_splits)
  have zero: "m3Slots o' s = 0" if "s \<in> {unat j ..< unat j + num_slots ty}" for s
    using cnt [of s] C(1,4) that by (auto simp: unat_eq_0)
  have undo: "(\<lambda>s. if unat j \<le> s \<and> s < unat j + num_slots ty then m3Slots p s - 1 else m3Slots p s) = m3Slots o'"
    using zero by (auto simp: p)
  have e: "o1 = (pushed p ty j)\<lparr>code := code o1\<rparr>" using 1(3) by (simp add: emit_slot_def emit_word_def)
  have f: "stackIndex o1 = stackIndex o' + 1" "wasmStack o1 (unat (stackIndex o')) = j" "typeStack o1 (unat (stackIndex o')) = ty"
    "block o1 = block o'" "slotFirstDynamicIndex o1 = slotFirstDynamicIndex o'" "m3Slots o1 = m3Slots p"
    "regStackIndexPlusOne o1 = regStackIndexPlusOne o'"
    by (subst e, simp add: pushed_def p)+
  have "blockStackIndex (block o') < stackIndex o' + 1"
    using blk lt unat_inc16 [of "stackIndex o'"] by (simp add: p word_le_nat_alt word_less_nat_alt)
  moreover have "\<not> IsRegisterSlotAlias j" "slotFirstDynamicIndex o' \<le> j"
    using C(1,2) num_slots_bounds(1) [of ty] by (auto simp: IsRegisterSlotAlias_def word_le_nat_alt)
  moreover have "DeallocateSlots (o1\<lparr>stackIndex := stackIndex o'\<rparr>) (unat j) (num_slots ty)
      = o1\<lparr>stackIndex := stackIndex o', m3Slots := m3Slots o'\<rparr>"
  proof -
    have "m3Slots (o1\<lparr>stackIndex := stackIndex o'\<rparr>) = m3Slots p" by (simp add: f(6))
    then show ?thesis by (simp only: DeallocateSlots_eq undo)
  qed
  ultimately have "Pop o1 = Inr (o1\<lparr>stackIndex := stackIndex o', m3Slots := m3Slots o'\<rparr>)"
    using f C(2) by (simp add: Pop_def Let_def DeallocateSlot_def)
  then show ?thesis by (simp add: f)
qed

theorem push_pop_restores_witness:
  "\<exists>o1 o2. PushAllocatedSlotAndEmit (zero_compilation 0 0) 1 = Inr o1 \<and> Pop o1 = Inr o2 \<and> stackIndex o2 = 0"
proof -
  let ?z = "zero_compilation 0 0"
  have f: "FindFreeSlots ?z 1 0 4000 = Some 0"
    by (subst FindFreeSlots.simps) (simp add: zero_compilation_def)
  have al: "AlignSlotToType 0 1 = 0" by (simp add: AlignSlotToType_def)
  have "\<exists>o'. PushAllocatedSlotAndEmit ?z 1 = Inr o'"
    using f al by (simp add: PushAllocatedSlotAndEmit_def PushAllocatedSlotAndEmit_impl_def AllocateSlots_def
        AllocateSlotsWithinRange_def MarkSlotAllocated_def TouchSlot_def Push_def emit_slot_def emit_word_def
        zero_compilation_def IsRegisterSlotAlias_def Let_def)
  then obtain o1 where "PushAllocatedSlotAndEmit ?z 1 = Inr o1" by blast
  from push_pop_restores [OF stack_ok_init this] this show ?thesis by (auto simp: zero_compilation_def)
qed

end
