(* ===== verification/M3_Expr.thy ===== *)
theory M3_Expr
  imports M3_Compile M3_Module
begin

text \<open>
  Constant expressions: the constants and globals of \<^verbatim>\<open>src/m3_compile.c\<close>, its statement loop
  as it runs without a function (where all but six opcodes are rejected), \<^verbatim>\<open>Parse_InitExpr\<close> of
  \<^verbatim>\<open>src/m3_parse.c\<close>, which walks an expression without emitting code, and
  \<^verbatim>\<open>EvaluateExpression\<close> of \<^verbatim>\<open>src/m3_env.c\<close>, which compiles one and runs it on the runtime's
  stack.
\<close>

unbundle bit_operations_syntax

section \<open>Constants\<close>

definition get_const64 :: "(nat \<Rightarrow> u32) \<Rightarrow> nat \<Rightarrow> u64" where
  "get_const64 c k = ucast (c k) OR push_bit 32 (ucast (c (k + 1)))"

text \<open>The two searches for a slot that already holds the constant.\<close>

definition find_const64 :: "M3Compilation \<Rightarrow> u64 \<Rightarrow> u16 option" where
  "find_const64 o' i_word =
    (let first = unat (AlignSlotToType (slotFirstConstIndex o') c_m3Type_i64) in
     map_option of_nat (find (\<lambda>slot. IsSlotAllocated o' slot \<and> IsSlotAllocated o' (slot + 1)
         \<and> get_const64 (constants o') (slot - unat (slotFirstConstIndex o')) = i_word)
       (filter (\<lambda>slot. even (slot - first)) [first ..< unat (slotMaxConstIndex o') - 1])))"

definition find_const32 :: "M3Compilation \<Rightarrow> u64 \<Rightarrow> u16 option" where
  "find_const32 o' i_word =
    map_option of_nat (find (\<lambda>slot. IsSlotAllocated o' slot
         \<and> ucast (constants o' (slot - unat (slotFirstConstIndex o'))) = i_word)
       [unat (slotFirstConstIndex o') ..< unat (slotMaxConstIndex o')])"

text \<open>No room in the constant table: the constant goes inline into the code.\<close>

definition PushInlineConst :: "(nat \<Rightarrow> bool) \<Rightarrow> M3Compilation \<Rightarrow> u64 \<Rightarrow> u8 \<Rightarrow> M3Compilation result" where
  "PushInlineConst page_ok o' i_word i_type =
    (if Is64BitType i_type
     then tryR (emit_op page_ok o' op_Const64) (\<lambda>o'. PushAllocatedSlotAndEmit (emit_word o' (W_64 i_word)) i_type)
     else tryR (emit_op page_ok o' op_Const32) (\<lambda>o'. PushAllocatedSlotAndEmit (emit_word o' (W_32 (ucast i_word))) i_type))"

definition PushConst :: "(nat \<Rightarrow> bool) \<Rightarrow> M3Compilation \<Rightarrow> u64 \<Rightarrow> u8 \<Rightarrow> M3Compilation result" where
  "PushConst page_ok o' i_word i_type =
    (if \<not> has_page o' then Inr o'
     else
       let numRequiredSlots = GetTypeNumSlots i_type;
           numUsedConstSlots = slotMaxConstIndex o' - slotFirstConstIndex o';
           match = (if numRequiredSlots = 2 \<and> numUsedConstSlots \<ge> 2 then find_const64 o' i_word
                    else if numRequiredSlots = 1 then find_const32 o' i_word else None) in
       case match of
         Some slot \<Rightarrow> Push o' i_type slot
       | None \<Rightarrow>
           (case AllocateConstantSlots o' i_type of
              Inl e \<Rightarrow> if e = C_undefined then Inl C_undefined else PushInlineConst page_ok o' i_word i_type
            | Inr (slot, o') \<Rightarrow>
                let constTableIndex = unat (slot - slotFirstConstIndex o') in
                throwif C_undefined (constTableIndex + unat numRequiredSlots > d_m3MaxConstantTableSize)
                  (let o' = (if Is64BitType i_type
                       then o'\<lparr>constants := (constants o')(constTableIndex := ucast i_word,
                              constTableIndex + 1 := ucast (drop_bit 32 i_word))\<rparr>
                       else o'\<lparr>constants := (constants o')(constTableIndex := ucast i_word)\<rparr>) in
                   tryR (Push o' i_type slot) (\<lambda>o'.
                     Inr (o'\<lparr>slotMaxConstIndex := max (slot + numRequiredSlots) (slotMaxConstIndex o')\<rparr>)))))"

text \<open>The \<^verbatim>\<open>i32\<close> is sign-extended when it becomes the \<^verbatim>\<open>u64\<close> argument.\<close>

definition Compile_Const_i32 :: "(nat \<Rightarrow> bool) \<Rightarrow> u8 list \<Rightarrow> M3Compilation \<Rightarrow> M3Compilation result" where
  "Compile_Const_i32 page_ok w o' =
    tryR (checked (ReadLEB_i32 w (co_wasm o') (co_wasmEnd o'))) (\<lambda>(value, p).
      PushConst page_ok (o'\<lparr>co_wasm := p\<rparr>) (scast value) c_m3Type_i32)"

definition Compile_Const_i64 :: "(nat \<Rightarrow> bool) \<Rightarrow> u8 list \<Rightarrow> M3Compilation \<Rightarrow> M3Compilation result" where
  "Compile_Const_i64 page_ok w o' =
    tryR (checked (ReadLEB_i64 w (co_wasm o') (co_wasmEnd o'))) (\<lambda>(value, p).
      PushConst page_ok (o'\<lparr>co_wasm := p\<rparr>) value c_m3Type_i64)"

definition Compile_Const_f32 :: "(nat \<Rightarrow> bool) \<Rightarrow> u8 list \<Rightarrow> M3Compilation \<Rightarrow> M3Compilation result" where
  "Compile_Const_f32 page_ok w o' =
    tryR (Read_f32 w (co_wasm o') (co_wasmEnd o')) (\<lambda>(value, p).
      PushConst page_ok (o'\<lparr>co_wasm := p\<rparr>) (ucast value) c_m3Type_f32)"

definition Compile_Const_f64 :: "(nat \<Rightarrow> bool) \<Rightarrow> u8 list \<Rightarrow> M3Compilation \<Rightarrow> M3Compilation result" where
  "Compile_Const_f64 page_ok w o' =
    tryR (Read_f64 w (co_wasm o') (co_wasmEnd o')) (\<lambda>(value, p).
      PushConst page_ok (o'\<lparr>co_wasm := p\<rparr>) value c_m3Type_f64)"

section \<open>Globals\<close>

text \<open>A pointer to the value of a global is the global's index.\<close>

definition Compile_GetGlobal :: "(nat \<Rightarrow> bool) \<Rightarrow> M3Compilation \<Rightarrow> nat \<Rightarrow> M3Global \<Rightarrow> M3Compilation result" where
  "Compile_GetGlobal page_ok o' i i_global =
    (let op = (if Is64BitType (gl_type i_global) then op_GetGlobal_s64 else op_GetGlobal_s32) in
     tryR (emit_op page_ok o' op) (\<lambda>o'.
       PushAllocatedSlotAndEmit (emit_word o' (W_global i)) (gl_type i_global)))"

definition Compile_SetGlobal :: "(nat \<Rightarrow> bool) \<Rightarrow> M3Compilation \<Rightarrow> nat \<Rightarrow> M3Global \<Rightarrow> M3Compilation result" where
  "Compile_SetGlobal page_ok o' i i_global =
    (if gl_isMutable i_global then
       let type = GetStackTopType o' in
       tryR (if IsStackTopInRegister o' then typed_op op_SetGlobal type
             else Inr (if Is64BitType type then op_SetGlobal_s64 else op_SetGlobal_s32)) (\<lambda>op.
       tryR (emit_op page_ok o' op) (\<lambda>o'.
         let o' = emit_word o' (W_global i);
             o' = (if IsStackTopInSlot o' then emit_slot o' (GetStackTopSlotNumber o') else o') in
         Pop o'))
     else Inl m3Err_settingImmutableGlobal)"

definition Compile_GetSetGlobal ::
    "(nat \<Rightarrow> bool) \<Rightarrow> M3Module \<Rightarrow> u8 list \<Rightarrow> M3Compilation \<Rightarrow> u16 \<Rightarrow> M3Compilation result" where
  "Compile_GetSetGlobal page_ok m w o' i_opcode =
    tryR (checked (ReadLEB_u32 w (co_wasm o') (co_wasmEnd o'))) (\<lambda>(globalIndex, p).
      let o' = o'\<lparr>co_wasm := p\<rparr> in
      if globalIndex < numGlobals m then
        if globals m \<noteq> [] then
          throwif C_undefined (unat globalIndex \<ge> length (globals m))
            (let global = globals m ! unat globalIndex in
             if i_opcode = 0x23 then Compile_GetGlobal page_ok o' (unat globalIndex) global
             else Compile_SetGlobal page_ok o' (unat globalIndex) global)
        else Inl m3Err_globalMemoryNotAllocated
      else Inl m3Err_globaIndexOutOfBounds)"

text \<open>Without a function; \<^verbatim>\<open>depth\<close> is 0 at the end of an expression.\<close>

definition Compile_End_expr :: "(nat \<Rightarrow> bool) \<Rightarrow> M3Compilation \<Rightarrow> M3Compilation result" where
  "Compile_End_expr page_ok o' = (if depth (block o') = 0 then emit_op page_ok o' op_Return else Inr o')"

section \<open>The statement loop without a function\<close>

definition compile_expr_op ::
    "(nat \<Rightarrow> bool) \<Rightarrow> M3Module \<Rightarrow> u8 list \<Rightarrow> u16 \<Rightarrow> M3Compilation \<Rightarrow> M3Compilation result" where
  "compile_expr_op page_ok m w opcode o' =
    (if opcode = 0x41 then Compile_Const_i32 page_ok w o'
     else if opcode = 0x42 then Compile_Const_i64 page_ok w o'
     else if opcode = 0x43 then Compile_Const_f32 page_ok w o'
     else if opcode = 0x44 then Compile_Const_f64 page_ok w o'
     else if opcode = 0x23 then Compile_GetSetGlobal page_ok m w o' opcode
     else if opcode = 0x0b then Compile_End_expr page_ok o'
     else Inl m3Err_restrictedOpcode)"

text \<open>Compiling never moves the cursor backwards, which bounds the loop.\<close>

lemma co_wasm_simps [simp]:
  "co_wasm (emit_word o' x) = co_wasm o'" "co_wasmEnd (emit_word o' x) = co_wasmEnd o'"
  "co_wasm (emit_slot o' s) = co_wasm o'" "co_wasmEnd (emit_slot o' s) = co_wasmEnd o'"
  by (simp_all add: emit_word_def emit_slot_def)

definition same_range :: "M3Compilation \<Rightarrow> M3Compilation \<Rightarrow> bool" where
  "same_range p q \<longleftrightarrow> co_wasm p = co_wasm q \<and> co_wasmEnd p = co_wasmEnd q"

lemma same_range_emit [simp]: "same_range (emit_word o' x) q = same_range o' q" "same_range (emit_slot o' s) q = same_range o' q"
  by (simp_all add: same_range_def)

lemma emit_op_range: "emit_op pg o' op = Inr o'' \<Longrightarrow> same_range o'' o'"
  by (auto simp: emit_op_def same_range_def split: if_splits)

lemma Push_range: "Push o' ty s = Inr o'' \<Longrightarrow> same_range o'' o'"
  by (auto simp: Push_def Let_def AllocateRegister_def same_range_def split: if_splits)

lemma MarkSlotsAllocated_range: "MarkSlotsAllocated o' s n = Inr o'' \<Longrightarrow> same_range o'' o'"
  by (induction n arbitrary: o' s) (auto simp: m3_result MarkSlotAllocated_def TouchSlot_def same_range_def split: if_splits)

lemma AllocateSlotsWithinRange_range: "AllocateSlotsWithinRange o' ty s e = Inr (j, o'') \<Longrightarrow> same_range o'' o'"
  using MarkSlotsAllocated_range by (auto simp: AllocateSlotsWithinRange_def Let_def m3_result split: option.splits)

lemma PushAllocatedSlotAndEmit_range: "PushAllocatedSlotAndEmit o' ty = Inr o'' \<Longrightarrow> same_range o'' o'"
  using AllocateSlotsWithinRange_range Push_range
  by (fastforce simp: PushAllocatedSlotAndEmit_def PushAllocatedSlotAndEmit_impl_def AllocateSlots_def m3_result
      same_range_def split: if_splits)

lemma PushInlineConst_range: "PushInlineConst pg o' x ty = Inr o'' \<Longrightarrow> same_range o'' o'"
  using PushAllocatedSlotAndEmit_range emit_op_range
  by (fastforce simp: PushInlineConst_def m3_result same_range_def split: if_splits)

lemma PushConst_range: "PushConst pg o' x ty = Inr o'' \<Longrightarrow> same_range o'' o'"
  using PushInlineConst_range Push_range AllocateSlotsWithinRange_range
  by (fastforce simp: PushConst_def AllocateConstantSlots_def Let_def m3_result same_range_def
      split: if_splits option.splits sum.splits)

lemma PushConst_range': "PushConst pg (o'\<lparr>co_wasm := p\<rparr>) x ty = Inr o'' \<Longrightarrow> co_wasm o'' = p \<and> co_wasmEnd o'' = co_wasmEnd o'"
  using PushConst_range [of pg "o'\<lparr>co_wasm := p\<rparr>" x ty o''] by (simp add: same_range_def)

lemma Compile_GetGlobal_range:
  "Compile_GetGlobal pg (o'\<lparr>co_wasm := p\<rparr>) i g = Inr o'' \<Longrightarrow> co_wasm o'' = p \<and> co_wasmEnd o'' = co_wasmEnd o'"
  using PushAllocatedSlotAndEmit_range emit_op_range
  by (fastforce simp: Compile_GetGlobal_def m3_result same_range_def)

lemma compile_expr_op_range:
  assumes "compile_expr_op pg m w opcode o' = Inr o''"
  shows "co_wasmEnd o'' = co_wasmEnd o' \<and> co_wasm o' \<le> co_wasm o''
    \<and> (co_wasm o' \<le> co_wasmEnd o' \<longrightarrow> co_wasm o'' \<le> co_wasmEnd o')"
proof -
  consider (i32) "Compile_Const_i32 pg w o' = Inr o''" | (i64) "Compile_Const_i64 pg w o' = Inr o''"
    | (f32) "Compile_Const_f32 pg w o' = Inr o''" | (f64) "Compile_Const_f64 pg w o' = Inr o''"
    | (get) "opcode = 0x23" "Compile_GetSetGlobal pg m w o' opcode = Inr o''" | (block_end) "Compile_End_expr pg o' = Inr o''"
    using assms by (auto simp: compile_expr_op_def split: if_splits)
  then show ?thesis
  proof cases
    case i32
    then obtain v p where "LEB_i32 w (co_wasm o') (co_wasmEnd o') = Inr (v, p)"
      "PushConst pg (o'\<lparr>co_wasm := p\<rparr>) (scast v) 1 = Inr o''" by (auto simp: Compile_Const_i32_def tryR_Inr_iff)
    then show ?thesis using LEB_i32.rd_bounds LEB_i32.rd_progress PushConst_range' by (metis less_imp_le)
  next
    case i64
    then obtain v p where "LEB_i64 w (co_wasm o') (co_wasmEnd o') = Inr (v, p)"
      "PushConst pg (o'\<lparr>co_wasm := p\<rparr>) v 2 = Inr o''" by (auto simp: Compile_Const_i64_def tryR_Inr_iff)
    then show ?thesis using LEB_i64.rd_bounds LEB_i64.rd_progress PushConst_range' by (metis less_imp_le)
  next
    case f32
    then obtain v p where "Read_f32 w (co_wasm o') (co_wasmEnd o') = Inr (v, p)"
      "PushConst pg (o'\<lparr>co_wasm := p\<rparr>) (ucast v) 3 = Inr o''" by (auto simp: Compile_Const_f32_def tryR_Inr_iff)
    then show ?thesis using Read_f32.rd_bounds Read_f32.rd_progress PushConst_range' by (metis less_imp_le)
  next
    case f64
    then obtain v p where "Read_f64 w (co_wasm o') (co_wasmEnd o') = Inr (v, p)"
      "PushConst pg (o'\<lparr>co_wasm := p\<rparr>) v 4 = Inr o''" by (auto simp: Compile_Const_f64_def tryR_Inr_iff)
    then show ?thesis using Read_f64.rd_bounds Read_f64.rd_progress PushConst_range' by (metis less_imp_le)
  next
    case get
    then obtain v p g where "LEB_u32 w (co_wasm o') (co_wasmEnd o') = Inr (v, p)"
      "Compile_GetGlobal pg (o'\<lparr>co_wasm := p\<rparr>) (unat v) g = Inr o''"
      by (auto simp: Compile_GetSetGlobal_def m3_result Let_def split: if_splits)
    then show ?thesis using LEB_u32.rd_bounds LEB_u32.rd_progress Compile_GetGlobal_range by (metis less_imp_le)
  next
    case block_end
    then show ?thesis using emit_op_range
      by (fastforce simp: Compile_End_expr_def same_range_def split: if_splits)
  qed
qed

text \<open>\<^verbatim>\<open>CompileBlockStatements\<close> with \<^verbatim>\<open>o->function\<close> null.\<close>

function CompileBlockStatements_expr ::
    "(nat \<Rightarrow> bool) \<Rightarrow> M3Module \<Rightarrow> u8 list \<Rightarrow> M3Compilation \<Rightarrow> M3Compilation result" where
  "CompileBlockStatements_expr page_ok m w o' =
    (if co_wasm o' < co_wasmEnd o' then
       tryR (Read_opcode w (co_wasm o') (co_wasmEnd o')) (\<lambda>(opcode, p).
       tryR (compile_expr_op page_ok m w opcode (o'\<lparr>co_wasm := p\<rparr>)) (\<lambda>o'.
         if opcode = 0x0b then Inr o' else CompileBlockStatements_expr page_ok m w o'))
     else Inl m3Err_wasmMalformed)"
  by pat_completeness auto
termination
proof (relation "measure (\<lambda>(pg, m, w, o'). co_wasmEnd o' - co_wasm o')", goal_cases)
  case (2 pg m w o' r opcode p o'')
  then have "Read_opcode w (co_wasm o') (co_wasmEnd o') = Inr (opcode, p)" by simp
  then have "co_wasm o' < p" "p \<le> co_wasmEnd o'"
    using Read_opcode.rd_progress Read_opcode.rd_bounds 2(1) by (auto dest: less_imp_le)
  moreover have "co_wasmEnd o'' = co_wasmEnd o'" "p \<le> co_wasm o''"
    using compile_expr_op_range [OF 2(4)] by auto
  ultimately show ?case using 2(1) by auto
qed simp

declare CompileBlockStatements_expr.simps [simp del]

text \<open>The walk: no runtime, no page. On success the cursor stands behind the expression's end.\<close>

definition Parse_InitExpr :: "M3Module \<Rightarrow> u8 list \<Rightarrow> nat \<Rightarrow> nat \<Rightarrow> (unit \<times> nat) result" where
  "Parse_InitExpr m w io_bytes i_end =
    tryR (CompileBlockStatements_expr (\<lambda>_. True) m w (zero_compilation io_bytes i_end)) (\<lambda>o'. Inr ((), co_wasm o'))"

lemma CompileBlockStatements_expr_range:
  "CompileBlockStatements_expr pg m w o' = Inr o'' \<Longrightarrow>
    co_wasmEnd o'' = co_wasmEnd o' \<and> co_wasm o' < co_wasm o'' \<and> co_wasm o'' \<le> co_wasmEnd o'"
proof (induction pg m w o' rule: CompileBlockStatements_expr.induct)
  case (1 pg m w o')
  from 1(2) obtain opcode p o1 where lt: "co_wasm o' < co_wasmEnd o'"
    and rd: "Read_opcode w (co_wasm o') (co_wasmEnd o') = Inr (opcode, p)"
    and op: "compile_expr_op pg m w opcode (o'\<lparr>co_wasm := p\<rparr>) = Inr o1"
    and rest: "(if opcode = 0x0b then Inr o1 else CompileBlockStatements_expr pg m w o1) = Inr o''"
    by (auto simp: CompileBlockStatements_expr.simps [of pg m w o'] m3_result split: if_splits)
  have p: "co_wasm o' < p" "p \<le> co_wasmEnd o'"
    using Read_opcode.rd_progress [OF rd] Read_opcode.rd_bounds [OF rd] lt by auto
  with compile_expr_op_range [OF op] have o1: "co_wasmEnd o1 = co_wasmEnd o'" "p \<le> co_wasm o1" "co_wasm o1 \<le> co_wasmEnd o'"
    by auto
  show ?case
  proof (cases "opcode = 0x0b")
    case True
    with rest o1 p show ?thesis by auto
  next
    case False
    with rest have "CompileBlockStatements_expr pg m w o1 = Inr o''" by simp
    from 1(1) [OF lt rd refl op False this] o1 p show ?thesis by simp
  qed
qed

lemma compile_expr_op_local:
  assumes "agree_on (co_wasm o') (co_wasmEnd o') w w'" "co_wasm o' \<le> co_wasmEnd o'"
  shows "compile_expr_op pg m w opcode o' = compile_expr_op pg m w' opcode o'"
  by (simp add: compile_expr_op_def Compile_Const_i32_def Compile_Const_i64_def Compile_Const_f32_def
      Compile_Const_f64_def Compile_GetSetGlobal_def LEB_i32.rd_local [OF assms] LEB_i64.rd_local [OF assms]
      Read_f32.rd_local [OF assms] Read_f64.rd_local [OF assms] LEB_u32.rd_local [OF assms])

lemma CompileBlockStatements_expr_local:
  "agree_on (co_wasm o') (co_wasmEnd o') w w' \<Longrightarrow>
    CompileBlockStatements_expr pg m w o' = CompileBlockStatements_expr pg m w' o'"
proof (induction pg m w o' rule: CompileBlockStatements_expr.induct)
  case (1 pg m w o')
  show ?case
  proof (cases "co_wasm o' < co_wasmEnd o'")
    case lt: True
    have rd_eq: "Read_opcode w (co_wasm o') (co_wasmEnd o') = Read_opcode w' (co_wasm o') (co_wasmEnd o')"
      using Read_opcode.rd_local [OF 1(2)] lt by simp
    have step: "tryR (compile_expr_op pg m w opcode (o'\<lparr>co_wasm := p\<rparr>)) (\<lambda>o'. if opcode = 0x0b then Inr o' else CompileBlockStatements_expr pg m w o')
      = tryR (compile_expr_op pg m w' opcode (o'\<lparr>co_wasm := p\<rparr>)) (\<lambda>o'. if opcode = 0x0b then Inr o' else CompileBlockStatements_expr pg m w' o')"
      if rd: "Read_opcode w' (co_wasm o') (co_wasmEnd o') = Inr (opcode, p)" for opcode p
    proof -
      have p: "co_wasm o' \<le> p" "p \<le> co_wasmEnd o'" using Read_opcode.rd_bounds [OF rd] lt by auto
      have ag: "agree_on p (co_wasmEnd o') w w'" using agree_on_later [OF 1(2) p(1)] .
      have op_eq: "compile_expr_op pg m w opcode (o'\<lparr>co_wasm := p\<rparr>) = compile_expr_op pg m w' opcode (o'\<lparr>co_wasm := p\<rparr>)"
        by (rule compile_expr_op_local) (use ag p in simp_all)
      show ?thesis
        unfolding op_eq
      proof (rule tryR_cong [OF refl])
        fix o1 assume op: "compile_expr_op pg m w' opcode (o'\<lparr>co_wasm := p\<rparr>) = Inr o1"
        have o1: "co_wasmEnd o1 = co_wasmEnd o'" "p \<le> co_wasm o1" using compile_expr_op_range [OF op] by auto
        have "agree_on (co_wasm o1) (co_wasmEnd o1) w w'" using agree_on_later [OF ag o1(2)] o1(1) by simp
        then show "(if opcode = 0x0b then Inr o1 else CompileBlockStatements_expr pg m w o1)
            = (if opcode = 0x0b then Inr o1 else CompileBlockStatements_expr pg m w' o1)"
          using 1(1) [OF lt rd [folded rd_eq] refl op [folded op_eq]] by auto
      qed
    qed
    show ?thesis
      unfolding CompileBlockStatements_expr.simps [of pg m w o'] CompileBlockStatements_expr.simps [of pg m w' o'] rd_eq
      by (simp only: lt if_True, rule tryR_cong [OF refl], clarify, simp only: prod.case step)
  qed (simp add: CompileBlockStatements_expr.simps [of pg m w o'] CompileBlockStatements_expr.simps [of pg m w' o'])
qed

lemma zero_compilation_range [simp]: "co_wasm (zero_compilation p e) = p" "co_wasmEnd (zero_compilation p e) = e"
  by (simp_all add: zero_compilation_def)

interpretation Parse_InitExpr: progress_reader "Parse_InitExpr m" for m
proof
  fix w p e v q assume "Parse_InitExpr m w p e = Inr (v, q)"
  then show "p < q" and "p \<le> q \<and> q \<le> e"
    by (auto simp: Parse_InitExpr_def m3_result dest!: CompileBlockStatements_expr_range)
next
  fix w w' :: "u8 list" and p e :: nat assume "agree_on p e w w'"
  then show "Parse_InitExpr m w p e = Parse_InitExpr m w' p e"
    by (simp add: Parse_InitExpr_def CompileBlockStatements_expr_local [of "zero_compilation p e" w w'])
qed

section \<open>Evaluation\<close>

text \<open>\<open>rets\<close> are the result types of the block's function type.\<close>

fun PushBlockResults :: "M3Compilation \<Rightarrow> u8 list \<Rightarrow> M3Compilation result" where
  "PushBlockResults o' [] = Inr o'"
| "PushBlockResults o' (type # rets) =
    tryR (if rets = [] \<and> IsFpType type then PushRegister o' type else PushAllocatedSlot o' type) (\<lambda>o'.
      PushBlockResults o' rets)"

primrec pop_n :: "nat \<Rightarrow> M3Compilation \<Rightarrow> M3Compilation result" where
  "pop_n 0 o' = Inr o'"
| "pop_n (Suc n) o' = tryR (Pop o') (pop_n n)"

text \<open>
  \<^verbatim>\<open>CompileBlock\<close> for an expression: a block without parameters and without a function. The
  result slots are allocated and freed again, and their records stay below the block. (The code
  does not look at the results of \<^verbatim>\<open>PushBlockResults\<close> and \<^verbatim>\<open>Pop\<close> there; on the empty stack of an
  expression, with at most one result type, neither fails.)
\<close>

definition CompileBlock_expr ::
    "(nat \<Rightarrow> bool) \<Rightarrow> M3Module \<Rightarrow> u8 list \<Rightarrow> M3Compilation \<Rightarrow> u8 list \<Rightarrow> M3Compilation result" where
  "CompileBlock_expr page_ok m w o' rets =
    (let outerScope = block o';
         o' = o'\<lparr>outer := outerScope # outer o',
                 block := outerScope\<lparr>depth := depth outerScope + 1, sc_opcode := 0x02,
                                     exitStackIndex := stackIndex o'\<rparr>\<rparr> in
     tryR (PushBlockResults o' rets) (\<lambda>o'.
       let si = stackIndex o' in
       tryR (pop_n (length rets) o') (\<lambda>o'.
         let o' = o'\<lparr>stackIndex := si, block := (block o')\<lparr>blockStackIndex := si\<rparr>\<rparr> in
         tryR (CompileBlockStatements_expr page_ok m w o') (\<lambda>o'.
           Inr (o'\<lparr>block := outerScope, outer := tl (outer o')\<rparr>)))))"

text \<open>
  The operations an expression compiles to (\<^verbatim>\<open>op_Const32\<close>, \<^verbatim>\<open>op_Const64\<close>, \<^verbatim>\<open>op_GetGlobal_s32\<close>,
  \<^verbatim>\<open>op_GetGlobal_s64\<close>, \<^verbatim>\<open>op_Return\<close> of \<^verbatim>\<open>include/m3_exec.h\<close>) on a stack of 32-bit slots.
\<close>

definition put64 :: "(nat \<Rightarrow> u32) \<Rightarrow> nat \<Rightarrow> u64 \<Rightarrow> nat \<Rightarrow> u32" where
  "put64 st k v = st(k := ucast v, k + 1 := ucast (drop_bit 32 v))"

text \<open>\<^verbatim>\<open>immediate (TYPE)\<close>: the next word of the code.\<close>

fun immediate_op :: "code_word list \<Rightarrow> (m3_op \<times> code_word list) result" where
  "immediate_op (W_op op # pc) = Inr (op, pc)"
| "immediate_op pc = Inl C_undefined"

fun immediate_32 :: "code_word list \<Rightarrow> (u32 \<times> code_word list) result" where
  "immediate_32 (W_32 v # pc) = Inr (v, pc)"
| "immediate_32 pc = Inl C_undefined"

fun immediate_64 :: "code_word list \<Rightarrow> (u64 \<times> code_word list) result" where
  "immediate_64 (W_64 v # pc) = Inr (v, pc)"
| "immediate_64 pc = Inl C_undefined"

fun immediate_global :: "M3Global list \<Rightarrow> code_word list \<Rightarrow> (u64 \<times> code_word list) result" where
  "immediate_global gs (W_global i # pc) = (if i < length gs then Inr (gl_value (gs ! i), pc) else Inl C_undefined)"
| "immediate_global gs pc = Inl C_undefined"

definition exec_expr_op ::
    "M3Global list \<Rightarrow> m3_op \<Rightarrow> code_word list \<Rightarrow> (nat \<Rightarrow> u32) \<Rightarrow> ((nat \<Rightarrow> u32) \<times> code_word list) result" where
  "exec_expr_op gs op pc st =
    (case op of
       op_Const32 \<Rightarrow> tryR (immediate_32 pc) (\<lambda>(v, pc). tryR (immediate_32 pc) (\<lambda>(slot, pc). Inr (st(unat slot := v), pc)))
     | op_Const64 \<Rightarrow> tryR (immediate_64 pc) (\<lambda>(v, pc). tryR (immediate_32 pc) (\<lambda>(slot, pc). Inr (put64 st (unat slot) v, pc)))
     | op_GetGlobal_s32 \<Rightarrow> tryR (immediate_global gs pc) (\<lambda>(v, pc). tryR (immediate_32 pc) (\<lambda>(slot, pc). Inr (st(unat slot := ucast v), pc)))
     | op_GetGlobal_s64 \<Rightarrow> tryR (immediate_global gs pc) (\<lambda>(v, pc). tryR (immediate_32 pc) (\<lambda>(slot, pc). Inr (put64 st (unat slot) v, pc)))
     | _ \<Rightarrow> Inl C_undefined)"

lemma immediate_op_length: "immediate_op pc = Inr (v, pc') \<Longrightarrow> length pc = Suc (length pc')"
  by (cases pc rule: immediate_op.cases) auto

lemma immediate_lengths:
  "immediate_32 pc = Inr (v, pc') \<Longrightarrow> length pc' \<le> length pc" "immediate_64 pc = Inr (u, pc') \<Longrightarrow> length pc' \<le> length pc"
  "immediate_global gs pc = Inr (u, pc') \<Longrightarrow> length pc' \<le> length pc"
  by (cases pc rule: immediate_32.cases, auto, cases pc rule: immediate_64.cases, auto,
      cases "(gs, pc)" rule: immediate_global.cases, auto split: if_splits)

lemma exec_expr_op_length: "exec_expr_op gs op pc st = Inr (st', pc') \<Longrightarrow> length pc' \<le> length pc"
  by (auto simp: exec_expr_op_def m3_result split: m3_op.splits dest!: immediate_lengths)

function RunCode_expr :: "M3Global list \<Rightarrow> code_word list \<Rightarrow> (nat \<Rightarrow> u32) \<Rightarrow> (nat \<Rightarrow> u32) result" where
  "RunCode_expr gs pc st =
    tryR (immediate_op pc) (\<lambda>(op, pc).
      if op = op_Return then Inr st
      else tryR (exec_expr_op gs op pc st) (\<lambda>(st, pc). RunCode_expr gs pc st))"
  by pat_completeness auto
termination
  by (relation "measure (\<lambda>(gs, pc, st). length pc)") (auto dest!: immediate_op_length exec_expr_op_length)

declare RunCode_expr.simps [simp del]

text \<open>
  The value (as many of its bits as the type has), the cursor behind the expression and the
  runtime's stack afterwards. \<open>page\<close> says whether the temporary runtime gets a code page,
  \<open>numStackSlots\<close> is the size of the borrowed stack \<open>st\<close>.
\<close>

definition EvaluateExpression ::
    "bool \<Rightarrow> (nat \<Rightarrow> bool) \<Rightarrow> M3Module \<Rightarrow> u8 list \<Rightarrow> nat \<Rightarrow> (nat \<Rightarrow> u32) \<Rightarrow> u8 \<Rightarrow> nat \<Rightarrow> nat
      \<Rightarrow> (u64 \<times> nat \<times> (nat \<Rightarrow> u32)) result" where
  "EvaluateExpression page page_ok m w numStackSlots st i_type io_bytes i_end =
    (if page then
       let z = zero_compilation io_bytes i_end;
           o' = z\<lparr>has_page := True, block := (block z)\<lparr>depth := -1\<rparr>\<rparr> in
       tryR (CompileBlock_expr page_ok m w o' (if i_type = c_m3Type_none then [] else [i_type])) (\<lambda>o'.
         throwif m3Err_trapStackOverflow (unat (maxStackSlots o') \<ge> numStackSlots)
           (tryR (RunCode_expr (globals m) (code o') st) (\<lambda>st.
              Inr (if SizeOfType i_type = 4 then ucast (st 0) else get_const64 st 0, co_wasm o', st))))
     else Inl m3Err_mallocFailedCodePage)"

section \<open>Constant expressions evaluate to their constant\<close>

lemma Is64BitType_simps [simp]:
  "\<not> Is64BitType 1" "Is64BitType 2" "\<not> Is64BitType 3" "Is64BitType 4"
  by (simp_all add: Is64BitType_def)

text \<open>With no slot in use the allocator gives slot 0.\<close>

definition mark_first :: "M3Compilation \<Rightarrow> u8 \<Rightarrow> M3Compilation" where
  "mark_first o' ty = o'\<lparr>m3Slots := (\<lambda>s. if s < num_slots ty then 1 else 0),
     slotMaxAllocatedIndexPlusOne := max (slotMaxAllocatedIndexPlusOne o') (GetTypeNumSlots ty),
     maxStackSlots := max (maxStackSlots o') (GetTypeNumSlots ty)\<rparr>"

lemma AllocateSlots_first:
  assumes "slotFirstDynamicIndex o' = 0" "m3Slots o' = (\<lambda>_. 0)"
  shows "AllocateSlots o' ty = Inr (0, mark_first o' ty)"
proof -
  have al: "AlignSlotToType 0 ty = 0" by (simp add: AlignSlotToType_def GetTypeNumSlots_def Let_def)
  have f: "FindFreeSlots o' (GetTypeNumSlots ty) 0 4000 = Some 0"
    by (subst FindFreeSlots.simps) (simp add: assms(2) GetTypeNumSlots_def)
  have m1: "(\<lambda>_ :: nat. 0)(0 := 1) = (\<lambda>s. if s < 1 then 1 else (0::u8))" by (rule ext) auto
  have m2: "(\<lambda>_ :: nat. 0)(0 := 1, 1 := 1) = (\<lambda>s. if s < 2 then 1 else (0::u8))" by (rule ext) auto
  have mx: "max (max a 1) 2 = max a (2 :: u16)" for a :: u16 by (simp add: max.assoc)
  show ?thesis
  proof (cases "Is64BitType ty")
    case True
    have "MarkSlotsAllocated o' 0 (Suc (Suc 0)) = Inr (mark_first o' ty)"
      using m2 assms(2) True by (simp add: MarkSlotAllocated_def TouchSlot_def mark_first_def GetTypeNumSlots_def mx)
    then have "MarkSlotsAllocated o' 0 2 = Inr (mark_first o' ty)" by (simp only: numeral_2_eq_2)
    then show ?thesis using al f assms(1) True
      by (simp add: AllocateSlots_def AllocateSlotsWithinRange_def Let_def GetTypeNumSlots_def)
  next
    case False
    have "MarkSlotsAllocated o' 0 1 = Inr (mark_first o' ty)"
      using m1 assms(2) False by (simp add: MarkSlotAllocated_def TouchSlot_def mark_first_def GetTypeNumSlots_def)
    then show ?thesis using al f assms(1) False
      by (simp add: AllocateSlots_def AllocateSlotsWithinRange_def Let_def GetTypeNumSlots_def)
  qed
qed

text \<open>The state in which the statements of an expression start, up to the other fields.\<close>

definition expr_start :: "M3Compilation \<Rightarrow> bool" where
  "expr_start o' \<longleftrightarrow> has_page o' \<and> code o' = [] \<and> depth (block o') = 0 \<and> slotFirstConstIndex o' = 0
     \<and> slotMaxConstIndex o' = 0 \<and> slotFirstDynamicIndex o' = 0 \<and> m3Slots o' = (\<lambda>_. 0)
     \<and> stackIndex o' \<le> 1 \<and> maxStackSlots o' \<le> 2"

lemma expr_start_wasm [simp]: "expr_start (o'\<lparr>co_wasm := p\<rparr>) = expr_start o'"
  by (simp add: expr_start_def)

lemma Deallocate_first:
  assumes "m3Slots q = (\<lambda>s. if s < n then 1 else 0)"
  shows "DeallocateSlots q 0 n = q\<lparr>m3Slots := (\<lambda>_. 0)\<rparr>"
proof -
  have "(\<lambda>s. if 0 \<le> s \<and> s < 0 + n then (if s < n then 1 else 0) - 1 else if s < n then 1 else (0::u8)) = (\<lambda>_. 0)"
    for n :: nat by (rule ext) auto
  then show ?thesis by (simp only: DeallocateSlots_eq assms)
qed

lemma Pop_first:
  assumes "m3Slots q = (\<lambda>s. if s < num_slots ty then 1 else 0)" "stackIndex q = 1" "blockStackIndex (block q) = 0"
    "slotFirstDynamicIndex q = 0" "wasmStack q 0 = 0" "typeStack q 0 = ty"
  shows "Pop q = Inr (q\<lparr>stackIndex := 0, m3Slots := (\<lambda>_. 0)\<rparr>)"
proof -
  have "m3Slots (q\<lparr>stackIndex := 0\<rparr>) = (\<lambda>s. if s < num_slots ty then 1 else 0)" using assms(1) by simp
  from Deallocate_first [OF this] show ?thesis using assms(2-) num_slots_bounds [of ty]
    by (simp add: Pop_def Let_def IsRegisterSlotAlias_def DeallocateSlot_def)
qed

lemma CompileBlock_expr_start:
  assumes "ty \<in> {1, 2, 3, 4}"
  shows "\<exists>o2 b. expr_start o2 \<and> co_wasm o2 = p \<and> co_wasmEnd o2 = e \<and>
    CompileBlock_expr pg m w ((zero_compilation p e)\<lparr>has_page := True, block := (block (zero_compilation p e))\<lparr>depth := -1\<rparr>\<rparr>) [ty]
      = tryR (CompileBlockStatements_expr pg m w o2) (\<lambda>o'. Inr (o'\<lparr>block := b, outer := tl (outer o')\<rparr>))"
proof (cases "IsFpType ty")
  case True
  then show ?thesis
    by (intro exI conjI) (auto simp: CompileBlock_expr_def PushRegister_def Push_def Pop_def zero_compilation_def Let_def
        IsRegisterSlotAlias_def IsFpRegisterSlotAlias_def AllocateRegister_def DeallocateRegister_def expr_start_def)
next
  case False
  let ?o = "(zero_compilation p e)\<lparr>has_page := True, block := (block (zero_compilation p e))\<lparr>depth := 0, sc_opcode := 2,
      exitStackIndex := 0\<rparr>, outer := [(block (zero_compilation p e))\<lparr>depth := -1\<rparr>]\<rparr>"
  have al: "AllocateSlots ?o ty = Inr (0, mark_first ?o ty)"
    by (rule AllocateSlots_first) (simp_all add: zero_compilation_def)
  have push: "PushAllocatedSlot ?o ty = Inr (pushed (mark_first ?o ty) ty 0)"
    using al by (simp add: PushAllocatedSlot_def PushAllocatedSlotAndEmit_impl_def Push_eq IsRegisterSlotAlias_def)
      (simp add: mark_first_def zero_compilation_def)
  let ?q = "(pushed (mark_first ?o ty) ty 0)\<lparr>stackIndex := 0, m3Slots := (\<lambda>_. 0)\<rparr>"
  have pop: "Pop (pushed (mark_first ?o ty) ty 0) = Inr ?q"
    by (rule Pop_first) (simp_all add: pushed_def mark_first_def zero_compilation_def)
  have n: "GetTypeNumSlots ty \<le> 2" by (simp add: GetTypeNumSlots_def)
  show ?thesis
    by (intro exI [of _ "?q\<lparr>stackIndex := 1, block := (block ?q)\<lparr>blockStackIndex := 1\<rparr>\<rparr>"] exI conjI)
      (use push pop False n in \<open>auto simp: CompileBlock_expr_def Let_def expr_start_def pushed_def mark_first_def zero_compilation_def\<close>)
qed


lemma PushAllocatedSlotAndEmit_first:
  assumes "has_page o'" "slotFirstDynamicIndex o' = 0" "m3Slots o' = (\<lambda>_. 0)" "stackIndex o' \<le> 1" "maxStackSlots o' \<le> 2"
  shows "\<exists>q. PushAllocatedSlotAndEmit o' ty = Inr q \<and> code q = code o' @ [W_32 0] \<and> has_page q \<and> block q = block o'
    \<and> co_wasm q = co_wasm o' \<and> co_wasmEnd q = co_wasmEnd o' \<and> maxStackSlots q \<le> 2"
proof -
  have si: "unat (stackIndex o') < 2000" using assms(4) by (simp add: word_le_nat_alt)
  have n: "GetTypeNumSlots ty \<le> 2" by (simp add: GetTypeNumSlots_def)
  show ?thesis using AllocateSlots_first [OF assms(2,3)] si n assms(1,5)
    by (simp add: PushAllocatedSlotAndEmit_def PushAllocatedSlotAndEmit_impl_def Push_eq mark_first_def
        IsRegisterSlotAlias_def pushed_def emit_slot_def emit_word_def)
qed

lemma AllocateConstantSlots_none:
  assumes "slotFirstConstIndex o' = 0" "slotFirstDynamicIndex o' = 0"
  shows "AllocateConstantSlots o' ty = Inl m3Err_functionStackOverflow"
  using assms by (simp add: AllocateConstantSlots_def AllocateSlotsWithinRange_def Let_def FindFreeSlots.simps [of _ _ _ 0])

lemma PushConst_expr_start:
  assumes "expr_start o'"
  shows "\<exists>q. PushConst (\<lambda>_. True) o' x ty = Inr q
    \<and> code q = (if Is64BitType ty then [W_op op_Const64, W_64 x, W_32 0] else [W_op op_Const32, W_32 (ucast x), W_32 0])
    \<and> has_page q \<and> block q = block o' \<and> co_wasm q = co_wasm o' \<and> co_wasmEnd q = co_wasmEnd o' \<and> maxStackSlots q \<le> 2"
proof -
  let ?o = "o'\<lparr>requests := requests o' + 1\<rparr>"
  let ?p = "if Is64BitType ty then emit_word (emit_word ?o (W_op op_Const64)) (W_64 x)
    else emit_word (emit_word ?o (W_op op_Const32)) (W_32 (ucast x))"
  have "PushConst (\<lambda>_. True) o' x ty = PushInlineConst (\<lambda>_. True) o' x ty"
    using assms AllocateConstantSlots_none [of o' ty]
    by (simp add: PushConst_def expr_start_def Let_def find_const32_def)
  also have "\<dots> = PushAllocatedSlotAndEmit ?p ty"
    using assms by (simp add: PushInlineConst_def emit_op_def expr_start_def)
  moreover have "\<exists>q. PushAllocatedSlotAndEmit ?p ty = Inr q \<and> code q = code ?p @ [W_32 0] \<and> has_page q \<and> block q = block ?p
    \<and> co_wasm q = co_wasm ?p \<and> co_wasmEnd q = co_wasmEnd ?p \<and> maxStackSlots q \<le> 2"
    by (rule PushAllocatedSlotAndEmit_first) (use assms in \<open>auto simp: expr_start_def emit_word_def\<close>)
  ultimately show ?thesis using assms by (auto simp: expr_start_def emit_word_def)
qed


text \<open>Running the three words.\<close>

lemma RunCode_const:
  "RunCode_expr gs [W_op op_Const32, W_32 v, W_32 0, W_op op_Return] st = Inr (st(0 := v))"
  "RunCode_expr gs [W_op op_Const64, W_64 u, W_32 0, W_op op_Return] st = Inr (put64 st 0 u)"
  by (simp_all add: RunCode_expr.simps exec_expr_op_def)

lemma get_put64: "get_const64 (put64 st k v) k = v"
  by (rule bit_eqI) (auto simp: get_const64_def put64_def bit_simps)

lemma Compile_two:
  assumes "expr_start o'" "co_wasm o' < co_wasmEnd o'" "Read_opcode w (co_wasm o') (co_wasmEnd o') = Inr (opcode, p)" "opcode \<noteq> 0x0b"
    and "compile_expr_op (\<lambda>_. True) m w opcode (o'\<lparr>co_wasm := p\<rparr>) = PushConst (\<lambda>_. True) (o'\<lparr>co_wasm := q\<rparr>) x ty"
    and "q < co_wasmEnd o'" "w ! q = 0x0b"
  shows "\<exists>o''. CompileBlockStatements_expr (\<lambda>_. True) m w o' = Inr o'' \<and> co_wasm o'' = q + 1 \<and> maxStackSlots o'' \<le> 2
    \<and> code o'' = (if Is64BitType ty then [W_op op_Const64, W_64 x, W_32 0, W_op op_Return]
                else [W_op op_Const32, W_32 (ucast x), W_32 0, W_op op_Return])"
proof -
  obtain o1 where o1: "PushConst (\<lambda>_. True) (o'\<lparr>co_wasm := q\<rparr>) x ty = Inr o1"
    "code o1 = (if Is64BitType ty then [W_op op_Const64, W_64 x, W_32 0] else [W_op op_Const32, W_32 (ucast x), W_32 0])"
    "has_page o1" "block o1 = block o'" "co_wasm o1 = q" "co_wasmEnd o1 = co_wasmEnd o'" "maxStackSlots o1 \<le> 2"
    using PushConst_expr_start [of "o'\<lparr>co_wasm := q\<rparr>" x ty] assms(1) by auto
  have "depth (block o') = 0" using assms(1) by (simp add: expr_start_def)
  with o1 assms(6,7) have "CompileBlockStatements_expr (\<lambda>_. True) m w o1
      = Inr (emit_word (o1\<lparr>co_wasm := q + 1, requests := requests o1 + 1\<rparr>) (W_op op_Return))"
    by (subst CompileBlockStatements_expr.simps)
      (simp add: Read_opcode_def compile_expr_op_def Compile_End_expr_def emit_op_def)
  moreover have "CompileBlockStatements_expr (\<lambda>_. True) m w o' = CompileBlockStatements_expr (\<lambda>_. True) m w o1"
    using assms(2-5) o1(1) by (subst CompileBlockStatements_expr.simps) simp
  ultimately show ?thesis using o1 by (simp add: emit_word_def)
qed

lemma unat_eq_of_nat_8: "unat (b :: u8) = 11 \<Longrightarrow> b = 11"
  by (rule word_unat_eq_iff [THEN iffD2]) simp

lemma Evaluate_const:
  assumes "ty \<in> {1, 2, 3, 4}" "p < e" "w ! p = b" "b \<noteq> 0x0b" "q < e" "w ! q = 0x0b" "2 < n"
    and "\<And>o'. co_wasmEnd o' = e \<Longrightarrow> compile_expr_op (\<lambda>_. True) m w (ucast b) (o'\<lparr>co_wasm := p + 1\<rparr>)
        = PushConst (\<lambda>_. True) (o'\<lparr>co_wasm := q\<rparr>) x ty"
  shows "EvaluateExpression True (\<lambda>_. True) m w n st ty p e =
    (if Is64BitType ty then Inr (x, q + 1, put64 st 0 x)
     else Inr (ucast (ucast x :: u32), q + 1, st(0 := ucast x)))"
proof -
  obtain o2 bl where o2: "expr_start o2" "co_wasm o2 = p" "co_wasmEnd o2 = e"
    and cb: "CompileBlock_expr (\<lambda>_. True) m w ((zero_compilation p e)\<lparr>has_page := True, block := (block (zero_compilation p e))\<lparr>depth := -1\<rparr>\<rparr>) [ty]
      = tryR (CompileBlockStatements_expr (\<lambda>_. True) m w o2) (\<lambda>o'. Inr (o'\<lparr>block := bl, outer := tl (outer o')\<rparr>))"
    using CompileBlock_expr_start [OF assms(1)] by blast
  have "unat (ucast b :: u16) = unat b"
    using unsigned_less [where ?'a = nat, of b] by (simp add: unsigned_ucast_eq take_bit_nat_eq_self)
  moreover have "unat b \<noteq> 11" using assms(4) by (metis unat_eq_of_nat_8)
  ultimately have ob: "(ucast b :: u16) \<noteq> 0x0b" by auto
  have rd: "Read_opcode w (co_wasm o2) (co_wasmEnd o2) = Inr (ucast b, p + 1)"
    using assms(2,3) o2 by (simp add: Read_opcode_def)
  obtain o3 where o3: "CompileBlockStatements_expr (\<lambda>_. True) m w o2 = Inr o3" "co_wasm o3 = q + 1" "maxStackSlots o3 \<le> 2"
     "code o3 = (if Is64BitType ty then [W_op op_Const64, W_64 x, W_32 0, W_op op_Return]
                else [W_op op_Const32, W_32 (ucast x), W_32 0, W_op op_Return])"
    using Compile_two [OF o2(1) _ rd ob assms(8)] assms(2,5,6) o2 by auto
  have mx: "\<not> n \<le> unat (maxStackSlots o3)" using o3(3) assms(7) by (simp add: word_le_nat_alt)
  have sz: "SizeOfType ty = 4 \<longleftrightarrow> \<not> Is64BitType ty" "ty \<noteq> 0" using assms(1) by (auto simp: SizeOfType_def Is64BitType_def)
  show ?thesis using cb o3 mx sz
    by (simp add: EvaluateExpression_def Let_def throwif_def RunCode_const get_put64)
qed


text \<open>C20: a constant expression \<^verbatim>\<open>i64.const z; end\<close> (and, for 32-bit \<open>z\<close>, \<^verbatim>\<open>i32.const z; end\<close>) that
  lies inside its segment evaluates to \<open>z\<close> for every module, with the cursor left behind the
  \<^verbatim>\<open>end\<close>: it compiles to one constant operation and \<^verbatim>\<open>op_Return\<close>, and leaves the value in the
  first slot or slots of the borrowed stack.\<close>

theorem constant_expression_value:
  assumes "- (2 ^ 63) \<le> z" and "z < 2 ^ 63" and "length pre + length (sleb z) + 2 \<le> e" and "2 < n"
  shows "EvaluateExpression True (\<lambda>_. True) m (pre @ [0x42] @ sleb z @ [0x0b] @ post) n st c_m3Type_i64 (length pre) e
      = Inr (word_of_int z, length pre + length (sleb z) + 2, put64 st 0 (word_of_int z)) \<and>
    (- (2 ^ 31) \<le> z \<and> z < 2 ^ 31 \<longrightarrow>
      EvaluateExpression True (\<lambda>_. True) m (pre @ [0x41] @ sleb z @ [0x0b] @ post) n st c_m3Type_i32 (length pre) e
      = Inr (ucast (word_of_int z :: u32), length pre + length (sleb z) + 2, st(0 := word_of_int z)))"
proof (intro conjI impI, goal_cases)
  case 1
  let ?w = "pre @ [0x42] @ sleb z @ [0x0b] @ post" and ?q = "length pre + 1 + length (sleb z)"
  have rd: "ReadLEB_i64 ?w (length pre + 1) e = (None, word_of_int z, ?q)"
    using ReadLEB_i64_decode [of z "pre @ [0x42]" e "[0x0b] @ post"] assms by simp
  have "EvaluateExpression True (\<lambda>_. True) m ?w n st 2 (length pre) e
    = (if Is64BitType 2 then Inr (word_of_int z, ?q + 1, put64 st 0 (word_of_int z))
       else Inr (ucast (ucast (word_of_int z :: u64) :: u32), ?q + 1, st(0 := ucast (word_of_int z :: u64))))"
    by (rule Evaluate_const [where b = "0x42"])
      (use assms rd in \<open>auto simp: nth_append compile_expr_op_def Compile_Const_i64_def checked_def\<close>)
  then show ?case by simp
next
  case 2
  let ?w = "pre @ [0x41] @ sleb z @ [0x0b] @ post" and ?q = "length pre + 1 + length (sleb z)"
  let ?x = "scast (word_of_int z :: u32) :: u64"
  have rd: "ReadLEB_i32 ?w (length pre + 1) e = (None, word_of_int z, ?q)"
    using ReadLEB_i32_decode [of z "pre @ [0x41]" e "[0x0b] @ post"] assms 2 by simp
  have x: "ucast ?x = (word_of_int z :: u32)" by (rule bit_word_eqI) (simp add: bit_simps)
  have "EvaluateExpression True (\<lambda>_. True) m ?w n st 1 (length pre) e
    = (if Is64BitType 1 then Inr (?x, ?q + 1, put64 st 0 ?x) else Inr (ucast (ucast ?x :: u32), ?q + 1, st(0 := ucast ?x)))"
    by (rule Evaluate_const [where b = "0x41"])
      (use assms rd in \<open>auto simp: nth_append compile_expr_op_def Compile_Const_i32_def checked_def\<close>)
  then show ?case by (simp add: x)
qed

theorem constant_expression_value_witness:
  "EvaluateExpression True (\<lambda>_. True) zero_module ([] @ [0x41] @ sleb (-5) @ [0x0b] @ []) 3 (\<lambda>_. 0) 1 0 3
    = Inr (ucast (word_of_int (-5) :: u32), 3, (\<lambda>_. 0)(0 := word_of_int (-5)))"
  using constant_expression_value [of "-5" "[]" 3 3 zero_module "[]" "\<lambda>_. 0"] by (simp add: sleb.simps)

section \<open>The walk and the evaluation read the same bytes\<close>

lemma compile_expr_op_cursor:
  assumes "compile_expr_op pg m w opcode p = Inr p'" "compile_expr_op pg' m' w opcode q = Inr q'" "same_range p q"
  shows "same_range p' q'"
proof -
  have "co_wasmEnd p' = co_wasmEnd q'"
    using compile_expr_op_range [OF assms(1)] compile_expr_op_range [OF assms(2)] assms(3) by (simp add: same_range_def)
  moreover have "co_wasm p' = co_wasm q'"
    using assms
    by (auto simp: compile_expr_op_def Compile_Const_i32_def Compile_Const_i64_def Compile_Const_f32_def Compile_Const_f64_def
        Compile_GetSetGlobal_def Compile_End_expr_def m3_result Let_def same_range_def
        split: if_splits dest!: PushConst_range' Compile_GetGlobal_range emit_op_range)
  ultimately show ?thesis by (simp add: same_range_def)
qed

lemma CompileBlockStatements_expr_cursor:
  "CompileBlockStatements_expr pg m w p = Inr p' \<Longrightarrow> CompileBlockStatements_expr pg' m' w q = Inr q'
    \<Longrightarrow> same_range p q \<Longrightarrow> same_range p' q'"
proof (induction pg m w p arbitrary: q rule: CompileBlockStatements_expr.induct)
  case (1 pg m w p)
  have eq: "co_wasm q = co_wasm p" "co_wasmEnd q = co_wasmEnd p" using 1(4) by (simp_all add: same_range_def)
  from 1(2) obtain opcode r p1 where lt: "co_wasm p < co_wasmEnd p"
    and rd: "Read_opcode w (co_wasm p) (co_wasmEnd p) = Inr (opcode, r)"
    and op: "compile_expr_op pg m w opcode (p\<lparr>co_wasm := r\<rparr>) = Inr p1"
    and rest: "(if opcode = 0x0b then Inr p1 else CompileBlockStatements_expr pg m w p1) = Inr p'"
    by (auto simp: CompileBlockStatements_expr.simps [of pg m w p] m3_result split: if_splits)
  from 1(3) lt rd eq obtain q1 where op': "compile_expr_op pg' m' w opcode (q\<lparr>co_wasm := r\<rparr>) = Inr q1"
    and rest': "(if opcode = 0x0b then Inr q1 else CompileBlockStatements_expr pg' m' w q1) = Inr q'"
    by (auto simp: CompileBlockStatements_expr.simps [of pg' m' w q] m3_result split: if_splits)
  have s: "same_range p1 q1" by (rule compile_expr_op_cursor [OF op op']) (use eq in \<open>simp add: same_range_def\<close>)
  then show ?case using 1(1) [OF lt rd refl op] rest rest' by (cases "opcode = 0x0b") auto
qed

lemma PushBlockResults_range: "PushBlockResults o' rets = Inr o'' \<Longrightarrow> same_range o'' o'"
proof (induction o' rets rule: PushBlockResults.induct)
  case (2 o' type rets)
  then obtain o1 where o1: "(if rets = [] \<and> IsFpType type then PushRegister o' type else PushAllocatedSlot o' type) = Inr o1"
    "PushBlockResults o1 rets = Inr o''" by (auto simp: m3_result)
  have "same_range o1 o'"
    using o1(1) Push_range AllocateSlotsWithinRange_range
    by (fastforce simp: PushRegister_def PushAllocatedSlot_def PushAllocatedSlotAndEmit_impl_def AllocateSlots_def m3_result
      same_range_def Let_def split: if_splits)
  with 2(1) [OF o1] show ?case by (simp add: same_range_def)
qed (simp add: same_range_def)

lemma DeallocateSlots_range: "same_range (DeallocateSlots o' j n) q = same_range o' q"
  by (simp add: DeallocateSlots_eq same_range_def)

lemma pop_n_range: "pop_n n o' = Inr o'' \<Longrightarrow> same_range o'' o'"
proof (induction n arbitrary: o')
  case (Suc n)
  then obtain o1 where o1: "Pop o' = Inr o1" "pop_n n o1 = Inr o''" by (auto simp: m3_result)
  have "same_range o1 o'" using o1(1) DeallocateSlots_range
    by (auto simp: Pop_def Let_def DeallocateSlot_def DeallocateRegister_def same_range_def DeallocateSlots_eq split: if_splits)
  with Suc.IH [OF o1(2)] show ?case by (simp add: same_range_def)
qed (simp add: same_range_def)

text \<open>The walk with which the parser skips a constant expression and the later evaluation of
  the same bytes end at the same position, for every module, value type and page allocation, so
  sections parsed around an expression and the values computed from it cannot drift apart.\<close>

theorem walk_and_evaluation_agree:
  assumes "Parse_InitExpr m w p e = Inr ((), q)"
    and "EvaluateExpression page page_ok m' w n st ty p e = Inr (v, q', st')"
  shows "q' = q \<and> p < q \<and> q \<le> e"
proof -
  let ?z = "(zero_compilation p e)\<lparr>has_page := True, block := (block (zero_compilation p e))\<lparr>depth := -1\<rparr>\<rparr>"
  obtain o1 where o1: "CompileBlockStatements_expr (\<lambda>_. True) m w (zero_compilation p e) = Inr o1" "co_wasm o1 = q"
    using assms(1) by (auto simp: Parse_InitExpr_def m3_result)
  obtain o2 where o2: "CompileBlock_expr page_ok m' w ?z (if ty = 0 then [] else [ty]) = Inr o2" "co_wasm o2 = q'"
    using assms(2) by (auto simp: EvaluateExpression_def m3_result Let_def split: if_splits)
  obtain a b c where abc: "PushBlockResults (?z\<lparr>outer := [block ?z], block := (block ?z)\<lparr>depth := 0, sc_opcode := 2, exitStackIndex := 0\<rparr>\<rparr>)
        (if ty = 0 then [] else [ty]) = Inr a"
    "pop_n (length (if ty = 0 then [] else [ty])) a = Inr b"
    "CompileBlockStatements_expr page_ok m' w (b\<lparr>stackIndex := stackIndex a, block := (block b)\<lparr>blockStackIndex := stackIndex a\<rparr>\<rparr>) = Inr c"
    "co_wasm c = q'"
    using o2 by (auto simp: CompileBlock_expr_def Let_def m3_result zero_compilation_def)
  have "same_range (zero_compilation p e) (b\<lparr>stackIndex := stackIndex a, block := (block b)\<lparr>blockStackIndex := stackIndex a\<rparr>\<rparr>)"
    using PushBlockResults_range [OF abc(1)] pop_n_range [OF abc(2)] by (simp add: same_range_def)
  from CompileBlockStatements_expr_cursor [OF o1(1) abc(3) this] o1(2) abc(4)
    CompileBlockStatements_expr_range [OF o1(1)] show ?thesis by (simp add: same_range_def)
qed

theorem walk_and_evaluation_agree_witness:
  "\<exists>q v q' st'. Parse_InitExpr zero_module [0x41, 5, 0x0b] 0 3 = Inr ((), q)
    \<and> EvaluateExpression True (\<lambda>_. True) zero_module [0x41, 5, 0x0b] 3 (\<lambda>_. 0) 1 0 3 = Inr (v, q', st') \<and> q' = q"
proof -
  have rd: "ReadLEB_i32 [0x41, 5, 0x0b] (Suc 0) 3 = (None, 5, 2)"
    using ReadLEB_i32_decode [of 5 "[0x41]" 3 "[0x0b]"] by (simp add: sleb.simps)
  have p: "Parse_InitExpr zero_module [0x41, 5, 0x0b] 0 3 = Inr ((), 3)"
    by (simp add: Parse_InitExpr_def CompileBlockStatements_expr.simps Read_opcode_def compile_expr_op_def
        Compile_Const_i32_def rd checked_def PushConst_def zero_compilation_def Compile_End_expr_def emit_op_def)
  have e: "EvaluateExpression True (\<lambda>_. True) zero_module [0x41, 5, 0x0b] 3 (\<lambda>_. 0) 1 0 3
    = (if Is64BitType 1 then Inr (5, 2 + 1, put64 (\<lambda>_. 0) 0 5) else Inr (ucast (ucast (5 :: u64) :: u32), 2 + 1, (\<lambda>_. 0)(0 := ucast (5 :: u64))))"
    by (rule Evaluate_const [where b = "0x41"]) (auto simp: compile_expr_op_def Compile_Const_i32_def checked_def rd)
  then obtain v q' st' where ev: "EvaluateExpression True (\<lambda>_. True) zero_module [0x41, 5, 0x0b] 3 (\<lambda>_. 0) 1 0 3 = Inr (v, q', st')"
    by simp
  from walk_and_evaluation_agree [OF p ev] p ev show ?thesis by blast
qed

end
