(* ===== verification/M3_Parse.thy ===== *)
theory M3_Parse
  imports M3_Expr
begin

text \<open>
  The module parser, \<^verbatim>\<open>src/m3_parse.c\<close>. Every section parser takes the module built so far and
  a range \<open>[i_bytes, i_end)\<close> of the bytes \<open>w\<close>; it returns the module, or the error with the
  module it leaves behind, which \<^verbatim>\<open>m3_FreeModule\<close> then frees. The type section also threads
  the environment, whose pool keeps its types when the module is rejected. The host's custom
  section handler is a parameter.
\<close>

unbundle bit_operations_syntax

section \<open>Errors that keep the module\<close>

type_synonym 'a parse = "(m3_error \<times> M3Module) + 'a"

definition at_state :: "'s \<Rightarrow> m3_error + 'a \<Rightarrow> (m3_error \<times> 's) + 'a" where
  "at_state s r = (case r of Inl e \<Rightarrow> Inl (e, s) | Inr x \<Rightarrow> Inr x)"

fun returned :: "m3_error option \<times> 'a \<Rightarrow> (m3_error \<times> 'a) + 'a" where
  "returned (None, m) = Inr m"
| "returned (Some e, m) = Inl (e, m)"

lemma at_state_Inr_iff [m3_result]: "at_state s r = Inr x \<longleftrightarrow> r = Inr x"
  by (simp add: at_state_def split: sum.splits)

lemma returned_Inr_iff [m3_result]: "returned r = Inr m \<longleftrightarrow> r = (None, m)"
  by (cases r rule: returned.cases) auto

text \<open>
  The counted loops of the parser: \<open>step w s p e\<close> is one iteration from the cursor \<open>p\<close>, with the
  loop's state \<open>s\<close>.
\<close>

fun step_many ::
    "(u8 list \<Rightarrow> 's \<Rightarrow> nat \<Rightarrow> nat \<Rightarrow> 'x + ('s \<times> nat)) \<Rightarrow> nat \<Rightarrow> u8 list \<Rightarrow> 's \<Rightarrow> nat \<Rightarrow> nat \<Rightarrow> 'x + ('s \<times> nat)" where
  "step_many step 0 w s p e = Inr (s, p)"
| "step_many step (Suc n) w s p e = tryR (step w s p e) (\<lambda>(s, p). step_many step n w s p e)"

text \<open>A value type: \<^verbatim>\<open>ReadLEB_i7\<close>, then \<^verbatim>\<open>NormalizeType\<close>.\<close>

definition Read_valtype :: "u8 list \<Rightarrow> nat \<Rightarrow> nat \<Rightarrow> (u8 \<times> nat) result" where
  "Read_valtype w p e =
    tryR (checked (ReadLEB_i7 w p e)) (\<lambda>(waType, p).
      case NormalizeType waType of (Some err, _) \<Rightarrow> Inl err | (None, type) \<Rightarrow> Inr (type, p))"

section \<open>Memory types\<close>

text \<open>Fields are stored as they are read, also before an error.\<close>

definition ParseType_Memory ::
    "u8 list \<Rightarrow> M3MemoryInfo \<Rightarrow> nat \<Rightarrow> nat \<Rightarrow> m3_error option \<times> M3MemoryInfo \<times> nat" where
  "ParseType_Memory w o_memory io_bytes i_end =
    (let (r, flag, p) = ReadLEB_u7 w io_bytes i_end in
     if r \<noteq> None then (r, o_memory, p) else
     let (r, v, p) = ReadLEB_u32 w p i_end; mem = o_memory\<lparr>initPages := v\<rparr> in
     if r \<noteq> None then (r, mem, p) else
     let (r, v, p) = (if bit flag 0 then ReadLEB_u32 w p i_end else (None, 0, p)); mem = mem\<lparr>mi_maxPages := v\<rparr> in
     if r \<noteq> None then (r, mem, p) else
     let mem = mem\<lparr>mi_pageSize := 0\<rparr> in
     if bit flag 3 then
       let (r, logPageSize, p) = ReadLEB_u32 w p i_end in
       if r \<noteq> None then (r, mem, p)
       else if unat logPageSize \<ge> 32 then (Some C_undefined, mem, p)
       else (None, mem\<lparr>mi_pageSize := push_bit (unat logPageSize) 1\<rparr>, p)
     else (None, mem, p))"

section \<open>The type section\<close>

text \<open>One function type: the returns stand before the arguments in \<^verbatim>\<open>types\<close>.\<close>

definition Read_functype :: "(nat \<Rightarrow> bool) \<Rightarrow> u8 list \<Rightarrow> nat \<Rightarrow> nat \<Rightarrow> (M3FuncType \<times> nat) result" where
  "Read_functype calloc_ok w p e =
    tryR (checked (ReadLEB_i7 w p e)) (\<lambda>(form, p).
    throwif m3Err_wasmMalformed (form \<noteq> -32)
    (tryR (checked (ReadLEB_u32 w p e)) (\<lambda>(numArgs, p).
    throwif m3Err_tooManyArgsRets (unat numArgs > d_m3MaxSaneFunctionArgRetCount)
    (tryR (read_many Read_valtype (unat numArgs) w p e) (\<lambda>(argTypes, p).
    tryR (checked (ReadLEB_u32 w p e)) (\<lambda>(numRets, p).
    throwif m3Err_tooManyArgsRets (unat numRets + unat numArgs > d_m3MaxSaneFunctionArgRetCount)
    (tryR (AllocFuncType calloc_ok (numRets + numArgs)) (\<lambda>ftype.
    let ftype = ftype\<lparr>ft_numArgs := ucast numArgs, ft_numRets := ucast numRets\<rparr> in
    tryR (read_many Read_valtype (unat numRets) w p e) (\<lambda>(retTypes, p).
      Inr (ftype\<lparr>ft_types := retTypes @ argTypes\<rparr>, p))))))))))"

type_synonym env_module = "M3Environment \<times> M3Module"

text \<open>The loop's state carries its variable \<open>i\<close>.\<close>

definition Type_step ::
    "(nat \<Rightarrow> bool) \<Rightarrow> u8 list \<Rightarrow> env_module \<times> nat \<Rightarrow> nat \<Rightarrow> nat \<Rightarrow> (m3_error \<times> env_module) + (env_module \<times> nat) \<times> nat" where
  "Type_step calloc_ok w s p i_end =
    (case s of ((env, m), i) \<Rightarrow>
      tryR (at_state (env, m) (Read_functype calloc_ok w p i_end)) (\<lambda>(ftype, p).
        let (pool, q) = Environment_AddFuncType (funcTypes env) ftype in
        Inr (((env\<lparr>funcTypes := pool\<rparr>, m\<lparr>m_funcTypes := (m_funcTypes m)[i := Some q]\<rparr>), i + 1), p)))"

definition ParseSection_Type ::
    "(nat \<Rightarrow> bool) \<Rightarrow> u8 list \<Rightarrow> env_module \<Rightarrow> nat \<Rightarrow> nat \<Rightarrow> (m3_error \<times> env_module) + env_module" where
  "ParseSection_Type calloc_ok w em i_bytes i_end =
    (case (case em of (env, m) \<Rightarrow>
        tryR (at_state em (checked (ReadLEB_u32 w i_bytes i_end))) (\<lambda>(numTypes, p).
        throwif (M3Msg ''too many types'', em) (numTypes > 1000000)
         (if numTypes \<noteq> 0 then
            throwif (m3Err_mallocFailed, em) (\<not> calloc_ok (8 * unat numTypes))
             (tryR (step_many (Type_step calloc_ok) (unat numTypes) w
                 ((env, m\<lparr>m_funcTypes := replicate (unat numTypes) None, numFuncTypes := numTypes\<rparr>), 0) p i_end)
               (\<lambda>((em, i), p). Inr em))
          else Inr em))) of
       Inr em \<Rightarrow> Inr em
     | Inl (e, (env, m)) \<Rightarrow> Inl (e, (env, m\<lparr>m_funcTypes := [], numFuncTypes := 0\<rparr>)))"

section \<open>The function section\<close>

definition Function_step :: "(nat \<Rightarrow> bool) \<Rightarrow> u8 list \<Rightarrow> M3Module \<Rightarrow> nat \<Rightarrow> nat \<Rightarrow> (M3Module \<times> nat) parse" where
  "Function_step calloc_ok w m p i_end =
    tryR (at_state m (checked (ReadLEB_u32 w p i_end))) (\<lambda>(funcTypeIndex, p).
    tryR (returned (Module_AddFunction calloc_ok m funcTypeIndex None)) (\<lambda>m. Inr (m, p)))"

definition ParseSection_Function :: "(nat \<Rightarrow> bool) \<Rightarrow> u8 list \<Rightarrow> M3Module \<Rightarrow> nat \<Rightarrow> nat \<Rightarrow> M3Module parse" where
  "ParseSection_Function calloc_ok w m i_bytes i_end =
    tryR (at_state m (checked (ReadLEB_u32 w i_bytes i_end))) (\<lambda>(n, p).
    throwif (M3Msg ''too many functions'', m) (n > 1000000)
    (tryR (returned (Module_PreallocFunctions calloc_ok m (numFunctions m + n))) (\<lambda>m.
      tryR (step_many (Function_step calloc_ok) (unat n) w m p i_end) (\<lambda>(m, p). Inr m))))"

section \<open>The import section\<close>

definition Import_function ::
    "(nat \<Rightarrow> bool) \<Rightarrow> u8 list \<Rightarrow> nat \<Rightarrow> M3ImportInfo \<Rightarrow> M3Module \<Rightarrow> nat \<Rightarrow> (M3Module \<times> nat) parse" where
  "Import_function calloc_ok w i_end import m p =
    tryR (at_state m (checked (ReadLEB_u32 w p i_end))) (\<lambda>(typeIndex, p).
    tryR (returned (Module_AddFunction calloc_ok m typeIndex (Some import))) (\<lambda>m.
      Inr (m\<lparr>numFuncImports := numFuncImports m + 1\<rparr>, p)))"

definition Import_memory :: "u8 list \<Rightarrow> nat \<Rightarrow> M3ImportInfo \<Rightarrow> M3Module \<Rightarrow> nat \<Rightarrow> (M3Module \<times> nat) parse" where
  "Import_memory w i_end import m p =
    (let (r, mem, p) = ParseType_Memory w (memoryInfo m) p i_end in
     tryR (returned (r, m\<lparr>memoryInfo := mem\<rparr>)) (\<lambda>m.
       Inr (m\<lparr>memoryImported := True, memoryImport := import\<rparr>, p)))"

text \<open>A global's type byte and its mutability, then the global itself with its index.\<close>

definition Read_globaltype :: "u8 list \<Rightarrow> nat \<Rightarrow> nat \<Rightarrow> ((u8 \<times> bool) \<times> nat) result" where
  "Read_globaltype w p i_end =
    tryR (Read_valtype w p i_end) (\<lambda>(type, p).
    tryR (checked (ReadLEB_u7 w p i_end)) (\<lambda>(isMutable, p). Inr ((type, isMutable \<noteq> 0), p)))"

definition add_global :: "(nat \<Rightarrow> bool) \<Rightarrow> M3Module \<Rightarrow> u8 \<Rightarrow> bool \<Rightarrow> bool \<Rightarrow> (M3Module \<times> nat) parse" where
  "add_global calloc_ok m type mut imp =
    (let (r, m, i) = Module_AddGlobal calloc_ok m type mut imp in
     case r of Some e \<Rightarrow> Inl (e, m) | None \<Rightarrow> Inr (m, i))"

definition update_global :: "nat \<Rightarrow> (M3Global \<Rightarrow> M3Global) \<Rightarrow> M3Module \<Rightarrow> M3Module" where
  "update_global i f m = m\<lparr>globals := (globals m)[i := f (globals m ! i)]\<rparr>"

definition Import_global ::
    "(nat \<Rightarrow> bool) \<Rightarrow> u8 list \<Rightarrow> nat \<Rightarrow> M3ImportInfo \<Rightarrow> M3Module \<Rightarrow> nat \<Rightarrow> (M3Module \<times> nat) parse" where
  "Import_global calloc_ok w i_end import m p =
    tryR (at_state m (Read_globaltype w p i_end)) (\<lambda>((type, isMutable), p).
    tryR (add_global calloc_ok m type isMutable True) (\<lambda>(m, i).
      Inr (update_global i (\<lambda>g. g\<lparr>gl_import := import\<rparr>) m, p)))"

text \<open>One import; a table import's type is not read.\<close>

definition Import_step ::
    "(nat \<Rightarrow> bool) \<Rightarrow> u8 list \<Rightarrow> M3Module \<Rightarrow> nat \<Rightarrow> nat \<Rightarrow> (M3Module \<times> nat) parse" where
  "Import_step calloc_ok w m p i_end =
    tryR (at_state m (Read_utf8 calloc_ok w p i_end)) (\<lambda>(mo, p).
    tryR (at_state m (Read_utf8 calloc_ok w p i_end)) (\<lambda>(fi, p).
    tryR (at_state m (Read_u8 w p i_end)) (\<lambda>(importKind, p).
      let import = \<lparr>moduleUtf8 = mo, fieldUtf8 = fi\<rparr> in
      if importKind = 0 then Import_function calloc_ok w i_end import m p
      else if importKind = 1 then Inr (m, p)
      else if importKind = 2 then Import_memory w i_end import m p
      else if importKind = 3 then Import_global calloc_ok w i_end import m p
      else Inl (m3Err_wasmMalformed, m))))"

definition ParseSection_Import :: "(nat \<Rightarrow> bool) \<Rightarrow> u8 list \<Rightarrow> M3Module \<Rightarrow> nat \<Rightarrow> nat \<Rightarrow> M3Module parse" where
  "ParseSection_Import calloc_ok w m i_bytes i_end =
    tryR (at_state m (checked (ReadLEB_u32 w i_bytes i_end))) (\<lambda>(numImports, p).
    throwif (M3Msg ''too many imports'', m) (numImports > 100000)
    (tryR (returned (Module_PreallocFunctions calloc_ok m numImports)) (\<lambda>m.
      tryR (step_many (Import_step calloc_ok) (unat numImports) w m p i_end) (\<lambda>(m, p). Inr m))))"

section \<open>The export section\<close>

definition Export_function :: "M3Module \<Rightarrow> u8 list option \<Rightarrow> u32 \<Rightarrow> M3Module parse" where
  "Export_function m utf8 index =
    throwif (m3Err_wasmMalformed, m) (index \<ge> numFunctions m)
     (throwif (C_undefined, m) (\<not> unat index < length (m_functions m))
       (let func = m_functions m ! unat index in
        if unat (numNames func) < d_m3MaxDuplicateFunctionImpl
        then Inr (m\<lparr>m_functions := (m_functions m)[unat index :=
               func\<lparr>names := (names func)[unat (numNames func) := utf8], numNames := numNames func + 1,
                    export_name := utf8\<rparr>]\<rparr>)
        else Inr m))"

definition Export_global :: "M3Module \<Rightarrow> u8 list option \<Rightarrow> u32 \<Rightarrow> M3Module parse" where
  "Export_global m utf8 index =
    throwif (m3Err_wasmMalformed, m) (index \<ge> numGlobals m)
     (throwif (C_undefined, m) (\<not> unat index < length (globals m))
       (Inr (update_global (unat index) (\<lambda>g. g\<lparr>gl_name := utf8\<rparr>) m)))"

definition Export_step ::
    "(nat \<Rightarrow> bool) \<Rightarrow> u8 list \<Rightarrow> M3Module \<Rightarrow> nat \<Rightarrow> nat \<Rightarrow> (M3Module \<times> nat) parse" where
  "Export_step calloc_ok w m p i_end =
    tryR (at_state m (Read_utf8 calloc_ok w p i_end)) (\<lambda>(utf8, p).
    tryR (at_state m (Read_u8 w p i_end)) (\<lambda>(exportKind, p).
    tryR (at_state m (checked (ReadLEB_u32 w p i_end))) (\<lambda>(index, p).
    tryR (if exportKind = 0 then Export_function m utf8 index
          else if exportKind = 3 then Export_global m utf8 index
          else if exportKind = 2 then Inr (m\<lparr>memoryExportName := utf8\<rparr>)
          else if exportKind = 1 then Inr (m\<lparr>table0ExportName := utf8\<rparr>)
          else Inr m) (\<lambda>m. Inr (m, p)))))"

definition ParseSection_Export :: "(nat \<Rightarrow> bool) \<Rightarrow> u8 list \<Rightarrow> M3Module \<Rightarrow> nat \<Rightarrow> nat \<Rightarrow> M3Module parse" where
  "ParseSection_Export calloc_ok w m i_bytes i_end =
    tryR (at_state m (checked (ReadLEB_u32 w i_bytes i_end))) (\<lambda>(numExports, p).
    throwif (M3Msg ''too many exports'', m) (numExports > 100000)
      (tryR (step_many (Export_step calloc_ok) (unat numExports) w m p i_end) (\<lambda>(m, p). Inr m)))"

section \<open>Start, elements, code\<close>

definition ParseSection_Start :: "u8 list \<Rightarrow> M3Module \<Rightarrow> nat \<Rightarrow> nat \<Rightarrow> M3Module parse" where
  "ParseSection_Start w m i_bytes i_end =
    tryR (at_state m (checked (ReadLEB_u32 w i_bytes i_end))) (\<lambda>(startFuncIndex, p).
      if startFuncIndex < numFunctions m then Inr (m\<lparr>startFunction := sint startFuncIndex\<rparr>)
      else Inl (M3Msg ''start function index out of bounds'', m))"

definition ParseSection_Element :: "u8 list \<Rightarrow> M3Module \<Rightarrow> nat \<Rightarrow> nat \<Rightarrow> M3Module parse" where
  "ParseSection_Element w m i_bytes i_end =
    tryR (at_state m (checked (ReadLEB_u32 w i_bytes i_end))) (\<lambda>(numSegments, p).
    throwif (M3Msg ''too many element segments'', m) (numSegments > 10000000)
      (Inr (m\<lparr>elementSection := p, elementSectionEnd := i_end, numElementSegments := numSegments\<rparr>)))"

text \<open>A body that is not empty is the range from its size field to its end. The state carries \<open>f\<close>.\<close>

definition Code_step ::
    "u8 list \<Rightarrow> M3Module \<times> u32 \<Rightarrow> nat \<Rightarrow> nat \<Rightarrow> ((M3Module \<times> u32) \<times> nat) parse" where
  "Code_step w s start i_end =
    (case s of (m, f) \<Rightarrow>
      tryR (at_state m (checked (ReadLEB_u32 w start i_end))) (\<lambda>(size, p).
        if size \<noteq> 0 then
          let p = p + unat size in
          if p \<le> i_end then
            (case Module_GetFunction m (f + numFuncImports m) of
               None \<Rightarrow> Inl (C_undefined, m)
             | Some i \<Rightarrow>
                 throwif (C_undefined, m) (\<not> i < length (m_functions m))
                  (Inr ((m\<lparr>m_functions := (m_functions m)[i :=
                     (m_functions m ! i)\<lparr>fn_wasm := Some start, fn_wasmEnd := Some p\<rparr>]\<rparr>, f + 1), p)))
          else Inl (m3Err_wasmSectionOverrun, m)
        else Inr ((m, f + 1), p)))"

definition ParseSection_Code :: "u8 list \<Rightarrow> M3Module \<Rightarrow> nat \<Rightarrow> nat \<Rightarrow> M3Module parse" where
  "ParseSection_Code w m i_bytes i_end =
    tryR (at_state m (checked (ReadLEB_u32 w i_bytes i_end))) (\<lambda>(n, p).
      if n \<noteq> numFunctions m - numFuncImports m
      then Inl (M3Msg ''mismatched function count in code section'', m)
      else tryR (step_many Code_step (unat n) w (m, 0) p i_end) (\<lambda>((m, f), p).
        if p \<noteq> i_end then Inl (m3Err_wasmSectionUnderrun, m) else Inr m))"

section \<open>Data, memories, globals\<close>

definition zero_segment :: M3DataSegment where
  "zero_segment = \<lparr>ds_initExpr = 0, ds_data = 0, ds_initExprSize = 0, ds_memoryRegion = 0, ds_size = 0\<rparr>"

definition Read_segment :: "M3Module \<Rightarrow> u8 list \<Rightarrow> nat \<Rightarrow> nat \<Rightarrow> (M3DataSegment \<times> nat) result" where
  "Read_segment m w p i_end =
    tryR (checked (ReadLEB_u32 w p i_end)) (\<lambda>(memoryRegion, initExpr).
    tryR (Parse_InitExpr m w initExpr i_end) (\<lambda>(_, p).
      let initExprSize = of_nat (p - initExpr) :: u32 in
      throwif m3Err_wasmMissingInitExpr (initExprSize \<le> 1)
      (tryR (checked (ReadLEB_u32 w p i_end)) (\<lambda>(size, data).
        throwif (M3Msg ''data segment underflow'') (data + unat size > i_end)
          (Inr (\<lparr>ds_initExpr = initExpr, ds_data = data, ds_initExprSize = initExprSize,
                 ds_memoryRegion = memoryRegion, ds_size = size\<rparr>, data + unat size))))))"

definition Data_step ::
    "u8 list \<Rightarrow> M3Module \<times> nat \<Rightarrow> nat \<Rightarrow> nat \<Rightarrow> ((M3Module \<times> nat) \<times> nat) parse" where
  "Data_step w s p i_end =
    (case s of (m, i) \<Rightarrow>
      tryR (at_state m (Read_segment m w p i_end)) (\<lambda>(segment, p).
        Inr ((m\<lparr>dataSegments := (dataSegments m)[i := segment]\<rparr>, i + 1), p)))"

definition ParseSection_Data :: "(nat \<Rightarrow> bool) \<Rightarrow> u8 list \<Rightarrow> M3Module \<Rightarrow> nat \<Rightarrow> nat \<Rightarrow> M3Module parse" where
  "ParseSection_Data calloc_ok w m i_bytes i_end =
    tryR (at_state m (checked (ReadLEB_u32 w i_bytes i_end))) (\<lambda>(n, p).
    throwif (M3Msg ''too many data segments'', m) (n > 100000)
    (throwif (m3Err_mallocFailed, m) (\<not> calloc_ok (32 * unat n))
      (tryR (step_many Data_step (unat n) w
          (m\<lparr>dataSegments := replicate (unat n) zero_segment, numDataSegments := n\<rparr>, 0) p i_end)
        (\<lambda>((m, i), p). Inr m))))"

text \<open>The result of \<^verbatim>\<open>ParseType_Memory\<close> is not looked at (undefined behaviour inside it stays).\<close>

definition ParseSection_Memory :: "u8 list \<Rightarrow> M3Module \<Rightarrow> nat \<Rightarrow> nat \<Rightarrow> M3Module parse" where
  "ParseSection_Memory w m i_bytes i_end =
    tryR (at_state m (checked (ReadLEB_u32 w i_bytes i_end))) (\<lambda>(numMemories, p).
    throwif (m3Err_tooManyMemorySections, m) (numMemories \<noteq> 1)
     (let (r, mem, p) = ParseType_Memory w (memoryInfo m) p i_end; m = m\<lparr>memoryInfo := mem\<rparr> in
      if r = Some C_undefined then Inl (C_undefined, m) else Inr m))"

definition Global_step :: "(nat \<Rightarrow> bool) \<Rightarrow> u8 list \<Rightarrow> M3Module \<Rightarrow> nat \<Rightarrow> nat \<Rightarrow> (M3Module \<times> nat) parse" where
  "Global_step calloc_ok w m p i_end =
    tryR (at_state m (Read_globaltype w p i_end)) (\<lambda>((type, isMutable), initExpr).
    tryR (add_global calloc_ok m type isMutable False) (\<lambda>(m, i).
    let m = update_global i (\<lambda>g. g\<lparr>gl_initExpr := Some initExpr\<rparr>) m in
    tryR (at_state m (Parse_InitExpr m w initExpr i_end)) (\<lambda>(_, p).
    let size = of_nat (p - initExpr);
        m = update_global i (\<lambda>g. g\<lparr>gl_initExprSize := size\<rparr>) m in
    throwif (m3Err_wasmMissingInitExpr, m) (size \<le> 1) (Inr (m, p)))))"

definition ParseSection_Global :: "(nat \<Rightarrow> bool) \<Rightarrow> u8 list \<Rightarrow> M3Module \<Rightarrow> nat \<Rightarrow> nat \<Rightarrow> M3Module parse" where
  "ParseSection_Global calloc_ok w m i_bytes i_end =
    tryR (at_state m (checked (ReadLEB_u32 w i_bytes i_end))) (\<lambda>(n, p).
    throwif (M3Msg ''too many globals'', m) (n > 1000000)
      (tryR (step_many (Global_step calloc_ok) (unat n) w m p i_end) (\<lambda>(m, p). Inr m)))"

section \<open>Names and custom sections\<close>

definition set_name :: "u32 \<Rightarrow> u8 list option \<Rightarrow> M3Module \<Rightarrow> M3Module parse" where
  "set_name index name m =
    (if index < numFunctions m then
       throwif (C_undefined, m) (\<not> unat index < length (m_functions m))
        (let func = m_functions m ! unat index in
         if numNames func = 0
         then Inr (m\<lparr>m_functions := (m_functions m)[unat index :=
                func\<lparr>names := (names func)[0 := name], numNames := 1\<rparr>]\<rparr>)
         else Inr m)
     else Inr m)"

definition Name_step :: "(nat \<Rightarrow> bool) \<Rightarrow> u8 list \<Rightarrow> M3Module \<Rightarrow> nat \<Rightarrow> nat \<Rightarrow> (M3Module \<times> nat) parse" where
  "Name_step calloc_ok w m p i_end =
    tryR (at_state m (checked (ReadLEB_u32 w p i_end))) (\<lambda>(index, p).
    tryR (at_state m (Read_utf8 calloc_ok w p i_end)) (\<lambda>(name, p).
    tryR (set_name index name m) (\<lambda>m. Inr (m, p))))"

definition Name_subsection ::
    "(nat \<Rightarrow> bool) \<Rightarrow> u8 list \<Rightarrow> nat \<Rightarrow> u8 \<Rightarrow> M3Module \<Rightarrow> nat \<Rightarrow> M3Module parse" where
  "Name_subsection calloc_ok w i_end nameType m p =
    (if nameType = 1 then
       tryR (at_state m (checked (ReadLEB_u32 w p i_end))) (\<lambda>(n, p).
       throwif (M3Msg ''too many names'', m) (n > 1000000)
         (tryR (step_many (Name_step calloc_ok) (unat n) w m p i_end) (\<lambda>(m, p). Inr m)))
     else Inr m)"

function ParseSection_Name_loop :: "(nat \<Rightarrow> bool) \<Rightarrow> u8 list \<Rightarrow> nat \<Rightarrow> M3Module \<Rightarrow> nat \<Rightarrow> M3Module parse" where
  "ParseSection_Name_loop calloc_ok w i_end m p =
    (if p < i_end then
       tryR (at_state m (checked (ReadLEB_u7 w p i_end))) (\<lambda>(nameType, p).
       tryR (at_state m (checked (ReadLEB_u32 w p i_end))) (\<lambda>(payloadLength, start).
       tryR (Name_subsection calloc_ok w i_end nameType m start) (\<lambda>m.
         ParseSection_Name_loop calloc_ok w i_end m (start + unat payloadLength))))
     else Inr m)"
  by pat_completeness auto
termination
proof (relation "measure (\<lambda>(ok, w, e, m, p). e - p)", goal_cases)
  case (2 ok w e m p r ty p1 s len start m')
  have "p < p1" "p1 \<le> e" using 2 LEB_u7.rd_progress LEB_u7.rd_bounds by (auto simp: m3_result dest: less_imp_le)
  moreover have "p1 \<le> start" using 2 \<open>p1 \<le> e\<close> LEB_u32.rd_bounds by (auto simp: m3_result)
  ultimately show ?case using 2(1) by auto
qed simp

declare ParseSection_Name_loop.simps [simp del]

text \<open>\<^verbatim>\<open>result\<close> is read uninitialised when the section is empty.\<close>

definition ParseSection_Name :: "(nat \<Rightarrow> bool) \<Rightarrow> u8 list \<Rightarrow> M3Module \<Rightarrow> nat \<Rightarrow> nat \<Rightarrow> M3Module parse" where
  "ParseSection_Name calloc_ok w m i_bytes i_end =
    (if i_bytes < i_end then ParseSection_Name_loop calloc_ok w i_end m i_bytes else Inl (C_undefined, m))"

type_synonym section_handler = "(M3Module \<Rightarrow> u8 list \<Rightarrow> nat \<Rightarrow> nat \<Rightarrow> M3Module parse) option"

definition ParseSection_Custom ::
    "section_handler \<Rightarrow> (nat \<Rightarrow> bool) \<Rightarrow> u8 list \<Rightarrow> M3Module \<Rightarrow> nat \<Rightarrow> nat \<Rightarrow> M3Module parse" where
  "ParseSection_Custom handler calloc_ok w m i_bytes i_end =
    tryR (at_state m (Read_utf8 calloc_ok w i_bytes i_end)) (\<lambda>(name, p).
      case name of
        None \<Rightarrow> Inl (C_undefined, m)
      | Some name \<Rightarrow>
          if strcmp_eq name (ascii ''name'') then ParseSection_Name calloc_ok w m p i_end
          else (case handler of Some h \<Rightarrow> h m name p i_end | None \<Rightarrow> Inr m))"

section \<open>Modules\<close>

text \<open>A parser that does not touch the environment, on the pair.\<close>

definition in_module :: "(M3Module \<Rightarrow> M3Module parse) \<Rightarrow> env_module \<Rightarrow> (m3_error \<times> env_module) + env_module" where
  "in_module parser em =
    (case parser (snd em) of Inl (e, m) \<Rightarrow> Inl (e, (fst em, m)) | Inr m \<Rightarrow> Inr (fst em, m))"

definition ParseModuleSection ::
    "section_handler \<Rightarrow> (nat \<Rightarrow> bool) \<Rightarrow> u8 list \<Rightarrow> env_module \<Rightarrow> u8 \<Rightarrow> nat \<Rightarrow> nat \<Rightarrow> (m3_error \<times> env_module) + env_module" where
  "ParseModuleSection handler calloc_ok w em sectionType p e =
    (if sectionType = 0 then in_module (\<lambda>m. ParseSection_Custom handler calloc_ok w m p e) em
     else if sectionType = 1 then ParseSection_Type calloc_ok w em p e
     else if sectionType = 2 then in_module (\<lambda>m. ParseSection_Import calloc_ok w m p e) em
     else if sectionType = 3 then in_module (\<lambda>m. ParseSection_Function calloc_ok w m p e) em
     else if sectionType = 5 then in_module (\<lambda>m. ParseSection_Memory w m p e) em
     else if sectionType = 6 then in_module (\<lambda>m. ParseSection_Global calloc_ok w m p e) em
     else if sectionType = 7 then in_module (\<lambda>m. ParseSection_Export calloc_ok w m p e) em
     else if sectionType = 8 then in_module (\<lambda>m. ParseSection_Start w m p e) em
     else if sectionType = 9 then in_module (\<lambda>m. ParseSection_Element w m p e) em
     else if sectionType = 10 then in_module (\<lambda>m. ParseSection_Code w m p e) em
     else if sectionType = 11 then in_module (\<lambda>m. ParseSection_Data calloc_ok w m p e) em
     else Inr em)"

definition sectionsOrder :: "u8 list" where
  "sectionsOrder = [1, 2, 3, 4, 5, 6, 7, 8, 9, 12, 10, 11, 0]"

text \<open>
  The inner \<^verbatim>\<open>while\<close>: \<open>expectedSection\<close> moves behind the section's place in the table; a read
  behind the table is undefined.
\<close>

function next_section :: "u8 \<Rightarrow> nat \<Rightarrow> nat result" where
  "next_section sec expectedSection =
    (if \<not> expectedSection < length sectionsOrder then Inl C_undefined
     else if sectionsOrder ! expectedSection \<noteq> sec then
       throwif m3Err_misorderedWasmSection (expectedSection + 1 \<ge> 12) (next_section sec (expectedSection + 1))
     else Inr (expectedSection + 1))"
  by pat_completeness auto
termination
  by (relation "measure (\<lambda>(s, k). length sectionsOrder - k)") auto

declare next_section.simps [simp del]

function ParseModule_loop ::
    "section_handler \<Rightarrow> (nat \<Rightarrow> bool) \<Rightarrow> u8 list \<Rightarrow> nat \<Rightarrow> nat \<Rightarrow> env_module \<Rightarrow> nat \<Rightarrow> (m3_error \<times> env_module) + env_module" where
  "ParseModule_loop handler calloc_ok w end' expectedSection em pos =
    (if pos < end' then
       tryR (at_state em (checked (ReadLEB_u7 w pos end'))) (\<lambda>(sec, pos).
       tryR (at_state em (if sec \<noteq> 0 then next_section sec expectedSection else Inr expectedSection)) (\<lambda>expectedSection.
       tryR (at_state em (checked (ReadLEB_u32 w pos end'))) (\<lambda>(sectionLength, pos).
       throwif (m3Err_wasmMalformed, em) (pos + unat sectionLength > end')
       (tryR (ParseModuleSection handler calloc_ok w em sec pos (pos + unat sectionLength)) (\<lambda>em.
         ParseModule_loop handler calloc_ok w end' expectedSection em (pos + unat sectionLength))))))
     else Inr em)"
  by pat_completeness auto
termination
proof (relation "measure (\<lambda>(h, ok, w, e, k, em, p). e - p)", goal_cases)
  case (2 h ok w e k em pos x sec p1 k' y len p2 em')
  have "pos < p1" "p1 \<le> e" using 2 LEB_u7.rd_progress LEB_u7.rd_bounds by (auto simp: m3_result dest: less_imp_le)
  moreover have "p1 \<le> p2" using 2 \<open>p1 \<le> e\<close> LEB_u32.rd_bounds by (auto simp: m3_result)
  ultimately show ?case using 2(1) by auto
qed simp

declare ParseModule_loop.simps [simp del]

text \<open>\<open>struct_ok\<close>: the allocation of the module's struct. The environment is returned either way.\<close>

definition m3_ParseModule ::
    "section_handler \<Rightarrow> (nat \<Rightarrow> bool) \<Rightarrow> bool \<Rightarrow> M3Environment \<Rightarrow> u8 list \<Rightarrow> nat \<Rightarrow> u32 \<Rightarrow> M3Environment \<times> M3Module result" where
  "m3_ParseModule handler calloc_ok struct_ok env w i_bytes i_numBytes =
    (if \<not> struct_ok then (env, Inl m3Err_mallocFailed)
     else
       let end' = i_bytes + unat i_numBytes;
           module = zero_module\<lparr>m_name := Some (ascii ''.unnamed''), startFunction := -1,
                                wasmStart := i_bytes, wasmEnd := end'\<rparr>;
           em = (env, module);
           r = tryR (at_state em (Read_u32 w i_bytes end')) (\<lambda>(magic, pos).
               tryR (at_state em (Read_u32 w pos end')) (\<lambda>(version, pos).
               throwif (m3Err_wasmMalformed, em) (magic \<noteq> 0x6d736100)
               (throwif (m3Err_incompatibleWasmVersion, em) (version \<noteq> 1)
                 (ParseModule_loop handler calloc_ok w end' 0 em pos)))) in
       case r of
         Inr (env, m) \<Rightarrow> (env, Inr m)
       | Inl (e, (env, m)) \<Rightarrow>
           (env, case m3_FreeModule (Some m) of Inr _ \<Rightarrow> Inl e | Inl u \<Rightarrow> Inl u))"

end
