(* ===== verification/M3_Parse_Props.thy ===== *)
theory M3_Parse_Props
  imports M3_Parse "HOL-Library.Sublist"
begin

text \<open>
  What the module parser guarantees: the contract of the section parsers (\<open>section_step\<close>,
  \<open>section_parser\<close>) and its interpretation on every section of \<^verbatim>\<open>src/m3_parse.c\<close>, the
  consistency of accepted modules, the order of sections, memory safety of the reads, and the
  round trips of the type and code sections.
\<close>

unbundle bit_operations_syntax

section \<open>Section parsers as an interface\<close>

text \<open>
  The contract of an iteration: the cursor stays inside the section, only the section's bytes
  are read, and \<open>good ws we\<close>, where \<open>[ws, we)\<close> is the module's range, is kept. The contract of a
  section parser is the same without the cursor.
\<close>

locale section_step =
  fixes step :: "u8 list \<Rightarrow> 's \<Rightarrow> nat \<Rightarrow> nat \<Rightarrow> 'x + ('s \<times> nat)" and good :: "nat \<Rightarrow> nat \<Rightarrow> 's \<Rightarrow> bool"
  assumes step_bounds: "step w s p e = Inr (s', q) \<Longrightarrow> p \<le> e \<Longrightarrow> p \<le> q \<and> q \<le> e"
    and step_local: "agree_on p e w w' \<Longrightarrow> p \<le> e \<Longrightarrow> step w s p e = step w' s p e"
    and step_keeps: "step w s p e = Inr (s', q) \<Longrightarrow> good ws we s \<Longrightarrow> ws \<le> p \<Longrightarrow> p \<le> e \<Longrightarrow> e \<le> we \<Longrightarrow> good ws we s'"
begin

lemma many_bounds: "step_many step n w s p e = Inr (s', q) \<Longrightarrow> p \<le> e \<Longrightarrow> p \<le> q \<and> q \<le> e"
proof (induction n arbitrary: s p)
  case (Suc n)
  then obtain s1 p1 where "step w s p e = Inr (s1, p1)" "step_many step n w s1 p1 e = Inr (s', q)"
    by (auto simp: m3_result)
  with Suc step_bounds show ?case by fastforce
qed simp

lemma many_local: "agree_on p e w w' \<Longrightarrow> p \<le> e \<Longrightarrow> step_many step n w s p e = step_many step n w' s p e"
proof (induction n arbitrary: s p)
  case (Suc n)
  have "step_many step n w s1 p1 e = step_many step n w' s1 p1 e" if "step w' s p e = Inr (s1, p1)" for s1 p1
    using Suc.IH that step_bounds [OF that Suc.prems(2)] agree_on_later [OF Suc.prems(1)] by blast
  then show ?case using step_local [OF Suc.prems] by (auto intro!: tryR_cong)
qed simp

lemma many_keeps:
  "step_many step n w s p e = Inr (s', q) \<Longrightarrow> good ws we s \<Longrightarrow> ws \<le> p \<Longrightarrow> p \<le> e \<Longrightarrow> e \<le> we \<Longrightarrow> good ws we s'"
proof (induction n arbitrary: s p)
  case (Suc n)
  then obtain s1 p1 where s1: "step w s p e = Inr (s1, p1)" "step_many step n w s1 p1 e = Inr (s', q)"
    by (auto simp: m3_result)
  have "good ws we s1" using step_keeps [OF s1(1)] Suc.prems by blast
  moreover have "ws \<le> p1" "p1 \<le> e" using step_bounds [OF s1(1)] Suc.prems by auto
  ultimately show ?case using Suc.IH [OF s1(2)] Suc.prems by blast
qed simp

lemma tryR_many_local:
  assumes "agree_on p e w w'" "p \<le> e"
  shows "tryR (step_many step n w s p e) f = tryR (step_many step n w' s p e) f"
  using many_local [OF assms] by simp

end

locale section_parser =
  fixes parse :: "u8 list \<Rightarrow> 's \<Rightarrow> nat \<Rightarrow> nat \<Rightarrow> 'x + 's" and good :: "nat \<Rightarrow> nat \<Rightarrow> 's \<Rightarrow> bool"
  assumes parse_local: "agree_on p e w w' \<Longrightarrow> p \<le> e \<Longrightarrow> parse w s p e = parse w' s p e"
    and parse_keeps: "parse w s p e = Inr s' \<Longrightarrow> good ws we s \<Longrightarrow> ws \<le> p \<Longrightarrow> p \<le> e \<Longrightarrow> e \<le> we \<Longrightarrow> good ws we s'"

text \<open>What reading inside a section means for the readers.\<close>

context byte_reader
begin

lemma at_local:
  assumes "agree_on p e w w'" "p \<le> e"
    and "\<And>v q. rd w' p e = Inr (v, q) \<Longrightarrow> p \<le> q \<Longrightarrow> q \<le> e \<Longrightarrow> agree_on q e w w' \<Longrightarrow> f v q = g v q"
  shows "tryR (at_state s (rd w p e)) (\<lambda>(v, q). f v q) = tryR (at_state s (rd w' p e)) (\<lambda>(v, q). g v q)"
  using rd_local [OF assms(1,2)] rd_bounds [OF _ assms(2)] assms(3) agree_on_later [OF assms(1)]
  by (auto intro!: tryR_cong simp: m3_result)

lemma plain_local:
  assumes "agree_on p e w w'" "p \<le> e"
    and "\<And>v q. rd w' p e = Inr (v, q) \<Longrightarrow> p \<le> q \<Longrightarrow> q \<le> e \<Longrightarrow> agree_on q e w w' \<Longrightarrow> f v q = g v q"
  shows "tryR (rd w p e) (\<lambda>(v, q). f v q) = tryR (rd w' p e) (\<lambda>(v, q). g v q)"
  using rd_local [OF assms(1,2)] rd_bounds [OF _ assms(2)] assms(3) agree_on_later [OF assms(1)]
  by (auto intro!: tryR_cong simp: m3_result)

lemma many_plain_local:
  assumes "agree_on p e w w'" "p \<le> e"
    and "\<And>v q. read_many rd n w' p e = Inr (v, q) \<Longrightarrow> p \<le> q \<Longrightarrow> q \<le> e \<Longrightarrow> agree_on q e w w' \<Longrightarrow> f v q = g v q"
  shows "tryR (read_many rd n w p e) (\<lambda>(v, q). f v q) = tryR (read_many rd n w' p e) (\<lambda>(v, q). g v q)"
  using many_local [OF assms(1,2)] many_bounds [OF _ assms(2)] assms(3) agree_on_later [OF assms(1)]
  by (auto intro!: tryR_cong simp: m3_result)

end

lemma throwif_same: "k = k' \<Longrightarrow> throwif e c k = throwif e c k'" by simp

lemma Read_valtype_Inr [m3_result]:
  "Read_valtype w p e = Inr (t, q) \<longleftrightarrow> (\<exists>b. LEB_i7 w p e = Inr (b, q) \<and> NormalizeType b = (None, t))"
proof (cases "LEB_i7 w p e")
  case (Inr r)
  obtain b p1 o1 t1 where "r = (b, p1)" "NormalizeType b = (o1, t1)" by (meson surj_pair)
  with Inr show ?thesis by (cases o1) (auto simp: Read_valtype_def)
qed (simp add: Read_valtype_def)

interpretation Read_valtype: progress_reader Read_valtype
proof
  show "Read_valtype w p e = Read_valtype w' p e" if "agree_on p e w w'" for w w' :: "u8 list" and p e :: nat
    by (simp add: Read_valtype_def LEB_local(3) [OF that])
qed (auto simp: tryR_Inr_iff Read_valtype_Inr dest: LEB_progress(3) LEB_end(3) less_imp_le)

interpretation Read_globaltype: progress_reader Read_globaltype
proof
  fix w p e v q assume "Read_globaltype w p e = Inr (v, q)"
  then obtain t p1 b where r: "Read_valtype w p e = Inr (t, p1)" "LEB_u7 w p1 e = Inr (b, q)"
    by (auto simp: Read_globaltype_def m3_result)
  then show "p < q" using Read_valtype.rd_progress LEB_u7.rd_progress by (meson less_trans)
  show "p \<le> q \<and> q \<le> e" if "p \<le> e"
    using r that Read_valtype.rd_bounds LEB_u7.rd_bounds by (meson le_trans)
next
  fix w w' :: "u8 list" and p e :: nat assume "agree_on p e w w'" "p \<le> e"
  then show "Read_globaltype w p e = Read_globaltype w' p e"
    unfolding Read_globaltype_def by (intro Read_valtype.plain_local LEB_u7.plain_local refl)
qed

interpretation Read_functype: progress_reader "Read_functype calloc_ok" for calloc_ok
proof
  fix w p e v q assume "Read_functype calloc_ok w p e = Inr (v, q)"
  then obtain f p1 na p2 ats p3 nr p4 rts where r: "LEB_i7 w p e = Inr (f, p1)" "LEB_u32 w p1 e = Inr (na, p2)"
      "read_many Read_valtype (unat na) w p2 e = Inr (ats, p3)" "LEB_u32 w p3 e = Inr (nr, p4)"
      "read_many Read_valtype (unat nr) w p4 e = Inr (rts, q)"
    by (auto simp: Read_functype_def m3_result Let_def)
  then show "p < q"
    using LEB_i7.rd_progress [OF r(1)] LEB_u32.rd_progress [OF r(2)] LEB_u32.rd_progress [OF r(4)]
      Read_valtype.many_progress [OF r(3)] Read_valtype.many_progress [OF r(5)] by linarith
  show "p \<le> q \<and> q \<le> e" if "p \<le> e"
    using LEB_i7.rd_bounds [OF r(1)] LEB_u32.rd_bounds [OF r(2)] LEB_u32.rd_bounds [OF r(4)]
      Read_valtype.many_bounds [OF r(3)] Read_valtype.many_bounds [OF r(5)] that by linarith
next
  fix w w' :: "u8 list" and p e :: nat assume "agree_on p e w w'" "p \<le> e"
  then show "Read_functype calloc_ok w p e = Read_functype calloc_ok w' p e"
    unfolding Read_functype_def Let_def
    by (intro LEB_i7.plain_local LEB_u32.plain_local Read_valtype.many_plain_local throwif_same tryR_cong refl)
qed


section \<open>What holds of a module while it is parsed\<close>

definition body_ok :: "nat \<Rightarrow> nat \<Rightarrow> M3Function \<Rightarrow> bool" where
  "body_ok ws we f \<longleftrightarrow>
    (case fn_wasm f of None \<Rightarrow> True
     | Some s \<Rightarrow> (case fn_wasmEnd f of None \<Rightarrow> False | Some t \<Rightarrow> ws \<le> s \<and> s < t \<and> t \<le> we))"

definition init_ok :: "nat \<Rightarrow> nat \<Rightarrow> M3Global \<Rightarrow> bool" where
  "init_ok ws we g \<longleftrightarrow>
    (case gl_initExpr g of None \<Rightarrow> True | Some p \<Rightarrow> ws \<le> p \<and> p + unat (gl_initExprSize g) \<le> we)"

definition segment_ok :: "nat \<Rightarrow> M3DataSegment \<Rightarrow> bool" where
  "segment_ok we d \<longleftrightarrow> ds_initExpr d + unat (ds_initExprSize d) \<le> we \<and> ds_data d + unat (ds_size d) \<le> we"

text \<open>\<open>n\<close> is the number of types in the environment's pool.\<close>

definition parsed_ok :: "nat \<Rightarrow> nat \<Rightarrow> nat \<Rightarrow> M3Module \<Rightarrow> bool" where
  "parsed_ok n ws we m \<longleftrightarrow> module_ok m \<and> wasmStart m = ws \<and> wasmEnd m = we
    \<and> (\<forall>i < unat (numFunctions m). \<exists>q < n. fn_funcType (m_functions m ! i) = Some q)
    \<and> (\<forall>f \<in> set (m_functions m). body_ok ws we f) \<and> (\<forall>g \<in> set (globals m). init_ok ws we g)
    \<and> (\<forall>d \<in> set (dataSegments m). segment_ok we d)
    \<and> (startFunction m = -1 \<or> word_of_int (startFunction m) < numFunctions m)
    \<and> elementSection m \<le> we \<and> elementSectionEnd m \<le> we"

definition types_ok :: "nat \<Rightarrow> M3Module \<Rightarrow> bool" where
  "types_ok n m \<longleftrightarrow> (\<forall>t \<in> set (m_funcTypes m). \<exists>q < n. t = Some q)"

definition good_module :: "nat \<Rightarrow> nat \<Rightarrow> nat \<Rightarrow> M3Module \<Rightarrow> bool" where
  "good_module n ws we m \<longleftrightarrow> parsed_ok n ws we m \<and> types_ok n m"

definition good_env :: "nat \<Rightarrow> nat \<Rightarrow> env_module \<Rightarrow> bool" where
  "good_env ws we em \<longleftrightarrow> (\<forall>t \<in> set (funcTypes (fst em)). ft_wf t) \<and> good_module (length (funcTypes (fst em))) ws we (snd em)"

lemma parsed_ok_mono: "parsed_ok n ws we m \<Longrightarrow> n \<le> k \<Longrightarrow> parsed_ok k ws we m"
  by (force simp: parsed_ok_def)

lemma types_ok_mono: "types_ok n m \<Longrightarrow> n \<le> k \<Longrightarrow> types_ok k m"
  by (force simp: types_ok_def)

lemma body_ok_zero [simp]: "body_ok ws we zero_function"
  by (simp add: body_ok_def zero_function_def)

lemma segment_ok_zero [simp]: "segment_ok we zero_segment"
  by (simp add: segment_ok_def zero_segment_def)

text \<open>A successful addition does not wrap the count.\<close>

lemma Module_AddFunction_no_wrap:
  assumes "Module_AddFunction ok m ti info = (None, m')"
  shows "numFunctions m + 1 \<noteq> 0"
proof
  assume z: "numFunctions m + 1 = 0"
  have nf: "numFunctions m1 = 0" if "Module_PreallocFunctions ok (m\<lparr>numFunctions := 0\<rparr>) 0 = (None, m1)" for m1
    using that by (auto simp: Module_PreallocFunctions_def split: if_splits option.splits)
  show False using assms z nf
    by (auto simp: Module_AddFunction_def Let_def Module_GetFunction_def split: prod.splits if_splits)
qed

lemma Module_AddGlobal_no_wrap:
  assumes "Module_AddGlobal ok m t mu imp = (None, m', i)"
  shows "numGlobals m + 1 \<noteq> 0"
proof
  assume z: "numGlobals m + 1 = 0"
  then have "numGlobals m = -1" by (metis eq_neg_iff_add_eq_0)
  moreover have "unat (-1 :: u32) \<noteq> 0" by (simp add: unsigned_eq_0_iff)
  ultimately show False using assms z
    by (auto simp: Module_AddGlobal_def Let_def m3_ReallocArray_def split: option.splits if_splits)
qed

lemma Module_AddFunction_shape:
  assumes "module_ok m" "Module_AddFunction ok m ti info = (None, m')"
  shows "\<exists>k fs. m' = m\<lparr>numFunctions := numFunctions m + 1, allFunctions := k, m_functions := fs\<rparr>
    \<and> (\<forall>f \<in> set fs. fn_wasm f = None \<or> (\<exists>f0 \<in> set (m_functions m). fn_wasm f = fn_wasm f0 \<and> fn_wasmEnd f = fn_wasmEnd f0))"
proof -
  let ?m = "m\<lparr>numFunctions := numFunctions m + 1\<rparr>"
  obtain m1 where m1: "Module_PreallocFunctions ok ?m (numFunctions m + 1) = (None, m1)"
    using assms(2) by (auto simp: Module_AddFunction_def Let_def split: prod.splits if_splits)
  have len: "length (m_functions m) = unat (allFunctions m)" using assms(1) by (simp add: module_ok_def)
  obtain k fs where fs: "m1 = ?m\<lparr>allFunctions := k, m_functions := fs\<rparr>" "set fs \<subseteq> set (m_functions m) \<union> {zero_function}"
  proof (cases "numFunctions m + 1 > allFunctions m")
    case True
    then obtain fs where "m3_ReallocArray ok 144 zero_function (m_functions m) (unat (numFunctions m + 1)) (unat (allFunctions m)) = Some fs"
      "m1 = ?m\<lparr>allFunctions := numFunctions m + 1, m_functions := fs\<rparr>"
      using m1 by (auto simp: Module_PreallocFunctions_def split: option.splits)
    with m3_ReallocArray_grow [OF this(1) len] True show ?thesis by (intro that) (auto simp: word_less_nat_alt)
  next
    case False
    with m1 have "m1 = ?m" by (simp add: Module_PreallocFunctions_def)
    then have "m1 = ?m\<lparr>allFunctions := allFunctions m, m_functions := m_functions m\<rparr>" by (cases m) simp
    then show ?thesis by (rule that) auto
  qed
  obtain i f where "i < length (m_functions m1)" "m' = m1\<lparr>m_functions := (m_functions m1)[i := f]\<rparr>"
    "fn_wasm f = fn_wasm (m_functions m1 ! i)" "fn_wasmEnd f = fn_wasmEnd (m_functions m1 ! i)"
    using assms(2) m1
    by (auto simp: Module_AddFunction_def Let_def split: if_splits option.splits)
  with fs(1) have f: "i < length fs" "m' = m1\<lparr>m_functions := fs[i := f]\<rparr>" "fn_wasm f = fn_wasm (fs ! i)" "fn_wasmEnd f = fn_wasmEnd (fs ! i)"
    by simp_all
  have "fn_wasm g = None \<or> (\<exists>f0 \<in> set (m_functions m). fn_wasm g = fn_wasm f0 \<and> fn_wasmEnd g = fn_wasmEnd f0)"
    if g: "g \<in> set (fs[i := f])" for g
  proof -
    obtain h where "h \<in> set fs" "fn_wasm g = fn_wasm h" "fn_wasmEnd g = fn_wasmEnd h"
      using g f(1,3,4) nth_mem [OF f(1)] set_update_subset_insert [of fs i f] by blast
    then show ?thesis using fs(2) by (auto simp: zero_function_def)
  qed
  then have "\<forall>g \<in> set (fs[i := f]). fn_wasm g = None \<or> (\<exists>f0 \<in> set (m_functions m). fn_wasm g = fn_wasm f0 \<and> fn_wasmEnd g = fn_wasmEnd f0)"
    by blast
  moreover have "m' = m\<lparr>numFunctions := numFunctions m + 1, allFunctions := k, m_functions := fs[i := f]\<rparr>"
    by (simp add: f(2) fs(1))
  ultimately show ?thesis by (intro exI conjI)
qed


lemma good_AddFunction:
  assumes "good_module n ws we m" "Module_AddFunction ok m ti info = (None, m')"
  shows "good_module n ws we m'"
proof -
  have ok: "module_ok m" using assms(1) by (simp add: good_module_def parsed_ok_def)
  note nw = Module_AddFunction_no_wrap [OF assms(2)]
  note A = Module_AddFunction_ok [OF ok nw assms(2)]
  obtain k fs where m': "m' = m\<lparr>numFunctions := numFunctions m + 1, allFunctions := k, m_functions := fs\<rparr>"
    and fs: "\<forall>f \<in> set fs. fn_wasm f = None \<or> (\<exists>f0 \<in> set (m_functions m). fn_wasm f = fn_wasm f0 \<and> fn_wasmEnd f = fn_wasmEnd f0)"
    using Module_AddFunction_shape [OF ok assms(2)] by blast
  have ti: "unat ti < length (m_funcTypes m)" using A ok by (simp add: module_ok_def word_less_nat_alt)
  have "\<exists>q < n. fn_funcType (m_functions m' ! i) = Some q" if i: "i < unat (numFunctions m')" for i
  proof (cases "i = unat (numFunctions m)")
    case True
    then show ?thesis using A ti assms(1) by (metis good_module_def nth_mem types_ok_def)
  next
    case False
    then have "i < unat (numFunctions m)" using i A unat_inc_ne [OF nw] by simp
    then show ?thesis using A assms(1) by (simp add: good_module_def parsed_ok_def)
  qed
  moreover have "body_ok ws we f" if "f \<in> set fs" for f
    using fs that assms(1) by (fastforce simp: body_ok_def good_module_def parsed_ok_def split: option.splits)
  moreover have "x < numFunctions m + 1" if "x < numFunctions m" for x :: u32
    using that unat_inc_ne [OF nw] by (simp add: word_less_nat_alt)
  ultimately show ?thesis using assms(1) A m'
    by (auto simp: good_module_def parsed_ok_def types_ok_def)
qed

lemma good_Prealloc:
  assumes "good_module n ws we m" "Module_PreallocFunctions ok m k = (None, m')"
  shows "good_module n ws we m'"
proof -
  have ok: "module_ok m" using assms(1) by (simp add: good_module_def parsed_ok_def)
  note P = Module_PreallocFunctions_ok [OF ok assms(2)]
  define a fs where "a = allFunctions m'" and "fs = m_functions m'"
  then have m': "m' = m\<lparr>allFunctions := a, m_functions := fs\<rparr>" using P by auto
  have take: "take (length (m_functions m)) fs = m_functions m"
    and fresh: "\<And>i. i < length fs \<Longrightarrow> length (m_functions m) \<le> i \<Longrightarrow> fs ! i = zero_function"
    and ok': "module_ok m'" using P by (auto simp: fs_def)
  have bodies: "body_ok ws we f" if f: "f \<in> set fs" for f
  proof -
    obtain i where i: "i < length fs" "f = fs ! i" using f by (metis in_set_conv_nth)
    show ?thesis
    proof (cases "i < length (m_functions m)")
      case True
      then have "f \<in> set (m_functions m)" using i(2) take by (metis nth_mem nth_take)
      then show ?thesis using assms(1) by (simp add: good_module_def parsed_ok_def)
    qed (use fresh i in simp)
  qed
  have same: "fs ! i = m_functions m ! i" if i: "i < unat (numFunctions m)" for i
  proof -
    have "i < length (m_functions m)" using i ok by (simp add: module_ok_def word_le_nat_alt)
    then show ?thesis using take by (metis nth_take)
  qed
  show ?thesis using assms(1) ok' bodies same
    by (simp add: good_module_def parsed_ok_def types_ok_def m')
qed

lemma good_AddGlobal:
  assumes "good_module n ws we m" "Module_AddGlobal ok m t mu imp = (None, m', i)"
  shows "good_module n ws we m' \<and> i < length (globals m')"
proof -
  have ok: "module_ok m" using assms(1) by (simp add: good_module_def parsed_ok_def)
  have "init_ok ws we (zero_global\<lparr>gl_type := t, gl_imported := imp, gl_isMutable := mu\<rparr>)"
    by (simp add: init_ok_def zero_global_def)
  then show ?thesis
    using assms(1) Module_AddGlobal_ok [OF ok Module_AddGlobal_no_wrap [OF assms(2)] assms(2)] ok
    by (auto simp: good_module_def parsed_ok_def types_ok_def module_ok_def)
qed

lemma good_update_global:
  assumes "good_module n ws we m" "init_ok ws we (f (globals m ! i))"
  shows "good_module n ws we (update_global i f m)"
  using assms by (auto simp: good_module_def parsed_ok_def types_ok_def update_global_def module_ok_def
      dest!: set_update_subset_insert [THEN subsetD])

lemma good_set_function:
  assumes "good_module n ws we m" "body_ok ws we f" "fn_funcType f = fn_funcType (m_functions m ! i)"
    and "length (names f) = d_m3MaxDuplicateFunctionImpl"
  shows "good_module n ws we (m\<lparr>m_functions := (m_functions m)[i := f]\<rparr>)"
proof -
  have "\<forall>g \<in> set ((m_functions m)[i := f]). g = f \<or> g \<in> set (m_functions m)"
    using set_update_subset_insert [of "m_functions m" i f] by blast
  moreover have "fn_funcType ((m_functions m)[i := f] ! k) = fn_funcType (m_functions m ! k)" for k
    using assms(3) by (cases "k = i"; cases "i < length (m_functions m)") (auto simp: list_update_beyond)
  ultimately show ?thesis using assms
    by (fastforce simp: good_module_def parsed_ok_def types_ok_def module_ok_def)
qed

lemma good_names: "good_module n ws we m \<Longrightarrow> i < length (m_functions m) \<Longrightarrow> length (names (m_functions m ! i)) = d_m3MaxDuplicateFunctionImpl"
  by (auto simp: good_module_def parsed_ok_def module_ok_def)

lemma good_body: "good_module n ws we m \<Longrightarrow> i < length (m_functions m) \<Longrightarrow> body_ok ws we (m_functions m ! i)"
  by (auto simp: good_module_def parsed_ok_def)

lemma good_init: "good_module n ws we m \<Longrightarrow> i < length (globals m) \<Longrightarrow> init_ok ws we (globals m ! i)"
  by (auto simp: good_module_def parsed_ok_def)

text \<open>Fields the invariant does not mention.\<close>

lemma good_fields:
  "good_module n ws we (m\<lparr>numFuncImports := a\<rparr>) = good_module n ws we m"
  "good_module n ws we (m\<lparr>memoryInfo := mi\<rparr>) = good_module n ws we m"
  "good_module n ws we (m\<lparr>memoryImported := b, memoryImport := im\<rparr>) = good_module n ws we m"
  "good_module n ws we (m\<lparr>memoryExportName := nm\<rparr>) = good_module n ws we m"
  "good_module n ws we (m\<lparr>table0ExportName := nm\<rparr>) = good_module n ws we m"
  by (simp_all add: good_module_def parsed_ok_def types_ok_def module_ok_def)

interpretation Function_step: section_step "Function_step ok" "good_module n" for ok n
proof
  fix w m p e m' q assume "Function_step ok w m p e = Inr (m', q)"
  then obtain ti where r: "LEB_u32 w p e = Inr (ti, q)" "Module_AddFunction ok m ti None = (None, m')"
    by (auto simp: Function_step_def tryR_Inr_iff at_state_Inr_iff returned_Inr_iff)
  show "p \<le> q \<and> q \<le> e" if "p \<le> e" using LEB_u32.rd_bounds [OF r(1) that] .
  show "good_module n ws we m'" if "good_module n ws we m" for ws we using good_AddFunction [OF that r(2)] .
next
  fix w w' :: "u8 list" and p e :: nat and m assume "agree_on p e w w'" "p \<le> e"
  then show "Function_step ok w m p e = Function_step ok w' m p e"
    unfolding Function_step_def by (intro LEB_u32.at_local refl)
qed

lemma ParseType_Memory_bounds: "ParseType_Memory w mem p e = (None, mem', q) \<Longrightarrow> p \<le> e \<Longrightarrow> p \<le> q \<and> q \<le> e"
  using LEB_u7.rd_bounds LEB_u32.rd_bounds
  by (auto simp: ParseType_Memory_def checked_Inr_iff Let_def split: prod.splits if_splits) (meson le_trans)+


lemma raw_local:
  assumes "agree_on p e w w'" "p \<le> e"
  obtains r v q where "ReadLEB_u32 w p e = (r, v, q)" "ReadLEB_u32 w' p e = (r, v, q)"
    "r = None \<Longrightarrow> q \<le> e" "r = None \<Longrightarrow> agree_on q e w w'"
proof -
  obtain r v q where rd: "ReadLEB_u32 w p e = (r, v, q)" by (cases "ReadLEB_u32 w p e")
  then have "ReadLEB_u32 w' p e = (r, v, q)"
    using ReadLebUnsigned_loop_local [OF assms(1)] by (simp add: ReadLEB_u32_def ReadLebUnsigned_def)
  moreover have "r = None \<Longrightarrow> p \<le> q \<and> q \<le> e"
    using LEB_u32.rd_bounds [of w p e v q] rd assms(2) by (simp add: checked_Inr_iff)
  ultimately show ?thesis using that rd agree_on_later [OF assms(1)] by blast
qed

lemma ParseType_Memory_local:
  assumes "agree_on p e w w'" "p \<le> e"
  shows "ParseType_Memory w mem p e = ParseType_Memory w' mem p e"
proof -
  have u7: "ReadLEB_u7 w p e = ReadLEB_u7 w' p e"
    using ReadLebUnsigned_loop_local [OF assms(1)] by (simp add: ReadLEB_u7_def ReadLebUnsigned_def)
  obtain r f p1 where f: "ReadLEB_u7 w' p e = (r, f, p1)" by (cases "ReadLEB_u7 w' p e")
  show ?thesis
  proof (cases "r = None")
    case True
    then have p1: "p \<le> p1" "p1 \<le> e" using LEB_u7.rd_bounds [of w' p e f p1] f assms(2) by (simp_all add: checked_Inr_iff)
    obtain r1 v1 p2 where 1: "ReadLEB_u32 w p1 e = (r1, v1, p2)" "ReadLEB_u32 w' p1 e = (r1, v1, p2)"
      "r1 = None \<Longrightarrow> p2 \<le> e" "r1 = None \<Longrightarrow> agree_on p2 e w w'"
      using raw_local [OF agree_on_later [OF assms(1) p1(1)] p1(2)] by blast
    show ?thesis
    proof (cases "r1 = None")
      case r1: True
      obtain r2 v2 p3 where 2: "ReadLEB_u32 w p2 e = (r2, v2, p3)" "ReadLEB_u32 w' p2 e = (r2, v2, p3)"
        "r2 = None \<Longrightarrow> p3 \<le> e" "r2 = None \<Longrightarrow> agree_on p3 e w w'"
        using raw_local [OF 1(4,3) [OF r1]] by blast
      show ?thesis
      proof (cases "bit f 0 \<longrightarrow> r2 = None")
        case r2: True
        let ?q = "if bit f 0 then p3 else p2"
        have "agree_on ?q e w w'" "?q \<le> e" using 1 2 r1 r2 by auto
        then have "ReadLEB_u32 w ?q e = ReadLEB_u32 w' ?q e" by (metis raw_local)
        then show ?thesis using u7 f True 1(1,2) 2(1,2) r1 r2
          by (cases "bit f 0") (simp_all add: ParseType_Memory_def Let_def)
      qed (use u7 f True 1(1,2) 2(1,2) r1 in \<open>simp add: ParseType_Memory_def Let_def\<close>)
    qed (use u7 f True 1(1,2) in \<open>simp add: ParseType_Memory_def Let_def\<close>)
  qed (use u7 f in \<open>simp add: ParseType_Memory_def Let_def\<close>)
qed

lemma add_global_Inr [m3_result]: "add_global ok m t mu imp = Inr (m', i) \<longleftrightarrow> Module_AddGlobal ok m t mu imp = (None, m', i)"
  by (cases "Module_AddGlobal ok m t mu imp") (auto simp: add_global_def split: option.splits)

lemma Import_local:
  assumes "agree_on p e w w'" "p \<le> e"
  shows "Import_function ok w e imp m p = Import_function ok w' e imp m p"
    "Import_memory w e imp m p = Import_memory w' e imp m p" "Import_global ok w e imp m p = Import_global ok w' e imp m p"
    unfolding Import_function_def Import_memory_def Import_global_def ParseType_Memory_local [OF assms]
    by (intro LEB_u32.at_local Read_globaltype.at_local refl assms)+

lemma Import_bounds:
  assumes "p \<le> e"
  shows "Import_function ok w e imp m p = Inr (m', q) \<Longrightarrow> p \<le> q \<and> q \<le> e"
    "Import_memory w e imp m p = Inr (m', q) \<Longrightarrow> p \<le> q \<and> q \<le> e" "Import_global ok w e imp m p = Inr (m', q) \<Longrightarrow> p \<le> q \<and> q \<le> e"
  using LEB_u32.rd_bounds Read_globaltype.rd_bounds ParseType_Memory_bounds assms
  by (auto simp: Import_function_def Import_memory_def Import_global_def m3_result split: prod.splits)

lemma Import_keeps:
  assumes "good_module n ws we m"
  shows "Import_function ok w e imp m p = Inr (m', q) \<Longrightarrow> good_module n ws we m'"
    "Import_memory w e imp m p = Inr (m', q) \<Longrightarrow> good_module n ws we m'"
    "Import_global ok w e imp m p = Inr (m', q) \<Longrightarrow> good_module n ws we m'"
proof goal_cases
  case 1
  then show ?case using good_AddFunction [OF assms]
    by (auto simp: Import_function_def tryR_Inr_iff at_state_Inr_iff returned_Inr_iff good_fields)
next
  case 2
  then obtain mem where r: "m' = (m\<lparr>memoryInfo := mem\<rparr>)\<lparr>memoryImported := True, memoryImport := imp\<rparr>"
    by (auto simp: Import_memory_def tryR_Inr_iff returned_Inr_iff split: prod.splits)
  show ?case unfolding r good_fields by (rule assms)
next
  case 3
  then obtain t b m1 i where r: "Module_AddGlobal ok m t b True = (None, m1, i)"
      "m' = update_global i (\<lambda>g. g\<lparr>gl_import := imp\<rparr>) m1"
    by (auto simp: Import_global_def tryR_Inr_iff at_state_Inr_iff add_global_Inr)
  note g = good_AddGlobal [OF assms r(1)]
  show ?case unfolding r(2)
    by (rule good_update_global) (use g good_init [of n ws we m1 i] in \<open>auto simp: init_ok_def split: option.splits\<close>)
qed

interpretation Import_step: section_step "Import_step ok" "good_module n" for ok n
proof
  fix w m p e m' q assume s: "Import_step ok w m p e = Inr (m', q)"
  then obtain mo fi p1 p2 p3 k imp where r: "Read_utf8 ok w p e = Inr (mo, p1)" "Read_utf8 ok w p1 e = Inr (fi, p2)"
      "Read_u8 w p2 e = Inr (k, p3)"
    and d: "Import_function ok w e imp m p3 = Inr (m', q) \<or> Import_memory w e imp m p3 = Inr (m', q)
        \<or> Import_global ok w e imp m p3 = Inr (m', q) \<or> (m' = m \<and> q = p3)"
    by (auto simp: Import_step_def tryR_Inr_iff at_state_Inr_iff Let_def split: if_splits)
  have b: "p \<le> p3 \<and> p3 \<le> e" if "p \<le> e"
    using Read_utf8.rd_bounds [OF r(1)] Read_utf8.rd_bounds [OF r(2)] Read_u8.rd_bounds [OF r(3)] that by linarith
  show "good_module n ws we m'" if "good_module n ws we m" "p \<le> e" for ws we
    using d Import_keeps [OF that(1)] that(1) by blast
  show "p \<le> q \<and> q \<le> e" if "p \<le> e"
    using d b [OF that] Import_bounds [of p3 e] by (meson le_trans)
next
  fix w w' :: "u8 list" and p e :: nat and m assume "agree_on p e w w'" "p \<le> e"
  then show "Import_step ok w m p e = Import_step ok w' m p e"
    unfolding Import_step_def Let_def by (intro Read_utf8.at_local Read_u8.at_local if_cong Import_local refl)
qed


lemma Export_keeps:
  assumes "good_module n ws we m"
  shows "Export_function m nm i = Inr m' \<Longrightarrow> good_module n ws we m'" "Export_global m nm i = Inr m' \<Longrightarrow> good_module n ws we m'"
    "set_name i nm m = Inr m' \<Longrightarrow> good_module n ws we m'"
proof goal_cases
  case 1
  then show ?case using good_names [OF assms, of "unat i"] good_body [OF assms, of "unat i"] assms
    by (auto simp: Export_function_def Let_def throwif_Inr_iff body_ok_def split: if_splits option.splits intro!: good_set_function)
next
  case 2
  then have m': "m' = update_global (unat i) (\<lambda>g. g\<lparr>gl_name := nm\<rparr>) m" "unat i < length (globals m)"
    by (auto simp: Export_global_def throwif_Inr_iff)
  show ?case unfolding m'(1)
    by (rule good_update_global [OF assms]) (use good_init [OF assms m'(2)] in \<open>auto simp: init_ok_def split: option.splits\<close>)
next
  case 3
  then show ?case using good_names [OF assms, of "unat i"] good_body [OF assms, of "unat i"] assms
    by (auto simp: set_name_def Let_def throwif_Inr_iff body_ok_def split: if_splits option.splits intro!: good_set_function)
qed

interpretation Export_step: section_step "Export_step ok" "good_module n" for ok n
proof
  fix w m p e m' q assume "Export_step ok w m p e = Inr (m', q)"
  then obtain nm p1 k p2 i where r: "Read_utf8 ok w p e = Inr (nm, p1)" "Read_u8 w p1 e = Inr (k, p2)" "LEB_u32 w p2 e = Inr (i, q)"
    and d: "Export_function m nm i = Inr m' \<or> Export_global m nm i = Inr m' \<or> m' = m\<lparr>memoryExportName := nm\<rparr>
      \<or> m' = m\<lparr>table0ExportName := nm\<rparr> \<or> m' = m"
    by (auto simp: Export_step_def tryR_Inr_iff at_state_Inr_iff Let_def split: if_splits)
  show "p \<le> q \<and> q \<le> e" if "p \<le> e"
    using Read_utf8.rd_bounds [OF r(1)] Read_u8.rd_bounds [OF r(2)] LEB_u32.rd_bounds [OF r(3)] that by linarith
  show "good_module n ws we m'" if "good_module n ws we m" for ws we
    using d Export_keeps [OF that] that by (auto simp: good_fields)
next
  fix w w' :: "u8 list" and p e :: nat and m assume "agree_on p e w w'" "p \<le> e"
  then show "Export_step ok w m p e = Export_step ok w' m p e"
    unfolding Export_step_def Let_def by (intro Read_utf8.at_local Read_u8.at_local LEB_u32.at_local refl)
qed

interpretation Name_step: section_step "Name_step ok" "good_module n" for ok n
proof
  fix w m p e m' q assume "Name_step ok w m p e = Inr (m', q)"
  then obtain nm p1 i where r: "LEB_u32 w p e = Inr (i, p1)" "Read_utf8 ok w p1 e = Inr (nm, q)" "set_name i nm m = Inr m'"
    by (auto simp: Name_step_def tryR_Inr_iff at_state_Inr_iff)
  show "p \<le> q \<and> q \<le> e" if "p \<le> e"
    using Read_utf8.rd_bounds [OF r(2)] LEB_u32.rd_bounds [OF r(1)] that by linarith
  show "good_module n ws we m'" if "good_module n ws we m" for ws we using Export_keeps(3) [OF that r(3)] .
next
  fix w w' :: "u8 list" and p e :: nat and m assume "agree_on p e w w'" "p \<le> e"
  then show "Name_step ok w m p e = Name_step ok w' m p e"
    unfolding Name_step_def by (intro Read_utf8.at_local LEB_u32.at_local refl)
qed

interpretation Code_step: section_step Code_step "\<lambda>ws we (m, f). good_module n ws we m" for n
proof
  fix w :: "u8 list" and s :: "M3Module \<times> u32" and p e s' q
  assume c: "Code_step w s p e = Inr (s', q)"
  obtain m f where s: "s = (m, f)" by (cases s)
  from c s obtain size p1 where r: "LEB_u32 w p e = Inr (size, p1)"
    and d: "(s' = (m, f + 1) \<and> q = p1) \<or> (\<exists>i. q = p1 + unat size \<and> q \<le> e \<and> size \<noteq> 0 \<and> i < length (m_functions m)
      \<and> s' = (m\<lparr>m_functions := (m_functions m)[i := (m_functions m ! i)\<lparr>fn_wasm := Some p, fn_wasmEnd := Some q\<rparr>]\<rparr>, f + 1))"
    by (auto simp: Code_step_def tryR_Inr_iff at_state_Inr_iff Let_def throwif_Inr_iff split: if_splits option.splits)
  show "p \<le> q \<and> q \<le> e" if "p \<le> e" using LEB_u32.rd_bounds [OF r that] d by auto
  show "case s' of (m, f) \<Rightarrow> good_module n ws we m" if "case s of (m, f) \<Rightarrow> good_module n ws we m" "ws \<le> p" "p \<le> e" "e \<le> we" for ws we
    using d
  proof (elim disjE exE conjE)
    fix i assume i: "q = p1 + unat size" "q \<le> e" "size \<noteq> 0" "i < length (m_functions m)"
      and s': "s' = (m\<lparr>m_functions := (m_functions m)[i := (m_functions m ! i)\<lparr>fn_wasm := Some p, fn_wasmEnd := Some q\<rparr>]\<rparr>, f + 1)"
    have g: "good_module n ws we m" using that(1) s by simp
    have "p < q" using LEB_u32.rd_progress [OF r] i by simp
    then show ?thesis using good_names [OF g i(4)] that i g
      by (auto simp: s' body_ok_def intro!: good_set_function)
  qed (use that s in simp)
next
  fix w w' :: "u8 list" and p e :: nat and s :: "M3Module \<times> u32" assume "agree_on p e w w'" "p \<le> e"
  then show "Code_step w s p e = Code_step w' s p e"
    unfolding Code_step_def Let_def by (cases s) (simp, intro LEB_u32.at_local refl)
qed

lemma Read_segment_bounds:
  assumes "Read_segment m w p e = Inr (d, q)" "p \<le> e"
  shows "p \<le> q \<and> q \<le> e \<and> (e \<le> we \<longrightarrow> segment_ok we d)"
proof -
  obtain mr p1 u p2 size data where r: "LEB_u32 w p e = Inr (mr, p1)" "Parse_InitExpr m w p1 e = Inr (u, p2)"
      "LEB_u32 w p2 e = Inr (size, data)" "data + unat size \<le> e" "q = data + unat size"
    and d: "d = \<lparr>ds_initExpr = p1, ds_data = data, ds_initExprSize = of_nat (p2 - p1), ds_memoryRegion = mr, ds_size = size\<rparr>"
    using assms by (auto simp: Read_segment_def tryR_Inr_iff Let_def throwif_Inr_iff)
  have "unat (of_nat (p2 - p1) :: u32) \<le> p2 - p1" by (simp add: unsigned_of_nat take_bit_nat_less_eq_self)
  then show ?thesis
    using LEB_u32.rd_bounds [OF r(1)] Parse_InitExpr.rd_bounds [OF r(2)] LEB_u32.rd_bounds [OF r(3)] r(4,5) assms(2)
    by (auto simp: d segment_ok_def)
qed

interpretation Data_step: section_step Data_step "\<lambda>ws we (m, i). good_module n ws we m" for n
proof
  fix w :: "u8 list" and s :: "M3Module \<times> nat" and p e s' q
  assume c: "Data_step w s p e = Inr (s', q)"
  obtain m i where s: "s = (m, i)" by (cases s)
  from c s obtain d where r: "Read_segment m w p e = Inr (d, q)" and s': "s' = (m\<lparr>dataSegments := (dataSegments m)[i := d]\<rparr>, i + 1)"
    by (auto simp: Data_step_def tryR_Inr_iff at_state_Inr_iff)
  show "p \<le> q \<and> q \<le> e" if "p \<le> e" using Read_segment_bounds [OF r that] by auto
  show "case s' of (m, f) \<Rightarrow> good_module n ws we m" if "case s of (m, f) \<Rightarrow> good_module n ws we m" "p \<le> e" "e \<le> we" for ws we
    using Read_segment_bounds [OF r that(2), of we] that set_update_subset_insert [of "dataSegments m" i d]
    by (auto simp: s s' good_module_def parsed_ok_def types_ok_def module_ok_def)
next
  fix w w' :: "u8 list" and p e :: nat and s :: "M3Module \<times> nat" assume "agree_on p e w w'" "p \<le> e"
  then show "Data_step w s p e = Data_step w' s p e"
    unfolding Data_step_def Read_segment_def Let_def
    by (cases s) (simp, intro arg_cong [where f = "\<lambda>x. tryR (at_state _ x) _"] LEB_u32.plain_local Parse_InitExpr.plain_local throwif_same refl)
qed


interpretation Global_step: section_step "Global_step ok" "good_module n" for ok n
proof
  fix w m p e m' q assume "Global_step ok w m p e = Inr (m', q)"
  then obtain t b p1 m1 i u where r: "Read_globaltype w p e = Inr ((t, b), p1)" "Module_AddGlobal ok m t b False = (None, m1, i)"
      "Parse_InitExpr (update_global i (\<lambda>g. g\<lparr>gl_initExpr := Some p1\<rparr>) m1) w p1 e = Inr (u, q)"
    and m': "m' = update_global i (\<lambda>g. g\<lparr>gl_initExprSize := of_nat (q - p1)\<rparr>) (update_global i (\<lambda>g. g\<lparr>gl_initExpr := Some p1\<rparr>) m1)"
    by (auto simp: Global_step_def tryR_Inr_iff at_state_Inr_iff add_global_Inr Let_def throwif_Inr_iff)
  have b: "p \<le> p1 \<and> p1 \<le> q \<and> q \<le> e" if "p \<le> e"
    using Read_globaltype.rd_bounds [OF r(1)] Parse_InitExpr.rd_bounds [OF r(3)] that by linarith
  show "p \<le> q \<and> q \<le> e" if "p \<le> e" using b [OF that] by linarith
  show "good_module n ws we m'" if g: "good_module n ws we m" and w: "ws \<le> p" "p \<le> e" "e \<le> we" for ws we
  proof -
    note g1 = good_AddGlobal [OF g r(2)]
    have sz: "unat (of_nat (q - p1) :: u32) \<le> q - p1" by (simp add: unsigned_of_nat take_bit_nat_less_eq_self)
    have "m' = update_global i (\<lambda>g. g\<lparr>gl_initExpr := Some p1, gl_initExprSize := of_nat (q - p1)\<rparr>) m1"
      using g1 by (simp add: m' update_global_def)
    moreover have "good_module n ws we (update_global i (\<lambda>g. g\<lparr>gl_initExpr := Some p1, gl_initExprSize := of_nat (q - p1)\<rparr>) m1)"
      by (rule good_update_global) (use g1 b [OF w(2)] w sz in \<open>auto simp: init_ok_def\<close>)
    ultimately show ?thesis by simp
  qed
next
  fix w w' :: "u8 list" and p e :: nat and m assume ag: "agree_on p e w w'" and pe: "p \<le> e"
  show "Global_step ok w m p e = Global_step ok w' m p e"
    unfolding Global_step_def Let_def
    by (rule Read_globaltype.at_local [OF ag pe], clarsimp, intro tryR_cong refl, clarsimp, intro Parse_InitExpr.at_local refl)
qed

lemma Environment_AddFuncType_length:
  "Environment_AddFuncType pool t = (pool', q) \<Longrightarrow> q < length pool' \<and> length pool \<le> length pool' \<and> set pool' \<subseteq> insert t (set pool)"
proof -
  have "AddFuncType_loop pool t = Some q \<Longrightarrow> q < length pool" for q
    by (induction pool) (auto split: if_splits)
  then show "Environment_AddFuncType pool t = (pool', q) \<Longrightarrow> q < length pool' \<and> length pool \<le> length pool' \<and> set pool' \<subseteq> insert t (set pool)"
    by (auto simp: Environment_AddFuncType_def split: option.splits)
qed

lemma Read_functype_wf:
  assumes "Read_functype ok w p e = Inr (t, q)" "p \<le> e"
  shows "ft_wf t"
proof -
  obtain f p1 na p2 ats p3 nr p4 rts where r: "LEB_i7 w p e = Inr (f, p1)" "LEB_u32 w p1 e = Inr (na, p2)"
      "read_many Read_valtype (unat na) w p2 e = Inr (ats, p3)" "LEB_u32 w p3 e = Inr (nr, p4)"
      "read_many Read_valtype (unat nr) w p4 e = Inr (rts, q)" "ft_types t = rts @ ats"
      "ft_numArgs t = ucast na" "ft_numRets t = ucast nr"
    using assms by (auto simp: Read_functype_def tryR_Inr_iff throwif_Inr_iff AllocFuncType_def Let_def split: if_splits)
  note b = LEB_i7.rd_bounds [OF r(1)] LEB_u32.rd_bounds [OF r(2)] LEB_u32.rd_bounds [OF r(4)]
      Read_valtype.many_bounds [OF r(3)] Read_valtype.many_bounds [OF r(5)]
  have "unat (ucast x :: u16) \<le> unat x" for x :: u32 by (simp add: unsigned_ucast_eq take_bit_nat_less_eq_self)
  then show ?thesis using b assms(2) r by (simp add: ft_wf_def add_mono add.commute)
qed

lemma Type_step_Inr:
  "Type_step ok w ((env, m), i) p e = Inr (s', q) \<longleftrightarrow>
    (\<exists>t. Read_functype ok w p e = Inr (t, q) \<and>
      s' = ((env\<lparr>funcTypes := fst (Environment_AddFuncType (funcTypes env) t)\<rparr>,
            m\<lparr>m_funcTypes := (m_funcTypes m)[i := Some (snd (Environment_AddFuncType (funcTypes env) t))]\<rparr>), i + 1))"
  by (auto simp: Type_step_def tryR_Inr_iff at_state_Inr_iff split_beta)

definition type_loop_ok :: "nat \<Rightarrow> nat \<Rightarrow> env_module \<times> nat \<Rightarrow> bool" where
  "type_loop_ok ws we s \<longleftrightarrow> (case s of ((env, m), i) \<Rightarrow>
    (\<forall>t \<in> set (funcTypes env). ft_wf t) \<and> parsed_ok (length (funcTypes env)) ws we m
    \<and> (\<forall>j < i. j < length (m_funcTypes m) \<longrightarrow> (\<exists>q < length (funcTypes env). m_funcTypes m ! j = Some q)))"

interpretation Type_step: section_step "Type_step ok" type_loop_ok for ok
proof
  fix w :: "u8 list" and s :: "env_module \<times> nat" and p e s' q
  assume c: "Type_step ok w s p e = Inr (s', q)"
  obtain env m i where s: "s = ((env, m), i)" by (metis surj_pair)
  from c s obtain t pool k where r: "Read_functype ok w p e = Inr (t, q)" "Environment_AddFuncType (funcTypes env) t = (pool, k)"
    and s': "s' = ((env\<lparr>funcTypes := pool\<rparr>, m\<lparr>m_funcTypes := (m_funcTypes m)[i := Some k]\<rparr>), i + 1)"
    unfolding s Type_step_Inr by (metis prod.collapse)
  show "p \<le> q \<and> q \<le> e" if "p \<le> e" using Read_functype.rd_bounds [OF r(1) that] .
  note len = Environment_AddFuncType_length [OF r(2)]
  show "type_loop_ok ws we s'" if "type_loop_ok ws we s" and "p \<le> e" for ws we
  proof -
    have g: "\<forall>t \<in> set (funcTypes env). ft_wf t" "parsed_ok (length (funcTypes env)) ws we m"
      "\<And>j. j < i \<Longrightarrow> j < length (m_funcTypes m) \<Longrightarrow> \<exists>q < length (funcTypes env). m_funcTypes m ! j = Some q"
      using that(1) by (auto simp: s type_loop_ok_def)
    have "parsed_ok (length pool) ws we m" using g len parsed_ok_mono by auto
    then have "parsed_ok (length pool) ws we (m\<lparr>m_funcTypes := (m_funcTypes m)[i := Some k]\<rparr>)"
      by (simp add: parsed_ok_def module_ok_def)
    moreover have "\<forall>t \<in> set pool. ft_wf t" using g len Read_functype_wf [OF r(1) that(2)] by auto
    moreover have "\<exists>q < length pool. (m_funcTypes m)[i := Some k] ! j = Some q" if ij: "j < i + 1" "j < length (m_funcTypes m)" for j
    proof (cases "j = i")
      case False
      with ij(1) have "j < i" by simp
      then obtain q' where "q' < length (funcTypes env)" "m_funcTypes m ! j = Some q'" using ij g by blast
      then show ?thesis using \<open>j < i\<close> len by (intro exI [of _ q']) auto
    qed (use ij len in auto)
    ultimately show ?thesis by (simp add: s' type_loop_ok_def)
  qed
next
  fix w w' :: "u8 list" and p e :: nat and s :: "env_module \<times> nat" assume "agree_on p e w w'" "p \<le> e"
  then show "Type_step ok w s p e = Type_step ok w' s p e"
    unfolding Type_step_def by (cases s) (auto intro!: Read_functype.at_local)
qed

lemma Type_step_many_index:
  "step_many (Type_step ok) n w ((env, m), i) p e = Inr (((env', m'), i'), q)
    \<Longrightarrow> i' = i + n \<and> length (m_funcTypes m') = length (m_funcTypes m)"
proof (induction n arbitrary: env m i p)
  case (Suc n)
  then obtain s1 p1 where s1: "Type_step ok w ((env, m), i) p e = Inr (s1, p1)"
    "step_many (Type_step ok) n w s1 p1 e = Inr (((env', m'), i'), q)" by (auto simp: tryR_Inr_iff)
  then obtain env1 m1 where "s1 = ((env1, m1), i + 1)" "length (m_funcTypes m1) = length (m_funcTypes m)"
    by (auto simp: Type_step_Inr)
  with s1 Suc.IH show ?case by fastforce
qed simp


section \<open>The section parsers meet the interface\<close>

text \<open>A parser that does not use the environment, on the pair.\<close>

context section_parser
begin

lemma parse_local': "agree_on p e w w' \<Longrightarrow> p \<le> e \<Longrightarrow> (\<lambda>s. parse w s p e) = (\<lambda>s. parse w' s p e)"
  using parse_local by blast

end

lemma good_in_module:
  assumes "in_module f em = Inr em'" "good_env ws we em"
    and "\<And>m m' n. f m = Inr m' \<Longrightarrow> good_module n ws we m \<Longrightarrow> good_module n ws we m'"
  shows "good_env ws we em'"
  using assms by (cases em) (auto simp: in_module_def good_env_def split: sum.splits)

interpretation ParseSection_Function: section_parser "ParseSection_Function ok" "good_module n" for ok n
proof
  fix w m p e m' ws we assume "ParseSection_Function ok w m p e = Inr m'" and g: "good_module n ws we m" and w: "ws \<le> p" "p \<le> e" "e \<le> we"
  then obtain k p1 m1 q where r: "LEB_u32 w p e = Inr (k, p1)" "Module_PreallocFunctions ok m (numFunctions m + k) = (None, m1)"
      "step_many (Function_step ok) (unat k) w m1 p1 e = Inr (m', q)"
    by (auto simp: ParseSection_Function_def m3_result)
  have "ws \<le> p1" "p1 \<le> e" using LEB_u32.rd_bounds [OF r(1)] w by auto
  then show "good_module n ws we m'" using Function_step.many_keeps [OF r(3) good_Prealloc [OF g r(2)]] w by blast
next
  fix w w' :: "u8 list" and p e :: nat and m assume ag: "agree_on p e w w'" and pe: "p \<le> e"
  show "ParseSection_Function ok w m p e = ParseSection_Function ok w' m p e"
    unfolding ParseSection_Function_def
    by (intro LEB_u32.at_local [OF ag pe] throwif_same tryR_cong refl Function_step.many_local)
qed

interpretation ParseSection_Import: section_parser "ParseSection_Import ok" "good_module n" for ok n
proof
  fix w m p e m' ws we assume "ParseSection_Import ok w m p e = Inr m'" and g: "good_module n ws we m" and w: "ws \<le> p" "p \<le> e" "e \<le> we"
  then obtain k p1 m1 q where r: "LEB_u32 w p e = Inr (k, p1)" "Module_PreallocFunctions ok m k = (None, m1)"
      "step_many (Import_step ok) (unat k) w m1 p1 e = Inr (m', q)"
    by (auto simp: ParseSection_Import_def m3_result)
  have "ws \<le> p1" "p1 \<le> e" using LEB_u32.rd_bounds [OF r(1)] w by auto
  then show "good_module n ws we m'" using Import_step.many_keeps [OF r(3) good_Prealloc [OF g r(2)]] w by blast
next
  fix w w' :: "u8 list" and p e :: nat and m assume ag: "agree_on p e w w'" and pe: "p \<le> e"
  show "ParseSection_Import ok w m p e = ParseSection_Import ok w' m p e"
    unfolding ParseSection_Import_def
    by (intro LEB_u32.at_local [OF ag pe] throwif_same tryR_cong refl Import_step.many_local)
qed

interpretation ParseSection_Export: section_parser "ParseSection_Export ok" "good_module n" for ok n
proof
  fix w m p e m' ws we assume "ParseSection_Export ok w m p e = Inr m'" and g: "good_module n ws we m" and w: "ws \<le> p" "p \<le> e" "e \<le> we"
  then obtain k p1 q where r: "LEB_u32 w p e = Inr (k, p1)" "step_many (Export_step ok) (unat k) w m p1 e = Inr (m', q)"
    by (auto simp: ParseSection_Export_def m3_result)
  have "ws \<le> p1" "p1 \<le> e" using LEB_u32.rd_bounds [OF r(1)] w by auto
  then show "good_module n ws we m'" using Export_step.many_keeps [OF r(2) g] w by blast
next
  fix w w' :: "u8 list" and p e :: nat and m assume ag: "agree_on p e w w'" and pe: "p \<le> e"
  show "ParseSection_Export ok w m p e = ParseSection_Export ok w' m p e"
    unfolding ParseSection_Export_def
    by (intro LEB_u32.at_local [OF ag pe] throwif_same tryR_cong refl Export_step.many_local)
qed

interpretation ParseSection_Global: section_parser "ParseSection_Global ok" "good_module n" for ok n
proof
  fix w m p e m' ws we assume "ParseSection_Global ok w m p e = Inr m'" and g: "good_module n ws we m" and w: "ws \<le> p" "p \<le> e" "e \<le> we"
  then obtain k p1 q where r: "LEB_u32 w p e = Inr (k, p1)" "step_many (Global_step ok) (unat k) w m p1 e = Inr (m', q)"
    by (auto simp: ParseSection_Global_def m3_result)
  have "ws \<le> p1" "p1 \<le> e" using LEB_u32.rd_bounds [OF r(1)] w by auto
  then show "good_module n ws we m'" using Global_step.many_keeps [OF r(2) g] w by blast
next
  fix w w' :: "u8 list" and p e :: nat and m assume ag: "agree_on p e w w'" and pe: "p \<le> e"
  show "ParseSection_Global ok w m p e = ParseSection_Global ok w' m p e"
    unfolding ParseSection_Global_def
    by (intro LEB_u32.at_local [OF ag pe] throwif_same tryR_cong refl Global_step.many_local)
qed

interpretation ParseSection_Code: section_parser ParseSection_Code "good_module n" for n
proof
  fix w m p e m' ws we assume "ParseSection_Code w m p e = Inr m'" and g: "good_module n ws we m" and w: "ws \<le> p" "p \<le> e" "e \<le> we"
  then obtain k p1 f q where r: "LEB_u32 w p e = Inr (k, p1)" "step_many Code_step (unat k) w (m, 0) p1 e = Inr ((m', f), q)"
    by (auto simp: ParseSection_Code_def m3_result split: if_splits)
  have "ws \<le> p1" "p1 \<le> e" using LEB_u32.rd_bounds [OF r(1)] w by auto
  then show "good_module n ws we m'" using Code_step.many_keeps [OF r(2), of n ws we] g w by simp
next
  fix w w' :: "u8 list" and p e :: nat and m assume ag: "agree_on p e w w'" and pe: "p \<le> e"
  show "ParseSection_Code w m p e = ParseSection_Code w' m p e"
    unfolding ParseSection_Code_def
    by (intro LEB_u32.at_local [OF ag pe] if_cong tryR_cong refl Code_step.many_local)
qed

interpretation ParseSection_Data: section_parser "ParseSection_Data ok" "good_module n" for ok n
proof
  fix w m p e m' ws we assume "ParseSection_Data ok w m p e = Inr m'" and g: "good_module n ws we m" and w: "ws \<le> p" "p \<le> e" "e \<le> we"
  then obtain k p1 i q where r: "LEB_u32 w p e = Inr (k, p1)"
    "step_many Data_step (unat k) w (m\<lparr>dataSegments := replicate (unat k) zero_segment, numDataSegments := k\<rparr>, 0) p1 e = Inr ((m', i), q)"
    by (auto simp: ParseSection_Data_def m3_result)
  have "ws \<le> p1" "p1 \<le> e" using LEB_u32.rd_bounds [OF r(1)] w by auto
  moreover have "good_module n ws we (m\<lparr>dataSegments := replicate (unat k) zero_segment, numDataSegments := k\<rparr>)"
    using g by (auto simp: good_module_def parsed_ok_def types_ok_def module_ok_def)
  ultimately show "good_module n ws we m'" using Data_step.many_keeps [OF r(2), of n ws we] w by simp
next
  fix w w' :: "u8 list" and p e :: nat and m assume ag: "agree_on p e w w'" and pe: "p \<le> e"
  show "ParseSection_Data ok w m p e = ParseSection_Data ok w' m p e"
    unfolding ParseSection_Data_def
    by (intro LEB_u32.at_local [OF ag pe] throwif_same tryR_cong refl Data_step.many_local)
qed

interpretation ParseSection_Start: section_parser ParseSection_Start "good_module n" for n
proof
  fix w m p e m' ws we assume "ParseSection_Start w m p e = Inr m'" "good_module n ws we m"
  then show "good_module n ws we m'"
    by (auto simp: ParseSection_Start_def m3_result good_module_def parsed_ok_def types_ok_def module_ok_def split: if_splits)
next
  fix w w' :: "u8 list" and p e :: nat and m assume ag: "agree_on p e w w'" and pe: "p \<le> e"
  show "ParseSection_Start w m p e = ParseSection_Start w' m p e"
    unfolding ParseSection_Start_def by (intro LEB_u32.at_local [OF ag pe] refl)
qed

interpretation ParseSection_Element: section_parser ParseSection_Element "good_module n" for n
proof
  fix w m p e m' ws we assume r: "ParseSection_Element w m p e = Inr m'" "good_module n ws we m" "p \<le> e" "e \<le> we"
  then show "good_module n ws we m'" using LEB_u32.rd_bounds [of w p e]
    by (fastforce simp: ParseSection_Element_def m3_result good_module_def parsed_ok_def types_ok_def module_ok_def)
next
  fix w w' :: "u8 list" and p e :: nat and m assume ag: "agree_on p e w w'" and pe: "p \<le> e"
  show "ParseSection_Element w m p e = ParseSection_Element w' m p e"
    unfolding ParseSection_Element_def by (intro LEB_u32.at_local [OF ag pe] refl)
qed

interpretation ParseSection_Memory: section_parser ParseSection_Memory "good_module n" for n
proof
  fix w m p e m' ws we assume "ParseSection_Memory w m p e = Inr m'" "good_module n ws we m"
  then show "good_module n ws we m'"
    by (auto simp: ParseSection_Memory_def m3_result Let_def good_fields split_beta split: if_splits)
next
  fix w w' :: "u8 list" and p e :: nat and m assume ag: "agree_on p e w w'" and pe: "p \<le> e"
  show "ParseSection_Memory w m p e = ParseSection_Memory w' m p e"
    unfolding ParseSection_Memory_def
    by (rule LEB_u32.at_local [OF ag pe], rule throwif_same) (simp add: ParseType_Memory_local)
qed

lemma ParseSection_Type_keeps:
  assumes "ParseSection_Type ok w em p e = Inr em'" "good_env ws we em" "p \<le> e" "ws \<le> p" "e \<le> we"
  shows "good_env ws we em'"
proof -
  obtain env m where em: "em = (env, m)" by (cases em)
  from assms(1) obtain n p1 where n: "LEB_u32 w p e = Inr (n, p1)" and
    d: "(n = 0 \<and> em' = em) \<or> (\<exists>i q. step_many (Type_step ok) (unat n) w
      ((env, m\<lparr>m_funcTypes := replicate (unat n) None, numFuncTypes := n\<rparr>), 0) p1 e = Inr ((em', i), q))"
    by (auto simp: ParseSection_Type_def em m3_result split: sum.splits if_splits)
  show ?thesis using d
  proof (elim disjE exE conjE)
    fix i q
    let ?s = "((env, m\<lparr>m_funcTypes := replicate (unat n) None, numFuncTypes := n\<rparr>), 0)"
    assume r: "step_many (Type_step ok) (unat n) w ?s p1 e = Inr ((em', i), q)"
    obtain env' m' where em': "em' = (env', m')" by (cases em')
    have i: "i = unat n" "length (m_funcTypes m') = unat n" using Type_step_many_index [OF r [unfolded em']] by simp_all
    have "type_loop_ok ws we ?s"
      using assms(2) by (simp add: em type_loop_ok_def good_env_def good_module_def parsed_ok_def module_ok_def)
    moreover have "ws \<le> p1" "p1 \<le> e" using LEB_u32.rd_bounds [OF n assms(3)] assms(4) by auto
    ultimately have "type_loop_ok ws we ((env', m'), i)"
      using Type_step.many_keeps [OF r [unfolded em']] assms(5) by blast
    then show ?thesis using i
      by (auto simp: em' type_loop_ok_def good_env_def good_module_def types_ok_def in_set_conv_nth)
  qed (use assms in simp)
qed

lemma ParseSection_Type_local:
  assumes "agree_on p e w w'" "p \<le> e"
  shows "ParseSection_Type ok w em p e = ParseSection_Type ok w' em p e"
proof -
  have eq: "tryR (at_state em (LEB_u32 w p e)) (\<lambda>(numTypes, p). throwif (M3Msg ''too many types'', em) (numTypes > 1000000)
         (if numTypes \<noteq> 0 then throwif (m3Err_mallocFailed, em) (\<not> ok (8 * unat numTypes))
             (tryR (step_many (Type_step ok) (unat numTypes) w
                 ((env, m\<lparr>m_funcTypes := replicate (unat numTypes) None, numFuncTypes := numTypes\<rparr>), 0) p e) (\<lambda>((em, i), p). Inr em))
          else Inr em))
    = tryR (at_state em (LEB_u32 w' p e)) (\<lambda>(numTypes, p). throwif (M3Msg ''too many types'', em) (numTypes > 1000000)
         (if numTypes \<noteq> 0 then throwif (m3Err_mallocFailed, em) (\<not> ok (8 * unat numTypes))
             (tryR (step_many (Type_step ok) (unat numTypes) w'
                 ((env, m\<lparr>m_funcTypes := replicate (unat numTypes) None, numFuncTypes := numTypes\<rparr>), 0) p e) (\<lambda>((em, i), p). Inr em))
          else Inr em))" for env m
    by (intro LEB_u32.at_local [OF assms] throwif_same if_cong tryR_cong refl Type_step.many_local)
  obtain env m where em: "em = (env, m)" by (cases em)
  show ?thesis by (simp only: em ParseSection_Type_def prod.case eq [unfolded em])
qed

lemma Name_subsection_keeps:
  assumes "Name_subsection ok w e ty m p = Inr m'" "good_module n ws we m" "ws \<le> p" "p \<le> e" "e \<le> we"
  shows "good_module n ws we m'"
proof (cases "ty = 1")
  case True
  then obtain k p1 q where r: "LEB_u32 w p e = Inr (k, p1)" "step_many (Name_step ok) (unat k) w m p1 e = Inr (m', q)"
    using assms(1) by (auto simp: Name_subsection_def m3_result)
  show ?thesis using Name_step.many_keeps [OF r(2) assms(2)] LEB_u32.rd_bounds [OF r(1) assms(4)] assms(3,5) by simp
qed (use assms in \<open>simp add: Name_subsection_def\<close>)

lemma Name_subsection_local:
  assumes "agree_on p e w w'" "p \<le> e"
  shows "Name_subsection ok w e ty m p = Name_subsection ok w' e ty m p"
  unfolding Name_subsection_def
  by (intro if_cong refl LEB_u32.at_local [OF assms] throwif_same tryR_cong Name_step.many_local)

lemma ParseSection_Name_loop_keeps:
  "ParseSection_Name_loop ok w e m p = Inr m' \<Longrightarrow> good_module n ws we m \<Longrightarrow> ws \<le> p \<Longrightarrow> e \<le> we \<Longrightarrow> good_module n ws we m'"
proof (induction ok w e m p rule: ParseSection_Name_loop.induct)
  case (1 ok w e m p)
  show ?case
  proof (cases "p < e")
    case lt: True
    with 1(2) obtain ty p1 len p2 m1 where r: "at_state m (LEB_u7 w p e) = Inr (ty, p1)" "at_state m (LEB_u32 w p1 e) = Inr (len, p2)"
      "Name_subsection ok w e ty m p2 = Inr m1" "ParseSection_Name_loop ok w e m1 (p2 + unat len) = Inr m'"
      by (auto simp: ParseSection_Name_loop.simps [of ok w e m p] tryR_Inr_iff)
    have b: "p \<le> p1" "p1 \<le> e" "p1 \<le> p2" "p2 \<le> e"
      using LEB_u7.rd_bounds [of w p e ty p1] LEB_u32.rd_bounds [of w p1 e len p2] r(1,2) lt by (auto simp: at_state_Inr_iff)
    have "good_module n ws we m1" using Name_subsection_keeps [OF r(3) 1(3)] 1(4,5) b by simp
    then show ?thesis using 1(1) [OF lt r(1) refl r(2) refl r(3,4)] 1(4,5) b by simp
  qed (use 1 in \<open>simp add: ParseSection_Name_loop.simps [of ok w e m p]\<close>)
qed

lemma ParseSection_Name_loop_local:
  "agree_on p e w w' \<Longrightarrow> ParseSection_Name_loop ok w e m p = ParseSection_Name_loop ok w' e m p"
proof (induction ok w e m p rule: ParseSection_Name_loop.induct)
  case (1 ok w e m p)
  show ?case
  proof (cases "p < e")
    case lt: True
    have "ParseSection_Name_loop ok w e m p = tryR (at_state m (LEB_u7 w p e)) (\<lambda>(ty, p1).
       tryR (at_state m (LEB_u32 w p1 e)) (\<lambda>(len, p2). tryR (Name_subsection ok w e ty m p2) (\<lambda>m.
         ParseSection_Name_loop ok w e m (p2 + unat len))))" using lt by (simp add: ParseSection_Name_loop.simps [of ok w e m p])
    also have "\<dots> = tryR (at_state m (LEB_u7 w' p e)) (\<lambda>(ty, p1).
       tryR (at_state m (LEB_u32 w' p1 e)) (\<lambda>(len, p2). tryR (Name_subsection ok w' e ty m p2) (\<lambda>m.
         ParseSection_Name_loop ok w' e m (p2 + unat len))))"
    proof (rule LEB_u7.at_local [OF 1(2)])
      fix ty p1 assume p1: "LEB_u7 w' p e = Inr (ty, p1)" "p \<le> p1" "p1 \<le> e" "agree_on p1 e w w'"
      show "tryR (at_state m (LEB_u32 w p1 e)) (\<lambda>(len, p2). tryR (Name_subsection ok w e ty m p2) (\<lambda>m. ParseSection_Name_loop ok w e m (p2 + unat len)))
        = tryR (at_state m (LEB_u32 w' p1 e)) (\<lambda>(len, p2). tryR (Name_subsection ok w' e ty m p2) (\<lambda>m. ParseSection_Name_loop ok w' e m (p2 + unat len)))"
      proof (rule LEB_u32.at_local [OF p1(4,3)], rule tryR_cong)
        fix len p2 assume p2: "LEB_u32 w' p1 e = Inr (len, p2)" "p1 \<le> p2" "p2 \<le> e" "agree_on p2 e w w'"
        show "Name_subsection ok w e ty m p2 = Name_subsection ok w' e ty m p2" by (rule Name_subsection_local [OF p2(4,3)])
        fix m1 assume m1: "Name_subsection ok w' e ty m p2 = Inr m1"
        have rw: "at_state m (LEB_u7 w p e) = Inr (ty, p1)" "at_state m (LEB_u32 w p1 e) = Inr (len, p2)" "Name_subsection ok w e ty m p2 = Inr m1"
          using p1(1) p2(1) m1 LEB_local(2) [OF 1(2)] LEB_local(1) [OF p1(4)] Name_subsection_local [OF p2(4,3), of ok ty m]
          by (simp_all add: at_state_Inr_iff)
        show "ParseSection_Name_loop ok w e m1 (p2 + unat len) = ParseSection_Name_loop ok w' e m1 (p2 + unat len)"
          by (rule 1(1) [OF lt rw(1) refl rw(2) refl rw(3)]) (use agree_on_later [OF p2(4)] in simp)
      qed
    qed (use lt in simp)
    also have "\<dots> = ParseSection_Name_loop ok w' e m p" using lt by (simp add: ParseSection_Name_loop.simps [of ok w' e m p])
    finally show ?thesis .
  qed (simp add: ParseSection_Name_loop.simps [of ok w e m p] ParseSection_Name_loop.simps [of ok w' e m p])
qed

text \<open>What a custom section handler may do: it keeps what the parser relies on.\<close>

definition handler_ok :: "section_handler \<Rightarrow> bool" where
  "handler_ok handler \<longleftrightarrow> (\<forall>h m name p e m' n ws we. handler = Some h \<longrightarrow> h m name p e = Inr m' \<longrightarrow>
     good_module n ws we m \<longrightarrow> good_module n ws we m')"

lemma ParseSection_Custom_keeps:
  assumes "handler_ok h" "ParseSection_Custom h ok w m p e = Inr m'" "good_module n ws we m" "ws \<le> p" "p \<le> e" "e \<le> we"
  shows "good_module n ws we m'"
proof -
  obtain name p1 where r: "Read_utf8 ok w p e = Inr (Some name, p1)"
    and d: "ParseSection_Name_loop ok w e m p1 = Inr m' \<or> (case h of Some f \<Rightarrow> f m name p1 e | None \<Rightarrow> Inr m) = Inr m'"
    using assms(2) by (auto simp: ParseSection_Custom_def m3_result ParseSection_Name_def split: option.splits if_splits)
  have "ws \<le> p1" using Read_utf8.rd_bounds [OF r assms(5)] assms(4) by simp
  then show ?thesis using d ParseSection_Name_loop_keeps [OF _ assms(3)] assms
    by (auto simp: handler_ok_def split: option.splits)
qed

lemma ParseSection_Custom_local:
  assumes "agree_on p e w w'" "p \<le> e"
  shows "ParseSection_Custom h ok w m p e = ParseSection_Custom h ok w' m p e"
  unfolding ParseSection_Custom_def
proof (rule Read_utf8.at_local [OF assms])
  fix name q assume "agree_on q e w w'"
  then have "ParseSection_Name ok w m q e = ParseSection_Name ok w' m q e"
    by (simp add: ParseSection_Name_def ParseSection_Name_loop_local [of q e w w'])
  then show "(case name of None \<Rightarrow> Inl (C_undefined, m)
      | Some name \<Rightarrow> if strcmp_eq name (ascii ''name'') then ParseSection_Name ok w m q e
          else (case h of Some h \<Rightarrow> h m name q e | None \<Rightarrow> Inr m))
    = (case name of None \<Rightarrow> Inl (C_undefined, m)
      | Some name \<Rightarrow> if strcmp_eq name (ascii ''name'') then ParseSection_Name ok w' m q e
          else (case h of Some h \<Rightarrow> h m name q e | None \<Rightarrow> Inr m))" by (auto split: option.splits)
qed

lemma ParseModuleSection_keeps:
  assumes "handler_ok h" "ParseModuleSection h ok w em sec p e = Inr em'" "good_env ws we em" "ws \<le> p" "p \<le> e" "e \<le> we"
  shows "good_env ws we em'"
proof -
  note k = ParseSection_Custom_keeps [OF assms(1) _ _ assms(4-6)] ParseSection_Import.parse_keeps [OF _ _ assms(4-6)]
    ParseSection_Function.parse_keeps [OF _ _ assms(4-6)] ParseSection_Memory.parse_keeps [OF _ _ assms(4-6)]
    ParseSection_Global.parse_keeps [OF _ _ assms(4-6)] ParseSection_Export.parse_keeps [OF _ _ assms(4-6)]
    ParseSection_Start.parse_keeps [OF _ _ assms(4-6)] ParseSection_Element.parse_keeps [OF _ _ assms(4-6)]
    ParseSection_Code.parse_keeps [OF _ _ assms(4-6)] ParseSection_Data.parse_keeps [OF _ _ assms(4-6)]
  show ?thesis
    using assms(2) ParseSection_Type_keeps [OF _ assms(3,5,4,6)] assms(3) k
    by (auto simp: ParseModuleSection_def split: if_splits elim: good_in_module)
qed

lemma ParseModuleSection_local:
  assumes "agree_on p e w w'" "p \<le> e"
  shows "ParseModuleSection h ok w em sec p e = ParseModuleSection h ok w' em sec p e"
  by (simp only: ParseModuleSection_def ParseSection_Custom_local [OF assms] ParseSection_Type_local [OF assms]
      ParseSection_Import.parse_local [OF assms] ParseSection_Function.parse_local [OF assms]
      ParseSection_Memory.parse_local [OF assms] ParseSection_Global.parse_local [OF assms]
      ParseSection_Export.parse_local [OF assms] ParseSection_Start.parse_local [OF assms]
      ParseSection_Element.parse_local [OF assms] ParseSection_Code.parse_local [OF assms]
      ParseSection_Data.parse_local [OF assms])


section \<open>The order of sections\<close>

lemma next_section_correct:
  assumes "sec \<noteq> 0" "k \<le> 12"
  shows "next_section sec k = Inl m3Err_misorderedWasmSection \<or>
    (\<exists>k'. next_section sec k = Inr k' \<and> k < k' \<and> k' \<le> 12 \<and> sectionsOrder ! (k' - 1) = sec)"
  using assms
proof (induction sec k rule: next_section.induct)
  case (1 sec k)
  have lt: "k < length sectionsOrder" using 1(3) by (simp add: sectionsOrder_def)
  show ?case
  proof (cases "sectionsOrder ! k = sec")
    case True
    have "k \<noteq> 12" using True 1(2) by (auto simp: sectionsOrder_def)
    then show ?thesis using True lt 1(3) by (simp add: next_section.simps [of sec k])
  next
    case ne: False
    show ?thesis
    proof (cases "k + 1 \<ge> 12")
      case True
      then show ?thesis using ne lt by (simp add: next_section.simps [of sec k] throwif_def)
    next
      case False
      then have "next_section sec k = next_section sec (k + 1)"
        using ne lt by (simp add: next_section.simps [of sec k] throwif_def)
      moreover have "next_section sec (k + 1) = Inl m3Err_misorderedWasmSection \<or>
          (\<exists>k'. next_section sec (k + 1) = Inr k' \<and> k + 1 < k' \<and> k' \<le> 12 \<and> sectionsOrder ! (k' - 1) = sec)"
        by (rule 1(1)) (use lt ne False 1(2) in auto)
      ultimately show ?thesis by (metis add_lessD1)
    qed
  qed
qed

text \<open>The sections of a module: identifiers and payload ranges, by their headers alone.\<close>

function split_sections :: "u8 list \<Rightarrow> nat \<Rightarrow> nat \<Rightarrow> (u8 \<times> nat \<times> nat) list result" where
  "split_sections w e pos =
    (if pos < e then
       tryR (checked (ReadLEB_u7 w pos e)) (\<lambda>(sec, p).
       tryR (checked (ReadLEB_u32 w p e)) (\<lambda>(len, p).
       throwif m3Err_wasmMalformed (p + unat len > e)
       (tryR (split_sections w e (p + unat len)) (\<lambda>ss. Inr ((sec, p, p + unat len) # ss)))))
     else Inr [])"
  by pat_completeness auto
termination
proof (relation "measure (\<lambda>(w, e, p). e - p)", goal_cases)
  case (2 w e pos x sec p1 y len p2)
  have "pos < p1" "p1 \<le> e" using 2 LEB_u7.rd_progress LEB_u7.rd_bounds by (auto simp: m3_result dest: less_imp_le)
  moreover have "p1 \<le> p2" using 2 \<open>p1 \<le> e\<close> LEB_u32.rd_bounds by (auto simp: m3_result)
  ultimately show ?case using 2(1) by auto
qed simp

declare split_sections.simps [simp del]

abbreviation "in_order \<equiv> take 12 sectionsOrder"

lemma ParseModule_loop_sections:
  "ParseModule_loop h ok w e k em pos = Inr em' \<Longrightarrow> k \<le> 12 \<Longrightarrow>
    \<exists>ss. split_sections w e pos = Inr ss \<and> subseq (filter (\<lambda>i. i \<noteq> 0) (map fst ss)) (drop k in_order)"
proof (induction h ok w e k em pos rule: ParseModule_loop.induct)
  case (1 h ok w e k em pos)
  show ?case
  proof (cases "pos < e")
    case lt: True
    with 1(2) obtain sec p1 k' len p2 em1 where
      r: "at_state em (LEB_u7 w pos e) = Inr (sec, p1)"
        "at_state em (if sec \<noteq> 0 then next_section sec k else Inr k) = Inr k'"
        "at_state em (LEB_u32 w p1 e) = Inr (len, p2)"
        "ParseModuleSection h ok w em sec p2 (p2 + unat len) = Inr em1"
        "ParseModule_loop h ok w e k' em1 (p2 + unat len) = Inr em'" and le: "\<not> p2 + unat len > e"
      by (auto simp: ParseModule_loop.simps [of h ok w e k em pos] tryR_Inr_iff throwif_Inr_iff)
    have k': "k \<le> k' \<and> k' \<le> 12 \<and> (sec \<noteq> 0 \<longrightarrow> k < k' \<and> sectionsOrder ! (k' - 1) = sec)"
      using r(2) 1(3) next_section_correct [of sec k] by (auto simp: at_state_Inr_iff split: if_splits)
    then obtain ss where ss: "split_sections w e (p2 + unat len) = Inr ss"
      "subseq (filter (\<lambda>i. i \<noteq> 0) (map fst ss)) (drop k' in_order)"
      using 1(1) [OF lt r(1) refl r(2) r(3) refl le r(4,5)] by blast
    have split: "split_sections w e pos = Inr ((sec, p2, p2 + unat len) # ss)"
      using lt r(1,3) le ss(1) by (simp add: split_sections.simps [of w e pos] at_state_Inr_iff throwif_def)
    have "subseq (filter (\<lambda>i. i \<noteq> 0) (map fst ((sec, p2, p2 + unat len) # ss))) (drop k in_order)"
    proof (cases "sec = 0")
      case True
      have "subseq (drop k' in_order) (drop k in_order)"
        using k' by (metis drop_drop le_add_diff_inverse2 suffix_drop suffix_imp_subseq)
      then show ?thesis using True ss(2) by (auto intro: subseq_order.order_trans)
    next
      case False
      with k' have j: "k < k'" "k' \<le> 12" "sectionsOrder ! (k' - 1) = sec" by auto
      then have "drop (k' - 1) in_order = sec # drop k' in_order"
      proof -
        have "length in_order = 12" by (simp add: sectionsOrder_def)
        moreover have "in_order ! (k' - 1) = sec" using j by (simp only: nth_take)
        ultimately show ?thesis using Cons_nth_drop_Suc [of "k' - 1" in_order] j by simp
      qed
      then have "subseq (sec # drop k' in_order) (drop k in_order)"
        using j by (metis One_nat_def Suc_leI Suc_pred drop_drop le_add_diff_inverse2 less_Suc_eq_le not_less0 neq0_conv suffix_drop suffix_imp_subseq)
      moreover have "subseq (sec # filter (\<lambda>i. i \<noteq> 0) (map fst ss)) (sec # drop k' in_order)" using ss(2) by simp
      ultimately show ?thesis using False by (auto intro: subseq_order.order_trans)
    qed
    with split show ?thesis by blast
  qed (auto simp: split_sections.simps [of w e pos])
qed

lemma ParseModule_loop_keeps:
  "ParseModule_loop h ok w e k em pos = Inr em' \<Longrightarrow> handler_ok h \<Longrightarrow> good_env ws e em \<Longrightarrow> ws \<le> pos \<Longrightarrow> good_env ws e em'"
proof (induction h ok w e k em pos rule: ParseModule_loop.induct)
  case (1 h ok w e k em pos)
  show ?case
  proof (cases "pos < e")
    case lt: True
    with 1(2) obtain sec p1 k' len p2 em1 where
      r: "at_state em (LEB_u7 w pos e) = Inr (sec, p1)"
        "at_state em (if sec \<noteq> 0 then next_section sec k else Inr k) = Inr k'"
        "at_state em (LEB_u32 w p1 e) = Inr (len, p2)"
        "ParseModuleSection h ok w em sec p2 (p2 + unat len) = Inr em1"
        "ParseModule_loop h ok w e k' em1 (p2 + unat len) = Inr em'" and le: "\<not> p2 + unat len > e"
      by (auto simp: ParseModule_loop.simps [of h ok w e k em pos] tryR_Inr_iff throwif_Inr_iff)
    have b: "pos \<le> p1" "p1 \<le> p2"
      using LEB_u7.rd_bounds [of w pos e sec p1] LEB_u32.rd_bounds [of w p1 e len p2] r(1,3) lt by (auto simp: at_state_Inr_iff)
    have "good_env ws e em1" by (rule ParseModuleSection_keeps [OF 1(3) r(4) 1(4)]) (use b le 1(5) in auto)
    then show ?thesis using 1(1) [OF lt r(1) refl r(2) r(3) refl le r(4,5) 1(3)] b 1(5) by simp
  qed (use 1 in \<open>simp add: ParseModule_loop.simps [of h ok w e k em pos]\<close>)
qed


lemma m3_ParseModule_Inr:
  assumes "m3_ParseModule h ok so env w i_bytes n = (env', Inr m)"
  shows "ParseModule_loop h ok w (i_bytes + unat n) 0 (env, zero_module\<lparr>m_name := Some (ascii ''.unnamed''),
    startFunction := -1, wasmStart := i_bytes, wasmEnd := i_bytes + unat n\<rparr>) (i_bytes + 8) = Inr (env', m)"
  using assms
  by (auto simp: m3_ParseModule_def Let_def m3_result Read_u32_def throwif_def add.commute [of i_bytes 8]
      split: if_splits sum.splits)

text \<open>C27: in a module that \<^verbatim>\<open>m3_ParseModule\<close> accepts, the bytes behind the 8-byte header split
  exactly into sections, and the sections other than custom ones appear at most once and in the
  order of \<^verbatim>\<open>sectionsOrder\<close>.\<close>

theorem sections_once_in_order:
  assumes "m3_ParseModule h ok so env w i_bytes n = (env', Inr m)"
  shows "\<exists>ss. split_sections w (i_bytes + unat n) (i_bytes + 8) = Inr ss
    \<and> subseq (filter (\<lambda>i. i \<noteq> 0) (map fst ss)) [1, 2, 3, 4, 5, 6, 7, 8, 9, 12, 10, 11]"
proof -
  from ParseModule_loop_sections [OF m3_ParseModule_Inr [OF assms]] show ?thesis by (simp add: sectionsOrder_def)
qed

lemma good_initial:
  "\<forall>t \<in> set (funcTypes env). ft_wf t \<Longrightarrow> good_env p e (env, zero_module\<lparr>m_name := nm, startFunction := -1, wasmStart := p, wasmEnd := e\<rparr>)"
  by (simp add: good_env_def good_module_def parsed_ok_def types_ok_def module_ok_def zero_module_def)

text \<open>C2: the module \<^verbatim>\<open>m3_ParseModule\<close> accepts is consistent: its counts are the lengths of its
  arrays, every function has a function type that is in the environment's pool, a body lies inside
  the module's bytes, and so do every data segment with its initialiser expression and every
  global's initialiser; the start function is a function of the module. The environment's types
  stay well-formed. (A custom section handler is assumed to keep the same.)\<close>

theorem parsed_module_consistent:
  assumes "m3_ParseModule h ok so env w i_bytes n = (env', Inr m)"
    and "handler_ok h" and "\<forall>t \<in> set (funcTypes env). ft_wf t"
  shows "module_ok m \<and> (\<forall>t \<in> set (funcTypes env'). ft_wf t)
    \<and> (\<forall>i < unat (numFunctions m). \<exists>t. pool_get (funcTypes env') (the (fn_funcType (m_functions m ! i))) = Some t)
    \<and> (\<forall>f \<in> set (m_functions m). \<forall>s. fn_wasm f = Some s \<longrightarrow>
         (\<exists>t. fn_wasmEnd f = Some t \<and> i_bytes \<le> s \<and> s < t \<and> t \<le> i_bytes + unat n))
    \<and> (\<forall>d \<in> set (dataSegments m). ds_initExpr d + unat (ds_initExprSize d) \<le> i_bytes + unat n
         \<and> ds_data d + unat (ds_size d) \<le> i_bytes + unat n)
    \<and> (\<forall>g \<in> set (globals m). \<forall>p. gl_initExpr g = Some p \<longrightarrow> p + unat (gl_initExprSize g) \<le> i_bytes + unat n)
    \<and> (startFunction m = -1 \<or> word_of_int (startFunction m) < numFunctions m)"
proof -
  from ParseModule_loop_keeps [OF m3_ParseModule_Inr [OF assms(1)] assms(2) good_initial [OF assms(3)]]
  have g: "good_env i_bytes (i_bytes + unat n) (env', m)" by simp
  have "\<exists>t. pool_get (funcTypes env') (the (fn_funcType (m_functions m ! i))) = Some t" if "i < unat (numFunctions m)" for i
    using g that by (fastforce simp: good_env_def good_module_def parsed_ok_def pool_get_def)
  moreover have "\<exists>t. fn_wasmEnd f = Some t \<and> i_bytes \<le> s \<and> s < t \<and> t \<le> i_bytes + unat n"
    if "f \<in> set (m_functions m)" "fn_wasm f = Some s" for f s
  proof -
    have "body_ok i_bytes (i_bytes + unat n) f" using g that(1) by (simp add: good_env_def good_module_def parsed_ok_def)
    with that(2) show ?thesis by (auto simp: body_ok_def split: option.splits)
  qed
  moreover have "p + unat (gl_initExprSize x) \<le> i_bytes + unat n" if "x \<in> set (globals m)" "gl_initExpr x = Some p" for x p
  proof -
    have "init_ok i_bytes (i_bytes + unat n) x" using g that(1) by (simp add: good_env_def good_module_def parsed_ok_def)
    with that(2) show ?thesis by (simp add: init_ok_def)
  qed
  ultimately show ?thesis using g
    by (simp add: good_env_def good_module_def parsed_ok_def segment_ok_def)
qed

lemma ParseModule_loop_local:
  "agree_on pos e w w' \<Longrightarrow> ParseModule_loop h ok w e k em pos = ParseModule_loop h ok w' e k em pos"
proof (induction h ok w e k em pos rule: ParseModule_loop.induct)
  case (1 h ok w e k em pos)
  show ?case
  proof (cases "pos < e")
    case lt: True
    show ?thesis
      unfolding ParseModule_loop.simps [of h ok w e k em pos] ParseModule_loop.simps [of h ok w' e k em pos]
    proof (simp only: lt if_True, rule LEB_u7.at_local [OF 1(2)])
      fix sec p1 assume p1: "LEB_u7 w' pos e = Inr (sec, p1)" "pos \<le> p1" "p1 \<le> e" "agree_on p1 e w w'"
      show "tryR (at_state em (if sec \<noteq> 0 then next_section sec k else Inr k)) (\<lambda>k. tryR (at_state em (LEB_u32 w p1 e)) (\<lambda>(len, p2).
          throwif (m3Err_wasmMalformed, em) (p2 + unat len > e) (tryR (ParseModuleSection h ok w em sec p2 (p2 + unat len)) (\<lambda>em.
            ParseModule_loop h ok w e k em (p2 + unat len)))))
        = tryR (at_state em (if sec \<noteq> 0 then next_section sec k else Inr k)) (\<lambda>k. tryR (at_state em (LEB_u32 w' p1 e)) (\<lambda>(len, p2).
          throwif (m3Err_wasmMalformed, em) (p2 + unat len > e) (tryR (ParseModuleSection h ok w' em sec p2 (p2 + unat len)) (\<lambda>em.
            ParseModule_loop h ok w' e k em (p2 + unat len)))))"
      proof (rule tryR_cong [OF refl], rule LEB_u32.at_local [OF p1(4,3)], rule throwif_cong [OF refl refl], rule tryR_cong)
        fix k' len p2
        assume k': "at_state em (if sec \<noteq> 0 then next_section sec k else Inr k) = Inr k'"
          and p2: "LEB_u32 w' p1 e = Inr (len, p2)" "p1 \<le> p2" "p2 \<le> e" "agree_on p2 e w w'" and le: "\<not> p2 + unat len > e"
        have ag: "agree_on p2 (p2 + unat len) w w'" using p2(4) le by (auto simp: agree_on_def)
        show sec: "ParseModuleSection h ok w em sec p2 (p2 + unat len) = ParseModuleSection h ok w' em sec p2 (p2 + unat len)"
          by (rule ParseModuleSection_local [OF ag]) simp
        fix em1 assume em1: "ParseModuleSection h ok w' em sec p2 (p2 + unat len) = Inr em1"
        have rd: "at_state em (LEB_u7 w pos e) = Inr (sec, p1)" "at_state em (LEB_u32 w p1 e) = Inr (len, p2)"
          using p1(1) p2(1) LEB_local(2) [OF 1(2)] LEB_local(1) [OF p1(4)] by (simp_all add: at_state_Inr_iff)
        show "ParseModule_loop h ok w e k' em1 (p2 + unat len) = ParseModule_loop h ok w' e k' em1 (p2 + unat len)"
          by (rule 1(1) [OF lt rd(1) refl k' rd(2) refl le]) (use sec em1 agree_on_later [OF p2(4)] in auto)
      qed
    qed (use lt in simp)
  qed (simp add: ParseModule_loop.simps [of h ok w e k em pos] ParseModule_loop.simps [of h ok w' e k em pos])
qed

text \<open>C6: \<^verbatim>\<open>m3_ParseModule\<close> never reads outside \<open>[i_bytes, i_bytes + i_numBytes)\<close>: two memories
  that agree there give the same module, the same error and the same environment, whatever the
  bytes are. This covers every section, down to names, strings and constant expressions.\<close>

theorem parse_reads_only_its_bytes:
  assumes "agree_on i_bytes (i_bytes + unat n) w w'"
  shows "m3_ParseModule h ok so env w i_bytes n = m3_ParseModule h ok so env w' i_bytes n"
proof -
  let ?e = "i_bytes + unat n"
  have "tryR (at_state em (Read_u32 w i_bytes ?e)) (\<lambda>(magic, pos). tryR (at_state em (Read_u32 w pos ?e)) (\<lambda>(version, pos).
      throwif (m3Err_wasmMalformed, em) (magic \<noteq> 0x6d736100) (throwif (m3Err_incompatibleWasmVersion, em) (version \<noteq> 1)
        (ParseModule_loop h ok w ?e 0 em pos))))
    = tryR (at_state em (Read_u32 w' i_bytes ?e)) (\<lambda>(magic, pos). tryR (at_state em (Read_u32 w' pos ?e)) (\<lambda>(version, pos).
      throwif (m3Err_wasmMalformed, em) (magic \<noteq> 0x6d736100) (throwif (m3Err_incompatibleWasmVersion, em) (version \<noteq> 1)
        (ParseModule_loop h ok w' ?e 0 em pos))))" for em
    by (intro Read_u32.at_local [OF assms le_add1] Read_u32.at_local throwif_same ParseModule_loop_local)
  then show ?thesis unfolding m3_ParseModule_def Let_def by simp
qed

section \<open>The type section reads back what it encodes\<close>

definition enc_valtype :: "u8 \<Rightarrow> u8" where
  "enc_valtype t = 0x80 - t"

text \<open>The binary format of function types, from their argument and return types.\<close>

definition enc_functype :: "u8 list \<times> u8 list \<Rightarrow> u8 list" where
  "enc_functype t = (case t of (args, rets) \<Rightarrow>
    [0x60] @ uleb (length args) @ map enc_valtype args @ uleb (length rets) @ map enc_valtype rets)"


definition enc_types :: "(u8 list \<times> u8 list) list \<Rightarrow> u8 list" where
  "enc_types ts = uleb (length ts) @ concat (map enc_functype ts)"

lemma i7_values:
  "(ucast ((96 :: u64) OR NOT (mask 7)) :: u8) = - 32" "(ucast ((124 :: u64) OR NOT (mask 7)) :: u8) = - 4"
  "(ucast ((125 :: u64) OR NOT (mask 7)) :: u8) = - 3" "(ucast ((126 :: u64) OR NOT (mask 7)) :: u8) = - 2"
  "(ucast ((127 :: u64) OR NOT (mask 7)) :: u8) = - 1"
  by code_simp+

lemma ReadLEB_i7_byte:
  assumes "p < e" "w ! p \<in> {0x60, 0x7c, 0x7d, 0x7e, 0x7f}"
  shows "ReadLEB_i7 w p e = (None, w ! p - 0x80, p + 1)"
proof -
  have *: "ReadLEB_i7 w p e = (None, ucast ((of_nat k :: u64) OR push_bit 7 (- 1)), p + 1)"
    if "w ! p = of_nat k" "64 \<le> k" "k < 128" for k
    using ReadLebSigned_step [of p e w k 0 0 7] assms(1) that
    by (simp add: ReadLEB_i7_def ReadLebSigned_def Let_def)
  show ?thesis using assms(2) *[of "0x60"] *[of "0x7c"] *[of "0x7d"] *[of "0x7e"] *[of "0x7f"] by (auto simp: i7_values)
qed

lemma Read_valtype_enc:
  assumes "p < e" "w ! p = enc_valtype t" "t \<in> {1, 2, 3, 4}"
  shows "Read_valtype w p e = Inr (t, p + 1)"
proof -
  have "ReadLEB_i7 w p e = (None, enc_valtype t - 0x80, p + 1)"
    using ReadLEB_i7_byte [of p e w] assms by (auto simp: enc_valtype_def)
  then show ?thesis using assms(3) by (auto simp: Read_valtype_def checked_def enc_valtype_def NormalizeType_def Let_def)
qed

lemma read_many_enc:
  "set ts \<subseteq> {1, 2, 3, 4} \<Longrightarrow> length pre + length ts \<le> e \<Longrightarrow>
    read_many Read_valtype (length ts) (pre @ map enc_valtype ts @ post) (length pre) e = Inr (ts, length pre + length ts)"
proof (induction ts arbitrary: pre)
  case (Cons t ts)
  have "Read_valtype (pre @ map enc_valtype (t # ts) @ post) (length pre) e = Inr (t, length pre + 1)"
    by (rule Read_valtype_enc) (use Cons.prems in auto)
  then show ?case using Cons.IH [of "pre @ [enc_valtype t]"] Cons.prems by simp
qed simp

lemma Read_functype_enc:
  assumes "set args \<union> set rets \<subseteq> {1, 2, 3, 4}" "length args + length rets \<le> 1000"
    and "length pre + length (enc_functype (args, rets)) \<le> e"
  shows "\<exists>t. Read_functype (\<lambda>_. True) (pre @ enc_functype (args, rets) @ post) (length pre) e
      = Inr (t, length pre + length (enc_functype (args, rets))) \<and> ft_wf t \<and> ft_sig t = (rets, args)"
proof -
  let ?a = "uleb (length args)" and ?r = "uleb (length rets)" and ?A = "map enc_valtype args" and ?R = "map enc_valtype rets"
  let ?w = "pre @ enc_functype (args, rets) @ post"
  have w: "?w = pre @ [0x60] @ ?a @ ?A @ ?r @ ?R @ post" by (simp add: enc_functype_def)
  have len: "length pre + 1 + length ?a + length args + length ?r + length rets \<le> e" using assms(3) by (simp add: enc_functype_def)
  define p1 p2 p3 p4 p5 where "p1 = length pre + 1" and "p2 = p1 + length ?a" and "p3 = p2 + length args"
    and "p4 = p3 + length ?r" and "p5 = p4 + length rets"
  note p = p1_def p2_def p3_def p4_def p5_def
  have 1: "ReadLEB_i7 ?w (length pre) e = (None, - 32, p1)"
    using ReadLEB_i7_byte [of "length pre" e ?w] len by (simp add: w nth_append p)
  have 2: "ReadLEB_u32 ?w p1 e = (None, of_nat (length args), p2)"
    using ReadLEB_u32_decode [of "length args" "pre @ [0x60]" e "?A @ ?r @ ?R @ post"] len assms(2) by (simp add: w p)
  have 3: "read_many Read_valtype (length args) ?w p2 e = Inr (args, p3)"
    using read_many_enc [of args "pre @ [0x60] @ ?a" e "?r @ ?R @ post"] len assms(1) by (simp add: w add.assoc p)
  have 4: "ReadLEB_u32 ?w p3 e = (None, of_nat (length rets), p4)"
    using ReadLEB_u32_decode [of "length rets" "pre @ [0x60] @ ?a @ ?A" e "?R @ post"] len assms(2) by (simp add: w add.assoc p)
  have 5: "read_many Read_valtype (length rets) ?w p4 e = Inr (rets, p5)"
    using read_many_enc [of rets "pre @ [0x60] @ ?a @ ?A @ ?r" e post] len assms(1) by (simp add: w add.assoc p)
  have u: "unat (of_nat (length args) :: u32) = length args" "unat (of_nat (length rets) :: u32) = length rets"
    "unat (ucast (of_nat (length args) :: u32) :: u16) = length args" "unat (ucast (of_nat (length rets) :: u32) :: u16) = length rets"
    using assms(2) by (simp_all add: unsigned_of_nat unsigned_ucast_eq take_bit_nat_eq_self)
  have n: "length pre + length (enc_functype (args, rets)) = p5"
    by (simp add: enc_functype_def p)
  let ?t = "\<lparr>ft_numRets = ucast (of_nat (length rets) :: u32), ft_numArgs = ucast (of_nat (length args) :: u32), ft_types = rets @ args\<rparr>"
  have "Read_functype (\<lambda>_. True) ?w (length pre) e = Inr (?t, p5)"
    unfolding Read_functype_def using assms(2) by (simp add: 1 2 3 4 5 u checked_def AllocFuncType_def Let_def throwif_def)
  moreover have "ft_wf ?t" "ft_sig ?t = (rets, args)" using u by (simp_all add: ft_wf_def ft_sig_def)
  ultimately show ?thesis unfolding n by blast
qed


lemma enc_functype_pos: "0 < length (enc_functype t)"
  by (simp add: enc_functype_def split: prod.split)

text \<open>Registering the types one by one; \<open>pointers\<close> are what the loop stores.\<close>

lemma Type_steps_enc:
  assumes "\<forall>(args, rets) \<in> set ts. set args \<union> set rets \<subseteq> {1, 2, 3, 4} \<and> length args + length rets \<le> 1000"
    and "pool_ok (funcTypes env)" "i + length ts \<le> length (m_funcTypes m)" "length pre + length (concat (map enc_functype ts)) \<le> e"
  shows "\<exists>env' ptrs. step_many (Type_step (\<lambda>_. True)) (length ts) (pre @ concat (map enc_functype ts) @ post) ((env, m), i) (length pre) e
      = Inr (((env', m\<lparr>m_funcTypes := take i (m_funcTypes m) @ map Some ptrs @ drop (i + length ts) (m_funcTypes m)\<rparr>), i + length ts),
             length pre + length (concat (map enc_functype ts)))
    \<and> pool_ok (funcTypes env') \<and> length ptrs = length ts
    \<and> (\<forall>j < length ts. \<exists>t. pool_get (funcTypes env') (ptrs ! j) = Some t \<and> ft_sig t = prod.swap (ts ! j))
    \<and> (\<forall>q t. pool_get (funcTypes env) q = Some t \<longrightarrow> pool_get (funcTypes env') q = Some t)"
  using assms
proof (induction ts arbitrary: env m i pre)
  case Nil
  show ?case using Nil by (intro exI [of _ env] exI [of _ "[]"]) simp
next
  case (Cons t ts)
  obtain args rets where t: "t = (args, rets)" by (cases t)
  have "\<exists>ft. Read_functype (\<lambda>_. True) (pre @ enc_functype (args, rets) @ concat (map enc_functype ts) @ post) (length pre) e
      = Inr (ft, length pre + length (enc_functype (args, rets))) \<and> ft_wf ft \<and> ft_sig ft = (rets, args)"
    by (rule Read_functype_enc) (use Cons.prems t in auto)
  then obtain ft where ft: "Read_functype (\<lambda>_. True) (pre @ enc_functype t @ concat (map enc_functype ts) @ post) (length pre) e
      = Inr (ft, length pre + length (enc_functype t))" "ft_wf ft" "ft_sig ft = (rets, args)" unfolding t by blast
  obtain pool q where add: "Environment_AddFuncType (funcTypes env) ft = (pool, q)" by fastforce
  let ?env = "env\<lparr>funcTypes := pool\<rparr>" and ?m = "m\<lparr>m_funcTypes := (m_funcTypes m)[i := Some q]\<rparr>"
  have pool: "pool_ok (funcTypes ?env)" using types.add_inv [OF Cons.prems(2) ft(2) add] by simp
  obtain u where u: "pool_get pool q = Some u" "ft_sig u = (rets, args)"
    using types.add_get [OF Cons.prems(2) ft(2) add] ft(3) by auto
  have pr: "\<forall>(args, rets) \<in> set ts. set args \<union> set rets \<subseteq> {1, 2, 3, 4} \<and> length args + length rets \<le> 1000"
    "i + 1 + length ts \<le> length (m_funcTypes ?m)" "length (pre @ enc_functype t) + length (concat (map enc_functype ts)) \<le> e"
    using Cons.prems by auto
  obtain env' ptrs where IH: "step_many (Type_step (\<lambda>_. True)) (length ts) ((pre @ enc_functype t) @ concat (map enc_functype ts) @ post)
        ((?env, ?m), i + 1) (length (pre @ enc_functype t)) e
      = Inr (((env', ?m\<lparr>m_funcTypes := take (i + 1) (m_funcTypes ?m) @ map Some ptrs @ drop (i + 1 + length ts) (m_funcTypes ?m)\<rparr>), i + 1 + length ts),
             length (pre @ enc_functype t) + length (concat (map enc_functype ts)))"
    "pool_ok (funcTypes env')" "length ptrs = length ts"
    "\<forall>j < length ts. \<exists>t. pool_get (funcTypes env') (ptrs ! j) = Some t \<and> ft_sig t = prod.swap (ts ! j)"
    "\<forall>q t. pool_get pool q = Some t \<longrightarrow> pool_get (funcTypes env') q = Some t"
    using Cons.IH [OF pr(1) pool pr(2,3)] by auto
  have tk: "take (i + 1) (m_funcTypes ?m) = take i (m_funcTypes m) @ [Some q]"
    using Cons.prems(3) by (simp add: take_Suc_conv_app_nth take_update_swap list_update_append)
  have step: "Type_step (\<lambda>_. True) (pre @ enc_functype t @ concat (map enc_functype ts) @ post) ((env, m), i) (length pre) e
      = Inr (((?env, ?m), i + 1), length pre + length (enc_functype t))"
    using ft(1) add by (simp add: Type_step_def at_state_def)
  have "step_many (Type_step (\<lambda>_. True)) (length (t # ts)) (pre @ concat (map enc_functype (t # ts)) @ post) ((env, m), i) (length pre) e
      = Inr (((env', m\<lparr>m_funcTypes := take i (m_funcTypes m) @ map Some (q # ptrs) @ drop (i + length (t # ts)) (m_funcTypes m)\<rparr>), i + length (t # ts)),
             length pre + length (concat (map enc_functype (t # ts))))"
    using IH(1) step tk by (simp add: add.assoc)
  moreover have "\<exists>t'. pool_get (funcTypes env') ((q # ptrs) ! j) = Some t' \<and> ft_sig t' = prod.swap ((t # ts) ! j)"
    if "j < length (t # ts)" for j
    using that IH(4,5) u by (cases j) (auto simp: t)
  moreover have "pool_get (funcTypes env') p = Some x" if "pool_get (funcTypes env) p = Some x" for p x
    using types.add_keeps [OF add that] IH(5) by blast
  ultimately show ?case using IH(2,3) by (intro exI [of _ env'] exI [of _ "q # ptrs"]) auto
qed

text \<open>C33: the type section reads back what it encodes: for up to 1,000,000 function types over the
  four value types with at most 1000 arguments and results each, the module's table has one entry
  per type, in order, and each points into the environment's pool at a type with exactly those
  results and arguments; types that were in the pool stay where they are.\<close>

theorem type_section_roundtrip:
  assumes "\<forall>(args, rets) \<in> set ts. set args \<union> set rets \<subseteq> {1, 2, 3, 4} \<and> length args + length rets \<le> 1000"
    and "ts \<noteq> []" "length ts \<le> 1000000" "pool_ok (funcTypes env)"
  shows "\<exists>env' m'. ParseSection_Type (\<lambda>_. True) (pre @ enc_types ts @ post) (env, m) (length pre) (length pre + length (enc_types ts))
      = Inr (env', m') \<and> unat (numFuncTypes m') = length ts \<and> length (m_funcTypes m') = length ts
    \<and> (\<forall>i < length ts. \<exists>q t. m_funcTypes m' ! i = Some q \<and> pool_get (funcTypes env') q = Some t \<and> ft_sig t = prod.swap (ts ! i))
    \<and> (\<forall>q t. pool_get (funcTypes env) q = Some t \<longrightarrow> pool_get (funcTypes env') q = Some t)"
proof -
  let ?e = "length pre + length (enc_types ts)" and ?n = "of_nat (length ts) :: u32" and ?w = "pre @ enc_types ts @ post"
  let ?m = "m\<lparr>m_funcTypes := replicate (length ts) None, numFuncTypes := ?n\<rparr>"
  have n: "unat ?n = length ts" using assms(3) by (simp add: unsigned_of_nat take_bit_nat_eq_self)
  then have nz: "?n \<noteq> 0" using assms(2) by (metis length_0_conv unsigned_0)
  have rd: "ReadLEB_u32 ?w (length pre) ?e = (None, ?n, length (pre @ uleb (length ts)))"
    using ReadLEB_u32_decode [of "length ts" pre ?e "concat (map enc_functype ts) @ post"] assms(3) by (simp add: enc_types_def)
  obtain env' ptrs where s: "step_many (Type_step (\<lambda>_. True)) (length ts) ?w ((env, ?m), 0) (length (pre @ uleb (length ts))) ?e
      = Inr (((env', ?m\<lparr>m_funcTypes := map Some ptrs\<rparr>), length ts), ?e)" "length ptrs = length ts"
      "\<forall>j < length ts. \<exists>t. pool_get (funcTypes env') (ptrs ! j) = Some t \<and> ft_sig t = prod.swap (ts ! j)"
      "\<forall>q t. pool_get (funcTypes env) q = Some t \<longrightarrow> pool_get (funcTypes env') q = Some t"
    using Type_steps_enc [OF assms(1,4), of 0 ?m "pre @ uleb (length ts)" ?e post] by (auto simp: enc_types_def add.assoc)
  have le: "\<not> ?n > 1000000" using n assms(3) by (simp add: word_less_nat_alt)
  have "ParseSection_Type (\<lambda>_. True) ?w (env, m) (length pre) ?e = Inr (env', ?m\<lparr>m_funcTypes := map Some ptrs\<rparr>)"
    using le s(1) nz n by (simp add: ParseSection_Type_def rd checked_def at_state_def throwif_def del: length_append)
  with s(2-4) n show ?thesis by (intro exI [of _ env'] exI [of _ "?m\<lparr>m_funcTypes := map Some ptrs\<rparr>"]) auto
qed

text \<open>Two equal types and an empty one.\<close>

theorem type_section_roundtrip_witness:
  "\<exists>env' m'. ParseSection_Type (\<lambda>_. True) ([7] @ enc_types [([1, 2], [4]), ([], []), ([1, 2], [4])] @ [])
      (\<lparr>funcTypes = [], retFuncTypes = []\<rparr>, zero_module) (length [7 :: u8])
      (length [7 :: u8] + length (enc_types [([1, 2], [4]), ([], []), ([1, 2], [4])])) = Inr (env', m') \<and> unat (numFuncTypes m') = 3"
  using type_section_roundtrip [of "[([1, 2], [4]), ([], []), ([1, 2], [4])]" "\<lparr>funcTypes = [], retFuncTypes = []\<rparr>" "[7]" "[]" zero_module]
  by (auto simp: pool_ok_def)

section \<open>Witnesses\<close>

text \<open>A module with one function type, one function of it, its export and its body.\<close>

definition tiny_module :: "u8 list" where
  "tiny_module = [0, 0x61, 0x73, 0x6d, 1, 0, 0, 0,  1, 4, 1, 0x60, 0, 0,  3, 2, 1, 0,  7, 5, 1, 1, 0x66, 0, 0,
     10, 4, 1, 2, 0, 0x0b]"

definition no_types :: M3Environment where
  "no_types = \<lparr>funcTypes = [], retFuncTypes = []\<rparr>"

definition quiet_handler :: section_handler where
  "quiet_handler = Some (\<lambda>m name p e. Inr m)"

lemma tiny_module_parses:
  "case snd (m3_ParseModule quiet_handler (\<lambda>_. True) True no_types tiny_module 0 31) of
     Inr m \<Rightarrow> numFunctions m = 1 \<and> fn_wasm (m_functions m ! 0) = Some 28 \<and> fn_wasmEnd (m_functions m ! 0) = Some 31
   | Inl e \<Rightarrow> False"
  by code_simp

lemma tiny_module_Inr:
  obtains env' m where "m3_ParseModule quiet_handler (\<lambda>_. True) True no_types tiny_module 0 31 = (env', Inr m)" "numFunctions m = 1"
  using tiny_module_parses by (cases "m3_ParseModule quiet_handler (\<lambda>_. True) True no_types tiny_module 0 31") (auto split: sum.splits)

theorem sections_once_in_order_witness:
  "\<exists>ss. split_sections tiny_module 31 8 = Inr ss \<and> subseq (filter (\<lambda>i. i \<noteq> 0) (map fst ss)) [1, 2, 3, 4, 5, 6, 7, 8, 9, 12, 10, 11]"
proof -
  obtain env' m where "m3_ParseModule quiet_handler (\<lambda>_. True) True no_types tiny_module 0 31 = (env', Inr m)"
    by (rule tiny_module_Inr)
  from sections_once_in_order [OF this] show ?thesis by simp
qed

theorem parsed_module_consistent_witness:
  "\<exists>env' m t. m3_ParseModule quiet_handler (\<lambda>_. True) True no_types tiny_module 0 31 = (env', Inr m)
    \<and> pool_get (funcTypes env') (the (fn_funcType (m_functions m ! 0))) = Some t"
proof -
  obtain env' m where m: "m3_ParseModule quiet_handler (\<lambda>_. True) True no_types tiny_module 0 31 = (env', Inr m)" "numFunctions m = 1"
    by (rule tiny_module_Inr)
  have "handler_ok quiet_handler" by (simp add: handler_ok_def quiet_handler_def)
  moreover have "\<forall>t \<in> set (funcTypes no_types). ft_wf t" by (simp add: no_types_def)
  ultimately show ?thesis using parsed_module_consistent [OF m(1)] m by auto
qed

theorem parse_reads_only_its_bytes_witness:
  "m3_ParseModule None (\<lambda>_. True) True no_types (tiny_module @ [1]) 0 31 = m3_ParseModule None (\<lambda>_. True) True no_types (tiny_module @ [2, 3]) 0 31"
proof (rule parse_reads_only_its_bytes)
  have "length tiny_module = 31" by (simp add: tiny_module_def)
  then show "agree_on 0 (0 + unat (31 :: u32)) (tiny_module @ [1]) (tiny_module @ [2, 3])" by (simp add: agree_on_def nth_append)
qed

section \<open>Function bodies\<close>

definition enc_code :: "u8 list list \<Rightarrow> u8 list" where
  "enc_code bodies = uleb (length bodies) @ concat (map (\<lambda>b. uleb (length b) @ b) bodies)"

text \<open>Two functions differ at most in their body.\<close>

definition same_but_body :: "M3Function \<Rightarrow> M3Function \<Rightarrow> bool" where
  "same_but_body f g \<longleftrightarrow> f\<lparr>fn_wasm := None, fn_wasmEnd := None\<rparr> = g\<lparr>fn_wasm := None, fn_wasmEnd := None\<rparr>"

lemma Code_steps_enc:
  assumes "\<forall>b \<in> set bs. b \<noteq> [] \<and> length b < 2 ^ 32" "w = pre @ concat (map (\<lambda>b. uleb (length b) @ b) bs) @ post"
    "length pre + length (concat (map (\<lambda>b. uleb (length b) @ b) bs)) \<le> e"
    "module_ok m" "unat (numFuncImports m) + unat f + length bs \<le> unat (numFunctions m)"
  shows "\<exists>m' f'. step_many Code_step (length bs) w (m, f) (length pre) e
      = Inr ((m', f'), length pre + length (concat (map (\<lambda>b. uleb (length b) @ b) bs)))
    \<and> length (m_functions m') = length (m_functions m)
    \<and> (\<forall>i < length bs. \<exists>s t. let g = m_functions m' ! (unat (numFuncImports m) + unat f + i) in
         fn_wasm g = Some s \<and> fn_wasmEnd g = Some t \<and> take (t - s) (drop s w) = uleb (length (bs ! i)) @ bs ! i)
    \<and> (\<forall>k. same_but_body (m_functions m' ! k) (m_functions m ! k))
    \<and> (\<forall>k. k < unat (numFuncImports m) + unat f \<longrightarrow> m_functions m' ! k = m_functions m ! k)"
  using assms
proof (induction bs arbitrary: m f pre)
  case Nil
  then show ?case by (simp add: same_but_body_def)
next
  case (Cons b bs)
  let ?h = "uleb (length b)" and ?rest = "concat (map (\<lambda>b. uleb (length b) @ b) bs)"
  let ?j = "unat (numFuncImports m) + unat f" and ?q = "length pre + length ?h + length b"
  have fits: "?j < unat (numFunctions m)" using Cons.prems(5) by simp
  have j: "unat (f + numFuncImports m) = ?j"
  proof -
    have "unat f + unat (numFuncImports m) < 2 ^ LENGTH(32)" using fits unat_lt32 [of "numFunctions m"] by simp
    then show ?thesis by (simp only: unat_add_lem add.commute)
  qed
  have f1: "unat (f + 1) = unat f + 1"
  proof -
    have "unat f + unat (1 :: u32) < 2 ^ LENGTH(32)" using Cons.prems(5) unat_lt32 [of "numFunctions m"] by simp
    then show ?thesis by (simp only: unat_add_lem) simp
  qed
  have jl: "?j < length (m_functions m)"
    using fits Cons.prems(4) by (simp add: module_ok_def word_le_nat_alt)
  have w: "w = pre @ ?h @ b @ ?rest @ post" using Cons.prems(2) by simp
  have rd: "ReadLEB_u32 w (length pre) e = (None, of_nat (length b), length pre + length ?h)"
    using ReadLEB_u32_decode [of "length b" pre e "b @ ?rest @ post"] Cons.prems(1,3) w by simp
  have ub: "unat (of_nat (length b) :: u32) = length b" using Cons.prems(1) by (simp add: unsigned_of_nat take_bit_nat_eq_self)
  then have nz: "(of_nat (length b) :: u32) \<noteq> 0" using Cons.prems(1) by (metis length_0_conv list.set_intros(1) unsigned_0)
  let ?m = "m\<lparr>m_functions := (m_functions m)[?j := (m_functions m ! ?j)\<lparr>fn_wasm := Some (length pre), fn_wasmEnd := Some ?q\<rparr>]\<rparr>"
  have step: "Code_step w (m, f) (length pre) e = Inr ((?m, f + 1), ?q)"
    using rd ub nz jl j fits Cons.prems(3)
    by (simp add: Code_step_def at_state_def checked_def Let_def Module_GetFunction_def word_less_nat_alt throwif_def)
  have ok: "module_ok ?m" using Cons.prems(4) jl by (auto simp: module_ok_def dest!: set_update_subset_insert [THEN subsetD])
  obtain m' f' where IH: "step_many Code_step (length bs) w (?m, f + 1) (length (pre @ ?h @ b)) e
      = Inr ((m', f'), length (pre @ ?h @ b) + length ?rest)"
    "length (m_functions m') = length (m_functions ?m)"
    "\<forall>i < length bs. \<exists>s t. let g = m_functions m' ! (unat (numFuncImports ?m) + unat (f + 1) + i) in
         fn_wasm g = Some s \<and> fn_wasmEnd g = Some t \<and> take (t - s) (drop s w) = uleb (length (bs ! i)) @ bs ! i"
    "\<forall>k. same_but_body (m_functions m' ! k) (m_functions ?m ! k)"
    "\<forall>k. k < unat (numFuncImports ?m) + unat (f + 1) \<longrightarrow> m_functions m' ! k = m_functions ?m ! k"
  proof -
    have pr: "\<forall>b \<in> set bs. b \<noteq> [] \<and> length b < 2 ^ 32" "w = (pre @ ?h @ b) @ ?rest @ post"
      "length (pre @ ?h @ b) + length ?rest \<le> e" "unat (numFuncImports ?m) + unat (f + 1) + length bs \<le> unat (numFunctions ?m)"
      using Cons.prems(1,3,5) w f1 by simp_all
    show thesis using Cons.IH [OF pr(1-3) ok pr(4)] by (elim exE conjE) (rule that)
  qed
  have this_body: "m_functions m' ! ?j = (m_functions m ! ?j)\<lparr>fn_wasm := Some (length pre), fn_wasmEnd := Some ?q\<rparr>"
    using IH(5) jl f1 by simp
  have slice: "take (?q - length pre) (drop (length pre) w) = ?h @ b" by (simp add: w)
  have "\<exists>s t. let g = m_functions m' ! (?j + i) in
      fn_wasm g = Some s \<and> fn_wasmEnd g = Some t \<and> take (t - s) (drop s w) = uleb (length ((b # bs) ! i)) @ (b # bs) ! i"
    if i: "i < length (b # bs)" for i
  proof (cases i)
    case 0
    then show ?thesis using this_body slice by (simp add: Let_def)
  next
    case (Suc i')
    then show ?thesis using IH(3) i f1 by (simp add: add.assoc)
  qed
  moreover have "same_but_body (m_functions m' ! k) (m_functions m ! k)" for k
    using IH(4) jl by (cases "k = ?j") (auto simp: same_but_body_def dest!: spec [of _ k])
  moreover have "m_functions m' ! k = m_functions m ! k" if "k < ?j" for k
    using IH(5) that f1 by simp
  moreover have "step_many Code_step (length (b # bs)) w (m, f) (length pre) e
      = Inr ((m', f'), length pre + length (concat (map (\<lambda>b. uleb (length b) @ b) (b # bs))))"
    using step IH(1) by (simp add: add.assoc)
  moreover have "length (m_functions m') = length (m_functions m)" using IH(2) by simp
  ultimately show ?case by blast
qed

text \<open>The code section assigns the bodies in order: for a section of non-empty bodies, one per
  function that is not imported, the function behind the imports at position \<open>i\<close> gets exactly
  the bytes of body \<open>i\<close> with its size field, and nothing else of any function changes.\<close>

theorem code_section_bodies:
  assumes "\<forall>b \<in> set bs. b \<noteq> [] \<and> length b < 2 ^ 32" "length bs < 2 ^ 32" "module_ok m"
    and "numFuncImports m \<le> numFunctions m" "length bs = unat (numFunctions m - numFuncImports m)"
  shows "\<exists>m'. ParseSection_Code (pre @ enc_code bs @ post) m (length pre) (length pre + length (enc_code bs)) = Inr m'
    \<and> (\<forall>i < length bs. \<exists>s t. let g = m_functions m' ! (unat (numFuncImports m) + i) in
         fn_wasm g = Some s \<and> fn_wasmEnd g = Some t
         \<and> take (t - s) (drop s (pre @ enc_code bs @ post)) = uleb (length (bs ! i)) @ bs ! i)
    \<and> (\<forall>k. same_but_body (m_functions m' ! k) (m_functions m ! k))
    \<and> (\<forall>k < unat (numFuncImports m). m_functions m' ! k = m_functions m ! k)"
proof -
  let ?w = "pre @ enc_code bs @ post" and ?e = "length pre + length (enc_code bs)"
  have sum: "unat (numFuncImports m) + length bs = unat (numFunctions m)"
    using assms(4,5) by (simp add: unat_sub word_le_nat_alt)
  have rd: "ReadLEB_u32 ?w (length pre) ?e = (None, of_nat (length bs), length (pre @ uleb (length bs)))"
    using ReadLEB_u32_decode [of "length bs" pre ?e "concat (map (\<lambda>b. uleb (length b) @ b) bs) @ post"] assms(2) by (simp add: enc_code_def)
  have n: "(of_nat (length bs) :: u32) = numFunctions m - numFuncImports m" using assms(5) by simp
  obtain m' f' where s: "step_many Code_step (length bs) ?w (m, 0) (length (pre @ uleb (length bs))) ?e = Inr ((m', f'), ?e)"
    "\<forall>i < length bs. \<exists>s t. let g = m_functions m' ! (unat (numFuncImports m) + i) in
         fn_wasm g = Some s \<and> fn_wasmEnd g = Some t \<and> take (t - s) (drop s ?w) = uleb (length (bs ! i)) @ bs ! i"
    "\<forall>k. same_but_body (m_functions m' ! k) (m_functions m ! k)"
    "\<forall>k < unat (numFuncImports m). m_functions m' ! k = m_functions m ! k"
    using Code_steps_enc [OF assms(1) _ _ assms(3), of ?w "pre @ uleb (length bs)" post ?e 0] sum by (auto simp: enc_code_def add.assoc)
  have "ParseSection_Code ?w m (length pre) ?e = Inr m'"
    using s(1) rd n assms(5) by (simp add: ParseSection_Code_def checked_def at_state_def)
  with s(2-4) show ?thesis by blast
qed

theorem code_section_bodies_witness:
  "\<exists>m'. ParseSection_Code ([] @ enc_code [[0, 11], [5]] @ [7])
      (zero_module\<lparr>numFunctions := 3, numFuncImports := 1, allFunctions := 3, m_functions := replicate 3 zero_function\<rparr>)
      (length []) (length [] + length (enc_code [[0, 11], [5]])) = Inr m'"
  using code_section_bodies [of "[[0, 11], [5]]" "zero_module\<lparr>numFunctions := 3, numFuncImports := 1, allFunctions := 3,
      m_functions := replicate 3 zero_function\<rparr>" "[]" "[7]"]
  by (auto simp: module_ok_def zero_module_def zero_function_def)

section \<open>A memory section's errors are dropped\<close>

text \<open>The bits that a number cut off in the middle has given: \<open>leb_part\<close>.\<close>

fun leb_part :: "u8 list \<Rightarrow> nat" where
  "leb_part [] = 0"
| "leb_part (b # bs) = unat b mod 128 + 128 * leb_part bs"

lemma ReadLebUnsigned_cut:
  assumes "\<forall>b \<in> set cs. 128 \<le> b" "s + 7 * length cs < m" "m \<le> 64" "v < 2 ^ s" "p + length cs = e"
    "\<And>i. i < length cs \<Longrightarrow> w ! (p + i) = cs ! i"
  shows "ReadLebUnsigned_loop w e m (of_nat v) s p = (Some m3Err_wasmUnderrun, of_nat (v + leb_part cs * 2 ^ s), e)"
  using assms
proof (induction cs arbitrary: v s p)
  case Nil
  then show ?case by (subst ReadLebUnsigned_loop.simps) simp
next
  case (Cons b bs)
  let ?v = "v + unat b mod 128 * 2 ^ s"
  have b: "w ! p = of_nat (unat b)" "unat b < 256" "128 \<le> unat b"
    using Cons.prems(6) [of 0] Cons.prems(1) unsigned_less [where w=b] by (auto simp: word_le_nat_alt)
  have "ReadLebUnsigned_loop w e m (of_nat v) s p = ReadLebUnsigned_loop w e m (of_nat ?v) (s + 7) (p + 1)"
    using ReadLebUnsigned_step [OF _ b(1,2), of e v s m] b(3) Cons.prems by simp
  also have "\<dots> = (Some m3Err_wasmUnderrun, of_nat (?v + leb_part bs * 2 ^ (s + 7)), e)"
    using Cons.prems(1-5) Cons.prems(6) [of "Suc i" for i] by (intro Cons.IH) (auto intro!: add_below_shift [simplified])
  finally show ?case by (simp add: power_add algebra_simps)
qed

lemma ReadLEB_u32_cut:
  assumes "\<forall>b \<in> set cs. 128 \<le> b" "length cs \<le> 4"
  shows "ReadLEB_u32 (pre @ cs @ post) (length pre) (length pre + length cs)
    = (Some m3Err_wasmUnderrun, of_nat (leb_part cs), length pre + length cs)"
proof -
  have "ReadLebUnsigned_loop (pre @ cs @ post) (length pre + length cs) 32 (of_nat 0) 0 (length pre)
      = (Some m3Err_wasmUnderrun, of_nat (0 + leb_part cs * 2 ^ 0), length pre + length cs)"
    by (rule ReadLebUnsigned_cut) (use assms in \<open>auto simp: nth_append\<close>)
  then show ?thesis by (simp add: ReadLEB_u32_def ReadLebUnsigned_def ucast_of_nat_down is_down)
qed

lemma and_mask127: "of_nat (unat b mod 128) = (b :: u8) AND 127"
proof -
  have "b AND 127 = take_bit 7 b" using take_bit_eq_mask [of 7 b] by (simp add: mask_eq_exp_minus_1)
  moreover have "unat (take_bit 7 b) = take_bit 7 (unat b)" by (simp only: unsigned_take_bit_eq)
  ultimately have "unat (b AND 127) = unat b mod 128" by (simp only: take_bit_eq_mod) simp
  then show ?thesis by (metis of_nat_unat ucast_id)
qed

lemma ucast_of_nat_byte: "(ucast (of_nat n :: u64) :: u8) = of_nat n"
  by (rule bit_word_eqI) (simp add: bit_simps)

lemma ReadLEB_u7_byte:
  assumes "length pre < e"
  shows "ReadLEB_u7 (pre @ b # post) (length pre) e
    = (if b < 128 then None else Some m3Err_lebOverflow, b AND 127, length pre + 1)"
proof -
  have b: "(pre @ b # post) ! length pre = of_nat (unat b)" "unat b < 256" using unsigned_less [where w=b] by auto
  have "ReadLebUnsigned_loop (pre @ b # post) e 7 (of_nat 0) 0 (length pre)
      = (if b < 128 then None else Some m3Err_lebOverflow, of_nat (unat b mod 128), length pre + 1)"
    using ReadLebUnsigned_step [OF assms b, of 0 0 7] by (simp add: word_less_nat_alt)
  moreover have "of_nat (unat b mod 128) = b AND 127"
    by (simp add: and_mask127)
  ultimately show ?thesis
    by (simp add: ReadLEB_u7_def ReadLebUnsigned_def ucast_of_nat_byte)
qed

lemma memory_section_parse:
  assumes "ParseType_Memory (pre @ [1] @ bs @ post) (memoryInfo m) (length pre + 1) (length pre + 1 + length bs) = (r, mem, q)"
    "r \<noteq> Some C_undefined"
  shows "ParseSection_Memory (pre @ [1] @ bs @ post) m (length pre) (length pre + 1 + length bs) = Inr (m\<lparr>memoryInfo := mem\<rparr>)"
proof -
  have "ReadLEB_u32 (pre @ uleb 1 @ bs @ post) (length pre) (length pre + 1 + length bs)
      = (None, of_nat 1, length pre + length (uleb 1))"
    by (rule ReadLEB_u32_decode) (simp_all add: uleb.simps)
  then show ?thesis using assms
    by (simp add: uleb.simps ParseSection_Memory_def checked_def at_state_def throwif_def Let_def)
qed

lemma memory_type_flag:
  assumes "128 \<le> flag"
  shows "ParseType_Memory (pre @ flag # bs) mem (length pre) (length pre + 1 + n)
    = (Some m3Err_lebOverflow, mem, length pre + 1)"
  using ReadLEB_u7_byte [of pre "length pre + 1 + n" flag bs] assms
  by (simp add: ParseType_Memory_def not_less [symmetric])

lemma memory_type_cut_pages:
  assumes "flag < 128" "\<forall>b \<in> set cs. 128 \<le> b" "length cs \<le> 4"
  shows "ParseType_Memory (pre @ flag # cs @ post) mem (length pre) (length pre + 1 + length cs)
    = (Some m3Err_wasmUnderrun, mem\<lparr>initPages := of_nat (leb_part cs)\<rparr>, length pre + 1 + length cs)"
  using ReadLEB_u7_byte [of pre "length pre + 1 + length cs" flag "cs @ post"] assms(1)
    ReadLEB_u32_cut [OF assms(2,3), of "pre @ [flag]" post]
  by (simp add: ParseType_Memory_def)

lemma memory_type_cut_limit:
  assumes "flag < 128" "bit flag 0" "n < 2 ^ 32" "\<forall>b \<in> set cs. 128 \<le> b" "length cs \<le> 4"
  shows "ParseType_Memory (pre @ flag # uleb n @ cs @ post) mem (length pre) (length pre + 1 + length (uleb n) + length cs)
    = (Some m3Err_wasmUnderrun, mem\<lparr>initPages := of_nat n, mi_maxPages := of_nat (leb_part cs)\<rparr>,
       length pre + 1 + length (uleb n) + length cs)"
proof -
  have "bit (flag AND 127) 0" using assms(2) by (simp add: bit_simps bit_numeral_rec)
  moreover have "ReadLEB_u32 ((pre @ [flag]) @ uleb n @ cs @ post) (length (pre @ [flag]))
      (length pre + 1 + length (uleb n) + length cs) = (None, of_nat n, length (pre @ [flag]) + length (uleb n))"
    by (rule ReadLEB_u32_decode) (use assms in auto)
  ultimately show ?thesis
    using ReadLEB_u7_byte [of pre "length pre + 1 + length (uleb n) + length cs" flag "uleb n @ cs @ post"] assms(1)
      ReadLEB_u32_cut [OF assms(4,5), of "pre @ [flag] @ uleb n" post]
    by (simp add: ParseType_Memory_def)
qed



end
