(* ===== verification/M3_Branches.thy ===== *)
theory M3_Branches
  imports M3_Expr
begin

text \<open>
  The first part of the compilers of a function body, \<^verbatim>\<open>src/m3_compile.c\<close>: code positions, scopes and
  branch patches, copies of stack entries, the results of blocks and functions, and the opcodes for
  locals, branches, calls and memory. Theory \<open>M3_Opcodes\<close> has the others, \<open>M3_Blocks\<close> blocks and
  functions.
\<close>

section \<open>What a compilation does not change\<close>

record compile_env =
  ce_page_ok :: "nat \<Rightarrow> bool"
  ce_wasm :: "u8 list"
  ce_module :: M3Module
  ce_environment :: M3Environment

abbreviation (input) c_waOp_block :: u16 where "c_waOp_block \<equiv> 0x02"
abbreviation (input) c_waOp_loop :: u16 where "c_waOp_loop \<equiv> 0x03"
abbreviation (input) c_waOp_if :: u16 where "c_waOp_if \<equiv> 0x04"
abbreviation (input) c_waOp_else :: u16 where "c_waOp_else \<equiv> 0x05"
abbreviation (input) c_waOp_end :: u16 where "c_waOp_end \<equiv> 0x0b"
abbreviation (input) c_waOp_branch :: u16 where "c_waOp_branch \<equiv> 0x0c"
abbreviation (input) c_waOp_branchIf :: u16 where "c_waOp_branchIf \<equiv> 0x0d"
abbreviation (input) c_waOp_teeLocal :: u16 where "c_waOp_teeLocal \<equiv> 0x22"
abbreviation (input) c_waOp_getGlobal :: u16 where "c_waOp_getGlobal \<equiv> 0x23"
abbreviation (input) c_waOp_memoryCopy :: u16 where "c_waOp_memoryCopy \<equiv> 0xfc0a"
abbreviation (input) c_ioSlotCount :: u16 where "c_ioSlotCount \<equiv> 2"

abbreviation emit_op_at :: "compile_env \<Rightarrow> M3Compilation \<Rightarrow> m3_op \<Rightarrow> M3Compilation result" where
  "emit_op_at env \<equiv> emit_op (ce_page_ok env)"

abbreviation PreserveRegister_at :: "compile_env \<Rightarrow> M3Compilation \<Rightarrow> u8 \<Rightarrow> M3Compilation result" where
  "PreserveRegister_at env \<equiv> PreserveRegisterIfOccupied (ce_page_ok env)"

definition IsIntType :: "u8 \<Rightarrow> bool" where
  "IsIntType i_m3Type \<longleftrightarrow> i_m3Type = c_m3Type_i32 \<or> i_m3Type = c_m3Type_i64"

abbreviation IsStackPolymorphic :: "M3Compilation \<Rightarrow> bool" where
  "IsStackPolymorphic o' \<equiv> isPolymorphic (block o')"

abbreviation IsStackTopMinus1InRegister :: "M3Compilation \<Rightarrow> bool" where
  "IsStackTopMinus1InRegister o' \<equiv> IsStackIndexInRegister o' (GetStackTopIndex o' - 1)"

abbreviation IsStackTopMinus2InRegister :: "M3Compilation \<Rightarrow> bool" where
  "IsStackTopMinus2InRegister o' \<equiv> IsStackIndexInRegister o' (GetStackTopIndex o' - 2)"

text \<open>A read through the compilation's cursor.\<close>

definition read_with ::
    "(u8 list \<Rightarrow> nat \<Rightarrow> nat \<Rightarrow> ('a \<times> nat) result) \<Rightarrow> compile_env \<Rightarrow> M3Compilation \<Rightarrow> ('a \<times> M3Compilation) result" where
  "read_with rd env o' = tryR (rd (ce_wasm env) (co_wasm o') (co_wasmEnd o')) (\<lambda>(v, p). Inr (v, o'\<lparr>co_wasm := p\<rparr>))"

abbreviation read_u32 :: "compile_env \<Rightarrow> M3Compilation \<Rightarrow> (u32 \<times> M3Compilation) result" where
  "read_u32 \<equiv> read_with (\<lambda>w p e. checked (ReadLEB_u32 w p e))"

abbreviation read_i7 :: "compile_env \<Rightarrow> M3Compilation \<Rightarrow> (u8 \<times> M3Compilation) result" where
  "read_i7 \<equiv> read_with (\<lambda>w p e. checked (ReadLEB_i7 w p e))"

section \<open>Code positions\<close>

definition GetPC :: "M3Compilation \<Rightarrow> pc_t option" where
  "GetPC o' = (if has_page o' then Some (cur_page o', length (code o')) else None)"

definition page_words :: "M3Compilation \<Rightarrow> nat \<Rightarrow> code_word list" where
  "page_words o' k = (if k = cur_page o' then code o' else shelf o' k)"

definition word_at :: "M3Compilation \<Rightarrow> pc_t \<Rightarrow> code_word option" where
  "word_at o' pc = (if snd pc < length (page_words o' (fst pc)) then Some (page_words o' (fst pc) ! snd pc) else None)"

text \<open>\<^verbatim>\<open>* (pc_t *) pc = ...\<close>.\<close>

definition set_word :: "pc_t \<Rightarrow> code_word \<Rightarrow> M3Compilation \<Rightarrow> M3Compilation" where
  "set_word pc w o' =
    (if fst pc = cur_page o' then o'\<lparr>code := (code o')[snd pc := w]\<rparr>
     else o'\<lparr>shelf := (shelf o')(fst pc := (shelf o' (fst pc))[snd pc := w])\<rparr>)"

definition set_reserved :: "pc_t option \<Rightarrow> code_word \<Rightarrow> M3Compilation \<Rightarrow> M3Compilation" where
  "set_reserved ptr w o' = (case ptr of Some pc \<Rightarrow> set_word pc w o' | None \<Rightarrow> o')"

text \<open>The position of the pointer, and the state.\<close>

definition ReserveBranch :: "M3Compilation \<Rightarrow> pc_t option \<times> M3Compilation" where
  "ReserveBranch o' = (GetPC o', emit_word o' (W_pc None))"

definition AcquireCompilationPage :: "compile_env \<Rightarrow> M3Compilation \<Rightarrow> (nat \<times> M3Compilation) result" where
  "AcquireCompilationPage env o' =
    (if ce_page_ok env (requests o')
     then Inr (numPages o', o'\<lparr>requests := requests o' + 1, numPages := numPages o' + 1\<rparr>)
     else Inl m3Err_mallocFailedCodePage)"

text \<open>\<^verbatim>\<open>o->page = k\<close>.\<close>

definition use_page :: "nat \<Rightarrow> M3Compilation \<Rightarrow> M3Compilation" where
  "use_page k o' = o'\<lparr>has_page := True, cur_page := k, code := page_words o' k,
     shelf := (if has_page o' then (shelf o')(cur_page o' := code o') else shelf o')\<rparr>"

section \<open>Scopes and branch patches\<close>

definition EmitSlotNumOfStackTopAndPop :: "M3Compilation \<Rightarrow> M3Compilation result" where
  "EmitSlotNumOfStackTopAndPop o' =
    Pop (if IsStackTopInSlot o' then emit_slot o' (GetStackTopSlotNumber o') else o')"

text \<open>Every round of the loop pops one entry.\<close>

definition UnwindBlockStack :: "M3Compilation \<Rightarrow> M3Compilation result" where
  "UnwindBlockStack o' = pop_n (unat (stackIndex o') - unat (blockStackIndex (block o'))) o'"

definition SetStackPolymorphic :: "M3Compilation \<Rightarrow> M3Compilation result" where
  "SetStackPolymorphic o' = UnwindBlockStack (o'\<lparr>block := (block o')\<lparr>isPolymorphic := True\<rparr>\<rparr>)"

text \<open>
  The patches of a scope are a linked list through the code: each word to be patched holds the
  position of the next one. There is at most one per request for room.
\<close>

primrec PatchBranches_loop :: "nat \<Rightarrow> pc_t option \<Rightarrow> pc_t option \<Rightarrow> M3Compilation \<Rightarrow> M3Compilation result" where
  "PatchBranches_loop 0 pc ps o' = (if ps = None then Inr o' else Inl C_undefined)"
| "PatchBranches_loop (Suc n) pc ps o' =
    (case ps of None \<Rightarrow> Inr o'
     | Some p \<Rightarrow> (case word_at o' p of
         Some (W_pc next') \<Rightarrow> PatchBranches_loop n pc next' (set_word p (W_pc pc) o')
       | _ \<Rightarrow> Inl C_undefined))"

definition PatchBranches :: "M3Compilation \<Rightarrow> M3Compilation result" where
  "PatchBranches o' =
    PatchBranches_loop (requests o') (GetPC o') (patches (block o')) (o'\<lparr>block := (block o')\<lparr>patches := None\<rparr>\<rparr>)"

text \<open>A scope is given by its depth from the current one.\<close>

definition scope_at :: "M3Compilation \<Rightarrow> nat \<Rightarrow> M3CompilationScope" where
  "scope_at o' d = (block o' # outer o') ! d"

definition set_patches :: "nat \<Rightarrow> pc_t option \<Rightarrow> M3Compilation \<Rightarrow> M3Compilation" where
  "set_patches d p o' =
    (case d of 0 \<Rightarrow> o'\<lparr>block := (block o')\<lparr>patches := p\<rparr>\<rparr>
     | Suc k \<Rightarrow> o'\<lparr>outer := (outer o')[k := (outer o' ! k)\<lparr>patches := p\<rparr>]\<rparr>)"

definition GetBlockScope :: "M3Compilation \<Rightarrow> u32 \<Rightarrow> nat result" where
  "GetBlockScope o' i_depth =
    throwif (M3Msg ''invalid block depth'') (unat i_depth > length (outer o')) (Inr (unat i_depth))"

definition EmitPatchingBranchPointer :: "M3Compilation \<Rightarrow> nat \<Rightarrow> M3Compilation" where
  "EmitPatchingBranchPointer o' d =
    (let patch = GetPC o' in set_patches d patch (emit_word o' (W_pc (patches (scope_at o' d)))))"

definition EmitPatchingBranch :: "compile_env \<Rightarrow> M3Compilation \<Rightarrow> nat \<Rightarrow> M3Compilation result" where
  "EmitPatchingBranch env o' d = tryR (emit_op_at env o' o_Branch) (\<lambda>o'. Inr (EmitPatchingBranchPointer o' d))"

section \<open>Copies\<close>

definition CopyStackIndexToSlot :: "compile_env \<Rightarrow> M3Compilation \<Rightarrow> u16 \<Rightarrow> u16 \<Rightarrow> M3Compilation result" where
  "CopyStackIndexToSlot env o' i_destSlot i_stackIndex =
    (let type = GetStackTypeFromBottom o' i_stackIndex;
         inRegister = IsStackIndexInRegister o' (uint i_stackIndex) in
     tryR (if inRegister then typed_op op_SetSlot type
           else Inr (if Is64BitType type then op_CopySlot_64 else op_CopySlot_32)) (\<lambda>op.
     tryR (emit_op_at env o' op) (\<lambda>o'.
       let o' = emit_slot o' i_destSlot in
       Inr (if inRegister then o' else emit_slot o' (GetSlotForStackIndex o' i_stackIndex)))))"

definition CopyStackTopToSlot :: "compile_env \<Rightarrow> M3Compilation \<Rightarrow> u16 \<Rightarrow> M3Compilation result" where
  "CopyStackTopToSlot env o' i_destSlot =
    CopyStackIndexToSlot env o' i_destSlot (word_of_int (GetStackTopIndex o'))"

definition PreservedCopyTopSlot :: "compile_env \<Rightarrow> M3Compilation \<Rightarrow> u16 \<Rightarrow> u16 \<Rightarrow> M3Compilation result" where
  "PreservedCopyTopSlot env o' i_destSlot i_preserveSlot =
    (let type = GetStackTopType o' in
     tryR (if IsStackTopInRegister o' then typed_op op_PreserveSetSlot type
           else Inr (if Is64BitType type then op_PreserveCopySlot_64 else op_PreserveCopySlot_32)) (\<lambda>op.
     tryR (emit_op_at env o' op) (\<lambda>o'.
       let o' = emit_slot o' i_destSlot;
           o' = (if IsStackTopInSlot o' then emit_slot o' (GetStackTopSlotNumber o') else o') in
       Inr (emit_slot o' i_preserveSlot))))"

definition CopyStackTopToRegister :: "compile_env \<Rightarrow> M3Compilation \<Rightarrow> bool \<Rightarrow> M3Compilation result" where
  "CopyStackTopToRegister env o' i_updateStack =
    (if IsStackTopInSlot o' then
       let type = GetStackTopType o' in
       tryR (PreserveRegister_at env o' type) (\<lambda>o'.
       tryR (typed_op op_SetRegister type) (\<lambda>op.
       tryR (emit_op_at env o' op) (\<lambda>o'.
         let o' = emit_slot o' (GetStackTopSlotNumber o') in
         if i_updateStack then tryR (PopType o' type) (\<lambda>o'. PushRegister o' type) else Inr o')))
     else Inr o')"

text \<open>The stack entries of the function, or of the innermost block that is not a plain one.\<close>

fun referenced_start :: "M3CompilationScope \<Rightarrow> M3CompilationScope list \<Rightarrow> u16" where
  "referenced_start scope [] = blockStackIndex scope"
| "referenced_start scope (s # ss) =
    (if sc_opcode scope = c_waOp_block then referenced_start s ss else blockStackIndex scope)"

fun FindReferencedLocal_loop :: "u16 \<Rightarrow> nat list \<Rightarrow> u16 \<Rightarrow> M3Compilation \<Rightarrow> (u16 \<times> M3Compilation) result" where
  "FindReferencedLocal_loop i_localSlot [] preserved o' = Inr (preserved, o')"
| "FindReferencedLocal_loop i_localSlot (i # is) preserved o' =
    (if wasmStack o' i = i_localSlot then
       tryR (if preserved = i_localSlot then AllocateSlots o' (GetStackTypeFromBottom o' (of_nat i))
             else tryR (IncrementSlotUsageCount o' preserved) (\<lambda>o'. Inr (preserved, o'))) (\<lambda>(preserved, o').
         FindReferencedLocal_loop i_localSlot is preserved (o'\<lparr>wasmStack := (wasmStack o')(i := preserved)\<rparr>))
     else FindReferencedLocal_loop i_localSlot is preserved o')"

definition FindReferencedLocalWithinCurrentBlock :: "M3Compilation \<Rightarrow> u16 \<Rightarrow> (u16 \<times> M3Compilation) result" where
  "FindReferencedLocalWithinCurrentBlock o' i_localSlot =
    FindReferencedLocal_loop i_localSlot [unat (referenced_start (block o') (outer o')) ..< unat (stackIndex o')] i_localSlot o'"

section \<open>Results of blocks and functions\<close>

text \<open>The search for a later entry that occupies the target slot.\<close>

definition find_collision :: "M3Compilation \<Rightarrow> u16 \<Rightarrow> u16 \<Rightarrow> nat \<Rightarrow> nat \<Rightarrow> nat option" where
  "find_collision o' targetSlot extraSlot i i_end =
    find (\<lambda>k. let otherSlot1 = GetSlotForStackIndex o' (of_nat k); otherSlot2 = GetExtraSlotForStackIndex o' (of_nat k) in
        targetSlot = otherSlot1 \<or> targetSlot = otherSlot2 \<or> unat targetSlot + unat extraSlot = unat otherSlot1)
      [i ..< i_end]"

text \<open>
  One entry, from \<open>idx\<close> to the slot of the record \<open>target\<close>; an entry in the way is first copied to
  \<open>temp\<close>. The result also has the index and slot to restore later and the next temporary slot.
\<close>

definition CopyStackSlot_step :: "compile_env \<Rightarrow> u16 \<Rightarrow> u16 \<Rightarrow> u16 \<Rightarrow> u16 \<Rightarrow> M3Compilation
    \<Rightarrow> (u16 \<times> u16 \<times> u16 \<times> M3Compilation) result" where
  "CopyStackSlot_step env target idx e temp o' =
    (let srcSlot = GetSlotForStackIndex o' idx;
         extraSlot = GetTypeNumSlots (GetStackTypeFromBottom o' idx) - 1;
         targetSlot = GetSlotForStackIndex o' target in
     if targetSlot \<noteq> srcSlot then
       tryR (case find_collision o' targetSlot extraSlot (unat idx + 1) (unat e) of
           None \<Rightarrow> Inr (idx, srcSlot, temp, o')
         | Some check \<Rightarrow>
             throwif m3Err_functionStackOverflow (unat temp \<ge> d_m3MaxFunctionSlots)
             (let otherSlot1 = GetSlotForStackIndex o' (of_nat check) in
              tryR (CopyStackIndexToSlot env o' temp (of_nat check)) (\<lambda>o'.
                let o' = o'\<lparr>wasmStack := (wasmStack o')(check := temp)\<rparr>; temp = temp + 2 in
                Inr (of_nat check, otherSlot1, temp, TouchSlot o' (temp - 1))))) (\<lambda>(preserveIndex, collisionSlot, temp, o').
       tryR (CopyStackIndexToSlot env o' targetSlot idx) (\<lambda>o'.
         Inr (preserveIndex, collisionSlot, temp, o'\<lparr>wasmStack := (wasmStack o')(unat idx := targetSlot)\<rparr>)))
     else Inr (idx, srcSlot, temp, o'))"

function CopyStackSlotsR :: "compile_env \<Rightarrow> u16 \<Rightarrow> u16 \<Rightarrow> u16 \<Rightarrow> u16 \<Rightarrow> M3Compilation \<Rightarrow> M3Compilation result" where
  "CopyStackSlotsR env target idx e temp o' =
    (if idx < e then
       let srcSlot = GetSlotForStackIndex o' idx in
       tryR (CopyStackSlot_step env target idx e temp o') (\<lambda>(preserveIndex, collisionSlot, temp, o').
       tryR (CopyStackSlotsR env (target + 1) (idx + 1) e temp o') (\<lambda>o'.
         Inr (o'\<lparr>wasmStack := (wasmStack o')(unat idx := srcSlot, unat preserveIndex := collisionSlot)\<rparr>)))
     else Inr o')"
  by pat_completeness auto
termination
proof (relation "measure (\<lambda>(env, t, i, e, s, o'). unat e - unat i)", goal_cases)
  case (2 env t i e temp o')
  then have "unat i < unat e" by (simp add: word_less_nat_alt)
  moreover from this have "unat (i + 1) = unat i + 1" using unat_lt16 [of e] by (intro unat_inc16) simp
  ultimately show ?case by simp
qed simp

declare CopyStackSlotsR.simps [simp del]

definition ResolveBlockResults :: "compile_env \<Rightarrow> M3Compilation \<Rightarrow> nat \<Rightarrow> bool \<Rightarrow> M3Compilation result" where
  "ResolveBlockResults env o' d i_isBranch =
    (let target = scope_at o' d;
         isLoop = (sc_opcode target = c_waOp_loop \<and> i_isBranch);
         numParams = GetFuncTypeNumParams (sc_type target);
         numResults = GetFuncTypeNumResults (sc_type target);
         slotRecords = exitStackIndex target + (if isLoop then 0 else numParams);
         numValues = (if isLoop then numParams else numResults);
         blockHeight = GetNumBlockValuesOnStack o' in
     throwif m3Err_typeCountMismatch (if i_isBranch then blockHeight < numValues else blockHeight \<noteq> numValues)
     (if numValues \<noteq> 0 then
        let endIndex = word_of_int (GetStackTopIndex o') + 1;
            viaRegister = (\<not> isLoop \<and> IsFpType (GetStackTopType o')) in
        tryR (if viaRegister then CopyStackTopToRegister env o' False else Inr o') (\<lambda>o'.
          let endIndex = (if viaRegister then endIndex - 1 else endIndex);
              numRemValues = (if viaRegister then numValues - 1 else numValues);
              tempSlot = AlignSlotToType (maxStackSlots o') c_m3Type_i64 in
          CopyStackSlotsR env slotRecords (endIndex - numRemValues) endIndex tempSlot o')
      else Inr o'))"

primrec ReturnValues_loop :: "compile_env \<Rightarrow> M3FuncType option \<Rightarrow> nat list \<Rightarrow> u16 \<Rightarrow> u16 \<Rightarrow> M3Compilation \<Rightarrow> M3Compilation result" where
  "ReturnValues_loop env ft [] returnSlot stackTop o' = Inr o'"
| "ReturnValues_loop env ft (i # is) returnSlot stackTop o' =
    (let returnType = GetFuncTypeResultType ft (GetFuncTypeNumResults ft - 1 - of_nat i);
         stackType = GetStackTypeFromTop o' (of_nat i);
         stackType = (if IsStackPolymorphic o' \<and> stackType = c_m3Type_none then returnType else stackType) in
     throwif m3Err_typeMismatch (returnType \<noteq> stackType)
     (if IsStackPolymorphic o' then ReturnValues_loop env ft is returnSlot stackTop o'
      else let returnSlot = returnSlot - c_ioSlotCount in
        tryR (CopyStackIndexToSlot env o' returnSlot stackTop) (\<lambda>o'.
          ReturnValues_loop env ft is returnSlot (stackTop - 1) o')))"

definition ReturnValues :: "compile_env \<Rightarrow> M3Compilation \<Rightarrow> M3FuncType option \<Rightarrow> bool \<Rightarrow> M3Compilation result" where
  "ReturnValues env o' ft i_isBranch =
    (let numReturns = GetFuncTypeNumResults ft;
         blockHeight = GetNumBlockValuesOnStack o' in
     throwif m3Err_typeCountMismatch
       (\<not> IsStackPolymorphic o' \<and> (if i_isBranch then blockHeight < numReturns else blockHeight \<noteq> numReturns))
     (if numReturns \<noteq> 0 then
        tryR (ReturnValues_loop env ft [0 ..< unat numReturns] (numReturns * c_ioSlotCount)
                (word_of_int (GetStackTopIndex o')) o') (\<lambda>o'.
          if i_isBranch then Inr o' else pop_n (unat numReturns) o')
      else Inr o'))"

section \<open>Returning, locals and globals\<close>

definition Compile_Return :: "compile_env \<Rightarrow> M3Compilation \<Rightarrow> M3Compilation result" where
  "Compile_Return env o' =
    (if \<not> IsStackPolymorphic o' then
       tryR (GetBlockScope o' (word_of_int (depth (block o')))) (\<lambda>d.
       tryR (ReturnValues env o' (sc_type (scope_at o' d)) True) (\<lambda>o'.
       tryR (emit_op_at env o' op_Return) SetStackPolymorphic))
     else Inr o')"

definition Compile_End :: "compile_env \<Rightarrow> M3Compilation \<Rightarrow> M3Compilation result" where
  "Compile_End env o' =
    (if depth (block o') = 0 then
       tryR (if co_function o' \<noteq> None then ReturnValues env o' (sc_type (block o')) False else Inr o') (\<lambda>o'.
         emit_op_at env o' op_Return)
     else Inr o')"

definition function_type :: "compile_env \<Rightarrow> M3Compilation \<Rightarrow> M3FuncType option" where
  "function_type env o' = (case co_function o' of None \<Rightarrow> None
     | Some f \<Rightarrow> (case fn_funcType f of None \<Rightarrow> None | Some p \<Rightarrow> pool_get (funcTypes (ce_environment env)) p))"

definition NumArgsAndLocals :: "compile_env \<Rightarrow> M3Compilation \<Rightarrow> u32" where
  "NumArgsAndLocals env o' = GetFunctionNumArgsAndLocals (co_function o') (function_type env o')"

definition Compile_SetLocal :: "compile_env \<Rightarrow> M3Compilation \<Rightarrow> u16 \<Rightarrow> M3Compilation result" where
  "Compile_SetLocal env o' i_opcode =
    tryR (read_u32 env o') (\<lambda>(localIndex, o').
      if localIndex < NumArgsAndLocals env o' then
        let localSlot = GetSlotForStackIndex o' (ucast localIndex) in
        tryR (FindReferencedLocalWithinCurrentBlock o' localSlot) (\<lambda>(preserveSlot, o').
        tryR (if preserveSlot = localSlot then CopyStackTopToSlot env o' localSlot
              else PreservedCopyTopSlot env o' localSlot preserveSlot) (\<lambda>o'.
          if i_opcode \<noteq> c_waOp_teeLocal then Pop o' else Inr o'))
      else Inl (M3Msg ''local index out of bounds''))"

definition Compile_GetLocal :: "compile_env \<Rightarrow> M3Compilation \<Rightarrow> M3Compilation result" where
  "Compile_GetLocal env o' =
    tryR (read_u32 env o') (\<lambda>(localIndex, o').
      if localIndex \<ge> NumArgsAndLocals env o' then Inl (M3Msg ''local index out of bounds'')
      else Push o' (GetStackTypeFromBottom o' (ucast localIndex)) (GetSlotForStackIndex o' (ucast localIndex)))"

section \<open>Branches\<close>

definition Branch_to_loop :: "compile_env \<Rightarrow> M3Compilation \<Rightarrow> u16 \<Rightarrow> nat \<Rightarrow> M3Compilation result" where
  "Branch_to_loop env o' i_opcode d =
    (let scope = scope_at o' d in
     if i_opcode = c_waOp_branchIf then
       if GetFuncTypeNumParams (sc_type scope) \<noteq> 0 then
         tryR (emit_op_at env o' (if IsStackTopInRegister o' then o_BranchIfPrologue_r else o_BranchIfPrologue_s)) (\<lambda>o'.
         tryR (EmitSlotNumOfStackTopAndPop o') (\<lambda>o'.
           let (jumpTo, o') = ReserveBranch o' in
           tryR (ResolveBlockResults env o' d True) (\<lambda>o'.
           tryR (emit_op_at env o' o_ContinueLoop) (\<lambda>o'.
             let o' = emit_word o' (W_pc (sc_pc scope)) in
             Inr (set_reserved jumpTo (W_pc (GetPC o')) o')))))
       else
         tryR (CopyStackTopToRegister env o' False) (\<lambda>o'.
         tryR (PopType o' c_m3Type_i32) (\<lambda>o'.
         tryR (emit_op_at env o' o_ContinueLoopIf) (\<lambda>o'.
           Inr (emit_word o' (W_pc (sc_pc scope))))))
     else
       tryR (emit_op_at env o' o_ContinueLoop) (\<lambda>o'.
         let o' = emit_word o' (W_pc (sc_pc scope)) in
         Inr (o'\<lparr>block := (block o')\<lparr>isPolymorphic := True\<rparr>\<rparr>)))"

text \<open>Leaving the scope, by a return from the function or a branch to be patched.\<close>

definition leave_scope :: "compile_env \<Rightarrow> nat \<Rightarrow> M3Compilation \<Rightarrow> M3Compilation result" where
  "leave_scope env d o' =
    (let scope = scope_at o' d in
     if \<not> IsStackPolymorphic o' then
       if depth scope = 0 then
         tryR (ReturnValues env o' (sc_type scope) True) (\<lambda>o'. emit_op_at env o' op_Return)
       else tryR (ResolveBlockResults env o' d True) (\<lambda>o'. EmitPatchingBranch env o' d)
     else Inr o')"

definition Branch_forward :: "compile_env \<Rightarrow> M3Compilation \<Rightarrow> u16 \<Rightarrow> nat \<Rightarrow> M3Compilation result" where
  "Branch_forward env o' i_opcode d =
    (let scope = scope_at o' d;
         isReturn = (depth scope = 0);
         targetHasResults = (GetFuncTypeNumResults (sc_type scope) \<noteq> 0) in
     if i_opcode = c_waOp_branchIf then
       if targetHasResults \<or> isReturn then
         tryR (emit_op_at env o' (if IsStackTopInRegister o' then o_BranchIfPrologue_r else o_BranchIfPrologue_s)) (\<lambda>o'.
         tryR (EmitSlotNumOfStackTopAndPop o') (\<lambda>o'.
           let (jumpTo, o') = ReserveBranch o' in
           tryR (leave_scope env d o') (\<lambda>o'.
             Inr (set_reserved jumpTo (W_pc (GetPC o')) o'))))
       else
         tryR (emit_op_at env o' (if IsStackTopInRegister o' then o_BranchIf_r else o_BranchIf_s)) (\<lambda>o'.
         tryR (EmitSlotNumOfStackTopAndPop o') (\<lambda>o'.
           Inr (EmitPatchingBranchPointer o' d)))
     else tryR (leave_scope env d o') (\<lambda>o'.
       if i_opcode = c_waOp_branch then SetStackPolymorphic o' else Inr o'))"

definition Compile_Branch :: "compile_env \<Rightarrow> M3Compilation \<Rightarrow> u16 \<Rightarrow> M3Compilation result" where
  "Compile_Branch env o' i_opcode =
    tryR (read_u32 env o') (\<lambda>(depth, o').
    tryR (GetBlockScope o' depth) (\<lambda>d.
      if sc_opcode (scope_at o' d) = c_waOp_loop then Branch_to_loop env o' i_opcode d
      else Branch_forward env o' i_opcode d))"

text \<open>A target of the table: its own run of code on a page, and a pointer to it.\<close>

definition BranchTable_target :: "compile_env \<Rightarrow> M3Compilation \<Rightarrow> M3Compilation result" where
  "BranchTable_target env o' =
    tryR (read_u32 env o') (\<lambda>(target, o').
    tryR (GetBlockScope o' target) (\<lambda>d.
    tryR (AcquireCompilationPage env o') (\<lambda>(continueOpPage, o').
      let savedPage = cur_page o'; o' = use_page continueOpPage o'; startPC = GetPC o';
          scope = scope_at o' d in
      tryR (if sc_opcode scope = c_waOp_loop then
              tryR (ResolveBlockResults env o' d True) (\<lambda>o'.
              tryR (emit_op_at env o' o_ContinueLoop) (\<lambda>o'.
                Inr (emit_word o' (W_pc (sc_pc scope)))))
            else leave_scope env d o') (\<lambda>o'.
        Inr (emit_word (use_page savedPage o') (W_pc startPC))))))"

primrec BranchTable_targets :: "compile_env \<Rightarrow> nat \<Rightarrow> M3Compilation \<Rightarrow> M3Compilation result" where
  "BranchTable_targets env 0 o' = Inr o'"
| "BranchTable_targets env (Suc n) o' = tryR (BranchTable_target env o') (BranchTable_targets env n)"

text \<open>\<^verbatim>\<open>EnsureCodePageNumLines\<close> asks for all lines of the table at once; \<^verbatim>\<open>++targetCount\<close> wraps.\<close>

definition Compile_BranchTable :: "compile_env \<Rightarrow> M3Compilation \<Rightarrow> M3Compilation result" where
  "Compile_BranchTable env o' =
    tryR (read_u32 env o') (\<lambda>(targetCount, o').
    tryR (PreserveRegister_at env o' c_m3Type_i64) (\<lambda>o'.
      let slot = GetStackTopSlotNumber o' in
      tryR (Pop o') (\<lambda>o'.
      throwif m3Err_mallocFailedCodePage (\<not> ce_page_ok env (requests o'))
      (tryR (emit_op_at env (o'\<lparr>requests := requests o' + 1\<rparr>) o_BranchTable) (\<lambda>o'.
         let o' = emit_word (emit_slot o' slot) (W_32 targetCount) in
         tryR (BranchTable_targets env (unat (targetCount + 1)) o') SetStackPolymorphic)))))"

section \<open>Calls\<close>

primrec pop_arguments :: "compile_env \<Rightarrow> nat \<Rightarrow> u16 \<Rightarrow> M3Compilation \<Rightarrow> M3Compilation result" where
  "pop_arguments env 0 argTop o' = Inr o'"
| "pop_arguments env (Suc n) argTop o' =
    (let argTop = argTop - c_ioSlotCount in
     tryR (CopyStackTopToSlot env o' argTop) (\<lambda>o'. tryR (Pop o') (pop_arguments env n argTop)))"

primrec push_returns :: "M3FuncType option \<Rightarrow> nat list \<Rightarrow> u16 \<Rightarrow> M3Compilation \<Rightarrow> M3Compilation result" where
  "push_returns ft [] topSlot o' = Inr o'"
| "push_returns ft (i # is) topSlot o' =
    (let type = GetFuncTypeResultType ft (of_nat i) in
     tryR (Push o' type topSlot) (\<lambda>o'.
     tryR (MarkSlotsAllocatedByType o' topSlot type)
       (push_returns ft is (topSlot + c_ioSlotCount))))"

definition CompileCallArgsAndReturn ::
    "compile_env \<Rightarrow> M3Compilation \<Rightarrow> M3FuncType option \<Rightarrow> bool \<Rightarrow> (u16 \<times> M3Compilation) result" where
  "CompileCallArgsAndReturn env o' i_type i_isIndirect =
    (let (topSlot, o') = GetMaxUsedSlotPlusOne o';
         topSlot = AlignSlotToType (max 1 topSlot) c_m3Type_i64 in
     tryR (if i_isIndirect then Pop o' else Inr o') (\<lambda>o'.
       let numArgs = GetFuncTypeNumParams i_type; numRets = GetFuncTypeNumResults i_type;
           argTop = topSlot + (numArgs + numRets) * c_ioSlotCount in
       tryR (pop_arguments env (unat numArgs) argTop o') (\<lambda>o'.
       tryR (push_returns i_type [0 ..< unat numRets] topSlot o') (\<lambda>o'.
         Inr (topSlot, o')))))"

text \<open>A function has its module set together with its body, or with its compiled code.\<close>

definition has_module :: "M3Function \<Rightarrow> bool" where
  "has_module f \<longleftrightarrow> fn_wasm f \<noteq> None \<or> compiled f"

definition type_of :: "compile_env \<Rightarrow> nat option \<Rightarrow> M3FuncType option" where
  "type_of env t = (case t of None \<Rightarrow> None | Some p \<Rightarrow> pool_get (funcTypes (ce_environment env)) p)"

definition Compile_Call :: "compile_env \<Rightarrow> M3Compilation \<Rightarrow> M3Compilation result" where
  "Compile_Call env o' =
    tryR (read_u32 env o') (\<lambda>(functionIndex, o').
      case Module_GetFunction (ce_module env) functionIndex of
        None \<Rightarrow> Inl m3Err_functionLookupFailed
      | Some fi \<Rightarrow>
          throwif C_undefined (fi \<ge> length (m_functions (ce_module env)))
          (let function = m_functions (ce_module env) ! fi in
           if has_module function then
             tryR (CompileCallArgsAndReturn env o' (type_of env (fn_funcType function)) False) (\<lambda>(slotTop, o').
             tryR (emit_op_at env o' (if compiled function then o_Call else o_Compile)) (\<lambda>o'.
               let o' = emit_word o' (if compiled function then W_compiled fi else W_function fi) in
               Inr (emit_slot o' slotTop)))
           else Inl m3Err_functionImportMissing))"

definition Compile_CallIndirect :: "compile_env \<Rightarrow> M3Compilation \<Rightarrow> M3Compilation result" where
  "Compile_CallIndirect env o' =
    tryR (read_u32 env o') (\<lambda>(typeIndex, o').
    tryR (read_u32 env o') (\<lambda>(tableIndex, o').
    throwif (M3Msg ''function call type index out of range'') (typeIndex \<ge> numFuncTypes (ce_module env))
    (tryR (if IsStackTopInRegister o' then PreserveRegister_at env o' c_m3Type_i32 else Inr o') (\<lambda>o'.
       let tableIndexSlot = GetStackTopSlotNumber o' in
       throwif C_undefined (unat typeIndex \<ge> length (m_funcTypes (ce_module env)))
       (let type = m_funcTypes (ce_module env) ! unat typeIndex in
        tryR (CompileCallArgsAndReturn env o' (type_of env type) True) (\<lambda>(execTop, o').
        tryR (emit_op_at env o' o_CallIndirect) (\<lambda>o'.
          let o' = emit_word (emit_word (emit_slot o' tableIndexSlot) W_module) (W_type type) in
          Inr (emit_slot o' execTop))))))))"

section \<open>Memory\<close>

definition Compile_Memory_Size :: "compile_env \<Rightarrow> M3Compilation \<Rightarrow> M3Compilation result" where
  "Compile_Memory_Size env o' =
    tryR (read_i7 env o') (\<lambda>(reserved, o').
    tryR (PreserveRegister_at env o' c_m3Type_i32) (\<lambda>o'.
    tryR (emit_op_at env o' o_MemSize) (\<lambda>o'. PushRegister o' c_m3Type_i32)))"

definition Compile_Memory_Grow :: "compile_env \<Rightarrow> M3Compilation \<Rightarrow> M3Compilation result" where
  "Compile_Memory_Grow env o' =
    tryR (read_i7 env o') (\<lambda>(reserved, o').
    tryR (CopyStackTopToRegister env o' False) (\<lambda>o'.
    tryR (PopType o' c_m3Type_i32) (\<lambda>o'.
    tryR (emit_op_at env o' o_MemGrow) (\<lambda>o'. PushRegister o' c_m3Type_i32))))"

definition Compile_Memory_CopyFill :: "compile_env \<Rightarrow> M3Compilation \<Rightarrow> u16 \<Rightarrow> M3Compilation result" where
  "Compile_Memory_CopyFill env o' i_opcode =
    tryR (if i_opcode = c_waOp_memoryCopy
          then tryR (read_u32 env o') (\<lambda>(sourceMemoryIdx, o'). Inr (o_MemCopy, o')) else Inr (o_MemFill, o')) (\<lambda>(op, o').
    tryR (read_u32 env o') (\<lambda>(targetMemoryIdx, o').
    tryR (CopyStackTopToRegister env o' False) (\<lambda>o'.
    tryR (emit_op_at env o' op) (\<lambda>o'.
    tryR (PopType o' c_m3Type_i32) (\<lambda>o'.
    tryR (EmitSlotNumOfStackTopAndPop o') EmitSlotNumOfStackTopAndPop)))))"

end
