(* ===== verification/M3_Opcodes.thy ===== *)
theory M3_Opcodes
  imports M3_Branches
begin

text \<open>
  The second part of the compilers of a function body, \<^verbatim>\<open>src/m3_compile.c\<close>: select, the table of
  operators, and the compilers of operators, conversions, loads and stores. A request for room in a
  page whose failure the code does not look at is undefined here: the words that follow are written
  to a page that may have no room for them.
\<close>

section \<open>Select and the operations without code of their own\<close>

text \<open>The operands from the top: which of them is in the register, and the slots of the others.\<close>

fun select_operand_slots :: "nat list \<Rightarrow> nat \<Rightarrow> u16 list \<Rightarrow> M3Compilation \<Rightarrow> (nat \<times> u16 list \<times> M3Compilation) result" where
  "select_operand_slots [] opIndex slots o' = Inr (opIndex, slots, o')"
| "select_operand_slots (i # is) opIndex slots o' =
    (let reg = IsStackTopInRegister o';
         opIndex = (if reg then i else opIndex);
         slots = (if reg then slots else slots[i := GetStackTopSlotNumber o']) in
     tryR (Pop o') (select_operand_slots is opIndex slots))"

definition c_intSelectForms :: "string list" where
  "c_intSelectForms = [''rss'', ''srs'', ''ssr'', ''sss'']"

definition c_fpSelectForms :: "bool \<Rightarrow> string list" where
  "c_fpSelectForms selectorInReg = (if selectorInReg then [''rss'', ''rrs'', ''rsr''] else [''sss'', ''srs'', ''ssr''])"

definition Select_fp :: "compile_env \<Rightarrow> M3Compilation \<Rightarrow> u8 \<Rightarrow> (m3_op \<times> u16 list \<times> M3Compilation) result" where
  "Select_fp env o' type =
    tryR (if \<not> IsStackTopMinus1InRegister o' \<and> \<not> IsStackTopMinus2InRegister o'
          then PreserveRegister_at env o' type else Inr o') (\<lambda>o'.
      let selectorInReg = IsStackTopInRegister o'; slot = GetStackTopSlotNumber o' in
      tryR (Pop o') (\<lambda>o'.
      tryR (select_operand_slots [1, 2] 0 [slot, c_slotUnused, c_slotUnused] o') (\<lambda>(opIndex, slots, o').
        Inr (o_Select type (c_fpSelectForms selectorInReg ! opIndex), slots, o'))))"

definition Select_int :: "compile_env \<Rightarrow> M3Compilation \<Rightarrow> u8 \<Rightarrow> (m3_op \<times> u16 list \<times> M3Compilation) result" where
  "Select_int env o' type =
    tryR (if \<not> IsStackTopInRegister o' \<and> \<not> IsStackTopMinus1InRegister o' \<and> \<not> IsStackTopMinus2InRegister o'
          then PreserveRegister_at env o' type else Inr o') (\<lambda>o'.
    tryR (select_operand_slots [0, 1, 2] 3 [c_slotUnused, c_slotUnused, c_slotUnused] o') (\<lambda>(opIndex, slots, o').
      Inr (o_Select type (c_intSelectForms ! opIndex), slots, o')))"

text \<open>The code does not look at the result of the \<^verbatim>\<open>EmitOp\<close>.\<close>

definition emit_op_unchecked :: "compile_env \<Rightarrow> M3Compilation \<Rightarrow> m3_op \<Rightarrow> M3Compilation result" where
  "emit_op_unchecked env o' op = (case emit_op_at env o' op of Inl e \<Rightarrow> Inl C_undefined | Inr o' \<Rightarrow> Inr o')"

definition emit_valid_slots :: "u16 list \<Rightarrow> M3Compilation \<Rightarrow> M3Compilation" where
  "emit_valid_slots slots o' = foldl emit_slot o' (filter (\<lambda>s. unat s < d_m3MaxFunctionSlots) slots)"

definition Compile_Select :: "compile_env \<Rightarrow> M3Compilation \<Rightarrow> M3Compilation result" where
  "Compile_Select env o' =
    (let type = GetStackTypeFromTop o' 1 in
     tryR (if IsFpType type then Select_fp env o' type
           else if IsIntType type then Select_int env o' type
           else if \<not> IsStackPolymorphic o' then Inl m3Err_functionStackUnderrun
           else Inr (op_NULL, [], o')) (\<lambda>(op, slots, o').
     tryR (emit_op_unchecked env o' op) (\<lambda>o'.
       PushRegister (emit_valid_slots slots o') type)))"

definition Compile_Unreachable :: "compile_env \<Rightarrow> M3Compilation \<Rightarrow> M3Compilation result" where
  "Compile_Unreachable env o' = tryR (emit_op_at env o' o_Unreachable) SetStackPolymorphic"

section \<open>The table of operators\<close>

datatype M3Compiler =
    C_Unreachable | C_Nop | C_LoopOrBlock | C_If | C_End | C_Branch | C_BranchTable | C_Return | C_Call | C_CallIndirect
  | C_Drop | C_Select | C_GetLocal | C_SetLocal | C_GetSetGlobal | C_Load_Store | C_Memory_Size | C_Memory_Grow
  | C_Const_i32 | C_Const_i64 | C_Const_f32 | C_Const_f64 | C_Convert | C_Memory_CopyFill | C_ExtendedOpcode

record M3OpInfo =
  stackOffset :: int
  oi_type :: u8
  operations :: "m3_op list"
  compiler :: "M3Compiler option"

definition M3OP :: "int \<Rightarrow> u8 \<Rightarrow> m3_op list \<Rightarrow> M3Compiler option \<Rightarrow> M3OpInfo" where
  "M3OP off ty ops c = \<lparr>stackOffset = off, oi_type = ty, operations = ops, compiler = c\<rparr>"

definition d_emptyOpList :: "m3_op list" where
  "d_emptyOpList = [op_NULL, op_NULL, op_NULL, op_NULL]"

definition d_logOp :: "m3_op \<Rightarrow> m3_op list" where
  "d_logOp op = [op, op_NULL, op_NULL, op_NULL]"

definition d_logOp2 :: "m3_op \<Rightarrow> m3_op \<Rightarrow> m3_op list" where
  "d_logOp2 op1 op2 = [op1, op2, op_NULL, op_NULL]"

definition d_unaryOpList :: "string \<Rightarrow> string \<Rightarrow> m3_op list" where
  "d_unaryOpList ty nm = [o_Table ty nm ''r'', o_Table ty nm ''s'', op_NULL, op_NULL]"

definition d_binOpList :: "string \<Rightarrow> string \<Rightarrow> m3_op list" where
  "d_binOpList ty nm = [o_Table ty nm ''rs'', o_Table ty nm ''sr'', o_Table ty nm ''ss'', op_NULL]"

definition d_storeFpOpList :: "string \<Rightarrow> string \<Rightarrow> m3_op list" where
  "d_storeFpOpList ty nm = [o_Table ty nm ''rs'', o_Table ty nm ''sr'', o_Table ty nm ''ss'', o_Table ty nm ''rr'']"

definition d_commutativeBinOpList :: "string \<Rightarrow> string \<Rightarrow> m3_op list" where
  "d_commutativeBinOpList ty nm = [o_Table ty nm ''rs'', op_NULL, o_Table ty nm ''ss'', op_NULL]"

definition d_convertOpList :: "string \<Rightarrow> string \<Rightarrow> m3_op list" where
  "d_convertOpList ty nm = [o_Table ty nm ''r_r'', o_Table ty nm ''r_s'', o_Table ty nm ''s_r'', o_Table ty nm ''s_s'']"

text \<open>The element of a gap in the initialiser, and \<^verbatim>\<open>M3OP_RESERVED\<close>: all zero.\<close>

definition M3OP_RESERVED :: M3OpInfo where
  "M3OP_RESERVED = M3OP 0 0 d_emptyOpList None"

abbreviation (input) none :: u8 where "none \<equiv> 0"
abbreviation (input) any :: u8 where "any \<equiv> 0xFF"
abbreviation (input) i_32 :: u8 where "i_32 \<equiv> 1"
abbreviation (input) i_64 :: u8 where "i_64 \<equiv> 2"
abbreviation (input) f_32 :: u8 where "f_32 \<equiv> 3"
abbreviation (input) f_64 :: u8 where "f_64 \<equiv> 4"

text \<open>Opcodes 0x00 to 0x27.\<close>

definition ops_control :: "M3OpInfo list" where
  "ops_control = [
    M3OP 0 none (d_logOp o_Unreachable) (Some C_Unreachable),
    M3OP 0 none d_emptyOpList (Some C_Nop),
    M3OP 0 none d_emptyOpList (Some C_LoopOrBlock),
    M3OP 0 none (d_logOp o_Loop) (Some C_LoopOrBlock),
    M3OP (- 1) none d_emptyOpList (Some C_If),
    M3OP 0 none d_emptyOpList (Some C_Nop),
    M3OP_RESERVED,
    M3OP_RESERVED,
    M3OP_RESERVED,
    M3OP_RESERVED,
    M3OP_RESERVED,
    M3OP 0 none d_emptyOpList (Some C_End),
    M3OP 0 none (d_logOp o_Branch) (Some C_Branch),
    M3OP (- 1) none (d_logOp2 o_BranchIf_r o_BranchIf_s) (Some C_Branch),
    M3OP (- 1) none (d_logOp o_BranchTable) (Some C_BranchTable),
    M3OP 0 any (d_logOp op_Return) (Some C_Return),
    M3OP 0 any (d_logOp o_Call) (Some C_Call),
    M3OP 0 any (d_logOp o_CallIndirect) (Some C_CallIndirect),
    M3OP 0 any d_emptyOpList (Some C_Call),
    M3OP 0 any d_emptyOpList (Some C_CallIndirect),
    M3OP_RESERVED,
    M3OP_RESERVED,
    M3OP_RESERVED,
    M3OP_RESERVED,
    M3OP_RESERVED,
    M3OP_RESERVED,
    M3OP (- 1) none d_emptyOpList (Some C_Drop),
    M3OP (- 2) any d_emptyOpList (Some C_Select),
    M3OP_RESERVED,
    M3OP_RESERVED,
    M3OP_RESERVED,
    M3OP_RESERVED,
    M3OP 1 any d_emptyOpList (Some C_GetLocal),
    M3OP 1 none d_emptyOpList (Some C_SetLocal),
    M3OP 0 any d_emptyOpList (Some C_SetLocal),
    M3OP 1 none d_emptyOpList (Some C_GetSetGlobal),
    M3OP 1 none d_emptyOpList (Some C_GetSetGlobal),
    M3OP_RESERVED,
    M3OP_RESERVED,
    M3OP_RESERVED]"

text \<open>Opcodes 0x28 to 0x44.\<close>

definition ops_memory_const :: "M3OpInfo list" where
  "ops_memory_const = [
    M3OP 0 i_32 (d_unaryOpList ''i32'' ''Load_i32'') (Some C_Load_Store),
    M3OP 0 i_64 (d_unaryOpList ''i64'' ''Load_i64'') (Some C_Load_Store),
    M3OP 0 f_32 (d_unaryOpList ''f32'' ''Load_f32'') (Some C_Load_Store),
    M3OP 0 f_64 (d_unaryOpList ''f64'' ''Load_f64'') (Some C_Load_Store),
    M3OP 0 i_32 (d_unaryOpList ''i32'' ''Load_i8'') (Some C_Load_Store),
    M3OP 0 i_32 (d_unaryOpList ''i32'' ''Load_u8'') (Some C_Load_Store),
    M3OP 0 i_32 (d_unaryOpList ''i32'' ''Load_i16'') (Some C_Load_Store),
    M3OP 0 i_32 (d_unaryOpList ''i32'' ''Load_u16'') (Some C_Load_Store),
    M3OP 0 i_64 (d_unaryOpList ''i64'' ''Load_i8'') (Some C_Load_Store),
    M3OP 0 i_64 (d_unaryOpList ''i64'' ''Load_u8'') (Some C_Load_Store),
    M3OP 0 i_64 (d_unaryOpList ''i64'' ''Load_i16'') (Some C_Load_Store),
    M3OP 0 i_64 (d_unaryOpList ''i64'' ''Load_u16'') (Some C_Load_Store),
    M3OP 0 i_64 (d_unaryOpList ''i64'' ''Load_i32'') (Some C_Load_Store),
    M3OP 0 i_64 (d_unaryOpList ''i64'' ''Load_u32'') (Some C_Load_Store),
    M3OP (- 2) none (d_binOpList ''i32'' ''Store_i32'') (Some C_Load_Store),
    M3OP (- 2) none (d_binOpList ''i64'' ''Store_i64'') (Some C_Load_Store),
    M3OP (- 2) none (d_storeFpOpList ''f32'' ''Store_f32'') (Some C_Load_Store),
    M3OP (- 2) none (d_storeFpOpList ''f64'' ''Store_f64'') (Some C_Load_Store),
    M3OP (- 2) none (d_binOpList ''i32'' ''Store_u8'') (Some C_Load_Store),
    M3OP (- 2) none (d_binOpList ''i32'' ''Store_i16'') (Some C_Load_Store),
    M3OP (- 2) none (d_binOpList ''i64'' ''Store_u8'') (Some C_Load_Store),
    M3OP (- 2) none (d_binOpList ''i64'' ''Store_i16'') (Some C_Load_Store),
    M3OP (- 2) none (d_binOpList ''i64'' ''Store_i32'') (Some C_Load_Store),
    M3OP 1 i_32 (d_logOp o_MemSize) (Some C_Memory_Size),
    M3OP 1 i_32 (d_logOp o_MemGrow) (Some C_Memory_Grow),
    M3OP 1 i_32 (d_logOp op_Const32) (Some C_Const_i32),
    M3OP 1 i_64 (d_logOp op_Const64) (Some C_Const_i64),
    M3OP 1 f_32 d_emptyOpList (Some C_Const_f32),
    M3OP 1 f_64 d_emptyOpList (Some C_Const_f64)]"

text \<open>Opcodes 0x45 to 0x66.\<close>

definition ops_compare :: "M3OpInfo list" where
  "ops_compare = [
    M3OP 0 i_32 (d_unaryOpList ''i32'' ''EqualToZero'') None,
    M3OP (- 1) i_32 (d_commutativeBinOpList ''i32'' ''Equal'') None,
    M3OP (- 1) i_32 (d_commutativeBinOpList ''i32'' ''NotEqual'') None,
    M3OP (- 1) i_32 (d_binOpList ''i32'' ''LessThan'') None,
    M3OP (- 1) i_32 (d_binOpList ''u32'' ''LessThan'') None,
    M3OP (- 1) i_32 (d_binOpList ''i32'' ''GreaterThan'') None,
    M3OP (- 1) i_32 (d_binOpList ''u32'' ''GreaterThan'') None,
    M3OP (- 1) i_32 (d_binOpList ''i32'' ''LessThanOrEqual'') None,
    M3OP (- 1) i_32 (d_binOpList ''u32'' ''LessThanOrEqual'') None,
    M3OP (- 1) i_32 (d_binOpList ''i32'' ''GreaterThanOrEqual'') None,
    M3OP (- 1) i_32 (d_binOpList ''u32'' ''GreaterThanOrEqual'') None,
    M3OP 0 i_32 (d_unaryOpList ''i64'' ''EqualToZero'') None,
    M3OP (- 1) i_32 (d_commutativeBinOpList ''i64'' ''Equal'') None,
    M3OP (- 1) i_32 (d_commutativeBinOpList ''i64'' ''NotEqual'') None,
    M3OP (- 1) i_32 (d_binOpList ''i64'' ''LessThan'') None,
    M3OP (- 1) i_32 (d_binOpList ''u64'' ''LessThan'') None,
    M3OP (- 1) i_32 (d_binOpList ''i64'' ''GreaterThan'') None,
    M3OP (- 1) i_32 (d_binOpList ''u64'' ''GreaterThan'') None,
    M3OP (- 1) i_32 (d_binOpList ''i64'' ''LessThanOrEqual'') None,
    M3OP (- 1) i_32 (d_binOpList ''u64'' ''LessThanOrEqual'') None,
    M3OP (- 1) i_32 (d_binOpList ''i64'' ''GreaterThanOrEqual'') None,
    M3OP (- 1) i_32 (d_binOpList ''u64'' ''GreaterThanOrEqual'') None,
    M3OP (- 1) i_32 (d_commutativeBinOpList ''f32'' ''Equal'') None,
    M3OP (- 1) i_32 (d_commutativeBinOpList ''f32'' ''NotEqual'') None,
    M3OP (- 1) i_32 (d_binOpList ''f32'' ''LessThan'') None,
    M3OP (- 1) i_32 (d_binOpList ''f32'' ''GreaterThan'') None,
    M3OP (- 1) i_32 (d_binOpList ''f32'' ''LessThanOrEqual'') None,
    M3OP (- 1) i_32 (d_binOpList ''f32'' ''GreaterThanOrEqual'') None,
    M3OP (- 1) i_32 (d_commutativeBinOpList ''f64'' ''Equal'') None,
    M3OP (- 1) i_32 (d_commutativeBinOpList ''f64'' ''NotEqual'') None,
    M3OP (- 1) i_32 (d_binOpList ''f64'' ''LessThan'') None,
    M3OP (- 1) i_32 (d_binOpList ''f64'' ''GreaterThan'') None,
    M3OP (- 1) i_32 (d_binOpList ''f64'' ''LessThanOrEqual'') None,
    M3OP (- 1) i_32 (d_binOpList ''f64'' ''GreaterThanOrEqual'') None]"

text \<open>Opcodes 0x67 to 0x8a.\<close>

definition ops_int :: "M3OpInfo list" where
  "ops_int = [
    M3OP 0 i_32 (d_unaryOpList ''u32'' ''Clz'') None,
    M3OP 0 i_32 (d_unaryOpList ''u32'' ''Ctz'') None,
    M3OP 0 i_32 (d_unaryOpList ''u32'' ''Popcnt'') None,
    M3OP (- 1) i_32 (d_commutativeBinOpList ''i32'' ''Add'') None,
    M3OP (- 1) i_32 (d_binOpList ''i32'' ''Subtract'') None,
    M3OP (- 1) i_32 (d_commutativeBinOpList ''i32'' ''Multiply'') None,
    M3OP (- 1) i_32 (d_binOpList ''i32'' ''Divide'') None,
    M3OP (- 1) i_32 (d_binOpList ''u32'' ''Divide'') None,
    M3OP (- 1) i_32 (d_binOpList ''i32'' ''Remainder'') None,
    M3OP (- 1) i_32 (d_binOpList ''u32'' ''Remainder'') None,
    M3OP (- 1) i_32 (d_commutativeBinOpList ''u32'' ''And'') None,
    M3OP (- 1) i_32 (d_commutativeBinOpList ''u32'' ''Or'') None,
    M3OP (- 1) i_32 (d_commutativeBinOpList ''u32'' ''Xor'') None,
    M3OP (- 1) i_32 (d_binOpList ''u32'' ''ShiftLeft'') None,
    M3OP (- 1) i_32 (d_binOpList ''i32'' ''ShiftRight'') None,
    M3OP (- 1) i_32 (d_binOpList ''u32'' ''ShiftRight'') None,
    M3OP (- 1) i_32 (d_binOpList ''u32'' ''Rotl'') None,
    M3OP (- 1) i_32 (d_binOpList ''u32'' ''Rotr'') None,
    M3OP 0 i_64 (d_unaryOpList ''u64'' ''Clz'') None,
    M3OP 0 i_64 (d_unaryOpList ''u64'' ''Ctz'') None,
    M3OP 0 i_64 (d_unaryOpList ''u64'' ''Popcnt'') None,
    M3OP (- 1) i_64 (d_commutativeBinOpList ''i64'' ''Add'') None,
    M3OP (- 1) i_64 (d_binOpList ''i64'' ''Subtract'') None,
    M3OP (- 1) i_64 (d_commutativeBinOpList ''i64'' ''Multiply'') None,
    M3OP (- 1) i_64 (d_binOpList ''i64'' ''Divide'') None,
    M3OP (- 1) i_64 (d_binOpList ''u64'' ''Divide'') None,
    M3OP (- 1) i_64 (d_binOpList ''i64'' ''Remainder'') None,
    M3OP (- 1) i_64 (d_binOpList ''u64'' ''Remainder'') None,
    M3OP (- 1) i_64 (d_commutativeBinOpList ''u64'' ''And'') None,
    M3OP (- 1) i_64 (d_commutativeBinOpList ''u64'' ''Or'') None,
    M3OP (- 1) i_64 (d_commutativeBinOpList ''u64'' ''Xor'') None,
    M3OP (- 1) i_64 (d_binOpList ''u64'' ''ShiftLeft'') None,
    M3OP (- 1) i_64 (d_binOpList ''i64'' ''ShiftRight'') None,
    M3OP (- 1) i_64 (d_binOpList ''u64'' ''ShiftRight'') None,
    M3OP (- 1) i_64 (d_binOpList ''u64'' ''Rotl'') None,
    M3OP (- 1) i_64 (d_binOpList ''u64'' ''Rotr'') None]"

text \<open>Opcodes 0x8b to 0xa6.\<close>

definition ops_float :: "M3OpInfo list" where
  "ops_float = [
    M3OP 0 f_32 (d_unaryOpList ''f32'' ''Abs'') None,
    M3OP 0 f_32 (d_unaryOpList ''f32'' ''Negate'') None,
    M3OP 0 f_32 (d_unaryOpList ''f32'' ''Ceil'') None,
    M3OP 0 f_32 (d_unaryOpList ''f32'' ''Floor'') None,
    M3OP 0 f_32 (d_unaryOpList ''f32'' ''Trunc'') None,
    M3OP 0 f_32 (d_unaryOpList ''f32'' ''Nearest'') None,
    M3OP 0 f_32 (d_unaryOpList ''f32'' ''Sqrt'') None,
    M3OP (- 1) f_32 (d_commutativeBinOpList ''f32'' ''Add'') None,
    M3OP (- 1) f_32 (d_binOpList ''f32'' ''Subtract'') None,
    M3OP (- 1) f_32 (d_commutativeBinOpList ''f32'' ''Multiply'') None,
    M3OP (- 1) f_32 (d_binOpList ''f32'' ''Divide'') None,
    M3OP (- 1) f_32 (d_commutativeBinOpList ''f32'' ''Min'') None,
    M3OP (- 1) f_32 (d_commutativeBinOpList ''f32'' ''Max'') None,
    M3OP (- 1) f_32 (d_binOpList ''f32'' ''CopySign'') None,
    M3OP 0 f_64 (d_unaryOpList ''f64'' ''Abs'') None,
    M3OP 0 f_64 (d_unaryOpList ''f64'' ''Negate'') None,
    M3OP 0 f_64 (d_unaryOpList ''f64'' ''Ceil'') None,
    M3OP 0 f_64 (d_unaryOpList ''f64'' ''Floor'') None,
    M3OP 0 f_64 (d_unaryOpList ''f64'' ''Trunc'') None,
    M3OP 0 f_64 (d_unaryOpList ''f64'' ''Nearest'') None,
    M3OP 0 f_64 (d_unaryOpList ''f64'' ''Sqrt'') None,
    M3OP (- 1) f_64 (d_commutativeBinOpList ''f64'' ''Add'') None,
    M3OP (- 1) f_64 (d_binOpList ''f64'' ''Subtract'') None,
    M3OP (- 1) f_64 (d_commutativeBinOpList ''f64'' ''Multiply'') None,
    M3OP (- 1) f_64 (d_binOpList ''f64'' ''Divide'') None,
    M3OP (- 1) f_64 (d_commutativeBinOpList ''f64'' ''Min'') None,
    M3OP (- 1) f_64 (d_commutativeBinOpList ''f64'' ''Max'') None,
    M3OP (- 1) f_64 (d_binOpList ''f64'' ''CopySign'') None]"

text \<open>Opcodes 0xa7 to 0xc4.\<close>

definition ops_convert :: "M3OpInfo list" where
  "ops_convert = [
    M3OP 0 i_32 (d_unaryOpList ''i32'' ''Wrap_i64'') None,
    M3OP 0 i_32 (d_convertOpList ''i32'' ''Trunc_f32'') (Some C_Convert),
    M3OP 0 i_32 (d_convertOpList ''u32'' ''Trunc_f32'') (Some C_Convert),
    M3OP 0 i_32 (d_convertOpList ''i32'' ''Trunc_f64'') (Some C_Convert),
    M3OP 0 i_32 (d_convertOpList ''u32'' ''Trunc_f64'') (Some C_Convert),
    M3OP 0 i_64 (d_unaryOpList ''i64'' ''Extend_i32'') None,
    M3OP 0 i_64 (d_unaryOpList ''i64'' ''Extend_u32'') None,
    M3OP 0 i_64 (d_convertOpList ''i64'' ''Trunc_f32'') (Some C_Convert),
    M3OP 0 i_64 (d_convertOpList ''u64'' ''Trunc_f32'') (Some C_Convert),
    M3OP 0 i_64 (d_convertOpList ''i64'' ''Trunc_f64'') (Some C_Convert),
    M3OP 0 i_64 (d_convertOpList ''u64'' ''Trunc_f64'') (Some C_Convert),
    M3OP 0 f_32 (d_convertOpList ''f32'' ''Convert_i32'') (Some C_Convert),
    M3OP 0 f_32 (d_convertOpList ''f32'' ''Convert_u32'') (Some C_Convert),
    M3OP 0 f_32 (d_convertOpList ''f32'' ''Convert_i64'') (Some C_Convert),
    M3OP 0 f_32 (d_convertOpList ''f32'' ''Convert_u64'') (Some C_Convert),
    M3OP 0 f_32 (d_unaryOpList ''f32'' ''Demote_f64'') None,
    M3OP 0 f_64 (d_convertOpList ''f64'' ''Convert_i32'') (Some C_Convert),
    M3OP 0 f_64 (d_convertOpList ''f64'' ''Convert_u32'') (Some C_Convert),
    M3OP 0 f_64 (d_convertOpList ''f64'' ''Convert_i64'') (Some C_Convert),
    M3OP 0 f_64 (d_convertOpList ''f64'' ''Convert_u64'') (Some C_Convert),
    M3OP 0 f_64 (d_unaryOpList ''f64'' ''Promote_f32'') None,
    M3OP 0 i_32 (d_convertOpList ''i32'' ''Reinterpret_f32'') (Some C_Convert),
    M3OP 0 i_64 (d_convertOpList ''i64'' ''Reinterpret_f64'') (Some C_Convert),
    M3OP 0 f_32 (d_convertOpList ''f32'' ''Reinterpret_i32'') (Some C_Convert),
    M3OP 0 f_64 (d_convertOpList ''f64'' ''Reinterpret_i64'') (Some C_Convert),
    M3OP 0 i_32 (d_unaryOpList ''i32'' ''Extend8_s'') None,
    M3OP 0 i_32 (d_unaryOpList ''i32'' ''Extend16_s'') None,
    M3OP 0 i_64 (d_unaryOpList ''i64'' ''Extend8_s'') None,
    M3OP 0 i_64 (d_unaryOpList ''i64'' ''Extend16_s'') None,
    M3OP 0 i_64 (d_unaryOpList ''i64'' ''Extend32_s'') None]"

definition c_operationsFC :: "M3OpInfo list" where
  "c_operationsFC = [
    M3OP 0 i_32 (d_convertOpList ''i32'' ''TruncSat_f32'') (Some C_Convert),
    M3OP 0 i_32 (d_convertOpList ''u32'' ''TruncSat_f32'') (Some C_Convert),
    M3OP 0 i_32 (d_convertOpList ''i32'' ''TruncSat_f64'') (Some C_Convert),
    M3OP 0 i_32 (d_convertOpList ''u32'' ''TruncSat_f64'') (Some C_Convert),
    M3OP 0 i_64 (d_convertOpList ''i64'' ''TruncSat_f32'') (Some C_Convert),
    M3OP 0 i_64 (d_convertOpList ''u64'' ''TruncSat_f32'') (Some C_Convert),
    M3OP 0 i_64 (d_convertOpList ''i64'' ''TruncSat_f64'') (Some C_Convert),
    M3OP 0 i_64 (d_convertOpList ''u64'' ''TruncSat_f64'') (Some C_Convert),
    M3OP_RESERVED,
    M3OP_RESERVED,
    M3OP 0 none d_emptyOpList (Some C_Memory_CopyFill),
    M3OP 0 none d_emptyOpList (Some C_Memory_CopyFill)]"

definition c_operations :: "M3OpInfo list" where
  "c_operations = ops_control @ ops_memory_const @ ops_compare @ ops_int @ ops_float @ ops_convert"

text \<open>The array ends with the element for \<^verbatim>\<open>c_waOp_extended\<close>, 0xfc.\<close>

definition GetOpInfo :: "u16 \<Rightarrow> M3OpInfo option" where
  "GetOpInfo opcode =
    (if drop_bit 8 opcode = 0 then
       if unat opcode < length c_operations then Some (c_operations ! unat opcode)
       else if opcode < 0xfc then Some M3OP_RESERVED
       else if opcode = 0xfc then Some (M3OP 0 c_m3Type_unknown d_emptyOpList (Some C_ExtendedOpcode))
       else None
     else if drop_bit 8 opcode = 0xfc then
       if unat (opcode AND 0xFF) < length c_operationsFC then Some (c_operationsFC ! unat (opcode AND 0xFF)) else None
     else None)"

section \<open>Operators\<close>

text \<open>The operation for the places of the operands, after moving what is in the way.\<close>

definition select_operation :: "compile_env \<Rightarrow> M3OpInfo \<Rightarrow> M3Compilation \<Rightarrow> (m3_op \<times> M3Compilation) result" where
  "select_operation env opInfo o' =
    (if stackOffset opInfo = 0 then
       if IsStackTopInRegister o' then Inr (operations opInfo ! 0, o')
       else tryR (PreserveRegister_at env o' (oi_type opInfo)) (\<lambda>o'. Inr (operations opInfo ! 1, o'))
     else if IsStackTopInRegister o' then
       Inr (operations opInfo ! (if IsStackTopMinus1InRegister o' then 3 else 0), o')
     else if IsStackTopMinus1InRegister o' then
       Inr (if operations opInfo ! 1 \<noteq> op_NULL then operations opInfo ! 1 else operations opInfo ! 0, o')
     else tryR (PreserveRegister_at env o' (oi_type opInfo)) (\<lambda>o'. Inr (operations opInfo ! 2, o')))"

definition Compile_Operator :: "compile_env \<Rightarrow> M3Compilation \<Rightarrow> u16 \<Rightarrow> M3Compilation result" where
  "Compile_Operator env o' i_opcode =
    (case GetOpInfo i_opcode of
       None \<Rightarrow> Inl m3Err_unknownOpcode
     | Some opInfo \<Rightarrow>
         tryR (if IsFpType (GetStackTopType o') \<and> IsIntType (oi_type opInfo)
               then PreserveRegister_at env o' (oi_type opInfo) else Inr o') (\<lambda>o'.
         tryR (select_operation env opInfo o') (\<lambda>(op, o').
         throwif (M3Msg ''no operation found for opcode'') (op = op_NULL)
         (tryR (emit_op_at env o' op) (\<lambda>o'.
          tryR (EmitSlotNumOfStackTopAndPop o') (\<lambda>o'.
          tryR (if stackOffset opInfo < 0 then EmitSlotNumOfStackTopAndPop o' else Inr o') (\<lambda>o'.
            if oi_type opInfo \<noteq> c_m3Type_none then PushRegister o' (oi_type opInfo) else Inr o')))))))"

definition Compile_Convert :: "compile_env \<Rightarrow> M3Compilation \<Rightarrow> u16 \<Rightarrow> M3Compilation result" where
  "Compile_Convert env o' i_opcode =
    (case GetOpInfo i_opcode of
       None \<Rightarrow> Inl m3Err_unknownOpcode
     | Some opInfo \<Rightarrow>
         let destInSlot = IsRegisterTypeAllocated o' (oi_type opInfo); sourceInSlot = IsStackTopInSlot o' in
         tryR (emit_op_at env o' (operations opInfo ! ((if destInSlot then 2 else 0) + (if sourceInSlot then 1 else 0)))) (\<lambda>o'.
         tryR (EmitSlotNumOfStackTopAndPop o') (\<lambda>o'.
           if destInSlot then PushAllocatedSlotAndEmit o' (oi_type opInfo) else PushRegister o' (oi_type opInfo))))"

definition Compile_Load_Store :: "compile_env \<Rightarrow> M3Compilation \<Rightarrow> u16 \<Rightarrow> M3Compilation result" where
  "Compile_Load_Store env o' i_opcode =
    tryR (read_u32 env o') (\<lambda>(alignHint, o').
    tryR (read_u32 env o') (\<lambda>(memoryOffset, o').
    case GetOpInfo i_opcode of
      None \<Rightarrow> Inl m3Err_unknownOpcode
    | Some opInfo \<Rightarrow>
        tryR (if IsFpType (oi_type opInfo) then PreserveRegister_at env o' c_m3Type_f64 else Inr o') (\<lambda>o'.
        tryR (Compile_Operator env o' i_opcode) (\<lambda>o'.
          Inr (emit_word o' (W_32 memoryOffset))))))"

section \<open>The compilers that do not compile a block\<close>

definition compile_leaf :: "compile_env \<Rightarrow> M3Compiler \<Rightarrow> u16 \<Rightarrow> M3Compilation \<Rightarrow> M3Compilation result" where
  "compile_leaf env c opcode o' =
    (case c of
       C_Unreachable \<Rightarrow> Compile_Unreachable env o'
     | C_Nop \<Rightarrow> Inr o'
     | C_End \<Rightarrow> Compile_End env o'
     | C_Branch \<Rightarrow> Compile_Branch env o' opcode
     | C_BranchTable \<Rightarrow> Compile_BranchTable env o'
     | C_Return \<Rightarrow> Compile_Return env o'
     | C_Call \<Rightarrow> Compile_Call env o'
     | C_CallIndirect \<Rightarrow> Compile_CallIndirect env o'
     | C_Drop \<Rightarrow> Pop o'
     | C_Select \<Rightarrow> Compile_Select env o'
     | C_GetLocal \<Rightarrow> Compile_GetLocal env o'
     | C_SetLocal \<Rightarrow> Compile_SetLocal env o' opcode
     | C_GetSetGlobal \<Rightarrow> Compile_GetSetGlobal (ce_page_ok env) (ce_module env) (ce_wasm env) o' opcode
     | C_Load_Store \<Rightarrow> Compile_Load_Store env o' opcode
     | C_Memory_Size \<Rightarrow> Compile_Memory_Size env o'
     | C_Memory_Grow \<Rightarrow> Compile_Memory_Grow env o'
     | C_Const_i32 \<Rightarrow> Compile_Const_i32 (ce_page_ok env) (ce_wasm env) o'
     | C_Const_i64 \<Rightarrow> Compile_Const_i64 (ce_page_ok env) (ce_wasm env) o'
     | C_Const_f32 \<Rightarrow> Compile_Const_f32 (ce_page_ok env) (ce_wasm env) o'
     | C_Const_f64 \<Rightarrow> Compile_Const_f64 (ce_page_ok env) (ce_wasm env) o'
     | C_Convert \<Rightarrow> Compile_Convert env o' opcode
     | C_Memory_CopyFill \<Rightarrow> Compile_Memory_CopyFill env o' opcode
     | C_LoopOrBlock \<Rightarrow> Inl C_undefined
     | C_If \<Rightarrow> Inl C_undefined
     | C_ExtendedOpcode \<Rightarrow> Inl C_undefined)"

text \<open>The extended table names only compilers of this kind.\<close>

definition Compile_ExtendedOpcode :: "compile_env \<Rightarrow> M3Compilation \<Rightarrow> u16 \<Rightarrow> M3Compilation result" where
  "Compile_ExtendedOpcode env o' i_opcode =
    tryR (read_with Read_u8 env o') (\<lambda>(opcode, o').
      let i_opcode = push_bit 8 i_opcode OR ucast opcode in
      case GetOpInfo i_opcode of
        None \<Rightarrow> Inl m3Err_unknownOpcode
      | Some opInfo \<Rightarrow>
          (case compiler opInfo of
             None \<Rightarrow> Inl m3Err_noCompiler
           | Some c \<Rightarrow> tryR (compile_leaf env c i_opcode o') (\<lambda>o'. Inr (o'\<lparr>previousOpcode := i_opcode\<rparr>))))"

end
