(* ===== verification/M3_Blocks.thy ===== *)
theory M3_Blocks
  imports M3_Opcodes
begin

text \<open>
  Blocks and functions, \<^verbatim>\<open>src/m3_compile.c\<close> from \<^verbatim>\<open>ReadBlockType\<close> to \<^verbatim>\<open>CompileFunction\<close>. Statements,
  blocks and the opcodes that open a block call each other; \<open>CompileBlockStatements\<close> has fuel, one
  unit per statement on a path of nested calls, and the others take its continuation as an argument.
  \<open>None\<close> is a compilation whose fuel is used up (theory \<open>M3_Blocks_Props\<close>: more fuel than bytes is
  always enough).
\<close>

type_synonym statements = "M3Compilation \<Rightarrow> M3Compilation result option"

definition tryO :: "'a result option \<Rightarrow> ('a \<Rightarrow> 'b result option) \<Rightarrow> 'b result option" where
  "tryO m f = (case m of None \<Rightarrow> None | Some (Inl e) \<Rightarrow> Some (Inl e) | Some (Inr x) \<Rightarrow> f x)"

section \<open>Opening a block\<close>

definition ReadBlockType :: "compile_env \<Rightarrow> M3Compilation \<Rightarrow> (M3FuncType option \<times> M3Compilation) result" where
  "ReadBlockType env o' =
    tryR (read_with (\<lambda>w p e. checked (ReadLebSigned 33 w p e)) env o') (\<lambda>(type, o').
      if sint type < 0 then
        (case NormalizeType (ucast type) of
           (Some e, valueType) \<Rightarrow> Inl e
         | (None, valueType) \<Rightarrow>
             throwif C_undefined (unat valueType \<ge> length (retFuncTypes (ce_environment env)))
               (Inr (type_of env (Some (retFuncTypes (ce_environment env) ! unat valueType)), o')))
      else
        throwif (M3Msg ''func type out of bounds'') (sint type \<ge> uint (numFuncTypes (ce_module env)))
        (throwif C_undefined (unat type \<ge> length (m_funcTypes (ce_module env)))
          (Inr (type_of env (m_funcTypes (ce_module env) ! unat type), o'))))"

text \<open>The code does not look at the result of its \<^verbatim>\<open>EmitOp\<close>.\<close>

primrec PreserveArgs_loop :: "compile_env \<Rightarrow> nat list \<Rightarrow> M3Compilation \<Rightarrow> M3Compilation result" where
  "PreserveArgs_loop env [] o' = Inr o'"
| "PreserveArgs_loop env (i # is) o' =
    (let slot = GetSlotForStackIndex o' (of_nat i) in
     tryR (FindReferencedLocalWithinCurrentBlock o' slot) (\<lambda>(preservedSlotNumber, o').
     tryR (if preservedSlotNumber \<noteq> slot then
             tryR (emit_op_unchecked env o'
                     (if Is64BitType (GetStackTypeFromBottom o' (of_nat i)) then op_CopySlot_64 else op_CopySlot_32)) (\<lambda>o'.
               Inr (emit_slot (emit_slot o' preservedSlotNumber) slot))
           else Inr o') (PreserveArgs_loop env is)))"

definition PreserveArgsAndLocals :: "compile_env \<Rightarrow> M3Compilation \<Rightarrow> M3Compilation result" where
  "PreserveArgsAndLocals env o' =
    (if stackIndex o' > stackFirstDynamicIndex o'
     then PreserveArgs_loop env [0 ..< unat (NumArgsAndLocals env o')] o' else Inr o')"

section \<open>Blocks\<close>

primrec pop_params :: "M3FuncType option \<Rightarrow> nat list \<Rightarrow> M3Compilation \<Rightarrow> M3Compilation result" where
  "pop_params ft [] o' = Inr o'"
| "pop_params ft (i # is) o' =
    tryR (PopType o' (GetFuncTypeParamType ft (GetFuncTypeNumParams ft - 1 - of_nat i))) (pop_params ft is)"

definition result_types :: "M3FuncType option \<Rightarrow> u8 list" where
  "result_types ft = map (\<lambda>i. GetFuncTypeResultType ft (of_nat i)) [0 ..< unat (GetFuncTypeNumResults ft)]"

text \<open>
  \<^verbatim>\<open>PushBlockResults\<close> where its error is dropped: the results before the one that finds no slots stay
  pushed. A push onto a full stack leaves \<^verbatim>\<open>stackIndex\<close> outside the arrays, where the pops that follow read.
\<close>

fun PushBlockResults_unchecked :: "M3Compilation \<Rightarrow> u8 list \<Rightarrow> M3Compilation result" where
  "PushBlockResults_unchecked o' [] = Inr o'"
| "PushBlockResults_unchecked o' (type # rets) =
    (if rets = [] \<and> IsFpType type then
       (case PushRegister o' type of Inl e \<Rightarrow> Inl C_undefined | Inr o' \<Rightarrow> Inr o')
     else (case AllocateSlots o' type of
         Inl e \<Rightarrow> if e = C_undefined then Inl e else Inr o'
       | Inr (slot, o') \<Rightarrow> (case Push o' type slot of
           Inl e \<Rightarrow> Inl C_undefined
         | Inr o' \<Rightarrow> PushBlockResults_unchecked o' rets)))"

text \<open>\<^verbatim>\<open>Pop\<close> where its error is dropped: an underrun leaves the stack as it is.\<close>

primrec pop_n_unchecked :: "nat \<Rightarrow> M3Compilation \<Rightarrow> M3Compilation result" where
  "pop_n_unchecked 0 o' = Inr o'"
| "pop_n_unchecked (Suc n) o' =
    (case Pop o' of Inl e \<Rightarrow> if e = C_undefined then Inl e else pop_n_unchecked n o' | Inr o' \<Rightarrow> pop_n_unchecked n o')"

text \<open>The parameters, from their records at \<open>paramIndex\<close>, as active entries.\<close>

primrec push_params :: "M3FuncType option \<Rightarrow> u16 \<Rightarrow> nat list \<Rightarrow> M3Compilation \<Rightarrow> M3Compilation result" where
  "push_params ft paramIndex [] o' = Inr o'"
| "push_params ft paramIndex (i # is) o' =
    (let type = GetFuncTypeParamType ft (of_nat i);
         slot = GetSlotForStackIndex o' (paramIndex + of_nat i) in
     case Push o' type slot of
       Inl e \<Rightarrow> Inl C_undefined
     | Inr o' \<Rightarrow>
         tryR (if slot \<ge> slotFirstDynamicIndex o' \<and> slot \<noteq> c_slotUnused
               then MarkSlotsAllocatedByType o' slot type else Inr o') (push_params ft paramIndex is))"

text \<open>\<^verbatim>\<open>CompileBlock\<close> up to its statements.\<close>

definition enter_block :: "compile_env \<Rightarrow> M3Compilation \<Rightarrow> M3FuncType option \<Rightarrow> u16 \<Rightarrow> M3Compilation result" where
  "enter_block env o' i_blockType i_blockOpcode =
    (let outerScope = block o';
         o' = o'\<lparr>outer := outerScope # outer o',
                 block := outerScope\<lparr>sc_pc := GetPC o', patches := None, sc_type := i_blockType,
                                     depth := depth outerScope + 1, sc_opcode := i_blockOpcode\<rparr>\<rparr>;
         si = stackIndex o';
         numParams = GetFuncTypeNumParams i_blockType;
         numResults = GetFuncTypeNumResults i_blockType in
     tryR (if i_blockOpcode \<noteq> c_waOp_else then pop_params i_blockType [0 ..< unat numParams] o'
           else if IsStackPolymorphic o' \<and> unat (blockStackIndex (block o')) + unat numParams > unat (stackIndex o')
           then Inr (o'\<lparr>stackIndex := blockStackIndex (block o')\<rparr>)
           else Inr (o'\<lparr>stackIndex := stackIndex o' - numParams\<rparr>)) (\<lambda>o'.
     let paramIndex = stackIndex o';
         o' = o'\<lparr>block := (block o')\<lparr>exitStackIndex := paramIndex\<rparr>, stackIndex := si\<rparr> in
     tryR (PushBlockResults_unchecked o' (result_types i_blockType)) (\<lambda>o'.
     let si = stackIndex o' in
     tryR (pop_n_unchecked (unat numResults) o') (\<lambda>o'.
     let o' = o'\<lparr>stackIndex := si, block := (block o')\<lparr>blockStackIndex := si\<rparr>\<rparr> in
       push_params i_blockType paramIndex [0 ..< unat numParams] o'))))"

text \<open>
  \<^verbatim>\<open>CompileBlock\<close> behind its statements. The loop \<^verbatim>\<open>while (numResults--)\<close> has left 65535 in
  \<^verbatim>\<open>numResults\<close>, so that the test \<^verbatim>\<open>i_blockOpcode == c_waOp_if and numResults\<close> is one of the opcode.
\<close>

definition leave_block :: "compile_env \<Rightarrow> M3Compilation \<Rightarrow> u16 \<Rightarrow> M3Compilation result" where
  "leave_block env o' i_blockOpcode =
    tryR (if co_function o' \<noteq> None then
            tryR (if \<not> IsStackPolymorphic o' then ResolveBlockResults env o' 0 False else Inr o') (\<lambda>o'.
            tryR (UnwindBlockStack o') (\<lambda>o'.
              let numResults = - 1 :: u16 in
              if \<not> (i_blockOpcode = c_waOp_if \<and> numResults \<noteq> 0 \<or> previousOpcode o' = c_waOp_else)
              then PushBlockResults (o'\<lparr>stackIndex := exitStackIndex (block o')\<rparr>) (result_types (sc_type (block o')))
              else Inr o'))
          else Inr o') (\<lambda>o'.
    tryR (PatchBranches o') (\<lambda>o'.
      Inr (o'\<lparr>block := hd (outer o'), outer := tl (outer o')\<rparr>)))"

definition CompileBlock :: "statements \<Rightarrow> compile_env \<Rightarrow> M3Compilation \<Rightarrow> M3FuncType option \<Rightarrow> u16 \<Rightarrow> M3Compilation result option" where
  "CompileBlock stmts env o' i_blockType i_blockOpcode =
    tryO (Some (enter_block env o' i_blockType i_blockOpcode)) (\<lambda>o'.
    tryO (stmts o') (\<lambda>o'.
      Some (leave_block env o' i_blockOpcode)))"

text \<open>A constant among the parameters of a loop is copied to a slot of its own.\<close>

primrec instantiate_constants :: "compile_env \<Rightarrow> nat list \<Rightarrow> M3Compilation \<Rightarrow> M3Compilation result" where
  "instantiate_constants env [] o' = Inr o'"
| "instantiate_constants env (i # is) o' =
    (let slot = GetSlotForStackIndex o' (of_nat i); type = GetStackTypeFromBottom o' (of_nat i) in
     tryR (if IsConstantSlot o' slot then
             tryR (AllocateSlots o' type) (\<lambda>(newSlot, o').
             tryR (CopyStackIndexToSlot env o' newSlot (of_nat i)) (\<lambda>o'.
               Inr (o'\<lparr>wasmStack := (wasmStack o')(i := newSlot)\<rparr>)))
           else Inr o') (instantiate_constants env is))"

definition Compile_LoopOrBlock :: "statements \<Rightarrow> compile_env \<Rightarrow> M3Compilation \<Rightarrow> u16 \<Rightarrow> M3Compilation result option" where
  "Compile_LoopOrBlock stmts env o' i_opcode =
    tryO (Some (tryR (PreserveRegisters (ce_page_ok env) o') (\<lambda>o'.
                tryR (PreserveArgsAndLocals env o') (ReadBlockType env)))) (\<lambda>(blockType, o').
    tryO (Some (if i_opcode = c_waOp_loop then
                  let numParams = GetFuncTypeNumParams blockType;
                      numValues = GetNumBlockValuesOnStack o';
                      stackTop = unat (word_of_int (GetStackTopIndex o') + 1 :: u16) in
                  tryR (if numParams \<noteq> 0 \<and> numValues \<ge> numParams
                        then instantiate_constants env [stackTop - unat numParams ..< stackTop] o' else Inr o') (\<lambda>o'.
                    emit_op_at env o' o_Loop)
                else Inr o')) (\<lambda>o'.
      CompileBlock stmts env o' blockType i_opcode))"

text \<open>The position of the else block, and the state back on the page of the if.\<close>

definition CompileElseBlock ::
    "statements \<Rightarrow> compile_env \<Rightarrow> M3Compilation \<Rightarrow> M3FuncType option \<Rightarrow> (pc_t option \<times> M3Compilation) result option" where
  "CompileElseBlock stmts env o' i_blockType =
    (let savedPage = cur_page o'; endPC = GetPC o' in
     tryO (Some (AcquireCompilationPage env o')) (\<lambda>(elsePage, o').
       let o' = use_page elsePage o'; startPC = GetPC o' in
       tryO (CompileBlock stmts env o' i_blockType c_waOp_else) (\<lambda>o'.
       tryO (Some (emit_op_at env o' o_Branch)) (\<lambda>o'.
         Some (Inr (startPC, use_page savedPage (emit_word o' (W_pc endPC))))))))"

definition Compile_If :: "statements \<Rightarrow> compile_env \<Rightarrow> M3Compilation \<Rightarrow> u16 \<Rightarrow> M3Compilation result option" where
  "Compile_If stmts env o' i_opcode =
    tryO (Some (tryR (PreserveNonTopRegisters (ce_page_ok env) o') (\<lambda>o'.
                tryR (PreserveArgsAndLocals env o') (\<lambda>o'.
                tryR (emit_op_at env o' (if IsStackTopInRegister o' then o_If_r else o_If_s)) (\<lambda>o'.
                tryR (EmitSlotNumOfStackTopAndPop o') (\<lambda>o'.
                  let (pc, o') = ReserveBranch o' in
                  tryR (ReadBlockType env o') (\<lambda>(blockType, o'). Inr (pc, blockType, o')))))))) (\<lambda>(pc, blockType, o').
    let si = stackIndex o' in
    tryO (CompileBlock stmts env o' blockType i_opcode) (\<lambda>o'.
      if previousOpcode o' = c_waOp_else then
        tryO (CompileElseBlock stmts env (o'\<lparr>stackIndex := si\<rparr>) blockType) (\<lambda>(startPC, o').
          Some (Inr (set_reserved pc (W_pc startPC) o')))
      else if GetFuncTypeNumResults blockType \<noteq> 0 then
        tryO (CompileElseBlock stmts env (o'\<lparr>co_wasm := co_wasm o' - 1, stackIndex := si\<rparr>) blockType) (\<lambda>(startPC, o').
          Some (Inr (set_reserved pc (W_pc startPC) o')))
      else Some (Inr (set_reserved pc (W_pc (GetPC o')) o'))))"

section \<open>Statements\<close>

definition compile_statement :: "statements \<Rightarrow> compile_env \<Rightarrow> M3Compilation \<Rightarrow> u16 \<Rightarrow> M3Compilation result option" where
  "compile_statement stmts env o' opcode =
    (case GetOpInfo opcode of
       None \<Rightarrow> Some (Inl m3Err_unknownOpcode)
     | Some opinfo \<Rightarrow>
         (case compiler opinfo of
            None \<Rightarrow> Some (Compile_Operator env o' opcode)
          | Some c \<Rightarrow>
              if c = C_LoopOrBlock then Compile_LoopOrBlock stmts env o' opcode
              else if c = C_If then Compile_If stmts env o' opcode
              else if c = C_ExtendedOpcode then Some (Compile_ExtendedOpcode env o' opcode)
              else Some (compile_leaf env c opcode o')))"

definition restricted_opcode :: "u16 \<Rightarrow> bool" where
  "restricted_opcode opcode \<longleftrightarrow> opcode \<notin> {0x41, 0x42, 0x43, 0x44, c_waOp_getGlobal, c_waOp_end}"

primrec CompileBlockStatements :: "nat \<Rightarrow> compile_env \<Rightarrow> M3Compilation \<Rightarrow> M3Compilation result option" where
  "CompileBlockStatements 0 env o' = None"
| "CompileBlockStatements (Suc n) env o' =
    (if co_wasm o' < co_wasmEnd o' then
       tryO (Some (read_with Read_opcode env o')) (\<lambda>(opcode, o').
         if co_function o' = None \<and> restricted_opcode opcode then Some (Inl m3Err_restrictedOpcode)
         else
           tryO (compile_statement (CompileBlockStatements n env) env o' opcode) (\<lambda>o'.
             let o' = o'\<lparr>previousOpcode := opcode\<rparr> in
             if opcode = c_waOp_else then
               Some (throwif m3Err_wasmMalformed (sc_opcode (block o') \<noteq> c_waOp_if) (Inr o'))
             else if opcode = c_waOp_end then Some (Inr o')
             else CompileBlockStatements n env o'))
     else Some (Inl m3Err_wasmMalformed))"

section \<open>Functions\<close>

primrec push_locals :: "nat \<Rightarrow> u8 \<Rightarrow> M3Compilation \<Rightarrow> M3Compilation result" where
  "push_locals 0 localType o' = Inr o'"
| "push_locals (Suc n) localType o' = tryR (PushAllocatedSlot o' localType) (push_locals n localType)"

primrec CompileLocals_loop :: "compile_env \<Rightarrow> nat \<Rightarrow> u32 \<Rightarrow> M3Compilation \<Rightarrow> (u32 \<times> M3Compilation) result" where
  "CompileLocals_loop env 0 count o' = Inr (count, o')"
| "CompileLocals_loop env (Suc n) count o' =
    tryR (read_u32 env o') (\<lambda>(varCount, o').
    tryR (read_i7 env o') (\<lambda>(waType, o').
    case NormalizeType waType of
      (Some e, localType) \<Rightarrow> Inl e
    | (None, localType) \<Rightarrow>
        tryR (push_locals (unat varCount) localType o') (CompileLocals_loop env n (count + varCount))))"

text \<open>The number of locals is stored in the function's 16-bit field.\<close>

definition CompileLocals :: "compile_env \<Rightarrow> M3Compilation \<Rightarrow> M3Compilation result" where
  "CompileLocals env o' =
    tryR (read_u32 env o') (\<lambda>(numLocalBlocks, o').
    tryR (CompileLocals_loop env (unat numLocalBlocks) 0 o') (\<lambda>(n, o').
      Inr (o'\<lparr>co_function := map_option (\<lambda>f. f\<lparr>numLocals := ucast n\<rparr>) (co_function o')\<rparr>)))"

text \<open>The scan for bytes that look like constant opcodes.\<close>

fun ReserveConstants_loop :: "u8 list \<Rightarrow> u16 \<Rightarrow> u16" where
  "ReserveConstants_loop [] numConstantSlots = numConstantSlots"
| "ReserveConstants_loop (byte # wa) numConstantSlots =
    (let addSlots = (if byte = 0x41 \<or> byte = 0x43 then 1
                     else if byte = 0x42 \<or> byte = 0x44 then GetTypeNumSlots c_m3Type_i64 else 0) in
     if unat numConstantSlots + unat addSlots \<ge> d_m3MaxConstantTableSize then numConstantSlots
     else ReserveConstants_loop wa (numConstantSlots + addSlots))"

definition ReserveConstants :: "compile_env \<Rightarrow> M3Compilation \<Rightarrow> M3Compilation result" where
  "ReserveConstants env o' =
    (let wa = take (co_wasmEnd o' - co_wasm o') (drop (co_wasm o') (ce_wasm env));
         numConstantSlots = AlignSlotToType (ReserveConstants_loop wa 0) c_m3Type_i64;
         o' = o'\<lparr>slotFirstDynamicIndex := slotFirstConstIndex o' + numConstantSlots\<rparr> in
     throwif m3Err_functionStackOverflow (unat (slotFirstDynamicIndex o') \<ge> d_m3MaxFunctionSlots) (Inr o'))"

text \<open>The arguments, each in a slot pair of its own.\<close>

primrec push_args :: "M3FuncType option \<Rightarrow> nat list \<Rightarrow> M3Compilation \<Rightarrow> M3Compilation result" where
  "push_args ft [] o' = Inr o'"
| "push_args ft (i # is) o' =
    tryR (PushAllocatedSlot o' (GetFunctionArgType ft (of_nat i))) (\<lambda>o'.
      push_args ft is (o'\<lparr>slotFirstDynamicIndex := slotFirstDynamicIndex o' + c_ioSlotCount\<rparr>))"

abbreviation set_function :: "(M3Function \<Rightarrow> M3Function) \<Rightarrow> M3Compilation \<Rightarrow> M3Compilation" where
  "set_function f o' \<equiv> o'\<lparr>co_function := map_option f (co_function o')\<rparr>"

text \<open>What is compiled: the entry, the words of every page, the frame and the constants (\<open>None\<close>: a null pointer).\<close>

record compiled_code =
  cc_pc :: "pc_t option"
  cc_words :: "nat \<Rightarrow> code_word list"
  cc_maxStackSlots :: u16
  cc_numConstantBytes :: u16
  cc_constants :: "u32 list option"

text \<open>
  A step that fails leaves the function as it was before it. \<open>fi\<close> is the function's index, \<open>copy_ok\<close>
  whether the copy of the constants is allocated. The last component is there as soon as
  \<^verbatim>\<open>compiled\<close> is set.
\<close>

type_synonym function_result = "(m3_error option \<times> M3Function \<times> compiled_code option) option"

definition step_function :: "M3Function \<Rightarrow> M3Compilation result \<Rightarrow> (M3Compilation \<Rightarrow> function_result) \<Rightarrow> function_result" where
  "step_function f r k = (case r of Inl e \<Rightarrow> Some (Some e, f, None) | Inr o' \<Rightarrow> k o')"

abbreviation the_function :: "M3Compilation \<Rightarrow> M3Function" where
  "the_function o' \<equiv> the (co_function o')"

text \<open>Up to the operation \<^verbatim>\<open>op_Entry\<close>, in the three steps between which the function changes.\<close>

definition begin_function :: "compile_env \<Rightarrow> M3Compilation \<Rightarrow> M3Compilation result" where
  "begin_function env o' =
    tryR (read_u32 env o') (\<lambda>(size, o').
    tryR (AcquireCompilationPage env o') (\<lambda>(page, o').
      let o' = use_page page o';
          ft = function_type env o';
          n = GetFunctionNumReturns ft * c_ioSlotCount in
      tryR (MarkSlotsAllocated o' 0 (unat n)) (\<lambda>o'.
        Inr (set_function (\<lambda>f. f\<lparr>numRetSlots := n\<rparr>) (o'\<lparr>slotFirstDynamicIndex := n\<rparr>)))))"

definition push_arguments :: "compile_env \<Rightarrow> M3Compilation \<Rightarrow> M3Compilation result" where
  "push_arguments env o' =
    (let ft = function_type env o' in
     tryR (push_args ft [0 ..< unat (GetFunctionNumArgs ft)] o') (\<lambda>o'.
       let n = slotFirstDynamicIndex o' in
       Inr (set_function (\<lambda>f. f\<lparr>numRetAndArgSlots := n\<rparr>)
              (o'\<lparr>slotMaxAllocatedIndexPlusOne := n, slotFirstLocalIndex := n\<rparr>))))"

text \<open>\<^verbatim>\<open>sizeof (m3slot_t)\<close> is 4.\<close>

definition measure_locals :: "M3Compilation \<Rightarrow> M3Compilation" where
  "measure_locals o' =
    (let (maxSlot, o') = GetMaxUsedSlotPlusOne o';
         o' = set_function (\<lambda>f. f\<lparr>numLocalBytes := (maxSlot - slotFirstLocalIndex o') * 4\<rparr>) o' in
     o'\<lparr>slotFirstConstIndex := maxSlot, slotMaxConstIndex := maxSlot\<rparr>)"

definition start_body :: "compile_env \<Rightarrow> nat \<Rightarrow> M3Compilation \<Rightarrow> M3Compilation result" where
  "start_body env fi o' =
    tryR (ReserveConstants env o') (\<lambda>o'.
      let o' = o'\<lparr>maxStackSlots := slotFirstDynamicIndex o', slotMaxAllocatedIndexPlusOne := slotFirstDynamicIndex o',
                  stackFirstDynamicIndex := stackIndex o', block := (block o')\<lparr>blockStackIndex := stackIndex o'\<rparr>\<rparr> in
      tryR (emit_op_at env o' op_Entry) (\<lambda>o'. Inr (emit_word o' (W_function fi))))"

definition finish_function :: "bool \<Rightarrow> pc_t option \<Rightarrow> M3Compilation \<Rightarrow> function_result" where
  "finish_function copy_ok pc o' =
    (let f = (the_function o')\<lparr>compiled := True\<rparr>;
         numConstantSlots = slotMaxConstIndex o' - slotFirstConstIndex o';
         cc = \<lparr>cc_pc = pc, cc_words = page_words o', cc_maxStackSlots = maxStackSlots o',
               cc_numConstantBytes = numConstantSlots * 4, cc_constants = None\<rparr> in
     if numConstantSlots \<noteq> 0 then
       if copy_ok then Some (None, f, Some (cc\<lparr>cc_constants := Some (map (constants o') [0 ..< unat numConstantSlots])\<rparr>))
       else Some (Some m3Err_mallocFailed, f, Some cc)
     else Some (None, f, Some cc))"

definition CompileFunction :: "nat \<Rightarrow> compile_env \<Rightarrow> bool \<Rightarrow> nat \<Rightarrow> M3Function \<Rightarrow> function_result" where
  "CompileFunction fuel env copy_ok fi io_function =
    (case fn_wasm io_function of
       None \<Rightarrow> Some (Some (M3Msg ''function body is missing''), io_function, None)
     | Some wasm \<Rightarrow>
         (case fn_wasmEnd io_function of None \<Rightarrow> Some (Some C_undefined, io_function, None)
          | Some wasm_end \<Rightarrow>
              let z = zero_compilation wasm wasm_end;
                  z = z\<lparr>co_function := Some io_function\<rparr>;
                  z = z\<lparr>block := (block z)\<lparr>sc_type := function_type env z\<rparr>\<rparr> in
              step_function io_function (begin_function env z) (\<lambda>o'.
                let pc = Some (cur_page o', 0) in
                step_function (the_function o') (push_arguments env o') (\<lambda>o'.
                step_function (the_function o') (CompileLocals env o') (\<lambda>o'.
                let o' = measure_locals o' in
                step_function (the_function o') (start_body env fi o') (\<lambda>o'.
                  case CompileBlockStatements fuel env o' of
                    None \<Rightarrow> None
                  | Some r \<Rightarrow> step_function (the_function o') r (\<lambda>o'.
                      if previousOpcode o' \<noteq> c_waOp_end then Some (Some m3Err_wasmMalformed, the_function o', None)
                      else finish_function copy_ok pc o')))))))"

end
