(* ===== verification/M3_Control.thy ===== *)
theory M3_Control
  imports M3_Blocks
begin

text \<open>
  What the compilers of single opcodes do to the part of the compilation that is not the operand stack:
  they only move the cursor forward, within the body, and append to the current page operations, each
  with its immediates. The locales \<open>stack_invariant\<close> and \<open>compile_invariant\<close> state what a predicate
  needs for every compiler that touches neither a branch pointer nor a page to keep it.
\<close>

section \<open>Results that satisfy a predicate\<close>

definition okR :: "('a \<Rightarrow> bool) \<Rightarrow> 'a result \<Rightarrow> bool" where
  "okR P r \<longleftrightarrow> (\<forall>x. r = Inr x \<longrightarrow> P x)"

lemma okR_Inr [simp]: "okR P (Inr x) = P x"
  and okR_Inl [simp]: "okR P (Inl e)"
  by (simp_all add: okR_def)

lemma okRD: "okR P r \<Longrightarrow> r = Inr x \<Longrightarrow> P x"
  by (simp add: okR_def)

lemma okR_mono: "okR P r \<Longrightarrow> (\<And>x. P x \<Longrightarrow> Q x) \<Longrightarrow> okR Q r"
  by (simp add: okR_def)

lemma okR_tryR: "okR Q m \<Longrightarrow> (\<And>x. Q x \<Longrightarrow> okR P (f x)) \<Longrightarrow> okR P (tryR m f)"
  by (cases m) simp_all

lemma okR_tryR_pair: "okR (\<lambda>(v, x). Q x) m \<Longrightarrow> (\<And>v x. Q x \<Longrightarrow> okR P (f v x)) \<Longrightarrow> okR P (tryR m (\<lambda>(v, x). f v x))"
  by (cases m) auto

lemma okR_if: "(c \<Longrightarrow> okR P a) \<Longrightarrow> (\<not> c \<Longrightarrow> okR P b) \<Longrightarrow> okR P (if c then a else b)"
  by simp

lemma okR_throwif: "(\<not> c \<Longrightarrow> okR P k) \<Longrightarrow> okR P (throwif e c k)"
  by (simp add: throwif_def)

lemma okR_any: "okR (\<lambda>_. True) r"
  by (simp add: okR_def)

lemma okR_case_pair: "okR Q m \<Longrightarrow> (\<And>a b t x. Q (a, b, t, x) \<Longrightarrow> okR P (f a b t x)) \<Longrightarrow> okR P (tryR m (\<lambda>(a, b, t, x). f a b t x))"
  by (cases m) auto

lemma okR_tryR_triple: "okR (\<lambda>(i, s, x). Q x) m \<Longrightarrow> (\<And>i s x. Q x \<Longrightarrow> okR P (f i s x)) \<Longrightarrow> okR P (tryR m (\<lambda>(i, s, x). f i s x))"
  by (cases m) auto

section \<open>The operand stack apart\<close>

definition same_scope :: "M3CompilationScope \<Rightarrow> M3CompilationScope \<Rightarrow> bool" where
  "same_scope a b \<longleftrightarrow> sc_pc a = sc_pc b \<and> patches a = patches b \<and> depth a = depth b \<and> sc_type a = sc_type b \<and> sc_opcode a = sc_opcode b"

definition same_control :: "M3Compilation \<Rightarrow> M3Compilation \<Rightarrow> bool" where
  "same_control x y \<longleftrightarrow> co_wasm y = co_wasm x \<and> co_wasmEnd y = co_wasmEnd x \<and> has_page y = has_page x \<and> code y = code x
     \<and> cur_page y = cur_page x \<and> shelf y = shelf x \<and> numPages y = numPages x \<and> requests y = requests x
     \<and> outer y = outer x \<and> same_scope (block x) (block y)"

lemma same_scope_refl [simp]: "same_scope a a" by (simp add: same_scope_def)

lemma same_scope_trans: "same_scope a b \<Longrightarrow> same_scope b c \<Longrightarrow> same_scope a c" by (simp add: same_scope_def)

lemma same_control_refl [simp]: "same_control x x" by (simp add: same_control_def)

lemma same_control_trans: "same_control x y \<Longrightarrow> same_control y z \<Longrightarrow> same_control x z"
  by (auto simp: same_control_def intro: same_scope_trans)

interpretation LEB_s33: progress_reader "\<lambda>w p e. checked (ReadLebSigned 33 w p e)"
proof
  fix w p e v q assume "checked (ReadLebSigned 33 w p e) = Inr (v, q)"
  then show "p < q" by (auto simp: m3_result ReadLebSigned_def dest!: ReadLebSigned_loop_bounds)
next
  fix w p e v q assume "checked (ReadLebSigned 33 w p e) = Inr (v, q)" "p \<le> e"
  then show "p \<le> q \<and> q \<le> e" by (auto simp: m3_result ReadLebSigned_def dest!: ReadLebSigned_loop_bounds)
next
  fix w w' :: "u8 list" and p e :: nat assume "agree_on p e w w'" "p \<le> e"
  then show "checked (ReadLebSigned 33 w p e) = checked (ReadLebSigned 33 w' p e)"
    by (auto simp: ReadLebSigned_def ReadLebSigned_loop_local)
qed

lemma tryR_read_with:
  "tryR (read_with rd env x) (\<lambda>(v, y). f v y)
    = tryR (rd (ce_wasm env) (co_wasm x) (co_wasmEnd x)) (\<lambda>(v, p). f v (x\<lparr>co_wasm := p\<rparr>))"
  by (cases "rd (ce_wasm env) (co_wasm x) (co_wasmEnd x)") (auto simp: read_with_def)

section \<open>Steps that emit nothing\<close>

locale stack_invariant =
  fixes I :: "M3Compilation \<Rightarrow> bool"
  assumes I_stack: "I x \<Longrightarrow> same_control x y \<Longrightarrow> I y"
    and I_cursor: "I x \<Longrightarrow> co_wasm x \<le> p \<Longrightarrow> (co_wasm x \<le> co_wasmEnd x \<Longrightarrow> p \<le> co_wasmEnd x) \<Longrightarrow> I (x\<lparr>co_wasm := p\<rparr>)"
begin

lemma I_Push: "I x \<Longrightarrow> okR I (Push x ty s)"
  by (auto simp: Push_def Let_def AllocateRegister_def elim!: I_stack simp: same_control_def)

lemma I_PushRegister: "I x \<Longrightarrow> okR I (PushRegister x ty)"
  by (simp add: PushRegister_def I_Push)

lemma I_Pop: "I x \<Longrightarrow> okR I (Pop x)"
  by (auto simp: Pop_def Let_def DeallocateSlot_def DeallocateSlots_eq DeallocateRegister_def elim!: I_stack simp: same_control_def)

lemma I_PopType: "I x \<Longrightarrow> okR I (PopType x ty)"
  by (simp add: PopType_def I_Pop)

lemma I_pop_n: "I x \<Longrightarrow> okR I (pop_n n x)"
  by (induction n arbitrary: x) (auto intro!: okR_tryR I_Pop)

lemma I_MarkSlots: "I x \<Longrightarrow> okR I (MarkSlotsAllocated x s n)"
proof (induction n arbitrary: x s)
  case (Suc n)
  have "okR I (MarkSlotAllocated x s)" using Suc.prems
    by (auto simp: MarkSlotAllocated_def TouchSlot_def elim!: I_stack simp: same_control_def)
  then show ?case using Suc.IH by (auto intro!: okR_tryR)
qed simp

lemma I_MarkSlotsByType: "I x \<Longrightarrow> okR I (MarkSlotsAllocatedByType x s ty)"
  by (simp add: MarkSlotsAllocatedByType_def I_MarkSlots)

lemma I_AllocateRange: "I x \<Longrightarrow> okR (\<lambda>(s, x). I x) (AllocateSlotsWithinRange x ty a b)"
  by (auto simp: AllocateSlotsWithinRange_def Let_def split: option.splits intro!: okR_tryR [OF I_MarkSlots])

lemma I_AllocateSlots: "I x \<Longrightarrow> okR (\<lambda>(s, x). I x) (AllocateSlots x ty)"
  by (simp add: AllocateSlots_def I_AllocateRange)

lemma I_AllocateConstantSlots: "I x \<Longrightarrow> okR (\<lambda>(s, x). I x) (AllocateConstantSlots x ty)"
  by (simp add: AllocateConstantSlots_def Let_def I_AllocateRange)

lemma I_IncrementUsage: "I x \<Longrightarrow> okR I (IncrementSlotUsageCount x s)"
  by (auto simp: IncrementSlotUsageCount_def elim!: I_stack simp: same_control_def)

lemma I_wasmStack [simp]: "I (x\<lparr>wasmStack := w\<rparr>) = I x"
proof
  assume "I (x\<lparr>wasmStack := w\<rparr>)"
  then show "I x" by (rule I_stack) (simp add: same_control_def)
qed (auto elim!: I_stack simp: same_control_def)

lemma I_deallocated: "I x \<Longrightarrow> I (DeallocateRegister x r)"
  by (auto simp: DeallocateRegister_def elim!: I_stack simp: same_control_def)

lemma I_polymorphic: "I x \<Longrightarrow> I (x\<lparr>block := (block x)\<lparr>isPolymorphic := b\<rparr>\<rparr>)"
  by (auto elim!: I_stack simp: same_control_def same_scope_def)

lemma I_SetStackPolymorphic: "I x \<Longrightarrow> okR I (SetStackPolymorphic x)"
  by (simp add: SetStackPolymorphic_def UnwindBlockStack_def I_pop_n I_polymorphic)

lemma I_UnwindBlockStack: "I x \<Longrightarrow> okR I (UnwindBlockStack x)"
  by (simp add: UnwindBlockStack_def I_pop_n)

lemma I_FindReferenced_loop: "I x \<Longrightarrow> okR (\<lambda>(p, x). I x) (FindReferencedLocal_loop l is p x)"
proof (induction l "is" p x rule: FindReferencedLocal_loop.induct)
  case (2 l i "is" p x)
  have "okR (\<lambda>(p, x). I x) (if p = l then AllocateSlots x (GetStackTypeFromBottom x (of_nat i))
      else tryR (IncrementSlotUsageCount x p) (\<lambda>x. Inr (p, x)))"
    using 2 by (intro okR_if I_AllocateSlots okR_tryR [OF I_IncrementUsage]) simp_all
  then show ?case using 2 by (auto simp: okR_def m3_result split: if_splits)
qed simp

lemma I_FindReferenced: "I x \<Longrightarrow> okR (\<lambda>(p, x). I x) (FindReferencedLocalWithinCurrentBlock x l)"
  by (simp add: FindReferencedLocalWithinCurrentBlock_def I_FindReferenced_loop)

lemma I_TouchSlot: "I x \<Longrightarrow> I (TouchSlot x s)"
  by (auto simp: TouchSlot_def elim!: I_stack simp: same_control_def)

lemma I_PushAllocatedSlot: "I x \<Longrightarrow> okR I (PushAllocatedSlot x ty)"
  unfolding PushAllocatedSlot_def PushAllocatedSlotAndEmit_impl_def
  by (intro okR_tryR_pair [OF I_AllocateSlots] okR_tryR [OF I_Push]) simp_all

lemma I_read:
  assumes "progress_reader rd" "I x"
  shows "okR (\<lambda>(v, x). I x) (read_with rd env x)"
proof (cases "rd (ce_wasm env) (co_wasm x) (co_wasmEnd x)")
  case (Inr a)
  then obtain v p where a: "rd (ce_wasm env) (co_wasm x) (co_wasmEnd x) = Inr (v, p)" by (cases a) auto
  have "co_wasm x < p" using progress_reader.rd_progress [OF assms(1) a] .
  moreover have "co_wasm x \<le> co_wasmEnd x \<Longrightarrow> p \<le> co_wasmEnd x"
    using byte_reader.rd_bounds [OF progress_reader.axioms(1) [OF assms(1)] a] by simp
  ultimately show ?thesis using I_cursor [OF assms(2), of p] by (simp add: read_with_def a)
qed (simp add: read_with_def)

lemmas I_read_u32 = I_read [OF LEB_u32.progress_reader_axioms]
  and I_read_i7 = I_read [OF LEB_i7.progress_reader_axioms]
  and I_read_u8 = I_read [OF Read_u8.progress_reader_axioms]
  and I_read_s33 = I_read [OF LEB_s33.progress_reader_axioms]
  and I_read_opcode = I_read [OF Read_opcode.progress_reader_axioms]

lemma I_constants: "I (y\<lparr>constants := c\<rparr>) = I y" "I (y\<lparr>slotMaxConstIndex := s\<rparr>) = I y"
  by (auto elim!: I_stack simp: same_control_def)

lemma I_GetLocal: "I x \<Longrightarrow> okR I (Compile_GetLocal env x)"
  unfolding Compile_GetLocal_def
  by (intro okR_tryR_pair [OF I_read_u32] okR_if I_Push) simp_all

lemma I_push_returns: "I x \<Longrightarrow> okR I (push_returns ft is s x)"
proof (induction "is" arbitrary: s x)
  case (Cons i "is")
  show ?case unfolding push_returns.simps Let_def
    by (intro okR_tryR [OF I_Push] okR_tryR [OF I_MarkSlotsByType] Cons)
qed simp

lemma I_GetMaxUsedSlot: "I x \<Longrightarrow> I (snd (GetMaxUsedSlotPlusOne x))"
proof (induction x rule: GetMaxUsedSlotPlusOne.induct)
  case (1 x)
  have "I (x\<lparr>slotMaxAllocatedIndexPlusOne := s\<rparr>)" for s using 1(2) by (auto elim!: I_stack simp: same_control_def)
  then show ?case using 1 by (simp add: GetMaxUsedSlotPlusOne.simps [of x])
qed

lemma I_select_slots: "I x \<Longrightarrow> okR (\<lambda>(i, s, x). I x) (select_operand_slots is k slots x)"
proof (induction "is" arbitrary: k slots x)
  case (Cons i "is")
  show ?case unfolding select_operand_slots.simps Let_def by (intro okR_tryR [OF I_Pop] Cons)
qed simp

lemma I_ReadBlockType: "I x \<Longrightarrow> okR (\<lambda>(t, x). I x) (ReadBlockType env x)"
  unfolding ReadBlockType_def
  by (intro okR_tryR_pair [OF I_read_s33]) (auto split: prod.split option.split intro!: okR_if okR_throwif)

text \<open>The parts of blocks and functions that emit nothing.\<close>

lemma I_stackIndex: "I (x\<lparr>stackIndex := s\<rparr>) = I x"
proof
  assume "I (x\<lparr>stackIndex := s\<rparr>)"
  then show "I x" by (rule I_stack) (simp add: same_control_def)
qed (auto elim!: I_stack simp: same_control_def)

lemma I_PushBlockResults: "I x \<Longrightarrow> okR I (PushBlockResults x tys)"
proof (induction tys arbitrary: x)
  case (Cons ty tys)
  show ?case unfolding PushBlockResults.simps
    by (intro okR_tryR [where Q = I] okR_if I_PushRegister I_PushAllocatedSlot Cons)
qed simp

lemma I_PushBlockResults_unchecked: "I x \<Longrightarrow> okR I (PushBlockResults_unchecked x tys)"
proof (induction tys arbitrary: x)
  case (Cons ty tys)
  have "okR I (case Push y ty slot of Inl e \<Rightarrow> Inl C_undefined | Inr o' \<Rightarrow> PushBlockResults_unchecked o' tys)" if "I y" for y slot
    using I_Push [OF that, of ty slot] Cons.IH by (auto split: sum.split)
  then have "okR I (case AllocateSlots x ty of Inl e \<Rightarrow> if e = C_undefined then Inl e else Inr x
      | Inr (slot, o') \<Rightarrow> (case Push o' ty slot of Inl e \<Rightarrow> Inl C_undefined | Inr o' \<Rightarrow> PushBlockResults_unchecked o' tys))"
    using I_AllocateSlots [OF Cons.prems, of ty] Cons.prems by (cases "AllocateSlots x ty") auto
  moreover have "okR I (case PushRegister x ty of Inl e \<Rightarrow> Inl C_undefined | Inr o' \<Rightarrow> Inr o')"
    using I_PushRegister [OF Cons.prems, of ty] by (auto split: sum.split)
  ultimately show ?case by simp
qed simp

lemma I_pop_n_unchecked: "I x \<Longrightarrow> okR I (pop_n_unchecked n x)"
proof (induction n arbitrary: x)
  case (Suc n)
  then show ?case using I_Pop [OF Suc.prems] by (auto split: sum.split)
qed simp

lemma I_pop_params: "I x \<Longrightarrow> okR I (pop_params ft is x)"
  by (induction "is" arbitrary: x) (auto intro!: okR_tryR I_PopType)

lemma I_push_params: "I x \<Longrightarrow> okR I (push_params ft p is x)"
proof (induction "is" arbitrary: x)
  case (Cons i "is")
  have "okR I (case Push x ty slot of Inl e \<Rightarrow> Inl C_undefined
      | Inr o' \<Rightarrow> tryR (if b o' then MarkSlotsAllocatedByType o' slot ty else Inr o') (push_params ft p is))" for ty slot b
    using I_Push [OF Cons.prems, of ty slot] by (auto split: sum.split intro!: okR_tryR [where Q = I] I_MarkSlotsByType Cons.IH)
  then show ?case by (simp add: Let_def)
qed simp

lemma I_push_locals: "I x \<Longrightarrow> okR I (push_locals n ty x)"
  by (induction n arbitrary: x) (auto intro!: okR_tryR I_PushAllocatedSlot)

lemma I_CompileLocals_loop: "I x \<Longrightarrow> okR (\<lambda>(n, x). I x) (CompileLocals_loop env n k x)"
proof (induction n arbitrary: k x)
  case (Suc n)
  have "okR (\<lambda>(n, x). I x) (case NormalizeType ty of (Some e, t) \<Rightarrow> Inl e
      | (None, t) \<Rightarrow> tryR (push_locals m t y) (CompileLocals_loop env n k))" if "I y" for ty m y k
    by (cases "NormalizeType ty"; cases "fst (NormalizeType ty)") (auto intro!: okR_tryR [OF I_push_locals [OF that]] simp: Suc.IH simp del: split_paired_All)
  then show ?case unfolding CompileLocals_loop.simps
    by (intro okR_tryR_pair [OF I_read_u32 [OF Suc.prems]] okR_tryR_pair [OF I_read_i7])
qed simp

lemma I_function: "I x \<Longrightarrow> I (x\<lparr>co_function := f\<rparr>)"
  by (auto elim!: I_stack simp: same_control_def)

lemma I_CompileLocals: "I x \<Longrightarrow> okR I (CompileLocals env x)"
  unfolding CompileLocals_def
  by (intro okR_tryR_pair [OF I_read_u32] okR_tryR_pair [OF I_CompileLocals_loop]) (simp_all add: I_function)

end

section \<open>Steps that emit operations\<close>

text \<open>\<open>I\<close> holds between two operations, \<open>J\<close> behind an operation and among its immediates.\<close>

definition is_immediate :: "code_word \<Rightarrow> bool" where
  "is_immediate w \<longleftrightarrow> (\<forall>op. w \<noteq> W_op op) \<and> (\<forall>t. w \<noteq> W_pc t)"

lemma is_immediate_simps [simp]: "\<not> is_immediate (W_pc t)" "\<not> is_immediate (W_op op)" "is_immediate (W_32 a)" "is_immediate (W_64 b)"
  "is_immediate (W_global g)" "is_immediate (W_function f)" "is_immediate (W_compiled f)" "is_immediate W_module" "is_immediate (W_type ty)"
  by (simp_all add: is_immediate_def)

locale compile_invariant = i: stack_invariant I + j: stack_invariant J for I J :: "M3Compilation \<Rightarrow> bool" +
  assumes weaken: "J x \<Longrightarrow> I x"
    and op_word: "I x \<Longrightarrow> has_page x \<Longrightarrow> J (emit_word (x\<lparr>requests := requests x + 1\<rparr>) (W_op op))"
    and no_page: "I x \<Longrightarrow> \<not> has_page x \<Longrightarrow> J x"
    and word: "J x \<Longrightarrow> is_immediate w \<Longrightarrow> J (emit_word x w)"
begin

lemma weakenR: "okR J r \<Longrightarrow> okR I r"
  by (auto elim: okR_mono weaken)

lemma slot: "J x \<Longrightarrow> J (emit_slot x s)"
  by (simp add: emit_slot_def word)

lemma emit_op: "I x \<Longrightarrow> okR J (emit_op pg x op)"
  using op_word no_page by (simp add: emit_op_def)

lemma emit_op_unchecked: "I x \<Longrightarrow> okR J (emit_op_unchecked env x op)"
  using emit_op [of x "ce_page_ok env" op] by (auto simp: emit_op_unchecked_def split: sum.split)

lemma PushAllocatedSlotAndEmit: "J x \<Longrightarrow> okR J (PushAllocatedSlotAndEmit x ty)"
  unfolding PushAllocatedSlotAndEmit_def PushAllocatedSlotAndEmit_impl_def
  by (intro okR_tryR_pair [OF j.I_AllocateSlots] okR_tryR [OF j.I_Push]) (simp_all add: slot)

lemma PreserveRegister: "I x \<Longrightarrow> okR I (PreserveRegisterIfOccupied pg x ty)"
  unfolding PreserveRegisterIfOccupied_def Let_def
  by (intro okR_if okR_tryR_pair [OF i.I_AllocateSlots] okR_tryR [OF okR_any] okR_tryR [OF emit_op])
    (auto intro: slot weaken i.I_deallocated)

lemma PreserveRegisters: "I x \<Longrightarrow> okR I (PreserveRegisters pg x)"
  by (auto simp: PreserveRegisters_def intro!: okR_tryR [OF PreserveRegister] PreserveRegister)

lemma PreserveNonTopRegisters: "I x \<Longrightarrow> okR I (PreserveNonTopRegisters pg x)"
  unfolding PreserveNonTopRegisters_def Let_def
  by (intro okR_if okR_tryR [where Q = I] PreserveRegister) simp_all

lemma EmitSlotNum: "J x \<Longrightarrow> okR J (EmitSlotNumOfStackTopAndPop x)"
  by (simp add: EmitSlotNumOfStackTopAndPop_def j.I_Pop slot)

lemma CopyStackIndexToSlot: "I x \<Longrightarrow> okR J (CopyStackIndexToSlot env x s i)"
  unfolding CopyStackIndexToSlot_def Let_def
  by (intro okR_tryR [OF okR_any] okR_tryR [OF emit_op]) (simp_all add: slot)

lemmas CopyStackIndexToSlot_I = weakenR [OF CopyStackIndexToSlot]

lemma CopyStackTopToSlot: "I x \<Longrightarrow> okR J (CopyStackTopToSlot env x s)"
  by (simp add: CopyStackTopToSlot_def CopyStackIndexToSlot)

lemmas CopyStackTopToSlot_I = weakenR [OF CopyStackTopToSlot]

lemma PreservedCopyTopSlot: "I x \<Longrightarrow> okR J (PreservedCopyTopSlot env x s p)"
  unfolding PreservedCopyTopSlot_def Let_def
  by (intro okR_tryR [OF okR_any] okR_tryR [OF emit_op]) (simp_all add: slot)

lemma CopyStackTopToRegister: "I x \<Longrightarrow> okR I (CopyStackTopToRegister env x b)"
  unfolding CopyStackTopToRegister_def Let_def
  by (intro okR_if okR_tryR [OF PreserveRegister] okR_tryR [OF okR_any] okR_tryR [OF emit_op] okR_tryR [OF i.I_PopType]
      i.I_PushRegister) (auto intro: slot weaken)

lemma CopyStackSlot_step:
  assumes "I x"
  shows "okR (\<lambda>(a, b, t, x). I x) (CopyStackSlot_step env target idx e temp x)"
proof -
  have copy: "okR I (CopyStackIndexToSlot env z s k)" if "I z" for z s k using that by (rule CopyStackIndexToSlot_I)
  have "okR (\<lambda>(a, b, t, x). I x) (case find_collision x targetSlot extraSlot i n of
           None \<Rightarrow> Inr (idx, srcSlot, temp, x)
         | Some check \<Rightarrow>
             throwif m3Err_functionStackOverflow (unat temp \<ge> d_m3MaxFunctionSlots)
             (let otherSlot1 = GetSlotForStackIndex x (of_nat check) in
              tryR (CopyStackIndexToSlot env x temp (of_nat check)) (\<lambda>o'.
                let o' = o'\<lparr>wasmStack := (wasmStack o')(check := temp)\<rparr>; temp = temp + 2 in
                Inr (of_nat check, otherSlot1, temp, TouchSlot o' (temp - 1)))))" for targetSlot extraSlot i n srcSlot
    unfolding Let_def using assms
    by (auto split: option.split intro!: okR_throwif okR_tryR [OF copy] i.I_TouchSlot)
  note collision = this
  show ?thesis
    unfolding CopyStackSlot_step_def Let_def
  proof (rule okR_if)
    show "okR (\<lambda>(a, b, t, x). I x) (Inr (idx, GetSlotForStackIndex x idx, temp, x))" using assms by simp
  qed (rule okR_case_pair [OF collision [unfolded Let_def]], simp, rule okR_tryR [OF copy], assumption, simp)
qed

lemma CopyStackSlotsR: "I x \<Longrightarrow> okR I (CopyStackSlotsR env target idx e temp x)"
proof (induction "unat e - unat idx" arbitrary: target idx temp x rule: less_induct)
  case less
  show ?case
  proof (cases "idx < e")
    case True
    then have "unat idx < unat e" by (simp add: word_less_nat_alt)
    moreover from this have "unat (idx + 1) = unat idx + 1" using unat_lt16 [of e] by (intro unat_inc16) simp
    ultimately have smaller: "unat e - unat (idx + 1) < unat e - unat idx" by simp
    show ?thesis
      unfolding CopyStackSlotsR.simps [of env target idx e temp x] Let_def
      using CopyStackSlot_step [OF less.prems, of env target idx e temp] True
      by (auto simp: okR_def m3_result dest!: okRD [OF less.hyps [OF smaller]])
  qed (use less in \<open>simp add: CopyStackSlotsR.simps [of env target idx e temp x]\<close>)
qed

lemma ResolveBlockResults: "I x \<Longrightarrow> okR I (ResolveBlockResults env x d b)"
  unfolding ResolveBlockResults_def Let_def
  by (intro okR_throwif okR_if okR_tryR [where Q = I] CopyStackTopToRegister CopyStackSlotsR) simp_all

lemma ReturnValues_loop: "I x \<Longrightarrow> okR I (ReturnValues_loop env ft is s t x)"
proof (induction "is" arbitrary: s t x)
  case (Cons i "is")
  show ?case
    unfolding ReturnValues_loop.simps Let_def
    by (intro okR_throwif okR_if okR_tryR [where Q = I] CopyStackIndexToSlot_I Cons)
qed simp

lemma ReturnValues: "I x \<Longrightarrow> okR I (ReturnValues env x ft b)"
  unfolding ReturnValues_def Let_def
  by (intro okR_throwif okR_if okR_tryR [where Q = I] ReturnValues_loop i.I_pop_n) simp_all

lemma PushInlineConst: "I x \<Longrightarrow> okR J (PushInlineConst pg x v ty)"
  unfolding PushInlineConst_def
  by (intro okR_if okR_tryR [OF emit_op] PushAllocatedSlotAndEmit word) simp_all

lemma PushConst: "I x \<Longrightarrow> okR I (PushConst pg x v ty)"
proof -
  assume I: "I x"
  have new: "okR I (case AllocateConstantSlots x ty of
              Inl e \<Rightarrow> if e = C_undefined then Inl C_undefined else PushInlineConst pg x v ty
            | Inr (slot, o') \<Rightarrow> throwif C_undefined (b slot o') (tryR (Push (f slot o') ty slot) (\<lambda>o'. Inr (g slot o'))))"
    if "\<And>slot y. I y \<Longrightarrow> I (f slot y)" "\<And>slot y. I y \<Longrightarrow> I (g slot y)" for b f g
    using i.I_AllocateConstantSlots [OF I, of ty] that
    by (auto intro!: okR_throwif okR_tryR [OF i.I_Push] weakenR [OF PushInlineConst] I split: sum.split)
  show ?thesis
    unfolding PushConst_def Let_def
    using I by (auto intro!: i.I_Push new simp: i.I_constants split: option.split)
qed

lemma read_const:
  assumes "I x" "progress_reader rd"
  shows "okR I (tryR (rd w (co_wasm x) (co_wasmEnd x)) (\<lambda>(v, p). PushConst pg (x\<lparr>co_wasm := p\<rparr>) (f v) ty))"
proof -
  have "okR I (tryR (read_with rd \<lparr>ce_page_ok = pg, ce_wasm = w, ce_module = undefined, ce_environment = undefined\<rparr> x)
      (\<lambda>(v, y). PushConst pg y (f v) ty))"
    by (rule okR_tryR_pair [OF i.I_read [OF assms(2,1)]], rule PushConst)
  then show ?thesis by (simp add: tryR_read_with)
qed

lemma Compile_Const:
  assumes "I x"
  shows "okR I (Compile_Const_i32 pg w x)" "okR I (Compile_Const_i64 pg w x)"
    "okR I (Compile_Const_f32 pg w x)" "okR I (Compile_Const_f64 pg w x)"
  unfolding Compile_Const_i32_def Compile_Const_i64_def Compile_Const_f32_def Compile_Const_f64_def
  by (rule read_const [OF assms]; rule LEB_i32.progress_reader_axioms LEB_i64.progress_reader_axioms
      Read_f32.progress_reader_axioms Read_f64.progress_reader_axioms)+

lemma GetSetGlobal: "I x \<Longrightarrow> okR I (Compile_GetSetGlobal pg m w x op)"
proof -
  assume I: "I x"
  have get: "okR I (Compile_GetGlobal pg y i g)" if "I y" for y i g
    unfolding Compile_GetGlobal_def Let_def using that
    by (intro weakenR [OF okR_tryR [OF emit_op]] PushAllocatedSlotAndEmit word) simp_all
  have set': "okR I (Compile_SetGlobal pg y i g)" if "I y" for y i g
    unfolding Compile_SetGlobal_def Let_def using that
    by (intro okR_if okR_tryR [OF okR_any] okR_tryR [OF emit_op]) (auto intro!: weakenR [OF j.I_Pop] slot word)
  have "okR I (tryR (read_with (\<lambda>w p e. LEB_u32 w p e) \<lparr>ce_page_ok = pg, ce_wasm = w, ce_module = m, ce_environment = undefined\<rparr> x)
      (\<lambda>(i, y). if i < numGlobals m then if globals m \<noteq> [] then
          throwif C_undefined (unat i \<ge> length (globals m))
            (if op = 0x23 then Compile_GetGlobal pg y (unat i) (globals m ! unat i)
             else Compile_SetGlobal pg y (unat i) (globals m ! unat i))
        else Inl m3Err_globalMemoryNotAllocated else Inl m3Err_globaIndexOutOfBounds))"
    by (rule okR_tryR_pair [OF i.I_read_u32 [OF I]]) (auto intro!: okR_throwif get set')
  then show ?thesis unfolding Compile_GetSetGlobal_def Let_def by (simp add: tryR_read_with)
qed

lemma SetLocal: "I x \<Longrightarrow> okR I (Compile_SetLocal env x op)"
  unfolding Compile_SetLocal_def Let_def
  by (intro okR_tryR_pair [OF i.I_read_u32] okR_if okR_tryR_pair [OF i.I_FindReferenced] okR_tryR [where Q = I]
      CopyStackTopToSlot_I weakenR [OF PreservedCopyTopSlot] i.I_Pop) simp_all

lemma pop_arguments: "I x \<Longrightarrow> okR I (pop_arguments env n s x)"
proof (induction n arbitrary: s x)
  case (Suc n)
  show ?case unfolding pop_arguments.simps Let_def
    by (intro okR_tryR [OF CopyStackTopToSlot_I] okR_tryR [OF i.I_Pop] Suc)
qed simp

lemma CallArgs: "I x \<Longrightarrow> okR (\<lambda>(s, x). I x) (CompileCallArgsAndReturn env x ft ind)"
  unfolding CompileCallArgsAndReturn_def Let_def
  by (auto split: prod.splits intro!: okR_tryR [where Q = I] i.I_Pop pop_arguments i.I_push_returns dest: i.I_GetMaxUsedSlot)

lemma Call: "I x \<Longrightarrow> okR I (Compile_Call env x)"
  unfolding Compile_Call_def Let_def
  by (intro okR_tryR_pair [OF i.I_read_u32])
    (auto split: option.split intro!: okR_throwif okR_tryR_pair [OF CallArgs] okR_tryR [OF emit_op] slot word weaken)

lemma CallIndirect: "I x \<Longrightarrow> okR I (Compile_CallIndirect env x)"
  unfolding Compile_CallIndirect_def Let_def
  by (intro okR_tryR_pair [OF i.I_read_u32] okR_throwif okR_tryR_pair [OF CallArgs] okR_tryR [OF emit_op]
      okR_tryR [where Q = I] okR_if PreserveRegister) (auto intro!: slot word weaken)

lemma Memory:
  assumes "I x"
  shows "okR I (Compile_Memory_Size env x)" "okR I (Compile_Memory_Grow env x)" "okR I (Compile_Memory_CopyFill env x op)"
proof -
  show "okR I (Compile_Memory_Size env x)"
    unfolding Compile_Memory_Size_def
    by (intro okR_tryR_pair [OF i.I_read_i7] okR_tryR [OF PreserveRegister] okR_tryR [OF emit_op] weakenR [OF j.I_PushRegister] assms)
  show "okR I (Compile_Memory_Grow env x)"
    unfolding Compile_Memory_Grow_def
    by (intro okR_tryR_pair [OF i.I_read_i7] okR_tryR [OF CopyStackTopToRegister] okR_tryR [OF i.I_PopType]
        okR_tryR [OF emit_op] weakenR [OF j.I_PushRegister] assms)
  show "okR I (Compile_Memory_CopyFill env x op)"
    unfolding Compile_Memory_CopyFill_def
    by (intro okR_tryR_pair [where Q = I] okR_if okR_tryR_pair [OF i.I_read_u32] okR_tryR [OF CopyStackTopToRegister]
        okR_tryR [OF emit_op] okR_tryR [OF j.I_PopType] okR_tryR [OF EmitSlotNum] weakenR [OF EmitSlotNum]) (use assms in simp_all)
qed

lemma valid_slots: "J x \<Longrightarrow> J (emit_valid_slots slots x)"
  unfolding emit_valid_slots_def by (induction slots arbitrary: x) (auto intro: slot)

lemma Select: "I x \<Longrightarrow> okR I (Compile_Select env x)"
proof -
  assume I: "I x"
  have fp: "okR (\<lambda>(i, s, x). I x) (Select_fp env x ty)" for ty
    unfolding Select_fp_def Let_def
    by (intro okR_tryR [where Q = I] okR_if okR_tryR [OF i.I_Pop] okR_tryR_triple [OF i.I_select_slots] PreserveRegister)
      (use I in simp_all)
  have int: "okR (\<lambda>(i, s, x). I x) (Select_int env x ty)" for ty
    unfolding Select_int_def Let_def
    by (intro okR_tryR [where Q = I] okR_if okR_tryR_triple [OF i.I_select_slots] PreserveRegister) (use I in simp_all)
  show ?thesis
    unfolding Compile_Select_def Let_def
    by (intro okR_tryR_triple [where Q = I] okR_if fp int okR_tryR [OF emit_op_unchecked] weakenR [OF j.I_PushRegister] valid_slots)
      (use I in simp_all)
qed

lemma select_operation: "I x \<Longrightarrow> okR (\<lambda>(v, x). I x) (select_operation env oi x)"
  unfolding select_operation_def
  by (intro okR_if okR_tryR [OF PreserveRegister]) simp_all

lemma Operator: "I x \<Longrightarrow> okR J (Compile_Operator env x op)"
proof -
  assume I: "I x"
  have tail: "okR J (throwif e b (tryR (emit_op_at env y op) (\<lambda>o'. tryR (EmitSlotNumOfStackTopAndPop o') (\<lambda>o'.
      tryR (if c then EmitSlotNumOfStackTopAndPop o' else Inr o') (\<lambda>o'. if d then PushRegister o' ty else Inr o')))))"
    if "I y" for e b y op c d ty
    by (intro okR_throwif okR_tryR [OF emit_op] okR_tryR [OF EmitSlotNum] okR_tryR [where Q = J] okR_if EmitSlotNum j.I_PushRegister)
      (use that in simp_all)
  show ?thesis
    unfolding Compile_Operator_def
    by (auto split: option.split intro!: okR_tryR [where Q = I and P = J] okR_tryR_pair [OF select_operation] tail
        PreserveRegister I)
qed

lemma Convert: "I x \<Longrightarrow> okR J (Compile_Convert env x op)"
  unfolding Compile_Convert_def Let_def
  by (auto split: option.split intro!: okR_tryR [OF emit_op] okR_tryR [OF EmitSlotNum] j.I_PushRegister PushAllocatedSlotAndEmit)

lemma Load_Store: "I x \<Longrightarrow> okR J (Compile_Load_Store env x op)"
  unfolding Compile_Load_Store_def
  by (intro okR_tryR_pair [OF i.I_read_u32])
    (auto split: option.split intro!: okR_tryR [where Q = I] okR_tryR [OF Operator] PreserveRegister word)

lemma Return: "I x \<Longrightarrow> okR I (Compile_Return env x)"
  unfolding Compile_Return_def
  by (intro okR_if okR_tryR [OF okR_any] okR_tryR [OF ReturnValues] okR_tryR [OF emit_op] weakenR [OF j.I_SetStackPolymorphic]) simp_all

text \<open>At the end of a function an operation is the last word.\<close>

lemma End_function: "I x \<Longrightarrow> depth (block x) = 0 \<Longrightarrow> okR J (Compile_End env x)"
  unfolding Compile_End_def
  by (simp, intro conjI impI okR_tryR [where Q = I] emit_op) (auto intro: ReturnValues)

lemma End: "I x \<Longrightarrow> okR I (Compile_End env x)"
  using weakenR [OF End_function] by (cases "depth (block x) = 0") (auto simp: Compile_End_def)

lemma Unreachable: "I x \<Longrightarrow> okR I (Compile_Unreachable env x)"
  unfolding Compile_Unreachable_def by (intro okR_tryR [OF emit_op] weakenR [OF j.I_SetStackPolymorphic])

lemma PreserveArgs_loop: "I x \<Longrightarrow> okR I (PreserveArgs_loop env is x)"
proof (induction "is" arbitrary: x)
  case (Cons i "is")
  show ?case unfolding PreserveArgs_loop.simps Let_def
    by (intro okR_tryR_pair [OF i.I_FindReferenced] okR_tryR [where Q = I] okR_if weakenR [OF okR_tryR [OF emit_op_unchecked]] Cons)
      (use Cons in \<open>simp_all add: slot\<close>)
qed simp

lemma PreserveArgs: "I x \<Longrightarrow> okR I (PreserveArgsAndLocals env x)"
  unfolding PreserveArgsAndLocals_def by (intro okR_if PreserveArgs_loop) simp_all

lemma instantiate: "I x \<Longrightarrow> okR I (instantiate_constants env is x)"
proof (induction "is" arbitrary: x)
  case (Cons i "is")
  show ?case unfolding instantiate_constants.simps Let_def
    by (intro okR_tryR [where Q = I] okR_if okR_tryR_pair [OF i.I_AllocateSlots] okR_tryR [OF CopyStackIndexToSlot_I] Cons)
      (use Cons in simp_all)
qed simp

text \<open>The leaves without pointers and pages.\<close>

lemma leaf:
  assumes "I x" "c \<noteq> C_Branch" "c \<noteq> C_BranchTable"
  shows "okR I (compile_leaf env c op x)"
  using assms
  by (cases c) (simp_all add: compile_leaf_def Unreachable End Return Call CallIndirect i.I_Pop Select i.I_GetLocal SetLocal
      GetSetGlobal weakenR [OF Load_Store] Memory Compile_Const weakenR [OF Convert])

end

end
