(* ===== verification/M3_Blocks_Props.thy ===== *)
theory M3_Blocks_Props
  imports M3_Control
begin

text \<open>
  The compilation of a body ends: every statement moves the cursor forward and none leaves the body,
  so fuel that exceeds the bytes left is enough, and more of it changes nothing.
\<close>

section \<open>The cursor\<close>

definition forward :: "M3Compilation \<Rightarrow> M3Compilation \<Rightarrow> bool" where
  "forward s x \<longleftrightarrow> co_wasm s \<le> co_wasm x \<and> co_wasmEnd x = co_wasmEnd s \<and> (co_wasm s \<le> co_wasmEnd s \<longrightarrow> co_wasm x \<le> co_wasmEnd s)"

lemma forward_refl [simp]: "forward x x" by (simp add: forward_def)

lemma forward_trans: "forward x y \<Longrightarrow> forward y z \<Longrightarrow> forward x z"
  by (auto simp: forward_def)

lemma forward_cursor: "co_wasm y = co_wasm x \<Longrightarrow> co_wasmEnd y = co_wasmEnd x \<Longrightarrow> forward s x \<Longrightarrow> forward s y"
  by (simp add: forward_def)

lemma cursor_simps [simp]:
  "co_wasm (set_word pc w x) = co_wasm x" "co_wasmEnd (set_word pc w x) = co_wasmEnd x"
  "co_wasm (set_reserved ptr w x) = co_wasm x" "co_wasmEnd (set_reserved ptr w x) = co_wasmEnd x"
  "co_wasm (set_patches d p x) = co_wasm x" "co_wasmEnd (set_patches d p x) = co_wasmEnd x"
  "co_wasm (use_page k x) = co_wasm x" "co_wasmEnd (use_page k x) = co_wasmEnd x"
  "co_wasm (EmitPatchingBranchPointer x d) = co_wasm x" "co_wasmEnd (EmitPatchingBranchPointer x d) = co_wasmEnd x"
  by (simp_all add: set_word_def set_reserved_def set_patches_def use_page_def EmitPatchingBranchPointer_def Let_def
      split: option.split nat.split)

interpretation fwd: compile_invariant "forward s" "forward s" for s
proof unfold_locales
  show "forward s x \<Longrightarrow> same_control x y \<Longrightarrow> forward s y" for x y
    by (simp add: same_control_def forward_cursor)
qed (auto simp: forward_def)

lemma forward_word [simp]: "forward s (emit_word x w) = forward s x"
  by (simp add: forward_def)

lemma forward_patching [simp]:
  "forward s (EmitPatchingBranchPointer x d) = forward s x" "forward s (set_reserved ptr w x) = forward s x"
  "forward s (use_page k x) = forward s x" "forward s (set_word pc w x) = forward s x"
  by (simp_all add: forward_def)

lemma forward_EmitPatchingBranch: "forward s x \<Longrightarrow> okR (forward s) (EmitPatchingBranch env x d)"
  unfolding EmitPatchingBranch_def by (intro okR_tryR [OF fwd.emit_op]) simp_all

lemma forward_leave_scope: "forward s x \<Longrightarrow> okR (forward s) (leave_scope env d x)"
  unfolding leave_scope_def Let_def
  by (intro okR_if okR_tryR [OF fwd.ReturnValues] okR_tryR [OF fwd.ResolveBlockResults] fwd.emit_op forward_EmitPatchingBranch)
    simp_all

lemma forward_Branch_to_loop: "forward s x \<Longrightarrow> okR (forward s) (Branch_to_loop env x op d)"
  unfolding Branch_to_loop_def ReserveBranch_def Let_def prod.case
  by (intro okR_if okR_tryR [OF fwd.emit_op] okR_tryR [OF fwd.EmitSlotNum] okR_tryR [OF fwd.ResolveBlockResults]
      okR_tryR [OF fwd.CopyStackTopToRegister] okR_tryR [OF fwd.i.I_PopType]) (simp_all add: forward_def)

lemma forward_Branch_forward: "forward s x \<Longrightarrow> okR (forward s) (Branch_forward env x op d)"
  unfolding Branch_forward_def ReserveBranch_def Let_def prod.case
  by (intro okR_if okR_tryR [OF fwd.emit_op] okR_tryR [OF fwd.EmitSlotNum] okR_tryR [OF forward_leave_scope])
    (simp_all add: fwd.i.I_SetStackPolymorphic)

lemma forward_Branch: "forward s x \<Longrightarrow> okR (forward s) (Compile_Branch env x op)"
  unfolding Compile_Branch_def
  by (intro okR_if okR_tryR_pair [OF fwd.i.I_read_u32] okR_tryR [OF okR_any] forward_Branch_to_loop forward_Branch_forward)

lemma forward_Acquire: "forward s x \<Longrightarrow> okR (\<lambda>(k, x). forward s x) (AcquireCompilationPage env x)"
  by (simp add: AcquireCompilationPage_def forward_def)

lemma forward_BranchTable_target: "forward s x \<Longrightarrow> okR (forward s) (BranchTable_target env x)"
  unfolding BranchTable_target_def Let_def
  by (intro okR_tryR_pair [OF fwd.i.I_read_u32] okR_tryR [OF okR_any] okR_tryR_pair [OF forward_Acquire] okR_tryR [where Q = "forward s"]
      okR_if okR_tryR [OF fwd.ResolveBlockResults] okR_tryR [OF fwd.emit_op] forward_leave_scope) simp_all

lemma forward_BranchTable_targets: "forward s x \<Longrightarrow> okR (forward s) (BranchTable_targets env n x)"
  by (induction n arbitrary: x) (auto intro!: okR_tryR [OF forward_BranchTable_target])

lemma forward_BranchTable: "forward s x \<Longrightarrow> okR (forward s) (Compile_BranchTable env x)"
  unfolding Compile_BranchTable_def Let_def
  by (intro okR_tryR_pair [OF fwd.i.I_read_u32] okR_tryR [OF fwd.PreserveRegister] okR_tryR [OF fwd.i.I_Pop] okR_throwif
      okR_tryR [OF fwd.emit_op] okR_tryR [OF forward_BranchTable_targets] fwd.i.I_SetStackPolymorphic)
    (simp_all add: emit_slot_def forward_def)

lemma forward_leaf: "forward s x \<Longrightarrow> okR (forward s) (compile_leaf env c op x)"
  using forward_Branch forward_BranchTable fwd.leaf by (cases "c = C_Branch \<or> c = C_BranchTable") (auto simp: compile_leaf_def)

lemma forward_previous: "forward s (x\<lparr>previousOpcode := op\<rparr>) = forward s x"
  by (simp add: forward_def)

lemma forward_Extended: "forward s x \<Longrightarrow> okR (forward s) (Compile_ExtendedOpcode env x op)"
  unfolding Compile_ExtendedOpcode_def Let_def
  by (intro okR_tryR_pair [OF fwd.i.I_read_u8])
    (auto split: option.split simp: forward_previous intro!: okR_tryR [OF forward_leaf])

section \<open>Blocks and statements\<close>

definition okO :: "('a \<Rightarrow> bool) \<Rightarrow> 'a result option \<Rightarrow> bool" where
  "okO P r \<longleftrightarrow> (\<forall>y. r = Some (Inr y) \<longrightarrow> P y)"

lemma okO_simps [simp]: "okO P None" "okO P (Some r) = okR P r"
  by (auto simp: okO_def okR_def)

lemma okO_tryO: "okO Q m \<Longrightarrow> (\<And>x. Q x \<Longrightarrow> okO P (f x)) \<Longrightarrow> okO P (tryO m f)"
  by (auto simp: okO_def tryO_def split: option.splits sum.splits)

lemma okO_tryO_pair: "okO (\<lambda>(v, x). Q x) m \<Longrightarrow> (\<And>v x. Q x \<Longrightarrow> okO P (f v x)) \<Longrightarrow> okO P (tryO m (\<lambda>(v, x). f v x))"
  by (auto simp: okO_def tryO_def split: option.splits sum.splits)

lemma okO_tryO_triple: "okO (\<lambda>(u, v, x). Q x) m \<Longrightarrow> (\<And>u v x. Q x \<Longrightarrow> okO P (f u v x)) \<Longrightarrow> okO P (tryO m (\<lambda>(u, v, x). f u v x))"
  by (auto simp: okO_def tryO_def split: option.splits sum.splits)

lemma okO_if: "(c \<Longrightarrow> okO P a) \<Longrightarrow> (\<not> c \<Longrightarrow> okO P b) \<Longrightarrow> okO P (if c then a else b)"
  by simp

lemma okO_mono: "okO P r \<Longrightarrow> (\<And>x. P x \<Longrightarrow> Q x) \<Longrightarrow> okO Q r"
  by (auto simp: okO_def)

text \<open>\<open>ahead s\<close>: at least one byte behind \<open>s\<close>.\<close>

definition ahead :: "M3Compilation \<Rightarrow> M3Compilation \<Rightarrow> bool" where
  "ahead s x \<longleftrightarrow> forward s x \<and> co_wasm s < co_wasm x"

lemma aheadD: "ahead s x \<Longrightarrow> forward s x"
  by (simp add: ahead_def)

lemma ahead_trans: "forward s x \<Longrightarrow> ahead x y \<Longrightarrow> ahead s y"
  and ahead_forward: "ahead s x \<Longrightarrow> forward x y \<Longrightarrow> ahead s y"
  by (auto simp: ahead_def forward_def)

lemma forward_enter_block: "forward s x \<Longrightarrow> okR (forward s) (enter_block env x ft op)"
  unfolding enter_block_def Let_def
  by (intro okR_tryR [where Q = "forward s"] okR_if fwd.i.I_pop_params fwd.i.I_PushBlockResults_unchecked fwd.i.I_pop_n_unchecked
      fwd.i.I_push_params) (simp_all add: forward_def)

lemma forward_PatchBranches_loop: "forward s x \<Longrightarrow> okR (forward s) (PatchBranches_loop n pc ps x)"
  by (induction n arbitrary: ps x) (auto split: option.split code_word.split)

lemma forward_PatchBranches: "forward s x \<Longrightarrow> okR (forward s) (PatchBranches x)"
  unfolding PatchBranches_def by (rule forward_PatchBranches_loop) (simp add: forward_def)

lemma forward_leave_block: "forward s x \<Longrightarrow> okR (forward s) (leave_block env x op)"
  unfolding leave_block_def Let_def
  by (intro okR_tryR [where Q = "forward s"] okR_if fwd.ResolveBlockResults fwd.i.I_UnwindBlockStack fwd.i.I_PushBlockResults
      forward_PatchBranches) (simp_all add: forward_def)

lemma ahead_CompileBlock:
  assumes "\<And>z. okO (ahead z) (stmts z)" "forward s x"
  shows "okO (ahead s) (CompileBlock stmts env x ft op)"
  unfolding CompileBlock_def
proof (rule okO_tryO [where Q = "forward s"])
  show "okO (forward s) (Some (enter_block env x ft op))" using forward_enter_block [OF assms(2)] by simp
next
  fix y assume y: "forward s y"
  have body: "okO (ahead s) (stmts y)" using okO_mono [OF assms(1) ahead_trans [OF y]] .
  have tail: "okO (ahead s) (Some (leave_block env z op))" if "ahead s z" for z
    using okR_mono [OF forward_leave_block [OF forward_refl, of z]] ahead_forward [OF that] by simp
  show "okO (ahead s) (tryO (stmts y) (\<lambda>o'. Some (leave_block env o' op)))"
    by (rule okO_tryO [OF body tail])
qed

lemma forward_loop_start:
  assumes "forward s x"
  shows "okR (\<lambda>(t, x). forward s x) (tryR (PreserveRegisters (ce_page_ok env) x) (\<lambda>o'.
      tryR (PreserveArgsAndLocals env o') (ReadBlockType env)))"
    "okR (forward s) (if b then tryR (if c then instantiate_constants env is x else Inr x) (\<lambda>o'. emit_op_at env o' o_Loop) else Inr x)"
  using assms
  by (auto intro!: okR_tryR [where Q = "forward s"] fwd.PreserveRegisters fwd.PreserveArgs fwd.i.I_ReadBlockType fwd.instantiate fwd.emit_op)

lemma ahead_LoopOrBlock:
  assumes "\<And>z. okO (ahead z) (stmts z)" "forward s x"
  shows "okO (ahead s) (Compile_LoopOrBlock stmts env x op)"
  unfolding Compile_LoopOrBlock_def Let_def
  by (intro okO_tryO_pair [where Q = "forward s"] okO_tryO [where Q = "forward s"] ahead_CompileBlock assms(1))
    (use forward_loop_start assms(2) in simp_all)

lemma ahead_CompileElseBlock:
  assumes "\<And>z. okO (ahead z) (stmts z)" "forward s x"
  shows "okO (\<lambda>(pc, y). ahead s y) (CompileElseBlock stmts env x ft)"
  unfolding CompileElseBlock_def Let_def
proof (intro okO_tryO_pair [where Q = "forward s"] okO_tryO [where Q = "ahead s"])
  show "okO (\<lambda>(k, x). forward s x) (Some (AcquireCompilationPage env x))" using forward_Acquire [OF assms(2)] by simp
next
  fix k y assume "forward s y"
  then show "okO (ahead s) (CompileBlock stmts env (use_page k y) ft c_waOp_else)"
    by (intro ahead_CompileBlock assms(1)) simp
next
  fix k y z assume "ahead s z"
  then show "okO (ahead s) (Some (emit_op_at env z o_Branch))"
    using okR_mono [OF fwd.emit_op [OF forward_refl]] ahead_forward by simp
qed (simp add: ahead_def forward_def)

definition if_start :: "compile_env \<Rightarrow> M3Compilation \<Rightarrow> (pc_t option \<times> M3FuncType option \<times> M3Compilation) result" where
  "if_start env o' = tryR (PreserveNonTopRegisters (ce_page_ok env) o') (\<lambda>o'.
                tryR (PreserveArgsAndLocals env o') (\<lambda>o'.
                tryR (emit_op_at env o' (if IsStackTopInRegister o' then o_If_r else o_If_s)) (\<lambda>o'.
                tryR (EmitSlotNumOfStackTopAndPop o') (\<lambda>o'.
                  let (pc, o') = ReserveBranch o' in
                  tryR (ReadBlockType env o') (\<lambda>(blockType, o'). Inr (pc, blockType, o'))))))"

lemma forward_if_start: "forward s x \<Longrightarrow> okR (\<lambda>(pc, t, x). forward s x) (if_start env x)"
  unfolding if_start_def ReserveBranch_def Let_def prod.case
  by (intro okR_tryR [OF fwd.PreserveNonTopRegisters] okR_tryR [OF fwd.PreserveArgs] okR_tryR [OF fwd.emit_op]
      okR_tryR [OF fwd.EmitSlotNum] okR_tryR_pair [OF fwd.i.I_ReadBlockType]) simp_all

lemma ahead_If:
  assumes "\<And>z. okO (ahead z) (stmts z)" "forward s x"
  shows "okO (ahead s) (Compile_If stmts env x op)"
proof -
  have s: "ahead s (set_reserved pc w y) = ahead s y" for pc w y by (simp add: ahead_def)
  have f: "okO (\<lambda>(pc, y). ahead s y) (CompileElseBlock stmts env y ft)" if "forward s y" for y ft
    by (rule ahead_CompileElseBlock [OF assms(1) that])
  have rewind: "forward s (y\<lparr>co_wasm := co_wasm y - 1, stackIndex := si\<rparr>)" "forward s (y\<lparr>stackIndex := si\<rparr>)" if "ahead s y" for y si
    using that by (auto simp: ahead_def forward_def)
  show ?thesis
    unfolding Compile_If_def Let_def if_start_def [unfolded Let_def, symmetric]
    by (intro okO_tryO_triple [where Q = "forward s"] okO_tryO [where Q = "ahead s"] okO_if okO_tryO_pair [OF f]
        ahead_CompileBlock assms(1) rewind) (use forward_if_start [OF assms(2)] in \<open>simp_all add: s\<close>)
qed

lemma forward_Operator: "forward s x \<Longrightarrow> okR (forward s) (Compile_Operator env x op)"
  by (rule fwd.Operator)

lemma forward_statement:
  assumes "\<And>z. okO (ahead z) (stmts z)" "forward s x"
  shows "okO (forward s) (compile_statement stmts env x op)"
  unfolding compile_statement_def
  using okO_mono [OF ahead_LoopOrBlock [OF assms] aheadD] okO_mono [OF ahead_If [OF assms] aheadD] assms(2)
  by (auto split: option.split intro: forward_Operator forward_leaf forward_Extended)

lemma ahead_read: "okR (\<lambda>(v, y). ahead x y) (read_with Read_opcode env x)"
  by (auto simp: okR_def read_with_def Read_opcode_def ahead_def forward_def m3_result split: if_splits)

lemma ahead_statements: "okO (ahead x) (CompileBlockStatements n env x)"
proof (induction n arbitrary: x)
  case (Suc n)
  have rest: "okO (ahead x) (tryO (compile_statement (CompileBlockStatements n env) env y op) (\<lambda>o'.
      let o' = o'\<lparr>previousOpcode := op\<rparr> in
      if op = c_waOp_else then Some (throwif m3Err_wasmMalformed (sc_opcode (block o') \<noteq> c_waOp_if) (Inr o'))
      else if op = c_waOp_end then Some (Inr o') else CompileBlockStatements n env o'))" if y: "ahead x y" for y op
    unfolding Let_def
  proof (intro okO_tryO [where Q = "ahead x"] okO_if)
    show "okO (ahead x) (compile_statement (CompileBlockStatements n env) env y op)"
      using okO_mono [OF forward_statement [OF Suc.IH forward_refl]] ahead_forward [OF y] by metis
  next
    fix z assume "ahead x z"
    then have z: "ahead x (z\<lparr>previousOpcode := op\<rparr>)" by (simp add: ahead_def forward_previous)
    show "okO (ahead x) (Some (throwif m3Err_wasmMalformed (sc_opcode (block (z\<lparr>previousOpcode := op\<rparr>)) \<noteq> c_waOp_if)
            (Inr (z\<lparr>previousOpcode := op\<rparr>))))"
      using z by (auto intro: okR_throwif)
    show "okO (ahead x) (Some (Inr (z\<lparr>previousOpcode := op\<rparr>)))" using z by simp
    show "okO (ahead x) (CompileBlockStatements n env (z\<lparr>previousOpcode := op\<rparr>))"
      using okO_mono [OF Suc.IH ahead_trans [OF aheadD [OF z]]] .
  qed
  show ?case
    unfolding CompileBlockStatements.simps
    by (intro okO_if okO_tryO_pair [where Q = "ahead x"] rest) (use ahead_read in simp_all)
qed simp

section \<open>Enough fuel\<close>

abbreviation bytes_left :: "M3Compilation \<Rightarrow> nat" where
  "bytes_left x \<equiv> co_wasmEnd x - co_wasm x"

lemma forward_bytes_left: "forward x y \<Longrightarrow> bytes_left y \<le> bytes_left x"
  and ahead_bytes_left: "ahead x y \<Longrightarrow> co_wasm x < co_wasmEnd x \<Longrightarrow> bytes_left y < bytes_left x"
  by (auto simp: forward_def ahead_def)

text \<open>\<open>totalO P r\<close>: a result, that satisfies \<open>P\<close> if there is no error.\<close>

definition totalO :: "('a \<Rightarrow> bool) \<Rightarrow> 'a result option \<Rightarrow> bool" where
  "totalO P r \<longleftrightarrow> r \<noteq> None \<and> okO P r"

lemma totalO_Some [simp]: "totalO P (Some r) = okR P r"
  by (simp add: totalO_def)

lemma totalO_tryO: "totalO Q m \<Longrightarrow> (\<And>x. Q x \<Longrightarrow> totalO P (f x)) \<Longrightarrow> totalO P (tryO m f)"
  by (auto simp: totalO_def okO_def tryO_def split: option.splits sum.splits)

lemma totalO_tryO_pair: "totalO (\<lambda>(v, x). Q x) m \<Longrightarrow> (\<And>v x. Q x \<Longrightarrow> totalO P (f v x)) \<Longrightarrow> totalO P (tryO m (\<lambda>(v, x). f v x))"
  by (rule totalO_tryO [where Q = "\<lambda>(v, x). Q x"]) auto

lemma totalO_tryO_triple:
  "totalO (\<lambda>(u, v, x). Q x) m \<Longrightarrow> (\<And>u v x. Q x \<Longrightarrow> totalO P (f u v x)) \<Longrightarrow> totalO P (tryO m (\<lambda>(u, v, x). f u v x))"
  by (rule totalO_tryO [where Q = "\<lambda>(u, v, x). Q x"]) auto

lemma totalO_if: "(c \<Longrightarrow> totalO P a) \<Longrightarrow> (\<not> c \<Longrightarrow> totalO P b) \<Longrightarrow> totalO P (if c then a else b)"
  by simp

lemma total_CompileBlock:
  assumes stmts: "\<And>z. forward s z \<Longrightarrow> stmts z \<noteq> None" "\<And>z. okO (ahead z) (stmts z)" and x: "forward s x"
  shows "totalO (ahead s) (CompileBlock stmts env x ft op)"
proof -
  have "CompileBlock stmts env x ft op \<noteq> None"
    using totalO_tryO [where P = "\<lambda>_. True"] stmts(1) forward_enter_block [OF x]
    by (fastforce simp: CompileBlock_def tryO_def okR_def split: option.split sum.split)
  then show ?thesis using ahead_CompileBlock [OF stmts(2) x] by (simp add: totalO_def)
qed

lemma total_LoopOrBlock:
  assumes stmts: "\<And>z. forward s z \<Longrightarrow> stmts z \<noteq> None" "\<And>z. okO (ahead z) (stmts z)" and x: "forward s x"
  shows "totalO (ahead s) (Compile_LoopOrBlock stmts env x op)"
  unfolding Compile_LoopOrBlock_def Let_def
  by (intro totalO_tryO_pair [where Q = "forward s"] totalO_tryO [where Q = "forward s"] total_CompileBlock stmts)
    (use forward_loop_start x in simp_all)

lemma total_CompileElseBlock:
  assumes stmts: "\<And>z. forward s z \<Longrightarrow> stmts z \<noteq> None" "\<And>z. okO (ahead z) (stmts z)" and x: "forward s x"
  shows "totalO (\<lambda>(pc, y). ahead s y) (CompileElseBlock stmts env x ft)"
  unfolding CompileElseBlock_def Let_def
proof (intro totalO_tryO_pair [where Q = "forward s"] totalO_tryO [where Q = "ahead s"])
  show "totalO (\<lambda>(k, x). forward s x) (Some (AcquireCompilationPage env x))" using forward_Acquire [OF x] by simp
next
  fix k y assume "forward s y"
  then have "forward s (use_page k y)" by simp
  then show "totalO (ahead s) (CompileBlock stmts env (use_page k y) ft c_waOp_else)"
    using total_CompileBlock [OF stmts] by blast
next
  fix k y z assume "ahead s z"
  then show "totalO (ahead s) (Some (emit_op_at env z o_Branch))"
    using okR_mono [OF fwd.emit_op [OF forward_refl]] ahead_forward by simp
qed (simp add: ahead_def forward_def)

lemma total_If:
  assumes stmts: "\<And>z. forward s z \<Longrightarrow> stmts z \<noteq> None" "\<And>z. okO (ahead z) (stmts z)" and x: "forward s x"
  shows "totalO (ahead s) (Compile_If stmts env x op)"
proof -
  have s: "ahead s (set_reserved pc w y) = ahead s y" for pc w y by (simp add: ahead_def)
  have f: "totalO (\<lambda>(pc, y). ahead s y) (CompileElseBlock stmts env y ft)" if "forward s y" for y ft
    by (rule total_CompileElseBlock [OF stmts that])
  have rewind: "forward s (y\<lparr>co_wasm := co_wasm y - 1, stackIndex := si\<rparr>)" "forward s (y\<lparr>stackIndex := si\<rparr>)" if "ahead s y" for y si
    using that by (auto simp: ahead_def forward_def)
  show ?thesis
    unfolding Compile_If_def Let_def if_start_def [unfolded Let_def, symmetric]
    by (intro totalO_tryO_triple [where Q = "forward s"] totalO_tryO [where Q = "ahead s"] totalO_if totalO_tryO_pair [OF f]
        total_CompileBlock stmts rewind) (use forward_if_start [OF x] in \<open>simp_all add: s\<close>)
qed

lemma total_statement:
  assumes stmts: "\<And>z. forward s z \<Longrightarrow> stmts z \<noteq> None" "\<And>z. okO (ahead z) (stmts z)" and x: "forward s x"
  shows "totalO (forward s) (compile_statement stmts env x op)"
  using total_LoopOrBlock [OF stmts x] total_If [OF stmts x] forward_statement [OF stmts(2) x]
  by (auto simp: compile_statement_def totalO_def split: option.split)

lemma enough_fuel: "bytes_left x < n \<Longrightarrow> CompileBlockStatements n env x \<noteq> None"
proof (induction n arbitrary: x)
  case (Suc n)
  show ?case
  proof (cases "co_wasm x < co_wasmEnd x")
    case True
    have less: "CompileBlockStatements n env z \<noteq> None" if "ahead x z" for z
      using Suc.IH [of z] ahead_bytes_left [OF that True] Suc.prems by simp
    have "totalO (\<lambda>_. True) (tryO (compile_statement (CompileBlockStatements n env) env y op) (\<lambda>o'.
        let o' = o'\<lparr>previousOpcode := op\<rparr> in
        if op = c_waOp_else then Some (throwif m3Err_wasmMalformed (sc_opcode (block o') \<noteq> c_waOp_if) (Inr o'))
        else if op = c_waOp_end then Some (Inr o') else CompileBlockStatements n env o'))" if y: "ahead x y" for y op
    proof (rule totalO_tryO)
      show "totalO (forward y) (compile_statement (CompileBlockStatements n env) env y op)"
        using less ahead_forward [OF y] by (intro total_statement ahead_statements forward_refl) blast
    next
      fix z assume "forward y z"
      then have "ahead x (z\<lparr>previousOpcode := op\<rparr>)" using ahead_forward [OF y] by (simp add: forward_previous)
      from less [OF this] show "totalO (\<lambda>_. True) (let o' = z\<lparr>previousOpcode := op\<rparr> in
        if op = c_waOp_else then Some (throwif m3Err_wasmMalformed (sc_opcode (block o') \<noteq> c_waOp_if) (Inr o'))
        else if op = c_waOp_end then Some (Inr o') else CompileBlockStatements n env o')"
        by (auto simp: totalO_def okO_def Let_def)
    qed
    note rest = this
    have "totalO (\<lambda>_. True) (CompileBlockStatements (Suc n) env x)"
      unfolding CompileBlockStatements.simps
      by (intro totalO_if totalO_tryO_pair [where Q = "ahead x"] rest) (use True ahead_read in simp_all)
    then show ?thesis by (simp add: totalO_def)
  qed simp
qed simp

text \<open>More fuel gives the same result.\<close>

definition below :: "'a option \<Rightarrow> 'a option \<Rightarrow> bool" where
  "below r r' \<longleftrightarrow> r = None \<or> r = r'"

lemma below_refl [simp]: "below r r" by (simp add: below_def)

lemma below_tryO: "below m m' \<Longrightarrow> (\<And>x. below (f x) (g x)) \<Longrightarrow> below (tryO m f) (tryO m' g)"
  by (auto simp: below_def tryO_def split: option.split sum.split)

lemma below_tryO_pair: "below m m' \<Longrightarrow> (\<And>v x. below (f v x) (g v x)) \<Longrightarrow> below (tryO m (\<lambda>(v, x). f v x)) (tryO m' (\<lambda>(v, x). g v x))"
  by (rule below_tryO) auto

lemma below_tryO_triple:
  "below m m' \<Longrightarrow> (\<And>u v x. below (f u v x) (g u v x)) \<Longrightarrow> below (tryO m (\<lambda>(u, v, x). f u v x)) (tryO m' (\<lambda>(u, v, x). g u v x))"
  by (rule below_tryO) auto

lemma below_if: "below a a' \<Longrightarrow> below b b' \<Longrightarrow> below (if c then a else b) (if c then a' else b')"
  by simp

lemma below_statement:
  assumes stmts: "\<And>z. below (f z) (g z)"
  shows "below (compile_statement f env x op) (compile_statement g env x op)"
proof -
  have block: "below (CompileBlock f env x ft op) (CompileBlock g env x ft op)" for x ft op
    unfolding CompileBlock_def by (intro below_tryO stmts below_refl)
  have else': "below (CompileElseBlock f env x ft) (CompileElseBlock g env x ft)" for x ft
    unfolding CompileElseBlock_def Let_def by (intro below_tryO_pair below_tryO block below_refl)
  have "below (Compile_LoopOrBlock f env x op) (Compile_LoopOrBlock g env x op)"
    unfolding Compile_LoopOrBlock_def by (intro below_tryO_pair below_tryO block below_refl)
  moreover have "below (Compile_If f env x op) (Compile_If g env x op)"
    unfolding Compile_If_def Let_def
    by (intro below_tryO_triple below_tryO_pair below_tryO below_if block else' below_refl)
  ultimately show ?thesis by (simp add: compile_statement_def split: option.split)
qed

lemma below_Suc: "below (CompileBlockStatements n env x) (CompileBlockStatements (Suc n) env x)"
proof (induction n arbitrary: x)
  case 0
  show ?case by (simp add: below_def)
next
  case (Suc n)
  show ?case
    unfolding CompileBlockStatements.simps(2) [of n] CompileBlockStatements.simps(2) [of "Suc n"] Let_def
    by (intro below_if below_tryO_pair below_tryO below_statement Suc [unfolded CompileBlockStatements.simps(2) [of n] Let_def] below_refl)
qed

lemma more_fuel: "n \<le> m \<Longrightarrow> CompileBlockStatements n env x = Some r \<Longrightarrow> CompileBlockStatements m env x = Some r"
proof (induction m rule: nat_induct_at_least)
  case (Suc m)
  from Suc(2) [OF Suc(3)] have "CompileBlockStatements m env x = Some r" .
  then show ?case using below_Suc [of m env x] by (simp add: below_def)
qed

section \<open>Functions\<close>

lemma forward_set_function: "forward s (set_function g x) = forward s x"
  by (simp add: forward_def)

lemma forward_AcquireCompilationPage: "forward s x \<Longrightarrow> okR (\<lambda>(k, x). forward s x) (AcquireCompilationPage env x)"
  by (rule forward_Acquire)

lemma forward_begin_function: "forward s x \<Longrightarrow> okR (forward s) (begin_function env x)"
  unfolding begin_function_def Let_def
  by (intro okR_tryR_pair [where Q = "forward s"] okR_tryR [where Q = "forward s"] fwd.i.I_read_u32 forward_Acquire fwd.i.I_MarkSlots)
    (auto simp: forward_def)

lemma forward_push_args: "forward s x \<Longrightarrow> okR (forward s) (push_args ft is x)"
proof (induction "is" arbitrary: x)
  case (Cons i "is")
  show ?case unfolding push_args.simps
    by (intro okR_tryR [OF fwd.i.I_PushAllocatedSlot [OF Cons.prems]] Cons.IH) (simp add: forward_def)
qed simp

lemma forward_push_arguments: "forward s x \<Longrightarrow> okR (forward s) (push_arguments env x)"
  unfolding push_arguments_def Let_def
  by (intro okR_tryR [OF forward_push_args]) (simp_all add: forward_def)

lemma forward_measure_locals: "forward s x \<Longrightarrow> forward s (measure_locals x)"
  using fwd.i.I_GetMaxUsedSlot [of s x] by (auto simp: measure_locals_def Let_def forward_def split: prod.split)

lemma forward_start_body: "forward s x \<Longrightarrow> okR (forward s) (start_body env fi x)"
  unfolding start_body_def Let_def ReserveConstants_def
  by (intro okR_tryR [where Q = "forward s"] okR_throwif okR_tryR [OF fwd.emit_op]) (simp_all add: forward_def)

lemma step_function_same:
  assumes "okR Q r" "\<And>x. Q x \<Longrightarrow> \<exists>v. \<forall>n\<ge>m. k n x = Some v"
  shows "\<exists>v. \<forall>n\<ge>m. step_function f r (k n) = Some v"
  using assms by (cases r) (auto simp: step_function_def)

text \<open>A module with one function without arguments and results, for the body \<open>w\<close>.\<close>

definition sample_env :: "u8 list \<Rightarrow> compile_env" where
  "sample_env w = \<lparr>ce_page_ok = (\<lambda>_. True), ce_wasm = w,
     ce_module = zero_module\<lparr>numFuncTypes := 1, m_funcTypes := [Some 0], numFunctions := 1,
       m_functions := [zero_function\<lparr>fn_funcType := Some 0, fn_wasm := Some 0, fn_wasmEnd := Some (length w)\<rparr>]\<rparr>,
     ce_environment = \<lparr>funcTypes = [\<lparr>ft_numRets = 0, ft_numArgs = 0, ft_types = []\<rparr>], retFuncTypes = [0, 0, 0, 0, 0]\<rparr>\<rparr>"

definition compile_sample :: "nat \<Rightarrow> u8 list \<Rightarrow> function_result" where
  "compile_sample fuel w = CompileFunction fuel (sample_env w) True 0 (m_functions (ce_module (sample_env w)) ! 0)"

text \<open>A block left by a table, a loop, and an \<^verbatim>\<open>if\<close> with an \<^verbatim>\<open>else\<close>.\<close>

definition sample_body :: "u8 list" where
  "sample_body = [26, 0, 0x02, 0x40, 0x41, 0, 0x0e, 1, 0, 0, 0x0b, 0x03, 0x40, 0x41, 0, 0x0d, 0, 0x0b,
     0x41, 0, 0x04, 0x40, 0x01, 0x05, 0x01, 0x0b, 0x0b]"

text \<open>C4: compiling a function ends, on every body: with more fuel than the body has bytes there is a
  result, and no greater amount of fuel changes it. So the recursion of \<^verbatim>\<open>CompileBlockStatements\<close> over
  nested blocks, including the second pass over an \<^verbatim>\<open>if\<close> without \<^verbatim>\<open>else\<close> that backs up by one byte,
  always comes to an end.\<close>

theorem CompileFunction_terminates:
  assumes "fn_wasm f = Some wasm" "fn_wasmEnd f = Some wasm_end" "wasm_end - wasm < fuel"
  shows "\<exists>r. \<forall>n\<ge>fuel. CompileFunction n env copy_ok fi f = Some r"
proof -
  define z where "z = zero_compilation wasm wasm_end"
  define z1 where "z1 = z\<lparr>co_function := Some f\<rparr>"
  define z2 where "z2 = z1\<lparr>block := (block z1)\<lparr>sc_type := function_type env z1\<rparr>\<rparr>"
  have z2: "forward z2 z2" "bytes_left z2 < fuel" using assms(3) by (simp_all add: z2_def z1_def z_def)
  have body: "\<exists>r. \<forall>n\<ge>fuel. (case CompileBlockStatements n env x of None \<Rightarrow> None | Some r \<Rightarrow> k r) = Some r"
    if x: "forward z2 x" and k: "\<And>r. \<exists>v. k r = Some v" for x k
  proof -
    have "bytes_left x < fuel" using forward_bytes_left [OF x] z2(2) by simp
    then obtain r where r: "CompileBlockStatements fuel env x = Some r" using enough_fuel by blast
    obtain v where "k r = Some v" using k by blast
    then show ?thesis using more_fuel [OF _ r] by auto
  qed
  have last: "\<exists>v. step_function f r (\<lambda>o'. if b o' then Some (e o') else finish_function copy_ok pc o') = Some v" for f r b e pc
    by (auto simp: step_function_def finish_function_def Let_def simp del: split_paired_Ex split: sum.split)
  have eq: "CompileFunction n env copy_ok fi f = step_function f (begin_function env z2) (\<lambda>o'.
      step_function (the_function o') (push_arguments env o') (\<lambda>p.
      step_function (the_function p) (CompileLocals env p) (\<lambda>l.
      step_function (the_function (measure_locals l)) (start_body env fi (measure_locals l)) (\<lambda>b.
        case CompileBlockStatements n env b of None \<Rightarrow> None
        | Some r \<Rightarrow> step_function (the_function b) r (\<lambda>e.
            if previousOpcode e \<noteq> c_waOp_end then Some (Some m3Err_wasmMalformed, the_function e, None)
            else finish_function copy_ok (Some (cur_page o', 0)) e)))))" for n
    using assms(1,2) by (simp add: CompileFunction_def Let_def z_def z1_def z2_def)
  show ?thesis
    unfolding eq
    by (intro step_function_same [where Q = "forward z2"] body last forward_begin_function forward_push_arguments
        fwd.i.I_CompileLocals forward_start_body forward_measure_locals z2(1))
qed

theorem CompileFunction_terminates_witness:
  "\<exists>r. \<forall>n\<ge>28. CompileFunction n (sample_env sample_body) True 0 (m_functions (ce_module (sample_env sample_body)) ! 0) = Some r"
  by (rule CompileFunction_terminates [of _ 0 27]) (simp_all add: sample_env_def sample_body_def)

end
