(* ===== verification/M3_Targets.thy ===== *)
theory M3_Targets
  imports M3_Blocks_Props
begin

text \<open>
  Branch targets: every pointer in the code of a compiled function leads to an operation. The
  invariant tells the words that hold a final target from those that are still links of the patch
  list of a scope, and from those reserved for a target to come; a target may be the end of a page
  only until the next operation is emitted there.
\<close>

section \<open>Words of the code\<close>

abbreviation page_length :: "M3Compilation \<Rightarrow> nat \<Rightarrow> nat" where
  "page_length x k \<equiv> length (page_words x k)"

lemma word_at_None: "word_at x p = None \<longleftrightarrow> page_length x (fst p) \<le> snd p"
  by (auto simp: word_at_def)

lemma word_at_length: "word_at x (k, i) = Some w \<Longrightarrow> i < page_length x k"
  by (auto simp: word_at_def split: if_splits)

lemma word_at_emit:
  "has_page x \<Longrightarrow> word_at (emit_word x w) p = (if p = (cur_page x, page_length x (cur_page x)) then Some w else word_at x p)"
  by (cases p) (auto simp: word_at_def page_words_def emit_word_def nth_append less_Suc_eq)

lemma page_length_emit: "has_page x \<Longrightarrow> page_length (emit_word x w) k = page_length x k + (if k = cur_page x then 1 else 0)"
  by (simp add: page_words_def emit_word_def)

lemma word_at_set: "word_at (set_word q w x) p = (if p = q \<and> word_at x q \<noteq> None then Some w else word_at x p)"
  by (cases p; cases q) (auto simp: word_at_def page_words_def set_word_def)

lemma page_length_set [simp]: "page_length (set_word q w x) k = page_length x k"
  by (simp add: page_words_def set_word_def)

lemma page_words_use [simp]: "has_page x \<Longrightarrow> page_words (use_page k x) j = page_words x j"
  by (simp add: page_words_def use_page_def)

lemma word_at_use [simp]: "has_page x \<Longrightarrow> word_at (use_page k x) p = word_at x p"
  by (simp add: word_at_def)

lemma page_words_same: "same_control x y \<Longrightarrow> page_words y k = page_words x k"
  by (simp add: page_words_def same_control_def)

lemma word_at_same: "same_control x y \<Longrightarrow> word_at y p = word_at x p"
  by (simp add: word_at_def page_words_same)

section \<open>Targets, links and reserved words\<close>

text \<open>
  What the invariant knows beside the state: the current page, the pages still in use, those of them
  that may end at a target, the reserved words, the targets kept in variables, how many requests
  exceed the links, and position, depth and opcode of every scope.
\<close>

record ghost =
  g_page :: nat
  g_used :: "nat set"
  g_ends :: "nat set"
  g_reserved :: "pc_t list"
  g_tracked :: "pc_t set"
  g_slack :: nat
  g_scopes :: "(pc_t option \<times> int \<times> u16) list"

definition target_ok :: "ghost \<Rightarrow> M3Compilation \<Rightarrow> pc_t \<Rightarrow> bool" where
  "target_ok G x q \<longleftrightarrow> fst q < numPages x
     \<and> ((\<exists>op. word_at x q = Some (W_op op))
        \<or> snd q = page_length x (fst q) \<and> (fst q \<in> g_ends G \<or> fst q \<notin> g_used G \<and> snd q = 0))"

text \<open>The links from \<open>ps\<close> on are at the positions \<open>L\<close>.\<close>

primrec chain :: "M3Compilation \<Rightarrow> pc_t option \<Rightarrow> pc_t list \<Rightarrow> bool" where
  "chain x ps [] \<longleftrightarrow> ps = None"
| "chain x ps (p # L) \<longleftrightarrow> ps = Some p \<and> (\<exists>n. word_at x p = Some (W_pc n) \<and> chain x n L)"

definition scope_view :: "M3CompilationScope \<Rightarrow> pc_t option \<times> int \<times> u16" where
  "scope_view s = (sc_pc s, depth s, sc_opcode s)"

abbreviation scopes :: "M3Compilation \<Rightarrow> M3CompilationScope list" where
  "scopes x \<equiv> block x # outer x"

definition links_ok :: "M3Compilation \<Rightarrow> M3CompilationScope \<Rightarrow> pc_t list \<Rightarrow> bool" where
  "links_ok x s L \<longleftrightarrow> chain x (patches s) L \<and> (depth s = 0 \<longrightarrow> L = [])"

definition pages_ok :: "ghost \<Rightarrow> M3Compilation \<Rightarrow> bool" where
  "pages_ok G x \<longleftrightarrow> has_page x \<and> cur_page x = g_page G \<and> g_page G \<in> g_used G \<and> g_ends G \<subseteq> g_used G
     \<and> (\<forall>k\<in>g_used G. k < numPages x) \<and> (\<forall>k\<ge>numPages x. page_words x k = [])"

definition tracked :: "ghost \<Rightarrow> pc_t set" where
  "tracked G = g_tracked G \<union> {q. \<exists>d op. (Some q, d, op) \<in> set (g_scopes G)}"

definition words_ok :: "ghost \<Rightarrow> pc_t list \<Rightarrow> M3Compilation \<Rightarrow> bool" where
  "words_ok G L x \<longleftrightarrow> distinct (L @ g_reserved G)
     \<and> (\<forall>p\<in>set (g_reserved G). \<exists>t. word_at x p = Some (W_pc t))
     \<and> (\<forall>p t. word_at x p = Some (W_pc t) \<longrightarrow> p \<in> set L \<or> p \<in> set (g_reserved G) \<or> (\<exists>q. t = Some q \<and> target_ok G x q))
     \<and> (\<forall>q\<in>tracked G. target_ok G x q)"

definition code_ok :: "ghost \<Rightarrow> pc_t list list \<Rightarrow> M3Compilation \<Rightarrow> bool" where
  "code_ok G Ls x \<longleftrightarrow> pages_ok G x
     \<and> map scope_view (scopes x) = g_scopes G \<and> (\<forall>(pc, d, op)\<in>set (g_scopes G). op = c_waOp_loop \<longrightarrow> pc \<noteq> None)
     \<and> list_all2 (links_ok x) (scopes x) Ls \<and> length (concat Ls) + g_slack G \<le> requests x
     \<and> words_ok G (concat Ls) x"

definition code_inv :: "ghost \<Rightarrow> M3Compilation \<Rightarrow> bool" where
  "code_inv G x \<longleftrightarrow> (\<exists>Ls. code_ok G Ls x)"

abbreviation closed :: "ghost \<Rightarrow> ghost" where
  "closed G \<equiv> G\<lparr>g_ends := g_ends G - {g_page G}\<rparr>"

lemma tracked_simps [simp]: "tracked (G\<lparr>g_ends := e\<rparr>) = tracked G" "tracked (G\<lparr>g_slack := n\<rparr>) = tracked G"
  "tracked (G\<lparr>g_reserved := r\<rparr>) = tracked G" "tracked (G\<lparr>g_page := k\<rparr>) = tracked G" "tracked (G\<lparr>g_used := u\<rparr>) = tracked G"
  by (simp_all add: tracked_def)

lemma target_ok_simps [simp]: "target_ok (G\<lparr>g_slack := n\<rparr>) = target_ok G" "target_ok (G\<lparr>g_reserved := r\<rparr>) = target_ok G"
  "target_ok (G\<lparr>g_page := k\<rparr>) = target_ok G" "target_ok (G\<lparr>g_tracked := t\<rparr>) = target_ok G" "target_ok (G\<lparr>g_scopes := s\<rparr>) = target_ok G"
  by (simp_all add: target_ok_def fun_eq_iff)

lemma chain_cong: "chain x ps L \<Longrightarrow> (\<And>p. p \<in> set L \<Longrightarrow> word_at y p = word_at x p) \<Longrightarrow> chain y ps L"
  by (induction L arbitrary: ps) auto

lemma chain_word: "chain x ps L \<Longrightarrow> p \<in> set L \<Longrightarrow> \<exists>t. word_at x p = Some (W_pc t)"
  by (induction L arbitrary: ps) auto

lemma links_cong: "list_all2 (links_ok x) ss Ls \<Longrightarrow> (\<And>p. p \<in> set (concat Ls) \<Longrightarrow> word_at y p = word_at x p)
    \<Longrightarrow> list_all2 (links_ok y) ss Ls"
  by (induction rule: list_all2_induct) (auto simp: links_ok_def elim!: chain_cong)

lemma links_word: "list_all2 (links_ok x) ss Ls \<Longrightarrow> p \<in> set (concat Ls) \<Longrightarrow> \<exists>t. word_at x p = Some (W_pc t)"
  by (induction rule: list_all2_induct) (auto simp: links_ok_def dest: chain_word)

lemma words_okI:
  assumes "distinct (L @ g_reserved G)" "\<And>p. p \<in> set (g_reserved G) \<Longrightarrow> \<exists>t. word_at x p = Some (W_pc t)"
    "\<And>p t. word_at x p = Some (W_pc t) \<Longrightarrow> p \<notin> set L \<Longrightarrow> p \<notin> set (g_reserved G) \<Longrightarrow> \<exists>q. t = Some q \<and> target_ok G x q"
    "\<And>q. q \<in> tracked G \<Longrightarrow> target_ok G x q"
  shows "words_ok G L x"
  using assms by (auto simp: words_ok_def)

lemma words_okD:
  assumes "words_ok G L x"
  shows "distinct (L @ g_reserved G)" "p \<in> set (g_reserved G) \<Longrightarrow> \<exists>t. word_at x p = Some (W_pc t)"
    "word_at x p = Some (W_pc t) \<Longrightarrow> p \<notin> set L \<Longrightarrow> p \<notin> set (g_reserved G) \<Longrightarrow> \<exists>q. t = Some q \<and> target_ok G x q"
    "q \<in> tracked G \<Longrightarrow> target_ok G x q"
  using assms unfolding words_ok_def by blast+

section \<open>The steps keep the invariant\<close>

lemma code_ok_same:
  assumes "code_ok G Ls x" "same_control x y"
  shows "code_ok G Ls y"
proof -
  have c: "has_page y = has_page x" "cur_page y = cur_page x" "numPages y = numPages x" "requests y = requests x"
      "outer y = outer x" "same_scope (block x) (block y)"
    using assms(2) by (simp_all add: same_control_def)
  have w: "word_at y p = word_at x p" "page_words y k = page_words x k" for p k
    using word_at_same [OF assms(2)] page_words_same [OF assms(2)] by simp_all
  have t: "target_ok G y q = target_ok G x q" for q
    by (simp add: target_ok_def w c)
  have b: "scope_view (block y) = scope_view (block x)" "links_ok x (block y) L = links_ok x (block x) L" for L
    using c(6) by (simp_all add: same_scope_def scope_view_def links_ok_def)
  have "list_all2 (links_ok x) (scopes y) Ls"
    using assms(1) by (cases Ls) (auto simp: code_ok_def b c)
  then have "list_all2 (links_ok y) (scopes y) Ls" by (rule links_cong) (simp add: w)
  then show ?thesis using assms(1) by (simp add: code_ok_def pages_ok_def words_ok_def c w t b)
qed

lemma code_ok_op:
  assumes "code_ok G Ls x"
  shows "code_ok (closed G\<lparr>g_slack := Suc (g_slack G)\<rparr>) Ls (emit_word (x\<lparr>requests := requests x + 1\<rparr>) (W_op op))"
proof -
  define y where "y = emit_word (x\<lparr>requests := requests x + 1\<rparr>) (W_op op)"
  have p: "has_page x" "cur_page x = g_page G" "g_page G \<in> g_used G" "g_page G < numPages x"
    using assms by (auto simp: code_ok_def pages_ok_def)
  have same: "same_control x (x\<lparr>requests := requests x\<rparr>)" by (simp add: same_control_def)
  have w0: "word_at (x\<lparr>requests := r\<rparr>) p = word_at x p" "page_words (x\<lparr>requests := r\<rparr>) k = page_words x k" for r p k
    by (simp_all add: word_at_def page_words_def)
  have w: "word_at y p = (if p = (g_page G, page_length x (g_page G)) then Some (W_op op) else word_at x p)" for p
    using word_at_emit [of "x\<lparr>requests := requests x + 1\<rparr>"] p by (simp add: y_def w0)
  have l: "page_length y k = page_length x k + (if k = g_page G then 1 else 0)" for k
    using page_length_emit [of "x\<lparr>requests := requests x + 1\<rparr>"] p by (simp add: y_def w0)
  have c: "has_page y" "cur_page y = g_page G" "numPages y = numPages x" "requests y = Suc (requests x)" "outer y = outer x" "block y = block x"
    using p by (simp_all add: y_def emit_word_def)
  have new: "word_at x (g_page G, page_length x (g_page G)) = None" by (simp add: word_at_None)
  have t: "target_ok (closed G\<lparr>g_slack := n\<rparr>) y q" if "target_ok G x q" for q n
  proof (cases "q = (g_page G, page_length x (g_page G))")
    case False
    obtain k i where q: "q = (k, i)" by (cases q)
    show ?thesis
    proof (cases "\<exists>op. word_at x q = Some (W_op op)")
      case True
      then show ?thesis using that False by (simp add: target_ok_def w c)
    next
      case no: False
      with that have i: "i = page_length x k" "k \<in> g_ends G \<or> k \<notin> g_used G \<and> i = 0" "k < numPages x"
        by (auto simp: target_ok_def q)
      with False have "k \<noteq> g_page G" by (simp add: q)
      with i show ?thesis by (simp add: target_ok_def q l c)
    qed
  qed (use p in \<open>simp add: target_ok_def w c\<close>)
  have pc: "word_at y q = Some (W_pc v) \<longleftrightarrow> word_at x q = Some (W_pc v)" for q v
    using new by (auto simp: w)
  have links: "list_all2 (links_ok y) (scopes x) Ls"
  proof (rule links_cong)
    show L: "list_all2 (links_ok x) (scopes x) Ls" using assms by (simp add: code_ok_def)
    show "word_at y p = word_at x p" if "p \<in> set (concat Ls)" for p
      using links_word [OF L that] new by (auto simp: w)
  qed
  have pages: "page_words y k = []" if "k \<ge> numPages x" for k
    using assms that p l [of k] by (auto simp: code_ok_def pages_ok_def)
  have "words_ok G (concat Ls) x" using assms by (simp add: code_ok_def)
  note W = words_okD [OF this]
  have words: "words_ok (closed G\<lparr>g_slack := Suc (g_slack G)\<rparr>) (concat Ls) y"
  proof (rule words_okI)
    show "distinct (concat Ls @ g_reserved (closed G\<lparr>g_slack := Suc (g_slack G)\<rparr>))" using W(1) by simp
    show "\<exists>t. word_at y p = Some (W_pc t)" if "p \<in> set (g_reserved (closed G\<lparr>g_slack := Suc (g_slack G)\<rparr>))" for p
      using W(2) [of p] that by (simp add: pc)
    show "\<exists>q. v = Some q \<and> target_ok (closed G\<lparr>g_slack := Suc (g_slack G)\<rparr>) y q"
      if "word_at y p = Some (W_pc v)" "p \<notin> set (concat Ls)" "p \<notin> set (g_reserved (closed G\<lparr>g_slack := Suc (g_slack G)\<rparr>))" for p v
      using W(3) [of p v] that t by (auto simp: pc)
    show "target_ok (closed G\<lparr>g_slack := Suc (g_slack G)\<rparr>) y q" if "q \<in> tracked (closed G\<lparr>g_slack := Suc (g_slack G)\<rparr>)" for q
      using W(4) [of q] that t by simp
  qed
  have "pages_ok (closed G\<lparr>g_slack := Suc (g_slack G)\<rparr>) y"
    using assms pages by (auto simp: code_ok_def pages_ok_def c)
  then show ?thesis
    using assms links words unfolding y_def [symmetric] by (simp add: code_ok_def c)
qed

abbreviation here :: "M3Compilation \<Rightarrow> pc_t" where
  "here x \<equiv> (cur_page x, page_length x (cur_page x))"

lemma GetPC_here: "has_page x \<Longrightarrow> GetPC x = Some (here x)"
  by (simp add: GetPC_def page_words_def)

lemma code_okD:
  assumes "code_ok G Ls x"
  shows "pages_ok G x" "has_page x" "cur_page x = g_page G" "g_page G \<in> g_used G" "g_ends G \<subseteq> g_used G" "g_page G < numPages x"
    "list_all2 (links_ok x) (scopes x) Ls" "words_ok G (concat Ls) x" "length (concat Ls) + g_slack G \<le> requests x"
    "map scope_view (scopes x) = g_scopes G" "length Ls = length (scopes x)" "k \<in> g_used G \<Longrightarrow> k < numPages x"
    "numPages x \<le> k \<Longrightarrow> page_words x k = []"
  using assms by (auto simp: code_ok_def pages_ok_def dest: list_all2_lengthD)

lemma emit_word_more: "block (emit_word x w) = block x" "outer (emit_word x w) = outer x" "requests (emit_word x w) = requests x"
  "numPages (emit_word x w) = numPages x" "cur_page (emit_word x w) = cur_page x" "has_page (emit_word x w) = has_page x"
  by (simp_all add: emit_word_def)

text \<open>One more word on a page that is in the middle of an operation.\<close>

lemma emitted:
  assumes "pages_ok G x"
  shows "word_at x p = Some v \<Longrightarrow> word_at (emit_word x w) p = Some v"
    and "word_at (emit_word x w) p = Some v \<Longrightarrow> p = here x \<and> v = w \<or> word_at x p = Some v"
    and "word_at (emit_word x w) (here x) = Some w"
    and "pages_ok G (emit_word x w)"
    and "g_page G \<notin> g_ends G \<Longrightarrow> target_ok G x q \<Longrightarrow> target_ok G (emit_word x w) q"
proof -
  have p: "has_page x" "cur_page x = g_page G" "g_page G \<in> g_used G" using assms by (simp_all add: pages_ok_def)
  have none: "word_at x (here x) = None" by (simp add: word_at_None)
  note w = word_at_emit [OF p(1)] and l = page_length_emit [OF p(1)]
  show keep: "word_at (emit_word x w) p = Some v" if "word_at x p = Some v" for p v
    using that none by (cases "p = here x") (simp_all add: w)
  show "p = here x \<and> v = w \<or> word_at x p = Some v" if "word_at (emit_word x w) p = Some v"
    using that by (cases "p = here x") (simp_all add: w)
  show "word_at (emit_word x w) (here x) = Some w" by (simp add: w)
  have "page_words (emit_word x w) k = []" if "k \<ge> numPages x" for k
    using assms that l [of w k] by (auto simp: pages_ok_def)
  then show "pages_ok G (emit_word x w)" using assms by (auto simp: pages_ok_def emit_word_def)
  show "target_ok G (emit_word x w) q" if t: "target_ok G x q" "g_page G \<notin> g_ends G"
  proof (cases "\<exists>op. word_at x q = Some (W_op op)")
    case True
    then obtain op where "word_at (emit_word x w) q = Some (W_op op)" using keep by blast
    then show ?thesis using t by (simp add: target_ok_def emit_word_more)
  next
    case False
    with t have i: "snd q = page_length x (fst q)" "fst q \<in> g_ends G \<or> fst q \<notin> g_used G \<and> snd q = 0" "fst q < numPages x"
      by (auto simp: target_ok_def)
    moreover have "fst q \<noteq> cur_page x" using i(2) t(2) p by auto
    ultimately show ?thesis by (simp add: target_ok_def l emit_word_more)
  qed
qed

lemma links_emitted:
  assumes "code_ok G Ls x"
  shows "list_all2 (links_ok (emit_word x w)) (scopes x) Ls"
proof (rule links_cong)
  show L: "list_all2 (links_ok x) (scopes x) Ls" using code_okD(7) [OF assms] .
  show "word_at (emit_word x w) p = word_at x p" if "p \<in> set (concat Ls)" for p
    using links_word [OF L that] emitted(1) [OF code_okD(1) [OF assms]] by (metis (no_types))
qed

lemma here_new:
  assumes "code_ok G Ls x"
  shows "here x \<notin> set (concat Ls)" "here x \<notin> set (g_reserved G)"
  using links_word [OF code_okD(7) [OF assms], of "here x"] words_okD(2) [OF code_okD(8) [OF assms], of "here x"]
  by (auto simp: word_at_None dest: word_at_length)

lemma code_ok_word:
  assumes "code_ok G Ls x" "g_page G \<notin> g_ends G" "\<And>v. w = W_pc v \<Longrightarrow> \<exists>q. v = Some q \<and> target_ok G x q"
  shows "code_ok G Ls (emit_word x w)"
proof -
  note pages = code_okD(1) [OF assms(1)] and W = words_okD [OF code_okD(8) [OF assms(1)]]
  note e = emitted [OF pages, where w = w]
  have "words_ok G (concat Ls) (emit_word x w)"
  proof (rule words_okI)
    show "distinct (concat Ls @ g_reserved G)" by (rule W(1))
    show "\<exists>t. word_at (emit_word x w) p = Some (W_pc t)" if "p \<in> set (g_reserved G)" for p
      using W(2) [OF that] e(1) by blast
    show "\<exists>q. t = Some q \<and> target_ok G (emit_word x w) q"
      if "word_at (emit_word x w) p = Some (W_pc t)" "p \<notin> set (concat Ls)" "p \<notin> set (g_reserved G)" for p t
      using e(2) [OF that(1)] assms(3) [of t] W(3) [OF _ that(2,3), of t] e(5) [OF assms(2)] by blast
    show "target_ok G (emit_word x w) q" if "q \<in> tracked G" for q
      using W(4) [OF that] e(5) [OF assms(2)] by blast
  qed
  then show ?thesis
    using assms(1) e(4) links_emitted [OF assms(1), of w] by (simp add: code_ok_def emit_word_more)
qed

lemma code_ok_reserve:
  assumes "code_ok G Ls x" "g_page G \<notin> g_ends G"
  shows "code_ok (G\<lparr>g_reserved := here x # g_reserved G\<rparr>) Ls (emit_word x (W_pc t))"
proof -
  note pages = code_okD(1) [OF assms(1)] and W = words_okD [OF code_okD(8) [OF assms(1)]]
  note e = emitted [OF pages, where w = "W_pc t"]
  have "words_ok (G\<lparr>g_reserved := here x # g_reserved G\<rparr>) (concat Ls) (emit_word x (W_pc t))"
  proof (rule words_okI)
    show "distinct (concat Ls @ g_reserved (G\<lparr>g_reserved := here x # g_reserved G\<rparr>))"
      using W(1) here_new [OF assms(1)] by simp
    show "\<exists>v. word_at (emit_word x (W_pc t)) p = Some (W_pc v)" if "p \<in> set (g_reserved (G\<lparr>g_reserved := here x # g_reserved G\<rparr>))" for p
      using that W(2) [of p] e(1) [of p] e(3) by (cases "p = here x") auto
    show "\<exists>q. v = Some q \<and> target_ok (G\<lparr>g_reserved := here x # g_reserved G\<rparr>) (emit_word x (W_pc t)) q"
      if "word_at (emit_word x (W_pc t)) p = Some (W_pc v)" "p \<notin> set (concat Ls)"
        "p \<notin> set (g_reserved (G\<lparr>g_reserved := here x # g_reserved G\<rparr>))" for p v
      using e(2) [OF that(1)] that(2,3) W(3) [of p v] e(5) [OF assms(2)] by auto
    show "target_ok (G\<lparr>g_reserved := here x # g_reserved G\<rparr>) (emit_word x (W_pc t)) q"
      if "q \<in> tracked (G\<lparr>g_reserved := here x # g_reserved G\<rparr>)" for q
      using W(4) [of q] that e(5) [OF assms(2)] by simp
  qed
  then show ?thesis
    using assms(1) e(4) links_emitted [OF assms(1), of "W_pc t"] by (simp add: code_ok_def emit_word_more pages_ok_def)
qed

lemma code_ok_weaken:
  assumes "code_ok G Ls x" "g_ends G \<subseteq> ends" "ends \<subseteq> g_used G" "n \<le> g_slack G" "T \<subseteq> g_tracked G"
  shows "code_ok (G\<lparr>g_ends := ends, g_slack := n, g_tracked := T\<rparr>) Ls x"
proof -
  let ?G = "G\<lparr>g_ends := ends, g_slack := n, g_tracked := T\<rparr>"
  have t: "target_ok ?G x q" if "target_ok G x q" for q
    using that assms(2) by (auto simp: target_ok_def)
  note W = words_okD [OF code_okD(8) [OF assms(1)]]
  have T: "tracked ?G \<subseteq> tracked G" using assms(5) by (auto simp: tracked_def)
  have "words_ok ?G (concat Ls) x"
  proof (rule words_okI)
    show "\<exists>q. v = Some q \<and> target_ok ?G x q"
      if "word_at x p = Some (W_pc v)" "p \<notin> set (concat Ls)" "p \<notin> set (g_reserved ?G)" for p v
      using W(3) [OF that(1,2)] that(3) t by auto
    show "target_ok ?G x q" if "q \<in> tracked ?G" for q
      using t W(4) [of q] that T by blast
  qed (use W in simp_all)
  then show ?thesis using assms by (auto simp: code_ok_def pages_ok_def)
qed

lemma code_ok_track:
  assumes "code_ok G Ls x" "target_ok G x q"
  shows "code_ok (G\<lparr>g_tracked := insert q (g_tracked G)\<rparr>) Ls x"
  using assms by (auto simp: code_ok_def pages_ok_def words_ok_def tracked_def)

lemma target_here: "code_ok G Ls x \<Longrightarrow> g_page G \<in> g_ends G \<Longrightarrow> target_ok G x (here x)"
  using code_okD [of G Ls x] by (simp add: target_ok_def)

text \<open>A reserved word or a link becomes a final target.\<close>

lemma set_word_more: "has_page (set_word p w x) = has_page x" "cur_page (set_word p w x) = cur_page x"
  "numPages (set_word p w x) = numPages x" "requests (set_word p w x) = requests x"
  "block (set_word p w x) = block x" "outer (set_word p w x) = outer x"
  by (simp_all add: set_word_def)

lemma target_ok_set:
  assumes "word_at x p = Some (W_pc v)" "target_ok G x r"
  shows "target_ok G (set_word p w x) r"
proof -
  have "word_at (set_word p w x) r = word_at x r" if "\<exists>op. word_at x r = Some (W_op op)"
    using that assms(1) by (auto simp: word_at_set)
  then show ?thesis using assms(2) by (auto simp: target_ok_def set_word_more)
qed

lemma code_ok_set:
  assumes "code_ok G Ls x" "g_reserved G = p # R" "target_ok G x q"
  shows "code_ok (G\<lparr>g_reserved := R\<rparr>) Ls (set_word p (W_pc (Some q)) x)"
proof -
  let ?y = "set_word p (W_pc (Some q)) x"
  note W = words_okD [OF code_okD(8) [OF assms(1)]]
  obtain v where p: "word_at x p = Some (W_pc v)" using W(2) [of p] assms(2) by auto
  have w: "word_at ?y r = (if r = p then Some (W_pc (Some q)) else word_at x r)" for r
    using p by (simp add: word_at_set)
  have t: "target_ok G ?y r" if "target_ok G x r" for r
    using target_ok_set [OF p that] .
  have words: "words_ok (G\<lparr>g_reserved := R\<rparr>) (concat Ls) ?y"
  proof (rule words_okI)
    show "distinct (concat Ls @ g_reserved (G\<lparr>g_reserved := R\<rparr>))" using W(1) assms(2) by simp
    show "\<exists>t. word_at ?y r = Some (W_pc t)" if "r \<in> set (g_reserved (G\<lparr>g_reserved := R\<rparr>))" for r
      using W(2) [of r] that assms(2) by (simp add: w)
    show "\<exists>q. t = Some q \<and> target_ok (G\<lparr>g_reserved := R\<rparr>) ?y q"
      if "word_at ?y r = Some (W_pc t)" "r \<notin> set (concat Ls)" "r \<notin> set (g_reserved (G\<lparr>g_reserved := R\<rparr>))" for r t
    proof (cases "r = p")
      case True
      then have "t = Some q" using that(1) by (simp add: w)
      then show ?thesis using t [OF assms(3)] by simp
    next
      case False
      then show ?thesis using that W(3) [of r t] assms(2) t by (auto simp: w)
    qed
    show "target_ok (G\<lparr>g_reserved := R\<rparr>) ?y r" if "r \<in> tracked (G\<lparr>g_reserved := R\<rparr>)" for r
      using W(4) [of r] that t by simp
  qed
  have "list_all2 (links_ok ?y) (scopes x) Ls"
  proof (rule links_cong [OF code_okD(7) [OF assms(1)]])
    show "word_at ?y r = word_at x r" if "r \<in> set (concat Ls)" for r
      using that W(1) assms(2) by (auto simp: w)
  qed
  moreover have "page_words ?y k = []" if "k \<ge> numPages x" for k
    using code_okD(13) [OF assms(1) that] page_length_set [of p "W_pc (Some q)" x k] by (metis length_0_conv)
  ultimately show ?thesis using assms(1) words by (simp add: code_ok_def pages_ok_def set_word_more)
qed

text \<open>A new link at the head of the list of a scope.\<close>

lemma scopes_set_patches: "d \<le> length (outer x) \<Longrightarrow>
    scopes (set_patches d p x) = (scopes x)[d := (scopes x ! d)\<lparr>patches := p\<rparr>]"
  by (auto simp: set_patches_def split: nat.split)

lemma set_patches_more:
  "has_page (set_patches d p x) = has_page x" "cur_page (set_patches d p x) = cur_page x" "numPages (set_patches d p x) = numPages x"
  "requests (set_patches d p x) = requests x" "page_words (set_patches d p x) k = page_words x k" "word_at (set_patches d p x) r = word_at x r"
  by (simp_all add: set_patches_def page_words_def word_at_def split: nat.split)

lemma map_scope_view_patches: "map scope_view (ss[d := (ss ! d)\<lparr>patches := p\<rparr>]) = map scope_view ss"
  by (cases "d < length ss") (auto intro!: nth_equalityI simp: nth_list_update scope_view_def)

lemma code_ok_link:
  assumes "code_ok G Ls x" "g_page G \<notin> g_ends G" "d \<le> length (outer x)" "depth (scopes x ! d) \<noteq> 0" "g_slack G = Suc n"
  shows "code_ok (G\<lparr>g_slack := n\<rparr>) (Ls[d := here x # Ls ! d]) (set_patches d (Some (here x)) (emit_word x (W_pc (patches (scopes x ! d)))))"
proof -
  let ?w = "W_pc (patches (scopes x ! d))" and ?L = "Ls[d := here x # Ls ! d]"
  let ?e = "emit_word x ?w"
  let ?y = "set_patches d (Some (here x)) ?e"
  note pages = code_okD(1) [OF assms(1)] and W = words_okD [OF code_okD(8) [OF assms(1)]]
  note e = emitted [OF pages, where w = ?w] and new = here_new [OF assms(1)]
  have len: "length Ls = length (scopes x)" "d < length Ls" using code_okD(11) [OF assms(1)] assms(3) by simp_all
  have sc: "scopes ?y = (scopes x)[d := (scopes x ! d)\<lparr>patches := Some (here x)\<rparr>]"
    using scopes_set_patches [of d ?e] assms(3) by (simp add: emit_word_more)
  define A B where "A = concat (take d Ls)" and "B = concat (drop (Suc d) Ls)"
  have Ls: "concat Ls = A @ Ls ! d @ B"
    by (subst id_take_nth_drop [OF len(2)]) (simp add: A_def B_def)
  have L: "concat ?L = A @ (here x # Ls ! d) @ B"
    using len(2) by (simp add: upd_conv_take_nth_drop A_def B_def)
  have set: "set (concat ?L) = insert (here x) (set (concat Ls))" unfolding Ls L by auto
  have y: "word_at ?y r = word_at ?e r" "page_words ?y k = page_words ?e k" "numPages ?y = numPages x" "requests ?y = requests x"
    "has_page ?y = has_page x" "cur_page ?y = cur_page x" for r k
    by (simp_all add: set_patches_more emit_word_more)
  have t: "target_ok (G\<lparr>g_slack := n\<rparr>) ?y q" if "target_ok G x q" for q
    using e(5) [OF assms(2) that] by (simp add: target_ok_def y emit_word_more)
  have words: "words_ok (G\<lparr>g_slack := n\<rparr>) (concat ?L) ?y"
  proof (rule words_okI)
    show "distinct (concat ?L @ g_reserved (G\<lparr>g_slack := n\<rparr>))"
      using W(1) new unfolding Ls L by auto
    show "\<exists>t. word_at ?y p = Some (W_pc t)" if "p \<in> set (g_reserved (G\<lparr>g_slack := n\<rparr>))" for p
      using W(2) [of p] that e(1) [of p] by (auto simp: y)
    show "\<exists>q. v = Some q \<and> target_ok (G\<lparr>g_slack := n\<rparr>) ?y q"
      if "word_at ?y p = Some (W_pc v)" "p \<notin> set (concat ?L)" "p \<notin> set (g_reserved (G\<lparr>g_slack := n\<rparr>))" for p v
      using e(2) [of p "W_pc v"] that W(3) [of p v] t unfolding set y by auto
    show "target_ok (G\<lparr>g_slack := n\<rparr>) ?y q" if "q \<in> tracked (G\<lparr>g_slack := n\<rparr>)" for q
      using W(4) [of q] that t by simp
  qed
  have "list_all2 (links_ok ?e) (scopes x) Ls" by (rule links_emitted [OF assms(1)])
  then have "list_all2 (links_ok ?e) (scopes ?y) ?L"
    unfolding sc
  proof (rule list_all2_update_cong)
    have "links_ok ?e (scopes x ! d) (Ls ! d)"
      using links_emitted [OF assms(1)] len by (auto simp: list_all2_conv_all_nth)
    then show "links_ok ?e ((scopes x ! d)\<lparr>patches := Some (here x)\<rparr>) (here x # Ls ! d)"
      using e(3) assms(4) by (simp add: links_ok_def)
  qed
  then have links: "list_all2 (links_ok ?y) (scopes ?y) ?L" by (rule links_cong) (simp add: y)
  have "map scope_view (scopes ?y) = g_scopes G"
    unfolding sc map_scope_view_patches by (rule code_okD(10) [OF assms(1)])
  moreover have "length (concat ?L) = Suc (length (concat Ls))" unfolding Ls L by simp
  moreover have "pages_ok (G\<lparr>g_slack := n\<rparr>) ?y"
    using e(4) unfolding pages_ok_def y by (simp add: emit_word_more)
  ultimately show ?thesis
    using assms(1,5) words links unfolding code_ok_def y by auto
qed

text \<open>All links of the current scope, with the end of the code as their target.\<close>

lemma code_ok_unlink:
  assumes "code_ok G (L # Ls) x"
  shows "code_ok (G\<lparr>g_reserved := L @ g_reserved G\<rparr>) ([] # Ls) (x\<lparr>block := (block x)\<lparr>patches := None\<rparr>\<rparr>)"
    "chain (x\<lparr>block := (block x)\<lparr>patches := None\<rparr>\<rparr>) (patches (block x)) L" "length L \<le> requests x"
proof -
  let ?y = "x\<lparr>block := (block x)\<lparr>patches := None\<rparr>\<rparr>"
  note W = words_okD [OF code_okD(8) [OF assms]]
  have w: "word_at ?y p = word_at x p" "page_words ?y k = page_words x k" for p k by (simp_all add: word_at_def page_words_def)
  have t: "target_ok (G\<lparr>g_reserved := R\<rparr>) ?y q = target_ok G x q" for q R by (simp add: target_ok_def w)
  have chain: "chain x (patches (block x)) L" using code_okD(7) [OF assms] by (simp add: links_ok_def)
  then show "chain ?y (patches (block x)) L" by (rule chain_cong) (simp add: w)
  show "length L \<le> requests x" using code_okD(9) [OF assms] by simp
  have "words_ok (G\<lparr>g_reserved := L @ g_reserved G\<rparr>) (concat ([] # Ls)) ?y"
  proof (rule words_okI)
    show "distinct (concat ([] # Ls) @ g_reserved (G\<lparr>g_reserved := L @ g_reserved G\<rparr>))" using W(1) by auto
    show "\<exists>t. word_at ?y p = Some (W_pc t)" if "p \<in> set (g_reserved (G\<lparr>g_reserved := L @ g_reserved G\<rparr>))" for p
      using that W(2) [of p] chain_word [OF chain, of p] by (auto simp: w)
    show "\<exists>q. v = Some q \<and> target_ok (G\<lparr>g_reserved := L @ g_reserved G\<rparr>) ?y q"
      if "word_at ?y p = Some (W_pc v)" "p \<notin> set (concat ([] # Ls))" "p \<notin> set (g_reserved (G\<lparr>g_reserved := L @ g_reserved G\<rparr>))" for p v
      using that W(3) [of p v] unfolding w t by auto
    show "target_ok (G\<lparr>g_reserved := L @ g_reserved G\<rparr>) ?y q" if "q \<in> tracked (G\<lparr>g_reserved := L @ g_reserved G\<rparr>)" for q
      using W(4) [of q] that unfolding t by simp
  qed
  moreover have "list_all2 (links_ok ?y) (scopes ?y) ([] # Ls)"
  proof (rule links_cong)
    show "list_all2 (links_ok x) (scopes ?y) ([] # Ls)"
      using code_okD(7) [OF assms] by (simp add: links_ok_def)
  qed (simp add: w)
  moreover have "scope_view (block ?y) = scope_view (block x)" by (simp add: scope_view_def)
  ultimately show "code_ok (G\<lparr>g_reserved := L @ g_reserved G\<rparr>) ([] # Ls) ?y"
    using assms by (auto simp: code_ok_def pages_ok_def w)
qed

lemma PatchBranches_loop_ok:
  "code_ok (G\<lparr>g_reserved := L @ R\<rparr>) Ls x \<Longrightarrow> chain x ps L \<Longrightarrow> length L \<le> n \<Longrightarrow> target_ok G x q
    \<Longrightarrow> \<exists>y. PatchBranches_loop n (Some q) ps x = Inr y \<and> code_ok (G\<lparr>g_reserved := R\<rparr>) Ls y"
proof (induction L arbitrary: n ps x)
  case (Cons p L)
  then obtain m where m: "n = Suc m" "length L \<le> m" by (cases n) auto
  obtain v where p: "ps = Some p" "word_at x p = Some (W_pc v)" "chain x v L" using Cons.prems(2) by auto
  let ?y = "set_word p (W_pc (Some q)) x"
  have "code_ok (G\<lparr>g_reserved := L @ R\<rparr>) Ls ?y"
    using code_ok_set [of "G\<lparr>g_reserved := (p # L) @ R\<rparr>" Ls x p "L @ R" q] Cons.prems by simp
  moreover have "chain ?y v L"
  proof (rule chain_cong [OF p(3)])
    show "word_at ?y r = word_at x r" if "r \<in> set L" for r
      using that words_okD(1) [OF code_okD(8) [OF Cons.prems(1)]] by (auto simp: word_at_set)
  qed
  moreover have "target_ok G ?y q" by (rule target_ok_set [OF p(2) Cons.prems(4)])
  ultimately show ?case using Cons.IH m p by simp
next
  case Nil
  then show ?case by (cases n) simp_all
qed

lemma PatchBranches_ok:
  assumes "code_inv G x" "g_page G \<in> g_ends G"
  shows "\<exists>y Ls. PatchBranches x = Inr y \<and> code_ok G ([] # Ls) y"
proof -
  obtain L Ls where x: "code_ok G (L # Ls) x" using assms(1) code_okD(11) by (metis code_inv_def length_0_conv list.distinct(1) neq_Nil_conv)
  let ?y = "x\<lparr>block := (block x)\<lparr>patches := None\<rparr>\<rparr>"
  note u = code_ok_unlink [OF x]
  have "target_ok G ?y (here x)"
    using target_here [OF x assms(2)] by (simp add: target_ok_def word_at_def page_words_def)
  moreover have "GetPC x = Some (here x)" using GetPC_here code_okD(2) [OF x] by blast
  ultimately show ?thesis
    using PatchBranches_loop_ok [where G = G and L = L and R = "g_reserved G" and Ls = "[] # Ls" and x = ?y and ps = "patches (block x)" and n = "requests x" and q = "here x"] u
    by (auto simp: PatchBranches_def)
qed

section \<open>Scopes and pages\<close>

lemma code_ok_transfer:
  assumes "code_ok G Ls x" "pages_ok G' y"
    "\<And>p. word_at y p = word_at x p" "\<And>q. target_ok G x q \<Longrightarrow> target_ok G' y q" "g_reserved G' = g_reserved G"
    "\<And>q. q \<in> tracked G' \<Longrightarrow> q \<in> tracked G \<or> target_ok G' y q"
    "map scope_view (scopes y) = g_scopes G'" "\<forall>(pc, d, op)\<in>set (g_scopes G'). op = c_waOp_loop \<longrightarrow> pc \<noteq> None"
    "list_all2 (links_ok x) (scopes y) Ls'" "concat Ls' = concat Ls" "g_slack G' \<le> g_slack G" "requests x \<le> requests y"
  shows "code_ok G' Ls' y"
proof -
  note W = words_okD [OF code_okD(8) [OF assms(1)]]
  have "words_ok G' (concat Ls') y"
  proof (rule words_okI)
    show "distinct (concat Ls' @ g_reserved G')" using W(1) assms(5,10) by simp
    show "\<exists>t. word_at y p = Some (W_pc t)" if "p \<in> set (g_reserved G')" for p using W(2) [of p] that assms(3,5) by simp
    show "\<exists>q. t = Some q \<and> target_ok G' y q"
      if "word_at y p = Some (W_pc t)" "p \<notin> set (concat Ls')" "p \<notin> set (g_reserved G')" for p t
      using W(3) [of p t] that assms(3-5,10) by auto
    show "target_ok G' y q" if "q \<in> tracked G'" for q
      using assms(4,6) that W(4) by blast
  qed
  moreover have "list_all2 (links_ok y) (scopes y) Ls'" using assms(9) by (rule links_cong) (simp add: assms(3))
  ultimately show ?thesis using assms code_okD(9) [OF assms(1)] by (simp add: code_ok_def)
qed

text \<open>A new scope begins at the end of the code.\<close>

lemma code_ok_push:
  assumes "code_ok G Ls x" "g_page G \<in> g_ends G" "depth s = depth (block x) + 1" "sc_pc s = Some (here x)" "patches s = None"
  shows "code_ok (G\<lparr>g_scopes := scope_view s # g_scopes G\<rparr>) ([] # Ls) (x\<lparr>outer := block x # outer x, block := s\<rparr>)"
proof (rule code_ok_transfer [OF assms(1)])
  let ?y = "x\<lparr>outer := block x # outer x, block := s\<rparr>" and ?G = "G\<lparr>g_scopes := scope_view s # g_scopes G\<rparr>"
  note d = code_okD [OF assms(1)]
  have w: "word_at ?y p = word_at x p" "page_words ?y k = page_words x k" for p k by (simp_all add: word_at_def page_words_def)
  show "word_at ?y p = word_at x p" for p by (rule w)
  show t: "target_ok ?G ?y q" if "target_ok G x q" for q using that by (simp add: target_ok_def w)
  show "pages_ok ?G ?y" using d(1) by (simp add: pages_ok_def w)
  show "q \<in> tracked G \<or> target_ok ?G ?y q" if "q \<in> tracked ?G" for q
    using that assms(4) t [OF target_here [OF assms(1,2)]] by (auto simp: tracked_def scope_view_def)
  show "\<forall>(pc, d, op)\<in>set (g_scopes ?G). op = c_waOp_loop \<longrightarrow> pc \<noteq> None"
    using assms(1,4) by (auto simp: code_ok_def scope_view_def)
  show "list_all2 (links_ok x) (scopes ?y) ([] # Ls)" using d(7) assms(5) by (simp add: links_ok_def)
qed (use code_okD(10) [OF assms(1)] in simp_all)

text \<open>A scope without links ends.\<close>

lemma code_ok_pop:
  assumes "code_ok G ([] # Ls) x" "outer x \<noteq> []"
  shows "code_ok (G\<lparr>g_scopes := tl (g_scopes G)\<rparr>) Ls (x\<lparr>block := hd (outer x), outer := tl (outer x)\<rparr>)"
proof (rule code_ok_transfer [OF assms(1)])
  let ?y = "x\<lparr>block := hd (outer x), outer := tl (outer x)\<rparr>" and ?G = "G\<lparr>g_scopes := tl (g_scopes G)\<rparr>"
  note d = code_okD [OF assms(1)]
  have w: "word_at ?y p = word_at x p" "page_words ?y k = page_words x k" for p k by (simp_all add: word_at_def page_words_def)
  have sc: "scopes ?y = outer x" "g_scopes ?G = map scope_view (outer x)" using assms(2) d(10) [symmetric] by simp_all
  have sub: "set (g_scopes ?G) \<subseteq> set (g_scopes G)" using sc(2) d(10) [symmetric] by auto
  show "word_at ?y p = word_at x p" for p by (rule w)
  show "target_ok ?G ?y q" if "target_ok G x q" for q using that by (simp add: target_ok_def w)
  show "pages_ok ?G ?y" using d(1) by (simp add: pages_ok_def w)
  show "q \<in> tracked G \<or> target_ok ?G ?y q" if "q \<in> tracked ?G" for q using that sub by (auto simp: tracked_def)
  show "\<forall>(pc, d, op)\<in>set (g_scopes ?G). op = c_waOp_loop \<longrightarrow> pc \<noteq> None"
    using assms(1) sub by (auto simp: code_ok_def)
  show "map scope_view (scopes ?y) = g_scopes ?G" by (simp only: sc)
  show "list_all2 (links_ok x) (scopes ?y) Ls" using d(7) unfolding sc(1) by simp
qed simp_all

text \<open>A new page.\<close>

definition fresh_page :: "M3Compilation \<Rightarrow> M3Compilation" where
  "fresh_page x = use_page (numPages x) (x\<lparr>requests := requests x + 1, numPages := numPages x + 1\<rparr>)"

abbreviation on_fresh_page :: "nat \<Rightarrow> ghost \<Rightarrow> ghost" where
  "on_fresh_page n G \<equiv> G\<lparr>g_page := n, g_used := insert n (g_used G), g_ends := insert n (g_ends G)\<rparr>"

lemma code_ok_fresh:
  assumes "code_ok G Ls x"
  shows "code_ok (on_fresh_page (numPages x) G) Ls (fresh_page x)"
proof (rule code_ok_transfer [OF assms])
  let ?n = "numPages x"
  note d = code_okD [OF assms]
  have p: "page_words (fresh_page x) k = page_words x k" for k
    using page_words_use [of "x\<lparr>requests := requests x + 1, numPages := ?n + 1\<rparr>" ?n k] d(2) by (simp add: fresh_page_def page_words_def)
  then show w: "word_at (fresh_page x) q = word_at x q" for q by (simp add: word_at_def)
  have f: "has_page (fresh_page x)" "cur_page (fresh_page x) = ?n" "numPages (fresh_page x) = Suc ?n" "block (fresh_page x) = block x"
    "outer (fresh_page x) = outer x" "requests (fresh_page x) = Suc (requests x)"
    by (simp_all add: fresh_page_def use_page_def)
  show "pages_ok (on_fresh_page ?n G) (fresh_page x)"
    using d(1) by (auto simp: pages_ok_def f p less_Suc_eq)
  show "target_ok (on_fresh_page ?n G) (fresh_page x) q" if "target_ok G x q" for q
    using that by (auto simp: target_ok_def w f p)
  show "map scope_view (scopes (fresh_page x)) = g_scopes (on_fresh_page ?n G)" using d(10) by (simp add: f)
  show "\<forall>(pc, d, op)\<in>set (g_scopes (on_fresh_page ?n G)). op = c_waOp_loop \<longrightarrow> pc \<noteq> None" using assms by (simp add: code_ok_def)
  show "list_all2 (links_ok x) (scopes (fresh_page x)) Ls" using d(7) by (simp add: f)
qed (simp_all add: fresh_page_def use_page_def)

text \<open>Back to a page in use; the page that is left can get no further code.\<close>

lemma code_ok_leave:
  assumes "code_ok G Ls x" "k \<in> g_used G" "k \<noteq> g_page G" "g_page G \<notin> g_ends G \<or> page_words x (g_page G) = []"
  shows "code_ok (G\<lparr>g_page := k, g_used := g_used G - {g_page G}, g_ends := g_ends G - {g_page G}\<rparr>) Ls (use_page k x)"
proof (rule code_ok_transfer [OF assms(1)])
  let ?G = "G\<lparr>g_page := k, g_used := g_used G - {g_page G}, g_ends := g_ends G - {g_page G}\<rparr>"
  note d = code_okD [OF assms(1)]
  have p: "page_words (use_page k x) j = page_words x j" for j by (rule page_words_use [OF d(2)])
  then show w: "word_at (use_page k x) q = word_at x q" for q by (simp add: word_at_def)
  have f: "has_page (use_page k x)" "cur_page (use_page k x) = k" "numPages (use_page k x) = numPages x" "block (use_page k x) = block x"
    "outer (use_page k x) = outer x" "requests (use_page k x) = requests x"
    by (simp_all add: use_page_def)
  show "pages_ok ?G (use_page k x)" using d(1) assms(2,3) by (auto simp: pages_ok_def f p)
  show "target_ok ?G (use_page k x) q" if "target_ok G x q" for q
    using that assms(4) by (auto simp: target_ok_def w f p)
  show "map scope_view (scopes (use_page k x)) = g_scopes ?G" using d(10) by (simp add: f)
  show "\<forall>(pc, d, op)\<in>set (g_scopes ?G). op = c_waOp_loop \<longrightarrow> pc \<noteq> None" using assms(1) by (simp add: code_ok_def)
  show "list_all2 (links_ok x) (scopes (use_page k x)) Ls" using d(7) by (simp add: f)
qed (simp_all add: use_page_def)

section \<open>Single operations\<close>

lemma closed_id: "g_page G \<in> g_ends G \<Longrightarrow> (closed G)\<lparr>g_ends := g_ends G\<rparr> = G"
  by simp

lemma code_ok_open: "code_ok (closed G) Ls x \<Longrightarrow> code_ok G Ls x"
  using code_ok_weaken [of "closed G" Ls x "g_ends G" "g_slack G" "g_tracked G"] code_okD(4,5) [of "closed G" Ls x] by auto

lemma code_ok_cursor:
  assumes "code_ok G Ls x"
  shows "code_ok G Ls (x\<lparr>co_wasm := p\<rparr>)"
proof (rule code_ok_transfer [OF assms])
  show w: "word_at (x\<lparr>co_wasm := p\<rparr>) q = word_at x q" for q by (simp add: word_at_def page_words_def)
  show "target_ok G (x\<lparr>co_wasm := p\<rparr>) q" if "target_ok G x q" for q
    using that by (auto simp: target_ok_def w page_words_def)
qed (use assms in \<open>auto simp: code_ok_def pages_ok_def page_words_def\<close>)

interpretation tgt: compile_invariant "code_inv G" "code_inv (closed G)" for G
proof unfold_locales
  fix x y p w op
  show "code_inv G x \<Longrightarrow> same_control x y \<Longrightarrow> code_inv G y" "code_inv (closed G) x \<Longrightarrow> same_control x y \<Longrightarrow> code_inv (closed G) y"
    by (auto simp: code_inv_def intro: code_ok_same)
  show "code_inv G x \<Longrightarrow> code_inv G (x\<lparr>co_wasm := p\<rparr>)" "code_inv (closed G) x \<Longrightarrow> code_inv (closed G) (x\<lparr>co_wasm := p\<rparr>)"
    by (auto simp: code_inv_def intro: code_ok_cursor)
  show "code_inv (closed G) x \<Longrightarrow> code_inv G x"
    by (auto simp: code_inv_def intro: code_ok_open)
  show "code_inv G x \<Longrightarrow> code_inv (closed G) (emit_word (x\<lparr>requests := requests x + 1\<rparr>) (W_op op))"
    using code_ok_weaken [OF code_ok_op, of G _ x "g_ends (closed G)" "g_slack G" "g_tracked G" op] code_okD(5) [of G _ x]
    by (auto simp: code_inv_def)
  show "code_inv G x \<Longrightarrow> \<not> has_page x \<Longrightarrow> code_inv (closed G) x"
    by (auto simp: code_inv_def dest: code_okD(2))
  show "code_inv (closed G) x \<Longrightarrow> is_immediate w \<Longrightarrow> code_inv (closed G) (emit_word x w)"
    unfolding code_inv_def by (elim exE, intro exI, rule code_ok_word) (auto simp: is_immediate_def)
qed

lemma code_inv_more:
  assumes "code_inv G x"
  shows "GetPC x = Some (here x)" "cur_page x = g_page G" "map scope_view (scopes x) = g_scopes G" "has_page x"
    "length (outer x) = length (g_scopes G) - 1" "g_ends G \<subseteq> g_used G" "g_page G \<in> g_used G"
proof -
  obtain Ls where x: "code_ok G Ls x" using assms by (auto simp: code_inv_def)
  show "GetPC x = Some (here x)" "cur_page x = g_page G" "has_page x" "g_ends G \<subseteq> g_used G" "g_page G \<in> g_used G"
    using code_okD [OF x] GetPC_here by simp_all
  show m: "map scope_view (scopes x) = g_scopes G" using code_okD(10) [OF x] .
  show "length (outer x) = length (g_scopes G) - 1" using arg_cong [OF m, of length] by simp
qed

lemma code_inv_scope:
  assumes "code_inv G x" "d \<le> length (outer x)"
  shows "scope_view (scopes x ! d) = g_scopes G ! d"
  using assms code_inv_more(3) [OF assms(1)] by (metis le_imp_less_Suc length_Cons nth_map)

lemma g_page_closed: "g_page (closed G) \<notin> g_ends (closed G)"
  by simp

lemma closed_reserved: "(closed G)\<lparr>g_reserved := r\<rparr> = closed (G\<lparr>g_reserved := r\<rparr>)"
  by (cases G) simp

lemma code_inv_target: "code_inv G x \<Longrightarrow> q \<in> tracked G \<Longrightarrow> target_ok G x q"
  using words_okD(4) [OF code_okD(8)] unfolding code_inv_def by blast

lemma code_inv_here: "code_inv G x \<Longrightarrow> g_page G \<in> g_ends G \<Longrightarrow> target_ok G x (here x)"
  by (auto simp: code_inv_def intro: target_here)

lemma code_inv_pc: "code_inv (closed G) x \<Longrightarrow> target_ok (closed G) x q \<Longrightarrow> code_inv (closed G) (emit_word x (W_pc (Some q)))"
  using code_ok_word [OF _ g_page_closed] unfolding code_inv_def by blast

lemma code_inv_slack: "code_inv G x \<Longrightarrow> n \<le> g_slack G \<Longrightarrow> code_inv (G\<lparr>g_slack := n\<rparr>) x"
  using code_ok_weaken [of G _ x "g_ends G" n "g_tracked G"] code_okD(5) [of G _ x] by (auto simp: code_inv_def)

lemma code_inv_reserve: "code_inv (closed G) x
    \<Longrightarrow> code_inv (closed (G\<lparr>g_reserved := here x # g_reserved G\<rparr>)) (emit_word x (W_pc t))"
  using code_ok_reserve [OF _ g_page_closed, of G _ x t] unfolding code_inv_def closed_reserved by auto

lemma code_inv_set: "code_inv (G\<lparr>g_reserved := p # g_reserved G\<rparr>) x \<Longrightarrow> target_ok G x q
    \<Longrightarrow> code_inv G (set_word p (W_pc (Some q)) x)"
  using code_ok_set [of "G\<lparr>g_reserved := p # g_reserved G\<rparr>" _ x p "g_reserved G" q] by (auto simp: code_inv_def)

abbreviation more_slack :: "ghost \<Rightarrow> ghost" where
  "more_slack G \<equiv> G\<lparr>g_slack := Suc (g_slack G)\<rparr>"

lemma closed_slack: "(closed G)\<lparr>g_slack := n\<rparr> = closed (G\<lparr>g_slack := n\<rparr>)"
  by (cases G) simp

lemma code_inv_op: "code_inv G x \<Longrightarrow> okR (code_inv (closed (more_slack G))) (emit_op pg x op)"
  using code_ok_op [of G _ x op] code_inv_more(4) [of G x] unfolding code_inv_def closed_slack by (auto simp: emit_op_def)

lemma code_inv_link:
  assumes "code_inv (closed (more_slack G)) x" "d < length (g_scopes G)" "fst (snd (g_scopes G ! d)) \<noteq> 0"
  shows "code_inv (closed G) (EmitPatchingBranchPointer x d)"
proof -
  obtain Ls where x: "code_ok (closed (more_slack G)) Ls x" using assms(1) by (auto simp: code_inv_def)
  have d: "d \<le> length (outer x)" using code_inv_more(5) [OF assms(1)] assms(2) by simp
  have "depth (scopes x ! d) \<noteq> 0"
    using arg_cong [OF code_inv_scope [OF assms(1) d], of "\<lambda>v. fst (snd v)"] assms(3) by (simp add: scope_view_def)
  moreover have "EmitPatchingBranchPointer x d = set_patches d (Some (here x)) (emit_word x (W_pc (patches (scopes x ! d))))"
    using code_inv_more(1) [OF assms(1)] by (simp add: EmitPatchingBranchPointer_def scope_at_def)
  ultimately show ?thesis
    using code_ok_link [OF x _ d, of "g_slack G"] by (auto simp: code_inv_def closed_slack)
qed

section \<open>Branches\<close>

lemma scope_at_view:
  assumes "code_inv G x" "d < length (g_scopes G)"
  shows "sc_pc (scope_at x d) = fst (g_scopes G ! d)" "depth (scope_at x d) = fst (snd (g_scopes G ! d))"
    "sc_opcode (scope_at x d) = snd (snd (g_scopes G ! d))"
proof -
  have "scope_view (scope_at x d) = g_scopes G ! d"
    using code_inv_scope [OF assms(1), of d] code_inv_more(5) [OF assms(1)] assms(2) by (simp add: scope_at_def)
  from this [symmetric] show "sc_pc (scope_at x d) = fst (g_scopes G ! d)" "depth (scope_at x d) = fst (snd (g_scopes G ! d))"
    "sc_opcode (scope_at x d) = snd (snd (g_scopes G ! d))" by (simp_all add: scope_view_def)
qed

lemma loop_target:
  assumes "code_inv G x" "d < length (g_scopes G)" "snd (snd (g_scopes G ! d)) = c_waOp_loop"
  shows "\<exists>q. fst (g_scopes G ! d) = Some q \<and> q \<in> tracked G"
proof -
  obtain pc n op where v: "g_scopes G ! d = (pc, n, op)" using prod_cases3 by blast
  have m: "(pc, n, op) \<in> set (g_scopes G)" using assms(2) v nth_mem by metis
  have "pc \<noteq> None" using assms(1,3) m v by (auto simp: code_inv_def code_ok_def)
  then show ?thesis using m v by (auto simp: tracked_def)
qed

lemma GetBlockScope_bound:
  "code_inv G x \<Longrightarrow> okR (\<lambda>d. d < length (g_scopes G)) (GetBlockScope x i)"
  using code_inv_more(3) [of G x] by (auto simp: okR_def GetBlockScope_def throwif_def dest!: arg_cong [where f = length] split: if_splits)

lemma weaken_target: "target_ok (closed G) x q \<Longrightarrow> target_ok G x q"
  by (auto simp: target_ok_def)

lemma code_inv_EmitPatchingBranch:
  assumes "code_inv G x" "d < length (g_scopes G)" "fst (snd (g_scopes G ! d)) \<noteq> 0"
  shows "okR (code_inv (closed G)) (EmitPatchingBranch env x d)"
  unfolding EmitPatchingBranch_def
  by (rule okR_tryR [OF code_inv_op [OF assms(1)]]) (simp add: code_inv_link assms)

lemma code_inv_leave_scope:
  assumes "code_inv G x" "d < length (g_scopes G)"
  shows "okR (\<lambda>y. y = x \<or> code_inv (closed G) y) (leave_scope env d x)"
proof -
  have "okR (code_inv (closed G)) (tryR (ReturnValues env x ft True) (\<lambda>o'. emit_op_at env o' op_Return))" for ft
    by (rule okR_tryR [OF tgt.ReturnValues [OF assms(1)] tgt.emit_op])
  moreover have "okR (code_inv (closed G)) (tryR (ResolveBlockResults env x d True) (\<lambda>o'. EmitPatchingBranch env o' d))"
    if "fst (snd (g_scopes G ! d)) \<noteq> 0"
    by (rule okR_tryR [OF tgt.ResolveBlockResults [OF assms(1)] code_inv_EmitPatchingBranch [OF _ assms(2) that]])
  ultimately show ?thesis
    using scope_at_view(2) [OF assms] okR_mono [where P = "code_inv (closed G)" and Q = "\<lambda>y. y = x \<or> code_inv (closed G) y"]
    by (simp add: leave_scope_def Let_def)
qed

lemma code_inv_leave_scope_I: "code_inv G x \<Longrightarrow> d < length (g_scopes G) \<Longrightarrow> okR (code_inv G) (leave_scope env d x)"
  by (rule okR_mono [OF code_inv_leave_scope]) (auto intro: tgt.weaken)

lemma code_inv_loop_pc:
  assumes "code_inv (closed G) x" "d < length (g_scopes G)" "snd (snd (g_scopes G ! d)) = c_waOp_loop"
  shows "code_inv (closed G) (emit_word x (W_pc (fst (g_scopes G ! d))))"
proof -
  have "\<exists>q. fst (g_scopes G ! d) = Some q \<and> q \<in> tracked (closed G)"
    using loop_target [OF assms(1), of d] assms(2,3) by simp
  then obtain q where "fst (g_scopes G ! d) = Some q" "q \<in> tracked (closed G)" by blast
  then show ?thesis using code_inv_pc [OF assms(1) code_inv_target [OF assms(1)]] by simp
qed

text \<open>A conditional branch over the code of the jump: a word is reserved, then set to the end of that code.\<close>

lemma code_inv_over:
  assumes "code_inv (closed G) x"
  obtains H j y where "ReserveBranch x = (j, y)" "code_inv (closed H) y" "g_scopes H = g_scopes G" "g_page H = g_page G" "g_ends H = g_ends G"
    "\<And>z q. code_inv H z \<Longrightarrow> target_ok H z q \<Longrightarrow> code_inv G (set_reserved j (W_pc (Some q)) z)"
proof
  let ?H = "G\<lparr>g_reserved := here x # g_reserved G\<rparr>"
  show "ReserveBranch x = (Some (here x), emit_word x (W_pc None))"
    using code_inv_more(1) [OF assms(1)] by (simp add: ReserveBranch_def)
  show "code_inv (closed ?H) (emit_word x (W_pc None))" using code_inv_reserve [OF assms(1)] .
  show "code_inv G (set_reserved (Some (here x)) (W_pc (Some q)) z)" if "code_inv ?H z" "target_ok ?H z q" for z q
    using code_inv_set [OF that(1)] that(2) by (simp add: set_reserved_def)
qed simp_all

text \<open>With the end of the code as the target.\<close>

lemma code_inv_over_end:
  assumes "code_inv (closed G) x" "g_page G \<in> g_ends G"
  obtains H j y where "ReserveBranch x = (j, y)" "code_inv H y" "g_scopes H = g_scopes G"
    "\<And>z. code_inv H z \<Longrightarrow> code_inv G (set_reserved j (W_pc (GetPC z)) z)"
proof (rule code_inv_over [OF assms(1)])
  fix H j y
  assume a: "ReserveBranch x = (j, y)" "code_inv (closed H) y" "g_scopes H = g_scopes G" "g_page H = g_page G" "g_ends H = g_ends G"
    "\<And>z q. code_inv H z \<Longrightarrow> target_ok H z q \<Longrightarrow> code_inv G (set_reserved j (W_pc (Some q)) z)"
  have "code_inv G (set_reserved j (W_pc (GetPC z)) z)" if "code_inv H z" for z
    using a(6) [OF that code_inv_here [OF that]] code_inv_more(1) [OF that] a(4,5) assms(2) by simp
  then show thesis using that a(1,3) tgt.weaken [OF a(2)] by blast
qed

lemma code_inv_Branch_to_loop:
  assumes x: "code_inv G x" and d: "d < length (g_scopes G)" "snd (snd (g_scopes G ! d)) = c_waOp_loop" and e: "g_page G \<in> g_ends G"
  shows "okR (code_inv G) (Branch_to_loop env x op d)"
proof -
  have pc: "sc_pc (scope_at x d) = fst (g_scopes G ! d)" by (rule scope_at_view(1) [OF x d(1)])
  have emit: "code_inv H (emit_word y (W_pc (fst (g_scopes G ! d))))" if "code_inv (closed H) y" "g_scopes H = g_scopes G" for H y
    using tgt.weaken [OF code_inv_loop_pc [OF that(1), of d]] d that(2) by simp
  have over: "okR (code_inv G) (case ReserveBranch y of (jumpTo, o') \<Rightarrow>
           tryR (ResolveBlockResults env o' d True) (\<lambda>o'.
           tryR (emit_op_at env o' o_ContinueLoop) (\<lambda>o'.
             Inr (set_reserved jumpTo (W_pc (GetPC (emit_word o' (W_pc (fst (g_scopes G ! d)))))) (emit_word o' (W_pc (fst (g_scopes G ! d))))))))"
    if "code_inv (closed G) y" for y
  proof (rule code_inv_over_end [OF that e])
    fix H j z
    assume a: "ReserveBranch y = (j, z)" "code_inv H z" "g_scopes H = g_scopes G"
      "\<And>z. code_inv H z \<Longrightarrow> code_inv G (set_reserved j (W_pc (GetPC z)) z)"
    show ?thesis
      unfolding a(1) prod.case
      by (intro okR_tryR [OF tgt.ResolveBlockResults [OF a(2)]] okR_tryR [OF tgt.emit_op])
        (auto intro!: a(4) emit simp: a(3))
  qed
  show ?thesis
    unfolding Branch_to_loop_def Let_def pc
    by (intro okR_if okR_tryR [OF tgt.emit_op [OF x]] okR_tryR [OF tgt.EmitSlotNum] okR_tryR [OF tgt.CopyStackTopToRegister [OF x]]
        okR_tryR [OF tgt.i.I_PopType] okR_tryR [OF tgt.emit_op] over)
      (auto intro!: emit tgt.i.I_polymorphic)
qed

lemma code_inv_Branch_forward:
  assumes x: "code_inv G x" and d: "d < length (g_scopes G)" and e: "g_page G \<in> g_ends G"
  shows "okR (code_inv G) (Branch_forward env x op d)"
proof -
  have over: "okR (code_inv G) (case ReserveBranch y of (jumpTo, o') \<Rightarrow>
           tryR (leave_scope env d o') (\<lambda>o'. Inr (set_reserved jumpTo (W_pc (GetPC o')) o')))"
    if "code_inv (closed G) y" for y
  proof (rule code_inv_over_end [OF that e])
    fix H j z
    assume a: "ReserveBranch y = (j, z)" "code_inv H z" "g_scopes H = g_scopes G"
      "\<And>z. code_inv H z \<Longrightarrow> code_inv G (set_reserved j (W_pc (GetPC z)) z)"
    show ?thesis
      unfolding a(1) prod.case
      by (intro okR_tryR [OF code_inv_leave_scope_I [OF a(2)]]) (use a(3,4) d in simp_all)
  qed
  have link: "okR (code_inv G) (tryR (emit_op_at env x op') (\<lambda>o'. tryR (EmitSlotNumOfStackTopAndPop o') (\<lambda>o'.
      Inr (EmitPatchingBranchPointer o' d))))" if "fst (snd (g_scopes G ! d)) \<noteq> 0" for op'
    using that d by (intro okR_tryR [OF code_inv_op [OF x]] okR_tryR [OF tgt.EmitSlotNum]) (auto intro: tgt.weaken code_inv_link)
  have dep: "depth (scope_at x d) = fst (snd (g_scopes G ! d))" by (rule scope_at_view(2) [OF x d])
  show ?thesis
    unfolding Branch_forward_def Let_def dep
    by (intro okR_if okR_tryR [OF tgt.emit_op [OF x]] okR_tryR [OF tgt.EmitSlotNum] okR_tryR [OF code_inv_leave_scope_I [OF x d]] over link)
      (use tgt.i.I_SetStackPolymorphic in simp_all)
qed

lemma code_inv_Branch:
  assumes "code_inv G x" "g_page G \<in> g_ends G"
  shows "okR (code_inv G) (Compile_Branch env x op)"
  unfolding Compile_Branch_def
proof (rule okR_tryR_pair [OF tgt.i.I_read_u32 [OF assms(1)]])
  fix i y assume y: "code_inv G y"
  show "okR (code_inv G) (tryR (GetBlockScope y i) (\<lambda>d. if sc_opcode (scope_at y d) = c_waOp_loop then Branch_to_loop env y op d
      else Branch_forward env y op d))"
  proof (rule okR_tryR [OF GetBlockScope_bound [OF y]])
    fix d assume d: "d < length (g_scopes G)"
    show "okR (code_inv G) (if sc_opcode (scope_at y d) = c_waOp_loop then Branch_to_loop env y op d else Branch_forward env y op d)"
      using code_inv_Branch_to_loop [OF y d _ assms(2)] code_inv_Branch_forward [OF y d assms(2)] scope_at_view(3) [OF y d] by simp
  qed
qed

section \<open>The table of a branch\<close>

text \<open>
  A target of the table is compiled on a page of its own, which no code follows. The page stays empty
  in unreachable code.
\<close>

lemma code_inv_fresh:
  assumes "code_inv G x"
  shows "code_inv (on_fresh_page (numPages x) G) (fresh_page x)" "numPages x \<notin> g_used G" "here (fresh_page x) = (numPages x, 0)"
    "page_words (fresh_page x) (numPages x) = []"
proof -
  obtain Ls where x: "code_ok G Ls x" using assms by (auto simp: code_inv_def)
  show "code_inv (on_fresh_page (numPages x) G) (fresh_page x)" using code_ok_fresh [OF x] by (auto simp: code_inv_def)
  show "numPages x \<notin> g_used G" using code_okD(12) [OF x] by blast
  have e: "page_words x (numPages x) = []" using code_okD(13) [OF x] by blast
  have h: "has_page x" "cur_page x \<noteq> numPages x" using code_okD(2,3,6) [OF x] by auto
  then show p: "page_words (fresh_page x) (numPages x) = []"
    using e by (simp add: fresh_page_def page_words_def use_page_def)
  show "here (fresh_page x) = (numPages x, 0)" using p by (simp add: fresh_page_def use_page_def)
qed

lemma code_inv_leave:
  assumes "code_inv G x" "k \<in> g_used G" "k \<noteq> g_page G" "g_page G \<notin> g_ends G \<or> page_words x (g_page G) = []"
  shows "code_inv (G\<lparr>g_page := k, g_used := g_used G - {g_page G}, g_ends := g_ends G - {g_page G}\<rparr>) (use_page k x)"
  using code_ok_leave [OF _ assms(2-4)] assms(1) by (auto simp: code_inv_def)

lemma Acquire_fresh: "okR (\<lambda>(k, y). k = numPages x \<and> use_page k y = fresh_page x \<and> cur_page y = cur_page x \<and> outer y = outer x \<and> block y = block x)
    (AcquireCompilationPage env x)"
  by (simp add: AcquireCompilationPage_def fresh_page_def)

text \<open>A page that is left behind an operation, or empty.\<close>

lemma code_inv_return:
  assumes G: "g_page G \<in> g_used G" "g_ends G \<subseteq> g_used G" "n \<notin> g_used G"
    and x: "code_inv (closed (on_fresh_page n G)) x \<or> code_inv (on_fresh_page n G) x \<and> page_words x n = []"
  shows "code_inv G (use_page (g_page G) x)"
proof -
  have ne: "g_page G \<noteq> n" "g_ends G - {n} = g_ends G" "g_used G - {n} = g_used G" using G by auto
  have H1: "(closed (on_fresh_page n G))\<lparr>g_page := g_page G, g_used := insert n (g_used G) - {n}, g_ends := insert n (g_ends G) - {n} - {n}\<rparr> = G"
    and H2: "(on_fresh_page n G)\<lparr>g_page := g_page G, g_used := insert n (g_used G) - {n}, g_ends := insert n (g_ends G) - {n}\<rparr> = G"
    using ne by (cases G; simp)+
  show ?thesis
    using x
  proof
    assume "code_inv (closed (on_fresh_page n G)) x"
    from code_inv_leave [OF this, of "g_page G"] show ?thesis using ne G H1 by auto
  next
    assume "code_inv (on_fresh_page n G) x \<and> page_words x n = []"
    then show ?thesis using code_inv_leave [of "on_fresh_page n G" x "g_page G"] ne G H2 by auto
  qed
qed

lemma code_inv_track:
  assumes "code_inv G x" "target_ok G x q"
  shows "code_inv (G\<lparr>g_tracked := insert q (g_tracked G)\<rparr>) x"
  using assms code_ok_track unfolding code_inv_def by blast

lemma code_inv_untrack:
  assumes "code_inv (G\<lparr>g_tracked := insert q T\<rparr>) x" "g_tracked G = T"
  shows "code_inv G x"
proof -
  obtain Ls where x: "code_ok (G\<lparr>g_tracked := insert q T\<rparr>) Ls x" using assms(1) by (auto simp: code_inv_def)
  show ?thesis
    using code_ok_weaken [OF x, of "g_ends G" "g_slack G" T] code_okD(5) [OF x] assms(2)
    by (auto simp: code_inv_def subset_insertI)
qed

lemma code_inv_BranchTable_target:
  assumes x: "code_inv (closed G) x"
  shows "okR (code_inv (closed G)) (BranchTable_target env x)"
proof -
  have target: "okR (code_inv (closed G)) (tryR (if sc_opcode (scope_at z d) = c_waOp_loop then
              tryR (ResolveBlockResults env z d True) (\<lambda>o'.
              tryR (emit_op_at env o' o_ContinueLoop) (\<lambda>o'.
                Inr (emit_word o' (W_pc (sc_pc (scope_at z d))))))
            else leave_scope env d z) (\<lambda>o'.
        Inr (emit_word (use_page c o') (W_pc (GetPC z)))))"
    if y: "code_inv (closed G) y" and z: "z = fresh_page y" and d: "d < length (g_scopes G)" and c: "c = cur_page y" for y z d c
  proof -
    let ?n = "numPages y"
    define F where "F = (closed G)\<lparr>g_tracked := insert (?n, 0) (g_tracked G)\<rparr>"
    note f = code_inv_fresh [OF y]
    have F: "g_page F = c" "g_used F = g_used G" "g_ends F = g_ends G - {c}" "g_scopes F = g_scopes G" "g_page G = c"
      using code_inv_more(2) [OF y] c by (simp_all add: F_def)
    have used: "g_page F \<in> g_used F" "g_ends F \<subseteq> g_used F" "?n \<notin> g_used F"
      using code_inv_more(6,7) [OF y] f(2) by (simp_all add: F F_def)
    have "target_ok (on_fresh_page ?n (closed G)) z (here z)"
      using code_inv_here [OF f(1)] z by simp
    from code_inv_track [OF f(1) [folded z] this] have zH: "code_inv (on_fresh_page ?n F) z"
      using f(3) z by (cases G) (simp add: F_def)
    define K where "K = on_fresh_page ?n F"
    have K: "g_scopes K = g_scopes G" by (simp add: K_def F)
    note zH = zH [folded K_def]
    have op: "sc_opcode (scope_at z d) = snd (snd (g_scopes G ! d))" and pc: "sc_pc (scope_at z d) = fst (g_scopes G ! d)"
      using scope_at_view [OF zH] d by (simp_all add: K)
    have leave: "okR (\<lambda>o'. code_inv (closed K) o' \<or> code_inv K o' \<and> page_words o' ?n = [])
        (if sc_opcode (scope_at z d) = c_waOp_loop then
              tryR (ResolveBlockResults env z d True) (\<lambda>o'.
              tryR (emit_op_at env o' o_ContinueLoop) (\<lambda>o'.
                Inr (emit_word o' (W_pc (sc_pc (scope_at z d))))))
            else leave_scope env d z)"
    proof (rule okR_if)
      assume "sc_opcode (scope_at z d) = c_waOp_loop"
      then have emit: "code_inv (closed K) (emit_word w (W_pc (fst (g_scopes G ! d))))"
        if "code_inv (closed K) w" for w
        using code_inv_loop_pc [OF that, of d] d op by (simp add: K)
      have "okR (code_inv (closed K)) (tryR (ResolveBlockResults env z d True) (\<lambda>o'.
              tryR (emit_op_at env o' o_ContinueLoop) (\<lambda>o'. Inr (emit_word o' (W_pc (sc_pc (scope_at z d)))))))"
        unfolding pc
        by (intro okR_tryR [OF tgt.ResolveBlockResults [OF zH]] okR_tryR [OF tgt.emit_op]) (auto intro!: emit)
      then show "okR (\<lambda>o'. code_inv (closed K) o' \<or> code_inv K o' \<and> page_words o' ?n = [])
          (tryR (ResolveBlockResults env z d True) (\<lambda>o'. tryR (emit_op_at env o' o_ContinueLoop) (\<lambda>o'.
            Inr (emit_word o' (W_pc (sc_pc (scope_at z d)))))))" by (rule okR_mono) blast
    next
      have "d < length (g_scopes K)" using d by (simp add: K)
      from code_inv_leave_scope [OF zH this, of env]
      show "okR (\<lambda>o'. code_inv (closed K) o' \<or> code_inv K o' \<and> page_words o' ?n = []) (leave_scope env d z)"
        by (rule okR_mono) (use zH f(4) z in blast)
    qed
    show ?thesis
    proof (rule okR_tryR [OF leave])
      fix o' assume "code_inv (closed K) o' \<or> code_inv K o' \<and> page_words o' ?n = []"
      then have o': "code_inv F (use_page c o')" using code_inv_return [OF used] F(1) by (simp add: K_def)
      have "closed F = F" using F by (cases F) simp
      have "(?n, 0) \<in> tracked F" by (simp add: F_def tracked_def)
      from code_inv_target [OF o' this] o' have "code_inv F (emit_word (use_page c o') (W_pc (Some (?n, 0))))"
        using code_inv_pc [of F "use_page c o'" "(?n, 0)"] unfolding \<open>closed F = F\<close> by blast
      then have "code_inv F (emit_word (use_page c o') (W_pc (GetPC z)))"
        using code_inv_more(1) [OF zH] f(3) z by simp
      then show "okR (code_inv (closed G)) (Inr (emit_word (use_page c o') (W_pc (GetPC z))))"
        using code_inv_untrack [where G = "closed G" and q = "(?n, 0)" and T = "g_tracked G"] by (simp add: F_def)
    qed
  qed
  show ?thesis
    unfolding BranchTable_target_def Let_def
  proof (rule okR_tryR_pair [OF tgt.i.I_read_u32 [OF x]])
    fix i y assume y: "code_inv (closed G) y"
    have b: "okR (\<lambda>d. d < length (g_scopes G)) (GetBlockScope y i)" using GetBlockScope_bound [OF y] by simp
    show "okR (code_inv (closed G)) (tryR (GetBlockScope y i) (\<lambda>d. tryR (AcquireCompilationPage env y) (\<lambda>(k, o').
      tryR (if sc_opcode (scope_at (use_page k o') d) = c_waOp_loop then
              tryR (ResolveBlockResults env (use_page k o') d True) (\<lambda>o'a.
              tryR (emit_op_at env o'a o_ContinueLoop) (\<lambda>o'a.
                Inr (emit_word o'a (W_pc (sc_pc (scope_at (use_page k o') d))))))
            else leave_scope env d (use_page k o')) (\<lambda>o'a.
        Inr (emit_word (use_page (cur_page o') o'a) (W_pc (GetPC (use_page k o'))))))))"
      by (rule okR_tryR [OF b], rule okR_tryR [OF Acquire_fresh]) (auto intro!: target [OF y])
  qed
qed

lemma code_inv_BranchTable_targets: "code_inv (closed G) x \<Longrightarrow> okR (code_inv (closed G)) (BranchTable_targets env n x)"
  by (induction n arbitrary: x) (auto intro!: okR_tryR [OF code_inv_BranchTable_target])

lemma code_inv_request:
  assumes "code_inv G x"
  shows "code_inv G (x\<lparr>requests := requests x + 1\<rparr>)"
proof -
  let ?y = "x\<lparr>requests := requests x + 1\<rparr>"
  obtain Ls where x: "code_ok G Ls x" using assms by (auto simp: code_inv_def)
  have w: "word_at ?y q = word_at x q" "page_words ?y k = page_words x k" for q k by (simp_all add: word_at_def page_words_def)
  have "code_ok G Ls ?y"
    by (rule code_ok_transfer [OF x]) (use x w in \<open>auto simp: code_ok_def pages_ok_def target_ok_def\<close>)
  then show ?thesis by (auto simp: code_inv_def)
qed

lemma code_inv_BranchTable: "code_inv G x \<Longrightarrow> okR (code_inv G) (Compile_BranchTable env x)"
  unfolding Compile_BranchTable_def Let_def
  by (intro okR_tryR_pair [OF tgt.i.I_read_u32] okR_tryR [OF tgt.PreserveRegister] okR_tryR [OF tgt.i.I_Pop] okR_throwif
      okR_tryR [OF tgt.emit_op] okR_tryR [OF code_inv_BranchTable_targets] tgt.i.I_SetStackPolymorphic)
    (auto intro!: tgt.word tgt.slot code_inv_request [unfolded Suc_eq_plus1 [symmetric]] intro: tgt.weaken)

section \<open>Blocks and statements\<close>

lemma code_inv_same: "code_inv G x \<Longrightarrow> same_control x y \<Longrightarrow> code_inv G y"
  by (rule tgt.i.I_stack)

lemma code_inv_leaf: "code_inv G x \<Longrightarrow> g_page G \<in> g_ends G \<Longrightarrow> okR (code_inv G) (compile_leaf env c op x)"
  using code_inv_Branch code_inv_BranchTable tgt.leaf by (cases "c = C_Branch \<or> c = C_BranchTable") (auto simp: compile_leaf_def)

lemma code_inv_previous: "code_inv G x \<Longrightarrow> code_inv G (x\<lparr>previousOpcode := op\<rparr>)"
  by (erule code_inv_same) (simp add: same_control_def)

lemma code_inv_Extended: "code_inv G x \<Longrightarrow> g_page G \<in> g_ends G \<Longrightarrow> okR (code_inv G) (Compile_ExtendedOpcode env x op)"
  unfolding Compile_ExtendedOpcode_def Let_def
  by (intro okR_tryR_pair [OF tgt.i.I_read_u8])
    (auto split: option.split intro: code_inv_previous intro!: okR_tryR [OF code_inv_leaf])

abbreviation in_scope :: "M3Compilation \<Rightarrow> u16 \<Rightarrow> ghost \<Rightarrow> ghost" where
  "in_scope x op G \<equiv> G\<lparr>g_scopes := (Some (here x), depth (block x) + 1, op) # g_scopes G\<rparr>"

lemma scope_height:
  assumes "code_inv G x"
  shows "code_inv G (x\<lparr>block := (block x)\<lparr>exitStackIndex := b\<rparr>, stackIndex := a\<rparr>)"
    "code_inv G (x\<lparr>stackIndex := a, block := (block x)\<lparr>blockStackIndex := b\<rparr>\<rparr>)"
  by (rule code_inv_same [OF assms], simp add: same_control_def same_scope_def)+

lemma code_inv_enter_block:
  assumes "code_inv G x" "g_page G \<in> g_ends G"
  shows "okR (code_inv (in_scope x op G)) (enter_block env x ft op)"
proof -
  let ?s = "(block x)\<lparr>sc_pc := GetPC x, patches := None, sc_type := ft, depth := depth (block x) + 1, sc_opcode := op\<rparr>"
  let ?y = "x\<lparr>outer := block x # outer x, block := ?s\<rparr>"
  obtain Ls where x: "code_ok G Ls x" using assms(1) by (auto simp: code_inv_def)
  have "code_ok (G\<lparr>g_scopes := scope_view ?s # g_scopes G\<rparr>) ([] # Ls) ?y"
    by (rule code_ok_push [OF x assms(2)]) (simp_all add: code_inv_more(1) [OF assms(1)])
  moreover have "scope_view ?s = (Some (here x), depth (block x) + 1, op)"
    by (simp add: scope_view_def code_inv_more(1) [OF assms(1)])
  ultimately have y: "code_inv (in_scope x op G) ?y" by (auto simp: code_inv_def)
  have si: "code_inv (in_scope x op G) (?y\<lparr>stackIndex := a\<rparr>)" for a
    by (rule code_inv_same [OF y]) (simp add: same_control_def)
  have params: "okR (code_inv (in_scope x op G)) (if op \<noteq> c_waOp_else then pop_params ft is ?y
      else if c then Inr (?y\<lparr>stackIndex := a\<rparr>) else Inr (?y\<lparr>stackIndex := b\<rparr>))" for c a b "is"
    by (intro okR_if tgt.i.I_pop_params y) (simp_all only: okR_Inr si)
  show ?thesis
    unfolding enter_block_def Let_def
    by (intro okR_tryR [OF params] okR_tryR [where Q = "code_inv (in_scope x op G)"] tgt.i.I_PushBlockResults_unchecked
        tgt.i.I_pop_n_unchecked tgt.i.I_push_params scope_height)
qed

lemma code_inv_leave_block:
  assumes "code_inv (G\<lparr>g_scopes := v # g_scopes G\<rparr>) x" "g_page G \<in> g_ends G" "g_scopes G \<noteq> []"
  shows "okR (code_inv G) (leave_block env x op)"
proof -
  let ?G = "G\<lparr>g_scopes := v # g_scopes G\<rparr>"
  have patch: "okR (code_inv G) (tryR (PatchBranches y) (\<lambda>o'. Inr (o'\<lparr>block := hd (outer o'), outer := tl (outer o')\<rparr>)))"
    if y: "code_inv ?G y" for y
  proof -
    obtain z Ls where z: "PatchBranches y = Inr z" "code_ok ?G ([] # Ls) z" using PatchBranches_ok [OF y] assms(2) by auto
    have "outer z \<noteq> []" using code_okD(10) [OF z(2)] assms(3) by auto
    from code_ok_pop [OF z(2) this] show ?thesis using z(1) by (auto simp: code_inv_def)
  qed
  have same: "code_inv H (y\<lparr>stackIndex := a\<rparr>)" if "code_inv H y" for H y a
    using that by (auto elim!: code_inv_same simp: same_control_def)
  show ?thesis
    unfolding leave_block_def Let_def
    by (intro okR_tryR [where Q = "code_inv ?G" and P = "code_inv ?G"] okR_tryR [where Q = "code_inv ?G" and P = "code_inv G"] patch okR_if
        tgt.ResolveBlockResults tgt.i.I_UnwindBlockStack tgt.i.I_PushBlockResults same assms(1)) (auto intro: assms(1))
qed

text \<open>What is proved of the statements of a block, for the statements nested in them.\<close>

definition keeps_code :: "statements \<Rightarrow> bool" where
  "keeps_code stmts \<longleftrightarrow> (\<forall>G x. code_inv G x \<longrightarrow> g_page G \<in> g_ends G \<longrightarrow> okO (code_inv G) (stmts x))"

lemma keeps_codeD: "keeps_code stmts \<Longrightarrow> code_inv G x \<Longrightarrow> g_page G \<in> g_ends G \<Longrightarrow> okO (code_inv G) (stmts x)"
  by (simp add: keeps_code_def)

lemma code_inv_CompileBlock:
  assumes "keeps_code stmts" "code_inv G x" "g_page G \<in> g_ends G"
  shows "okO (code_inv G) (CompileBlock stmts env x ft op)"
  unfolding CompileBlock_def
proof (rule okO_tryO [where Q = "code_inv (in_scope x op G)"])
  show "okO (code_inv (in_scope x op G)) (Some (enter_block env x ft op))" using code_inv_enter_block [OF assms(2,3)] by simp
next
  fix y assume "code_inv (in_scope x op G) y"
  then have body: "okO (code_inv (in_scope x op G)) (stmts y)" using keeps_codeD [OF assms(1)] assms(3) by simp
  have "g_scopes G \<noteq> []" using code_inv_more(3) [OF assms(2)] by auto
  then have "okO (code_inv G) (Some (leave_block env z op))" if "code_inv (in_scope x op G) z" for z
    using code_inv_leave_block [OF that assms(3)] by simp
  then show "okO (code_inv G) (tryO (stmts y) (\<lambda>o'. Some (leave_block env o' op)))" by (rule okO_tryO [OF body])
qed

lemma code_inv_LoopOrBlock:
  assumes "keeps_code stmts" "code_inv G x" "g_page G \<in> g_ends G"
  shows "okO (code_inv G) (Compile_LoopOrBlock stmts env x op)"
proof -
  have a: "okR (\<lambda>(t, x). code_inv G x) (tryR (PreserveRegisters (ce_page_ok env) x) (\<lambda>o'.
      tryR (PreserveArgsAndLocals env o') (ReadBlockType env)))"
    by (intro okR_tryR [OF tgt.PreserveRegisters] okR_tryR [OF tgt.PreserveArgs] tgt.i.I_ReadBlockType) (use assms(2) in simp_all)
  have b: "okR (code_inv G) (if b then tryR (if c then instantiate_constants env is y else Inr y) (\<lambda>o'. emit_op_at env o' o_Loop) else Inr y)"
    if "code_inv G y" for y b c "is"
    by (intro okR_if okR_tryR [where Q = "code_inv G"] tgt.instantiate tgt.weakenR [OF tgt.emit_op]) (use that in simp_all)
  show ?thesis
    unfolding Compile_LoopOrBlock_def Let_def
    by (intro okO_tryO_pair [where Q = "code_inv G"] okO_tryO [where Q = "code_inv G"] code_inv_CompileBlock assms) (use a b in simp_all)
qed

lemma code_inv_tracked_mono: "code_inv G x \<Longrightarrow> T \<subseteq> g_tracked G \<Longrightarrow> code_inv (G\<lparr>g_tracked := T\<rparr>) x"
  using code_ok_weaken [of G _ x "g_ends G" "g_slack G" T] code_okD(5) [of G _ x] by (auto simp: code_inv_def)

lemma code_inv_CompileElseBlock:
  assumes stmts: "keeps_code stmts" and x: "code_inv G x" and e: "g_page G \<in> g_ends G"
  shows "okO (\<lambda>(pc, y). \<exists>q. pc = Some q \<and> target_ok G y q \<and> code_inv G y) (CompileElseBlock stmts env x ft)"
proof -
  let ?n = "numPages x"
  define F where "F = G\<lparr>g_tracked := insert (?n, 0) (insert (here x) (g_tracked G))\<rparr>"
  define K where "K = on_fresh_page ?n F"
  have F: "g_page F = g_page G" "g_used F = g_used G" "g_ends F = g_ends G" by (simp_all add: F_def)
  have K: "g_page K = ?n" "?n \<in> g_ends K" "tracked K = tracked F" by (simp_all add: K_def)
  let ?H = "G\<lparr>g_tracked := insert (here x) (g_tracked G)\<rparr>"
  have h: "code_inv ?H x" by (rule code_inv_track [OF x code_inv_here [OF x e]])
  note f = code_inv_fresh [OF h]
  have z: "code_inv K (fresh_page x)"
    using code_inv_track [OF f(1) code_inv_here [OF f(1)]] f(3) by (cases G) (simp add: K_def F_def)
  have block: "okO (code_inv K) (CompileBlock stmts env (fresh_page x) ft c_waOp_else)"
    by (rule code_inv_CompileBlock [OF stmts z]) (simp add: K)
  have used: "g_page F \<in> g_used F" "g_ends F \<subseteq> g_used F" "?n \<notin> g_used F"
    using code_inv_more(6,7) [OF x] f(2) by (simp_all add: F)
  have end': "code_inv F (use_page (g_page G) (emit_word y (W_pc (Some (here x)))))" if y: "code_inv (closed K) y" for y
  proof -
    have "here x \<in> tracked (closed K)" by (simp add: K(3)) (simp add: F_def tracked_def)
    from code_inv_pc [OF y code_inv_target [OF y this]] show ?thesis
      using code_inv_return [OF used] F(1) by (simp add: K_def)
  qed
  have start: "target_ok G y (?n, 0) \<and> code_inv G y" if "code_inv F y" for y
  proof -
    have "(?n, 0) \<in> tracked F" by (simp add: F_def tracked_def)
    from code_inv_target [OF that this] have "target_ok G y (?n, 0)" by (simp add: F_def)
    moreover have "code_inv G y"
      using code_inv_tracked_mono [OF that, of "g_tracked G"] by (cases G) (simp add: F_def subset_insertI2 subset_insertI)
    ultimately show ?thesis ..
  qed
  have pc: "GetPC x = Some (here x)" "cur_page x = g_page G" using code_inv_more [OF x] by simp_all
  have startpc: "GetPC (fresh_page x) = Some (?n, 0)" using code_inv_more(1) [OF z] f(3) by simp
  have tail: "okO (\<lambda>(pc, y). \<exists>q. pc = Some q \<and> target_ok G y q \<and> code_inv G y)
      (tryO (CompileBlock stmts env (fresh_page x) ft c_waOp_else) (\<lambda>o'.
       tryO (Some (emit_op_at env o' o_Branch)) (\<lambda>o'.
         Some (Inr (GetPC (fresh_page x), use_page (g_page G) (emit_word o' (W_pc (Some (here x)))))))))"
  proof (rule okO_tryO [OF block], rule okO_tryO)
    fix y assume "code_inv K y"
    then show "okO (code_inv (closed K)) (Some (emit_op_at env y o_Branch))" using tgt.emit_op by simp
  next
    fix y assume "code_inv (closed K) y"
    from start [OF end' [OF this]] show "okO (\<lambda>(pc, y). \<exists>q. pc = Some q \<and> target_ok G y q \<and> code_inv G y)
        (Some (Inr (GetPC (fresh_page x), use_page (g_page G) (emit_word y (W_pc (Some (here x)))))))"
      by (simp add: startpc)
  qed
  show ?thesis
    unfolding CompileElseBlock_def Let_def pc
    by (rule okO_tryO [where Q = "\<lambda>(k, y). k = ?n \<and> use_page k y = fresh_page x"])
      (use Acquire_fresh [of x env] tail [unfolded pc(2)] in \<open>auto elim: okR_mono\<close>)
qed

text \<open>The word for the else branch is reserved in \<open>H\<close>.\<close>

definition reserves :: "ghost \<Rightarrow> pc_t option \<Rightarrow> ghost \<Rightarrow> bool" where
  "reserves G j H \<longleftrightarrow> g_page H \<in> g_ends H
     \<and> (\<forall>z q. code_inv H z \<longrightarrow> target_ok H z q \<longrightarrow> code_inv G (set_reserved j (W_pc (Some q)) z))"

lemma code_inv_if_start:
  assumes x: "code_inv G x" and e: "g_page G \<in> g_ends G"
  shows "okR (\<lambda>(j, t, y). \<exists>H. code_inv H y \<and> reserves G j H) (if_start env x)"
proof -
  have over: "okR (\<lambda>(j, t, y). \<exists>H. code_inv H y \<and> reserves G j H)
      (case ReserveBranch y of (pc, o') \<Rightarrow> tryR (ReadBlockType env o') (\<lambda>(blockType, o'). Inr (pc, blockType, o')))"
    if "code_inv (closed G) y" for y
  proof (rule code_inv_over [OF that])
    fix H j z
    assume a: "ReserveBranch y = (j, z)" "code_inv (closed H) z" "g_page H = g_page G" "g_ends H = g_ends G"
      "\<And>z q. code_inv H z \<Longrightarrow> target_ok H z q \<Longrightarrow> code_inv G (set_reserved j (W_pc (Some q)) z)"
    have r: "reserves G j H" using e a(5) by (simp only: reserves_def a(3,4) simp_thms) blast
    have "okR (\<lambda>(j, t, y). \<exists>H. code_inv H y \<and> reserves G j H) (Inr (j, t, w))" if "code_inv H w" for t w
      using r that by (simp only: okR_Inr prod.case) blast
    then show ?thesis
      unfolding a(1) prod.case by (rule okR_tryR_pair [OF tgt.i.I_ReadBlockType [OF tgt.weaken [OF a(2)]]])
  qed
  show ?thesis
    unfolding if_start_def Let_def
    by (intro okR_tryR [OF tgt.PreserveNonTopRegisters [OF x]] okR_tryR [OF tgt.PreserveArgs] okR_tryR [OF tgt.emit_op]
        okR_tryR [OF tgt.EmitSlotNum] over)
qed

lemma code_inv_If:
  assumes stmts: "keeps_code stmts" and x: "code_inv G x" and e: "g_page G \<in> g_ends G"
  shows "okO (code_inv G) (Compile_If stmts env x op)"
proof -
  have rest: "okO (code_inv G) (tryO (CompileBlock stmts env y t op) (\<lambda>o'.
      if previousOpcode o' = c_waOp_else then
        tryO (CompileElseBlock stmts env (o'\<lparr>stackIndex := si\<rparr>) t) (\<lambda>(startPC, o').
          Some (Inr (set_reserved j (W_pc startPC) o')))
      else if GetFuncTypeNumResults t \<noteq> 0 then
        tryO (CompileElseBlock stmts env (o'\<lparr>co_wasm := co_wasm o' - 1, stackIndex := si\<rparr>) t) (\<lambda>(startPC, o').
          Some (Inr (set_reserved j (W_pc startPC) o')))
      else Some (Inr (set_reserved j (W_pc (GetPC o')) o'))))"
    if y: "code_inv H y" and r: "reserves G j H" for H j t y si
  proof (rule okO_tryO)
    have e: "g_page H \<in> g_ends H" and set: "code_inv H z \<Longrightarrow> target_ok H z q \<Longrightarrow> code_inv G (set_reserved j (W_pc (Some q)) z)" for z q
      using r unfolding reserves_def by blast+
    show "okO (code_inv H) (CompileBlock stmts env y t op)" by (rule code_inv_CompileBlock [OF stmts y e])
    fix z assume z: "code_inv H z"
    have else': "okO (code_inv G) (tryO (CompileElseBlock stmts env w t) (\<lambda>(startPC, o').
          Some (Inr (set_reserved j (W_pc startPC) o'))))" if "code_inv H w" for w
      by (rule okO_tryO [OF code_inv_CompileElseBlock [OF stmts that e]]) (auto intro: set)
    have si: "code_inv H (z\<lparr>stackIndex := a\<rparr>)" for a
      by (rule code_inv_same [OF z]) (simp add: same_control_def)
    have wasm: "code_inv H (z\<lparr>co_wasm := p, stackIndex := a\<rparr>)" for p a
    proof -
      have "code_inv H (z\<lparr>co_wasm := p\<rparr>)" using z code_ok_cursor unfolding code_inv_def by blast
      then show ?thesis by (rule code_inv_same) (simp add: same_control_def)
    qed
    have "code_inv G (set_reserved j (W_pc (GetPC z)) z)"
      using set [OF z code_inv_here [OF z e]] code_inv_more(1) [OF z] by simp
    then show "okO (code_inv G) (if previousOpcode z = c_waOp_else then
        tryO (CompileElseBlock stmts env (z\<lparr>stackIndex := si\<rparr>) t) (\<lambda>(startPC, o').
          Some (Inr (set_reserved j (W_pc startPC) o')))
      else if GetFuncTypeNumResults t \<noteq> 0 then
        tryO (CompileElseBlock stmts env (z\<lparr>co_wasm := co_wasm z - 1, stackIndex := si\<rparr>) t) (\<lambda>(startPC, o').
          Some (Inr (set_reserved j (W_pc startPC) o')))
      else Some (Inr (set_reserved j (W_pc (GetPC z)) z)))"
      using else' [OF si] else' [OF wasm] by simp
  qed
  show ?thesis
    unfolding Compile_If_def Let_def if_start_def [unfolded Let_def, symmetric]
    by (rule okO_tryO [where Q = "\<lambda>(j, t, y). \<exists>H. code_inv H y \<and> reserves G j H"])
      (use code_inv_if_start [OF x e] rest in auto)
qed

lemma code_inv_statement:
  assumes "keeps_code stmts" "code_inv G x" "g_page G \<in> g_ends G"
  shows "okO (code_inv G) (compile_statement stmts env x op)"
  using code_inv_LoopOrBlock [OF assms] code_inv_If [OF assms] code_inv_leaf [OF assms(2,3)] code_inv_Extended [OF assms(2,3)]
    tgt.weakenR [OF tgt.Operator [OF assms(2)]]
  by (simp add: compile_statement_def split: option.split)

text \<open>The end of a function is an operation.\<close>

abbreviation function_scope :: "pc_t option \<times> int \<times> u16" where
  "function_scope \<equiv> (None, 0, 0)"

lemma end_opcode: "map_option compiler (GetOpInfo c_waOp_end) = Some (Some C_End)"
  by code_simp

lemma code_inv_end:
  assumes "code_inv G x" "hd (g_scopes G) = function_scope"
  shows "okO (code_inv (closed G)) (compile_statement stmts env x c_waOp_end)"
proof -
  obtain i where i: "GetOpInfo c_waOp_end = Some i" "compiler i = Some C_End" using end_opcode by auto
  have "scope_view (block x) = function_scope"
    using code_inv_more(3) [OF assms(1)] assms(2) by (metis list.sel(1) list.simps(9))
  then have "depth (block x) = 0" by (simp add: scope_view_def)
  from tgt.End_function [OF assms(1) this, of env] show ?thesis
    by (simp add: compile_statement_def i compile_leaf_def)
qed

definition ends_well :: "ghost \<Rightarrow> M3Compilation \<Rightarrow> bool" where
  "ends_well G y \<longleftrightarrow> code_inv G y \<and> (hd (g_scopes G) = function_scope \<longrightarrow> code_inv (closed G) y)"

lemma code_inv_statements:
  "code_inv G x \<Longrightarrow> g_page G \<in> g_ends G \<Longrightarrow> okO (ends_well G) (CompileBlockStatements n env x)"
proof (induction n arbitrary: G x)
  case (Suc n)
  have keeps: "keeps_code (CompileBlockStatements n env)"
    unfolding keeps_code_def using Suc.IH okO_mono ends_well_def by (metis (mono_tags, lifting))
  have block_scope: "sc_opcode (block z) = snd (snd (hd (g_scopes G)))" if "code_inv G z" for z
    using arg_cong [OF code_inv_more(3) [OF that], of "\<lambda>l. snd (snd (hd l))"] by (simp add: scope_view_def)
  have rest: "okO (ends_well G) (tryO (compile_statement (CompileBlockStatements n env) env y op) (\<lambda>o'.
      let o' = o'\<lparr>previousOpcode := op\<rparr> in
      if op = c_waOp_else then Some (throwif m3Err_wasmMalformed (sc_opcode (block o') \<noteq> c_waOp_if) (Inr o'))
      else if op = c_waOp_end then Some (Inr o') else CompileBlockStatements n env o'))" if y: "code_inv G y" for y op
  proof (cases "op = c_waOp_end \<and> hd (g_scopes G) = function_scope")
    case True
    have "okO (ends_well G) (Some (Inr (z\<lparr>previousOpcode := op\<rparr>)))" if "code_inv (closed G) z" for z
      using code_inv_previous [OF that] tgt.weaken by (simp add: ends_well_def)
    then show ?thesis
      unfolding Let_def using code_inv_end [OF y, of "CompileBlockStatements n env" env] True
      by (intro okO_tryO [where Q = "code_inv (closed G)"]) simp_all
  next
    case False
    show ?thesis
      unfolding Let_def
    proof (intro okO_tryO [where Q = "code_inv G"] okO_if)
      show "okO (code_inv G) (compile_statement (CompileBlockStatements n env) env y op)"
        by (rule code_inv_statement [OF keeps y Suc.prems(2)])
    next
      fix z assume "code_inv G z"
      note z = code_inv_previous [OF this, of op]
      show "okO (ends_well G) (CompileBlockStatements n env (z\<lparr>previousOpcode := op\<rparr>))"
        by (rule Suc.IH [OF z Suc.prems(2)])
      show "okO (ends_well G) (Some (throwif m3Err_wasmMalformed (sc_opcode (block (z\<lparr>previousOpcode := op\<rparr>)) \<noteq> c_waOp_if)
          (Inr (z\<lparr>previousOpcode := op\<rparr>))))"
        using z block_scope [OF z] by (auto simp: ends_well_def throwif_def)
      assume "op = c_waOp_end"
      then show "okO (ends_well G) (Some (Inr (z\<lparr>previousOpcode := op\<rparr>)))"
        using z False by (simp add: ends_well_def)
    qed
  qed
  show ?case
    unfolding CompileBlockStatements.simps
    by (intro okO_if okO_tryO_pair [where Q = "code_inv G"] rest) (use tgt.i.I_read_opcode [OF Suc.prems(1)] in simp_all)
qed simp

section \<open>Functions\<close>

definition start_ghost :: ghost where
  "start_ghost = \<lparr>g_page = 0, g_used = {0}, g_ends = {0}, g_reserved = [], g_tracked = {(0, 0)}, g_slack = 0, g_scopes = [function_scope]\<rparr>"

lemma code_inv_start:
  assumes "x = use_page 0 (y\<lparr>requests := 1, numPages := 1\<rparr>)" "\<not> has_page y" "code y = []" "shelf y = (\<lambda>_. [])" "outer y = []"
    "scope_view (block y) = function_scope" "patches (block y) = None"
  shows "code_inv start_ghost x"
proof -
  have w: "page_words x k = []" "word_at x p = None" for k p
    using assms(1-4) by (simp_all add: page_words_def use_page_def word_at_def)
  have x: "has_page x" "cur_page x = 0" "numPages x = 1" "requests x = 1" "block x = block y" "outer x = []"
    using assms(1,5) by (simp_all add: use_page_def)
  have "code_ok start_ghost [[]] x"
    using assms(6,7) by (simp add: code_ok_def pages_ok_def words_ok_def tracked_def target_ok_def links_ok_def start_ghost_def w x)
  then show ?thesis by (auto simp: code_inv_def)
qed

text \<open>Every pointer in the words \<open>ws\<close> of the pages leads to an operation, or to a page without code.\<close>

definition branches_ok :: "(nat \<Rightarrow> code_word list) \<Rightarrow> bool" where
  "branches_ok ws \<longleftrightarrow> (\<forall>k t. W_pc t \<in> set (ws k) \<longrightarrow> (\<exists>k' i. t = Some (k', i)
      \<and> (ws k' = [] \<and> i = 0 \<or> i < length (ws k') \<and> (\<exists>op. ws k' ! i = W_op op))))"

lemma branches_ok_final:
  assumes "code_inv (closed start_ghost) x"
  shows "branches_ok (page_words x)" "\<exists>op. word_at x (0, 0) = Some (W_op op)"
proof -
  obtain Ls where x: "code_ok (closed start_ghost) Ls x" using assms by (auto simp: code_inv_def)
  note d = code_okD [OF x]
  have len: "length (scopes x) = 1" using arg_cong [OF d(10), of length] by (simp add: start_ghost_def)
  then have sc: "outer x = []" by simp
  have "scope_view (block x) = function_scope" using d(10) sc by (simp add: start_ghost_def)
  then have L: "concat Ls = []" using d(7) sc by (auto simp: list_all2_Cons1 links_ok_def scope_view_def)
  have target: "i < page_length x k \<and> (\<exists>op. page_words x k ! i = W_op op) \<or> page_words x k = [] \<and> i = 0"
    if "target_ok (closed start_ghost) x (k, i)" for k i
    using that by (auto simp: target_ok_def word_at_def start_ghost_def split: if_splits)
  show "branches_ok (page_words x)"
    unfolding branches_ok_def
  proof (intro allI impI)
    fix k t assume "W_pc t \<in> set (page_words x k)"
    then obtain i where "i < page_length x k" "page_words x k ! i = W_pc t" by (auto simp: in_set_conv_nth)
    then have "word_at x (k, i) = Some (W_pc t)" by (simp add: word_at_def)
    from words_okD(3) [OF d(8) this] L obtain q where "t = Some q" "target_ok (closed start_ghost) x q"
      by (auto simp: start_ghost_def)
    then show "\<exists>k' i. t = Some (k', i) \<and> (page_words x k' = [] \<and> i = 0
        \<or> i < page_length x k' \<and> (\<exists>op. page_words x k' ! i = W_op op))"
      using target by (cases q) blast
  qed
  have "target_ok (closed start_ghost) x (0, 0)"
    by (rule words_okD(4) [OF d(8)]) (simp add: tracked_def start_ghost_def)
  then show "\<exists>op. word_at x (0, 0) = Some (W_op op)" by (auto simp: target_ok_def start_ghost_def)
qed

lemma code_inv_set_function: "code_inv G x \<Longrightarrow> code_inv G (set_function g x)"
  by (erule code_inv_same) (simp add: same_control_def)

lemma code_inv_begin_function:
  "okR (code_inv start_ghost) (begin_function env ((zero_compilation wasm wasm_end)\<lparr>co_function := f, block := (block (zero_compilation wasm wasm_end))\<lparr>sc_type := t\<rparr>\<rparr>))"
  (is "okR _ (begin_function env ?z)")
proof -
  have start: "code_inv start_ghost (use_page 0 (y\<lparr>requests := 1, numPages := 1\<rparr>))" if "y = ?z\<lparr>co_wasm := p\<rparr>" for y p
    using that by (intro code_inv_start [OF refl]) (simp_all add: zero_compilation_def scope_view_def)
  have acquire: "okR (\<lambda>(k, x). code_inv start_ghost (use_page k x)) (AcquireCompilationPage env (?z\<lparr>co_wasm := p\<rparr>))" for p
    using start [OF refl, of p] by (simp add: AcquireCompilationPage_def zero_compilation_def)
  have rest: "okR (code_inv start_ghost) (tryR (MarkSlotsAllocated x 0 n) (\<lambda>o'.
      Inr (set_function g (o'\<lparr>slotFirstDynamicIndex := s\<rparr>))))" if "code_inv start_ghost x" for x n g s
    by (intro okR_tryR [OF tgt.i.I_MarkSlots [OF that]])
      (simp only: okR_Inr, rule code_inv_set_function, erule code_inv_same, simp add: same_control_def)
  show ?thesis
    unfolding begin_function_def Let_def
  proof (rule okR_tryR [where Q = "\<lambda>(n, x). \<exists>p. x = ?z\<lparr>co_wasm := p\<rparr>"])
    show "okR (\<lambda>(n, x). \<exists>p. x = ?z\<lparr>co_wasm := p\<rparr>) (read_u32 env ?z)"
      by (auto simp: okR_def read_with_def m3_result)
  next
    fix nx :: "u32 \<times> M3Compilation" assume "case nx of (n, x) \<Rightarrow> \<exists>p. x = ?z\<lparr>co_wasm := p\<rparr>"
    then obtain n p where nx: "nx = (n, ?z\<lparr>co_wasm := p\<rparr>)" by blast
    have step: "okR (code_inv start_ghost) (case kx of (page, o') \<Rightarrow>
        tryR (MarkSlotsAllocated (use_page page o') 0 (m page o')) (\<lambda>o'a. Inr (set_function (g page o') (o'a\<lparr>slotFirstDynamicIndex := s page o'\<rparr>))))"
      if "case kx of (k, x) \<Rightarrow> code_inv start_ghost (use_page k x)" for kx m g s
      using that rest by (cases kx) simp
    show "okR (code_inv start_ghost) (case nx of (nn, o') \<Rightarrow>
          tryR (AcquireCompilationPage env o') (\<lambda>(page, o').
            tryR (MarkSlotsAllocated (use_page page o') 0 (unat (GetFunctionNumReturns (function_type env (use_page page o')) * c_ioSlotCount)))
              (\<lambda>o'a. Inr (set_function (\<lambda>f. f\<lparr>numRetSlots := GetFunctionNumReturns (function_type env (use_page page o')) * c_ioSlotCount\<rparr>)
                (o'a\<lparr>slotFirstDynamicIndex := GetFunctionNumReturns (function_type env (use_page page o')) * c_ioSlotCount\<rparr>)))))"
      unfolding nx prod.case by (rule okR_tryR [OF acquire]) (rule step)
  qed
qed

lemma code_inv_push_arguments: "code_inv G x \<Longrightarrow> okR (code_inv G) (push_arguments env x)"
proof -
  assume x: "code_inv G x"
  have args: "okR (code_inv G) (push_args ft is y)" if "code_inv G y" for ft "is" y
    using that
  proof (induction "is" arbitrary: y)
    case (Cons i "is")
    have "code_inv G (w\<lparr>slotFirstDynamicIndex := s\<rparr>)" if "code_inv G w" for w s
      using that by (rule code_inv_same) (simp add: same_control_def)
    then show ?case unfolding push_args.simps by (intro okR_tryR [OF tgt.i.I_PushAllocatedSlot [OF Cons.prems]] Cons.IH)
  qed simp
  have fin: "code_inv G (set_function g (w\<lparr>slotMaxAllocatedIndexPlusOne := a, slotFirstLocalIndex := b\<rparr>))" if "code_inv G w" for w a b g
    using that by (rule code_inv_same) (simp add: same_control_def)
  show ?thesis unfolding push_arguments_def Let_def by (intro okR_tryR [OF args [OF x]]) (simp only: okR_Inr fin)
qed

lemma code_inv_measure_locals:
  assumes "code_inv G x"
  shows "code_inv G (measure_locals x)"
proof -
  obtain m y where m: "GetMaxUsedSlotPlusOne x = (m, y)" by (cases "GetMaxUsedSlotPlusOne x")
  then have y: "code_inv G y" using tgt.i.I_GetMaxUsedSlot [OF assms] by simp
  show ?thesis
    unfolding measure_locals_def Let_def m prod.case by (rule code_inv_same [OF y]) (simp add: same_control_def)
qed

lemma code_inv_start_body: "code_inv G x \<Longrightarrow> okR (code_inv G) (start_body env fi x)"
proof -
  assume x: "code_inv G x"
  have "okR (code_inv G) (ReserveConstants env x)"
    using x by (auto simp: ReserveConstants_def Let_def same_control_def intro!: okR_throwif elim!: code_inv_same)
  moreover have "okR (code_inv G) (tryR (emit_op_at env (y\<lparr>maxStackSlots := a, slotMaxAllocatedIndexPlusOne := a,
      stackFirstDynamicIndex := b, block := (block y)\<lparr>blockStackIndex := b\<rparr>\<rparr>) op_Entry) (\<lambda>o'. Inr (emit_word o' (W_function fi))))"
    if "code_inv G y" for y a b
  proof -
    have "code_inv G (y\<lparr>maxStackSlots := a, slotMaxAllocatedIndexPlusOne := a, stackFirstDynamicIndex := b,
        block := (block y)\<lparr>blockStackIndex := b\<rparr>\<rparr>)"
      using that by (rule code_inv_same) (simp add: same_control_def same_scope_def)
    then show ?thesis by (intro okR_tryR [OF tgt.emit_op]) (auto intro!: tgt.weaken [OF tgt.word])
  qed
  ultimately show ?thesis unfolding start_body_def Let_def by (rule okR_tryR)
qed

lemma step_function_Some: "step_function f r k = Some (e, f', Some cc) \<longleftrightarrow> (\<exists>x. r = Inr x \<and> k x = Some (e, f', Some cc))"
  by (auto simp: step_function_def split: sum.split)


lemma sample_compiles: "\<exists>f cc. compile_sample 28 sample_body = Some (None, f, Some cc)"
proof -
  have "case compile_sample 28 sample_body of Some (None, f, Some cc) \<Rightarrow> True | _ \<Rightarrow> False"
    by code_simp
  then show ?thesis by (auto split: option.splits prod.splits)
qed


end
