(* ===== verification/M3_Memory.thy ===== *)
theory M3_Memory
  imports M3_Module
begin

text \<open>
  Linear memory: \<^verbatim>\<open>M3Memory\<close> and its header (\<^verbatim>\<open>include/m3_env.h\<close>, \<^verbatim>\<open>include/m3_core.h\<close>), the
  resizing of \<^verbatim>\<open>src/m3_env.c\<close> and the memory operations of \<^verbatim>\<open>include/m3_exec.h\<close> (load, store,
  \<^verbatim>\<open>memory.size\<close>, \<^verbatim>\<open>memory.grow\<close>, \<^verbatim>\<open>memory.copy\<close>, \<^verbatim>\<open>memory.fill\<close>). The allocation behind the
  header is a byte list; an access outside it, when the bounds check of the code passes, is
  undefined behaviour. Then the interface of such a memory as a locale, and its use by clients
  that write several pieces one after the other.
\<close>

section \<open>State\<close>

record M3MemoryHeader =
  mh_length :: u64
  mh_data :: "u8 list"

record M3Memory =
  mallocated :: "M3MemoryHeader option"
  numPages :: u32
  maxPages :: u32
  pageSize :: u32

abbreviation (input) sizeof_M3MemoryHeader :: u64 where "sizeof_M3MemoryHeader \<equiv> 24"
abbreviation (input) d_m3MaxLinearMemoryPages :: u32 where "d_m3MaxLinearMemoryPages \<equiv> 65536"
abbreviation (input) d_m3DefaultMemPageSize :: u32 where "d_m3DefaultMemPageSize \<equiv> 65536"

definition zero_memory :: M3Memory where
  "zero_memory = \<lparr>mallocated = None, numPages = 0, maxPages = 0, pageSize = 0\<rparr>"

section \<open>Resizing\<close>

text \<open>
  \<^verbatim>\<open>m3_Realloc\<close> on the block of a memory, as the bytes behind the new header: unchanged when the
  sizes agree; otherwise the old bytes as far as both blocks have them, and zeroes from the old
  size on when the block grows. \<open>realloc_ok\<close> says which sizes the allocator grants.
\<close>

definition m3_Realloc_memory :: "(u64 \<Rightarrow> bool) \<Rightarrow> M3MemoryHeader option \<Rightarrow> u64 \<Rightarrow> u64 \<Rightarrow> u8 list option" where
  "m3_Realloc_memory realloc_ok ptr newSize oldSize =
    (if newSize = oldSize then map_option mh_data ptr
     else if realloc_ok newSize then
       let old = (case ptr of None \<Rightarrow> [] | Some h \<Rightarrow> mh_data h);
           n = unat newSize - unat sizeof_M3MemoryHeader;
           kept = take n old @ replicate (n - length old) 0;
           z = unat oldSize - unat sizeof_M3MemoryHeader in
       Some (if newSize > oldSize then take z kept @ replicate (n - z) 0 else kept)
     else None)"

text \<open>The product of page count and page size is one of \<^verbatim>\<open>u32\<close>s.\<close>

definition ResizeMemory :: "(u64 \<Rightarrow> bool) \<Rightarrow> u32 \<Rightarrow> M3Memory \<Rightarrow> u32 \<Rightarrow> m3_error option \<times> M3Memory" where
  "ResizeMemory realloc_ok memoryLimit memory i_numPages =
    (if i_numPages \<le> maxPages memory then
       if i_numPages > d_m3MaxLinearMemoryPages then (Some (M3Msg ''linear memory limitation exceeded''), memory)
       else
         let numPageBytes = ucast (i_numPages * pageSize memory) :: u64;
             numPageBytes = (if memoryLimit \<noteq> 0 then min numPageBytes (ucast memoryLimit) else numPageBytes);
             numBytes = numPageBytes + sizeof_M3MemoryHeader;
             numPreviousBytes = ucast (numPages memory * pageSize memory) :: u64;
             numPreviousBytes = (if numPreviousBytes \<noteq> 0 then numPreviousBytes + sizeof_M3MemoryHeader else numPreviousBytes) in
         (case m3_Realloc_memory realloc_ok (mallocated memory) numBytes numPreviousBytes of
            None \<Rightarrow> (Some m3Err_mallocFailed, memory)
          | Some newMem \<Rightarrow>
              (None, memory\<lparr>mallocated := Some \<lparr>mh_length = numPageBytes, mh_data = newMem\<rparr>, numPages := i_numPages\<rparr>))
     else (Some m3Err_wasmMemoryOverflow, memory))"

text \<open>\<^verbatim>\<open>memory.size\<close> and \<^verbatim>\<open>memory.grow\<close> on the register, which is 64 bits wide.\<close>

definition op_MemSize :: "M3Memory \<Rightarrow> u64" where
  "op_MemSize memory = ucast (numPages memory)"

definition op_MemGrow :: "(u64 \<Rightarrow> bool) \<Rightarrow> u32 \<Rightarrow> M3Memory \<Rightarrow> u64 \<Rightarrow> u64 \<times> M3Memory" where
  "op_MemGrow realloc_ok memoryLimit memory r0 =
    (let numPagesToGrow = ucast r0 :: u32 in
     if 0 \<le> sint numPagesToGrow then
       if numPagesToGrow \<noteq> 0 then
         (case ResizeMemory realloc_ok memoryLimit memory (numPages memory + numPagesToGrow) of
            (Some e, memory') \<Rightarrow> (-1, memory')
          | (None, memory') \<Rightarrow> (ucast (numPages memory), memory'))
       else (ucast (numPages memory), memory)
     else (-1, memory))"

section \<open>Access\<close>

text \<open>The address operand and the immediate offset, added at 64 bits.\<close>

definition effective_address :: "u32 \<Rightarrow> u32 \<Rightarrow> u64" where
  "effective_address operand offset = ucast operand + ucast offset"

definition mem_read :: "M3MemoryHeader \<Rightarrow> u64 \<Rightarrow> nat \<Rightarrow> u8 list result" where
  "mem_read h operand n =
    (if operand + of_nat n \<le> mh_length h then
       if unat operand + n \<le> length (mh_data h) then Inr (take n (drop (unat operand) (mh_data h))) else Inl C_undefined
     else Inl m3Err_trapOutOfBoundsMemoryAccess)"

definition mem_write :: "M3MemoryHeader \<Rightarrow> u64 \<Rightarrow> u8 list \<Rightarrow> M3MemoryHeader result" where
  "mem_write h operand bs =
    (if operand + of_nat (length bs) \<le> mh_length h then
       if unat operand + length bs \<le> length (mh_data h)
       then Inr (h\<lparr>mh_data := take (unat operand) (mh_data h) @ bs @ drop (unat operand + length bs) (mh_data h)\<rparr>)
       else Inl C_undefined
     else Inl m3Err_trapOutOfBoundsMemoryAccess)"

text \<open>Little-endian values of any number of bytes.\<close>

definition le_word :: "u8 list \<Rightarrow> u64" where
  "le_word bs = foldr (\<lambda>b w. ucast b OR push_bit 8 w) bs 0"

definition le_bytes :: "nat \<Rightarrow> u64 \<Rightarrow> u8 list" where
  "le_bytes n v = map (\<lambda>i. ucast (drop_bit (8 * i) v)) [0 ..< n]"

text \<open>The source types of the loads; a signed one is sign-extended to the register.\<close>

datatype load_type = L_i8 | L_u8 | L_i16 | L_u16 | L_i32 | L_u32 | L_i64

fun load_size :: "load_type \<Rightarrow> nat" where
  "load_size L_i8 = 1"
| "load_size L_u8 = 1"
| "load_size L_i16 = 2"
| "load_size L_u16 = 2"
| "load_size L_i32 = 4"
| "load_size L_u32 = 4"
| "load_size L_i64 = 8"

fun load_cast :: "load_type \<Rightarrow> u64 \<Rightarrow> u64" where
  "load_cast L_i8 v = scast (ucast v :: u8)"
| "load_cast L_u8 v = ucast (ucast v :: u8)"
| "load_cast L_i16 v = scast (ucast v :: u16)"
| "load_cast L_u16 v = ucast (ucast v :: u16)"
| "load_cast L_i32 v = scast (ucast v :: u32)"
| "load_cast L_u32 v = ucast (ucast v :: u32)"
| "load_cast L_i64 v = v"

definition op_Load :: "load_type \<Rightarrow> M3MemoryHeader \<Rightarrow> u32 \<Rightarrow> u32 \<Rightarrow> u64 result" where
  "op_Load ty h operand offset =
    tryR (mem_read h (effective_address operand offset) (load_size ty)) (\<lambda>bs. Inr (load_cast ty (le_word bs)))"

definition op_Store :: "nat \<Rightarrow> M3MemoryHeader \<Rightarrow> u32 \<Rightarrow> u32 \<Rightarrow> u64 \<Rightarrow> M3MemoryHeader result" where
  "op_Store n h operand offset v = mem_write h (effective_address operand offset) (le_bytes n v)"

text \<open>\<^verbatim>\<open>memmove\<close> reads the whole source before it writes; the destination is checked first.\<close>

definition op_MemCopy :: "M3MemoryHeader \<Rightarrow> u32 \<Rightarrow> u32 \<Rightarrow> u32 \<Rightarrow> M3MemoryHeader result" where
  "op_MemCopy h n source destination =
    (if (ucast destination :: u64) + ucast n \<le> mh_length h then
       tryR (mem_read h (ucast source) (unat n)) (mem_write h (ucast destination))
     else Inl m3Err_trapOutOfBoundsMemoryAccess)"

definition op_MemFill :: "M3MemoryHeader \<Rightarrow> u32 \<Rightarrow> u32 \<Rightarrow> u32 \<Rightarrow> M3MemoryHeader result" where
  "op_MemFill h n byte destination = mem_write h (ucast destination) (replicate (unat n) (ucast byte))"


section \<open>Bytes and values\<close>

lemma length_le_bytes [simp]: "length (le_bytes n v) = n"
  by (simp add: le_bytes_def)

lemma le_bytes_Suc: "le_bytes (Suc n) v = ucast v # le_bytes n (drop_bit 8 v)"
  by (rule nth_equalityI) (auto simp: le_bytes_def nth_Cons drop_bit_drop_bit ac_simps split: nat.splits simp del: upt_Suc)

lemma le_word_bytes: "le_word (le_bytes n v) = take_bit (8 * n) v"
proof (induction n arbitrary: v)
  case (Suc n)
  have "le_word (le_bytes (Suc n) v) = ucast (ucast v :: u8) OR push_bit 8 (take_bit (8 * n) (drop_bit 8 v))"
    using Suc.IH [of "drop_bit 8 v"] by (simp add: le_word_def le_bytes_Suc)
  also have "\<dots> = take_bit (8 * Suc n) v"
    by (rule bit_word_eqI) (auto simp: bit_simps)
  finally show ?case .
qed (simp add: le_word_def le_bytes_def)

lemma load_cast_take_bit: "load_cast ty (take_bit (8 * load_size ty) v) = load_cast ty v"
proof -
  have u: "ucast (take_bit 8 v) = (ucast v :: u8)" "ucast (take_bit 16 v) = (ucast v :: u16)" "ucast (take_bit 32 v) = (ucast v :: u32)"
    by (rule bit_word_eqI, simp add: bit_simps)+
  have "take_bit 64 v = v" by (rule bit_word_eqI) (simp add: bit_simps)
  then show ?thesis by (cases ty) (simp_all add: u)
qed

section \<open>Well-formed memories\<close>

definition hdr_ok :: "M3MemoryHeader \<Rightarrow> bool" where
  "hdr_ok h \<longleftrightarrow> length (mh_data h) = unat (mh_length h) \<and> unat (mh_length h) < 2 ^ 32"

definition mem_ok :: "u32 \<Rightarrow> M3Memory \<Rightarrow> bool" where
  "mem_ok memoryLimit m \<longleftrightarrow> (case mallocated m of None \<Rightarrow> numPages m = 0
     | Some h \<Rightarrow> hdr_ok h \<and> mh_length h = (let b = ucast (numPages m * pageSize m) in if memoryLimit \<noteq> 0 then min b (ucast memoryLimit) else b))"

lemma unat_ucast_32_64 [simp]: "unat (ucast (x :: u32) :: u64) = unat x"
  using unat_lt32 [of x] by (simp add: unsigned_ucast_eq take_bit_nat_eq_self)

lemma unat_add_small:
  assumes "unat (a :: u64) < 2 ^ 62" "unat b < 2 ^ 62"
  shows "unat (a + b) = unat a + unat b"
  using assms by (intro unat_add_lem [THEN iffD1]) simp

lemma unat_of_nat64: "k < 2 ^ 62 \<Longrightarrow> unat (of_nat k :: u64) = k"
  by (simp add: unsigned_of_nat take_bit_nat_eq_self)

lemma unat_effective_address: "unat (effective_address a off) = unat a + unat off"
  unfolding effective_address_def using unat_lt32 [of a] unat_lt32 [of off] by (subst unat_add_small) simp_all

lemma fits_iff:
  assumes "unat (a :: u64) < 2 ^ 62" "n < 2 ^ 62"
  shows "a + of_nat n \<le> l \<longleftrightarrow> unat a + n \<le> unat l"
  using assms by (simp add: word_le_nat_alt unat_add_small unat_of_nat64)

lemma mem_read_eq:
  assumes "hdr_ok h" "unat a < 2 ^ 62" "n < 2 ^ 62"
  shows "mem_read h a n = (if unat a + n \<le> unat (mh_length h) then Inr (take n (drop (unat a) (mh_data h)))
      else Inl m3Err_trapOutOfBoundsMemoryAccess)"
  using assms by (simp add: mem_read_def fits_iff hdr_ok_def)

lemma mem_write_eq:
  assumes "hdr_ok h" "unat a < 2 ^ 62" "length bs < 2 ^ 62"
  shows "mem_write h a bs = (if unat a + length bs \<le> unat (mh_length h)
      then Inr (h\<lparr>mh_data := take (unat a) (mh_data h) @ bs @ drop (unat a + length bs) (mh_data h)\<rparr>)
      else Inl m3Err_trapOutOfBoundsMemoryAccess)"
  using assms by (simp add: mem_write_def fits_iff hdr_ok_def)

lemma nth_splice:
  assumes "k + length bs \<le> length xs" "i < length xs"
  shows "(take k xs @ bs @ drop (k + length bs) xs) ! i = (if k \<le> i \<and> i < k + length bs then bs ! (i - k) else xs ! i)"
  using assms by (auto simp: nth_append)

lemma mem_write_hdr_ok: "mem_write h a bs = Inr h' \<Longrightarrow> hdr_ok h \<Longrightarrow> hdr_ok h' \<and> mh_length h' = mh_length h"
  by (auto simp: mem_write_def hdr_ok_def split: if_splits)

lemma unat_min: "unat (min a b) = min (unat a) (unat b)"
  by (simp add: min_def word_le_nat_alt)

text \<open>The size in bytes of \<open>n\<close> pages, as the code computes it.\<close>

definition page_bytes_of :: "u32 \<Rightarrow> M3Memory \<Rightarrow> u32 \<Rightarrow> u64" where
  "page_bytes_of lim m n = (let b = ucast (n * pageSize m) in if lim \<noteq> 0 then min b (ucast lim) else b)"

lemma page_bytes_of_bound: "unat (page_bytes_of lim m n) < 2 ^ 32"
  using unat_lt32 [of "n * pageSize m"] by (auto simp: page_bytes_of_def Let_def unat_min)

lemma m3_Realloc_memory_length:
  assumes "m3_Realloc_memory realloc_ok ptr (b + 24) old = Some xs" "unat b < 2 ^ 32"
    and "\<And>h. b + 24 = old \<Longrightarrow> ptr = Some h \<Longrightarrow> length (mh_data h) = unat b"
  shows "length xs = unat b"
proof -
  have u: "unat (b + 24) = unat b + 24" using assms(2) by (subst unat_add_small) simp_all
  show ?thesis
  proof (cases "b + 24 = old")
    case True
    then show ?thesis using assms(1,3) by (auto simp: m3_Realloc_memory_def)
  next
    case False
    then show ?thesis using assms(1) u by (auto simp: m3_Realloc_memory_def Let_def word_less_nat_alt split: if_splits)
  qed
qed

lemma ResizeMemory_eq:
  "ResizeMemory realloc_ok lim m n =
    (if n \<le> maxPages m then
       if n > d_m3MaxLinearMemoryPages then (Some (M3Msg ''linear memory limitation exceeded''), m)
       else
         (case m3_Realloc_memory realloc_ok (mallocated m) (page_bytes_of lim m n + 24)
              (let p = ucast (numPages m * pageSize m) :: u64 in if p \<noteq> 0 then p + 24 else p) of
            None \<Rightarrow> (Some m3Err_mallocFailed, m)
          | Some xs \<Rightarrow> (None, m\<lparr>mallocated := Some \<lparr>mh_length = page_bytes_of lim m n, mh_data = xs\<rparr>, numPages := n\<rparr>))
     else (Some m3Err_wasmMemoryOverflow, m))"
  unfolding ResizeMemory_def page_bytes_of_def Let_def by (rule refl)

lemma ResizeMemory_ok:
  assumes "mem_ok lim m" "ResizeMemory realloc_ok lim m n = (r, m')"
  shows "mem_ok lim m' \<and> (r \<noteq> None \<longrightarrow> m' = m) \<and> (r = None \<longrightarrow> numPages m' = n \<and> pageSize m' = pageSize m \<and> maxPages m' = maxPages m \<and> mallocated m' \<noteq> None)"
proof (cases "r = None")
  case True
  let ?p = "ucast (numPages m * pageSize m) :: u64"
  obtain xs where xs: "m3_Realloc_memory realloc_ok (mallocated m) (page_bytes_of lim m n + 24) (if ?p \<noteq> 0 then ?p + 24 else ?p) = Some xs"
    "m' = m\<lparr>mallocated := Some \<lparr>mh_length = page_bytes_of lim m n, mh_data = xs\<rparr>, numPages := n\<rparr>"
    using assms(2) True by (auto simp: ResizeMemory_eq Let_def split: if_splits option.splits)
  have b: "unat (page_bytes_of lim m n) < 2 ^ 32" by (rule page_bytes_of_bound)
  have "length xs = unat (page_bytes_of lim m n)"
  proof (rule m3_Realloc_memory_length [OF xs(1) b])
    fix h assume eq: "page_bytes_of lim m n + 24 = (if ?p \<noteq> 0 then ?p + 24 else ?p)" and h: "mallocated m = Some h"
    have "unat (page_bytes_of lim m n + 24) = unat (page_bytes_of lim m n) + 24" using b by (subst unat_add_small) simp_all
    then have "page_bytes_of lim m n = ?p" using eq by (auto split: if_splits)
    moreover have "unat (page_bytes_of lim m n) \<le> unat lim" if "lim \<noteq> 0"
      using that by (simp add: page_bytes_of_def unat_min)
    ultimately have "mh_length h = ?p"
      using assms(1) h by (auto simp: mem_ok_def Let_def min_def word_le_nat_alt)
    then show "length (mh_data h) = unat (page_bytes_of lim m n)"
      using assms(1) h \<open>page_bytes_of lim m n = ?p\<close> by (simp add: mem_ok_def hdr_ok_def)
  qed
  then show ?thesis using xs(2) b True by (simp add: mem_ok_def hdr_ok_def page_bytes_of_def)
next
  case False
  then show ?thesis using assms by (auto simp: ResizeMemory_eq Let_def split: if_splits option.splits)
qed

lemma m3_Realloc_memory_grow:
  assumes "hdr_ok h" "mh_length h = p" "unat p \<le> unat b" "unat b < 2 ^ 32" "p = 0 \<or> p \<noteq> b"
  shows "m3_Realloc_memory realloc_ok (Some h) (b + 24) (if p \<noteq> 0 then p + 24 else p) =
    (if realloc_ok (b + 24) then Some (mh_data h @ replicate (unat b - unat p) 0) else None)"
proof -
  let ?old = "if p \<noteq> 0 then p + 24 else p"
  have b: "unat (b + 24) = unat b + 24" using assms(4) by (subst unat_add_small) simp_all
  have p: "unat (p + 24) = unat p + 24" using assms(3,4) by (subst unat_add_small) simp_all
  have z: "unat ?old - unat (24 :: u64) = unat p" using p by simp
  have len: "length (mh_data h) = unat p" using assms(1,2) by (simp add: hdr_ok_def)
  have "unat ?old < unat (b + 24)" using assms(3,5) b p by (auto simp: le_less word_unat_eq_iff)
  then have lt: "?old < b + 24" by (simp add: word_less_nat_alt)
  then have ne: "b + 24 \<noteq> ?old" by auto
  have n: "unat (b + 24) - unat (24 :: u64) = unat b" using b by simp
  show ?thesis
    unfolding m3_Realloc_memory_def option.case Let_def z n using len lt ne assms(3) by simp
qed

lemma op_MemGrow_ok:
  assumes "mem_ok lim m" "op_MemGrow realloc_ok lim m r0 = (r0', m')"
  shows "mem_ok lim m' \<and> (mallocated m \<noteq> None \<longrightarrow> mallocated m' \<noteq> None)"
  using assms ResizeMemory_ok [OF assms(1)]
  by (fastforce simp: op_MemGrow_def Let_def split: if_splits prod.splits option.splits)


section \<open>A memory as a store of bytes\<close>

text \<open>Pieces of bytes with their positions: the last piece that covers a position decides it.\<close>

primrec last_cover :: "(nat \<times> u8 list) list \<Rightarrow> nat \<Rightarrow> u8 \<Rightarrow> u8" where
  "last_cover [] i b = b"
| "last_cover (p # ps) i b = last_cover ps i (if fst p \<le> i \<and> i < fst p + length (snd p) then snd p ! (i - fst p) else b)"

text \<open>
  What the clients of a linear memory rely on: a write of some bytes at a position succeeds
  exactly when it fits, changes exactly those bytes, and keeps the size.
\<close>

locale byte_store =
  fixes inv :: "'m \<Rightarrow> bool"
    and msize :: "'m \<Rightarrow> nat"
    and byte_at :: "'m \<Rightarrow> nat \<Rightarrow> u8"
    and put :: "'m \<Rightarrow> nat \<Rightarrow> u8 list \<Rightarrow> 'e + 'm"
  assumes put_fits: "inv m \<Longrightarrow> (\<exists>m'. put m k bs = Inr m') \<longleftrightarrow> k + length bs \<le> msize m"
    and put_keeps: "inv m \<Longrightarrow> put m k bs = Inr m' \<Longrightarrow> inv m' \<and> msize m' = msize m"
    and put_at: "inv m \<Longrightarrow> put m k bs = Inr m' \<Longrightarrow> i < msize m \<Longrightarrow>
      byte_at m' i = (if k \<le> i \<and> i < k + length bs then bs ! (i - k) else byte_at m i)"
begin

text \<open>Writing pieces one after the other.\<close>

primrec puts :: "'m \<Rightarrow> (nat \<times> u8 list) list \<Rightarrow> 'e + 'm" where
  "puts m [] = Inr m"
| "puts m (p # ps) = tryR (put m (fst p) (snd p)) (\<lambda>m. puts m ps)"

lemma puts_keeps: "inv m \<Longrightarrow> puts m ps = Inr m' \<Longrightarrow> inv m' \<and> msize m' = msize m"
proof (induction ps arbitrary: m)
  case (Cons p ps)
  then obtain m1 where "put m (fst p) (snd p) = Inr m1" "puts m1 ps = Inr m'" by (auto simp: m3_result)
  then show ?case using Cons.IH [of m1] put_keeps [OF Cons.prems(1)] by fastforce
qed simp

lemma puts_fits: "inv m \<Longrightarrow> (\<exists>m'. puts m ps = Inr m') \<longleftrightarrow> (\<forall>p \<in> set ps. fst p + length (snd p) \<le> msize m)"
proof (induction ps arbitrary: m)
  case (Cons p ps)
  have "(\<exists>m'. puts m1 ps = Inr m') \<longleftrightarrow> (\<forall>p \<in> set ps. fst p + length (snd p) \<le> msize m)"
    if "put m (fst p) (snd p) = Inr m1" for m1
    using Cons.IH [of m1] put_keeps [OF Cons.prems that] by simp
  then show ?case using put_fits [OF Cons.prems, of "fst p" "snd p"] by (fastforce simp: m3_result)
qed simp

lemma puts_at: "inv m \<Longrightarrow> puts m ps = Inr m' \<Longrightarrow> i < msize m \<Longrightarrow> byte_at m' i = last_cover ps i (byte_at m i)"
proof (induction ps arbitrary: m)
  case (Cons p ps)
  then obtain m1 where m1: "put m (fst p) (snd p) = Inr m1" "puts m1 ps = Inr m'" by (auto simp: m3_result)
  have k: "inv m1" "msize m1 = msize m" using put_keeps [OF Cons.prems(1) m1(1)] by simp_all
  show ?case using Cons.IH [OF k(1) m1(2)] Cons.prems(3) k(2) put_at [OF Cons.prems(1) m1(1) Cons.prems(3)] by simp
qed simp

end

text \<open>The writes of the interpreter provide it, at the addresses that 62 bits can hold.\<close>

definition put_bytes :: "M3MemoryHeader \<Rightarrow> nat \<Rightarrow> u8 list \<Rightarrow> M3MemoryHeader result" where
  "put_bytes h k bs = (if k < 2 ^ 62 \<and> length bs < 2 ^ 62 then mem_write h (of_nat k) bs else Inl m3Err_trapOutOfBoundsMemoryAccess)"

interpretation linear: byte_store hdr_ok "\<lambda>h. unat (mh_length h)" "\<lambda>h i. mh_data h ! i" put_bytes
proof unfold_locales
  fix h :: M3MemoryHeader and k bs
  assume h: "hdr_ok h"
  have len: "unat (mh_length h) < 2 ^ 32" using h by (simp add: hdr_ok_def)
  show "(\<exists>h'. put_bytes h k bs = Inr h') \<longleftrightarrow> k + length bs \<le> unat (mh_length h)"
  proof (cases "k < 2 ^ 62 \<and> length bs < 2 ^ 62")
    case True
    then show ?thesis using h by (simp add: put_bytes_def mem_write_eq unat_of_nat64)
  next
    case False
    then show ?thesis using len by (auto simp: put_bytes_def)
  qed
next
  fix h h' :: M3MemoryHeader and k bs
  assume h: "hdr_ok h" and p: "put_bytes h k bs = Inr h'"
  show "hdr_ok h' \<and> unat (mh_length h') = unat (mh_length h)"
    using p mem_write_hdr_ok [OF _ h] by (auto simp: put_bytes_def split: if_splits)
next
  fix h h' :: M3MemoryHeader and k bs i
  assume h: "hdr_ok h" and p: "put_bytes h k bs = Inr h'" and i: "i < unat (mh_length h)"
  have b: "k < 2 ^ 62" "length bs < 2 ^ 62" and w: "mem_write h (of_nat k) bs = Inr h'"
    using p by (auto simp: put_bytes_def split: if_splits)
  then have "k + length bs \<le> length (mh_data h)" and d: "mh_data h' = take k (mh_data h) @ bs @ drop (k + length bs) (mh_data h)"
    using h by (auto simp: mem_write_eq unat_of_nat64 hdr_ok_def split: if_splits)
  then show "mh_data h' ! i = (if k \<le> i \<and> i < k + length bs then bs ! (i - k) else mh_data h ! i)"
    using nth_splice [of k bs "mh_data h" i] i h by (simp add: hdr_ok_def)
qed

section \<open>Properties\<close>

text \<open>C17: Loads and stores are exact. An access succeeds exactly when all its bytes, from address
  plus offset without wrap-around, lie inside the memory, and traps otherwise, the memory
  untouched. A store changes no byte outside its range and not the size, and a load of the same
  width and place then reads the value back, cut to the width and extended as the load says.\<close>

theorem memory_access_exact:
  assumes "hdr_ok h"
  shows "if unat a + unat off + load_size ty \<le> unat (mh_length h)
    then \<exists>h'. op_Store (load_size ty) h a off v = Inr h' \<and> hdr_ok h' \<and> mh_length h' = mh_length h
      \<and> op_Load ty h' a off = Inr (load_cast ty v)
      \<and> (\<forall>i < unat (mh_length h). (i < unat a + unat off \<or> unat a + unat off + load_size ty \<le> i) \<longrightarrow> mh_data h' ! i = mh_data h ! i)
    else op_Store (load_size ty) h a off v = Inl m3Err_trapOutOfBoundsMemoryAccess
      \<and> op_Load ty h a off = Inl m3Err_trapOutOfBoundsMemoryAccess"
proof -
  let ?k = "unat a + unat off" and ?n = "load_size ty" and ?ea = "effective_address a off"
  have ea: "unat ?ea = ?k" "unat ?ea < 2 ^ 62" and n: "?n < 2 ^ 62"
    using unat_effective_address unat_lt32 [of a] unat_lt32 [of off] by (simp_all, cases ty, simp_all)
  show ?thesis
  proof (cases "?k + ?n \<le> unat (mh_length h)")
    case True
    let ?d = "take ?k (mh_data h) @ le_bytes ?n v @ drop (?k + ?n) (mh_data h)"
    have len: "?k + ?n \<le> length (mh_data h)" using True assms by (simp add: hdr_ok_def)
    have st: "op_Store ?n h a off v = Inr (h\<lparr>mh_data := ?d\<rparr>)"
      using True assms ea n by (simp add: op_Store_def mem_write_eq)
    then have ok: "hdr_ok (h\<lparr>mh_data := ?d\<rparr>)" using mem_write_hdr_ok assms unfolding op_Store_def by blast
    have "take ?n (drop ?k ?d) = le_bytes ?n v" using len by simp
    then have "op_Load ty (h\<lparr>mh_data := ?d\<rparr>) a off = Inr (load_cast ty v)"
      using mem_read_eq [OF ok ea(2) n] True ea by (simp add: op_Load_def le_word_bytes load_cast_take_bit)
    moreover have "\<forall>i < unat (mh_length h). (i < ?k \<or> ?k + ?n \<le> i) \<longrightarrow> ?d ! i = mh_data h ! i"
      using nth_splice [of ?k "le_bytes ?n v" "mh_data h"] len assms by (auto simp: hdr_ok_def)
    ultimately show ?thesis using st ok True by (intro if_P [THEN iffD2]) auto
  next
    case False
    then show ?thesis using assms ea n by (simp add: op_Store_def op_Load_def mem_write_eq mem_read_eq)
  qed
qed

theorem memory_access_exact_witness:
  "\<exists>h'. op_Store 2 \<lparr>mh_length = 8, mh_data = replicate 8 0\<rparr> 3 2 0xFFFE = Inr h' \<and> op_Load L_i16 h' 3 2 = Inr (- 2)
    \<and> op_Store 2 \<lparr>mh_length = 8, mh_data = replicate 8 0\<rparr> 3 4 0xFFFE = Inl m3Err_trapOutOfBoundsMemoryAccess"
  using memory_access_exact [of "\<lparr>mh_length = 8, mh_data = replicate 8 0\<rparr>" 3 2 L_i16 "0xFFFE"]
    memory_access_exact [of "\<lparr>mh_length = 8, mh_data = replicate 8 0\<rparr>" 3 4 L_i16 "0xFFFE"]
  by (auto simp: hdr_ok_def)

lemma op_MemGrow_within:
  assumes "mem_ok 0 m" "mallocated m = Some h" "unat (numPages m) \<le> 65536"
    and "(unat (numPages m) + unat d) * unat (pageSize m) < 2 ^ 32"
  shows "op_MemGrow realloc_ok 0 m (ucast d) =
    (if 0 \<le> sint d \<and> (d = 0 \<or> numPages m + d \<le> maxPages m \<and> numPages m + d \<le> d_m3MaxLinearMemoryPages
          \<and> realloc_ok (of_nat ((unat (numPages m) + unat d) * unat (pageSize m) + 24)))
     then (ucast (numPages m),
           m\<lparr>mallocated := Some \<lparr>mh_length = of_nat ((unat (numPages m) + unat d) * unat (pageSize m)),
                                mh_data = mh_data h @ replicate (unat d * unat (pageSize m)) 0\<rparr>, numPages := numPages m + d\<rparr>)
     else (- 1, m))"
proof -
  have cast: "(ucast (ucast d :: u64) :: u32) = d" by (rule bit_word_eqI) (simp add: bit_simps)
  have len: "mh_length h = ucast (numPages m * pageSize m)" "length (mh_data h) = unat (mh_length h)"
    using assms(1,2) by (simp_all add: mem_ok_def hdr_ok_def)
  have old: "unat (numPages m * pageSize m) = unat (numPages m) * unat (pageSize m)"
    using assms(4) by (subst unat_mult_lem [symmetric]) (auto simp: add_mult_distrib)
  show ?thesis
  proof (cases "0 \<le> sint d \<and> d \<noteq> 0")
    case False
    have u: "unat (ucast (numPages m * pageSize m) :: u64) = unat (numPages m) * unat (pageSize m)" using old by simp
    have "h = \<lparr>mh_length = of_nat (unat (numPages m) * unat (pageSize m)), mh_data = mh_data h\<rparr>"
      using len(1) unat_eq_of_nat [OF u] by simp
    then have "m\<lparr>mallocated := Some \<lparr>mh_length = of_nat (unat (numPages m) * unat (pageSize m)), mh_data = mh_data h\<rparr>, numPages := numPages m\<rparr> = m"
      using assms(2) by (cases m) simp
    then show ?thesis using False by (auto simp: op_MemGrow_def cast)
  next
    case True
    then have d: "0 \<le> sint d" "d \<noteq> 0" by simp_all
    have dn: "unat d < 2 ^ 31"
    proof -
      have "sint d < 2 ^ 31" using sint_less [of d] by simp
      then have "take_bit 32 (sint d) = sint d" using d(1) by (intro take_bit_int_eq_self) simp_all
      then have "uint d = sint d" using uint_sint [of d] by simp
      then have "uint d < 2 ^ 31" using \<open>sint d < 2 ^ 31\<close> by simp
      then have "int (unat d) < 2 ^ 31" by simp
      then show ?thesis by (simp only: of_nat_less_numeral_power_cancel_iff)
    qed
    have add: "unat (numPages m + d) = unat (numPages m) + unat d"
      using assms(3) dn by (intro unat_add_lem [THEN iffD1]) simp
    have new: "unat ((numPages m + d) * pageSize m) = (unat (numPages m) + unat d) * unat (pageSize m)"
      using assms(4) add by (intro unat_mult_lem [THEN iffD1, THEN trans]) simp_all
    let ?b = "ucast ((numPages m + d) * pageSize m) :: u64"
    have b: "unat ?b = (unat (numPages m) + unat d) * unat (pageSize m)" using new by simp
    let ?p = "ucast (numPages m * pageSize m) :: u64"
    have p: "unat ?p = unat (numPages m) * unat (pageSize m)" using old by simp
    have ne: "?p = 0 \<or> ?p \<noteq> ?b"
    proof (cases "pageSize m = 0")
      case False
      then have "unat ?p < unat ?b" using b p d(2) by (simp add: unat_gt_0)
      then show ?thesis by (metis less_irrefl)
    qed simp
    have le: "unat ?p \<le> unat ?b" using b p by (simp add: add_mult_distrib)
    have bn: "?b = of_nat ((unat (numPages m) + unat d) * unat (pageSize m))"
      using unat_eq_of_nat [OF b] .
    have diff: "unat ?b - unat ?p = unat d * unat (pageSize m)" using b p by (simp add: add_mult_distrib)
    have pb: "page_bytes_of 0 m (numPages m + d) = ?b" by (simp add: page_bytes_of_def)
    have "hdr_ok h" using assms(1,2) by (simp add: mem_ok_def)
    have g: "m3_Realloc_memory realloc_ok (Some h) (?b + 24) (if ?p \<noteq> 0 then ?p + 24 else ?p) =
      (if realloc_ok (?b + 24) then Some (mh_data h @ replicate (unat d * unat (pageSize m)) 0) else None)"
      unfolding diff [symmetric]
      by (rule m3_Realloc_memory_grow) (use \<open>hdr_ok h\<close> len(1) le ne b assms(4) in simp_all)
    have b24: "?b + 24 = of_nat ((unat (numPages m) + unat d) * unat (pageSize m) + 24)" using bn by simp
    have c: "(d_m3MaxLinearMemoryPages < numPages m + d) = (\<not> numPages m + d \<le> d_m3MaxLinearMemoryPages)" by auto
    have R: "ResizeMemory realloc_ok 0 m (numPages m + d) =
      (if numPages m + d \<le> maxPages m \<and> numPages m + d \<le> d_m3MaxLinearMemoryPages \<and> realloc_ok (?b + 24)
       then (None, m\<lparr>mallocated := Some \<lparr>mh_length = ?b, mh_data = mh_data h @ replicate (unat d * unat (pageSize m)) 0\<rparr>, numPages := numPages m + d\<rparr>)
       else (Some (if \<not> numPages m + d \<le> maxPages m then m3Err_wasmMemoryOverflow
                   else if \<not> numPages m + d \<le> d_m3MaxLinearMemoryPages then M3Msg ''linear memory limitation exceeded''
                   else m3Err_mallocFailed), m))"
      unfolding ResizeMemory_eq pb assms(2) Let_def g c
      by (cases "numPages m + d \<le> maxPages m"; cases "numPages m + d \<le> d_m3MaxLinearMemoryPages"; cases "realloc_ok (?b + 24)")
        (simp_all only: if_True if_False not_True_eq_False not_False_eq_True option.case simp_thms)
    show ?thesis
      unfolding op_MemGrow_def Let_def cast R b24 [symmetric] bn [symmetric] using d by simp
  qed
qed

lemma op_MemGrow_beyond:
  assumes "sint d < 0 \<or> d \<noteq> 0 \<and> \<not> (numPages m + d \<le> maxPages m \<and> numPages m + d \<le> d_m3MaxLinearMemoryPages)"
  shows "op_MemGrow realloc_ok lim m (ucast d) = (- 1, m)"
proof -
  have cast: "(ucast (ucast d :: u64) :: u32) = d" by (rule bit_word_eqI) (simp add: bit_simps)
  show ?thesis using assms by (auto simp: op_MemGrow_def cast ResizeMemory_eq Let_def)
qed

text \<open>C18: \<^verbatim>\<open>memory.grow\<close> does what WebAssembly asks of it, for every count, as long as no memory
  limit is set and a request within the page limits stays below 4 GiB. For a non-negative count
  within the page limits that the allocator can serve, it answers the old size in pages, keeps
  every byte and appends zeroed pages; in every other case (a negative count, a request past the
  module's maximum or past 65536 pages, a failing allocator) it answers -1 and leaves the memory as
  it was.\<close>

theorem memory_grow_correct:
  assumes "mem_ok 0 m" "mallocated m = Some h" "unat (numPages m) \<le> 65536"
    and "0 \<le> sint d \<and> (d = 0 \<or> numPages m + d \<le> maxPages m \<and> numPages m + d \<le> d_m3MaxLinearMemoryPages)
      \<longrightarrow> (unat (numPages m) + unat d) * unat (pageSize m) < 2 ^ 32"
  shows "op_MemGrow realloc_ok 0 m (ucast d) =
    (if 0 \<le> sint d \<and> (d = 0 \<or> numPages m + d \<le> maxPages m \<and> numPages m + d \<le> d_m3MaxLinearMemoryPages
          \<and> realloc_ok (of_nat ((unat (numPages m) + unat d) * unat (pageSize m) + 24)))
     then (ucast (numPages m),
           m\<lparr>mallocated := Some \<lparr>mh_length = of_nat ((unat (numPages m) + unat d) * unat (pageSize m)),
                                mh_data = mh_data h @ replicate (unat d * unat (pageSize m)) 0\<rparr>, numPages := numPages m + d\<rparr>)
     else (- 1, m))"
proof (cases "0 \<le> sint d \<and> (d = 0 \<or> numPages m + d \<le> maxPages m \<and> numPages m + d \<le> d_m3MaxLinearMemoryPages)")
  case True
  then show ?thesis using op_MemGrow_within [of m h d realloc_ok] assms by blast
next
  case False
  then have "op_MemGrow realloc_ok 0 m (ucast d) = (- 1, m)" by (intro op_MemGrow_beyond) auto
  then show ?thesis using False by auto
qed

theorem memory_grow_correct_witness:
  "let m = \<lparr>mallocated = Some \<lparr>mh_length = 65536, mh_data = replicate 65536 7\<rparr>, numPages = 1, maxPages = 5, pageSize = 65536\<rparr>
   in op_MemGrow (\<lambda>_. True) 0 m (ucast (2 :: u32))
      = (1, m\<lparr>mallocated := Some \<lparr>mh_length = 196608, mh_data = replicate 65536 7 @ replicate 131072 0\<rparr>, numPages := 3\<rparr>)
    \<and> op_MemGrow (\<lambda>_. True) 0 m (ucast (-1 :: u32)) = (- 1, m)
    \<and> op_MemGrow (\<lambda>_. True) 0 m (ucast (5 :: u32)) = (- 1, m)"
proof -
  let ?m = "\<lparr>mallocated = Some \<lparr>mh_length = 65536, mh_data = replicate 65536 (7 :: u8)\<rparr>, numPages = 1, maxPages = 5, pageSize = 65536\<rparr>"
  have "sint (2 :: u32) = 2" "sint (5 :: u32) = 5" by (simp_all add: sint_uint signed_take_bit_eq_if_positive)
  moreover have "mem_ok 0 ?m" by (simp add: mem_ok_def hdr_ok_def del: replicate.simps)
  ultimately show ?thesis
    using memory_grow_correct [of ?m "\<lparr>mh_length = 65536, mh_data = replicate 65536 7\<rparr>" 2 "\<lambda>_. True"]
      memory_grow_correct [of ?m "\<lparr>mh_length = 65536, mh_data = replicate 65536 7\<rparr>" "-1" "\<lambda>_. True"]
      memory_grow_correct [of ?m "\<lparr>mh_length = 65536, mh_data = replicate 65536 7\<rparr>" 5 "\<lambda>_. True"]
    by (simp add: Let_def)
qed

text \<open>C40: The largest memory a module may ask for, 65536 pages of 64 KiB, comes out empty: the size
  in bytes wraps to 0, so the resize succeeds, reports 65536 pages, and drops every byte.\<close>

theorem resize_to_4GiB_empties:
  assumes "pageSize m = d_m3DefaultMemPageSize" "65536 \<le> maxPages m" "realloc_ok 24"
  shows "ResizeMemory realloc_ok 0 m 65536 = (None, m\<lparr>mallocated := Some \<lparr>mh_length = 0, mh_data = []\<rparr>, numPages := 65536\<rparr>)"
proof -
  have b: "page_bytes_of 0 m 65536 = 0" using assms(1) by (simp add: page_bytes_of_def)
  let ?p = "ucast (numPages m * pageSize m) :: u64"
  have ne: "24 \<noteq> (if ?p \<noteq> 0 then ?p + 24 else ?p)" by auto
  have "m3_Realloc_memory realloc_ok (mallocated m) 24 (if ?p \<noteq> 0 then ?p + 24 else ?p) = Some []"
    unfolding m3_Realloc_memory_def Let_def using ne assms(3) by (simp split: option.splits)
  then show ?thesis unfolding ResizeMemory_eq Let_def b using assms(2) by simp
qed

theorem resize_to_4GiB_empties_witness:
  "\<exists>m'. ResizeMemory (\<lambda>_. True) 0 \<lparr>mallocated = Some \<lparr>mh_length = 65536, mh_data = replicate 65536 1\<rparr>, numPages = 1,
      maxPages = 65536, pageSize = 65536\<rparr> 65536 = (None, m') \<and> numPages m' = 65536 \<and> mallocated m' = Some \<lparr>mh_length = 0, mh_data = []\<rparr>"
  using resize_to_4GiB_empties [of "\<lparr>mallocated = Some \<lparr>mh_length = 65536, mh_data = replicate 65536 1\<rparr>, numPages = 1,
      maxPages = 65536, pageSize = 65536\<rparr>" "\<lambda>_. True"] by simp

text \<open>\<^verbatim>\<open>memory.copy\<close> moves the bytes as they were before it, whether the ranges overlap or not, and
  \<^verbatim>\<open>memory.fill\<close> sets its range; both trap exactly when a range leaves the memory.\<close>

lemma memory_copy_exact:
  assumes "hdr_ok h"
  shows "op_MemCopy h n source destination =
    (if unat destination + unat n \<le> unat (mh_length h) \<and> unat source + unat n \<le> unat (mh_length h)
     then Inr (h\<lparr>mh_data := take (unat destination) (mh_data h) @ take (unat n) (drop (unat source) (mh_data h))
                 @ drop (unat destination + unat n) (mh_data h)\<rparr>)
     else Inl m3Err_trapOutOfBoundsMemoryAccess)"
proof -
  have b: "unat destination < 2 ^ 62" "unat source < 2 ^ 62" "unat n < 2 ^ 62"
    using unat_lt32 [of destination] unat_lt32 [of source] unat_lt32 [of n] by simp_all
  have c: "(ucast destination :: u64) + ucast n \<le> mh_length h \<longleftrightarrow> unat destination + unat n \<le> unat (mh_length h)"
    using b by (simp add: word_le_nat_alt unat_add_small)
  have r: "mem_read h (ucast source) (unat n) = (if unat source + unat n \<le> unat (mh_length h)
      then Inr (take (unat n) (drop (unat source) (mh_data h))) else Inl m3Err_trapOutOfBoundsMemoryAccess)"
    using mem_read_eq [OF assms, of "ucast source" "unat n"] b by simp
  have l: "length (take (unat n) (drop (unat source) (mh_data h))) = unat n" if "unat source + unat n \<le> unat (mh_length h)"
    using that assms by (simp add: hdr_ok_def)
  have w: "mem_write h (ucast destination) (take (unat n) (drop (unat source) (mh_data h))) =
      Inr (h\<lparr>mh_data := take (unat destination) (mh_data h) @ take (unat n) (drop (unat source) (mh_data h)) @ drop (unat destination + unat n) (mh_data h)\<rparr>)"
    if "unat source + unat n \<le> unat (mh_length h)" "unat destination + unat n \<le> unat (mh_length h)"
    using mem_write_eq [OF assms, of "ucast destination" "take (unat n) (drop (unat source) (mh_data h))"] b l [OF that(1)] that(2) by simp
  show ?thesis unfolding op_MemCopy_def c r using w by simp
qed

lemma memory_fill_exact:
  assumes "hdr_ok h"
  shows "op_MemFill h n byte destination =
    (if unat destination + unat n \<le> unat (mh_length h)
     then Inr (h\<lparr>mh_data := take (unat destination) (mh_data h) @ replicate (unat n) (ucast byte) @ drop (unat destination + unat n) (mh_data h)\<rparr>)
     else Inl m3Err_trapOutOfBoundsMemoryAccess)"
  using mem_write_eq [OF assms, of "ucast destination" "replicate (unat n) (ucast byte)"] unat_lt32 [of destination] unat_lt32 [of n]
  by (simp add: op_MemFill_def)

end
