(* ===== verification/M3_Exec.thy ===== *)
theory M3_Exec
  imports M3_Memory M3_Math
begin

text \<open>
  The interpreter, \<^verbatim>\<open>include/m3_exec.h\<close>: the integer, memory, stack and control operations as an
  executable machine. A line of code is an operation with its immediates, and code positions are
  indices of lines; slots are offsets from the frame's base, 32 bits each. Every C frame has its
  own register \<open>r0\<close>: an operation that is reached by a C call (\<^verbatim>\<open>Call\<close>, \<^verbatim>\<open>nextOpImpl\<close>) is a nested
  run, a tail call goes on in the same run. The floating-point operations and their register are
  not modelled.
\<close>

section \<open>Operations\<close>

datatype vtype = T_i32 | T_i64

datatype binop =
    Equal | NotEqual | LessThan_s | GreaterThan_s | LessThanOrEqual_s | GreaterThanOrEqual_s
  | LessThan_u | GreaterThan_u | LessThanOrEqual_u | GreaterThanOrEqual_u
  | Add | Multiply | Subtract | ShiftLeft | ShiftRight_s | ShiftRight_u | And | Or | Xor | Rotl | Rotr
  | Divide_u | Divide_s | Remainder_u | Remainder_s

datatype unop32 = EqualToZero_i32 | Clz_u32 | Ctz_u32 | Popcnt_u32 | Extend8_s_i32 | Extend16_s_i32
  | i64_Extend_i32 | i64_Extend_u32

datatype unop64 = EqualToZero_i64 | Clz_u64 | Ctz_u64 | Popcnt_u64 | Extend8_s_i64 | Extend16_s_i64
  | Extend32_s_i64 | i32_Wrap_i64

text \<open>The operand forms: \<open>RS s\<close> is \<^verbatim>\<open>_rs\<close> (first operand in a slot, second in the register),
  \<open>SS s2 s1\<close> is \<^verbatim>\<open>_ss\<close> (the slot of the second operand comes first), \<open>SR s\<close> is \<^verbatim>\<open>_sr\<close>.\<close>

datatype form = RS nat | SS nat nat | SR nat

text \<open>\<open>St_ss\<close> has the slot of the value first.\<close>

datatype store_form = St_rs nat | St_sr nat | St_ss nat nat

datatype select_form = Sel_rss nat nat | Sel_srs nat nat | Sel_ssr nat nat | Sel_sss nat nat nat

text \<open>A \<open>nat option\<close> is the operand of a unary operation: the register or a slot.\<close>

datatype instr =
    I_Bin32 binop form | I_Bin64 binop form | I_Un32 unop32 "nat option" | I_Un64 unop64 "nat option"
  | I_Load load_type "nat option" u32 | I_Store vtype nat store_form u32
  | I_SetRegister vtype nat | I_SetSlot vtype nat | I_PreserveSetSlot vtype nat nat
  | I_CopySlot vtype nat nat | I_PreserveCopySlot vtype nat nat nat | I_Select vtype select_form
  | I_Const32 u32 nat | I_Const64 u64 nat
  | I_GetGlobal vtype nat nat | I_SetGlobal vtype nat | I_SetGlobal_s vtype nat nat
  | I_MemSize | I_MemGrow | I_MemCopy nat nat | I_MemFill nat nat
  | I_Branch nat | I_BranchIf "nat option" nat | I_BranchIfPrologue "nat option" nat | I_If "nat option" nat
  | I_BranchTable nat "nat list" | I_Loop | I_ContinueLoop nat | I_ContinueLoopIf nat
  | I_Entry nat | I_Call nat nat | I_CallIndirect nat nat nat | I_CallRawFunction nat | I_Compile nat nat
  | I_Return | I_End | I_Unreachable | I_Unsupported

section \<open>Machine state\<close>

record vm =
  vm_stack :: "u32 list"
  vm_memory :: M3Memory
  vm_globals :: "u64 list"

record exec_function =
  xf_maxStackSlots :: nat
  xf_numRetAndArgSlots :: nat
  xf_numLocalBytes :: nat
  xf_constants :: "u32 list"
  xf_funcType :: nat

text \<open>
  What a run does not change: the code, the functions, \<open>x_compiled f\<close> the position of the code of
  function \<open>f\<close>, or the error of compiling it when it is first called, the table, the size of the
  stack, the allocator, and the host functions.
\<close>

record exec_env =
  x_code :: "instr list"
  x_functions :: "exec_function list"
  x_compiled :: "nat \<Rightarrow> nat result"
  x_table0 :: "nat option list"
  x_table0Size :: u32
  x_numStackSlots :: nat
  x_realloc_ok :: "u64 \<Rightarrow> bool"
  x_memoryLimit :: u32
  x_host :: "nat \<Rightarrow> nat \<Rightarrow> vm \<Rightarrow> m3_error option \<times> vm"

section \<open>Slots\<close>

definition get_slot :: "vtype \<Rightarrow> nat \<Rightarrow> nat \<Rightarrow> vm \<Rightarrow> u64 result" where
  "get_slot ty sp s vm =
    (case ty of
       T_i32 \<Rightarrow> if sp + s < length (vm_stack vm) then Inr (ucast (vm_stack vm ! (sp + s))) else Inl C_undefined
     | T_i64 \<Rightarrow> if sp + s + 1 < length (vm_stack vm)
         then Inr (ucast (vm_stack vm ! (sp + s)) OR push_bit 32 (ucast (vm_stack vm ! (sp + s + 1)))) else Inl C_undefined)"

definition set_slot :: "vtype \<Rightarrow> nat \<Rightarrow> nat \<Rightarrow> u64 \<Rightarrow> vm \<Rightarrow> vm result" where
  "set_slot ty sp s v vm =
    (case ty of
       T_i32 \<Rightarrow> if sp + s < length (vm_stack vm) then Inr (vm\<lparr>vm_stack := (vm_stack vm)[sp + s := ucast v]\<rparr>) else Inl C_undefined
     | T_i64 \<Rightarrow> if sp + s + 1 < length (vm_stack vm)
         then Inr (vm\<lparr>vm_stack := (vm_stack vm)[sp + s := ucast v, sp + s + 1 := ucast (drop_bit 32 v)]\<rparr>) else Inl C_undefined)"

text \<open>A value of a type in the 64-bit register: an \<^verbatim>\<open>i32\<close> is sign-extended.\<close>

definition to_r0 :: "vtype \<Rightarrow> u64 \<Rightarrow> u64" where
  "to_r0 ty v = (case ty of T_i32 \<Rightarrow> scast (ucast v :: u32) | T_i64 \<Rightarrow> v)"

text \<open>\<open>write_slots\<close> is \<^verbatim>\<open>memset\<close> or \<^verbatim>\<open>memcpy\<close> on the stack.\<close>

definition write_slots :: "nat \<Rightarrow> u32 list \<Rightarrow> vm \<Rightarrow> vm result" where
  "write_slots k xs vm =
    (if k + length xs \<le> length (vm_stack vm)
     then Inr (vm\<lparr>vm_stack := take k (vm_stack vm) @ xs @ drop (k + length xs) (vm_stack vm)\<rparr>) else Inl C_undefined)"

section \<open>Operators\<close>

definition of_bool64 :: "bool \<Rightarrow> u64" where "of_bool64 b = (if b then 1 else 0)"

fun binop32 :: "binop \<Rightarrow> u32 \<Rightarrow> u32 \<Rightarrow> u64 result" where
  "binop32 Equal a b = Inr (of_bool64 (a = b))"
| "binop32 NotEqual a b = Inr (of_bool64 (a \<noteq> b))"
| "binop32 LessThan_s a b = Inr (of_bool64 (sint a < sint b))"
| "binop32 GreaterThan_s a b = Inr (of_bool64 (sint a > sint b))"
| "binop32 LessThanOrEqual_s a b = Inr (of_bool64 (sint a \<le> sint b))"
| "binop32 GreaterThanOrEqual_s a b = Inr (of_bool64 (sint a \<ge> sint b))"
| "binop32 LessThan_u a b = Inr (of_bool64 (a < b))"
| "binop32 GreaterThan_u a b = Inr (of_bool64 (a > b))"
| "binop32 LessThanOrEqual_u a b = Inr (of_bool64 (a \<le> b))"
| "binop32 GreaterThanOrEqual_u a b = Inr (of_bool64 (a \<ge> b))"
| "binop32 Add a b = Inr (scast (a + b))"
| "binop32 Multiply a b = Inr (scast (a * b))"
| "binop32 Subtract a b = Inr (scast (a - b))"
| "binop32 ShiftLeft a b = Inr (ucast (OP_SHL_32 a b))"
| "binop32 ShiftRight_s a b = Inr (scast (OP_SHR_32_s a b))"
| "binop32 ShiftRight_u a b = Inr (ucast (OP_SHR_32_u a b))"
| "binop32 And a b = Inr (ucast (a AND b))"
| "binop32 Or a b = Inr (ucast (a OR b))"
| "binop32 Xor a b = Inr (ucast (a XOR b))"
| "binop32 Rotl a b = Inr (ucast (rotl32 a b))"
| "binop32 Rotr a b = Inr (ucast (rotr32 a b))"
| "binop32 Divide_u a b = tryR (OP_DIV_U a b) (\<lambda>r. Inr (ucast r))"
| "binop32 Divide_s a b = tryR (OP_DIV_S a b INT32_MIN) (\<lambda>r. Inr (scast r))"
| "binop32 Remainder_u a b = tryR (OP_REM_U a b) (\<lambda>r. Inr (ucast r))"
| "binop32 Remainder_s a b = tryR (OP_REM_S a b INT32_MIN) (\<lambda>r. Inr (scast r))"

fun binop64 :: "binop \<Rightarrow> u64 \<Rightarrow> u64 \<Rightarrow> u64 result" where
  "binop64 Equal a b = Inr (of_bool64 (a = b))"
| "binop64 NotEqual a b = Inr (of_bool64 (a \<noteq> b))"
| "binop64 LessThan_s a b = Inr (of_bool64 (sint a < sint b))"
| "binop64 GreaterThan_s a b = Inr (of_bool64 (sint a > sint b))"
| "binop64 LessThanOrEqual_s a b = Inr (of_bool64 (sint a \<le> sint b))"
| "binop64 GreaterThanOrEqual_s a b = Inr (of_bool64 (sint a \<ge> sint b))"
| "binop64 LessThan_u a b = Inr (of_bool64 (a < b))"
| "binop64 GreaterThan_u a b = Inr (of_bool64 (a > b))"
| "binop64 LessThanOrEqual_u a b = Inr (of_bool64 (a \<le> b))"
| "binop64 GreaterThanOrEqual_u a b = Inr (of_bool64 (a \<ge> b))"
| "binop64 Add a b = Inr (a + b)"
| "binop64 Multiply a b = Inr (a * b)"
| "binop64 Subtract a b = Inr (a - b)"
| "binop64 ShiftLeft a b = Inr (OP_SHL_64 a b)"
| "binop64 ShiftRight_s a b = Inr (OP_SHR_64_s a b)"
| "binop64 ShiftRight_u a b = Inr (OP_SHR_64_u a b)"
| "binop64 And a b = Inr (a AND b)"
| "binop64 Or a b = Inr (a OR b)"
| "binop64 Xor a b = Inr (a XOR b)"
| "binop64 Rotl a b = Inr (rotl64 a (ucast b))"
| "binop64 Rotr a b = Inr (rotr64 a (ucast b))"
| "binop64 Divide_u a b = OP_DIV_U a b"
| "binop64 Divide_s a b = OP_DIV_S a b INT64_MIN"
| "binop64 Remainder_u a b = OP_REM_U a b"
| "binop64 Remainder_s a b = OP_REM_S a b INT64_MIN"

fun unop32_value :: "unop32 \<Rightarrow> u32 \<Rightarrow> u64 result" where
  "unop32_value EqualToZero_i32 x = Inr (of_nat (OP_EQZ x))"
| "unop32_value Clz_u32 x = tryR (OP_CLZ_32 x) (\<lambda>n. Inr (of_nat n))"
| "unop32_value Ctz_u32 x = tryR (OP_CTZ_32 x) (\<lambda>n. Inr (of_nat n))"
| "unop32_value Popcnt_u32 x = Inr (of_nat (builtin_popcount x))"
| "unop32_value Extend8_s_i32 x = Inr (scast (OP_EXTEND8_S_I32 x))"
| "unop32_value Extend16_s_i32 x = Inr (scast (OP_EXTEND16_S_I32 x))"
| "unop32_value i64_Extend_i32 x = Inr (scast x)"
| "unop32_value i64_Extend_u32 x = Inr (ucast x)"

fun unop64_value :: "unop64 \<Rightarrow> u64 \<Rightarrow> u64 result" where
  "unop64_value EqualToZero_i64 x = Inr (of_nat (OP_EQZ x))"
| "unop64_value Clz_u64 x = tryR (OP_CLZ_64 x) (\<lambda>n. Inr (of_nat n))"
| "unop64_value Ctz_u64 x = tryR (OP_CTZ_64 x) (\<lambda>n. Inr (of_nat n))"
| "unop64_value Popcnt_u64 x = Inr (of_nat (builtin_popcount x))"
| "unop64_value Extend8_s_i64 x = Inr (OP_EXTEND8_S_I64 x)"
| "unop64_value Extend16_s_i64 x = Inr (OP_EXTEND16_S_I64 x)"
| "unop64_value Extend32_s_i64 x = Inr (OP_EXTEND32_S_I64 x)"
| "unop64_value i32_Wrap_i64 x = Inr (OP_WRAP_I64 x)"

text \<open>The two operands of a form.\<close>

fun operands :: "vtype \<Rightarrow> form \<Rightarrow> nat \<Rightarrow> u64 \<Rightarrow> vm \<Rightarrow> (u64 \<times> u64) result" where
  "operands ty (RS s) sp r0 vm = tryR (get_slot ty sp s vm) (\<lambda>a. Inr (a, r0))"
| "operands ty (SS s2 s1) sp r0 vm = tryR (get_slot ty sp s2 vm) (\<lambda>b. tryR (get_slot ty sp s1 vm) (\<lambda>a. Inr (a, b)))"
| "operands ty (SR s) sp r0 vm = tryR (get_slot ty sp s vm) (\<lambda>b. Inr (r0, b))"

definition operand :: "vtype \<Rightarrow> nat option \<Rightarrow> nat \<Rightarrow> u64 \<Rightarrow> vm \<Rightarrow> u64 result" where
  "operand ty src sp r0 vm = (case src of None \<Rightarrow> Inr r0 | Some s \<Rightarrow> get_slot ty sp s vm)"

text \<open>Value and address of a store.\<close>

fun store_operands :: "vtype \<Rightarrow> store_form \<Rightarrow> nat \<Rightarrow> u64 \<Rightarrow> vm \<Rightarrow> (u64 \<times> u64) result" where
  "store_operands ty (St_rs s) sp r0 vm = tryR (get_slot T_i32 sp s vm) (\<lambda>a. Inr (r0, a))"
| "store_operands ty (St_sr s) sp r0 vm = tryR (get_slot ty sp s vm) (\<lambda>v. Inr (v, r0))"
| "store_operands ty (St_ss s1 s2) sp r0 vm = tryR (get_slot ty sp s1 vm) (\<lambda>v. tryR (get_slot T_i32 sp s2 vm) (\<lambda>a. Inr (v, a)))"

text \<open>Condition, first and second operand of \<^verbatim>\<open>select\<close>.\<close>

fun select_operands :: "vtype \<Rightarrow> select_form \<Rightarrow> nat \<Rightarrow> u64 \<Rightarrow> vm \<Rightarrow> (u64 \<times> u64 \<times> u64) result" where
  "select_operands ty (Sel_rss s2 s1) sp r0 vm =
    tryR (get_slot ty sp s2 vm) (\<lambda>b. tryR (get_slot ty sp s1 vm) (\<lambda>a. Inr (r0, a, b)))"
| "select_operands ty (Sel_srs c s1) sp r0 vm =
    tryR (get_slot T_i32 sp c vm) (\<lambda>k. tryR (get_slot ty sp s1 vm) (\<lambda>a. Inr (k, a, r0)))"
| "select_operands ty (Sel_ssr c s2) sp r0 vm =
    tryR (get_slot T_i32 sp c vm) (\<lambda>k. tryR (get_slot ty sp s2 vm) (\<lambda>b. Inr (k, r0, b)))"
| "select_operands ty (Sel_sss c s2 s1) sp r0 vm =
    tryR (get_slot T_i32 sp c vm) (\<lambda>k. tryR (get_slot ty sp s2 vm) (\<lambda>b. tryR (get_slot ty sp s1 vm) (\<lambda>a. Inr (k, a, b))))"

section \<open>Operations without control flow\<close>

definition with_mem :: "vm \<Rightarrow> (M3MemoryHeader \<Rightarrow> 'a result) \<Rightarrow> 'a result" where
  "with_mem vm f = (case mallocated (vm_memory vm) of None \<Rightarrow> Inl C_undefined | Some h \<Rightarrow> f h)"

definition set_mem :: "vm \<Rightarrow> M3MemoryHeader \<Rightarrow> vm" where
  "set_mem vm h = vm\<lparr>vm_memory := (vm_memory vm)\<lparr>mallocated := Some h\<rparr>\<rparr>"

definition get_global :: "vtype \<Rightarrow> nat \<Rightarrow> vm \<Rightarrow> u64 result" where
  "get_global ty g vm = (if g < length (vm_globals vm) then Inr (vm_globals vm ! g) else Inl C_undefined)"

text \<open>A 32-bit store to a global changes the low half of its 64 bits.\<close>

definition set_global :: "vtype \<Rightarrow> nat \<Rightarrow> u64 \<Rightarrow> vm \<Rightarrow> vm result" where
  "set_global ty g v vm =
    (if g < length (vm_globals vm) then
       Inr (vm\<lparr>vm_globals := (vm_globals vm)[g := (case ty of T_i32 \<Rightarrow> (vm_globals vm ! g AND NOT (mask 32)) OR take_bit 32 v | T_i64 \<Rightarrow> v)]\<rparr>)
     else Inl C_undefined)"

text \<open>The register and the machine after one operation.\<close>

fun exec_numeric :: "instr \<Rightarrow> nat \<Rightarrow> u64 \<Rightarrow> vm \<Rightarrow> (u64 \<times> vm) result" where
  "exec_numeric (I_Bin32 op f) sp r0 vm =
    tryR (operands T_i32 f sp r0 vm) (\<lambda>(a, b). tryR (binop32 op (ucast a) (ucast b)) (\<lambda>v. Inr (v, vm)))"
| "exec_numeric (I_Bin64 op f) sp r0 vm =
    tryR (operands T_i64 f sp r0 vm) (\<lambda>(a, b). tryR (binop64 op a b) (\<lambda>v. Inr (v, vm)))"
| "exec_numeric (I_Un32 op src) sp r0 vm =
    tryR (operand T_i32 src sp r0 vm) (\<lambda>x. tryR (unop32_value op (ucast x)) (\<lambda>v. Inr (v, vm)))"
| "exec_numeric (I_Un64 op src) sp r0 vm =
    tryR (operand T_i64 src sp r0 vm) (\<lambda>x. tryR (unop64_value op x) (\<lambda>v. Inr (v, vm)))"
| "exec_numeric _ sp r0 vm = Inl C_undefined"

fun exec_memory :: "exec_env \<Rightarrow> instr \<Rightarrow> nat \<Rightarrow> u64 \<Rightarrow> vm \<Rightarrow> (u64 \<times> vm) result" where
  "exec_memory env (I_Load ty src offset) sp r0 vm =
    tryR (operand T_i32 src sp r0 vm) (\<lambda>a. with_mem vm (\<lambda>h. tryR (op_Load ty h (ucast a) offset) (\<lambda>v. Inr (v, vm))))"
| "exec_memory env (I_Store ty n f offset) sp r0 vm =
    tryR (store_operands ty f sp r0 vm) (\<lambda>(v, a). with_mem vm (\<lambda>h.
      tryR (op_Store n h (ucast a) offset v) (\<lambda>h. Inr (r0, set_mem vm h))))"
| "exec_memory env I_MemSize sp r0 vm = with_mem vm (\<lambda>_. Inr (op_MemSize (vm_memory vm), vm))"
| "exec_memory env I_MemGrow sp r0 vm = with_mem vm (\<lambda>_.
     case op_MemGrow (x_realloc_ok env) (x_memoryLimit env) (vm_memory vm) r0 of (r0, m) \<Rightarrow> Inr (r0, vm\<lparr>vm_memory := m\<rparr>))"
| "exec_memory env (I_MemCopy s1 s2) sp r0 vm =
    tryR (get_slot T_i32 sp s1 vm) (\<lambda>source. tryR (get_slot T_i32 sp s2 vm) (\<lambda>destination.
      with_mem vm (\<lambda>h. tryR (op_MemCopy h (ucast r0) (ucast source) (ucast destination)) (\<lambda>h. Inr (r0, set_mem vm h)))))"
| "exec_memory env (I_MemFill s1 s2) sp r0 vm =
    tryR (get_slot T_i32 sp s1 vm) (\<lambda>byte. tryR (get_slot T_i32 sp s2 vm) (\<lambda>destination.
      with_mem vm (\<lambda>h. tryR (op_MemFill h (ucast r0) (ucast byte) (ucast destination)) (\<lambda>h. Inr (r0, set_mem vm h)))))"
| "exec_memory env _ sp r0 vm = Inl C_undefined"

fun exec_slots :: "instr \<Rightarrow> nat \<Rightarrow> u64 \<Rightarrow> vm \<Rightarrow> (u64 \<times> vm) result" where
  "exec_slots (I_SetRegister ty s) sp r0 vm = tryR (get_slot ty sp s vm) (\<lambda>v. Inr (to_r0 ty v, vm))"
| "exec_slots (I_SetSlot ty s) sp r0 vm = tryR (set_slot ty sp s r0 vm) (\<lambda>vm. Inr (r0, vm))"
| "exec_slots (I_PreserveSetSlot ty s p) sp r0 vm =
    tryR (get_slot ty sp s vm) (\<lambda>v. tryR (set_slot ty sp p v vm) (\<lambda>vm. tryR (set_slot ty sp s r0 vm) (\<lambda>vm. Inr (r0, vm))))"
| "exec_slots (I_CopySlot ty d s) sp r0 vm =
    tryR (get_slot ty sp s vm) (\<lambda>v. tryR (set_slot ty sp d v vm) (\<lambda>vm. Inr (r0, vm)))"
| "exec_slots (I_PreserveCopySlot ty d s p) sp r0 vm =
    tryR (get_slot ty sp d vm) (\<lambda>old. tryR (set_slot ty sp p old vm) (\<lambda>vm.
      tryR (get_slot ty sp s vm) (\<lambda>v. tryR (set_slot ty sp d v vm) (\<lambda>vm. Inr (r0, vm)))))"
| "exec_slots (I_Select ty f) sp r0 vm =
    tryR (select_operands ty f sp r0 vm) (\<lambda>(c, a, b). Inr (to_r0 ty (if (ucast c :: u32) \<noteq> 0 then a else b), vm))"
| "exec_slots (I_Const32 v s) sp r0 vm = tryR (set_slot T_i32 sp s (ucast v) vm) (\<lambda>vm. Inr (r0, vm))"
| "exec_slots (I_Const64 v s) sp r0 vm = tryR (set_slot T_i64 sp s v vm) (\<lambda>vm. Inr (r0, vm))"
| "exec_slots (I_GetGlobal ty g s) sp r0 vm =
    tryR (get_global ty g vm) (\<lambda>v. tryR (set_slot ty sp s v vm) (\<lambda>vm. Inr (r0, vm)))"
| "exec_slots (I_SetGlobal ty g) sp r0 vm = tryR (set_global ty g r0 vm) (\<lambda>vm. Inr (r0, vm))"
| "exec_slots (I_SetGlobal_s ty g s) sp r0 vm =
    tryR (get_slot ty sp s vm) (\<lambda>v. tryR (set_global ty g v vm) (\<lambda>vm. Inr (r0, vm)))"
| "exec_slots _ sp r0 vm = Inl C_undefined"

fun is_numeric :: "instr \<Rightarrow> bool" where
  "is_numeric (I_Bin32 op f) = True" | "is_numeric (I_Bin64 op f) = True"
| "is_numeric (I_Un32 op s) = True" | "is_numeric (I_Un64 op s) = True" | "is_numeric _ = False"

fun is_memory :: "instr \<Rightarrow> bool" where
  "is_memory (I_Load ty s k) = True" | "is_memory (I_Store ty n f k) = True"
| "is_memory I_MemSize = True" | "is_memory I_MemGrow = True" | "is_memory (I_MemCopy s d) = True"
| "is_memory (I_MemFill b d) = True" | "is_memory _ = False"

definition exec_simple :: "exec_env \<Rightarrow> instr \<Rightarrow> nat \<Rightarrow> u64 \<Rightarrow> vm \<Rightarrow> (u64 \<times> vm) result" where
  "exec_simple env i sp r0 vm =
    (if is_numeric i then exec_numeric i sp r0 vm
     else if is_memory i then exec_memory env i sp r0 vm
     else exec_slots i sp r0 vm)"

section \<open>Control flow\<close>

text \<open>What a C frame of the interpreter returns: \<^verbatim>\<open>m3Err_none\<close>, a trap, or the identity of the
  loop to continue with.\<close>

datatype m3ret = R_none | R_trap m3_error | R_loop nat

definition on_result :: "vm \<Rightarrow> 'a result \<Rightarrow> ('a \<Rightarrow> (m3ret \<times> vm) option) \<Rightarrow> (m3ret \<times> vm) option" where
  "on_result vm m f = (case m of Inl e \<Rightarrow> Some (R_trap e, vm) | Inr x \<Rightarrow> f x)"

definition condition :: "nat option \<Rightarrow> nat \<Rightarrow> u64 \<Rightarrow> vm \<Rightarrow> bool result" where
  "condition c sp r0 vm = tryR (operand T_i32 c sp r0 vm) (\<lambda>v. Inr ((ucast v :: u32) \<noteq> 0))"

text \<open>\<^verbatim>\<open>op_Entry\<close>: the frame has to end below the stack's limit; then the locals are zeroed and the
  constants copied behind them.\<close>

definition enter :: "exec_env \<Rightarrow> nat \<Rightarrow> nat \<Rightarrow> vm \<Rightarrow> vm result" where
  "enter env f sp vm =
    (if f < length (x_functions env) then
       let function = x_functions env ! f in
       with_mem vm (\<lambda>_.
         if sp + xf_maxStackSlots function < x_numStackSlots env then
           let locals = sp + xf_numRetAndArgSlots function; n = xf_numLocalBytes function div 4 in
           tryR (write_slots locals (replicate n 0) vm) (write_slots (locals + n) (xf_constants function))
         else Inl m3Err_trapStackOverflow)
     else Inl C_undefined)"

text \<open>\<^verbatim>\<open>op_CallIndirect\<close> up to the call: the code position of the callee.\<close>

definition indirect_callee :: "exec_env \<Rightarrow> nat \<Rightarrow> u32 \<Rightarrow> nat result" where
  "indirect_callee env type tableIndex =
    (if tableIndex < x_table0Size env then
       if unat tableIndex < length (x_table0 env) then
         (case x_table0 env ! unat tableIndex of
            None \<Rightarrow> Inl m3Err_trapTableElementIsNull
          | Some f \<Rightarrow>
              if f < length (x_functions env) then
                if type = xf_funcType (x_functions env ! f) then x_compiled env f
                else Inl m3Err_trapIndirectCallTypeMismatch
              else Inl C_undefined)
       else Inl C_undefined
     else Inl m3Err_trapTableIndexOutOfRange)"

text \<open>
  One operation, given \<open>continue\<close>, the run from a position, frame, register and machine state. A C
  call of the code at \<open>callPC\<close> is a run in its own frame; after it the caller goes on with its own
  register, or forwards what is not \<open>R_none\<close>. \<open>R_loop k\<close> is the return value \<^verbatim>\<open>loopId\<close>, the
  position behind the \<^verbatim>\<open>Loop\<close> operation, which repeats its body on that value.
\<close>

type_synonym continuation = "nat \<Rightarrow> nat \<Rightarrow> u64 \<Rightarrow> vm \<Rightarrow> (m3ret \<times> vm) option"

definition op_Call :: "continuation \<Rightarrow> nat \<Rightarrow> nat \<Rightarrow> u64 \<Rightarrow> nat \<Rightarrow> nat \<Rightarrow> vm \<Rightarrow> (m3ret \<times> vm) option" where
  "op_Call continue pc sp r0 callPC stackOffset vm =
    (case continue callPC (sp + stackOffset) 0 vm of
       None \<Rightarrow> None
     | Some (r, vm) \<Rightarrow> if r = R_none then continue (pc + 1) sp r0 vm else Some (r, vm))"

definition op_Loop :: "continuation \<Rightarrow> nat \<Rightarrow> nat \<Rightarrow> vm \<Rightarrow> (m3ret \<times> vm) option" where
  "op_Loop continue pc sp vm =
    (case continue (pc + 1) sp 0 vm of
       None \<Rightarrow> None
     | Some (r, vm) \<Rightarrow> if r = R_loop (pc + 1) then continue pc sp 0 vm else Some (r, vm))"

definition op_BranchTable :: "continuation \<Rightarrow> nat list \<Rightarrow> nat \<Rightarrow> u64 \<Rightarrow> vm \<Rightarrow> u32 \<Rightarrow> (m3ret \<times> vm) option" where
  "op_BranchTable continue branches sp r0 vm branchIndex =
    (let numTargets = length branches - 1;
         k = (if unat branchIndex > numTargets then numTargets else unat branchIndex) in
     if k < length branches then continue (branches ! k) sp r0 vm else Some (R_trap C_undefined, vm))"

definition op_CallRawFunction :: "exec_env \<Rightarrow> nat \<Rightarrow> nat \<Rightarrow> vm \<Rightarrow> (m3ret \<times> vm) option" where
  "op_CallRawFunction env f sp vm =
    (case x_host env f sp vm of (None, vm) \<Rightarrow> Some (R_none, vm) | (Some e, vm) \<Rightarrow> Some (R_trap e, vm))"

definition run_step :: "continuation \<Rightarrow> exec_env \<Rightarrow> nat \<Rightarrow> nat \<Rightarrow> u64 \<Rightarrow> vm \<Rightarrow> (m3ret \<times> vm) option" where
  "run_step continue env pc sp r0 vm =
    (if \<not> pc < length (x_code env) then Some (R_trap C_undefined, vm)
     else case x_code env ! pc of
       I_Branch t \<Rightarrow> continue t sp r0 vm
     | I_BranchIf c t \<Rightarrow> on_result vm (condition c sp r0 vm) (\<lambda>b. continue (if b then t else pc + 1) sp r0 vm)
     | I_BranchIfPrologue c t \<Rightarrow> on_result vm (condition c sp r0 vm) (\<lambda>b. continue (if b then pc + 1 else t) sp r0 vm)
     | I_If c t \<Rightarrow> on_result vm (condition c sp r0 vm) (\<lambda>b. continue (if b then pc + 1 else t) sp r0 vm)
     | I_BranchTable s ts \<Rightarrow> on_result vm (get_slot T_i32 sp s vm) (\<lambda>i. op_BranchTable continue ts sp r0 vm (ucast i))
     | I_Loop \<Rightarrow> op_Loop continue pc sp vm
     | I_ContinueLoop k \<Rightarrow> Some (R_loop k, vm)
     | I_ContinueLoopIf k \<Rightarrow> if (ucast r0 :: u32) \<noteq> 0 then Some (R_loop k, vm) else continue (pc + 1) sp r0 vm
     | I_Entry f \<Rightarrow> on_result vm (enter env f sp vm) (continue (pc + 1) sp 0)
     | I_Call callPC stackOffset \<Rightarrow> op_Call continue pc sp r0 callPC stackOffset vm
     | I_Compile f stackOffset \<Rightarrow> on_result vm (x_compiled env f) (\<lambda>callPC. op_Call continue pc sp r0 callPC stackOffset vm)
     | I_CallIndirect s type stackOffset \<Rightarrow> on_result vm (get_slot T_i32 sp s vm) (\<lambda>i.
         on_result vm (indirect_callee env type (ucast i)) (\<lambda>callPC. op_Call continue pc sp r0 callPC stackOffset vm))
     | I_CallRawFunction f \<Rightarrow> op_CallRawFunction env f sp vm
     | I_Return \<Rightarrow> Some (R_none, vm)
     | I_End \<Rightarrow> Some (R_none, vm)
     | I_Unreachable \<Rightarrow> Some (R_trap m3Err_trapUnreachable, vm)
     | I_Unsupported \<Rightarrow> Some (R_trap (M3Msg ''unsupported instruction executed''), vm)
     | i \<Rightarrow> on_result vm (exec_simple env i sp r0 vm) (\<lambda>(r0, vm). continue (pc + 1) sp r0 vm))"

text \<open>\<open>RunCode\<close> with fuel: one unit per operation, \<open>None\<close> when it is used up.\<close>

primrec RunCode :: "nat \<Rightarrow> exec_env \<Rightarrow> continuation" where
  "RunCode 0 env = (\<lambda>pc sp r0 vm. None)"
| "RunCode (Suc fuel) env = run_step (RunCode fuel env) env"

section \<open>More fuel never changes a result\<close>

lemma on_result_mono:
  "(\<And>x y. f x = Some y \<Longrightarrow> g x = Some y) \<Longrightarrow> on_result vm m f = Some y \<Longrightarrow> on_result vm m g = Some y"
  by (cases m) (auto simp: on_result_def)

lemma run_step_mono:
  assumes le: "\<And>pc sp r0 vm y. c pc sp r0 vm = Some y \<Longrightarrow> c' pc sp r0 vm = Some y"
    and run: "run_step c env pc sp r0 vm = Some y"
  shows "run_step c' env pc sp r0 vm = Some y"
proof -
  have call: "op_Call c pc sp r0 k off vm = Some y \<Longrightarrow> op_Call c' pc sp r0 k off vm = Some y" for k off y
    using le by (auto simp: op_Call_def split: option.splits prod.splits if_splits)
  have loop: "op_Loop c pc sp vm = Some y \<Longrightarrow> op_Loop c' pc sp vm = Some y" for y
    using le by (auto simp: op_Loop_def split: option.splits prod.splits if_splits)
  have table: "op_BranchTable c ts sp r0 vm i = Some y \<Longrightarrow> op_BranchTable c' ts sp r0 vm i = Some y" for ts i y
    using le by (auto simp: op_BranchTable_def Let_def split: if_splits)
  show ?thesis
  proof (cases "pc < length (x_code env)")
    case True
    show ?thesis
      using run True unfolding run_step_def
      by (cases "x_code env ! pc")
        (auto intro: le call loop table on_result_mono split: if_splits elim!: on_result_mono [rotated])
  qed (use run in \<open>simp add: run_step_def\<close>)
qed


lemma RunCode_Suc: "RunCode n env pc sp r0 vm = Some y \<Longrightarrow> RunCode (Suc n) env pc sp r0 vm = Some y"
proof (induction n arbitrary: pc sp r0 vm y)
  case (Suc n)
  have "run_step (RunCode n env) env pc sp r0 vm = Some y" using Suc.prems by simp
  then have "run_step (RunCode (Suc n) env) env pc sp r0 vm = Some y" by (rule run_step_mono [rotated]) (rule Suc.IH)
  then show ?case by (simp only: RunCode.simps(2))
qed simp

lemma RunCode_mono: "RunCode n env pc sp r0 vm = Some y \<Longrightarrow> n \<le> k \<Longrightarrow> RunCode k env pc sp r0 vm = Some y"
proof (induction k)
  case (Suc k)
  then show ?case by (cases "n \<le> k") (use RunCode_Suc in \<open>auto simp: le_Suc_eq simp del: RunCode.simps\<close>)
qed simp

end
