(* ===== verification/M3_Exec_Safety.thy ===== *)
theory M3_Exec_Safety
  imports M3_Exec
begin

text \<open>
  The interpreter on well-formed code: when every operation's slots lie in its function's frame,
  its jumps stay in its function and its calls reach function entries, a run never has undefined
  behaviour, and it keeps the invariant of the linear memory.
\<close>

section \<open>Well-formed code\<close>

text \<open>The slots an operation touches, with their types, the globals, and where it may go on in its
  own frame.\<close>

fun form_slots :: "vtype \<Rightarrow> form \<Rightarrow> (vtype \<times> nat) list" where
  "form_slots ty (RS s) = [(ty, s)]" | "form_slots ty (SS s2 s1) = [(ty, s2), (ty, s1)]" | "form_slots ty (SR s) = [(ty, s)]"

fun opt_slots :: "vtype \<Rightarrow> nat option \<Rightarrow> (vtype \<times> nat) list" where
  "opt_slots ty None = []" | "opt_slots ty (Some s) = [(ty, s)]"

fun store_slots :: "vtype \<Rightarrow> store_form \<Rightarrow> (vtype \<times> nat) list" where
  "store_slots ty (St_rs s) = [(T_i32, s)]" | "store_slots ty (St_sr s) = [(ty, s)]"
| "store_slots ty (St_ss s1 s2) = [(ty, s1), (T_i32, s2)]"

fun select_slots :: "vtype \<Rightarrow> select_form \<Rightarrow> (vtype \<times> nat) list" where
  "select_slots ty (Sel_rss s2 s1) = [(ty, s2), (ty, s1)]" | "select_slots ty (Sel_srs c s1) = [(T_i32, c), (ty, s1)]"
| "select_slots ty (Sel_ssr c s2) = [(T_i32, c), (ty, s2)]" | "select_slots ty (Sel_sss c s2 s1) = [(T_i32, c), (ty, s2), (ty, s1)]"

fun instr_slots :: "instr \<Rightarrow> (vtype \<times> nat) list" where
  "instr_slots (I_Bin32 op f) = form_slots T_i32 f"
| "instr_slots (I_Bin64 op f) = form_slots T_i64 f"
| "instr_slots (I_Un32 op s) = opt_slots T_i32 s"
| "instr_slots (I_Un64 op s) = opt_slots T_i64 s"
| "instr_slots (I_Load ty s k) = opt_slots T_i32 s"
| "instr_slots (I_Store ty n f k) = store_slots ty f"
| "instr_slots (I_SetRegister ty s) = [(ty, s)]"
| "instr_slots (I_SetSlot ty s) = [(ty, s)]"
| "instr_slots (I_PreserveSetSlot ty s p) = [(ty, s), (ty, p)]"
| "instr_slots (I_CopySlot ty d s) = [(ty, d), (ty, s)]"
| "instr_slots (I_PreserveCopySlot ty d s p) = [(ty, d), (ty, s), (ty, p)]"
| "instr_slots (I_Select ty f) = select_slots ty f"
| "instr_slots (I_Const32 v s) = [(T_i32, s)]"
| "instr_slots (I_Const64 v s) = [(T_i64, s)]"
| "instr_slots (I_GetGlobal ty g s) = [(ty, s)]"
| "instr_slots (I_SetGlobal_s ty g s) = [(ty, s)]"
| "instr_slots (I_MemCopy s d) = [(T_i32, s), (T_i32, d)]"
| "instr_slots (I_MemFill b d) = [(T_i32, b), (T_i32, d)]"
| "instr_slots (I_BranchIf c t) = opt_slots T_i32 c"
| "instr_slots (I_BranchIfPrologue c t) = opt_slots T_i32 c"
| "instr_slots (I_If c t) = opt_slots T_i32 c"
| "instr_slots (I_BranchTable s ts) = [(T_i32, s)]"
| "instr_slots (I_CallIndirect s ty off) = [(T_i32, s)]"
| "instr_slots _ = []"

fun instr_globals :: "instr \<Rightarrow> nat list" where
  "instr_globals (I_GetGlobal ty g s) = [g]" | "instr_globals (I_SetGlobal ty g) = [g]"
| "instr_globals (I_SetGlobal_s ty g s) = [g]" | "instr_globals _ = []"

fun successors :: "nat \<Rightarrow> instr \<Rightarrow> nat list" where
  "successors pc (I_Branch t) = [t]"
| "successors pc (I_BranchIf c t) = [t, pc + 1]"
| "successors pc (I_BranchIfPrologue c t) = [t, pc + 1]"
| "successors pc (I_If c t) = [t, pc + 1]"
| "successors pc (I_BranchTable s ts) = ts"
| "successors pc (I_ContinueLoop k) = []"
| "successors pc (I_CallRawFunction f) = []"
| "successors pc I_Return = []" | "successors pc I_End = []"
| "successors pc I_Unreachable = []" | "successors pc I_Unsupported = []"
| "successors pc i = [pc + 1]"

definition slot_width :: "vtype \<Rightarrow> nat" where
  "slot_width ty = (case ty of T_i32 \<Rightarrow> 1 | T_i64 \<Rightarrow> 2)"

definition is_entry :: "exec_env \<Rightarrow> nat \<Rightarrow> bool" where
  "is_entry env pc \<longleftrightarrow> pc < length (x_code env) \<and> (\<exists>f. x_code env ! pc = I_Entry f \<or> x_code env ! pc = I_CallRawFunction f)"

text \<open>
  \<open>frame pc\<close> is the number of slots of the function whose code is at \<open>pc\<close>. A function is entered
  only at an \<^verbatim>\<open>Entry\<close>, whose function has a frame at least as large as its code uses. \<open>live pc\<close>
  are the loops that the code at \<open>pc\<close> runs in, by their ids: only these can be continued.
\<close>

definition instr_ok :: "exec_env \<Rightarrow> (nat \<Rightarrow> nat) \<Rightarrow> (nat \<Rightarrow> nat set) \<Rightarrow> nat \<Rightarrow> nat \<Rightarrow> instr \<Rightarrow> bool" where
  "instr_ok env frame live ng pc i \<longleftrightarrow>
     (\<forall>(ty, s) \<in> set (instr_slots i). s + slot_width ty \<le> frame pc) \<and> (\<forall>g \<in> set (instr_globals i). g < ng)
     \<and> (\<forall>t \<in> set (successors pc i). t < length (x_code env) \<and> ((\<exists>f. i = I_Entry f) \<or> frame t = frame pc)
          \<and> live t \<subseteq> (if \<exists>f. i = I_Entry f then {} else if i = I_Loop then insert t (live pc) else live pc))
     \<and> (case i of
          I_Entry f \<Rightarrow> f < length (x_functions env) \<and> (let function = x_functions env ! f in
            frame (pc + 1) \<le> xf_maxStackSlots function
            \<and> xf_numRetAndArgSlots function + xf_numLocalBytes function div 4 + length (xf_constants function) \<le> xf_maxStackSlots function)
        | I_Call callPC off \<Rightarrow> is_entry env callPC
        | I_BranchTable s ts \<Rightarrow> ts \<noteq> []
        | I_ContinueLoop k \<Rightarrow> k \<in> live pc
        | I_ContinueLoopIf k \<Rightarrow> k \<in> live pc
        | I_Store ty n f off \<Rightarrow> n \<le> 8
        | _ \<Rightarrow> True)"

definition vm_ok :: "nat \<Rightarrow> nat \<Rightarrow> exec_env \<Rightarrow> vm \<Rightarrow> bool" where
  "vm_ok N ng env vm \<longleftrightarrow> length (vm_stack vm) = N \<and> length (vm_globals vm) = ng
     \<and> mem_ok (x_memoryLimit env) (vm_memory vm) \<and> mallocated (vm_memory vm) \<noteq> None"

definition well_formed :: "(nat \<Rightarrow> nat) \<Rightarrow> (nat \<Rightarrow> nat set) \<Rightarrow> nat \<Rightarrow> nat \<Rightarrow> exec_env \<Rightarrow> bool" where
  "well_formed frame live N ng env \<longleftrightarrow>
     (\<forall>pc < length (x_code env). instr_ok env frame live ng pc (x_code env ! pc))
     \<and> unat (x_table0Size env) \<le> length (x_table0 env)
     \<and> (\<forall>f. Some f \<in> set (x_table0 env) \<longrightarrow> f < length (x_functions env))
     \<and> x_numStackSlots env \<le> N"

text \<open>What is relied on of the compiler that a call starts, and of the host's functions.\<close>

definition compiles_well :: "exec_env \<Rightarrow> bool" where
  "compiles_well env \<longleftrightarrow> (\<forall>f. case x_compiled env f of Inl e \<Rightarrow> e \<noteq> C_undefined | Inr k \<Rightarrow> is_entry env k)"

definition host_safe :: "nat \<Rightarrow> nat \<Rightarrow> exec_env \<Rightarrow> bool" where
  "host_safe N ng env \<longleftrightarrow>
     (\<forall>f sp vm r vm'. vm_ok N ng env vm \<longrightarrow> x_host env f sp vm = (r, vm') \<longrightarrow> r \<noteq> Some C_undefined \<and> vm_ok N ng env vm')"

definition env_ok :: "(nat \<Rightarrow> nat) \<Rightarrow> (nat \<Rightarrow> nat set) \<Rightarrow> nat \<Rightarrow> nat \<Rightarrow> exec_env \<Rightarrow> bool" where
  "env_ok frame live N ng env \<longleftrightarrow> well_formed frame live N ng env \<and> compiles_well env \<and> host_safe N ng env"

lemmas env_ok_defs = env_ok_def well_formed_def compiles_well_def host_safe_def

section \<open>No undefined behaviour\<close>

definition res_ok :: "(vm \<Rightarrow> bool) \<Rightarrow> (u64 \<times> vm) result \<Rightarrow> bool" where
  "res_ok Q r \<longleftrightarrow> (case r of Inl e \<Rightarrow> e \<noteq> C_undefined | Inr (v, vm) \<Rightarrow> Q vm)"

lemma OP_DIV_S_defined:
  fixes a b type_min :: "'a::len word"
  assumes "sint type_min = - (2 ^ (LENGTH('a) - 1))"
  shows "OP_DIV_S a b type_min \<noteq> Inl C_undefined" "OP_REM_S a b type_min \<noteq> Inl C_undefined"
proof -
  have "b = -1 \<longleftrightarrow> sint b = -1" by (metis signed_minus_1 signed_word_eqI)
  moreover have "a = type_min \<longleftrightarrow> sint a = - (2 ^ (LENGTH('a) - 1))" using assms by (metis signed_word_eqI)
  ultimately show "OP_DIV_S a b type_min \<noteq> Inl C_undefined" "OP_REM_S a b type_min \<noteq> Inl C_undefined"
    by (auto simp: OP_DIV_S_def OP_REM_S_def c_sdiv_def c_srem_def)
qed

lemma binop_defined: "binop32 op a b \<noteq> Inl C_undefined" "binop64 op c d \<noteq> Inl C_undefined"
  using OP_DIV_S_defined [of INT32_MIN a b] OP_DIV_S_defined [of INT64_MIN c d]
  by (cases op; simp add: OP_DIV_U_def OP_REM_U_def tryR_Inl_iff)+

lemma unop_defined: "unop32_value op a \<noteq> Inl C_undefined" "unop64_value op' c \<noteq> Inl C_undefined"
  by (cases op; simp add: OP_CLZ_32_def OP_CTZ_32_def builtin_clz_def builtin_ctz_def tryR_Inl_iff)
    (cases op'; simp add: OP_CLZ_64_eq OP_CTZ_64_eq builtin_clz_def builtin_ctz_def tryR_Inl_iff)

lemma get_slot_ok:
  assumes "s + slot_width ty \<le> n" "sp + n \<le> length (vm_stack vm)"
  shows "\<exists>v. get_slot ty sp s vm = Inr v"
  using assms by (cases ty) (auto simp: get_slot_def slot_width_def)

lemma set_slot_ok:
  assumes "s + slot_width ty \<le> n" "sp + n \<le> length (vm_stack vm)"
  shows "\<exists>st. set_slot ty sp s v vm = Inr (vm\<lparr>vm_stack := st\<rparr>) \<and> length st = length (vm_stack vm)"
  using assms by (cases ty) (auto simp: set_slot_def slot_width_def)

lemma vm_ok_stack [simp]: "vm_ok N ng env (vm\<lparr>vm_stack := st\<rparr>) \<longleftrightarrow>
    length st = N \<and> length (vm_globals vm) = ng \<and> mem_ok (x_memoryLimit env) (vm_memory vm) \<and> mallocated (vm_memory vm) \<noteq> None"
  by (simp add: vm_ok_def)


lemma res_ok_tryR:
  "m \<noteq> Inl C_undefined \<Longrightarrow> (\<And>x. m = Inr x \<Longrightarrow> res_ok Q (f x)) \<Longrightarrow> res_ok Q (tryR m f)"
  by (cases m) (auto simp: res_ok_def)

lemma res_ok_Inr [simp]: "res_ok Q (Inr (v, vm)) = Q vm"
  by (simp add: res_ok_def)

lemma mem_access_defined:
  assumes "hdr_ok h" "unat a < 2 ^ 62"
  shows "n < 2 ^ 62 \<Longrightarrow> mem_read h a n \<noteq> Inl C_undefined" "length bs < 2 ^ 62 \<Longrightarrow> mem_write h a bs \<noteq> Inl C_undefined"
  using assms by (simp_all add: mem_read_eq mem_write_eq)

lemma effective_address_small: "unat (effective_address a off) < 2 ^ 62"
  using unat_lt32 [of a] unat_lt32 [of off] by (simp add: unat_effective_address)

lemma op_Load_defined: "hdr_ok h \<Longrightarrow> op_Load ty h a off \<noteq> Inl C_undefined"
  using mem_access_defined(1) [of h "effective_address a off" "load_size ty"] effective_address_small [of a off]
  by (cases ty) (auto simp: op_Load_def tryR_Inl_iff)

lemma op_Store_ok:
  assumes "hdr_ok h" "n \<le> 8"
  shows "op_Store n h a off v \<noteq> Inl C_undefined" "op_Store n h a off v = Inr h' \<Longrightarrow> hdr_ok h' \<and> mh_length h' = mh_length h"
  using mem_access_defined(2) [OF assms(1) effective_address_small] assms mem_write_hdr_ok
  by (auto simp: op_Store_def)

lemma op_MemCopy_ok:
  assumes "hdr_ok h"
  shows "op_MemCopy h n s d \<noteq> Inl C_undefined" "op_MemCopy h n s d = Inr h' \<Longrightarrow> hdr_ok h' \<and> mh_length h' = mh_length h"
  using assms unfolding memory_copy_exact [OF assms] by (auto simp: hdr_ok_def split: if_splits)

lemma op_MemFill_ok:
  assumes "hdr_ok h"
  shows "op_MemFill h n b d \<noteq> Inl C_undefined" "op_MemFill h n b d = Inr h' \<Longrightarrow> hdr_ok h' \<and> mh_length h' = mh_length h"
  using assms unfolding memory_fill_exact [OF assms] by (auto simp: hdr_ok_def split: if_splits)

text \<open>An operation in a frame of \<open>k\<close> slots at \<open>sp\<close>.\<close>

definition in_frame :: "nat \<Rightarrow> nat \<Rightarrow> nat \<Rightarrow> exec_env \<Rightarrow> nat \<Rightarrow> vm \<Rightarrow> instr \<Rightarrow> bool" where
  "in_frame k N ng env sp vm i \<longleftrightarrow> vm_ok N ng env vm \<and> sp + k \<le> N
     \<and> (\<forall>(ty, s) \<in> set (instr_slots i). s + slot_width ty \<le> k) \<and> (\<forall>g \<in> set (instr_globals i). g < ng)"

lemma slot_read:
  assumes "in_frame k N ng env sp vm i" "(ty, s) \<in> set (instr_slots i)" "length (vm_stack vm') = N"
  shows "\<exists>v. get_slot ty sp s vm' = Inr v"
  using assms by (intro get_slot_ok [where n = k]) (auto simp: in_frame_def)

lemma slot_written:
  assumes "in_frame k N ng env sp vm i" "(ty, s) \<in> set (instr_slots i)" "vm_ok N ng env vm'"
  shows "\<exists>vm''. set_slot ty sp s v vm' = Inr vm'' \<and> vm_ok N ng env vm''"
proof -
  have "length (vm_stack vm') = N" using assms(3) by (simp add: vm_ok_def)
  then obtain st where "set_slot ty sp s v vm' = Inr (vm'\<lparr>vm_stack := st\<rparr>)" "length st = N"
    using set_slot_ok [of s ty k sp vm' v] assms(1,2) by (fastforce simp: in_frame_def)
  then show ?thesis using assms(3) by (simp add: vm_ok_def)
qed

lemma in_frame_vm: "in_frame k N ng env sp vm i \<Longrightarrow> vm_ok N ng env vm"
  and in_frame_stack: "in_frame k N ng env sp vm i \<Longrightarrow> length (vm_stack vm) = N"
  by (simp_all add: in_frame_def vm_ok_def)

lemma operand_read:
  assumes "in_frame k N ng env sp vm i" "set (opt_slots ty src) \<subseteq> set (instr_slots i)"
  shows "\<exists>v. operand ty src sp r0 vm = Inr v"
  using slot_read [OF assms(1) _ in_frame_stack [OF assms(1)]] assms(2) by (cases src) (auto simp: operand_def)

lemma operands_read:
  assumes "in_frame k N ng env sp vm i" "set (form_slots ty f) \<subseteq> set (instr_slots i)"
  shows "\<exists>a b. operands ty f sp r0 vm = Inr (a, b)"
proof -
  note r = slot_read [OF assms(1) _ in_frame_stack [OF assms(1)], of ty]
  show ?thesis
  proof (cases f)
    case (RS s)
    then show ?thesis using r [of s] assms(2) by auto
  next
    case (SS s2 s1)
    then show ?thesis using r [of s2] r [of s1] assms(2) by auto
  next
    case (SR s)
    then show ?thesis using r [of s] assms(2) by auto
  qed
qed

lemma store_operands_read:
  assumes "in_frame k N ng env sp vm i" "set (store_slots ty f) \<subseteq> set (instr_slots i)"
  shows "\<exists>a b. store_operands ty f sp r0 vm = Inr (a, b)"
proof -
  note r = slot_read [OF assms(1) _ in_frame_stack [OF assms(1)]]
  show ?thesis
  proof (cases f)
    case (St_rs s)
    then show ?thesis using r [of T_i32 s] assms(2) by auto
  next
    case (St_sr s)
    then show ?thesis using r [of ty s] assms(2) by auto
  next
    case (St_ss s1 s2)
    then show ?thesis using r [of ty s1] r [of T_i32 s2] assms(2) by auto
  qed
qed

lemma select_operands_read:
  assumes "in_frame k N ng env sp vm i" "set (select_slots ty f) \<subseteq> set (instr_slots i)"
  shows "\<exists>c a b. select_operands ty f sp r0 vm = Inr (c, a, b)"
proof -
  note r = slot_read [OF assms(1) _ in_frame_stack [OF assms(1)]]
  show ?thesis
  proof (cases f)
    case (Sel_rss s2 s1)
    then show ?thesis using r [of ty s2] r [of ty s1] assms(2) by auto
  next
    case (Sel_srs c s1)
    then show ?thesis using r [of T_i32 c] r [of ty s1] assms(2) by auto
  next
    case (Sel_ssr c s2)
    then show ?thesis using r [of T_i32 c] r [of ty s2] assms(2) by auto
  next
    case (Sel_sss c s2 s1)
    then show ?thesis using r [of T_i32 c] r [of ty s2] r [of ty s1] assms(2) by auto
  qed
qed

lemma exec_numeric_ok:
  assumes "in_frame k N ng env sp vm i" "is_numeric i"
  shows "res_ok (vm_ok N ng env) (exec_numeric i sp r0 vm)"
proof -
  have ok: "vm_ok N ng env vm" using in_frame_vm [OF assms(1)] .
  show ?thesis
  proof (cases i)
    case (I_Bin32 op f)
    then obtain a b where "operands T_i32 f sp r0 vm = Inr (a, b)" using operands_read [OF assms(1), of T_i32 f r0] by auto
    then show ?thesis using I_Bin32 ok binop_defined(1) by (auto intro!: res_ok_tryR)
  next
    case (I_Bin64 op f)
    then obtain a b where "operands T_i64 f sp r0 vm = Inr (a, b)" using operands_read [OF assms(1), of T_i64 f r0] by auto
    then show ?thesis using I_Bin64 ok binop_defined(2) by (auto intro!: res_ok_tryR)
  next
    case (I_Un32 op s)
    then obtain a where "operand T_i32 s sp r0 vm = Inr a" using operand_read [OF assms(1), of T_i32 s r0] by auto
    then show ?thesis using I_Un32 ok unop_defined(1) by (auto intro!: res_ok_tryR)
  next
    case (I_Un64 op s)
    then obtain a where "operand T_i64 s sp r0 vm = Inr a" using operand_read [OF assms(1), of T_i64 s r0] by auto
    then show ?thesis using I_Un64 ok unop_defined(2) by (auto intro!: res_ok_tryR)
  qed (use assms(2) in simp_all)
qed

lemma set_mem_ok:
  assumes "vm_ok N ng env vm" "mallocated (vm_memory vm) = Some h" "hdr_ok h' \<and> mh_length h' = mh_length h"
  shows "vm_ok N ng env (set_mem vm h')"
  using assms by (simp add: vm_ok_def set_mem_def mem_ok_def)

lemma exec_memory_ok:
  assumes "in_frame k N ng env sp vm i" "is_memory i" "\<And>ty n f off. i = I_Store ty n f off \<Longrightarrow> n \<le> 8"
  shows "res_ok (vm_ok N ng env) (exec_memory env i sp r0 vm)"
proof -
  have ok: "vm_ok N ng env vm" using in_frame_vm [OF assms(1)] .
  then obtain h where h: "mallocated (vm_memory vm) = Some h" "hdr_ok h" by (auto simp: vm_ok_def mem_ok_def)
  have wm: "with_mem vm f = f h" for f :: "M3MemoryHeader \<Rightarrow> (u64 \<times> vm) result" using h(1) by (simp add: with_mem_def)
  note set = set_mem_ok [OF ok h(1)]
  note r = slot_read [OF assms(1) _ in_frame_stack [OF assms(1)]]
  show ?thesis
  proof (cases i)
    case (I_Load ty src off)
    then obtain a where "operand T_i32 src sp r0 vm = Inr a" using operand_read [OF assms(1), of T_i32 src r0] by auto
    then show ?thesis using I_Load wm ok op_Load_defined [OF h(2)] by (auto intro!: res_ok_tryR)
  next
    case (I_Store ty n f off)
    then obtain v a where "store_operands ty f sp r0 vm = Inr (v, a)" using store_operands_read [OF assms(1), of ty f r0] by auto
    then show ?thesis using I_Store wm set op_Store_ok [OF h(2) assms(3) [OF I_Store]] by (auto intro!: res_ok_tryR)
  next
    case I_MemSize
    then show ?thesis using wm ok by simp
  next
    case I_MemGrow
    obtain v m where g: "op_MemGrow (x_realloc_ok env) (x_memoryLimit env) (vm_memory vm) r0 = (v, m)" by fastforce
    then have "vm_ok N ng env (vm\<lparr>vm_memory := m\<rparr>)" using op_MemGrow_ok [OF _ g] ok h(1) by (simp add: vm_ok_def)
    then show ?thesis using I_MemGrow wm g by simp
  next
    case (I_MemCopy s1 s2)
    then obtain v1 v2 where "get_slot T_i32 sp s1 vm = Inr v1" "get_slot T_i32 sp s2 vm = Inr v2" using r [of T_i32 s1] r [of T_i32 s2] by auto
    then show ?thesis using I_MemCopy wm set op_MemCopy_ok [OF h(2)] by (auto intro!: res_ok_tryR)
  next
    case (I_MemFill s1 s2)
    then obtain v1 v2 where "get_slot T_i32 sp s1 vm = Inr v1" "get_slot T_i32 sp s2 vm = Inr v2" using r [of T_i32 s1] r [of T_i32 s2] by auto
    then show ?thesis using I_MemFill wm set op_MemFill_ok [OF h(2)] by (auto intro!: res_ok_tryR)
  qed (use assms(2) in simp_all)
qed

lemma res_ok_get_slot:
  assumes "in_frame k N ng env sp vm i" "(ty, s) \<in> set (instr_slots i)" "vm_ok N ng env vm'" "\<And>v. res_ok Q (f v)"
  shows "res_ok Q (tryR (get_slot ty sp s vm') f)"
  using slot_read [OF assms(1,2), of vm'] assms(3,4) by (auto simp: vm_ok_def)

lemma res_ok_set_slot:
  assumes "in_frame k N ng env sp vm i" "(ty, s) \<in> set (instr_slots i)" "vm_ok N ng env vm'"
    "\<And>vm''. vm_ok N ng env vm'' \<Longrightarrow> res_ok Q (f vm'')"
  shows "res_ok Q (tryR (set_slot ty sp s v vm') f)"
  using slot_written [OF assms(1-3), of v] assms(4) by auto

lemma res_ok_get_global:
  assumes "vm_ok N ng env vm" "g < ng" "\<And>v. res_ok Q (f v)"
  shows "res_ok Q (tryR (get_global ty g vm) f)"
  using assms by (simp add: get_global_def vm_ok_def)

lemma res_ok_set_global:
  assumes "vm_ok N ng env vm" "g < ng" "\<And>vm'. vm_ok N ng env vm' \<Longrightarrow> res_ok Q (f vm')"
  shows "res_ok Q (tryR (set_global ty g v vm) f)"
  using assms by (simp add: set_global_def vm_ok_def)

fun is_slots :: "instr \<Rightarrow> bool" where
  "is_slots (I_SetRegister ty s) = True" | "is_slots (I_SetSlot ty s) = True" | "is_slots (I_PreserveSetSlot ty s p) = True"
| "is_slots (I_CopySlot ty d s) = True" | "is_slots (I_PreserveCopySlot ty d s p) = True" | "is_slots (I_Select ty f) = True"
| "is_slots (I_Const32 v s) = True" | "is_slots (I_Const64 v s) = True" | "is_slots (I_GetGlobal ty g s) = True"
| "is_slots (I_SetGlobal ty g) = True" | "is_slots (I_SetGlobal_s ty g s) = True" | "is_slots _ = False"

lemma exec_slots_ok:
  assumes "in_frame k N ng env sp vm i" "is_slots i"
  shows "res_ok (vm_ok N ng env) (exec_slots i sp r0 vm)"
proof -
  have ok: "vm_ok N ng env vm" using in_frame_vm [OF assms(1)] .
  have g: "g < ng" if "g \<in> set (instr_globals i)" for g using assms(1) that by (simp add: in_frame_def)
  note intros = res_ok_get_slot [OF assms(1)] res_ok_set_slot [OF assms(1)] res_ok_get_global res_ok_set_global
  show ?thesis
  proof (cases i)
    case (I_Select ty f)
    then obtain c a b where "select_operands ty f sp r0 vm = Inr (c, a, b)" using select_operands_read [OF assms(1), of ty f r0] by auto
    then show ?thesis using I_Select ok by simp
  qed (use assms(2) ok g in \<open>auto intro!: intros\<close>)
qed

text \<open>What a continuation of the run has to promise, and then promises for one more operation.\<close>

definition ret_ok :: "(nat \<Rightarrow> nat set) \<Rightarrow> exec_env \<Rightarrow> nat \<Rightarrow> m3ret \<Rightarrow> bool" where
  "ret_ok live env pc r \<longleftrightarrow> r \<noteq> R_trap C_undefined \<and> (\<forall>k. r = R_loop k \<longrightarrow> \<not> is_entry env pc \<and> k \<in> live pc)"

definition run_ok :: "(nat \<Rightarrow> nat) \<Rightarrow> (nat \<Rightarrow> nat set) \<Rightarrow> nat \<Rightarrow> nat \<Rightarrow> exec_env \<Rightarrow> continuation \<Rightarrow> bool" where
  "run_ok frame live N ng env c \<longleftrightarrow> (\<forall>pc sp r0 vm r vm'. pc < length (x_code env) \<longrightarrow> is_entry env pc \<or> sp + frame pc \<le> N \<longrightarrow>
     vm_ok N ng env vm \<longrightarrow> c pc sp r0 vm = Some (r, vm') \<longrightarrow> ret_ok live env pc r \<and> vm_ok N ng env vm')"

lemma run_okD:
  assumes "run_ok frame live N ng env c" "pc < length (x_code env)" "is_entry env pc \<or> sp + frame pc \<le> N" "vm_ok N ng env vm"
    "c pc sp r0 vm = Some (r, vm')"
  shows "ret_ok live env pc r \<and> vm_ok N ng env vm'"
  using assms unfolding run_ok_def by blast

lemma ret_ok_simple [simp]: "ret_ok live env pc R_none" "ret_ok live env pc (R_trap e) \<longleftrightarrow> e \<noteq> C_undefined"
  by (simp_all add: ret_ok_def)

lemma ret_ok_entry:
  assumes "ret_ok live env k r" "is_entry env k \<or> live k = {}"
  shows "ret_ok live env pc r"
  using assms by (auto simp: ret_ok_def)

lemma ret_ok_outer:
  assumes "ret_ok live env t r" "live t \<subseteq> live pc" "\<not> is_entry env pc"
  shows "ret_ok live env pc r"
  using assms by (auto simp: ret_ok_def)

lemma exec_simple_ok:
  assumes "in_frame k N ng env sp vm i" "is_numeric i \<or> is_memory i \<or> is_slots i" "\<And>ty n f off. i = I_Store ty n f off \<Longrightarrow> n \<le> 8"
  shows "res_ok (vm_ok N ng env) (exec_simple env i sp r0 vm)"
proof -
  have "\<not> is_numeric i \<and> \<not> is_memory i" if "is_slots i" using that by (cases i) simp_all
  then show ?thesis
    using exec_numeric_ok [OF assms(1)] exec_memory_ok [OF assms(1)] exec_slots_ok [OF assms(1)] assms(2,3)
    by (auto simp: exec_simple_def)
qed

lemma enter_ok:
  assumes "vm_ok N ng env vm" "f < length (x_functions env)" "x_numStackSlots env \<le> N"
    "xf_numRetAndArgSlots (x_functions env ! f) + xf_numLocalBytes (x_functions env ! f) div 4 + length (xf_constants (x_functions env ! f))
      \<le> xf_maxStackSlots (x_functions env ! f)"
  shows "enter env f sp vm \<noteq> Inl C_undefined"
    and "enter env f sp vm = Inr vm' \<Longrightarrow> vm_ok N ng env vm' \<and> sp + xf_maxStackSlots (x_functions env ! f) \<le> N"
  using assms by (auto simp: enter_def with_mem_def vm_ok_def write_slots_def Let_def m3_result tryR_Inl_iff split: if_splits)

lemma op_Call_ok:
  assumes c: "run_ok frame live N ng env c" and vm: "vm_ok N ng env vm" and callee: "is_entry env callPC"
    and next': "pc + 1 < length (x_code env)" "sp + frame (pc + 1) \<le> N"
    and r: "op_Call c pc sp r0 callPC off vm = Some (r, vm')"
  shows "ret_ok live env (pc + 1) r \<and> vm_ok N ng env vm'"
proof -
  obtain r1 vm1 where 1: "c callPC (sp + off) 0 vm = Some (r1, vm1)"
    and 2: "(if r1 = R_none then c (pc + 1) sp r0 vm1 else Some (r1, vm1)) = Some (r, vm')"
    using r by (auto simp: op_Call_def split: option.splits)
  have ok1: "ret_ok live env callPC r1 \<and> vm_ok N ng env vm1"
    by (rule run_okD [OF c _ _ vm 1]) (use callee in \<open>auto simp: is_entry_def\<close>)
  show ?thesis
  proof (cases "r1 = R_none")
    case True
    then show ?thesis using run_okD [OF c next'(1) disjI2 [OF next'(2)], of vm1 r0 r vm'] ok1 2 by simp
  qed (use 2 ok1 ret_ok_entry [of live env callPC r1 "pc + 1"] callee in auto)
qed

lemma on_result_ok:
  assumes "on_result vm m f = Some (r, vm')" "m \<noteq> Inl C_undefined" "vm_ok N ng env vm"
    "\<And>x. m = Inr x \<Longrightarrow> f x = Some (r, vm') \<Longrightarrow> ret_ok live env pc r \<and> vm_ok N ng env vm'"
  shows "ret_ok live env pc r \<and> vm_ok N ng env vm'"
  using assms by (cases m) (auto simp: on_result_def)

lemma condition_defined:
  assumes "in_frame k N ng env sp vm i" "set (opt_slots T_i32 c) \<subseteq> set (instr_slots i)"
  shows "condition c sp r0 vm \<noteq> Inl C_undefined"
  using operand_read [OF assms, of r0] by (auto simp: condition_def)

lemma indirect_callee_ok:
  assumes "env_ok frame live N ng env"
  shows "indirect_callee env ty i \<noteq> Inl C_undefined" "indirect_callee env ty i = Inr k \<Longrightarrow> is_entry env k"
proof -
  have x: "x_compiled env f \<noteq> Inl C_undefined \<and> (x_compiled env f = Inr k \<longrightarrow> is_entry env k)" for f
    using assms by (auto simp: env_ok_defs split: sum.splits dest: spec [of _ f])
  have t: "unat i < length (x_table0 env)" if "i < x_table0Size env"
    using assms that by (simp add: env_ok_defs word_less_nat_alt)
  have f: "f < length (x_functions env)" if "i < x_table0Size env" "x_table0 env ! unat i = Some f" for f
  proof -
    have "Some f \<in> set (x_table0 env)" using nth_mem [OF t [OF that(1)]] that(2) by simp
    then show ?thesis using assms by (simp add: env_ok_defs)
  qed
  show "indirect_callee env ty i \<noteq> Inl C_undefined" "indirect_callee env ty i = Inr k \<Longrightarrow> is_entry env k"
    using x t f by (auto simp: indirect_callee_def split: option.splits if_splits)
qed

lemma op_BranchTable_target:
  assumes "ts \<noteq> []" "op_BranchTable c ts sp r0 vm i = Some y"
  shows "\<exists>t \<in> set ts. c t sp r0 vm = Some y"
proof -
  have pos: "length ts - 1 < length ts" using assms(1) by (cases ts) auto
  show ?thesis
  proof (cases "length ts - 1 < unat i")
    case True
    then show ?thesis using assms(2) pos nth_mem [OF pos] by (auto simp: op_BranchTable_def)
  next
    case False
    then have "unat i < length ts" using pos by linarith
    then show ?thesis using assms(2) False nth_mem [of "unat i" ts] by (auto simp: op_BranchTable_def)
  qed
qed

lemma run_step_ok:
  assumes env: "env_ok frame live N ng env" and c: "run_ok frame live N ng env c"
  shows "run_ok frame live N ng env (run_step c env)"
  unfolding run_ok_def
proof (intro allI impI)
  fix pc sp r0 vm r vm'
  assume pc: "pc < length (x_code env)" and pre: "is_entry env pc \<or> sp + frame pc \<le> N" and vm: "vm_ok N ng env vm"
    and r: "run_step c env pc sp r0 vm = Some (r, vm')"
  let ?i = "x_code env ! pc" and ?post = "ret_ok live env pc r \<and> vm_ok N ng env vm'"
  have iok: "instr_ok env frame live ng pc ?i" using env pc by (simp add: env_ok_defs)
  have frame: "in_frame (frame pc) N ng env sp vm ?i \<and> sp + frame pc \<le> N" if "\<not> (\<exists>f. ?i = I_Entry f \<or> ?i = I_CallRawFunction f)"
    using that pre iok vm by (auto simp: in_frame_def is_entry_def instr_ok_def)
  have ent: "\<not> is_entry env pc" if "\<not> (\<exists>f. ?i = I_Entry f \<or> ?i = I_CallRawFunction f)" using that by (auto simp: is_entry_def)
  have go: ?post if "t \<in> set (successors pc ?i)" "\<not> (\<exists>f. ?i = I_Entry f \<or> ?i = I_CallRawFunction f)" "?i \<noteq> I_Loop"
      "vm_ok N ng env vm1" "c t sp r1 vm1 = Some (r, vm')" for t r1 vm1
  proof -
    have "t < length (x_code env)" "sp + frame t \<le> N" "live t \<subseteq> live pc" using that(1-3) iok frame by (auto simp: instr_ok_def)
    then show ?thesis using run_okD [OF c _ _ that(4,5)] ret_ok_outer [OF _ _ ent [OF that(2)]] by blast
  qed
  have call: ?post if "is_entry env k" "pc + 1 \<in> set (successors pc ?i)" "\<not> (\<exists>f. ?i = I_Entry f \<or> ?i = I_CallRawFunction f)" "?i \<noteq> I_Loop"
      "op_Call c pc sp r0 k off vm = Some (r, vm')" for k off
  proof -
    have n: "pc + 1 < length (x_code env)" "sp + frame (pc + 1) \<le> N" "live (pc + 1) \<subseteq> live pc"
      using that(2-4) iok frame by (auto simp: instr_ok_def)
    show ?thesis using op_Call_ok [OF c vm that(1) n(1,2) that(5)] ret_ok_outer [OF _ n(3) ent [OF that(3)]] by blast
  qed
  have simple: ?post if "is_numeric ?i \<or> is_memory ?i \<or> is_slots ?i" "pc + 1 \<in> set (successors pc ?i)"
      "on_result vm (exec_simple env ?i sp r0 vm) (\<lambda>(r0, vm). c (pc + 1) sp r0 vm) = Some (r, vm')"
  proof -
    have ne: "\<not> (\<exists>f. ?i = I_Entry f \<or> ?i = I_CallRawFunction f)" "?i \<noteq> I_Loop" using that(1) by auto
    have st: "\<And>ty n f off. ?i = I_Store ty n f off \<Longrightarrow> n \<le> 8" using iok by (simp add: instr_ok_def)
    have e: "res_ok (vm_ok N ng env) (exec_simple env ?i sp r0 vm)"
      by (rule exec_simple_ok [OF conjunct1 [OF frame [OF ne(1)]] that(1) st])
    show ?thesis
    proof (rule on_result_ok [OF that(3) _ vm])
      show "exec_simple env ?i sp r0 vm \<noteq> Inl C_undefined" using e by (auto simp: res_ok_def)
      fix x assume "exec_simple env ?i sp r0 vm = Inr x" "(case x of (r0, vm) \<Rightarrow> c (pc + 1) sp r0 vm) = Some (r, vm')"
      then show ?post using e go [OF that(2) ne] by (cases x) (auto simp: res_ok_def)
    qed
  qed
  show ?post
  proof (cases "?i")
    case (I_Branch t)
    then show ?thesis using r pc go [of t vm r0] vm by (simp add: run_step_def)
  next
    case (I_BranchIf cnd t)
    show ?thesis
      by (rule on_result_ok [of vm "condition cnd sp r0 vm" _ r vm'])
        (use I_BranchIf r pc vm frame condition_defined [of "frame pc" N ng env sp vm ?i cnd] go [of "pc + 1" vm r0] go [of t vm r0]
          in \<open>auto simp: run_step_def split: if_splits\<close>)
  next
    case (I_BranchIfPrologue cnd t)
    show ?thesis
      by (rule on_result_ok [of vm "condition cnd sp r0 vm" _ r vm'])
        (use I_BranchIfPrologue r pc vm frame condition_defined [of "frame pc" N ng env sp vm ?i cnd] go [of "pc + 1" vm r0] go [of t vm r0]
          in \<open>auto simp: run_step_def split: if_splits\<close>)
  next
    case (I_If cnd t)
    show ?thesis
      by (rule on_result_ok [of vm "condition cnd sp r0 vm" _ r vm'])
        (use I_If r pc vm frame condition_defined [of "frame pc" N ng env sp vm ?i cnd] go [of "pc + 1" vm r0] go [of t vm r0]
          in \<open>auto simp: run_step_def split: if_splits\<close>)
  next
    case (I_BranchTable s ts)
    have ts: "ts \<noteq> []" using iok I_BranchTable by (simp add: instr_ok_def)
    have rd: "\<exists>v. get_slot T_i32 sp s vm = Inr v"
      using frame I_BranchTable slot_read [of "frame pc" N ng env sp vm ?i T_i32 s vm] in_frame_stack by auto
    show ?thesis
    proof (rule on_result_ok [of vm "get_slot T_i32 sp s vm" "\<lambda>i. op_BranchTable c ts sp r0 vm (ucast i)" r vm', OF _ _ vm])
      show "on_result vm (get_slot T_i32 sp s vm) (\<lambda>i. op_BranchTable c ts sp r0 vm (ucast i)) = Some (r, vm')"
        using r pc I_BranchTable by (simp add: run_step_def)
      show "get_slot T_i32 sp s vm \<noteq> Inl C_undefined" using rd by auto
      fix x assume b: "op_BranchTable c ts sp r0 vm (ucast x) = Some (r, vm')"
      then obtain t where "t \<in> set ts" "c t sp r0 vm = Some (r, vm')" using op_BranchTable_target [OF ts] by blast
      then show ?post using go [of t vm r0] I_BranchTable vm by auto
    qed
  next
    case I_Loop
    then obtain r1 vm1 where 1: "c (pc + 1) sp 0 vm = Some (r1, vm1)"
      and 2: "(if r1 = R_loop (pc + 1) then c pc sp 0 vm1 else Some (r1, vm1)) = Some (r, vm')"
      using r pc by (auto simp: run_step_def op_Loop_def split: option.splits)
    have n: "pc + 1 < length (x_code env)" "sp + frame (pc + 1) \<le> N" using iok I_Loop frame by (auto simp: instr_ok_def)
    have ok1: "ret_ok live env (pc + 1) r1 \<and> vm_ok N ng env vm1" by (rule run_okD [OF c n(1) disjI2 [OF n(2)] vm 1])
    have "sp + frame pc \<le> N" using frame I_Loop by simp
    moreover have "live (pc + 1) \<subseteq> insert (pc + 1) (live pc)" using iok I_Loop by (simp add: instr_ok_def)
    moreover have "\<not> is_entry env pc" using ent I_Loop by simp
    ultimately show ?thesis using 2 ok1 run_okD [OF c pc, of sp vm1 0 r vm'] by (auto simp: ret_ok_def split: if_splits)
  next
    case (I_ContinueLoopIf k)
    then have "k \<in> live pc" "\<not> is_entry env pc" using iok ent by (simp_all add: instr_ok_def)
    then show ?thesis using r pc go [of "pc + 1" vm r0] vm I_ContinueLoopIf by (auto simp: run_step_def ret_ok_def split: if_splits)
  next
    case (I_ContinueLoop k)
    then have "k \<in> live pc" "\<not> is_entry env pc" using iok ent by (simp_all add: instr_ok_def)
    then show ?thesis using r pc vm I_ContinueLoop by (auto simp: run_step_def ret_ok_def split: if_splits)
  next
    case (I_Entry f)
    have f: "f < length (x_functions env)" "frame (pc + 1) \<le> xf_maxStackSlots (x_functions env ! f)"
      "xf_numRetAndArgSlots (x_functions env ! f) + xf_numLocalBytes (x_functions env ! f) div 4 + length (xf_constants (x_functions env ! f))
      \<le> xf_maxStackSlots (x_functions env ! f)" "pc + 1 < length (x_code env)" "live (pc + 1) = {}"
      using iok I_Entry by (simp_all add: instr_ok_def Let_def)
    have n: "x_numStackSlots env \<le> N" using env by (simp add: env_ok_defs)
    note en = enter_ok [OF vm f(1) n f(3), of sp]
    show ?thesis
    proof (rule on_result_ok [of vm "enter env f sp vm" "c (pc + 1) sp 0" r vm', OF _ en(1) vm])
      show "on_result vm (enter env f sp vm) (c (pc + 1) sp 0) = Some (r, vm')" using r pc I_Entry by (simp add: run_step_def)
      fix vm1 assume e: "enter env f sp vm = Inr vm1" and run: "c (pc + 1) sp 0 vm1 = Some (r, vm')"
      have "sp + frame (pc + 1) \<le> N" using en(2) [OF e] f(2) by linarith
      then show ?post using run_okD [OF c f(4) _ _ run] en(2) [OF e] ret_ok_entry [of live env "pc + 1" r pc] f(5) by blast
    qed
  next
    case (I_Call k off)
    then show ?thesis using r pc call [of k off] iok by (simp add: run_step_def instr_ok_def)
  next
    case (I_Compile f off)
    have x: "x_compiled env f \<noteq> Inl C_undefined \<and> (\<forall>k. x_compiled env f = Inr k \<longrightarrow> is_entry env k)"
      using env by (auto simp: env_ok_defs split: sum.splits dest: spec [of _ f])
    show ?thesis
      by (rule on_result_ok [of vm "x_compiled env f" "\<lambda>k. op_Call c pc sp r0 k off vm" r vm', OF _ _ vm])
        (use I_Compile r pc x call in \<open>auto simp: run_step_def\<close>)
  next
    case (I_CallIndirect s ty off)
    have rd: "\<exists>v. get_slot T_i32 sp s vm = Inr v"
      using frame I_CallIndirect slot_read [of "frame pc" N ng env sp vm ?i T_i32 s vm] in_frame_stack by auto
    then obtain v where v: "get_slot T_i32 sp s vm = Inr v" by blast
    show ?thesis
      by (rule on_result_ok [of vm "indirect_callee env ty (ucast v)" "\<lambda>k. op_Call c pc sp r0 k off vm" r vm', OF _ _ vm])
        (use I_CallIndirect r pc v indirect_callee_ok [OF env, of ty "ucast v"] call in \<open>auto simp: run_step_def on_result_def\<close>)
  next
    case (I_CallRawFunction f)
    obtain e vm1 where h: "x_host env f sp vm = (e, vm1)" by fastforce
    then have "e \<noteq> Some C_undefined \<and> vm_ok N ng env vm1" using env vm by (auto simp: env_ok_defs)
    then show ?thesis using r pc I_CallRawFunction h by (auto simp: run_step_def op_CallRawFunction_def split: option.splits)
  qed (use r pc vm simple in \<open>simp_all add: run_step_def split: if_splits\<close>, auto)
qed

lemma RunCode_ok:
  assumes "env_ok frame live N ng env"
  shows "run_ok frame live N ng env (RunCode n env)"
proof (induction n)
  case 0
  show ?case by (simp add: run_ok_def)
next
  case (Suc n)
  then show ?case using run_step_ok [OF assms] by simp
qed

section \<open>Properties\<close>


text \<open>A function that adds the numbers from its argument (slot 1) down to 1 in its result (slot 0);
  the constant 1 is in slot 2.\<close>

definition sum_code :: "instr list" where
  "sum_code = [I_Entry 0, I_Loop, I_Bin32 Add (SS 1 0), I_SetSlot T_i32 0, I_Bin32 Subtract (SS 2 1), I_SetSlot T_i32 1,
     I_ContinueLoopIf 2, I_Return]"

definition sum_env :: exec_env where
  "sum_env = \<lparr>x_code = sum_code,
     x_functions = [\<lparr>xf_maxStackSlots = 3, xf_numRetAndArgSlots = 2, xf_numLocalBytes = 0, xf_constants = [1], xf_funcType = 0\<rparr>],
     x_compiled = (\<lambda>f. if f = 0 then Inr 0 else Inl m3Err_missingCompiledCode), x_table0 = [], x_table0Size = 0, x_numStackSlots = 4,
     x_realloc_ok = (\<lambda>_. True), x_memoryLimit = 0, x_host = (\<lambda>f sp vm. (Some m3Err_trapAbort, vm))\<rparr>"

definition sum_vm :: "u32 \<Rightarrow> vm" where
  "sum_vm n = \<lparr>vm_stack = [0, n, 0, 0],
     vm_memory = \<lparr>mallocated = Some \<lparr>mh_length = 0, mh_data = []\<rparr>, numPages = 0, maxPages = 1, pageSize = 65536\<rparr>, vm_globals = []\<rparr>"

definition sum_live :: "nat \<Rightarrow> nat set" where
  "sum_live pc = (if 2 \<le> pc then {2} else {})"

lemma sum_env_ok: "well_formed (\<lambda>pc. 3) sum_live 4 0 sum_env"
proof -
  have "\<forall>pc < length (x_code sum_env). instr_ok sum_env (\<lambda>pc. 3) sum_live 0 pc (x_code sum_env ! pc)"
  proof (intro allI impI)
    fix pc assume "pc < length (x_code sum_env)"
    then have "pc = 0 \<or> pc = 1 \<or> pc = 2 \<or> pc = 3 \<or> pc = 4 \<or> pc = 5 \<or> pc = 6 \<or> pc = 7"
      by (simp add: sum_env_def sum_code_def) linarith
    then show "instr_ok sum_env (\<lambda>pc. 3) sum_live 0 pc (x_code sum_env ! pc)"
      by (elim disjE) (simp_all add: sum_env_def sum_code_def instr_ok_def slot_width_def sum_live_def)
  qed
  then show ?thesis
    by (auto simp: well_formed_def sum_env_def is_entry_def sum_code_def)
qed

lemma sum_run:
  "RunCode 40 sum_env 0 0 0 (sum_vm 4) = Some (R_none, (sum_vm 4)\<lparr>vm_stack := [10, 0, 1, 0]\<rparr>)"
  by code_simp


text \<open>The result of a run does not depend on the fuel: two runs of the same code from the same
  state that both end, end in the same way and in the same state.\<close>

theorem RunCode_deterministic:
  assumes "RunCode n env pc sp r0 vm = Some y" "RunCode k env pc sp r0 vm = Some z"
  shows "y = z"
  using RunCode_mono [OF assms(1), of "max n k"] RunCode_mono [OF assms(2), of "max n k"] by simp

theorem RunCode_deterministic_witness:
  "\<exists>z. RunCode 50 sum_env 0 0 0 (sum_vm 4) = Some z \<and> z = (R_none, (sum_vm 4)\<lparr>vm_stack := [10, 0, 1, 0]\<rparr>)"
proof -
  obtain z where "RunCode 50 sum_env 0 0 0 (sum_vm 4) = Some z" using RunCode_mono [OF sum_run, of 50] by auto
  with RunCode_deterministic [OF sum_run, of 50] show ?thesis by blast
qed

text \<open>Entering a function is exact. When its frame does not end below the limit of the stack,
  the run traps with a stack overflow; otherwise the locals behind its results and arguments are
  zeroed, its constants are copied behind the locals, and no other slot of the stack changes.\<close>

theorem entry_exact:
  assumes "vm_ok N ng env vm" "f < length (x_functions env)" "x_numStackSlots env \<le> N"
    and "x_functions env ! f = function" "n = xf_numLocalBytes function div 4" "locals = sp + xf_numRetAndArgSlots function"
    and "xf_numRetAndArgSlots function + n + length (xf_constants function) \<le> xf_maxStackSlots function"
  shows "if sp + xf_maxStackSlots function < x_numStackSlots env
    then \<exists>vm'. enter env f sp vm = Inr vm' \<and> vm_memory vm' = vm_memory vm \<and> vm_globals vm' = vm_globals vm
      \<and> length (vm_stack vm') = N
      \<and> (\<forall>k < N. vm_stack vm' ! k = (if locals \<le> k \<and> k < locals + n then 0
           else if locals + n \<le> k \<and> k < locals + n + length (xf_constants function) then xf_constants function ! (k - (locals + n))
           else vm_stack vm ! k))
    else enter env f sp vm = Inl m3Err_trapStackOverflow"
proof (cases "sp + xf_maxStackSlots function < x_numStackSlots env")
  case True
  obtain h where h: "mallocated (vm_memory vm) = Some h" "length (vm_stack vm) = N" using assms(1) by (auto simp: vm_ok_def)
  let ?s1 = "take locals (vm_stack vm) @ replicate n 0 @ drop (locals + n) (vm_stack vm)"
  let ?s2 = "take (locals + n) ?s1 @ xf_constants function @ drop (locals + n + length (xf_constants function)) ?s1"
  have le: "locals + n + length (xf_constants function) \<le> N" using True assms(3,6,7) by linarith
  have l1: "length ?s1 = N" using le h(2) by simp
  have w1: "write_slots locals (replicate n 0) vm = Inr (vm\<lparr>vm_stack := ?s1\<rparr>)" using le h(2) by (simp add: write_slots_def)
  have w2: "write_slots (locals + n) (xf_constants function) (vm\<lparr>vm_stack := ?s1\<rparr>) = Inr (vm\<lparr>vm_stack := ?s2\<rparr>)"
    using le l1 by (simp add: write_slots_def del: append_assoc)
  have e: "enter env f sp vm = Inr (vm\<lparr>vm_stack := ?s2\<rparr>)"
    using w1 w2 True assms(2,4-6) h(1) by (simp add: enter_def with_mem_def Let_def)
  have n1: "?s1 ! k = (if locals \<le> k \<and> k < locals + n then 0 else vm_stack vm ! k)" if "k < N" for k
    using nth_splice [of locals "replicate n 0" "vm_stack vm" k] le h(2) that by (auto simp: less_diff_conv2)
  have n2: "?s2 ! k = (if locals + n \<le> k \<and> k < locals + n + length (xf_constants function) then xf_constants function ! (k - (locals + n))
      else ?s1 ! k)" if "k < N" for k
    using nth_splice [of "locals + n" "xf_constants function" ?s1 k] le l1 that by (simp del: append_assoc)
  have l2: "length ?s2 = N" using le l1 by simp
  show ?thesis using e n1 n2 l2 True by auto
next
  case False
  then show ?thesis using assms(1,2,4) by (auto simp: enter_def with_mem_def vm_ok_def)
qed

theorem entry_exact_witness:
  "\<exists>vm'. enter sum_env 0 0 (sum_vm 4) = Inr vm' \<and> vm_stack vm' ! 2 = 1"
proof -
  have "vm_ok 4 0 sum_env (sum_vm 4)" by (simp add: vm_ok_def sum_vm_def mem_ok_def hdr_ok_def sum_env_def)
  from entry_exact [OF this, of 0 _ 0 2 0] show ?thesis by (auto simp: sum_env_def)
qed

end
