(* ===== verification/M3_Env.thy ===== *)
theory M3_Env
  imports M3_Parse_Props M3_Memory
begin

text \<open>
  Runtimes, \<^verbatim>\<open>src/m3_env.c\<close>: creation, loading a module (memory, globals, data segments, elements),
  looking up globals and functions, calling a function and reading its results. A function is
  identified by its module's position, counted from the oldest, and its index. The compiler of
  function bodies (\<open>compile\<close>, its outcome) and the interpreter (\<open>exec\<close>, what running the
  code of a function makes of the runtime) are parameters here.
\<close>

section \<open>State\<close>

text \<open>\<open>rt_modules\<close> has the newest module first, as the linked list; the stack is in 32-bit slots.\<close>

record M3Runtime =
  rt_memory :: M3Memory
  rt_memoryLimit :: u32
  rt_modules :: "M3Module list"
  rt_stack :: "nat \<Rightarrow> u32"
  rt_numStackSlots :: nat
  rt_lastCalled :: "(nat \<times> nat) option"

text \<open>
  The allocator: which sizes \<^verbatim>\<open>realloc\<close> and \<^verbatim>\<open>calloc\<close> grant, whether the expression that starts at a
  position gets a code page, and which lines of that page can be acquired.
\<close>

record allocator =
  al_realloc :: "u64 \<Rightarrow> bool"
  al_calloc :: "nat \<Rightarrow> bool"
  al_page :: "nat \<Rightarrow> bool"
  al_page_ok :: "nat \<Rightarrow> bool"

type_synonym load_state = "M3Runtime \<times> M3Module"
type_synonym load_result = "(m3_error \<times> load_state) + load_state"

definition m3_NewRuntime :: "bool \<Rightarrow> allocator \<Rightarrow> u32 \<Rightarrow> M3Runtime option" where
  "m3_NewRuntime struct_ok al i_stackSizeInBytes =
    (if struct_ok \<and> al_calloc al (unat i_stackSizeInBytes + 4 * 4) then
       Some \<lparr>rt_memory = zero_memory, rt_memoryLimit = 0, rt_modules = [], rt_stack = (\<lambda>_. 0),
             rt_numStackSlots = unat i_stackSizeInBytes div 4, rt_lastCalled = None\<rparr>
     else None)"

text \<open>A step for each index, until one fails.\<close>

primrec each :: "('i \<Rightarrow> 's \<Rightarrow> 'x + 's) \<Rightarrow> 'i list \<Rightarrow> 's \<Rightarrow> 'x + 's" where
  "each f [] s = Inr s"
| "each f (i # is) s = tryR (f i s) (each f is)"

section \<open>Loading a module\<close>

definition InitMemory :: "allocator \<Rightarrow> M3Runtime \<Rightarrow> M3Module \<Rightarrow> m3_error option \<times> M3Runtime" where
  "InitMemory al rt m =
    (if \<not> memoryImported m then
       let maxP = mi_maxPages (memoryInfo m); ps = mi_pageSize (memoryInfo m);
           mem = (rt_memory rt)\<lparr>maxPages := (if maxP \<noteq> 0 then maxP else 65536),
                                pageSize := (if ps \<noteq> 0 then ps else d_m3DefaultMemPageSize)\<rparr>;
           (r, mem) = ResizeMemory (al_realloc al) (rt_memoryLimit rt) mem (initPages (memoryInfo m)) in
       (r, rt\<lparr>rt_memory := mem\<rparr>)
     else (None, rt))"

text \<open>\<open>store_value\<close> writes a value of a type through a pointer to 64 bits.\<close>

definition store_value :: "u8 \<Rightarrow> u64 \<Rightarrow> u64 \<Rightarrow> u64" where
  "store_value ty old v = (if SizeOfType ty = 4 then (old AND NOT (mask 32)) OR take_bit 32 v else v)"

definition InitGlobal :: "allocator \<Rightarrow> u8 list \<Rightarrow> nat \<Rightarrow> load_state \<Rightarrow> load_result" where
  "InitGlobal al w i s =
    (let (rt, m) = s in
     if i < length (globals m) then
       let g = globals m ! i in
       (case gl_initExpr g of
          None \<Rightarrow> Inr s
        | Some start \<Rightarrow>
            tryR (at_state s (EvaluateExpression (al_page al start) (al_page_ok al) m w (rt_numStackSlots rt) (rt_stack rt)
                   (gl_type g) start (start + unat (gl_initExprSize g)))) (\<lambda>(v, p, st).
              Inr (rt\<lparr>rt_stack := st\<rparr>, m\<lparr>globals := (globals m)[i := g\<lparr>gl_value := store_value (gl_type g) (gl_value g) v\<rparr>]\<rparr>)))
     else Inl (C_undefined, s))"

definition InitGlobals :: "allocator \<Rightarrow> u8 list \<Rightarrow> load_state \<Rightarrow> load_result" where
  "InitGlobals al w s = each (InitGlobal al w) [0 ..< unat (numGlobals (snd s))] s"

text \<open>One data segment: its offset is evaluated, then the bytes are copied if they fit.\<close>

definition InitDataSegment :: "allocator \<Rightarrow> u8 list \<Rightarrow> nat \<Rightarrow> load_state \<Rightarrow> load_result" where
  "InitDataSegment al w i s =
    (let (rt, m) = s in
     if i < length (dataSegments m) then
       let segment = dataSegments m ! i; start = ds_initExpr segment in
       tryR (at_state s (EvaluateExpression (al_page al start) (al_page_ok al) m w (rt_numStackSlots rt) (rt_stack rt)
              c_m3Type_i32 start (start + unat (ds_initExprSize segment)))) (\<lambda>(v, p, st).
         let segmentOffset = ucast v :: u32; s = (rt\<lparr>rt_stack := st\<rparr>, m) in
         case mallocated (rt_memory rt) of
           None \<Rightarrow> Inl (C_undefined, s)
         | Some h \<Rightarrow>
             if 0 \<le> sint segmentOffset \<and> (ucast segmentOffset :: u64) + ucast (ds_size segment) \<le> mh_length h then
               if ds_data segment + unat (ds_size segment) \<le> length w then
                 tryR (at_state s (put_bytes h (unat segmentOffset) (take (unat (ds_size segment)) (drop (ds_data segment) w)))) (\<lambda>h.
                   Inr (rt\<lparr>rt_stack := st, rt_memory := (rt_memory rt)\<lparr>mallocated := Some h\<rparr>\<rparr>, m))
               else Inl (C_undefined, s)
             else Inl (M3Msg ''data segment out of bounds'', s))
     else Inl (C_undefined, s))"

definition InitDataSegments :: "allocator \<Rightarrow> u8 list \<Rightarrow> load_state \<Rightarrow> load_result" where
  "InitDataSegments al w s =
    throwif (M3Msg ''unallocated linear memory'', s) (mallocated (rt_memory (fst s)) = None)
      (each (InitDataSegment al w) [0 ..< unat (numDataSegments (snd s))] s)"

text \<open>One function index of an element segment, stored at the table position \<open>k\<close>.\<close>

definition Element_entry :: "u8 list \<Rightarrow> load_state \<times> nat \<Rightarrow> nat \<Rightarrow> nat \<Rightarrow> (m3_error \<times> load_state) + (load_state \<times> nat) \<times> nat" where
  "Element_entry w sk p e =
    (let ((rt, m), k) = sk in
     tryR (at_state (rt, m) (checked (ReadLEB_u32 w p e))) (\<lambda>(functionIndex, p).
     throwif (M3Msg ''function index out of range'', (rt, m)) (functionIndex \<ge> numFunctions m)
     (throwif (C_undefined, (rt, m)) (\<not> k < length (table0 m))
       (Inr (((rt, m\<lparr>table0 := (table0 m)[k := Some (unat functionIndex)]\<rparr>), k + 1), p)))))"

text \<open>The table is grown to hold the segment; a null table pointer is the empty list.\<close>

definition grow_table :: "allocator \<Rightarrow> nat \<Rightarrow> M3Module \<Rightarrow> M3Module" where
  "grow_table al endElement m =
    (if endElement > unat (table0Size m) then
       (case m3_ReallocArray (al_calloc al) 8 None (table0 m) endElement (unat (table0Size m)) of
          None \<Rightarrow> m\<lparr>table0 := [], table0Size := of_nat endElement\<rparr>
        | Some t \<Rightarrow> m\<lparr>table0 := t, table0Size := of_nat endElement\<rparr>)
     else m)"

definition Element_segment :: "allocator \<Rightarrow> u8 list \<Rightarrow> load_state \<Rightarrow> nat \<Rightarrow> nat \<Rightarrow> (m3_error \<times> load_state) + load_state \<times> nat" where
  "Element_segment al w s p e =
    tryR (at_state s (checked (ReadLEB_u32 w p e))) (\<lambda>(index, p).
    if index = 0 then
      let (rt, m) = s in
      tryR (at_state s (EvaluateExpression (al_page al p) (al_page_ok al) m w (rt_numStackSlots rt) (rt_stack rt) c_m3Type_i32 p e)) (\<lambda>(v, p, st).
      let offset = ucast v :: u32; s = (rt\<lparr>rt_stack := st\<rparr>, m) in
      throwif (M3Msg ''table underflow'', s) (sint offset < 0)
      (tryR (at_state s (checked (ReadLEB_u32 w p e))) (\<lambda>(numElements, p).
       let endElement = unat numElements + unat offset in
       throwif (M3Msg ''table overflow'', s) (endElement > 10000000)
       (let m = grow_table al endElement m; s = (rt\<lparr>rt_stack := st\<rparr>, m) in
        throwif (m3Err_mallocFailed, s) (table0 m = [])
        (tryR (step_many Element_entry (unat numElements) w (s, unat offset) p e) (\<lambda>((s, k), p). Inr (s, p)))))))
    else Inl (M3Msg ''element table index must be zero for MVP'', s))"

definition InitElements :: "allocator \<Rightarrow> u8 list \<Rightarrow> load_state \<Rightarrow> load_result" where
  "InitElements al w s =
    tryR (step_many (Element_segment al) (unat (numElementSegments (snd s))) w s (elementSection (snd s)) (elementSectionEnd (snd s)))
      (\<lambda>(s, p). Inr s)"

text \<open>On failure the module is unlinked again; what its loading did to the runtime stays.\<close>

definition m3_LoadModule :: "allocator \<Rightarrow> u8 list \<Rightarrow> M3Runtime \<Rightarrow> M3Module \<Rightarrow> m3_error option \<times> M3Runtime \<times> M3Module" where
  "m3_LoadModule al w rt m =
    (if has_runtime m then (Some m3Err_moduleAlreadyLinked, rt, m)
     else
       let m = m\<lparr>has_runtime := True\<rparr>;
           r = tryR (case InitMemory al rt m of (None, rt) \<Rightarrow> Inr (rt, m) | (Some e, rt) \<Rightarrow> Inl (e, (rt, m))) (\<lambda>s.
               tryR (InitGlobals al w s) (\<lambda>s.
               tryR (InitDataSegments al w s) (InitElements al w))) in
       (case r of
          Inr (rt, m) \<Rightarrow> (None, rt\<lparr>rt_modules := m # rt_modules rt\<rparr>, m)
        | Inl (e, (rt, m)) \<Rightarrow> (Some e, rt, m\<lparr>has_runtime := False\<rparr>)))"

section \<open>Globals\<close>

text \<open>The index of the first global that satisfies a test.\<close>

definition find_index :: "('a \<Rightarrow> bool) \<Rightarrow> 'a list \<Rightarrow> nat option" where
  "find_index P xs = find (\<lambda>i. P (xs ! i)) [0 ..< length xs]"

definition named :: "u8 list \<Rightarrow> u8 list option \<Rightarrow> bool" where
  "named name n = (case n of None \<Rightarrow> False | Some s \<Rightarrow> strcmp_eq s name)"

definition m3_FindGlobal :: "M3Module \<Rightarrow> u8 list \<Rightarrow> nat option" where
  "m3_FindGlobal m i_globalName =
    (let gs = take (unat (numGlobals m)) (globals m) in
     case find_index (\<lambda>g. named i_globalName (gl_name g)) gs of
       Some i \<Rightarrow> Some i
     | None \<Rightarrow> find_index (\<lambda>g. moduleUtf8 (gl_import g) \<noteq> None \<and> named i_globalName (fieldUtf8 (gl_import g))) gs)"

text \<open>A tagged value: its type and the bits of its union; reading or writing a 32-bit member leaves
  the upper half.\<close>

definition m3_GetGlobal :: "M3Global option \<Rightarrow> u8 \<times> u64 \<Rightarrow> m3_error option \<times> (u8 \<times> u64)" where
  "m3_GetGlobal i_global o_value =
    (case i_global of None \<Rightarrow> (Some m3Err_globalLookupFailed, o_value)
     | Some g \<Rightarrow>
         if gl_type g \<in> {1, 2, 3, 4} then (None, (gl_type g, store_value (gl_type g) (snd o_value) (gl_value g)))
         else (Some m3Err_invalidTypeId, o_value))"

definition m3_SetGlobal :: "M3Global option \<Rightarrow> u8 \<times> u64 \<Rightarrow> m3_error option \<times> M3Global option" where
  "m3_SetGlobal i_global i_value =
    (case i_global of None \<Rightarrow> (Some m3Err_globalLookupFailed, None)
     | Some g \<Rightarrow>
         if \<not> gl_isMutable g then (Some m3Err_globalNotMutable, Some g)
         else if gl_type g \<noteq> fst i_value then (Some m3Err_globalTypeMismatch, Some g)
         else if fst i_value \<in> {1, 2, 3, 4} then (None, Some (g\<lparr>gl_value := store_value (fst i_value) (gl_value g) (snd i_value)\<rparr>))
         else (Some m3Err_invalidTypeId, Some g))"

definition m3_GetGlobalType :: "M3Global option \<Rightarrow> u8" where
  "m3_GetGlobalType i_global = (case i_global of None \<Rightarrow> c_m3Type_none | Some g \<Rightarrow> gl_type g)"

section \<open>Functions\<close>

definition v_FindFunction :: "M3Module \<Rightarrow> u8 list \<Rightarrow> nat option" where
  "v_FindFunction m i_name =
    (let fs = take (unat (numFunctions m)) (m_functions m) in
     case find_index (\<lambda>f. named i_name (export_name f)) fs of
       Some i \<Rightarrow> Some i
     | None \<Rightarrow> find_index (\<lambda>f. \<not> (moduleUtf8 (fn_import f) \<noteq> None \<or> fieldUtf8 (fn_import f) \<noteq> None)
                 \<and> list_ex (named i_name) (take (unat (numNames f)) (names f))) fs)"

text \<open>\<^verbatim>\<open>ForEachModule\<close> with the lookup: the first module in the list that has the function. The
  position of a module is the number of modules older than it.\<close>

fun ForEachModule :: "(M3Module \<Rightarrow> 'a option) \<Rightarrow> M3Module list \<Rightarrow> (nat \<times> 'a) option" where
  "ForEachModule i_visitor [] = None"
| "ForEachModule i_visitor (m # ms) = (case i_visitor m of Some r \<Rightarrow> Some (length ms, r) | None \<Rightarrow> ForEachModule i_visitor ms)"

definition get_module :: "M3Runtime \<Rightarrow> nat \<Rightarrow> M3Module option" where
  "get_module rt k = (if k < length (rt_modules rt) then Some (rev (rt_modules rt) ! k) else None)"

definition set_module :: "nat \<Rightarrow> M3Module \<Rightarrow> M3Runtime \<Rightarrow> M3Runtime" where
  "set_module k m rt = rt\<lparr>rt_modules := (rt_modules rt)[length (rt_modules rt) - 1 - k := m]\<rparr>"

definition get_function :: "M3Runtime \<Rightarrow> nat \<times> nat \<Rightarrow> (M3Module \<times> M3Function) option" where
  "get_function rt h = (case get_module rt (fst h) of None \<Rightarrow> None
     | Some m \<Rightarrow> if snd h < length (m_functions m) then Some (m, m_functions m ! snd h) else None)"

definition set_compiled :: "nat \<times> nat \<Rightarrow> M3Runtime \<Rightarrow> M3Runtime" where
  "set_compiled h rt = (case get_function rt h of None \<Rightarrow> rt
     | Some (m, f) \<Rightarrow> set_module (fst h) (m\<lparr>m_functions := (m_functions m)[snd h := f\<lparr>compiled := True\<rparr>]\<rparr>) rt)"

text \<open>
  What \<^verbatim>\<open>CompileFunction\<close> makes of a function: it has its code, or it failed, or it failed after the code
  pointer was set, when there was no memory to copy the constants to.
\<close>

datatype compile_outcome = Compiled | Not_compiled m3_error | Constants_missing m3_error

text \<open>Compiling a function unless it is compiled already.\<close>

definition ensure_compiled :: "(nat \<times> nat \<Rightarrow> compile_outcome) \<Rightarrow> nat \<times> nat \<Rightarrow> M3Runtime \<Rightarrow> m3_error option \<times> M3Runtime" where
  "ensure_compiled compile h rt =
    (case get_function rt h of
       None \<Rightarrow> (Some C_undefined, rt)
     | Some (m, f) \<Rightarrow>
         if compiled f then (None, rt)
         else (case compile h of
            Compiled \<Rightarrow> (None, set_compiled h rt)
          | Not_compiled e \<Rightarrow> (Some e, rt)
          | Constants_missing e \<Rightarrow> (Some e, set_compiled h rt)))"

definition m3_FindFunction ::
    "(nat \<times> nat \<Rightarrow> compile_outcome) \<Rightarrow> M3Runtime \<Rightarrow> u8 list \<Rightarrow> m3_error option \<times> (nat \<times> nat) option \<times> M3Runtime" where
  "m3_FindFunction compile rt i_functionName =
    (if rt_modules rt = [] then (Some (M3Msg ''no modules loaded''), None, rt)
     else case ForEachModule (\<lambda>m. v_FindFunction m i_functionName) (rt_modules rt) of
       None \<Rightarrow> (Some m3Err_functionLookupFailed, None, rt)
     | Some h \<Rightarrow> (case ensure_compiled compile h rt of
         (None, rt) \<Rightarrow> (None, Some h, rt) | (Some e, rt) \<Rightarrow> (Some e, None, rt)))"

definition m3_GetTableFunction ::
    "(nat \<times> nat \<Rightarrow> compile_outcome) \<Rightarrow> M3Runtime \<Rightarrow> nat \<Rightarrow> u32 \<Rightarrow> m3_error option \<times> (nat \<times> nat) option \<times> M3Runtime" where
  "m3_GetTableFunction compile rt k i_index =
    (case get_module rt k of None \<Rightarrow> (Some C_undefined, None, rt)
     | Some m \<Rightarrow>
         if i_index \<ge> table0Size m then (Some (M3Msg ''function index out of range''), None, rt)
         else if \<not> unat i_index < length (table0 m) then (Some C_undefined, None, rt)
         else (case table0 m ! unat i_index of
             None \<Rightarrow> (None, None, rt)
           | Some f \<Rightarrow> (case ensure_compiled compile (k, f) rt of
               (None, rt) \<Rightarrow> (None, Some (k, f), rt) | (Some e, rt) \<Rightarrow> (Some e, None, rt))))"

section \<open>Calls\<close>

text \<open>The type of a function in the environment's pool (\<open>pool\<close>).\<close>

definition function_type :: "type_pool \<Rightarrow> M3Function \<Rightarrow> M3FuncType option" where
  "function_type pool f = (case fn_funcType f of None \<Rightarrow> None | Some t \<Rightarrow> pool_get pool t)"

text \<open>\<^verbatim>\<open>m3_RunStart\<close>: the start function is run at most once; a failure leaves it to be run again.\<close>

definition m3_RunStart ::
    "(nat \<times> nat \<Rightarrow> compile_outcome) \<Rightarrow> (nat \<times> nat \<Rightarrow> M3Runtime \<Rightarrow> m3_error option \<times> M3Runtime) \<Rightarrow> type_pool \<Rightarrow> nat \<Rightarrow> M3Runtime
      \<Rightarrow> m3_error option \<times> M3Runtime" where
  "m3_RunStart compile exec pool k rt =
    (case get_module rt k of None \<Rightarrow> (None, rt)
     | Some m \<Rightarrow>
         if 0 \<le> startFunction m then
           let h = (k, nat (startFunction m)) in
           (case ensure_compiled compile h rt of
              (Some e, rt) \<Rightarrow> (Some e, rt)
            | (None, rt) \<Rightarrow>
                (case get_function rt h of None \<Rightarrow> (Some C_undefined, rt)
                 | Some (m, f) \<Rightarrow>
                     (case function_type pool f of None \<Rightarrow> (Some C_undefined, rt)
                      | Some ftype \<Rightarrow>
                          if ft_numArgs ftype \<noteq> 0 \<or> ft_numRets ftype \<noteq> 0 then (Some m3Err_argumentCountMismatch, rt)
                          else
                            let start = startFunction m in
                            (case exec h (set_module k (m\<lparr>startFunction := -1\<rparr>) rt) of
                               (None, rt) \<Rightarrow> (None, rt)
                             | (Some e, rt) \<Rightarrow> (Some e, case get_module rt k of None \<Rightarrow> rt
                                 | Some m \<Rightarrow> set_module k (m\<lparr>startFunction := start\<rparr>) rt)))))
         else (None, rt))"

text \<open>
  The arguments on the stack: eight bytes each, from slot \<open>s\<close> on. An argument is given by the 32-bit
  words readable behind its pointer; a 64-bit argument needs two of them. Slots beyond the stack's
  allocation, four slots more than its size, must not be written.
\<close>

fun write_args :: "nat \<Rightarrow> u8 list \<Rightarrow> u32 list list \<Rightarrow> nat \<Rightarrow> (nat \<Rightarrow> u32) \<Rightarrow> (nat \<Rightarrow> u32) result" where
  "write_args limit [] args s st = Inr st"
| "write_args limit (ty # tys) args s st =
    (case args of [] \<Rightarrow> Inl C_undefined
     | arg # args \<Rightarrow>
         if ty = 1 \<or> ty = 3 then
           (case arg of a # _ \<Rightarrow> if s < limit then write_args limit tys args (s + 2) (st(s := a)) else Inl C_undefined
             | _ \<Rightarrow> Inl C_undefined)
         else if ty = 2 \<or> ty = 4 then
           (case arg of a # b # _ \<Rightarrow> if s + 1 < limit then write_args limit tys args (s + 2) (st(s := a, s + 1 := b)) else Inl C_undefined
             | _ \<Rightarrow> Inl C_undefined)
         else Inl (M3Msg ''unknown argument type''))"

definition m3_Call ::
    "(nat \<times> nat \<Rightarrow> compile_outcome) \<Rightarrow> (nat \<times> nat \<Rightarrow> M3Runtime \<Rightarrow> m3_error option \<times> M3Runtime) \<Rightarrow> type_pool \<Rightarrow> nat \<times> nat \<Rightarrow> u32 \<Rightarrow> u32 list list
      \<Rightarrow> M3Runtime \<Rightarrow> m3_error option \<times> M3Runtime" where
  "m3_Call compile exec pool h i_argc i_argptrs rt =
    (case get_function rt h of None \<Rightarrow> (Some C_undefined, rt)
     | Some (m, f) \<Rightarrow>
         (case function_type pool f of None \<Rightarrow> (Some C_undefined, rt)
          | Some ftype \<Rightarrow>
              if i_argc \<noteq> ucast (ft_numArgs ftype) then (Some m3Err_argumentCountMismatch, rt)
              else if \<not> compiled f then (Some m3Err_missingCompiledCode, rt)
              else (case m3_RunStart compile exec pool (fst h) rt of
                  (Some e, rt) \<Rightarrow> (Some e, rt)
                | (None, rt) \<Rightarrow>
                    (case write_args (rt_numStackSlots rt + 4)
                            (take (unat (ft_numArgs ftype)) (drop (unat (ft_numRets ftype)) (ft_types ftype))) i_argptrs
                            (2 * unat (ft_numRets ftype)) (rt_stack rt) of
                       Inl e \<Rightarrow> (Some e, rt)
                     | Inr st \<Rightarrow>
                         (case exec h (rt\<lparr>rt_stack := st\<rparr>) of
                            (None, rt) \<Rightarrow> (None, rt\<lparr>rt_lastCalled := Some h\<rparr>)
                          | (Some e, rt) \<Rightarrow> (Some e, rt\<lparr>rt_lastCalled := None\<rparr>))))))"

text \<open>The results: a type and the bits for each; a 32-bit one has the low word only.\<close>

fun read_results :: "u8 list \<Rightarrow> nat \<Rightarrow> (nat \<Rightarrow> u32) \<Rightarrow> (u8 \<times> u64) list result" where
  "read_results [] s st = Inr []"
| "read_results (ty # tys) s st =
    (if ty \<in> {1, 2, 3, 4} then
       tryR (read_results tys (s + 2) st) (\<lambda>rs. Inr ((ty, if ty = 1 \<or> ty = 3 then ucast (st s) else get_const64 st s) # rs))
     else Inl (M3Msg ''unknown return type''))"

definition m3_GetResults :: "type_pool \<Rightarrow> nat \<times> nat \<Rightarrow> u32 \<Rightarrow> M3Runtime \<Rightarrow> (u8 \<times> u64) list result" where
  "m3_GetResults pool h i_retc rt =
    (case get_function rt h of None \<Rightarrow> Inl C_undefined
     | Some (m, f) \<Rightarrow>
         (case function_type pool f of None \<Rightarrow> Inl C_undefined
          | Some ftype \<Rightarrow>
              throwif m3Err_argumentCountMismatch (i_retc \<noteq> ucast (ft_numRets ftype))
              (throwif (M3Msg ''function not called'') (rt_lastCalled rt \<noteq> Some h)
                (read_results (take (unat (ft_numRets ftype)) (ft_types ftype)) 0 (rt_stack rt)))))"

end
