(* ===== verification/M3_Expr_Props.thy ===== *)
theory M3_Expr_Props
  imports M3_Expr
begin

text \<open>
  The evaluation of an expression is always defined: whatever the bytes, it gives a value or an error
  of the interpreter, because the compiler only emits complete operations whose slots and globals exist.
\<close>

section \<open>What a compiled expression runs like\<close>

text \<open>A piece of code after which the run goes on.\<close>

definition runs_through :: "M3Global list \<Rightarrow> code_word list \<Rightarrow> bool" where
  "runs_through gs c \<longleftrightarrow> (\<forall>rest st. \<exists>st'. RunCode_expr gs (c @ rest) st = RunCode_expr gs rest st')"

lemma runs_through_Nil [simp]: "runs_through gs []"
  by (auto simp: runs_through_def)

lemma runs_through_append: "runs_through gs c \<Longrightarrow> runs_through gs d \<Longrightarrow> runs_through gs (c @ d)"
  unfolding runs_through_def by (metis append.assoc)

lemma runs_through_ops:
  "runs_through gs [W_op op_Const32, W_32 v, W_32 s]" "runs_through gs [W_op op_Const64, W_64 x, W_32 s]"
  "i < length gs \<Longrightarrow> runs_through gs [W_op op_GetGlobal_s32, W_global i, W_32 s]"
  "i < length gs \<Longrightarrow> runs_through gs [W_op op_GetGlobal_s64, W_global i, W_32 s]"
  unfolding runs_through_def by (subst RunCode_expr.simps, simp add: exec_expr_op_def, metis)+

text \<open>The state between two operations of an expression.\<close>

definition expr_ok :: "M3Global list \<Rightarrow> M3Compilation \<Rightarrow> bool" where
  "expr_ok gs o' \<longleftrightarrow> has_page o' \<and> slotFirstConstIndex o' = 0 \<and> slotMaxConstIndex o' = 0 \<and> slotFirstDynamicIndex o' = 0
     \<and> depth (block o') = 0 \<and> runs_through gs (code o')"

lemma expr_ok_wasm [simp]: "expr_ok gs (o'\<lparr>co_wasm := p\<rparr>) = expr_ok gs o'"
  by (simp add: expr_ok_def)

text \<open>What an operation may give: an error that is not undefined behaviour, or such a state.\<close>

definition expr_result :: "M3Global list \<Rightarrow> M3Compilation result \<Rightarrow> bool" where
  "expr_result gs r \<longleftrightarrow> (case r of Inl e \<Rightarrow> e \<noteq> C_undefined | Inr o' \<Rightarrow> expr_ok gs o')"

lemma AllocateSlots_expr:
  assumes "slotFirstDynamicIndex o' = 0"
  shows "AllocateSlots o' ty = Inl m3Err_functionStackOverflow
    \<or> (\<exists>j f a b. AllocateSlots o' ty = Inr (j, o'\<lparr>m3Slots := f, slotMaxAllocatedIndexPlusOne := a, maxStackSlots := b\<rparr>) \<and> unat j < 4000)"
proof (cases "FindFreeSlots o' (GetTypeNumSlots ty) (AlignSlotToType 0 ty) 4000")
  case None
  then show ?thesis using assms by (simp add: AllocateSlots_def AllocateSlotsWithinRange_def Let_def)
next
  case (Some j)
  have n: "unat (GetTypeNumSlots ty - 1) = num_slots ty - 1" by (simp add: GetTypeNumSlots_def)
  have "unat j + num_slots ty \<le> 4000" "unat j < 4000"
    using FindFreeSlots_Some [OF Some, unfolded n] num_slots_bounds(1) [of ty] by (simp_all, linarith+)
  then show ?thesis using MarkSlotsAllocated_aux [of j "num_slots ty" o'] Some assms
    by (fastforce simp: AllocateSlots_def AllocateSlotsWithinRange_def Let_def)
qed

lemma PushAllocatedSlotAndEmit_expr:
  assumes "slotFirstDynamicIndex o' = 0" "has_page o'" "slotFirstConstIndex o' = 0" "slotMaxConstIndex o' = 0" "depth (block o') = 0"
    and "\<And>s. runs_through gs (code o' @ [W_32 s])"
  shows "expr_result gs (PushAllocatedSlotAndEmit o' ty)"
  using AllocateSlots_expr [OF assms(1), of ty]
proof (elim disjE exE conjE)
  fix j f a b
  assume al: "AllocateSlots o' ty = Inr (j, o'\<lparr>m3Slots := f, slotMaxAllocatedIndexPlusOne := a, maxStackSlots := b\<rparr>)" and j: "unat j < 4000"
  have "\<not> IsRegisterSlotAlias j" using j by (simp add: IsRegisterSlotAlias_def word_le_nat_alt)
  then show ?thesis using al assms
    by (auto simp: PushAllocatedSlotAndEmit_def PushAllocatedSlotAndEmit_impl_def Push_eq expr_result_def expr_ok_def pushed_def
        emit_slot_def emit_word_def)
qed (simp add: PushAllocatedSlotAndEmit_def PushAllocatedSlotAndEmit_impl_def expr_result_def)

lemma emit_two_expr:
  assumes "expr_ok gs o'" "\<And>s. runs_through gs [W_op op, x, W_32 s]"
  shows "expr_result gs (tryR (emit_op pg o' op) (\<lambda>o'. PushAllocatedSlotAndEmit (emit_word o' x) ty))"
proof (cases "pg (requests o')")
  case True
  let ?o = "emit_word (o'\<lparr>requests := requests o' + 1\<rparr>) (W_op op)"
  have "runs_through gs (code (emit_word ?o x) @ [W_32 s])" for s
    using runs_through_append [of gs "code o'" "[W_op op, x, W_32 s]"] assms by (simp add: expr_ok_def emit_word_def)
  then have "expr_result gs (PushAllocatedSlotAndEmit (emit_word ?o x) ty)"
    using assms(1) by (intro PushAllocatedSlotAndEmit_expr) (simp_all add: expr_ok_def emit_word_def)
  then show ?thesis using True assms(1) by (simp add: emit_op_def expr_ok_def)
qed (use assms(1) in \<open>simp add: emit_op_def expr_ok_def expr_result_def\<close>)

lemma PushConst_expr:
  assumes "expr_ok gs o'"
  shows "expr_result gs (PushConst pg o' x ty)"
proof -
  have "PushConst pg o' x ty = PushInlineConst pg o' x ty"
    using assms AllocateConstantSlots_none [of o' ty] by (simp add: PushConst_def expr_ok_def Let_def find_const32_def)
  then show ?thesis unfolding PushInlineConst_def using assms by (auto intro: emit_two_expr runs_through_ops)
qed

text \<open>No reader is undefined.\<close>

lemma ReadLebUnsigned_loop_error: "fst (ReadLebUnsigned_loop w e k v sh p) \<noteq> Some C_undefined"
  by (induction w e k v sh p rule: ReadLebUnsigned_loop.induct) (subst ReadLebUnsigned_loop.simps, auto simp: Let_def)

lemma ReadLebSigned_loop_error: "fst (ReadLebSigned_loop w e k v sh p) \<noteq> Some C_undefined"
  by (induction w e k v sh p rule: ReadLebSigned_loop.induct) (subst ReadLebSigned_loop.simps, auto simp: Let_def)

lemma checked_error: "fst r \<noteq> Some C_undefined \<Longrightarrow> checked r \<noteq> Inl C_undefined"
  by (auto simp: checked_def split: prod.splits option.splits)

lemma readers_defined:
  "checked (ReadLEB_u32 w p e) \<noteq> Inl C_undefined" "checked (ReadLEB_i32 w p e) \<noteq> Inl C_undefined"
  "checked (ReadLEB_i64 w p e) \<noteq> Inl C_undefined" "Read_f32 w p e \<noteq> Inl C_undefined" "Read_f64 w p e \<noteq> Inl C_undefined"
  using ReadLebUnsigned_loop_error [of w e 32 0 0 p] ReadLebSigned_loop_error [of w e 32 0 0 p] ReadLebSigned_loop_error [of w e 64 0 0 p]
  by (auto intro!: checked_error simp: ReadLEB_u32_def ReadLEB_i32_def ReadLEB_i64_def ReadLebUnsigned_def ReadLebSigned_def
      Read_f32_def Read_f64_def Let_def split: prod.splits)

lemma expr_result_read:
  assumes "r \<noteq> Inl C_undefined" "\<And>v p. expr_result gs (f v p)"
  shows "expr_result gs (tryR r (\<lambda>(v, p). f v p))"
  using assms by (cases r) (auto simp: expr_result_def)

text \<open>An operation but the end keeps such a state; after the end the code runs to its end.\<close>

lemma compile_expr_op_expr:
  assumes "expr_ok (globals m) o'" "unat (numGlobals m) \<le> length (globals m)" "opcode \<noteq> 0x0b"
  shows "expr_result (globals m) (compile_expr_op pg m w opcode o')"
proof -
  have g: "expr_result (globals m) (Compile_GetSetGlobal pg m w o' 0x23)"
    unfolding Compile_GetSetGlobal_def
  proof (rule expr_result_read [OF readers_defined(1)])
    fix i :: u32 and p
    have "expr_result (globals m) (Compile_GetGlobal pg (o'\<lparr>co_wasm := p\<rparr>) (unat i) g)" if "unat i < length (globals m)" for g
      unfolding Compile_GetGlobal_def Let_def using that assms(1) by (intro emit_two_expr) (auto intro: runs_through_ops)
    moreover have "i < numGlobals m \<Longrightarrow> unat i < length (globals m)" using assms(2) by (simp add: word_less_nat_alt)
    ultimately show "expr_result (globals m) (let o' = o'\<lparr>co_wasm := p\<rparr> in
      if i < numGlobals m then
        if globals m \<noteq> [] then
          throwif C_undefined (length (globals m) \<le> unat i)
            (let global = globals m ! unat i in
             if (0x23 :: u16) = 0x23 then Compile_GetGlobal pg o' (unat i) global
             else Compile_SetGlobal pg o' (unat i) global)
        else Inl m3Err_globalMemoryNotAllocated
      else Inl m3Err_globaIndexOutOfBounds)"
      by (auto simp: Let_def throwif_def expr_result_def)
  qed
  have c: "expr_result (globals m) (Compile_Const_i32 pg w o')" "expr_result (globals m) (Compile_Const_i64 pg w o')"
    "expr_result (globals m) (Compile_Const_f32 pg w o')" "expr_result (globals m) (Compile_Const_f64 pg w o')"
    unfolding Compile_Const_i32_def Compile_Const_i64_def Compile_Const_f32_def Compile_Const_f64_def
    using assms(1) by (intro expr_result_read readers_defined PushConst_expr; simp)+
  show ?thesis using g c assms(3) by (simp add: compile_expr_op_def expr_result_def)
qed

lemma Compile_End_expr_runs:
  assumes "expr_ok gs o'"
  shows "case Compile_End_expr pg o' of Inl e \<Rightarrow> e \<noteq> C_undefined
    | Inr o'' \<Rightarrow> \<forall>st. \<exists>st'. RunCode_expr gs (code o'') st = Inr st'"
proof -
  have "\<exists>st'. RunCode_expr gs (code o' @ [W_op op_Return]) st = Inr st'" for st
  proof -
    obtain st' where "RunCode_expr gs (code o' @ [W_op op_Return]) st = RunCode_expr gs [W_op op_Return] st'"
      using assms by (auto simp: expr_ok_def runs_through_def)
    then show ?thesis by (simp add: RunCode_expr.simps [of gs "[W_op op_Return]"])
  qed
  then show ?thesis using assms by (simp add: Compile_End_expr_def emit_op_def emit_word_def expr_ok_def)
qed

lemma CompileBlockStatements_expr_runs:
  assumes "expr_ok (globals m) o'" "unat (numGlobals m) \<le> length (globals m)"
  shows "case CompileBlockStatements_expr pg m w o' of
      Inl e \<Rightarrow> e \<noteq> C_undefined
    | Inr o'' \<Rightarrow> \<forall>st. \<exists>st'. RunCode_expr (globals m) (code o'') st = Inr st'"
  using assms
proof (induction pg m w o' rule: CompileBlockStatements_expr.induct)
  case (1 pg m w o')
  show ?case
  proof (cases "co_wasm o' < co_wasmEnd o'")
    case lt: True
    let ?op = "ucast (w ! co_wasm o') :: u16" and ?p = "co_wasm o' + 1"
    have rd: "Read_opcode w (co_wasm o') (co_wasmEnd o') = Inr (?op, ?p)" using lt by (simp add: Read_opcode_def)
    have eq: "CompileBlockStatements_expr pg m w o' = tryR (compile_expr_op pg m w ?op (o'\<lparr>co_wasm := ?p\<rparr>)) (\<lambda>o'.
         if ?op = 0x0b then Inr o' else CompileBlockStatements_expr pg m w o')"
      using lt rd by (subst CompileBlockStatements_expr.simps) simp
    have ok: "expr_ok (globals m) (o'\<lparr>co_wasm := ?p\<rparr>)" using 1(2) by simp
    show ?thesis
    proof (cases "?op = 0x0b")
      case True
      have "compile_expr_op pg m w ?op (o'\<lparr>co_wasm := ?p\<rparr>) = Compile_End_expr pg (o'\<lparr>co_wasm := ?p\<rparr>)"
        unfolding True by (simp add: compile_expr_op_def)
      then show ?thesis unfolding eq using Compile_End_expr_runs [OF ok, of pg] True by (auto split: sum.splits)
    next
      case False
      note r = compile_expr_op_expr [OF ok 1(3) False, of pg w]
      show ?thesis
      proof (cases "compile_expr_op pg m w ?op (o'\<lparr>co_wasm := ?p\<rparr>)")
        case (Inl e)
        then show ?thesis unfolding eq using r by (simp add: expr_result_def)
      next
        case (Inr o1)
        then have "expr_ok (globals m) o1" using r by (simp add: expr_result_def)
        then show ?thesis unfolding eq using 1(1) [OF lt rd refl Inr False _ 1(3)] Inr False by simp
      qed
    qed
  qed (simp add: CompileBlockStatements_expr.simps)
qed

lemma CompileBlock_expr_no_result:
  "\<exists>o2 b. expr_start o2 \<and>
    CompileBlock_expr pg m w ((zero_compilation p e)\<lparr>has_page := True, block := (block (zero_compilation p e))\<lparr>depth := -1\<rparr>\<rparr>) []
      = tryR (CompileBlockStatements_expr pg m w o2) (\<lambda>o'. Inr (o'\<lparr>block := b, outer := tl (outer o')\<rparr>))"
  by (intro exI conjI, (rule refl | (simp add: CompileBlock_expr_def Let_def, rule refl))?)
    (simp_all add: CompileBlock_expr_def Let_def expr_start_def zero_compilation_def)

lemma CompileBlock_expr_result:
  "\<exists>o2 b. expr_start o2 \<and>
    CompileBlock_expr pg m w ((zero_compilation p e)\<lparr>has_page := True, block := (block (zero_compilation p e))\<lparr>depth := -1\<rparr>\<rparr>) [ty]
      = tryR (CompileBlockStatements_expr pg m w o2) (\<lambda>o'. Inr (o'\<lparr>block := b, outer := tl (outer o')\<rparr>))"
proof (cases "IsFpType ty")
  case True
  then have "ty \<in> {1, 2, 3, 4}" by (auto simp: IsFpType_def)
  then show ?thesis using CompileBlock_expr_start by blast
next
  case False
  let ?o = "(zero_compilation p e)\<lparr>has_page := True, block := (block (zero_compilation p e))\<lparr>depth := 0, sc_opcode := 2,
      exitStackIndex := 0\<rparr>, outer := [(block (zero_compilation p e))\<lparr>depth := -1\<rparr>]\<rparr>"
  have al: "AllocateSlots ?o ty = Inr (0, mark_first ?o ty)"
    by (rule AllocateSlots_first) (simp_all add: zero_compilation_def)
  have push: "PushAllocatedSlot ?o ty = Inr (pushed (mark_first ?o ty) ty 0)"
    using al by (simp add: PushAllocatedSlot_def PushAllocatedSlotAndEmit_impl_def Push_eq IsRegisterSlotAlias_def)
      (simp add: mark_first_def zero_compilation_def)
  let ?q = "(pushed (mark_first ?o ty) ty 0)\<lparr>stackIndex := 0, m3Slots := (\<lambda>_. 0)\<rparr>"
  have pop: "Pop (pushed (mark_first ?o ty) ty 0) = Inr ?q"
    by (rule Pop_first) (simp_all add: pushed_def mark_first_def zero_compilation_def)
  have n: "GetTypeNumSlots ty \<le> 2" by (simp add: GetTypeNumSlots_def)
  show ?thesis
    by (intro exI [of _ "?q\<lparr>stackIndex := 1, block := (block ?q)\<lparr>blockStackIndex := 1\<rparr>\<rparr>"] exI conjI)
      (use push pop False n in \<open>auto simp: CompileBlock_expr_def Let_def expr_start_def pushed_def mark_first_def zero_compilation_def\<close>)
qed

lemma EvaluateExpression_defined:
  assumes "unat (numGlobals m) \<le> length (globals m)"
  shows "EvaluateExpression page pg m w n st ty p e \<noteq> Inl C_undefined"
proof -
  let ?o = "(zero_compilation p e)\<lparr>has_page := True, block := (block (zero_compilation p e))\<lparr>depth := -1\<rparr>\<rparr>"
  let ?rets = "if ty = c_m3Type_none then [] else [ty]"
  obtain o2 b where o2: "expr_start o2" "CompileBlock_expr pg m w ?o ?rets
      = tryR (CompileBlockStatements_expr pg m w o2) (\<lambda>o'. Inr (o'\<lparr>block := b, outer := tl (outer o')\<rparr>))"
    using CompileBlock_expr_result [of pg m w p e ty] CompileBlock_expr_no_result [of pg m w p e] by (cases "ty = 0") auto
  have "expr_ok (globals m) o2" using o2(1) by (simp add: expr_ok_def expr_start_def)
  note r = CompileBlockStatements_expr_runs [OF this assms, of pg w]
  show ?thesis
  proof (cases "CompileBlockStatements_expr pg m w o2")
    case (Inl e)
    then show ?thesis using r o2(2) by (simp add: EvaluateExpression_def Let_def)
  next
    case (Inr o3)
    then obtain st' where "RunCode_expr (globals m) (code o3) st = Inr st'" using r by auto
    then show ?thesis using Inr o2(2) by (simp add: EvaluateExpression_def Let_def throwif_def)
  qed
qed

end
