(* ===== verification/M3_Env_Props.thy ===== *)
theory M3_Env_Props
  imports M3_Env M3_Expr_Props
begin

text \<open>
  Properties of runtimes: what loading a module leaves in memory, table and module list, how
  functions are found, and what a call passes to the interpreter and back.
\<close>

section \<open>Data segments\<close>

text \<open>The offset of a data segment, as some evaluation of its expression gave it.\<close>

definition segment_offset :: "allocator \<Rightarrow> u8 list \<Rightarrow> nat \<Rightarrow> M3Module \<Rightarrow> M3DataSegment \<Rightarrow> nat \<Rightarrow> bool" where
  "segment_offset al w n m d k \<longleftrightarrow> (\<exists>st v p st'. EvaluateExpression (al_page al (ds_initExpr d)) (al_page_ok al) m w n st
      c_m3Type_i32 (ds_initExpr d) (ds_initExpr d + unat (ds_initExprSize d)) = Inr (v, p, st') \<and> k = unat (ucast v :: u32))"

definition segment_bytes :: "u8 list \<Rightarrow> M3DataSegment \<Rightarrow> u8 list" where
  "segment_bytes w d = take (unat (ds_size d)) (drop (ds_data d) w)"

lemma sint_nonneg_unat: "0 \<le> sint (x :: u32) \<Longrightarrow> unat x < 2 ^ 31"
proof -
  assume "0 \<le> sint x"
  moreover have lt: "sint x < 2 ^ 31" using sint_less [of x] by simp
  ultimately have "take_bit 32 (sint x) = sint x" by (intro take_bit_int_eq_self) simp_all
  then have "uint x = sint x" using uint_sint [of x] by simp
  then have "int (unat x) < 2 ^ 31" using lt by simp
  then show ?thesis by (simp only: of_nat_less_numeral_power_cancel_iff)
qed

lemma InitDataSegment_step:
  assumes "InitDataSegment al w i (rt, m) = Inr s'" "mallocated (rt_memory rt) = Some h" "hdr_ok h"
  shows "\<exists>k st h'. s' = (rt\<lparr>rt_stack := st, rt_memory := (rt_memory rt)\<lparr>mallocated := Some h'\<rparr>\<rparr>, m)
    \<and> i < length (dataSegments m) \<and> segment_offset al w (rt_numStackSlots rt) m (dataSegments m ! i) k
    \<and> length (segment_bytes w (dataSegments m ! i)) = unat (ds_size (dataSegments m ! i))
    \<and> put_bytes h k (segment_bytes w (dataSegments m ! i)) = Inr h'"
  using assms
  by (auto simp: InitDataSegment_def segment_offset_def segment_bytes_def Let_def m3_result split: if_splits) blast

lemma InitDataSegments_from:
  assumes "each (InitDataSegment al w) is (rt, m) = Inr s'" "mallocated (rt_memory rt) = Some h" "hdr_ok h"
  shows "\<exists>ks rt' h'. s' = (rt', m) \<and> length ks = length is \<and> mallocated (rt_memory rt') = Some h'
    \<and> rt_numStackSlots rt' = rt_numStackSlots rt \<and> rt_modules rt' = rt_modules rt \<and> rt_memoryLimit rt' = rt_memoryLimit rt
    \<and> rt_memory rt' = (rt_memory rt)\<lparr>mallocated := Some h'\<rparr>
    \<and> (\<forall>j < length is. is ! j < length (dataSegments m) \<and> segment_offset al w (rt_numStackSlots rt) m (dataSegments m ! (is ! j)) (ks ! j)
        \<and> length (segment_bytes w (dataSegments m ! (is ! j))) = unat (ds_size (dataSegments m ! (is ! j))))
    \<and> linear.puts h (zip ks (map (\<lambda>i. segment_bytes w (dataSegments m ! i)) is)) = Inr h'"
  using assms
proof (induction "is" arbitrary: rt h)
  case Nil
  then show ?case by auto
next
  case (Cons i "is")
  obtain s1 where s1: "InitDataSegment al w i (rt, m) = Inr s1" "each (InitDataSegment al w) is s1 = Inr s'"
    using Cons.prems(1) by (auto simp: m3_result)
  obtain k st h1 where k: "s1 = (rt\<lparr>rt_stack := st, rt_memory := (rt_memory rt)\<lparr>mallocated := Some h1\<rparr>\<rparr>, m)"
    "i < length (dataSegments m)" "segment_offset al w (rt_numStackSlots rt) m (dataSegments m ! i) k"
    "length (segment_bytes w (dataSegments m ! i)) = unat (ds_size (dataSegments m ! i))"
    "put_bytes h k (segment_bytes w (dataSegments m ! i)) = Inr h1"
    using InitDataSegment_step [OF s1(1) Cons.prems(2,3)] by blast
  let ?rt = "rt\<lparr>rt_stack := st, rt_memory := (rt_memory rt)\<lparr>mallocated := Some h1\<rparr>\<rparr>"
  have h1: "hdr_ok h1" using linear.put_keeps [OF Cons.prems(3) k(5)] by simp
  have m1: "mallocated (rt_memory ?rt) = Some h1" by simp
  obtain ks rt' h' where IH: "s' = (rt', m)" "length ks = length is" "mallocated (rt_memory rt') = Some h'"
    "rt_numStackSlots rt' = rt_numStackSlots ?rt" "rt_modules rt' = rt_modules ?rt" "rt_memoryLimit rt' = rt_memoryLimit ?rt"
    "rt_memory rt' = (rt_memory ?rt)\<lparr>mallocated := Some h'\<rparr>"
    "\<forall>j < length is. is ! j < length (dataSegments m) \<and> segment_offset al w (rt_numStackSlots ?rt) m (dataSegments m ! (is ! j)) (ks ! j)
        \<and> length (segment_bytes w (dataSegments m ! (is ! j))) = unat (ds_size (dataSegments m ! (is ! j)))"
    "linear.puts h1 (zip ks (map (\<lambda>i. segment_bytes w (dataSegments m ! i)) is)) = Inr h'"
    using Cons.IH [OF _ m1 h1] s1(2) k(1) by blast
  show ?case
  proof (intro exI [of _ "k # ks"] exI [of _ rt'] exI [of _ h'] conjI)
    show "\<forall>j < length (i # is). (i # is) ! j < length (dataSegments m)
      \<and> segment_offset al w (rt_numStackSlots rt) m (dataSegments m ! ((i # is) ! j)) ((k # ks) ! j)
      \<and> length (segment_bytes w (dataSegments m ! ((i # is) ! j))) = unat (ds_size (dataSegments m ! ((i # is) ! j)))"
      using IH(8) k(2-4) by (auto simp: nth_Cons split: nat.splits)
  qed (use IH k(5) in simp_all)
qed

lemma InitDataSegments_loaded:
  assumes "InitDataSegments al w (rt, m) = Inr (rt', m')" "mallocated (rt_memory rt) = Some h" "hdr_ok h"
    "length (dataSegments m) = unat (numDataSegments m)"
  shows "\<exists>ks h'. m' = m \<and> length ks = length (dataSegments m)
    \<and> rt_memory rt' = (rt_memory rt)\<lparr>mallocated := Some h'\<rparr> \<and> hdr_ok h' \<and> mh_length h' = mh_length h
    \<and> (\<forall>j < length ks. segment_offset al w (rt_numStackSlots rt) m (dataSegments m ! j) (ks ! j)
        \<and> ks ! j + unat (ds_size (dataSegments m ! j)) \<le> unat (mh_length h))
    \<and> (\<forall>i < unat (mh_length h). mh_data h' ! i = last_cover (zip ks (map (segment_bytes w) (dataSegments m))) i (mh_data h ! i))
    \<and> rt_modules rt' = rt_modules rt \<and> rt_memoryLimit rt' = rt_memoryLimit rt"
proof -
  let ?is = "[0 ..< length (dataSegments m)]"
  have e: "each (InitDataSegment al w) ?is (rt, m) = Inr (rt', m')"
    using assms(1,4) by (simp add: InitDataSegments_def m3_result)
  obtain ks rt1 h' where r: "(rt', m') = (rt1, m)" "length ks = length ?is" "rt_modules rt1 = rt_modules rt" "rt_memoryLimit rt1 = rt_memoryLimit rt"
    "rt_memory rt1 = (rt_memory rt)\<lparr>mallocated := Some h'\<rparr>"
    "\<forall>j < length ?is. ?is ! j < length (dataSegments m) \<and> segment_offset al w (rt_numStackSlots rt) m (dataSegments m ! (?is ! j)) (ks ! j)
        \<and> length (segment_bytes w (dataSegments m ! (?is ! j))) = unat (ds_size (dataSegments m ! (?is ! j)))"
    "linear.puts h (zip ks (map (\<lambda>i. segment_bytes w (dataSegments m ! i)) ?is)) = Inr h'"
    using InitDataSegments_from [OF e assms(2,3)] by blast
  have map: "map (\<lambda>i. segment_bytes w (dataSegments m ! i)) ?is = map (segment_bytes w) (dataSegments m)"
    by (rule nth_equalityI) simp_all
  let ?ps = "zip ks (map (segment_bytes w) (dataSegments m))"
  have puts: "linear.puts h ?ps = Inr h'" using r(7) unfolding map .
  have keep: "hdr_ok h' \<and> mh_length h' = mh_length h" using linear.puts_keeps [OF assms(3) puts] by (simp add: word_unat_eq_iff)
  have fit: "ks ! j + unat (ds_size (dataSegments m ! j)) \<le> unat (mh_length h)" if "j < length ks" for j
  proof -
    have "(ks ! j, segment_bytes w (dataSegments m ! j)) \<in> set ?ps" using that r(2) by (auto simp: set_zip)
    moreover have "length (segment_bytes w (dataSegments m ! j)) = unat (ds_size (dataSegments m ! j))"
      using r(6) that r(2) by fastforce
    ultimately show ?thesis using linear.puts_fits [OF assms(3), of ?ps] puts by fastforce
  qed
  have at: "\<forall>i < unat (mh_length h). mh_data h' ! i = last_cover ?ps i (mh_data h ! i)"
    using linear.puts_at [OF assms(3) puts] by simp
  show ?thesis
    using r keep fit at by (intro exI [of _ ks] exI [of _ h']) auto
qed

text \<open>C16: The data segments of a module are in memory after loading them, as WebAssembly orders them:
  every segment's offset, evaluated from its expression, and size lie inside the memory, every
  byte that segments cover is that of the last segment covering it, every other byte is as it was,
  and the size of the memory and the module are unchanged.\<close>

theorem data_segments_loaded:
  assumes "InitDataSegments al w (rt, m) = Inr (rt', m')" "mallocated (rt_memory rt) = Some h" "hdr_ok h"
    "length (dataSegments m) = unat (numDataSegments m)"
  shows "\<exists>ks h'. m' = m \<and> length ks = length (dataSegments m)
    \<and> rt_memory rt' = (rt_memory rt)\<lparr>mallocated := Some h'\<rparr> \<and> mh_length h' = mh_length h
    \<and> (\<forall>j < length ks. segment_offset al w (rt_numStackSlots rt) m (dataSegments m ! j) (ks ! j)
        \<and> ks ! j + unat (ds_size (dataSegments m ! j)) \<le> unat (mh_length h))
    \<and> (\<forall>i < unat (mh_length h). mh_data h' ! i = last_cover (zip ks (map (segment_bytes w) (dataSegments m))) i (mh_data h ! i))"
  using InitDataSegments_loaded [OF assms] by blast

section \<open>Elements\<close>

definition table_ok :: "M3Module \<Rightarrow> bool" where
  "table_ok m \<longleftrightarrow> length (table0 m) = unat (table0Size m) \<and> length (table0 m) \<le> 10000000
     \<and> (\<forall>f. Some f \<in> set (table0 m) \<longrightarrow> f < unat (numFunctions m))"

text \<open>What loading elements may change of a module.\<close>

definition same_functions :: "M3Module \<Rightarrow> M3Module \<Rightarrow> bool" where
  "same_functions m m' \<longleftrightarrow> m' = m\<lparr>table0 := table0 m', table0Size := table0Size m'\<rparr>"

lemma same_functions_refl [simp]: "same_functions m m"
  by (simp add: same_functions_def)

lemma same_functions_trans: "same_functions m m1 \<Longrightarrow> same_functions m1 m2 \<Longrightarrow> same_functions m m2"
  unfolding same_functions_def by (cases m; cases m1; cases m2) simp


lemma Element_entry_ok:
  assumes "Element_entry w ((rt, m), k) p e = Inr (s, q)" "table_ok m"
  shows "\<exists>m'. s = ((rt, m'), k + 1) \<and> table_ok m' \<and> same_functions m m' \<and> length (table0 m') = length (table0 m)
    \<and> table0 m' \<noteq> [] \<and> k < length (table0 m)"
proof -
  obtain f where f: "\<not> f \<ge> numFunctions m" "k < length (table0 m)" "s = ((rt, m\<lparr>table0 := (table0 m)[k := Some (unat f)]\<rparr>), k + 1)"
    using assms(1) by (auto simp: Element_entry_def m3_result)
  then have "unat f < unat (numFunctions m)" by (simp add: word_le_nat_alt)
  then have "table_ok (m\<lparr>table0 := (table0 m)[k := Some (unat f)]\<rparr>)"
    using assms(2) set_update_subset_insert [of "table0 m" k "Some (unat f)"] by (auto simp: table_ok_def)
  then show ?thesis using f by (auto simp: same_functions_def)
qed

lemma Element_entries_ok:
  assumes "step_many Element_entry n w ((rt, m), k) p e = Inr (s, q)" "table_ok m"
  shows "\<exists>m'. s = ((rt, m'), k + n) \<and> table_ok m' \<and> same_functions m m' \<and> length (table0 m') = length (table0 m)"
  using assms
proof (induction n arbitrary: m k p)
  case (Suc n)
  obtain s1 p1 where 1: "Element_entry w ((rt, m), k) p e = Inr (s1, p1)" "step_many Element_entry n w s1 p1 e = Inr (s, q)"
    using Suc.prems(1) by (auto simp: m3_result)
  obtain m1 where m1: "s1 = ((rt, m1), k + 1)" "table_ok m1" "same_functions m m1" "length (table0 m1) = length (table0 m)"
    using Element_entry_ok [OF 1(1) Suc.prems(2)] by blast
  show ?case using Suc.IH [of m1 "k + 1" p1] 1(2) m1 same_functions_trans [OF m1(3)] by fastforce
qed (use same_functions_refl in auto)

lemma grow_table_ok:
  assumes "table_ok m" "n \<le> 10000000" "table0 (grow_table al n m) \<noteq> []"
  shows "table_ok (grow_table al n m) \<and> same_functions m (grow_table al n m) \<and> n \<le> length (table0 (grow_table al n m))"
proof (cases "n > unat (table0Size m)")
  case True
  then obtain t where t: "m3_ReallocArray (al_calloc al) 8 None (table0 m) n (unat (table0Size m)) = Some t"
    using assms(3) by (auto simp: grow_table_def split: option.splits)
  then have "t = table0 m @ replicate (n - length (table0 m)) None"
    using assms(1) True by (auto simp: m3_ReallocArray_def table_ok_def split: if_splits)
  moreover have "unat (of_nat n :: u32) = n" using assms(2) by (intro unat_of_nat32) simp
  ultimately show ?thesis using True t assms(1,2) by (auto simp: grow_table_def table_ok_def same_functions_def)
next
  case False
  then show ?thesis using assms(1) by (simp add: grow_table_def table_ok_def)
qed

lemma Element_segment_ok:
  assumes "Element_segment al w (rt, m) p e = Inr (s, q)" "table_ok m"
  shows "\<exists>st m'. s = (rt\<lparr>rt_stack := st\<rparr>, m') \<and> table_ok m' \<and> same_functions m m'"
proof -
  obtain v :: u64 and st p1 n k1 where r: "unat n + unat (ucast v :: u32) \<le> 10000000" "table0 (grow_table al (unat n + unat (ucast v :: u32)) m) \<noteq> []"
    and r3: "step_many Element_entry (unat (n :: u32)) w ((rt\<lparr>rt_stack := st\<rparr>, grow_table al (unat n + unat (ucast v :: u32)) m), unat (ucast v :: u32)) p1 e
      = Inr ((s, k1), q)"
    using assms(1) by (cases s) (auto simp: Element_segment_def m3_result Let_def not_less split: if_splits)
  note g = grow_table_ok [OF assms(2) r(1,2)]
  from Element_entries_ok [OF r3 conjunct1 [OF g]] g same_functions_trans show ?thesis by fastforce
qed

lemma InitElements_ok:
  assumes "InitElements al w (rt, m) = Inr (rt', m')" "table_ok m"
  shows "table_ok m' \<and> same_functions m m' \<and> (\<exists>st. rt' = rt\<lparr>rt_stack := st\<rparr>)"
proof -
  have many: "step_many (Element_segment al) n w (rt, m) p e = Inr (s, q) \<Longrightarrow> table_ok m \<Longrightarrow>
      \<exists>st m'. s = (rt\<lparr>rt_stack := st\<rparr>, m') \<and> table_ok m' \<and> same_functions m m'" for n rt m p e s q
  proof (induction n arbitrary: rt m p)
    case 0
    then show ?case by (auto intro!: exI [of _ "rt_stack rt"])
  next
    case (Suc n)
    obtain s1 p1 where 1: "Element_segment al w (rt, m) p e = Inr (s1, p1)" "step_many (Element_segment al) n w s1 p1 e = Inr (s, q)"
      using Suc.prems(1) by (auto simp: m3_result)
    obtain st1 m1 where m1: "s1 = (rt\<lparr>rt_stack := st1\<rparr>, m1)" "table_ok m1" "same_functions m m1"
      using Element_segment_ok [OF 1(1) Suc.prems(2)] by blast
    show ?case using Suc.IH [of "rt\<lparr>rt_stack := st1\<rparr>" m1 p1] 1(2) m1 same_functions_trans [OF m1(3)] by fastforce
  qed
  obtain q where "step_many (Element_segment al) (unat (numElementSegments m)) w (rt, m) (elementSection m) (elementSectionEnd m) = Inr ((rt', m'), q)"
    using assms(1) by (auto simp: InitElements_def m3_result)
  from many [OF this assms(2)] show ?thesis by auto
qed


section \<open>Loading\<close>

lemma InitMemory_ok:
  assumes "InitMemory al rt m = (None, rt')" "mallocated (rt_memory rt) = None" "numPages (rt_memory rt) = 0" "\<not> memoryImported m"
  shows "mem_ok (rt_memoryLimit rt) (rt_memory rt') \<and> mallocated (rt_memory rt') \<noteq> None \<and> numPages (rt_memory rt') = initPages (memoryInfo m)
    \<and> rt_modules rt' = rt_modules rt \<and> rt_memoryLimit rt' = rt_memoryLimit rt"
proof -
  let ?mem = "(rt_memory rt)\<lparr>maxPages := (if mi_maxPages (memoryInfo m) \<noteq> 0 then mi_maxPages (memoryInfo m) else 65536),
      pageSize := (if mi_pageSize (memoryInfo m) \<noteq> 0 then mi_pageSize (memoryInfo m) else d_m3DefaultMemPageSize)\<rparr>"
  have ok: "mem_ok (rt_memoryLimit rt) ?mem" using assms(2,3) by (simp add: mem_ok_def)
  obtain r mem' where r: "ResizeMemory (al_realloc al) (rt_memoryLimit rt) ?mem (initPages (memoryInfo m)) = (r, mem')" by fastforce
  have "r = None" "rt' = rt\<lparr>rt_memory := mem'\<rparr>" using assms(1,4) r by (simp_all add: InitMemory_def Let_def split: prod.splits)
  then show ?thesis using ResizeMemory_ok [OF ok r] by simp
qed

lemma InitGlobals_keeps:
  assumes "each (InitGlobal al w) is (rt, m) = Inr (rt', m')"
  shows "(\<exists>st. rt' = rt\<lparr>rt_stack := st\<rparr>) \<and> (\<exists>gs. m' = m\<lparr>globals := gs\<rparr> \<and> length gs = length (globals m))"
  using assms
proof (induction "is" arbitrary: rt m)
  case Nil
  then show ?case by (auto intro!: exI [of _ "rt_stack rt"] exI [of _ "globals m"])
next
  case (Cons i "is")
  obtain rt1 m1 where 1: "InitGlobal al w i (rt, m) = Inr (rt1, m1)" "each (InitGlobal al w) is (rt1, m1) = Inr (rt', m')"
    using Cons.prems by (auto simp: m3_result)
  have "(\<exists>st. rt1 = rt\<lparr>rt_stack := st\<rparr>) \<and> (\<exists>gs. m1 = m\<lparr>globals := gs\<rparr> \<and> length gs = length (globals m))"
  proof (cases "gl_initExpr (globals m ! i)")
    case None
    then have "rt1 = rt\<lparr>rt_stack := rt_stack rt\<rparr>" "m1 = m\<lparr>globals := globals m\<rparr>"
      using 1(1) by (simp_all add: InitGlobal_def Let_def split: if_splits)
    then show ?thesis by blast
  next
    case (Some start)
    then show ?thesis using 1(1) by (auto simp: InitGlobal_def Let_def m3_result split: if_splits)
  qed
  with Cons.IH [OF 1(2)] show ?case by auto
qed

text \<open>A failed step reports an error of the interpreter and has linked nothing.\<close>

definition fails_well :: "M3Module list \<Rightarrow> (m3_error \<times> load_state) + 'a \<Rightarrow> bool" where
  "fails_well ms r \<longleftrightarrow> (\<forall>e s. r = Inl (e, s) \<longrightarrow> e \<noteq> C_undefined \<and> rt_modules (fst s) = ms)"

lemma fails_well_intros:
  "fails_well ms (Inr x)"
  "e \<noteq> C_undefined \<Longrightarrow> rt_modules (fst s) = ms \<Longrightarrow> fails_well ms (Inl (e, s))"
  "fails_well ms r \<Longrightarrow> (\<And>x. r = Inr x \<Longrightarrow> fails_well ms (f x)) \<Longrightarrow> fails_well ms (tryR r f)"
  "v \<noteq> Inl C_undefined \<Longrightarrow> rt_modules (fst s) = ms \<Longrightarrow> fails_well ms (at_state s v)"
  "(c \<Longrightarrow> e \<noteq> C_undefined \<and> rt_modules (fst s) = ms) \<Longrightarrow> (\<not> c \<Longrightarrow> fails_well ms k) \<Longrightarrow> fails_well ms (throwif (e, s) c k)"
  by (auto simp: fails_well_def throwif_def at_state_def split: sum.splits)
    (cases r; metis Inl_inject fst_conv tryR.simps)+

lemma InitMemory_fails:
  assumes "InitMemory al rt m = (r, rt')"
  shows "r \<noteq> Some C_undefined \<and> rt_modules rt' = rt_modules rt"
  using assms by (auto simp: InitMemory_def Let_def ResizeMemory_eq split: if_splits option.splits)

lemma InitGlobals_fails:
  assumes "unat (numGlobals m) \<le> length (globals m)" "\<forall>i \<in> set is. i < length (globals m)"
  shows "fails_well (rt_modules rt) (each (InitGlobal al w) is (rt, m))"
  using assms
proof (induction "is" arbitrary: rt m)
  case (Cons i "is")
  have i: "i < length (globals m)" using Cons.prems(2) by simp
  have "fails_well (rt_modules rt) (InitGlobal al w i (rt, m))"
    using i Cons.prems(1) by (auto simp: InitGlobal_def Let_def intro!: fails_well_intros EvaluateExpression_defined split: option.split)
  moreover have "fails_well (rt_modules rt) (each (InitGlobal al w) is s)" if s: "InitGlobal al w i (rt, m) = Inr s" for s
  proof -
    have "each (InitGlobal al w) [i] (rt, m) = Inr (fst s, snd s)" using s by simp
    from InitGlobals_keeps [OF this] obtain st gs where g: "fst s = rt\<lparr>rt_stack := st\<rparr>" "snd s = m\<lparr>globals := gs\<rparr>" "length gs = length (globals m)"
      by blast
    then have "s = (rt\<lparr>rt_stack := st\<rparr>, m\<lparr>globals := gs\<rparr>)" by (cases s) simp
    then show ?thesis using Cons.IH [of "m\<lparr>globals := gs\<rparr>" "rt\<lparr>rt_stack := st\<rparr>"] Cons.prems g(3) by simp
  qed
  ultimately show ?case by (auto intro: fails_well_intros)
qed (simp add: fails_well_intros)

lemma InitDataSegments_fails:
  assumes "unat (numGlobals m) \<le> length (globals m)" "\<forall>i \<in> set is. i < length (dataSegments m)"
    and "\<forall>d \<in> set (dataSegments m). ds_data d + unat (ds_size d) \<le> length w"
    and "mallocated (rt_memory rt) = Some h" "hdr_ok h"
  shows "fails_well (rt_modules rt) (each (InitDataSegment al w) is (rt, m))"
  using assms(2,4,5)
proof (induction "is" arbitrary: rt h)
  case (Cons i "is")
  have i: "i < length (dataSegments m)" using Cons.prems(1) by simp
  let ?d = "dataSegments m ! i"
  have d: "ds_data ?d + unat (ds_size ?d) \<le> length w" using assms(3) i by simp
  have put: "put_bytes h (unat v) (take (unat (ds_size ?d)) (drop (ds_data ?d) w)) \<noteq> Inl C_undefined"
    if "0 \<le> sint v" "(ucast v :: u64) + ucast (ds_size ?d) \<le> mh_length h" for v :: u32
  proof -
    have "unat ((ucast v :: u64) + ucast (ds_size ?d)) = unat v + unat (ds_size ?d)"
      using unat_lt32 [of v] unat_lt32 [of "ds_size ?d"] by (subst unat_add_small) simp_all
    then have "unat v + unat (ds_size ?d) \<le> unat (mh_length h)" using that(2) by (simp add: word_le_nat_alt)
    then show ?thesis using linear.put_fits [OF Cons.prems(3), of "unat v" "take (unat (ds_size ?d)) (drop (ds_data ?d) w)"] d by auto
  qed
  have "fails_well (rt_modules rt) (InitDataSegment al w i (rt, m))"
    using i d put Cons.prems(2)
    by (auto simp: InitDataSegment_def Let_def intro!: fails_well_intros EvaluateExpression_defined assms(1))
  moreover have "fails_well (rt_modules rt) (each (InitDataSegment al w) is s)" if s: "InitDataSegment al w i (rt, m) = Inr s" for s
  proof -
    obtain k st h' where k: "s = (rt\<lparr>rt_stack := st, rt_memory := (rt_memory rt)\<lparr>mallocated := Some h'\<rparr>\<rparr>, m)"
      "put_bytes h k (segment_bytes w (dataSegments m ! i)) = Inr h'"
      using InitDataSegment_step [OF s Cons.prems(2,3)] by blast
    have "hdr_ok h'" using linear.put_keeps [OF Cons.prems(3) k(2)] by simp
    then show ?thesis using Cons.IH [of "fst s" h'] Cons.prems(1) k(1) by simp
  qed
  ultimately show ?case by (auto intro: fails_well_intros)
qed (simp add: fails_well_intros)

lemma Element_entries_fail:
  assumes "table_ok m" "k + n \<le> length (table0 m)"
  shows "fails_well (rt_modules rt) (step_many Element_entry n w ((rt, m), k) p e)"
  using assms
proof (induction n arbitrary: m k p)
  case (Suc n)
  have "fails_well (rt_modules rt) (Element_entry w ((rt, m), k) p e)"
    using Suc.prems(2) by (auto simp: Element_entry_def Let_def intro!: fails_well_intros readers_defined)
  moreover have "fails_well (rt_modules rt) (step_many Element_entry n w s q e)" if s: "Element_entry w ((rt, m), k) p e = Inr (s, q)" for s q
  proof -
    obtain m' where "s = ((rt, m'), k + 1)" "table_ok m'" "length (table0 m') = length (table0 m)"
      using Element_entry_ok [OF s Suc.prems(1)] by blast
    then show ?thesis using Suc.IH [of m' "k + 1" q] Suc.prems(2) by simp
  qed
  ultimately show ?case by (auto intro!: fails_well_intros)
qed (simp add: fails_well_intros)

lemma Element_segment_fails:
  assumes "unat (numGlobals m) \<le> length (globals m)" "table_ok m"
  shows "fails_well (rt_modules rt) (Element_segment al w (rt, m) p e)"
proof -
  have "fails_well (rt_modules rt) (step_many Element_entry (unat n) w ((rt\<lparr>rt_stack := st\<rparr>, grow_table al (unat n + unat v) m), unat v) q e)"
    if "\<not> unat n + unat v > 10000000" "table0 (grow_table al (unat n + unat v) m) \<noteq> []" for n v :: u32 and q st
    using Element_entries_fail [of "grow_table al (unat n + unat v) m" "unat v" "unat n" "rt\<lparr>rt_stack := st\<rparr>" w q e]
      grow_table_ok [OF assms(2), of "unat n + unat v" al] that by simp
  then show ?thesis
    using assms(1) by (auto simp: Element_segment_def Let_def intro!: fails_well_intros readers_defined EvaluateExpression_defined)
qed

lemma InitElements_fails:
  assumes "unat (numGlobals m) \<le> length (globals m)" "table_ok m"
  shows "fails_well (rt_modules rt) (InitElements al w (rt, m))"
proof -
  have "fails_well (rt_modules rt) (step_many (Element_segment al) n w (rt, m) p e)" for n p e
    using assms
  proof (induction n arbitrary: rt m p)
    case (Suc n)
    have "fails_well (rt_modules rt) (step_many (Element_segment al) n w s q e)" if s: "Element_segment al w (rt, m) p e = Inr (s, q)" for s q
    proof -
      obtain st m' where m': "s = (rt\<lparr>rt_stack := st\<rparr>, m')" "table_ok m'" "same_functions m m'"
        using Element_segment_ok [OF s Suc.prems(2)] by blast
      have "numGlobals m' = numGlobals m" "globals m' = globals m"
        using arg_cong [OF m'(3) [unfolded same_functions_def], of numGlobals] arg_cong [OF m'(3) [unfolded same_functions_def], of globals]
        by simp_all
      then show ?thesis using Suc.IH [of m' "rt\<lparr>rt_stack := st\<rparr>" q] Suc.prems(1) m' by simp
    qed
    then show ?case using Element_segment_fails [OF Suc.prems] by (auto intro!: fails_well_intros)
  qed (simp add: fails_well_intros)
  then show ?thesis by (auto simp: InitElements_def intro!: fails_well_intros)
qed

text \<open>What a module must be like to be loaded; parsing gives such modules.\<close>

definition loadable :: "u8 list \<Rightarrow> M3Module \<Rightarrow> bool" where
  "loadable w m \<longleftrightarrow> \<not> has_runtime m \<and> table_ok m \<and> length (globals m) = unat (numGlobals m)
     \<and> length (dataSegments m) = unat (numDataSegments m)
     \<and> (\<forall>d \<in> set (dataSegments m). ds_data d + unat (ds_size d) \<le> length w)"


definition generous :: allocator where
  "generous = \<lparr>al_realloc = (\<lambda>_. True), al_calloc = (\<lambda>_. True), al_page = (\<lambda>_. True), al_page_ok = (\<lambda>_. True)\<rparr>"

definition fresh_runtime :: M3Runtime where
  "fresh_runtime = \<lparr>rt_memory = zero_memory, rt_memoryLimit = 0, rt_modules = [], rt_stack = (\<lambda>_. 0), rt_numStackSlots = 16, rt_lastCalled = None\<rparr>"


text \<open>A module with one data segment, the two bytes behind the offset expression \<^verbatim>\<open>i32.const 5\<close>.\<close>

definition data_module :: M3Module where
  "data_module = zero_module\<lparr>numDataSegments := 1, dataSegments := [zero_segment\<lparr>ds_initExprSize := 3, ds_data := 3, ds_size := 2\<rparr>]\<rparr>"

definition memory_of :: "nat \<Rightarrow> M3Runtime" where
  "memory_of n = fresh_runtime\<lparr>rt_memory := zero_memory\<lparr>mallocated := Some \<lparr>mh_length = of_nat n, mh_data = replicate n 0\<rparr>\<rparr>\<rparr>"

theorem data_segments_loaded_witness:
  "\<exists>rt' m' ks h'. InitDataSegments generous [0x41, 5, 0x0b, 7, 8] (memory_of 8, data_module) = Inr (rt', m')
    \<and> mallocated (rt_memory rt') = Some h' \<and> mh_data h' ! 0 = last_cover (zip ks [[7, 8]]) 0 0"
proof -
  let ?w = "[0x41, 5, 0x0b, 7, 8] :: u8 list"
  let ?h = "\<lparr>mh_length = 8, mh_data = replicate 8 (0 :: u8)\<rparr>"
  have rep: "replicate 8 (0 :: u8) = [0, 0, 0, 0, 0, 0, 0, 0]" by code_simp
  have rd: "ReadLEB_i32 ?w (Suc 0) 3 = (None, 5, 2)"
    using ReadLEB_i32_decode [of 5 "[0x41]" 3 "[0x0b, 7, 8]"] by (simp add: sleb.simps)
  have "EvaluateExpression True (\<lambda>_. True) data_module ?w 16 (\<lambda>_. 0) 1 0 3
    = (if Is64BitType 1 then Inr (5, 2 + 1, put64 (\<lambda>_. 0) 0 5) else Inr (ucast (ucast (5 :: u64) :: u32), 2 + 1, (\<lambda>_. 0)(0 := ucast (5 :: u64))))"
    by (rule Evaluate_const [where b = "0x41"]) (auto simp: compile_expr_op_def Compile_Const_i32_def checked_def rd)
  then have ev: "EvaluateExpression True (\<lambda>_. True) data_module ?w 16 (\<lambda>_. 0) 1 0 3 = Inr (5, 3, (\<lambda>_. 0)(0 := 5))" by simp
  have "sint (5 :: u32) = 5" by (simp add: sint_uint signed_take_bit_eq_if_positive)
  then have "InitDataSegment generous ?w 0 (memory_of 8, data_module)
      = Inr ((memory_of 8)\<lparr>rt_stack := (\<lambda>_. 0)(0 := 5),
              rt_memory := (rt_memory (memory_of 8))\<lparr>mallocated := Some (?h\<lparr>mh_data := [0, 0, 0, 0, 0, 7, 8, 0]\<rparr>)\<rparr>\<rparr>, data_module)"
    using ev by (simp add: InitDataSegment_def data_module_def memory_of_def fresh_runtime_def generous_def zero_memory_def zero_segment_def
        put_bytes_def mem_write_def rep Let_def at_state_def)
  then have l: "InitDataSegments generous ?w (memory_of 8, data_module)
      = Inr ((memory_of 8)\<lparr>rt_stack := (\<lambda>_. 0)(0 := 5),
              rt_memory := (rt_memory (memory_of 8))\<lparr>mallocated := Some (?h\<lparr>mh_data := [0, 0, 0, 0, 0, 7, 8, 0]\<rparr>)\<rparr>\<rparr>, data_module)"
    by (simp add: InitDataSegments_def data_module_def memory_of_def)
  have m: "mallocated (rt_memory (memory_of 8)) = Some ?h" by (simp add: memory_of_def)
  have ok: "hdr_ok ?h" by (simp add: hdr_ok_def)
  have len: "length (dataSegments data_module) = unat (numDataSegments data_module)" by (simp add: data_module_def)
  let ?m = "(rt_memory (memory_of 8))\<lparr>mallocated := Some (?h\<lparr>mh_data := [0, 0, 0, 0, 0, 7, 8, 0]\<rparr>)\<rparr>"
  obtain ks h' where k: "rt_memory ((memory_of 8)\<lparr>rt_stack := (\<lambda>_. 0)(0 := 5), rt_memory := ?m\<rparr>) = (rt_memory (memory_of 8))\<lparr>mallocated := Some h'\<rparr>"
    "\<forall>i < unat (mh_length ?h). mh_data h' ! i = last_cover (zip ks (map (segment_bytes ?w) (dataSegments data_module))) i (mh_data ?h ! i)"
    using data_segments_loaded [OF l m ok len] by blast
  have "mallocated ?m = Some h'" using arg_cong [OF k(1), of mallocated] by simp
  moreover have "mh_data h' ! 0 = last_cover (zip ks (map (segment_bytes ?w) (dataSegments data_module))) 0 0" using k(2) by simp
  moreover have "map (segment_bytes ?w) (dataSegments data_module) = [[7, 8]]"
    by (simp add: data_module_def segment_bytes_def zero_segment_def)
  ultimately show ?thesis using l by auto
qed

end
