(* ===== verification/M3_Env_Calls.thy ===== *)
theory M3_Env_Calls
  imports M3_Env_Props
begin

text \<open>
  Properties of runtimes, continued: how a function is found by its name, what a call passes to the
  interpreter, what the results are read from, and a second module loaded into one runtime.
\<close>

section \<open>Lookup\<close>

lemma find_index_Some: "find_index P xs = Some i \<Longrightarrow> i < length xs \<and> P (xs ! i) \<and> (\<forall>j < i. \<not> P (xs ! j))"
  by (auto simp: find_index_def find_Some_iff)

lemma find_index_None: "find_index P xs = None \<longleftrightarrow> (\<forall>x \<in> set xs. \<not> P x)"
  by (auto simp: find_index_def find_None_iff) (auto simp: in_set_conv_nth)

text \<open>The functions of a module that its count says it has, and the ways one answers to a name.\<close>

definition functions_of :: "M3Module \<Rightarrow> M3Function list" where
  "functions_of m = take (unat (numFunctions m)) (m_functions m)"

definition exported_as :: "u8 list \<Rightarrow> M3Function \<Rightarrow> bool" where
  "exported_as name f \<longleftrightarrow> named name (export_name f)"

definition defined_as :: "u8 list \<Rightarrow> M3Function \<Rightarrow> bool" where
  "defined_as name f \<longleftrightarrow> moduleUtf8 (fn_import f) = None \<and> fieldUtf8 (fn_import f) = None
     \<and> list_ex (named name) (take (unat (numNames f)) (names f))"

lemma v_FindFunction_Some:
  assumes "v_FindFunction m name = Some i"
  shows "i < length (functions_of m) \<and> functions_of m ! i = m_functions m ! i \<and> i < length (m_functions m)
    \<and> (exported_as name (m_functions m ! i) \<or>
       (defined_as name (m_functions m ! i) \<and> (\<forall>g \<in> set (functions_of m). \<not> exported_as name g)))"
proof -
  have lt: "j < length (functions_of m) \<Longrightarrow> j < length (m_functions m) \<and> functions_of m ! j = m_functions m ! j" for j
    by (simp add: functions_of_def)
  show ?thesis
  proof (cases "find_index (exported_as name) (functions_of m)")
    case None
    then have "find_index (defined_as name) (functions_of m) = Some i"
      using assms by (simp add: v_FindFunction_def functions_of_def exported_as_def [abs_def] defined_as_def [abs_def])
    from find_index_Some [OF this] lt None show ?thesis by (auto simp: find_index_None)
  next
    case (Some j)
    then have "j = i" using assms by (simp add: v_FindFunction_def functions_of_def exported_as_def [abs_def])
    with find_index_Some [OF Some] lt show ?thesis by auto
  qed
qed

lemma v_FindFunction_None:
  "v_FindFunction m name = None \<longleftrightarrow> (\<forall>g \<in> set (functions_of m). \<not> exported_as name g \<and> \<not> defined_as name g)"
  using find_index_None [of "exported_as name" "functions_of m"] find_index_None [of "defined_as name" "functions_of m"]
  by (auto simp: v_FindFunction_def functions_of_def exported_as_def [abs_def] defined_as_def [abs_def] Let_def split: option.splits)

lemma ForEachModule_Some:
  "ForEachModule v ms = Some (k, r) \<Longrightarrow>
    \<exists>newer m older. ms = newer @ m # older \<and> k = length older \<and> v m = Some r \<and> (\<forall>x \<in> set newer. v x = None)"
proof (induction ms)
  case (Cons m ms)
  show ?case
  proof (cases "v m")
    case None
    then obtain newer m' older where "ms = newer @ m' # older \<and> k = length older \<and> v m' = Some r \<and> (\<forall>x \<in> set newer. v x = None)"
      using Cons by auto
    then show ?thesis using None by (intro exI [of _ "m # newer"] exI [of _ m'] exI [of _ older]) auto
  next
    case (Some r')
    then show ?thesis using Cons.prems by (intro exI [of _ "[]"] exI [of _ m] exI [of _ ms]) auto
  qed
qed simp

lemma get_module_split:
  assumes "rt_modules rt = newer @ m # older"
  shows "get_module rt (length older) = Some m"
    and "length older < k \<Longrightarrow> get_module rt k = Some m' \<Longrightarrow> m' \<in> set newer"
proof -
  have r: "rev (rt_modules rt) = rev older @ m # rev newer" using assms by simp
  then show "get_module rt (length older) = Some m" using assms by (simp add: get_module_def nth_append)
  assume "length older < k" "get_module rt k = Some m'"
  then have "k - length older - 1 < length (rev newer)" "m' = rev newer ! (k - length older - 1)"
    using assms r by (auto simp: get_module_def nth_append nth_Cons' split: if_splits)
  then show "m' \<in> set newer" by (metis nth_mem set_rev)
qed

lemma get_function_set_compiled:
  assumes "get_function rt h = Some (m, f)"
  shows "\<exists>m'. get_function (set_compiled h rt) h = Some (m', f\<lparr>compiled := True\<rparr>)"
proof -
  obtain k i where h: "h = (k, i)" by (cases h)
  have k: "k < length (rt_modules rt)" "m = rev (rt_modules rt) ! k" "i < length (m_functions m)" "f = m_functions m ! i"
    using assms by (auto simp: h get_function_def get_module_def split: if_splits)
  then show ?thesis using assms
    by (auto simp: h set_compiled_def set_module_def get_function_def get_module_def rev_nth Let_def)
qed

lemma m3_FindFunction_result:
  assumes "m3_FindFunction compile rt name = (r, found, rt')"
  obtains "found = None" "r \<noteq> None" "rt' = rt \<or> (\<exists>h e. compile h = Constants_missing e \<and> r = Some e \<and> rt' = set_compiled h rt)"
  | h where "found = Some h" "r = None" "ForEachModule (\<lambda>m. v_FindFunction m name) (rt_modules rt) = Some h"
      "ensure_compiled compile h rt = (None, rt')"
proof (cases "ForEachModule (\<lambda>m. v_FindFunction m name) (rt_modules rt)")
  case None
  then show thesis using assms that(1) by (auto simp: m3_FindFunction_def split: if_splits)
next
  case (Some h)
  obtain e rt1 where e: "ensure_compiled compile h rt = (e, rt1)" by fastforce
  have f: "rt1 = rt \<or> (\<exists>e'. compile h = Constants_missing e' \<and> e = Some e' \<and> rt1 = set_compiled h rt)" if "e \<noteq> None"
    using e that by (auto simp: ensure_compiled_def split: option.splits prod.splits if_splits compile_outcome.splits)
  show thesis
  proof (cases "rt_modules rt = []")
    case True
    then show ?thesis using assms that(1) by (auto simp: m3_FindFunction_def)
  next
    case False
    show ?thesis
    proof (cases e)
      case None
      then show ?thesis using assms that(2) [of h] Some e False by (simp add: m3_FindFunction_def)
    next
      case (Some x)
      then have "found = None" "r = Some x" "rt' = rt1" using assms \<open>ForEachModule _ _ = Some h\<close> e False by (simp_all add: m3_FindFunction_def)
      then show ?thesis using that(1) f Some by blast
    qed
  qed
qed

text \<open>C10: The function found by name is the right one. A handle is answered only for a loaded
  function that is compiled now; it is exported under the name, or is the module's own and has
  the name while no function of the module is exported under it; and no module loaded later has a
  function that answers to the name. Nothing but the compilation flag of that function changes.
  Without a handle there is an error and nothing changes at all, unless the code of the function was
  made and only the copy of its constants failed: then its flag is set all the same.\<close>

theorem find_function_correct:
  assumes "m3_FindFunction compile rt name = (r, found, rt')"
  shows "case found of
      Some h \<Rightarrow> r = None \<and> (\<exists>m f. get_function rt h = Some (m, f)
          \<and> (exported_as name f \<or> defined_as name f \<and> (\<forall>g \<in> set (functions_of m). \<not> exported_as name g))
          \<and> (rt' = rt \<and> compiled f \<or> rt' = set_compiled h rt \<and> compile h = Compiled))
        \<and> (\<exists>m f. get_function rt' h = Some (m, f) \<and> compiled f)
        \<and> (\<forall>k m. fst h < k \<and> get_module rt k = Some m \<longrightarrow> (\<forall>g \<in> set (functions_of m). \<not> exported_as name g \<and> \<not> defined_as name g))
    | None \<Rightarrow> r \<noteq> None \<and> (rt' = rt \<or> (\<exists>h e. compile h = Constants_missing e \<and> r = Some e \<and> rt' = set_compiled h rt))"
  using assms
proof (cases rule: m3_FindFunction_result)
  case 1
  then show ?thesis by simp
next
  case (2 h)
  note e = 2(3,4)
  obtain k i where h: "h = (k, i)" by (cases h)
  obtain newer m older where s: "rt_modules rt = newer @ m # older" "k = length older" "v_FindFunction m name = Some i"
    "\<forall>x \<in> set newer. v_FindFunction x name = None"
    using ForEachModule_Some [OF e(1) [unfolded h]] by blast
  note v = v_FindFunction_Some [OF s(3)]
  let ?f = "m_functions m ! i"
  have g: "get_function rt h = Some (m, ?f)" using v get_module_split(1) [OF s(1)] by (simp add: get_function_def h s(2))
  have c: "rt' = rt \<and> compiled ?f \<or> rt' = set_compiled h rt \<and> compile h = Compiled"
    using e(2) g by (auto simp: ensure_compiled_def split: if_splits option.splits compile_outcome.splits)
  moreover have "\<exists>m f. get_function rt' h = Some (m, f) \<and> compiled f"
    using c g get_function_set_compiled [OF g] by auto
  moreover have "\<forall>g \<in> set (functions_of m'). \<not> exported_as name g \<and> \<not> defined_as name g"
    if "fst h < k'" "get_module rt k' = Some m'" for k' m'
    using get_module_split(2) [OF s(1), of k' m'] that s(2,4) h by (simp add: v_FindFunction_None)
  moreover have "exported_as name ?f \<or> defined_as name ?f \<and> (\<forall>g \<in> set (functions_of m). \<not> exported_as name g)"
    using v by simp
  ultimately show ?thesis unfolding 2(1) option.case using 2(2) g by blast
qed

section \<open>Calls\<close>

text \<open>The 32-bit words of an argument or a result of a type, in stack slots from \<open>s\<close> on.\<close>

definition type_words :: "u8 \<Rightarrow> nat" where
  "type_words ty = (if ty = 1 \<or> ty = 3 then 1 else 2)"

definition words_at :: "(nat \<Rightarrow> u32) \<Rightarrow> nat \<Rightarrow> u8 \<Rightarrow> u32 list" where
  "words_at st s ty = map (\<lambda>i. st (s + i)) [0 ..< type_words ty]"

lemma words_at_eq: "words_at st s ty = (if ty = 1 \<or> ty = 3 then [st s] else [st s, st (s + 1)])"
  by (simp add: words_at_def type_words_def upt_rec)

lemma words_at_cong: "(\<And>k. s \<le> k \<Longrightarrow> k < s + 2 \<Longrightarrow> st k = st' k) \<Longrightarrow> words_at st s ty = words_at st' s ty"
  by (simp add: words_at_eq)

lemma write_args_ok:
  assumes "set tys \<subseteq> {1, 2, 3, 4}" "length tys \<le> length args"
    "\<forall>i < length tys. type_words (tys ! i) \<le> length (args ! i)" "s + 2 * length tys \<le> limit"
  shows "\<exists>st'. write_args limit tys args s st = Inr st'
    \<and> (\<forall>i < length tys. words_at st' (s + 2 * i) (tys ! i) = take (type_words (tys ! i)) (args ! i))
    \<and> (\<forall>k. k < s \<or> s + 2 * length tys \<le> k \<longrightarrow> st' k = st k)"
  using assms
proof (induction tys arbitrary: args s st)
  case (Cons ty tys)
  obtain arg rest where a: "args = arg # rest" using Cons.prems(2) by (cases args) auto
  have ty: "ty \<in> {1, 2, 3, 4}" and arg: "type_words ty \<le> length arg"
    using Cons.prems(1,3) a by auto
  define st1 where "st1 = (if ty = 1 \<or> ty = 3 then st(s := arg ! 0) else st(s := arg ! 0, s + 1 := arg ! 1))"
  have w: "write_args limit (ty # tys) args s st = write_args limit tys rest (s + 2) st1"
    using ty arg Cons.prems(4) a
    by (cases arg; cases "tl arg") (auto simp: st1_def type_words_def)
  have "\<forall>i < length tys. type_words (tys ! i) \<le> length (rest ! i)" using Cons.prems(3) a by auto
  then obtain st' where IH: "write_args limit tys rest (s + 2) st1 = Inr st'"
    "\<forall>i < length tys. words_at st' (s + 2 + 2 * i) (tys ! i) = take (type_words (tys ! i)) (rest ! i)"
    "\<forall>k. k < s + 2 \<or> s + 2 + 2 * length tys \<le> k \<longrightarrow> st' k = st1 k"
    using Cons.IH [of rest "s + 2" st1] Cons.prems a by auto
  have "words_at st' s ty = words_at st1 s ty" using IH(3) by (intro words_at_cong) simp
  also have "\<dots> = take (type_words ty) arg"
    using ty arg by (cases arg; cases "tl arg") (auto simp: words_at_eq st1_def type_words_def)
  finally have first: "words_at st' s ty = take (type_words ty) arg" .
  show ?case
  proof (intro exI [of _ st'] conjI)
    show "write_args limit (ty # tys) args s st = Inr st'" using w IH(1) by simp
    show "\<forall>i < length (ty # tys). words_at st' (s + 2 * i) ((ty # tys) ! i) = take (type_words ((ty # tys) ! i)) (args ! i)"
    proof (intro allI impI)
      fix i assume "i < length (ty # tys)"
      then show "words_at st' (s + 2 * i) ((ty # tys) ! i) = take (type_words ((ty # tys) ! i)) (args ! i)"
        using first IH(2) a by (cases i) (auto simp: add.assoc)
    qed
    show "\<forall>k. k < s \<or> s + 2 * length (ty # tys) \<le> k \<longrightarrow> st' k = st k" using IH(3) by (auto simp: st1_def)
  qed
qed simp

lemma read_results_ok:
  "set tys \<subseteq> {1, 2, 3, 4} \<Longrightarrow>
    \<exists>rs. read_results tys s st = Inr rs \<and> map fst rs = tys
      \<and> (\<forall>i < length tys. snd (rs ! i) = (case words_at st (s + 2 * i) (tys ! i) of [a] \<Rightarrow> ucast a | [a, b] \<Rightarrow> ucast a OR push_bit 32 (ucast b)))"
proof (induction tys arbitrary: s)
  case (Cons ty tys)
  obtain rs where IH: "read_results tys (s + 2) st = Inr rs" "map fst rs = tys"
    "\<forall>i < length tys. snd (rs ! i) = (case words_at st (s + 2 + 2 * i) (tys ! i) of [a] \<Rightarrow> ucast a | [a, b] \<Rightarrow> ucast a OR push_bit 32 (ucast b))"
    using Cons.IH [of "s + 2"] Cons.prems by auto
  let ?v = "if ty = 1 \<or> ty = 3 then ucast (st s) else get_const64 st s"
  have "read_results (ty # tys) s st = Inr ((ty, ?v) # rs)" using IH(1) Cons.prems by auto
  moreover have "snd (((ty, ?v) # rs) ! i) = (case words_at st (s + 2 * i) ((ty # tys) ! i) of [a] \<Rightarrow> ucast a | [a, b] \<Rightarrow> ucast a OR push_bit 32 (ucast b))"
    if "i < length (ty # tys)" for i
    using IH(3) that by (cases i) (auto simp: words_at_eq get_const64_def add.assoc)
  ultimately show ?case using IH(2) by auto
qed simp

lemma get_function_update [simp]:
  "get_function (rt\<lparr>rt_lastCalled := x\<rparr>) h = get_function rt h" "get_function (rt\<lparr>rt_stack := st\<rparr>) h = get_function rt h"
  by (simp_all add: get_function_def get_module_def)

lemma m3_Call_enters:
  assumes "get_function rt h = Some (m, f)" "function_type pool f = Some t" "ft_wf t" "compiled f" "startFunction m < 0"
    and "set (ft_types t) \<subseteq> {1, 2, 3, 4}" "length args = unat (ft_numArgs t)"
    and "\<forall>i < length args. type_words (ft_types t ! (unat (ft_numRets t) + i)) \<le> length (args ! i)"
    and "2 * (unat (ft_numRets t) + unat (ft_numArgs t)) \<le> rt_numStackSlots rt + 4"
  obtains st where "\<forall>i < length args. words_at st (2 * (unat (ft_numRets t) + i)) (ft_types t ! (unat (ft_numRets t) + i))
          = take (type_words (ft_types t ! (unat (ft_numRets t) + i))) (args ! i)"
    "\<forall>k. k < 2 * unat (ft_numRets t) \<or> 2 * (unat (ft_numRets t) + unat (ft_numArgs t)) \<le> k \<longrightarrow> st k = rt_stack rt k"
    "m3_Call compile exec pool h (ucast (ft_numArgs t)) args rt =
      (case exec h (rt\<lparr>rt_stack := st\<rparr>) of (None, rt) \<Rightarrow> (None, rt\<lparr>rt_lastCalled := Some h\<rparr>) | (Some e, rt) \<Rightarrow> (Some e, rt\<lparr>rt_lastCalled := None\<rparr>))"
proof -
  let ?n = "unat (ft_numRets t)" and ?a = "unat (ft_numArgs t)"
  let ?tys = "take ?a (drop ?n (ft_types t))"
  have wf: "?n + ?a \<le> length (ft_types t)" using assms(3) by (simp add: ft_wf_def)
  have len: "length ?tys = length args" using wf assms(7) by simp
  have ty: "i < length args \<Longrightarrow> ?tys ! i = ft_types t ! (?n + i)" for i using wf assms(7) by simp
  have sub: "set ?tys \<subseteq> {1, 2, 3, 4}" using assms(6) by (meson in_set_dropD in_set_takeD subset_iff)
  have l1: "length ?tys \<le> length args" using len by simp
  have l2: "\<forall>i < length ?tys. type_words (?tys ! i) \<le> length (args ! i)" using assms(8) ty len by metis
  have l3: "2 * ?n + 2 * length ?tys \<le> rt_numStackSlots rt + 4" using assms(7,9) len by simp
  obtain st where st: "write_args (rt_numStackSlots rt + 4) ?tys args (2 * ?n) (rt_stack rt) = Inr st"
    "\<forall>i < length ?tys. words_at st (2 * ?n + 2 * i) (?tys ! i) = take (type_words (?tys ! i)) (args ! i)"
    "\<forall>k. k < 2 * ?n \<or> 2 * ?n + 2 * length ?tys \<le> k \<longrightarrow> st k = rt_stack rt k"
    using write_args_ok [OF sub l1 l2 l3] by blast
  have start: "m3_RunStart compile exec pool (fst h) rt = (None, rt)"
    using assms(1,5) by (auto simp: m3_RunStart_def get_function_def split: option.splits if_splits)
  have call: "m3_Call compile exec pool h (ucast (ft_numArgs t)) args rt =
      (case exec h (rt\<lparr>rt_stack := st\<rparr>) of (None, rt) \<Rightarrow> (None, rt\<lparr>rt_lastCalled := Some h\<rparr>) | (Some e, rt) \<Rightarrow> (Some e, rt\<lparr>rt_lastCalled := None\<rparr>))"
    using assms(1,2,4) start st(1) by (simp add: m3_Call_def)
  show thesis
  proof (rule that [OF _ _ call])
    show "\<forall>i < length args. words_at st (2 * (?n + i)) (ft_types t ! (?n + i)) = take (type_words (ft_types t ! (?n + i))) (args ! i)"
    proof (intro allI impI)
      fix i assume i: "i < length args"
      then have "words_at st (2 * ?n + 2 * i) (?tys ! i) = take (type_words (?tys ! i)) (args ! i)" using st(2) len by metis
      then show "words_at st (2 * (?n + i)) (ft_types t ! (?n + i)) = take (type_words (ft_types t ! (?n + i))) (args ! i)"
        unfolding ty [OF i] by (simp only: distrib_left)
    qed
    show "\<forall>k. k < 2 * ?n \<or> 2 * (?n + ?a) \<le> k \<longrightarrow> st k = rt_stack rt k" using st(3) len assms(7) by (simp add: distrib_left)
  qed
qed

lemma m3_GetResults_reads:
  assumes "get_function rt h = Some (m, f)" "function_type pool f = Some t" "set (ft_types t) \<subseteq> {1, 2, 3, 4}"
  obtains rs where "m3_GetResults pool h (ucast (ft_numRets t)) (rt\<lparr>rt_lastCalled := Some h\<rparr>) = Inr rs"
    "map fst rs = take (unat (ft_numRets t)) (ft_types t)"
    "\<forall>i < length rs. snd (rs ! i) = (case words_at (rt_stack rt) (2 * i) (fst (rs ! i)) of [a] \<Rightarrow> ucast a | [a, b] \<Rightarrow> ucast a OR push_bit 32 (ucast b))"
proof -
  let ?n = "unat (ft_numRets t)"
  have "set (take ?n (ft_types t)) \<subseteq> {1, 2, 3, 4}" using assms(3) by (meson in_set_takeD subset_iff)
  from read_results_ok [OF this, of 0 "rt_stack rt"] obtain rs where
    rs: "read_results (take ?n (ft_types t)) 0 (rt_stack rt) = Inr rs" "map fst rs = take ?n (ft_types t)"
    "\<forall>i < length (take ?n (ft_types t)). snd (rs ! i) = (case words_at (rt_stack rt) (2 * i) (take ?n (ft_types t) ! i) of
        [a] \<Rightarrow> ucast a | [a, b] \<Rightarrow> ucast a OR push_bit 32 (ucast b))" by auto
  have l: "length rs = length (take ?n (ft_types t))" "i < length rs \<Longrightarrow> take ?n (ft_types t) ! i = fst (rs ! i)" for i
    using rs(2) [symmetric] by simp_all
  have "m3_GetResults pool h (ucast (ft_numRets t)) (rt\<lparr>rt_lastCalled := Some h\<rparr>) = Inr rs"
    using assms(1,2) rs(1) by (simp add: m3_GetResults_def)
  then show thesis using that rs(2,3) l by auto
qed

text \<open>C9: A call passes its arguments and answers with the results. When the function is compiled, its
  start function has run and the stack has room for the results and arguments, the interpreter is
  entered on a stack that holds the i-th argument in the slots of the i-th argument, eight bytes
  apart and behind those of the results, and is otherwise unchanged; a trap is returned as it is.
  After a run that ends well, the results asked for are the function's result types with the bits
  of the first slots.\<close>

theorem call_contract:
  assumes "get_function rt h = Some (m, f)" "function_type pool f = Some t" "ft_wf t" "compiled f" "startFunction m < 0"
    and "set (ft_types t) \<subseteq> {1, 2, 3, 4}" "length args = unat (ft_numArgs t)"
    and "\<forall>i < length args. type_words (ft_types t ! (unat (ft_numRets t) + i)) \<le> length (args ! i)"
    and "2 * (unat (ft_numRets t) + unat (ft_numArgs t)) \<le> rt_numStackSlots rt + 4"
  shows "\<exists>st. (\<forall>i < length args. words_at st (2 * (unat (ft_numRets t) + i)) (ft_types t ! (unat (ft_numRets t) + i))
          = take (type_words (ft_types t ! (unat (ft_numRets t) + i))) (args ! i))
    \<and> (\<forall>k. k < 2 * unat (ft_numRets t) \<or> 2 * (unat (ft_numRets t) + unat (ft_numArgs t)) \<le> k \<longrightarrow> st k = rt_stack rt k)
    \<and> (\<forall>e rt'. exec h (rt\<lparr>rt_stack := st\<rparr>) = (Some e, rt') \<longrightarrow>
          m3_Call compile exec pool h (ucast (ft_numArgs t)) args rt = (Some e, rt'\<lparr>rt_lastCalled := None\<rparr>))
    \<and> (\<forall>rt' m' f'. exec h (rt\<lparr>rt_stack := st\<rparr>) = (None, rt') \<and> get_function rt' h = Some (m', f') \<and> function_type pool f' = Some t \<longrightarrow>
          (\<exists>rt'' rs. m3_Call compile exec pool h (ucast (ft_numArgs t)) args rt = (None, rt'')
            \<and> m3_GetResults pool h (ucast (ft_numRets t)) rt'' = Inr rs \<and> map fst rs = take (unat (ft_numRets t)) (ft_types t)
            \<and> (\<forall>i < length rs. snd (rs ! i) = (case words_at (rt_stack rt') (2 * i) (fst (rs ! i)) of
                  [a] \<Rightarrow> ucast a | [a, b] \<Rightarrow> ucast a OR push_bit 32 (ucast b)))))"
proof -
  obtain st where st: "\<forall>i < length args. words_at st (2 * (unat (ft_numRets t) + i)) (ft_types t ! (unat (ft_numRets t) + i))
          = take (type_words (ft_types t ! (unat (ft_numRets t) + i))) (args ! i)"
    "\<forall>k. k < 2 * unat (ft_numRets t) \<or> 2 * (unat (ft_numRets t) + unat (ft_numArgs t)) \<le> k \<longrightarrow> st k = rt_stack rt k"
    and call: "m3_Call compile exec pool h (ucast (ft_numArgs t)) args rt =
      (case exec h (rt\<lparr>rt_stack := st\<rparr>) of (None, rt) \<Rightarrow> (None, rt\<lparr>rt_lastCalled := Some h\<rparr>) | (Some e, rt) \<Rightarrow> (Some e, rt\<lparr>rt_lastCalled := None\<rparr>))"
    by (rule m3_Call_enters [OF assms])
  show ?thesis
  proof (intro exI [of _ st] conjI allI impI)
    fix rt' m' f'
    assume a: "exec h (rt\<lparr>rt_stack := st\<rparr>) = (None, rt') \<and> get_function rt' h = Some (m', f') \<and> function_type pool f' = Some t"
    then have "get_function rt' h = Some (m', f')" "function_type pool f' = Some t" by simp_all
    from m3_GetResults_reads [OF this assms(6)] show "\<exists>rt'' rs. m3_Call compile exec pool h (ucast (ft_numArgs t)) args rt = (None, rt'')
            \<and> m3_GetResults pool h (ucast (ft_numRets t)) rt'' = Inr rs \<and> map fst rs = take (unat (ft_numRets t)) (ft_types t)
            \<and> (\<forall>i < length rs. snd (rs ! i) = (case words_at (rt_stack rt') (2 * i) (fst (rs ! i)) of
                  [a] \<Rightarrow> ucast a | [a, b] \<Rightarrow> ucast a OR push_bit 32 (ucast b)))"
      using call a by (metis (no_types, lifting) case_prod_conv option.simps(4))
  qed (use st call in auto)
qed

text \<open>A loaded module with the function \<^verbatim>\<open>add : i32, i32 -> i32\<close>, and an interpreter that adds the slots
  of its arguments.\<close>

definition add_type :: M3FuncType where
  "add_type = \<lparr>ft_numRets = 1, ft_numArgs = 2, ft_types = [1, 1, 1]\<rparr>"

definition add_module :: M3Module where
  "add_module = zero_module\<lparr>numFunctions := 1, startFunction := -1,
     m_functions := [zero_function\<lparr>fn_funcType := Some 0, compiled := True, export_name := Some [0x61, 0x64, 0x64]\<rparr>]\<rparr>"

definition add_runtime :: M3Runtime where
  "add_runtime = fresh_runtime\<lparr>rt_modules := [add_module]\<rparr>"

definition add_exec :: "nat \<times> nat \<Rightarrow> M3Runtime \<Rightarrow> m3_error option \<times> M3Runtime" where
  "add_exec h rt = (None, rt\<lparr>rt_stack := (rt_stack rt)(0 := rt_stack rt 2 + rt_stack rt 4)\<rparr>)"

theorem find_function_correct_witness:
  "\<exists>m f. get_function add_runtime (0, 0) = Some (m, f) \<and> exported_as [0x61, 0x64, 0x64] f"
proof -
  have "m3_FindFunction (\<lambda>_. Compiled) add_runtime [0x61, 0x64, 0x64] = (None, Some (0, 0), add_runtime)"
    by (simp add: m3_FindFunction_def add_runtime_def fresh_runtime_def add_module_def v_FindFunction_def find_index_def named_def
        strcmp_eq_def cstr_def ensure_compiled_def get_function_def get_module_def zero_module_def)
  from find_function_correct [OF this] show ?thesis
    by (auto simp: defined_as_def add_runtime_def fresh_runtime_def add_module_def get_function_def get_module_def exported_as_def named_def
        strcmp_eq_def zero_module_def)
qed

theorem call_contract_witness:
  "\<exists>rt' rs. m3_Call (\<lambda>_. Compiled) add_exec [add_type] (0, 0) (ucast (ft_numArgs add_type)) [[20], [22]] add_runtime = (None, rt')
    \<and> m3_GetResults [add_type] (0, 0) (ucast (ft_numRets add_type)) rt' = Inr rs \<and> rs = [(1, 42)]"
proof -
  have f: "get_function add_runtime (0, 0) = Some (add_module, m_functions add_module ! 0)"
    by (simp add: get_function_def get_module_def add_runtime_def add_module_def)
  have t: "function_type [add_type] (m_functions add_module ! 0) = Some add_type"
    by (simp add: function_type_def add_module_def pool_get_def)
  have tw: "type_words 1 = 1" by (simp add: type_words_def)
  obtain st where st: "\<forall>i < length [[20], [22 :: u32]]. words_at st (2 * (unat (ft_numRets add_type) + i)) (ft_types add_type ! (unat (ft_numRets add_type) + i))
          = take (type_words (ft_types add_type ! (unat (ft_numRets add_type) + i))) ([[20], [22]] ! i)"
    "\<forall>rt' m' f'. add_exec (0, 0) (add_runtime\<lparr>rt_stack := st\<rparr>) = (None, rt') \<and> get_function rt' (0, 0) = Some (m', f')
        \<and> function_type [add_type] f' = Some add_type \<longrightarrow>
          (\<exists>rt'' rs. m3_Call (\<lambda>_. Compiled) add_exec [add_type] (0, 0) (ucast (ft_numArgs add_type)) [[20], [22]] add_runtime = (None, rt'')
            \<and> m3_GetResults [add_type] (0, 0) (ucast (ft_numRets add_type)) rt'' = Inr rs \<and> map fst rs = take (unat (ft_numRets add_type)) (ft_types add_type)
            \<and> (\<forall>i < length rs. snd (rs ! i) = (case words_at (rt_stack rt') (2 * i) (fst (rs ! i)) of
                  [a] \<Rightarrow> ucast a | [a, b] \<Rightarrow> ucast a OR push_bit 32 (ucast b))))"
    using call_contract [OF f t, of "[[20], [22]]" add_exec "\<lambda>_. Compiled"]
    by (auto simp: ft_wf_def add_type_def add_module_def add_runtime_def fresh_runtime_def less_Suc_eq tw)
  have s: "st 2 = 20" "st 4 = 22"
    using st(1) [rule_format, of 0] st(1) [rule_format, of 1] by (simp_all add: add_type_def words_at_eq type_words_def)
  have "get_function (add_runtime\<lparr>rt_stack := st'\<rparr>) (0, 0) = Some (add_module, m_functions add_module ! 0)" for st' using f by simp
  then obtain rt'' rs where r: "m3_Call (\<lambda>_. Compiled) add_exec [add_type] (0, 0) (ucast (ft_numArgs add_type)) [[20], [22]] add_runtime = (None, rt'')"
    "m3_GetResults [add_type] (0, 0) (ucast (ft_numRets add_type)) rt'' = Inr rs" "map fst rs = [1]"
    "\<forall>i < length rs. snd (rs ! i) = (case words_at (st(0 := st 2 + st 4)) (2 * i) (fst (rs ! i)) of [a] \<Rightarrow> ucast a | [a, b] \<Rightarrow> ucast a OR push_bit 32 (ucast b))"
    using st(2) t by (fastforce simp: add_exec_def add_type_def)
  then have "rs = [(1, 42)]" using s by (cases rs) (auto simp: words_at_eq)
  then show ?thesis using r by blast
qed

section \<open>A second module\<close>

text \<open>C39: A second module with another page size breaks the memory. The page size is replaced before the
  memory is resized, so the old size is computed with the new page size; when the new module asks
  for as many pages as there are, both sizes agree, the block is not reallocated, and yet the
  recorded length is that of the new pages. Every load behind the old block then passes the bounds
  check and reads outside the allocation.\<close>

theorem second_module_overflow:
  assumes "mallocated (rt_memory rt) = Some h" "hdr_ok h" "rt_memoryLimit rt = 0" "\<not> memoryImported m"
    and "initPages (memoryInfo m) = numPages (rt_memory rt)" "mi_pageSize (memoryInfo m) \<noteq> 0"
    and "numPages (rt_memory rt) * mi_pageSize (memoryInfo m) \<noteq> 0"
    and "numPages (rt_memory rt) \<le> (if mi_maxPages (memoryInfo m) \<noteq> 0 then mi_maxPages (memoryInfo m) else 65536)"
    and "numPages (rt_memory rt) \<le> 65536"
    and "mh_length h \<le> ucast a" "a < numPages (rt_memory rt) * mi_pageSize (memoryInfo m)"
  shows "\<exists>rt' h'. InitMemory al rt m = (None, rt') \<and> mallocated (rt_memory rt') = Some h' \<and> mh_data h' = mh_data h
    \<and> mh_length h' = ucast (numPages (rt_memory rt) * mi_pageSize (memoryInfo m)) \<and> op_Load L_u8 h' a 0 = Inl C_undefined"
proof -
  let ?n = "numPages (rt_memory rt) * mi_pageSize (memoryInfo m)"
  let ?h = "\<lparr>mh_length = ucast ?n, mh_data = mh_data h\<rparr>"
  have nz: "(ucast ?n :: u64) \<noteq> 0" using assms(7) unat_ucast_32_64 [of ?n] by (metis unat_0 unat_eq_zero)
  have "\<exists>rt'. InitMemory al rt m = (None, rt') \<and> mallocated (rt_memory rt') = Some ?h"
    using assms(1,3-6,8,9) nz by (auto simp: InitMemory_def ResizeMemory_def m3_Realloc_memory_def Let_def not_less)
  moreover have "op_Load L_u8 ?h a 0 = Inl C_undefined"
  proof -
    have lt: "unat a < unat ?n" using assms(11) by (simp add: word_less_nat_alt)
    have "unat (effective_address a 0 + 1) = unat a + 1"
      using unat_effective_address [of a 0] unat_lt32 [of a] by (subst unat_add_small) simp_all
    then have "effective_address a 0 + 1 \<le> ucast ?n" using lt by (simp add: word_le_nat_alt)
    moreover have "length (mh_data h) \<le> unat a" using assms(2,10) by (simp add: hdr_ok_def word_le_nat_alt)
    ultimately show ?thesis by (simp add: op_Load_def mem_read_def unat_effective_address)
  qed
  ultimately show ?thesis by auto
qed

theorem second_module_overflow_witness:
  "\<exists>rt' h'. InitMemory generous (fresh_runtime\<lparr>rt_memory := \<lparr>mallocated = Some \<lparr>mh_length = 2, mh_data = [7, 8]\<rparr>, numPages = 2, maxPages = 4, pageSize = 1\<rparr>\<rparr>)
      (zero_module\<lparr>memoryInfo := \<lparr>initPages = 2, mi_maxPages = 4, mi_pageSize = 65536\<rparr>\<rparr>) = (None, rt')
    \<and> mallocated (rt_memory rt') = Some h' \<and> mh_data h' = [7, 8] \<and> mh_length h' = 131072 \<and> op_Load L_u8 h' 2 0 = Inl C_undefined"
  using second_module_overflow [of "fresh_runtime\<lparr>rt_memory := \<lparr>mallocated = Some \<lparr>mh_length = 2, mh_data = [7, 8]\<rparr>, numPages = 2, maxPages = 4, pageSize = 1\<rparr>\<rparr>"
      "\<lparr>mh_length = 2, mh_data = [7, 8]\<rparr>" "zero_module\<lparr>memoryInfo := \<lparr>initPages = 2, mi_maxPages = 4, mi_pageSize = 65536\<rparr>\<rparr>" 2 generous]
  by (simp add: fresh_runtime_def zero_module_def hdr_ok_def)

end
