(* ===== verification/M3_Decode.thy ===== *)
theory M3_Decode
  imports M3_Blocks M3_Exec
begin

text \<open>
  Between compiler and interpreter: what the operations of straight-line code read as immediates, and
  the stack machine of WebAssembly on the same bytes, as the reference for what the code has to
  compute.
\<close>

section \<open>Operations of the table\<close>

datatype operator = Op_bin32 binop | Op_bin64 binop | Op_un32 unop32 | Op_un64 unop64

text \<open>The numeric opcodes of the WebAssembly specification; the names under which \<^verbatim>\<open>c_operations\<close> has
  the operator, and the operator of \<^verbatim>\<open>include/m3_exec.h\<close> that it is.\<close>

definition operator_table :: "(nat \<times> (string \<times> string) \<times> operator) list" where
  "operator_table = [
    (0x45, (''i32'', ''EqualToZero''), Op_un32 EqualToZero_i32), (0x46, (''i32'', ''Equal''), Op_bin32 Equal),
    (0x47, (''i32'', ''NotEqual''), Op_bin32 NotEqual), (0x48, (''i32'', ''LessThan''), Op_bin32 LessThan_s),
    (0x49, (''u32'', ''LessThan''), Op_bin32 LessThan_u), (0x4a, (''i32'', ''GreaterThan''), Op_bin32 GreaterThan_s),
    (0x4b, (''u32'', ''GreaterThan''), Op_bin32 GreaterThan_u), (0x4c, (''i32'', ''LessThanOrEqual''), Op_bin32 LessThanOrEqual_s),
    (0x4d, (''u32'', ''LessThanOrEqual''), Op_bin32 LessThanOrEqual_u), (0x4e, (''i32'', ''GreaterThanOrEqual''), Op_bin32 GreaterThanOrEqual_s),
    (0x4f, (''u32'', ''GreaterThanOrEqual''), Op_bin32 GreaterThanOrEqual_u), (0x50, (''i64'', ''EqualToZero''), Op_un64 EqualToZero_i64),
    (0x51, (''i64'', ''Equal''), Op_bin64 Equal), (0x52, (''i64'', ''NotEqual''), Op_bin64 NotEqual),
    (0x53, (''i64'', ''LessThan''), Op_bin64 LessThan_s), (0x54, (''u64'', ''LessThan''), Op_bin64 LessThan_u),
    (0x55, (''i64'', ''GreaterThan''), Op_bin64 GreaterThan_s), (0x56, (''u64'', ''GreaterThan''), Op_bin64 GreaterThan_u),
    (0x57, (''i64'', ''LessThanOrEqual''), Op_bin64 LessThanOrEqual_s), (0x58, (''u64'', ''LessThanOrEqual''), Op_bin64 LessThanOrEqual_u),
    (0x59, (''i64'', ''GreaterThanOrEqual''), Op_bin64 GreaterThanOrEqual_s), (0x5a, (''u64'', ''GreaterThanOrEqual''), Op_bin64 GreaterThanOrEqual_u),
    (0x67, (''u32'', ''Clz''), Op_un32 Clz_u32), (0x68, (''u32'', ''Ctz''), Op_un32 Ctz_u32), (0x69, (''u32'', ''Popcnt''), Op_un32 Popcnt_u32),
    (0x6a, (''i32'', ''Add''), Op_bin32 Add), (0x6b, (''i32'', ''Subtract''), Op_bin32 Subtract), (0x6c, (''i32'', ''Multiply''), Op_bin32 Multiply),
    (0x6d, (''i32'', ''Divide''), Op_bin32 Divide_s), (0x6e, (''u32'', ''Divide''), Op_bin32 Divide_u),
    (0x6f, (''i32'', ''Remainder''), Op_bin32 Remainder_s), (0x70, (''u32'', ''Remainder''), Op_bin32 Remainder_u),
    (0x71, (''u32'', ''And''), Op_bin32 And), (0x72, (''u32'', ''Or''), Op_bin32 Or), (0x73, (''u32'', ''Xor''), Op_bin32 Xor),
    (0x74, (''u32'', ''ShiftLeft''), Op_bin32 ShiftLeft), (0x75, (''i32'', ''ShiftRight''), Op_bin32 ShiftRight_s),
    (0x76, (''u32'', ''ShiftRight''), Op_bin32 ShiftRight_u), (0x77, (''u32'', ''Rotl''), Op_bin32 Rotl), (0x78, (''u32'', ''Rotr''), Op_bin32 Rotr),
    (0x79, (''u64'', ''Clz''), Op_un64 Clz_u64), (0x7a, (''u64'', ''Ctz''), Op_un64 Ctz_u64), (0x7b, (''u64'', ''Popcnt''), Op_un64 Popcnt_u64),
    (0x7c, (''i64'', ''Add''), Op_bin64 Add), (0x7d, (''i64'', ''Subtract''), Op_bin64 Subtract), (0x7e, (''i64'', ''Multiply''), Op_bin64 Multiply),
    (0x7f, (''i64'', ''Divide''), Op_bin64 Divide_s), (0x80, (''u64'', ''Divide''), Op_bin64 Divide_u),
    (0x81, (''i64'', ''Remainder''), Op_bin64 Remainder_s), (0x82, (''u64'', ''Remainder''), Op_bin64 Remainder_u),
    (0x83, (''u64'', ''And''), Op_bin64 And), (0x84, (''u64'', ''Or''), Op_bin64 Or), (0x85, (''u64'', ''Xor''), Op_bin64 Xor),
    (0x86, (''u64'', ''ShiftLeft''), Op_bin64 ShiftLeft), (0x87, (''i64'', ''ShiftRight''), Op_bin64 ShiftRight_s),
    (0x88, (''u64'', ''ShiftRight''), Op_bin64 ShiftRight_u), (0x89, (''u64'', ''Rotl''), Op_bin64 Rotl), (0x8a, (''u64'', ''Rotr''), Op_bin64 Rotr),
    (0xa7, (''i32'', ''Wrap_i64''), Op_un64 i32_Wrap_i64), (0xac, (''i64'', ''Extend_i32''), Op_un32 i64_Extend_i32),
    (0xad, (''i64'', ''Extend_u32''), Op_un32 i64_Extend_u32), (0xc0, (''i32'', ''Extend8_s''), Op_un32 Extend8_s_i32),
    (0xc1, (''i32'', ''Extend16_s''), Op_un32 Extend16_s_i32), (0xc2, (''i64'', ''Extend8_s''), Op_un64 Extend8_s_i64),
    (0xc3, (''i64'', ''Extend16_s''), Op_un64 Extend16_s_i64), (0xc4, (''i64'', ''Extend32_s''), Op_un64 Extend32_s_i64)]"

definition table_op :: "string \<Rightarrow> string \<Rightarrow> operator option" where
  "table_op ty nm = map_of (map snd operator_table) (ty, nm)"

text \<open>An operand form, with the slots that follow the operation.\<close>

definition bin_form :: "string \<Rightarrow> u32 list \<Rightarrow> form option" where
  "bin_form fm ss =
    (if fm = ''rs'' then (case ss of [s] \<Rightarrow> Some (RS (unat s)) | _ \<Rightarrow> None)
     else if fm = ''sr'' then (case ss of [s] \<Rightarrow> Some (SR (unat s)) | _ \<Rightarrow> None)
     else if fm = ''ss'' then (case ss of [s2, s1] \<Rightarrow> Some (SS (unat s2) (unat s1)) | _ \<Rightarrow> None)
     else None)"

definition un_form :: "string \<Rightarrow> u32 list \<Rightarrow> nat option option" where
  "un_form fm ss =
    (if fm = ''r'' then (case ss of [] \<Rightarrow> Some None | _ \<Rightarrow> None)
     else if fm = ''s'' then (case ss of [s] \<Rightarrow> Some (Some (unat s)) | _ \<Rightarrow> None)
     else None)"

definition table_instr :: "operator \<Rightarrow> string \<Rightarrow> u32 list \<Rightarrow> instr option" where
  "table_instr w fm ss =
    (case w of
       Op_bin32 b \<Rightarrow> map_option (I_Bin32 b) (bin_form fm ss)
     | Op_bin64 b \<Rightarrow> map_option (I_Bin64 b) (bin_form fm ss)
     | Op_un32 u \<Rightarrow> map_option (I_Un32 u) (un_form fm ss)
     | Op_un64 u \<Rightarrow> map_option (I_Un64 u) (un_form fm ss))"

section \<open>Code as the interpreter reads it\<close>

definition value_type :: "u8 \<Rightarrow> vtype option" where
  "value_type ty = (if ty = c_m3Type_i32 then Some T_i32 else if ty = c_m3Type_i64 then Some T_i64 else None)"

text \<open>One operation with the 32-bit immediates \<open>ss\<close> behind it.\<close>

definition slot_instr :: "m3_op \<Rightarrow> u32 list \<Rightarrow> instr option" where
  "slot_instr op ss =
    (case (op, ss) of
       (op_SetSlot ty, [d]) \<Rightarrow> map_option (\<lambda>t. I_SetSlot t (unat d)) (value_type ty)
     | (op_SetRegister ty, [s]) \<Rightarrow> map_option (\<lambda>t. I_SetRegister t (unat s)) (value_type ty)
     | (op_PreserveSetSlot ty, [d, p]) \<Rightarrow> map_option (\<lambda>t. I_PreserveSetSlot t (unat d) (unat p)) (value_type ty)
     | (op_CopySlot_32, [d, s]) \<Rightarrow> Some (I_CopySlot T_i32 (unat d) (unat s))
     | (op_CopySlot_64, [d, s]) \<Rightarrow> Some (I_CopySlot T_i64 (unat d) (unat s))
     | (op_PreserveCopySlot_32, [d, s, p]) \<Rightarrow> Some (I_PreserveCopySlot T_i32 (unat d) (unat s) (unat p))
     | (op_PreserveCopySlot_64, [d, s, p]) \<Rightarrow> Some (I_PreserveCopySlot T_i64 (unat d) (unat s) (unat p))
     | (op_Const32, [v, d]) \<Rightarrow> Some (I_Const32 v (unat d))
     | (op_Return, []) \<Rightarrow> Some I_Return
     | (o_Table ty nm fm, ss) \<Rightarrow> (case table_op ty nm of None \<Rightarrow> None | Some w \<Rightarrow> table_instr w fm ss)
     | _ \<Rightarrow> None)"

text \<open>Two operations have other immediates: the constant of 64 bits, and the function of the entry.\<close>

primrec slots_of :: "code_word list \<Rightarrow> u32 list option" where
  "slots_of [] = Some []"
| "slots_of (w # ws) = (case w of W_32 s \<Rightarrow> map_option (Cons s) (slots_of ws) | _ \<Rightarrow> None)"

definition word_instr :: "m3_op \<Rightarrow> code_word list \<Rightarrow> instr option" where
  "word_instr op ws =
    (case (op, ws) of
       (op_Const64, [W_64 v, W_32 d]) \<Rightarrow> Some (I_Const64 v (unat d))
     | (op_Entry, [W_function f]) \<Rightarrow> Some (I_Entry f)
     | _ \<Rightarrow> (case slots_of ws of None \<Rightarrow> None | Some ss \<Rightarrow> slot_instr op ss))"

definition is_op :: "code_word \<Rightarrow> bool" where
  "is_op w = (case w of W_op op \<Rightarrow> True | _ \<Rightarrow> False)"

text \<open>Straight-line code as a list of instructions; every operation has exactly the immediates it reads.\<close>

function decode :: "code_word list \<Rightarrow> instr list option" where
  "decode [] = Some []"
| "decode (w # ws) =
    (case w of
       W_op op \<Rightarrow> (case word_instr op (takeWhile (\<lambda>w. \<not> is_op w) ws) of
           None \<Rightarrow> None
         | Some i \<Rightarrow> map_option (Cons i) (decode (dropWhile (\<lambda>w. \<not> is_op w) ws)))
     | _ \<Rightarrow> None)"
  by pat_completeness auto
termination
  by (relation "measure length") (auto simp: less_Suc_eq_le length_dropWhile_le)

inductive decodes :: "code_word list \<Rightarrow> instr list \<Rightarrow> bool" where
  decodes_nil: "decodes [] []"
| decodes_op: "word_instr op imm = Some i \<Longrightarrow> list_all (\<lambda>w. \<not> is_op w) imm \<Longrightarrow> decodes ws is \<Longrightarrow> decodes (W_op op # imm @ ws) (i # is)"

lemma decodes_append: "decodes ws is \<Longrightarrow> decodes ws' is' \<Longrightarrow> decodes (ws @ ws') (is @ is')"
  by (induction rule: decodes.induct) (auto intro: decodes.intros)

lemma decodes_head: "decodes ws is \<Longrightarrow> ws = [] \<or> is_op (hd ws)"
  by (induction rule: decodes.induct) (auto simp: is_op_def)

lemma decodes_decode: "decodes ws is \<Longrightarrow> decode ws = Some is"
proof (induction rule: decodes.induct)
  case (decodes_op op imm i ws "is")
  have "takeWhile (\<lambda>w. \<not> is_op w) (imm @ ws) = imm" "dropWhile (\<lambda>w. \<not> is_op w) (imm @ ws) = ws"
    using decodes_op.hyps(2) decodes_head [OF decodes_op.hyps(3)]
    by (cases ws; auto simp: takeWhile_append dropWhile_append list_all_iff)+
  then show ?case using decodes_op by simp
qed simp

lemma decodes_single: "word_instr op imm = Some i \<Longrightarrow> list_all (\<lambda>w. \<not> is_op w) imm \<Longrightarrow> decodes (W_op op # imm) [i]"
  using decodes_op [of op imm i "[]" "[]"] decodes_nil by simp

section \<open>The stack machine\<close>

datatype wval = V32 u32 | V64 u64

datatype wop = Wasm_const wval | Wasm_get u32 | Wasm_set u32 | Wasm_tee u32 | Wasm_drop | Wasm_nop | Wasm_op operator

definition wasm_operator :: "u16 \<Rightarrow> operator option" where
  "wasm_operator opcode = map_option snd (map_of operator_table (unat opcode))"

definition comparison :: "binop \<Rightarrow> bool" where
  "comparison b \<longleftrightarrow> b \<in> {Equal, NotEqual, LessThan_s, LessThan_u, GreaterThan_s, GreaterThan_u,
       LessThanOrEqual_s, LessThanOrEqual_u, GreaterThanOrEqual_s, GreaterThanOrEqual_u}"

definition result_type :: "operator \<Rightarrow> vtype" where
  "result_type w = (case w of
       Op_bin32 b \<Rightarrow> T_i32
     | Op_bin64 b \<Rightarrow> if comparison b then T_i32 else T_i64
     | Op_un32 u \<Rightarrow> if u = i64_Extend_i32 \<or> u = i64_Extend_u32 then T_i64 else T_i32
     | Op_un64 u \<Rightarrow> if u = EqualToZero_i64 \<or> u = i32_Wrap_i64 then T_i32 else T_i64)"

definition wval_of :: "vtype \<Rightarrow> u64 \<Rightarrow> wval" where
  "wval_of ty v = (case ty of T_i32 \<Rightarrow> V32 (ucast v) | T_i64 \<Rightarrow> V64 v)"

text \<open>The top of the stack comes first. \<open>None\<close>: the operands are missing or not of the operator's type.\<close>

fun wasm_apply :: "operator \<Rightarrow> wval list \<Rightarrow> wval list result option" where
  "wasm_apply (Op_bin32 b) (V32 y # V32 x # st) =
    Some (tryR (binop32 b x y) (\<lambda>v. Inr (wval_of (result_type (Op_bin32 b)) v # st)))"
| "wasm_apply (Op_bin64 b) (V64 y # V64 x # st) =
    Some (tryR (binop64 b x y) (\<lambda>v. Inr (wval_of (result_type (Op_bin64 b)) v # st)))"
| "wasm_apply (Op_un32 u) (V32 x # st) =
    Some (tryR (unop32_value u x) (\<lambda>v. Inr (wval_of (result_type (Op_un32 u)) v # st)))"
| "wasm_apply (Op_un64 u) (V64 x # st) =
    Some (tryR (unop64_value u x) (\<lambda>v. Inr (wval_of (result_type (Op_un64 u)) v # st)))"
| "wasm_apply _ _ = None"

type_synonym wasm_state = "wval list \<times> wval list"

fun wasm_step :: "wop \<Rightarrow> wasm_state \<Rightarrow> wasm_state result option" where
  "wasm_step (Wasm_const v) (ls, st) = Some (Inr (ls, v # st))"
| "wasm_step (Wasm_get i) (ls, st) = (if unat i < length ls then Some (Inr (ls, ls ! unat i # st)) else None)"
| "wasm_step (Wasm_set i) (ls, v # st) = (if unat i < length ls then Some (Inr (ls[unat i := v], st)) else None)"
| "wasm_step (Wasm_tee i) (ls, v # st) = (if unat i < length ls then Some (Inr (ls[unat i := v], v # st)) else None)"
| "wasm_step Wasm_drop (ls, v # st) = Some (Inr (ls, st))"
| "wasm_step Wasm_nop s = Some (Inr s)"
| "wasm_step (Wasm_op w) (ls, st) = (case wasm_apply w st of None \<Rightarrow> None | Some r \<Rightarrow> Some (tryR r (\<lambda>st. Inr (ls, st))))"
| "wasm_step _ _ = None"

primrec wasm_run :: "wop list \<Rightarrow> wasm_state \<Rightarrow> wasm_state result option" where
  "wasm_run [] s = Some (Inr s)"
| "wasm_run (w # ws) s = tryO (wasm_step w s) (wasm_run ws)"

text \<open>The operations that a body consists of, up to its \<^verbatim>\<open>end\<close>.\<close>

definition read_wop :: "u8 list \<Rightarrow> nat \<Rightarrow> nat \<Rightarrow> (wop \<times> nat) option" where
  "read_wop w p e =
    (case Read_opcode w p e of
       Inl _ \<Rightarrow> None
     | Inr (opcode, p) \<Rightarrow>
         if opcode = 0x41 then (case LEB_i32 w p e of Inr (v, p) \<Rightarrow> Some (Wasm_const (V32 v), p) | _ \<Rightarrow> None)
         else if opcode = 0x42 then (case LEB_i64 w p e of Inr (v, p) \<Rightarrow> Some (Wasm_const (V64 v), p) | _ \<Rightarrow> None)
         else if opcode = 0x20 then (case LEB_u32 w p e of Inr (i, p) \<Rightarrow> Some (Wasm_get i, p) | _ \<Rightarrow> None)
         else if opcode = 0x21 then (case LEB_u32 w p e of Inr (i, p) \<Rightarrow> Some (Wasm_set i, p) | _ \<Rightarrow> None)
         else if opcode = 0x22 then (case LEB_u32 w p e of Inr (i, p) \<Rightarrow> Some (Wasm_tee i, p) | _ \<Rightarrow> None)
         else if opcode = 0x1a then Some (Wasm_drop, p)
         else if opcode = 0x01 then Some (Wasm_nop, p)
         else map_option (\<lambda>f. (Wasm_op f, p)) (wasm_operator opcode))"

primrec body_reads :: "u8 list \<Rightarrow> nat \<Rightarrow> nat \<Rightarrow> wop list \<Rightarrow> bool" where
  "body_reads w p e [] \<longleftrightarrow> p < e \<and> w ! p = 0x0b"
| "body_reads w p e (f # fs) \<longleftrightarrow> (case read_wop w p e of Some (g, p) \<Rightarrow> g = f \<and> body_reads w p e fs | None \<Rightarrow> False)"

section \<open>The table of operators agrees with the specification\<close>

definition commutes :: "binop \<Rightarrow> bool" where
  "commutes b \<longleftrightarrow> b \<in> {Equal, NotEqual, Add, Multiply, And, Or, Xor}"

text \<open>
  The row of an operator: no compiler of its own, the type of its result, and in each column the
  operation of the form that \<^verbatim>\<open>Compile_Operator\<close> takes it for. Only a commutative operator may
  leave out the second form.
\<close>

definition row_ok :: "string \<times> string \<Rightarrow> operator \<Rightarrow> M3OpInfo \<Rightarrow> bool" where
  "row_ok nm w i \<longleftrightarrow> compiler i = None \<and> value_type (oi_type i) = Some (result_type w) \<and>
    (let op = \<lambda>k. operations i ! k; form = (\<lambda>fm. o_Table (fst nm) (snd nm) fm) in
     if (case w of Op_un32 u \<Rightarrow> True | Op_un64 u \<Rightarrow> True | _ \<Rightarrow> False)
     then stackOffset i = 0 \<and> op 0 = form ''r'' \<and> op 1 = form ''s''
     else stackOffset i = - 1 \<and> op 0 = form ''rs'' \<and> op 2 = form ''ss'' \<and>
       (op 1 = op_NULL \<and> (case w of Op_bin32 b \<Rightarrow> commutes b | Op_bin64 b \<Rightarrow> commutes b | _ \<Rightarrow> False) \<or> op 1 = form ''sr''))"

definition numbered_row :: "nat \<times> M3OpInfo \<Rightarrow> nat \<times> (string \<times> string) \<times> operator \<Rightarrow> bool" where
  "numbered_row a r = (case a of (j, i) \<Rightarrow> case r of (k, nm, w) \<Rightarrow> j = k \<and> row_ok nm w i)"

definition rows_at :: "nat \<Rightarrow> nat \<Rightarrow> nat \<Rightarrow> bool" where
  "rows_at k j n \<longleftrightarrow> list_all2 numbered_row (take n (drop k (enumerate 0 c_operations))) (take n (drop j operator_table))"

lemma rows_at_compare: "rows_at 0x45 0 22" by code_simp
lemma rows_at_int: "rows_at 0x67 22 36" by code_simp
lemma rows_at_wrap: "rows_at 0xa7 58 1" by code_simp
lemma rows_at_extend: "rows_at 0xac 59 2" by code_simp
lemma rows_at_signs: "rows_at 0xc0 61 5" by code_simp

lemma length_operator_table: "length operator_table = 66" by code_simp

lemma list_all2_member: "list_all2 P xs ys \<Longrightarrow> y \<in> set ys \<Longrightarrow> \<exists>x\<in>set xs. P x y"
  by (induction rule: list_all2_induct) auto

lemma rows_at_member:
  assumes "rows_at a b n" "(k, nm, w) \<in> set (take n (drop b operator_table))"
  shows "k < length c_operations \<and> row_ok nm w (c_operations ! k)"
proof -
  obtain e where e: "e \<in> set (take n (drop a (enumerate 0 c_operations)))" "numbered_row e (k, nm, w)"
    using list_all2_member [OF assms(1) [unfolded rows_at_def] assms(2)] by blast
  then have "e \<in> set (enumerate 0 c_operations)" by (meson in_set_dropD in_set_takeD)
  then show ?thesis using e(2) by (auto simp: numbered_row_def in_set_enumerate_eq)
qed

lemma operator_table_parts:
  "operator_table = take 22 (drop 0 operator_table) @ take 36 (drop 22 operator_table) @ take 1 (drop 58 operator_table)
    @ take 2 (drop 59 operator_table) @ take 5 (drop 61 operator_table)"
  by (simp add: operator_table_def)

lemma length_c_operations: "length c_operations = 0xc5" by code_simp

lemma table_row:
  assumes "(k, nm, w) \<in> set operator_table"
  shows "k < length c_operations \<and> row_ok nm w (c_operations ! k)"
proof -
  have "(k, nm, w) \<in> set (take 22 (drop 0 operator_table)) \<union> set (take 36 (drop 22 operator_table))
      \<union> set (take 1 (drop 58 operator_table)) \<union> set (take 2 (drop 59 operator_table)) \<union> set (take 5 (drop 61 operator_table))"
    using assms by (subst (asm) operator_table_parts) (simp only: set_append Un_assoc)
  then show ?thesis
    using rows_at_member [OF rows_at_compare] rows_at_member [OF rows_at_int] rows_at_member [OF rows_at_wrap]
      rows_at_member [OF rows_at_extend] rows_at_member [OF rows_at_signs] by blast
qed

lemma GetOpInfo_low: "unat opcode < length c_operations \<Longrightarrow> GetOpInfo opcode = Some (c_operations ! unat opcode)"
proof -
  assume "unat opcode < length c_operations"
  then have "unat opcode < 2 ^ 8" by (simp add: length_c_operations)
  then have "unat (drop_bit 8 opcode) = 0" by (subst unat_drop_bit_eq) (simp add: drop_bit_eq_div)
  then have "drop_bit 8 opcode = 0" by (simp only: unat_eq_zero)
  then show ?thesis using \<open>unat opcode < length c_operations\<close> by (simp add: GetOpInfo_def)
qed

lemma operator_table_names: "list_all (\<lambda>(k, (ty, nm), w). table_op ty nm = Some w) operator_table"
  by code_simp

lemma wasm_operator_row:
  assumes "wasm_operator opcode = Some w"
  obtains ty nm i where "GetOpInfo opcode = Some i" "row_ok (ty, nm) w i" "table_op ty nm = Some w"
proof -
  obtain nm where "(unat opcode, nm, w) \<in> set operator_table"
    using assms by (auto simp: wasm_operator_def dest: map_of_SomeD)
  moreover from this have "case nm of (ty, n) \<Rightarrow> table_op ty n = Some w"
    using operator_table_names by (auto simp: list_all_iff)
  ultimately show ?thesis using that table_row GetOpInfo_low by (cases nm) blast
qed

end
