(* ===== verification/M3_Straight.thy ===== *)
theory M3_Straight
  imports M3_Decode M3_Blocks_Props
begin

text \<open>
  Straight-line code on \<^verbatim>\<open>i32\<close> values: the compiler keeps the operand stack as a record of where each
  value is (a register, an argument, a local, a constant or a slot of its own), and the operations it
  emits have to move the values accordingly.
\<close>

section \<open>Where the values are\<close>

text \<open>The value of a stack entry, in the frame at \<open>sp\<close>.\<close>

definition entry_value :: "M3Compilation \<Rightarrow> nat \<Rightarrow> u64 \<Rightarrow> vm \<Rightarrow> nat \<Rightarrow> u32" where
  "entry_value x sp r0 vm k =
    (if wasmStack x k = d_m3Reg0SlotAlias then ucast r0 else vm_stack vm ! (sp + unat (wasmStack x k)))"

text \<open>
  \<open>vs\<close> are the values of all entries, arguments and locals first; the constants \<open>K\<close> are in the frame,
  which is \<open>F\<close> slots long.
\<close>

definition matches :: "u32 list \<Rightarrow> nat \<Rightarrow> M3Compilation \<Rightarrow> nat \<Rightarrow> u64 \<Rightarrow> vm \<Rightarrow> u32 list \<Rightarrow> bool" where
  "matches K F x sp r0 vm vs \<longleftrightarrow>
     length vs = unat (stackIndex x)
   \<and> (\<forall>k < length vs. entry_value x sp r0 vm k = vs ! k)
   \<and> (\<forall>i < length K. vm_stack vm ! (sp + unat (slotFirstConstIndex x) + i) = K ! i)
   \<and> sp + F \<le> length (vm_stack vm)"

text \<open>A frame and a constant table that serve the compilation up to here.\<close>

definition serves :: "u32 list \<Rightarrow> nat \<Rightarrow> M3Compilation \<Rightarrow> bool" where
  "serves K F x \<longleftrightarrow> unat (maxStackSlots x) \<le> F
   \<and> unat (slotFirstConstIndex x) + length K \<le> unat (slotFirstDynamicIndex x)
   \<and> unat (slotMaxConstIndex x) - unat (slotFirstConstIndex x) \<le> length K
   \<and> (\<forall>i < unat (slotMaxConstIndex x) - unat (slotFirstConstIndex x). m3Slots x (unat (slotFirstConstIndex x) + i) \<noteq> 0 \<longrightarrow> K ! i = constants x i)"

text \<open>What later compilation keeps.\<close>

definition grows :: "M3Compilation \<Rightarrow> M3Compilation \<Rightarrow> bool" where
  "grows x y \<longleftrightarrow> slotFirstConstIndex y = slotFirstConstIndex x \<and> slotFirstDynamicIndex y = slotFirstDynamicIndex x
   \<and> stackFirstDynamicIndex y = stackFirstDynamicIndex x \<and> block y = block x \<and> outer y = outer x
   \<and> has_page y = has_page x \<and> cur_page y = cur_page x \<and> co_function y = co_function x
   \<and> co_wasm y = co_wasm x \<and> co_wasmEnd y = co_wasmEnd x \<and> maxStackSlots x \<le> maxStackSlots y \<and> slotMaxConstIndex x \<le> slotMaxConstIndex y
   \<and> (\<forall>i < unat (slotMaxConstIndex x) - unat (slotFirstConstIndex x). m3Slots x (unat (slotFirstConstIndex x) + i) \<noteq> 0 \<longrightarrow>
        m3Slots y (unat (slotFirstConstIndex x) + i) \<noteq> 0 \<and> constants y i = constants x i)"

lemma grows_refl [simp]: "grows x x"
  by (simp add: grows_def)

lemma grows_trans: "grows x y \<Longrightarrow> grows y z \<Longrightarrow> grows x z"
  by (auto simp: grows_def word_le_nat_alt)


lemma serves_grows: "serves K F y \<Longrightarrow> grows x y \<Longrightarrow> serves K F x"
proof -
  assume s: "serves K F y" and g: "grows x y"
  have le: "unat (slotMaxConstIndex x) \<le> unat (slotMaxConstIndex y)" "unat (maxStackSlots x) \<le> unat (maxStackSlots y)"
    and eq: "slotFirstConstIndex y = slotFirstConstIndex x" "slotFirstDynamicIndex y = slotFirstDynamicIndex x"
    using g by (simp_all add: grows_def word_le_nat_alt)
  have "K ! i = constants x i"
    if "i < unat (slotMaxConstIndex x) - unat (slotFirstConstIndex x)" "m3Slots x (unat (slotFirstConstIndex x) + i) \<noteq> 0" for i
  proof -
    have "m3Slots y (unat (slotFirstConstIndex y) + i) \<noteq> 0" "constants y i = constants x i"
      using g that eq by (simp_all add: grows_def)
    then show ?thesis using s le(1) that(1) eq by (simp add: serves_def)
  qed
  then show ?thesis using s le eq by (auto simp: serves_def)
qed

text \<open>The state of the compiler inside the body of a function with \<open>n\<close> arguments and locals, all values \<^verbatim>\<open>i32\<close>.\<close>

definition cfg :: "nat \<Rightarrow> M3Compilation \<Rightarrow> bool" where
  "cfg n x \<longleftrightarrow> has_page x \<and> \<not> isPolymorphic (block x) \<and> outer x = []
   \<and> unat (stackFirstDynamicIndex x) = n \<and> unat (blockStackIndex (block x)) = n \<and> stack_ok {} (\<lambda>_. 0) x
   \<and> (\<forall>k < unat (stackIndex x). typeStack x k = c_m3Type_i32 \<and>
        (wasmStack x k = d_m3Reg0SlotAlias \<or> unat (wasmStack x k) < unat (maxStackSlots x)))
   \<and> (\<forall>k < n. unat (wasmStack x k) < unat (slotFirstConstIndex x)) \<and> inj_on (wasmStack x) {..< n}
   \<and> slotFirstConstIndex x \<le> slotMaxConstIndex x \<and> slotMaxConstIndex x \<le> slotFirstDynamicIndex x
   \<and> slotFirstDynamicIndex x \<le> maxStackSlots x \<and> unat (maxStackSlots x) \<le> d_m3MaxFunctionSlots"

lemma cfg_bounds:
  assumes "cfg n x"
  shows "n \<le> unat (stackIndex x)" "unat (stackIndex x) \<le> 2000" "unat (slotFirstDynamicIndex x) \<le> 4000"
    "unat (slotFirstConstIndex x) \<le> unat (slotFirstDynamicIndex x)" "unat (slotFirstDynamicIndex x) \<le> unat (maxStackSlots x)"
    "unat (maxStackSlots x) \<le> 4000"
  using assms order_trans unfolding cfg_def stack_ok_def word_le_nat_alt by auto

lemma cfg_cong:
  assumes "cfg n x" "stackIndex y = stackIndex x" "slotFirstDynamicIndex y = slotFirstDynamicIndex x"
    "block y = block x" "wasmStack y = wasmStack x" "typeStack y = typeStack x"
    "m3Slots y = m3Slots x" "regStackIndexPlusOne y = regStackIndexPlusOne x" "has_page y = has_page x" "outer y = outer x"
    "stackFirstDynamicIndex y = stackFirstDynamicIndex x" "maxStackSlots y = maxStackSlots x"
    "slotFirstConstIndex y = slotFirstConstIndex x" "slotMaxConstIndex y = slotMaxConstIndex x"
  shows "cfg n y"
proof -
  have "stack_ok {} (\<lambda>_. 0) y = stack_ok {} (\<lambda>_. 0) x" using assms by (intro stack_ok_cong) simp_all
  then show ?thesis using assms unfolding cfg_def by simp
qed

text \<open>Register 0 is free exactly when no entry is in it; register 1 is free.\<close>

lemma cfg_register_free:
  assumes "cfg n x"
  shows "regStackIndexPlusOne x 0 = 0 \<longleftrightarrow> (\<forall>k < unat (stackIndex x). wasmStack x k \<noteq> d_m3Reg0SlotAlias)"
  using assms unfolding cfg_def stack_ok_def reg_ok_def reg_alias_def
  by (metis (no_types, lifting) add.commute add_eq_0_iff_both_eq_0 empty_iff unsigned_0 zero_neq_one)

lemma cfg_register_unique:
  "cfg n x \<Longrightarrow> k < unat (stackIndex x) \<Longrightarrow> l < unat (stackIndex x) \<Longrightarrow> wasmStack x k = d_m3Reg0SlotAlias \<Longrightarrow>
    wasmStack x l = d_m3Reg0SlotAlias \<Longrightarrow> k = l"
  unfolding cfg_def stack_ok_def reg_ok_def reg_alias_def by (metis (no_types, lifting) add_right_cancel empty_iff)

section \<open>Steps of the compiler against steps of the machine\<close>

primrec exec_seq :: "exec_env \<Rightarrow> instr list \<Rightarrow> nat \<Rightarrow> u64 \<Rightarrow> vm \<Rightarrow> (u64 \<times> vm) result" where
  "exec_seq E [] sp r0 vm = Inr (r0, vm)"
| "exec_seq E (i # is) sp r0 vm = tryR (exec_simple E i sp r0 vm) (\<lambda>(r0, vm). exec_seq E is sp r0 vm)"

lemma exec_seq_append:
  "exec_seq E (is @ is') sp r0 vm = tryR (exec_seq E is sp r0 vm) (\<lambda>(r0, vm). exec_seq E is' sp r0 vm)"
  by (induction "is" arbitrary: r0 vm) (auto simp: tryR_assoc intro!: tryR_cong)

text \<open>Only the frame changes.\<close>

definition same_outside :: "nat \<Rightarrow> nat \<Rightarrow> vm \<Rightarrow> vm \<Rightarrow> bool" where
  "same_outside F sp vm vm' \<longleftrightarrow> (\<exists>s. vm' = vm\<lparr>vm_stack := s\<rparr> \<and> length s = length (vm_stack vm)
     \<and> (\<forall>i. i < sp \<or> sp + F \<le> i \<longrightarrow> s ! i = vm_stack vm ! i))"

lemma same_outside_refl [simp]: "same_outside F sp vm vm"
  unfolding same_outside_def by (rule exI [of _ "vm_stack vm"]) simp

lemma same_outside_trans: "same_outside F sp vm1 vm2 \<Longrightarrow> same_outside F sp vm2 vm3 \<Longrightarrow> same_outside F sp vm1 vm3"
  unfolding same_outside_def by auto

text \<open>
  From \<open>x\<close> to \<open>y\<close> the compiler emits operations that do to the values what \<open>f\<close> does: they trap when
  \<open>f\<close> traps.
\<close>

definition does :: "(u32 list \<Rightarrow> u32 list result) \<Rightarrow> exec_env \<Rightarrow> u32 list \<Rightarrow> nat \<Rightarrow> M3Compilation \<Rightarrow> M3Compilation \<Rightarrow> instr list \<Rightarrow> bool" where
  "does f E K F x y is \<longleftrightarrow>
    (\<forall>sp r0 vm vs. matches K F x sp r0 vm vs \<longrightarrow>
      (case f vs of
         Inl e \<Rightarrow> exec_seq E is sp r0 vm = Inl e
       | Inr vs' \<Rightarrow> \<exists>r0' vm'. exec_seq E is sp r0 vm = Inr (r0', vm') \<and> matches K F y sp r0' vm' vs' \<and> same_outside F sp vm vm'))"

definition sim :: "nat \<Rightarrow> M3Compilation \<Rightarrow> (u32 list \<Rightarrow> u32 list result) \<Rightarrow> M3Compilation \<Rightarrow> bool" where
  "sim n x f y \<longleftrightarrow> cfg n y \<and> grows x y \<and>
    (\<exists>ws is. code y = code x @ ws \<and> decodes ws is \<and> (\<forall>E K F. serves K F y \<longrightarrow> does f E K F x y is))"

lemma does_trans:
  assumes "does f E K F x y is" "does g E K F y z is'"
  shows "does (\<lambda>vs. tryR (f vs) g) E K F x z (is @ is')"
  unfolding does_def
proof (intro allI impI)
  fix sp r0 vm vs
  assume m: "matches K F x sp r0 vm vs"
  show "case tryR (f vs) g of Inl e \<Rightarrow> exec_seq E (is @ is') sp r0 vm = Inl e
      | Inr vs' \<Rightarrow> \<exists>r0' vm'. exec_seq E (is @ is') sp r0 vm = Inr (r0', vm') \<and> matches K F z sp r0' vm' vs' \<and> same_outside F sp vm vm'"
  proof (cases "f vs")
    case (Inl e)
    moreover from this have "exec_seq E is sp r0 vm = Inl e" using assms(1) m unfolding does_def by force
    ultimately show ?thesis by (simp add: exec_seq_append)
  next
    case (Inr vs1)
    then obtain r1 vm1 where 1: "exec_seq E is sp r0 vm = Inr (r1, vm1)" "matches K F y sp r1 vm1 vs1" "same_outside F sp vm vm1"
      using assms(1) m unfolding does_def by fastforce
    have "case g vs1 of Inl e \<Rightarrow> exec_seq E is' sp r1 vm1 = Inl e
      | Inr vs' \<Rightarrow> \<exists>r0' vm'. exec_seq E is' sp r1 vm1 = Inr (r0', vm') \<and> matches K F z sp r0' vm' vs' \<and> same_outside F sp vm1 vm'"
      using assms(2) 1(2) unfolding does_def by blast
    then show ?thesis using Inr 1 same_outside_trans by (fastforce simp: exec_seq_append split: sum.splits)
  qed
qed

lemma sim_trans:
  assumes "sim n x f y" "sim n y g z"
  shows "sim n x (\<lambda>vs. tryR (f vs) g) z"
proof -
  obtain ws "is" where 1: "code y = code x @ ws" "decodes ws is" "\<And>E K F. serves K F y \<Longrightarrow> does f E K F x y is"
    using assms(1) unfolding sim_def by blast
  obtain ws' is' where 2: "code z = code y @ ws'" "decodes ws' is'" "\<And>E K F. serves K F z \<Longrightarrow> does g E K F y z is'"
    using assms(2) unfolding sim_def by blast
  have "does (\<lambda>vs. tryR (f vs) g) E K F x z (is @ is')" if "serves K F z" for E K F
  proof (rule does_trans)
    have "grows y z" using assms(2) by (simp add: sim_def)
    then show "does f E K F x y is" using 1(3) serves_grows [OF that] by blast
  qed (rule 2(3) [OF that])
  moreover have "code z = code x @ (ws @ ws')" using 1 2 by simp
  ultimately show ?thesis
    using assms decodes_append [OF 1(2) 2(2)] grows_trans unfolding sim_def by blast
qed

lemma sim_refl: "cfg n x \<Longrightarrow> sim n x Inr x"
  unfolding sim_def by (intro conjI exI [of _ "[]"]) (auto simp: does_def decodes_nil)

section \<open>The operations on the operand stack\<close>

definition ext :: "nat \<Rightarrow> M3Compilation \<Rightarrow> M3Compilation \<Rightarrow> code_word list \<Rightarrow> bool" where
  "ext n x y ws \<longleftrightarrow> cfg n y \<and> grows x y \<and> code y = code x @ ws"

lemma ext_trans: "ext n x y ws \<Longrightarrow> ext n y z ws' \<Longrightarrow> ext n x z (ws @ ws')"
  unfolding ext_def using grows_trans by auto

lemma ext_emit_op:
  assumes "cfg n x" "emit_op pg x op = Inr y"
  shows "ext n x y [W_op op] \<and> wasmStack y = wasmStack x \<and> stackIndex y = stackIndex x"
proof -
  have y: "y = x\<lparr>requests := requests x + 1, code := code x @ [W_op op]\<rparr>"
    using assms by (auto simp: emit_op_def emit_word_def cfg_def split: if_splits)
  have "cfg n y" by (rule cfg_cong [OF assms(1)]) (simp_all add: y)
  then show ?thesis by (simp add: ext_def y grows_def)
qed

lemma ext_emit_word:
  assumes "cfg n x"
  shows "ext n x (emit_word x w) [w] \<and> wasmStack (emit_word x w) = wasmStack x \<and> stackIndex (emit_word x w) = stackIndex x"
proof -
  have y: "emit_word x w = x\<lparr>code := code x @ [w]\<rparr>"
    using assms by (auto simp: emit_word_def cfg_def)
  have "cfg n (emit_word x w)" by (rule cfg_cong [OF assms(1)]) (simp_all add: y)
  then show ?thesis by (simp add: ext_def y grows_def)
qed

lemma cfg_entry:
  assumes "cfg n x" "k < unat (stackIndex x)"
  shows "wasmStack x k = 60000 \<or> unat (wasmStack x k) < 4000 \<and> unat (wasmStack x k) < unat (maxStackSlots x)"
    and "typeStack x k = 1"
proof -
  note b = cfg_bounds [OF assms(1)]
  show "typeStack x k = 1" using assms by (simp add: cfg_def)
  have "wasmStack x k = 60000 \<or> unat (wasmStack x k) < unat (maxStackSlots x)" using assms by (simp add: cfg_def)
  then show "wasmStack x k = 60000 \<or> unat (wasmStack x k) < 4000 \<and> unat (wasmStack x k) < unat (maxStackSlots x)"
    using b(6) by auto
qed

lemma GetTypeNumSlots_i32 [simp]: "num_slots 1 = 1" "IsFpType 1 = False" "Is64BitType 1 = False"
  by (simp_all add: IsFpType_def Is64BitType_def)

lemma reg_select_False [simp]: "reg_select False = 0"
  by (simp add: reg_select_def)

lemma Pop_fields:
  assumes "cfg n x" "Pop x = Inr y"
  shows "n < unat (stackIndex x)"
    and "\<exists>m r. y = x\<lparr>stackIndex := stackIndex x - 1, m3Slots := m, regStackIndexPlusOne := r\<rparr>
      \<and> (\<forall>s < unat (slotFirstDynamicIndex x). m s = m3Slots x s)"
proof -
  have lt: "blockStackIndex (block x) < stackIndex x" and np: "\<not> isPolymorphic (block x)"
    using assms by (auto simp: Pop_def cfg_def split: if_splits)
  then show "n < unat (stackIndex x)" using assms(1) by (simp add: cfg_def word_less_nat_alt)
  let ?q = "x\<lparr>stackIndex := stackIndex x - 1\<rparr>"
  let ?s = "wasmStack x (unat (stackIndex x - 1))" and ?t = "typeStack x (unat (stackIndex x - 1))"
  consider "y = DeallocateRegister ?q (reg_select (IsFpRegisterSlotAlias ?s))"
    | "y = ?q" | "slotFirstDynamicIndex x \<le> ?s" "y = DeallocateSlots ?q (unat ?s) (num_slots ?t)"
    using assms(2) lt by (auto simp: Pop_def Let_def DeallocateSlot_def split: if_splits)
  then show "\<exists>m r. y = x\<lparr>stackIndex := stackIndex x - 1, m3Slots := m, regStackIndexPlusOne := r\<rparr>
      \<and> (\<forall>s < unat (slotFirstDynamicIndex x). m s = m3Slots x s)"
  proof cases
    case 1
    then show ?thesis by (auto simp: DeallocateRegister_def intro!: exI [of _ "m3Slots x"])
  next
    case 2
    then show ?thesis by (intro exI [of _ "m3Slots x"] exI [of _ "regStackIndexPlusOne x"]) simp
  next
    case 3
    then show ?thesis
      by (intro exI [of _ "m3Slots y"] exI [of _ "regStackIndexPlusOne x"])
        (auto simp: DeallocateSlots_eq word_le_nat_alt)
  qed
qed

lemma ext_Pop:
  assumes "cfg n x" "Pop x = Inr y"
  shows "ext n x y [] \<and> n < unat (stackIndex x) \<and> unat (stackIndex x) = Suc (unat (stackIndex y)) \<and> wasmStack y = wasmStack x"
proof -
  note P = Pop_fields [OF assms]
  obtain m r where y: "y = x\<lparr>stackIndex := stackIndex x - 1, m3Slots := m, regStackIndexPlusOne := r\<rparr>"
    and m: "\<And>s. s < unat (slotFirstDynamicIndex x) \<Longrightarrow> m s = m3Slots x s" using P(2) by blast
  have si: "unat (stackIndex x) = Suc (unat (stackIndex y))"
  proof -
    have "stackIndex x \<noteq> 0" using P(1) by auto
    then show ?thesis using P(1) by (simp add: y unat_minus_one)
  qed
  have "stack_ok {} (\<lambda>_. 0) y" using Pop_ok assms by (auto simp: cfg_def)
  then have "cfg n y" using assms(1) si by (simp add: cfg_def y)
  moreover have "grows x y"
    using m cfg_bounds(4) [OF assms(1)] assms(1) unfolding cfg_def grows_def word_le_nat_alt by (auto simp: y)
  ultimately show ?thesis using P(1) si by (simp add: ext_def y)
qed

lemma ext_PushRegister:
  assumes "cfg n x" "\<forall>k < unat (stackIndex x). wasmStack x k \<noteq> d_m3Reg0SlotAlias" "PushRegister x 1 = Inr y"
  shows "ext n x y [] \<and> unat (stackIndex y) = Suc (unat (stackIndex x))
    \<and> wasmStack y = (wasmStack x)(unat (stackIndex x) := d_m3Reg0SlotAlias)"
proof -
  have lt: "unat (stackIndex x) < 2000" using assms(3) by (auto simp: PushRegister_def Push_eq split: if_splits)
  have y: "y = AllocateRegister (pushed x 1 60000) 0 (stackIndex x)"
    using assms(3) lt by (auto simp: PushRegister_def Push_eq IsRegisterSlotAlias_def IsFpRegisterSlotAlias_def)
  have si: "unat (stackIndex y) = Suc (unat (stackIndex x))"
    using lt by (simp add: y AllocateRegister_def pushed_def unat_inc16)
  have "regStackIndexPlusOne x 0 = 0" using cfg_register_free assms(1,2) by blast
  then have "stack_ok {} (\<lambda>_. 0) y"
    using PushRegister_ok [OF _ assms(3)] assms(1) by (simp add: cfg_def IsRegisterTypeAllocated_def IsRegisterAllocated_def)
  moreover have "inj_on (wasmStack y) {..< n} \<and> (\<forall>k < n. wasmStack y k = wasmStack x k)"
    using assms(1) cfg_bounds(1) [OF assms(1)] by (auto simp: cfg_def y AllocateRegister_def pushed_def inj_on_def)
  ultimately have "cfg n y" using assms(1) si by (auto simp: cfg_def y AllocateRegister_def pushed_def less_Suc_eq)
  then show ?thesis using si by (simp add: ext_def y AllocateRegister_def pushed_def grows_def)
qed

lemma ext_Push_static:
  assumes "cfg n x" "unat j < unat (slotFirstDynamicIndex x)" "Push x 1 j = Inr y"
  shows "ext n x y [] \<and> unat (stackIndex y) = Suc (unat (stackIndex x)) \<and> wasmStack y = (wasmStack x)(unat (stackIndex x) := j)"
proof -
  note b = cfg_bounds [OF assms(1)]
  have lt: "unat (stackIndex x) < 2000" using assms(3) by (auto simp: Push_eq split: if_splits)
  have y: "y = pushed x 1 j"
    using assms(2,3) lt b(3) by (auto simp: Push_eq IsRegisterSlotAlias_def word_le_nat_alt)
  have si: "unat (stackIndex y) = Suc (unat (stackIndex x))" using lt by (simp add: y pushed_def unat_inc16)
  have "stack_ok {} (\<lambda>_. 0) y" using Push_static_ok [OF _ assms(3)] assms(1,2) by (simp add: cfg_def)
  moreover have "inj_on (wasmStack y) {..< n} \<and> (\<forall>k < n. wasmStack y k = wasmStack x k)"
    using assms(1) b(1) by (auto simp: cfg_def y pushed_def inj_on_def)
  ultimately have "cfg n y" using assms(1,2) si b(5) by (auto simp: cfg_def y pushed_def less_Suc_eq)
  then show ?thesis using si by (simp add: ext_def y pushed_def grows_def)
qed

text \<open>Allocation: the slot is dynamic, inside the frame and nobody's.\<close>

lemma AllocateSlots_fields:
  assumes "stack_ok {} P x" "AllocateSlots x 1 = Inr (j, y)"
  shows "unat (slotFirstDynamicIndex x) \<le> unat j \<and> unat j < 4000 \<and> (\<forall>k < unat (stackIndex x). wasmStack x k \<noteq> j) \<and> P (unat j) = 0"
    and "\<exists>b. y = x\<lparr>m3Slots := (m3Slots x)(unat j := 1), slotMaxAllocatedIndexPlusOne := b, maxStackSlots := max (maxStackSlots x) (j + 1)\<rparr>"
proof -
  note A = AllocateSlots_Inr [OF assms]
  have "users {} x (unat j) = {}" using A(5) by simp
  moreover have lt: "unat j < 4000" using A(3) by simp
  ultimately have "\<forall>k < unat (stackIndex x). wasmStack x k \<noteq> j"
    using num_slots_bounds(1) by (auto simp: users_def occupies_def word_le_nat_alt)
  then show "unat (slotFirstDynamicIndex x) \<le> unat j \<and> unat j < 4000 \<and> (\<forall>k < unat (stackIndex x). wasmStack x k \<noteq> j) \<and> P (unat j) = 0"
    using A lt by simp
  show "\<exists>b. y = x\<lparr>m3Slots := (m3Slots x)(unat j := 1), slotMaxAllocatedIndexPlusOne := b, maxStackSlots := max (maxStackSlots x) (j + 1)\<rparr>"
    using assms(2) by (auto simp: AllocateSlots_def AllocateSlotsWithinRange_def Let_def m3_result MarkSlotAllocated_def
        TouchSlot_def split: option.splits if_splits)
qed

text \<open>A value written to slot \<open>j\<close> of the frame.\<close>

definition put :: "nat \<Rightarrow> nat \<Rightarrow> u32 \<Rightarrow> vm \<Rightarrow> vm" where
  "put sp j v vm = vm\<lparr>vm_stack := (vm_stack vm)[sp + j := v]\<rparr>"

lemma length_put [simp]: "length (vm_stack (put sp j v vm)) = length (vm_stack vm)"
  by (simp add: put_def)

lemma get_slot_put:
  "sp + j < length (vm_stack vm) \<Longrightarrow> vm_stack (put sp j v vm) ! (sp + i) = (if i = j then v else vm_stack vm ! (sp + i))"
  by (simp add: put_def)

lemma set_slot_put: "sp + j < length (vm_stack vm) \<Longrightarrow> set_slot T_i32 sp j v vm = Inr (put sp j (ucast v) vm)"
  by (simp add: set_slot_def put_def)

lemma same_outside_put: "j < F \<Longrightarrow> same_outside F sp vm (put sp j v vm)"
  unfolding same_outside_def put_def by (rule exI [of _ "(vm_stack vm)[sp + j := v]"]) auto

text \<open>
  After the write the entries may be recorded differently: those whose record is now slot \<open>j\<close> have the
  value, the others have not moved.
\<close>

lemma matches_put:
  assumes m: "matches K F x sp r0 vm vs" and j: "j < F"
    and c: "\<not> (unat (slotFirstConstIndex x) \<le> j \<and> j < unat (slotFirstConstIndex x) + length K)"
    and y: "stackIndex y = stackIndex x" "slotFirstConstIndex y = slotFirstConstIndex x" "length vs' = length vs"
    and e: "\<And>k. k < unat (stackIndex x) \<Longrightarrow>
      (if wasmStack y k \<noteq> 60000 \<and> unat (wasmStack y k) = j then vs' ! k = v else wasmStack y k = wasmStack x k \<and> vs' ! k = vs ! k)"
  shows "matches K F y sp r0 (put sp j v vm) vs'"
proof -
  have sj: "sp + j < length (vm_stack vm)" using m j by (simp add: matches_def)
  have "entry_value y sp r0 (put sp j v vm) k = vs' ! k" if "k < unat (stackIndex x)" for k
  proof -
    have "entry_value x sp r0 vm k = vs ! k" using m that by (simp add: matches_def)
    then show ?thesis using e [OF that] by (auto simp: entry_value_def get_slot_put [OF sj] split: if_splits)
  qed
  moreover have "vm_stack (put sp j v vm) ! (sp + unat (slotFirstConstIndex x) + i) = K ! i" if "i < length K" for i
  proof -
    have "j \<noteq> unat (slotFirstConstIndex x) + i" using c that by auto
    then show ?thesis using m that by (simp add: matches_def put_def)
  qed
  ultimately show ?thesis using m y by (simp add: matches_def)
qed

lemma touched:
  assumes "unat j < 4000"
  shows "unat (max m (j + 1)) = max (unat m) (Suc (unat (j :: u16)))"
  using assms by (simp add: max_def word_le_nat_alt unat_inc16)

lemma unat_slot [simp]: "unat (ucast (j :: u16) :: u32) = unat j"
  using unat_lt16 [of j] by (simp add: unsigned_ucast_eq take_bit_nat_eq_self)

lemma grows_dynamic:
  assumes "cfg n x" "\<And>s. s < unat (slotFirstDynamicIndex x) \<Longrightarrow> m3Slots y s = m3Slots x s"
    "slotFirstConstIndex y = slotFirstConstIndex x" "slotFirstDynamicIndex y = slotFirstDynamicIndex x"
    "stackFirstDynamicIndex y = stackFirstDynamicIndex x" "block y = block x" "outer y = outer x"
    "has_page y = has_page x" "cur_page y = cur_page x" "co_function y = co_function x"
    "co_wasm y = co_wasm x" "co_wasmEnd y = co_wasmEnd x" "maxStackSlots x \<le> maxStackSlots y" "slotMaxConstIndex y = slotMaxConstIndex x" "constants y = constants x"
  shows "grows x y"
proof -
  have "unat (slotFirstConstIndex x) + i < unat (slotFirstDynamicIndex x)"
    if "i < unat (slotMaxConstIndex x) - unat (slotFirstConstIndex x)" for i
    using assms(1) that by (auto simp: cfg_def word_le_nat_alt)
  then show ?thesis using assms by (simp add: grows_def)
qed

lemma cfg_local:
  assumes "cfg n x" "k < n"
  shows "unat (wasmStack x k) < unat (slotFirstConstIndex x)" "wasmStack x k \<noteq> 60000" "k < unat (stackIndex x)"
proof -
  show lt: "unat (wasmStack x k) < unat (slotFirstConstIndex x)" using assms by (simp add: cfg_def)
  then show "wasmStack x k \<noteq> 60000" using cfg_bounds [OF assms(1)] by auto
  show "k < unat (stackIndex x)" using assms(2) cfg_bounds(1) [OF assms(1)] by simp
qed

lemma sim_PreserveRegister:
  assumes "cfg n x" "PreserveRegisterIfOccupied pg x 1 = Inr y"
  shows "sim n x Inr y \<and> (\<forall>k < unat (stackIndex y). wasmStack y k \<noteq> d_m3Reg0SlotAlias) \<and> stackIndex y = stackIndex x"
proof (cases "IsRegisterAllocated x 0")
  case False
  then have "y = x" using assms(2) by (simp add: PreserveRegisterIfOccupied_def)
  moreover have "\<forall>k < unat (stackIndex x). wasmStack x k \<noteq> d_m3Reg0SlotAlias"
    using False cfg_register_free [OF assms(1)] by (simp add: IsRegisterAllocated_def)
  ultimately show ?thesis using sim_refl [OF assms(1)] by simp
next
  case True
  note ok = PreserveRegisterIfOccupied_ok [of "{}" "\<lambda>_. 0" x pg 1 y]
  let ?k = "unat (GetRegisterStackIndex x 0)" and ?q = "DeallocateRegister x 0"
  obtain k where k: "k < unat (stackIndex x)" "wasmStack x k = 60000" "unat (regStackIndexPlusOne x 0) = k + 1"
    using assms(1) True unfolding cfg_def stack_ok_def reg_ok_def reg_alias_def IsRegisterAllocated_def by fastforce
  have kk: "?k = k" using k(3) True by (simp add: GetRegisterStackIndex_def unat_minus_one IsRegisterAllocated_def)
  have ty: "GetStackTypeFromBottom ?q (GetRegisterStackIndex x 0) = 1"
    using k(1) kk cfg_entry(2) [OF assms(1) k(1)] by (simp add: GetStackTypeFromBottom_def DeallocateRegister_def word_less_nat_alt)
  obtain j o1 o2 where 1: "AllocateSlots ?q 1 = Inr (j, o1)" "emit_op pg (o1\<lparr>wasmStack := (wasmStack o1)(k := j)\<rparr>) (op_SetSlot 1) = Inr o2"
    "y = emit_slot o2 j"
    using assms(2) True ty kk by (auto simp: PreserveRegisterIfOccupied_def Let_def m3_result typed_op_def split: if_splits)
  have us: "users {} ?q s = users {} x s" for s by (simp add: users_def occupies_def DeallocateRegister_def)
  have fd: "unat (slotFirstDynamicIndex ?q) \<le> 4000"
    and cnt: "\<And>s. unat (slotFirstDynamicIndex ?q) \<le> s \<Longrightarrow> unat (m3Slots ?q s) = card (users {} ?q s) + 0"
    using assms(1) us by (simp_all add: cfg_def stack_ok_def DeallocateRegister_def)
  note core = AllocateSlots_core [OF fd cnt 1(1)]
  have j: "unat (slotFirstDynamicIndex x) \<le> unat j" "unat j < 4000" using core(1,2) by (simp_all add: DeallocateRegister_def)
  have "users {} x (unat j) = {}" using core(4) us by simp
  then have fresh: "wasmStack x i \<noteq> j" if "i < unat (stackIndex x)" for i
    using that j(2) num_slots_bounds(1) by (auto simp: users_def occupies_def word_le_nat_alt)
  then have fresh': "unat (wasmStack x i) \<noteq> unat j" if "i < unat (stackIndex x)" for i using that by (simp add: word_unat_eq_iff)
  obtain b where o1: "o1 = ?q\<lparr>m3Slots := (m3Slots x)(unat j := 1), slotMaxAllocatedIndexPlusOne := b, maxStackSlots := max (maxStackSlots x) (j + 1)\<rparr>"
    using 1(1) by (auto simp: AllocateSlots_def AllocateSlotsWithinRange_def Let_def m3_result MarkSlotAllocated_def
        TouchSlot_def DeallocateRegister_def split: option.splits if_splits)
  have hp: "has_page x" using assms(1) by (simp add: cfg_def)
  have y: "y = x\<lparr>regStackIndexPlusOne := (regStackIndexPlusOne x)(0 := 0), m3Slots := (m3Slots x)(unat j := 1),
      slotMaxAllocatedIndexPlusOne := b, maxStackSlots := max (maxStackSlots x) (j + 1), wasmStack := (wasmStack x)(k := j),
      requests := requests x + 1, code := code x @ [W_op (op_SetSlot 1), W_32 (ucast j)]\<rparr>"
    using 1(2,3) hp by (auto simp: emit_op_def emit_slot_def emit_word_def o1 DeallocateRegister_def split: if_splits)
  have free: "wasmStack y i \<noteq> 60000" if "i < unat (stackIndex x)" for i
    using that j(2) cfg_register_unique [OF assms(1) _ _ _ k(2), of i] k(1) by (auto simp: y)
  note b = cfg_bounds [OF assms(1)]
  have kn: "n \<le> k" using cfg_local(2) [OF assms(1), of k] k(2) by (metis not_le)
  have "stack_ok {} (\<lambda>_. 0) y" using ok assms by (simp add: cfg_def)
  moreover have "inj_on (wasmStack y) {..< n} \<and> (\<forall>i < n. wasmStack y i = wasmStack x i)"
    using assms(1) kn by (auto simp: cfg_def y inj_on_def)
  moreover have ms: "unat (maxStackSlots y) = max (unat (maxStackSlots x)) (Suc (unat j))" using touched [OF j(2)] by (simp add: y)
  moreover have "typeStack y i = 1 \<and> (wasmStack y i = 60000 \<or> unat (wasmStack y i) < unat (maxStackSlots y))"
    if "i < unat (stackIndex x)" for i
    using cfg_entry [OF assms(1) that] ms by (auto simp: y less_max_iff_disj)
  moreover have "slotFirstDynamicIndex x \<le> maxStackSlots y \<and> unat (maxStackSlots y) \<le> 4000"
    using ms b(5,6) j(2) by (simp add: word_le_nat_alt)
  ultimately have c: "cfg n y"
    using assms(1) unfolding cfg_def by (simp add: y)
  have g: "grows x y" by (rule grows_dynamic [OF assms(1)]) (use j(1) in \<open>auto simp: y\<close>)
  have "decodes [W_op (op_SetSlot 1), W_32 (ucast j)] [I_SetSlot T_i32 (unat j)]"
    by (rule decodes_single) (simp_all add: word_instr_def slot_instr_def value_type_def is_op_def)
  moreover have "does Inr E K F x y [I_SetSlot T_i32 (unat j)]" if "serves K F y" for E K F
    unfolding does_def
  proof (intro allI impI)
    fix sp r0 vm vs
    assume m: "matches K F x sp r0 vm vs"
    have jF: "unat j < F" using that touched [OF j(2)] by (auto simp: serves_def y)
    then have sj: "sp + unat j < length (vm_stack vm)" using m by (simp add: matches_def)
    have c: "\<not> (unat (slotFirstConstIndex x) \<le> unat j \<and> unat j < unat (slotFirstConstIndex x) + length K)"
      using that j(1) by (simp add: serves_def y)
    have "vs ! k = ucast r0"
    proof -
      have "entry_value x sp r0 vm k = vs ! k" using m k(1) by (simp add: matches_def)
      then show ?thesis using k(2) by (simp add: entry_value_def)
    qed
    then have e: "if wasmStack y i \<noteq> 60000 \<and> unat (wasmStack y i) = unat j then vs ! i = ucast r0
        else wasmStack y i = wasmStack x i \<and> vs ! i = vs ! i" if "i < unat (stackIndex x)" for i
      using fresh' [OF that] free [OF that] by (cases "i = k") (simp_all add: y)
    have "matches K F y sp r0 (put sp (unat j) (ucast r0) vm) vs"
      by (rule matches_put [OF m jF c _ _ _ e]) (simp_all add: y)
    then show "case Inr vs of Inl e \<Rightarrow> exec_seq E [I_SetSlot T_i32 (unat j)] sp r0 vm = Inl e
      | Inr vs' \<Rightarrow> \<exists>r0' vm'. exec_seq E [I_SetSlot T_i32 (unat j)] sp r0 vm = Inr (r0', vm')
          \<and> matches K F y sp r0' vm' vs' \<and> same_outside F sp vm vm'"
      using same_outside_put [OF jF] sj by (simp add: exec_simple_def set_slot_put)
  qed
  ultimately have "sim n x Inr y" unfolding sim_def using c g by (auto simp: y)
  then show ?thesis using free by (simp add: y)
qed

section \<open>Constants, locals, drop\<close>

lemma matches_push:
  assumes "matches K F x sp r0 vm vs" "unat (stackIndex y) = Suc (unat (stackIndex x))"
    "wasmStack y = (wasmStack x)(unat (stackIndex x) := j)" "slotFirstConstIndex y = slotFirstConstIndex x"
    "entry_value y sp r0 vm (unat (stackIndex x)) = v"
  shows "matches K F y sp r0 vm (vs @ [v])"
  using assms by (auto simp: matches_def entry_value_def nth_append less_Suc_eq)

lemma matches_pop:
  assumes "matches K F x sp r0 vm vs" "unat (stackIndex x) = Suc (unat (stackIndex y))"
    "wasmStack y = wasmStack x" "slotFirstConstIndex y = slotFirstConstIndex x"
  shows "matches K F y sp r0 vm (butlast vs)"
proof -
  have "entry_value y sp r0 vm k = entry_value x sp r0 vm k" for k using assms(3) by (simp add: entry_value_def)
  then show ?thesis using assms by (simp add: matches_def nth_butlast)
qed

lemma sim_no_code:
  assumes "ext n x y []"
    and "\<And>K F sp r0 vm vs. serves K F y \<Longrightarrow> matches K F x sp r0 vm vs \<Longrightarrow> matches K F y sp r0 vm (f vs)"
  shows "sim n x (\<lambda>vs. Inr (f vs)) y"
  unfolding sim_def
proof (intro conjI exI [of _ "[]"] allI impI)
  show "does (\<lambda>vs. Inr (f vs)) E K F x y []" if "serves K F y" for E K F
    using assms(2) [OF that] by (simp add: does_def)
qed (use assms(1) in \<open>simp_all add: ext_def decodes_nil\<close>)

lemma sim_Pop:
  assumes "cfg n x" "Pop x = Inr y"
  shows "sim n x (\<lambda>vs. Inr (butlast vs)) y"
proof (rule sim_no_code)
  note P = ext_Pop [OF assms]
  then show "ext n x y []" by simp
  fix K F sp r0 vm vs
  assume "matches K F x sp r0 vm vs"
  then show "matches K F y sp r0 vm (butlast vs)"
    by (rule matches_pop) (use P in \<open>auto simp: ext_def grows_def\<close>)
qed

lemma sim_Push_local:
  assumes "cfg n x" "i < n" "Push x 1 (wasmStack x i) = Inr y"
  shows "sim n x (\<lambda>vs. Inr (vs @ [vs ! i])) y"
proof (rule sim_no_code)
  note L = cfg_local [OF assms(1,2)] and b = cfg_bounds [OF assms(1)]
  have "unat (wasmStack x i) < unat (slotFirstDynamicIndex x)" using L(1) b(4) by simp
  note P = ext_Push_static [OF assms(1) this assms(3)]
  then show "ext n x y []" by simp
  fix K F sp r0 vm vs
  assume m: "matches K F x sp r0 vm vs"
  then have "entry_value x sp r0 vm i = vs ! i" using L(3) by (simp add: matches_def)
  then have "entry_value y sp r0 vm (unat (stackIndex x)) = vs ! i" using P L by (simp add: entry_value_def)
  then show "matches K F y sp r0 vm (vs @ [vs ! i])"
    using P by (intro matches_push [OF m]) (auto simp: ext_def grows_def)
qed

lemma ext_PushAllocatedSlotAndEmit:
  assumes "cfg n x" "PushAllocatedSlotAndEmit x 1 = Inr y"
  shows "\<exists>j. ext n x y [W_32 (ucast j)] \<and> unat (stackIndex y) = Suc (unat (stackIndex x))
    \<and> wasmStack y = (wasmStack x)(unat (stackIndex x) := j) \<and> unat (slotFirstDynamicIndex x) \<le> unat j \<and> unat j < 4000
    \<and> unat j < unat (maxStackSlots y) \<and> (\<forall>k < unat (stackIndex x). wasmStack x k \<noteq> j)"
proof -
  obtain j o1 o2 where 1: "AllocateSlots x 1 = Inr (j, o1)" "Push o1 1 j = Inr o2" "y = emit_slot o2 j"
    using assms(2) by (auto simp: PushAllocatedSlotAndEmit_def PushAllocatedSlotAndEmit_impl_def m3_result)
  have so: "stack_ok {} (\<lambda>_. 0) x" using assms(1) by (simp add: cfg_def)
  note A = AllocateSlots_fields [OF so 1(1)] and b = cfg_bounds [OF assms(1)]
  obtain c where o1: "o1 = x\<lparr>m3Slots := (m3Slots x)(unat j := 1), slotMaxAllocatedIndexPlusOne := c, maxStackSlots := max (maxStackSlots x) (j + 1)\<rparr>"
    using A(2) by blast
  have lt: "unat (stackIndex x) < 2000" using 1(2) by (auto simp: Push_eq o1 split: if_splits)
  have o2: "o2 = pushed o1 1 j" using 1(2) lt A(1) by (auto simp: Push_eq o1 IsRegisterSlotAlias_def word_le_nat_alt)
  have hp: "has_page x" using assms(1) by (simp add: cfg_def)
  have y: "y = x\<lparr>m3Slots := (m3Slots x)(unat j := 1), slotMaxAllocatedIndexPlusOne := c, maxStackSlots := max (maxStackSlots x) (j + 1),
      stackIndex := stackIndex x + 1, wasmStack := (wasmStack x)(unat (stackIndex x) := j),
      typeStack := (typeStack x)(unat (stackIndex x) := 1), code := code x @ [W_32 (ucast j)]\<rparr>"
    using hp by (simp add: 1(3) o2 pushed_def o1 emit_slot_def emit_word_def)
  have si: "unat (stackIndex y) = Suc (unat (stackIndex x))" using lt by (simp add: y unat_inc16)
  have "stack_ok {} (\<lambda>_. 0) y"
    using PushAllocatedSlotAndEmit_impl_ok [OF so assms(2) [unfolded PushAllocatedSlotAndEmit_def]] .
  moreover have "inj_on (wasmStack y) {..< n} \<and> (\<forall>i < n. wasmStack y i = wasmStack x i)"
    using assms(1) b(1) by (auto simp: cfg_def y inj_on_def)
  moreover have ms: "unat (maxStackSlots y) = max (unat (maxStackSlots x)) (Suc (unat j))" using touched A(1) by (simp add: y)
  moreover have "typeStack y i = 1 \<and> (wasmStack y i = 60000 \<or> unat (wasmStack y i) < unat (maxStackSlots y))"
    if "i < unat (stackIndex y)" for i
    using that cfg_entry [OF assms(1), of i] ms si by (cases "i = unat (stackIndex x)") (auto simp: y less_max_iff_disj)
  moreover have "slotFirstDynamicIndex x \<le> maxStackSlots y \<and> unat (maxStackSlots y) \<le> 4000"
    using ms b(5,6) A(1) by (simp add: word_le_nat_alt)
  ultimately have "cfg n y" using assms(1) unfolding cfg_def by (simp add: y)
  moreover have "grows x y" by (rule grows_dynamic [OF assms(1)]) (use A(1) in \<open>auto simp: y\<close>)
  ultimately show ?thesis using A(1) si ms by (intro exI [of _ j]) (simp add: ext_def, simp add: y)
qed

text \<open>The constant table.\<close>

lemma sim_Push_const_slot:
  assumes "cfg n x" "unat (slotFirstConstIndex x) \<le> unat j" "unat j < unat (slotMaxConstIndex x)" "m3Slots x (unat j) \<noteq> 0"
    "constants x (unat j - unat (slotFirstConstIndex x)) = v" "Push x 1 j = Inr y"
  shows "sim n x (\<lambda>vs. Inr (vs @ [v])) y"
proof (rule sim_no_code)
  note b = cfg_bounds [OF assms(1)]
  have md: "unat (slotMaxConstIndex x) \<le> unat (slotFirstDynamicIndex x)" using assms(1) by (simp add: cfg_def word_le_nat_alt)
  then have "unat j < unat (slotFirstDynamicIndex x)" using assms(3) by simp
  note P = ext_Push_static [OF assms(1) this assms(6)]
  then show "ext n x y []" by simp
  fix K F sp r0 vm vs
  assume s: "serves K F y" and m: "matches K F x sp r0 vm vs"
  let ?i = "unat j - unat (slotFirstConstIndex x)"
  have "serves K F x" using s P serves_grows by (auto simp: ext_def)
  then have K: "?i < length K" "K ! ?i = v" using assms(2-5) by (auto simp: serves_def)
  then have "vm_stack vm ! (sp + unat j) = v" using m assms(2) by (auto simp: matches_def)
  moreover have "j \<noteq> 60000" using assms(3) md b(3) by auto
  ultimately have "entry_value y sp r0 vm (unat (stackIndex x)) = v" using P by (simp add: entry_value_def)
  then show "matches K F y sp r0 vm (vs @ [v])"
    using P by (intro matches_push [OF m]) (auto simp: ext_def grows_def)
qed


lemma AllocateConstantSlots_fields:
  assumes "cfg n x" "AllocateConstantSlots x 1 = Inr (j, y)"
  shows "unat (slotFirstConstIndex x) \<le> unat j \<and> unat j < unat (slotFirstDynamicIndex x) \<and> m3Slots x (unat j) = 0"
    and "\<exists>b. y = x\<lparr>m3Slots := (m3Slots x)(unat j := 1), slotMaxAllocatedIndexPlusOne := b\<rparr>"
proof -
  note b = cfg_bounds [OF assms(1)]
  let ?e = "min (slotFirstDynamicIndex x) (slotFirstConstIndex x + 120)"
  have al: "AlignSlotToType (slotFirstConstIndex x) 1 = slotFirstConstIndex x"
    by (simp add: AlignSlotToType_def GetTypeNumSlots_def)
  obtain o1 where 1: "FindFreeSlots x 1 (slotFirstConstIndex x) ?e = Some j" "MarkSlotsAllocated x j 1 = Inr y"
    using assms(2) by (auto simp: AllocateConstantSlots_def AllocateSlotsWithinRange_def Let_def m3_result al
        GetTypeNumSlots_def split: option.splits)
  note F = FindFreeSlots_Some [OF 1(1)]
  have e: "unat ?e \<le> unat (slotFirstDynamicIndex x)" by (simp add: min_def word_le_nat_alt)
  then show "unat (slotFirstConstIndex x) \<le> unat j \<and> unat j < unat (slotFirstDynamicIndex x) \<and> m3Slots x (unat j) = 0"
    using F by simp
  then have j: "unat j < unat (slotFirstDynamicIndex x)" by simp
  then have "j + 1 \<le> maxStackSlots x" using b by (simp add: unat_inc16 word_le_nat_alt)
  then have "max (maxStackSlots x) (j + 1) = maxStackSlots x" by (rule max_absorb1)
  then show "\<exists>b. y = x\<lparr>m3Slots := (m3Slots x)(unat j := 1), slotMaxAllocatedIndexPlusOne := b\<rparr>"
    using 1(2) by (auto simp: MarkSlotAllocated_def TouchSlot_def m3_result split: if_splits)
qed

lemma sim_new_const:
  assumes "cfg n x" "AllocateConstantSlots x 1 = Inr (j, o1)"
    "Push (o1\<lparr>constants := (constants o1)(unat (j - slotFirstConstIndex o1) := v)\<rparr>) 1 j = Inr o2"
    "y = o2\<lparr>slotMaxConstIndex := max (j + 1) (slotMaxConstIndex o2)\<rparr>"
  shows "sim n x (\<lambda>vs. Inr (vs @ [v])) y"
proof (rule sim_no_code)
  note b = cfg_bounds [OF assms(1)]
  note A = AllocateConstantSlots_fields [OF assms(1,2)]
  let ?f = "unat (slotFirstConstIndex x)"
  obtain c where o1: "o1 = x\<lparr>m3Slots := (m3Slots x)(unat j := 1), slotMaxAllocatedIndexPlusOne := c\<rparr>" using A(2) by blast
  have ji: "unat (j - slotFirstConstIndex x) = unat j - ?f"
    using A(1) by (simp add: unat_sub word_le_nat_alt)
  let ?o = "o1\<lparr>constants := (constants o1)(unat (j - slotFirstConstIndex o1) := v)\<rparr>"
  have lt: "unat (stackIndex x) < 2000" using assms(3) by (auto simp: Push_eq o1 split: if_splits)
  have o2: "o2 = pushed ?o 1 j" using assms(3) lt A(1) b by (auto simp: Push_eq o1 IsRegisterSlotAlias_def word_le_nat_alt)
  have y: "y = x\<lparr>m3Slots := (m3Slots x)(unat j := 1), slotMaxAllocatedIndexPlusOne := c,
      constants := (constants x)(unat j - ?f := v), stackIndex := stackIndex x + 1, wasmStack := (wasmStack x)(unat (stackIndex x) := j),
      typeStack := (typeStack x)(unat (stackIndex x) := 1), slotMaxConstIndex := max (j + 1) (slotMaxConstIndex x)\<rparr>"
    by (simp add: assms(4) o2 pushed_def o1 ji)
  have si: "unat (stackIndex y) = Suc (unat (stackIndex x))" using lt by (simp add: y unat_inc16)
  have so: "stack_ok {} (\<lambda>_. 0) x" using assms(1) by (simp add: cfg_def)
  have "stack_ok {} (\<lambda>_. 0) ?o"
    using so A(1) unfolding stack_ok_def by (auto simp: o1 users_def occupies_def entry_ok_def reg_ok_def)
  then have "stack_ok {} (\<lambda>_. 0) o2" using Push_static_ok assms(3) A(1) by (simp add: o1)
  moreover have "stack_ok {} (\<lambda>_. 0) y = stack_ok {} (\<lambda>_. 0) o2"
    by (rule stack_ok_cong) (simp_all add: assms(4))
  moreover have "inj_on (wasmStack y) {..< n} \<and> (\<forall>i < n. wasmStack y i = wasmStack x i)"
    using assms(1) b(1) by (auto simp: cfg_def y inj_on_def)
  moreover have "typeStack y i = 1 \<and> (wasmStack y i = 60000 \<or> unat (wasmStack y i) < unat (maxStackSlots y))"
    if "i < unat (stackIndex y)" for i
    using that cfg_entry [OF assms(1), of i] si A(1) b by (cases "i = unat (stackIndex x)") (auto simp: y)
  moreover have "unat (j + 1) = Suc (unat j)" using A(1) b by (simp add: unat_inc16)
  then have mc: "unat (slotMaxConstIndex y) = max (Suc (unat j)) (unat (slotMaxConstIndex x))"
    by (simp add: y max_def word_le_nat_alt)
  have "slotFirstConstIndex x \<le> slotMaxConstIndex y \<and> slotMaxConstIndex y \<le> slotFirstDynamicIndex x"
    using mc A(1) assms(1) by (auto simp: word_le_nat_alt cfg_def le_max_iff_disj)
  ultimately have c: "cfg n y" using assms(1) unfolding cfg_def by (simp add: y)
  have g: "grows x y" using A(1) mc by (auto simp: grows_def y word_le_nat_alt)
  show "ext n x y []" using c g by (simp add: ext_def y)
  fix K F sp r0 vm vs
  assume s: "serves K F y" and m: "matches K F x sp r0 vm vs"
  have K: "unat j - ?f < length K" "K ! (unat j - ?f) = v" using s A(1) mc by (auto simp: serves_def y)
  then have "vm_stack vm ! (sp + unat j) = v" using m A(1) by (auto simp: matches_def)
  moreover have "j \<noteq> 60000" using A(1) b(3) by auto
  ultimately have "entry_value y sp r0 vm (unat (stackIndex x)) = v" by (simp add: entry_value_def y)
  then show "matches K F y sp r0 vm (vs @ [v])"
    using si by (intro matches_push [OF m]) (auto simp: y)
qed


lemma find_const32_Some:
  assumes "cfg n x" "find_const32 x w = Some j"
  shows "unat (slotFirstConstIndex x) \<le> unat j \<and> unat j < unat (slotMaxConstIndex x) \<and> m3Slots x (unat j) \<noteq> 0
    \<and> ucast (constants x (unat j - unat (slotFirstConstIndex x))) = w"
proof -
  let ?P = "\<lambda>slot. IsSlotAllocated x slot \<and> ucast (constants x (slot - unat (slotFirstConstIndex x))) = w"
  obtain k where k: "find ?P [unat (slotFirstConstIndex x) ..< unat (slotMaxConstIndex x)] = Some k" "j = of_nat k"
    using assms(2) by (auto simp: find_const32_def)
  then have "k \<in> set [unat (slotFirstConstIndex x) ..< unat (slotMaxConstIndex x)] \<and> ?P k"
    by (auto simp: find_Some_iff in_set_conv_nth)
  moreover have "k < 65536" using calculation unat_lt16 [of "slotMaxConstIndex x"] by auto
  then have "unat j = k" by (simp add: k(2) unsigned_of_nat take_bit_nat_eq_self)
  ultimately show ?thesis by (auto simp: IsSlotAllocated_def)
qed

lemma ucast_scast_64 [simp]: "(ucast (scast (v :: u32) :: u64) :: u32) = v"
  by (rule bit_word_eqI) (auto simp: bit_ucast_iff bit_signed_iff)

lemma ucast_ucast_64 [simp]: "(ucast (ucast (v :: u32) :: u64) :: u32) = v"
  by (rule bit_word_eqI) (auto simp: bit_ucast_iff)

lemma ucast_scast_32: "(ucast (v :: u32) :: u64) = scast (w :: u32) \<Longrightarrow> v = w"
  by (metis ucast_scast_64 ucast_ucast_64)

lemma sim_PushConst:
  assumes "cfg n x" "PushConst pg x (scast v) 1 = Inr y"
  shows "sim n x (\<lambda>vs. Inr (vs @ [v])) y"
proof -
  have hp: "has_page x" using assms(1) by (simp add: cfg_def)
  show ?thesis
  proof (cases "find_const32 x (scast v)")
    case (Some j)
    then have "Push x 1 j = Inr y" using assms(2) hp by (simp add: PushConst_def Let_def GetTypeNumSlots_def Is64BitType_def)
    then show ?thesis using find_const32_Some [OF assms(1) Some] ucast_scast_32 assms(1) by (intro sim_Push_const_slot) auto
  next
    case None
    show ?thesis
    proof (cases "AllocateConstantSlots x 1")
      case (Inr r)
      then obtain j o1 where r: "AllocateConstantSlots x 1 = Inr (j, o1)" by (cases r) auto
      then show ?thesis
        using assms(2) hp None
        by (auto simp: PushConst_def Let_def GetTypeNumSlots_def Is64BitType_def m3_result split: if_splits
            intro!: sim_new_const [OF assms(1) r])
    next
      case (Inl e)
      obtain o1 where 1: "emit_op pg x op_Const32 = Inr o1" "PushAllocatedSlotAndEmit (emit_word o1 (W_32 v)) 1 = Inr y"
        using assms(2) hp None Inl
        by (auto simp: PushConst_def PushInlineConst_def Let_def GetTypeNumSlots_def Is64BitType_def m3_result split: if_splits)
      note E = ext_emit_op [OF assms(1) 1(1)]
      have c1: "cfg n o1" using E by (simp add: ext_def)
      note W = ext_emit_word [OF c1, of "W_32 v"]
      then have c2: "cfg n (emit_word o1 (W_32 v))" by (simp add: ext_def)
      obtain j where j: "ext n (emit_word o1 (W_32 v)) y [W_32 (ucast j)]" "unat (stackIndex y) = Suc (unat (stackIndex x))"
        "wasmStack y = (wasmStack x)(unat (stackIndex x) := j)" "unat (slotFirstDynamicIndex x) \<le> unat j" "unat j < 4000"
        "unat j < unat (maxStackSlots y)" "\<And>k. k < unat (stackIndex x) \<Longrightarrow> wasmStack x k \<noteq> j"
        using ext_PushAllocatedSlotAndEmit [OF c2 1(2)] E W by (auto simp: ext_def grows_def)
      have x: "ext n x y [W_op op_Const32, W_32 v, W_32 (ucast j)]"
        using ext_trans [OF ext_trans [OF conjunct1 [OF E] conjunct1 [OF W]] j(1)] by simp
      have "decodes [W_op op_Const32, W_32 v, W_32 (ucast j)] [I_Const32 v (unat j)]"
        by (rule decodes_single) (simp_all add: word_instr_def slot_instr_def is_op_def)
      moreover have "does (\<lambda>vs. Inr (vs @ [v])) E K F x y [I_Const32 v (unat j)]" if s: "serves K F y" for E K F
        unfolding does_def
      proof (intro allI impI)
        fix sp r0 vm vs
        assume m: "matches K F x sp r0 vm vs"
        have jF: "unat j < F" using s j(6) by (simp add: serves_def)
        then have sj: "sp + unat j < length (vm_stack vm)" using m by (simp add: matches_def)
        have fc: "slotFirstConstIndex y = slotFirstConstIndex x" "slotFirstDynamicIndex y = slotFirstDynamicIndex x"
          using x by (simp_all add: ext_def grows_def)
        have c: "\<not> (unat (slotFirstConstIndex x) \<le> unat j \<and> unat j < unat (slotFirstConstIndex x) + length K)"
          using s j(4) fc by (simp add: serves_def)
        have "matches K F x sp r0 (put sp (unat j) v vm) vs"
          by (rule matches_put [OF m jF c]) (use j(7) in \<open>auto simp: word_unat_eq_iff\<close>)
        then have "matches K F y sp r0 (put sp (unat j) v vm) (vs @ [v])"
          using j(2,3,5) fc by (elim matches_push) (auto simp: entry_value_def get_slot_put [OF sj])
        then show "case Inr (vs @ [v]) of Inl e \<Rightarrow> exec_seq E [I_Const32 v (unat j)] sp r0 vm = Inl e
          | Inr vs' \<Rightarrow> \<exists>r0' vm'. exec_seq E [I_Const32 v (unat j)] sp r0 vm = Inr (r0', vm')
              \<and> matches K F y sp r0' vm' vs' \<and> same_outside F sp vm vm'"
          using same_outside_put [OF jF] sj by (simp add: exec_simple_def set_slot_put)
      qed
      ultimately show ?thesis using x unfolding sim_def ext_def by blast
    qed
  qed
qed

end
