(* ===== verification/M3_Straight_Ops.thy ===== *)
theory M3_Straight_Ops
  imports M3_Straight
begin

text \<open>
  \<^verbatim>\<open>Compile_Operator\<close> and \<^verbatim>\<open>Compile_SetLocal\<close> on \<^verbatim>\<open>i32\<close> values: whichever operation they choose for the
  places of the operands does to the values what the instruction means.
\<close>

section \<open>Operators\<close>

lemma sint_small16: "unat (x :: u16) < 32768 \<Longrightarrow> sint x = int (unat x)"
proof -
  assume "unat x < 32768"
  then have "- (2 ^ 15) \<le> uint x" "uint x < 2 ^ 15" unfolding uint_nat by (simp_all del: of_nat_unat)
  then have "sint x = uint x" unfolding sint_uint by (simp add: signed_take_bit_int_eq_self)
  then show ?thesis by simp
qed

lemma top_index: "unat (stackIndex x) \<le> 2000 \<Longrightarrow> GetStackTopIndex x = int (unat (stackIndex x)) - 1"
proof -
  assume le: "unat (stackIndex x) \<le> 2000"
  show ?thesis
  proof (cases "stackIndex x = 0")
    case True
    then show ?thesis by (simp add: GetStackTopIndex_def)
  next
    case False
    then have "unat (stackIndex x - 1) = unat (stackIndex x) - 1" "0 < unat (stackIndex x)"
      by (simp_all add: unat_minus_one unat_gt_0)
    with le show ?thesis by (simp add: GetStackTopIndex_def sint_small16 of_nat_diff)
  qed
qed

lemma in_register_index:
  assumes "cfg n x"
  shows "IsStackIndexInRegister x (int (unat (stackIndex x)) - int d) \<longleftrightarrow>
    0 < d \<and> d \<le> unat (stackIndex x) \<and> wasmStack x (unat (stackIndex x) - d) = 60000"
proof (cases "0 < d \<and> d \<le> unat (stackIndex x)")
  case True
  let ?k = "unat (stackIndex x) - d"
  have k: "?k < unat (stackIndex x)" using True by auto
  have n: "nat (int (unat (stackIndex x)) - int d) = ?k" using True by linarith
  have "60000 \<le> wasmStack x ?k \<longleftrightarrow> wasmStack x ?k = 60000"
    using cfg_entry(1) [OF assms k] by (auto simp: word_le_nat_alt)
  then show ?thesis using True unfolding IsStackIndexInRegister_def n uint_nat by (simp del: of_nat_unat)
next
  case False
  then show ?thesis unfolding IsStackIndexInRegister_def uint_nat by (auto simp del: of_nat_unat)
qed

lemma in_register:
  assumes "cfg n x"
  shows "IsStackTopInRegister x \<longleftrightarrow> 0 < unat (stackIndex x) \<and> wasmStack x (unat (stackIndex x) - 1) = 60000"
    and "IsStackTopMinus1InRegister x \<longleftrightarrow> 1 < unat (stackIndex x) \<and> wasmStack x (unat (stackIndex x) - 2) = 60000"
    and "0 < unat (stackIndex x) \<Longrightarrow> GetStackTopSlotNumber x = wasmStack x (unat (stackIndex x) - 1)"
proof -
  note t = top_index [OF cfg_bounds(2) [OF assms]]
  show "IsStackTopInRegister x \<longleftrightarrow> 0 < unat (stackIndex x) \<and> wasmStack x (unat (stackIndex x) - 1) = 60000"
    using in_register_index [OF assms, of 1] unfolding IsStackTopInRegister_def t by auto
  show "IsStackTopMinus1InRegister x \<longleftrightarrow> 1 < unat (stackIndex x) \<and> wasmStack x (unat (stackIndex x) - 2) = 60000"
    using in_register_index [OF assms, of 2] unfolding t by auto
  assume p: "0 < unat (stackIndex x)"
  then have "nat (int (unat (stackIndex x)) - 1) = unat (stackIndex x) - 1" by linarith
  then show "GetStackTopSlotNumber x = wasmStack x (unat (stackIndex x) - 1)"
    using p unfolding GetStackTopSlotNumber_def t Let_def by (simp del: of_nat_unat)
qed

text \<open>The word an operand takes in the code.\<close>

definition operand_words :: "M3Compilation \<Rightarrow> nat \<Rightarrow> code_word list" where
  "operand_words x k = (if wasmStack x k = d_m3Reg0SlotAlias then [] else [W_32 (ucast (wasmStack x k))])"

lemma ext_EmitSlotNum:
  assumes "cfg n x" "EmitSlotNumOfStackTopAndPop x = Inr y"
  shows "ext n x y (operand_words x (unat (stackIndex y))) \<and> n < unat (stackIndex x)
    \<and> unat (stackIndex x) = Suc (unat (stackIndex y)) \<and> wasmStack y = wasmStack x"
proof -
  note t = in_register [OF assms(1)]
  show ?thesis
  proof (cases "IsStackTopInRegister x")
    case True
    then have "Pop x = Inr y" using assms(2) by (simp add: EmitSlotNumOfStackTopAndPop_def IsStackTopInSlot_def)
    from ext_Pop [OF assms(1) this] show ?thesis using True t(1) by (auto simp: operand_words_def)
  next
    case False
    let ?w = "W_32 (ucast (GetStackTopSlotNumber x))"
    have p: "Pop (emit_word x ?w) = Inr y"
      using assms(2) False by (simp add: EmitSlotNumOfStackTopAndPop_def IsStackTopInSlot_def emit_slot_def)
    note W = ext_emit_word [OF assms(1), of ?w]
    then have "cfg n (emit_word x ?w)" by (simp add: ext_def)
    note P = ext_Pop [OF this p]
    have "ext n x y ([?w] @ [])" using W P ext_trans by blast
    then show ?thesis using W P t(3) False t(1) by (auto simp: operand_words_def)
  qed
qed

lemma matches_get_slot:
  assumes "cfg n y" "serves K F y" "matches K F y sp r0 vm vs" "k < unat (stackIndex y)" "wasmStack y k \<noteq> 60000"
  shows "get_slot T_i32 sp (unat (wasmStack y k)) vm = Inr (ucast (vs ! k))"
proof -
  have "unat (wasmStack y k) < F" using cfg_entry(1) [OF assms(1,4)] assms(2,5) by (simp add: serves_def)
  moreover have "entry_value y sp r0 vm k = vs ! k" using assms(3,4) by (simp add: matches_def)
  ultimately show ?thesis using assms(3,5) by (simp add: get_slot_def matches_def entry_value_def)
qed

lemma matches_register:
  "matches K F y sp r0 vm vs \<Longrightarrow> k < unat (stackIndex y) \<Longrightarrow> wasmStack y k = 60000 \<Longrightarrow> ucast r0 = vs ! k"
  by (auto simp: matches_def entry_value_def)

lemma matches_result:
  assumes "matches K F y sp r0 vm vs" "m \<le> length vs" "unat (stackIndex z) = Suc m" "wasmStack z = (wasmStack y)(m := 60000)"
    "\<And>k. k < m \<Longrightarrow> wasmStack y k \<noteq> 60000" "slotFirstConstIndex z = slotFirstConstIndex y"
  shows "matches K F z sp v vm (take m vs @ [ucast v])"
proof -
  have "entry_value z sp v vm k = entry_value y sp r0 vm k" if "k < m" for k
    using assms(4) assms(5) [OF that] that by (simp add: entry_value_def)
  moreover have "entry_value z sp v vm m = ucast v" using assms(4) by (simp add: entry_value_def)
  ultimately show ?thesis using assms(1-3,6) by (auto simp: matches_def nth_append less_Suc_eq)
qed

text \<open>What the operation of a form and its operands are, given where the operands are.\<close>

lemma binary_instr:
  assumes c: "cfg n y" and t: "unat (stackIndex y) = Suc (Suc m)" and w: "table_op ty nm = Some (Op_bin32 b)"
    and fm: "fm = ''rs'' \<and> wasmStack y (Suc m) = 60000 \<or> fm = ''sr'' \<and> wasmStack y m = 60000
      \<or> fm = ''rs'' \<and> commutes b \<and> wasmStack y m = 60000
      \<or> fm = ''ss'' \<and> (\<forall>k < unat (stackIndex y). wasmStack y k \<noteq> 60000)"
  shows "\<exists>f. word_instr (o_Table ty nm fm) (operand_words y (Suc m) @ operand_words y m) = Some (I_Bin32 b f)
    \<and> (\<forall>K F sp r0 vm vs. serves K F y \<longrightarrow> matches K F y sp r0 vm vs \<longrightarrow>
        exec_numeric (I_Bin32 b f) sp r0 vm = tryR (binop32 b (vs ! m) (vs ! Suc m)) (\<lambda>v. Inr (v, vm)))"
proof -
  have lt: "m < unat (stackIndex y)" "Suc m < unat (stackIndex y)" using t by auto
  note slot = matches_get_slot [OF c] and reg = matches_register
  have one: "wasmStack y k \<noteq> 60000" if "wasmStack y l = 60000" "k < unat (stackIndex y)" "l < unat (stackIndex y)" "k \<noteq> l" for k l
    using cfg_register_unique [OF c that(2,3)] that by blast
  have swap: "binop32 b v u = binop32 b u v" if "commutes b" for u v
    using that by (auto simp: commutes_def add.commute mult.commute and.commute or.commute xor.commute eq_commute)
  from fm show ?thesis
  proof (elim disjE conjE)
    assume f: "fm = ''rs''" and r: "wasmStack y (Suc m) = 60000"
    have s: "wasmStack y m \<noteq> 60000" by (rule one [OF r lt]) simp
    show ?thesis
      using f r s slot [OF _ _ lt(1) s] reg [OF _ lt(2) r] w
      by (intro exI [of _ "RS (unat (wasmStack y m))"])
        (simp add: word_instr_def slot_instr_def table_instr_def bin_form_def operand_words_def)
  next
    assume f: "fm = ''sr''" and r: "wasmStack y m = 60000"
    have s: "wasmStack y (Suc m) \<noteq> 60000" by (rule one [OF r lt(2,1)]) simp
    show ?thesis
      using f r s slot [OF _ _ lt(2) s] reg [OF _ lt(1) r] w
      by (intro exI [of _ "SR (unat (wasmStack y (Suc m)))"])
        (simp add: word_instr_def slot_instr_def table_instr_def bin_form_def operand_words_def)
  next
    assume f: "fm = ''rs''" and r: "wasmStack y m = 60000" and cm: "commutes b"
    have s: "wasmStack y (Suc m) \<noteq> 60000" by (rule one [OF r lt(2,1)]) simp
    show ?thesis
      using f r s slot [OF _ _ lt(2) s] reg [OF _ lt(1) r] w swap [OF cm]
      by (intro exI [of _ "RS (unat (wasmStack y (Suc m)))"])
        (simp add: word_instr_def slot_instr_def table_instr_def bin_form_def operand_words_def)
  next
    assume f: "fm = ''ss''" and r: "\<forall>k < unat (stackIndex y). wasmStack y k \<noteq> 60000"
    then have s: "wasmStack y (Suc m) \<noteq> 60000" "wasmStack y m \<noteq> 60000" using lt by auto
    show ?thesis
      using f s slot [OF _ _ lt(2) s(1)] slot [OF _ _ lt(1) s(2)] w
      by (intro exI [of _ "SS (unat (wasmStack y (Suc m))) (unat (wasmStack y m))"])
        (simp add: word_instr_def slot_instr_def table_instr_def bin_form_def operand_words_def)
  qed
qed

lemma unary_instr:
  assumes c: "cfg n y" and t: "unat (stackIndex y) = Suc m" and w: "table_op ty nm = Some (Op_un32 u)"
    and fm: "fm = ''r'' \<and> wasmStack y m = 60000 \<or> fm = ''s'' \<and> wasmStack y m \<noteq> 60000"
  shows "\<exists>f. word_instr (o_Table ty nm fm) (operand_words y m) = Some (I_Un32 u f)
    \<and> (\<forall>K F sp r0 vm vs. serves K F y \<longrightarrow> matches K F y sp r0 vm vs \<longrightarrow>
        exec_numeric (I_Un32 u f) sp r0 vm = tryR (unop32_value u (vs ! m)) (\<lambda>v. Inr (v, vm)))"
proof -
  have lt: "m < unat (stackIndex y)" using t by auto
  from fm show ?thesis
  proof (elim disjE conjE)
    assume f: "fm = ''r''" and r: "wasmStack y m = 60000"
    then show ?thesis
      using matches_register [OF _ lt r] w
      by (intro exI [of _ None]) (simp add: word_instr_def slot_instr_def table_instr_def un_form_def operand_words_def operand_def)
  next
    assume f: "fm = ''s''" and s: "wasmStack y m \<noteq> 60000"
    then show ?thesis
      using matches_get_slot [OF c _ _ lt s] w
      by (intro exI [of _ "Some (unat (wasmStack y m))"])
        (simp add: word_instr_def slot_instr_def table_instr_def un_form_def operand_words_def operand_def)
  qed
qed

lemma operand_words_not_op: "list_all (\<lambda>w. \<not> is_op w) (operand_words y k)"
  by (simp add: operand_words_def is_op_def)

text \<open>An operation that leaves its result in the register.\<close>

lemma sim_to_register:
  assumes c: "cfg n y" and e: "ext n y z (W_op op # ws)" "list_all (\<lambda>w. \<not> is_op w) ws" "word_instr op ws = Some i"
    and num: "is_numeric i"
    and st: "unat (stackIndex z) = Suc m" "wasmStack z = (wasmStack y)(m := 60000)" "m \<le> unat (stackIndex y)"
    and free: "\<And>k. k < m \<Longrightarrow> wasmStack y k \<noteq> 60000"
    and ex: "\<And>K F sp r0 vm vs. serves K F y \<Longrightarrow> matches K F y sp r0 vm vs \<Longrightarrow>
        exec_numeric i sp r0 vm = tryR (f vs) (\<lambda>v. Inr (v, vm))"
  shows "sim n y (\<lambda>vs. tryR (f vs) (\<lambda>v. Inr (take m vs @ [ucast v]))) z"
  unfolding sim_def
proof (intro conjI exI allI impI)
  show "cfg n z" "grows y z" and cd: "code z = code y @ (W_op op # ws)" using e(1) by (simp_all add: ext_def)
  show "decodes (W_op op # ws) [i]" by (rule decodes_single [OF e(3,2)])
  fix E K F
  assume s: "serves K F z"
  have g: "grows y z" using e(1) by (simp add: ext_def)
  have sy: "serves K F y" by (rule serves_grows [OF s g])
  show "does (\<lambda>vs. tryR (f vs) (\<lambda>v. Inr (take m vs @ [ucast v]))) E K F y z [i]"
    unfolding does_def
  proof (intro allI impI)
    fix sp r0 vm vs
    assume m: "matches K F y sp r0 vm vs"
    have l: "m \<le> length vs" using m st(3) by (simp add: matches_def)
    have "matches K F z sp v vm (take m vs @ [ucast v])" for v
      by (rule matches_result [OF m l st(1,2) free]) (use g in \<open>simp_all add: grows_def\<close>)
    then show "case tryR (f vs) (\<lambda>v. Inr (take m vs @ [ucast v])) of Inl e \<Rightarrow> exec_seq E [i] sp r0 vm = Inl e
      | Inr vs' \<Rightarrow> \<exists>r0' vm'. exec_seq E [i] sp r0 vm = Inr (r0', vm') \<and> matches K F z sp r0' vm' vs' \<and> same_outside F sp vm vm'"
      using ex [OF sy m] num by (cases "f vs") (auto simp: exec_simple_def)
  qed
qed


section \<open>\<^verbatim>\<open>Compile_Operator\<close>\<close>

lemma top_type:
  assumes "cfg n x"
  shows "IsFpType (GetStackTopType x) = False"
proof -
  have "GetStackTopType x = 0 \<or> GetStackTopType x = 1"
  proof (cases "stackIndex x = 0")
    case False
    then have "unat (stackIndex x - 1) < unat (stackIndex x)" by (simp add: unat_minus_one unat_gt_0)
    then have "typeStack x (unat (stackIndex x - 1)) = 1" by (rule cfg_entry(2) [OF assms])
    then show ?thesis by (simp add: GetStackTopType_def GetStackTypeFromTop_def Let_def)
  qed (simp add: GetStackTopType_def GetStackTypeFromTop_def Let_def)
  then show ?thesis by (auto simp: IsFpType_def)
qed

lemma Compile_Operator_parts:
  assumes "cfg n x" "Compile_Operator env x opcode = Inr z" "GetOpInfo opcode = Some i" "oi_type i = 1"
  obtains op y o1 o2 o3 where "select_operation env i x = Inr (op, y)" "emit_op_at env y op = Inr o1"
    "EmitSlotNumOfStackTopAndPop o1 = Inr o2"
    "(if stackOffset i < 0 then EmitSlotNumOfStackTopAndPop o2 else Inr o2) = Inr o3" "PushRegister o3 1 = Inr z"
  using assms(2-4) top_type [OF assms(1)] that
  by (simp add: Compile_Operator_def m3_result throwif_def case_prod_unfold split: if_splits) (metis prod.collapse)

lemma sim_unary:
  assumes c: "cfg n x" and co: "Compile_Operator env x opcode = Inr z" and i: "GetOpInfo opcode = Some i" "row_ok (ty, nm) (Op_un32 u) i"
    and w: "table_op ty nm = Some (Op_un32 u)" and t: "oi_type i = 1"
  shows "\<exists>m. unat (stackIndex x) = Suc m \<and> unat (stackIndex z) = Suc m \<and> n \<le> m
    \<and> sim n x (\<lambda>vs. tryR (unop32_value u (vs ! m)) (\<lambda>v. Inr (take m vs @ [ucast v]))) z"
proof -
  obtain op y o1 o2 where p: "select_operation env i x = Inr (op, y)" "emit_op_at env y op = Inr o1"
    "EmitSlotNumOfStackTopAndPop o1 = Inr o2" "PushRegister o2 1 = Inr z"
    by (rule Compile_Operator_parts [OF c co i(1) t]) (use i(2) in \<open>auto simp: row_ok_def Let_def\<close>)
  have ops: "stackOffset i = 0" "operations i ! 0 = o_Table ty nm ''r''" "operations i ! 1 = o_Table ty nm ''s''"
    using i(2) by (simp_all add: row_ok_def Let_def)
  have y: "sim n x Inr y \<and> stackIndex y = stackIndex x \<and> (op = o_Table ty nm ''r'' \<and> IsStackTopInRegister y
      \<or> op = o_Table ty nm ''s'' \<and> (\<forall>k < unat (stackIndex y). wasmStack y k \<noteq> 60000))"
  proof (cases "IsStackTopInRegister x")
    case True
    then show ?thesis using p(1) ops sim_refl [OF c] by (simp add: select_operation_def)
  next
    case False
    then have "PreserveRegister_at env x 1 = Inr y" "op = o_Table ty nm ''s''"
      using p(1) ops t by (auto simp: select_operation_def m3_result)
    with sim_PreserveRegister [OF c] show ?thesis by blast
  qed
  then have cy: "cfg n y" by (simp add: sim_def)
  note E = ext_emit_op [OF cy p(2)]
  then have "cfg n o1" by (simp add: ext_def)
  note S = ext_EmitSlotNum [OF this p(3)]
  define m where "m = unat (stackIndex o2)"
  have m: "unat (stackIndex y) = Suc m" "n \<le> m" using E S by (auto simp: m_def)
  have fm: "\<exists>fm. op = o_Table ty nm fm \<and> (fm = ''r'' \<and> wasmStack y m = 60000 \<or> fm = ''s'' \<and> wasmStack y m \<noteq> 60000)"
    using y m in_register(1) [OF cy] by auto
  then obtain fm where fm: "op = o_Table ty nm fm" "fm = ''r'' \<and> wasmStack y m = 60000 \<or> fm = ''s'' \<and> wasmStack y m \<noteq> 60000" by blast
  have free: "wasmStack y k \<noteq> 60000" if "k < m" for k
  proof
    assume "wasmStack y k = 60000"
    moreover from this have "wasmStack y m = 60000" using y that m(1) in_register(1) [OF cy] by auto
    ultimately show False using cfg_register_unique [OF cy, of k m] that m(1) by simp
  qed
  have c2: "cfg n o2" using S by (simp add: ext_def)
  have "\<forall>k < unat (stackIndex o2). wasmStack o2 k \<noteq> d_m3Reg0SlotAlias" using free E S by (simp add: m_def)
  note R = ext_PushRegister [OF c2 this p(4)]
  have "operand_words o1 m = operand_words y m" using E by (simp add: operand_words_def)
  then have x: "ext n y z (W_op op # operand_words y m)"
    using ext_trans [OF ext_trans [OF conjunct1 [OF E] conjunct1 [OF S]] conjunct1 [OF R]] by (simp add: m_def)
  obtain f where f: "word_instr op (operand_words y m) = Some (I_Un32 u f)"
    "\<And>K F sp r0 vm vs. serves K F y \<Longrightarrow> matches K F y sp r0 vm vs \<Longrightarrow>
        exec_numeric (I_Un32 u f) sp r0 vm = tryR (unop32_value u (vs ! m)) (\<lambda>v. Inr (v, vm))"
    using unary_instr [OF cy m(1) w fm(2)] fm(1) by blast
  have "sim n y (\<lambda>vs. tryR (unop32_value u (vs ! m)) (\<lambda>v. Inr (take m vs @ [ucast v]))) z"
    by (rule sim_to_register [OF cy x operand_words_not_op f(1) _ _ _ _ free f(2)])
      (use R S E m in \<open>simp_all add: m_def\<close>)
  then have "sim n x (\<lambda>vs. tryR (Inr vs) (\<lambda>vs. tryR (unop32_value u (vs ! m)) (\<lambda>v. Inr (take m vs @ [ucast v])))) z"
    using y sim_trans by blast
  then show ?thesis using y m R by (auto simp: m_def)
qed


lemma select_binary:
  assumes c: "cfg n x" and p: "select_operation env i x = Inr (op, y)" and r: "row_ok (ty, nm) (Op_bin32 b) i" and t: "oi_type i = 1"
  shows "sim n x Inr y \<and> stackIndex y = stackIndex x \<and> (\<forall>m. unat (stackIndex y) = Suc (Suc m) \<longrightarrow>
    (\<exists>fm. op = o_Table ty nm fm \<and> (fm = ''rs'' \<and> wasmStack y (Suc m) = 60000 \<or> fm = ''sr'' \<and> wasmStack y m = 60000
      \<or> fm = ''rs'' \<and> commutes b \<and> wasmStack y m = 60000
      \<or> fm = ''ss'' \<and> (\<forall>k < unat (stackIndex y). wasmStack y k \<noteq> 60000))))"
proof -
  have ops: "stackOffset i = - 1" "operations i ! 0 = o_Table ty nm ''rs''" "operations i ! 2 = o_Table ty nm ''ss''"
    "operations i ! 1 = op_NULL \<and> commutes b \<or> operations i ! 1 = o_Table ty nm ''sr''"
    using r by (simp_all add: row_ok_def Let_def)
  have id: "sim n x Inr x" by (rule sim_refl [OF c])
  note reg = in_register [OF c]
  consider "IsStackTopInRegister x" | "\<not> IsStackTopInRegister x" "IsStackTopMinus1InRegister x"
    | "\<not> IsStackTopInRegister x" "\<not> IsStackTopMinus1InRegister x" by blast
  then show ?thesis
  proof cases
    case 1
    then have "\<not> IsStackTopMinus1InRegister x"
      using reg cfg_register_unique [OF c, of "unat (stackIndex x) - 1" "unat (stackIndex x) - 2"] by auto
    then show ?thesis using p 1 ops id reg by (auto simp: select_operation_def)
  next
    case 2
    then have xy: "y = x" "op = (if operations i ! 1 \<noteq> op_NULL then operations i ! 1 else operations i ! 0)"
      using p ops(1) by (auto simp: select_operation_def)
    have "op = o_Table ty nm ''sr'' \<or> op = o_Table ty nm ''rs'' \<and> commutes b" using ops(2,4) xy(2) by auto
    then show ?thesis using id reg(2) 2(2) xy(1) by auto
  next
    case 3
    then have "PreserveRegister_at env x 1 = Inr y" "op = o_Table ty nm ''ss''"
      using p ops t by (auto simp: select_operation_def m3_result)
    with sim_PreserveRegister [OF c] show ?thesis by blast
  qed
qed

lemma sim_binary:
  assumes c: "cfg n x" and co: "Compile_Operator env x opcode = Inr z" and i: "GetOpInfo opcode = Some i" "row_ok (ty, nm) (Op_bin32 b) i"
    and w: "table_op ty nm = Some (Op_bin32 b)" and t: "oi_type i = 1"
  shows "\<exists>m. unat (stackIndex x) = Suc (Suc m) \<and> unat (stackIndex z) = Suc m \<and> n \<le> m
    \<and> sim n x (\<lambda>vs. tryR (binop32 b (vs ! m) (vs ! Suc m)) (\<lambda>v. Inr (take m vs @ [ucast v]))) z"
proof -
  obtain op y o1 o2 o3 where p: "select_operation env i x = Inr (op, y)" "emit_op_at env y op = Inr o1"
    "EmitSlotNumOfStackTopAndPop o1 = Inr o2" "EmitSlotNumOfStackTopAndPop o2 = Inr o3" "PushRegister o3 1 = Inr z"
    by (rule Compile_Operator_parts [OF c co i(1) t]) (use i(2) in \<open>auto simp: row_ok_def Let_def\<close>)
  note y = select_binary [OF c p(1) i(2) t]
  then have cy: "cfg n y" by (simp add: sim_def)
  note E = ext_emit_op [OF cy p(2)]
  then have "cfg n o1" by (simp add: ext_def)
  note S = ext_EmitSlotNum [OF this p(3)]
  then have "cfg n o2" by (simp add: ext_def)
  note T = ext_EmitSlotNum [OF this p(4)]
  define m where "m = unat (stackIndex o3)"
  have m: "unat (stackIndex y) = Suc (Suc m)" "n \<le> m" using E S T by (auto simp: m_def)
  obtain fm where fm: "op = o_Table ty nm fm" "fm = ''rs'' \<and> wasmStack y (Suc m) = 60000 \<or> fm = ''sr'' \<and> wasmStack y m = 60000
      \<or> fm = ''rs'' \<and> commutes b \<and> wasmStack y m = 60000
      \<or> fm = ''ss'' \<and> (\<forall>k < unat (stackIndex y). wasmStack y k \<noteq> 60000)" using y m(1) by blast
  have free: "wasmStack y k \<noteq> 60000" if "k < m" for k
    using fm(2) cfg_register_unique [OF cy, of k m] cfg_register_unique [OF cy, of k "Suc m"] that m(1) by auto
  have c3: "cfg n o3" using T by (simp add: ext_def)
  have "\<forall>k < unat (stackIndex o3). wasmStack o3 k \<noteq> d_m3Reg0SlotAlias" using free E S T by (simp add: m_def)
  note R = ext_PushRegister [OF c3 this p(5)]
  let ?ws = "operand_words y (Suc m) @ operand_words y m"
  have "operand_words o1 k = operand_words y k" "operand_words o2 k = operand_words y k" for k
    using E S by (simp_all add: operand_words_def)
  moreover have "unat (stackIndex o2) = Suc m" using T by (simp add: m_def)
  ultimately have x: "ext n y z (W_op op # ?ws)"
    using ext_trans [OF ext_trans [OF ext_trans [OF conjunct1 [OF E] conjunct1 [OF S]] conjunct1 [OF T]] conjunct1 [OF R]]
    by (simp add: m_def)
  have nop: "list_all (\<lambda>w. \<not> is_op w) ?ws" using operand_words_not_op by simp
  obtain f where f: "word_instr op ?ws = Some (I_Bin32 b f)"
    "\<And>K F sp r0 vm vs. serves K F y \<Longrightarrow> matches K F y sp r0 vm vs \<Longrightarrow>
        exec_numeric (I_Bin32 b f) sp r0 vm = tryR (binop32 b (vs ! m) (vs ! Suc m)) (\<lambda>v. Inr (v, vm))"
    using binary_instr [OF cy m(1) w fm(2)] fm(1) by blast
  have "sim n y (\<lambda>vs. tryR (binop32 b (vs ! m) (vs ! Suc m)) (\<lambda>v. Inr (take m vs @ [ucast v]))) z"
    by (rule sim_to_register [OF cy x nop f(1) _ _ _ _ free f(2)])
      (use R S T E m in \<open>simp_all add: m_def\<close>)
  then have "sim n x (\<lambda>vs. tryR (Inr vs) (\<lambda>vs. tryR (binop32 b (vs ! m) (vs ! Suc m)) (\<lambda>v. Inr (take m vs @ [ucast v])))) z"
    using y sim_trans by blast
  then show ?thesis using y m R by (auto simp: m_def)
qed

section \<open>Setting a local\<close>

lemma rename_entry:
  assumes c: "cfg n x" and k: "n \<le> k" "k < unat (stackIndex x)" "unat (wasmStack x k) < unat (slotFirstDynamicIndex x)"
    and p: "unat (slotFirstDynamicIndex x) \<le> unat p" "unat p < unat ms" "unat (maxStackSlots x) \<le> unat ms" "unat ms \<le> 4000"
    and f: "unat (f (unat p)) = Suc (unat (m3Slots x (unat p)))" "\<And>s. s \<noteq> unat p \<Longrightarrow> f s = m3Slots x s"
    and y: "y = x\<lparr>m3Slots := f, slotMaxAllocatedIndexPlusOne := b, maxStackSlots := ms, wasmStack := (wasmStack x)(k := p)\<rparr>"
  shows "cfg n y \<and> grows x y"
proof
  note bd = cfg_bounds [OF c]
  have so: "stack_ok {} (\<lambda>_. 0) x" using c by (simp add: cfg_def)
  have p4: "p < 60000" "unat (wasmStack x k) < 4000" using p bd(3) k(3) by (auto simp: word_less_nat_alt)
  have w: "\<not> 60000 \<le> wasmStack x k" using p4(2) by (auto simp: word_le_nat_alt)
  have one: "num_slots (typeStack x i) = 1" if "i < unat (stackIndex x)" for i using cfg_entry(2) [OF c that] by simp
  have occ: "s \<notin> occupies x k" if "unat (slotFirstDynamicIndex x) \<le> s" for s
    using that k(3) one [OF k(2)] w by (simp add: occupies_def)
  have us: "users {} y s = users {} x s \<union> (if s = unat p then {k} else {})" if "unat (slotFirstDynamicIndex x) \<le> s" for s
  proof (intro set_eqI)
    fix i
    show "i \<in> users {} y s \<longleftrightarrow> i \<in> users {} x s \<union> (if s = unat p then {k} else {})"
      using occ [OF that] k(2) one p4(1) by (cases "i = k") (auto simp: users_def occupies_def y)
  qed
  have kn: "k \<notin> users {} x s" if "unat (slotFirstDynamicIndex x) \<le> s" for s using occ [OF that] by (simp add: users_def)
  have cnt: "unat (f s) = card (users {} y s)" if "unat (slotFirstDynamicIndex x) \<le> s" for s
    using so that us [OF that] kn [OF that] f by (cases "s = unat p") (simp_all add: stack_ok_def)
  have nr: "wasmStack x k \<noteq> 60000" "wasmStack x k \<noteq> 60002" using w by auto
  have reg: "reg_ok {} y r" if "reg_ok {} x r" "r = 0 \<or> r = 1" for r
  proof -
    have "wasmStack x k \<noteq> reg_alias r" "p \<noteq> reg_alias r" using nr p4(1) by (auto simp: reg_alias_def)
    with that(1) k(2) show ?thesis by (auto simp: reg_ok_def y)
  qed
  have ent: "entry_ok y i" if "i < unat (stackIndex x)" for i
  proof -
    have "entry_ok x i" using so that by (simp add: stack_ok_def)
    then show ?thesis using p one [OF that] by (auto simp: entry_ok_def y)
  qed
  have "stack_ok {} (\<lambda>_. 0) y"
    using so cnt reg ent unfolding stack_ok_def by (simp add: y)
  moreover have "inj_on (wasmStack y) {..< n} \<and> (\<forall>i < n. wasmStack y i = wasmStack x i)"
    using c k(1) by (auto simp: cfg_def y inj_on_def)
  moreover have "typeStack y i = 1 \<and> (wasmStack y i = 60000 \<or> unat (wasmStack y i) < unat (maxStackSlots y))"
    if "i < unat (stackIndex x)" for i
    using cfg_entry [OF c that] p by (auto simp: y)
  ultimately show "cfg n y" using c p bd unfolding cfg_def by (simp add: y word_le_nat_alt)
  show "grows x y" by (rule grows_dynamic [OF c]) (use p f in \<open>auto simp: y word_le_nat_alt\<close>)
qed

lemma FindReferencedLocal_ok:
  assumes "cfg n x" "set is \<subseteq> {n ..< unat (stackIndex x)}" "unat ls < unat (slotFirstDynamicIndex x)"
    "p0 = ls \<or> unat (slotFirstDynamicIndex x) \<le> unat p0 \<and> unat p0 < unat (maxStackSlots x)"
    "FindReferencedLocal_loop ls is p0 x = Inr (p, y)"
  shows "cfg n y \<and> grows x y \<and> code y = code x \<and> co_wasm y = co_wasm x \<and> stackIndex y = stackIndex x
    \<and> (\<forall>k. wasmStack y k = (if k \<in> set is \<and> wasmStack x k = ls then p else wasmStack x k))
    \<and> (p0 \<noteq> ls \<longrightarrow> p = p0)
    \<and> (p0 = ls \<longrightarrow> p = ls \<and> (\<forall>k \<in> set is. wasmStack x k \<noteq> ls) \<or> unat (slotFirstDynamicIndex x) \<le> unat p \<and> unat p < unat (maxStackSlots y)
          \<and> (\<forall>k < unat (stackIndex x). wasmStack x k \<noteq> p))"
  using assms
proof (induction "is" arbitrary: p0 x)
  case Nil
  then show ?case by simp
next
  case (Cons k "is")
  note b = cfg_bounds [OF Cons.prems(1)]
  have k: "n \<le> k" "k < unat (stackIndex x)" using Cons.prems(2) by auto
  show ?case
  proof (cases "wasmStack x k = ls")
    case False
    then have "FindReferencedLocal_loop ls is p0 x = Inr (p, y)" using Cons.prems(5) by simp
    then show ?thesis using Cons.IH [OF Cons.prems(1) _ Cons.prems(3,4)] Cons.prems(2) False by auto
  next
    case True
    have ks: "unat (wasmStack x k) < unat (slotFirstDynamicIndex x)" using True Cons.prems(3) by simp
    have ty: "GetStackTypeFromBottom x (of_nat k) = 1"
    proof -
      have "unat (of_nat k :: u16) = k" using k b(2) by (simp add: unsigned_of_nat take_bit_nat_eq_self)
      then show ?thesis using k(2) cfg_entry(2) [OF Cons.prems(1) k(2)] by (simp add: GetStackTypeFromBottom_def word_less_nat_alt)
    qed
    obtain p1 f bb ms where x1: "FindReferencedLocal_loop ls is p1 (x\<lparr>m3Slots := f, slotMaxAllocatedIndexPlusOne := bb,
          maxStackSlots := ms, wasmStack := (wasmStack x)(k := p1)\<rparr>) = Inr (p, y)"
      "unat (slotFirstDynamicIndex x) \<le> unat p1" "unat p1 < unat ms" "unat (maxStackSlots x) \<le> unat ms" "unat ms \<le> 4000"
      "unat (f (unat p1)) = Suc (unat (m3Slots x (unat p1)))" "\<And>s. s \<noteq> unat p1 \<Longrightarrow> f s = m3Slots x s"
      "p0 \<noteq> ls \<Longrightarrow> p1 = p0" "p0 = ls \<Longrightarrow> \<forall>k < unat (stackIndex x). wasmStack x k \<noteq> p1"
    proof (cases "p0 = ls")
      case fresh: True
      obtain j o1 where a: "AllocateSlots x 1 = Inr (j, o1)"
        "FindReferencedLocal_loop ls is j (o1\<lparr>wasmStack := (wasmStack o1)(k := j)\<rparr>) = Inr (p, y)"
        using Cons.prems(5) True fresh ty by (auto simp: m3_result)
      have so: "stack_ok {} (\<lambda>_. 0) x" using Cons.prems(1) by (simp add: cfg_def)
      note A = AllocateSlots_fields [OF so a(1)]
      then obtain bb where o1: "o1 = x\<lparr>m3Slots := (m3Slots x)(unat j := 1), slotMaxAllocatedIndexPlusOne := bb,
          maxStackSlots := max (maxStackSlots x) (j + 1)\<rparr>" by blast
      have "users {} x (unat j) = {}" using AllocateSlots_Inr(5) [OF so a(1)] by simp
      then have "unat (m3Slots x (unat j)) = 0" using so A(1) by (simp add: stack_ok_def)
      then show ?thesis
        using that [of j "max (maxStackSlots x) (j + 1)" bb "(m3Slots x)(unat j := 1)"] a(2) A(1) touched [of j "maxStackSlots x"] b(6) fresh
        by (simp add: o1)
    next
      case False
      then have "m3Slots x (unat p0) < 0xFF" and
        r: "FindReferencedLocal_loop ls is p0 (x\<lparr>m3Slots := (m3Slots x)(unat p0 := m3Slots x (unat p0) + 1),
            wasmStack := (wasmStack x)(k := p0)\<rparr>) = Inr (p, y)"
        using Cons.prems(5) True by (auto simp: m3_result IncrementSlotUsageCount_def split: if_splits)
      from this(1) have "unat (m3Slots x (unat p0) + 1) = Suc (unat (m3Slots x (unat p0)))"
        by (subst unat_add_lem [THEN iffD1]) (simp_all add: word_less_nat_alt)
      then show ?thesis
        using that [of p0 "maxStackSlots x" "slotMaxAllocatedIndexPlusOne x" "(m3Slots x)(unat p0 := m3Slots x (unat p0) + 1)"]
          r Cons.prems(4) False b(6) by simp
    qed
    let ?x = "x\<lparr>m3Slots := f, slotMaxAllocatedIndexPlusOne := bb, maxStackSlots := ms, wasmStack := (wasmStack x)(k := p1)\<rparr>"
    have R: "cfg n ?x \<and> grows x ?x" by (rule rename_entry [OF Cons.prems(1) k ks x1(2-7) refl])
    have ne: "p1 \<noteq> ls" using x1(2) Cons.prems(3) by auto
    have "set is \<subseteq> {n ..< unat (stackIndex ?x)}" "unat ls < unat (slotFirstDynamicIndex ?x)"
      "p1 = ls \<or> unat (slotFirstDynamicIndex ?x) \<le> unat p1 \<and> unat p1 < unat (maxStackSlots ?x)"
      using Cons.prems(2,3) x1(2,3) by simp_all
    note I = Cons.IH [OF conjunct1 [OF R] this x1(1)]
    then have pp: "p = p1" and g: "grows ?x y" and cy: "cfg n y" using ne by simp_all
    have gy: "grows x y" using grows_trans R g by blast
    have "unat p1 < unat (maxStackSlots y)" using x1(3) g by (simp add: grows_def word_le_nat_alt)
    moreover have "wasmStack y i = (if i \<in> set (k # is) \<and> wasmStack x i = ls then p else wasmStack x i)" for i
      using I True ne pp by (cases "i = k") auto
    ultimately show ?thesis using I gy cy pp x1(2,8,9) by auto
  qed
qed


lemma matches_cong:
  "wasmStack z = wasmStack y \<Longrightarrow> stackIndex z = stackIndex y \<Longrightarrow> slotFirstConstIndex z = slotFirstConstIndex y \<Longrightarrow>
    matches K F z sp r0 vm vs = matches K F y sp r0 vm vs"
  by (simp add: matches_def entry_value_def)

lemma simI:
  "cfg n z \<Longrightarrow> grows x z \<Longrightarrow> code z = code x @ ws \<Longrightarrow> decodes ws is \<Longrightarrow>
    (\<And>E K F. serves K F z \<Longrightarrow> does f E K F x z is) \<Longrightarrow> sim n x f z"
  unfolding sim_def by blast

lemma write_local:
  assumes "cfg n y" "serves K F y" "matches K F y sp r0 vm vs" "i < n"
    "\<And>k. n \<le> k \<Longrightarrow> k < unat (stackIndex y) \<Longrightarrow> wasmStack y k \<noteq> wasmStack y i"
  shows "unat (wasmStack y i) < F" "matches K F y sp r0 (put sp (unat (wasmStack y i)) v vm) (vs[i := v])"
proof -
  note L = cfg_local [OF assms(1,4)]
  show F: "unat (wasmStack y i) < F" using cfg_entry(1) [OF assms(1) L(3)] L(2) assms(2) by (simp add: serves_def)
  have i: "i < length vs" using L(3) assms(3) by (simp add: matches_def)
  have e: "if wasmStack y k \<noteq> 60000 \<and> unat (wasmStack y k) = unat (wasmStack y i) then vs[i := v] ! k = v
      else wasmStack y k = wasmStack y k \<and> vs[i := v] ! k = vs ! k" if "k < unat (stackIndex y)" for k
  proof (cases "k = i")
    case False
    have "wasmStack y k \<noteq> wasmStack y i"
    proof (cases "n \<le> k")
      case True
      then show ?thesis using assms(5) that by blast
    next
      case k: False
      have "inj_on (wasmStack y) {..< n}" using assms(1) by (simp add: cfg_def)
      then show ?thesis using False k assms(4) by (auto simp: inj_on_def)
    qed
    then have "unat (wasmStack y k) \<noteq> unat (wasmStack y i)" by (simp add: word_unat_eq_iff)
    then show ?thesis using False by simp
  qed (use i L(2) in simp)
  have c: "\<not> (unat (slotFirstConstIndex y) \<le> unat (wasmStack y i) \<and> unat (wasmStack y i) < unat (slotFirstConstIndex y) + length K)"
    using L(1) by simp
  show "matches K F y sp r0 (put sp (unat (wasmStack y i)) v vm) (vs[i := v])"
    by (rule matches_put [OF assms(3) F c refl refl length_list_update e])
qed

lemma top_state:
  assumes "cfg n y" "unat (stackIndex y) = Suc t" "n \<le> t"
  shows "GetStackTypeFromBottom y (word_of_int (GetStackTopIndex y)) = 1" "GetStackTopType y = 1"
    "IsStackIndexInRegister y (uint (word_of_int (GetStackTopIndex y) :: u16)) \<longleftrightarrow> wasmStack y t = 60000"
    "GetSlotForStackIndex y (word_of_int (GetStackTopIndex y)) = wasmStack y t"
proof -
  note b = cfg_bounds [OF assms(1)]
  have ti: "GetStackTopIndex y = int t" using top_index [OF b(2)] assms(2) by simp
  have t: "t < unat (stackIndex y)" using assms(2) by simp
  have ut: "unat (word_of_int (GetStackTopIndex y) :: u16) = t"
    using b(2) t by (simp add: ti unsigned_of_nat take_bit_nat_eq_self)
  have ui: "uint (word_of_int (GetStackTopIndex y) :: u16) = int t" unfolding uint_nat ut ..
  show "GetStackTypeFromBottom y (word_of_int (GetStackTopIndex y)) = 1"
    using t cfg_entry(2) [OF assms(1) t] by (simp add: GetStackTypeFromBottom_def word_less_nat_alt ut)
  show "GetSlotForStackIndex y (word_of_int (GetStackTopIndex y)) = wasmStack y t"
    using t by (simp add: GetSlotForStackIndex_def word_less_nat_alt ut)
  have "int t = int (unat (stackIndex y)) - int 1" using assms(2) by simp
  then show "IsStackIndexInRegister y (uint (word_of_int (GetStackTopIndex y) :: u16)) \<longleftrightarrow> wasmStack y t = 60000"
    using in_register_index [OF assms(1), of 1] assms(2) unfolding ui by simp
  have "stackIndex y \<noteq> 0" using assms(2) by auto
  then have "unat (stackIndex y - 1) = t" using assms(2) by (simp add: unat_minus_one)
  moreover have "1 \<le> stackIndex y" using assms(2) by (simp add: word_le_nat_alt)
  moreover have "stackFirstDynamicIndex y \<le> stackIndex y - 1" using calculation(1) assms(1,3) by (simp add: cfg_def word_le_nat_alt)
  ultimately show "GetStackTopType y = 1"
    using cfg_entry(2) [OF assms(1) t] by (simp add: GetStackTopType_def GetStackTypeFromTop_def Let_def)
qed

text \<open>The copy of the top to the local, before and after the entries that refer to the local have moved.\<close>

lemma CopyStackTopToSlot_ext:
  assumes c: "cfg n y" and t: "unat (stackIndex y) = Suc t" "n \<le> t" and e: "CopyStackTopToSlot env y ls = Inr z"
  shows "ext n y z (if wasmStack y t = 60000 then [W_op (op_SetSlot 1), W_32 (ucast ls)]
      else [W_op op_CopySlot_32, W_32 (ucast ls), W_32 (ucast (wasmStack y t))])
    \<and> wasmStack z = wasmStack y \<and> stackIndex z = stackIndex y"
proof -
  note T = top_state [OF c t]
  let ?op = "if wasmStack y t = 60000 then op_SetSlot 1 else op_CopySlot_32"
  obtain o1 where o1: "emit_op_at env y ?op = Inr o1"
    "z = (if wasmStack y t = 60000 then emit_slot o1 ls
          else emit_slot (emit_slot o1 ls) (GetSlotForStackIndex (emit_slot o1 ls) (word_of_int (GetStackTopIndex y))))"
    using e T(1,3) by (auto simp: CopyStackTopToSlot_def CopyStackIndexToSlot_def typed_op_def Let_def m3_result split: if_splits)
  note E = ext_emit_op [OF c o1(1)]
  then have c1: "cfg n o1" by (simp add: ext_def)
  note W = ext_emit_word [OF c1, of "W_32 (ucast ls)", folded emit_slot_def]
  then have c2: "cfg n (emit_slot o1 ls)" by (simp add: ext_def)
  note X = ext_emit_word [OF c2, of "W_32 (ucast (wasmStack y t))", folded emit_slot_def]
  have "GetSlotForStackIndex (emit_slot o1 ls) k = GetSlotForStackIndex y k" for k
    using E W by (simp add: GetSlotForStackIndex_def)
  then have z: "z = (if wasmStack y t = 60000 then emit_slot o1 ls else emit_slot (emit_slot o1 ls) (wasmStack y t))"
    using o1(2) T(4) by simp
  have "ext n y (emit_slot o1 ls) [W_op ?op, W_32 (ucast ls)]"
    using ext_trans [OF conjunct1 [OF E] conjunct1 [OF W]] by simp
  then show ?thesis using z E W X ext_trans [OF _ conjunct1 [OF X]] by (cases "wasmStack y t = 60000") force+
qed

lemma PreservedCopyTopSlot_ext:
  assumes c: "cfg n y" and t: "unat (stackIndex y) = Suc t" "n \<le> t" and e: "PreservedCopyTopSlot env y ls p = Inr z"
  shows "ext n y z (if wasmStack y t = 60000 then [W_op (op_PreserveSetSlot 1), W_32 (ucast ls), W_32 (ucast p)]
      else [W_op op_PreserveCopySlot_32, W_32 (ucast ls), W_32 (ucast (wasmStack y t)), W_32 (ucast p)])
    \<and> wasmStack z = wasmStack y \<and> stackIndex z = stackIndex y"
proof -
  have reg: "IsStackTopInRegister w \<longleftrightarrow> wasmStack y t = 60000" "GetStackTopSlotNumber w = wasmStack y t"
    if "cfg n w" "wasmStack w = wasmStack y" "stackIndex w = stackIndex y" for w
    using in_register(1,3) [OF that(1)] that(2,3) t by simp_all
  let ?op = "if wasmStack y t = 60000 then op_PreserveSetSlot 1 else op_PreserveCopySlot_32"
  obtain o1 where o1: "emit_op_at env y ?op = Inr o1"
    "z = emit_slot (if IsStackTopInSlot (emit_slot o1 ls) then emit_slot (emit_slot o1 ls) (GetStackTopSlotNumber (emit_slot o1 ls))
                    else emit_slot o1 ls) p"
    using e reg [OF c] top_state(2) [OF c t]
    by (auto simp: PreservedCopyTopSlot_def typed_op_def Let_def m3_result split: if_splits)
  note E = ext_emit_op [OF c o1(1)]
  then have c1: "cfg n o1" by (simp add: ext_def)
  note W = ext_emit_word [OF c1, of "W_32 (ucast ls)", folded emit_slot_def]
  then have c2: "cfg n (emit_slot o1 ls)" by (simp add: ext_def)
  note R = reg [OF c2]
  note X = ext_emit_word [OF c2, of "W_32 (ucast (wasmStack y t))", folded emit_slot_def]
  let ?o2 = "if wasmStack y t = 60000 then emit_slot o1 ls else emit_slot (emit_slot o1 ls) (wasmStack y t)"
  have z: "z = emit_slot ?o2 p" using o1(2) R E W by (simp add: IsStackTopInSlot_def)
  have "ext n y (emit_slot o1 ls) [W_op ?op, W_32 (ucast ls)]"
    using ext_trans [OF conjunct1 [OF E] conjunct1 [OF W]] by simp
  then have o2: "ext n y ?o2 (if wasmStack y t = 60000 then [W_op (op_PreserveSetSlot 1), W_32 (ucast ls)]
      else [W_op op_PreserveCopySlot_32, W_32 (ucast ls), W_32 (ucast (wasmStack y t))])
    \<and> wasmStack ?o2 = wasmStack y \<and> stackIndex ?o2 = stackIndex y"
    using E W X ext_trans [OF _ conjunct1 [OF X]] by (cases "wasmStack y t = 60000") force+
  then have c3: "cfg n ?o2" unfolding ext_def by blast
  note P = ext_emit_word [OF c3, of "W_32 (ucast p)", folded emit_slot_def]
  from ext_trans [OF conjunct1 [OF o2] conjunct1 [OF P]] o2 P show ?thesis unfolding z by (cases "wasmStack y t = 60000") simp_all
qed


lemma does_copy:
  assumes c: "cfg n y" and t: "unat (stackIndex y) = Suc t" "n \<le> t" and i: "i < n"
    and al: "\<And>k. n \<le> k \<Longrightarrow> k < unat (stackIndex y) \<Longrightarrow> wasmStack y k \<noteq> wasmStack y i"
    and z: "wasmStack z = wasmStack y" "stackIndex z = stackIndex y" "slotFirstConstIndex z = slotFirstConstIndex y"
    and s: "serves K F y"
  shows "does (\<lambda>vs. Inr (vs[i := last vs])) E K F y z [if wasmStack y t = 60000 then I_SetSlot T_i32 (unat (wasmStack y i))
    else I_CopySlot T_i32 (unat (wasmStack y i)) (unat (wasmStack y t))]"
  unfolding does_def
proof (intro allI impI)
  fix sp r0 vm vs
  assume m: "matches K F y sp r0 vm vs"
  let ?d = "unat (wasmStack y i)" and ?v = "vs ! t"
  have "length vs = Suc t" using m t(1) by (simp add: matches_def)
  then have l: "last vs = ?v" by (simp add: last_conv_nth flip: length_0_conv)
  note W = write_local(1) [OF c s m i al] write_local(2) [OF c s m i al, where v = ?v]
  have d: "sp + ?d < length (vm_stack vm)" using W(1) m by (simp add: matches_def)
  have "matches K F z sp r0 (put sp ?d ?v vm) (vs[i := ?v])" using W(2) matches_cong [OF z] by simp
  moreover have "exec_seq E [if wasmStack y t = 60000 then I_SetSlot T_i32 ?d else I_CopySlot T_i32 ?d (unat (wasmStack y t))] sp r0 vm
      = Inr (r0, put sp ?d ?v vm)"
  proof (cases "wasmStack y t = 60000")
    case True
    then have "ucast r0 = ?v" using matches_register [OF m] t(1) by simp
    then show ?thesis using True d by (simp add: exec_simple_def set_slot_put)
  next
    case False
    then have "get_slot T_i32 sp (unat (wasmStack y t)) vm = Inr (ucast ?v)" using matches_get_slot [OF c s m] t(1) by simp
    then show ?thesis using False d by (simp add: exec_simple_def set_slot_put)
  qed
  ultimately show "case Inr (vs[i := last vs]) of Inl e \<Rightarrow> exec_seq E [if wasmStack y t = 60000 then I_SetSlot T_i32 ?d
        else I_CopySlot T_i32 ?d (unat (wasmStack y t))] sp r0 vm = Inl e
    | Inr vs' \<Rightarrow> \<exists>r0' vm'. exec_seq E [if wasmStack y t = 60000 then I_SetSlot T_i32 ?d
        else I_CopySlot T_i32 ?d (unat (wasmStack y t))] sp r0 vm = Inr (r0', vm')
        \<and> matches K F z sp r0' vm' vs' \<and> same_outside F sp vm vm'"
    using same_outside_put [OF W(1)] l by simp
qed

text \<open>First the old value moves to the preserved slot \<open>p\<close>, which \<open>y\<close> already records.\<close>

lemma does_preserved_copy:
  assumes cx: "cfg n x" and c: "cfg n y" and g: "grows x y" and t: "unat (stackIndex y) = Suc t" "n \<le> t" and i: "i < n"
    and r: "\<And>k. wasmStack y k = (if n \<le> k \<and> k < unat (stackIndex x) \<and> wasmStack x k = wasmStack x i then p else wasmStack x k)"
    and si: "stackIndex y = stackIndex x"
    and p: "unat (slotFirstDynamicIndex x) \<le> unat p" "unat p < unat (maxStackSlots y)" "\<And>k. k < unat (stackIndex x) \<Longrightarrow> wasmStack x k \<noteq> p"
    and z: "wasmStack z = wasmStack y" "stackIndex z = stackIndex y" "slotFirstConstIndex z = slotFirstConstIndex y"
    and s: "serves K F y"
  shows "does (\<lambda>vs. Inr (vs[i := last vs])) E K F x z [if wasmStack y t = 60000 then I_PreserveSetSlot T_i32 (unat (wasmStack y i)) (unat p)
    else I_PreserveCopySlot T_i32 (unat (wasmStack y i)) (unat (wasmStack y t)) (unat p)]"
  unfolding does_def
proof (intro allI impI)
  fix sp r0 vm vs
  assume m: "matches K F x sp r0 vm vs"
  let ?d = "unat (wasmStack y i)" and ?v = "vs ! t" and ?p = "unat p"
  note L = cfg_local [OF cx i] and b = cfg_bounds [OF cx]
  have yi: "wasmStack y i = wasmStack x i" using r [of i] i by simp
  have sx: "serves K F x" by (rule serves_grows [OF s g])
  have pF: "?p < F" using p(2) s by (simp add: serves_def)
  have "length vs = Suc t" using m t(1) si by (simp add: matches_def)
  then have l: "last vs = ?v" by (simp add: last_conv_nth flip: length_0_conv)
  have fc: "slotFirstConstIndex y = slotFirstConstIndex x" "slotFirstDynamicIndex y = slotFirstDynamicIndex x" using g by (simp_all add: grows_def)
  have const: "\<not> (unat (slotFirstConstIndex x) \<le> ?p \<and> ?p < unat (slotFirstConstIndex x) + length K)"
    using sx p(1) by (simp add: serves_def)
  have sp1: "sp + ?p < length (vm_stack vm)" using pF m by (simp add: matches_def)
  have old: "get_slot T_i32 sp ?d vm = Inr (ucast (vs ! i))" using matches_get_slot [OF cx sx m L(3,2)] by (simp add: yi)
  have p6: "p \<noteq> 60000" using p(2) cfg_bounds(6) [OF c] by auto
  have e: "if wasmStack y k \<noteq> 60000 \<and> unat (wasmStack y k) = ?p then vs ! k = vs ! i
      else wasmStack y k = wasmStack x k \<and> vs ! k = vs ! k" if k: "k < unat (stackIndex x)" for k
  proof (cases "n \<le> k \<and> wasmStack x k = wasmStack x i")
    case True
    then have "entry_value x sp r0 vm k = entry_value x sp r0 vm i" by (simp add: entry_value_def)
    then have "vs ! k = vs ! i" using m k L(3) by (simp add: matches_def)
    then show ?thesis using True r [of k] k p6 by simp
  next
    case False
    then have "wasmStack y k = wasmStack x k" using r [of k] k by auto
    moreover from this have "unat (wasmStack y k) \<noteq> ?p" using p(3) [OF k] by (simp add: word_unat_eq_iff)
    ultimately show ?thesis by simp
  qed
  let ?vm = "put sp ?p (vs ! i) vm"
  have m1: "matches K F y sp r0 ?vm vs" by (rule matches_put [OF m pF const si fc(1) refl e])
  have al: "wasmStack y k \<noteq> wasmStack y i" if "n \<le> k" "k < unat (stackIndex y)" for k
    using r [of k] that si yi p(3) [OF L(3)] by auto
  note W = write_local(1) [OF c s m1 i al] write_local(2) [OF c s m1 i al, where v = ?v]
  have d: "sp + ?d < length (vm_stack ?vm)" using W(1) m1 by (simp add: matches_def)
  have "matches K F z sp r0 (put sp ?d ?v ?vm) (vs[i := ?v])" using W(2) matches_cong [OF z] by simp
  moreover have "exec_seq E [if wasmStack y t = 60000 then I_PreserveSetSlot T_i32 ?d ?p
      else I_PreserveCopySlot T_i32 ?d (unat (wasmStack y t)) ?p] sp r0 vm = Inr (r0, put sp ?d ?v ?vm)"
  proof (cases "wasmStack y t = 60000")
    case True
    then have "ucast r0 = ?v" using matches_register [OF m1] t(1) by simp
    then show ?thesis using True d sp1 old by (simp add: exec_simple_def set_slot_put)
  next
    case False
    then have "get_slot T_i32 sp (unat (wasmStack y t)) ?vm = Inr (ucast ?v)" using matches_get_slot [OF c s m1] t(1) by simp
    then show ?thesis using False d sp1 old by (simp add: exec_simple_def set_slot_put)
  qed
  moreover have "same_outside F sp vm (put sp ?d ?v ?vm)"
    using same_outside_trans [OF same_outside_put [OF pF] same_outside_put [OF W(1)]] .
  ultimately show "case Inr (vs[i := last vs]) of Inl e \<Rightarrow> exec_seq E [if wasmStack y t = 60000 then I_PreserveSetSlot T_i32 ?d ?p
        else I_PreserveCopySlot T_i32 ?d (unat (wasmStack y t)) ?p] sp r0 vm = Inl e
    | Inr vs' \<Rightarrow> \<exists>r0' vm'. exec_seq E [if wasmStack y t = 60000 then I_PreserveSetSlot T_i32 ?d ?p
        else I_PreserveCopySlot T_i32 ?d (unat (wasmStack y t)) ?p] sp r0 vm = Inr (r0', vm')
        \<and> matches K F z sp r0' vm' vs' \<and> same_outside F sp vm vm'"
    using l by simp
qed

lemma decodes_copies:
  "decodes [W_op (op_SetSlot 1), W_32 (ucast (d :: u16))] [I_SetSlot T_i32 (unat d)]"
  "decodes [W_op op_CopySlot_32, W_32 (ucast d), W_32 (ucast (s :: u16))] [I_CopySlot T_i32 (unat d) (unat s)]"
  "decodes [W_op (op_PreserveSetSlot 1), W_32 (ucast d), W_32 (ucast (p :: u16))] [I_PreserveSetSlot T_i32 (unat d) (unat p)]"
  "decodes [W_op op_PreserveCopySlot_32, W_32 (ucast d), W_32 (ucast s), W_32 (ucast p)] [I_PreserveCopySlot T_i32 (unat d) (unat s) (unat p)]"
  by (rule decodes_single, simp_all add: word_instr_def slot_instr_def value_type_def is_op_def)+

lemma sim_set:
  assumes c: "cfg n x" and i: "i < n" and t: "n < unat (stackIndex x)"
    and f: "FindReferencedLocalWithinCurrentBlock x (wasmStack x i) = Inr (p, y)"
    and co: "(if p = wasmStack x i then CopyStackTopToSlot env y (wasmStack x i) else PreservedCopyTopSlot env y (wasmStack x i) p) = Inr z"
  shows "sim n x (\<lambda>vs. Inr (vs[i := last vs])) z \<and> stackIndex z = stackIndex x"
proof -
  let ?ls = "wasmStack x i" and ?is = "[n ..< unat (stackIndex x)]"
  note L = cfg_local [OF c i] and b = cfg_bounds [OF c]
  have "unat (referenced_start (block x) (outer x)) = n" using c by (simp add: cfg_def)
  then have loop: "FindReferencedLocal_loop ?ls ?is ?ls x = Inr (p, y)" using f by (simp add: FindReferencedLocalWithinCurrentBlock_def)
  have "unat ?ls < unat (slotFirstDynamicIndex x)" using L(1) b(4) by simp
  note R = FindReferencedLocal_ok [OF c _ this disjI1 [OF refl] loop, simplified]
  then have cy: "cfg n y" and g: "grows x y" and cd: "code y = code x" and si: "stackIndex y = stackIndex x"
    and w: "\<And>k. wasmStack y k = (if n \<le> k \<and> k < unat (stackIndex x) \<and> wasmStack x k = ?ls then p else wasmStack x k)"
    and alt: "p = ?ls \<and> (\<forall>k \<in> {n ..< unat (stackIndex x)}. wasmStack x k \<noteq> ?ls) \<or> unat (slotFirstDynamicIndex x) \<le> unat p
          \<and> unat p < unat (maxStackSlots y) \<and> (\<forall>k < unat (stackIndex x). wasmStack x k \<noteq> p)"
    by simp_all
  have yi: "wasmStack y i = ?ls" using w [of i] i by simp
  obtain t where t: "unat (stackIndex y) = Suc t" "n \<le> t" using t si by (metis less_eq_Suc_le Suc_le_D Suc_le_mono)
  show ?thesis
  proof (cases "p = ?ls")
    case True
    then have none: "wasmStack x k \<noteq> ?ls" if "n \<le> k" "k < unat (stackIndex x)" for k using alt L(3) that by auto
    have wy: "wasmStack y = wasmStack x" using w True by (intro ext) auto
    have e: "CopyStackTopToSlot env y (wasmStack y i) = Inr z" using co True yi by simp
    note X = CopyStackTopToSlot_ext [OF cy t e]
    then have gz: "grows y z" and cz: "cfg n z" by (simp_all add: ext_def)
    have "does (\<lambda>vs. Inr (vs[i := last vs])) E K F x z [if wasmStack y t = 60000 then I_SetSlot T_i32 (unat (wasmStack y i))
        else I_CopySlot T_i32 (unat (wasmStack y i)) (unat (wasmStack y t))]" if "serves K F z" for E K F
    proof -
      have "does (\<lambda>vs. Inr (vs[i := last vs])) E K F y z [if wasmStack y t = 60000 then I_SetSlot T_i32 (unat (wasmStack y i))
        else I_CopySlot T_i32 (unat (wasmStack y i)) (unat (wasmStack y t))]"
        by (rule does_copy [OF cy t i]) (use none wy si X gz serves_grows [OF that gz] in \<open>auto simp: grows_def\<close>)
      moreover have "matches K F y sp r0 vm vs = matches K F x sp r0 vm vs" for sp r0 vm vs
        using g si wy by (simp add: matches_def entry_value_def grows_def)
      ultimately show ?thesis by (simp add: does_def)
    qed
    moreover have "decodes (if wasmStack y t = 60000 then [W_op (op_SetSlot 1), W_32 (ucast (wasmStack y i))]
        else [W_op op_CopySlot_32, W_32 (ucast (wasmStack y i)), W_32 (ucast (wasmStack y t))])
      [if wasmStack y t = 60000 then I_SetSlot T_i32 (unat (wasmStack y i)) else I_CopySlot T_i32 (unat (wasmStack y i)) (unat (wasmStack y t))]"
      using decodes_copies by simp
    moreover have "code z = code x @ (if wasmStack y t = 60000 then [W_op (op_SetSlot 1), W_32 (ucast (wasmStack y i))]
        else [W_op op_CopySlot_32, W_32 (ucast (wasmStack y i)), W_32 (ucast (wasmStack y t))])"
      using X cd by (simp add: ext_def)
    ultimately have "sim n x (\<lambda>vs. Inr (vs[i := last vs])) z" by (intro simI [OF cz grows_trans [OF g gz]])
    then show ?thesis using X si by simp
  next
    case False
    then have P: "unat (slotFirstDynamicIndex x) \<le> unat p" "unat p < unat (maxStackSlots y)" "\<And>k. k < unat (stackIndex x) \<Longrightarrow> wasmStack x k \<noteq> p"
      using alt False by blast+
    have e: "PreservedCopyTopSlot env y (wasmStack y i) p = Inr z" using co False yi by simp
    note X = PreservedCopyTopSlot_ext [OF cy t e]
    then have gz: "grows y z" and cz: "cfg n z" by (simp_all add: ext_def)
    have "does (\<lambda>vs. Inr (vs[i := last vs])) E K F x z [if wasmStack y t = 60000 then I_PreserveSetSlot T_i32 (unat (wasmStack y i)) (unat p)
        else I_PreserveCopySlot T_i32 (unat (wasmStack y i)) (unat (wasmStack y t)) (unat p)]" if "serves K F z" for E K F
      by (rule does_preserved_copy [OF c cy g t i w si P]) (use X gz serves_grows [OF that gz] in \<open>auto simp: grows_def\<close>)
    moreover have "decodes (if wasmStack y t = 60000 then [W_op (op_PreserveSetSlot 1), W_32 (ucast (wasmStack y i)), W_32 (ucast p)]
        else [W_op op_PreserveCopySlot_32, W_32 (ucast (wasmStack y i)), W_32 (ucast (wasmStack y t)), W_32 (ucast p)])
      [if wasmStack y t = 60000 then I_PreserveSetSlot T_i32 (unat (wasmStack y i)) (unat p)
        else I_PreserveCopySlot T_i32 (unat (wasmStack y i)) (unat (wasmStack y t)) (unat p)]"
      using decodes_copies by simp
    moreover have "code z = code x @ (if wasmStack y t = 60000 then [W_op (op_PreserveSetSlot 1), W_32 (ucast (wasmStack y i)), W_32 (ucast p)]
        else [W_op op_PreserveCopySlot_32, W_32 (ucast (wasmStack y i)), W_32 (ucast (wasmStack y t)), W_32 (ucast p)])"
      using X cd by (simp add: ext_def)
    ultimately have "sim n x (\<lambda>vs. Inr (vs[i := last vs])) z" by (intro simI [OF cz grows_trans [OF g gz]])
    then show ?thesis using X si by simp
  qed
qed

end
