(* ===== verification/M3_Straight_Body.thy ===== *)
theory M3_Straight_Body
  imports M3_Straight_Ops
begin

text \<open>
  Straight-line bodies on \<^verbatim>\<open>i32\<close> values.  \<open>value_step\<close> and \<open>value_steps\<close> say what instructions do to
  the list of all values (locals, then operands), \<open>valid\<close> is their validation; \<open>valid_run\<close> relates both
  to the stack machine of \<open>M3_Decode\<close>.  \<open>sim_statement\<close> is the simulation for one statement,
  \<open>straight_statements\<close> for all statements before the final \<^verbatim>\<open>end\<close>, \<open>straight_end\<close> for that \<^verbatim>\<open>end\<close>.
\<close>

section \<open>The instructions\<close>

text \<open>What an instruction does to the values of all entries.\<close>

fun value_step :: "wop \<Rightarrow> u32 list \<Rightarrow> u32 list result" where
  "value_step (Wasm_const (V32 v)) vs = Inr (vs @ [v])"
| "value_step (Wasm_get i) vs = Inr (vs @ [vs ! unat i])"
| "value_step (Wasm_set i) vs = Inr (butlast (vs[unat i := last vs]))"
| "value_step (Wasm_tee i) vs = Inr (vs[unat i := last vs])"
| "value_step Wasm_drop vs = Inr (butlast vs)"
| "value_step (Wasm_op (Op_bin32 b)) vs =
    (let m = length vs - 2 in tryR (binop32 b (vs ! m) (vs ! Suc m)) (\<lambda>v. Inr (take m vs @ [ucast v])))"
| "value_step (Wasm_op (Op_un32 u)) vs =
    (let m = length vs - 1 in tryR (unop32_value u (vs ! m)) (\<lambda>v. Inr (take m vs @ [ucast v])))"
| "value_step _ vs = Inr vs"

text \<open>The instructions on \<^verbatim>\<open>i32\<close> values alone.\<close>

definition i32_wop :: "wop \<Rightarrow> bool" where
  "i32_wop g = (case g of
      Wasm_const v \<Rightarrow> (case v of V32 x \<Rightarrow> True | V64 x \<Rightarrow> False)
    | Wasm_op w \<Rightarrow> (case w of Op_bin32 b \<Rightarrow> True | Op_un32 u \<Rightarrow> result_type w = T_i32 | _ \<Rightarrow> False)
    | _ \<Rightarrow> True)"

text \<open>The values of \<open>n\<close> locals and the stack above them as a state of the stack machine.\<close>

definition machine_state :: "nat \<Rightarrow> u32 list \<Rightarrow> wasm_state" where
  "machine_state n vs = (map V32 (take n vs), map V32 (rev (drop n vs)))"

lemma snoc_state:
  assumes "n < length vs"
  obtains us v where "vs = us @ [v]" "n \<le> length us" "last vs = v" "butlast vs = us"
proof -
  have "vs \<noteq> []" using assms by auto
  then have "vs = butlast vs @ [last vs]" by simp
  then show ?thesis using that [of "butlast vs" "last vs"] assms by simp
qed

lemma machine_state_snoc:
  "n \<le> length us \<Longrightarrow> machine_state n (us @ [v]) = (fst (machine_state n us), V32 v # snd (machine_state n us))"
  by (simp add: machine_state_def)

lemma machine_state_set:
  "i < n \<Longrightarrow> n \<le> length us \<Longrightarrow> machine_state n (us[i := v]) = ((fst (machine_state n us))[i := V32 v], snd (machine_state n us))"
  by (simp add: machine_state_def take_update_swap map_update drop_update_cancel)

text \<open>How many operands the instruction takes, and the locals it names.\<close>

definition has_operands :: "nat \<Rightarrow> wop \<Rightarrow> nat \<Rightarrow> bool" where
  "has_operands n g h = (case g of
      Wasm_get i \<Rightarrow> unat i < n
    | Wasm_set i \<Rightarrow> unat i < n \<and> n < h
    | Wasm_tee i \<Rightarrow> unat i < n \<and> n < h
    | Wasm_drop \<Rightarrow> n < h
    | Wasm_op (Op_bin32 b) \<Rightarrow> n + 2 \<le> h
    | Wasm_op (Op_un32 u) \<Rightarrow> n < h
    | _ \<Rightarrow> True)"

lemma empty_state: "n = length vs \<Longrightarrow> snd (machine_state n vs) = []"
  by (simp add: machine_state_def)

lemma wasm_step_values:
  assumes "i32_wop g" "n \<le> length vs" "wasm_step g (machine_state n vs) = Some r"
  shows "has_operands n g (length vs) \<and> r = map_sum id (machine_state n) (value_step g vs)"
proof -
  obtain ls st where ms: "machine_state n vs = (ls, st)" by force
  have len: "length ls = n" using ms assms(2) by (auto simp: machine_state_def)
  have st: "st = [] \<longleftrightarrow> n = length vs" using ms assms(2) by (auto simp: machine_state_def)
  have nth: "ls ! i = V32 (vs ! i)" if "i < n" for i using ms assms(2) that by (auto simp: machine_state_def)
  have app: "machine_state n (vs @ [v]) = (ls, V32 v # st)" for v using machine_state_snoc [OF assms(2)] ms by simp
  show ?thesis
  proof (cases "n < length vs")
    case False
    then have "st = []" "n = length vs" using st assms(2) by auto
    then show ?thesis using assms(1,3) ms app nth len
      by (cases g) (auto simp: i32_wop_def has_operands_def Let_def split: wval.splits operator.splits if_splits option.splits)
  next
    case True
    obtain us v where us: "vs = us @ [v]" "n \<le> length us" "last vs = v" "butlast vs = us" by (rule snoc_state [OF True])
    have s1: "st = V32 v # snd (machine_state n us)" "ls = fst (machine_state n us)"
      using machine_state_snoc [OF us(2), of v] ms us(1) by simp_all
    show ?thesis
    proof (cases g)
      case (Wasm_op w)
      show ?thesis
      proof (cases w)
        case (Op_bin32 b)
        have "n < length us"
        proof (rule ccontr)
          assume "\<not> n < length us"
          then have "snd (machine_state n us) = []" using us(2) by (simp add: machine_state_def)
          then show False using assms(3) ms Wasm_op Op_bin32 s1 by simp
        qed
        then obtain ts u where ts: "us = ts @ [u]" "n \<le> length ts" by (rule snoc_state)
        note m2 = machine_state_snoc [OF ts(2)]
        have st2: "st = V32 v # V32 u # snd (machine_state n ts)" "ls = fst (machine_state n ts)"
          using s1 m2 [of u] ts(1) by simp_all
        have "wasm_step g (machine_state n vs) = Some (tryR (binop32 b u v) (\<lambda>x. Inr (machine_state n (ts @ [ucast x]))))"
          using ms st2 m2 by (simp add: Wasm_op Op_bin32 wval_of_def result_type_def tryR_assoc)
        moreover have "value_step g vs = tryR (binop32 b u v) (\<lambda>x. Inr (ts @ [ucast x]))"
          using us(1) ts by (simp add: Wasm_op Op_bin32 nth_append)
        ultimately show ?thesis using assms(3) us(1) ts by (cases "binop32 b u v") (auto simp: has_operands_def Wasm_op Op_bin32)
      next
        case (Op_un32 f)
        have rt: "result_type (Op_un32 f) = T_i32" using assms(1) by (simp add: i32_wop_def Wasm_op Op_un32)
        have "wasm_step g (machine_state n vs) = Some (tryR (unop32_value f v) (\<lambda>x. Inr (machine_state n (us @ [ucast x]))))"
          using ms s1 machine_state_snoc [OF us(2)] rt by (simp add: Wasm_op Op_un32 wval_of_def tryR_assoc)
        moreover have "value_step g vs = tryR (unop32_value f v) (\<lambda>x. Inr (us @ [ucast x]))"
          using us(1,2) by (simp add: Wasm_op Op_un32)
        ultimately show ?thesis using assms(3) us(1,2) by (cases "unop32_value f v") (auto simp: has_operands_def Wasm_op Op_un32)
      qed (use assms(1) in \<open>auto simp: i32_wop_def Wasm_op\<close>)
    next
      case (Wasm_set i)
      then have i: "unat i < n" using assms(3) ms s1 len by (auto split: if_splits)
      have "butlast (vs[unat i := v]) = us[unat i := v]" using us(1,2) i by (simp add: list_update_append)
      then show ?thesis
        using assms(3) ms s1 len i us machine_state_set [OF i us(2), of v] by (auto simp: Wasm_set has_operands_def)
    next
      case (Wasm_tee i)
      then have i: "unat i < n" using assms(3) ms s1 len by (auto split: if_splits)
      have "vs[unat i := v] = us[unat i := v] @ [v]" using us(1,2) i by (simp add: list_update_append)
      then show ?thesis
        using assms(3) ms s1 len i us machine_state_set [OF i us(2), of v] machine_state_snoc [of n "us[unat i := v]" v]
        by (auto simp: Wasm_tee has_operands_def)
    qed (use assms(1,3) ms app nth len s1 us in \<open>auto simp: i32_wop_def has_operands_def split: wval.splits if_splits\<close>)
  qed
qed


section \<open>Statements\<close>

text \<open>The number of entries after the instruction.\<close>

definition height_after :: "wop \<Rightarrow> nat \<Rightarrow> nat" where
  "height_after g h = (case g of
      Wasm_const v \<Rightarrow> h + 1 | Wasm_get i \<Rightarrow> h + 1 | Wasm_set i \<Rightarrow> h - 1 | Wasm_drop \<Rightarrow> h - 1
    | Wasm_op w \<Rightarrow> (case w of Op_bin32 b \<Rightarrow> h - 1 | Op_bin64 b \<Rightarrow> h - 1 | _ \<Rightarrow> h) | _ \<Rightarrow> h)"

definition same_stack :: "M3Compilation \<Rightarrow> M3Compilation \<Rightarrow> bool" where
  "same_stack x y \<longleftrightarrow> (\<exists>p q. y = x\<lparr>co_wasm := p, previousOpcode := q\<rparr>)"

lemma same_stackI [simp, intro]: "same_stack x (x\<lparr>co_wasm := p\<rparr>)" "same_stack x (x\<lparr>previousOpcode := q\<rparr>)" "same_stack x x"
proof -
  have "x\<lparr>co_wasm := p\<rparr> = x\<lparr>co_wasm := p, previousOpcode := previousOpcode x\<rparr>"
    "x\<lparr>previousOpcode := q\<rparr> = x\<lparr>co_wasm := co_wasm x, previousOpcode := q\<rparr>"
    "x = x\<lparr>co_wasm := co_wasm x, previousOpcode := previousOpcode x\<rparr>" by simp_all
  then show "same_stack x (x\<lparr>co_wasm := p\<rparr>)" "same_stack x (x\<lparr>previousOpcode := q\<rparr>)" "same_stack x x"
    unfolding same_stack_def by blast+
qed

lemma same_stack_trans: "same_stack x y \<Longrightarrow> same_stack y z \<Longrightarrow> same_stack x z"
  by (cases x) (auto simp: same_stack_def)

lemma same_stack_sym: "same_stack x y \<Longrightarrow> same_stack y x"
proof -
  assume "same_stack x y"
  then obtain p q where "y = x\<lparr>co_wasm := p, previousOpcode := q\<rparr>" by (auto simp: same_stack_def)
  then have "x = y\<lparr>co_wasm := co_wasm x, previousOpcode := previousOpcode x\<rparr>" by simp
  then show ?thesis unfolding same_stack_def by blast
qed

lemma same_stack_fields:
  assumes "same_stack x y"
  shows "stackIndex y = stackIndex x" "code y = code x" "co_function y = co_function x" "co_wasmEnd y = co_wasmEnd x"
    "cfg n y = cfg n x" "matches K F y = matches K F x" "serves K F y = serves K F x"
    "block y = block x" "NumArgsAndLocals env y = NumArgsAndLocals env x"
proof -
  obtain p q where y: "y = x\<lparr>co_wasm := p, previousOpcode := q\<rparr>" using assms by (auto simp: same_stack_def)
  show "stackIndex y = stackIndex x" "code y = code x" "co_function y = co_function x" "co_wasmEnd y = co_wasmEnd x" "block y = block x"
    "matches K F y = matches K F x" "serves K F y = serves K F x" "NumArgsAndLocals env y = NumArgsAndLocals env x"
    by (auto simp: y matches_def serves_def entry_value_def fun_eq_iff NumArgsAndLocals_def function_type_def)
  show "cfg n y = cfg n x"
  proof
    show "cfg n x" if "cfg n y" by (rule cfg_cong [OF that]) (simp_all add: y)
    show "cfg n y" if "cfg n x" by (rule cfg_cong [OF that]) (simp_all add: y)
  qed
qed

text \<open>\<open>sim\<close> up to the cursor and the last opcode.\<close>

definition body_sim :: "nat \<Rightarrow> M3Compilation \<Rightarrow> (u32 list \<Rightarrow> u32 list result) \<Rightarrow> M3Compilation \<Rightarrow> bool" where
  "body_sim n x f z \<longleftrightarrow> (\<exists>y. sim n x f y \<and> same_stack y z)"

lemma sim_moved:
  assumes "sim n x f y" "same_stack x x'"
  shows "body_sim n x' f y"
proof -
  obtain p q where x': "x' = x\<lparr>co_wasm := p, previousOpcode := q\<rparr>" using assms(2) by (auto simp: same_stack_def)
  let ?y = "y\<lparr>co_wasm := p\<rparr>"
  have s: "same_stack y ?y" by simp
  obtain ws "is" where w: "code y = code x @ ws" "decodes ws is" "\<And>E K F. serves K F y \<Longrightarrow> does f E K F x y is"
    and c: "cfg n y" "grows x y" using assms(1) unfolding sim_def by blast
  have "sim n x' f ?y"
  proof (rule simI)
    show "cfg n ?y" using c(1) same_stack_fields(5) [OF s] by simp
    show "grows x' ?y" using c(2) by (simp add: grows_def x')
    show "code ?y = code x' @ ws" using w(1) by (simp add: x')
    show "does f E K F x' ?y is" if "serves K F ?y" for E K F
    proof -
      have "does f E K F x' ?y is = does f E K F x y is"
        by (simp only: does_def same_stack_fields(6) [OF s] same_stack_fields(6) [OF assms(2)])
      then show ?thesis using w(3) that same_stack_fields(7) [OF s] by simp
    qed
  qed (rule w(2))
  moreover have "same_stack ?y y" using s same_stack_sym by blast
  ultimately show ?thesis unfolding body_sim_def by blast
qed

lemma body_sim_trans:
  assumes "body_sim n x f y" "body_sim n y g z"
  shows "body_sim n x (\<lambda>vs. tryR (f vs) g) z"
proof -
  obtain y1 where y1: "sim n x f y1" "same_stack y1 y" using assms(1) by (auto simp: body_sim_def)
  obtain z1 where z1: "sim n y g z1" "same_stack z1 z" using assms(2) by (auto simp: body_sim_def)
  obtain z2 where "sim n y1 g z2" "same_stack z2 z1"
    using sim_moved [OF z1(1) same_stack_sym [OF y1(2)]] by (auto simp: body_sim_def)
  then show ?thesis using sim_trans [OF y1(1)] z1(2) same_stack_trans unfolding body_sim_def by blast
qed

lemma sim_cong:
  assumes "sim n x f y" "\<And>vs. length vs = unat (stackIndex x) \<Longrightarrow> f vs = g vs"
  shows "sim n x g y"
proof -
  have "does f E K F x y is = does g E K F x y is" for E K F "is"
    using assms(2) by (auto simp: does_def matches_def)
  then show ?thesis using assms(1) by (simp add: sim_def)
qed

lemma opcode_compilers:
  "map_option compiler (GetOpInfo 0x41) = Some (Some C_Const_i32)"
  "map_option compiler (GetOpInfo 0x20) = Some (Some C_GetLocal)"
  "map_option compiler (GetOpInfo 0x21) = Some (Some C_SetLocal)"
  "map_option compiler (GetOpInfo 0x22) = Some (Some C_SetLocal)"
  "map_option compiler (GetOpInfo 0x1a) = Some (Some C_Drop)"
  "map_option compiler (GetOpInfo 0x01) = Some (Some C_Nop)"
  "map_option compiler (GetOpInfo c_waOp_end) = Some (Some C_End)"
  by code_simp+

lemma not_operators: "wasm_operator 0x0b = None" "wasm_operator 0x05 = None"
  by code_simp+

lemma compile_compiler:
  assumes "map_option compiler (GetOpInfo opcode) = Some (Some c)" "c \<notin> {C_LoopOrBlock, C_If, C_ExtendedOpcode}"
  shows "compile_statement stmts env x opcode = Some (compile_leaf env c opcode x)"
  using assms by (auto simp: compile_statement_def)

lemma word_of_n: "n < 2 ^ 16 \<Longrightarrow> unat (of_nat n :: u32) = n"
  by (simp add: unsigned_of_nat take_bit_nat_eq_self)

lemma sim_local_index:
  assumes "cfg n x" "unat i < n"
  shows "GetSlotForStackIndex x (ucast (i :: u32)) = wasmStack x (unat i)" "GetStackTypeFromBottom x (ucast i) = 1"
proof -
  note L = cfg_local(3) [OF assms] and b = cfg_bounds(2) [OF assms(1)]
  have "unat (ucast i :: u16) = unat i" using L b by (simp add: unsigned_ucast_eq take_bit_nat_eq_self)
  then show "GetSlotForStackIndex x (ucast i) = wasmStack x (unat i)" "GetStackTypeFromBottom x (ucast i) = 1"
    using L cfg_entry(2) [OF assms(1) L] by (simp_all add: GetSlotForStackIndex_def GetStackTypeFromBottom_def word_less_nat_alt)
qed

lemma Push_height: "Push x ty j = Inr y \<Longrightarrow> unat (stackIndex y) = Suc (unat (stackIndex x))"
  by (auto simp: Push_eq AllocateRegister_def pushed_def unat_inc16 split: if_splits)

lemma PushConst_height:
  assumes "cfg n x" "PushConst pg x v 1 = Inr y"
  shows "unat (stackIndex y) = Suc (unat (stackIndex x))"
proof -
  have hp: "has_page x" using assms(1) by (simp add: cfg_def)
  show ?thesis
  proof (cases "find_const32 x v")
    case (Some j)
    then show ?thesis using assms(2) hp Push_height by (simp add: PushConst_def Let_def GetTypeNumSlots_def Is64BitType_def)
  next
    case None
    show ?thesis
    proof (cases "AllocateConstantSlots x 1")
      case (Inr r)
      then obtain j o1 where r: "AllocateConstantSlots x 1 = Inr (j, o1)" by (cases r) auto
      then show ?thesis
        using assms(2) hp None AllocateConstantSlots_fields(2) [OF assms(1) r]
        by (auto simp: PushConst_def Let_def GetTypeNumSlots_def Is64BitType_def m3_result split: if_splits dest!: Push_height)
    next
      case (Inl e)
      obtain o1 where 1: "emit_op pg x op_Const32 = Inr o1" "PushAllocatedSlotAndEmit (emit_word o1 (W_32 (ucast v))) 1 = Inr y"
        using assms(2) hp None Inl
        by (auto simp: PushConst_def PushInlineConst_def Let_def GetTypeNumSlots_def Is64BitType_def m3_result split: if_splits)
      note E = ext_emit_op [OF assms(1) 1(1)]
      then have c1: "cfg n o1" by (simp add: ext_def)
      note W = ext_emit_word [OF c1, of "W_32 (ucast v)"]
      then have "cfg n (emit_word o1 (W_32 (ucast v)))" by (simp add: ext_def)
      from ext_PushAllocatedSlotAndEmit [OF this 1(2)] E W show ?thesis by auto
    qed
  qed
qed

lemma sim_GetLocal:
  assumes c: "cfg n x" and nl: "NumArgsAndLocals env x = of_nat n" and i: "unat i < n"
    and r: "LEB_u32 (ce_wasm env) (co_wasm x) (co_wasmEnd x) = Inr (i, p)" and e: "Compile_GetLocal env x = Inr y"
  shows "sim n (x\<lparr>co_wasm := p\<rparr>) (value_step (Wasm_get i)) y \<and> unat (stackIndex y) = Suc (unat (stackIndex x))"
proof -
  let ?x = "x\<lparr>co_wasm := p\<rparr>"
  have cx: "cfg n ?x" using same_stack_fields(5) [OF same_stackI(1)] c by simp
  have P: "Push ?x 1 (wasmStack ?x (unat i)) = Inr y"
    using e r sim_local_index [OF cx i] by (simp add: Compile_GetLocal_def read_with_def split: if_splits)
  have "sim n ?x (value_step (Wasm_get i)) y" by (rule sim_cong [OF sim_Push_local [OF cx i P]]) simp
  then show ?thesis using Push_height [OF P] by simp
qed

lemma sim_SetLocal:
  assumes c: "cfg n x" and nl: "NumArgsAndLocals env x = of_nat n" and i: "unat i < n" "n < unat (stackIndex x)"
    and r: "LEB_u32 (ce_wasm env) (co_wasm x) (co_wasmEnd x) = Inr (i, p)" and e: "Compile_SetLocal env x opcode = Inr y"
  shows "sim n (x\<lparr>co_wasm := p\<rparr>) (value_step (if opcode = c_waOp_teeLocal then Wasm_tee i else Wasm_set i)) y
    \<and> unat (stackIndex y) = (if opcode = c_waOp_teeLocal then unat (stackIndex x) else unat (stackIndex x) - 1)"
proof -
  let ?x = "x\<lparr>co_wasm := p\<rparr>"
  have cx: "cfg n ?x" using same_stack_fields(5) [OF same_stackI(1)] c by simp
  have t: "n < unat (stackIndex ?x)" using i(2) by simp
  obtain ps o1 z where 1: "FindReferencedLocalWithinCurrentBlock ?x (wasmStack ?x (unat i)) = Inr (ps, o1)"
    "(if ps = wasmStack ?x (unat i) then CopyStackTopToSlot env o1 (wasmStack ?x (unat i))
      else PreservedCopyTopSlot env o1 (wasmStack ?x (unat i)) ps) = Inr z"
    "(if opcode \<noteq> c_waOp_teeLocal then Pop z else Inr z) = Inr y"
    using e r sim_local_index(1) [OF cx i(1)]
    by (auto simp: Compile_SetLocal_def read_with_def Let_def m3_result split: if_splits)
  note S = sim_set [OF cx i(1) t 1(1,2)]
  show ?thesis
  proof (cases "opcode = c_waOp_teeLocal")
    case True
    then have "sim n ?x (\<lambda>vs. Inr (vs[unat i := last vs])) y" using S 1(3) by simp
    then have "sim n ?x (value_step (Wasm_tee i)) y" by (rule sim_cong) simp
    then show ?thesis using True S 1(3) by simp
  next
    case False
    then have "Pop z = Inr y" using 1(3) by simp
    moreover have cz: "cfg n z" using S by (simp add: sim_def)
    ultimately have z: "sim n z (\<lambda>vs. Inr (butlast vs)) y" "unat (stackIndex z) = Suc (unat (stackIndex y))"
      using sim_Pop ext_Pop by blast+
    have "sim n ?x (value_step (Wasm_set i)) y" by (rule sim_cong [OF sim_trans [OF conjunct1 [OF S] z(1)]]) simp
    then show ?thesis using False S z(2) by simp
  qed
qed

lemma sim_Operator:
  assumes c: "cfg n x" and w: "wasm_operator opcode = Some w" and g: "i32_wop (Wasm_op w)"
    and e: "compile_statement stmts env x opcode = Some (Inr y)"
  shows "sim n x (value_step (Wasm_op w)) y \<and> unat (stackIndex y) = height_after (Wasm_op w) (unat (stackIndex x))"
proof -
  obtain ty nm i where i: "GetOpInfo opcode = Some i" "row_ok (ty, nm) w i" "table_op ty nm = Some w"
    by (rule wasm_operator_row [OF w])
  have rt: "result_type w = T_i32" using g by (auto simp: i32_wop_def result_type_def split: operator.splits)
  have t: "oi_type i = 1" using i(2) rt by (auto simp: row_ok_def value_type_def split: if_splits)
  have co: "Compile_Operator env x opcode = Inr y" using e i(1,2) by (simp add: compile_statement_def row_ok_def)
  show ?thesis
  proof (cases w)
    case (Op_bin32 b)
    then obtain m where m: "unat (stackIndex x) = Suc (Suc m)"
      "unat (stackIndex y) = Suc m" "sim n x (\<lambda>vs. tryR (binop32 b (vs ! m) (vs ! Suc m)) (\<lambda>v. Inr (take m vs @ [ucast v]))) y"
      using sim_binary [OF c co i(1) _ _ t] i(2,3) by blast
    have "sim n x (value_step (Wasm_op w)) y" by (rule sim_cong [OF m(3)]) (use m(1) Op_bin32 in simp)
    then show ?thesis using m(1,2) Op_bin32 by (simp add: height_after_def)
  next
    case (Op_un32 u)
    then obtain m where m: "unat (stackIndex x) = Suc m"
      "unat (stackIndex y) = Suc m" "sim n x (\<lambda>vs. tryR (unop32_value u (vs ! m)) (\<lambda>v. Inr (take m vs @ [ucast v]))) y"
      using sim_unary [OF c co i(1) _ _ t] i(2,3) by blast
    have "sim n x (value_step (Wasm_op w)) y" by (rule sim_cong [OF m(3)]) (use m(1) Op_un32 in simp)
    then show ?thesis using m(1,2) Op_un32 by (simp add: height_after_def)
  qed (use g in \<open>auto simp: i32_wop_def\<close>)
qed


lemma sim_statement:
  assumes c: "cfg n x" and nl: "NumArgsAndLocals env x = of_nat n"
    and rd: "read_wop (ce_wasm env) (co_wasm x) (co_wasmEnd x) = Some (g, p)" and g: "i32_wop g"
    and h: "has_operands n g (unat (stackIndex x))"
    and ro: "read_with Read_opcode env x = Inr (opcode, x1)" and e: "compile_statement stmts env x1 opcode = Some (Inr y)"
  shows "body_sim n x (value_step g) y \<and> co_wasm y = p \<and> unat (stackIndex y) = height_after g (unat (stackIndex x)) \<and> opcode \<noteq> c_waOp_end \<and> opcode \<noteq> c_waOp_else"
proof -
  obtain p1 where p1: "Read_opcode (ce_wasm env) (co_wasm x) (co_wasmEnd x) = Inr (opcode, p1)" "x1 = x\<lparr>co_wasm := p1\<rparr>"
    using ro by (auto simp: read_with_def m3_result)
  have s1: "same_stack x x1" by (simp add: p1(2))
  have c1: "cfg n x1" and nl1: "NumArgsAndLocals env x1 = of_nat n" using same_stack_fields [OF s1] c nl by simp_all
  have result: ?thesis if "sim n x2 (value_step g) y" "x2 = x\<lparr>co_wasm := p\<rparr>" "unat (stackIndex y) = height_after g (unat (stackIndex x))"
      "opcode \<noteq> c_waOp_end" "opcode \<noteq> c_waOp_else" for x2
  proof -
    have "co_wasm y = p" using that(1,2) by (simp add: sim_def grows_def)
    moreover have "same_stack x2 x" using that(2) same_stack_sym same_stackI(1) by metis
    ultimately show ?thesis using that sim_moved by blast
  qed
  have leaf: "compile_leaf env cc opcode x1 = Inr y"
    if "map_option compiler (GetOpInfo opcode) = Some (Some cc)" "cc \<notin> {C_LoopOrBlock, C_If, C_ExtendedOpcode}" for cc
    using e compile_compiler [OF that] by simp
  note O = opcode_compilers
  consider (const) v where "opcode = 0x41" "g = Wasm_const (V32 v)" "LEB_i32 (ce_wasm env) p1 (co_wasmEnd x) = Inr (v, p)"
    | (const64) "opcode = 0x42" "\<not> i32_wop g"
    | (get) i where "opcode = 0x20" "g = Wasm_get i" "LEB_u32 (ce_wasm env) p1 (co_wasmEnd x) = Inr (i, p)"
    | (set) i where "opcode = 0x21" "g = Wasm_set i" "LEB_u32 (ce_wasm env) p1 (co_wasmEnd x) = Inr (i, p)"
    | (tee) i where "opcode = 0x22" "g = Wasm_tee i" "LEB_u32 (ce_wasm env) p1 (co_wasmEnd x) = Inr (i, p)"
    | (drop) "opcode = 0x1a" "g = Wasm_drop" "p = p1"
    | (nop) "opcode = 0x01" "g = Wasm_nop" "p = p1"
    | (op) w where "wasm_operator opcode = Some w" "g = Wasm_op w" "p = p1"
    using rd p1(1) by (auto simp: read_wop_def i32_wop_def split: if_splits sum.splits prod.splits)
  then show ?thesis
  proof cases
    case const
    have "PushConst (ce_page_ok env) (x1\<lparr>co_wasm := p\<rparr>) (scast v) 1 = Inr y"
      using leaf [of C_Const_i32] O(1) const p1(2) by (simp add: compile_leaf_def Compile_Const_i32_def)
    moreover have "cfg n (x1\<lparr>co_wasm := p\<rparr>)" using same_stack_fields(5) [OF same_stackI(1)] c1 by simp
    ultimately have s: "sim n (x1\<lparr>co_wasm := p\<rparr>) (\<lambda>vs. Inr (vs @ [v])) y" "unat (stackIndex y) = Suc (unat (stackIndex x))"
      using sim_PushConst PushConst_height [of n "x1\<lparr>co_wasm := p\<rparr>" "ce_page_ok env" "scast v" y] p1(2) by auto
    have "sim n (x1\<lparr>co_wasm := p\<rparr>) (value_step g) y" by (rule sim_cong [OF s(1)]) (simp add: const(2))
    then show ?thesis using const(1,2) p1(2) s(2) by (intro result) (simp_all add: height_after_def)
  next
    case get
    have "Compile_GetLocal env x1 = Inr y" using leaf [of C_GetLocal] O(2) get by (simp add: compile_leaf_def)
    moreover have "unat i < n" using h get(2) by (simp add: has_operands_def)
    ultimately have "sim n (x1\<lparr>co_wasm := p\<rparr>) (value_step g) y \<and> unat (stackIndex y) = height_after g (unat (stackIndex x))"
      using sim_GetLocal [OF c1 nl1 _ _ \<open>Compile_GetLocal env x1 = Inr y\<close>] get(2,3) p1(2) by (simp add: height_after_def)
    then show ?thesis using get(1) p1(2) by (intro result) simp_all
  next
    case set
    have "Compile_SetLocal env x1 opcode = Inr y" using leaf [of C_SetLocal] O(3) set by (simp add: compile_leaf_def)
    moreover have "unat i < n" "n < unat (stackIndex x1)" using h set(2) p1(2) by (simp_all add: has_operands_def)
    ultimately have "sim n (x1\<lparr>co_wasm := p\<rparr>) (value_step g) y \<and> unat (stackIndex y) = height_after g (unat (stackIndex x))"
      using sim_SetLocal [OF c1 nl1 _ _ _ \<open>Compile_SetLocal env x1 opcode = Inr y\<close>] set p1(2) by (simp add: height_after_def)
    then show ?thesis using set(1) p1(2) by (intro result) simp_all
  next
    case tee
    have "Compile_SetLocal env x1 opcode = Inr y" using leaf [of C_SetLocal] O(4) tee by (simp add: compile_leaf_def)
    moreover have "unat i < n" "n < unat (stackIndex x1)" using h tee(2) p1(2) by (simp_all add: has_operands_def)
    ultimately have "sim n (x1\<lparr>co_wasm := p\<rparr>) (value_step g) y \<and> unat (stackIndex y) = height_after g (unat (stackIndex x))"
      using sim_SetLocal [OF c1 nl1 _ _ _ \<open>Compile_SetLocal env x1 opcode = Inr y\<close>] tee p1(2) by (simp add: height_after_def)
    then show ?thesis using tee(1) p1(2) by (intro result) simp_all
  next
    case drop
    have "Pop x1 = Inr y" using leaf [of C_Drop] O(5) drop by (simp add: compile_leaf_def)
    then have s: "sim n x1 (\<lambda>vs. Inr (butlast vs)) y" "unat (stackIndex x1) = Suc (unat (stackIndex y))" using sim_Pop ext_Pop c1 by blast+
    have "sim n x1 (value_step g) y" by (rule sim_cong [OF s(1)]) (simp add: drop(2))
    then show ?thesis using drop p1(2) s(2) by (intro result) (simp_all add: height_after_def)
  next
    case nop
    have "y = x1" using leaf [of C_Nop] O(6) nop by (simp add: compile_leaf_def)
    then have "sim n x1 Inr y" using sim_refl c1 by simp
    then have "sim n x1 (value_step g) y" by (rule sim_cong) (simp add: nop(2))
    then show ?thesis using nop p1(2) \<open>y = x1\<close> by (intro result) (simp_all add: height_after_def)
  next
    case op
    have "sim n x1 (value_step g) y \<and> unat (stackIndex y) = height_after g (unat (stackIndex x))"
      using sim_Operator [OF c1 op(1) _ e] g op(2) p1(2) by simp
    moreover have "opcode \<noteq> c_waOp_end" "opcode \<noteq> c_waOp_else" using op(1) not_operators by auto
    ultimately show ?thesis using op(3) p1(2) by (intro result) simp_all
  qed (use g in simp)
qed

text \<open>A list of instructions on the values, and what the statements before the final \<^verbatim>\<open>end\<close> do.\<close>

primrec value_steps :: "wop list \<Rightarrow> u32 list \<Rightarrow> u32 list result" where
  "value_steps [] vs = Inr vs"
| "value_steps (g # gs) vs = tryR (value_step g vs) (value_steps gs)"

lemma read_wop_opcode:
  "read_wop (ce_wasm env) (co_wasm x) e = Some (g, p) \<Longrightarrow> e = co_wasmEnd x \<Longrightarrow> \<exists>opcode x1. read_with Read_opcode env x = Inr (opcode, x1)"
  by (auto simp: read_wop_def read_with_def split: sum.splits)


section \<open>Bodies\<close>

text \<open>Validation of straight-line code above \<open>n\<close> locals, from one height to another.\<close>

primrec valid :: "nat \<Rightarrow> wop list \<Rightarrow> nat \<Rightarrow> nat \<Rightarrow> bool" where
  "valid n [] h h' \<longleftrightarrow> h = h'"
| "valid n (g # gs) h h' \<longleftrightarrow> i32_wop g \<and> has_operands n g h \<and> valid n gs (height_after g h) h'"

lemma value_step_length:
  assumes "value_step g vs = Inr vs'" "has_operands n g (length vs)" "i32_wop g"
  shows "length vs' = height_after g (length vs)"
  using assms by (cases g)
    (auto simp: height_after_def has_operands_def i32_wop_def Let_def tryR_Inr_iff split: wval.splits operator.splits)

lemma has_operands_step:
  assumes "i32_wop g" "has_operands n g (length vs)" "n \<le> length vs"
  shows "wasm_step g (machine_state n vs) = Some (map_sum id (machine_state n) (value_step g vs))"
proof -
  obtain r where "wasm_step g (machine_state n vs) = Some r"
  proof (cases "n < length vs")
    case False
    then have "machine_state n vs = (map V32 vs, [])" "length vs = n" using assms(3) by (simp_all add: machine_state_def)
    then show thesis using assms that
      by (cases g) (auto simp: i32_wop_def has_operands_def split: wval.splits operator.splits)
  next
    case True
    obtain us v where us: "vs = us @ [v]" "n \<le> length us" by (rule snoc_state [OF True])
    note m = machine_state_snoc [OF us(2), of v, folded us(1)]
    have ln: "length (fst (machine_state n us)) = n" using us(2) by (simp add: machine_state_def)
    show thesis
    proof (cases "\<exists>b. g = Wasm_op (Op_bin32 b)")
      case True
      then have "n < length us" using assms(2) us(1) by (auto simp: has_operands_def)
      then obtain ts u where ts: "us = ts @ [u]" "n \<le> length ts" by (rule snoc_state)
      show thesis using True that m machine_state_snoc [OF ts(2), of u, folded ts(1)] by auto
    next
      case False
      then show thesis using assms that m ln
        by (cases g) (auto simp: i32_wop_def has_operands_def split: wval.splits operator.splits)
    qed
  qed
  then show ?thesis using wasm_step_values [OF assms(1,3)] by blast
qed

lemma height_above: "i32_wop g \<Longrightarrow> has_operands n g h \<Longrightarrow> n \<le> h \<Longrightarrow> n \<le> height_after g h"
  by (auto simp: height_after_def has_operands_def i32_wop_def split: wop.splits operator.splits wval.splits)

lemma valid_run:
  assumes "valid n gs (length vs) h" "n \<le> length vs"
  shows "wasm_run gs (machine_state n vs) = Some (map_sum id (machine_state n) (value_steps gs vs))
    \<and> (\<forall>vs'. value_steps gs vs = Inr vs' \<longrightarrow> length vs' = h)"
  using assms
proof (induction gs arbitrary: vs)
  case (Cons g gs)
  have g: "i32_wop g" "has_operands n g (length vs)" using Cons.prems(1) by simp_all
  note W = has_operands_step [OF g Cons.prems(2)]
  show ?case
  proof (cases "value_step g vs")
    case (Inl e)
    then show ?thesis using W by (simp add: tryO_def)
  next
    case (Inr vs1)
    note L = value_step_length [OF Inr g(2,1)]
    have n: "n \<le> length vs1" using height_above [OF g Cons.prems(2)] L by simp
    have v: "valid n gs (length vs1) h" using Cons.prems(1) L by simp
    note I = Cons.IH [OF v n]
    have "wasm_run (g # gs) (machine_state n vs) = wasm_run gs (machine_state n vs1)" using W Inr by (simp add: tryO_def)
    moreover have "value_steps (g # gs) vs = value_steps gs vs1" using Inr by simp
    ultimately show ?thesis using I by simp
  qed
qed simp


text \<open>The statements before the final \<^verbatim>\<open>end\<close>.\<close>

lemma body_sim_code:
  assumes "body_sim n x f y"
  obtains ws "is" where "cfg n y" "code y = code x @ ws" "decodes ws is" "\<And>E K F. serves K F y \<Longrightarrow> does f E K F x y is"
    "block y = block x" "co_function y = co_function x" "co_wasmEnd y = co_wasmEnd x" "cur_page y = cur_page x"
    "slotFirstConstIndex y = slotFirstConstIndex x" "slotFirstDynamicIndex y = slotFirstDynamicIndex x"
proof -
  obtain z where z: "sim n x f z" "same_stack z y" using assms by (auto simp: body_sim_def)
  obtain ws "is" where w: "code z = code x @ ws" "decodes ws is" "\<And>E K F. serves K F z \<Longrightarrow> does f E K F x z is"
    and c: "cfg n z" "grows x z" using z(1) unfolding sim_def by blast
  note S = same_stack_fields [OF z(2)]
  have "does f E K F x y is" if "serves K F y" for E K F
  proof -
    have "does f E K F x y is = does f E K F x z is" by (simp only: does_def S(6))
    then show ?thesis using w(3) that S(7) by simp
  qed
  moreover obtain p q where "y = z\<lparr>co_wasm := p, previousOpcode := q\<rparr>" using z(2) by (auto simp: same_stack_def)
  ultimately show ?thesis using that w c S by (simp add: grows_def)
qed

lemma body_sim_refl: "cfg n x \<Longrightarrow> body_sim n x Inr x"
  using sim_refl unfolding body_sim_def by blast

lemma body_sim_Inr: "body_sim n x (\<lambda>vs. tryR (Inr vs) f) y = body_sim n x f y"
  by simp

lemma straight_statements:
  assumes "cfg n x" "NumArgsAndLocals env x = of_nat n" "co_function x \<noteq> None"
    "body_reads (ce_wasm env) (co_wasm x) (co_wasmEnd x) gs" "valid n gs (unat (stackIndex x)) h"
    "CompileBlockStatements fuel env x = Some (Inr z)"
  shows "\<exists>y fuel. body_sim n x (value_steps gs) y \<and> unat (stackIndex y) = h
    \<and> co_wasm y < co_wasmEnd y \<and> ce_wasm env ! co_wasm y = 0x0b
    \<and> CompileBlockStatements fuel env y = Some (Inr z)"
  using assms
proof (induction gs arbitrary: x fuel)
  case Nil
  have "value_steps [] = Inr" by (rule ext) simp
  then have b: "body_sim n x (value_steps []) x" using body_sim_refl [OF Nil.prems(1)] by simp
  show ?case
    by (rule exI [of _ x], rule exI [of _ fuel], intro conjI, rule b) (use Nil.prems in auto)
next
  case (Cons g gs)
  have g: "i32_wop g" "has_operands n g (unat (stackIndex x))" "valid n gs (height_after g (unat (stackIndex x))) h"
    using Cons.prems(5) by simp_all
  obtain p where p: "read_wop (ce_wasm env) (co_wasm x) (co_wasmEnd x) = Some (g, p)" "body_reads (ce_wasm env) p (co_wasmEnd x) gs"
    using Cons.prems(4) by (auto split: option.splits)
  obtain k where k: "fuel = Suc k" using Cons.prems(6) by (cases fuel) auto
  obtain opcode x1 where r: "read_with Read_opcode env x = Inr (opcode, x1)" using read_wop_opcode [OF p(1)] by auto
  obtain y where y: "compile_statement (CompileBlockStatements k env) env x1 opcode = Some (Inr y)"
    and rest: "(if opcode = c_waOp_else then Some (throwif m3Err_wasmMalformed (sc_opcode (block (y\<lparr>previousOpcode := opcode\<rparr>)) \<noteq> c_waOp_if) (Inr (y\<lparr>previousOpcode := opcode\<rparr>)))
        else if opcode = c_waOp_end then Some (Inr (y\<lparr>previousOpcode := opcode\<rparr>))
        else CompileBlockStatements k env (y\<lparr>previousOpcode := opcode\<rparr>)) = Some (Inr z)"
    using Cons.prems(3,6) r
    by (auto simp: k tryO_def Let_def split: if_splits option.splits sum.splits)
  note S = sim_statement [OF Cons.prems(1,2) p(1) g(1,2) r y]
  let ?y = "y\<lparr>previousOpcode := opcode\<rparr>"
  have b: "body_sim n x (value_step g) ?y"
    using S same_stack_trans unfolding body_sim_def by (metis same_stackI(2))
  have next_: "CompileBlockStatements k env ?y = Some (Inr z)" using rest S by simp
  obtain ws "is" where f: "cfg n ?y" "co_function ?y = co_function x" "co_wasmEnd ?y = co_wasmEnd x" by (rule body_sim_code [OF b]) 
  have nl: "NumArgsAndLocals env ?y = of_nat n"
    using f(2) Cons.prems(2) by (simp add: NumArgsAndLocals_def function_type_def)
  have "body_reads (ce_wasm env) (co_wasm ?y) (co_wasmEnd ?y) gs" using p(2) S f(3) by simp
  moreover have "valid n gs (unat (stackIndex ?y)) h" using g(3) S by simp
  moreover have "co_function ?y \<noteq> None" using f(2) Cons.prems(3) by simp
  ultimately obtain w fuel' where w: "body_sim n ?y (value_steps gs) w" "unat (stackIndex w) = h"
    "co_wasm w < co_wasmEnd w" "ce_wasm env ! co_wasm w = 0x0b" "CompileBlockStatements fuel' env w = Some (Inr z)"
    using Cons.IH [OF f(1) nl _ _ _ next_] by blast
  have "value_steps (g # gs) = (\<lambda>vs. tryR (value_step g vs) (value_steps gs))" by (rule ext) simp
  then have "body_sim n x (value_steps (g # gs)) w" using body_sim_trans [OF b w(1)] by simp
  then show ?case using w(2-) by blast
qed


section \<open>The end of the function\<close>

lemma straight_end:
  assumes c: "cfg n y" and h: "unat (stackIndex y) = n + R" "R \<le> 1" "R \<le> unat (slotFirstConstIndex y)"
    and e: "co_wasm y < co_wasmEnd y" "ce_wasm env ! co_wasm y = 0x0b" and fn: "co_function y \<noteq> None" and d: "depth (block y) = 0"
    and ft: "GetFuncTypeNumResults (sc_type (block y)) = of_nat R" "R = 1 \<Longrightarrow> GetFuncTypeResultType (sc_type (block y)) 0 = 1"
    and st: "CompileBlockStatements fuel env y = Some (Inr z)"
  shows "previousOpcode z = c_waOp_end \<and> cfg n z \<and> cur_page z = cur_page y \<and> co_function z = co_function y
    \<and> slotFirstConstIndex z = slotFirstConstIndex y \<and> slotFirstDynamicIndex z = slotFirstDynamicIndex y
    \<and> (\<forall>K F. serves K F z \<longrightarrow> serves K F y)
    \<and> (\<exists>ws is. code z = code y @ ws @ [W_op op_Return] \<and> decodes ws is
     \<and> (\<forall>E K F sp r0 vm vs. serves K F z \<longrightarrow> matches K F y sp r0 vm vs \<longrightarrow>
          (\<exists>vm'. exec_seq E is sp r0 vm = Inr (r0, vm') \<and> same_outside F sp vm vm' \<and> (R = 1 \<longrightarrow> vm_stack vm' ! sp = last vs))))"
proof -
  obtain k where k: "fuel = Suc k" using st by (cases fuel) auto
  let ?w = "y\<lparr>co_wasm := co_wasm y + 1\<rparr>"
  have ro: "read_with Read_opcode env y = Inr (c_waOp_end, ?w)" using e by (simp add: read_with_def Read_opcode_def)
  have en: "compile_statement s env ?w c_waOp_end = Some (Compile_End env ?w)" for s
    using compile_compiler [OF opcode_compilers(7)] by (simp add: compile_leaf_def)
  obtain x where x: "Compile_End env ?w = Inr x" "z = x\<lparr>previousOpcode := c_waOp_end\<rparr>"
    using st fn e(1) ro en by (auto simp: k tryO_def Let_def split: if_splits sum.splits)
  have cw: "cfg n ?w" using same_stack_fields(5) [OF same_stackI(1)] c by simp
  obtain o1 where o1: "ReturnValues env ?w (sc_type (block y)) False = Inr o1" "emit_op_at env o1 op_Return = Inr x"
    using x(1) d fn by (auto simp: Compile_End_def m3_result)
  have np: "\<not> isPolymorphic (block y)" using c by (simp add: cfg_def)
  have F: "\<exists>ws is. ext n ?w o1 ws \<and> decodes ws is \<and> (\<forall>E K F sp r0 vm vs. serves K F o1 \<longrightarrow> matches K F y sp r0 vm vs \<longrightarrow>
          (\<exists>vm'. exec_seq E is sp r0 vm = Inr (r0, vm') \<and> same_outside F sp vm vm' \<and> (R = 1 \<longrightarrow> vm_stack vm' ! sp = last vs)))"
  proof (cases "R = 0")
    case True
    then have "o1 = ?w" using o1(1) ft(1) by (auto simp: ReturnValues_def Let_def throwif_def split: if_splits)
    then show ?thesis using cw True decodes_nil by (intro exI [of _ "[]"]) (simp add: ext_def)
  next
    case False
    then have R: "R = 1" using h(2) by simp
    have t: "unat (stackIndex ?w) = Suc n" using h(1) R by simp
    obtain o2 where o2: "CopyStackTopToSlot env ?w 0 = Inr o2" "Pop o2 = Inr o1"
      using o1(1) ft R np by (auto simp: ReturnValues_def Let_def throwif_def m3_result CopyStackTopToSlot_def split: if_splits)
    note X = CopyStackTopToSlot_ext [OF cw t le_refl o2(1)]
    then have c2: "cfg n o2" and g2: "grows ?w o2" by (simp_all add: ext_def)
    note P = ext_Pop [OF c2 o2(2)]
    let ?ws = "if wasmStack ?w n = 60000 then [W_op (op_SetSlot 1), W_32 (ucast (0 :: u16))]
      else [W_op op_CopySlot_32, W_32 (ucast (0 :: u16)), W_32 (ucast (wasmStack ?w n))]"
    let ?i = "if wasmStack ?w n = 60000 then I_SetSlot T_i32 0 else I_CopySlot T_i32 0 (unat (wasmStack ?w n))"
    have "ext n ?w o1 (?ws @ [])" using ext_trans [OF conjunct1 [OF X] conjunct1 [OF P]] by simp
    then have "ext n ?w o1 ?ws" by (simp only: append_Nil2)
    moreover have "decodes ?ws [?i]" using decodes_copies(1,2) [of 0] by simp
    moreover have "\<exists>vm'. exec_seq E [?i] sp r0 vm = Inr (r0, vm') \<and> same_outside F sp vm vm' \<and> (R = 1 \<longrightarrow> vm_stack vm' ! sp = last vs)"
      if s: "serves K F o1" and m: "matches K F y sp r0 vm vs" for E K F sp r0 vm vs
    proof -
      have "grows o2 o1" using P by (simp add: ext_def)
      then have sw: "serves K F ?w" using serves_grows s g2 by blast
      then have s0: "serves K F y" by (simp add: serves_def)
      have F0: "0 < F" using s0 h(3) R cfg_bounds(4,5) [OF c] by (auto simp: serves_def)
      have sp: "sp < length (vm_stack vm)" using m F0 by (simp add: matches_def)
      have "length vs = Suc n" using m h(1) R by (simp add: matches_def)
      then have l: "last vs = vs ! n" by (simp add: last_conv_nth flip: length_0_conv)
      have "exec_seq E [?i] sp r0 vm = Inr (r0, put sp 0 (vs ! n) vm)"
      proof (cases "wasmStack y n = 60000")
        case True
        then have "ucast r0 = vs ! n" using matches_register [OF m] t by simp
        then show ?thesis using True sp by (simp add: exec_simple_def set_slot_put)
      next
        case False
        then have "get_slot T_i32 sp (unat (wasmStack y n)) vm = Inr (ucast (vs ! n))" using matches_get_slot [OF c s0 m] t by simp
        then show ?thesis using False sp by (simp add: exec_simple_def set_slot_put)
      qed
      then show ?thesis using same_outside_put [OF F0] sp l get_slot_put [of sp 0 vm "vs ! n" 0] by simp
    qed
    ultimately show ?thesis by blast
  qed
  then obtain ws "is" where f: "ext n ?w o1 ws" "decodes ws is" "\<And>E K F sp r0 vm vs. serves K F o1 \<Longrightarrow> matches K F y sp r0 vm vs \<Longrightarrow>
          (\<exists>vm'. exec_seq E is sp r0 vm = Inr (r0, vm') \<and> same_outside F sp vm vm' \<and> (R = 1 \<longrightarrow> vm_stack vm' ! sp = last vs))"
    by blast
  have c1: "cfg n o1" using f(1) by (simp add: ext_def)
  note X = ext_emit_op [OF c1 o1(2)]
  have E: "ext n ?w x (ws @ [W_op op_Return])" using ext_trans [OF f(1) conjunct1 [OF X]] by simp
  have s: "same_stack x z" by (simp add: x(2))
  have srv: "serves K F o1 \<and> serves K F y" if "serves K F z" for K F
  proof -
    have sx: "serves K F x" using that same_stack_fields(7) [OF s] by simp
    have "grows o1 x" "grows ?w x" using X E by (simp_all add: ext_def)
    then have "serves K F o1" "serves K F ?w" using serves_grows sx by blast+
    then show ?thesis by (simp add: serves_def)
  qed
  have g: "grows ?w x" using E by (simp add: ext_def)
  have cz: "cfg n z" using E same_stack_fields(5) [OF s] by (simp add: ext_def)
  have cd: "code z = code y @ ws @ [W_op op_Return]" using E by (simp add: ext_def x(2))
  have ex: "\<forall>E K F sp r0 vm vs. serves K F z \<longrightarrow> matches K F y sp r0 vm vs \<longrightarrow>
      (\<exists>vm'. exec_seq E is sp r0 vm = Inr (r0, vm') \<and> same_outside F sp vm vm' \<and> (R = 1 \<longrightarrow> vm_stack vm' ! sp = last vs))"
    using f(3) srv by blast
  show ?thesis
    by (intro conjI, rule_tac [8] exI [of _ ws], rule_tac [8] exI [of _ "is"])
      (use g srv f(2) cz cd ex in \<open>simp_all add: x(2) grows_def\<close>)
qed

end
