(* ===== verification/M3_Straight_Prologue.thy ===== *)
theory M3_Straight_Prologue
  imports M3_Straight_Body
begin

text \<open>
  What \<^verbatim>\<open>CompileFunction\<close> has set up before the first statement, for a function whose arguments, locals
  and at most one result are \<^verbatim>\<open>i32\<close>: the slots of arguments and locals, the constant area, the page with
  \<^verbatim>\<open>op_Entry\<close> (\<open>prologue\<close>).
\<close>

section \<open>The start of the function\<close>

text \<open>The arguments are in pairs of slots above the return slots.\<close>

definition args_state :: "nat \<Rightarrow> nat \<Rightarrow> M3Compilation \<Rightarrow> bool" where
  "args_state L k x \<longleftrightarrow> unat (stackIndex x) = k \<and> unat (slotFirstDynamicIndex x) = L + 2 * k \<and> L + 2 * k \<le> 4002 \<and> k \<le> 2000
   \<and> (\<forall>i < k. unat (wasmStack x i) = L + 2 * i \<and> typeStack x i = 1 \<and> L + 2 * i < 4000)
   \<and> (\<forall>s. L + 2 * k \<le> s \<longrightarrow> m3Slots x s = 0) \<and> regStackIndexPlusOne x 0 = 0 \<and> regStackIndexPlusOne x 1 = 0"

text \<open>What the start of a function does not change from here on.\<close>

definition same_frame :: "M3Compilation \<Rightarrow> M3Compilation \<Rightarrow> bool" where
  "same_frame x y \<longleftrightarrow> has_page y = has_page x \<and> code y = code x \<and> cur_page y = cur_page x \<and> outer y = outer x \<and> block y = block x
   \<and> co_wasmEnd y = co_wasmEnd x"

lemma same_frame_refl [simp]: "same_frame x x" by (simp add: same_frame_def)

lemma same_frame_trans: "same_frame x y \<Longrightarrow> same_frame y z \<Longrightarrow> same_frame x z" by (simp add: same_frame_def)

lemma PushAllocatedSlot_fields:
  assumes "PushAllocatedSlot x 1 = Inr y"
  obtains j where "FindFreeSlots x 1 (slotFirstDynamicIndex x) 4000 = Some j" "unat (stackIndex x) < 2000"
    "y = x\<lparr>m3Slots := (m3Slots x)(unat j := 1), slotMaxAllocatedIndexPlusOne := max (slotMaxAllocatedIndexPlusOne x) (j + 1),
      maxStackSlots := max (maxStackSlots x) (j + 1), stackIndex := stackIndex x + 1,
      wasmStack := (wasmStack x)(unat (stackIndex x) := j), typeStack := (typeStack x)(unat (stackIndex x) := 1)\<rparr>"
proof -
  have al: "AlignSlotToType (slotFirstDynamicIndex x) 1 = slotFirstDynamicIndex x"
    by (simp add: AlignSlotToType_def GetTypeNumSlots_def)
  obtain j o1 where 1: "AllocateSlots x 1 = Inr (j, o1)" "Push o1 1 j = Inr y"
    using assms by (auto simp: PushAllocatedSlot_def PushAllocatedSlotAndEmit_impl_def m3_result)
  have f: "FindFreeSlots x 1 (slotFirstDynamicIndex x) 4000 = Some j"
    and o1: "o1 = x\<lparr>m3Slots := (m3Slots x)(unat j := 1), slotMaxAllocatedIndexPlusOne := max (slotMaxAllocatedIndexPlusOne x) (j + 1),
      maxStackSlots := max (maxStackSlots x) (j + 1)\<rparr>"
    using 1(1) al by (auto simp: AllocateSlots_def AllocateSlotsWithinRange_def Let_def m3_result MarkSlotAllocated_def TouchSlot_def
        GetTypeNumSlots_def split: option.splits if_splits)
  have "unat j < 4000" using FindFreeSlots_Some [OF f] by simp
  then have nr: "\<not> IsRegisterSlotAlias j" by (auto simp: IsRegisterSlotAlias_def word_le_nat_alt)
  have lt: "unat (stackIndex x) < 2000" using 1(2) by (auto simp: Push_eq o1 split: if_splits)
  show ?thesis by (rule that [OF f lt]) (use 1(2) nr lt in \<open>simp add: Push_eq o1 pushed_def\<close>)
qed

lemma push_args_state:
  assumes "args_state L k x" "push_args ft is x = Inr y" "\<And>i. i \<in> set is \<Longrightarrow> GetFunctionArgType ft (of_nat i) = 1"
  shows "args_state L (k + length is) y \<and> same_frame x y \<and> co_wasm y = co_wasm x \<and> co_function y = co_function x"
  using assms
proof (induction "is" arbitrary: k x)
  case (Cons i "is")
  obtain o1 where o1: "PushAllocatedSlot x 1 = Inr o1"
    "push_args ft is (o1\<lparr>slotFirstDynamicIndex := slotFirstDynamicIndex o1 + c_ioSlotCount\<rparr>) = Inr y"
    using Cons.prems(2,3) by (auto simp: m3_result)
  obtain j where j: "FindFreeSlots x 1 (slotFirstDynamicIndex x) 4000 = Some j" "unat (stackIndex x) < 2000"
    "o1 = x\<lparr>m3Slots := (m3Slots x)(unat j := 1), slotMaxAllocatedIndexPlusOne := max (slotMaxAllocatedIndexPlusOne x) (j + 1),
      maxStackSlots := max (maxStackSlots x) (j + 1), stackIndex := stackIndex x + 1,
      wasmStack := (wasmStack x)(unat (stackIndex x) := j), typeStack := (typeStack x)(unat (stackIndex x) := 1)\<rparr>"
    by (rule PushAllocatedSlot_fields [OF o1(1)])
  have A: "unat (stackIndex x) = k" "unat (slotFirstDynamicIndex x) = L + 2 * k" "m3Slots x (L + 2 * k) = 0"
    using Cons.prems(1) by (simp_all add: args_state_def)
  have lt: "L + 2 * k < 4000" using FindFreeSlots_Some [OF j(1)] A(2) by simp
  then have ju: "j = slotFirstDynamicIndex x" using j(1) A by (subst (asm) FindFreeSlots.simps) simp
  let ?o = "o1\<lparr>slotFirstDynamicIndex := slotFirstDynamicIndex o1 + c_ioSlotCount\<rparr>"
  have fd: "unat (slotFirstDynamicIndex x + 2) = L + 2 * k + 2"
    using A(2) lt by (subst unat_add_lem [THEN iffD1]) simp_all
  have "args_state L (Suc k) ?o"
    using Cons.prems(1) A lt fd j(2) by (auto simp: args_state_def j(3) ju unat_inc16 less_Suc_eq)
  note I = Cons.IH [OF this o1(2)]
  have "same_frame x ?o" by (simp add: same_frame_def j(3))
  then show ?case using I Cons.prems(3) same_frame_trans by (auto simp: j(3))
qed simp

text \<open>With the locals, whose slots start at \<open>L\<close>.\<close>

definition locals_state :: "nat \<Rightarrow> nat \<Rightarrow> nat \<Rightarrow> M3Compilation \<Rightarrow> bool" where
  "locals_state A L n x \<longleftrightarrow> unat (stackIndex x) = n \<and> A \<le> n \<and> n \<le> 2000 \<and> unat (slotFirstDynamicIndex x) = L \<and> L \<le> 4002
   \<and> L \<le> unat (slotMaxAllocatedIndexPlusOne x) \<and> unat (slotMaxAllocatedIndexPlusOne x) \<le> 4002
   \<and> (\<forall>i < n. typeStack x i = 1 \<and> unat (wasmStack x i) < 4000)
   \<and> (\<forall>i < A. unat (wasmStack x i) < L) \<and> inj_on (wasmStack x) {..< n}
   \<and> (\<forall>i. A \<le> i \<and> i < n \<longrightarrow> L \<le> unat (wasmStack x i) \<and> m3Slots x (unat (wasmStack x i)) = 1
        \<and> unat (wasmStack x i) < unat (slotMaxAllocatedIndexPlusOne x))
   \<and> (\<forall>s. L \<le> s \<and> s \<notin> (\<lambda>i. unat (wasmStack x i)) ` {A ..< n} \<longrightarrow> m3Slots x s = 0)
   \<and> regStackIndexPlusOne x 0 = 0 \<and> regStackIndexPlusOne x 1 = 0"

lemma push_locals_state:
  assumes "locals_state A L n x" "push_locals v 1 x = Inr y"
  shows "locals_state A L (n + v) y \<and> same_frame x y \<and> co_wasm y = co_wasm x \<and> co_function y = co_function x
    \<and> (\<forall>i < n. wasmStack y i = wasmStack x i) \<and> slotFirstLocalIndex y = slotFirstLocalIndex x"
  using assms
proof (induction v arbitrary: n x)
  case (Suc v)
  obtain o1 where o1: "PushAllocatedSlot x 1 = Inr o1" "push_locals v 1 o1 = Inr y"
    using Suc.prems(2) by (auto simp: m3_result)
  obtain j where j: "FindFreeSlots x 1 (slotFirstDynamicIndex x) 4000 = Some j" "unat (stackIndex x) < 2000"
    "o1 = x\<lparr>m3Slots := (m3Slots x)(unat j := 1), slotMaxAllocatedIndexPlusOne := max (slotMaxAllocatedIndexPlusOne x) (j + 1),
      maxStackSlots := max (maxStackSlots x) (j + 1), stackIndex := stackIndex x + 1,
      wasmStack := (wasmStack x)(unat (stackIndex x) := j), typeStack := (typeStack x)(unat (stackIndex x) := 1)\<rparr>"
    by (rule PushAllocatedSlot_fields [OF o1(1)])
  have n: "unat (stackIndex x) = n" "unat (slotFirstDynamicIndex x) = L" "A \<le> n" using Suc.prems(1) by (simp_all add: locals_state_def)
  have jb: "L \<le> unat j" "unat j < 4000" "m3Slots x (unat j) = 0" using FindFreeSlots_Some [OF j(1)] n(2) by simp_all
  have fresh: "wasmStack x i \<noteq> j" if "i < n" for i
  proof (cases "i < A")
    case True
    then have "unat (wasmStack x i) < L" using Suc.prems(1) by (simp add: locals_state_def)
    then show ?thesis using jb(1) by auto
  next
    case False
    then have "m3Slots x (unat (wasmStack x i)) = 1" using Suc.prems(1) that by (simp add: locals_state_def)
    then show ?thesis using jb(3) by auto
  qed
  have mx: "unat (max (slotMaxAllocatedIndexPlusOne x) (j + 1)) = max (unat (slotMaxAllocatedIndexPlusOne x)) (Suc (unat j))"
    by (rule touched [OF jb(2)])
  have w: "wasmStack o1 = (wasmStack x)(n := j)" "stackIndex o1 = stackIndex x + 1" "unat (stackIndex x + 1) = Suc n"
    using j(2) n(1) by (simp_all add: j(3) unat_inc16)
  have img: "(\<lambda>i. unat (wasmStack o1 i)) ` {A ..< Suc n} = insert (unat j) ((\<lambda>i. unat (wasmStack x i)) ` {A ..< n})"
  proof -
    have "(\<lambda>i. unat (wasmStack o1 i)) ` {A ..< n} = (\<lambda>i. unat (wasmStack x i)) ` {A ..< n}"
      by (intro image_cong) (auto simp: w(1))
    then show ?thesis using n(3) by (simp add: atLeastLessThanSuc w(1))
  qed
  have "inj_on (wasmStack o1) {..< Suc n}"
  proof -
    have "inj_on (wasmStack x) {..< n}" using Suc.prems(1) by (simp add: locals_state_def)
    moreover have "j \<notin> wasmStack x ` {..< n}" using fresh by blast
    ultimately have "inj_on ((wasmStack x)(n := j)) {..< n}" "j \<notin> ((wasmStack x)(n := j)) ` {..< n}"
      by (auto simp: inj_on_def)
    then show ?thesis by (simp add: w(1) lessThan_Suc)
  qed
  moreover have "m3Slots o1 s = 0" if "L \<le> s" "s \<notin> (\<lambda>i. unat (wasmStack o1 i)) ` {A ..< Suc n}" for s
    using Suc.prems(1) that unfolding img by (simp add: locals_state_def j(3))
  moreover have "L \<le> unat (wasmStack o1 i) \<and> m3Slots o1 (unat (wasmStack o1 i)) = 1
        \<and> unat (wasmStack o1 i) < unat (slotMaxAllocatedIndexPlusOne o1)" if "A \<le> i" "i < Suc n" for i
    using Suc.prems(1) that jb mx by (cases "i = n") (auto simp: locals_state_def w(1), auto simp: j(3))
  moreover have "unat (wasmStack o1 i) < 4000 \<and> typeStack o1 i = 1" if "i < Suc n" for i
    using Suc.prems(1) that jb n(1) by (cases "i = n") (auto simp: locals_state_def j(3))
  moreover have "unat (wasmStack o1 i) < L" if "i < A" for i
    using Suc.prems(1) that n by (auto simp: locals_state_def w(1))
  moreover have "L \<le> unat (slotMaxAllocatedIndexPlusOne o1) \<and> unat (slotMaxAllocatedIndexPlusOne o1) \<le> 4002"
    using Suc.prems(1) mx jb(2) by (simp add: locals_state_def j(3) le_max_iff_disj)
  ultimately have st: "locals_state A L (Suc n) o1"
    using Suc.prems(1) w(2,3) n(3) j(2) n(1) unfolding locals_state_def by (simp add: j(3))
  note I = Suc.IH [OF st o1(2)]
  have "same_frame x o1" by (simp add: same_frame_def j(3))
  then show ?case using I same_frame_trans n(1) by (auto simp: j(3))
qed simp


text \<open>The declarations of locals as the compiler reads them: their number, when all are \<^verbatim>\<open>i32\<close>.\<close>

primrec read_locals :: "u8 list \<Rightarrow> nat \<Rightarrow> nat \<Rightarrow> nat \<Rightarrow> (nat \<times> nat) option" where
  "read_locals w e 0 p = Some (0, p)"
| "read_locals w e (Suc k) p =
    (case LEB_u32 w p e of
       Inl _ \<Rightarrow> None
     | Inr (c, p) \<Rightarrow> (case LEB_i7 w p e of
         Inl _ \<Rightarrow> None
       | Inr (t, p) \<Rightarrow> if NormalizeType t = (None, c_m3Type_i32)
           then map_option (\<lambda>(v, p). (unat c + v, p)) (read_locals w e k p) else None))"

lemma CompileLocals_loop_state:
  assumes "locals_state A L n x" "read_locals (ce_wasm env) (co_wasmEnd x) k (co_wasm x) = Some (v, p)"
    "CompileLocals_loop env k count x = Inr (tot, y)" "unat count + A = n"
  shows "locals_state A L (n + v) y \<and> same_frame x y \<and> co_wasm y = p \<and> co_function y = co_function x
    \<and> (\<forall>i < n. wasmStack y i = wasmStack x i) \<and> unat tot + A = n + v \<and> slotFirstLocalIndex y = slotFirstLocalIndex x"
  using assms
proof (induction k arbitrary: n x v count)
  case (Suc k)
  obtain c p1 t p2 v' where r: "LEB_u32 (ce_wasm env) (co_wasm x) (co_wasmEnd x) = Inr (c, p1)"
    "LEB_i7 (ce_wasm env) p1 (co_wasmEnd x) = Inr (t, p2)" "NormalizeType t = (None, 1)"
    "read_locals (ce_wasm env) (co_wasmEnd x) k p2 = Some (v', p)" "v = unat c + v'"
    using Suc.prems(2) by (auto split: sum.splits prod.splits if_splits)
  let ?x = "x\<lparr>co_wasm := p2\<rparr>"
  obtain o1 where o1: "push_locals (unat c) 1 ?x = Inr o1" "CompileLocals_loop env k (count + c) o1 = Inr (tot, y)"
    using Suc.prems(3) r(1-3) by (auto simp: read_with_def m3_result)
  have "locals_state A L n ?x" using Suc.prems(1) by (simp add: locals_state_def)
  note P = push_locals_state [OF this o1(1)]
  have fr: "same_frame x o1" using P by (simp add: same_frame_def)
  have rd: "read_locals (ce_wasm env) (co_wasmEnd o1) k (co_wasm o1) = Some (v', p)" using r(4) P by (simp add: same_frame_def)
  have "n + unat c \<le> 2000" using P by (simp add: locals_state_def)
  then have cnt: "unat (count + c) + A = n + unat c" using Suc.prems(4) by (subst unat_add_lem [THEN iffD1]) simp_all
  note I = Suc.IH [OF conjunct1 [OF P] rd o1(2) cnt]
  show ?case using I P fr same_frame_trans r(5) by (auto simp: add.assoc)
qed simp


lemma GetMaxUsedSlot_fields:
  assumes "GetMaxUsedSlotPlusOne x = (m, y)"
  shows "y = x\<lparr>slotMaxAllocatedIndexPlusOne := m\<rparr> \<and> m \<le> slotMaxAllocatedIndexPlusOne x
    \<and> (slotFirstDynamicIndex x \<le> slotMaxAllocatedIndexPlusOne x \<longrightarrow> slotFirstDynamicIndex x \<le> m)
    \<and> (\<forall>s. unat m \<le> s \<and> s < unat (slotMaxAllocatedIndexPlusOne x) \<longrightarrow> m3Slots x s = 0)"
  using assms
proof (induction x rule: GetMaxUsedSlotPlusOne.induct)
  case (1 x)
  let ?a = "slotMaxAllocatedIndexPlusOne x"
  show ?case
  proof (cases "?a > slotFirstDynamicIndex x \<and> \<not> IsSlotAllocated x (unat (?a - 1))")
    case False
    then have "GetMaxUsedSlotPlusOne x = (?a, x)" by (subst GetMaxUsedSlotPlusOne.simps) (simp only: if_False)
    then have "m = ?a" "y = x" using 1(2) by simp_all
    then show ?thesis by auto
  next
    case True
    let ?x = "x\<lparr>slotMaxAllocatedIndexPlusOne := ?a - 1\<rparr>"
    have r: "GetMaxUsedSlotPlusOne ?x = (m, y)" using 1(2) True by (subst (asm) GetMaxUsedSlotPlusOne.simps) simp
    have a: "unat (?a - 1) = unat ?a - 1" "0 < unat ?a" using True by (auto simp: unat_dec16 word_less_nat_alt)
    note I = 1(1) [OF True r]
    have "m3Slots x s = 0" if "unat m \<le> s" "s < unat ?a" for s
      using I that True a by (cases "s = unat ?a - 1") (auto simp: IsSlotAllocated_def)
    moreover have "slotFirstDynamicIndex x \<le> ?a - 1" "?a - 1 \<le> ?a" using True a by (auto simp: word_le_nat_alt word_less_nat_alt)
    ultimately show ?thesis using I by auto
  qed
qed

lemma ReserveConstants_loop_bound: "unat k < 120 \<Longrightarrow> unat (ReserveConstants_loop wa k) < 120"
proof (induction wa k rule: ReserveConstants_loop.induct)
  case (2 byte wa k)
  let ?a = "if byte = 0x41 \<or> byte = 0x43 then 1 else if byte = 0x42 \<or> byte = 0x44 then GetTypeNumSlots c_m3Type_i64 else 0 :: u16"
  show ?case
  proof (cases "unat k + unat ?a \<ge> 120")
    case True
    then show ?thesis using 2(2) by (simp add: Let_def)
  next
    case False
    then have "unat (k + ?a) = unat k + unat ?a" by (subst unat_add_lem [THEN iffD1]) simp_all
    then have "unat (k + ?a) < 120" using False by simp
    from 2(1) [OF refl _ this] False show ?thesis by (simp add: Let_def)
  qed
qed simp

lemma ReserveConstants_fields:
  assumes "ReserveConstants env x = Inr y" "unat (slotFirstConstIndex x) \<le> 4002"
  obtains k where "y = x\<lparr>slotFirstDynamicIndex := slotFirstConstIndex x + k\<rparr>"
    "unat (slotFirstConstIndex x + k) = unat (slotFirstConstIndex x) + unat k" "unat (slotFirstConstIndex x + k) < 4000"
proof -
  obtain r where r: "unat r < 120" "y = x\<lparr>slotFirstDynamicIndex := slotFirstConstIndex x + AlignSlotToType r c_m3Type_i64\<rparr>"
    "unat (slotFirstConstIndex x + AlignSlotToType r c_m3Type_i64) < 4000"
    using assms(1) ReserveConstants_loop_bound [of 0 "take (co_wasmEnd x - co_wasm x) (drop (co_wasm x) (ce_wasm env))"]
    by (auto simp: ReserveConstants_def Let_def throwif_def split: if_splits)
  have "unat (AlignSlotToType r c_m3Type_i64) \<le> 120"
    using r(1) by (subst AlignSlotToType_eq) (auto simp: num_slots Is64BitType_def)
  then have "unat (slotFirstConstIndex x + AlignSlotToType r c_m3Type_i64) = unat (slotFirstConstIndex x) + unat (AlignSlotToType r c_m3Type_i64)"
    using assms(2) by (subst unat_add_lem [THEN iffD1]) simp_all
  then show ?thesis using that r by blast
qed

text \<open>The state in which the body starts.\<close>

lemma start_body_state:
  assumes L: "locals_state A L n c" "same_frame z c" "slotFirstLocalIndex c = slotFirstDynamicIndex c"
    and z: "has_page z" "code z = []" "outer z = []" "\<not> isPolymorphic (block z)"
    and sb: "start_body env fi (measure_locals c) = Inr x"
  shows "cfg n x \<and> unat (stackIndex x) = n \<and> code x = [W_op op_Entry, W_function fi] \<and> cur_page x = cur_page z \<and> co_wasm x = co_wasm c
    \<and> co_wasmEnd x = co_wasmEnd z \<and> depth (block x) = depth (block z) \<and> sc_type (block x) = sc_type (block z) \<and> wasmStack x = wasmStack c
    \<and> L \<le> unat (slotFirstConstIndex x) \<and> unat (slotFirstConstIndex x) \<le> 4000 \<and> slotMaxConstIndex x = slotFirstConstIndex x
    \<and> co_function x = map_option (\<lambda>f. f\<lparr>numLocalBytes := (slotFirstConstIndex x - slotFirstDynamicIndex c) * 4\<rparr>) (co_function c)"
proof -
  obtain m c' where g: "GetMaxUsedSlotPlusOne c = (m, c')" by force
  note G = GetMaxUsedSlot_fields [OF g]
  let ?d = "measure_locals c"
  have d: "?d = c\<lparr>slotMaxAllocatedIndexPlusOne := m, slotFirstConstIndex := m, slotMaxConstIndex := m,
      co_function := map_option (\<lambda>f. f\<lparr>numLocalBytes := (m - slotFirstDynamicIndex c) * 4\<rparr>) (co_function c)\<rparr>"
    using g G L(3) by (cases c) (simp add: measure_locals_def)
  have fd: "unat (slotFirstDynamicIndex c) = L" "L \<le> unat (slotMaxAllocatedIndexPlusOne c)" "unat (slotMaxAllocatedIndexPlusOne c) \<le> 4002"
    using L(1) by (simp_all add: locals_state_def)
  then have m: "L \<le> unat m" "unat m \<le> 4002" using G by (auto simp: word_le_nat_alt)
  obtain d1 where r: "ReserveConstants env ?d = Inr d1" using sb by (auto simp: start_body_def m3_result)
  have fm: "slotFirstConstIndex ?d = m" by (simp add: d)
  obtain k where k: "d1 = ?d\<lparr>slotFirstDynamicIndex := m + k\<rparr>" "unat (m + k) = unat m + unat k" "unat (m + k) < 4000"
    by (rule ReserveConstants_fields [OF r, unfolded fm, OF m(2)])
  define q where "q = d1\<lparr>maxStackSlots := slotFirstDynamicIndex d1, slotMaxAllocatedIndexPlusOne := slotFirstDynamicIndex d1,
      stackFirstDynamicIndex := stackIndex d1, block := (block d1)\<lparr>blockStackIndex := stackIndex d1\<rparr>\<rparr>"
  obtain e where e: "emit_op_at env q op_Entry = Inr e" "x = emit_word e (W_function fi)"
    using sb r by (auto simp: start_body_def m3_result q_def)
  have Lf: "unat (stackIndex c) = n" "A \<le> n" "n \<le> 2000" "\<And>i. i < n \<Longrightarrow> typeStack c i = 1 \<and> unat (wasmStack c i) < 4000"
    "\<And>i. i < A \<Longrightarrow> unat (wasmStack c i) < L" "inj_on (wasmStack c) {..< n}"
    "regStackIndexPlusOne c 0 = 0" "regStackIndexPlusOne c 1 = 0" using L(1) by (simp_all add: locals_state_def)
  have slot: "unat (wasmStack c i) < unat m" if "i < n" for i
  proof (cases "i < A")
    case True
    then show ?thesis using Lf(5) m(1) by fastforce
  next
    case False
    then have "m3Slots c (unat (wasmStack c i)) = 1" "unat (wasmStack c i) < unat (slotMaxAllocatedIndexPlusOne c)"
      using L(1) that by (simp_all add: locals_state_def)
    then show ?thesis using G by (metis not_le zero_neq_one)
  qed
  have zero: "m3Slots c s = 0" if "unat m \<le> s" for s
  proof -
    have "s \<notin> (\<lambda>i. unat (wasmStack c i)) ` {A ..< n}" using slot that by fastforce
    then show ?thesis using L(1) that m(1) by (simp add: locals_state_def)
  qed
  have hp: "has_page c" and cd: "code c = []" "outer c = []" "\<not> isPolymorphic (block c)" and bl: "block c = block z"
    "cur_page c = cur_page z" "co_wasmEnd c = co_wasmEnd z" using L(2) z by (simp_all add: same_frame_def)
  have x: "x = q\<lparr>requests := requests q + 1, code := [W_op op_Entry, W_function fi]\<rparr>"
    using e hp cd by (auto simp: emit_op_def emit_word_def q_def k(1) d split: if_splits)
  have w: "wasmStack x = wasmStack c" "typeStack x = typeStack c" "stackIndex x = stackIndex c" "m3Slots x = m3Slots c"
    "slotFirstDynamicIndex x = m + k" "slotFirstConstIndex x = m" "slotMaxConstIndex x = m" "maxStackSlots x = m + k"
    "regStackIndexPlusOne x = regStackIndexPlusOne c" "stackFirstDynamicIndex x = stackIndex c"
    "block x = (block c)\<lparr>blockStackIndex := stackIndex c\<rparr>" by (simp_all add: x q_def k(1) d)
  have big: "\<not> 60000 \<le> wasmStack c i" if "i < n" for i
    using Lf(4) [OF that] by (auto simp: word_le_nat_alt)
  have us: "users {} x s = {}" if "unat m \<le> s" for s
  proof -
    have "s \<notin> occupies x i" if i: "i < n" for i
      using slot [OF i] big [OF i] Lf(4) [OF i] \<open>unat m \<le> s\<close> by (simp add: occupies_def w)
    then show ?thesis using Lf(1) by (auto simp: users_def w)
  qed
  have na: "wasmStack c i \<noteq> 60000 \<and> wasmStack c i \<noteq> 60002" if "i < n" for i using big [OF that] by auto
  have "stack_ok {} (\<lambda>_. 0) x"
    unfolding stack_ok_def
  proof (intro conjI allI impI)
    show "entry_ok x i" if "i < unat (stackIndex x)" "i \<notin> {}" for i
      using that slot [of i] Lf(1) Lf(4) [of i] k(2) by (simp add: entry_ok_def w)
    show "unat (m3Slots x s) = card (users {} x s) + 0" if "unat (slotFirstDynamicIndex x) \<le> s" for s
      using us [of s] zero [of s] that k(2) by (simp add: w)
    show "reg_ok {} x 0" "reg_ok {} x 1" using na Lf(1,7,8) by (auto simp: reg_ok_def w reg_alias_def)
  qed (use Lf(1,3) k(3) in \<open>simp_all add: w\<close>)
  moreover have hx: "has_page x" "outer x = []" "cur_page x = cur_page c" "co_wasm x = co_wasm c" "co_wasmEnd x = co_wasmEnd c"
    "code x = [W_op op_Entry, W_function fi]"
    "co_function x = map_option (\<lambda>f. f\<lparr>numLocalBytes := (m - slotFirstDynamicIndex c) * 4\<rparr>) (co_function c)"
    using hp cd by (simp_all add: x q_def k(1) d)
  moreover have "inj_on (wasmStack x) {..< n}" using Lf(6) by (simp add: w)
  moreover have "\<not> isPolymorphic (block x)" using cd(3) by (simp add: w)
  moreover have "typeStack x i = 1 \<and> unat (wasmStack x i) < unat (maxStackSlots x) \<and> unat (wasmStack x i) < unat (slotFirstConstIndex x)"
    if "i < n" for i using Lf(4) [OF that] slot [OF that] k(2) by (simp add: w)
  moreover have "slotFirstConstIndex x \<le> slotFirstDynamicIndex x" using k(2) by (simp add: w word_le_nat_alt)
  moreover have "unat (maxStackSlots x) \<le> 4000" using k(3) by (simp add: w)
  ultimately have "cfg n x" unfolding cfg_def by (simp add: w Lf(1))
  moreover have "unat (slotFirstConstIndex x) \<le> 4000" "L \<le> unat (slotFirstConstIndex x)" using k(2,3) m(1) by (simp_all add: w)
  ultimately show ?thesis using hx bl Lf(1) by (simp add: w)
qed


text \<open>A function of \<open>A\<close> arguments, \<open>V\<close> locals and at most one result, all \<^verbatim>\<open>i32\<close>.\<close>

definition i32_signature :: "M3FuncType \<Rightarrow> bool" where
  "i32_signature ft \<longleftrightarrow> unat (ft_numRets ft) \<le> 1
   \<and> list_all (\<lambda>t. t = c_m3Type_i32) (take (unat (ft_numRets ft) + unat (ft_numArgs ft)) (ft_types ft))
   \<and> unat (ft_numRets ft) + unat (ft_numArgs ft) \<le> length (ft_types ft)"

lemma i32_signature_types:
  assumes "i32_signature ft" "i < unat (ft_numRets ft) + unat (ft_numArgs ft)"
  shows "ft_types ft ! i = 1"
  using assms by (auto simp: i32_signature_def list_all_length)

text \<open>This is a state that the invariant of the operand stack starts from (\<open>body_start\<close>).\<close>

lemma cfg_body_start:
  assumes "cfg n x" "unat (stackIndex x) = n"
  shows "body_start x"
proof -
  have ok: "stack_ok {} (\<lambda>_. 0) x" and c: "unat (blockStackIndex (block x)) = n" "slotFirstConstIndex x \<le> slotFirstDynamicIndex x"
    "\<And>k. k < n \<Longrightarrow> typeStack x k = 1 \<and> unat (wasmStack x k) < unat (slotFirstConstIndex x)"
    using assms by (auto simp: cfg_def)
  have slot: "unat (wasmStack x k) + num_slots (typeStack x k) \<le> unat (slotFirstDynamicIndex x)" if "k < n" for k
    using c(2) c(3) [OF that] by (simp add: word_le_nat_alt)
  have fd: "unat (slotFirstDynamicIndex x) \<le> 4000" using ok by (simp add: stack_ok_def)
  then have na: "wasmStack x k \<noteq> reg_alias r" if "k < n" for k r
    using slot [OF that] by (auto simp: reg_alias_def)
  have "users {} x s = {}" if "unat (slotFirstDynamicIndex x) \<le> s" for s
    using slot that assms(2) by (fastforce simp: users_def occupies_def split: if_splits)
  then have "unat (m3Slots x s) = 0" if "unat (slotFirstDynamicIndex x) \<le> s" for s
    using ok that by (simp add: stack_ok_def)
  then have z: "m3Slots x s = 0" if "unat (slotFirstDynamicIndex x) \<le> s" for s
    using that by (simp add: unat_eq_0)
  have "reg_ok {} x 0" "reg_ok {} x 1" using ok by (simp_all add: stack_ok_def)
  then have "regStackIndexPlusOne x 0 = 0" "regStackIndexPlusOne x 1 = 0"
    unfolding reg_ok_def using na assms(2) by (metis empty_iff)+
  then show ?thesis using ok c(1) assms(2) slot z fd by (simp add: body_start_def stack_ok_def word_unat_eq_iff)
qed
lemma prologue:
  assumes z: "has_page z = False" "cur_page z = 0" "code z = []" "M3Compilation.numPages z = 0" "outer z = []" "\<not> isPolymorphic (block z)"
      "stackIndex z = 0" "m3Slots z = (\<lambda>_. 0)" "regStackIndexPlusOne z = (\<lambda>_. 0)" "co_function z = Some f"
    and ft: "function_type env z = Some ft" "i32_signature ft"
    and rd: "LEB_u32 (ce_wasm env) (co_wasm z) (co_wasmEnd z) = Inr (size', p1)" "LEB_u32 (ce_wasm env) p1 (co_wasmEnd z) = Inr (nb, p2)"
      "read_locals (ce_wasm env) (co_wasmEnd z) (unat nb) p2 = Some (V, p3)"
    and run: "begin_function env z = Inr a" "push_arguments env a = Inr b" "CompileLocals env b = Inr c"
      "start_body env fi (measure_locals c) = Inr x"
    and AR: "A = unat (ft_numArgs ft)" "R = unat (ft_numRets ft)"
  shows "cfg (A + V) x \<and> unat (stackIndex x) = A + V \<and> code x = [W_op op_Entry, W_function fi] \<and> cur_page x = 0 \<and> co_wasm x = p3
    \<and> co_wasmEnd x = co_wasmEnd z \<and> depth (block x) = depth (block z) \<and> sc_type (block x) = sc_type (block z)
    \<and> NumArgsAndLocals env x = of_nat (A + V) \<and> cur_page a = 0
    \<and> 2 * R + 2 * A \<le> unat (slotFirstConstIndex x) \<and> unat (slotFirstConstIndex x) \<le> 4000
    \<and> (\<forall>i < A. unat (wasmStack x i) = 2 * R + 2 * i)
    \<and> (\<forall>i. A \<le> i \<and> i < A + V \<longrightarrow> 2 * R + 2 * A \<le> unat (wasmStack x i))
    \<and> (\<exists>g. co_function x = Some g \<and> unat (numRetAndArgSlots g) = 2 * R + 2 * A
        \<and> unat (numLocalBytes g) = 4 * (unat (slotFirstConstIndex x) - (2 * R + 2 * A)))"
proof -
  have R: "R \<le> 1" using ft(2) AR by (simp add: i32_signature_def)
  let ?n = "ft_numRets ft * 2"
  have n: "unat ?n = 2 * R"
  proof -
    have "R = 0 \<or> R = 1" using R by auto
    then have "ft_numRets ft = 0 \<or> ft_numRets ft = 1" using AR(2) by (metis unat_eq_zero unsigned_word_eqI unsigned_1)
    then show ?thesis using AR(2) by auto
  qed
  have fty: "function_type env y = Some ft" if "co_function y = Some g" "fn_funcType g = fn_funcType f" for y g
    using ft(1) z(10) that by (simp add: function_type_def)
  obtain pg a1 where a1: "AcquireCompilationPage env (z\<lparr>co_wasm := p1\<rparr>) = Inr (pg, a1)"
    using run(1) rd(1) by (auto simp: begin_function_def read_with_def m3_result)
  have pg: "pg = 0" "a1 = z\<lparr>co_wasm := p1, requests := requests z + 1, M3Compilation.numPages := 1\<rparr>"
    using a1 z(4) by (auto simp: AcquireCompilationPage_def split: if_splits)
  define u where "u = use_page 0 a1"
  have u: "has_page u" "cur_page u = 0" "code u = []" "outer u = []" "block u = block z" "co_wasm u = p1" "co_wasmEnd u = co_wasmEnd z"
    "stackIndex u = 0" "m3Slots u = (\<lambda>_. 0)" "regStackIndexPlusOne u = (\<lambda>_. 0)" "co_function u = Some f"
    using z by (simp_all add: u_def use_page_def pg(2) page_words_def)
  have "unat (0 :: u16) + 2 * R \<le> 4000" using R by simp
  then obtain x1 x2 where mk: "MarkSlotsAllocated u 0 (2 * R) = Inr (u\<lparr>m3Slots := (\<lambda>s. if unat (0 :: u16) \<le> s \<and> s < unat (0 :: u16) + 2 * R then 1 else m3Slots u s),
    slotMaxAllocatedIndexPlusOne := x1, maxStackSlots := x2\<rparr>)" using MarkSlotsAllocated_ok [of 0 "2 * R" u] by blast
  have "(\<lambda>s. if unat (0 :: u16) \<le> s \<and> s < unat (0 :: u16) + 2 * R then 1 else m3Slots u s) = (\<lambda>s. if s < 2 * R then 1 else 0)"
    unfolding u(9) by simp
  note mk = mk [unfolded this]
  have "function_type env u = Some ft" using fty [OF u(11)] by simp
  then have a: "a = u\<lparr>m3Slots := (\<lambda>s. if s < 2 * R then 1 else 0), slotMaxAllocatedIndexPlusOne := x1, maxStackSlots := x2,
      slotFirstDynamicIndex := ?n, co_function := Some (f\<lparr>numRetSlots := ?n\<rparr>)\<rparr>"
    using run(1) rd(1) a1 mk n u(9,11) by (auto simp: begin_function_def read_with_def pg(1) GetFunctionNumReturns_def Let_def simp flip: u_def)
  have aa: "args_state (2 * R) 0 a" using u R n by (simp add: args_state_def a)
  have fa: "function_type env a = Some ft" using fty [of a "f\<lparr>numRetSlots := ?n\<rparr>"] by (simp add: a)
  obtain y where y: "push_args (Some ft) [0 ..< A] a = Inr y"
    "b = y\<lparr>slotMaxAllocatedIndexPlusOne := slotFirstDynamicIndex y, slotFirstLocalIndex := slotFirstDynamicIndex y,
        co_function := map_option (\<lambda>f. f\<lparr>numRetAndArgSlots := slotFirstDynamicIndex y\<rparr>) (co_function y)\<rparr>"
    using run(2) fa AR(1) by (auto simp: push_arguments_def Let_def m3_result GetFunctionNumArgs_def)
  have "GetFunctionArgType (Some ft) (of_nat i) = 1" if "i \<in> set [0 ..< A]" for i
  proof -
    have i: "i < unat (ft_numArgs ft)" using that AR(1) by simp
    then have "i < 65536" using unat_lt16 [of "ft_numArgs ft"] by simp
    then have "unat (of_nat i :: u32) = i" by (simp add: unsigned_of_nat take_bit_nat_eq_self)
    then show ?thesis using i i32_signature_types [OF ft(2), of "unat (ft_numRets ft) + i"]
      by (simp add: GetFunctionArgType_def GetFunctionNumArgs_def word_less_nat_alt)
  qed
  note Y = push_args_state [OF aa y(1) this, simplified]
  let ?L = "2 * R + 2 * A"
  have lb: "locals_state A ?L A b"
    using Y unfolding args_state_def locals_state_def by (auto simp: y(2) inj_on_def) (metis mult_cancel1 add_left_cancel zero_neq_numeral)
  have fb: "co_function b = Some (f\<lparr>numRetSlots := ?n, numRetAndArgSlots := slotFirstDynamicIndex y\<rparr>)" using Y by (simp add: y(2) a)
  have sb: "same_frame u b" using Y by (simp add: same_frame_def y(2) a)
  have cb: "co_wasm b = p1" using Y u(6) by (simp add: y(2) a)
  obtain tot c0 where c0: "CompileLocals_loop env (unat nb) 0 (b\<lparr>co_wasm := p2\<rparr>) = Inr (tot, c0)"
    "c = c0\<lparr>co_function := map_option (\<lambda>f. f\<lparr>numLocals := ucast tot\<rparr>) (co_function c0)\<rparr>"
    using run(3) rd(2) cb sb u(7) by (auto simp: CompileLocals_def read_with_def m3_result same_frame_def)
  have lb': "locals_state A ?L A (b\<lparr>co_wasm := p2\<rparr>)" using lb by (simp add: locals_state_def)
  have rl: "read_locals (ce_wasm env) (co_wasmEnd (b\<lparr>co_wasm := p2\<rparr>)) (unat nb) (co_wasm (b\<lparr>co_wasm := p2\<rparr>)) = Some (V, p3)"
    using rd(3) sb u(7) by (simp add: same_frame_def)
  have "unat (0 :: u32) + A = A" by simp
  note C = CompileLocals_loop_state [OF lb' rl c0(1) this]
  have "locals_state A ?L (A + V) c = locals_state A ?L (A + V) c0" by (simp add: locals_state_def c0(2))
  then have lc: "locals_state A ?L (A + V) c" using C by blast
  have sc: "same_frame u c" using C sb by (simp add: same_frame_def c0(2))
  have fdc: "unat (slotFirstDynamicIndex c) = ?L" "unat (slotFirstDynamicIndex y) = ?L"
    using lc Y by (simp_all add: locals_state_def args_state_def)
  then have "slotFirstDynamicIndex c = slotFirstDynamicIndex y" by (simp add: word_unat_eq_iff)
  then have fl: "slotFirstLocalIndex c = slotFirstDynamicIndex c" using C by (simp add: c0(2) y(2))
  have np: "\<not> isPolymorphic (block u)" using z(6) u(5) by simp
  note S = start_body_state [OF lc sc fl u(1,3,4) np run(4)]
  have V: "A + V \<le> 2000" using lc by (simp add: locals_state_def)
  have tot: "unat tot = V" using C by simp
  have fc: "co_function c = Some (f\<lparr>numRetSlots := ?n, numRetAndArgSlots := slotFirstDynamicIndex y, numLocals := ucast tot\<rparr>)"
    using C fb by (simp add: c0(2))
  obtain g where g: "co_function x = Some g" "g = f\<lparr>numRetSlots := ?n, numRetAndArgSlots := slotFirstDynamicIndex y, numLocals := ucast tot,
      numLocalBytes := (slotFirstConstIndex x - slotFirstDynamicIndex c) * 4\<rparr>" using S fc by simp
  have "function_type env x = Some ft" using fty [OF g(1)] by (simp add: g(2))
  moreover have t16: "unat (ucast tot :: u16) = V" using tot V by (simp add: unsigned_ucast_eq take_bit_nat_eq_self)
  have "unat (ucast (ucast tot :: u16) :: u32) = V" "unat (ucast (ft_numArgs ft) :: u32) = A"
    using t16 AR(1) unat_slot by metis+
  then have "(ucast (ucast tot :: u16) :: u32) + ucast (ft_numArgs ft) = of_nat V + of_nat A"
    by (metis of_nat_unat ucast_id)
  then have "(ucast (ucast tot :: u16) :: u32) + ucast (ft_numArgs ft) = of_nat (A + V)" by (simp add: add.commute)
  ultimately have nl: "NumArgsAndLocals env x = of_nat (A + V)"
    using g by (simp add: NumArgsAndLocals_def GetFunctionNumArgsAndLocals_def GetFunctionNumArgs_def)
  have M: "?L \<le> unat (slotFirstConstIndex x)" "unat (slotFirstConstIndex x) \<le> 4000" using S by blast+
  have "unat (slotFirstConstIndex x - slotFirstDynamicIndex c) = unat (slotFirstConstIndex x) - ?L"
    using M(1) fdc(1) by (simp add: unat_sub word_le_nat_alt)
  then have nb: "unat ((slotFirstConstIndex x - slotFirstDynamicIndex c) * 4) = 4 * (unat (slotFirstConstIndex x) - ?L)"
    using M(2) by (subst unat_mult_lem [THEN iffD1]) simp_all
  have wx: "unat (wasmStack x i) = 2 * R + 2 * i" if "i < A" for i
  proof -
    have "wasmStack x i = wasmStack y i" using S C that by (simp add: c0(2) y(2))
    then show ?thesis using Y that by (simp add: args_state_def)
  qed
  have wl: "?L \<le> unat (wasmStack x i)" if "A \<le> i" "i < A + V" for i
    using lc S that by (simp add: locals_state_def)
  have ra: "unat (numRetAndArgSlots g) = ?L" using g(2) fdc(2) by simp
  have lbytes: "unat (numLocalBytes g) = 4 * (unat (slotFirstConstIndex x) - ?L)" using g(2) nb by simp
  have cx: "co_wasm x = p3" using S C by (simp add: c0(2))
  have ca: "cur_page a = 0" using u(2) by (simp add: a)
  have sx: "cfg (A + V) x" "unat (stackIndex x) = A + V" "code x = [W_op op_Entry, W_function fi]" "cur_page x = 0"
    "co_wasmEnd x = co_wasmEnd z" "depth (block x) = depth (block z)" "sc_type (block x) = sc_type (block z)"
    using S u(2,5,7) by simp_all
  show ?thesis using sx cx nl ca M wx wl g(1) ra lbytes by blast
qed

end
