(* ===== verification/M3_Straight_Function.thy ===== *)
theory M3_Straight_Function
  imports M3_Straight_Prologue M3_Exec_Safety
begin

text \<open>
  The correctness of the compiler and the interpreter together, on functions of straight-line \<^verbatim>\<open>i32\<close>
  code: from the lemmas on the prologue, the statements and the final \<^verbatim>\<open>end\<close> to the words that
  \<^verbatim>\<open>CompileFunction\<close> leaves (\<open>compiled_straight\<close>), the frame that \<^verbatim>\<open>op_Entry\<close> makes (\<open>enter_frame\<close>), and the
  run of the operations (\<open>straight_function_correct\<close>).
\<close>

section \<open>Running the code\<close>

lemma trap_kinds:
  "binop32 b x y = Inl e \<Longrightarrow> e \<noteq> C_undefined" "unop32_value u x = Inl e \<Longrightarrow> e \<noteq> C_undefined"
  using binop_defined(1) [of b x y] unop_defined(1) [of u x] by auto

lemma value_steps_traps: "value_steps gs vs = Inl e \<Longrightarrow> e \<noteq> C_undefined"
proof (induction gs arbitrary: vs)
  case (Cons g gs)
  show ?case
  proof (cases "value_step g vs")
    case (Inl e')
    moreover have "e' \<noteq> C_undefined"
      using Inl trap_kinds by (cases "(g, vs)" rule: value_step.cases) (auto simp: Let_def tryR_Inl_iff)
    ultimately show ?thesis using Cons.prems by auto
  next
    case (Inr vs')
    then show ?thesis using Cons by auto
  qed
qed simp

text \<open>Straight-line instructions run as the interpreter runs them.\<close>

definition code_at :: "exec_env \<Rightarrow> nat \<Rightarrow> instr list \<Rightarrow> bool" where
  "code_at E pc is \<longleftrightarrow> (\<forall>i < length is. pc + i < length (x_code E) \<and> x_code E ! (pc + i) = is ! i)"

lemma code_at_Cons: "code_at E pc (i # is) \<longleftrightarrow> pc < length (x_code E) \<and> x_code E ! pc = i \<and> code_at E (pc + 1) is"
  by (auto simp: code_at_def nth_Cons' less_Suc_eq_0_disj)

lemma code_at_append: "code_at E pc (is @ is') \<longleftrightarrow> code_at E pc is \<and> code_at E (pc + length is) is'"
  by (induction "is" arbitrary: pc) (auto simp: code_at_Cons code_at_def [of E _ "[]"])

lemma run_simple:
  assumes "code_at E pc [i]" "exec_simple E i sp r0 vm \<noteq> Inl C_undefined"
  shows "run_step k E pc sp r0 vm = on_result vm (exec_simple E i sp r0 vm) (\<lambda>(r0, vm). k (pc + 1) sp r0 vm)"
  using assms by (cases i) (auto simp: run_step_def code_at_Cons exec_simple_def)

lemma run_exec_seq:
  assumes "code_at E pc is" "exec_seq E is sp r0 vm \<noteq> Inl C_undefined"
  shows "case exec_seq E is sp r0 vm of
      Inl e \<Rightarrow> \<exists>vm'. RunCode (length is + k) E pc sp r0 vm = Some (R_trap e, vm')
    | Inr (r0', vm') \<Rightarrow> RunCode (length is + k) E pc sp r0 vm = RunCode k E (pc + length is) sp r0' vm'"
  using assms
proof (induction "is" arbitrary: pc r0 vm)
  case (Cons i "is")
  have c: "code_at E pc [i]" "code_at E (pc + 1) is" using Cons.prems(1) by (simp_all add: code_at_Cons code_at_def [of E _ "[]"])
  have ne: "exec_simple E i sp r0 vm \<noteq> Inl C_undefined" using Cons.prems(2) by auto
  have run: "RunCode (length (i # is) + k) E pc sp r0 vm
      = on_result vm (exec_simple E i sp r0 vm) (\<lambda>(r0, vm). RunCode (length is + k) E (pc + 1) sp r0 vm)"
    using run_simple [OF c(1) ne] by simp
  show ?case
  proof (cases "exec_simple E i sp r0 vm")
    case (Inl e)
    then show ?thesis using run by (simp add: on_result_def)
  next
    case (Inr r)
    obtain r1 vm1 where r: "r = (r1, vm1)" by force
    have "exec_seq E is sp r1 vm1 \<noteq> Inl C_undefined" using Cons.prems(2) Inr r by simp
    note I = Cons.IH [OF c(2) this]
    show ?thesis
    proof (cases "exec_seq E is sp r1 vm1")
      case (Inl e)
      then show ?thesis using I run Inr r \<open>exec_simple E i sp r0 vm = Inr r\<close> by (simp add: on_result_def del: RunCode.simps)
    next
      case (Inr q)
      then show ?thesis using I run r \<open>exec_simple E i sp r0 vm = Inr r\<close> by (cases q) (simp add: on_result_def del: RunCode.simps)
    qed
  qed
qed simp

lemma write_slots_fields:
  assumes "k + length xs \<le> length (vm_stack vm)"
  obtains s where "write_slots k xs vm = Inr (vm\<lparr>vm_stack := s\<rparr>)" "length s = length (vm_stack vm)"
    "\<And>i. s ! i = (if k \<le> i \<and> i < k + length xs then xs ! (i - k) else vm_stack vm ! i)"
proof -
  let ?s = "take k (vm_stack vm) @ xs @ drop (k + length xs) (vm_stack vm)"
  have "?s ! i = (if k \<le> i \<and> i < k + length xs then xs ! (i - k) else vm_stack vm ! i)" for i
  proof (cases "xs = []")
    case False
    then have k: "k < length (vm_stack vm)" using assms by (cases xs) auto
    consider "i < k" | "k \<le> i" "i - k < length xs" "i < k + length xs" | "k + length xs \<le> i" "\<not> i - k < length xs" by linarith
    then show ?thesis using assms k by cases (simp_all add: nth_append)
  qed auto
  then show ?thesis using assms by (intro that [of ?s]) (simp_all add: write_slots_def)
qed

text \<open>The frame after \<^verbatim>\<open>op_Entry\<close>: zeroed locals, then the constants.\<close>

lemma enter_frame:
  assumes "fi < length (x_functions E)" "x_functions E ! fi = xf" "mallocated (vm_memory vm) \<noteq> None"
    "sp + xf_maxStackSlots xf < x_numStackSlots E" "x_numStackSlots E \<le> length (vm_stack vm)"
    "xf_numRetAndArgSlots xf + xf_numLocalBytes xf div 4 + length (xf_constants xf) \<le> xf_maxStackSlots xf"
  obtains s where "enter E fi sp vm = Inr (vm\<lparr>vm_stack := s\<rparr>)" "same_outside (xf_maxStackSlots xf) sp vm (vm\<lparr>vm_stack := s\<rparr>)"
    "length s = length (vm_stack vm)"
    "\<And>j. j < xf_numRetAndArgSlots xf \<Longrightarrow> s ! (sp + j) = vm_stack vm ! (sp + j)"
    "\<And>j. xf_numRetAndArgSlots xf \<le> j \<Longrightarrow> j < xf_numRetAndArgSlots xf + xf_numLocalBytes xf div 4 \<Longrightarrow> s ! (sp + j) = 0"
    "\<And>j. j < length (xf_constants xf) \<Longrightarrow> s ! (sp + (xf_numRetAndArgSlots xf + xf_numLocalBytes xf div 4) + j) = xf_constants xf ! j"
proof -
  let ?L = "xf_numRetAndArgSlots xf" and ?n = "xf_numLocalBytes xf div 4" and ?K = "xf_constants xf"
  have "(sp + ?L) + length (replicate ?n (0 :: u32)) \<le> length (vm_stack vm)" using assms(4-6) by simp
  then obtain s1 where s1: "write_slots (sp + ?L) (replicate ?n 0) vm = Inr (vm\<lparr>vm_stack := s1\<rparr>)" "length s1 = length (vm_stack vm)"
    "\<And>i. s1 ! i = (if sp + ?L \<le> i \<and> i < sp + ?L + length (replicate ?n (0 :: u32)) then replicate ?n 0 ! (i - (sp + ?L)) else vm_stack vm ! i)"
    by (rule write_slots_fields) blast
  have "(sp + ?L + ?n) + length ?K \<le> length (vm_stack (vm\<lparr>vm_stack := s1\<rparr>))" using assms(4-6) s1(2) by simp
  then obtain s where s: "write_slots (sp + ?L + ?n) ?K (vm\<lparr>vm_stack := s1\<rparr>) = Inr (vm\<lparr>vm_stack := s1\<rparr>\<lparr>vm_stack := s\<rparr>)" "length s = length s1"
    "\<And>i. s ! i = (if sp + ?L + ?n \<le> i \<and> i < sp + ?L + ?n + length ?K then ?K ! (i - (sp + ?L + ?n)) else s1 ! i)"
    by (rule write_slots_fields) auto
  show ?thesis
  proof (rule that [of s])
    show "enter E fi sp vm = Inr (vm\<lparr>vm_stack := s\<rparr>)"
      using assms(1-4) s1(1) s(1) by (auto simp: enter_def with_mem_def Let_def)
    show "same_outside (xf_maxStackSlots xf) sp vm (vm\<lparr>vm_stack := s\<rparr>)"
      unfolding same_outside_def by (rule exI [of _ s]) (use assms(6) s s1 in auto)
  qed (use s s1 in auto)
qed


section \<open>Functions\<close>

text \<open>
  A function whose body is the validated straight-line code \<open>gs\<close> on \<^verbatim>\<open>i32\<close> values, with \<open>V\<close> locals.
\<close>

definition straight_function :: "compile_env \<Rightarrow> M3Function \<Rightarrow> M3FuncType \<Rightarrow> nat \<Rightarrow> wop list \<Rightarrow> bool" where
  "straight_function env f ft V gs \<longleftrightarrow>
    (case (fn_wasm f, fn_wasmEnd f, fn_funcType f) of
       (Some p, Some e, Some t) \<Rightarrow>
         pool_get (funcTypes (ce_environment env)) t = Some ft \<and> i32_signature ft \<and>
         (case LEB_u32 (ce_wasm env) p e of
            Inl _ \<Rightarrow> False
          | Inr (_, p) \<Rightarrow> (case LEB_u32 (ce_wasm env) p e of
              Inl _ \<Rightarrow> False
            | Inr (blocks, p) \<Rightarrow> (case read_locals (ce_wasm env) e (unat blocks) p of
                None \<Rightarrow> False
              | Some (v, p) \<Rightarrow>
                  let n = unat (ft_numArgs ft) + V in
                  v = V \<and> body_reads (ce_wasm env) p e gs \<and> valid n gs n (n + unat (ft_numRets ft)))))
     | _ \<Rightarrow> False)"

lemma straight_functionE:
  assumes sf: "straight_function env f ft V gs"
  obtains p0 e t sz p1 nb p2 p3 where "fn_wasm f = Some p0" "fn_wasmEnd f = Some e" "fn_funcType f = Some t"
    "pool_get (funcTypes (ce_environment env)) t = Some ft" "i32_signature ft" "body_reads (ce_wasm env) p3 e gs"
    "valid (unat (ft_numArgs ft) + V) gs (unat (ft_numArgs ft) + V) (unat (ft_numArgs ft) + V + unat (ft_numRets ft))"
    "LEB_u32 (ce_wasm env) p0 e = Inr (sz, p1)" "LEB_u32 (ce_wasm env) p1 e = Inr (nb, p2)"
    "read_locals (ce_wasm env) e (unat nb) p2 = Some (V, p3)"
proof -
  obtain p0 e t where s0: "fn_wasm f = Some p0" "fn_wasmEnd f = Some e" "fn_funcType f = Some t"
    using sf by (auto simp: straight_function_def split: option.splits)
  note sf = sf [unfolded straight_function_def s0 prod.case option.case]
  then obtain sz p1 where s1: "LEB_u32 (ce_wasm env) p0 e = Inr (sz, p1)" by (cases "LEB_u32 (ce_wasm env) p0 e") auto
  note sf = sf [unfolded s1 sum.case prod.case]
  then obtain nb p2 where s2: "LEB_u32 (ce_wasm env) p1 e = Inr (nb, p2)" by (cases "LEB_u32 (ce_wasm env) p1 e") auto
  note sf = sf [unfolded s2 sum.case prod.case]
  then obtain v p3 where s3: "read_locals (ce_wasm env) e (unat nb) p2 = Some (v, p3)"
    by (cases "read_locals (ce_wasm env) e (unat nb) p2") auto
  note sf = sf [unfolded s3 option.case prod.case Let_def]
  then have "v = V" by blast
  then show thesis using that s0 s1 s2 s3 sf by blast
qed

text \<open>The words at the function's code pointer, and the function as \<^verbatim>\<open>op_Entry\<close> sees it.\<close>

definition function_words :: "compiled_code \<Rightarrow> code_word list" where
  "function_words cc = (case cc_pc cc of Some (page, line) \<Rightarrow> drop line (cc_words cc page) | None \<Rightarrow> [])"

definition loaded_function :: "M3Function \<Rightarrow> compiled_code \<Rightarrow> exec_function \<Rightarrow> bool" where
  "loaded_function f cc xf \<longleftrightarrow>
     xf_maxStackSlots xf = unat (cc_maxStackSlots cc) \<and> xf_numRetAndArgSlots xf = unat (numRetAndArgSlots f)
   \<and> xf_numLocalBytes xf = unat (numLocalBytes f) \<and> xf_constants xf = (case cc_constants cc of Some K \<Rightarrow> K | None \<Rightarrow> [])"

text \<open>A call of function \<open>fi\<close> at \<open>pc\<close> in the frame \<open>sp\<close>: the arguments are above the return slots.\<close>

definition called :: "exec_env \<Rightarrow> nat \<Rightarrow> M3FuncType \<Rightarrow> exec_function \<Rightarrow> nat \<Rightarrow> vm \<Rightarrow> u32 list \<Rightarrow> bool" where
  "called E fi ft xf sp vm args \<longleftrightarrow>
     fi < length (x_functions E) \<and> x_functions E ! fi = xf \<and> mallocated (vm_memory vm) \<noteq> None
   \<and> sp + xf_maxStackSlots xf < x_numStackSlots E \<and> x_numStackSlots E \<le> length (vm_stack vm)
   \<and> length args = unat (ft_numArgs ft)
   \<and> (\<forall>i < length args. vm_stack vm ! (sp + 2 * unat (ft_numRets ft) + 2 * i) = args ! i)"

lemma compiled_straight:
  assumes co: "CompileFunction fuel env copy_ok fi f = Some (None, f', Some cc)" and sf: "straight_function env f ft V gs"
  obtains x y z ws "is" ws' is' where
    "cfg (unat (ft_numArgs ft) + V) x" "unat (stackIndex x) = unat (ft_numArgs ft) + V"
    "\<And>i. i < unat (ft_numArgs ft) \<Longrightarrow> unat (wasmStack x i) = 2 * unat (ft_numRets ft) + 2 * i"
    "\<And>i. unat (ft_numArgs ft) \<le> i \<Longrightarrow> i < unat (ft_numArgs ft) + V \<Longrightarrow> 2 * unat (ft_numRets ft) + 2 * unat (ft_numArgs ft) \<le> unat (wasmStack x i)"
    "unat (numRetAndArgSlots f') = 2 * unat (ft_numRets ft) + 2 * unat (ft_numArgs ft)"
    "unat (numLocalBytes f') div 4 = unat (slotFirstConstIndex x) - unat (numRetAndArgSlots f')"
    "unat (numRetAndArgSlots f') \<le> unat (slotFirstConstIndex x)"
    "function_words cc = [W_op op_Entry, W_function fi] @ ws @ ws' @ [W_op op_Return]" "decodes ws is" "decodes ws' is'"
    "cfg (unat (ft_numArgs ft) + V) z" "slotFirstConstIndex z = slotFirstConstIndex x" "slotFirstDynamicIndex z = slotFirstDynamicIndex x"
    "cc_maxStackSlots cc = maxStackSlots z"
    "(case cc_constants cc of Some K \<Rightarrow> K | None \<Rightarrow> []) = map (constants z) [0 ..< unat (slotMaxConstIndex z) - unat (slotFirstConstIndex z)]"
    "\<And>K F. serves K F z \<Longrightarrow> serves K F y"
    "\<And>E K F. serves K F y \<Longrightarrow> does (value_steps gs) E K F x y is"
    "\<And>E K F sp r0 vm vs. serves K F z \<Longrightarrow> matches K F y sp r0 vm vs \<Longrightarrow>
      \<exists>vm'. exec_seq E is' sp r0 vm = Inr (r0, vm') \<and> same_outside F sp vm vm' \<and> (unat (ft_numRets ft) = 1 \<longrightarrow> vm_stack vm' ! sp = last vs)"
proof -
  let ?A = "unat (ft_numArgs ft)" and ?R = "unat (ft_numRets ft)" and ?n = "unat (ft_numArgs ft) + V"
  obtain p0 e t sz p1 nb p2 p3 where s0: "fn_wasm f = Some p0" "fn_wasmEnd f = Some e" "fn_funcType f = Some t"
    and s: "pool_get (funcTypes (ce_environment env)) t = Some ft" "i32_signature ft"
      "body_reads (ce_wasm env) p3 e gs" "valid ?n gs ?n (?n + ?R)"
    and rd: "LEB_u32 (ce_wasm env) p0 e = Inr (sz, p1)" "LEB_u32 (ce_wasm env) p1 e = Inr (nb, p2)"
      "read_locals (ce_wasm env) e (unat nb) p2 = Some (V, p3)"
    by (rule straight_functionE [OF sf]) blast
  define z0 where "z0 = (zero_compilation p0 e)\<lparr>co_function := Some f\<rparr>"
  define z where "z = z0\<lparr>block := (block (zero_compilation p0 e))\<lparr>sc_type := function_type env z0\<rparr>\<rparr>"
  have ft0: "function_type env z0 = Some ft" using s0(3) s(1) by (simp add: function_type_def z0_def)
  then have ft: "function_type env z = Some ft" by (simp add: function_type_def z_def)
  have zf: "has_page z = False" "cur_page z = 0" "code z = []" "M3Compilation.numPages z = 0" "outer z = []" "\<not> isPolymorphic (block z)"
      "stackIndex z = 0" "m3Slots z = (\<lambda>_. 0)" "regStackIndexPlusOne z = (\<lambda>_. 0)" "co_function z = Some f"
      "co_wasm z = p0" "co_wasmEnd z = e" "depth (block z) = 0" "sc_type (block z) = Some ft"
    using ft0 by (simp_all add: z_def z0_def zero_compilation_def)
  obtain a b c x r where st: "begin_function env z = Inr a" "push_arguments env a = Inr b" "CompileLocals env b = Inr c"
    "start_body env fi (measure_locals c) = Inr x" "CompileBlockStatements fuel env x = Some (Inr r)"
    "previousOpcode r = c_waOp_end" "finish_function copy_ok (Some (cur_page a, 0)) r = Some (None, f', Some cc)"
    using co s0(1,2)
    by (auto simp: CompileFunction_def Let_def step_function_def split: sum.splits option.splits if_splits
        simp flip: z0_def z_def)
  note P = prologue [OF zf(1-10) ft s(2) _ _ _ st(1-4) refl refl, unfolded zf(11,12), OF rd]
  then obtain g where x: "cfg ?n x" "unat (stackIndex x) = ?n" "code x = [W_op op_Entry, W_function fi]" "cur_page x = 0" "co_wasm x = p3"
      "co_wasmEnd x = e" "depth (block x) = 0" "sc_type (block x) = Some ft" "NumArgsAndLocals env x = of_nat ?n" "cur_page a = 0"
    and ar: "2 * ?R + 2 * ?A \<le> unat (slotFirstConstIndex x)" "unat (slotFirstConstIndex x) \<le> 4000"
      "\<And>i. i < ?A \<Longrightarrow> unat (wasmStack x i) = 2 * ?R + 2 * i"
      "\<And>i. ?A \<le> i \<Longrightarrow> i < ?A + V \<Longrightarrow> 2 * ?R + 2 * ?A \<le> unat (wasmStack x i)"
    and g: "co_function x = Some g" "unat (numRetAndArgSlots g) = 2 * ?R + 2 * ?A"
      "unat (numLocalBytes g) = 4 * (unat (slotFirstConstIndex x) - (2 * ?R + 2 * ?A))"
    unfolding zf(13,14) by blast
  have "co_function x \<noteq> None" using g(1) by simp
  moreover have "body_reads (ce_wasm env) (co_wasm x) (co_wasmEnd x) gs" using s(3) x(5,6) by simp
  moreover have "valid ?n gs (unat (stackIndex x)) (?n + ?R)" using s(4) x(2) by simp
  ultimately obtain y fuel' where y: "body_sim ?n x (value_steps gs) y" "unat (stackIndex y) = ?n + ?R" "co_wasm y < co_wasmEnd y"
      "ce_wasm env ! co_wasm y = 0x0b" "CompileBlockStatements fuel' env y = Some (Inr r)"
    using straight_statements [OF x(1,9) _ _ _ st(5)] by blast
  obtain ws "is" where b: "cfg ?n y" "code y = code x @ ws" "decodes ws is" "\<And>E K F. serves K F y \<Longrightarrow> does (value_steps gs) E K F x y is"
    "block y = block x" "co_function y = co_function x" "cur_page y = cur_page x"
    "slotFirstConstIndex y = slotFirstConstIndex x" "slotFirstDynamicIndex y = slotFirstDynamicIndex x" by (rule body_sim_code [OF y(1)]) blast
  have R: "?R \<le> 1" "?R \<le> unat (slotFirstConstIndex y)" using s(2) ar(1) b(8) by (simp_all add: i32_signature_def)
  have "co_function y \<noteq> None" "depth (block y) = 0" "GetFuncTypeNumResults (sc_type (block y)) = of_nat ?R"
    using b(5,6) g(1) x(7,8) by (simp_all add: GetFuncTypeNumResults_def)
  moreover have "GetFuncTypeResultType (sc_type (block y)) 0 = 1" if "?R = 1"
    using that b(5) x(8) i32_signature_types [OF s(2), of 0] by (simp add: GetFuncTypeResultType_def word_less_nat_alt)
  ultimately have E: "cfg ?n r \<and> cur_page r = cur_page y \<and> co_function r = co_function y
    \<and> slotFirstConstIndex r = slotFirstConstIndex y \<and> slotFirstDynamicIndex r = slotFirstDynamicIndex y
    \<and> (\<forall>K F. serves K F r \<longrightarrow> serves K F y)
    \<and> (\<exists>ws is. code r = code y @ ws @ [W_op op_Return] \<and> decodes ws is
     \<and> (\<forall>E K F sp r0 vm vs. serves K F r \<longrightarrow> matches K F y sp r0 vm vs \<longrightarrow>
          (\<exists>vm'. exec_seq E is sp r0 vm = Inr (r0, vm') \<and> same_outside F sp vm vm' \<and> (?R = 1 \<longrightarrow> vm_stack vm' ! sp = last vs))))"
    using straight_end [OF b(1) y(2) R y(3,4) _ _ _ _ y(5)] by blast
  then obtain ws' is' where r: "cfg ?n r" "cur_page r = 0" "co_function r = Some g" "slotFirstConstIndex r = slotFirstConstIndex x"
      "slotFirstDynamicIndex r = slotFirstDynamicIndex x" "\<And>K F. serves K F r \<Longrightarrow> serves K F y"
      "code r = [W_op op_Entry, W_function fi] @ ws @ ws' @ [W_op op_Return]" "decodes ws' is'"
      "\<And>E K F sp r0 vm vs. serves K F r \<Longrightarrow> matches K F y sp r0 vm vs \<Longrightarrow>
          (\<exists>vm'. exec_seq E is' sp r0 vm = Inr (r0, vm') \<and> same_outside F sp vm vm' \<and> (?R = 1 \<longrightarrow> vm_stack vm' ! sp = last vs))"
    using b(2,6-9) x(3,4) g(1) by auto
  have le: "slotFirstConstIndex r \<le> slotMaxConstIndex r" using r(1) by (simp add: cfg_def)
  have nc: "unat (slotMaxConstIndex r - slotFirstConstIndex r) = unat (slotMaxConstIndex r) - unat (slotFirstConstIndex r)"
    using le by (simp add: unat_sub)
  have f': "f' = g\<lparr>compiled := True\<rparr>" "cc_pc cc = Some (0, 0)" "cc_words cc = page_words r" "cc_maxStackSlots cc = maxStackSlots r"
    using st(7) r(3) x(10) by (auto simp: finish_function_def Let_def split: if_splits)
  have K: "(case cc_constants cc of Some K \<Rightarrow> K | None \<Rightarrow> []) = map (constants r) [0 ..< unat (slotMaxConstIndex r) - unat (slotFirstConstIndex r)]"
  proof (cases "slotMaxConstIndex r - slotFirstConstIndex r = 0")
    case True
    then have "cc_constants cc = None" using st(7) by (auto simp: finish_function_def Let_def)
    moreover have "unat (slotMaxConstIndex r) - unat (slotFirstConstIndex r) = 0" using True nc by simp
    ultimately show ?thesis by (simp only:) simp
  next
    case False
    then show ?thesis using st(7) nc by (auto simp: finish_function_def Let_def split: if_splits)
  qed
  have w: "function_words cc = [W_op op_Entry, W_function fi] @ ws @ ws' @ [W_op op_Return]"
    using r(2,7) by (simp add: function_words_def f' page_words_def)
  have N: "unat (numRetAndArgSlots f') = 2 * ?R + 2 * ?A" "unat (numLocalBytes f') div 4 = unat (slotFirstConstIndex x) - unat (numRetAndArgSlots f')"
    "unat (numRetAndArgSlots f') \<le> unat (slotFirstConstIndex x)" using g(2,3) ar(1) by (simp_all add: f')
  show thesis
    by (rule that [OF x(1,2) ar(3,4) N w b(3) r(8,1,4,5) f'(4) K r(6) b(4) r(9)]) assumption+
qed

lemma serves_own:
  assumes "cfg n r"
  defines "K \<equiv> map (constants r) [0 ..< unat (slotMaxConstIndex r) - unat (slotFirstConstIndex r)]"
  shows "serves K (unat (maxStackSlots r)) r" "unat (slotFirstConstIndex r) + length K \<le> unat (maxStackSlots r)"
  using assms by (auto simp: serves_def cfg_def word_le_nat_alt)

text \<open>The frame at the first statement.\<close>

lemma entry_matches:
  assumes x: "cfg (A + V) x" "unat (stackIndex x) = A + V"
    "\<And>i. i < A \<Longrightarrow> unat (wasmStack x i) = 2 * R + 2 * i"
    "\<And>i. A \<le> i \<Longrightarrow> i < A + V \<Longrightarrow> 2 * R + 2 * A \<le> unat (wasmStack x i)"
    and s: "length args = A" "sp + F \<le> length s"
    "\<And>i. i < A \<Longrightarrow> s ! (sp + 2 * R + 2 * i) = args ! i"
    "\<And>j. 2 * R + 2 * A \<le> j \<Longrightarrow> j < unat (slotFirstConstIndex x) \<Longrightarrow> s ! (sp + j) = 0"
    "\<And>j. j < length K \<Longrightarrow> s ! (sp + unat (slotFirstConstIndex x) + j) = K ! j"
  shows "matches K F x sp 0 (vm\<lparr>vm_stack := s\<rparr>) (args @ replicate V 0)"
proof -
  have e: "entry_value x sp 0 (vm\<lparr>vm_stack := s\<rparr>) k = (args @ replicate V 0) ! k" if "k < A + V" for k
  proof -
    have w: "unat (wasmStack x k) < unat (slotFirstConstIndex x)" using x(1) that by (simp add: cfg_def)
    also have "\<dots> \<le> 4000" using cfg_bounds(3,4) [OF x(1)] by simp
    finally have "wasmStack x k \<noteq> 60000" by auto
    then have ev: "entry_value x sp 0 (vm\<lparr>vm_stack := s\<rparr>) k = s ! (sp + unat (wasmStack x k))" by (simp add: entry_value_def)
    show ?thesis
    proof (cases "k < A")
      case True
      then show ?thesis using ev x(3) s(1,3) by (simp add: nth_append add.assoc)
    next
      case False
      then show ?thesis using ev x(4) s(1,4) w that by (simp add: nth_append)
    qed
  qed
  show ?thesis using e x(2) s(1,2,5) by (simp add: matches_def)
qed

lemma entry_decodes: "decodes [W_op op_Entry, W_function fi] [I_Entry fi]"
  by (rule decodes_single) (simp_all add: word_instr_def is_op_def)

lemma return_decodes: "decodes [W_op op_Return] [I_Return]"
  by (rule decodes_single) (simp_all add: word_instr_def is_op_def slot_instr_def)

text \<open>What a run of the function has to give, when the stack machine's run gives \<open>r\<close>.\<close>

definition returns_as :: "nat \<Rightarrow> nat \<Rightarrow> nat \<Rightarrow> vm \<Rightarrow> wasm_state result \<Rightarrow> (m3ret \<times> vm) option \<Rightarrow> bool" where
  "returns_as R F sp vm r out \<longleftrightarrow>
    (case out of
       None \<Rightarrow> False
     | Some (ret, vm') \<Rightarrow>
         (case r of
            Inl e \<Rightarrow> ret = R_trap e
          | Inr (ls, st) \<Rightarrow> ret = R_none \<and> same_outside F sp vm vm' \<and> st = (if R = 1 then [V32 (vm_stack vm' ! sp)] else [])))"

lemma straight_run:
  assumes co: "CompileFunction fuel env copy_ok fi f = Some (None, f', Some cc)" and sf: "straight_function env f ft V gs"
  obtains "is" where "decode (function_words cc) = Some is"
    "\<And>E pc sp r0 vm args xf. code_at E pc is \<Longrightarrow> loaded_function f' cc xf \<Longrightarrow> called E fi ft xf sp vm args \<Longrightarrow>
      \<exists>r. wasm_run gs (map V32 (args @ replicate V 0), []) = Some r
        \<and> returns_as (unat (ft_numRets ft)) (xf_maxStackSlots xf) sp vm r (RunCode (length is) E pc sp r0 vm)"
proof -
  let ?A = "unat (ft_numArgs ft)" and ?R = "unat (ft_numRets ft)" and ?n = "unat (ft_numArgs ft) + V"
  obtain x y z ws "is" ws' is' where C:
    "cfg ?n x" "unat (stackIndex x) = ?n" "\<And>i. i < ?A \<Longrightarrow> unat (wasmStack x i) = 2 * ?R + 2 * i"
    "\<And>i. ?A \<le> i \<Longrightarrow> i < ?n \<Longrightarrow> 2 * ?R + 2 * ?A \<le> unat (wasmStack x i)"
    "unat (numRetAndArgSlots f') = 2 * ?R + 2 * ?A"
    "unat (numLocalBytes f') div 4 = unat (slotFirstConstIndex x) - unat (numRetAndArgSlots f')"
    "unat (numRetAndArgSlots f') \<le> unat (slotFirstConstIndex x)"
    and w: "function_words cc = [W_op op_Entry, W_function fi] @ ws @ ws' @ [W_op op_Return]" "decodes ws is" "decodes ws' is'"
    and z: "cfg ?n z" "slotFirstConstIndex z = slotFirstConstIndex x" "slotFirstDynamicIndex z = slotFirstDynamicIndex x"
    "cc_maxStackSlots cc = maxStackSlots z"
    "(case cc_constants cc of Some K \<Rightarrow> K | None \<Rightarrow> []) = map (constants z) [0 ..< unat (slotMaxConstIndex z) - unat (slotFirstConstIndex z)]"
    and S: "\<And>K F. serves K F z \<Longrightarrow> serves K F y" "\<And>E K F. serves K F y \<Longrightarrow> does (value_steps gs) E K F x y is"
    "\<And>E K F sp r0 vm vs. serves K F z \<Longrightarrow> matches K F y sp r0 vm vs \<Longrightarrow>
      \<exists>vm'. exec_seq E is' sp r0 vm = Inr (r0, vm') \<and> same_outside F sp vm vm' \<and> (?R = 1 \<longrightarrow> vm_stack vm' ! sp = last vs)"
    by (rule compiled_straight [OF co sf]) blast
  let ?is = "[I_Entry fi] @ is @ is' @ [I_Return]"
  have "decodes (function_words cc) ?is"
    unfolding w(1) by (intro decodes_append entry_decodes return_decodes w(2,3))
  then have dec: "decode (function_words cc) = Some ?is" by (rule decodes_decode)
  have v: "valid ?n gs ?n (?n + ?R)" by (rule straight_functionE [OF sf])
  have R1: "?R \<le> 1" by (rule straight_functionE [OF sf]) (simp add: i32_signature_def)
  show thesis
  proof (rule that [OF dec])
    fix E pc sp r0 vm args xf
    assume at: "code_at E pc ?is" and l: "loaded_function f' cc xf" and c: "called E fi ft xf sp vm args"
    let ?K = "map (constants z) [0 ..< unat (slotMaxConstIndex z) - unat (slotFirstConstIndex z)]" and ?F = "unat (maxStackSlots z)"
    let ?vs = "args @ replicate V 0" and ?L = "unat (slotFirstConstIndex x)"
    have xf: "xf_maxStackSlots xf = ?F" "xf_numRetAndArgSlots xf = 2 * ?R + 2 * ?A" "xf_constants xf = ?K"
      "xf_numRetAndArgSlots xf + xf_numLocalBytes xf div 4 = ?L" "2 * ?R + 2 * ?A \<le> ?L"
      using l C(5-7) z(4,5) by (simp_all add: loaded_function_def)
    note sv = serves_own [OF z(1)]
    have fr: "xf_numRetAndArgSlots xf + xf_numLocalBytes xf div 4 + length (xf_constants xf) \<le> xf_maxStackSlots xf"
      using sv(2) unfolding xf(4) xf(1,3) z(2) .
    have ca: "fi < length (x_functions E)" "x_functions E ! fi = xf" "mallocated (vm_memory vm) \<noteq> None"
      "sp + xf_maxStackSlots xf < x_numStackSlots E" "x_numStackSlots E \<le> length (vm_stack vm)" "length args = ?A"
      "\<And>i. i < ?A \<Longrightarrow> vm_stack vm ! (sp + 2 * ?R + 2 * i) = args ! i"
      using c by (simp_all add: called_def)
    obtain s where s0: "enter E fi sp vm = Inr (vm\<lparr>vm_stack := s\<rparr>)" "same_outside (xf_maxStackSlots xf) sp vm (vm\<lparr>vm_stack := s\<rparr>)"
      "length s = length (vm_stack vm)" "\<And>j. j < xf_numRetAndArgSlots xf \<Longrightarrow> s ! (sp + j) = vm_stack vm ! (sp + j)"
      "\<And>j. xf_numRetAndArgSlots xf \<le> j \<Longrightarrow> j < xf_numRetAndArgSlots xf + xf_numLocalBytes xf div 4 \<Longrightarrow> s ! (sp + j) = 0"
      "\<And>j. j < length (xf_constants xf) \<Longrightarrow> s ! (sp + (xf_numRetAndArgSlots xf + xf_numLocalBytes xf div 4) + j) = xf_constants xf ! j"
      by (rule enter_frame [OF ca(1-5) fr], rule that, assumption, assumption, assumption) simp_all
    note s = s0 [unfolded xf(4), unfolded xf(1-3)]
    have len: "sp + ?F \<le> length s" using ca(4,5) s(3) xf(1) by simp
    have "s ! (sp + 2 * ?R + 2 * i) = args ! i" if "i < ?A" for i
      using s(4) [of "2 * ?R + 2 * i"] ca(7) [OF that] that by (simp add: add.assoc)
    then have m: "matches ?K ?F x sp 0 (vm\<lparr>vm_stack := s\<rparr>) ?vs"
      by (intro entry_matches [OF C(1,2,3,4) ca(6) len _ s(5,6)])
    have lv: "length ?vs = ?n" using ca(6) by simp
    then have ms: "machine_state ?n ?vs = (map V32 ?vs, [])" by (simp add: machine_state_def)
    have "valid ?n gs (length ?vs) (?n + ?R)" "?n \<le> length ?vs" using v lv by simp_all
    note W = valid_run [OF this, unfolded ms]
    note W1 = conjunct1 [OF W] and W2 = conjunct2 [OF W, rule_format]
    have at1: "code_at E pc [I_Entry fi]" "code_at E (pc + 1) is" "code_at E (pc + 1 + length is) is'"
      "code_at E (pc + 1 + length is + length is') [I_Return]"
      using at by (simp_all only: code_at_append list.size add_0_right add_Suc_right One_nat_def)
    have run0: "RunCode (length ?is) E pc sp r0 vm = RunCode (length is + (length is' + 1)) E (pc + 1) sp 0 (vm\<lparr>vm_stack := s\<rparr>)"
      using at1(1) s(1) by (simp add: run_step_def code_at_Cons on_result_def)
    note D = S(2) [OF S(1) [OF sv(1)], of E, unfolded does_def, rule_format, OF m]
    show "\<exists>r. wasm_run gs (map V32 ?vs, []) = Some r \<and> returns_as ?R (xf_maxStackSlots xf) sp vm r (RunCode (length ?is) E pc sp r0 vm)"
    proof (cases "value_steps gs ?vs")
      case (Inl e)
      then have ex: "exec_seq E is sp 0 (vm\<lparr>vm_stack := s\<rparr>) = Inl e" using D by simp
      then have "exec_seq E is sp 0 (vm\<lparr>vm_stack := s\<rparr>) \<noteq> Inl C_undefined" using value_steps_traps [OF Inl] by simp
      then obtain vm' where r: "RunCode (length ?is) E pc sp r0 vm = Some (R_trap e, vm')"
        using run_exec_seq [OF at1(2), of sp 0 "vm\<lparr>vm_stack := s\<rparr>" "length is' + 1"] unfolding run0 ex sum.case by blast
      have "wasm_run gs (map V32 ?vs, []) = Some (Inl e)" using W1 unfolding Inl map_sum.simps id_apply .
      moreover have "returns_as ?R (xf_maxStackSlots xf) sp vm (Inl e) (RunCode (length ?is) E pc sp r0 vm)"
        unfolding r by (simp add: returns_as_def)
      ultimately show ?thesis by blast
    next
      case (Inr vs')
      obtain r1 vm1 where ex: "exec_seq E is sp 0 (vm\<lparr>vm_stack := s\<rparr>) = Inr (r1, vm1)" "matches ?K ?F y sp r1 vm1 vs'"
        "same_outside ?F sp (vm\<lparr>vm_stack := s\<rparr>) vm1" using D unfolding Inr sum.case by blast
      obtain vm2 where e2: "exec_seq E is' sp r1 vm1 = Inr (r1, vm2)" "same_outside ?F sp vm1 vm2" "?R = 1 \<longrightarrow> vm_stack vm2 ! sp = last vs'"
        using S(3) [OF sv(1) ex(2)] by blast
      have so: "same_outside ?F sp vm vm2" using same_outside_trans [OF s(2) same_outside_trans [OF ex(3) e2(2)]] .
      have "RunCode (length ?is) E pc sp r0 vm = RunCode (length is' + 1) E (pc + 1 + length is) sp r1 vm1"
        using run0 run_exec_seq [OF at1(2), of sp 0 "vm\<lparr>vm_stack := s\<rparr>" "length is' + 1"] by (simp only: ex(1) sum.case prod.case sum.simps not_False_eq_True simp_thms)
      also have "\<dots> = RunCode 1 E (pc + 1 + length is + length is') sp r1 vm2"
        using run_exec_seq [OF at1(3), of sp r1 vm1 1] by (simp only: e2(1) sum.case prod.case sum.simps not_False_eq_True simp_thms)
      also have "\<dots> = Some (R_none, vm2)" using at1(4) by (simp add: run_step_def code_at_Cons)
      finally have run: "RunCode (length ?is) E pc sp r0 vm = Some (R_none, vm2)" .
      have lv': "length vs' = ?n + ?R" by (rule W2 [OF Inr])
      have "map V32 (rev (drop ?n vs')) = (if ?R = 1 then [V32 (vm_stack vm2 ! sp)] else [])"
      proof (cases "?R = 1")
        case True
        then have "vs' \<noteq> []" using lv' by auto
        then have "vs' = butlast vs' @ [last vs']" by simp
        moreover have "length (butlast vs') = ?n" using lv' True by simp
        ultimately have "drop ?n vs' = [last vs']" by (metis append_eq_conv_conj)
        then show ?thesis using True e2(3) by simp
      next
        case False
        then show ?thesis using lv' R1 by simp
      qed
      then have "returns_as ?R (xf_maxStackSlots xf) sp vm (Inr (machine_state ?n vs')) (RunCode (length ?is) E pc sp r0 vm)"
        unfolding run using so xf(1) by (simp add: returns_as_def machine_state_def)
      moreover have "wasm_run gs (map V32 ?vs, []) = Some (Inr (machine_state ?n vs'))" using W1 unfolding Inr map_sum.simps .
      ultimately show ?thesis by blast
    qed
  qed
qed


section \<open>The theorem\<close>

text \<open>C1: compiled straight-line code computes what the WebAssembly code says.  When
  \<^verbatim>\<open>CompileFunction\<close> succeeds on a function with \<^verbatim>\<open>i32\<close> arguments, locals and at most one result, whose
  body is validated code of constants, local.get, local.set, local.tee, drop, nop and the 32-bit
  operators, the words it left at the function's code pointer are a list of operations; and wherever
  these operations lie, a run of them in any frame of any stack, with the arguments above the return
  slots, either traps with the trap of the stack machine's run of the body (division by zero or
  overflow), or returns, with the machine's result in slot 0 of the frame and nothing changed outside
  the frame.  So the assignment of values to slots, constants and the register, the preservation of a
  local that is set while copies of it are on the stack, and the choice among the variants of an
  operation are right.\<close>

theorem straight_function_correct:
  assumes "CompileFunction fuel env copy_ok fi f = Some (None, f', Some cc)" "straight_function env f ft V gs"
  shows "\<exists>is. decode (function_words cc) = Some is \<and>
    (\<forall>E pc sp r0 vm args xf. code_at E pc is \<longrightarrow> loaded_function f' cc xf \<longrightarrow> called E fi ft xf sp vm args \<longrightarrow>
      (\<exists>r. wasm_run gs (map V32 (args @ replicate V 0), []) = Some r \<and>
           returns_as (unat (ft_numRets ft)) (xf_maxStackSlots xf) sp vm r (RunCode (length is) E pc sp r0 vm)))"
  by (rule straight_run [OF assms]) blast

text \<open>
  A function of two arguments and one local: \<open>local 2 := arg 0 - arg 1 * 7\<close>, and twice that is the
  result.  The subtraction leaves its value in the register, \<^verbatim>\<open>local.tee\<close> stores it and pushes the local.
\<close>

definition straight_body :: "u8 list" where
  "straight_body = [18, 1, 1, 0x7f, 0x20, 0, 0x20, 1, 0x41, 7, 0x6c, 0x6b, 0x22, 2, 0x20, 2, 0x6a, 0x0b]"

definition straight_code :: "wop list" where
  "straight_code = [Wasm_get 0, Wasm_get 1, Wasm_const (V32 7), Wasm_op (Op_bin32 Multiply), Wasm_op (Op_bin32 Subtract),
     Wasm_tee 2, Wasm_get 2, Wasm_op (Op_bin32 Add)]"

definition straight_type :: M3FuncType where
  "straight_type = \<lparr>ft_numRets = 1, ft_numArgs = 2, ft_types = [c_m3Type_i32, c_m3Type_i32, c_m3Type_i32]\<rparr>"

definition straight_f :: M3Function where
  "straight_f = zero_function\<lparr>fn_funcType := Some 0, fn_wasm := Some 0, fn_wasmEnd := Some (length straight_body)\<rparr>"

definition straight_env :: compile_env where
  "straight_env = \<lparr>ce_page_ok = (\<lambda>_. True), ce_wasm = straight_body,
     ce_module = zero_module\<lparr>numFuncTypes := 1, m_funcTypes := [Some 0], numFunctions := 1, m_functions := [straight_f]\<rparr>,
     ce_environment = \<lparr>funcTypes = [straight_type], retFuncTypes = [0, 0, 0, 0, 0]\<rparr>\<rparr>"

definition straight_instrs :: "instr list" where
  "straight_instrs = [I_Entry 0, I_Bin32 Multiply (SS 7 4), I_Bin32 Subtract (RS 2), I_SetSlot T_i32 6,
     I_Bin32 Add (RS 6), I_SetSlot T_i32 0, I_Return]"

definition straight_xf :: exec_function where
  "straight_xf = \<lparr>xf_maxStackSlots = 9, xf_numRetAndArgSlots = 6, xf_numLocalBytes = 4, xf_constants = [7], xf_funcType = 0\<rparr>"

definition straight_machine :: exec_env where
  "straight_machine = \<lparr>x_code = straight_instrs, x_functions = [straight_xf], x_compiled = (\<lambda>_. Inr 0), x_table0 = [],
     x_table0Size = 0, x_numStackSlots = 12, x_realloc_ok = (\<lambda>_. True), x_memoryLimit = 0, x_host = (\<lambda>_ _ vm. (None, vm))\<rparr>"

definition straight_vm :: vm where
  "straight_vm = \<lparr>vm_stack = [0, 0, 10, 0, 3, 0, 0, 0, 0, 0, 0, 0],
     vm_memory = \<lparr>mallocated = Some \<lparr>mh_length = 0, mh_data = []\<rparr>, numPages = 0, maxPages = 0, pageSize = 65536\<rparr>, vm_globals = []\<rparr>"

lemma straight_compiles:
  obtains f' cc where "CompileFunction 20 straight_env True 0 straight_f = Some (None, f', Some cc)"
    "decode (function_words cc) = Some straight_instrs" "loaded_function f' cc straight_xf"
proof -
  have "case CompileFunction 20 straight_env True 0 straight_f of
      Some (None, f', Some cc) \<Rightarrow> decode (function_words cc) = Some straight_instrs \<and> loaded_function f' cc straight_xf | _ \<Rightarrow> False"
    by code_simp
  then show thesis using that by (auto split: option.splits prod.splits)
qed

theorem straight_function_correct_witness:
  "\<exists>f' cc vm'. CompileFunction 20 straight_env True 0 straight_f = Some (None, f', Some cc) \<and>
     RunCode 7 straight_machine 0 0 0 straight_vm = Some (R_none, vm') \<and> vm_stack vm' ! 0 = - 22"
proof -
  obtain f' cc where c: "CompileFunction 20 straight_env True 0 straight_f = Some (None, f', Some cc)"
    "decode (function_words cc) = Some straight_instrs" "loaded_function f' cc straight_xf" by (rule straight_compiles)
  have s: "straight_function straight_env straight_f straight_type 1 straight_code" by code_simp
  have "code_at straight_machine 0 straight_instrs" by (simp add: code_at_def straight_machine_def)
  moreover have "called straight_machine 0 straight_type straight_xf 0 straight_vm [10, 3]" by code_simp
  ultimately obtain r where r: "wasm_run straight_code (map V32 ([10, 3] @ replicate 1 0), []) = Some r"
    "returns_as (unat (ft_numRets straight_type)) (xf_maxStackSlots straight_xf) 0 straight_vm r
       (RunCode (length straight_instrs) straight_machine 0 0 0 straight_vm)"
    using straight_function_correct [OF c(1) s] c(2,3) by force
  have "wasm_run straight_code (map V32 ([10, 3] @ replicate 1 0), []) = Some (Inr ([V32 10, V32 3, V32 (- 11)], [V32 (- 22)]))"
    by code_simp
  then have "r = Inr ([V32 10, V32 3, V32 (- 11)], [V32 (- 22)])" using r(1) by simp
  moreover have "length straight_instrs = 7" "unat (ft_numRets straight_type) = 1" by code_simp+
  ultimately show ?thesis using r(2) c(1) by (auto simp: returns_as_def split: option.splits)
qed

end
