(* ===== verification/M3_Host.thy ===== *)
theory M3_Host
  imports M3_Exec M3_Parse
begin

text \<open>
  The interface of host functions: the \<^verbatim>\<open>m3Api\<close> macros of \<^verbatim>\<open>include/wasm3_defs.h\<close> and \<^verbatim>\<open>include/wasm3.h\<close>.
  A host function gets its frame \<open>sp\<close>, one 64-bit cell (two slots) per value with the result first, and
  pointers into the linear memory as offsets from its start. What the C code does through such a pointer
  is \<open>host_read\<close> and \<open>host_write\<close>: outside the memory it is undefined, whatever was checked before.
  A state other than the machine's, such as what has been written to a stream, is the parameter \<open>'o\<close>.
\<close>

unbundle bit_operations_syntax

type_synonym 'o host_state = "vm \<times> 'o"

type_synonym ('o, 'a) hosted = "(m3_error \<times> 'o host_state) + 'a"

section \<open>Arguments and results\<close>

text \<open>\<^verbatim>\<open>* ((TYPE * ) (_sp++))\<close>: the \<open>k\<close>-th cell of the frame.\<close>

definition m3ApiGetArg :: "vtype \<Rightarrow> nat \<Rightarrow> nat \<Rightarrow> vm \<Rightarrow> u64 result" where
  "m3ApiGetArg ty sp k vm = get_slot ty sp (2 * k) vm"

definition arg32 :: "nat \<Rightarrow> nat \<Rightarrow> vm \<Rightarrow> u32 result" where
  "arg32 sp k vm = tryR (m3ApiGetArg T_i32 sp k vm) (\<lambda>v. Inr (ucast v))"

text \<open>The offset of \<^verbatim>\<open>m3ApiOffsetToPtr (* ((uint32_t * ) (_sp++)))\<close>.\<close>

definition m3ApiGetArgMem :: "nat \<Rightarrow> nat \<Rightarrow> vm \<Rightarrow> nat result" where
  "m3ApiGetArgMem sp k vm = tryR (arg32 sp k vm) (\<lambda>v. Inr (unat v))"

definition m3ApiReturn :: "nat \<Rightarrow> u32 \<Rightarrow> 'o host_state \<Rightarrow> ('o, 'o host_state) hosted" where
  "m3ApiReturn sp v s = tryR (at_state s (set_slot T_i32 sp 0 (ucast v) (fst s))) (\<lambda>vm. Inr (vm, snd s))"

definition m3ApiTrap :: "m3_error \<Rightarrow> 'o host_state \<Rightarrow> ('o, 'a) hosted" where
  "m3ApiTrap e s = Inl (e, s)"

text \<open>\<^verbatim>\<open>(uint32_t) ((uint8_t * ) ptr - (uint8_t * ) _mem)\<close>.\<close>

definition m3ApiPtrToOffset :: "nat \<Rightarrow> u32" where
  "m3ApiPtrToOffset p = of_nat p"

definition m3ApiIsNullPtr :: "nat \<Rightarrow> bool" where
  "m3ApiIsNullPtr p \<longleftrightarrow> p = 0"

section \<open>Memory\<close>

definition m3_GetMemorySize :: "vm \<Rightarrow> u32 result" where
  "m3_GetMemorySize vm = with_mem vm (\<lambda>h. Inr (ucast (mh_length h)))"

definition m3ApiCheckMem :: "nat \<Rightarrow> nat \<Rightarrow> 'o host_state \<Rightarrow> ('o, 'a) hosted \<Rightarrow> ('o, 'a) hosted" where
  "m3ApiCheckMem p len s k =
    tryR (at_state s (m3_GetMemorySize (fst s))) (\<lambda>n.
      if p + len > unat n then m3ApiTrap m3Err_trapOutOfBoundsMemoryAccess s else k)"

definition host_read :: "vm \<Rightarrow> nat \<Rightarrow> nat \<Rightarrow> u8 list result" where
  "host_read vm p n =
    with_mem vm (\<lambda>h. if p + n \<le> length (mh_data h) then Inr (take n (drop p (mh_data h))) else Inl C_undefined)"

definition host_write :: "vm \<Rightarrow> nat \<Rightarrow> u8 list \<Rightarrow> vm result" where
  "host_write vm p bs =
    with_mem vm (\<lambda>h. if p + length bs \<le> length (mh_data h)
      then Inr (set_mem vm (h\<lparr>mh_data := take p (mh_data h) @ bs @ drop (p + length bs) (mh_data h)\<rparr>)) else Inl C_undefined)"

definition memory_bytes :: "vm \<Rightarrow> nat" where
  "memory_bytes vm = (case mallocated (vm_memory vm) of None \<Rightarrow> 0 | Some h \<Rightarrow> length (mh_data h))"

definition m3ApiReadMem32 :: "vm \<Rightarrow> nat \<Rightarrow> u32 result" where
  "m3ApiReadMem32 vm p = tryR (host_read vm p 4) (\<lambda>bs. Inr (ucast (le_word bs)))"

definition m3ApiWriteMem16 :: "vm \<Rightarrow> nat \<Rightarrow> u16 \<Rightarrow> vm result" where
  "m3ApiWriteMem16 vm p v = host_write vm p (le_bytes 2 (ucast v))"

definition m3ApiWriteMem32 :: "vm \<Rightarrow> nat \<Rightarrow> u32 \<Rightarrow> vm result" where
  "m3ApiWriteMem32 vm p v = host_write vm p (le_bytes 4 (ucast v))"

definition m3ApiWriteMem64 :: "vm \<Rightarrow> nat \<Rightarrow> u64 \<Rightarrow> vm result" where
  "m3ApiWriteMem64 vm p v = host_write vm p (le_bytes 8 v)"

text \<open>\<^verbatim>\<open>strnlen (p, n)\<close> on the memory: it reads until a zero byte, and at most \<open>n\<close> bytes.\<close>

primrec strnlen :: "u8 list \<Rightarrow> nat \<Rightarrow> nat \<Rightarrow> nat result" where
  "strnlen bs p 0 = Inr 0"
| "strnlen bs p (Suc n) =
    (if p < length bs then (if bs ! p = 0 then Inr 0 else tryR (strnlen bs (p + 1) n) (\<lambda>k. Inr (k + 1))) else Inl C_undefined)"

section \<open>Linking a table of host functions\<close>

definition SuppressLookupFailure :: "m3_error option \<Rightarrow> m3_error option" where
  "SuppressLookupFailure i_result = (if i_result = Some m3Err_functionLookupFailed then None else i_result)"

text \<open>
  The rows of \<^verbatim>\<open>_ (SuppressLookupFailure (m3_LinkRawFunction (module, ...)))\<close>: module, name, signature and
  function; \<open>compile_raw\<close> is \<^verbatim>\<open>CompileRawFunction\<close> for the row's function.
\<close>

fun link_rows :: "(nat \<Rightarrow> bool) \<Rightarrow> ('f \<Rightarrow> M3Function \<Rightarrow> M3Function result) \<Rightarrow> type_pool
    \<Rightarrow> (string \<times> string \<times> string \<times> 'f) list \<Rightarrow> M3Module \<Rightarrow> m3_error option \<times> M3Module" where
  "link_rows calloc_ok compile_raw pool [] m = (None, m)"
| "link_rows calloc_ok compile_raw pool ((wasi, fn, sig, f) # rows) m =
    (case FindAndLinkFunction calloc_ok (compile_raw f) pool m (ascii wasi) (ascii fn) (Some sig) of
       (r, m) \<Rightarrow> (case SuppressLookupFailure r of
           Some e \<Rightarrow> (Some e, m)
         | None \<Rightarrow> link_rows calloc_ok compile_raw pool rows m))"

section \<open>Lemmas on host memory\<close>

text \<open>A machine whose memory is \<open>bs\<close>, of fewer than 4 GiB.\<close>

definition memory_is :: "vm \<Rightarrow> u8 list \<Rightarrow> bool" where
  "memory_is vm bs \<longleftrightarrow> (\<exists>h. mallocated (vm_memory vm) = Some h \<and> hdr_ok h \<and> mh_data h = bs)"

text \<open>The machine with other contents of the memory.\<close>

definition put_data :: "vm \<Rightarrow> u8 list \<Rightarrow> vm" where
  "put_data vm bs = set_mem vm ((the (mallocated (vm_memory vm)))\<lparr>mh_data := bs\<rparr>)"

definition overwrite :: "u8 list \<Rightarrow> nat \<Rightarrow> u8 list \<Rightarrow> u8 list" where
  "overwrite bs p xs = take p bs @ xs @ drop (p + length xs) bs"

lemma length_overwrite [simp]: "p + length xs \<le> length bs \<Longrightarrow> length (overwrite bs p xs) = length bs"
  by (simp add: overwrite_def)

lemma nth_overwrite:
  assumes "p + length xs \<le> length bs" "i < length bs"
  shows "overwrite bs p xs ! i = (if p \<le> i \<and> i < p + length xs then xs ! (i - p) else bs ! i)"
proof -
  consider "i < p" | "p \<le> i" "i < p + length xs" "i - p < length xs" | "p + length xs \<le> i" "\<not> i - p < length xs" by linarith
  then show ?thesis using assms by cases (simp_all add: overwrite_def nth_append)
qed

lemma unat_small_cast: "unat (x :: u64) < 2 ^ 32 \<Longrightarrow> unat (ucast x :: u32) = unat x"
  by (simp add: unsigned_ucast_eq take_bit_nat_eq_self)

lemma memory_size:
  assumes "memory_is vm bs"
  shows "m3_GetMemorySize vm = Inr (of_nat (length bs))" "unat (of_nat (length bs) :: u32) = length bs" "length bs < 2 ^ 32"
proof -
  obtain h where h: "mallocated (vm_memory vm) = Some h" "length bs = unat (mh_length h)" "unat (mh_length h) < 2 ^ 32"
    using assms by (auto simp: memory_is_def hdr_ok_def)
  show "length bs < 2 ^ 32" using h by simp
  show "unat (of_nat (length bs) :: u32) = length bs" using h(2,3) by (simp add: unat_small_cast)
  have "(ucast (mh_length h) :: u32) = of_nat (unat (mh_length h))" by simp
  then show "m3_GetMemorySize vm = Inr (of_nat (length bs))" using h by (simp add: m3_GetMemorySize_def with_mem_def)
qed

lemma check_mem:
  assumes "memory_is (fst s) bs"
  shows "m3ApiCheckMem p len s k = (if p + len \<le> length bs then k else Inl (m3Err_trapOutOfBoundsMemoryAccess, s))"
  using memory_size [OF assms] by (simp add: m3ApiCheckMem_def at_state_def m3ApiTrap_def)

lemma check_mem_pair:
  "memory_is vm bs \<Longrightarrow> m3ApiCheckMem p len (vm, w) k = (if p + len \<le> length bs then k else Inl (m3Err_trapOutOfBoundsMemoryAccess, (vm, w)))"
  by (simp add: check_mem)

lemma host_read_mem: "memory_is vm bs \<Longrightarrow> p + n \<le> length bs \<Longrightarrow> host_read vm p n = Inr (take n (drop p bs))"
  by (auto simp: memory_is_def host_read_def with_mem_def)

lemma host_write_mem:
  "memory_is vm bs \<Longrightarrow> p + length xs \<le> length bs \<Longrightarrow> host_write vm p xs = Inr (put_data vm (overwrite bs p xs))"
  by (auto simp: memory_is_def host_write_def with_mem_def put_data_def overwrite_def)

lemma memory_put_data [simp]: "memory_is vm bs \<Longrightarrow> length bs' = length bs \<Longrightarrow> memory_is (put_data vm bs') bs'"
  by (auto simp: memory_is_def put_data_def set_mem_def hdr_ok_def)

lemma put_data_simps [simp]:
  "vm_stack (put_data vm bs) = vm_stack vm" "vm_globals (put_data vm bs) = vm_globals vm"
  "put_data (put_data vm bs) bs' = put_data vm bs'"
  by (simp_all add: put_data_def set_mem_def)

lemma put_data_same: "memory_is vm bs \<Longrightarrow> put_data vm bs = vm"
  by (auto simp: memory_is_def put_data_def set_mem_def)

lemma memory_is_stack [simp]: "memory_is (vm\<lparr>vm_stack := st\<rparr>) bs = memory_is vm bs"
  by (simp add: memory_is_def)

lemma down_of_up: "(ucast (ucast (v :: u32) :: u64) :: u32) = v"
  by (rule bit_word_eqI) (simp add: bit_simps)

text \<open>The arguments of a frame that lies in the stack.\<close>

lemma arg32_ok: "sp + 2 * k < length (vm_stack vm) \<Longrightarrow> arg32 sp k vm = Inr (vm_stack vm ! (sp + 2 * k))"
  by (simp add: arg32_def m3ApiGetArg_def get_slot_def down_of_up)

lemma arg_mem_ok: "sp + 2 * k < length (vm_stack vm) \<Longrightarrow> m3ApiGetArgMem sp k vm = Inr (unat (vm_stack vm ! (sp + 2 * k)))"
  by (simp add: m3ApiGetArgMem_def arg32_ok)

lemma arg64_ok: "sp + 2 * k + 1 < length (vm_stack vm) \<Longrightarrow> \<exists>v. m3ApiGetArg T_i64 sp k vm = Inr v"
  by (simp add: m3ApiGetArg_def get_slot_def)

lemma return_ok: "sp < length (vm_stack vm) \<Longrightarrow> m3ApiReturn sp v (vm, w) = Inr (vm\<lparr>vm_stack := (vm_stack vm)[sp := v]\<rparr>, w)"
  by (simp add: m3ApiReturn_def set_slot_def at_state_def down_of_up)

lemma get_arg32: "sp + 2 * k < length (vm_stack vm) \<Longrightarrow> v = vm_stack vm ! (sp + 2 * k) \<Longrightarrow> arg32 sp k vm = Inr v"
  by (simp add: arg32_ok)

lemma get_arg_mem: "sp + 2 * k < length (vm_stack vm) \<Longrightarrow> v = vm_stack vm ! (sp + 2 * k) \<Longrightarrow> m3ApiGetArgMem sp k vm = Inr (unat v)"
  by (simp add: arg_mem_ok)

text \<open>A 32-bit pointer back and forth.\<close>

lemma offset_of_pointer [simp]: "m3ApiPtrToOffset (unat (p :: u32)) = p"
  by (simp add: m3ApiPtrToOffset_def)

text \<open>\<^verbatim>\<open>strnlen\<close> of a C string, and of a longer run without a zero.\<close>

lemma strnlen_string:
  assumes "p + length cs < length bs" "take (length cs) (drop p bs) = cs" "bs ! (p + length cs) = 0" "0 \<notin> set cs" "length cs < n"
  shows "strnlen bs p n = Inr (length cs)"
  using assms
proof (induction cs arbitrary: p n)
  case Nil
  then show ?case by (cases n) auto
next
  case (Cons c cs)
  obtain m where m: "n = Suc m" using Cons.prems(5) by (cases n) auto
  have d: "drop p bs = bs ! p # drop (p + 1) bs" using Cons.prems(1) by (simp add: Cons_nth_drop_Suc)
  then have c: "bs ! p = c" "take (length cs) (drop (p + 1) bs) = cs" using Cons.prems(2) by simp_all
  have "strnlen bs (p + 1) m = Inr (length cs)" using Cons.prems c(2) m by (intro Cons.IH) simp_all
  then show ?case using Cons.prems c(1) m by simp
qed

end
