(* ===== verification/M3_Libc.thy ===== *)
theory M3_Libc
  imports M3_Host
begin

text \<open>
  The host functions of \<^verbatim>\<open>src/m3_api_libc.c\<close> and their linking. The state beside the machine is what
  has been written to \<^verbatim>\<open>stdout\<close>.
\<close>

unbundle bit_operations_syntax

type_synonym libc_function = "nat \<Rightarrow> u8 list host_state \<Rightarrow> (u8 list, u8 list host_state) hosted"

section \<open>Memory and process functions\<close>

definition m3_libc_abort :: libc_function where
  "m3_libc_abort sp s = m3ApiTrap m3Err_trapAbort s"

definition m3_libc_exit :: libc_function where
  "m3_libc_exit sp s = tryR (at_state s (arg32 sp 0 (fst s))) (\<lambda>code. m3ApiTrap m3Err_trapExit s)"

definition m3_libc_memset :: libc_function where
  "m3_libc_memset sp s =
    tryR (at_state s (m3ApiGetArgMem sp 1 (fst s))) (\<lambda>i_ptr.
    tryR (at_state s (arg32 sp 2 (fst s))) (\<lambda>i_value.
    tryR (at_state s (arg32 sp 3 (fst s))) (\<lambda>i_size.
    m3ApiCheckMem i_ptr (unat i_size) s
      (tryR (at_state s (host_write (fst s) i_ptr (replicate (unat i_size) (ucast i_value)))) (\<lambda>vm.
       m3ApiReturn sp (m3ApiPtrToOffset i_ptr) (vm, snd s))))))"

definition m3_libc_memmove :: libc_function where
  "m3_libc_memmove sp s =
    tryR (at_state s (m3ApiGetArgMem sp 1 (fst s))) (\<lambda>o_dst.
    tryR (at_state s (m3ApiGetArgMem sp 2 (fst s))) (\<lambda>i_src.
    tryR (at_state s (arg32 sp 3 (fst s))) (\<lambda>i_size.
    m3ApiCheckMem o_dst (unat i_size) s
      (m3ApiCheckMem i_src (unat i_size) s
        (tryR (at_state s (host_read (fst s) i_src (unat i_size))) (\<lambda>bs.
         tryR (at_state s (host_write (fst s) o_dst bs)) (\<lambda>vm.
         m3ApiReturn sp (m3ApiPtrToOffset o_dst) (vm, snd s))))))))"

definition m3_libc_print :: libc_function where
  "m3_libc_print sp s =
    tryR (at_state s (m3ApiGetArgMem sp 1 (fst s))) (\<lambda>i_ptr.
    tryR (at_state s (arg32 sp 2 (fst s))) (\<lambda>i_size.
    m3ApiCheckMem i_ptr (unat i_size) s
      (tryR (at_state s (host_read (fst s) i_ptr (unat i_size))) (\<lambda>bs.
       m3ApiReturn sp i_size (fst s, snd s @ bs)))))"

text \<open>\<open>clock\<close> is what \<^verbatim>\<open>clock ()\<close> answers, a signed count; \<open>per_sec\<close> is \<^verbatim>\<open>CLOCKS_PER_SEC\<close>.\<close>

definition m3_libc_clock_ms :: "nat \<Rightarrow> int \<Rightarrow> libc_function" where
  "m3_libc_clock_ms per_sec clock sp s =
    (let clock_divider = per_sec div 1000 in
     if clock_divider \<noteq> 0
     then m3ApiReturn sp (of_int (sgn clock * (\<bar>clock\<bar> div int clock_divider))) s
     else m3ApiReturn sp (of_int clock) s)"

definition m3_spectest_dummy :: libc_function where
  "m3_spectest_dummy sp s = Inr s"

section \<open>\<^verbatim>\<open>printf\<close>\<close>

definition HEXDIGITS :: "u8 list" where
  "HEXDIGITS = [48, 49, 50, 51, 52, 53, 54, 55, 56, 57, 65, 66, 67, 68, 69, 70]"

text \<open>The \<^verbatim>\<open>do ... while\<close> of \<^verbatim>\<open>internal_itoa\<close>, lowest digit first; the radix is 16 or 10.\<close>

function itoa_loop :: "bool \<Rightarrow> nat \<Rightarrow> u8 list" where
  "itoa_loop hex n =
    (let radix = (if hex then 16 else 10) in
     HEXDIGITS ! (n mod radix) # (if n div radix > 0 then itoa_loop hex (n div radix) else []))"
  by pat_completeness auto
termination
  by (relation "measure snd") (auto split: if_splits)

text \<open>The negation of the least integer overflows.\<close>

definition internal_itoa :: "u32 \<Rightarrow> bool \<Rightarrow> u8 list result" where
  "internal_itoa n hex =
    (if sint n = - (2 ^ 31) then Inl C_undefined
     else Inr (rev (itoa_loop hex (nat \<bar>sint n\<bar>) @ (if sint n < 0 then [45] else []))))"

definition byte_at :: "vm \<Rightarrow> nat \<Rightarrow> u8 result" where
  "byte_at vm p = tryR (host_read vm p 1) (\<lambda>bs. Inr (hd bs))"

definition host_strnlen :: "vm \<Rightarrow> nat \<Rightarrow> nat \<Rightarrow> nat result" where
  "host_strnlen vm p n = with_mem vm (\<lambda>h. strnlen (mh_data h) p n)"

text \<open>\<^verbatim>\<open>length++\<close> on an \<^verbatim>\<open>int32_t\<close>; \<^verbatim>\<open>length += n\<close> is computed as a \<^verbatim>\<open>size_t\<close> and cut to 32 bits.\<close>

definition length_inc :: "u32 \<Rightarrow> u32 result" where
  "length_inc l = (if l = 0x7fffffff then Inl C_undefined else Inr (l + 1))"

text \<open>The \<^verbatim>\<open>switch\<close>: the next argument, the output and its length.\<close>

definition printf_conversion :: "vm \<Rightarrow> u8 \<Rightarrow> nat \<Rightarrow> u8 list \<Rightarrow> u32 \<Rightarrow> (u8 list, nat \<times> u8 list \<times> u32) hosted" where
  "printf_conversion vm ch i_args out l =
    (let s = (vm, out) in
     if ch = 99 then
       m3ApiCheckMem i_args 4 s
         (tryR (at_state s (m3ApiReadMem32 vm i_args)) (\<lambda>char_temp.
          tryR (at_state (vm, out @ [ucast char_temp]) (length_inc l)) (\<lambda>l. Inr (i_args + 4, out @ [ucast char_temp], l))))
     else if ch = 100 \<or> ch = 120 then
       m3ApiCheckMem i_args 4 s
         (tryR (at_state s (m3ApiReadMem32 vm i_args)) (\<lambda>int_temp.
          tryR (at_state s (internal_itoa int_temp (ch = 120))) (\<lambda>buffer.
            Inr (i_args + 4, out @ buffer, l + of_nat (length buffer)))))
     else if ch = 115 then
       m3ApiCheckMem i_args 4 s
         (tryR (at_state s (m3ApiReadMem32 vm i_args)) (\<lambda>string_temp.
            let p = unat string_temp in
            if m3ApiIsNullPtr p then Inr (i_args + 4, out @ ascii ''(null)'', l + 6)
            else tryR (at_state s (host_strnlen vm p 1024)) (\<lambda>string_len.
                 m3ApiCheckMem p (string_len + 1) s
                   (tryR (at_state s (host_read vm p string_len)) (\<lambda>bs.
                    Inr (i_args + 4, out @ bs, l + of_nat string_len))))))
     else tryR (at_state (vm, out @ [ch]) (length_inc l)) (\<lambda>l. Inr (i_args, out @ [ch], l)))"

lemma byte_at_inside: "byte_at vm p = Inr b \<Longrightarrow> \<exists>h. mallocated (vm_memory vm) = Some h \<and> p < length (mh_data h)"
  by (auto simp: byte_at_def host_read_def with_mem_def tryR_Inr_iff split: option.splits if_splits)

function printf_loop :: "vm \<Rightarrow> nat \<Rightarrow> nat \<Rightarrow> u8 list \<Rightarrow> u32 \<Rightarrow> (u8 list, u8 list \<times> u32) hosted" where
  "printf_loop vm i_fmt i_args out l =
    tryR (at_state (vm, out) (byte_at vm i_fmt)) (\<lambda>ch.
      if ch = 0 then Inr (out, l)
      else if ch \<noteq> 37 then
        tryR (at_state (vm, out @ [ch]) (length_inc l)) (\<lambda>l. printf_loop vm (i_fmt + 1) i_args (out @ [ch]) l)
      else
        tryR (at_state (vm, out) (byte_at vm (i_fmt + 1))) (\<lambda>ch.
        tryR (printf_conversion vm ch i_args out l) (\<lambda>(i_args, out, l). printf_loop vm (i_fmt + 2) i_args out l)))"
  by pat_completeness auto
termination
  by (relation "measure (\<lambda>(vm, i_fmt, _). memory_bytes vm - i_fmt)")
    (auto simp: memory_bytes_def at_state_Inr_iff dest!: byte_at_inside)

declare printf_loop.simps [simp del] itoa_loop.simps [simp del]

definition m3_libc_printf :: libc_function where
  "m3_libc_printf sp s =
    tryR (at_state s (m3ApiGetArgMem sp 1 (fst s))) (\<lambda>i_fmt.
    tryR (at_state s (m3ApiGetArgMem sp 2 (fst s))) (\<lambda>i_args.
    if m3ApiIsNullPtr i_fmt then m3ApiReturn sp 0 s
    else
      m3ApiCheckMem i_fmt 1 s
        (tryR (at_state s (host_strnlen (fst s) i_fmt 1024)) (\<lambda>fmt_len.
         m3ApiCheckMem i_fmt (fmt_len + 1) s
           (tryR (printf_loop (fst s) i_fmt i_args (snd s) 0) (\<lambda>(out, length).
            m3ApiReturn sp length (fst s, out)))))))"

section \<open>Linking\<close>

definition spectest_rows :: "(string \<times> string \<times> string \<times> libc_function) list" where
  "spectest_rows =
    (let spectest = ''spectest'' in
     [(spectest, ''print'', ''v()'', m3_spectest_dummy),
      (spectest, ''print_i32'', ''v(i)'', m3_spectest_dummy),
      (spectest, ''print_i64'', ''v(I)'', m3_spectest_dummy),
      (spectest, ''print_f32'', ''v(f)'', m3_spectest_dummy),
      (spectest, ''print_f64'', ''v(F)'', m3_spectest_dummy),
      (spectest, ''print_i32_f32'', ''v(if)'', m3_spectest_dummy),
      (spectest, ''print_i64_f64'', ''v(IF)'', m3_spectest_dummy)])"

definition m3_LinkSpecTest :: "(nat \<Rightarrow> bool) \<Rightarrow> (libc_function \<Rightarrow> M3Function \<Rightarrow> M3Function result) \<Rightarrow> type_pool
    \<Rightarrow> M3Module \<Rightarrow> m3_error option \<times> M3Module" where
  "m3_LinkSpecTest calloc_ok compile_raw pool m = link_rows calloc_ok compile_raw pool spectest_rows m"

definition libc_rows :: "libc_function \<Rightarrow> (string \<times> string \<times> string \<times> libc_function) list" where
  "libc_rows clock_ms =
    (let env = ''env'' in
     [(env, ''_debug'', ''i(*i)'', m3_libc_print),
      (env, ''_memset'', ''*(*ii)'', m3_libc_memset),
      (env, ''_memmove'', ''*(**i)'', m3_libc_memmove),
      (env, ''_memcpy'', ''*(**i)'', m3_libc_memmove),
      (env, ''_abort'', ''v()'', m3_libc_abort),
      (env, ''_exit'', ''v(i)'', m3_libc_exit),
      (env, ''clock_ms'', ''i()'', clock_ms),
      (env, ''printf'', ''i(**)'', m3_libc_printf)])"

definition m3_LinkLibC :: "(nat \<Rightarrow> bool) \<Rightarrow> (libc_function \<Rightarrow> M3Function \<Rightarrow> M3Function result) \<Rightarrow> libc_function \<Rightarrow> type_pool
    \<Rightarrow> M3Module \<Rightarrow> m3_error option \<times> M3Module" where
  "m3_LinkLibC calloc_ok compile_raw clock_ms pool m = link_rows calloc_ok compile_raw pool (libc_rows clock_ms) m"

end
