(* ===== verification/M3_Libc_Props.thy ===== *)
theory M3_Libc_Props
  imports M3_Libc
begin

text \<open>
  \<^verbatim>\<open>printf\<close> against a reference that renders a format with a list of arguments, the memory functions,
  and what \<^verbatim>\<open>printf\<close> does with a format that ends in a percent sign.
\<close>

section \<open>Numerals\<close>

text \<open>A numeral in a radix, highest digit first.\<close>

fun numeral :: "nat \<Rightarrow> nat \<Rightarrow> u8 list" where
  "numeral r n = (if n < r \<or> r < 2 then [HEXDIGITS ! n] else numeral r (n div r) @ [HEXDIGITS ! (n mod r)])"

declare numeral.simps [simp del]

definition int_text :: "bool \<Rightarrow> u32 \<Rightarrow> u8 list option" where
  "int_text hex n =
    (if sint n = - (2 ^ 31) then None
     else Some ((if sint n < 0 then [45] else []) @ numeral (if hex then 16 else 10) (nat \<bar>sint n\<bar>)))"

lemma itoa_numeral: "rev (itoa_loop hex n) = numeral (if hex then 16 else 10) n"
proof (induction hex n rule: itoa_loop.induct)
  case (1 hex n)
  let ?r = "if hex then 16 else (10 :: nat)"
  show ?case
  proof (cases "n < ?r")
    case True
    then have "n div ?r = 0" "n mod ?r = n" by simp_all
    then show ?thesis using True by (simp add: itoa_loop.simps [of hex n] numeral.simps [of ?r n] Let_def)
  next
    case False
    then have "0 < n div ?r" by (simp add: div_greater_zero_iff)
    then show ?thesis using False 1 by (simp add: itoa_loop.simps [of hex n] numeral.simps [of ?r n] Let_def)
  qed
qed

lemma internal_itoa_text: "internal_itoa n hex = (case int_text hex n of None \<Rightarrow> Inl C_undefined | Some t \<Rightarrow> Inr t)"
  by (simp add: internal_itoa_def int_text_def itoa_numeral)

section \<open>\<^verbatim>\<open>printf\<close>\<close>

text \<open>\<open>S\<close> gives the string a pointer stands for. A format that ends in a percent sign has no rendering.\<close>

fun render :: "(u32 \<Rightarrow> u8 list option) \<Rightarrow> u8 list \<Rightarrow> u32 list \<Rightarrow> u8 list option" where
  "render S [] as = Some []"
| "render S (c # fmt) as =
    (if c \<noteq> 37 then map_option (Cons c) (render S fmt as)
     else case fmt of
         [] \<Rightarrow> None
       | d # fmt \<Rightarrow>
           if d \<in> {99, 100, 120, 115} then
             (case as of
                [] \<Rightarrow> None
              | a # as \<Rightarrow>
                  (case (if d = 99 then Some [ucast a] else if d = 115 then S a else int_text (d = 120) a) of
                     None \<Rightarrow> None
                   | Some t \<Rightarrow> map_option ((@) t) (render S fmt as)))
           else map_option (Cons d) (render S fmt as))"

definition c_string :: "u8 list \<Rightarrow> nat \<Rightarrow> u8 list \<Rightarrow> bool" where
  "c_string bs p t \<longleftrightarrow> p + length t < length bs \<and> take (length t) (drop p bs) = t \<and> bs ! (p + length t) = 0 \<and> 0 \<notin> set t"

definition args_at :: "u8 list \<Rightarrow> nat \<Rightarrow> u32 list \<Rightarrow> bool" where
  "args_at bs p as \<longleftrightarrow> (\<forall>k < length as. p + 4 * k + 4 \<le> length bs \<and> ucast (le_word (take 4 (drop (p + 4 * k) bs))) = as ! k)"

definition strings_of :: "u8 list \<Rightarrow> (u32 \<Rightarrow> u8 list option) \<Rightarrow> bool" where
  "strings_of bs S \<longleftrightarrow> (\<forall>p t. S p = Some t \<longrightarrow>
     (if p = 0 then t = ascii ''(null)'' else c_string bs (unat p) t \<and> length t < 1024))"

lemma c_string_Cons:
  assumes "c_string bs p (c # t)"
  shows "p < length bs" "bs ! p = c" "c \<noteq> 0" "c_string bs (p + 1) t"
proof -
  have p: "p < length bs" and t: "take (Suc (length t)) (drop p bs) = c # t" using assms by (simp_all add: c_string_def)
  have d: "drop p bs = bs ! p # drop (p + 1) bs" using p by (simp add: Cons_nth_drop_Suc)
  then show "p < length bs" "bs ! p = c" "c \<noteq> 0" "c_string bs (p + 1) t" using assms p t by (auto simp: c_string_def)
qed

lemma c_string_Nil: "c_string bs p [] \<Longrightarrow> p < length bs \<and> bs ! p = 0"
  by (simp add: c_string_def)

lemma byte_at_mem: "memory_is vm bs \<Longrightarrow> p < length bs \<Longrightarrow> byte_at vm p = Inr (bs ! p)"
  using host_read_mem [of vm bs p 1] by (simp add: byte_at_def take_Suc hd_drop_conv_nth)

lemma byte_at_beyond: "memory_is vm bs \<Longrightarrow> length bs \<le> p \<Longrightarrow> byte_at vm p = Inl C_undefined"
  by (auto simp: memory_is_def byte_at_def host_read_def with_mem_def)

lemma at_state_simps [simp]: "at_state s (Inr x) = Inr x" "at_state s (Inl e) = Inl (e, s)"
  by (simp_all add: at_state_def)

lemma length_inc_ok: "unat l + 1 < 2 ^ 31 \<Longrightarrow> length_inc l = Inr (l + 1)"
  by (auto simp: length_inc_def)

lemma args_at_Cons:
  assumes "args_at bs q (a # as)"
  shows "q + 4 \<le> length bs" "ucast (le_word (take 4 (drop q bs))) = a" "args_at bs (q + 4) as"
proof -
  show "q + 4 \<le> length bs" "ucast (le_word (take 4 (drop q bs))) = a" using assms by (auto simp: args_at_def dest: spec [of _ 0])
  show "args_at bs (q + 4) as"
    unfolding args_at_def
  proof (intro allI impI)
    fix k assume "k < length as"
    then show "q + 4 + 4 * k + 4 \<le> length bs \<and> ucast (le_word (take 4 (drop (q + 4 + 4 * k) bs))) = as ! k"
      using assms unfolding args_at_def by (auto dest!: spec [of _ "Suc k"] simp: algebra_simps)
  qed
qed

lemma read_arg:
  assumes "memory_is vm bs" "args_at bs q (a # as)"
  shows "m3ApiReadMem32 vm q = Inr a" "m3ApiCheckMem q 4 (vm, out) k = k"
  using args_at_Cons [OF assms(2)] host_read_mem [OF assms(1), of q 4]
  by (simp_all add: m3ApiReadMem32_def check_mem_pair [OF assms(1)])

lemma printf_conversion_text:
  assumes m: "memory_is vm bs" "strings_of bs S" and d: "d \<in> {99, 100, 120, 115}" and a: "args_at bs q (a # as)"
    and t: "(if d = 99 then Some [ucast a] else if d = 115 then S a else int_text (d = 120) a) = Some t"
    and l: "unat l + length t < 2 ^ 31"
  shows "printf_conversion vm d q out l = Inr (q + 4, out @ t, l + of_nat (length t))"
proof -
  note R = read_arg [OF m(1) a]
  consider (c) "d = 99" | (i) "d = 100 \<or> d = 120" | (s) "d = 115" using d by auto
  then show ?thesis
  proof cases
    case c
    then have "t = [ucast a]" using t by simp
    then show ?thesis using c R length_inc_ok [of l] l by (simp add: printf_conversion_def)
  next
    case i
    then have "int_text (d = 120) a = Some t" using t by auto
    then show ?thesis using i R by (auto simp: printf_conversion_def internal_itoa_text)
  next
    case s
    then have S: "S a = Some t" using t by simp
    show ?thesis
    proof (cases "a = 0")
      case True
      then have "t = ascii ''(null)''" using m(2) S by (auto simp: strings_of_def)
      moreover have "length (ascii ''(null)'') = 6" by (simp add: ascii_def)
      ultimately show ?thesis using s R True by (simp add: printf_conversion_def m3ApiIsNullPtr_def)
    next
      case False
      then have cs: "c_string bs (unat a) t" "length t < 1024" using m(2) S by (auto simp: strings_of_def)
      have "strnlen bs (unat a) 1024 = Inr (length t)" using cs by (intro strnlen_string) (auto simp: c_string_def)
      then have n: "host_strnlen vm (unat a) 1024 = Inr (length t)" using m(1) by (auto simp: host_strnlen_def with_mem_def memory_is_def)
      have in_: "unat a + (length t + 1) \<le> length bs" using cs(1) by (simp add: c_string_def)
      have r: "host_read vm (unat a) (length t) = Inr t" using cs(1) host_read_mem [OF m(1), of "unat a" "length t"] by (simp add: c_string_def)
      have "unat a \<noteq> 0" using False by (simp add: unat_eq_zero)
      then show ?thesis using s R(1) n r in_ args_at_Cons(1) [OF a] by (simp add: printf_conversion_def m3ApiIsNullPtr_def Let_def check_mem_pair [OF m(1)])
    qed
  qed
qed

lemma add_length: "(l :: u32) + 1 + of_nat n = l + of_nat (Suc n)" "(l :: u32) + of_nat m + of_nat n = l + of_nat (m + n)"
  by simp_all

lemma unat_add_length: "unat (l :: u32) + n < 2 ^ 31 \<Longrightarrow> unat (l + of_nat n) = unat l + n"
proof -
  assume a: "unat l + n < 2 ^ 31"
  then have "unat (of_nat n :: u32) = n" by (simp add: unsigned_of_nat take_bit_nat_eq_self)
  then show ?thesis using a by (subst unat_add_lem [THEN iffD1]) simp_all
qed

lemma printf_loop_renders:
  assumes "memory_is vm bs" "strings_of bs S"
  shows "c_string bs p fmt \<Longrightarrow> args_at bs q as \<Longrightarrow> render S fmt as = Some t \<Longrightarrow> unat l + length t < 2 ^ 31
    \<Longrightarrow> printf_loop vm p q out l = Inr (out @ t, l + of_nat (length t))"
proof (induction fmt arbitrary: p q as t l out rule: length_induct)
  case (1 fmt)
  note IH = 1(1) [rule_format] and cs = 1(2) and as = 1(3) and t = 1(4) and l = 1(5)
  show ?case
  proof (cases fmt)
    case Nil
    then show ?thesis using c_string_Nil [of bs p] cs t byte_at_mem [OF assms(1)] by (simp add: printf_loop.simps)
  next
    case (Cons c fmt1)
    note C = c_string_Cons [OF cs [unfolded Cons]]
    note b = byte_at_mem [OF assms(1) C(1), unfolded C(2)]
    show ?thesis
    proof (cases "c = 37")
      case False
      then obtain u where u: "render S fmt1 as = Some u" "t = c # u" using t Cons by auto
      have "unat (l + 1) = unat l + 1" using unat_add_length [of l 1] l u(2) by simp
      then have "printf_loop vm (p + 1) q (out @ [c]) (l + 1) = Inr ((out @ [c]) @ u, l + 1 + of_nat (length u))"
        using Cons l u by (intro IH [OF _ C(4) as]) simp_all
      then show ?thesis using b C(3) False u(2) length_inc_ok [of l] l by (simp add: printf_loop.simps [of vm p] add_length)
    next
      case True
      then obtain d fmt2 where f1: "fmt1 = d # fmt2" using t Cons by (cases fmt1) auto
      note D = c_string_Cons [OF C(4) [unfolded f1]]
      note b2 = byte_at_mem [OF assms(1) D(1), unfolded D(2)]
      have next_: "c_string bs (p + 2) fmt2" using D(4) by simp
      have loop: "printf_loop vm p q out l =
          tryR (printf_conversion vm d q out l) (\<lambda>(q, out, l). printf_loop vm (p + 2) q out l)"
        using b b2 True by (simp add: printf_loop.simps [of vm p])
      show ?thesis
      proof (cases "d \<in> {99, 100, 120, 115}")
        case d: True
        let ?x = "\<lambda>a. if d = 99 then Some [ucast a] else if d = 115 then S a else int_text (d = 120) a"
        have rd: "render S fmt as = (case as of [] \<Rightarrow> None | a # as \<Rightarrow> (case ?x a of None \<Rightarrow> None
            | Some t \<Rightarrow> map_option ((@) t) (render S fmt2 as)))"
          unfolding Cons f1 using True d by simp
        obtain a as2 where a: "as = a # as2" using t rd by (cases as) auto
        obtain x where x: "?x a = Some x" using t rd a by (cases "?x a") simp_all
        obtain u where u: "render S fmt2 as2 = Some u" "t = x @ u" using t rd a x by (cases "render S fmt2 as2") simp_all
        have "printf_conversion vm d q out l = Inr (q + 4, out @ x, l + of_nat (length x))"
          using l u(2) by (intro printf_conversion_text [OF assms d as [unfolded a] x]) simp
        moreover have "printf_loop vm (p + 2) (q + 4) (out @ x) (l + of_nat (length x)) = Inr ((out @ x) @ u, l + of_nat (length x) + of_nat (length u))"
          using Cons f1 l u(2) unat_add_length [of l "length x"] args_at_Cons(3) [OF as [unfolded a]]
          by (intro IH [OF _ next_ _ u(1)]) simp_all
        ultimately show ?thesis using loop u(2) by (simp add: add_length)
      next
        case d: False
        then obtain u where u: "render S fmt2 as = Some u" "t = d # u" using t Cons f1 True by auto
        have "printf_conversion vm d q out l = Inr (q, out @ [d], l + 1)"
          using d length_inc_ok [of l] l u(2) by (simp add: printf_conversion_def)
        moreover have "printf_loop vm (p + 2) q (out @ [d]) (l + 1) = Inr ((out @ [d]) @ u, l + 1 + of_nat (length u))"
          using Cons f1 l u(2) unat_add_length [of l 1] by (intro IH [OF _ next_ as u(1)]) simp_all
        ultimately show ?thesis using loop u(2) by (simp add: add_length)
      qed
    qed
  qed
qed

text \<open>C21: \<^verbatim>\<open>printf\<close> writes what its format says. For a format that is a C string of fewer than 1024
  characters in the linear memory, with an argument for every conversion and a string of fewer than
  1024 characters behind every pointer, it appends to the output the rendering of the format, returns
  its length in the result slot and changes nothing else; a null pointer is rendered as (null), and the
  numerals are those of the signed value in the radix 10 or 16.\<close>

theorem printf_renders:
  assumes "memory_is vm bs" "strings_of bs S" "sp + 4 < length (vm_stack vm)"
    and "i_fmt = vm_stack vm ! (sp + 2)" "i_args = vm_stack vm ! (sp + 4)" "i_fmt \<noteq> 0"
    and "c_string bs (unat i_fmt) fmt" "length fmt < 1024" "args_at bs (unat i_args) as"
    and "render S fmt as = Some t" "length t < 2 ^ 31"
  shows "m3_libc_printf sp (vm, out) = Inr (vm\<lparr>vm_stack := (vm_stack vm)[sp := of_nat (length t)]\<rparr>, out @ t)"
proof -
  have n: "host_strnlen vm (unat i_fmt) 1024 = Inr (length fmt)"
    using assms(1,7,8) strnlen_string [of "unat i_fmt" fmt bs 1024] by (auto simp: c_string_def host_strnlen_def with_mem_def memory_is_def)
  have in_: "unat i_fmt + (length fmt + 1) \<le> length bs" using assms(7) by (simp add: c_string_def)
  have p: "printf_loop vm (unat i_fmt) (unat i_args) out 0 = Inr (out @ t, of_nat (length t))"
    using printf_loop_renders [OF assms(1,2,7,9,10), of 0 out] assms(11) by simp
  have "unat i_fmt \<noteq> 0" using assms(6) by (simp add: unat_eq_zero)
  then show ?thesis
    using get_arg_mem [of sp 1 vm i_fmt] get_arg_mem [of sp 2 vm i_args] assms(3-5) n in_ p return_ok [of sp vm "of_nat (length t)" "out @ t"]
    by (simp add: m3_libc_printf_def m3ApiIsNullPtr_def check_mem_pair [OF assms(1)])
qed

text \<open>The format "%d-%x%c" at 4, with -7, 255 and "!" behind it at 12.\<close>

definition printf_memory :: "u8 list" where
  "printf_memory = [0, 0, 0, 0, 37, 100, 45, 37, 120, 37, 99, 0, 0xf9, 0xff, 0xff, 0xff, 0xff, 0, 0, 0, 33, 0, 0, 0]"

definition printf_vm :: vm where
  "printf_vm = \<lparr>vm_stack = [0, 0, 4, 0, 12, 0],
     vm_memory = \<lparr>mallocated = Some \<lparr>mh_length = 24, mh_data = printf_memory\<rparr>, numPages = 1, maxPages = 1, pageSize = 24\<rparr>, vm_globals = []\<rparr>"

lemma printf_memory_is: "memory_is printf_vm printf_memory"
  by (simp add: memory_is_def printf_vm_def printf_memory_def hdr_ok_def)

theorem printf_renders_witness:
  "m3_libc_printf 0 (printf_vm, []) = Inr (printf_vm\<lparr>vm_stack := [6, 0, 4, 0, 12, 0]\<rparr>, ascii ''-7-FF!'')"
proof -
  let ?fmt = "[37, 100, 45, 37, 120, 37, 99] :: u8 list" and ?as = "[0xfffffff9, 255, 33] :: u32 list"
  have r: "render (\<lambda>_. None) ?fmt ?as = Some (ascii ''-7-FF!'')" by code_simp
  have s: "strings_of printf_memory (\<lambda>_. None)" by (simp add: strings_of_def)
  have c: "c_string printf_memory (unat (4 :: u32)) ?fmt" by code_simp
  have a: "args_at printf_memory (unat (12 :: u32)) ?as" unfolding args_at_def by code_simp
  have l: "length (ascii ''-7-FF!'') = 6" by (simp add: ascii_def)
  have "m3_libc_printf 0 (printf_vm, []) = Inr (printf_vm\<lparr>vm_stack := (vm_stack printf_vm)[0 := of_nat (length (ascii ''-7-FF!''))]\<rparr>, [] @ ascii ''-7-FF!'')"
    by (rule printf_renders [OF printf_memory_is s _ _ _ _ c _ a r]) (simp_all add: printf_vm_def l)
  then show ?thesis by (simp add: l) (simp add: printf_vm_def)
qed

text \<open>C35: a format that ends in a percent sign makes \<^verbatim>\<open>printf\<close> read behind the format's zero byte. The
  conversion takes that zero as its character, prints it, and the loop goes on behind it: when the
  string is at the end of the linear memory, the next read is outside, although the format passed
  both checks.\<close>

theorem printf_reads_past_format:
  assumes "memory_is vm bs" "sp + 4 < length (vm_stack vm)" "i_fmt = vm_stack vm ! (sp + 2)" "i_fmt \<noteq> 0"
    and "c_string bs (unat i_fmt) (fmt @ [37])" "37 \<notin> set fmt" "length fmt < 1023" "unat i_fmt + length fmt + 2 = length bs"
  shows "m3_libc_printf sp (vm, out) = Inl (C_undefined, (vm, out @ fmt @ [0]))"
proof -
  have loop: "printf_loop vm p q out l = Inl (C_undefined, (vm, out @ fmt @ [0]))"
    if "c_string bs p (fmt @ [37])" "37 \<notin> set fmt" "p + length fmt + 2 = length bs" "unat l + length fmt + 1 < 2 ^ 31" for fmt p q l out
    using that
  proof (induction fmt arbitrary: p l out)
    case Nil
    have c: "c_string bs p [37]" using Nil(1) by simp
    note C = c_string_Cons [OF c] and Z = c_string_Nil [OF c_string_Cons(4) [OF c]]
    have "printf_conversion vm 0 q out l = Inr (q, out @ [0], l + 1)"
      using length_inc_ok [of l] Nil(4) by (simp add: printf_conversion_def)
    moreover have "printf_loop vm (p + 2) q (out @ [0]) (l + 1) = Inl (C_undefined, (vm, out @ [0]))"
      using byte_at_beyond [OF assms(1), of "p + 2"] Nil(3) by (subst printf_loop.simps) simp
    ultimately show ?case
      using byte_at_mem [OF assms(1) C(1)] byte_at_mem [OF assms(1) conjunct1 [OF Z]] C(2) Z by (simp add: printf_loop.simps [of vm p])
  next
    case (Cons c fmt)
    have cs: "c_string bs p (c # fmt @ [37])" using Cons(2) by simp
    note C = c_string_Cons [OF cs]
    have "printf_loop vm (p + 1) q (out @ [c]) (l + 1) = Inl (C_undefined, (vm, (out @ [c]) @ fmt @ [0]))"
      using Cons(3-5) unat_add_length [of l 1] by (intro Cons(1) [OF C(4)]) simp_all
    then show ?case using byte_at_mem [OF assms(1) C(1)] C(2,3) Cons(3,5) length_inc_ok [of l] by (simp add: printf_loop.simps [of vm p])
  qed
  have n: "host_strnlen vm (unat i_fmt) 1024 = Inr (length fmt + 1)"
    using assms(1,5,7) strnlen_string [of "unat i_fmt" "fmt @ [37]" bs 1024] by (auto simp: c_string_def host_strnlen_def with_mem_def memory_is_def)
  have "unat i_fmt \<noteq> 0" using assms(4) by (simp add: unat_eq_zero)
  then show ?thesis
    using get_arg_mem [of sp 1 vm i_fmt] arg_mem_ok [of sp 2 vm] assms(2,3,8) n loop [OF assms(5,6,8), of 0] assms(7)
    by (simp add: m3_libc_printf_def m3ApiIsNullPtr_def check_mem_pair [OF assms(1)])
qed

definition percent_vm :: vm where
  "percent_vm = \<lparr>vm_stack = [0, 0, 4, 0, 0, 0],
     vm_memory = \<lparr>mallocated = Some \<lparr>mh_length = 7, mh_data = [0, 0, 0, 0, 97, 37, 0]\<rparr>, numPages = 1, maxPages = 1, pageSize = 7\<rparr>, vm_globals = []\<rparr>"

theorem printf_reads_past_format_witness: "m3_libc_printf 0 (percent_vm, []) = Inl (C_undefined, (percent_vm, [97, 0]))"
proof -
  have m: "memory_is percent_vm [0, 0, 0, 0, 97, 37, 0]" by (simp add: memory_is_def percent_vm_def hdr_ok_def)
  have c: "c_string [0, 0, 0, 0, 97, 37, 0] (unat (4 :: u32)) ([97] @ [37])" by code_simp
  have "m3_libc_printf 0 (percent_vm, []) = Inl (C_undefined, (percent_vm, [] @ [97] @ [0]))"
    by (rule printf_reads_past_format [OF m _ _ _ c]) (simp_all add: percent_vm_def)
  then show ?thesis by simp
qed

section \<open>The memory functions\<close>

lemma memset_exact:
  assumes "memory_is vm bs" "sp + 6 < length (vm_stack vm)"
    and "p = vm_stack vm ! (sp + 2)" "v = vm_stack vm ! (sp + 4)" "n = vm_stack vm ! (sp + 6)"
  shows "m3_libc_memset sp (vm, out) =
    (if unat p + unat n \<le> length bs
     then Inr ((put_data vm (overwrite bs (unat p) (replicate (unat n) (ucast v)))) \<lparr>vm_stack := (vm_stack vm)[sp := p]\<rparr>, out)
     else Inl (m3Err_trapOutOfBoundsMemoryAccess, (vm, out)))"
  using get_arg_mem [of sp 1 vm p] get_arg32 [of sp 2 vm v] get_arg32 [of sp 3 vm n] assms(2-)
  by (simp add: m3_libc_memset_def check_mem_pair [OF assms(1)] host_write_mem [OF assms(1)] return_ok)

lemma memmove_exact:
  assumes "memory_is vm bs" "sp + 6 < length (vm_stack vm)"
    and "d = vm_stack vm ! (sp + 2)" "p = vm_stack vm ! (sp + 4)" "n = vm_stack vm ! (sp + 6)"
  shows "m3_libc_memmove sp (vm, out) =
    (if unat d + unat n \<le> length bs \<and> unat p + unat n \<le> length bs
     then Inr ((put_data vm (overwrite bs (unat d) (take (unat n) (drop (unat p) bs)))) \<lparr>vm_stack := (vm_stack vm)[sp := d]\<rparr>, out)
     else Inl (m3Err_trapOutOfBoundsMemoryAccess, (vm, out)))"
  using get_arg_mem [of sp 1 vm d] get_arg_mem [of sp 2 vm p] get_arg32 [of sp 3 vm n] assms(2-)
  by (simp add: m3_libc_memmove_def check_mem_pair [OF assms(1)] host_read_mem [OF assms(1)] host_write_mem [OF assms(1)] return_ok)

end
