(* ===== verification/M3_Wasi.thy ===== *)
theory M3_Wasi
  imports M3_Host
begin

text \<open>
  The host functions of \<^verbatim>\<open>src/m3_api_wasi.c\<close> as compiled on Linux. The constants of \<^verbatim>\<open>wasi_core.h\<close>, which is
  not part of the repository, the flag bits of the C library and the system calls are the parameter
  \<open>H\<close>; a system call maps the world \<open>'w\<close> to its answer and the new world. The strings of a context and of
  the table of preopened directories are without their zero byte. \<open>vla_limit\<close> is the number of entries
  for which a variable-length array of \<^verbatim>\<open>struct iovec\<close> has room on the C stack: a longer one, and one
  without entries, is undefined. A call of \<^verbatim>\<open>fstat\<close> that fails gives \<open>None\<close>.
\<close>

unbundle bit_operations_syntax

section \<open>Parameters and state\<close>

datatype host_errno =
    EPERM | ENOENT | ESRCH | EINTR | EIO | ENXIO | E2BIG | ENOEXEC | EBADF | ECHILD | EAGAIN |
    ENOMEM | EACCES | EFAULT | EBUSY | EEXIST | EXDEV | ENODEV | ENOTDIR | EISDIR | EINVAL | ENFILE
    | EMFILE | ENOTTY | ETXTBSY | EFBIG | ENOSPC | ESPIPE | EROFS | EMLINK | EPIPE | EDOM | ERANGE |
    E_other nat

datatype wasi_errno =
    ERRNO_SUCCESS | ERRNO_PERM | ERRNO_NOENT | ERRNO_SRCH | ERRNO_INTR | ERRNO_IO | ERRNO_NXIO |
    ERRNO_2BIG | ERRNO_NOEXEC | ERRNO_BADF | ERRNO_CHILD | ERRNO_AGAIN | ERRNO_NOMEM | ERRNO_ACCES |
    ERRNO_FAULT | ERRNO_BUSY | ERRNO_EXIST | ERRNO_XDEV | ERRNO_NODEV | ERRNO_NOTDIR | ERRNO_ISDIR |
    ERRNO_INVAL | ERRNO_NFILE | ERRNO_MFILE | ERRNO_NOTTY | ERRNO_TXTBSY | ERRNO_FBIG | ERRNO_NOSPC
    | ERRNO_SPIPE | ERRNO_ROFS | ERRNO_MLINK | ERRNO_PIPE | ERRNO_DOM | ERRNO_RANGE

datatype whence = SEEK_SET | SEEK_CUR | SEEK_END

datatype clock = CLOCK_MONOTONIC | CLOCK_PROCESS_CPUTIME_ID | CLOCK_REALTIME | CLOCK_THREAD_CPUTIME_ID

datatype file_kind = S_BLK | S_CHR | S_DIR | S_REG | S_LNK | S_other

record 'w wasi_host =
  errno_value :: "wasi_errno \<Rightarrow> u32"
  clockid :: "clock \<Rightarrow> u32"
  filetype :: "file_kind \<Rightarrow> u8"
  PREOPENTYPE_DIR :: u32
  FDFLAGS_APPEND :: u16
  FDFLAGS_DSYNC :: u16
  FDFLAGS_NONBLOCK :: u16
  FDFLAGS_SYNC :: u16
  OFLAGS_CREAT :: u16
  OFLAGS_EXCL :: u16
  OFLAGS_TRUNC :: u16
  RIGHTS_FD_READ :: u64
  RIGHTS_FD_WRITE :: u64
  RIGHTS_FD_SEEK :: u64
  RIGHTS_FD_TELL :: u64
  O_CREAT :: u32
  O_EXCL :: u32
  O_TRUNC :: u32
  O_APPEND :: u32
  O_DSYNC :: u32
  O_NONBLOCK :: u32
  O_SYNC :: u32
  O_RDWR :: u32
  O_WRONLY :: u32
  O_RDONLY :: u32
  vla_limit :: nat
  os_errno :: "'w \<Rightarrow> host_errno"
  os_open :: "u8 list \<Rightarrow> 'w \<Rightarrow> int \<times> 'w"
  os_openat :: "int \<Rightarrow> u8 list \<Rightarrow> u32 \<Rightarrow> nat \<Rightarrow> 'w \<Rightarrow> int \<times> 'w"
  os_fcntl_getfl :: "u32 \<Rightarrow> 'w \<Rightarrow> int \<times> 'w"
  os_fstat :: "u32 \<Rightarrow> 'w \<Rightarrow> file_kind option \<times> 'w"
  os_lseek :: "u32 \<Rightarrow> u64 \<Rightarrow> whence \<Rightarrow> 'w \<Rightarrow> int \<times> 'w"
  os_readv :: "u32 \<Rightarrow> nat list \<Rightarrow> 'w \<Rightarrow> (int \<times> u8 list) \<times> 'w"
  os_writev :: "u32 \<Rightarrow> u8 list list \<Rightarrow> 'w \<Rightarrow> int \<times> 'w"
  os_close :: "u32 \<Rightarrow> 'w \<Rightarrow> int \<times> 'w"
  os_fdatasync :: "u32 \<Rightarrow> 'w \<Rightarrow> int \<times> 'w"
  os_getrandom :: "nat \<Rightarrow> 'w \<Rightarrow> (int \<times> u8 list) \<times> 'w"
  os_clock_getres :: "clock \<Rightarrow> 'w \<Rightarrow> (int \<times> int \<times> int) \<times> 'w"
  os_clock_gettime :: "clock \<Rightarrow> 'w \<Rightarrow> (int \<times> int \<times> int) \<times> 'w"

record m3_wasi_context =
  exit_code :: u32
  argc :: u32
  argv :: "u8 list list"

record 'w wasi_state =
  wasi_context :: "m3_wasi_context option"
  preopen_fd :: "int list"
  world :: 'w

type_synonym 'w wasi_run = "'w wasi_state host_state \<Rightarrow> ('w wasi_state, 'w wasi_state host_state) hosted"

type_synonym 'w wasi_function = "nat \<Rightarrow> 'w wasi_run"

abbreviation (input) PREOPEN_CNT :: nat where "PREOPEN_CNT \<equiv> 5"

definition preopen_path :: "u8 list list" where
  "preopen_path = map ascii [''<stdin>'', ''<stdout>'', ''<stderr>'', ''/'', ''./'']"

definition preopen_real_path :: "u8 list list" where
  "preopen_real_path = map ascii [[], [], [], ''.'', ''.'']"

definition zero_preopen_fd :: "int list" where
  "zero_preopen_fd = [0, 1, 2, - 1, - 1]"

section \<open>Conversions\<close>

fun errno_to_wasi :: "host_errno \<Rightarrow> wasi_errno" where
  "errno_to_wasi EPERM = ERRNO_PERM"
| "errno_to_wasi ENOENT = ERRNO_NOENT"
| "errno_to_wasi ESRCH = ERRNO_SRCH"
| "errno_to_wasi EINTR = ERRNO_INTR"
| "errno_to_wasi EIO = ERRNO_IO"
| "errno_to_wasi ENXIO = ERRNO_NXIO"
| "errno_to_wasi E2BIG = ERRNO_2BIG"
| "errno_to_wasi ENOEXEC = ERRNO_NOEXEC"
| "errno_to_wasi EBADF = ERRNO_BADF"
| "errno_to_wasi ECHILD = ERRNO_CHILD"
| "errno_to_wasi EAGAIN = ERRNO_AGAIN"
| "errno_to_wasi ENOMEM = ERRNO_NOMEM"
| "errno_to_wasi EACCES = ERRNO_ACCES"
| "errno_to_wasi EFAULT = ERRNO_FAULT"
| "errno_to_wasi EBUSY = ERRNO_BUSY"
| "errno_to_wasi EEXIST = ERRNO_EXIST"
| "errno_to_wasi EXDEV = ERRNO_XDEV"
| "errno_to_wasi ENODEV = ERRNO_NODEV"
| "errno_to_wasi ENOTDIR = ERRNO_NOTDIR"
| "errno_to_wasi EISDIR = ERRNO_ISDIR"
| "errno_to_wasi EINVAL = ERRNO_INVAL"
| "errno_to_wasi ENFILE = ERRNO_NFILE"
| "errno_to_wasi EMFILE = ERRNO_MFILE"
| "errno_to_wasi ENOTTY = ERRNO_NOTTY"
| "errno_to_wasi ETXTBSY = ERRNO_TXTBSY"
| "errno_to_wasi EFBIG = ERRNO_FBIG"
| "errno_to_wasi ENOSPC = ERRNO_NOSPC"
| "errno_to_wasi ESPIPE = ERRNO_SPIPE"
| "errno_to_wasi EROFS = ERRNO_ROFS"
| "errno_to_wasi EMLINK = ERRNO_MLINK"
| "errno_to_wasi EPIPE = ERRNO_PIPE"
| "errno_to_wasi EDOM = ERRNO_DOM"
| "errno_to_wasi ERANGE = ERRNO_RANGE"
| "errno_to_wasi (E_other n) = ERRNO_INVAL"

definition convert_clockid :: "'w wasi_host \<Rightarrow> u32 \<Rightarrow> clock option" where
  "convert_clockid H clk =
    (if clk = clockid H CLOCK_MONOTONIC then Some CLOCK_MONOTONIC
     else if clk = clockid H CLOCK_PROCESS_CPUTIME_ID then Some CLOCK_PROCESS_CPUTIME_ID
     else if clk = clockid H CLOCK_REALTIME then Some CLOCK_REALTIME
     else if clk = clockid H CLOCK_THREAD_CPUTIME_ID then Some CLOCK_THREAD_CPUTIME_ID
     else None)"

text \<open>\<^verbatim>\<open>tv_sec\<close> and \<^verbatim>\<open>tv_nsec\<close> are signed 64-bit values.\<close>

definition convert_timespec :: "int \<Rightarrow> int \<Rightarrow> u64" where
  "convert_timespec tv_sec tv_nsec =
    (if tv_sec < 0 then 0
     else if (of_int tv_sec :: u64) \<ge> 0xffffffffffffffff div 1000000000 then 0xffffffffffffffff
     else of_int tv_sec * 1000000000 + of_int tv_nsec)"

definition wasi_return :: "'w wasi_host \<Rightarrow> nat \<Rightarrow> wasi_errno \<Rightarrow> 'w wasi_run" where
  "wasi_return H sp e s = m3ApiReturn sp (errno_value H e) s"

text \<open>\<^verbatim>\<open>errno\<close> after a call that failed.\<close>

definition return_errno :: "'w wasi_host \<Rightarrow> nat \<Rightarrow> 'w wasi_run" where
  "return_errno H sp s = wasi_return H sp (errno_to_wasi (os_errno H (world (snd s)))) s"

text \<open>A system call moves the world; a write changes the machine.\<close>

definition in_world :: "'w \<Rightarrow> 'w wasi_state host_state \<Rightarrow> 'w wasi_state host_state" where
  "in_world w s = (fst s, (snd s)\<lparr>world := w\<rparr>)"

definition writing :: "(vm \<Rightarrow> vm result) \<Rightarrow> 'w wasi_run \<Rightarrow> 'w wasi_run" where
  "writing f k s = tryR (at_state s (f (fst s))) (\<lambda>vm. k (vm, snd s))"

section \<open>Arguments and environment\<close>

primrec args_get_loop :: "nat \<Rightarrow> u8 list list \<Rightarrow> nat \<Rightarrow> nat \<Rightarrow> 'w wasi_run" where
  "args_get_loop 0 as argv_p argv_buf s = Inr s"
| "args_get_loop (Suc n) as argv_p argv_buf s =
    (case as of
       [] \<Rightarrow> Inl (C_undefined, s)
     | a # as \<Rightarrow>
         writing (\<lambda>vm. m3ApiWriteMem32 vm argv_p (m3ApiPtrToOffset argv_buf)) (\<lambda>s.
           m3ApiCheckMem argv_buf (length a) s
             (writing (\<lambda>vm. host_write vm argv_buf a)
               (writing (\<lambda>vm. host_write vm (argv_buf + length a) [0])
                 (args_get_loop n as (argv_p + 4) (argv_buf + length a + 1))) s)) s)"

definition m3_wasi_generic_args_get :: "'w wasi_host \<Rightarrow> 'w wasi_function" where
  "m3_wasi_generic_args_get H sp s =
    tryR (at_state s (m3ApiGetArgMem sp 1 (fst s))) (\<lambda>argv_p.
    tryR (at_state s (m3ApiGetArgMem sp 2 (fst s))) (\<lambda>argv_buf.
    case wasi_context (snd s) of
      None \<Rightarrow> wasi_return H sp ERRNO_INVAL s
    | Some context \<Rightarrow>
        m3ApiCheckMem argv_p (unat (argc context) * 4) s
          (tryR (args_get_loop (unat (argc context)) (argv context) argv_p argv_buf s) (wasi_return H sp ERRNO_SUCCESS))))"

primrec args_size :: "nat \<Rightarrow> u8 list list \<Rightarrow> u32 result" where
  "args_size 0 as = Inr 0"
| "args_size (Suc n) as =
    (case as of [] \<Rightarrow> Inl C_undefined | a # as \<Rightarrow> tryR (args_size n as) (\<lambda>l. Inr (of_nat (length a + 1) + l)))"

definition m3_wasi_generic_args_sizes_get :: "'w wasi_host \<Rightarrow> 'w wasi_function" where
  "m3_wasi_generic_args_sizes_get H sp s =
    tryR (at_state s (m3ApiGetArgMem sp 1 (fst s))) (\<lambda>argc_p.
    tryR (at_state s (m3ApiGetArgMem sp 2 (fst s))) (\<lambda>argv_buf_size.
    m3ApiCheckMem argc_p 4 s (m3ApiCheckMem argv_buf_size 4 s
      (case wasi_context (snd s) of
         None \<Rightarrow> wasi_return H sp ERRNO_INVAL s
       | Some context \<Rightarrow>
           tryR (at_state s (args_size (unat (argc context)) (argv context))) (\<lambda>buf_len.
           writing (\<lambda>vm. m3ApiWriteMem32 vm argc_p (argc context))
             (writing (\<lambda>vm. m3ApiWriteMem32 vm argv_buf_size buf_len) (wasi_return H sp ERRNO_SUCCESS)) s)))))"

definition m3_wasi_generic_environ_get :: "'w wasi_host \<Rightarrow> 'w wasi_function" where
  "m3_wasi_generic_environ_get H sp s =
    tryR (at_state s (m3ApiGetArgMem sp 1 (fst s))) (\<lambda>env.
    tryR (at_state s (m3ApiGetArgMem sp 2 (fst s))) (\<lambda>env_buf.
    wasi_return H sp ERRNO_SUCCESS s))"

definition m3_wasi_generic_environ_sizes_get :: "'w wasi_host \<Rightarrow> 'w wasi_function" where
  "m3_wasi_generic_environ_sizes_get H sp s =
    tryR (at_state s (m3ApiGetArgMem sp 1 (fst s))) (\<lambda>env_count.
    tryR (at_state s (m3ApiGetArgMem sp 2 (fst s))) (\<lambda>env_buf_size.
    m3ApiCheckMem env_count 4 s (m3ApiCheckMem env_buf_size 4 s
      (writing (\<lambda>vm. m3ApiWriteMem32 vm env_count 0)
        (writing (\<lambda>vm. m3ApiWriteMem32 vm env_buf_size 0) (wasi_return H sp ERRNO_SUCCESS)) s))))"

section \<open>Descriptors\<close>

definition m3_wasi_generic_fd_prestat_dir_name :: "'w wasi_host \<Rightarrow> 'w wasi_function" where
  "m3_wasi_generic_fd_prestat_dir_name H sp s =
    tryR (at_state s (arg32 sp 1 (fst s))) (\<lambda>fd.
    tryR (at_state s (m3ApiGetArgMem sp 2 (fst s))) (\<lambda>path.
    tryR (at_state s (arg32 sp 3 (fst s))) (\<lambda>path_len.
    m3ApiCheckMem path (unat path_len) s
      (if unat fd < 3 \<or> unat fd \<ge> PREOPEN_CNT then wasi_return H sp ERRNO_BADF s
       else writing (\<lambda>vm. host_write vm path (take (unat path_len) (preopen_path ! unat fd @ [0]))) (wasi_return H sp ERRNO_SUCCESS) s))))"

definition m3_wasi_generic_fd_prestat_get :: "'w wasi_host \<Rightarrow> 'w wasi_function" where
  "m3_wasi_generic_fd_prestat_get H sp s =
    tryR (at_state s (arg32 sp 1 (fst s))) (\<lambda>fd.
    tryR (at_state s (m3ApiGetArgMem sp 2 (fst s))) (\<lambda>buf.
    m3ApiCheckMem buf 8 s
      (if unat fd < 3 \<or> unat fd \<ge> PREOPEN_CNT then wasi_return H sp ERRNO_BADF s
       else writing (\<lambda>vm. m3ApiWriteMem32 vm buf (PREOPENTYPE_DIR H))
              (writing (\<lambda>vm. m3ApiWriteMem32 vm (buf + 4) (of_nat (length (preopen_path ! unat fd) + 1)))
                (wasi_return H sp ERRNO_SUCCESS)) s)))"

text \<open>The fields of \<^verbatim>\<open>__wasi_fdstat_t\<close> are at 0, 2, 8 and 16 of its 24 bytes. The result of \<^verbatim>\<open>fstat\<close>
  is not looked at: when it fails, the mode is read from a structure that was never set.\<close>

definition fdstat_flags :: "'w wasi_host \<Rightarrow> int \<Rightarrow> u16" where
  "fdstat_flags H fl =
    (let flag = (\<lambda>b v. if (word_of_int fl :: u32) AND b \<noteq> 0 then v else 0) in
     flag (O_APPEND H) (FDFLAGS_APPEND H) OR flag (O_DSYNC H) (FDFLAGS_DSYNC H)
     OR flag (O_NONBLOCK H) (FDFLAGS_NONBLOCK H) OR flag (O_SYNC H) (FDFLAGS_SYNC H))"

definition m3_wasi_generic_fd_fdstat_get :: "'w wasi_host \<Rightarrow> 'w wasi_function" where
  "m3_wasi_generic_fd_fdstat_get H sp s =
    tryR (at_state s (arg32 sp 1 (fst s))) (\<lambda>fd.
    tryR (at_state s (m3ApiGetArgMem sp 2 (fst s))) (\<lambda>fdstat.
    m3ApiCheckMem fdstat 24 s
      (case os_fcntl_getfl H fd (world (snd s)) of (fl, w) \<Rightarrow>
         if fl < 0 then return_errno H sp (in_world w s)
         else
           (case os_fstat H fd w of
              (None, w) \<Rightarrow> Inl (C_undefined, in_world w s)
            | (Some mode, w) \<Rightarrow>
              writing (\<lambda>vm. host_write vm fdstat [if mode = S_other then 0 else filetype H mode])
                (writing (\<lambda>vm. m3ApiWriteMem16 vm (fdstat + 2) (fdstat_flags H fl))
                  (writing (\<lambda>vm. m3ApiWriteMem64 vm (fdstat + 8)
                      (if fd \<le> 2 then NOT (RIGHTS_FD_SEEK H OR RIGHTS_FD_TELL H) else - 1))
                    (writing (\<lambda>vm. m3ApiWriteMem64 vm (fdstat + 16) (- 1))
                      (wasi_return H sp ERRNO_SUCCESS)))) (in_world w s)))))"

definition m3_wasi_generic_fd_fdstat_set_flags :: "'w wasi_host \<Rightarrow> 'w wasi_function" where
  "m3_wasi_generic_fd_fdstat_set_flags H sp s =
    tryR (at_state s (arg32 sp 1 (fst s))) (\<lambda>fd.
    tryR (at_state s (arg32 sp 2 (fst s))) (\<lambda>flags.
    wasi_return H sp ERRNO_SUCCESS s))"

text \<open>The two versions differ in the numbering of \<^verbatim>\<open>whence\<close>.\<close>

definition unstable_whence :: "u32 \<Rightarrow> whence option" where
  "unstable_whence v = (if v = 0 then Some SEEK_CUR else if v = 1 then Some SEEK_END else if v = 2 then Some SEEK_SET else None)"

definition preview1_whence :: "u32 \<Rightarrow> whence option" where
  "preview1_whence v = (if v = 0 then Some SEEK_SET else if v = 1 then Some SEEK_CUR else if v = 2 then Some SEEK_END else None)"

definition fd_seek :: "(u32 \<Rightarrow> whence option) \<Rightarrow> 'w wasi_host \<Rightarrow> 'w wasi_function" where
  "fd_seek whence_of H sp s =
    tryR (at_state s (arg32 sp 1 (fst s))) (\<lambda>fd.
    tryR (at_state s (m3ApiGetArg T_i64 sp 2 (fst s))) (\<lambda>offset.
    tryR (at_state s (arg32 sp 3 (fst s))) (\<lambda>wasi_whence.
    tryR (at_state s (m3ApiGetArgMem sp 4 (fst s))) (\<lambda>result.
    m3ApiCheckMem result 8 s
      (case whence_of wasi_whence of
         None \<Rightarrow> wasi_return H sp ERRNO_INVAL s
       | Some whence \<Rightarrow>
           (case os_lseek H fd offset whence (world (snd s)) of (ret, w) \<Rightarrow>
              if ret < 0 then return_errno H sp (in_world w s)
              else writing (\<lambda>vm. m3ApiWriteMem64 vm result (of_int ret)) (wasi_return H sp ERRNO_SUCCESS) (in_world w s)))))))"

definition m3_wasi_unstable_fd_seek :: "'w wasi_host \<Rightarrow> 'w wasi_function" where
  "m3_wasi_unstable_fd_seek = fd_seek unstable_whence"

definition m3_wasi_snapshot_preview1_fd_seek :: "'w wasi_host \<Rightarrow> 'w wasi_function" where
  "m3_wasi_snapshot_preview1_fd_seek = fd_seek preview1_whence"

section \<open>Opening\<close>

definition open_flags :: "'w wasi_host \<Rightarrow> u16 \<Rightarrow> u16 \<Rightarrow> u64 \<Rightarrow> u32" where
  "open_flags H oflags fs_flags fs_rights_base =
    (let oflag = (\<lambda>b v. if oflags AND b \<noteq> 0 then v else 0); fdflag = (\<lambda>b v. if fs_flags AND b \<noteq> 0 then v else 0);
         flags = oflag (OFLAGS_CREAT H) (O_CREAT H) OR oflag (OFLAGS_EXCL H) (O_EXCL H) OR oflag (OFLAGS_TRUNC H) (O_TRUNC H)
           OR fdflag (FDFLAGS_APPEND H) (O_APPEND H) OR fdflag (FDFLAGS_DSYNC H) (O_DSYNC H)
           OR fdflag (FDFLAGS_NONBLOCK H) (O_NONBLOCK H) OR fdflag (FDFLAGS_SYNC H) (O_SYNC H);
         r = (fs_rights_base AND RIGHTS_FD_READ H \<noteq> 0); w = (fs_rights_base AND RIGHTS_FD_WRITE H \<noteq> 0) in
     if r \<and> w then flags OR O_RDWR H
     else if w then flags OR O_WRONLY H
     else if r then flags OR O_RDONLY H
     else flags)"

text \<open>The path ends at its first zero byte; \<^verbatim>\<open>0644\<close> is the mode; a \<^verbatim>\<open>dirfd\<close> outside the table is not caught.\<close>

definition m3_wasi_generic_path_open :: "'w wasi_host \<Rightarrow> 'w wasi_function" where
  "m3_wasi_generic_path_open H sp s =
    tryR (at_state s (arg32 sp 1 (fst s))) (\<lambda>dirfd.
    tryR (at_state s (arg32 sp 2 (fst s))) (\<lambda>dirflags.
    tryR (at_state s (m3ApiGetArgMem sp 3 (fst s))) (\<lambda>path.
    tryR (at_state s (arg32 sp 4 (fst s))) (\<lambda>path_len.
    tryR (at_state s (arg32 sp 5 (fst s))) (\<lambda>oflags.
    tryR (at_state s (m3ApiGetArg T_i64 sp 6 (fst s))) (\<lambda>fs_rights_base.
    tryR (at_state s (m3ApiGetArg T_i64 sp 7 (fst s))) (\<lambda>fs_rights_inheriting.
    tryR (at_state s (arg32 sp 8 (fst s))) (\<lambda>fs_flags.
    tryR (at_state s (m3ApiGetArgMem sp 9 (fst s))) (\<lambda>fd.
    m3ApiCheckMem path (unat path_len) s (m3ApiCheckMem fd 4 s
      (if unat path_len \<ge> 512 then wasi_return H sp ERRNO_INVAL s
       else
         tryR (at_state s (host_read (fst s) path (unat path_len))) (\<lambda>host_path.
         if unat dirfd < PREOPEN_CNT then
           (case os_openat H (preopen_fd (snd s) ! unat dirfd) (cstr host_path)
                   (open_flags H (ucast oflags) (ucast fs_flags) fs_rights_base) 0x1a4 (world (snd s)) of
              (host_fd, w) \<Rightarrow>
                if host_fd < 0 then return_errno H sp (in_world w s)
                else writing (\<lambda>vm. m3ApiWriteMem32 vm fd (of_int host_fd)) (wasi_return H sp ERRNO_SUCCESS) (in_world w s))
         else Inl (C_undefined, s)))))))))))))"

section \<open>Reading and writing\<close>

text \<open>\<^verbatim>\<open>copy_iov_to_host\<close>: the addresses and lengths of the buffers, each checked.\<close>

primrec copy_iov_to_host :: "nat \<Rightarrow> nat \<Rightarrow> 'w wasi_state host_state \<Rightarrow> ('w wasi_state, (nat \<times> nat) list) hosted" where
  "copy_iov_to_host 0 p s = Inr []"
| "copy_iov_to_host (Suc n) p s =
    tryR (at_state s (m3ApiReadMem32 (fst s) p)) (\<lambda>iov_base.
    tryR (at_state s (m3ApiReadMem32 (fst s) (p + 4))) (\<lambda>iov_len.
    m3ApiCheckMem (unat iov_base) (unat iov_len) s
      (tryR (copy_iov_to_host n (p + 8) s) (\<lambda>iovs. Inr ((unat iov_base, unat iov_len) # iovs)))))"

text \<open>\<^verbatim>\<open>readv\<close> fills the buffers in their order, \<^verbatim>\<open>writev\<close> takes their bytes.\<close>

primrec scatter_iov :: "(nat \<times> nat) list \<Rightarrow> u8 list \<Rightarrow> vm \<Rightarrow> vm result" where
  "scatter_iov [] bs vm = Inr vm"
| "scatter_iov (iov # iovs) bs vm =
    tryR (host_write vm (fst iov) (take (snd iov) bs)) (scatter_iov iovs (drop (snd iov) bs))"

primrec gather_iov :: "(nat \<times> nat) list \<Rightarrow> vm \<Rightarrow> u8 list list result" where
  "gather_iov [] vm = Inr []"
| "gather_iov (iov # iovs) vm =
    tryR (host_read vm (fst iov) (snd iov)) (\<lambda>bs. tryR (gather_iov iovs vm) (\<lambda>bss. Inr (bs # bss)))"

text \<open>\<^verbatim>\<open>struct iovec iovs[iovs_len]\<close>: an array of no entries, or of more than the C stack has room for,
  is undefined.\<close>

definition with_iovecs :: "'w wasi_host \<Rightarrow> u32 \<Rightarrow> 'w wasi_run \<Rightarrow> 'w wasi_run" where
  "with_iovecs H iovs_len k s = (if 0 < iovs_len \<and> unat iovs_len \<le> vla_limit H then k s else Inl (C_undefined, s))"

definition m3_wasi_generic_fd_read :: "'w wasi_host \<Rightarrow> 'w wasi_function" where
  "m3_wasi_generic_fd_read H sp s =
    tryR (at_state s (arg32 sp 1 (fst s))) (\<lambda>fd.
    tryR (at_state s (m3ApiGetArgMem sp 2 (fst s))) (\<lambda>wasi_iovs.
    tryR (at_state s (arg32 sp 3 (fst s))) (\<lambda>iovs_len.
    tryR (at_state s (m3ApiGetArgMem sp 4 (fst s))) (\<lambda>nread.
    m3ApiCheckMem wasi_iovs (unat iovs_len * 8) s (m3ApiCheckMem nread 4 s
      (with_iovecs H iovs_len (\<lambda>s. tryR (copy_iov_to_host (unat iovs_len) wasi_iovs s) (\<lambda>iovs.
       case os_readv H fd (map snd iovs) (world (snd s)) of ((ret, bs), w) \<Rightarrow>
         if ret < 0 then return_errno H sp (in_world w s)
         else writing (scatter_iov iovs bs)
                (writing (\<lambda>vm. m3ApiWriteMem32 vm nread (of_int ret)) (wasi_return H sp ERRNO_SUCCESS)) (in_world w s))) s))))))"

definition m3_wasi_generic_fd_write :: "'w wasi_host \<Rightarrow> 'w wasi_function" where
  "m3_wasi_generic_fd_write H sp s =
    tryR (at_state s (arg32 sp 1 (fst s))) (\<lambda>fd.
    tryR (at_state s (m3ApiGetArgMem sp 2 (fst s))) (\<lambda>wasi_iovs.
    tryR (at_state s (arg32 sp 3 (fst s))) (\<lambda>iovs_len.
    tryR (at_state s (m3ApiGetArgMem sp 4 (fst s))) (\<lambda>nwritten.
    m3ApiCheckMem wasi_iovs (unat iovs_len * 8) s (m3ApiCheckMem nwritten 4 s
      (with_iovecs H iovs_len (\<lambda>s. tryR (copy_iov_to_host (unat iovs_len) wasi_iovs s) (\<lambda>iovs.
       tryR (at_state s (gather_iov iovs (fst s))) (\<lambda>bss.
       case os_writev H fd bss (world (snd s)) of (ret, w) \<Rightarrow>
         if ret < 0 then return_errno H sp (in_world w s)
         else writing (\<lambda>vm. m3ApiWriteMem32 vm nwritten (of_int ret)) (wasi_return H sp ERRNO_SUCCESS) (in_world w s)))) s))))))"

text \<open>A failed call gives its \<open>-1\<close> to the module, not the error number.\<close>

definition return_ret :: "'w wasi_host \<Rightarrow> nat \<Rightarrow> int \<Rightarrow> 'w wasi_run" where
  "return_ret H sp ret s = (if ret = 0 then wasi_return H sp ERRNO_SUCCESS s else m3ApiReturn sp (of_int ret) s)"

definition m3_wasi_generic_fd_close :: "'w wasi_host \<Rightarrow> 'w wasi_function" where
  "m3_wasi_generic_fd_close H sp s =
    tryR (at_state s (arg32 sp 1 (fst s))) (\<lambda>fd.
    case os_close H fd (world (snd s)) of (ret, w) \<Rightarrow> return_ret H sp ret (in_world w s))"

definition m3_wasi_generic_fd_datasync :: "'w wasi_host \<Rightarrow> 'w wasi_function" where
  "m3_wasi_generic_fd_datasync H sp s =
    tryR (at_state s (arg32 sp 1 (fst s))) (\<lambda>fd.
    case os_fdatasync H fd (world (snd s)) of (ret, w) \<Rightarrow> return_ret H sp ret (in_world w s))"

section \<open>Random bytes and clocks\<close>

text \<open>
  The loop runs until all bytes are there; \<^verbatim>\<open>getrandom\<close> may give fewer, or be interrupted. One unit of
  fuel for a call of it.
\<close>

primrec random_loop :: "nat \<Rightarrow> 'w wasi_host \<Rightarrow> nat \<Rightarrow> nat \<Rightarrow> nat \<Rightarrow> 'w wasi_state host_state
    \<Rightarrow> ('w wasi_state, 'w wasi_state host_state) hosted option" where
  "random_loop 0 H sp buf buf_len s = None"
| "random_loop (Suc fuel) H sp buf buf_len s =
    (case os_getrandom H buf_len (world (snd s)) of ((retlen, bs), w) \<Rightarrow>
       let s = in_world w s in
       if retlen < 0 then
         if os_errno H w = EINTR \<or> os_errno H w = EAGAIN then random_loop fuel H sp buf buf_len s
         else Some (return_errno H sp s)
       else
         (case host_write (fst s) buf (take (nat retlen) bs) of
            Inl e \<Rightarrow> Some (Inl (e, s))
          | Inr vm \<Rightarrow>
              if nat retlen = buf_len then Some (wasi_return H sp ERRNO_SUCCESS (vm, snd s))
              else random_loop fuel H sp (buf + nat retlen) (buf_len - nat retlen) (vm, snd s)))"

definition m3_wasi_generic_random_get :: "nat \<Rightarrow> 'w wasi_host \<Rightarrow> nat \<Rightarrow> 'w wasi_state host_state
    \<Rightarrow> ('w wasi_state, 'w wasi_state host_state) hosted option" where
  "m3_wasi_generic_random_get fuel H sp s =
    (case at_state s (m3ApiGetArgMem sp 1 (fst s)) of
       Inl e \<Rightarrow> Some (Inl e)
     | Inr buf \<Rightarrow> (case at_state s (arg32 sp 2 (fst s)) of
         Inl e \<Rightarrow> Some (Inl e)
       | Inr buf_len \<Rightarrow> (case m3ApiCheckMem buf (unat buf_len) s (Inr ()) of
           Inl e \<Rightarrow> Some (Inl e)
         | Inr _ \<Rightarrow> random_loop fuel H sp buf (unat buf_len) s)))"

definition m3_wasi_generic_clock_res_get :: "'w wasi_host \<Rightarrow> 'w wasi_function" where
  "m3_wasi_generic_clock_res_get H sp s =
    tryR (at_state s (arg32 sp 1 (fst s))) (\<lambda>wasi_clk_id.
    tryR (at_state s (m3ApiGetArgMem sp 2 (fst s))) (\<lambda>resolution.
    m3ApiCheckMem resolution 8 s
      (case convert_clockid H wasi_clk_id of
         None \<Rightarrow> wasi_return H sp ERRNO_INVAL s
       | Some clk \<Rightarrow>
           (case os_clock_getres H clk (world (snd s)) of ((ret, tv_sec, tv_nsec), w) \<Rightarrow>
              writing (\<lambda>vm. m3ApiWriteMem64 vm resolution (if ret \<noteq> 0 then 1000000 else convert_timespec tv_sec tv_nsec))
                (wasi_return H sp ERRNO_SUCCESS) (in_world w s)))))"

definition m3_wasi_generic_clock_time_get :: "'w wasi_host \<Rightarrow> 'w wasi_function" where
  "m3_wasi_generic_clock_time_get H sp s =
    tryR (at_state s (arg32 sp 1 (fst s))) (\<lambda>wasi_clk_id.
    tryR (at_state s (m3ApiGetArg T_i64 sp 2 (fst s))) (\<lambda>precision.
    tryR (at_state s (m3ApiGetArgMem sp 3 (fst s))) (\<lambda>time.
    m3ApiCheckMem time 8 s
      (case convert_clockid H wasi_clk_id of
         None \<Rightarrow> wasi_return H sp ERRNO_INVAL s
       | Some clk \<Rightarrow>
           (case os_clock_gettime H clk (world (snd s)) of ((ret, tv_sec, tv_nsec), w) \<Rightarrow>
              if ret \<noteq> 0 then return_errno H sp (in_world w s)
              else writing (\<lambda>vm. m3ApiWriteMem64 vm time (convert_timespec tv_sec tv_nsec))
                     (wasi_return H sp ERRNO_SUCCESS) (in_world w s))))))"

definition m3_wasi_generic_proc_exit :: "'w wasi_host \<Rightarrow> 'w wasi_function" where
  "m3_wasi_generic_proc_exit H sp s =
    tryR (at_state s (arg32 sp 0 (fst s))) (\<lambda>code.
    m3ApiTrap m3Err_trapExit (fst s, (snd s)\<lparr>wasi_context := map_option (exit_code_update (\<lambda>_. code)) (wasi_context (snd s))\<rparr>))"

section \<open>Linking\<close>

definition preopen_dirs :: "'w wasi_host \<Rightarrow> 'w wasi_state \<Rightarrow> 'w wasi_state" where
  "preopen_dirs H s =
    foldl (\<lambda>s i. case os_open H (preopen_real_path ! i) (world s) of (fd, w) \<Rightarrow>
      s\<lparr>preopen_fd := (preopen_fd s)[i := fd], world := w\<rparr>) s [3 ..< PREOPEN_CNT]"

definition seek_rows :: "'w wasi_host \<Rightarrow> (string \<times> string \<times> string \<times> 'w wasi_function) list" where
  "seek_rows H =
    [(''wasi_unstable'', ''fd_seek'', ''i(iIi*)'', m3_wasi_unstable_fd_seek H),
     (''wasi_snapshot_preview1'', ''fd_seek'', ''i(iIi*)'', m3_wasi_snapshot_preview1_fd_seek H)]"

definition wasi_rows :: "'w wasi_host \<Rightarrow> 'w wasi_function \<Rightarrow> string \<Rightarrow> (string \<times> string \<times> string \<times> 'w wasi_function) list" where
  "wasi_rows H random_get wasi =
    [(wasi, ''args_get'', ''i(**)'', m3_wasi_generic_args_get H),
     (wasi, ''args_sizes_get'', ''i(**)'', m3_wasi_generic_args_sizes_get H),
     (wasi, ''clock_res_get'', ''i(i*)'', m3_wasi_generic_clock_res_get H),
     (wasi, ''clock_time_get'', ''i(iI*)'', m3_wasi_generic_clock_time_get H),
     (wasi, ''environ_get'', ''i(**)'', m3_wasi_generic_environ_get H),
     (wasi, ''environ_sizes_get'', ''i(**)'', m3_wasi_generic_environ_sizes_get H),
     (wasi, ''fd_close'', ''i(i)'', m3_wasi_generic_fd_close H),
     (wasi, ''fd_datasync'', ''i(i)'', m3_wasi_generic_fd_datasync H),
     (wasi, ''fd_fdstat_get'', ''i(i*)'', m3_wasi_generic_fd_fdstat_get H),
     (wasi, ''fd_fdstat_set_flags'', ''i(ii)'', m3_wasi_generic_fd_fdstat_set_flags H),
     (wasi, ''fd_prestat_get'', ''i(i*)'', m3_wasi_generic_fd_prestat_get H),
     (wasi, ''fd_prestat_dir_name'', ''i(i*i)'', m3_wasi_generic_fd_prestat_dir_name H),
     (wasi, ''fd_read'', ''i(i*i*)'', m3_wasi_generic_fd_read H),
     (wasi, ''fd_write'', ''i(i*i*)'', m3_wasi_generic_fd_write H),
     (wasi, ''path_open'', ''i(ii*iiIIi*)'', m3_wasi_generic_path_open H),
     (wasi, ''proc_exit'', ''v(i)'', m3_wasi_generic_proc_exit H),
     (wasi, ''random_get'', ''i(*i)'', random_get)]"

text \<open>
  The context is allocated when there is none; a failed allocation is written through. The functions
  that need the context get it with the module's state here, so \<^verbatim>\<open>_ctx->userdata\<close> is the state's context.
\<close>

definition m3_LinkWASI :: "'w wasi_host \<Rightarrow> bool \<Rightarrow> (nat \<Rightarrow> bool) \<Rightarrow> ('w wasi_function \<Rightarrow> M3Function \<Rightarrow> M3Function result)
    \<Rightarrow> 'w wasi_function \<Rightarrow> type_pool \<Rightarrow> M3Module \<Rightarrow> 'w wasi_state \<Rightarrow> m3_error option \<times> M3Module \<times> 'w wasi_state" where
  "m3_LinkWASI H malloc_ok calloc_ok compile_raw random_get pool m s =
    (let s = preopen_dirs H s in
     if wasi_context s = None \<and> \<not> malloc_ok then (Some C_undefined, m, s)
     else
       let s = (if wasi_context s = None then s\<lparr>wasi_context := Some \<lparr>exit_code = 0, argc = 0, argv = []\<rparr>\<rparr> else s);
           rows = seek_rows H @ wasi_rows H random_get ''wasi_unstable'' @ wasi_rows H random_get ''wasi_snapshot_preview1'' in
       (case link_rows calloc_ok compile_raw pool rows m of (r, m) \<Rightarrow> (r, m, s)))"

end
