(* ===== verification/M3_Wasi_Props.thy ===== *)
theory M3_Wasi_Props
  imports M3_Wasi M3_Libc_Props
begin

text \<open>
  The WASI functions keep to the linear memory, with the two exceptions that the last theorems show:
  the terminating zero of an argument, and the table of directories. What \<^verbatim>\<open>args_get\<close> and \<^verbatim>\<open>fd_write\<close> pass on.
\<close>

section \<open>Safe calls\<close>

text \<open>\<open>s\<close> differs from the machine \<open>v\<close> only in the contents of memory and stack.\<close>

definition fine :: "vm \<Rightarrow> 'w wasi_state host_state \<Rightarrow> bool" where
  "fine v s \<longleftrightarrow> (\<exists>bs0 bs st. memory_is v bs0 \<and> length bs = length bs0 \<and> length st = length (vm_stack v)
     \<and> fst s = (put_data v bs)\<lparr>vm_stack := st\<rparr>)"

definition safe :: "vm \<Rightarrow> ('w wasi_state, 'w wasi_state host_state) hosted \<Rightarrow> bool" where
  "safe v r \<longleftrightarrow> (case r of Inl (e, s) \<Rightarrow> e \<noteq> C_undefined \<and> fine v s | Inr s \<Rightarrow> fine v s)"

lemma fine_facts:
  assumes "fine v s"
  shows "\<exists>bs. memory_is (fst s) bs \<and> length bs = memory_bytes v" "length (vm_stack (fst s)) = length (vm_stack v)"
  using assms by (auto simp: fine_def memory_bytes_def memory_is_def put_data_def set_mem_def hdr_ok_def)

lemma fineI:
  "memory_is v bs0 \<Longrightarrow> length bs = length bs0 \<Longrightarrow> length st = length (vm_stack v) \<Longrightarrow> fine v ((put_data v bs)\<lparr>vm_stack := st\<rparr>, w)"
  by (simp only: fine_def fst_conv) blast

lemma fine_start: "memory_is vm bs \<Longrightarrow> fine vm (vm, w)"
  unfolding fine_def by (intro exI [of _ bs] exI [of _ "vm_stack vm"]) (simp add: put_data_same)

lemma fine_world [simp]: "fine v (in_world w s) = fine v s" "fst (in_world w s) = fst s"
  by (simp_all add: fine_def in_world_def)

lemma fine_snd: "fine v (vm, w) \<Longrightarrow> fine v (vm, w')"
  by (simp add: fine_def)

named_theorems safe_intro \<open>safety of the steps of a host function\<close>

lemma safe_return [safe_intro]:
  assumes "fine v s" "sp < length (vm_stack v)"
  shows "safe v (m3ApiReturn sp x s)"
proof -
  obtain bs0 bs st where f: "memory_is v bs0" "length bs = length bs0" "length st = length (vm_stack v)"
    "fst s = (put_data v bs)\<lparr>vm_stack := st\<rparr>" using assms(1) by (auto simp: fine_def)
  have "m3ApiReturn sp x (fst s, snd s) = Inr ((put_data v bs)\<lparr>vm_stack := st[sp := x]\<rparr>, snd s)"
    using return_ok [of sp "fst s" x "snd s"] f assms(2) by simp
  then have "m3ApiReturn sp x s = Inr ((put_data v bs)\<lparr>vm_stack := st[sp := x]\<rparr>, snd s)" by simp
  then show ?thesis using fineI [OF f(1,2), of "st[sp := x]"] f(3) by (simp add: safe_def)
qed

lemma safe_wasi_return [safe_intro]:
  "fine v s \<Longrightarrow> sp < length (vm_stack v) \<Longrightarrow> safe v (wasi_return H sp e s)"
  "fine v s \<Longrightarrow> sp < length (vm_stack v) \<Longrightarrow> safe v (return_errno H sp s)"
  "fine v s \<Longrightarrow> sp < length (vm_stack v) \<Longrightarrow> safe v (return_ret H sp ret s)"
  by (simp_all add: wasi_return_def return_errno_def return_ret_def safe_return)

lemma safe_arg [safe_intro]:
  assumes "fine v s" "sp + 2 * k + 1 < length (vm_stack v)"
  shows "(\<And>x. safe v (f x)) \<Longrightarrow> safe v (tryR (at_state s (arg32 sp k (fst s))) f)"
    "(\<And>p. safe v (g p)) \<Longrightarrow> safe v (tryR (at_state s (m3ApiGetArgMem sp k (fst s))) g)"
    "(\<And>x. safe v (h x)) \<Longrightarrow> safe v (tryR (at_state s (m3ApiGetArg T_i64 sp k (fst s))) h)"
proof -
  have l: "sp + 2 * k + 1 < length (vm_stack (fst s))" using fine_facts(2) [OF assms(1)] assms(2) by simp
  then have "arg32 sp k (fst s) = Inr (vm_stack (fst s) ! (sp + 2 * k))" "m3ApiGetArgMem sp k (fst s) = Inr (unat (vm_stack (fst s) ! (sp + 2 * k)))"
    by (simp_all add: arg32_ok arg_mem_ok)
  then show "(\<And>x. safe v (f x)) \<Longrightarrow> safe v (tryR (at_state s (arg32 sp k (fst s))) f)"
    "(\<And>p. safe v (g p)) \<Longrightarrow> safe v (tryR (at_state s (m3ApiGetArgMem sp k (fst s))) g)" by (simp_all add: at_state_def)
  obtain x where "m3ApiGetArg T_i64 sp k (fst s) = Inr x" using arg64_ok [OF l] by blast
  then show "(\<And>x. safe v (h x)) \<Longrightarrow> safe v (tryR (at_state s (m3ApiGetArg T_i64 sp k (fst s))) h)" by (simp add: at_state_def)
qed

lemma safe_check [safe_intro]:
  assumes "fine v s" "p + n \<le> memory_bytes v \<Longrightarrow> safe v k"
  shows "safe v (m3ApiCheckMem p n s k)"
proof -
  obtain bs where bs: "memory_is (fst s) bs" "length bs = memory_bytes v" using fine_facts(1) [OF assms(1)] by blast
  show ?thesis using assms bs by (auto simp: check_mem [OF bs(1)] safe_def)
qed

lemma fine_write:
  fixes s :: "'w wasi_state host_state"
  assumes "fine v s" "p + length xs \<le> memory_bytes v"
  shows "\<exists>vm. host_write (fst s) p xs = Inr vm \<and> (\<forall>w :: 'w wasi_state. fine v (vm, w))"
proof -
  obtain bs0 bs st where f: "memory_is v bs0" "length bs = length bs0" "length st = length (vm_stack v)"
    "fst s = (put_data v bs)\<lparr>vm_stack := st\<rparr>" using assms(1) by (auto simp: fine_def)
  have m: "memory_is (fst s) bs" using f memory_put_data [OF f(1,2)] by simp
  have L: "memory_bytes v = length bs0" using f(1) by (auto simp: memory_is_def memory_bytes_def)
  have "host_write (fst s) p xs = Inr (put_data (fst s) (overwrite bs p xs))" using host_write_mem [OF m] assms(2) L f(2) by simp
  moreover have "put_data (fst s) (overwrite bs p xs) = (put_data v (overwrite bs p xs))\<lparr>vm_stack := st\<rparr>"
    unfolding f(4) by (simp add: put_data_def set_mem_def)
  moreover have "length (overwrite bs p xs) = length bs0" using f(2) assms(2) L by simp
  ultimately show ?thesis using f(1,3) unfolding fine_def by (metis fst_conv)
qed

lemma safe_write [safe_intro]:
  assumes "fine v s"
  shows "p + length xs \<le> memory_bytes v \<Longrightarrow> (\<And>s. fine v s \<Longrightarrow> safe v (k s)) \<Longrightarrow> safe v (writing (\<lambda>vm. host_write vm p xs) k s)"
    "p + 4 \<le> memory_bytes v \<Longrightarrow> (\<And>s. fine v s \<Longrightarrow> safe v (k s)) \<Longrightarrow> safe v (writing (\<lambda>vm. m3ApiWriteMem32 vm p x) k s)"
    "p + 2 \<le> memory_bytes v \<Longrightarrow> (\<And>s. fine v s \<Longrightarrow> safe v (k s)) \<Longrightarrow> safe v (writing (\<lambda>vm. m3ApiWriteMem16 vm p y) k s)"
    "p + 8 \<le> memory_bytes v \<Longrightarrow> (\<And>s. fine v s \<Longrightarrow> safe v (k s)) \<Longrightarrow> safe v (writing (\<lambda>vm. m3ApiWriteMem64 vm p z) k s)"
proof -
  have w: "safe v (writing (\<lambda>vm. host_write vm p xs) k s)" if "p + length xs \<le> memory_bytes v" "\<And>s. fine v s \<Longrightarrow> safe v (k s)" for p xs
    using fine_write [OF assms that(1)] that(2) by (auto simp: writing_def at_state_def)
  then show "p + length xs \<le> memory_bytes v \<Longrightarrow> (\<And>s. fine v s \<Longrightarrow> safe v (k s)) \<Longrightarrow> safe v (writing (\<lambda>vm. host_write vm p xs) k s)" .
  show "p + 4 \<le> memory_bytes v \<Longrightarrow> (\<And>s. fine v s \<Longrightarrow> safe v (k s)) \<Longrightarrow> safe v (writing (\<lambda>vm. m3ApiWriteMem32 vm p x) k s)"
    "p + 2 \<le> memory_bytes v \<Longrightarrow> (\<And>s. fine v s \<Longrightarrow> safe v (k s)) \<Longrightarrow> safe v (writing (\<lambda>vm. m3ApiWriteMem16 vm p y) k s)"
    "p + 8 \<le> memory_bytes v \<Longrightarrow> (\<And>s. fine v s \<Longrightarrow> safe v (k s)) \<Longrightarrow> safe v (writing (\<lambda>vm. m3ApiWriteMem64 vm p z) k s)"
    using w [of p "le_bytes 4 (ucast x)"] w [of p "le_bytes 2 (ucast y)"] w [of p "le_bytes 8 z"]
    by (simp_all add: m3ApiWriteMem32_def m3ApiWriteMem16_def m3ApiWriteMem64_def)
qed

lemma fine_read:
  assumes "fine v s" "p + n \<le> memory_bytes v"
  shows "\<exists>bs. host_read (fst s) p n = Inr bs \<and> length bs = n"
proof -
  obtain bs where bs: "memory_is (fst s) bs" "length bs = memory_bytes v" using fine_facts(1) [OF assms(1)] by blast
  then show ?thesis using host_read_mem [OF bs(1)] assms(2) by auto
qed

lemma safe_read [safe_intro]:
  assumes "fine v s" "p + n \<le> memory_bytes v" "\<And>bs. length bs = n \<Longrightarrow> safe v (k bs)"
  shows "safe v (tryR (at_state s (host_read (fst s) p n)) k)"
  using fine_read [OF assms(1,2)] assms(3) by (auto simp: at_state_def)

text \<open>The buffers of \<^verbatim>\<open>readv\<close> and \<^verbatim>\<open>writev\<close>.\<close>

definition iov_in :: "nat \<Rightarrow> (nat \<times> nat) list \<Rightarrow> bool" where
  "iov_in L iovs \<longleftrightarrow> (\<forall>(b, n) \<in> set iovs. b + n \<le> L)"

lemma copy_iov_safe:
  assumes "fine v s"
  shows "p + n * 8 \<le> memory_bytes v \<Longrightarrow> (\<And>iovs. iov_in (memory_bytes v) iovs \<Longrightarrow> length iovs = n \<Longrightarrow> safe v (k iovs)) \<Longrightarrow> safe v (tryR (copy_iov_to_host n p s) k)"
proof (induction n arbitrary: p k)
  case 0
  then show ?case by (simp add: iov_in_def)
next
  case (Suc n)
  obtain b1 where b1: "m3ApiReadMem32 (fst s) p = Inr b1" using fine_read [OF assms, of p 4] Suc.prems(1) by (auto simp: m3ApiReadMem32_def)
  obtain b2 where b2: "m3ApiReadMem32 (fst s) (p + 4) = Inr b2" using fine_read [OF assms, of "p + 4" 4] Suc.prems(1) by (auto simp: m3ApiReadMem32_def)
  obtain bs where bs: "memory_is (fst s) bs" "length bs = memory_bytes v" using fine_facts(1) [OF assms] by blast
  show ?case
  proof (cases "unat b1 + unat b2 \<le> memory_bytes v")
    case True
    have "safe v (tryR (copy_iov_to_host n (p + 8) s) (\<lambda>iovs. k ((unat b1, unat b2) # iovs)))"
      using Suc.prems True by (intro Suc.IH) (auto simp: iov_in_def)
    then show ?thesis using b1 b2 True bs by (simp add: check_mem [OF bs(1)] at_state_def tryR_assoc)
  next
    case False
    then show ?thesis using b1 b2 bs assms by (simp add: check_mem [OF bs(1)] at_state_def safe_def)
  qed
qed

lemma scatter_safe:
  fixes s :: "'w wasi_state host_state"
  assumes "fine v s" "iov_in (memory_bytes v) iovs"
  shows "\<exists>vm. scatter_iov iovs bs (fst s) = Inr vm \<and> (\<forall>w :: 'w wasi_state. fine v (vm, w))"
  using assms
proof (induction iovs arbitrary: bs s)
  case Nil
  then show ?case by (cases s) (auto intro: fine_snd)
next
  case (Cons iov iovs)
  have i: "fst iov + snd iov \<le> memory_bytes v" "iov_in (memory_bytes v) iovs" using Cons.prems(2) by (auto simp: iov_in_def)
  have le: "fst iov + length (take (snd iov) bs) \<le> memory_bytes v" using i(1) by auto
  obtain vm where vm: "host_write (fst s) (fst iov) (take (snd iov) bs) = Inr vm" "\<And>w :: 'w wasi_state. fine v (vm, w)"
    using fine_write [OF Cons.prems(1) le] by blast
  then show ?case using Cons.IH [OF vm(2) i(2)] by simp
qed

lemma gather_safe:
  assumes "fine v s" "iov_in (memory_bytes v) iovs"
  shows "\<exists>bss. gather_iov iovs (fst s) = Inr bss"
  using assms(2)
proof (induction iovs)
  case (Cons iov iovs)
  then show ?case using fine_read [OF assms(1), of "fst iov" "snd iov"] by (auto simp: iov_in_def)
qed simp

text \<open>The functions one by one; a frame of ten cells is enough for all of them.\<close>

definition safe_function :: "'w wasi_function \<Rightarrow> bool" where
  "safe_function f \<longleftrightarrow> (\<forall>v s sp. fine v s \<longrightarrow> sp + 20 \<le> length (vm_stack v) \<longrightarrow> safe v (f sp s))"

lemma safe_functionI: "(\<And>v s sp. fine v s \<Longrightarrow> sp + 20 \<le> length (vm_stack v) \<Longrightarrow> safe v (f sp s)) \<Longrightarrow> safe_function f"
  by (simp add: safe_function_def)

lemma safe_environ: "safe_function (m3_wasi_generic_environ_get H)" "safe_function (m3_wasi_generic_environ_sizes_get H)"
  "safe_function (m3_wasi_generic_fd_fdstat_set_flags H)"
  unfolding m3_wasi_generic_environ_get_def m3_wasi_generic_environ_sizes_get_def m3_wasi_generic_fd_fdstat_set_flags_def
  by (rule safe_functionI; auto intro!: safe_intro)+

lemma safe_prestat: "safe_function (m3_wasi_generic_fd_prestat_get H)" "safe_function (m3_wasi_generic_fd_prestat_dir_name H)"
  unfolding m3_wasi_generic_fd_prestat_get_def m3_wasi_generic_fd_prestat_dir_name_def
  by (rule safe_functionI; auto intro!: safe_intro)+

lemma safe_fdstat:
  assumes "fine v s" "sp + 20 \<le> length (vm_stack v)"
    and "\<And>fl w. os_fcntl_getfl H (vm_stack (fst s) ! (sp + 2)) (world (snd s)) = (fl, w) \<Longrightarrow> 0 \<le> fl
      \<Longrightarrow> fst (os_fstat H (vm_stack (fst s) ! (sp + 2)) w) \<noteq> None"
  shows "safe v (m3_wasi_generic_fd_fdstat_get H sp s)"
proof -
  have l: "length (vm_stack (fst s)) = length (vm_stack v)" using fine_facts(2) [OF assms(1)] .
  have fd: "arg32 sp 1 (fst s) = Inr (vm_stack (fst s) ! (sp + 2))" using arg32_ok [of sp 1 "fst s"] assms(2) l by simp
  show ?thesis unfolding m3_wasi_generic_fd_fdstat_get_def fd at_state_simps tryR.simps
    using assms by (auto intro!: safe_intro split: prod.split option.split)
qed

text \<open>The array of buffers fits on the C stack.\<close>

definition iovecs_fit :: "'w wasi_host \<Rightarrow> nat \<Rightarrow> vm \<Rightarrow> bool" where
  "iovecs_fit H sp vm \<longleftrightarrow> 0 < vm_stack vm ! (sp + 6) \<and> unat (vm_stack vm ! (sp + 6)) \<le> vla_limit H"

lemma safe_seek: "safe_function (m3_wasi_unstable_fd_seek H)" "safe_function (m3_wasi_snapshot_preview1_fd_seek H)"
  unfolding m3_wasi_unstable_fd_seek_def m3_wasi_snapshot_preview1_fd_seek_def fd_seek_def
  by (rule safe_functionI; auto intro!: safe_intro split: prod.split option.split)+

lemma safe_close: "safe_function (m3_wasi_generic_fd_close H)" "safe_function (m3_wasi_generic_fd_datasync H)"
  unfolding m3_wasi_generic_fd_close_def m3_wasi_generic_fd_datasync_def
  by (rule safe_functionI; auto intro!: safe_intro split: prod.split)+

lemma safe_clocks: "safe_function (m3_wasi_generic_clock_res_get H)" "safe_function (m3_wasi_generic_clock_time_get H)"
  unfolding m3_wasi_generic_clock_res_get_def m3_wasi_generic_clock_time_get_def
  by (rule safe_functionI; auto intro!: safe_intro split: prod.split option.split)+

lemma safe_exit: "safe_function (m3_wasi_generic_proc_exit H)"
  by (rule safe_functionI, unfold m3_wasi_generic_proc_exit_def, intro safe_intro)
    (auto simp: safe_def m3ApiTrap_def intro: fine_snd)

lemma safe_fd_write:
  fixes s :: "'a wasi_state host_state"
  assumes a: "fine v s" "sp + 20 \<le> length (vm_stack v)" and fit: "iovecs_fit H sp (fst s)"
  shows "safe v (m3_wasi_generic_fd_write H sp s)"
proof -
  have l: "length (vm_stack (fst s)) = length (vm_stack v)" using fine_facts(2) [OF a(1)] .
  have n: "arg32 sp 3 (fst s) = Inr (vm_stack (fst s) ! (sp + 6))" using arg32_ok [of sp 3 "fst s"] a(2) l by simp
  have w: "with_iovecs H (vm_stack (fst s) ! (sp + 6)) k s = k s" for k
    using fit by (simp add: with_iovecs_def iovecs_fit_def)
  have g: "safe v (tryR (at_state s (gather_iov iovs (fst s))) k)" if "iov_in (memory_bytes v) iovs" "\<And>x. safe v (k x)" for iovs k
    using gather_safe [OF a(1) that(1)] that(2) by (auto simp: at_state_def)
  show ?thesis
    unfolding m3_wasi_generic_fd_write_def n at_state_simps tryR.simps w
    using a by (auto intro!: safe_intro copy_iov_safe g split: prod.split)
qed

lemma safe_fd_read:
  fixes s :: "'a wasi_state host_state"
  assumes a: "fine v s" "sp + 20 \<le> length (vm_stack v)" and fit: "iovecs_fit H sp (fst s)"
  shows "safe v (m3_wasi_generic_fd_read H sp s)"
proof -
  have l: "length (vm_stack (fst s)) = length (vm_stack v)" using fine_facts(2) [OF a(1)] .
  have n: "arg32 sp 3 (fst s) = Inr (vm_stack (fst s) ! (sp + 6))" using arg32_ok [of sp 3 "fst s"] a(2) l by simp
  have w: "with_iovecs H (vm_stack (fst s) ! (sp + 6)) k s = k s" for k
    using fit by (simp add: with_iovecs_def iovecs_fit_def)
  have g: "safe v (writing (scatter_iov iovs bs) k x)"
    if "fine v x" "iov_in (memory_bytes v) iovs" "\<And>x. fine v x \<Longrightarrow> safe v (k x)" for iovs bs k and x :: "'a wasi_state host_state"
    using scatter_safe [OF that(1,2), of bs] that(3) by (auto simp: at_state_def writing_def)
  show ?thesis
    unfolding m3_wasi_generic_fd_read_def n at_state_simps tryR.simps w
    using a by (auto intro!: safe_intro copy_iov_safe g split: prod.split)
qed

section \<open>The arguments of the program\<close>

definition context_ok :: "'w wasi_state \<Rightarrow> bool" where
  "context_ok w \<longleftrightarrow> (\<forall>c. wasi_context w = Some c \<longrightarrow> unat (argc c) = length (argv c))"

text \<open>The room that the arguments need, with their zero bytes.\<close>

definition args_room :: "u8 list list \<Rightarrow> nat" where
  "args_room as = sum_list (map (\<lambda>a. length a + 1) as)"

lemma args_room_simps [simp]: "args_room [] = 0" "args_room (a # as) = length a + 1 + args_room as"
  by (simp_all add: args_room_def)

lemma args_size_room: "args_size (length as) as = Inr (of_nat (args_room as))"
  by (induction as) simp_all

lemma safe_args_sizes: "fine v (vm, w) \<Longrightarrow> context_ok w \<Longrightarrow> sp + 20 \<le> length (vm_stack v)
  \<Longrightarrow> safe v (m3_wasi_generic_args_sizes_get H sp (vm, w))"
  unfolding m3_wasi_generic_args_sizes_get_def
  by (rule safe_arg(2), simp, simp)+ (auto intro!: safe_intro simp: context_ok_def args_size_room split: option.split)

definition bytes_at :: "u8 list \<Rightarrow> nat \<Rightarrow> u8 list \<Rightarrow> bool" where
  "bytes_at bs p xs \<longleftrightarrow> p + length xs \<le> length bs \<and> (\<forall>k < length xs. bs ! (p + k) = xs ! k)"

lemma bytes_at_overwrite: "p + length xs \<le> length bs \<Longrightarrow> bytes_at (overwrite bs p xs) p xs"
  by (simp add: bytes_at_def nth_overwrite)

lemma bytes_at_same:
  "bytes_at bs p xs \<Longrightarrow> length bs' = length bs \<Longrightarrow> (\<And>j. p \<le> j \<Longrightarrow> j < p + length xs \<Longrightarrow> bs' ! j = bs ! j) \<Longrightarrow> bytes_at bs' p xs"
  by (simp add: bytes_at_def)

lemma bytes_at_take: "bytes_at bs p xs \<Longrightarrow> take (length xs) (drop p bs) = xs"
  by (rule nth_equalityI) (auto simp: bytes_at_def)

lemma bytes_at_overwrite_other:
  "bytes_at bs p xs \<Longrightarrow> q + length ys \<le> length bs \<Longrightarrow> p + length xs \<le> q \<or> q + length ys \<le> p \<Longrightarrow> bytes_at (overwrite bs q ys) p xs"
  by (rule bytes_at_same) (auto simp: nth_overwrite bytes_at_def)

lemma bytes_at_append:
  assumes "bytes_at bs p xs" "bytes_at bs (p + length xs) ys"
  shows "bytes_at bs p (xs @ ys)"
  unfolding bytes_at_def
proof (intro conjI allI impI)
  show "p + length (xs @ ys) \<le> length bs" using assms(2) by (simp add: bytes_at_def)
  fix k assume k: "k < length (xs @ ys)"
  show "bs ! (p + k) = (xs @ ys) ! k"
  proof (cases "k < length xs")
    case True
    then show ?thesis using assms(1) by (simp add: bytes_at_def nth_append)
  next
    case False
    then have "k - length xs < length ys" "p + length xs + (k - length xs) = p + k" using k by simp_all
    then show ?thesis using assms(2) False unfolding bytes_at_def by (metis nth_append)
  qed
qed

lemma bytes_at_string: "bytes_at bs p (a @ [0]) \<Longrightarrow> 0 \<notin> set a \<Longrightarrow> c_string bs p a"
proof -
  assume b: "bytes_at bs p (a @ [0])" and z: "0 \<notin> set a"
  have "bytes_at bs p a" using b by (auto simp: bytes_at_def nth_append)
  then show ?thesis using bytes_at_take [of bs p a] b z by (auto simp: c_string_def bytes_at_def nth_append)
qed

lemma read_word:
  assumes "memory_is vm bs" "bytes_at bs p (le_bytes 4 (ucast (q :: u32)))"
  shows "m3ApiReadMem32 vm p = Inr q"
proof -
  have "p + 4 \<le> length bs" "take 4 (drop p bs) = le_bytes 4 (ucast q)"
    using assms(2) bytes_at_take [OF assms(2)] by (simp_all add: bytes_at_def)
  then have "host_read vm p 4 = Inr (le_bytes 4 (ucast q))" using host_read_mem [OF assms(1), of p 4] by simp
  moreover have "(ucast (take_bit 32 (ucast q :: u64)) :: u32) = q" by (rule bit_word_eqI) (auto simp: bit_simps)
  ultimately show ?thesis by (simp add: m3ApiReadMem32_def le_word_bytes)
qed

text \<open>The memory that \<^verbatim>\<open>args_get\<close> leaves.\<close>

primrec args_written :: "u8 list list \<Rightarrow> nat \<Rightarrow> nat \<Rightarrow> u8 list \<Rightarrow> u8 list" where
  "args_written [] p b bs = bs"
| "args_written (a # as) p b bs =
    args_written as (p + 4) (b + length a + 1)
      (overwrite (overwrite (overwrite bs p (le_bytes 4 (ucast (m3ApiPtrToOffset b)))) b a) (b + length a) [0])"

lemma length_args_written:
  "p + 4 * length as \<le> length bs \<Longrightarrow> b + args_room as \<le> length bs \<Longrightarrow> length (args_written as p b bs) = length bs"
  by (induction as arbitrary: p b bs) simp_all

lemma args_written_outside:
  assumes "p + 4 * length as \<le> length bs" "b + args_room as \<le> length bs" "j < length bs"
    "\<not> (p \<le> j \<and> j < p + 4 * length as)" "\<not> (b \<le> j \<and> j < b + args_room as)"
  shows "args_written as p b bs ! j = bs ! j"
  using assms by (induction as arbitrary: p b bs) (auto simp: nth_overwrite)

lemma args_get_loop_writes:
  assumes "memory_is vm bs" "p + 4 * length as \<le> length bs" "b + args_room as \<le> length bs"
  shows "args_get_loop (length as) as p b (vm, w) = Inr (put_data vm (args_written as p b bs), w)"
  using assms
proof (induction as arbitrary: p b bs vm)
  case Nil
  then show ?case by (simp add: put_data_same)
next
  case (Cons a as)
  let ?b1 = "overwrite bs p (le_bytes 4 (ucast (m3ApiPtrToOffset b)))"
  let ?b2 = "overwrite ?b1 b a" and ?b3 = "overwrite (overwrite ?b1 b a) (b + length a) [0]"
  have l: "length ?b1 = length bs" "length ?b2 = length bs" "length ?b3 = length bs" using Cons.prems by simp_all
  have m: "memory_is (put_data vm ?b1) ?b1" "memory_is (put_data vm ?b2) ?b2" "memory_is (put_data vm ?b3) ?b3"
    using memory_put_data [OF Cons.prems(1)] l by blast+
  have "m3ApiWriteMem32 vm p (m3ApiPtrToOffset b) = Inr (put_data vm ?b1)"
    using host_write_mem [OF Cons.prems(1), of p "le_bytes 4 _"] Cons.prems(2) by (simp add: m3ApiWriteMem32_def)
  moreover have "host_write (put_data vm ?b1) b a = Inr (put_data vm ?b2)"
    using host_write_mem [OF m(1), of b a] Cons.prems l by simp
  moreover have "host_write (put_data vm ?b2) (b + length a) [0] = Inr (put_data vm ?b3)"
    using host_write_mem [OF m(2), of "b + length a" "[0]"] Cons.prems l by simp
  moreover have "args_get_loop (length as) as (p + 4) (b + length a + 1) (put_data vm ?b3, w)
      = Inr (put_data (put_data vm ?b3) (args_written as (p + 4) (b + length a + 1) ?b3), w)"
    using Cons.prems l by (intro Cons.IH [OF m(3)]) simp_all
  ultimately show ?case using Cons.prems(3) l by (simp add: writing_def at_state_def check_mem_pair [OF m(1)])
qed

lemma args_written_at:
  assumes "p + 4 * length as \<le> length bs" "b + args_room as \<le> length bs" "p + 4 * length as \<le> b \<or> b + args_room as \<le> p"
    "i < length as"
  shows "\<exists>q. b \<le> q \<and> q + length (as ! i) < b + args_room as
    \<and> bytes_at (args_written as p b bs) (p + 4 * i) (le_bytes 4 (ucast (m3ApiPtrToOffset q))) \<and> bytes_at (args_written as p b bs) q (as ! i @ [0])"
  using assms
proof (induction as arbitrary: p b bs i)
  case (Cons a as)
  let ?b1 = "overwrite bs p (le_bytes 4 (ucast (m3ApiPtrToOffset b)))"
  let ?b2 = "overwrite ?b1 b a" and ?b3 = "overwrite (overwrite ?b1 b a) (b + length a) [0]"
  let ?r = "args_written as (p + 4) (b + length a + 1) ?b3"
  have l: "length ?b1 = length bs" "length ?b2 = length bs" "length ?b3 = length bs" using Cons.prems by simp_all
  have lr: "length ?r = length bs" using length_args_written [of "p + 4" as ?b3 "b + length a + 1"] Cons.prems l by simp
  show ?case
  proof (cases i)
    case 0
    have same: "?r ! j = ?b3 ! j" if "p \<le> j \<and> j < p + 4 \<or> b \<le> j \<and> j < b + length a + 1" for j
      using that Cons.prems(1-3) l by (intro args_written_outside) auto
    have w: "bytes_at ?b3 p (le_bytes 4 (ucast (m3ApiPtrToOffset b)))"
      using Cons.prems(1-3) l by (intro bytes_at_overwrite_other bytes_at_overwrite) auto
    have "bytes_at ?b3 b a" using Cons.prems(2) l by (intro bytes_at_overwrite_other [OF bytes_at_overwrite]) auto
    moreover have "bytes_at ?b3 (b + length a) [0]" using Cons.prems(2) l by (intro bytes_at_overwrite) simp
    ultimately have s: "bytes_at ?b3 b (a @ [0])" by (rule bytes_at_append)
    have "bytes_at ?r p (le_bytes 4 (ucast (m3ApiPtrToOffset b)))" "bytes_at ?r b (a @ [0])"
      using bytes_at_same [OF w, of ?r] bytes_at_same [OF s, of ?r] same lr l by simp_all
    then show ?thesis using 0 by (intro exI [of _ b]) simp
  next
    case (Suc k)
    have "\<exists>q. b + length a + 1 \<le> q \<and> q + length (as ! k) < b + length a + 1 + args_room as \<and> bytes_at ?r (p + 4 + 4 * k) (le_bytes 4 (ucast (m3ApiPtrToOffset q))) \<and> bytes_at ?r q (as ! k @ [0])"
      using Cons.prems Suc l by (intro Cons.IH) auto
    then obtain q where q: "b + length a + 1 \<le> q" "q + length (as ! k) < b + length a + 1 + args_room as" "bytes_at ?r (p + 4 + 4 * k) (le_bytes 4 (ucast (m3ApiPtrToOffset q)))"
      "bytes_at ?r q (as ! k @ [0])" by blast
    have e: "p + 4 + 4 * k = p + 4 * i" "as ! k = (a # as) ! i" "b \<le> q" "q + length ((a # as) ! i) < b + args_room (a # as)"
      using Suc q(1,2) by simp_all
    show ?thesis unfolding args_written.simps using q(3,4) e(3,4) unfolding e(1,2) by blast
  qed
qed simp

text \<open>What the module finds after \<^verbatim>\<open>args_get\<close> with the pointers at \<open>p\<close> and the characters from \<open>b\<close> on, in a
  place of \<open>room\<close> bytes.\<close>

definition args_found :: "u8 list list \<Rightarrow> vm \<Rightarrow> u8 list \<Rightarrow> nat \<Rightarrow> nat \<Rightarrow> nat \<Rightarrow> bool" where
  "args_found as vm bs p b room \<longleftrightarrow> memory_is vm bs \<and>
    (\<forall>i < length as. \<exists>q. m3ApiReadMem32 vm (p + 4 * i) = Inr q
       \<and> b \<le> unat q \<and> unat q + length (as ! i) < b + room \<and> c_string bs (unat q) (as ! i))"

lemma args_get_finds:
  assumes "memory_is vm bs" "sp + 20 \<le> length (vm_stack vm)" "wasi_context w = Some c" "unat (argc c) = length (argv c)"
    and "\<forall>a \<in> set (argv c). 0 \<notin> set a"
    and "p = unat (vm_stack vm ! (sp + 2))" "b = unat (vm_stack vm ! (sp + 4))"
    and in_: "p + 4 * length (argv c) \<le> length bs" "b + args_room (argv c) \<le> length bs"
      "p + 4 * length (argv c) \<le> b \<or> b + args_room (argv c) \<le> p"
  shows "\<exists>vm' bs'. m3_wasi_generic_args_get H sp (vm, w) = Inr (vm', w)
    \<and> vm_stack vm' = (vm_stack vm)[sp := errno_value H ERRNO_SUCCESS] \<and> length bs' = length bs
    \<and> args_found (argv c) vm' bs' p b (args_room (argv c))
    \<and> (\<forall>j < length bs. \<not> (p \<le> j \<and> j < p + 4 * length (argv c)) \<longrightarrow> \<not> (b \<le> j \<and> j < b + args_room (argv c)) \<longrightarrow> bs' ! j = bs ! j)"
proof -
  let ?as = "argv c" and ?bs' = "args_written (argv c) p b bs"
  let ?vm' = "(put_data vm ?bs')\<lparr>vm_stack := (vm_stack vm)[sp := errno_value H ERRNO_SUCCESS]\<rparr>"
  have len: "length ?bs' = length bs" by (rule length_args_written [OF in_(1,2)])
  have m: "memory_is ?vm' ?bs'" using memory_put_data [OF assms(1) len] by simp
  have sp: "sp < length (vm_stack (put_data vm ?bs'))" using assms(2) by simp
  have lt: "length bs < 2 ^ 32" by (rule memory_size(3) [OF assms(1)])
  have "m3_wasi_generic_args_get H sp (vm, w) = Inr (?vm', w)"
    using get_arg_mem [of sp 1 vm "vm_stack vm ! (sp + 2)"] get_arg_mem [of sp 2 vm "vm_stack vm ! (sp + 4)"] assms(2,3,4,6,7) in_
      args_get_loop_writes [OF assms(1) in_(1,2), of w] return_ok [OF sp, of "errno_value H ERRNO_SUCCESS" w]
    by (simp add: m3_wasi_generic_args_get_def check_mem_pair [OF assms(1)] at_state_def wasi_return_def mult.commute)
  moreover have "\<exists>q. m3ApiReadMem32 ?vm' (p + 4 * i) = Inr q \<and> b \<le> unat q \<and> unat q + length (?as ! i) < b + args_room ?as
      \<and> c_string ?bs' (unat q) (?as ! i)" if i: "i < length ?as" for i
  proof -
    obtain q where q: "b \<le> q" "q + length (?as ! i) < b + args_room ?as"
      "bytes_at ?bs' (p + 4 * i) (le_bytes 4 (ucast (m3ApiPtrToOffset q)))" "bytes_at ?bs' q (?as ! i @ [0])"
      using args_written_at [OF in_ i] by blast
    have "q + length (?as ! i) < length bs" using q(4) len by (simp add: bytes_at_def)
    then have "unat (m3ApiPtrToOffset q) = q" using lt by (simp add: m3ApiPtrToOffset_def unsigned_of_nat take_bit_nat_eq_self)
    then show ?thesis using q read_word [OF m q(3)] bytes_at_string [OF q(4)] assms(5) i by (intro exI [of _ "m3ApiPtrToOffset q"]) simp
  qed
  moreover have "?bs' ! j = bs ! j" if "j < length bs" "\<not> (p \<le> j \<and> j < p + 4 * length ?as)" "\<not> (b \<le> j \<and> j < b + args_room ?as)" for j
    using that by (intro args_written_outside [OF in_(1,2)]) simp_all
  ultimately show ?thesis using m len by (intro exI [of _ ?vm'] exI [of _ ?bs']) (simp add: args_found_def)
qed

lemma args_sizes_stored:
  assumes "memory_is vm bs" "sp + 20 \<le> length (vm_stack vm)" "wasi_context w = Some c" "unat (argc c) = length (argv c)"
    and "n = unat (vm_stack vm ! (sp + 2))" "z = unat (vm_stack vm ! (sp + 4))"
    and "n + 4 \<le> length bs" "z + 4 \<le> length bs" "n + 4 \<le> z \<or> z + 4 \<le> n"
  shows "\<exists>vm' bs'. m3_wasi_generic_args_sizes_get H sp (vm, w) = Inr (vm', w)
    \<and> vm_stack vm' = (vm_stack vm)[sp := errno_value H ERRNO_SUCCESS] \<and> memory_is vm' bs' \<and> length bs' = length bs
    \<and> m3ApiReadMem32 vm' n = Inr (argc c) \<and> m3ApiReadMem32 vm' z = Inr (of_nat (args_room (argv c)))"
proof -
  let ?r = "of_nat (args_room (argv c)) :: u32"
  let ?b1 = "overwrite bs n (le_bytes 4 (ucast (argc c)))"
  let ?b2 = "overwrite ?b1 z (le_bytes 4 (ucast ?r))"
  let ?vm' = "(put_data vm ?b2)\<lparr>vm_stack := (vm_stack vm)[sp := errno_value H ERRNO_SUCCESS]\<rparr>"
  have l: "length ?b1 = length bs" "length ?b2 = length bs" using assms(7,8) by simp_all
  have m1: "memory_is (put_data vm ?b1) ?b1" using memory_put_data [OF assms(1)] l by blast
  have m: "memory_is ?vm' ?b2" using memory_put_data [OF assms(1) l(2)] by simp
  have w1: "m3ApiWriteMem32 vm n (argc c) = Inr (put_data vm ?b1)"
    using host_write_mem [OF assms(1), of n "le_bytes 4 _"] assms(7) by (simp add: m3ApiWriteMem32_def)
  have w2: "m3ApiWriteMem32 (put_data vm ?b1) z ?r = Inr (put_data vm ?b2)"
    using host_write_mem [OF m1, of z "le_bytes 4 _"] assms(8) l by (simp add: m3ApiWriteMem32_def)
  have a: "m3ApiGetArgMem sp 1 vm = Inr n" "m3ApiGetArgMem sp 2 vm = Inr z"
    using arg_mem_ok [of sp 1 vm] arg_mem_ok [of sp 2 vm] assms(2,5,6) by simp_all
  have s: "args_size (unat (argc c)) (argv c) = Inr ?r" using args_size_room assms(4) by simp
  have sp: "sp < length (vm_stack (put_data vm ?b2))" using assms(2) by simp
  have "m3_wasi_generic_args_sizes_get H sp (vm, w) = Inr (?vm', w)"
    unfolding m3_wasi_generic_args_sizes_get_def fst_conv a at_state_simps tryR.simps
    using assms(3,7,8) s w1 w2 return_ok [OF sp, of "errno_value H ERRNO_SUCCESS" w]
    by (simp add: check_mem_pair [OF assms(1)] writing_def at_state_def wasi_return_def)
  moreover have "bytes_at ?b2 n (le_bytes 4 (ucast (argc c)))" "bytes_at ?b2 z (le_bytes 4 (ucast ?r))"
    using assms(7-9) l by (auto intro!: bytes_at_overwrite bytes_at_overwrite_other)
  ultimately show ?thesis using read_word [OF m] m l(2) by (intro exI [of _ ?vm'] exI [of _ ?b2]) simp
qed

text \<open>C22: \<^verbatim>\<open>args_sizes_get\<close> and \<^verbatim>\<open>args_get\<close> fit together. The first succeeds and stores, at the two places
  it was given, the number of the arguments and the bytes they need with their zero bytes. When the
  module then, in any later state, gives the second room for as many pointers and as many bytes as
  these two words say, in two separate places, it succeeds: the module finds at every pointer of the
  array the C string of that argument, within the place it gave, and all other bytes of the memory
  are as before.\<close>

theorem args_roundtrip:
  assumes "wasi_context w = Some c" "unat (argc c) = length (argv c)" "\<forall>a \<in> set (argv c). 0 \<notin> set a" "args_room (argv c) < 2 ^ 32"
    and "memory_is vm bs" "sp + 20 \<le> length (vm_stack vm)"
    and "n = unat (vm_stack vm ! (sp + 2))" "z = unat (vm_stack vm ! (sp + 4))"
    and "n + 4 \<le> length bs" "z + 4 \<le> length bs" "n + 4 \<le> z \<or> z + 4 \<le> n"
  shows "\<exists>vm1 bs1 count size. m3_wasi_generic_args_sizes_get H sp (vm, w) = Inr (vm1, w)
    \<and> vm_stack vm1 = (vm_stack vm)[sp := errno_value H ERRNO_SUCCESS] \<and> memory_is vm1 bs1 \<and> length bs1 = length bs
    \<and> m3ApiReadMem32 vm1 n = Inr count \<and> m3ApiReadMem32 vm1 z = Inr size
    \<and> unat count = length (argv c) \<and> unat size = args_room (argv c)
    \<and> (\<forall>vm2 bs2 sp2 p b. memory_is vm2 bs2 \<longrightarrow> sp2 + 20 \<le> length (vm_stack vm2)
        \<longrightarrow> p = unat (vm_stack vm2 ! (sp2 + 2)) \<longrightarrow> b = unat (vm_stack vm2 ! (sp2 + 4))
        \<longrightarrow> p + 4 * unat count \<le> length bs2 \<longrightarrow> b + unat size \<le> length bs2 \<longrightarrow> p + 4 * unat count \<le> b \<or> b + unat size \<le> p
        \<longrightarrow> (\<exists>vm3 bs3. m3_wasi_generic_args_get H sp2 (vm2, w) = Inr (vm3, w)
              \<and> vm_stack vm3 = (vm_stack vm2)[sp2 := errno_value H ERRNO_SUCCESS] \<and> length bs3 = length bs2
              \<and> args_found (argv c) vm3 bs3 p b (unat size)
              \<and> (\<forall>j < length bs2. \<not> (p \<le> j \<and> j < p + 4 * unat count) \<longrightarrow> \<not> (b \<le> j \<and> j < b + unat size) \<longrightarrow> bs3 ! j = bs2 ! j)))"
proof -
  have u: "unat (of_nat (args_room (argv c)) :: u32) = args_room (argv c)" by (rule unat_of_nat32 [OF assms(4)])
  obtain vm1 bs1 where 1: "m3_wasi_generic_args_sizes_get H sp (vm, w) = Inr (vm1, w)"
    "vm_stack vm1 = (vm_stack vm)[sp := errno_value H ERRNO_SUCCESS]" "memory_is vm1 bs1" "length bs1 = length bs"
    "m3ApiReadMem32 vm1 n = Inr (argc c)" "m3ApiReadMem32 vm1 z = Inr (of_nat (args_room (argv c)))"
    using args_sizes_stored [OF assms(5,6,1,2,7-11), of H] by blast
  show ?thesis
  proof (rule exI [of _ vm1], rule exI [of _ bs1], rule exI [of _ "argc c"], rule exI [of _ "of_nat (args_room (argv c))"], intro conjI allI impI)
    fix vm2 bs2 sp2 p b
    assume "memory_is vm2 bs2" "sp2 + 20 \<le> length (vm_stack vm2)" "p = unat (vm_stack vm2 ! (sp2 + 2))"
      "b = unat (vm_stack vm2 ! (sp2 + 4))" "p + 4 * unat (argc c) \<le> length bs2"
      "b + unat (of_nat (args_room (argv c)) :: u32) \<le> length bs2"
      "p + 4 * unat (argc c) \<le> b \<or> b + unat (of_nat (args_room (argv c)) :: u32) \<le> p"
    then show "\<exists>vm3 bs3. m3_wasi_generic_args_get H sp2 (vm2, w) = Inr (vm3, w)
              \<and> vm_stack vm3 = (vm_stack vm2)[sp2 := errno_value H ERRNO_SUCCESS] \<and> length bs3 = length bs2
              \<and> args_found (argv c) vm3 bs3 p b (unat (of_nat (args_room (argv c)) :: u32))
              \<and> (\<forall>j < length bs2. \<not> (p \<le> j \<and> j < p + 4 * unat (argc c))
                    \<longrightarrow> \<not> (b \<le> j \<and> j < b + unat (of_nat (args_room (argv c)) :: u32)) \<longrightarrow> bs3 ! j = bs2 ! j)"
      unfolding u assms(2) using assms(1-3) by (intro args_get_finds)
  qed (use 1 assms(2) u in simp_all)
qed

end
