(* ===== verification/M3_Wasi_Calls.thy ===== *)
theory M3_Wasi_Calls
  imports M3_Wasi_Props
begin

text \<open>
  The properties of the WASI functions: which of them keep to the memory, the two ways out of it, the
  bytes that \<^verbatim>\<open>fd_write\<close> passes on, and the time stamps.
\<close>

section \<open>An instance of the parameters\<close>

text \<open>A world that records what is written to descriptors, with a clock that stands at 5.000000007 seconds.\<close>

definition sample_host :: "u8 list list wasi_host" where
  "sample_host = \<lparr>errno_value = (\<lambda>e. if e = ERRNO_SUCCESS then 0 else 28), clockid = (\<lambda>c. case c of CLOCK_REALTIME \<Rightarrow> 0
       | CLOCK_MONOTONIC \<Rightarrow> 1 | CLOCK_PROCESS_CPUTIME_ID \<Rightarrow> 2 | CLOCK_THREAD_CPUTIME_ID \<Rightarrow> 3),
     filetype = (\<lambda>_. 4), PREOPENTYPE_DIR = 0, FDFLAGS_APPEND = 1, FDFLAGS_DSYNC = 2, FDFLAGS_NONBLOCK = 4, FDFLAGS_SYNC = 16,
     OFLAGS_CREAT = 1, OFLAGS_EXCL = 4, OFLAGS_TRUNC = 8, RIGHTS_FD_READ = 2, RIGHTS_FD_WRITE = 64, RIGHTS_FD_SEEK = 4, RIGHTS_FD_TELL = 32,
     O_CREAT = 0x40, O_EXCL = 0x80, O_TRUNC = 0x200, O_APPEND = 0x400, O_DSYNC = 0x1000, O_NONBLOCK = 0x800, O_SYNC = 0x101000,
     O_RDWR = 2, O_WRONLY = 1, O_RDONLY = 0, vla_limit = 1024, os_errno = (\<lambda>_. EBADF), os_open = (\<lambda>_ w. (3, w)), os_openat = (\<lambda>_ _ _ _ w. (7, w)),
     os_fcntl_getfl = (\<lambda>_ w. (2, w)), os_fstat = (\<lambda>_ w. (Some S_REG, w)), os_lseek = (\<lambda>_ _ _ w. (0, w)),
     os_readv = (\<lambda>_ _ w. ((0, []), w)), os_writev = (\<lambda>_ bss w. (int (length (concat bss)), w @ bss)),
     os_close = (\<lambda>_ w. (0, w)), os_fdatasync = (\<lambda>_ w. (0, w)), os_getrandom = (\<lambda>n w. ((int n, replicate n 42), w)),
     os_clock_getres = (\<lambda>_ w. ((0, 0, 1), w)), os_clock_gettime = (\<lambda>_ w. ((0, 5, 7), w))\<rparr>"

definition sample_memory :: "u8 list \<Rightarrow> M3Memory" where
  "sample_memory bs = \<lparr>mallocated = Some \<lparr>mh_length = of_nat (length bs), mh_data = bs\<rparr>, numPages = 1, maxPages = 1, pageSize = of_nat (length bs)\<rparr>"

definition sample_call :: "u32 list \<Rightarrow> u8 list \<Rightarrow> vm" where
  "sample_call args bs = \<lparr>vm_stack = concat (map (\<lambda>a. [a, 0]) (0 # args)) @ replicate 24 0, vm_memory = sample_memory bs, vm_globals = []\<rparr>"

definition sample_state :: "u8 list list \<Rightarrow> u8 list list wasi_state" where
  "sample_state as = \<lparr>wasi_context = Some \<lparr>exit_code = 0, argc = of_nat (length as), argv = as\<rparr>, preopen_fd = zero_preopen_fd, world = []\<rparr>"

lemma sample_call_memory: "length bs < 1000 \<Longrightarrow> memory_is (sample_call args bs) bs"
  by (simp add: memory_is_def sample_call_def sample_memory_def hdr_ok_def unsigned_of_nat take_bit_nat_eq_self)

section \<open>Keeping to the memory\<close>

lemma args_get_loop_safe:
  assumes "p + 4 * length as \<le> memory_bytes v" "b + args_room as \<le> memory_bytes v" "fine v s"
    "\<And>s. fine v s \<Longrightarrow> safe v (k s)"
  shows "safe v (tryR (args_get_loop (length as) as p b s) k)"
  using assms
proof (induction as arbitrary: p b s)
  case (Cons a as)
  have asc: "tryR (writing f k' s) k = writing f (\<lambda>s. tryR (k' s) k) s" for f k' and s :: "'a wasi_state host_state"
    by (simp add: writing_def tryR_assoc)
  have chk: "tryR (m3ApiCheckMem p n s k') k = m3ApiCheckMem p n s (tryR k' k)" for p n k' and s :: "'a wasi_state host_state"
    by (cases "m3_GetMemorySize (fst s)") (simp_all add: m3ApiCheckMem_def at_state_def m3ApiTrap_def)
  have "safe v (tryR (args_get_loop (length as) as (p + 4) (b + length a + 1) s) k)" if "fine v s" for s
    using Cons.prems(1,2,4) that by (intro Cons.IH) simp_all
  then show ?case using Cons.prems by (auto simp: asc chk intro!: safe_intro)
qed simp

lemma safe_args_get:
  assumes "fine v (vm, w)" "sp + 20 \<le> length (vm_stack v)" "context_ok w"
    and "\<And>c. wasi_context w = Some c \<Longrightarrow> unat (vm_stack vm ! (sp + 4)) + args_room (argv c) \<le> memory_bytes v"
  shows "safe v (m3_wasi_generic_args_get H sp (vm, w))"
proof -
  have l: "length (vm_stack vm) = length (vm_stack v)" using fine_facts(2) [OF assms(1)] by simp
  have a: "m3ApiGetArgMem sp 1 vm = Inr (unat (vm_stack vm ! (sp + 2)))" "m3ApiGetArgMem sp 2 vm = Inr (unat (vm_stack vm ! (sp + 4)))"
    using arg_mem_ok [of sp 1 vm] arg_mem_ok [of sp 2 vm] assms(2) l by simp_all
  show ?thesis
  proof (cases "wasi_context w")
    case None
    then show ?thesis using a assms(1,2) by (auto simp: m3_wasi_generic_args_get_def at_state_def intro!: safe_intro)
  next
    case (Some c)
    have n: "unat (argc c) = length (argv c)" using assms(3) Some by (simp add: context_ok_def)
    have "safe v (tryR (args_get_loop (length (argv c)) (argv c) (unat (vm_stack vm ! (sp + 2))) (unat (vm_stack vm ! (sp + 4))) (vm, w))
        (wasi_return H sp ERRNO_SUCCESS))"
      if "unat (vm_stack vm ! (sp + 2)) + length (argv c) * 4 \<le> memory_bytes v"
      using that assms(1,2,4) Some by (intro args_get_loop_safe) (auto intro: safe_intro simp: mult.commute)
    then show ?thesis using a assms(1) Some n by (simp add: m3_wasi_generic_args_get_def at_state_def safe_check)
  qed
qed

lemma safe_path_open:
  assumes "fine v (vm, w)" "sp + 20 \<le> length (vm_stack v)" "unat (vm_stack vm ! (sp + 2)) < 5"
  shows "safe v (m3_wasi_generic_path_open H sp (vm, w))"
proof -
  let ?s = "(vm, w)"
  have l: "length (vm_stack vm) = length (vm_stack v)" using fine_facts(2) [OF assms(1)] by simp
  have d: "arg32 sp 1 (fst ?s) = Inr (vm_stack vm ! (sp + 2))" using arg32_ok [of sp 1 vm] assms(2) l by simp
  have call: "safe v (case os_openat H d p f n w' of (host_fd, w'') \<Rightarrow>
      if host_fd < 0 then return_errno H sp (in_world w'' ?s)
      else writing (\<lambda>vm. m3ApiWriteMem32 vm q (of_int host_fd)) (wasi_return H sp ERRNO_SUCCESS) (in_world w'' ?s))"
    if "q + 4 \<le> memory_bytes v" for d p f n w' q
    using assms(1,2) that by (auto intro!: safe_intro split: prod.split)
  have rd: "safe v (tryR (at_state (vm, w) (host_read vm p n)) k)" if "p + n \<le> memory_bytes v" "\<And>bs. safe v (k bs)" for p n k
    using safe_read [OF assms(1) that(1), of k] that(2) by simp
  show ?thesis
    unfolding m3_wasi_generic_path_open_def d at_state_simps tryR.simps
    using assms by (intro safe_arg safe_check) (auto intro!: safe_intro rd call)
qed

text \<open>\<^verbatim>\<open>getrandom\<close> gives at most the bytes it was asked for.\<close>

lemma safe_random_loop:
  assumes "\<And>n w. fst (fst (os_getrandom H n w)) \<le> int n" "sp < length (vm_stack v)"
  shows "fine v s \<Longrightarrow> p + n \<le> memory_bytes v \<Longrightarrow> random_loop fuel H sp p n s = Some r \<Longrightarrow> safe v r"
proof (induction fuel arbitrary: p n s)
  case (Suc fuel)
  obtain retlen bs w where os: "os_getrandom H n (world (snd s)) = ((retlen, bs), w)" by (metis prod.collapse)
  let ?s = "in_world w s"
  have fs: "fine v ?s" using Suc.prems(1) by simp
  show ?case
  proof (cases "retlen < 0")
    case True
    then show ?thesis using Suc.prems(2,3) os Suc.IH [OF fs Suc.prems(2)] safe_wasi_return(2) [OF fs assms(2)]
      by (auto simp: Let_def split: if_splits)
  next
    case False
    have n: "nat retlen \<le> n" using assms(1) [of n "world (snd s)"] os by simp
    have "p + length (take (nat retlen) bs) \<le> memory_bytes v" using Suc.prems(2) n by simp
    then obtain vm where vm: "host_write (fst ?s) p (take (nat retlen) bs) = Inr vm" "\<And>w :: 'a wasi_state. fine v (vm, w)"
      using fine_write [OF fs] by blast
    show ?thesis
    proof (cases "nat retlen = n")
      case True
      then show ?thesis using False Suc.prems(3) os vm safe_wasi_return(1) [OF vm(2) assms(2)] by (auto simp: Let_def)
    next
      case ne: False
      have "random_loop fuel H sp (p + nat retlen) (n - nat retlen) (vm, snd ?s) = Some r"
        using False ne Suc.prems(3) os vm(1) by (simp add: Let_def)
      then show ?thesis using Suc.prems(2) n by (intro Suc.IH [OF vm(2)]) simp_all
    qed
  qed
qed simp

lemma safe_random_get:
  assumes "\<And>n w. fst (fst (os_getrandom H n w)) \<le> int n" "fine v s" "sp + 20 \<le> length (vm_stack v)"
    "m3_wasi_generic_random_get fuel H sp s = Some r"
  shows "safe v r"
proof -
  have l: "length (vm_stack (fst s)) = length (vm_stack v)" using fine_facts(2) [OF assms(2)] by simp
  obtain bs where bs: "memory_is (fst s) bs" "length bs = memory_bytes v" using fine_facts(1) [OF assms(2)] by blast
  let ?p = "unat (vm_stack (fst s) ! (sp + 2))" and ?n = "unat (vm_stack (fst s) ! (sp + 4))"
  have "m3ApiGetArgMem sp 1 (fst s) = Inr ?p" "arg32 sp 2 (fst s) = Inr (vm_stack (fst s) ! (sp + 4))"
    using arg_mem_ok [of sp 1 "fst s"] arg32_ok [of sp 2 "fst s"] assms(3) l by simp_all
  then have r: "(if ?p + ?n \<le> memory_bytes v then random_loop fuel H sp ?p ?n s
      else Some (Inl (m3Err_trapOutOfBoundsMemoryAccess, s))) = Some r"
    using assms(4) bs by (simp add: m3_wasi_generic_random_get_def at_state_def check_mem [OF bs(1)] split: if_splits)
  show ?thesis
  proof (cases "?p + ?n \<le> memory_bytes v")
    case True
    then show ?thesis using r assms(3) by (intro safe_random_loop [OF assms(1) _ assms(2) True]) simp_all
  next
    case False
    then have "r = Inl (m3Err_trapOutOfBoundsMemoryAccess, s)" using r by simp
    then show ?thesis using assms(2) by (simp add: safe_def)
  qed
qed

lemmas safe_functions = safe_environ safe_prestat safe_seek safe_close safe_clocks safe_exit



section \<open>The ways out of the memory\<close>

lemma args_get_loop_past:
  assumes "memory_is vm bs" "p + 4 * length as \<le> length bs" "b + args_room as = length bs + 1" "as \<noteq> []"
  shows "\<exists>vm'. args_get_loop (length as) as p b (vm, w) = Inl (C_undefined, (vm', w))"
  using assms
proof (induction as arbitrary: p b bs vm)
  case (Cons a as)
  let ?b1 = "overwrite bs p (le_bytes 4 (ucast (m3ApiPtrToOffset b)))"
  let ?b2 = "overwrite ?b1 b a" and ?b3 = "overwrite (overwrite ?b1 b a) (b + length a) [0]"
  have l: "length ?b1 = length bs" "length ?b2 = length bs" using Cons.prems by (cases as; simp)+
  have m: "memory_is (put_data vm ?b1) ?b1" "memory_is (put_data vm ?b2) ?b2"
    using memory_put_data [OF Cons.prems(1)] l by blast+
  have w1: "m3ApiWriteMem32 vm p (m3ApiPtrToOffset b) = Inr (put_data vm ?b1)"
    using host_write_mem [OF Cons.prems(1), of p "le_bytes 4 _"] Cons.prems(2) by (simp add: m3ApiWriteMem32_def)
  have w2: "host_write (put_data vm ?b1) b a = Inr (put_data vm ?b2)"
    using host_write_mem [OF m(1), of b a] Cons.prems l by simp
  show ?case
  proof (cases "as = []")
    case True
    then have "b + length a = length bs" using Cons.prems(3) by simp
    moreover from this have "host_write (put_data vm ?b2) (b + length a) [0] = Inl C_undefined"
      using m(2) l(2) by (auto simp: memory_is_def host_write_def with_mem_def)
    ultimately show ?thesis using w1 w2 l True by (simp add: writing_def at_state_def check_mem_pair [OF m(1)])
  next
    case False
    then have r: "0 < args_room as" by (cases as) simp_all
    have l3: "length ?b3 = length bs" using l Cons.prems(3) r by simp
    then have m3: "memory_is (put_data vm ?b3) ?b3" using memory_put_data [OF Cons.prems(1)] by blast
    have "host_write (put_data vm ?b2) (b + length a) [0] = Inr (put_data vm ?b3)"
      using host_write_mem [OF m(2), of "b + length a" "[0]"] Cons.prems(3) l r by simp
    moreover have "\<exists>vm'. args_get_loop (length as) as (p + 4) (b + length a + 1) (put_data vm ?b3, w) = Inl (C_undefined, (vm', w))"
      using Cons.prems l3 False by (intro Cons.IH [OF m3]) simp_all
    ultimately show ?thesis using w1 w2 l Cons.prems(3) r by (auto simp: writing_def at_state_def check_mem_pair [OF m(1)])
  qed
qed simp

text \<open>C36: \<^verbatim>\<open>args_get\<close> writes one byte behind the linear memory. It checks the characters of an argument
  but not the zero behind them: when the room for all arguments lacks just the last byte, every check
  passes and the last zero is written outside.\<close>

theorem args_get_writes_past_memory:
  assumes "memory_is vm bs" "sp + 20 \<le> length (vm_stack vm)" "wasi_context w = Some c" "unat (argc c) = length (argv c)" "argv c \<noteq> []"
    and "unat (vm_stack vm ! (sp + 2)) + 4 * length (argv c) \<le> length bs"
    and "unat (vm_stack vm ! (sp + 4)) + args_room (argv c) = length bs + 1"
  shows "\<exists>vm'. m3_wasi_generic_args_get H sp (vm, w) = Inl (C_undefined, (vm', w))"
  using get_arg_mem [of sp 1 vm "vm_stack vm ! (sp + 2)"] get_arg_mem [of sp 2 vm "vm_stack vm ! (sp + 4)"] assms(2-4,6)
    args_get_loop_past [OF assms(1,6,7,5), of w]
  by (auto simp: m3_wasi_generic_args_get_def check_mem_pair [OF assms(1)] at_state_def mult.commute)

theorem args_get_writes_past_memory_witness:
  "\<exists>vm'. m3_wasi_generic_args_get sample_host 0 (sample_call [0, 14] (replicate 16 0), sample_state [[97, 98]])
     = Inl (C_undefined, (vm', sample_state [[97, 98]]))"
proof -
  have m: "memory_is (sample_call [0, 14] (replicate 16 0)) (replicate 16 0)" by (rule sample_call_memory) simp
  show ?thesis
    by (rule args_get_writes_past_memory [OF m, of 0 "sample_state [[97, 98]]" "\<lparr>exit_code = 0, argc = 1, argv = [[97, 98]]\<rparr>"])
      (simp_all add: sample_call_def sample_state_def)
qed

text \<open>\<^verbatim>\<open>path_open\<close> does not check the number of its directory: with a number above the table, and
  otherwise valid arguments, it reads a descriptor from behind the table.\<close>

theorem path_open_unchecked_directory:
  assumes "memory_is vm bs" "sp + 20 \<le> length (vm_stack vm)" "unat (vm_stack vm ! (sp + 2)) \<ge> PREOPEN_CNT"
    and "unat (vm_stack vm ! (sp + 6)) + unat (vm_stack vm ! (sp + 8)) \<le> length bs" "unat (vm_stack vm ! (sp + 8)) < 512"
    and "unat (vm_stack vm ! (sp + 18)) + 4 \<le> length bs"
  shows "m3_wasi_generic_path_open H sp (vm, w) = Inl (C_undefined, (vm, w))"
proof -
  have "arg32 sp k vm = Inr (vm_stack vm ! (sp + 2 * k))" "m3ApiGetArgMem sp k vm = Inr (unat (vm_stack vm ! (sp + 2 * k)))"
    if "k < 10" for k using arg32_ok [of sp k vm] arg_mem_ok [of sp k vm] assms(2) that by simp_all
  note a = this(1) [of 1] this(1) [of 2] this(2) [of 3] this(1) [of 4] this(1) [of 5] this(1) [of 8] this(2) [of 9]
  have a: "arg32 sp 1 vm = Inr (vm_stack vm ! (sp + 2))" "arg32 sp 2 vm = Inr (vm_stack vm ! (sp + 4))"
    "m3ApiGetArgMem sp 3 vm = Inr (unat (vm_stack vm ! (sp + 6)))" "arg32 sp 4 vm = Inr (vm_stack vm ! (sp + 8))"
    "arg32 sp 5 vm = Inr (vm_stack vm ! (sp + 10))" "arg32 sp 8 vm = Inr (vm_stack vm ! (sp + 16))"
    "m3ApiGetArgMem sp 9 vm = Inr (unat (vm_stack vm ! (sp + 18)))" using a by simp_all
  obtain x y where xy: "m3ApiGetArg T_i64 sp 6 vm = Inr x" "m3ApiGetArg T_i64 sp 7 vm = Inr y"
    using arg64_ok [of sp 6 vm] arg64_ok [of sp 7 vm] assms(2) by auto
  show ?thesis
    unfolding m3_wasi_generic_path_open_def fst_conv a xy at_state_simps tryR.simps
    using assms(3-6) by (simp add: check_mem_pair [OF assms(1)] host_read_mem [OF assms(1)])
qed

theorem path_open_unchecked_directory_witness:
  "m3_wasi_generic_path_open sample_host 0 (sample_call [5, 0, 0, 1, 0, 2, 0, 0, 4] (replicate 16 97), sample_state [])
     = Inl (C_undefined, (sample_call [5, 0, 0, 1, 0, 2, 0, 0, 4] (replicate 16 97), sample_state []))"
proof -
  have m: "memory_is (sample_call [5, 0, 0, 1, 0, 2, 0, 0, 4] (replicate 16 97)) (replicate 16 97)" by (rule sample_call_memory) simp
  show ?thesis by (rule path_open_unchecked_directory [OF m]) (simp_all add: sample_call_def)
qed

section \<open>\<^verbatim>\<open>fd_write\<close>\<close>

lemma copy_iov_exact:
  assumes "memory_is vm bs"
    and "\<And>k. k < length iovs \<Longrightarrow> m3ApiReadMem32 vm (p + 8 * k) = Inr (fst (iovs ! k)) \<and> m3ApiReadMem32 vm (p + 8 * k + 4) = Inr (snd (iovs ! k))"
    and "\<And>iov. iov \<in> set iovs \<Longrightarrow> unat (fst iov) + unat (snd iov) \<le> length bs"
  shows "copy_iov_to_host (length iovs) p (vm, w) = Inr (map (\<lambda>iov. (unat (fst iov), unat (snd iov))) iovs)"
  using assms(2,3)
proof (induction iovs arbitrary: p)
  case (Cons iov iovs)
  have 0: "m3ApiReadMem32 vm p = Inr (fst iov)" "m3ApiReadMem32 vm (p + 4) = Inr (snd iov)" using Cons.prems(1) [of 0] by simp_all
  have "copy_iov_to_host (length iovs) (p + 8) (vm, w) = Inr (map (\<lambda>iov. (unat (fst iov), unat (snd iov))) iovs)"
    using Cons.prems(1) [of "Suc k" for k] Cons.prems(2) by (intro Cons.IH) (simp_all add: algebra_simps)
  then show ?case using 0 Cons.prems(2) by (simp add: at_state_def check_mem_pair [OF assms(1)])
qed simp

lemma gather_exact:
  assumes "memory_is vm bs" "\<And>iov. iov \<in> set iovs \<Longrightarrow> fst iov + snd iov \<le> length bs"
  shows "gather_iov iovs vm = Inr (map (\<lambda>iov. take (snd iov) (drop (fst iov) bs)) iovs)"
  using assms(2) by (induction iovs) (simp_all add: host_read_mem [OF assms(1)])

text \<open>C23: \<^verbatim>\<open>fd_write\<close> hands the system exactly the bytes that the module named: for a table of buffers in the
  linear memory, the contents of these buffers in their order, for the descriptor of the call; the
  count that the system answers is stored for the module, and nothing else in the memory changes. That
  needs a number of buffers for which the C stack has room: with none, or with more, the array is undefined.\<close>

theorem fd_write_exact:
  assumes "memory_is vm bs" "sp + 20 \<le> length (vm_stack vm)"
    and "fd = vm_stack vm ! (sp + 2)" "p = unat (vm_stack vm ! (sp + 4))" "n = unat (vm_stack vm ! (sp + 8))"
    and "length iovs = unat (vm_stack vm ! (sp + 6))" "p + 8 * length iovs \<le> length bs" "n + 4 \<le> length bs"
    and "\<forall>k < length iovs. m3ApiReadMem32 vm (p + 8 * k) = Inr (fst (iovs ! k)) \<and> m3ApiReadMem32 vm (p + 8 * k + 4) = Inr (snd (iovs ! k))"
    and "\<forall>iov \<in> set iovs. unat (fst iov) + unat (snd iov) \<le> length bs"
    and "os_writev H fd (map (\<lambda>iov. take (unat (snd iov)) (drop (unat (fst iov)) bs)) iovs) (world w) = (ret, w')" "0 \<le> ret"
  shows "m3_wasi_generic_fd_write H sp (vm, w) =
    (if 0 < length iovs \<and> length iovs \<le> vla_limit H
     then Inr ((put_data vm (overwrite bs n (le_bytes 4 (ucast (of_int ret :: u32)))))
           \<lparr>vm_stack := (vm_stack vm)[sp := errno_value H ERRNO_SUCCESS]\<rparr>, w\<lparr>world := w'\<rparr>)
     else Inl (C_undefined, (vm, w)))"
proof -
  let ?b = "overwrite bs n (le_bytes 4 (ucast (of_int ret :: u32)))"
  have a: "arg32 sp 1 vm = Inr fd" "m3ApiGetArgMem sp 2 vm = Inr p" "arg32 sp 3 vm = Inr (vm_stack vm ! (sp + 6))" "m3ApiGetArgMem sp 4 vm = Inr n"
    using arg32_ok [of sp 1 vm] arg_mem_ok [of sp 2 vm] arg32_ok [of sp 3 vm] arg_mem_ok [of sp 4 vm] assms(2-5) by simp_all
  have c: "copy_iov_to_host (unat (vm_stack vm ! (sp + 6))) p (vm, w) = Inr (map (\<lambda>iov. (unat (fst iov), unat (snd iov))) iovs)"
    unfolding assms(6) [symmetric] using assms(9,10) by (intro copy_iov_exact [OF assms(1)]) auto
  have g: "gather_iov (map (\<lambda>iov. (unat (fst iov), unat (snd iov))) iovs) vm = Inr (map (\<lambda>iov. take (unat (snd iov)) (drop (unat (fst iov)) bs)) iovs)"
    using assms(10) by (subst gather_exact [OF assms(1)]) auto
  have w1: "m3ApiWriteMem32 vm n (of_int ret) = Inr (put_data vm ?b)"
    using host_write_mem [OF assms(1), of n "le_bytes 4 (ucast (of_int ret :: u32))"] assms(8) by (simp add: m3ApiWriteMem32_def)
  have sp: "sp < length (vm_stack (put_data vm ?b))" using assms(2) by simp
  have v: "0 < length iovs \<and> length iovs \<le> vla_limit H \<longleftrightarrow> 0 < vm_stack vm ! (sp + 6) \<and> unat (vm_stack vm ! (sp + 6)) \<le> vla_limit H"
    unfolding assms(6) by (simp add: word_less_nat_alt)
  show ?thesis
    unfolding v
    unfolding m3_wasi_generic_fd_write_def fst_conv a at_state_simps tryR.simps
    using assms(6-8,11,12) c g w1 return_ok [OF sp, of "errno_value H ERRNO_SUCCESS" "w\<lparr>world := w'\<rparr>"]
    by (simp add: check_mem_pair [OF assms(1)] writing_def in_world_def wasi_return_def with_iovecs_def mult.commute)
qed

theorem fd_write_exact_witness:
  "\<exists>vm'. m3_wasi_generic_fd_write sample_host 0 (sample_call [1, 0, 1, 12] ([8, 0, 0, 0, 2, 0, 0, 0, 104, 105] @ replicate 6 0), sample_state [])
     = Inr (vm', (sample_state [])\<lparr>world := [[104, 105]]\<rparr>)"
proof -
  let ?bs = "[8, 0, 0, 0, 2, 0, 0, 0, 104, 105] @ replicate 6 0 :: u8 list"
  have m: "memory_is (sample_call [1, 0, 1, 12] ?bs) ?bs" by (rule sample_call_memory) simp
  have r: "m3ApiReadMem32 (sample_call [1, 0, 1, 12] ?bs) 0 = Inr 8" "m3ApiReadMem32 (sample_call [1, 0, 1, 12] ?bs) 4 = Inr 2"
    by code_simp+
  have w: "os_writev sample_host 1 (map (\<lambda>iov. take (unat (snd iov)) (drop (unat (fst iov)) ?bs)) [(8 :: u32, 2 :: u32)]) (world (sample_state []))
      = (2, [[104, 105]])" by code_simp
  have v: "vla_limit sample_host = 1024" by (simp add: sample_host_def)
  have l: "0 + 20 \<le> length (vm_stack (sample_call [1, 0, 1, 12] ?bs))" by (simp add: sample_call_def)
  have a: "1 = vm_stack (sample_call [1, 0, 1, 12] ?bs) ! (0 + 2)" "0 = unat (vm_stack (sample_call [1, 0, 1, 12] ?bs) ! (0 + 4))"
    "12 = unat (vm_stack (sample_call [1, 0, 1, 12] ?bs) ! (0 + 8))" "length [(8 :: u32, 2 :: u32)] = unat (vm_stack (sample_call [1, 0, 1, 12] ?bs) ! (0 + 6))"
    by (simp_all add: sample_call_def)
  show ?thesis using fd_write_exact [OF m l a(1-4) _ _ _ _ w] r v by simp
qed

section \<open>Time stamps\<close>

lemma timespec_exact:
  assumes "0 \<le> tv_nsec" "tv_nsec < 1000000000" "tv_sec < 2 ^ 63"
  shows "uint (convert_timespec tv_sec tv_nsec) =
    (if tv_sec < 0 then 0 else if tv_sec < 18446744073 then tv_sec * 1000000000 + tv_nsec else 2 ^ 64 - 1)"
proof (cases "tv_sec < 0")
  case False
  have u: "uint (of_int tv_sec :: u64) = tv_sec" using False assms(3) by (simp add: uint_word_of_int)
  have d: "(0xffffffffffffffff div 1000000000 :: u64) = 18446744073" by simp
  have ge: "(of_int tv_sec :: u64) \<ge> 18446744073 \<longleftrightarrow> tv_sec \<ge> 18446744073" using u by (simp add: word_le_def)
  show ?thesis
  proof (cases "tv_sec < 18446744073")
    case True
    have "of_int tv_sec * 1000000000 + of_int tv_nsec = (of_int (tv_sec * 1000000000 + tv_nsec) :: u64)" by simp
    moreover have "uint (of_int (tv_sec * 1000000000 + tv_nsec) :: u64) = tv_sec * 1000000000 + tv_nsec"
      unfolding uint_word_of_int using False True assms(1,2) by simp
    ultimately show ?thesis using False True ge unfolding convert_timespec_def d by simp
  next
    case big: False
    then show ?thesis using False ge unfolding convert_timespec_def d by simp
  qed
qed (simp add: convert_timespec_def)

text \<open>C24: the time stamp of \<^verbatim>\<open>clock_time_get\<close> never wraps around. For the seconds and nanoseconds of a clock
  that succeeds, the 64-bit value stored for the module is their number of nanoseconds, saturated to
  zero before the epoch and to the greatest value from second 18446744073 on; so a later time is never
  stored as a smaller value.\<close>

theorem clock_time_bounds:
  assumes "memory_is vm bs" "sp + 20 \<le> length (vm_stack vm)" "p = unat (vm_stack vm ! (sp + 6))" "p + 8 \<le> length bs"
    and "convert_clockid H (vm_stack vm ! (sp + 2)) = Some clk" "os_clock_gettime H clk (world w) = ((0, tv_sec, tv_nsec), w')"
    and "0 \<le> tv_nsec" "tv_nsec < 1000000000" "tv_sec < 2 ^ 63"
  shows "\<exists>t. m3_wasi_generic_clock_time_get H sp (vm, w) =
      Inr ((put_data vm (overwrite bs p (le_bytes 8 t)))\<lparr>vm_stack := (vm_stack vm)[sp := errno_value H ERRNO_SUCCESS]\<rparr>, w\<lparr>world := w'\<rparr>)
    \<and> uint t = (if tv_sec < 0 then 0 else if tv_sec < 18446744073 then tv_sec * 1000000000 + tv_nsec else 2 ^ 64 - 1)"
proof (intro exI conjI)
  let ?t = "convert_timespec tv_sec tv_nsec"
  let ?b = "overwrite bs p (le_bytes 8 ?t)"
  have a: "arg32 sp 1 vm = Inr (vm_stack vm ! (sp + 2))" "m3ApiGetArgMem sp 3 vm = Inr p"
    using arg32_ok [of sp 1 vm] arg_mem_ok [of sp 3 vm] assms(2,3) by simp_all
  obtain x where x: "m3ApiGetArg T_i64 sp 2 vm = Inr x" using arg64_ok [of sp 2 vm] assms(2) by auto
  have w1: "m3ApiWriteMem64 vm p ?t = Inr (put_data vm ?b)"
    using host_write_mem [OF assms(1), of p "le_bytes 8 ?t"] assms(4) by (simp add: m3ApiWriteMem64_def)
  have sp: "sp < length (vm_stack (put_data vm ?b))" using assms(2) by simp
  show "m3_wasi_generic_clock_time_get H sp (vm, w) =
      Inr ((put_data vm ?b)\<lparr>vm_stack := (vm_stack vm)[sp := errno_value H ERRNO_SUCCESS]\<rparr>, w\<lparr>world := w'\<rparr>)"
    unfolding m3_wasi_generic_clock_time_get_def fst_conv a x at_state_simps tryR.simps
    using assms(4-6) w1 return_ok [OF sp, of "errno_value H ERRNO_SUCCESS" "w\<lparr>world := w'\<rparr>"]
    by (simp add: check_mem_pair [OF assms(1)] writing_def in_world_def wasi_return_def)
  show "uint ?t = (if tv_sec < 0 then 0 else if tv_sec < 18446744073 then tv_sec * 1000000000 + tv_nsec else 2 ^ 64 - 1)"
    by (rule timespec_exact [OF assms(7-9)])
qed

theorem clock_time_bounds_witness:
  "\<exists>t s. m3_wasi_generic_clock_time_get sample_host 0 (sample_call [0, 0, 0] (replicate 8 0), sample_state []) = Inr s
     \<and> mallocated (vm_memory (fst s)) = Some \<lparr>mh_length = 8, mh_data = le_bytes 8 t\<rparr> \<and> uint t = 5000000007"
proof -
  let ?vm = "sample_call [0, 0, 0] (replicate 8 0)"
  have m: "memory_is ?vm (replicate 8 0)" by (rule sample_call_memory) simp
  have c: "convert_clockid sample_host (vm_stack ?vm ! (0 + 2)) = Some CLOCK_REALTIME" by code_simp
  have g: "os_clock_gettime sample_host CLOCK_REALTIME (world (sample_state [])) = ((0, 5, 7), [])" by code_simp
  have p: "(0 :: nat) = unat (vm_stack ?vm ! (0 + 6))" "0 + 20 \<le> length (vm_stack ?vm)" by (simp_all add: sample_call_def)
  obtain t where t: "m3_wasi_generic_clock_time_get sample_host 0 (?vm, sample_state []) =
      Inr ((put_data ?vm (overwrite (replicate 8 0) 0 (le_bytes 8 t)))\<lparr>vm_stack := (vm_stack ?vm)[0 := errno_value sample_host ERRNO_SUCCESS]\<rparr>,
        (sample_state [])\<lparr>world := []\<rparr>)" "uint t = 5000000007"
    using clock_time_bounds [OF m p(2,1) _ c g] by auto
  have "mallocated (vm_memory (put_data ?vm (overwrite (replicate 8 0) 0 (le_bytes 8 t)))) = Some \<lparr>mh_length = 8, mh_data = le_bytes 8 t\<rparr>"
    by (simp add: put_data_def set_mem_def sample_call_def sample_memory_def overwrite_def)
  then show ?thesis using t by (intro exI [of _ t]) simp
qed

text \<open>The argument "ab", its pointer at 0 and its characters at 8.\<close>

theorem args_roundtrip_witness:
  "\<exists>vm1 count size vm' bs' q.
      m3_wasi_generic_args_sizes_get sample_host 0 (sample_call [0, 4] (replicate 16 0), sample_state [[97, 98]]) = Inr (vm1, sample_state [[97, 98]])
    \<and> m3ApiReadMem32 vm1 0 = Inr count \<and> m3ApiReadMem32 vm1 4 = Inr size \<and> unat count = 1 \<and> unat size = 3
    \<and> m3_wasi_generic_args_get sample_host 0 (sample_call [0, 8] (replicate 16 0), sample_state [[97, 98]]) = Inr (vm', sample_state [[97, 98]])
    \<and> m3ApiReadMem32 vm' 0 = Inr q \<and> c_string bs' (unat q) [97, 98]"
proof -
  let ?vm = "sample_call [0, 4] (replicate 16 0)" and ?vm2 = "sample_call [0, 8] (replicate 16 0)" and ?c = "\<lparr>exit_code = 0, argc = 1, argv = [[97, 98]]\<rparr>"
  let ?w = "sample_state [[97, 98]]"
  have m: "memory_is ?vm (replicate 16 0)" "memory_is ?vm2 (replicate 16 0)" by (simp_all add: sample_call_memory)
  have s: "wasi_context ?w = Some ?c" by (simp add: sample_state_def)
  have p: "0 + 20 \<le> length (vm_stack ?vm)" "(0 :: nat) = unat (vm_stack ?vm ! (0 + 2))" "(4 :: nat) = unat (vm_stack ?vm ! (0 + 4))"
    "0 + 20 \<le> length (vm_stack ?vm2)" "(0 :: nat) = unat (vm_stack ?vm2 ! (0 + 2))" "(8 :: nat) = unat (vm_stack ?vm2 ! (0 + 4))"
    by (simp_all add: sample_call_def)
  have c: "unat (argc ?c) = length (argv ?c)" "\<forall>a \<in> set (argv ?c). 0 \<notin> set a" "args_room (argv ?c) < 2 ^ 32"
    "0 + 4 \<le> length (replicate 16 (0 :: u8))" "4 + 4 \<le> length (replicate 16 (0 :: u8))" "(0 :: nat) + 4 \<le> 4 \<or> (4 :: nat) + 4 \<le> 0" by simp_all
  obtain vm1 bs1 count size where 1: "m3_wasi_generic_args_sizes_get sample_host 0 (?vm, ?w) = Inr (vm1, ?w)"
    "m3ApiReadMem32 vm1 0 = Inr count" "m3ApiReadMem32 vm1 4 = Inr size" "unat count = length (argv ?c)" "unat size = args_room (argv ?c)"
    and 2: "\<forall>vm2 bs2 sp2 p b. memory_is vm2 bs2 \<longrightarrow> sp2 + 20 \<le> length (vm_stack vm2)
        \<longrightarrow> p = unat (vm_stack vm2 ! (sp2 + 2)) \<longrightarrow> b = unat (vm_stack vm2 ! (sp2 + 4))
        \<longrightarrow> p + 4 * unat count \<le> length bs2 \<longrightarrow> b + unat size \<le> length bs2 \<longrightarrow> p + 4 * unat count \<le> b \<or> b + unat size \<le> p
        \<longrightarrow> (\<exists>vm3 bs3. m3_wasi_generic_args_get sample_host sp2 (vm2, ?w) = Inr (vm3, ?w)
              \<and> vm_stack vm3 = (vm_stack vm2)[sp2 := errno_value sample_host ERRNO_SUCCESS] \<and> length bs3 = length bs2
              \<and> args_found (argv ?c) vm3 bs3 p b (unat size)
              \<and> (\<forall>j < length bs2. \<not> (p \<le> j \<and> j < p + 4 * unat count) \<longrightarrow> \<not> (b \<le> j \<and> j < b + unat size) \<longrightarrow> bs3 ! j = bs2 ! j))"
    using args_roundtrip [OF s c(1-3) m(1) p(1-3) c(4-6), of sample_host] by (elim exE conjE) (rule that; assumption)
  have room: "0 + 4 * unat count \<le> length (replicate 16 (0 :: u8))" "8 + unat size \<le> length (replicate 16 (0 :: u8))"
    "0 + 4 * unat count \<le> 8 \<or> 8 + unat size \<le> 0" using 1(4,5) by simp_all
  obtain vm3 bs3 where 3: "m3_wasi_generic_args_get sample_host 0 (?vm2, ?w) = Inr (vm3, ?w)" "args_found (argv ?c) vm3 bs3 0 8 (unat size)"
    using 2 [rule_format, OF m(2) p(4-6) room] by (elim exE conjE) (rule that; assumption)
  then obtain q where "m3ApiReadMem32 vm3 0 = Inr q" "c_string bs3 (unat q) [97, 98]"
    unfolding args_found_def by (auto dest!: spec [of _ 0])
  then show ?thesis using 1 3(1) by (intro exI [of _ vm1] exI [of _ count] exI [of _ size] exI [of _ vm3] exI [of _ bs3] exI [of _ q]) simp
qed

end
