(* ===== verification/Velum_Protocol.thy ===== *)
theory Velum_Protocol
  imports M3_Core
begin

text \<open>
  The wire format of the cluster, \<^verbatim>\<open>common/protocol.h\<close>: packed little-endian structs inside
  the 4096-byte payload of a message. A struct is a record, its image in memory a list of bytes;
  \<^verbatim>\<open>memcpy\<close> into the payload is \<open>store_at\<close>, undefined past its end.
\<close>

unbundle bit_operations_syntax

section \<open>Enumerations\<close>

text \<open>An \<^verbatim>\<open>enum class : uint8_t\<close> read from the network may hold any byte.\<close>

datatype MsgType = HEARTBEAT | STATUS_REPORT | TASK_REQUEST | TASK_RESULT | TASK_PROGRESS | MsgType_other u8

definition MsgType_of :: "u8 \<Rightarrow> MsgType" where
  "MsgType_of b = (if b = 0 then HEARTBEAT else if b = 1 then STATUS_REPORT else if b = 2 then TASK_REQUEST
     else if b = 3 then TASK_RESULT else if b = 4 then TASK_PROGRESS else MsgType_other b)"

fun MsgType_byte :: "MsgType \<Rightarrow> u8" where
  "MsgType_byte HEARTBEAT = 0"
| "MsgType_byte STATUS_REPORT = 1"
| "MsgType_byte TASK_REQUEST = 2"
| "MsgType_byte TASK_RESULT = 3"
| "MsgType_byte TASK_PROGRESS = 4"
| "MsgType_byte (MsgType_other b) = b"

datatype TaskOp = MATH_ADD | MATH_SUB | COMPUTE_PI | FIND_PRIMES | EXECUTE_WASM | TaskOp_other u8

definition TaskOp_of :: "u8 \<Rightarrow> TaskOp" where
  "TaskOp_of b = (if b = 0 then MATH_ADD else if b = 1 then MATH_SUB else if b = 2 then COMPUTE_PI
     else if b = 3 then FIND_PRIMES else if b = 4 then EXECUTE_WASM else TaskOp_other b)"

fun TaskOp_byte :: "TaskOp \<Rightarrow> u8" where
  "TaskOp_byte MATH_ADD = 0"
| "TaskOp_byte MATH_SUB = 1"
| "TaskOp_byte COMPUTE_PI = 2"
| "TaskOp_byte FIND_PRIMES = 3"
| "TaskOp_byte EXECUTE_WASM = 4"
| "TaskOp_byte (TaskOp_other b) = b"

lemma MsgType_byte_of [simp]: "MsgType_byte (MsgType_of b) = b"
  by (simp add: MsgType_of_def)

lemma TaskOp_byte_of [simp]: "TaskOp_byte (TaskOp_of b) = b"
  by (simp add: TaskOp_of_def)

section \<open>Structs\<close>

record TaskHeader =
  op_code :: TaskOp
  job_id :: u32

record MathArgs =
  ma_a :: u32
  ma_b :: u32

text \<open>\<open>func_name\<close> is the array of 32 characters.\<close>

record WasmArgs =
  binary_size :: u32
  func_name :: "u8 list"
  argc :: u32
  args_size :: u32

text \<open>\<open>tr_value\<close> holds the bits of the \<^verbatim>\<open>int32_t\<close>.\<close>

record TaskResult =
  tr_job_id :: u32
  tr_value :: u32
  tr_count :: u32

record NodeStatus =
  cpu_load :: u8
  ram_free_kb :: u16
  task_queue_len :: u8

record Message =
  sender_id :: u16
  mtype :: MsgType
  payload :: "u8 list"

abbreviation (input) payload_size :: nat where "payload_size \<equiv> 4096"

definition calculate_score :: "NodeStatus \<Rightarrow> int" where
  "calculate_score s =
    (let score = uint (ram_free_kb s);
         score = score - uint (cpu_load s) * 2;
         score = score - uint (task_queue_len s) * 10
     in score)"

section \<open>Bytes\<close>

definition bytes_u16 :: "u16 \<Rightarrow> u8 list" where
  "bytes_u16 v = [ucast v, ucast (drop_bit 8 v)]"

definition bytes_u32 :: "u32 \<Rightarrow> u8 list" where
  "bytes_u32 v = [ucast v, ucast (drop_bit 8 v), ucast (drop_bit 16 v), ucast (drop_bit 24 v)]"

definition le_u16 :: "u8 list \<Rightarrow> nat \<Rightarrow> u16" where
  "le_u16 w p = ucast (w ! p) OR push_bit 8 (ucast (w ! (p + 1)))"

definition bytes_TaskHeader :: "TaskHeader \<Rightarrow> u8 list" where
  "bytes_TaskHeader h = [TaskOp_byte (op_code h)] @ bytes_u32 (job_id h)"

definition bytes_WasmArgs :: "WasmArgs \<Rightarrow> u8 list" where
  "bytes_WasmArgs a = bytes_u32 (binary_size a) @ func_name a @ bytes_u32 (argc a) @ bytes_u32 (args_size a)"

definition bytes_TaskResult :: "TaskResult \<Rightarrow> u8 list" where
  "bytes_TaskResult r = bytes_u32 (tr_job_id r) @ bytes_u32 (tr_value r) @ bytes_u32 (tr_count r)"

definition bytes_NodeStatus :: "NodeStatus \<Rightarrow> u8 list" where
  "bytes_NodeStatus s = [cpu_load s] @ bytes_u16 (ram_free_kb s) @ [task_queue_len s]"

definition bytes_Message :: "Message \<Rightarrow> u8 list" where
  "bytes_Message m = bytes_u16 (sender_id m) @ [MsgType_byte (mtype m)] @ payload m"

text \<open>Reading a struct at an offset, as the casts of the payload pointer do.\<close>

definition get_TaskHeader :: "u8 list \<Rightarrow> TaskHeader" where
  "get_TaskHeader p = \<lparr>op_code = TaskOp_of (p ! 0), job_id = le_u32 p 1\<rparr>"

definition get_MathArgs :: "u8 list \<Rightarrow> nat \<Rightarrow> MathArgs" where
  "get_MathArgs p k = \<lparr>ma_a = le_u32 p k, ma_b = le_u32 p (k + 4)\<rparr>"

definition get_WasmArgs :: "u8 list \<Rightarrow> nat \<Rightarrow> WasmArgs" where
  "get_WasmArgs p k = \<lparr>binary_size = le_u32 p k, func_name = take 32 (drop (k + 4) p), argc = le_u32 p (k + 36),
     args_size = le_u32 p (k + 40)\<rparr>"

definition get_TaskResult :: "u8 list \<Rightarrow> TaskResult" where
  "get_TaskResult p = \<lparr>tr_job_id = le_u32 p 0, tr_value = le_u32 p 4, tr_count = le_u32 p 8\<rparr>"

definition get_NodeStatus :: "u8 list \<Rightarrow> NodeStatus" where
  "get_NodeStatus p = \<lparr>cpu_load = p ! 0, ram_free_kb = le_u16 p 1, task_queue_len = p ! 3\<rparr>"

definition get_Message :: "u8 list \<Rightarrow> Message" where
  "get_Message b = \<lparr>sender_id = le_u16 b 0, mtype = MsgType_of (b ! 2), payload = drop 3 b\<rparr>"

definition store_at :: "u8 list \<Rightarrow> nat \<Rightarrow> u8 list \<Rightarrow> u8 list result" where
  "store_at p off bs =
    (if off + length bs \<le> length p then Inr (take off p @ bs @ drop (off + length bs) p) else Inl C_undefined)"

section \<open>What is written is read back\<close>

lemma length_bytes [simp]: "length (bytes_u16 v) = 2" "length (bytes_u32 u) = 4"
  by (simp_all add: bytes_u16_def bytes_u32_def)

lemma length_structs [simp]:
  "length (bytes_TaskHeader h) = 5" "length (bytes_TaskResult r) = 12" "length (bytes_NodeStatus s) = 4"
  "length (func_name a) = 32 \<Longrightarrow> length (bytes_WasmArgs a) = 44"
  by (simp_all add: bytes_TaskHeader_def bytes_TaskResult_def bytes_NodeStatus_def bytes_WasmArgs_def)

lemma le_u32_at: "le_u32 (pre @ bytes_u32 v @ post) (length pre) = v"
proof (rule bit_word_eqI)
  fix n assume "n < LENGTH(32)"
  then consider "n < 8" | "8 \<le> n \<and> n < 16" | "16 \<le> n \<and> n < 24" | "24 \<le> n \<and> n < 32" by fastforce
  then show "bit (le_u32 (pre @ bytes_u32 v @ post) (length pre)) n = bit v n"
    by cases (auto simp: le_u32_def bytes_u32_def nth_append bit_simps)
qed

lemma le_u16_at: "le_u16 (pre @ bytes_u16 v @ post) (length pre) = v"
proof (rule bit_word_eqI)
  fix n assume "n < LENGTH(16)"
  then consider "n < 8" | "8 \<le> n \<and> n < 16" by fastforce
  then show "bit (le_u16 (pre @ bytes_u16 v @ post) (length pre)) n = bit v n"
    by cases (auto simp: le_u16_def bytes_u16_def nth_append bit_simps)
qed

lemma le_at:
  "length pre = k \<Longrightarrow> le_u32 (pre @ bytes_u32 v @ post) k = v"
  "length pre = k \<Longrightarrow> le_u16 (pre @ bytes_u16 u @ post) k = u"
  using le_u32_at [of pre v post] le_u16_at [of pre u post] by auto

text \<open>The values an enumeration has: its names, or a byte that is none of them.\<close>

definition TaskOp_wf :: "TaskOp \<Rightarrow> bool" where
  "TaskOp_wf t = (TaskOp_of (TaskOp_byte t) = t)"

definition MsgType_wf :: "MsgType \<Rightarrow> bool" where
  "MsgType_wf t = (MsgType_of (MsgType_byte t) = t)"

lemma enum_wf [simp]: "TaskOp_wf (TaskOp_of b)" "MsgType_wf (MsgType_of b)"
  "TaskOp_wf MATH_ADD" "TaskOp_wf MATH_SUB" "TaskOp_wf COMPUTE_PI" "TaskOp_wf FIND_PRIMES" "TaskOp_wf EXECUTE_WASM"
  "MsgType_wf HEARTBEAT" "MsgType_wf STATUS_REPORT" "MsgType_wf TASK_REQUEST" "MsgType_wf TASK_RESULT" "MsgType_wf TASK_PROGRESS"
  by (simp_all add: TaskOp_wf_def MsgType_wf_def) (simp_all add: TaskOp_of_def MsgType_of_def)

lemma get_TaskHeader_bytes: "TaskOp_wf (op_code h) \<Longrightarrow> get_TaskHeader (bytes_TaskHeader h @ post) = h"
  using le_at(1) [of "[TaskOp_byte (op_code h)]" 1 "job_id h" post]
  by (simp add: get_TaskHeader_def bytes_TaskHeader_def TaskOp_wf_def)

lemma get_WasmArgs_bytes:
  assumes "length pre = k" "length (func_name a) = 32"
  shows "get_WasmArgs (pre @ bytes_WasmArgs a @ post) k = a"
proof -
  let ?w = "pre @ bytes_WasmArgs a @ post"
  have "le_u32 ?w k = binary_size a"
    using le_at(1) [of pre k "binary_size a" "func_name a @ bytes_u32 (argc a) @ bytes_u32 (args_size a) @ post"] assms
    by (simp add: bytes_WasmArgs_def)
  moreover have "le_u32 ?w (k + 36) = argc a"
    using le_at(1) [of "pre @ bytes_u32 (binary_size a) @ func_name a" "k + 36" "argc a" "bytes_u32 (args_size a) @ post"] assms
    by (simp add: bytes_WasmArgs_def)
  moreover have "le_u32 ?w (k + 40) = args_size a"
    using le_at(1) [of "pre @ bytes_u32 (binary_size a) @ func_name a @ bytes_u32 (argc a)" "k + 40" "args_size a" post] assms
    by (simp add: bytes_WasmArgs_def)
  moreover have "take 32 (drop (k + 4) ?w) = func_name a"
    using assms by (simp add: bytes_WasmArgs_def)
  ultimately show ?thesis by (simp add: get_WasmArgs_def)
qed

lemma get_TaskResult_bytes: "get_TaskResult (bytes_TaskResult r @ post) = r"
proof -
  let ?w = "bytes_TaskResult r @ post"
  have "le_u32 ?w 0 = tr_job_id r" "le_u32 ?w 4 = tr_value r" "le_u32 ?w 8 = tr_count r"
    using le_at(1) [of "[]" 0 "tr_job_id r" "bytes_u32 (tr_value r) @ bytes_u32 (tr_count r) @ post"]
      le_at(1) [of "bytes_u32 (tr_job_id r)" 4 "tr_value r" "bytes_u32 (tr_count r) @ post"]
      le_at(1) [of "bytes_u32 (tr_job_id r) @ bytes_u32 (tr_value r)" 8 "tr_count r" post]
    by (simp_all add: bytes_TaskResult_def)
  then show ?thesis by (simp add: get_TaskResult_def)
qed

lemma get_NodeStatus_bytes: "get_NodeStatus (bytes_NodeStatus s @ post) = s"
  using le_at(2) [of "[cpu_load s]" 1 "ram_free_kb s" "[task_queue_len s] @ post"]
  by (simp add: get_NodeStatus_def bytes_NodeStatus_def nth_append)

lemma get_Message_bytes: "MsgType_wf (mtype m) \<Longrightarrow> get_Message (bytes_Message m) = m"
  using le_at(2) [of "[]" 0 "sender_id m" "[MsgType_byte (mtype m)] @ payload m"]
  by (simp add: get_Message_def bytes_Message_def nth_append MsgType_wf_def)

text \<open>Every message survives the wire: its bytes, of the size \<^verbatim>\<open>sizeof (Message)\<close> that
  \<^verbatim>\<open>send\<close> and \<^verbatim>\<open>read\<close> use, read back as the same sender, type and payload, and the payloads of a
  result and of a status report read back as the same struct whatever bytes follow them.\<close>

theorem message_roundtrip:
  assumes "MsgType_wf (mtype m)" "length (payload m) = payload_size"
  shows "length (bytes_Message m) = 4099 \<and> get_Message (bytes_Message m) = m
    \<and> get_TaskResult (bytes_TaskResult r @ rest) = r \<and> get_NodeStatus (bytes_NodeStatus s @ rest) = s"
  using assms get_Message_bytes get_TaskResult_bytes get_NodeStatus_bytes by (simp add: bytes_Message_def)

definition example_message :: Message where
  "example_message = \<lparr>sender_id = 3, mtype = TASK_RESULT, payload = replicate payload_size 0\<rparr>"

theorem message_roundtrip_witness:
  "get_Message (bytes_Message example_message) = example_message"
  using message_roundtrip [of example_message] by (simp add: example_message_def)

text \<open>The score is a penalty on load and queue: more of either never raises it.\<close>

lemma calculate_score_bounds: "- 3060 \<le> calculate_score s \<and> calculate_score s \<le> 65535"
proof -
  have "uint (ram_free_kb s) < 65536" "uint (cpu_load s) < 256" "uint (task_queue_len s) < 256"
    using unsigned_less [where ?'a = int, of "ram_free_kb s"] unsigned_less [where ?'a = int, of "cpu_load s"]
      unsigned_less [where ?'a = int, of "task_queue_len s"] by simp_all
  then show ?thesis
    using unsigned_greater_eq [where ?'a = int, of "ram_free_kb s"] unsigned_greater_eq [where ?'a = int, of "cpu_load s"]
      unsigned_greater_eq [where ?'a = int, of "task_queue_len s"]
    unfolding calculate_score_def Let_def by linarith
qed

end
