(* ===== verification/Velum_Tasks.thy ===== *)
theory Velum_Tasks
  imports Prelude
begin

text \<open>
  The two benchmark tasks of \<^verbatim>\<open>src/user_tasks.cpp\<close>. The random points of the \<open>\<pi>\<close> task are a
  parameter: \<open>hit k\<close> says whether the \<open>k\<close>-th point drawn from \<^verbatim>\<open>rand\<close> lies in the circle. The
  sleeps are not modelled.
\<close>

section \<open>Monte Carlo\<close>

text \<open>\<open>drawn\<close> is the number of points drawn before; it is returned advanced, with the count.\<close>

fun compute_pi_loop :: "(nat \<Rightarrow> bool) \<Rightarrow> nat \<Rightarrow> nat \<Rightarrow> nat \<Rightarrow> nat \<times> nat" where
  "compute_pi_loop hit 0 drawn inside = (inside, drawn)"
| "compute_pi_loop hit (Suc n) drawn inside = compute_pi_loop hit n (drawn + 1) (if hit drawn then inside + 1 else inside)"

definition task_compute_pi :: "(nat \<Rightarrow> bool) \<Rightarrow> u32 \<Rightarrow> nat \<Rightarrow> nat \<times> nat" where
  "task_compute_pi hit iterations drawn = compute_pi_loop hit (unat iterations) drawn 0"

lemma compute_pi_loop_eq:
  "compute_pi_loop hit n drawn inside = (inside + length (filter hit [drawn ..< drawn + n]), drawn + n)"
proof (induction n arbitrary: drawn inside)
  case (Suc n)
  then show ?case by (simp add: upt_conv_Cons del: upt_Suc)
qed simp

lemma task_compute_pi_bound: "task_compute_pi hit n drawn = (v, d) \<Longrightarrow> v \<le> unat n \<and> d = drawn + unat n"
proof -
  have "length (filter hit xs) \<le> length xs" for xs :: "nat list" by (rule length_filter_le)
  from this [of "[drawn ..< drawn + unat n]"]
  show "task_compute_pi hit n drawn = (v, d) \<Longrightarrow> v \<le> unat n \<and> d = drawn + unat n"
    by (auto simp: task_compute_pi_def compute_pi_loop_eq)
qed

section \<open>Primes\<close>

text \<open>
  The inner loop: whether \<open>num\<close> counts as prime. \<^verbatim>\<open>div * div\<close> wraps at 32 bits; the remainder by
  zero, were \<open>div\<close> to wrap, is undefined.
\<close>

function prime_loop :: "u32 \<Rightarrow> u32 \<Rightarrow> bool result" where
  "prime_loop num dv =
    (if dv * dv \<le> num then
       if dv = 0 then Inl C_undefined
       else if num mod dv = 0 then Inr False
       else prime_loop num (dv + 1)
     else Inr True)"
  by pat_completeness auto
termination
proof (relation "measure (\<lambda>(num, dv). if dv = 0 then 0 else 2 ^ 32 - unat dv)", goal_cases)
  case (2 num dv)
  have "unat (dv + 1) = unat dv + 1" if "dv + 1 \<noteq> 0" using unatSuc [of dv] that by (simp add: add.commute)
  then show ?case using 2(2) unat_lt32 [of dv] unat_lt32 [of "dv + 1"] by auto
qed simp

declare prime_loop.simps [simp del]

function find_primes_loop :: "u32 \<Rightarrow> u32 \<Rightarrow> nat \<Rightarrow> nat result" where
  "find_primes_loop limit num count =
    (if num < limit then
       tryR (prime_loop num 2) (\<lambda>prime. find_primes_loop limit (num + 1) (if prime then count + 1 else count))
     else Inr count)"
  by pat_completeness auto
termination
  by (relation "measure (\<lambda>(limit, num, c). unat limit - unat num)") (auto simp: unat_inc_below word_less_nat_alt)

declare find_primes_loop.simps [simp del]

definition task_find_primes :: "u32 \<Rightarrow> nat result" where
  "task_find_primes limit = find_primes_loop limit 2 0"

section \<open>Primality by trial division\<close>

definition is_prime :: "nat \<Rightarrow> bool" where
  "is_prime n \<longleftrightarrow> 1 < n \<and> (\<forall>d. 1 < d \<and> d < n \<longrightarrow> \<not> d dvd n)"

definition primes_below :: "nat \<Rightarrow> nat" where
  "primes_below n = card {p. p < n \<and> is_prime p}"

lemma small_divisor:
  assumes "1 < d" "d < n" "d dvd n"
  shows "\<exists>e. 1 < e \<and> e * e \<le> n \<and> e dvd (n :: nat)"
proof -
  obtain k where k: "n = d * k" using assms(3) by (elim dvdE)
  have "1 < k" using assms k by (cases "k = 0 \<or> k = 1") auto
  show ?thesis
  proof (cases "d \<le> k")
    case True
    then have "d * d \<le> n" using k by simp
    then show ?thesis using assms by blast
  next
    case False
    then have "k * k \<le> n" using k by simp
    then show ?thesis using \<open>1 < k\<close> k by auto
  qed
qed

lemma is_prime_iff_sqrt: "is_prime n \<longleftrightarrow> 1 < n \<and> (\<forall>d. 1 < d \<and> d * d \<le> n \<longrightarrow> \<not> d dvd n)"
proof -
  have "d < n" if "1 < d" "d * d \<le> n" for d
  proof -
    have "d * 1 < d * d" using that by simp
    then show ?thesis using that by linarith
  qed
  then show ?thesis using small_divisor unfolding is_prime_def by metis
qed

lemma prime_loop_correct:
  assumes "unat num < 65535 * 65535" "2 \<le> unat dv" "\<forall>d. 1 < d \<and> d < unat dv \<longrightarrow> \<not> d dvd unat num" "unat dv \<le> 65535"
  shows "prime_loop num dv = Inr (\<forall>d. 1 < d \<and> d * d \<le> unat num \<longrightarrow> \<not> d dvd unat num)"
  using assms
proof (induction num dv rule: prime_loop.induct)
  case (1 num dv)
  have "unat dv * unat dv \<le> 65535 * 65535" using 1(5) by (intro mult_le_mono)
  then have "unat dv * unat dv < 2 ^ LENGTH(32)" by simp
  then have sq: "unat (dv * dv) = unat dv * unat dv" by (simp only: unat_mult_lem)
  have nz: "dv \<noteq> 0" using 1(3) by auto
  show ?case
  proof (cases "dv * dv \<le> num")
    case le: True
    then have le': "unat dv * unat dv \<le> unat num" using sq by (simp add: word_le_nat_alt)
    show ?thesis
    proof (cases "num mod dv = 0")
      case True
      then have "unat dv dvd unat num" by (metis dvd_eq_mod_eq_0 unat_mod_distrib unsigned_0)
      then have "\<not> (\<forall>d. 1 < d \<and> d * d \<le> unat num \<longrightarrow> \<not> d dvd unat num)"
        using le' 1(3) by (intro notI) (drule spec [of _ "unat dv"], simp)
      moreover have "prime_loop num dv = Inr False" using le nz True by (subst prime_loop.simps) simp
      ultimately show ?thesis by simp
    next
      case False
      then have nd: "\<not> unat dv dvd unat num" by (metis dvd_eq_mod_eq_0 unat_mod_distrib unsigned_eq_0_iff)
      have "unat dv < 65535"
      proof (rule ccontr)
        assume "\<not> unat dv < 65535"
        then have "65535 * 65535 \<le> unat dv * unat dv" by (intro mult_le_mono) auto
        then show False using le' 1(2) by simp
      qed
      then have u: "unat (dv + 1) = unat dv + 1" using unat_inc_below [of dv "65535"] by (simp add: word_less_nat_alt)
      have "\<forall>d. 1 < d \<and> d < unat (dv + 1) \<longrightarrow> \<not> d dvd unat num"
        using 1(4) nd u by (metis less_SucE Suc_eq_plus1)
      then show ?thesis using 1(1) [OF le nz False 1(2)] le nz False u 1(3) \<open>unat dv < 65535\<close>
        by (subst prime_loop.simps) simp
    qed
  next
    case False
    then have lt: "unat num < unat dv * unat dv" using sq by (simp add: word_le_nat_alt)
    have "\<not> d dvd unat num" if "1 < d" "d * d \<le> unat num" for d
    proof -
      have "d < unat dv" using that(2) lt by (metis le_less_trans mult_le_mono nat_le_linear not_le)
      then show ?thesis using 1(4) that(1) by blast
    qed
    then show ?thesis using False by (subst prime_loop.simps) simp
  qed
qed

lemma prime_loop_is_prime:
  assumes "2 \<le> unat num" "unat num < 65535 * 65535"
  shows "prime_loop num 2 = Inr (is_prime (unat num))"
proof -
  have "prime_loop num 2 = Inr (\<forall>d. 1 < d \<and> d * d \<le> unat num \<longrightarrow> \<not> d dvd unat num)"
    by (rule prime_loop_correct [OF assms(2)]) auto
  then show ?thesis using assms(1) by (simp add: is_prime_iff_sqrt)
qed

lemma primes_below_Suc: "primes_below (Suc n) = primes_below n + (if is_prime n then 1 else 0)"
proof -
  have "{p. p < Suc n \<and> is_prime p} = (if is_prime n then insert n {p. p < n \<and> is_prime p} else {p. p < n \<and> is_prime p})"
    by (auto simp: less_Suc_eq)
  then show ?thesis by (simp add: primes_below_def)
qed

lemma find_primes_loop_correct:
  assumes "unat limit \<le> 65535 * 65535" "2 \<le> unat num" "unat num \<le> unat limit" "count = primes_below (unat num)"
  shows "find_primes_loop limit num count = Inr (primes_below (unat limit))"
  using assms
proof (induction limit num count rule: find_primes_loop.induct)
  case (1 limit num count)
  show ?case
  proof (cases "num < limit")
    case lt: True
    then have u: "unat (num + 1) = unat num + 1" by (rule unat_inc_below)
    have p: "prime_loop num 2 = Inr (is_prime (unat num))"
      by (rule prime_loop_is_prime) (use 1(2,3) lt in \<open>auto simp: word_less_nat_alt\<close>)
    have "find_primes_loop limit (num + 1) (if is_prime (unat num) then count + 1 else count) = Inr (primes_below (unat limit))"
      by (rule 1(1) [OF lt p]) (use 1(2-5) lt u in \<open>auto simp: word_less_nat_alt primes_below_Suc\<close>)
    then show ?thesis using lt p by (subst find_primes_loop.simps) simp
  next
    case False
    then have "unat num = unat limit" using 1(4) by (simp add: word_less_nat_alt)
    then show ?thesis using False 1(5) by (subst find_primes_loop.simps) simp
  qed
qed

lemma primes_below_two: "n \<le> 2 \<Longrightarrow> primes_below n = 0"
  by (auto simp: primes_below_def is_prime_def)

lemma task_find_primes_count:
  assumes "unat limit \<le> 65535 * 65535"
  shows "task_find_primes limit = Inr (primes_below (unat limit))"
proof (cases "2 \<le> unat limit")
  case True
  then show ?thesis using find_primes_loop_correct [OF assms, of 2 0] primes_below_two [of 2]
    by (simp add: task_find_primes_def)
next
  case False
  then have "\<not> 2 < limit" by (simp add: word_less_nat_alt)
  then show ?thesis using False primes_below_two [of "unat limit"]
    by (simp add: task_find_primes_def find_primes_loop.simps)
qed

text \<open>C31: \<^verbatim>\<open>task_find_primes\<close> terminates without a division by zero and counts exactly the primes
  below its limit, for every limit up to 65535 squared; the trial divisors stop at the square root.\<close>

theorem find_primes_correct:
  assumes "limit \<le> 4294836225"
  shows "task_find_primes limit = Inr (primes_below (unat limit))"
  by (rule task_find_primes_count) (use assms in \<open>simp add: word_le_nat_alt\<close>)

theorem find_primes_correct_witness:
  "task_find_primes 30 = Inr (primes_below 30)"
  using find_primes_correct [of 30] by simp

section \<open>Where the trial division stops working\<close>

text \<open>From 65535 squared on, the square wraps before it passes the number, so a prime is divided by
  itself in the end.\<close>

lemma prime_loop_no_exit:
  assumes "\<And>d. d * d \<le> num" "2 \<le> unat dv" "unat dv \<le> unat num"
  shows "prime_loop num dv = Inr False"
  using assms
proof (induction num dv rule: prime_loop.induct)
  case (1 num dv)
  have nz: "dv \<noteq> 0" using 1(3) by auto
  show ?case
  proof (cases "num mod dv = 0")
    case False
    then have "dv \<noteq> num" using nz by auto
    then have lt: "dv < num" using 1(4) by (simp add: word_less_nat_alt le_less word_unat_eq_iff)
    have "prime_loop num (dv + 1) = Inr False"
      by (rule 1(1) [OF 1(2) nz False 1(2)]) (use unat_inc_below [OF lt] 1(3) lt in \<open>auto simp: word_less_nat_alt\<close>)
    then show ?thesis using False nz 1(2) by (subst prime_loop.simps) simp
  qed (use nz 1(2) in \<open>subst prime_loop.simps, simp\<close>)
qed

lemma square_mod_16: "(n * n) mod 16 \<in> {0, 1, 4, 9 :: nat}"
proof -
  have "list_all (\<lambda>m. (m * m) mod 16 \<in> {0, 1, 4, 9 :: nat}) [0 ..< 16]" by code_simp
  then have "((n mod 16) * (n mod 16)) mod 16 \<in> {0, 1, 4, 9}" by (auto simp: list_all_iff)
  then show ?thesis by (simp add: mod_mult_eq)
qed

lemma square_below_top: "d * d \<le> (4294967291 :: u32)"
proof -
  have u: "unat (d * d) = (unat d * unat d) mod 2 ^ 32"
    using unat_word_ariths(2) [of d d] by simp
  have "(unat d * unat d) mod 2 ^ 32 mod 16 = (unat d * unat d) mod 16" by (rule mod_mod_cancel) simp
  then have res: "unat (d * d) mod 16 \<in> {0, 1, 4, 9}" using square_mod_16 [of "unat d"] u by simp
  have top: "m \<le> 4294967291" if m: "m mod 16 \<in> {0, 1, 4, 9}" "m < 4294967296" for m :: nat
  proof (rule ccontr)
    assume "\<not> m \<le> 4294967291"
    then have "m \<in> {4294967292, 4294967293, 4294967294, 4294967295}" using m(2) by auto
    then show False using m(1) by auto
  qed
  have "unat (d * d) \<le> 4294967291" by (rule top [OF res unat_lt32])
  then show ?thesis by (simp add: word_le_nat_alt)
qed

text \<open>The bound of the previous property cannot be dropped: 4294967291, the largest prime below
  2 to the 32, is taken for composite. The wrapped square of no divisor exceeds it, so the loop only ends
  when the number is divided by itself.\<close>

theorem largest_prime_missed: "prime_loop 4294967291 2 = Inr False"
  by (rule prime_loop_no_exit) (use square_below_top in auto)

end
