(* ===== verification/Velum_Node.thy ===== *)
theory Velum_Node
  imports Velum_Protocol Velum_Tasks
begin

text \<open>
  The node logic, \<^verbatim>\<open>src/node_logic.cpp\<close>: the table of the other nodes' load, the choice of a
  worker, and the execution of a task with its checkpoints. Messages sent are collected in the
  order they are sent, with the socket. A local \<^verbatim>\<open>Message\<close> is not initialised: \<open>junk\<close> are the
  4096 bytes its payload happens to hold.
\<close>

abbreviation (input) MAX_PEERS :: nat where "MAX_PEERS \<equiv> 16"

text \<open>\<open>cluster_status\<close> has \<^verbatim>\<open>MAX_PEERS + 1\<close> entries; \<open>drawn\<close> is the state of \<^verbatim>\<open>rand\<close>.\<close>

record node_state =
  cluster_status :: "NodeStatus list"
  drawn :: nat
  sent :: "(int \<times> Message) list"

definition zero_status :: NodeStatus where
  "zero_status = \<lparr>cpu_load = 0, ram_free_kb = 0, task_queue_len = 0\<rparr>"

definition mark_node_busy :: "int \<Rightarrow> node_state \<Rightarrow> node_state" where
  "mark_node_busy node_id s =
    (if 0 < node_id \<and> node_id \<le> int MAX_PEERS then
       let i = nat node_id in
       s\<lparr>cluster_status := (cluster_status s)[i := (cluster_status s ! i)\<lparr>task_queue_len := task_queue_len (cluster_status s ! i) + 1\<rparr>]\<rparr>
     else s)"

definition handle_disconnect :: "int \<Rightarrow> node_state \<Rightarrow> node_state" where
  "handle_disconnect node_id s =
    (if 0 < node_id \<and> node_id \<le> int MAX_PEERS
     then s\<lparr>cluster_status := (cluster_status s)[nat node_id := zero_status]\<rparr> else s)"

section \<open>The choice of a worker\<close>

fun find_best_loop :: "int \<Rightarrow> NodeStatus list \<Rightarrow> int \<Rightarrow> int \<Rightarrow> int \<Rightarrow> int" where
  "find_best_loop my_id [] current_id max_score best_node_id = best_node_id"
| "find_best_loop my_id (node # nodes) current_id max_score best_node_id =
    (if current_id = 0 \<or> current_id = my_id then find_best_loop my_id nodes (current_id + 1) max_score best_node_id
     else if ram_free_kb node > 0 \<and> calculate_score node > max_score
     then find_best_loop my_id nodes (current_id + 1) (calculate_score node) current_id
     else find_best_loop my_id nodes (current_id + 1) max_score best_node_id)"

definition find_best_node :: "int \<Rightarrow> node_state \<Rightarrow> int" where
  "find_best_node my_id s = find_best_loop my_id (cluster_status s) 0 (-10000) (-1)"

section \<open>Tasks\<close>

abbreviation (input) chunk_size :: u32 where "chunk_size \<equiv> 50000000"

text \<open>The work of one batch: the bits of the \<^verbatim>\<open>int\<close> and the generator's next state.\<close>

definition run_batch :: "(nat \<Rightarrow> bool) \<Rightarrow> TaskOp \<Rightarrow> u32 \<Rightarrow> nat \<Rightarrow> (u32 \<times> nat) result" where
  "run_batch hit op n d =
    (if op = COMPUTE_PI then (case task_compute_pi hit n d of (v, d) \<Rightarrow> Inr (of_nat v, d))
     else if op = FIND_PRIMES then tryR (task_find_primes n) (\<lambda>v. Inr (of_nat v, d))
     else Inr (0, d))"

definition result_message :: "int \<Rightarrow> u8 list \<Rightarrow> MsgType \<Rightarrow> TaskResult \<Rightarrow> Message result" where
  "result_message my_id junk type res =
    tryR (store_at junk 0 (bytes_TaskResult res)) (\<lambda>p.
      Inr \<lparr>sender_id = word_of_int my_id, mtype = type, payload = p\<rparr>)"

definition send_message :: "int \<Rightarrow> Message \<Rightarrow> node_state \<Rightarrow> node_state" where
  "send_message socket_fd msg s = s\<lparr>sent := sent s @ [(socket_fd, msg)]\<rparr>"

text \<open>The checkpoint loop.\<close>

function batch_loop :: "(nat \<Rightarrow> bool) \<Rightarrow> int \<Rightarrow> u8 list \<Rightarrow> int \<Rightarrow> TaskHeader \<Rightarrow> u32 \<Rightarrow> node_state \<Rightarrow> node_state result" where
  "batch_loop hit my_id junk src_socket header remain s =
    (if remain > 0 then
       let current_batch = (if remain > chunk_size then chunk_size else remain) in
       tryR (run_batch hit (op_code header) current_batch (drawn s)) (\<lambda>(chunk_result, d).
         let progress = \<lparr>tr_job_id = job_id header, tr_value = chunk_result, tr_count = current_batch\<rparr>;
             remain = remain - current_batch in
         tryR (result_message my_id junk (if remain = 0 then TASK_RESULT else TASK_PROGRESS) progress) (\<lambda>update.
           batch_loop hit my_id junk src_socket header remain (send_message src_socket update (s\<lparr>drawn := d\<rparr>))))
     else Inr s)"
  by pat_completeness auto
termination
  by (relation "measure (\<lambda>(h, i, j, sk, hd, remain, s). unat remain)")
    (auto simp: word_less_nat_alt unat_sub_if_size split: if_splits)

declare batch_loop.simps [simp del]

text \<open>\<^verbatim>\<open>int\<close> addition and subtraction; overflow is undefined.\<close>

definition c_int :: "int \<Rightarrow> u32 result" where
  "c_int x = (if - (2 ^ 31) \<le> x \<and> x < 2 ^ 31 then Inr (word_of_int x) else Inl C_undefined)"

definition small_task :: "(nat \<Rightarrow> bool) \<Rightarrow> TaskHeader \<Rightarrow> u8 list \<Rightarrow> nat \<Rightarrow> (TaskResult \<times> nat) result" where
  "small_task hit header p d =
    (let res = \<lparr>tr_job_id = job_id header, tr_value = 0, tr_count = 0\<rparr>;
         args = get_MathArgs p 5; iterations = le_u32 p 5 in
     case op_code header of
       MATH_ADD \<Rightarrow> tryR (c_int (sint (ma_a args) + sint (ma_b args))) (\<lambda>v. Inr (res\<lparr>tr_value := v\<rparr>, d))
     | MATH_SUB \<Rightarrow> tryR (c_int (sint (ma_a args) - sint (ma_b args))) (\<lambda>v. Inr (res\<lparr>tr_value := v\<rparr>, d))
     | COMPUTE_PI \<Rightarrow> (case task_compute_pi hit iterations d of (v, d) \<Rightarrow>
         Inr (res\<lparr>tr_value := of_nat v, tr_count := iterations\<rparr>, d))
     | FIND_PRIMES \<Rightarrow> tryR (task_find_primes iterations) (\<lambda>v. Inr (res\<lparr>tr_value := of_nat v\<rparr>, d))
     | _ \<Rightarrow> Inr (res, d))"

definition handle_task :: "(nat \<Rightarrow> bool) \<Rightarrow> int \<Rightarrow> u8 list \<Rightarrow> Message \<Rightarrow> int \<Rightarrow> node_state \<Rightarrow> node_state result" where
  "handle_task hit my_id junk msg src_socket s =
    (let header = get_TaskHeader (payload msg);
         total_work = (if op_code header = COMPUTE_PI \<or> op_code header = FIND_PRIMES then le_u32 (payload msg) 5 else 0) in
     if total_work > chunk_size then batch_loop hit my_id junk src_socket header total_work s
     else
       tryR (small_task hit header (payload msg) (drawn s)) (\<lambda>(res, d).
       tryR (result_message my_id junk TASK_RESULT res) (\<lambda>reply.
         Inr (send_message src_socket reply (s\<lparr>drawn := d\<rparr>)))))"

definition handle_message ::
    "(nat \<Rightarrow> bool) \<Rightarrow> int \<Rightarrow> u8 list \<Rightarrow> Message \<Rightarrow> int \<Rightarrow> node_state \<Rightarrow> node_state result" where
  "handle_message hit my_id junk msg src_socket s =
    (case mtype msg of
       STATUS_REPORT \<Rightarrow>
         (if unat (sender_id msg) \<le> MAX_PEERS
          then Inr (s\<lparr>cluster_status := (cluster_status s)[unat (sender_id msg) := get_NodeStatus (payload msg)]\<rparr>)
          else Inr s)
     | HEARTBEAT \<Rightarrow> Inr s
     | TASK_REQUEST \<Rightarrow> handle_task hit my_id junk msg src_socket s
     | TASK_RESULT \<Rightarrow> Inr s
     | TASK_PROGRESS \<Rightarrow> Inr s
     | MsgType_other _ \<Rightarrow> Inr s)"


section \<open>The worker chosen\<close>

definition eligible :: "int \<Rightarrow> node_state \<Rightarrow> int \<Rightarrow> bool" where
  "eligible my_id s i \<longleftrightarrow> 1 \<le> i \<and> i \<le> int MAX_PEERS \<and> i \<noteq> my_id \<and> ram_free_kb (cluster_status s ! nat i) > 0"

definition node_score :: "node_state \<Rightarrow> int \<Rightarrow> int" where
  "node_score s i = calculate_score (cluster_status s ! nat i)"

text \<open>The loop from index \<open>c\<close> on: the first of the candidates with the highest score above \<open>m\<close>.\<close>

lemma find_best_loop_max:
  fixes st :: "int \<Rightarrow> NodeStatus" and my :: int
  defines "cand \<equiv> \<lambda>c n m i. c \<le> i \<and> i < c + n \<and> i \<noteq> 0 \<and> i \<noteq> my \<and> ram_free_kb (st i) > 0 \<and> calculate_score (st i) > m"
  assumes "\<forall>k < length nodes. nodes ! k = st (c + int k)"
  shows "(let r = find_best_loop my nodes c m b; E = cand c (int (length nodes)) m in
      (r = b \<and> (\<forall>i. \<not> E i)) \<or>
      (E r \<and> (\<forall>i. E i \<longrightarrow> calculate_score (st i) \<le> calculate_score (st r) \<and> (calculate_score (st i) = calculate_score (st r) \<longrightarrow> r \<le> i))))"
  using assms(2)
proof (induction nodes arbitrary: c m b)
  case (Cons node nodes)
  let ?n = "int (length nodes)"
  let ?take = "c \<noteq> 0 \<and> c \<noteq> my \<and> ram_free_kb node > 0 \<and> calculate_score node > m"
  have node: "node = st c" using Cons.prems by (auto dest: spec [of _ 0])
  have tl: "\<forall>k < length nodes. nodes ! k = st (c + 1 + int k)"
  proof (intro allI impI)
    fix k assume "k < length nodes"
    then show "nodes ! k = st (c + 1 + int k)" using Cons.prems [rule_format, of "Suc k"] by (simp add: ac_simps)
  qed
  note IH = Cons.IH [OF tl, unfolded Let_def]
  have E: "cand c (int (length (node # nodes))) m i \<longleftrightarrow> (i = c \<and> ?take) \<or> cand (c + 1) ?n m i" for i
    by (cases "i = c") (auto simp: cand_def node)
  show ?case
  proof (cases ?take)
    case True
    then have r: "find_best_loop my (node # nodes) c m b = find_best_loop my nodes (c + 1) (calculate_score node) c" by simp
    have sub: "cand (c + 1) ?n m i \<longrightarrow> cand (c + 1) ?n (calculate_score node) i \<or> calculate_score (st i) \<le> calculate_score node \<and> c < i" for i
      by (auto simp: cand_def)
    have sup: "cand (c + 1) ?n (calculate_score node) i \<longrightarrow> cand (c + 1) ?n m i \<and> calculate_score (st c) < calculate_score (st i)" for i
      using True by (auto simp: cand_def node)
    show ?thesis unfolding Let_def r E using IH [of "calculate_score node" c] sub sup True node by (smt (verit))
  next
    case False
    then have r: "find_best_loop my (node # nodes) c m b = find_best_loop my nodes (c + 1) m b" by auto
    show ?thesis unfolding Let_def r E using IH [of m b] False by blast
  qed
qed (simp add: cand_def)

lemma find_best_node_spec:
  assumes "length (cluster_status s) = MAX_PEERS + 1"
  shows "if \<exists>i. eligible my_id s i
    then eligible my_id s (find_best_node my_id s)
      \<and> (\<forall>i. eligible my_id s i \<longrightarrow> node_score s i \<le> node_score s (find_best_node my_id s)
           \<and> (node_score s i = node_score s (find_best_node my_id s) \<longrightarrow> find_best_node my_id s \<le> i))
    else find_best_node my_id s = -1"
proof -
  have low: "- 10000 < calculate_score n" for n using calculate_score_bounds [of n] by simp
  have E: "0 \<le> i \<and> i < 0 + int (length (cluster_status s)) \<and> i \<noteq> 0 \<and> i \<noteq> my_id \<and> ram_free_kb (cluster_status s ! nat i) > 0
      \<and> calculate_score (cluster_status s ! nat i) > - 10000 \<longleftrightarrow> eligible my_id s i" for i
    using assms low by (auto simp: eligible_def)
  show ?thesis
    using find_best_loop_max [of "cluster_status s" "\<lambda>i. cluster_status s ! nat i" 0 my_id "-10000" "-1"]
    unfolding E Let_def find_best_node_def node_score_def by auto
qed

lemma find_best_node_eligible:
  assumes "length (cluster_status s) = MAX_PEERS + 1" "find_best_node my_id s \<noteq> -1"
  shows "eligible my_id s (find_best_node my_id s)"
  using find_best_node_spec [OF assms(1), of my_id] assms(2) by (auto split: if_splits)

text \<open>C25: The scheduler picks the best worker: it answers -1 exactly when no other node has reported
  free memory, and otherwise an eligible node, never itself and never the unused entry 0, whose
  score no eligible node exceeds; among equals the lowest id. No score is too low to be picked.\<close>

theorem find_best_node_correct:
  assumes "length (cluster_status s) = MAX_PEERS + 1"
  shows "if \<exists>i. eligible my_id s i
    then eligible my_id s (find_best_node my_id s)
      \<and> (\<forall>i. eligible my_id s i \<longrightarrow> node_score s i \<le> node_score s (find_best_node my_id s)
           \<and> (node_score s i = node_score s (find_best_node my_id s) \<longrightarrow> find_best_node my_id s \<le> i))
    else find_best_node my_id s = -1"
  by (rule find_best_node_spec [OF assms])

definition reported :: "nat \<Rightarrow> u16 \<Rightarrow> u8 \<Rightarrow> node_state \<Rightarrow> node_state" where
  "reported i ram queue s = s\<lparr>cluster_status := (cluster_status s)[i := \<lparr>cpu_load = 0, ram_free_kb = ram, task_queue_len = queue\<rparr>]\<rparr>"

definition fresh_node :: node_state where
  "fresh_node = \<lparr>cluster_status = replicate (MAX_PEERS + 1) zero_status, drawn = 0, sent = []\<rparr>"

theorem find_best_node_correct_witness:
  "eligible 1 (reported 2 100 0 (reported 3 100 0 fresh_node)) (find_best_node 1 (reported 2 100 0 (reported 3 100 0 fresh_node)))"
proof -
  let ?s = "reported 2 100 0 (reported 3 100 0 fresh_node)"
  have "length (cluster_status ?s) = MAX_PEERS + 1" "eligible 1 ?s 2"
    by (simp_all add: reported_def fresh_node_def eligible_def)
  with find_best_node_correct [of ?s 1] show ?thesis by (auto split: if_splits)
qed


section \<open>Checkpoints\<close>

text \<open>The points that fall in the circle among \<open>n\<close> draws from \<open>d\<close> on.\<close>

definition hits :: "(nat \<Rightarrow> bool) \<Rightarrow> nat \<Rightarrow> nat \<Rightarrow> nat" where
  "hits hit d n = length (filter hit [d ..< d + n])"

lemma hits_le: "hits hit d n \<le> n"
  using length_filter_le [of hit "[d ..< d + n]"] by (simp add: hits_def)

lemma hits_add: "hits hit d (m + n) = hits hit d m + hits hit (d + m) n"
proof -
  have "[d ..< d + (m + n)] = [d ..< d + m] @ [d + m ..< d + m + n]"
    using upt_add_eq_append [of d "d + m" n] by (simp add: add.assoc)
  then show ?thesis by (simp add: hits_def)
qed

text \<open>The value of a batch: the hits of its own draws, or the primes below its own size.\<close>

definition batch_value :: "(nat \<Rightarrow> bool) \<Rightarrow> TaskOp \<Rightarrow> nat \<Rightarrow> nat \<Rightarrow> nat" where
  "batch_value hit op d n = (if op = COMPUTE_PI then hits hit d n else primes_below n)"

lemma run_batch_ok:
  assumes "op = COMPUTE_PI \<or> op = FIND_PRIMES" "n \<le> chunk_size"
  shows "run_batch hit op n d = Inr (of_nat (batch_value hit op d (unat n)), if op = COMPUTE_PI then d + unat n else d)"
proof (cases "op = COMPUTE_PI")
  case True
  then show ?thesis by (simp add: run_batch_def batch_value_def task_compute_pi_def compute_pi_loop_eq hits_def)
next
  case False
  have "unat n \<le> 65535 * 65535" using assms(2) by (simp add: word_le_nat_alt)
  from task_find_primes_count [OF this] show ?thesis using False assms(1) by (simp add: run_batch_def batch_value_def)
qed

lemma primes_below_le: "primes_below n \<le> n"
proof (induction n)
  case 0
  then show ?case using primes_below_two [of 0] by simp
qed (simp add: primes_below_Suc)

lemma batch_value_le: "batch_value hit op d n \<le> n"
  using hits_le primes_below_le by (simp add: batch_value_def)

lemma result_message_ok:
  assumes "length junk = payload_size"
  shows "result_message my_id junk ty r = Inr \<lparr>sender_id = word_of_int my_id, mtype = ty, payload = bytes_TaskResult r @ drop 12 junk\<rparr>"
  using assms by (simp add: result_message_def store_at_def)

text \<open>A message of a job in batches: the sender, the job, a batch of legal size, and its value, for
  a batch whose draws start at \<open>d\<close>.\<close>

definition batch_message :: "(nat \<Rightarrow> bool) \<Rightarrow> TaskHeader \<Rightarrow> int \<Rightarrow> nat \<Rightarrow> Message \<Rightarrow> bool" where
  "batch_message hit header my_id d m \<longleftrightarrow> sender_id m = word_of_int my_id \<and> (let r = get_TaskResult (payload m) in
     tr_job_id r = job_id header \<and> 0 < tr_count r \<and> tr_count r \<le> chunk_size
     \<and> unat (tr_value r) = batch_value hit (op_code header) d (unat (tr_count r)))"

abbreviation message_count :: "Message \<Rightarrow> nat" where
  "message_count m \<equiv> unat (tr_count (get_TaskResult (payload m)))"

abbreviation message_value :: "Message \<Rightarrow> nat" where
  "message_value m \<equiv> unat (tr_value (get_TaskResult (payload m)))"

lemma batch_loop_ok:
  assumes "length junk = payload_size" "op_code header = COMPUTE_PI \<or> op_code header = FIND_PRIMES" "0 < remain"
  shows "\<exists>msgs d. batch_loop hit my_id junk sock header remain s = Inr (s\<lparr>drawn := d, sent := sent s @ map (Pair sock) msgs\<rparr>)
    \<and> sum_list (map message_count msgs) = unat remain
    \<and> (\<forall>k < length msgs. batch_message hit header my_id (drawn s + k * 50000000) (msgs ! k))
    \<and> map mtype msgs = replicate (length msgs - 1) TASK_PROGRESS @ [TASK_RESULT]
    \<and> (\<forall>m \<in> set (butlast msgs). message_count m = 50000000)
    \<and> (op_code header = COMPUTE_PI \<longrightarrow> sum_list (map message_value msgs) = hits hit (drawn s) (unat remain))"
  using assms(3)
proof (induction "unat remain" arbitrary: remain s rule: less_induct)
  case less
  let ?op = "op_code header"
  let ?b = "if remain > chunk_size then chunk_size else remain"
  let ?d = "if ?op = COMPUTE_PI then drawn s + unat ?b else drawn s"
  have b: "?b \<le> chunk_size" "0 < ?b" "?b \<le> remain" using less.prems by (auto simp: not_less)
  let ?v = "of_nat (batch_value hit ?op (drawn s) (unat ?b)) :: u32"
  have v: "unat ?v = batch_value hit ?op (drawn s) (unat ?b)"
    using batch_value_le [of hit ?op "drawn s" "unat ?b"] unat_lt32 [of ?b] by (intro unat_of_nat32) simp
  let ?r = "\<lparr>tr_job_id = job_id header, tr_value = ?v, tr_count = ?b\<rparr>"
  let ?m = "\<lparr>sender_id = word_of_int my_id, mtype = (if remain - ?b = 0 then TASK_RESULT else TASK_PROGRESS),
      payload = bytes_TaskResult ?r @ drop 12 junk\<rparr>"
  let ?s = "send_message sock ?m (s\<lparr>drawn := ?d\<rparr>)"
  have m: "batch_message hit header my_id (drawn s) ?m" "message_count ?m = unat ?b"
    "message_value ?m = batch_value hit ?op (drawn s) (unat ?b)"
    using v b by (simp_all add: batch_message_def get_TaskResult_bytes del: unat_of_nat)
  have bv: "?op = COMPUTE_PI \<Longrightarrow> batch_value hit ?op (drawn s) n = hits hit (drawn s) n" for n by (simp add: batch_value_def)
  have step: "batch_loop hit my_id junk sock header remain s = batch_loop hit my_id junk sock header (remain - ?b) ?s"
    by (subst batch_loop.simps) (simp add: less.prems run_batch_ok [OF assms(2) b(1)] Let_def result_message_ok [OF assms(1)])
  have u: "unat (remain - ?b) = unat remain - unat ?b" using b(3) by (intro unat_sub)
  show ?case
  proof (cases "remain - ?b = 0")
    case True
    then have e: "?b = remain" by simp
    have "?op = COMPUTE_PI \<longrightarrow> message_value ?m = hits hit (drawn s) (unat remain)"
      
    proof
      assume pi: "?op = COMPUTE_PI"
      have "hits hit (drawn s) (unat ?b) = hits hit (drawn s) (unat remain)" by (simp only: e)
      then show "message_value ?m = hits hit (drawn s) (unat remain)" using m(3) bv [OF pi] by (metis (no_types))
    qed
    then show ?thesis unfolding step using m(1,2) True
      by (intro exI [of _ "[?m]"] exI [of _ ?d]) (simp add: batch_loop.simps send_message_def)
  next
    case False
    then have big: "remain > chunk_size" by (auto split: if_splits)
    have pos: "0 < remain - ?b" using False by (simp add: word_neq_0_conv [symmetric])
    have "unat (remain - ?b) < unat remain" using u b by (simp add: word_less_nat_alt word_le_nat_alt)
    from less.hyps [OF this pos, of ?s] obtain msgs d' where IH:
      "batch_loop hit my_id junk sock header (remain - ?b) ?s = Inr (?s\<lparr>drawn := d', sent := sent ?s @ map (Pair sock) msgs\<rparr>)"
      "sum_list (map message_count msgs) = unat (remain - ?b)"
      "\<forall>k < length msgs. batch_message hit header my_id (drawn ?s + k * 50000000) (msgs ! k)"
      "map mtype msgs = replicate (length msgs - 1) TASK_PROGRESS @ [TASK_RESULT]"
      "\<forall>m \<in> set (butlast msgs). message_count m = 50000000"
      "?op = COMPUTE_PI \<longrightarrow> sum_list (map message_value msgs) = hits hit (drawn ?s) (unat (remain - ?b))" by blast
    have ne: "msgs \<noteq> []" using IH(4) by auto
    have t: "mtype ?m = TASK_PROGRESS" using False by simp
    have fullb: "unat ?b = 50000000" using big by simp
    have dr: "drawn ?s = ?d" by (simp add: send_message_def)
    have later: "batch_message hit header my_id (drawn s + Suc k * 50000000) (msgs ! k)" if "k < length msgs" for k
    proof -
      have "batch_message hit header my_id (?d + k * 50000000) (msgs ! k)" using IH(3) that unfolding dr by blast
      then show ?thesis using fullb by (cases "?op = COMPUTE_PI") (simp_all add: batch_message_def batch_value_def ac_simps)
    qed
    show ?thesis unfolding step IH(1)
    proof (intro exI [of _ "?m # msgs"] exI [of _ d'] conjI allI impI)
      show "sum_list (map message_count (?m # msgs)) = unat remain"
        using IH(2) m(2) u b(3) by (simp add: word_le_nat_alt)
      show "map mtype (?m # msgs) = replicate (length (?m # msgs) - 1) TASK_PROGRESS @ [TASK_RESULT]"
        using IH(4) ne t by (cases "length msgs") auto
      show "\<forall>m \<in> set (butlast (?m # msgs)). message_count m = 50000000" using IH(5) ne m(2) big by simp
      show "batch_message hit header my_id (drawn s + k * 50000000) ((?m # msgs) ! k)" if "k < length (?m # msgs)" for k
        using that later m(1) by (cases k) (simp_all del: mult_Suc)
      show "sum_list (map message_value (?m # msgs)) = hits hit (drawn s) (unat remain)" if pi: "?op = COMPUTE_PI"
      proof -
        have "unat remain = unat ?b + unat (remain - ?b)" using u b(3) by (simp add: word_le_nat_alt)
        then have "hits hit (drawn s) (unat remain) = hits hit (drawn s) (unat ?b) + hits hit (drawn s + unat ?b) (unat (remain - ?b))"
          by (simp only: hits_add)
        moreover have "sum_list (map message_value msgs) = hits hit (drawn s + unat ?b) (unat (remain - ?b))"
          using IH(6) pi unfolding dr by simp
        moreover have "message_value ?m = hits hit (drawn s) (unat ?b)" by (rule trans [OF m(3) bv [OF pi]])
        ultimately show ?thesis by (simp only: list.map sum_list.Cons)
      qed
    qed (simp add: send_message_def)
  qed
qed

lemma handle_message_batches:
  assumes "length junk = payload_size" "mtype msg = TASK_REQUEST"
    "op_code (get_TaskHeader (payload msg)) = COMPUTE_PI \<or> op_code (get_TaskHeader (payload msg)) = FIND_PRIMES"
    "le_u32 (payload msg) 5 > chunk_size"
  obtains msgs d where "handle_message hit my_id junk msg sock s = Inr (s\<lparr>drawn := d, sent := sent s @ map (Pair sock) msgs\<rparr>)"
    "sum_list (map message_count msgs) = unat (le_u32 (payload msg) 5)"
    "\<forall>k < length msgs. batch_message hit (get_TaskHeader (payload msg)) my_id (drawn s + k * 50000000) (msgs ! k)"
    "map mtype msgs = replicate (length msgs - 1) TASK_PROGRESS @ [TASK_RESULT]"
    "\<forall>m \<in> set (butlast msgs). message_count m = 50000000"
    "op_code (get_TaskHeader (payload msg)) = COMPUTE_PI \<longrightarrow>
      sum_list (map message_value msgs) = hits hit (drawn s) (unat (le_u32 (payload msg) 5))"
proof -
  have "0 < le_u32 (payload msg) 5" using assms(4) by (simp add: word_less_nat_alt)
  from batch_loop_ok [OF assms(1,3) this, of hit my_id sock s] show thesis
    using that assms by (auto simp: handle_message_def handle_task_def)
qed

text \<open>C26: How a long job is answered. A request for more than 50,000,000 units of \<open>\<pi>\<close> or prime
  work is answered, on the socket it came from, by one message per batch; each carries the node's
  id, the job id and a batch of at least 1 and at most 50,000,000 units; all batches before the
  last are full and the counts add up to the request; exactly the last message is a
  \<^verbatim>\<open>TASK_RESULT\<close>, all others are \<^verbatim>\<open>TASK_PROGRESS\<close>. The value of a \<open>\<pi>\<close> batch is the number of
  hits among the batch's own draws, which follow those of the batch before, so the values add up
  to the hits of all draws asked for; the value of a prime batch is the number of primes below the
  batch's own size, since every batch starts again from 2. The table of nodes is not touched.\<close>

theorem batches_cover_the_work:
  assumes "length junk = payload_size" "mtype msg = TASK_REQUEST"
    "op_code (get_TaskHeader (payload msg)) = COMPUTE_PI \<or> op_code (get_TaskHeader (payload msg)) = FIND_PRIMES"
    "le_u32 (payload msg) 5 > chunk_size"
  shows "\<exists>s' msgs. handle_message hit my_id junk msg sock s = Inr s' \<and> cluster_status s' = cluster_status s
    \<and> sent s' = sent s @ map (Pair sock) msgs
    \<and> sum_list (map message_count msgs) = unat (le_u32 (payload msg) 5)
    \<and> (\<forall>k < length msgs. batch_message hit (get_TaskHeader (payload msg)) my_id (drawn s + k * 50000000) (msgs ! k))
    \<and> (\<forall>m \<in> set (butlast msgs). message_count m = 50000000)
    \<and> map mtype msgs = replicate (length msgs - 1) TASK_PROGRESS @ [TASK_RESULT]
    \<and> (op_code (get_TaskHeader (payload msg)) = COMPUTE_PI \<longrightarrow>
        sum_list (map message_value msgs) = hits hit (drawn s) (unat (le_u32 (payload msg) 5)))"
proof (rule handle_message_batches [OF assms, of hit my_id sock s])
  fix msgs d
  assume h: "handle_message hit my_id junk msg sock s = Inr (s\<lparr>drawn := d, sent := sent s @ map (Pair sock) msgs\<rparr>)"
    "sum_list (map message_count msgs) = unat (le_u32 (payload msg) 5)"
    "\<forall>k < length msgs. batch_message hit (get_TaskHeader (payload msg)) my_id (drawn s + k * 50000000) (msgs ! k)"
    "map mtype msgs = replicate (length msgs - 1) TASK_PROGRESS @ [TASK_RESULT]"
    "\<forall>m \<in> set (butlast msgs). message_count m = 50000000"
    "op_code (get_TaskHeader (payload msg)) = COMPUTE_PI \<longrightarrow>
      sum_list (map message_value msgs) = hits hit (drawn s) (unat (le_u32 (payload msg) 5))"
  show ?thesis by (rule exI, rule exI [of _ msgs], intro conjI) (rule h(1) h(2) h(3) h(4) h(5) h(6) | simp)+
qed

definition request :: "TaskOp \<Rightarrow> u32 \<Rightarrow> Message" where
  "request op n = \<lparr>sender_id = 2, mtype = TASK_REQUEST,
     payload = bytes_TaskHeader \<lparr>op_code = op, job_id = 7\<rparr> @ bytes_u32 n @ replicate 4087 0\<rparr>"

lemma request_read:
  assumes "TaskOp_wf op"
  shows "get_TaskHeader (payload (request op n)) = \<lparr>op_code = op, job_id = 7\<rparr>"
    "le_u32 (payload (request op n)) 5 = n" "mtype (request op n) = TASK_REQUEST"
  using get_TaskHeader_bytes [of "\<lparr>op_code = op, job_id = 7\<rparr>"] assms
    le_at(1) [of "bytes_TaskHeader \<lparr>op_code = op, job_id = 7\<rparr>" 5 n "replicate 4087 0"]
  by (simp_all add: request_def)

theorem batches_cover_the_work_witness:
  "\<exists>s' msgs. handle_message (\<lambda>_. True) 1 (replicate payload_size 0) (request COMPUTE_PI 120000000) 4 fresh_node = Inr s'
    \<and> sent s' = map (Pair 4) msgs \<and> sum_list (map message_count msgs) = unat (120000000 :: u32)
    \<and> sum_list (map message_value msgs) = 120000000"
  using batches_cover_the_work [of "replicate payload_size 0" "request COMPUTE_PI 120000000" "\<lambda>_. True" 1 4 fresh_node]
  by (auto simp: request_read fresh_node_def hits_def)

text \<open>The final answer to a long prime job is wrong: every batch counts the primes below its own
  size, starting again from 2, so the value in the \<^verbatim>\<open>TASK_RESULT\<close> for \<open>n\<close> is the number of primes
  below the size of the last batch, \<open>(n - 1) mod 50000000 + 1\<close>, and not the number below \<open>n\<close>.\<close>

theorem long_prime_job_result:
  assumes "length junk = payload_size" "mtype msg = TASK_REQUEST"
    "op_code (get_TaskHeader (payload msg)) = FIND_PRIMES" "le_u32 (payload msg) 5 > chunk_size"
  shows "\<exists>s' m. handle_message hit my_id junk msg sock s = Inr s' \<and> last (sent s') = (sock, m) \<and> mtype m = TASK_RESULT
    \<and> tr_value (get_TaskResult (payload m)) = of_nat (primes_below ((unat (le_u32 (payload msg) 5) - 1) mod 50000000 + 1))"
proof -
  obtain msgs d where h: "handle_message hit my_id junk msg sock s = Inr (s\<lparr>drawn := d, sent := sent s @ map (Pair sock) msgs\<rparr>)"
    "sum_list (map message_count msgs) = unat (le_u32 (payload msg) 5)"
    "\<forall>k < length msgs. batch_message hit (get_TaskHeader (payload msg)) my_id (drawn s + k * 50000000) (msgs ! k)"
    "map mtype msgs = replicate (length msgs - 1) TASK_PROGRESS @ [TASK_RESULT]"
    "\<forall>m \<in> set (butlast msgs). message_count m = 50000000"
    by (rule handle_message_batches [OF assms(1,2) disjI2 [OF assms(3)] assms(4), of hit my_id sock s])
  obtain ms m where ms: "msgs = ms @ [m]" using h(4) by (cases msgs rule: rev_cases) auto
  have "sum_list (map message_count ms) = length ms * 50000000"
    using h(5) ms by (induction ms arbitrary: msgs) auto
  then have n: "unat (le_u32 (payload msg) 5) = length ms * 50000000 + message_count m" using h(2) ms by simp
  have b: "batch_message hit (get_TaskHeader (payload msg)) my_id (drawn s + length ms * 50000000) m"
    using h(3) [rule_format, of "length ms"] ms by simp
  then have c: "0 < message_count m" "message_count m \<le> 50000000"
    by (simp_all add: batch_message_def Let_def word_less_nat_alt word_le_nat_alt)
  have "(unat (le_u32 (payload msg) 5) - 1) mod 50000000 + 1 = message_count m"
  proof -
    have "unat (le_u32 (payload msg) 5) - 1 = length ms * 50000000 + (message_count m - 1)" using n c(1) by simp
    then have "(unat (le_u32 (payload msg) 5) - 1) mod 50000000 = message_count m - 1"
      using c by (simp only: mod_mult_self3) (intro mod_less, simp)
    then show ?thesis using c(1) by simp
  qed
  moreover have "mtype m = TASK_RESULT" using h(4) ms by simp
  moreover have "tr_value (get_TaskResult (payload m)) = of_nat (primes_below (message_count m))"
    using b assms(3) unat_eq_of_nat [of "tr_value (get_TaskResult (payload m))"] by (simp add: batch_message_def Let_def batch_value_def)
  ultimately show ?thesis using h(1) ms by auto
qed

theorem long_prime_job_result_witness:
  "\<exists>s' m. handle_message (\<lambda>_. True) 1 (replicate payload_size 0) (request FIND_PRIMES 50000001) 4 fresh_node = Inr s'
    \<and> last (sent s') = (4, m) \<and> tr_value (get_TaskResult (payload m)) = 0"
  using long_prime_job_result [of "replicate payload_size 0" "request FIND_PRIMES 50000001" "\<lambda>_. True" 1 4 fresh_node]
    primes_below_two [of 1] by (auto simp: request_read)

section \<open>The table of nodes over time\<close>

text \<open>What happens to the table: messages arrive, tasks are given out, connections are lost.\<close>

inductive node_step :: "(nat \<Rightarrow> bool) \<Rightarrow> int \<Rightarrow> u8 list \<Rightarrow> Message option \<Rightarrow> node_state \<Rightarrow> node_state \<Rightarrow> bool"
  for hit my_id junk where
  received: "handle_message hit my_id junk msg sock s = Inr s' \<Longrightarrow> node_step hit my_id junk (Some msg) s s'"
| busy: "node_step hit my_id junk None s (mark_node_busy n s)"
| disconnected: "node_step hit my_id junk None s (handle_disconnect n s)"

inductive_cases node_stepE: "node_step hit my_id junk ev s s'"

inductive node_run :: "(nat \<Rightarrow> bool) \<Rightarrow> int \<Rightarrow> u8 list \<Rightarrow> Message option list \<Rightarrow> node_state \<Rightarrow> node_state \<Rightarrow> bool"
  for hit my_id junk where
  done_run: "node_run hit my_id junk [] s s"
| step_run: "node_step hit my_id junk ev s s1 \<Longrightarrow> node_run hit my_id junk evs s1 s' \<Longrightarrow> node_run hit my_id junk (ev # evs) s s'"

lemma batch_loop_status:
  "batch_loop hit my_id junk sock header remain s = Inr s' \<Longrightarrow> cluster_status s' = cluster_status s"
proof (induction hit my_id junk sock header remain s rule: batch_loop.induct [case_names loop])
  case (loop hit my_id junk sock header remain s)
  show ?case
  proof (cases "remain > 0")
    case True
    with loop.prems show ?thesis using loop.IH
      by (subst (asm) batch_loop.simps) (fastforce simp: tryR_Inr_iff Let_def send_message_def)
  qed (use loop.prems in \<open>subst (asm) batch_loop.simps, simp\<close>)
qed

text \<open>Only a status report changes the memory a node is known to have, and only of its sender.\<close>

lemma handle_message_status:
  assumes "handle_message hit my_id junk msg sock s = Inr s'"
  shows "cluster_status s' = cluster_status s \<or>
    mtype msg = STATUS_REPORT \<and> cluster_status s' = (cluster_status s)[unat (sender_id msg) := get_NodeStatus (payload msg)]"
  using assms batch_loop_status
  by (auto simp: handle_message_def handle_task_def Let_def tryR_Inr_iff send_message_def split: MsgType.splits if_splits)

definition silent :: "nat \<Rightarrow> Message option \<Rightarrow> bool" where
  "silent n ev \<longleftrightarrow> (case ev of Some msg \<Rightarrow> \<not> (mtype msg = STATUS_REPORT \<and> unat (sender_id msg) = n) | None \<Rightarrow> True)"

lemma node_step_memory:
  assumes "node_step hit my_id junk ev s s'" "silent n ev" "n < length (cluster_status s)" "ram_free_kb (cluster_status s ! n) = 0"
  shows "ram_free_kb (cluster_status s' ! n) = 0"
proof -
  have upd: "ram_free_kb (cluster_status (mark_node_busy k s) ! n) = 0" "ram_free_kb (cluster_status (handle_disconnect k s) ! n) = 0" for k
    using assms(3,4) by (cases "nat k = n"; simp add: mark_node_busy_def handle_disconnect_def zero_status_def Let_def)+
  show ?thesis using assms(1)
  proof (rule node_stepE)
    fix msg sock assume "ev = Some msg" "handle_message hit my_id junk msg sock s = Inr s'"
    then show ?thesis using handle_message_status assms(2-4) by (fastforce simp: silent_def)
  qed (use upd in simp_all)
qed

lemma node_step_length: "node_step hit my_id junk ev s s' \<Longrightarrow> length (cluster_status s') = length (cluster_status s)"
  by (auto elim!: node_stepE dest!: handle_message_status simp: mark_node_busy_def handle_disconnect_def Let_def)

lemma node_run_memory:
  assumes "node_run hit my_id junk evs s s'" "\<forall>ev \<in> set evs. silent n ev" "n < length (cluster_status s)"
    "ram_free_kb (cluster_status s ! n) = 0"
  shows "ram_free_kb (cluster_status s' ! n) = 0 \<and> length (cluster_status s') = length (cluster_status s)"
  using assms
proof (induction rule: node_run.induct)
  case (step_run ev s s1 evs s')
  then show ?case using node_step_memory [of hit my_id junk ev s s1 n] node_step_length by auto
qed simp

text \<open>Once the connection to a node is lost, no further task is given to it until it reports
  again: whatever messages arrive, tasks are handed out and connections are lost in between, the
  scheduler does not choose it while no status report with its id comes in.\<close>

theorem lost_node_not_chosen:
  assumes "length (cluster_status s) = MAX_PEERS + 1" "1 \<le> n" "n \<le> MAX_PEERS"
    and "node_run hit my_id junk evs (handle_disconnect (int n) s) s'" "\<forall>ev \<in> set evs. silent n ev"
  shows "length (cluster_status s') = MAX_PEERS + 1 \<and> find_best_node my_id s' \<noteq> int n"
proof -
  have "n < length (cluster_status (handle_disconnect (int n) s))" "ram_free_kb (cluster_status (handle_disconnect (int n) s) ! n) = 0"
    using assms(1-3) by (auto simp: handle_disconnect_def zero_status_def)
  from node_run_memory [OF assms(4,5) this] have r: "ram_free_kb (cluster_status s' ! n) = 0" "length (cluster_status s') = MAX_PEERS + 1"
    using assms(1-3) by (auto simp: handle_disconnect_def)
  then have "\<not> eligible my_id s' (int n)" by (simp add: eligible_def)
  with find_best_node_eligible [OF r(2), of my_id] r(2) show ?thesis by (cases "find_best_node my_id s' = -1") auto
qed


theorem lost_node_not_chosen_witness:
  "find_best_node 1 (handle_disconnect 3 (mark_node_busy 3 (handle_disconnect (int 3) (reported 3 100 0 fresh_node)))) \<noteq> int 3"
proof -
  let ?s = "reported 3 100 0 fresh_node"
  have "node_run (\<lambda>_. True) 1 [] [None, None] (handle_disconnect (int 3) ?s) (handle_disconnect 3 (mark_node_busy 3 (handle_disconnect (int 3) ?s)))"
    by (rule step_run [OF busy step_run [OF disconnected done_run]])
  moreover have "length (cluster_status ?s) = MAX_PEERS + 1" by (simp add: reported_def fresh_node_def)
  ultimately show ?thesis
    using lost_node_not_chosen [of ?s 3 "\<lambda>_. True" 1 "[]" "[None, None]"] by (simp add: silent_def)
qed

end
