(* ===== verification/Velum_Sandbox.thy ===== *)
theory Velum_Sandbox
  imports M3_Env_Props Velum_Node
begin

text \<open>
  The sandbox of \<^verbatim>\<open>src/velum_core.cpp\<close>: a WebAssembly module that arrived in a message is parsed,
  loaded and called with the arguments that follow it in the payload as decimal strings. Then the
  C library functions it rests on (\<^verbatim>\<open>atoi\<close>, and \<^verbatim>\<open>sprintf\<close> with \<^verbatim>\<open>%d\<close>, which the sender uses).
\<close>

section \<open>Decimal numbers\<close>

text \<open>\<^verbatim>\<open>sprintf (s, "%d", v)\<close>, without the final NUL.\<close>

function digits :: "nat \<Rightarrow> u8 list" where
  "digits n = (if n < 10 then [of_nat (48 + n)] else digits (n div 10) @ [of_nat (48 + n mod 10)])"
  by pat_completeness auto
termination by (relation "measure id") auto

declare digits.simps [simp del]

definition decimal :: "int \<Rightarrow> u8 list" where
  "decimal v = (if v < 0 then 45 # digits (nat (- v)) else digits (nat v))"

definition is_space :: "u8 \<Rightarrow> bool" where
  "is_space c \<longleftrightarrow> c = 32 \<or> (9 \<le> c \<and> c \<le> 13)"

definition is_digit :: "u8 \<Rightarrow> bool" where
  "is_digit c \<longleftrightarrow> 48 \<le> c \<and> c \<le> 57"

fun atoi_digits :: "u8 list \<Rightarrow> int \<Rightarrow> int" where
  "atoi_digits [] v = v"
| "atoi_digits (c # cs) v = (if is_digit c then atoi_digits cs (10 * v + (uint c - 48)) else v)"

text \<open>\<^verbatim>\<open>atoi\<close>: leading blanks, a sign, digits; a value outside \<^verbatim>\<open>int\<close> is undefined.\<close>

definition atoi :: "u8 list \<Rightarrow> u32 result" where
  "atoi s = (let cs = dropWhile is_space (cstr s) in
     case cs of
       c # rest \<Rightarrow> if c = 45 then c_int (- atoi_digits rest 0)
                  else if c = 43 then c_int (atoi_digits rest 0) else c_int (atoi_digits cs 0)
     | [] \<Rightarrow> c_int 0)"

lemma digits_wf:
  "\<forall>c \<in> set (digits n). is_digit c" and digits_nonempty: "digits n \<noteq> []"
proof (induction n rule: digits.induct)
  case (1 n)
  have d: "is_digit (of_nat (48 + k))" if "k < 10" for k
  proof -
    have "unat (of_nat (48 + k) :: u8) = 48 + k" using that by (simp add: unsigned_of_nat take_bit_nat_eq_self del: of_nat_add)
    then show ?thesis using that by (simp add: is_digit_def word_le_nat_alt)
  qed
  { case 1
    show ?case using "1.IH"(1) d by (subst digits.simps) auto }
  { case 2
    show ?case by (subst digits.simps) simp }
qed

lemma atoi_digits_append:
  "\<forall>c \<in> set xs. is_digit c \<Longrightarrow> atoi_digits (xs @ ys) v = atoi_digits ys (atoi_digits xs v)"
  by (induction xs arbitrary: v) auto

lemma atoi_digits_digits: "atoi_digits (digits n) 0 = int n"
proof (induction n rule: digits.induct)
  case (1 n)
  have u: "uint (of_nat (48 + k) :: u8) = 48 + int k" if "k < 10" for k
    using that by (simp add: unsigned_of_nat uint_word_of_int take_bit_nat_eq_self flip: of_nat_add)
  have dg: "is_digit (of_nat (48 + k))" if "k < 10" for k
    using digits_wf [of k] that by (subst (asm) digits.simps) simp
  show ?case
  proof (cases "n < 10")
    case True
    then show ?thesis using u [OF True] dg [OF True] by (subst digits.simps) simp
  next
    case False
    have m: "n mod 10 < 10" by simp
    have "atoi_digits (digits n) 0 = atoi_digits [of_nat (48 + n mod 10)] (int (n div 10))"
      using 1 False digits_wf by (subst digits.simps) (simp add: atoi_digits_append)
    also have "\<dots> = 10 * int (n div 10) + int (n mod 10)" using u [OF m] dg [OF m] by simp
    also have "\<dots> = int n" by presburger
    finally show ?thesis .
  qed
qed

text \<open>What \<^verbatim>\<open>sprintf\<close> writes, \<^verbatim>\<open>atoi\<close> reads back.\<close>

lemma digit_bytes: "is_digit c \<Longrightarrow> c \<noteq> 0 \<and> \<not> is_space c \<and> c \<noteq> 45 \<and> c \<noteq> 43"
  by (auto simp: is_digit_def is_space_def word_le_nat_alt)

lemma decimal_no_nul: "0 \<notin> set (decimal v)"
  using digits_wf digit_bytes by (auto simp: decimal_def)

lemma atoi_decimal:
  assumes "- (2 ^ 31) \<le> v" "v < 2 ^ 31"
  shows "atoi (decimal v @ 0 # rest) = Inr (word_of_int v)"
proof -
  have c: "cstr (decimal v @ 0 # rest) = decimal v" by (rule cstr_append_nul [OF decimal_no_nul])
  have ci: "c_int v = Inr (word_of_int v)" using assms by (simp add: c_int_def)
  show ?thesis
  proof (cases "v < 0")
    case True
    then have "decimal v = 45 # digits (nat (- v))" by (simp add: decimal_def)
    then show ?thesis using c ci True atoi_digits_digits [of "nat (- v)"] by (simp add: atoi_def is_space_def)
  next
    case False
    then have d: "decimal v = digits (nat v)" by (simp add: decimal_def)
    obtain x xs where x: "digits (nat v) = x # xs" using digits_nonempty by (cases "digits (nat v)") auto
    have "is_digit x" using digits_wf [of "nat v"] x by simp
    then have "atoi (decimal v @ 0 # rest) = c_int (atoi_digits (digits (nat v)) 0)"
      using digit_bytes [of x] c by (simp add: atoi_def d x Let_def)
    then show ?thesis using ci False by (simp add: atoi_digits_digits)
  qed
qed

section \<open>The sandbox\<close>

text \<open>The argument strings, one behind the other; \<open>p\<close> is the memory, \<open>k\<close> the pointer.\<close>

fun parse_args :: "u8 list \<Rightarrow> nat \<Rightarrow> nat \<Rightarrow> u32 list result" where
  "parse_args p k 0 = Inr []"
| "parse_args p k (Suc n) =
    (if 0 \<in> set (drop k p) then
       tryR (atoi (drop k p)) (\<lambda>val. tryR (parse_args p (k + length (cstr (drop k p)) + 1) n) (\<lambda>vals. Inr (val # vals)))
     else Inl C_undefined)"

text \<open>
  What the sandbox depends on: the allocator for the environment, the runtime, the module, and what
  the compiler of function bodies and the interpreter make of a function of the loaded runtime.
\<close>

record wasm_engine =
  we_env_ok :: bool
  we_runtime_ok :: bool
  we_module_ok :: bool
  we_alloc :: allocator
  we_compile :: "M3Runtime \<Rightarrow> nat \<times> nat \<Rightarrow> compile_outcome"
  we_exec :: "nat \<times> nat \<Rightarrow> M3Runtime \<Rightarrow> m3_error option \<times> M3Runtime"

definition failed :: "m3_error \<Rightarrow> int \<Rightarrow> u32 result" where
  "failed e exit_code = (if e = C_undefined then Inl C_undefined else Inr (word_of_int exit_code))"

text \<open>\<open>call_with_args\<close> is the part behind the lookup. An argument is a pointer into the vector of
  \<^verbatim>\<open>int\<close>s, so the words behind it are the following arguments.\<close>

definition call_with_args :: "wasm_engine \<Rightarrow> type_pool \<Rightarrow> u8 list \<Rightarrow> u32 \<Rightarrow> nat \<Rightarrow> nat \<times> nat \<Rightarrow> M3Runtime \<Rightarrow> u32 result" where
  "call_with_args we pool p n_args raw_args_buffer func runtime =
    tryR (parse_args p raw_args_buffer (unat n_args)) (\<lambda>int_args.
      case m3_Call (we_compile we runtime) (we_exec we) pool func n_args (map (\<lambda>i. drop i int_args) [0 ..< length int_args]) runtime of
        (Some e, runtime) \<Rightarrow> failed e (-5)
      | (None, runtime) \<Rightarrow>
          (case m3_GetResults pool func 1 runtime of
             Inl e \<Rightarrow> failed e 0
           | Inr rs \<Rightarrow> (case rs of [(ty, val)] \<Rightarrow> Inr (ucast val) | _ \<Rightarrow> Inl C_undefined)))"

definition execute_wasm_in_sandbox :: "wasm_engine \<Rightarrow> u8 list \<Rightarrow> nat \<Rightarrow> u32 \<Rightarrow> u8 list \<Rightarrow> u32 \<Rightarrow> nat \<Rightarrow> u32 result" where
  "execute_wasm_in_sandbox we p binary bin_size name n_args raw_args_buffer =
    (case m3_NewEnvironment (al_calloc (we_alloc we)) (we_env_ok we) of
       None \<Rightarrow> Inr (-1)
     | Some env \<Rightarrow>
    (case m3_NewRuntime (we_runtime_ok we) (we_alloc we) (64 * 1024) of
       None \<Rightarrow> Inr (-1)
     | Some runtime \<Rightarrow>
    (case m3_ParseModule None (al_calloc (we_alloc we)) (we_module_ok we) env p binary bin_size of
       (env, Inl e) \<Rightarrow> failed e (-2)
     | (env, Inr module) \<Rightarrow>
    (case m3_LoadModule (we_alloc we) p runtime module of
       (Some e, _, _) \<Rightarrow> failed e (-3)
     | (None, runtime, _) \<Rightarrow>
    (case m3_FindFunction (we_compile we runtime) runtime name of
       (Some e, _, _) \<Rightarrow> failed e (-4)
     | (None, None, _) \<Rightarrow> Inl C_undefined
     | (None, Some func, runtime) \<Rightarrow> call_with_args we (funcTypes env) p n_args raw_args_buffer func runtime)))))"

end
