(* ===== verification/Velum_Kernel.thy ===== *)
theory Velum_Kernel
  imports Velum_Sandbox
begin

text \<open>
  The kernel of a node, \<^verbatim>\<open>src/velum_core.cpp\<close>: its sockets, discovery, heartbeats, the messages it
  reads, and the two commands that hand out WebAssembly tasks. The static variables are one record;
  what the operating system answers (descriptors, bytes read, the time) is an argument. Descriptors
  index \<^verbatim>\<open>socket_to_id\<close>, which has 1024 entries: beyond it, and at a negative node id, the code is
  undefined.
\<close>

section \<open>State\<close>

record JobState =
  total_needed :: u32
  current_done :: u32
  accumulated_value :: u64

text \<open>\<open>node\<close> is the state of the node logic, with the messages sent; \<open>closed\<close> the descriptors closed and
  \<open>beacons\<close> the datagrams broadcast, in order. \<open>msg_buffer\<close> is the buffer all reads share.\<close>

record kernel =
  my_node_id :: int
  udp_fd :: int
  peer_sockets :: "int list"
  inbound_sockets :: "int list"
  socket_to_id :: "int list"
  pending_tasks :: "int \<Rightarrow> Message option"
  active_jobs :: "u32 \<Rightarrow> JobState option"
  msg_buffer :: "u8 list"
  last_heartbeat :: int
  last_beacon :: int
  node :: node_state
  closed :: "int list"
  beacons :: "u8 list list"

abbreviation (input) max_fds :: nat where "max_fds \<equiv> 1024"
abbreviation (input) sizeof_Message :: nat where "sizeof_Message \<equiv> 4099"

text \<open>The start of \<^verbatim>\<open>velum_engine_loop\<close>.\<close>

definition engine_start :: "int \<Rightarrow> int \<Rightarrow> kernel \<Rightarrow> kernel" where
  "engine_start udp now k = k\<lparr>peer_sockets := replicate MAX_PEERS 0, inbound_sockets := replicate MAX_PEERS 0,
     socket_to_id := replicate max_fds (-1), udp_fd := udp, last_heartbeat := now, last_beacon := now\<rparr>"

definition id_of_socket :: "int \<Rightarrow> kernel \<Rightarrow> int result" where
  "id_of_socket fd k = (if 0 \<le> fd \<and> nat fd < length (socket_to_id k) then Inr (socket_to_id k ! nat fd) else Inl C_undefined)"

definition set_id :: "int \<Rightarrow> int \<Rightarrow> kernel \<Rightarrow> kernel result" where
  "set_id fd n k = (if 0 \<le> fd \<and> nat fd < length (socket_to_id k)
     then Inr (k\<lparr>socket_to_id := (socket_to_id k)[nat fd := n]\<rparr>) else Inl C_undefined)"

section \<open>Workers\<close>

fun peer_workers :: "int \<Rightarrow> int list \<Rightarrow> int \<Rightarrow> int list" where
  "peer_workers my_id [] i = []"
| "peer_workers my_id (fd # fds) i =
    (if i = my_id then peer_workers my_id fds (i + 1)
     else if fd > 0 then i # peer_workers my_id fds (i + 1) else peer_workers my_id fds (i + 1))"

fun inbound_workers :: "int \<Rightarrow> kernel \<Rightarrow> int list \<Rightarrow> int list \<Rightarrow> int list result" where
  "inbound_workers my_id k [] workers = Inr workers"
| "inbound_workers my_id k (fd # fds) workers =
    (if fd > 0 then
       tryR (id_of_socket fd k) (\<lambda>remote_id.
         inbound_workers my_id k fds
           (if remote_id > 0 \<and> remote_id \<noteq> my_id \<and> remote_id \<notin> set workers then workers @ [remote_id] else workers))
     else inbound_workers my_id k fds workers)"

definition find_all_workers :: "int \<Rightarrow> kernel \<Rightarrow> int list result" where
  "find_all_workers my_id k = inbound_workers my_id k (inbound_sockets k) (peer_workers my_id (tl (peer_sockets k)) 1)"

section \<open>Discovery and heartbeats\<close>

text \<open>The beacon is not packed, but its three 32-bit fields leave no gaps.\<close>

record Beacon =
  magic :: u32
  b_node_id :: u32
  tcp_port :: u32

definition bytes_Beacon :: "Beacon \<Rightarrow> u8 list" where
  "bytes_Beacon b = bytes_u32 (magic b) @ bytes_u32 (b_node_id b) @ bytes_u32 (tcp_port b)"

definition get_Beacon :: "u8 list \<Rightarrow> Beacon" where
  "get_Beacon w = \<lparr>magic = le_u32 w 0, b_node_id = le_u32 w 4, tcp_port = le_u32 w 8\<rparr>"

definition send_udp_beacon :: "int \<Rightarrow> int \<Rightarrow> kernel \<Rightarrow> kernel" where
  "send_udp_beacon my_id my_tcp_port k =
    k\<lparr>beacons := beacons k @ [bytes_Beacon \<lparr>magic = 0xCAFEBABE, b_node_id = word_of_int my_id, tcp_port = word_of_int my_tcp_port\<rparr>]\<rparr>"

text \<open>A datagram; \<open>connect n\<close> is what \<^verbatim>\<open>connect_to_peer\<close> returns for node \<open>n\<close>.\<close>

definition receive_beacon :: "(int \<Rightarrow> int) \<Rightarrow> u8 list \<Rightarrow> kernel \<Rightarrow> kernel result" where
  "receive_beacon connect w k =
    (let b = get_Beacon w; id = sint (b_node_id b) in
     if length w = 12 \<and> magic b = 0xCAFEBABE then
       if id \<noteq> my_node_id k \<and> id < int MAX_PEERS then
         if \<not> (0 \<le> id \<and> nat id < length (peer_sockets k)) then Inl C_undefined
         else if peer_sockets k ! nat id = 0 then
           let sock = connect id in
           if sock > 0 then set_id sock id (k\<lparr>peer_sockets := (peer_sockets k)[nat id := sock]\<rparr>)
           else Inr k
         else Inr k
       else Inr k
     else Inr k)"

text \<open>The open sockets in the order the loops over the two arrays visit them; entry 0 of the peers is skipped.\<close>

definition open_sockets :: "kernel \<Rightarrow> int list" where
  "open_sockets k = filter (\<lambda>fd. fd > 0) (tl (peer_sockets k)) @ filter (\<lambda>fd. fd > 0) (inbound_sockets k)"

definition send_heartbeat :: "u8 list \<Rightarrow> nat \<Rightarrow> nat \<Rightarrow> kernel \<Rightarrow> kernel result" where
  "send_heartbeat junk rand1 rand2 k =
    (let status = \<lparr>cpu_load = of_nat (rand1 mod 100), ram_free_kb = 100, task_queue_len = of_nat (rand2 mod 10)\<rparr> in
     tryR (store_at junk 0 (bytes_NodeStatus status)) (\<lambda>p.
       let b_msg = \<lparr>sender_id = word_of_int (my_node_id k), mtype = STATUS_REPORT, payload = p\<rparr> in
       Inr (k\<lparr>node := fold (\<lambda>fd. send_message fd b_msg) (open_sockets k) (node k)\<rparr>)))"

section \<open>Connections\<close>

fun first_free :: "int list \<Rightarrow> nat option" where
  "first_free [] = None"
| "first_free (fd # fds) = (if fd = 0 then Some 0 else map_option Suc (first_free fds))"

text \<open>The descriptor \<open>ns\<close> that \<^verbatim>\<open>accept\<close> returned is stored as it is, -1 included.\<close>

definition accept_connection :: "int \<Rightarrow> kernel \<Rightarrow> kernel" where
  "accept_connection ns k =
    (case first_free (inbound_sockets k) of
       Some i \<Rightarrow> k\<lparr>inbound_sockets := (inbound_sockets k)[i := ns]\<rparr>
     | None \<Rightarrow> k\<lparr>closed := closed k @ [ns]\<rparr>)"

definition get_sock :: "bool \<Rightarrow> nat \<Rightarrow> kernel \<Rightarrow> int" where
  "get_sock inbound i k = (if inbound then inbound_sockets k ! i else peer_sockets k ! i)"

definition set_sock :: "bool \<Rightarrow> nat \<Rightarrow> int \<Rightarrow> kernel \<Rightarrow> kernel" where
  "set_sock inbound i fd k =
    (if inbound then k\<lparr>inbound_sockets := (inbound_sockets k)[i := fd]\<rparr> else k\<lparr>peer_sockets := (peer_sockets k)[i := fd]\<rparr>)"

text \<open>A connection that ended. \<^verbatim>\<open>sock\<close> is a reference to the array entry, so after \<^verbatim>\<open>sock = 0\<close> it is
  entry 0 of \<^verbatim>\<open>socket_to_id\<close> that is cleared.\<close>

definition connection_lost :: "bool \<Rightarrow> nat \<Rightarrow> kernel \<Rightarrow> kernel result" where
  "connection_lost inbound i k =
    (let sock = get_sock inbound i k in
     tryR (id_of_socket sock k) (\<lambda>dead_node.
     let k = set_sock inbound i 0 (k\<lparr>closed := closed k @ [sock]\<rparr>) in
     tryR (set_id (get_sock inbound i k) (-1) k) (\<lambda>k.
       if dead_node \<noteq> -1 then
         Inr (k\<lparr>node := handle_disconnect dead_node (node k), pending_tasks := (pending_tasks k)(dead_node := None)\<rparr>)
       else Inr k)))"

text \<open>A WebAssembly task; the module is run from the message buffer.\<close>

definition run_wasm_task :: "wasm_engine \<Rightarrow> u8 list \<Rightarrow> Message \<Rightarrow> kernel \<Rightarrow> kernel result" where
  "run_wasm_task we junk msg k =
    (let p = payload msg; args = get_WasmArgs p 5; binary_ptr = 5 + 44; args_ptr = binary_ptr + unat (binary_size args);
         name = drop 9 p in
     if 0 \<notin> set name then Inl C_undefined
     else
       tryR (execute_wasm_in_sandbox we p binary_ptr (binary_size args) name (argc args) args_ptr) (\<lambda>res_val.
       tryR (result_message (my_node_id k) junk TASK_RESULT
              \<lparr>tr_job_id = job_id (get_TaskHeader p), tr_value = res_val, tr_count = 1\<rparr>) (\<lambda>reply.
         let sender = unat (sender_id msg);
             reply_sock = (if sender < MAX_PEERS \<and> peer_sockets k ! sender > 0 then peer_sockets k ! sender else -1) in
         Inr (if reply_sock \<noteq> -1 then k\<lparr>node := send_message reply_sock reply (node k)\<rparr> else k))))"

definition dispatch :: "wasm_engine \<Rightarrow> (nat \<Rightarrow> bool) \<Rightarrow> u8 list \<Rightarrow> Message \<Rightarrow> int \<Rightarrow> kernel \<Rightarrow> kernel result" where
  "dispatch we hit junk msg sock k =
    (let to_node = tryR (handle_message hit (my_node_id k) junk msg sock (node k)) (\<lambda>s. Inr (k\<lparr>node := s\<rparr>)) in
     if mtype msg = TASK_REQUEST then
       if op_code (get_TaskHeader (payload msg)) = EXECUTE_WASM then run_wasm_task we junk msg k else to_node
     else if mtype msg = TASK_RESULT \<or> mtype msg = TASK_PROGRESS then Inr k
     else to_node)"

text \<open>\<^verbatim>\<open>read\<close> overwrites the beginning of the shared buffer with the bytes that arrived.\<close>

definition message_received :: "wasm_engine \<Rightarrow> (nat \<Rightarrow> bool) \<Rightarrow> u8 list \<Rightarrow> u8 list \<Rightarrow> bool \<Rightarrow> nat \<Rightarrow> kernel \<Rightarrow> kernel result" where
  "message_received we hit junk bs inbound i k =
    (let buffer = take sizeof_Message bs @ drop (length bs) (msg_buffer k);
         msg = get_Message buffer; sock = get_sock inbound i k in
     tryR (set_id sock (uint (sender_id msg)) (k\<lparr>msg_buffer := buffer\<rparr>)) (\<lambda>k.
       dispatch we hit junk msg sock k))"

text \<open>The readiness of a socket and what reading it gives: not ready, the end, or bytes.\<close>

datatype read_event = Not_ready | Read_end | Read_bytes "u8 list"

definition handle_sock :: "wasm_engine \<Rightarrow> (nat \<Rightarrow> bool) \<Rightarrow> u8 list \<Rightarrow> (bool \<Rightarrow> nat \<Rightarrow> read_event) \<Rightarrow> bool \<times> nat \<Rightarrow> kernel \<Rightarrow> kernel result" where
  "handle_sock we hit junk rd bi k =
    (let (inbound, i) = bi in
     if get_sock inbound i k > 0 then
       (case rd inbound i of
          Not_ready \<Rightarrow> Inr k
        | Read_end \<Rightarrow> connection_lost inbound i k
        | Read_bytes bs \<Rightarrow> message_received we hit junk bs inbound i k)
     else Inr k)"

section \<open>One round of the engine\<close>

text \<open>What the operating system supplies in one round of \<^verbatim>\<open>velum_engine_loop\<close>.\<close>

record tick =
  t_now :: int
  t_rand1 :: nat
  t_rand2 :: nat
  t_junk :: "u8 list"
  t_datagram :: "u8 list option"
  t_connects :: "int \<Rightarrow> int"
  t_accepted :: "int option"
  t_reads :: "bool \<Rightarrow> nat \<Rightarrow> read_event"

definition sock_slots :: "(bool \<times> nat) list" where
  "sock_slots = map (Pair False) [1 ..< MAX_PEERS] @ map (Pair True) [0 ..< MAX_PEERS]"

definition timers :: "tick \<Rightarrow> kernel \<Rightarrow> kernel result" where
  "timers t k =
    (let k = (if t_now t - last_beacon k > 3000 then
                let k = k\<lparr>last_beacon := t_now t\<rparr> in
                if udp_fd k > 0 then send_udp_beacon (my_node_id k) (8000 + my_node_id k) k else k
              else k) in
     if t_now t - last_heartbeat k > 500 then send_heartbeat (t_junk t) (t_rand1 t) (t_rand2 t) (k\<lparr>last_heartbeat := t_now t\<rparr>)
     else Inr k)"

definition engine_round :: "wasm_engine \<Rightarrow> (nat \<Rightarrow> bool) \<Rightarrow> tick \<Rightarrow> kernel \<Rightarrow> kernel result" where
  "engine_round we hit t k =
    tryR (timers t k) (\<lambda>k.
    tryR (if udp_fd k > 0 then (case t_datagram t of Some w \<Rightarrow> receive_beacon (t_connects t) w k | None \<Rightarrow> Inr k) else Inr k) (\<lambda>k.
    let k = (case t_accepted t of Some ns \<Rightarrow> accept_connection ns k | None \<Rightarrow> k) in
    each (handle_sock we hit (t_junk t) (t_reads t)) sock_slots k))"

section \<open>Handing out tasks\<close>

text \<open>\<^verbatim>\<open>strncpy\<close> of 31 characters into the 32 of the field; the last one keeps what was there (\<open>c\<close>).\<close>

definition strncpy31 :: "u8 list \<Rightarrow> u8 \<Rightarrow> u8 list" where
  "strncpy31 s c = take 31 (cstr s @ replicate 31 0) @ [c]"

definition arg_blob :: "u8 list list \<Rightarrow> u8 list" where
  "arg_blob args = concat (map (\<lambda>s. s @ [0]) args)"

definition wasm_task_message :: "u8 list \<Rightarrow> u8 \<Rightarrow> int \<Rightarrow> u32 \<Rightarrow> u8 list \<Rightarrow> u8 list \<Rightarrow> nat \<Rightarrow> u8 list \<Rightarrow> Message result" where
  "wasm_task_message junk c my_id job binary func nargs blob =
    (let header = \<lparr>op_code = EXECUTE_WASM, job_id = job\<rparr>;
         wasm_args = \<lparr>binary_size = of_nat (length binary), func_name = strncpy31 func c, argc = of_nat nargs,
                      args_size = of_nat (length blob)\<rparr> in
     tryR (store_at junk 0 (bytes_TaskHeader header)) (\<lambda>p.
     tryR (store_at p 5 (bytes_WasmArgs wasm_args)) (\<lambda>p.
     tryR (store_at p 49 binary) (\<lambda>p.
     tryR (store_at p (49 + length binary) blob) (\<lambda>p.
       Inr \<lparr>sender_id = word_of_int my_id, mtype = TASK_REQUEST, payload = p\<rparr>)))))"

text \<open>The socket of a worker: its outbound one, else the last inbound one that is known as its, else -1.\<close>

fun inbound_target :: "int \<Rightarrow> kernel \<Rightarrow> int list \<Rightarrow> int \<Rightarrow> int result" where
  "inbound_target winner k [] target = Inr target"
| "inbound_target winner k (fd # fds) target =
    (if fd > 0 then tryR (id_of_socket fd k) (\<lambda>n. inbound_target winner k fds (if n = winner then fd else target))
     else inbound_target winner k fds target)"

definition find_target :: "int \<Rightarrow> kernel \<Rightarrow> int result" where
  "find_target winner k =
    (if winner < int MAX_PEERS \<and> peer_sockets k ! nat winner > 0 then Inr (peer_sockets k ! nat winner)
     else inbound_target winner k (inbound_sockets k) (-1))"

text \<open>\<open>file\<close> are the bytes of the file, \<open>None\<close> when it cannot be opened.\<close>

definition velum_spawn_wasm :: "u8 list \<Rightarrow> u8 \<Rightarrow> nat \<Rightarrow> u8 list option \<Rightarrow> u8 list \<Rightarrow> u8 list list \<Rightarrow> kernel \<Rightarrow> kernel result" where
  "velum_spawn_wasm junk c rand file func args k =
    (case file of None \<Rightarrow> Inr k
     | Some binary \<Rightarrow>
         if length binary > 2000 then Inr k
         else
           let winner = find_best_node (my_node_id k) (node k) in
           if winner = -1 then Inr k
           else
             tryR (wasm_task_message junk c (my_node_id k) (of_nat (rand mod 9999)) binary func (length args) (arg_blob args)) (\<lambda>msg.
             tryR (find_target winner k) (\<lambda>target.
               if target \<noteq> -1 then Inr (k\<lparr>node := mark_node_busy winner (send_message target msg (node k))\<rparr>)
               else Inr k)))"

text \<open>The loop over the workers; the last of them gets the remainder too.\<close>

fun scatter_loop :: "u8 list \<Rightarrow> u8 \<Rightarrow> u32 \<Rightarrow> u8 list \<Rightarrow> u8 list \<Rightarrow> int \<Rightarrow> int \<Rightarrow> int list \<Rightarrow> int \<Rightarrow> kernel \<Rightarrow> kernel result" where
  "scatter_loop junk c job binary func chunk remainder [] current_start k = Inr k"
| "scatter_loop junk c job binary func chunk remainder (worker_id # workers) current_start k =
    tryR (c_int (chunk + (if workers = [] then remainder else 0))) (\<lambda>my_chunk.
    tryR (c_int (current_start + sint my_chunk)) (\<lambda>end_word.
    let my_end = sint end_word in
    tryR (wasm_task_message junk c (my_node_id k) job binary func 2 (arg_blob [decimal current_start, decimal my_end])) (\<lambda>msg.
    tryR (find_target worker_id k) (\<lambda>target.
      scatter_loop junk c job binary func chunk remainder workers my_end
        (if target \<noteq> -1 then
           k\<lparr>node := mark_node_busy worker_id (send_message target msg (node k)),
             pending_tasks := (pending_tasks k)(worker_id := Some msg)\<rparr>
         else k)))))"

text \<open>\<open>wait\<close> is what the engine makes of the state in the second the command waits for workers.\<close>

definition velum_spawn_wasm_distributed ::
    "(kernel \<Rightarrow> kernel) \<Rightarrow> u8 list \<Rightarrow> u8 \<Rightarrow> nat \<Rightarrow> u8 list option \<Rightarrow> u8 list \<Rightarrow> int \<Rightarrow> int \<Rightarrow> kernel \<Rightarrow> kernel result" where
  "velum_spawn_wasm_distributed wait junk c rand file func start stop k =
    (case file of None \<Rightarrow> Inr k
     | Some binary \<Rightarrow>
         if length binary > 2000 then Inr k
         else
           tryR (find_all_workers (my_node_id k) k) (\<lambda>workers.
           let k = (if workers = [] then wait k else k) in
           tryR (if workers = [] then find_all_workers (my_node_id k) k else Inr workers) (\<lambda>workers.
           if workers = [] then Inr k
           else
             tryR (c_int (stop - start)) (\<lambda>range.
             let n = int (length workers); job = of_nat (rand mod 9999) in
             scatter_loop junk c job binary func (sint range sdiv n) (sint range smod n) workers start
               (k\<lparr>active_jobs := (active_jobs k)(job \<mapsto> \<lparr>total_needed = range, current_done = 0, accumulated_value = 0\<rparr>)\<rparr>)))))"

end
