(* ===== verification/Velum_Kernel_Props.thy ===== *)
theory Velum_Kernel_Props
  imports Velum_Kernel
begin

text \<open>
  Properties of the kernel: the invariant of its tables, discovery, the workers found, the messages
  that hand out tasks and what their receivers make of them.
\<close>

section \<open>The invariant\<close>

definition kernel_ok :: "kernel \<Rightarrow> bool" where
  "kernel_ok k \<longleftrightarrow> length (peer_sockets k) = MAX_PEERS \<and> length (inbound_sockets k) = MAX_PEERS
     \<and> length (socket_to_id k) = max_fds \<and> (\<forall>fd \<in> set (peer_sockets k) \<union> set (inbound_sockets k). fd < int max_fds)
     \<and> length (cluster_status (node k)) = MAX_PEERS + 1 \<and> length (msg_buffer k) = sizeof_Message"

text \<open>Descriptors are small enough for the table, and the buffers have their sizes.\<close>

definition tick_ok :: "tick \<Rightarrow> bool" where
  "tick_ok t \<longleftrightarrow> length (t_junk t) = payload_size \<and> (\<forall>n. t_connects t n < int max_fds)
     \<and> (\<forall>ns. t_accepted t = Some ns \<longrightarrow> ns < int max_fds)"

lemma get_Beacon_bytes: "get_Beacon (bytes_Beacon b) = b"
  using le_at(1) [of "[]" 0 "magic b" "bytes_u32 (b_node_id b) @ bytes_u32 (tcp_port b)"]
    le_at(1) [of "bytes_u32 (magic b)" 4 "b_node_id b" "bytes_u32 (tcp_port b)"]
    le_at(1) [of "bytes_u32 (magic b) @ bytes_u32 (b_node_id b)" 8 "tcp_port b" "[]"]
  by (simp add: get_Beacon_def bytes_Beacon_def)

lemma length_bytes_Beacon [simp]: "length (bytes_Beacon b) = 12"
  by (simp add: bytes_Beacon_def)

text \<open>A beacon that is accepted and carries a negative id.\<close>

definition negative_beacon :: "kernel \<Rightarrow> u8 list \<Rightarrow> bool" where
  "negative_beacon k w \<longleftrightarrow> (let id = sint (b_node_id (get_Beacon w)) in
     length w = 12 \<and> magic (get_Beacon w) = 0xCAFEBABE \<and> id < 0 \<and> id \<noteq> my_node_id k)"

text \<open>No beacon with a negative id, and nothing read asks for work. A read of any number of bytes overwrites
  the beginning of the shared buffer, so the type of the message is that of byte 2 of the last read
  that had so many.\<close>

definition quiet_tick :: "kernel \<Rightarrow> tick \<Rightarrow> bool" where
  "quiet_tick k t \<longleftrightarrow> (\<forall>w. t_datagram t = Some w \<longrightarrow> \<not> negative_beacon k w)
     \<and> mtype (get_Message (msg_buffer k)) \<noteq> TASK_REQUEST
     \<and> (\<forall>inbound i bs. t_reads t inbound i = Read_bytes bs \<longrightarrow> 2 < length bs \<longrightarrow> MsgType_of (bs ! 2) \<noteq> TASK_REQUEST)"

lemma set_list_update: "i < length xs \<Longrightarrow> set (xs[i := x]) \<subseteq> insert x (set xs)"
  by (rule set_update_subset_insert)

lemma id_of_socket_ok: "kernel_ok k \<Longrightarrow> 0 \<le> fd \<Longrightarrow> fd < int max_fds \<Longrightarrow> id_of_socket fd k = Inr (socket_to_id k ! nat fd)"
  by (simp add: id_of_socket_def kernel_ok_def nat_less_iff)

lemma set_id_ok: "kernel_ok k \<Longrightarrow> 0 \<le> fd \<Longrightarrow> fd < int max_fds \<Longrightarrow> set_id fd n k = Inr (k\<lparr>socket_to_id := (socket_to_id k)[nat fd := n]\<rparr>)"
  by (simp add: set_id_def kernel_ok_def nat_less_iff)

lemma set_id_keeps: "set_id fd n k = Inr k' \<Longrightarrow> kernel_ok k \<Longrightarrow> kernel_ok k'"
  by (auto simp: set_id_def kernel_ok_def split: if_splits)

lemma kernel_ok_node: "kernel_ok k \<Longrightarrow> length (cluster_status s) = MAX_PEERS + 1 \<Longrightarrow> kernel_ok (k\<lparr>node := s\<rparr>)"
  by (simp add: kernel_ok_def)

lemma fold_send_status: "cluster_status (fold (\<lambda>fd. send_message fd m) fds s) = cluster_status s"
  by (induction fds arbitrary: s) (simp_all add: send_message_def)

lemma timers_keeps:
  assumes "timers t k = Inr k'" "kernel_ok k"
  shows "kernel_ok k'"
  using assms
  by (auto simp: timers_def send_heartbeat_def send_udp_beacon_def Let_def kernel_ok_def fold_send_status m3_result split: if_splits)

lemma timers_defined: "length (t_junk t) = payload_size \<Longrightarrow> \<exists>k'. timers t k = Inr k'"
  by (simp add: timers_def send_heartbeat_def Let_def store_at_def)

lemma receive_beacon_keeps:
  assumes "receive_beacon connect w k = Inr k'" "kernel_ok k" "\<forall>n. connect n < int max_fds"
  shows "kernel_ok k'"
proof -
  let ?i = "nat (sint (b_node_id (get_Beacon w)))" and ?s = "connect (sint (b_node_id (get_Beacon w)))"
  have "kernel_ok (k\<lparr>peer_sockets := (peer_sockets k)[?i := ?s]\<rparr>)"
    using assms(2,3) set_update_subset_insert [of "peer_sockets k" ?i ?s] by (fastforce simp: kernel_ok_def)
  then show ?thesis using assms(1,2) set_id_keeps by (auto simp: receive_beacon_def Let_def split: if_splits)
qed

lemma receive_beacon_defined:
  assumes "kernel_ok k" "\<forall>n. connect n < int max_fds" "\<not> negative_beacon k w"
  shows "\<exists>k'. receive_beacon connect w k = Inr k'"
  using assms by (auto simp: receive_beacon_def negative_beacon_def Let_def set_id_def kernel_ok_def nat_less_iff)

lemma receive_beacon_negative: "negative_beacon k w \<Longrightarrow> receive_beacon connect w k = Inl C_undefined"
  by (auto simp: receive_beacon_def negative_beacon_def Let_def)

lemma receive_beacon_buffer: "receive_beacon connect w k = Inr k' \<Longrightarrow> msg_buffer k' = msg_buffer k"
  by (auto simp: receive_beacon_def Let_def set_id_def split: if_splits)

lemma timers_same: "timers t k = Inr k' \<Longrightarrow> my_node_id k' = my_node_id k \<and> udp_fd k' = udp_fd k \<and> msg_buffer k' = msg_buffer k"
  by (auto simp: timers_def send_heartbeat_def send_udp_beacon_def Let_def m3_result split: if_splits)

lemma negative_beacon_same: "my_node_id k' = my_node_id k \<Longrightarrow> negative_beacon k' w = negative_beacon k w"
  by (simp add: negative_beacon_def)

lemma accept_connection_keeps: "kernel_ok k \<Longrightarrow> ns < int max_fds \<Longrightarrow> kernel_ok (accept_connection ns k)"
  using set_update_subset_insert [of "inbound_sockets k" _ ns]
  by (fastforce simp: accept_connection_def kernel_ok_def split: option.splits)

lemma accept_connection_buffer: "msg_buffer (accept_connection ns k) = msg_buffer k"
  by (auto simp: accept_connection_def split: option.splits)

lemma set_sock_keeps: "kernel_ok k \<Longrightarrow> fd < int max_fds \<Longrightarrow> kernel_ok (set_sock inbound i fd k)"
  using set_update_subset_insert [of "inbound_sockets k" i fd] set_update_subset_insert [of "peer_sockets k" i fd]
  by (fastforce simp: set_sock_def kernel_ok_def)

lemma get_sock_small: "kernel_ok k \<Longrightarrow> i < MAX_PEERS \<Longrightarrow> get_sock inbound i k < int max_fds"
  by (auto simp: get_sock_def kernel_ok_def)

lemma get_set_sock: "kernel_ok k \<Longrightarrow> i < MAX_PEERS \<Longrightarrow> get_sock inbound i (set_sock inbound i fd k) = fd"
  by (simp add: get_sock_def set_sock_def kernel_ok_def)

lemma connection_lost_eq:
  assumes "kernel_ok k" "i < MAX_PEERS" "get_sock inbound i k > 0"
  shows "connection_lost inbound i k = Inr
    (let sock = get_sock inbound i k; dead_node = socket_to_id k ! nat sock;
         k = set_sock inbound i 0 (k\<lparr>closed := closed k @ [sock]\<rparr>); k = k\<lparr>socket_to_id := (socket_to_id k)[0 := -1]\<rparr> in
     if dead_node \<noteq> -1 then k\<lparr>node := handle_disconnect dead_node (node k), pending_tasks := (pending_tasks k)(dead_node := None)\<rparr> else k)"
proof -
  have "kernel_ok (k\<lparr>closed := closed k @ [get_sock inbound i k]\<rparr>)" using assms(1) by (simp add: kernel_ok_def)
  from set_sock_keeps [OF this, of 0 inbound i] get_set_sock [OF this assms(2), of inbound 0]
  show ?thesis using assms get_sock_small [OF assms(1,2)] set_id_ok [of _ 0 "-1"]
    by (simp add: connection_lost_def Let_def id_of_socket_ok)
qed

lemma handle_disconnect_length [simp]: "length (cluster_status (handle_disconnect n s)) = length (cluster_status s)"
  by (simp add: handle_disconnect_def)

lemma connection_lost_keeps:
  assumes "kernel_ok k" "i < MAX_PEERS" "get_sock inbound i k > 0"
  shows "\<exists>k'. connection_lost inbound i k = Inr k' \<and> kernel_ok k'"
proof -
  have "kernel_ok (set_sock inbound i 0 (k\<lparr>closed := closed k @ [get_sock inbound i k]\<rparr>))"
    using assms(1) by (intro set_sock_keeps) (simp_all add: kernel_ok_def)
  then show ?thesis unfolding connection_lost_eq [OF assms] Let_def by (simp add: kernel_ok_def)
qed

lemma handle_message_length:
  "handle_message hit my_id junk msg sock s = Inr s' \<Longrightarrow> length (cluster_status s') = length (cluster_status s)"
  using handle_message_status by fastforce

lemma dispatch_keeps:
  assumes "dispatch we hit junk msg sock k = Inr k'" "kernel_ok k"
  shows "kernel_ok k'"
  using assms handle_message_length
  by (fastforce simp: dispatch_def run_wasm_task_def Let_def m3_result send_message_def kernel_ok_def split: if_splits)

lemma message_received_keeps:
  assumes "message_received we hit junk bs inbound i k = Inr k'" "kernel_ok k"
  shows "kernel_ok k'"
proof -
  have "kernel_ok (k\<lparr>msg_buffer := take sizeof_Message bs @ drop (length bs) (msg_buffer k)\<rparr>)"
    using assms(2) by (auto simp: kernel_ok_def min_def)
  then show ?thesis using assms(1) set_id_keeps dispatch_keeps by (auto simp: message_received_def Let_def m3_result)
qed

lemma dispatch_defined: "mtype msg \<noteq> TASK_REQUEST \<Longrightarrow> \<exists>k'. dispatch we hit junk msg sock k = Inr k'"
  by (cases "mtype msg") (auto simp: dispatch_def Let_def handle_message_def)

lemma dispatch_buffer: "dispatch we hit junk msg sock k = Inr k' \<Longrightarrow> msg_buffer k' = msg_buffer k"
  by (auto simp: dispatch_def run_wasm_task_def Let_def m3_result split: if_splits)

text \<open>The buffer does not hold a request for work.\<close>

abbreviation (input) calm :: "kernel \<Rightarrow> bool" where
  "calm k \<equiv> kernel_ok k \<and> mtype (get_Message (msg_buffer k)) \<noteq> TASK_REQUEST"

lemma message_received_defined:
  assumes "calm k" "i < MAX_PEERS" "get_sock inbound i k > 0" "2 < length bs \<longrightarrow> MsgType_of (bs ! 2) \<noteq> TASK_REQUEST"
  shows "\<exists>k'. message_received we hit junk bs inbound i k = Inr k' \<and> calm k'"
proof -
  let ?b = "take sizeof_Message bs @ drop (length bs) (msg_buffer k)"
  have len: "length (msg_buffer k) = 4099" using assms(1) by (simp add: kernel_ok_def)
  have ok: "kernel_ok (k\<lparr>msg_buffer := ?b\<rparr>)" using assms(1) by (auto simp: kernel_ok_def min_def)
  have t: "mtype (get_Message ?b) \<noteq> TASK_REQUEST"
    using assms(1,4) len by (cases "2 < length bs") (auto simp: get_Message_def nth_append not_less)
  let ?sock = "get_sock inbound i k" and ?id = "uint (sender_id (get_Message ?b))"
  let ?k = "k\<lparr>msg_buffer := ?b, socket_to_id := (socket_to_id k)[nat ?sock := ?id]\<rparr>"
  have "set_id ?sock ?id (k\<lparr>msg_buffer := ?b\<rparr>) = Inr ?k"
    using set_id_ok [OF ok, of ?sock ?id] assms(1-3) get_sock_small by simp
  moreover obtain k' where k': "dispatch we hit junk (get_Message ?b) ?sock ?k = Inr k'" using dispatch_defined [OF t] by blast
  ultimately have r: "message_received we hit junk bs inbound i k = Inr k'" by (simp add: message_received_def Let_def)
  have "msg_buffer k' = ?b" using dispatch_buffer [OF k'] by simp
  then show ?thesis using r t message_received_keeps assms(1) by metis
qed

lemma connection_lost_buffer:
  "kernel_ok k \<Longrightarrow> i < MAX_PEERS \<Longrightarrow> get_sock inbound i k > 0 \<Longrightarrow> connection_lost inbound i k = Inr k' \<Longrightarrow> msg_buffer k' = msg_buffer k"
  by (auto simp: connection_lost_eq Let_def set_sock_def split: if_splits)

lemma handle_sock_defined:
  assumes "calm k" "i < MAX_PEERS" "\<forall>bs. rd inbound i = Read_bytes bs \<longrightarrow> 2 < length bs \<longrightarrow> MsgType_of (bs ! 2) \<noteq> TASK_REQUEST"
  shows "\<exists>k'. handle_sock we hit junk rd (inbound, i) k = Inr k' \<and> calm k'"
proof (cases "get_sock inbound i k > 0")
  case True
  show ?thesis
  proof (cases "rd inbound i")
    case Read_end
    then show ?thesis using connection_lost_keeps [of k i inbound] connection_lost_buffer [of k i inbound] assms(1,2) True
      by (fastforce simp: handle_sock_def)
  next
    case (Read_bytes bs)
    then show ?thesis using message_received_defined [OF assms(1,2) True] assms(3) True by (simp add: handle_sock_def)
  qed (use assms(1) in \<open>simp add: handle_sock_def\<close>)
qed (use assms(1) in \<open>simp add: handle_sock_def\<close>)

lemma handle_sock_keeps:
  assumes "handle_sock we hit junk rd (inbound, i) k = Inr k'" "kernel_ok k" "i < MAX_PEERS"
  shows "kernel_ok k'"
  using assms connection_lost_keeps [OF assms(2,3)] message_received_keeps
  by (fastforce simp: handle_sock_def split: if_splits read_event.splits)

lemma each_keeps:
  "each f xs s = Inr s' \<Longrightarrow> P s \<Longrightarrow> (\<And>x s s'. x \<in> set xs \<Longrightarrow> f x s = Inr s' \<Longrightarrow> P s \<Longrightarrow> P s') \<Longrightarrow> P s'"
proof (induction xs arbitrary: s)
  case (Cons x xs)
  then show ?case by (auto simp: m3_result)
qed simp

lemma each_defined:
  "P s \<Longrightarrow> (\<And>x s. x \<in> set xs \<Longrightarrow> P s \<Longrightarrow> \<exists>s'. f x s = Inr s' \<and> P s') \<Longrightarrow> \<exists>s'. each f xs s = Inr s' \<and> P s'"
proof (induction xs arbitrary: s)
  case (Cons x xs)
  then obtain s1 where "f x s = Inr s1" "P s1" by (meson list.set_intros(1))
  with Cons show ?case by (metis each.simps(2) list.set_intros(2) tryR.simps(2))
qed simp

lemma sock_slots_bound: "(inbound, i) \<in> set sock_slots \<Longrightarrow> i < MAX_PEERS"
  by (auto simp: sock_slots_def)

lemma engine_round_ok:
  assumes "kernel_ok k" "tick_ok t"
  shows "engine_round we hit t k = Inr k' \<Longrightarrow> kernel_ok k'"
    and "quiet_tick k t \<Longrightarrow> \<exists>k'. engine_round we hit t k = Inr k'"
    and "udp_fd k > 0 \<Longrightarrow> t_datagram t = Some w \<Longrightarrow> negative_beacon k w \<Longrightarrow> engine_round we hit t k = Inl C_undefined"
proof -
  assume r: "engine_round we hit t k = Inr k'"
  obtain k1 k2 where 1: "timers t k = Inr k1"
    "(if udp_fd k1 > 0 then (case t_datagram t of Some w \<Rightarrow> receive_beacon (t_connects t) w k1 | None \<Rightarrow> Inr k1) else Inr k1) = Inr k2"
    "each (handle_sock we hit (t_junk t) (t_reads t)) sock_slots (case t_accepted t of Some ns \<Rightarrow> accept_connection ns k2 | None \<Rightarrow> k2) = Inr k'"
    using r by (auto simp: engine_round_def m3_result Let_def)
  have "kernel_ok k1" using timers_keeps [OF 1(1) assms(1)] .
  then have "kernel_ok k2" using 1(2) assms(2) receive_beacon_keeps by (auto simp: tick_ok_def split: if_splits option.splits)
  then have "kernel_ok (case t_accepted t of Some ns \<Rightarrow> accept_connection ns k2 | None \<Rightarrow> k2)"
    using assms(2) by (auto simp: tick_ok_def intro: accept_connection_keeps split: option.splits)
  from each_keeps [OF 1(3), of kernel_ok, OF this] show "kernel_ok k'"
    using handle_sock_keeps sock_slots_bound by (metis prod.exhaust)
next
  assume q: "quiet_tick k t"
  obtain k1 where k1: "timers t k = Inr k1" "kernel_ok k1"
    using timers_defined timers_keeps assms by (metis tick_ok_def)
  note same = timers_same [OF k1(1)]
  have c1: "calm k1" using k1(2) q same by (simp add: quiet_tick_def)
  obtain k2 where k2: "(if udp_fd k1 > 0 then (case t_datagram t of Some w \<Rightarrow> receive_beacon (t_connects t) w k1 | None \<Rightarrow> Inr k1) else Inr k1) = Inr k2" "calm k2"
  proof (cases "udp_fd k1 > 0 \<and> t_datagram t \<noteq> None")
    case True
    then obtain w where w: "t_datagram t = Some w" by auto
    then have "\<not> negative_beacon k1 w" using q negative_beacon_same [of k1 k] same by (simp add: quiet_tick_def)
    then obtain k2 where k2: "receive_beacon (t_connects t) w k1 = Inr k2"
      using receive_beacon_defined [OF k1(2), of "t_connects t" w] assms(2) by (auto simp: tick_ok_def)
    have "kernel_ok k2" using receive_beacon_keeps [OF k2 k1(2)] assms(2) by (simp add: tick_ok_def)
    then show ?thesis using that [of k2] True w k2 c1 receive_beacon_buffer [OF k2] by simp
  qed (use that c1 in auto)
  let ?k = "case t_accepted t of Some ns \<Rightarrow> accept_connection ns k2 | None \<Rightarrow> k2"
  have ok: "calm ?k"
    using assms(2) k2(2) by (auto simp: tick_ok_def accept_connection_buffer intro: accept_connection_keeps split: option.splits)
  have "\<exists>s'. each (handle_sock we hit (t_junk t) (t_reads t)) sock_slots ?k = Inr s' \<and> calm s'"
  proof (rule each_defined [of calm, OF ok])
    fix x s assume x: "x \<in> set sock_slots" and s: "calm s"
    obtain inbound i where xp: "x = (inbound, i)" by (cases x)
    then show "\<exists>s'. handle_sock we hit (t_junk t) (t_reads t) x s = Inr s' \<and> calm s'"
      using handle_sock_defined [OF s, of i "t_reads t" inbound] sock_slots_bound x q by (auto simp: quiet_tick_def)
  qed
  then show "\<exists>k'. engine_round we hit t k = Inr k'"
    using k1(1) k2(1) by (auto simp: engine_round_def Let_def)
next
  assume a: "udp_fd k > 0" "t_datagram t = Some w" "negative_beacon k w"
  obtain k1 where k1: "timers t k = Inr k1" using timers_defined assms by (metis tick_ok_def)
  then show "engine_round we hit t k = Inl C_undefined"
    using timers_same [OF k1] a receive_beacon_negative [of k1 w] negative_beacon_same [of k1 k w] by (simp add: engine_round_def)
qed

text \<open>C8: What keeps a round of the engine in its tables, as long as descriptors are below 1024. Every round
  that is defined keeps the invariant: both socket arrays have 16 entries, all of them descriptors
  that index the table of ids, the table of nodes has 17 entries and the buffer the size of a message.
  A round in which no accepted beacon carries a negative id, and neither the buffer nor anything read
  into it is a request for work, is defined, whatever connections are opened or lost and however many
  bytes each read gives. But an accepted beacon with a negative id, other than the node's own, makes the
  round undefined: the id indexes the table of peers.\<close>

theorem engine_round_safe:
  assumes "kernel_ok k" "tick_ok t"
  shows "(\<forall>k'. engine_round we hit t k = Inr k' \<longrightarrow> kernel_ok k')
    \<and> (quiet_tick k t \<longrightarrow> (\<exists>k'. engine_round we hit t k = Inr k'))
    \<and> (\<forall>w. udp_fd k > 0 \<longrightarrow> t_datagram t = Some w \<longrightarrow> negative_beacon k w \<longrightarrow> engine_round we hit t k = Inl C_undefined)"
  using engine_round_ok [OF assms] by blast

definition fresh_kernel :: kernel where
  "fresh_kernel = engine_start 5 0 \<lparr>my_node_id = 1, udp_fd = 0, peer_sockets = [], inbound_sockets = [], socket_to_id = [],
     pending_tasks = (\<lambda>_. None), active_jobs = (\<lambda>_. None), msg_buffer = replicate sizeof_Message 0, last_heartbeat = 0, last_beacon = 0,
     node = fresh_node, closed = [], beacons = []\<rparr>"

text \<open>A tick with a partial read of two bytes, and one with a beacon whose id is -2.\<close>

definition idle_tick :: tick where
  "idle_tick = \<lparr>t_now = 9000, t_rand1 = 3, t_rand2 = 4, t_junk = replicate payload_size 0, t_datagram = None, t_connects = (\<lambda>_. 7),
     t_accepted = Some 6, t_reads = (\<lambda>inbound i. if inbound then if i = 0 then Read_bytes [5, 0] else Read_end else Not_ready)\<rparr>"

definition bad_tick :: tick where
  "bad_tick = idle_tick\<lparr>t_datagram := Some (bytes_Beacon \<lparr>magic = 0xCAFEBABE, b_node_id = - 2, tcp_port = 8000\<rparr>)\<rparr>"

lemma fresh_kernel_ok: "kernel_ok fresh_kernel"
  by (auto simp: kernel_ok_def fresh_kernel_def engine_start_def fresh_node_def)

definition no_engine :: wasm_engine where
  "no_engine = \<lparr>we_env_ok = True, we_runtime_ok = True, we_module_ok = True, we_alloc = generous, we_compile = (\<lambda>_ _. Compiled), we_exec = (\<lambda>_ rt. (None, rt))\<rparr>"

theorem engine_round_safe_witness:
  "(\<exists>k'. engine_round no_engine (\<lambda>_. True) idle_tick fresh_kernel = Inr k' \<and> kernel_ok k')
    \<and> engine_round no_engine (\<lambda>_. True) bad_tick fresh_kernel = Inl C_undefined"
proof -
  have "mtype (get_Message (msg_buffer fresh_kernel)) \<noteq> TASK_REQUEST"
    by (simp add: fresh_kernel_def engine_start_def get_Message_def MsgType_of_def)
  then have "tick_ok idle_tick" "quiet_tick fresh_kernel idle_tick" by (auto simp: tick_ok_def quiet_tick_def idle_tick_def)
  moreover from this have "tick_ok bad_tick" by (simp add: tick_ok_def bad_tick_def)
  moreover have "t_datagram bad_tick = Some w \<Longrightarrow> negative_beacon fresh_kernel w" for w
    unfolding bad_tick_def by (auto simp: negative_beacon_def fresh_kernel_def engine_start_def get_Beacon_bytes)
  moreover have "udp_fd fresh_kernel > 0" "t_datagram bad_tick \<noteq> None" by (simp_all add: fresh_kernel_def engine_start_def bad_tick_def)
  ultimately show ?thesis
    using engine_round_safe [OF fresh_kernel_ok, of idle_tick no_engine "\<lambda>_. True"]
      engine_round_safe [OF fresh_kernel_ok, of bad_tick no_engine "\<lambda>_. True"] by blast
qed

section \<open>Workers\<close>

lemma peer_workers_set:
  "(j \<in> set (peer_workers my fds i) \<longleftrightarrow> (\<exists>n < length fds. j = i + int n \<and> j \<noteq> my \<and> fds ! n > 0)) \<and> distinct (peer_workers my fds i)"
proof -
  have mem: "j \<in> set (peer_workers my fds i) \<longleftrightarrow> (\<exists>n < length fds. j = i + int n \<and> j \<noteq> my \<and> fds ! n > 0)" for j i fds
  proof (induction fds arbitrary: i)
    case (Cons fd fds)
    have "(\<exists>n < length (fd # fds). j = i + int n \<and> j \<noteq> my \<and> (fd # fds) ! n > 0)
        \<longleftrightarrow> (j = i \<and> j \<noteq> my \<and> fd > 0) \<or> (\<exists>n < length fds. j = i + 1 + int n \<and> j \<noteq> my \<and> fds ! n > 0)"
      by (auto simp: Ex_less_Suc2 add.assoc)
    then show ?case using Cons.IH [of "i + 1"] by auto
  qed simp
  have "distinct (peer_workers my fds i)" for i fds
  proof (induction fds arbitrary: i)
    case (Cons fd fds)
    have "i \<notin> set (peer_workers my fds (i + 1))" using mem [where j = i and i = "i + 1" and fds = fds] by auto
    then show ?case using Cons.IH [of "i + 1"] by auto
  qed simp
  with mem show ?thesis by blast
qed

definition known_inbound :: "int \<Rightarrow> kernel \<Rightarrow> int set" where
  "known_inbound my k = {n. n > 0 \<and> n \<noteq> my \<and> (\<exists>fd \<in> set (inbound_sockets k). fd > 0 \<and> socket_to_id k ! nat fd = n)}"

definition known_peers :: "int \<Rightarrow> kernel \<Rightarrow> int set" where
  "known_peers my k = {n. 1 \<le> n \<and> n < int MAX_PEERS \<and> n \<noteq> my \<and> peer_sockets k ! nat n > 0}"

lemma inbound_workers_set:
  assumes "kernel_ok k" "\<forall>fd \<in> set fds. fd < int max_fds" "distinct ws"
  shows "\<exists>ws'. inbound_workers my k fds ws = Inr ws' \<and> distinct ws'
    \<and> set ws' = set ws \<union> {n. n > 0 \<and> n \<noteq> my \<and> (\<exists>fd \<in> set fds. fd > 0 \<and> socket_to_id k ! nat fd = n)}"
  using assms(2,3)
proof (induction fds arbitrary: ws)
  case (Cons fd fds)
  show ?case
  proof (cases "fd > 0")
    case True
    let ?n = "socket_to_id k ! nat fd"
    let ?ws = "if ?n > 0 \<and> ?n \<noteq> my \<and> ?n \<notin> set ws then ws @ [?n] else ws"
    have "id_of_socket fd k = Inr ?n" using Cons.prems True by (intro id_of_socket_ok [OF assms(1)]) simp_all
    then have "inbound_workers my k (fd # fds) ws = inbound_workers my k fds ?ws" using True by simp
    moreover have "distinct ?ws" using Cons.prems(2) by simp
    ultimately show ?thesis using Cons.IH [of ?ws] Cons.prems(1) True by fastforce
  next
    case False
    then show ?thesis using Cons.IH [of ws] Cons.prems by fastforce
  qed
qed simp

lemma find_all_workers_ok:
  assumes "kernel_ok k"
  shows "\<exists>ws. find_all_workers my k = Inr ws \<and> distinct ws \<and> set ws = known_peers my k \<union> known_inbound my k"
proof -
  obtain p0 ps where ps: "peer_sockets k = p0 # ps" "length ps = 15" using assms by (cases "peer_sockets k") (auto simp: kernel_ok_def)
  have "n \<in> set (peer_workers my ps 1) \<longleftrightarrow> n \<in> known_peers my k" for n
  proof -
    have "(\<exists>m < length ps. n = 1 + int m \<and> n \<noteq> my \<and> ps ! m > 0) \<longleftrightarrow> n \<in> known_peers my k"
    proof
      assume "\<exists>m < length ps. n = 1 + int m \<and> n \<noteq> my \<and> ps ! m > 0"
      then obtain m where m: "m < 15" "n = 1 + int m" "n \<noteq> my" "ps ! m > 0" using ps(2) by auto
      then have "nat n = Suc m" by simp
      then show "n \<in> known_peers my k" using m ps(1) by (simp add: known_peers_def)
    next
      assume n: "n \<in> known_peers my k"
      then have "nat n = Suc (nat n - 1)" "nat n - 1 < 15" "n = 1 + int (nat n - 1)" by (auto simp: known_peers_def)
      then show "\<exists>m < length ps. n = 1 + int m \<and> n \<noteq> my \<and> ps ! m > 0"
        using n ps by (intro exI [of _ "nat n - 1"]) (metis (mono_tags, lifting) known_peers_def mem_Collect_eq nth_Cons_Suc)
    qed
    then show ?thesis using peer_workers_set [of n my ps 1] by simp
  qed
  then have "set (peer_workers my ps 1) = known_peers my k" by blast
  moreover have "\<forall>fd \<in> set (inbound_sockets k). fd < int max_fds" using assms by (simp add: kernel_ok_def)
  ultimately show ?thesis
    using inbound_workers_set [OF assms, of "inbound_sockets k" "peer_workers my ps 1" my] peer_workers_set [of _ my ps 1]
    by (simp add: find_all_workers_def ps(1) known_inbound_def)
qed

text \<open>The workers found are exactly the other nodes that can be reached: without repetition, the ids
  from 1 to 15 with an open connection of this node's own, and the positive ids announced on an open
  inbound connection, never the node itself. The search stays inside the tables.\<close>

theorem workers_exact:
  assumes "kernel_ok k"
  shows "\<exists>ws. find_all_workers my k = Inr ws \<and> distinct ws \<and> my \<notin> set ws
    \<and> (\<forall>n. n \<in> set ws \<longleftrightarrow> n \<noteq> my \<and> (1 \<le> n \<and> n < int MAX_PEERS \<and> peer_sockets k ! nat n > 0
          \<or> n > 0 \<and> (\<exists>fd \<in> set (inbound_sockets k). fd > 0 \<and> socket_to_id k ! nat fd = n)))"
  using find_all_workers_ok [OF assms, of my] by (auto simp: known_peers_def known_inbound_def)

definition connected_kernel :: kernel where
  "connected_kernel = fresh_kernel\<lparr>peer_sockets := (replicate MAX_PEERS 0)[3 := 8], inbound_sockets := (replicate MAX_PEERS 0)[0 := 9],
     socket_to_id := (replicate max_fds (-1))[8 := 3, 9 := 20]\<rparr>"

lemma connected_kernel_ok: "kernel_ok connected_kernel"
proof -
  have "set ((replicate MAX_PEERS 0)[3 := 8]) \<subseteq> insert 8 (set (replicate MAX_PEERS (0::int)))"
    "set ((replicate MAX_PEERS 0)[0 := 9]) \<subseteq> insert 9 (set (replicate MAX_PEERS (0::int)))"
    by (rule set_update_subset_insert)+
  then show ?thesis using fresh_kernel_ok by (auto simp: kernel_ok_def connected_kernel_def)
qed

theorem workers_exact_witness:
  "\<exists>ws. find_all_workers 1 connected_kernel = Inr ws \<and> distinct ws \<and> 3 \<in> set ws"
  using workers_exact [OF connected_kernel_ok, of 1]
  by (auto simp: connected_kernel_def fresh_kernel_def engine_start_def)

section \<open>Discovery\<close>

text \<open>C15: A beacon makes its sender a worker. The datagram a node with an id from 1 to 15 broadcasts is
  accepted by every other node: one that has no connection to it connects, records the descriptor
  for the id, changes no other peer's entry, and from then on finds the sender among its workers;
  receiving the same datagram again changes nothing.\<close>

theorem beacon_makes_worker:
  assumes "kernel_ok k" "1 \<le> a" "a < int MAX_PEERS" "a \<noteq> my_node_id k" "peer_sockets k ! nat a = 0"
    and "0 < connect a" "connect a < int max_fds"
  shows "\<exists>w k'. beacons (send_udp_beacon a (8000 + a) sender) = beacons sender @ [w] \<and> receive_beacon connect w k = Inr k'
    \<and> peer_sockets k' = (peer_sockets k)[nat a := connect a] \<and> kernel_ok k'
    \<and> (\<exists>ws. find_all_workers (my_node_id k') k' = Inr ws \<and> a \<in> set ws)
    \<and> receive_beacon connect2 w k' = Inr k'"
proof -
  let ?b = "\<lparr>magic = 0xCAFEBABE, b_node_id = word_of_int a, tcp_port = word_of_int (8000 + a)\<rparr>"
  let ?k = "k\<lparr>peer_sockets := (peer_sockets k)[nat a := connect a]\<rparr>"
  let ?k' = "?k\<lparr>socket_to_id := (socket_to_id k)[nat (connect a) := a]\<rparr>"
  have id: "sint (word_of_int a :: u32) = a" using assms(2,3) by (intro sint_of_int_eq) simp_all
  have n: "nat a < length (peer_sockets k)" using assms(1-3) by (simp add: kernel_ok_def nat_less_iff)
  have ok: "kernel_ok ?k"
    using assms(1,7) set_update_subset_insert [of "peer_sockets k" "nat a" "connect a"] by (fastforce simp: kernel_ok_def)
  have "set_id (connect a) a ?k = Inr ?k'" using set_id_ok [OF ok, of "connect a" a] assms(6,7) by simp
  then have r: "receive_beacon connect (bytes_Beacon ?b) k = Inr ?k'"
    using assms(2-6) n by (simp add: receive_beacon_def get_Beacon_bytes id Let_def)
  have ok': "kernel_ok ?k'" using ok by (simp add: kernel_ok_def)
  have "a \<in> known_peers (my_node_id ?k') ?k'" using assms(2-4,6) n by (simp add: known_peers_def)
  then have "\<exists>ws. find_all_workers (my_node_id ?k') ?k' = Inr ws \<and> a \<in> set ws"
    using find_all_workers_ok [OF ok', of "my_node_id ?k'"] by blast
  moreover have "receive_beacon connect2 (bytes_Beacon ?b) ?k' = Inr ?k'"
    using assms(2-4,6) n by (simp add: receive_beacon_def get_Beacon_bytes id Let_def)
  ultimately show ?thesis using r ok' by (intro exI [of _ "bytes_Beacon ?b"] exI [of _ ?k']) (simp add: send_udp_beacon_def)
qed

theorem beacon_makes_worker_witness:
  "\<exists>w k'. beacons (send_udp_beacon 3 8003 fresh_kernel) = [w] \<and> receive_beacon (\<lambda>_. 8) w fresh_kernel = Inr k' \<and> peer_sockets k' ! 3 = 8"
  using beacon_makes_worker [OF fresh_kernel_ok, of 3 "\<lambda>_. 8" fresh_kernel "\<lambda>_. 9"]
  by (fastforce simp: fresh_kernel_def engine_start_def)

section \<open>Lost connections\<close>

lemma first_free_le: "i < length fds \<Longrightarrow> fds ! i = 0 \<Longrightarrow> \<exists>j \<le> i. first_free fds = Some j"
proof (induction fds arbitrary: i)
  case (Cons fd fds)
  show ?case
  proof (cases "fd = 0")
    case False
    then obtain i' where "i = Suc i'" using Cons.prems by (cases i) auto
    then show ?thesis using Cons.IH [of i'] Cons.prems False by auto
  qed simp
qed simp

text \<open>C38: A lost connection leaves its node's id behind. The entry of the table of ids that is cleared is
  that of descriptor 0, not that of the closed descriptor, so when the system gives the same
  descriptor to the next connection that is accepted, the node counts the dead node as one of its
  workers again, although the new connection has not sent a byte.\<close>

theorem lost_id_survives:
  assumes "kernel_ok k" "i < MAX_PEERS" "inbound_sockets k ! i = fd" "0 < fd" "socket_to_id k ! nat fd = dead" "0 < dead" "dead \<noteq> my"
  shows "\<exists>k' ws. connection_lost True i k = Inr k' \<and> fd \<in> set (closed k')
    \<and> find_all_workers my (accept_connection fd k') = Inr ws \<and> dead \<in> set ws"
proof -
  have g: "get_sock True i k = fd" using assms(3) by (simp add: get_sock_def)
  then have pos: "get_sock True i k > 0" using assms(4) by simp
  obtain k' where k': "connection_lost True i k = Inr k'" "kernel_ok k'" using connection_lost_keeps [OF assms(1,2) pos] by blast
  have e: "inbound_sockets k' = (inbound_sockets k)[i := 0]" "socket_to_id k' = (socket_to_id k)[0 := -1]" "closed k' = closed k @ [fd]"
    using k'(1) assms(6) unfolding connection_lost_eq [OF assms(1,2) pos] by (auto simp: g assms(5) Let_def set_sock_def)
  have lt: "fd < int max_fds" using get_sock_small [OF assms(1,2), of True] g by simp
  have i: "i < length (inbound_sockets k')" "inbound_sockets k' ! i = 0" using assms(1,2) e(1) by (simp_all add: kernel_ok_def)
  obtain j where j: "j \<le> i" "first_free (inbound_sockets k') = Some j" using first_free_le [OF i] by blast
  let ?k = "accept_connection fd k'"
  have a: "inbound_sockets ?k = (inbound_sockets k')[j := fd]" "socket_to_id ?k = socket_to_id k'" using j by (simp_all add: accept_connection_def)
  have "fd \<in> set (inbound_sockets ?k)" using a(1) i(1) j(1) by (metis le_less_trans set_update_memI)
  moreover have "socket_to_id ?k ! nat fd = dead" using a(2) e(2) assms(4,5) by (subst a(2), subst e(2), subst nth_list_update_neq) simp_all
  ultimately have "dead \<in> known_inbound my ?k" using assms(4,6,7) by (auto simp: known_inbound_def)
  then show ?thesis using k' e(3) find_all_workers_ok [OF accept_connection_keeps [OF k'(2) lt], of my] by auto
qed

theorem lost_id_survives_witness:
  "\<exists>k' ws. connection_lost True 0 connected_kernel = Inr k' \<and> find_all_workers 1 (accept_connection 9 k') = Inr ws \<and> 20 \<in> set ws"
  using lost_id_survives [OF connected_kernel_ok, of 0 9 20 1]
  by (auto simp: connected_kernel_def fresh_kernel_def engine_start_def)

end
