(* ===== verification/Velum_Scatter.thy ===== *)
theory Velum_Scatter
  imports Velum_Kernel_Props M3_Env_Calls
begin

text \<open>
  Properties of the tasks handed out: the message a command builds is read by its receiver as the
  same module, function and arguments, a scattered range is split without gaps, and the sandbox
  passes the arguments on.
\<close>

section \<open>What a receiver reads\<close>

text \<open>The values of argument strings, as \<^verbatim>\<open>atoi\<close> gives them one after the other.\<close>

fun atoi_all :: "u8 list list \<Rightarrow> u32 list result" where
  "atoi_all [] = Inr []"
| "atoi_all (s # ss) = tryR (atoi s) (\<lambda>v. tryR (atoi_all ss) (\<lambda>vs. Inr (v # vs)))"

lemma atoi_terminated: "0 \<notin> set s \<Longrightarrow> atoi (s @ 0 # rest) = atoi s"
  by (simp add: atoi_def cstr_append_nul cstr_no_nul)

lemma parse_args_blob:
  "\<forall>s \<in> set strs. 0 \<notin> set s \<Longrightarrow> parse_args (pre @ arg_blob strs @ post) (length pre) (length strs) = atoi_all strs"
proof (induction strs arbitrary: pre)
  case (Cons s strs)
  let ?rest = "arg_blob strs @ post"
  have b: "pre @ arg_blob (s # strs) @ post = pre @ s @ 0 # ?rest" by (simp add: arg_blob_def)
  have d: "drop (length pre) (pre @ s @ 0 # ?rest) = s @ 0 # ?rest" by simp
  have c: "cstr (s @ 0 # ?rest) = s" using Cons.prems by (intro cstr_append_nul) simp
  have a: "atoi (s @ 0 # ?rest) = atoi s" using Cons.prems by (intro atoi_terminated) simp
  have "parse_args (pre @ s @ 0 # ?rest) (Suc (length pre + length s)) (length strs) = atoi_all strs"
    using Cons.IH [of "pre @ s @ [0]"] Cons.prems by simp
  then show ?case unfolding b by (simp add: d c a)
qed simp

text \<open>A message that its receiver takes for a call of \<open>func\<close> in \<open>binary\<close> with the given arguments.\<close>

definition asks_for :: "Message \<Rightarrow> u8 list \<Rightarrow> u8 list \<Rightarrow> u32 list \<Rightarrow> bool" where
  "asks_for msg binary func vals \<longleftrightarrow>
    (let p = payload msg; args = get_WasmArgs p 5 in
     mtype msg = TASK_REQUEST \<and> op_code (get_TaskHeader p) = EXECUTE_WASM \<and> length p = payload_size
     \<and> unat (binary_size args) = length binary \<and> take (length binary) (drop 49 p) = binary
     \<and> 0 \<in> set (drop 9 p) \<and> strcmp_eq (drop 9 p) func
     \<and> parse_args p (49 + unat (binary_size args)) (unat (argc args)) = Inr vals)"

lemma store_at_append:
  "length pre = off \<Longrightarrow> length bs \<le> length rest \<Longrightarrow> store_at (pre @ rest) off bs = Inr (pre @ bs @ drop (length bs) rest)"
  by (simp add: store_at_def)

lemma length_strncpy31 [simp]: "length (strncpy31 s c) = 32"
  by (simp add: strncpy31_def)

lemma strncpy31_cstr: "length (cstr s) \<le> 30 \<Longrightarrow> \<exists>t. strncpy31 s c = cstr s @ 0 # t"
proof -
  assume l: "length (cstr s) \<le> 30"
  then have "take 31 (cstr s @ replicate 31 0) = cstr s @ 0 # replicate (30 - length (cstr s)) 0"
    by (simp add: min_def replicate_Suc [symmetric] Suc_diff_le del: replicate_Suc)
  then show ?thesis by (simp add: strncpy31_def)
qed

lemma wasm_task_message_eq:
  assumes "length junk = payload_size"
  shows "wasm_task_message junk c my_id job binary func nargs blob =
    (if 49 + length binary + length blob \<le> payload_size
     then Inr \<lparr>sender_id = word_of_int my_id, mtype = TASK_REQUEST,
            payload = bytes_TaskHeader \<lparr>op_code = EXECUTE_WASM, job_id = job\<rparr>
              @ bytes_WasmArgs \<lparr>binary_size = of_nat (length binary), func_name = strncpy31 func c, argc = of_nat nargs, args_size = of_nat (length blob)\<rparr>
              @ binary @ blob @ drop (49 + length binary + length blob) junk\<rparr>
     else Inl C_undefined)"
proof -
  let ?H = "bytes_TaskHeader \<lparr>op_code = EXECUTE_WASM, job_id = job\<rparr>"
  let ?A = "bytes_WasmArgs \<lparr>binary_size = of_nat (length binary), func_name = strncpy31 func c, argc = of_nat nargs, args_size = of_nat (length blob)\<rparr>"
  have len: "length ?H = 5" "length ?A = 44" by simp_all
  have 1: "store_at junk 0 ?H = Inr (?H @ drop 5 junk)" using store_at_append [of "[]" 0 ?H junk] assms len by simp
  have 2: "store_at (?H @ drop 5 junk) 5 ?A = Inr ((?H @ ?A) @ drop 49 junk)"
    using store_at_append [of ?H 5 ?A "drop 5 junk"] assms len by simp
  have 3: "store_at ((?H @ ?A) @ drop 49 junk) 49 binary = (if 49 + length binary \<le> payload_size
      then Inr ((?H @ ?A @ binary) @ drop (49 + length binary) junk) else Inl C_undefined)"
    using store_at_append [of "?H @ ?A" 49 binary "drop 49 junk"] assms len by (auto simp: store_at_def add.commute)
  have 4: "store_at ((?H @ ?A @ binary) @ drop (49 + length binary) junk) (49 + length binary) blob =
     (if 49 + length binary + length blob \<le> payload_size
      then Inr (?H @ ?A @ binary @ blob @ drop (49 + length binary + length blob) junk) else Inl C_undefined)"
    if "49 + length binary \<le> payload_size"
    using store_at_append [of "?H @ ?A @ binary" "49 + length binary" blob "drop (49 + length binary) junk"] assms len that
    by (auto simp: store_at_def add.commute add.left_commute)
  show ?thesis
    unfolding wasm_task_message_def Let_def 1 tryR.simps 2 3 using 4 by auto
qed

lemma wasm_task_message_asks:
  assumes "length junk = payload_size" "49 + length binary + length (arg_blob args) \<le> payload_size"
    and "length (cstr func) \<le> 30" "\<forall>s \<in> set args. 0 \<notin> set s" "atoi_all args = Inr vals"
  obtains msg where "wasm_task_message junk c my_id job binary func (length args) (arg_blob args) = Inr msg"
    "asks_for msg binary func vals" "sender_id msg = word_of_int my_id"
proof -
  let ?H = "bytes_TaskHeader \<lparr>op_code = EXECUTE_WASM, job_id = job\<rparr>"
  let ?a = "\<lparr>binary_size = of_nat (length binary), func_name = strncpy31 func c, argc = of_nat (length args), args_size = of_nat (length (arg_blob args))\<rparr>"
  let ?rest = "drop (49 + length binary + length (arg_blob args)) junk"
  let ?p = "?H @ bytes_WasmArgs ?a @ binary @ arg_blob args @ ?rest"
  have len: "length ?H = 5" "length (bytes_WasmArgs ?a) = 44" by simp_all
  have nargs: "length args \<le> length (arg_blob args)" by (induction args) (auto simp: arg_blob_def)
  have u: "unat (of_nat (length binary) :: u32) = length binary" "unat (of_nat (length args) :: u32) = length args"
    using assms(2) nargs by (auto intro!: unat_of_nat32)
  have h: "get_TaskHeader ?p = \<lparr>op_code = EXECUTE_WASM, job_id = job\<rparr>" by (rule get_TaskHeader_bytes) simp
  have w: "get_WasmArgs ?p 5 = ?a" by (rule get_WasmArgs_bytes) simp_all
  have bin: "take (length binary) (drop 49 ?p) = binary" using len by simp
  have args: "parse_args ?p (49 + length binary) (length args) = Inr vals"
    using parse_args_blob [of args "?H @ bytes_WasmArgs ?a @ binary" ?rest] assms(4,5) len by simp
  obtain t where t: "strncpy31 func c = cstr func @ 0 # t" using strncpy31_cstr [OF assms(3)] by blast
  have name: "drop 9 ?p = cstr func @ 0 # t @ bytes_u32 (argc ?a) @ bytes_u32 (args_size ?a) @ binary @ arg_blob args @ ?rest"
    using len t by (simp add: bytes_WasmArgs_def)
  have nn: "0 \<notin> set (cstr func)" by (auto simp: cstr_def dest: set_takeWhileD)
  have "strcmp_eq (drop 9 ?p) func" unfolding name strcmp_eq_def by (rule cstr_append_nul [OF nn])
  moreover have "0 \<in> set (drop 9 ?p)" unfolding name by simp
  ultimately have "asks_for \<lparr>sender_id = word_of_int my_id, mtype = TASK_REQUEST, payload = ?p\<rparr> binary func vals"
    using h w bin args u assms(1,2) by (simp add: asks_for_def Let_def)
  then show thesis using that wasm_task_message_eq [OF assms(1)] assms(2) by fastforce
qed

section \<open>Where it goes\<close>

lemma inbound_target_ok:
  assumes "kernel_ok k" "\<forall>fd \<in> set fds. fd < int max_fds"
  shows "\<exists>t'. inbound_target w k fds t = Inr t'
    \<and> (t' \<in> set fds \<and> t' > 0 \<and> socket_to_id k ! nat t' = w
       \<or> t' = t \<and> (\<forall>fd \<in> set fds. fd > 0 \<longrightarrow> socket_to_id k ! nat fd \<noteq> w))"
  using assms(2)
proof (induction fds arbitrary: t)
  case (Cons fd fds)
  show ?case
  proof (cases "fd > 0")
    case True
    then have "id_of_socket fd k = Inr (socket_to_id k ! nat fd)" using Cons.prems by (intro id_of_socket_ok [OF assms(1)]) simp_all
    then show ?thesis using Cons.IH [of "if socket_to_id k ! nat fd = w then fd else t"] Cons.prems True by (auto split: if_splits)
  next
    case False
    then show ?thesis using Cons.IH [of t] Cons.prems by auto
  qed
qed simp

text \<open>The socket a task for node \<open>w\<close> goes to: an open one of that node, if there is any.\<close>

definition socket_of :: "kernel \<Rightarrow> int \<Rightarrow> int \<Rightarrow> bool" where
  "socket_of k w t \<longleftrightarrow> t > 0 \<and> (w < int MAX_PEERS \<and> t = peer_sockets k ! nat w
     \<or> t \<in> set (inbound_sockets k) \<and> socket_to_id k ! nat t = w)"

lemma find_target_ok:
  assumes "kernel_ok k"
  shows "\<exists>t. find_target w k = Inr t \<and> (socket_of k w t \<or> t = -1 \<and> (\<forall>s. 0 < w \<longrightarrow> \<not> socket_of k w s))"
proof -
  have "\<forall>fd \<in> set (inbound_sockets k). fd < int max_fds" using assms by (simp add: kernel_ok_def)
  from inbound_target_ok [OF assms this, of w "-1"] show ?thesis
    by (auto simp: find_target_def socket_of_def)
qed

lemma find_target_worker:
  assumes "kernel_ok k" "w \<in> known_peers my k \<union> known_inbound my k"
  shows "\<exists>t. find_target w k = Inr t \<and> socket_of k w t"
proof -
  have "0 < w \<and> (\<exists>s. socket_of k w s)" using assms(2) by (auto simp: known_peers_def known_inbound_def socket_of_def)
  with find_target_ok [OF assms(1), of w] show ?thesis by auto
qed

lemma find_target_update [simp]:
  "find_target w (k\<lparr>node := s\<rparr>) = find_target w k" "find_target w (k\<lparr>node := s, pending_tasks := p\<rparr>) = find_target w k"
  "find_target w (k\<lparr>active_jobs := j\<rparr>) = find_target w k"
proof -
  have "inbound_target w (k\<lparr>node := s\<rparr>) fds t = inbound_target w k fds t" "inbound_target w (k\<lparr>node := s, pending_tasks := p\<rparr>) fds t = inbound_target w k fds t"
    "inbound_target w (k\<lparr>active_jobs := j\<rparr>) fds t = inbound_target w k fds t" for fds t
    by (induction fds arbitrary: t) (simp_all add: id_of_socket_def)
  then show "find_target w (k\<lparr>node := s\<rparr>) = find_target w k" "find_target w (k\<lparr>node := s, pending_tasks := p\<rparr>) = find_target w k"
    "find_target w (k\<lparr>active_jobs := j\<rparr>) = find_target w k"
    by (simp_all add: find_target_def)
qed

lemma sent_mark_node_busy [simp]: "sent (mark_node_busy n s) = sent s"
  by (simp add: mark_node_busy_def Let_def)

lemma sent_send_message [simp]: "sent (send_message fd m s) = sent s @ [(fd, m)]"
  by (simp add: send_message_def)

text \<open>C14: A single task goes to the best worker as it was asked for. When the node logic has a worker
  that is connected, the name of the function has at most 30 characters and the argument strings are
  without zero bytes and in the range of \<^verbatim>\<open>int\<close>, the command does one of three things. For a file of
  more than 2000 bytes it does nothing. When module and arguments fit into the payload, it sends
  exactly one message, on an open socket of that worker, which its receiver reads as the same
  module, the same function and the arguments as \<^verbatim>\<open>atoi\<close> gives them. And when the arguments make
  them exceed the payload, they are copied past its end.\<close>

theorem spawn_delivers:
  assumes "kernel_ok k" "length junk = payload_size" "find_best_node (my_node_id k) (node k) = winner"
    and "winner \<noteq> -1" "socket_of k winner s" "length (cstr func) \<le> 30" "\<forall>s \<in> set args. 0 \<notin> set s" "atoi_all args = Inr vals"
  shows "if length binary > 2000 then velum_spawn_wasm junk c r (Some binary) func args k = Inr k
    else if 49 + length binary + length (arg_blob args) \<le> payload_size
    then \<exists>k' target msg. velum_spawn_wasm junk c r (Some binary) func args k = Inr k' \<and> sent (node k') = sent (node k) @ [(target, msg)]
      \<and> socket_of k winner target \<and> asks_for msg binary func vals
    else velum_spawn_wasm junk c r (Some binary) func args k = Inl C_undefined"
proof (cases "length binary > 2000")
  case True
  then show ?thesis by (simp add: velum_spawn_wasm_def)
next
  case small: False
  show ?thesis
  proof (cases "49 + length binary + length (arg_blob args) \<le> payload_size")
    case True
    obtain msg where m: "wasm_task_message junk c (my_node_id k) (of_nat (r mod 9999)) binary func (length args) (arg_blob args) = Inr msg"
      "asks_for msg binary func vals"
      using wasm_task_message_asks [OF assms(2) True assms(6-8)] by blast
    have len: "length (cluster_status (node k)) = MAX_PEERS + 1" using assms(1) by (simp add: kernel_ok_def)
    have "eligible (my_node_id k) (node k) winner" using find_best_node_eligible [OF len, of "my_node_id k"] assms(3,4) by simp
    then have "0 < winner" by (simp add: eligible_def)
    then obtain t where t: "find_target winner k = Inr t" "socket_of k winner t" using find_target_ok [OF assms(1), of winner] assms(5) by auto
    then have "t \<noteq> -1" by (auto simp: socket_of_def)
    then show ?thesis using True small assms(3,4) m t by (simp add: velum_spawn_wasm_def Let_def)
  next
    case False
    then show ?thesis using small assms(3,4) wasm_task_message_eq [OF assms(2)] by (simp add: velum_spawn_wasm_def Let_def)
  qed
qed

definition worker_kernel :: kernel where
  "worker_kernel = connected_kernel\<lparr>node := reported 3 100 0 fresh_node\<rparr>"

lemma worker_kernel_ok: "kernel_ok worker_kernel"
  using connected_kernel_ok by (simp add: worker_kernel_def reported_def fresh_node_def kernel_ok_def)

theorem spawn_delivers_witness:
  "\<exists>k' target msg. velum_spawn_wasm (replicate payload_size 0) 0 5 (Some [0, 0x61]) [0x66] [[0x31, 0x30]] worker_kernel = Inr k'
    \<and> sent (node k') = [(target, msg)] \<and> asks_for msg [0, 0x61] [0x66] [10]"
proof -
  have "find_best_node (my_node_id worker_kernel) (node worker_kernel) = 3" by code_simp
  moreover have "socket_of worker_kernel 3 8" by (simp add: socket_of_def worker_kernel_def connected_kernel_def)
  moreover have "atoi_all [[0x31, 0x30]] = Inr [10]" by code_simp
  moreover have "sent (node worker_kernel) = []" by (simp add: worker_kernel_def reported_def fresh_node_def)
  ultimately show ?thesis
    using spawn_delivers [OF worker_kernel_ok, of "replicate payload_size 0" 3 8 "[0x66]" "[[0x31, 0x30]]" "[10]" "[0, 0x61]" 0 5]
    by (auto simp: cstr_def arg_blob_def)
qed

section \<open>Scattering a range\<close>

lemma length_digits: "0 < d \<Longrightarrow> n < 10 ^ d \<Longrightarrow> length (digits n) \<le> d"
proof (induction d arbitrary: n)
  case (Suc d)
  show ?case
  proof (cases "n < 10")
    case False
    then have "0 < d" using Suc.prems by (cases d) auto
    moreover have "n div 10 < 10 ^ d" using Suc.prems(2) by (simp add: less_mult_imp_div_less mult.commute)
    ultimately show ?thesis using Suc.IH [of "n div 10"] False by (subst digits.simps) simp
  qed (subst digits.simps, simp)
qed simp

lemma length_decimal: "- (2 ^ 31) \<le> v \<Longrightarrow> v < 2 ^ 31 \<Longrightarrow> length (decimal v) \<le> 11"
  using length_digits [of 10 "nat v"] length_digits [of 10 "nat (- v)"]
  by (auto simp: decimal_def nat_less_iff)

lemma atoi_all_decimals:
  "\<forall>v \<in> set vs. - (2 ^ 31) \<le> v \<and> v < 2 ^ 31 \<Longrightarrow> atoi_all (map decimal vs) = Inr (map word_of_int vs)"
proof (induction vs)
  case (Cons v vs)
  have "atoi (decimal v) = Inr (word_of_int v)"
    using atoi_decimal [of v "[]"] atoi_terminated [OF decimal_no_nul, of v "[]"] Cons.prems by simp
  then show ?case using Cons by simp
qed simp

lemma c_int_ok: "- (2 ^ 31) \<le> v \<Longrightarrow> v < 2 ^ 31 \<Longrightarrow> c_int v = Inr (word_of_int v)"
  by (simp add: c_int_def)

lemma sint_int32: "- (2 ^ 31) \<le> v \<Longrightarrow> v < 2 ^ 31 \<Longrightarrow> sint (word_of_int v :: u32) = v"
  by (intro sint_of_int_eq) simp_all

lemma socket_of_update [simp]:
  "socket_of (k\<lparr>node := s\<rparr>) w t = socket_of k w t" "socket_of (k\<lparr>node := s, pending_tasks := p\<rparr>) w t = socket_of k w t"
  "socket_of (k\<lparr>active_jobs := j\<rparr>) w t = socket_of k w t"
  by (simp_all add: socket_of_def)

lemma scatter_loop_ok:
  assumes "length junk = payload_size" "length binary \<le> 2000" "length (cstr func) \<le> 30" "0 \<le> chunk" "0 \<le> remainder"
    and "- (2 ^ 31) \<le> cs" "cs + chunk * int (length ws) + remainder < 2 ^ 31" "chunk * int (length ws) + remainder < 2 ^ 31"
    and "\<forall>w \<in> set ws. \<exists>t. find_target w k = Inr t \<and> socket_of k w t" "distinct ws"
  shows "\<exists>k' ms. scatter_loop junk c job binary func chunk remainder ws cs k = Inr k' \<and> sent (node k') = sent (node k) @ ms
    \<and> length ms = length ws \<and> active_jobs k' = active_jobs k
    \<and> (\<forall>i < length ws. socket_of k (ws ! i) (fst (ms ! i)) \<and> pending_tasks k' (ws ! i) = Some (snd (ms ! i))
        \<and> asks_for (snd (ms ! i)) binary func [word_of_int (cs + chunk * int i),
             word_of_int (cs + chunk * int (Suc i) + (if Suc i = length ws then remainder else 0))])
    \<and> (\<forall>w. w \<notin> set ws \<longrightarrow> pending_tasks k' w = pending_tasks k w)"
  using assms(6-)
proof (induction ws arbitrary: cs k)
  case (Cons w ws)
  let ?r = "if ws = [] then remainder else 0"
  let ?e = "cs + (chunk + ?r)"
  have pos: "0 \<le> chunk * int (length ws)" using assms(4) by simp
  have exp: "chunk * int (length (w # ws)) = chunk + chunk * int (length ws)" by (simp add: distrib_left)
  have r: "0 \<le> ?r" "?r \<le> remainder" using assms(5) by simp_all
  have b: "chunk + ?r < 2 ^ 31" "?e < 2 ^ 31" "- (2 ^ 31) \<le> ?e" "- (2 ^ 31) \<le> chunk + ?r" "cs < 2 ^ 31"
    using Cons.prems(1-3) assms(4,5) pos r unfolding exp by - linarith+
  have ci: "c_int (chunk + ?r) = Inr (word_of_int (chunk + ?r))" "sint (word_of_int (chunk + ?r) :: u32) = chunk + ?r"
    "c_int ?e = Inr (word_of_int ?e)" "sint (word_of_int ?e :: u32) = ?e"
    using b by (simp_all only: c_int_ok sint_int32)
  have at: "atoi_all [decimal cs, decimal ?e] = Inr [word_of_int cs, word_of_int ?e]"
    using atoi_all_decimals [of "[cs, ?e]"] b Cons.prems(1) by (simp del: atoi_all.simps)
  have lb: "length (arg_blob [decimal cs, decimal ?e]) \<le> 24"
    using length_decimal [OF Cons.prems(1) b(5)] length_decimal [OF b(3,2)] by (simp add: arg_blob_def)
  obtain msg where m: "wasm_task_message junk c (my_node_id k) job binary func 2 (arg_blob [decimal cs, decimal ?e]) = Inr msg"
    "asks_for msg binary func [word_of_int cs, word_of_int ?e]"
  proof -
    have nn: "\<forall>s \<in> set [decimal cs, decimal ?e]. 0 \<notin> set s" by (simp add: decimal_no_nul)
    have fits: "49 + length binary + length (arg_blob [decimal cs, decimal ?e]) \<le> payload_size" using lb assms(2) by linarith
    have two: "length [decimal cs, decimal ?e] = 2" by simp
    show thesis
      using wasm_task_message_asks [OF assms(1) fits assms(3) nn at, of c "my_node_id k" job, unfolded two] that by blast
  qed
  obtain t where t: "find_target w k = Inr t" "socket_of k w t" using Cons.prems(4) by auto
  have tn: "t \<noteq> -1" using t(2) by (auto simp: socket_of_def)
  let ?k = "k\<lparr>node := mark_node_busy w (send_message t msg (node k)), pending_tasks := (pending_tasks k)(w := Some msg)\<rparr>"
  have step: "scatter_loop junk c job binary func chunk remainder (w # ws) cs k = scatter_loop junk c job binary func chunk remainder ws ?e ?k"
    by (simp only: scatter_loop.simps ci tryR.simps Let_def m(1) t(1) tn if_True not_False_eq_True)
  show ?case
  proof (cases "ws = []")
    case True
    then show ?thesis unfolding step using m(2) t(2) by (intro exI [of _ ?k] exI [of _ "[(t, msg)]"]) (simp add: add.assoc)
  next
    case False
    have e: "?e = cs + chunk" using False by simp
    have h: "\<forall>w \<in> set ws. \<exists>t. find_target w ?k = Inr t \<and> socket_of ?k w t" using Cons.prems(4) by simp
    have d: "distinct ws" using Cons.prems(5) by simp
    have l: "?e + chunk * int (length ws) + remainder < 2 ^ 31" "chunk * int (length ws) + remainder < 2 ^ 31"
      using Cons.prems(2,3) assms(4) unfolding exp e by linarith+
    obtain k' ms where IH: "scatter_loop junk c job binary func chunk remainder ws ?e ?k = Inr k'" "sent (node k') = sent (node ?k) @ ms"
      "length ms = length ws" "active_jobs k' = active_jobs ?k"
      "\<forall>i < length ws. socket_of ?k (ws ! i) (fst (ms ! i)) \<and> pending_tasks k' (ws ! i) = Some (snd (ms ! i))
        \<and> asks_for (snd (ms ! i)) binary func [word_of_int (?e + chunk * int i),
             word_of_int (?e + chunk * int (Suc i) + (if Suc i = length ws then remainder else 0))]"
      "\<forall>w. w \<notin> set ws \<longrightarrow> pending_tasks k' w = pending_tasks ?k w"
      using Cons.IH [OF b(3) l h d] by blast
    show ?thesis unfolding step
    proof (intro exI [of _ k'] exI [of _ "(t, msg) # ms"] conjI)
      show "\<forall>i < length (w # ws). socket_of k ((w # ws) ! i) (fst (((t, msg) # ms) ! i)) \<and> pending_tasks k' ((w # ws) ! i) = Some (snd (((t, msg) # ms) ! i))
        \<and> asks_for (snd (((t, msg) # ms) ! i)) binary func [word_of_int (cs + chunk * int i),
             word_of_int (cs + chunk * int (Suc i) + (if Suc i = length (w # ws) then remainder else 0))]"
      proof (intro allI impI)
        fix i assume i: "i < length (w # ws)"
        show "socket_of k ((w # ws) ! i) (fst (((t, msg) # ms) ! i)) \<and> pending_tasks k' ((w # ws) ! i) = Some (snd (((t, msg) # ms) ! i))
          \<and> asks_for (snd (((t, msg) # ms) ! i)) binary func [word_of_int (cs + chunk * int i),
             word_of_int (cs + chunk * int (Suc i) + (if Suc i = length (w # ws) then remainder else 0))]"
        proof (cases i)
          case 0
          then show ?thesis using t(2) m(2) False IH(6) Cons.prems(5) e by simp
        next
          case (Suc j)
          have eq: "?e + chunk * int j = cs + chunk * int i" "?e + chunk * int (Suc j) = cs + chunk * int (Suc i)"
            unfolding e Suc by (simp_all add: distrib_left)
          have n: "(w # ws) ! i = ws ! j" "((t, msg) # ms) ! i = ms ! j" "Suc i = length (w # ws) \<longleftrightarrow> Suc j = length ws" "j < length ws"
            using Suc i by simp_all
          show ?thesis using IH(5) [rule_format, OF n(4), unfolded eq] unfolding n(1-3) by simp
        qed
      qed
    qed (use IH Cons.prems(5) in \<open>auto simp: fun_upd_def\<close>)
  qed
qed simp

text \<open>C12: A scattered range reaches the workers without gaps and without overlap. When workers are found,
  the module has at most 2000 bytes, the name of the function at most 30 characters, and start, stop
  and their distance are in the range of \<^verbatim>\<open>int\<close>, the command succeeds and sends one message to every
  worker, on an open socket of that worker; there are cut points from the start of the range to its
  end, in order, such that the message for the i-th worker is read by its receiver as the call of the
  function with the i-th and the next cut point, and all parts but the last have the size of the
  range divided by the number of workers. Every worker's message is kept as its pending task.\<close>

theorem scatter_covers_range:
  assumes "kernel_ok k" "length junk = payload_size" "length binary \<le> 2000" "length (cstr func) \<le> 30"
    and "- (2 ^ 31) \<le> start" "start \<le> stop" "stop < 2 ^ 31" "stop - start < 2 ^ 31"
    and "find_all_workers (my_node_id k) k = Inr ws" "ws \<noteq> []"
  shows "\<exists>k' ms cut. velum_spawn_wasm_distributed wait junk c r (Some binary) func start stop k = Inr k'
    \<and> sent (node k') = sent (node k) @ ms \<and> length ms = length ws
    \<and> cut 0 = start \<and> cut (length ws) = stop \<and> (\<forall>i < length ws. cut i \<le> cut (Suc i))
    \<and> (\<forall>i < length ws. Suc i < length ws \<longrightarrow> cut (Suc i) - cut i = (stop - start) div int (length ws))
    \<and> (\<forall>i < length ws. socket_of k (ws ! i) (fst (ms ! i))
        \<and> asks_for (snd (ms ! i)) binary func [word_of_int (cut i), word_of_int (cut (Suc i))]
        \<and> pending_tasks k' (ws ! i) = Some (snd (ms ! i)))"
proof -
  let ?n = "int (length ws)" and ?R = "stop - start"
  let ?q = "?R div ?n" and ?m = "?R mod ?n"
  let ?job = "of_nat (r mod 9999) :: u32"
  let ?k = "k\<lparr>active_jobs := (active_jobs k)(?job \<mapsto> \<lparr>total_needed = word_of_int ?R, current_done = 0, accumulated_value = 0\<rparr>)\<rparr>"
  have n: "0 < ?n" using assms(10) by simp
  have dv: "?q * ?n + ?m = ?R" "0 \<le> ?q" "0 \<le> ?m" using n assms(6) by (simp_all add: pos_imp_zdiv_nonneg_iff)
  have sd: "?R sdiv ?n = ?q" "?R smod ?n = ?m"
    using n assms(6) by (simp_all add: signed_divide_int_def signed_modulo_int_def sgn_if)
  obtain ws' where w: "find_all_workers (my_node_id k) k = Inr ws'" "distinct ws'" "set ws' = known_peers (my_node_id k) k \<union> known_inbound (my_node_id k) k"
    using find_all_workers_ok [OF assms(1)] by blast
  then have ws: "distinct ws" "set ws = known_peers (my_node_id k) k \<union> known_inbound (my_node_id k) k" using assms(9) by auto
  have t: "\<forall>w \<in> set ws. \<exists>t. find_target w ?k = Inr t \<and> socket_of ?k w t"
    using find_target_worker [OF assms(1)] ws(2) by auto
  have b: "start + ?q * ?n + ?m < 2 ^ 31" "?q * ?n + ?m < 2 ^ 31" using dv(1) assms(7,8) by linarith+
  obtain k' ms where l: "scatter_loop junk c ?job binary func ?q ?m ws start ?k = Inr k'" "sent (node k') = sent (node ?k) @ ms" "length ms = length ws"
    "\<forall>i < length ws. socket_of ?k (ws ! i) (fst (ms ! i)) \<and> pending_tasks k' (ws ! i) = Some (snd (ms ! i))
        \<and> asks_for (snd (ms ! i)) binary func [word_of_int (start + ?q * int i),
             word_of_int (start + ?q * int (Suc i) + (if Suc i = length ws then ?m else 0))]"
    using scatter_loop_ok [OF assms(2-4) dv(2,3) assms(5) b t ws(1), of c ?job] by blast
  have R: "sint (word_of_int ?R :: u32) = ?R" "c_int ?R = Inr (word_of_int ?R)"
    using assms(6,8) by (intro sint_int32 c_int_ok; linarith)+
  have run: "velum_spawn_wasm_distributed wait junk c r (Some binary) func start stop k = Inr k'"
    using assms(3,9,10) R l(1) sd by (simp add: velum_spawn_wasm_distributed_def Let_def)
  define cut where "cut i = start + ?q * int i + (if i = length ws then ?m else 0)" for i
  have c0: "cut i = start + ?q * int i" if "i < length ws" for i using that by (simp add: cut_def)
  show ?thesis
  proof (intro exI [of _ k'] exI [of _ ms] exI [of _ cut] conjI)
    show "cut 0 = start" using assms(10) by (simp add: cut_def)
    show "cut (length ws) = stop" using dv(1) by (simp add: cut_def)
    show "\<forall>i < length ws. cut i \<le> cut (Suc i)" using dv(2,3) by (simp add: cut_def distrib_left)
    show "\<forall>i < length ws. Suc i < length ws \<longrightarrow> cut (Suc i) - cut i = ?q" by (simp add: cut_def distrib_left)
    show "\<forall>i < length ws. socket_of k (ws ! i) (fst (ms ! i)) \<and> asks_for (snd (ms ! i)) binary func [word_of_int (cut i), word_of_int (cut (Suc i))]
        \<and> pending_tasks k' (ws ! i) = Some (snd (ms ! i))"
    proof (intro allI impI)
      fix i assume i: "i < length ws"
      from l(4) [rule_format, OF i] show "socket_of k (ws ! i) (fst (ms ! i)) \<and> asks_for (snd (ms ! i)) binary func [word_of_int (cut i), word_of_int (cut (Suc i))]
          \<and> pending_tasks k' (ws ! i) = Some (snd (ms ! i))"
        unfolding c0 [OF i] cut_def [of "Suc i"] by simp
    qed
  qed (use run l(2,3) in simp_all)
qed

theorem scatter_covers_range_witness:
  "\<exists>k' ms. velum_spawn_wasm_distributed id (replicate payload_size 0) 0 7 (Some [0, 0x61]) [0x66] 0 11 connected_kernel = Inr k'
    \<and> sent (node k') = ms \<and> length ms = 2 \<and> asks_for (snd (ms ! 0)) [0, 0x61] [0x66] [0, 5] \<and> asks_for (snd (ms ! 1)) [0, 0x61] [0x66] [5, 11]"
proof -
  have w: "find_all_workers (my_node_id connected_kernel) connected_kernel = Inr [3, 20]" by code_simp
  have s: "sent (node connected_kernel) = []" by (simp add: connected_kernel_def fresh_kernel_def engine_start_def fresh_node_def)
  obtain k' ms cut where m: "velum_spawn_wasm_distributed id (replicate payload_size 0) 0 7 (Some [0, 0x61]) [0x66] 0 11 connected_kernel = Inr k'"
    "sent (node k') = sent (node connected_kernel) @ ms" "length ms = length [3, 20 :: int]"
    "cut 0 = 0" "cut (length [3, 20 :: int]) = 11"
    "\<forall>i < length [3, 20 :: int]. Suc i < length [3, 20 :: int] \<longrightarrow> cut (Suc i) - cut i = (11 - 0) div int (length [3, 20 :: int])"
    "\<forall>i < length [3, 20 :: int]. socket_of connected_kernel ([3, 20] ! i) (fst (ms ! i))
        \<and> asks_for (snd (ms ! i)) [0, 0x61] [0x66] [word_of_int (cut i), word_of_int (cut (Suc i))]
        \<and> pending_tasks k' ([3, 20] ! i) = Some (snd (ms ! i))"
    using scatter_covers_range [OF connected_kernel_ok _ _ _ _ _ _ _ w, of "replicate payload_size 0" "[0, 0x61]" "[0x66]" 0 11 id 0 7]
    by (auto simp: cstr_def)
  have "cut 1 = 5" using m(4) m(6) [rule_format, of 0] by simp
  then show ?thesis using m(1-5) s m(7) [rule_format, of 0] m(7) [rule_format, of 1] by (auto simp: numeral_2_eq_2)
qed

section \<open>The sandbox\<close>

lemma ucast_up_down: "ucast (ucast (x :: u32) :: u64) = x"
  by (rule bit_word_eqI) (simp add: bit_simps)

text \<open>C13: The sandbox calls the function with the numbers that were packed. When the function found is
  compiled, takes \<^verbatim>\<open>i32\<close>s and returns one, its module has no start function waiting to be run, the stack
  has room for its parameters, and the argument strings are decimal numbers in the range of \<^verbatim>\<open>int\<close>, as
  many as it has parameters, then the interpreter is entered with exactly these numbers in the argument
  slots; a trap gives the exit code -5, and otherwise the answer is the value the function left in its
  result slot.\<close>

theorem sandbox_passes_arguments:
  assumes "get_function rt h = Some (m, f)" "function_type pool f = Some t" "ft_wf t" "compiled f" "startFunction m < 0"
    and "set (ft_types t) \<subseteq> {1}" "ft_numRets t = 1" "unat (ft_numArgs t) = length vs"
    and "2 * (1 + length vs) \<le> rt_numStackSlots rt + 4" "\<forall>v \<in> set vs. - (2 ^ 31) \<le> v \<and> v < 2 ^ 31"
  shows "\<exists>st. (\<forall>i < length vs. st (2 * (1 + i)) = word_of_int (vs ! i))
    \<and> (\<forall>e rt'. we_exec we h (rt\<lparr>rt_stack := st\<rparr>) = (Some e, rt') \<and> e \<noteq> C_undefined \<longrightarrow>
          call_with_args we pool (pre @ arg_blob (map decimal vs) @ post) (ucast (ft_numArgs t)) (length pre) h rt = Inr (- 5))
    \<and> (\<forall>rt' m' f'. we_exec we h (rt\<lparr>rt_stack := st\<rparr>) = (None, rt') \<and> get_function rt' h = Some (m', f') \<and> function_type pool f' = Some t \<longrightarrow>
          call_with_args we pool (pre @ arg_blob (map decimal vs) @ post) (ucast (ft_numArgs t)) (length pre) h rt = Inr (rt_stack rt' 0))"
proof -
  let ?p = "pre @ arg_blob (map decimal vs) @ post" and ?vals = "map word_of_int vs :: u32 list"
  let ?args = "map (\<lambda>i. drop i ?vals) [0 ..< length ?vals]"
  have parse: "parse_args ?p (length pre) (length vs) = Inr ?vals"
    using parse_args_blob [of "map decimal vs" pre post] atoi_all_decimals [OF assms(10)] decimal_no_nul by auto
  have n: "unat (ucast (ft_numArgs t) :: u32) = length vs"
    using assms(8) unsigned_less [where ?'a = nat, of "ft_numArgs t"] by (simp add: unsigned_ucast_eq take_bit_nat_eq_self)
  have wf: "1 + length vs \<le> length (ft_types t)" using assms(3,7,8) by (simp add: ft_wf_def)
  have ty: "ft_types t ! (1 + i) = 1" if "i < length vs" for i using assms(6) wf that by (meson less_le_trans nat_add_left_cancel_less nth_mem singletonD subsetD)
  have sub: "set (ft_types t) \<subseteq> {1, 2, 3, 4}" using assms(6) by auto
  have words: "\<forall>i < length ?args. type_words (ft_types t ! (unat (ft_numRets t) + i)) \<le> length (?args ! i)"
    using ty assms(7) by (auto simp: type_words_def)
  have len: "length ?args = unat (ft_numArgs t)" using assms(8) by simp
  have room: "2 * (unat (ft_numRets t) + unat (ft_numArgs t)) \<le> rt_numStackSlots rt + 4" using assms(7-9) by simp
  obtain st where st: "\<forall>i < length ?args. words_at st (2 * (unat (ft_numRets t) + i)) (ft_types t ! (unat (ft_numRets t) + i))
          = take (type_words (ft_types t ! (unat (ft_numRets t) + i))) (?args ! i)"
    and call: "m3_Call (we_compile we rt) (we_exec we) pool h (ucast (ft_numArgs t)) ?args rt =
      (case we_exec we h (rt\<lparr>rt_stack := st\<rparr>) of (None, rt) \<Rightarrow> (None, rt\<lparr>rt_lastCalled := Some h\<rparr>) | (Some e, rt) \<Rightarrow> (Some e, rt\<lparr>rt_lastCalled := None\<rparr>))"
    by (rule m3_Call_enters [OF assms(1-5) sub len words room])
  have cwa: "call_with_args we pool ?p (ucast (ft_numArgs t)) (length pre) h rt =
      (case we_exec we h (rt\<lparr>rt_stack := st\<rparr>) of
         (Some e, rt') \<Rightarrow> failed e (-5)
       | (None, rt') \<Rightarrow> (case m3_GetResults pool h 1 (rt'\<lparr>rt_lastCalled := Some h\<rparr>) of Inl e \<Rightarrow> failed e 0
           | Inr rs \<Rightarrow> (case rs of [(ty, val)] \<Rightarrow> Inr (ucast val) | _ \<Rightarrow> Inl C_undefined)))"
    unfolding call_with_args_def n parse tryR.simps call by (auto split: prod.splits option.splits)
  show ?thesis
  proof (intro exI [of _ st] conjI allI impI)
    fix i assume i: "i < length vs"
    then show "st (2 * (1 + i)) = word_of_int (vs ! i)"
      using st [rule_format, of i] ty [OF i] assms(7) by (simp add: words_at_eq type_words_def take_Suc hd_drop_conv_nth)
  next
    fix rt' m' f'
    assume a: "we_exec we h (rt\<lparr>rt_stack := st\<rparr>) = (None, rt') \<and> get_function rt' h = Some (m', f') \<and> function_type pool f' = Some t"
    then have g: "get_function rt' h = Some (m', f')" "function_type pool f' = Some t" by simp_all
    obtain rs where rs: "m3_GetResults pool h (ucast (ft_numRets t)) (rt'\<lparr>rt_lastCalled := Some h\<rparr>) = Inr rs"
      "map fst rs = take (unat (ft_numRets t)) (ft_types t)"
      "\<forall>i < length rs. snd (rs ! i) = (case words_at (rt_stack rt') (2 * i) (fst (rs ! i)) of [a] \<Rightarrow> ucast a | [a, b] \<Rightarrow> ucast a OR push_bit 32 (ucast b))"
      by (rule m3_GetResults_reads [OF g sub])
    have "take 1 (ft_types t) = [1]" using wf assms(6) by (cases "ft_types t") auto
    then obtain v where v: "rs = [(1, v)]" using rs(2) assms(7) by (cases rs) auto
    then have "v = ucast (rt_stack rt' 0)" using rs(3) by (simp add: words_at_eq)
    then show "call_with_args we pool ?p (ucast (ft_numArgs t)) (length pre) h rt = Inr (rt_stack rt' 0)"
      unfolding cwa using a rs(1) v assms(7) ucast_up_down by simp
  qed (auto simp: cwa failed_def)
qed

definition add_engine :: wasm_engine where
  "add_engine = no_engine\<lparr>we_exec := add_exec\<rparr>"

theorem sandbox_passes_arguments_witness:
  "call_with_args add_engine [add_type] (arg_blob [decimal 20, decimal 22]) (ucast (ft_numArgs add_type)) 0 (0, 0) add_runtime = Inr 42"
proof -
  have f: "get_function add_runtime (0, 0) = Some (add_module, m_functions add_module ! 0)"
    by (simp add: get_function_def get_module_def add_runtime_def add_module_def)
  have t: "function_type [add_type] (m_functions add_module ! 0) = Some add_type"
    by (simp add: function_type_def add_module_def pool_get_def)
  obtain st where st: "\<forall>i < length [20, 22 :: int]. st (2 * (1 + i)) = word_of_int ([20, 22] ! i)"
    "\<forall>rt' m' f'. we_exec add_engine (0, 0) (add_runtime\<lparr>rt_stack := st\<rparr>) = (None, rt') \<and> get_function rt' (0, 0) = Some (m', f')
      \<and> function_type [add_type] f' = Some add_type \<longrightarrow>
        call_with_args add_engine [add_type] ([] @ arg_blob (map decimal [20, 22]) @ []) (ucast (ft_numArgs add_type)) (length ([] :: u8 list)) (0, 0) add_runtime
          = Inr (rt_stack rt' 0)"
    using sandbox_passes_arguments [OF f t, of "[20, 22]" add_engine "[]" "[]"]
    by (auto simp: ft_wf_def add_type_def add_module_def add_runtime_def fresh_runtime_def)
  have "get_function (add_runtime\<lparr>rt_stack := st'\<rparr>) (0, 0) = Some (add_module, m_functions add_module ! 0)" for st' using f by simp
  moreover have "st 2 = 20" "st 4 = 22" using st(1) [rule_format, of 0] st(1) [rule_format, of 1] by simp_all
  ultimately show ?thesis using st(2) t by (fastforce simp: add_engine_def add_exec_def)
qed

end
