(* ===== verification/Spec2Isabelle.thy ===== *)
theory Spec2Isabelle
  imports M3_Math M3_Code M3_Emit M3_Function M3_Module M3_Compile M3_Expr M3_Parse M3_Parse_Props
    M3_Branches M3_Opcodes M3_Blocks M3_Control M3_Blocks_Props M3_Targets
    M3_Memory M3_Exec M3_Exec_Safety M3_Env M3_Env_Props M3_Env_Calls
    M3_Decode M3_Straight M3_Straight_Ops M3_Straight_Body M3_Straight_Prologue M3_Straight_Function
    M3_Host M3_Libc M3_Libc_Props M3_Wasi M3_Wasi_Props M3_Wasi_Calls
    Velum_Protocol Velum_Tasks Velum_Node Velum_Sandbox Velum_Kernel Velum_Kernel_Props Velum_Scatter
begin

text \<open>
  VelumOS: a verification development of a cluster overlay that runs WebAssembly tasks.

  The program has two parts. \<^bold>\<open>wasm3\<close> (the C files) is an interpreter for WebAssembly: it parses a binary
  module, compiles each function into a chain of operations on a frame of 32-bit slots, and runs
  that chain. \<^bold>\<open>Velum\<close> (the C++ files) is the node: it finds other nodes by UDP beacons, exchanges
  packed messages over TCP, picks a worker by its reported load, and has a module that arrives in a
  message parsed, loaded and called in a sandbox made of wasm3.

  \<^bold>\<open>Theories and what they model\<close>
  \<^item> \<open>Prelude\<close>: machine integers, the error constants of \<^verbatim>\<open>include/wasm3.h\<close> as a datatype, the
    \<^verbatim>\<open>_try\<close>/\<^verbatim>\<open>_throw\<close> macros as operations on sums, C strings, shared lemmas on words.
  \<^item> \<open>M3_Core\<close>: \<^verbatim>\<open>src/m3_core.c\<close>, the byte and LEB128 readers over a byte list with cursor and end.
  \<^item> \<open>M3_Math\<close>: \<^verbatim>\<open>include/m3_math_utils.h\<close>, the integer operators with their traps.
  \<^item> \<open>M3_Code\<close>, \<open>M3_Emit\<close>: \<^verbatim>\<open>src/m3_code.c\<close> and the emission in \<^verbatim>\<open>src/m3_compile.c\<close>; code pages, their
    lists, and the bridge to a new page.
  \<^item> \<open>M3_Function\<close>, \<open>M3_Module\<close>: \<^verbatim>\<open>src/m3_function.c\<close>, \<^verbatim>\<open>src/m3_module.c\<close>, \<^verbatim>\<open>src/m3_bind.c\<close>; function
    types and their pool, signatures, modules and linking.
  \<^item> \<open>M3_Compile\<close>, \<open>M3_Expr\<close>: \<^verbatim>\<open>src/m3_compile.c\<close>; the operand stack with its slots and registers, and
    the compilation and evaluation of constant expressions.
  \<^item> \<open>M3_Branches\<close>, \<open>M3_Opcodes\<close>, \<open>M3_Blocks\<close>: \<^verbatim>\<open>src/m3_compile.c\<close>; the compilation of function
    bodies: scopes and branch patches, the compiler of every opcode, blocks and functions.
  \<^item> \<open>M3_Control\<close>, \<open>M3_Blocks_Props\<close>, \<open>M3_Targets\<close>: what these compilers preserve, the end of every
    compilation, and the targets of its branches.
  \<^item> \<open>M3_Parse\<close>, \<open>M3_Parse_Props\<close>: \<^verbatim>\<open>src/m3_parse.c\<close>, every section parser and the module loop.
  \<^item> \<open>M3_Memory\<close>: linear memory, its resizing, and the memory operations.
  \<^item> \<open>M3_Exec\<close>, \<open>M3_Exec_Safety\<close>: \<^verbatim>\<open>include/m3_exec.h\<close>, the operations as an executable machine.
  \<^item> \<open>M3_Decode\<close>, \<open>M3_Straight\<close>, \<open>M3_Straight_Ops\<close>, \<open>M3_Straight_Body\<close>, \<open>M3_Straight_Prologue\<close>,
    \<open>M3_Straight_Function\<close>: compiler and interpreter together. The stack machine of WebAssembly as the
    reference, the decoding of emitted words, and the simulation of the one by the other for functions
    of straight-line \<^verbatim>\<open>i32\<close> code.
  \<^item> \<open>M3_Host\<close>, \<open>M3_Libc\<close>, \<open>M3_Libc_Props\<close>: the \<^verbatim>\<open>m3Api\<close> macros of \<^verbatim>\<open>include/wasm3.h\<close> and the host functions
    of \<^verbatim>\<open>src/m3_api_libc.c\<close> with their linking; \<^verbatim>\<open>printf\<close> against a rendering of its format.
  \<^item> \<open>M3_Wasi\<close>, \<open>M3_Wasi_Props\<close>, \<open>M3_Wasi_Calls\<close>: \<^verbatim>\<open>src/m3_api_wasi.c\<close> as compiled on Linux: the WASI functions
    a module calls, with the context of arguments and the table of preopened directories.
  \<^item> \<open>M3_Env\<close>, \<open>M3_Env_Props\<close>, \<open>M3_Env_Calls\<close>: \<^verbatim>\<open>src/m3_env.c\<close>; loading a module into a runtime,
    lookup, calls and results.
  \<^item> \<open>Velum_Protocol\<close>: \<^verbatim>\<open>common/protocol.h\<close>, the packed structs and their bytes.
  \<^item> \<open>Velum_Tasks\<close>, \<open>Velum_Node\<close>: \<^verbatim>\<open>src/user_tasks.cpp\<close> and \<^verbatim>\<open>src/node_logic.cpp\<close>; the built-in tasks,
    the table of nodes, the choice of a worker, the checkpoint loop.
  \<^item> \<open>Velum_Sandbox\<close>, \<open>Velum_Kernel\<close>, \<open>Velum_Kernel_Props\<close>, \<open>Velum_Scatter\<close>: \<^verbatim>\<open>src/velum_core.cpp\<close>,
    \<^verbatim>\<open>src/network.cpp\<close>; the sandbox, the engine's rounds, and the commands that hand out tasks.

  \<^bold>\<open>How state and errors are kept\<close>
  A struct is a record, an enumeration a datatype, an integer a word of its width, a pointer into a
  byte buffer a position in a list. A function that can fail returns a sum whose left side is the
  error; where the code leaves a changed state behind on failure, the error carries that state.
  The value \<open>C_undefined\<close> stands for undefined behaviour of the C code: a read outside a buffer, an
  index outside an array, a null pointer used, a signed overflow. A theorem that a result is not
  \<open>C_undefined\<close>, or that a run succeeds, is a statement of memory safety. Allocation is an oracle:
  a function from the size asked for to whether it is granted.

  \<^bold>\<open>What the lemmas show\<close>
  The readers invert the encodings and never pass their end; a module that parses is consistent and
  nothing outside its bytes matters; the operand stack of the compiler always agrees with its slot
  table and registers; emitted code stays in its pages; compiling a function ends on every
  body, and all branches of the code lead to operations; the compiled code of a straight-line \<^verbatim>\<open>i32\<close>
  function computes what the WebAssembly stack machine computes; code that is well-formed runs without
  undefined behaviour whatever the inputs, and its result does not depend on the fuel; loads, stores
  and growth of the memory are exact; \<^verbatim>\<open>printf\<close> writes the rendering of its format; the WASI
  functions keep to the linear memory (but for two exceptions, which are stated), give a module its
  arguments and pass on exactly the bytes of its buffers; loading, lookup and
  calls keep their contracts; the node picks the best worker, splits work without loss, and hands out
  messages that their receivers read as
  what was asked for; a round of the engine stays in its tables.

  \<^bold>\<open>Interfaces\<close>
  Locales state what a client relies on and are interpreted on the model's definitions: the LEB128
  readers (\<open>M3_Core\<close>, used by every section parser), a byte store with its write laws
  (\<open>M3_Memory\<close>, used for data segments), and an invariant of the compilation (\<open>stack_invariant\<close> for
  the steps that emit nothing, \<open>compile_invariant\<close> for those that emit operations, both in
  \<open>M3_Control\<close>): a predicate that obeys its few laws is kept by the compiler of every opcode. It is
  interpreted on the cursor (\<open>M3_Blocks_Props\<close>) and on the code with its pointers (\<open>M3_Targets\<close>).

  \<^bold>\<open>Bounds and fuel\<close>
  Loops over data are recursion on the data or on a measure and need no fuel. The interpreter
  (\<open>RunCode\<close>) has one unit of fuel per operation, the compiler of statements (\<open>CompileBlockStatements\<close>)
  one per statement on a path of nested blocks; \<open>None\<close> means that it is used up, more fuel never
  changes a result, and the safety theorem speaks of every amount of it. For the compiler, more fuel
  than the body has bytes is always enough (\<open>CompileFunction_terminates\<close>). The configuration is that
  of the repository's build on a 64-bit host: 32-bit slots, 4000 slots and 2000 stack entries per
  function, 120 constants, pages of 64 KiB.

  \<^bold>\<open>Parameters\<close>
  What the operating system answers (descriptors, bytes read, time, random numbers), the constants of
  \<^verbatim>\<open>wasi_core.h\<close> (a record with the system calls, \<open>wasi_host\<close>), the allocator,
  host functions, custom-section handlers, and the bytes of uninitialised locals. In the runtime and
  the sandbox also what compiling and running a function body gives.

  \<^bold>\<open>Not modelled\<close>
  Floating-point operations (they rest on the platform's arithmetic), the uvwasi, meta-WASI and
  tracer bindings and the printing of information (calls into the host), tracing, profiling and backtraces,
  threads (a command of the user runs between two rounds of the engine), sleeping and printing.
\<close>

end
